(* ===== verification/Hostel_Prelude.thy ===== *)
theory Hostel_Prelude
  imports Main "HOL-Library.Word" "HOL-Library.Multiset"
begin

text \<open>
  Shared vocabulary of the Hostel development.

  \<^item> Go results: a call that may fail returns \<open>'e + 'a\<close>, \<open>Inl\<close> the error; \<open>res_bind\<close> is the
    early return \<open>if err != nil { return err }\<close> and \<open>traverse\<close> the loop that stops at the first error.
  \<^item> Time: \<open>time.Time\<close> is the number of nanoseconds since 1 January of year 1 (UTC), so Go's zero time
    is 0; \<open>time.Duration\<close> is an integer number of nanoseconds.
  \<^item> Strings: Go strings are byte strings, here \<open>string\<close>. The functions of the package \<open>strings\<close>
    that the sources use are defined on bytes; \<open>to_lower\<close> and \<open>trim_space\<close> say below what they do on
    bytes outside ASCII.
  \<^item> \<open>state_machine\<close> is the interface of a component with a step relation and an invariant;
    each component with a step relation interprets it, so that "the invariant holds in every
    reachable state" is proved once.
  \<^item> \<open>incremental_check\<close> is the interface of a loop that normalizes each element of a declaration
    and compares it with the earlier ones; volumes, mounts and pillows interpret it.
\<close>

named_theorems go_strings \<open>definitions of the string functions\<close>

section \<open>Results\<close>

type_synonym ('e, 'a) result = "'e + 'a"

fun res_bind :: "('e, 'a) result \<Rightarrow> ('a \<Rightarrow> ('e, 'b) result) \<Rightarrow> ('e, 'b) result" where
  "res_bind (Inl e) f = Inl e"
| "res_bind (Inr x) f = f x"

fun traverse :: "('a \<Rightarrow> ('e, 'b) result) \<Rightarrow> 'a list \<Rightarrow> ('e, 'b list) result" where
  "traverse f [] = Inr []"
| "traverse f (x # xs) =
     res_bind (f x) (\<lambda>y. res_bind (traverse f xs) (\<lambda>ys. Inr (y # ys)))"

definition check :: "bool \<Rightarrow> 'e \<Rightarrow> ('e, unit) result" where
  "check ok e = (if ok then Inr () else Inl e)"

fun is_ok :: "('e, 'a) result \<Rightarrow> bool" where
  "is_ok (Inl _) = False"
| "is_ok (Inr _) = True"

lemma res_bind_Inr_conv [simp]:
  "res_bind r f = Inr y \<longleftrightarrow> (\<exists>x. r = Inr x \<and> f x = Inr y)"
  by (cases r) auto

lemma res_bind_Inl_conv:
  "res_bind r f = Inl e \<longleftrightarrow> r = Inl e \<or> (\<exists>x. r = Inr x \<and> f x = Inl e)"
  by (cases r) auto

lemma check_Inr [simp]: "check ok e = Inr u \<longleftrightarrow> ok"
  by (simp add: check_def)

lemma check_Inl [simp]: "check ok e = Inl e' \<longleftrightarrow> \<not> ok \<and> e' = e"
  by (auto simp: check_def)

lemma is_ok_iff: "is_ok r \<longleftrightarrow> (\<exists>x. r = Inr x)"
  by (cases r) auto

lemma traverse_Inr:
  "traverse f xs = Inr ys \<longleftrightarrow> list_all2 (\<lambda>x y. f x = Inr y) xs ys"
proof (induction xs arbitrary: ys)
  case Nil
  then show ?case by auto
next
  case (Cons x xs)
  then show ?case by (cases ys) auto
qed

lemma traverse_length: "traverse f xs = Inr ys \<Longrightarrow> length ys = length xs"
  by (auto simp: traverse_Inr dest: list_all2_lengthD)

lemma traverse_id:
  "(\<And>x. x \<in> set xs \<Longrightarrow> f x = Inr x) \<Longrightarrow> traverse f xs = Inr xs"
  by (induction xs) auto

lemma list_all2_imp_set2:
  "list_all2 P xs ys \<Longrightarrow> y \<in> set ys \<Longrightarrow> \<exists>x \<in> set xs. P x y"
  by (induction rule: list_all2_induct) auto

section \<open>Time\<close>

type_synonym time = int
type_synonym duration = int

abbreviation (input) zero_time :: time where
  "zero_time \<equiv> 0"

definition seconds :: "int \<Rightarrow> duration" where
  "seconds n = n * 1000000000"

section \<open>Strings\<close>

definition has_prefix :: "string \<Rightarrow> string \<Rightarrow> bool" where
  "has_prefix s p = (take (length p) s = p)"

definition has_suffix :: "string \<Rightarrow> string \<Rightarrow> bool" where
  "has_suffix s p = has_prefix (rev s) (rev p)"

definition trim_prefix :: "string \<Rightarrow> string \<Rightarrow> string" where
  "trim_prefix s p = (if has_prefix s p then drop (length p) s else s)"

definition trim_suffix :: "string \<Rightarrow> string \<Rightarrow> string" where
  "trim_suffix s p = (if has_suffix s p then take (length s - length p) s else s)"

fun split_on :: "char \<Rightarrow> string \<Rightarrow> string list" where
  "split_on c [] = [[]]"
| "split_on c (x # xs) =
     (if x = c then [] # split_on c xs
      else (case split_on c xs of [] \<Rightarrow> [[x]] | w # ws \<Rightarrow> (x # w) # ws))"

fun join_with :: "string \<Rightarrow> string list \<Rightarrow> string" where
  "join_with sep [] = []"
| "join_with sep [w] = w"
| "join_with sep (w # ws) = w @ sep @ join_with sep ws"

definition is_digit :: "char \<Rightarrow> bool" where
  "is_digit c = (48 \<le> (of_char c :: int) \<and> (of_char c :: int) \<le> 57)"

definition is_lower :: "char \<Rightarrow> bool" where
  "is_lower c = (97 \<le> (of_char c :: int) \<and> (of_char c :: int) \<le> 122)"

definition is_upper :: "char \<Rightarrow> bool" where
  "is_upper c = (65 \<le> (of_char c :: int) \<and> (of_char c :: int) \<le> 90)"

definition lower_char :: "char \<Rightarrow> char" where
  "lower_char c = (if is_upper c then char_of ((of_char c :: int) + 32) else c)"

text \<open>
  \<open>strings.ToLower\<close>: ASCII letters, and the two code points outside ASCII whose lower case is an
  ASCII letter (U+212A, bytes E2 84 AA, to k; U+0130, bytes C4 B0, to i). Every other byte outside
  ASCII stays outside ASCII under \<open>ToLower\<close>; the model leaves it unchanged.
\<close>

fun to_lower :: "string \<Rightarrow> string" where
  "to_lower [] = []"
| "to_lower (c # cs) =
     (if take 3 (c # cs) = [CHR 0xE2, CHR 0x84, CHR 0xAA] then CHR ''k'' # to_lower (drop 2 cs)
      else if take 2 (c # cs) = [CHR 0xC4, CHR 0xB0] then CHR ''i'' # to_lower (drop 1 cs)
      else lower_char c # to_lower cs)"

text \<open>\<open>strings.TrimSpace\<close>: the UTF-8 forms of the code points of \<open>unicode.IsSpace\<close>.\<close>

definition space_forms :: "string list" where
  "space_forms =
     [[CHR 0x09], [CHR 0x0A], [CHR 0x0B], [CHR 0x0C], [CHR 0x0D], [CHR 0x20],
      [CHR 0xC2, CHR 0x85], [CHR 0xC2, CHR 0xA0], [CHR 0xE1, CHR 0x9A, CHR 0x80],
      [CHR 0xE2, CHR 0x80, CHR 0x80], [CHR 0xE2, CHR 0x80, CHR 0x81], [CHR 0xE2, CHR 0x80, CHR 0x82],
      [CHR 0xE2, CHR 0x80, CHR 0x83], [CHR 0xE2, CHR 0x80, CHR 0x84], [CHR 0xE2, CHR 0x80, CHR 0x85],
      [CHR 0xE2, CHR 0x80, CHR 0x86], [CHR 0xE2, CHR 0x80, CHR 0x87], [CHR 0xE2, CHR 0x80, CHR 0x88],
      [CHR 0xE2, CHR 0x80, CHR 0x89], [CHR 0xE2, CHR 0x80, CHR 0x8A], [CHR 0xE2, CHR 0x80, CHR 0xA8],
      [CHR 0xE2, CHR 0x80, CHR 0xA9], [CHR 0xE2, CHR 0x80, CHR 0xAF], [CHR 0xE2, CHR 0x81, CHR 0x9F],
      [CHR 0xE3, CHR 0x80, CHR 0x80]]"

fun trim_forms :: "nat \<Rightarrow> string list \<Rightarrow> string \<Rightarrow> string" where
  "trim_forms 0 forms s = s"
| "trim_forms (Suc n) forms s =
     (case List.find (has_prefix s) forms of
        None \<Rightarrow> s
      | Some f \<Rightarrow> trim_forms n forms (drop (length f) s))"

definition trim_space :: "string \<Rightarrow> string" where
  "trim_space s =
     (let l = trim_forms (length s) space_forms s
      in rev (trim_forms (length l) (map rev space_forms) (rev l)))"

fun contains_char :: "char \<Rightarrow> string \<Rightarrow> bool" where
  "contains_char c s = (c \<in> set s)"

lemmas string_defs [go_strings] =
  has_prefix_def has_suffix_def trim_prefix_def trim_suffix_def

lemma has_prefix_iff: "has_prefix s p \<longleftrightarrow> (\<exists>t. s = p @ t)"
  by (metis append_eq_conv_conj append_take_drop_id has_prefix_def)

lemma has_suffix_iff: "has_suffix s p \<longleftrightarrow> (\<exists>t. s = t @ p)"
proof -
  have "has_suffix s p \<longleftrightarrow> (\<exists>t. rev s = rev p @ t)"
    by (simp add: has_suffix_def has_prefix_iff)
  also have "\<dots> \<longleftrightarrow> (\<exists>t. s = t @ p)"
    by (metis rev_append rev_rev_ident)
  finally show ?thesis .
qed

lemma split_on_not_Nil [simp]: "split_on c s \<noteq> []"
  by (induction s) (auto split: list.splits)

lemma join_split_on: "join_with [c] (split_on c s) = s"
proof (induction s)
  case Nil
  then show ?case by simp
next
  case (Cons x xs)
  obtain w ws where w: "split_on c xs = w # ws"
    by (cases "split_on c xs") auto
  with Cons show ?case by (cases ws) auto
qed

lemma set_join_with: "set (join_with sep ws) \<subseteq> set sep \<union> (\<Union>w \<in> set ws. set w)"
  by (induction sep ws rule: join_with.induct) auto

lemma set_split_on: "set s \<subseteq> insert c (\<Union>w \<in> set (split_on c s). set w)"
  using set_join_with [of "[c]" "split_on c s"] by (simp add: join_split_on)

lemma set_trim_suffix: "set (trim_suffix s p) \<subseteq> set s"
  by (auto simp: trim_suffix_def dest: in_set_takeD)

section \<open>Maps with finite domain, as association lists keyed once\<close>

text \<open>
  A Go map that is iterated or counted is an association list with distinct keys; \<open>map_of\<close> reads it.
\<close>

fun al_put :: "'k \<Rightarrow> 'v \<Rightarrow> ('k \<times> 'v) list \<Rightarrow> ('k \<times> 'v) list" where
  "al_put k v [] = [(k, v)]"
| "al_put k v ((k', v') # m) = (if k' = k then (k, v) # m else (k', v') # al_put k v m)"

definition al_del :: "'k \<Rightarrow> ('k \<times> 'v) list \<Rightarrow> ('k \<times> 'v) list" where
  "al_del k m = filter (\<lambda>p. fst p \<noteq> k) m"

abbreviation keys :: "('k \<times> 'v) list \<Rightarrow> 'k list" where
  "keys m \<equiv> map fst m"

lemma map_of_al_put [simp]: "map_of (al_put k v m) = (map_of m)(k \<mapsto> v)"
  by (induction m) (auto simp: fun_eq_iff)

lemma set_keys_al_put [simp]: "fst ` set (al_put k v m) = insert k (fst ` set m)"
proof (induction m)
  case Nil
  then show ?case by simp
next
  case (Cons p m)
  obtain a b where "p = (a, b)" by (cases p)
  with Cons show ?case by (cases "a = k") (simp_all add: insert_commute)
qed

lemma distinct_al_put [simp]: "distinct (keys m) \<Longrightarrow> distinct (keys (al_put k v m))"
proof (induction m)
  case Nil
  then show ?case by simp
next
  case (Cons p m)
  have "fst ` set (al_put k v m) = insert k (fst ` set m)" by simp
  with Cons show ?case by (cases p) auto
qed

lemma map_of_al_del [simp]: "map_of (al_del k m) = (map_of m)(k := None)"
  by (induction m) (auto simp: al_del_def fun_eq_iff)

lemma distinct_al_del [simp]: "distinct (keys m) \<Longrightarrow> distinct (keys (al_del k m))"
  by (induction m) (auto simp: al_del_def)

lemma set_keys_al_del [simp]: "fst ` set (al_del k m) = fst ` set m - {k}"
  by (auto simp: al_del_def)

lemma al_del_absent: "map_of m k = None \<Longrightarrow> al_del k m = m"
  by (induction m) (auto simp: al_del_def split: if_splits)

lemma map_of_in_keys: "map_of m k = Some v \<Longrightarrow> k \<in> fst ` set m"
  by (force dest: map_of_SomeD)

section \<open>Loops that validate each element against the earlier ones\<close>

text \<open>
  \<open>for i := range out { v := &out[i]; ... out[:i] ... }\<close>: each element is normalized in place after
  comparing it with the elements before it, and the first error ends the loop.
\<close>

fun normalize_each :: "('a list \<Rightarrow> 'a \<Rightarrow> ('e, 'a) result) \<Rightarrow> 'a list \<Rightarrow> 'a list \<Rightarrow> ('e, 'a list) result" where
  "normalize_each f done [] = Inr done"
| "normalize_each f done (x # xs) =
     res_bind (f done x) (\<lambda>y. normalize_each f (done @ [y]) xs)"

locale incremental_check =
  fixes norm :: "'a list \<Rightarrow> 'a \<Rightarrow> ('e, 'a) result"
    and good :: "'a \<Rightarrow> bool"
    and compat :: "'a \<Rightarrow> 'a \<Rightarrow> bool"
  assumes norm_good: "norm done x = Inr y \<Longrightarrow> good y"
    and norm_compat: "norm done x = Inr y \<Longrightarrow> u \<in> set done \<Longrightarrow> compat u y"
    and norm_id: "good x \<Longrightarrow> (\<And>u. u \<in> set done \<Longrightarrow> compat u x) \<Longrightarrow> norm done x = Inr x"
    and compat_sym: "compat x y \<Longrightarrow> compat y x"
begin

lemma each_sound:
  assumes "normalize_each norm done xs = Inr ys"
    and "\<forall>x \<in> set done. good x" and "sorted_wrt compat done"
  shows "(\<forall>y \<in> set ys. good y) \<and> sorted_wrt compat ys"
  using assms
proof (induction xs arbitrary: "done")
  case (Cons x xs)
  then obtain y where y: "norm done x = Inr y" "normalize_each norm (done @ [y]) xs = Inr ys"
    by auto
  then show ?case
    using Cons.IH [of "done @ [y]"] Cons.prems norm_good norm_compat
    by (auto simp: sorted_wrt_append)
qed simp

lemma each_id:
  assumes "\<forall>x \<in> set xs. good x" and "sorted_wrt compat (done @ xs)"
  shows "normalize_each norm done xs = Inr (done @ xs)"
  using assms
proof (induction xs arbitrary: "done")
  case (Cons x xs)
  have "norm done x = Inr x"
    using Cons.prems by (intro norm_id) (auto simp: sorted_wrt_append)
  with Cons show ?case by simp
qed simp

lemma compat_mset:
  assumes "sorted_wrt compat xs" and "mset ys = mset xs"
  shows "sorted_wrt compat ys"
  using assms
proof (induction xs arbitrary: ys)
  case (Cons x xs)
  then have "x \<in> set ys" by (metis list.set_intros(1) mset_eq_setD)
  then obtain as bs where ys: "ys = as @ x # bs" by (meson split_list)
  with Cons.prems have eq: "mset (as @ bs) = mset xs" by simp
  then have "set as \<union> set bs = set xs" by (metis mset_eq_setD set_append)
  with Cons.prems have "\<And>u. u \<in> set as \<union> set bs \<Longrightarrow> compat x u" by auto
  moreover have "sorted_wrt compat (as @ bs)" using Cons eq by auto
  ultimately show ?case
    using ys compat_sym by (auto simp: sorted_wrt_append)
qed simp

lemma each_idem_perm:
  assumes "normalize_each norm [] xs = Inr ys" and "mset zs = mset ys"
  shows "normalize_each norm [] zs = Inr zs"
proof -
  have "set zs = set ys" using assms(2) by (metis mset_eq_setD)
  then show ?thesis
    using each_sound [OF assms(1)] each_id [of zs "[]"] compat_mset [OF _ assms(2)] by auto
qed

lemma each_sound_perm:
  assumes "normalize_each norm [] xs = Inr ys" and "mset zs = mset ys"
  shows "(\<forall>z \<in> set zs. good z) \<and> sorted_wrt compat zs"
proof -
  have "set zs = set ys" using assms(2) by (metis mset_eq_setD)
  then show ?thesis
    using each_sound [OF assms(1)] compat_mset [OF _ assms(2)] by auto
qed

end

section \<open>Components with a step relation\<close>

locale state_machine =
  fixes start :: "'s \<Rightarrow> bool"
    and step :: "'s \<Rightarrow> 's \<Rightarrow> bool"
    and inv :: "'s \<Rightarrow> bool"
  assumes inv_start: "start s \<Longrightarrow> inv s"
    and inv_step: "inv s \<Longrightarrow> step s t \<Longrightarrow> inv t"
begin

lemma inv_steps:
  assumes "step\<^sup>*\<^sup>* s t" and "inv s"
  shows "inv t"
  using assms by (induction rule: rtranclp_induct) (auto intro: inv_step)

lemma inv_reachable: "start s \<Longrightarrow> step\<^sup>*\<^sup>* s t \<Longrightarrow> inv t"
  by (blast intro: inv_start inv_steps)

end

end
