(* ===== verification/Go_Net.thy ===== *)
theory Go_Net
  imports Hostel_Prelude
begin

text \<open>
  The parts of the Go standard library that the network sources use: \<open>strconv.Atoi\<close> and \<open>Itoa\<close>,
  \<open>net.SplitHostPort\<close> and \<open>net.JoinHostPort\<close>, and \<open>net/netip\<close> (addresses, prefixes, their parsers and
  printers). Nothing here is part of the repository; the components call these functions.

  An address is \<open>A4\<close> of the 32 bits of an IPv4 address, or \<open>A6\<close> of the eight 16-bit groups of an
  IPv6 address (most significant first) with its zone. Go's zero \<open>netip.Addr\<close> is \<open>None\<close>.
\<close>

section \<open>Decimal numbers\<close>

function itoa_pos :: "int \<Rightarrow> string" where
  "itoa_pos n =
     (if n < 10 then [char_of (48 + n)] else itoa_pos (n div 10) @ [char_of (48 + n mod 10)])"
  by pat_completeness auto
termination
  by (relation "measure nat") auto

declare itoa_pos.simps [simp del]

definition itoa :: "int \<Rightarrow> string" where
  "itoa i = (if i < 0 then CHR ''-'' # itoa_pos (- i) else itoa_pos i)"

definition digit_val :: "char \<Rightarrow> int" where
  "digit_val c = (of_char c :: int) - 48"

definition digits_val :: "string \<Rightarrow> int" where
  "digits_val s = foldl (\<lambda>n c. 10 * n + digit_val c) 0 s"

definition atoi_digits :: "string \<Rightarrow> int option" where
  "atoi_digits s = (if s \<noteq> [] \<and> list_all is_digit s then Some (digits_val s) else None)"

definition max_int64 :: int where
  "max_int64 = 9223372036854775807"

text \<open>Results of arithmetic on \<open>int64\<close>.\<close>

definition wrap64 :: "int \<Rightarrow> int" where
  "wrap64 n = (n + 2 ^ 63) mod 2 ^ 64 - 2 ^ 63"

definition atoi :: "string \<Rightarrow> int option" where
  "atoi s =
     (let neg = (take 1 s = ''-'');
          body = (if neg \<or> take 1 s = ''+'' then drop 1 s else s)
      in case atoi_digits body of
           None \<Rightarrow> None
         | Some n \<Rightarrow>
             let v = (if neg then - n else n)
             in if - max_int64 - 1 \<le> v \<and> v \<le> max_int64 then Some v else None)"

section \<open>Host and port\<close>

definition split_host_port :: "string \<Rightarrow> (string \<times> string) option" where
  "split_host_port hp =
     (if CHR '':'' \<notin> set hp then None
      else
        let port = rev (takeWhile (\<lambda>c. c \<noteq> CHR '':'') (rev hp));
            hostpart = take (length hp - length port - 1) hp
        in if take 1 hp = ''['' then
             (if CHR '']'' \<notin> set hp then None
              else
                let inner = takeWhile (\<lambda>c. c \<noteq> CHR '']'') (drop 1 hp)
                in if hostpart \<noteq> ''['' @ inner @ '']'' then None
                   else if CHR ''['' \<in> set (drop 1 hp) then None
                   else if CHR '']'' \<in> set port then None
                   else Some (inner, port))
           else if CHR '':'' \<in> set hostpart then None
           else if CHR ''['' \<in> set hp \<or> CHR '']'' \<in> set hp then None
           else Some (hostpart, port))"

definition join_host_port :: "string \<Rightarrow> string \<Rightarrow> string" where
  "join_host_port host port =
     (if CHR '':'' \<in> set host then ''['' @ host @ '']:'' @ port else host @ '':'' @ port)"

section \<open>Addresses\<close>

datatype addr = A4 "32 word" | A6 "16 word list" string

fun zone :: "addr \<Rightarrow> string" where
  "zone (A4 _) = []"
| "zone (A6 _ z) = z"

fun bit_len :: "addr \<Rightarrow> nat" where
  "bit_len (A4 _) = 32"
| "bit_len (A6 _ _) = 128"

definition is4 :: "addr \<Rightarrow> bool" where
  "is4 a = (case a of A4 _ \<Rightarrow> True | A6 _ _ \<Rightarrow> False)"

definition v4_of_groups :: "16 word list \<Rightarrow> 32 word" where
  "v4_of_groups gs = of_int (65536 * uint (gs ! 6) + uint (gs ! 7))"

fun is4in6 :: "addr \<Rightarrow> bool" where
  "is4in6 (A4 _) = False"
| "is4in6 (A6 gs _) = (length gs = 8 \<and> take 6 gs = [0, 0, 0, 0, 0, 65535])"

fun unmap :: "addr \<Rightarrow> addr" where
  "unmap (A4 w) = A4 w"
| "unmap (A6 gs z) = (if is4in6 (A6 gs z) then A4 (v4_of_groups gs) else A6 gs z)"

fun is_unspecified :: "addr \<Rightarrow> bool" where
  "is_unspecified (A4 w) = (w = 0)"
| "is_unspecified (A6 gs z) = (gs = replicate 8 0 \<and> z = [])"

subsection \<open>Parsing\<close>

definition parse_octet :: "string \<Rightarrow> int option" where
  "parse_octet s =
     (if s = [] \<or> \<not> list_all is_digit s then None
      else if take 1 s = ''0'' \<and> 1 < length s then None
      else if 3 < length s \<or> 255 < digits_val s then None
      else Some (digits_val s))"

definition parse_ipv4_fields :: "string \<Rightarrow> int list option" where
  "parse_ipv4_fields s =
     (let fs = map parse_octet (split_on (CHR ''.'') s)
      in if length fs = 4 \<and> None \<notin> set fs then Some (map the fs) else None)"

definition word_of_octets :: "int list \<Rightarrow> 32 word" where
  "word_of_octets bs = of_int (foldl (\<lambda>n b. 256 * n + b) 0 bs)"

definition groups_of_octets :: "int list \<Rightarrow> 16 word list" where
  "groups_of_octets bs = [of_int (256 * bs ! 0 + bs ! 1), of_int (256 * bs ! 2 + bs ! 3)]"

definition hex_val :: "char \<Rightarrow> int option" where
  "hex_val c =
     (let n = (of_char c :: int)
      in if is_digit c then Some (n - 48)
         else if 97 \<le> n \<and> n \<le> 102 then Some (n - 87)
         else if 65 \<le> n \<and> n \<le> 70 then Some (n - 55)
         else None)"

definition is_hex :: "char \<Rightarrow> bool" where
  "is_hex c = (hex_val c \<noteq> None)"

definition hex_group :: "string \<Rightarrow> int" where
  "hex_group s = foldl (\<lambda>n c. 16 * n + the (hex_val c)) 0 s"

text \<open>
  The group loop of \<open>parseIPv6\<close>: \<open>gs\<close> are the groups read so far, \<open>ell\<close> the position of the
  ellipsis; the result is the groups and the ellipsis, or \<open>None\<close> on a malformed string. The fuel
  bounds the groups: every turn adds at least one, and eight end the loop.
\<close>

fun ipv6_loop :: "nat \<Rightarrow> string \<Rightarrow> 16 word list \<Rightarrow> nat option \<Rightarrow> (16 word list \<times> nat option) option" where
  "ipv6_loop 0 s gs ell = (if s = [] then Some (gs, ell) else None)"
| "ipv6_loop (Suc n) s gs ell =
     (if 8 \<le> length gs then (if s = [] then Some (gs, ell) else None)
      else
        let h = takeWhile is_hex s; rest = dropWhile is_hex s
        in if h = [] \<or> 4 < length h then None
           else if take 1 rest = ''.'' then
             (if ell = None \<and> length gs \<noteq> 6 \<or> 6 < length gs then None
              else case parse_ipv4_fields s of
                     None \<Rightarrow> None
                   | Some bs \<Rightarrow> Some (gs @ groups_of_octets bs, ell))
           else
             let gs' = gs @ [of_int (hex_group h)]
             in if rest = [] then Some (gs', ell)
                else if take 1 rest \<noteq> '':'' \<or> length rest = 1 then None
                else
                  let s' = drop 1 rest
                  in if take 1 s' = '':'' then
                       (if ell \<noteq> None then None
                        else if drop 1 s' = [] then Some (gs', Some (length gs'))
                        else ipv6_loop n (drop 1 s') gs' (Some (length gs')))
                     else ipv6_loop n s' gs' ell)"

definition expand_ellipsis :: "16 word list \<times> nat option \<Rightarrow> 16 word list option" where
  "expand_ellipsis r =
     (let gs = fst r
      in case snd r of
           None \<Rightarrow> if length gs = 8 then Some gs else None
         | Some e \<Rightarrow>
             if length gs < 8
             then Some (take e gs @ replicate (8 - length gs) 0 @ drop e gs)
             else None)"

definition parse_ipv6 :: "string \<Rightarrow> addr option" where
  "parse_ipv6 inp =
     (let s = takeWhile (\<lambda>c. c \<noteq> CHR ''%'') inp; z = drop (length s + 1) inp
      in if CHR ''%'' \<in> set inp \<and> z = [] then None
         else if s = ''::'' then Some (A6 (replicate 8 0) z)
         else
           let lead = has_prefix s ''::'';
               r = (if lead then ipv6_loop 8 (drop 2 s) [] (Some 0) else ipv6_loop 8 s [] None)
           in case Option.bind r expand_ellipsis of
                None \<Rightarrow> None
              | Some gs \<Rightarrow> Some (A6 gs z))"

definition parse_addr :: "string \<Rightarrow> addr option" where
  "parse_addr s =
     (case List.find (\<lambda>c. c \<in> set ''.:%'') s of
        None \<Rightarrow> None
      | Some c \<Rightarrow>
          if c = CHR ''.'' then map_option (\<lambda>bs. A4 (word_of_octets bs)) (parse_ipv4_fields s)
          else if c = CHR '':'' then parse_ipv6 s
          else None)"

subsection \<open>Printing\<close>

definition octets :: "32 word \<Rightarrow> int list" where
  "octets w = (let n = uint w in [n div 16777216, n div 65536 mod 256, n div 256 mod 256, n mod 256])"

definition v4_string :: "32 word \<Rightarrow> string" where
  "v4_string w = join_with ''.'' (map itoa_pos (octets w))"

definition hex_digit :: "int \<Rightarrow> char" where
  "hex_digit n = (if n < 10 then char_of (48 + n) else char_of (87 + n))"

function hex_pos :: "int \<Rightarrow> string" where
  "hex_pos n = (if n < 16 then [hex_digit n] else hex_pos (n div 16) @ [hex_digit (n mod 16)])"
  by pat_completeness auto
termination
  by (relation "measure nat") auto

declare hex_pos.simps [simp del]

fun zero_run :: "16 word list \<Rightarrow> nat" where
  "zero_run [] = 0"
| "zero_run (g # gs) = (if g = 0 then Suc (zero_run gs) else 0)"

text \<open>The longest run of zero groups, the first of the longest, when it has at least two.\<close>

fun best_run :: "nat \<Rightarrow> 16 word list \<Rightarrow> nat \<times> nat \<Rightarrow> nat \<times> nat" where
  "best_run i [] b = b"
| "best_run i (g # gs) b =
     (let r = zero_run (g # gs)
      in best_run (Suc i) gs (if 2 \<le> r \<and> snd b - fst b < r then (i, i + r) else b))"

definition groups_string :: "16 word list \<Rightarrow> string" where
  "groups_string gs = join_with '':'' (map (\<lambda>g. hex_pos (uint g)) gs)"

definition v6_string :: "16 word list \<Rightarrow> string" where
  "v6_string gs =
     (let (s, e) = best_run 0 gs (255, 255)
      in if s = 255 then groups_string gs
         else groups_string (take s gs) @ ''::'' @ groups_string (drop e gs))"

fun addr_string :: "addr \<Rightarrow> string" where
  "addr_string (A4 w) = v4_string w"
| "addr_string (A6 gs z) =
     (if is4in6 (A6 gs z) then ''::ffff:'' @ v4_string (v4_of_groups gs) else v6_string gs)
     @ (if z = [] then [] else CHR ''%'' # z)"

subsection \<open>Prefixes\<close>

datatype prefix = Prefix (prefix_addr: addr) (prefix_bits: nat)

text \<open>\<open>PrefixFrom\<close> drops the zone of its address.\<close>

fun without_zone :: "addr \<Rightarrow> addr" where
  "without_zone (A4 w) = A4 w"
| "without_zone (A6 gs z) = A6 gs []"

definition prefix_from :: "addr \<Rightarrow> nat \<Rightarrow> prefix" where
  "prefix_from ip b = Prefix (without_zone ip) b"

definition parse_prefix :: "string \<Rightarrow> prefix option" where
  "parse_prefix s =
     (if CHR ''/'' \<notin> set s then None
      else
        let bits = rev (takeWhile (\<lambda>c. c \<noteq> CHR ''/'') (rev s));
            host = take (length s - length bits - 1) s
        in case parse_addr host of
             None \<Rightarrow> None
           | Some ip \<Rightarrow>
               if zone ip \<noteq> [] then None
               else if 1 < length bits \<and> \<not> (is_digit (hd bits) \<and> hd bits \<noteq> CHR ''0'') then None
               else case atoi bits of
                      None \<Rightarrow> None
                    | Some n \<Rightarrow> if n < 0 \<or> int (bit_len ip) < n then None else Some (prefix_from ip (nat n)))"

definition mask16 :: "nat \<Rightarrow> 16 word \<Rightarrow> 16 word" where
  "mask16 b g = (if 16 \<le> b then g else of_int (uint g div 2 ^ (16 - b) * 2 ^ (16 - b)))"

fun mask_groups :: "nat \<Rightarrow> 16 word list \<Rightarrow> 16 word list" where
  "mask_groups b [] = []"
| "mask_groups b (g # gs) = mask16 b g # mask_groups (b - 16) gs"

fun mask_addr :: "nat \<Rightarrow> addr \<Rightarrow> addr" where
  "mask_addr b (A4 w) = A4 (of_int (uint w div 2 ^ (32 - b) * 2 ^ (32 - b)))"
| "mask_addr b (A6 gs z) = A6 (mask_groups b gs) []"

definition masked :: "prefix \<Rightarrow> prefix" where
  "masked p = Prefix (mask_addr (prefix_bits p) (prefix_addr p)) (prefix_bits p)"

definition prefix_string :: "prefix \<Rightarrow> string" where
  "prefix_string p = addr_string (prefix_addr p) @ ''/'' @ itoa_pos (int (prefix_bits p))"

definition prefix_contains :: "prefix \<Rightarrow> addr \<Rightarrow> bool" where
  "prefix_contains p ip =
     (zone ip = [] \<and> bit_len (prefix_addr p) = bit_len ip \<and>
      mask_addr (prefix_bits p) ip = mask_addr (prefix_bits p) (prefix_addr p))"

section \<open>What the printers emit\<close>

definition digit_chars :: "char set" where
  "digit_chars = set ''0123456789''"

definition addr_chars :: "char set" where
  "addr_chars = set ''0123456789abcdef.:''"

lemma char_of_digit: "0 \<le> n \<Longrightarrow> n < 10 \<Longrightarrow> (char_of (48 + n :: int) :: char) \<in> digit_chars"
proof -
  assume "0 \<le> n" "n < 10"
  then have "n \<in> set [0..9]" by simp
  moreover have "list_all (\<lambda>n. (char_of (48 + n :: int) :: char) \<in> set ''0123456789'') [0..9]"
    by code_simp
  ultimately show ?thesis unfolding list_all_iff digit_chars_def by blast
qed

lemma set_itoa_pos: "0 \<le> n \<Longrightarrow> set (itoa_pos n) \<subseteq> digit_chars"
proof (induction n rule: itoa_pos.induct)
  case (1 n)
  show ?case
  proof (cases "n < 10")
    case True
    then show ?thesis using char_of_digit [of n] 1 by (simp add: itoa_pos.simps [of n])
  next
    case False
    with 1 have "set (itoa_pos (n div 10)) \<subseteq> digit_chars" by simp
    moreover have "(char_of (48 + n mod 10) :: char) \<in> digit_chars"
      by (rule char_of_digit) simp_all
    ultimately show ?thesis using False by (simp add: itoa_pos.simps [of n])
  qed
qed

lemma hex_digit_chars: "0 \<le> n \<Longrightarrow> n < 16 \<Longrightarrow> hex_digit n \<in> addr_chars"
proof -
  assume "0 \<le> n" "n < 16"
  then have "n \<in> set [0..15]" by simp
  moreover have "list_all (\<lambda>n. hex_digit n \<in> set ''0123456789abcdef.:'') [0..15]"
    by code_simp
  ultimately show ?thesis unfolding list_all_iff addr_chars_def by blast
qed

lemma set_hex_pos: "0 \<le> n \<Longrightarrow> set (hex_pos n) \<subseteq> addr_chars"
proof (induction n rule: hex_pos.induct)
  case (1 n)
  show ?case
  proof (cases "n < 16")
    case True
    then show ?thesis using hex_digit_chars [of n] 1 by (simp add: hex_pos.simps [of n])
  next
    case False
    with 1 have "set (hex_pos (n div 16)) \<subseteq> addr_chars" by simp
    moreover have "hex_digit (n mod 16) \<in> addr_chars"
      by (rule hex_digit_chars) simp_all
    ultimately show ?thesis using False by (simp add: hex_pos.simps [of n])
  qed
qed

lemma octets_nonneg: "b \<in> set (octets w) \<Longrightarrow> 0 \<le> b"
  by (auto simp: octets_def Let_def pos_imp_zdiv_nonneg_iff)

lemma digit_chars_subset: "digit_chars \<subseteq> addr_chars"
  by (auto simp: digit_chars_def addr_chars_def)

lemma punct_in_addr_chars: "CHR ''.'' \<in> addr_chars" "CHR '':'' \<in> addr_chars" "CHR ''f'' \<in> addr_chars"
  by (auto simp: addr_chars_def)

lemma set_join_subset:
  "set sep \<subseteq> A \<Longrightarrow> (\<And>w. w \<in> set ws \<Longrightarrow> set w \<subseteq> A) \<Longrightarrow> set (join_with sep ws) \<subseteq> A"
  using set_join_with [of sep ws] by blast

lemma set_v4_string: "set (v4_string w) \<subseteq> addr_chars"
  unfolding v4_string_def
proof (rule set_join_subset)
  fix x assume "x \<in> set (map itoa_pos (octets w))"
  then show "set x \<subseteq> addr_chars" using set_itoa_pos octets_nonneg digit_chars_subset by fastforce
qed (simp add: punct_in_addr_chars)

lemma set_groups_string: "set (groups_string gs) \<subseteq> addr_chars"
  unfolding groups_string_def
proof (rule set_join_subset)
  fix x assume "x \<in> set (map (\<lambda>g. hex_pos (uint g)) gs)"
  then show "set x \<subseteq> addr_chars" using set_hex_pos by auto
qed (simp add: punct_in_addr_chars)

lemma set_v6_string: "set (v6_string gs) \<subseteq> addr_chars"
  using set_groups_string by (auto simp: v6_string_def punct_in_addr_chars split: prod.splits)

lemma set_addr_string: "zone a = [] \<Longrightarrow> set (addr_string a) \<subseteq> addr_chars"
  using set_v4_string set_v6_string by (cases a) (auto simp: punct_in_addr_chars)

lemma zone_unmap: "zone a = [] \<Longrightarrow> zone (unmap a) = []"
  by (cases a) auto

lemma zone_mask_addr: "zone (mask_addr b a) = []"
  by (cases a) auto

lemma set_masked_string: "set (prefix_string (masked p)) \<subseteq> insert (CHR ''/'') addr_chars"
proof -
  have "set (addr_string (mask_addr (prefix_bits p) (prefix_addr p))) \<subseteq> addr_chars"
    by (rule set_addr_string) (rule zone_mask_addr)
  moreover have "set (itoa_pos (int (prefix_bits p))) \<subseteq> addr_chars"
    using set_itoa_pos [of "int (prefix_bits p)"] digit_chars_subset by simp
  ultimately show ?thesis by (auto simp: prefix_string_def masked_def)
qed

lemma zone_without_zone [simp]: "zone (without_zone a) = []"
  by (cases a) auto

lemma set_prefix_string:
  "zone (prefix_addr p) = [] \<Longrightarrow> set (prefix_string p) \<subseteq> insert (CHR ''/'') addr_chars"
  using set_addr_string [of "prefix_addr p"] set_itoa_pos [of "int (prefix_bits p)"] digit_chars_subset
  by (auto simp: prefix_string_def)

section \<open>Joining and splitting\<close>

lemma split_join_host_port:
  assumes host: "CHR ''['' \<notin> set host" "CHR '']'' \<notin> set host"
    and port: "CHR '':'' \<notin> set port" "CHR ''['' \<notin> set port" "CHR '']'' \<notin> set port"
  shows "split_host_port (join_host_port host port) = Some (host, port)"
proof -
  have last: "takeWhile (\<lambda>c. c \<noteq> CHR '':'') (rev port @ CHR '':'' # xs) = rev port" for xs
    using port by (subst takeWhile_append2) auto
  have inner: "takeWhile (\<lambda>c. c \<noteq> CHR '']'') (host @ CHR '']'' # xs) = host" for xs
    using host by (subst takeWhile_append2) auto
  show ?thesis
  proof (cases "CHR '':'' \<in> set host")
    case True
    then show ?thesis using assms
      by (auto simp: split_host_port_def join_host_port_def Let_def last inner)
  next
    case False
    have t: "take (Suc 0) (host @ CHR '':'' # port) \<noteq> ''[''"
      using host by (cases host) auto
    from False show ?thesis using assms t
      by (auto simp: split_host_port_def join_host_port_def Let_def last)
  qed
qed

lemma itoa_pos_not_Nil [simp]: "itoa_pos n \<noteq> []"
  by (subst itoa_pos.simps) simp

lemma itoa_chars: "set (itoa n) \<subseteq> insert (CHR ''-'') digit_chars"
  using set_itoa_pos [of n] set_itoa_pos [of "- n"] by (auto simp: itoa_def)

lemma itoa_plain: "CHR '':'' \<notin> set (itoa n)" "CHR ''['' \<notin> set (itoa n)" "CHR '']'' \<notin> set (itoa n)"
  using itoa_chars [of n] by (auto simp: digit_chars_def)

lemma split_join_itoa:
  "CHR ''['' \<notin> set host \<Longrightarrow> CHR '']'' \<notin> set host \<Longrightarrow> split_host_port (join_host_port host (itoa n)) = Some (host, itoa n)"
  by (rule split_join_host_port) (use itoa_plain in auto)

section \<open>Printing and parsing integers\<close>

lemma digits_val_snoc: "digits_val (xs @ [c]) = 10 * digits_val xs + digit_val c"
  by (simp add: digits_val_def)

lemma digits_itoa_pos: "0 \<le> n \<Longrightarrow> digits_val (itoa_pos n) = n \<and> list_all is_digit (itoa_pos n)"
proof (induction n rule: itoa_pos.induct)
  case (1 n)
  have c: "digit_val (char_of (48 + n mod 10)) = n mod 10" "is_digit (char_of (48 + n mod 10))"
    by (simp_all add: digit_val_def is_digit_def)
  show ?case
  proof (cases "n < 10")
    case True
    then have "n mod 10 = n" using "1.prems" by simp
    then show ?thesis using True c by (simp add: itoa_pos.simps [of n] digits_val_def del: itoa_pos.simps)
  next
    case False
    then show ?thesis using 1 c by (simp add: itoa_pos.simps [of n] digits_val_snoc del: itoa_pos.simps)
  qed
qed

lemma atoi_itoa: "0 \<le> n \<Longrightarrow> n \<le> max_int64 \<Longrightarrow> atoi (itoa n) = Some n"
proof -
  assume n: "0 \<le> n" "n \<le> max_int64"
  have d: "digits_val (itoa_pos n) = n" "list_all is_digit (itoa_pos n)" using digits_itoa_pos [OF n(1)] by simp_all
  obtain c cs where i: "itoa_pos n = c # cs" using itoa_pos_not_Nil by (metis list.exhaust)
  have "c \<noteq> CHR ''-''" "c \<noteq> CHR ''+''" using d(2) unfolding i by (auto simp: is_digit_def)
  then show ?thesis using n d by (simp add: itoa_def atoi_def Let_def atoi_digits_def i max_int64_def)
qed

section \<open>Arithmetic on \<open>int64\<close>\<close>

lemma wrap64_id: "- (2 ^ 63) \<le> n \<Longrightarrow> n < 2 ^ 63 \<Longrightarrow> wrap64 n = n"
  by (simp add: wrap64_def)

end
