(* ===== verification/Net_Policy.thy ===== *)
theory Net_Policy
  imports Go_Net
begin

text \<open>
  Network egress policies: \<open>src/internal/host/network/policy.go\<close>.

  A policy is a default action and a list of rules; targets are IP addresses, CIDR prefixes or DNS
  names (\<open>*.\<close> in front for the subdomains of a name). \<open>NormalizePolicy\<close> validates a policy before any
  kernel input is generated, \<open>ApplyMutation\<close> computes a new policy from a mutation and
  \<open>policy_update\<close> publishes it after the kernel accepted it. The call \<open>p.apply\<close> that commits to the
  kernel is a parameter: it returns an error message or success.
\<close>

section \<open>Data\<close>

record Rule =
  Action :: string
  Target :: string

record Policy =
  DefaultAction :: string
  Egress :: "Rule list"

record PolicyMutation =
  Replace :: "Policy option"
  Merge :: "Rule list option"
  Remove :: "string list option"

datatype policy_error =
    InvalidDefaultAction | TooManyRules | InvalidAction | InvalidTarget | InvalidDNSTarget
  | ErrUnavailable | ErrApply string

abbreviation allow :: string where "allow \<equiv> ''allow''"
abbreviation deny :: string where "deny \<equiv> ''deny''"

section \<open>Normalization\<close>

definition dns_char :: "char \<Rightarrow> bool" where
  "dns_char c = (is_lower c \<or> is_digit c \<or> c = CHR ''-'')"

definition valid_label :: "string \<Rightarrow> bool" where
  "valid_label l =
     (l \<noteq> [] \<and> length l \<le> 63 \<and> hd l \<noteq> CHR ''-'' \<and> last l \<noteq> CHR ''-'' \<and> list_all dns_char l)"

definition normalizeName :: "string \<Rightarrow> (policy_error, string) result" where
  "normalizeName target =
     (let name = trim_prefix target ''*.''
      in if name = [] \<or> 253 < length name then Inl InvalidTarget
         else if list_all valid_label (split_on (CHR ''.'') name) then Inr target
         else Inl InvalidDNSTarget)"

definition normalizeTarget :: "string \<Rightarrow> (policy_error, string) result" where
  "normalizeTarget t0 =
     (let target = to_lower (trim_suffix (trim_space t0) ''.'');
          otherwise = (case parse_prefix target of
                         Some p \<Rightarrow> Inr (prefix_string (masked p))
                       | None \<Rightarrow> normalizeName target)
      in case parse_addr target of
           Some ip \<Rightarrow> if zone ip = [] then Inr (addr_string (unmap ip)) else otherwise
         | None \<Rightarrow> otherwise)"

definition normalizeRule :: "Rule \<Rightarrow> (policy_error, Rule) result" where
  "normalizeRule r =
     (if Action r \<noteq> allow \<and> Action r \<noteq> deny then Inl InvalidAction
      else res_bind (normalizeTarget (Target r)) (\<lambda>t. Inr (r\<lparr>Target := t\<rparr>)))"

definition NormalizePolicy :: "Policy \<Rightarrow> (policy_error, Policy) result" where
  "NormalizePolicy p =
     (let d = (if DefaultAction p = [] then (if Egress p = [] then allow else deny)
               else DefaultAction p)
      in if d \<noteq> allow \<and> d \<noteq> deny then Inl InvalidDefaultAction
         else if 1024 < length (Egress p) then Inl TooManyRules
         else res_bind (traverse normalizeRule (Egress p))
                (\<lambda>rs. Inr \<lparr>DefaultAction = d, Egress = rs\<rparr>))"

section \<open>Decisions\<close>

definition targetPrefix :: "string \<Rightarrow> prefix option" where
  "targetPrefix target =
     (case parse_addr target of
        Some ip \<Rightarrow> Some (prefix_from ip (bit_len ip))
      | None \<Rightarrow> parse_prefix target)"

definition domain_match :: "Rule \<Rightarrow> string \<Rightarrow> bool" where
  "domain_match r name =
     (if has_prefix (Target r) ''*.'' then has_suffix name (drop 1 (Target r))
      else Target r = name)"

fun domain_scan :: "Rule list \<Rightarrow> string \<Rightarrow> string \<Rightarrow> string" where
  "domain_scan [] name action = action"
| "domain_scan (r # rs) name action =
     (if targetPrefix (Target r) \<noteq> None then domain_scan rs name action
      else if domain_match r name then
        (if Action r = deny then deny else domain_scan rs name allow)
      else domain_scan rs name action)"

definition domainAction :: "Policy \<Rightarrow> string \<Rightarrow> string" where
  "domainAction p name =
     domain_scan (Egress p) (to_lower (trim_suffix name ''.'')) (DefaultAction p)"

fun deniesIP_rules :: "Rule list \<Rightarrow> addr \<Rightarrow> bool" where
  "deniesIP_rules [] ip = False"
| "deniesIP_rules (r # rs) ip =
     (case targetPrefix (Target r) of
        Some p \<Rightarrow> if Action r = deny \<and> prefix_contains p ip then True else deniesIP_rules rs ip
      | None \<Rightarrow> deniesIP_rules rs ip)"

definition deniesIP :: "Policy \<Rightarrow> addr \<Rightarrow> bool" where
  "deniesIP p ip = deniesIP_rules (Egress p) ip"

section \<open>Mutations\<close>

fun merge_rules :: "Rule list \<Rightarrow> Rule list \<Rightarrow> (policy_error, Rule list) result" where
  "merge_rules egress [] = Inr egress"
| "merge_rules egress (r # rs) =
     res_bind (normalizeTarget (Target r))
       (\<lambda>t. merge_rules (filter (\<lambda>old. Target old \<noteq> t) egress @ [r\<lparr>Target := t\<rparr>]) rs)"

definition ApplyMutation :: "Policy \<Rightarrow> PolicyMutation \<Rightarrow> (policy_error, Policy) result" where
  "ApplyMutation current mu =
     (let next0 = (case Replace mu of None \<Rightarrow> current | Some p \<Rightarrow> p)
      in res_bind
           (case Merge mu of
              None \<Rightarrow> Inr next0
            | Some rs \<Rightarrow> res_bind (merge_rules (Egress next0) rs) (\<lambda>e. Inr (next0\<lparr>Egress := e\<rparr>)))
           (\<lambda>next1. res_bind
              (case Remove mu of
                 None \<Rightarrow> Inr next1
               | Some ts \<Rightarrow> res_bind (traverse normalizeTarget ts)
                   (\<lambda>rm. Inr (next1\<lparr>Egress := filter (\<lambda>r. Target r \<notin> set rm) (Egress current)\<rparr>)))
              NormalizePolicy))"

record policyControl =
  current :: Policy
  revision :: nat
  closed :: bool
  learned :: "(addr \<times> time) list"

record PolicyStatus =
  Status :: string
  Mode :: string
  EnforcementMode :: string
  Scope :: string
  StatusPolicy :: Policy

definition policy_mode :: "Policy \<Rightarrow> string" where
  "policy_mode p =
     (if Egress p = [] then (if DefaultAction p = allow then ''allow_all'' else ''deny_all'')
      else ''enforcing'')"

definition policy_status :: "Policy \<Rightarrow> PolicyStatus" where
  "policy_status p =
     \<lparr>Status = ''ok'', Mode = policy_mode p, EnforcementMode = ''dns+nft'', Scope = ''processes'',
      StatusPolicy = p\<rparr>"

definition policy_update ::
  "(Policy \<Rightarrow> string option) \<Rightarrow> policyControl \<Rightarrow> PolicyMutation
     \<Rightarrow> (policy_error, PolicyStatus) result \<times> policyControl" where
  "policy_update kernel_apply p mu =
     (if closed p then (Inl ErrUnavailable, p)
      else if Replace mu \<noteq> None \<or> Merge mu \<noteq> None \<or> Remove mu \<noteq> None then
        (case ApplyMutation (current p) mu of
           Inl e \<Rightarrow> (Inl e, p)
         | Inr normalized \<Rightarrow>
             (case kernel_apply normalized of
                Some e \<Rightarrow> (Inl (ErrApply e), p)
              | None \<Rightarrow>
                  (Inr (policy_status normalized),
                   p\<lparr>current := normalized, revision := Suc (revision p), learned := []\<rparr>)))
      else (Inr (policy_status (current p)), p))"

section \<open>Normalized policies are safe to print\<close>

text \<open>
  The characters a normalized target may consist of. None of them ends an nft token or opens a
  statement: no space, quote, brace, semicolon, comma or newline.
\<close>

definition safe_chars :: "char set" where
  "safe_chars = set ''abcdefghijklmnopqrstuvwxyz0123456789.:/-*''"

definition safe_rule :: "Rule \<Rightarrow> bool" where
  "safe_rule r = ((Action r = allow \<or> Action r = deny) \<and> set (Target r) \<subseteq> safe_chars)"

lemma dns_char_safe: "dns_char c \<Longrightarrow> c \<in> safe_chars"
proof -
  assume "dns_char c"
  moreover have "list_all (\<lambda>c. dns_char c \<longrightarrow> c \<in> set ''abcdefghijklmnopqrstuvwxyz0123456789.:/-*'')
     (enum_class.enum :: char list)" by code_simp
  ultimately show ?thesis by (simp add: list_all_iff safe_chars_def enum_UNIV)
qed

lemma safe_punct: "CHR ''.'' \<in> safe_chars" "CHR ''*'' \<in> safe_chars"
  by (auto simp: safe_chars_def)

lemma addr_chars_safe: "insert (CHR ''/'') addr_chars \<subseteq> safe_chars"
  by (auto simp: addr_chars_def safe_chars_def)

lemma trim_prefix_decomp: "set s \<subseteq> set p \<union> set (trim_prefix s p)"
  by (auto simp: trim_prefix_def has_prefix_iff)

lemma labels_safe:
  assumes "list_all valid_label (split_on (CHR ''.'') (trim_prefix t ''*.''))"
  shows "set t \<subseteq> safe_chars"
proof -
  have "set (trim_prefix t ''*.'') \<subseteq> insert (CHR ''.'') (\<Union>w \<in> set (split_on (CHR ''.'') (trim_prefix t ''*.'')). set w)"
    by (rule set_split_on)
  moreover have "(\<Union>w \<in> set (split_on (CHR ''.'') (trim_prefix t ''*.'')). set w) \<subseteq> safe_chars"
    using assms dns_char_safe by (fastforce simp: list_all_iff valid_label_def)
  ultimately have "set (trim_prefix t ''*.'') \<subseteq> safe_chars" using safe_punct by blast
  with trim_prefix_decomp [of t "''*.''"] safe_punct show ?thesis by fastforce
qed

lemma normalizeTarget_safe: "normalizeTarget t = Inr u \<Longrightarrow> set u \<subseteq> safe_chars"
proof -
  assume n: "normalizeTarget t = Inr u"
  let ?t = "to_lower (trim_suffix (trim_space t) ''.'')"
  from n consider ip where "parse_addr ?t = Some ip" "zone ip = []" "u = addr_string (unmap ip)"
    | p where "parse_prefix ?t = Some p" "u = prefix_string (masked p)"
    | "u = ?t" "list_all valid_label (split_on (CHR ''.'') (trim_prefix ?t ''*.''))"
    by (auto simp: normalizeTarget_def normalizeName_def Let_def split: option.splits if_splits)
  then show ?thesis
  proof cases
    case 1
    then show ?thesis using set_addr_string [of "unmap ip"] zone_unmap addr_chars_safe by auto
  next
    case 2
    then show ?thesis using set_masked_string [of p] addr_chars_safe by blast
  next
    case 3
    then show ?thesis using labels_safe by blast
  qed
qed

lemma normalizeRule_safe: "normalizeRule r = Inr r' \<Longrightarrow> safe_rule r'"
  using normalizeTarget_safe
  by (fastforce simp: normalizeRule_def safe_rule_def split: if_splits)

lemma normalizeRule_Action: "normalizeRule r = Inr r' \<Longrightarrow> Action r' = Action r"
  by (auto simp: normalizeRule_def split: if_splits)

definition safe_policy :: "Policy \<Rightarrow> bool" where
  "safe_policy p =
     ((DefaultAction p = allow \<or> DefaultAction p = deny) \<and> length (Egress p) \<le> 1024 \<and>
      list_all safe_rule (Egress p))"

lemma traverse_normalizeRule_safe:
  "traverse normalizeRule rs = Inr rs' \<Longrightarrow> list_all safe_rule rs'"
  by (auto simp: traverse_Inr list_all_iff dest!: list_all2_imp_set2 normalizeRule_safe)

lemma NormalizePolicy_safe: "NormalizePolicy p = Inr q \<Longrightarrow> safe_policy q"
  by (auto simp: NormalizePolicy_def Let_def safe_policy_def
      dest: traverse_normalizeRule_safe traverse_length split: if_splits)

lemma NormalizePolicy_length: "NormalizePolicy p = Inr q \<Longrightarrow> length (Egress q) = length (Egress p)"
  by (auto simp: NormalizePolicy_def Let_def dest: traverse_length split: if_splits)

lemma ApplyMutation_safe: "ApplyMutation c mu = Inr q \<Longrightarrow> safe_policy q"
  by (auto simp: ApplyMutation_def Let_def dest: NormalizePolicy_safe)

section \<open>Deny wins\<close>

text \<open>The specification of a domain decision: it does not look at the order of the rules.\<close>

definition name_rule :: "Rule \<Rightarrow> string \<Rightarrow> bool" where
  "name_rule r name = (targetPrefix (Target r) = None \<and> domain_match r name)"

definition domain_spec :: "Rule list \<Rightarrow> string \<Rightarrow> string \<Rightarrow> string" where
  "domain_spec rs name d =
     (if \<exists>r \<in> set rs. name_rule r name \<and> Action r = deny then deny
      else if \<exists>r \<in> set rs. name_rule r name then allow
      else d)"

lemma domain_scan_spec: "domain_scan rs name d = domain_spec rs name d"
proof (induction rs arbitrary: d)
  case Nil
  then show ?case by (simp add: domain_spec_def)
next
  case (Cons r rs)
  have "domain_spec rs name allow =
      (if \<exists>r \<in> set rs. name_rule r name \<and> Action r = deny then deny else allow)"
    by (simp add: domain_spec_def)
  then show ?case
    by (auto simp: Cons.IH domain_spec_def name_rule_def)
qed

lemma deniesIP_rules_iff:
  "deniesIP_rules rs ip \<longleftrightarrow>
     (\<exists>r \<in> set rs. \<exists>p. targetPrefix (Target r) = Some p \<and> Action r = deny \<and> prefix_contains p ip)"
  by (induction rs) (auto split: option.splits)

section \<open>Merging is an upsert\<close>

lemma merge_rules_last:
  "merge_rules e (rs @ [r]) = Inr e' \<Longrightarrow> normalizeTarget (Target r) = Inr t \<Longrightarrow>
     filter (\<lambda>x. Target x = t) e' = [r\<lparr>Target := t\<rparr>]"
  by (induction e rs rule: merge_rules.induct) auto

lemma merge_rules_frame:
  assumes "merge_rules e rs = Inr e'"
    and "\<And>r. r \<in> set rs \<Longrightarrow> normalizeTarget (Target r) \<noteq> Inr t"
  shows "filter (\<lambda>x. Target x = t) e' = filter (\<lambda>x. Target x = t) e"
  using assms
proof (induction e rs rule: merge_rules.induct)
  case (1 e)
  then show ?case by simp
next
  case (2 e r rs)
  from "2.prems"(1) obtain u where u: "normalizeTarget (Target r) = Inr u"
    and m: "merge_rules (filter (\<lambda>old. Target old \<noteq> u) e @ [r\<lparr>Target := u\<rparr>]) rs = Inr e'"
    by auto
  from u "2.prems"(2) [of r] have "u \<noteq> t" by auto
  with "2.IH" [OF m] "2.prems"(2) show ?case
    by (auto simp: filter_empty_conv conj_commute intro!: filter_cong)
qed

section \<open>Properties\<close>

text \<open>A policy that \<open>NormalizePolicy\<close> accepts has an action of allow or deny everywhere, at most
  1024 rules, as many rules as the input, and targets made only of lower-case letters, digits and the
  characters \<open>. : / - *\<close>: no target can carry white space, quotes, braces or statement separators
  into the kernel rule set.\<close>

theorem NormalizePolicy_accepts_only_printable:
  assumes "NormalizePolicy p = Inr q"
  shows "(DefaultAction q = allow \<or> DefaultAction q = deny) \<and> length (Egress q) \<le> 1024 \<and>
    length (Egress q) = length (Egress p) \<and>
    (\<forall>r \<in> set (Egress q). (Action r = allow \<or> Action r = deny) \<and> set (Target r) \<subseteq> safe_chars)"
  using NormalizePolicy_safe [OF assms] NormalizePolicy_length [OF assms]
  by (simp add: safe_policy_def list_all_iff safe_rule_def)

definition sample_policy :: Policy where
  "sample_policy = \<lparr>DefaultAction = [], Egress = [\<lparr>Action = allow, Target = ''*.Example.com.''\<rparr>]\<rparr>"

lemma sample_policy_normalized:
  "NormalizePolicy sample_policy =
     Inr \<lparr>DefaultAction = deny, Egress = [\<lparr>Action = allow, Target = ''*.example.com''\<rparr>]\<rparr>"
  by code_simp

theorem NormalizePolicy_accepts_only_printable_witness:
  "NormalizePolicy sample_policy =
     Inr \<lparr>DefaultAction = deny, Egress = [\<lparr>Action = allow, Target = ''*.example.com''\<rparr>]\<rparr>
   \<and> set ''*.example.com'' \<subseteq> safe_chars"
  using NormalizePolicy_accepts_only_printable [OF sample_policy_normalized] sample_policy_normalized
  by simp

text \<open>The decision for a DNS name does not depend on the order of the rules: deny when some name
  rule that matches denies, otherwise allow when some name rule matches, otherwise the default action.
  Names are compared without case and without a final dot.\<close>

theorem domainAction_deny_wins:
  "domainAction p name =
     (let n = to_lower (trim_suffix name ''.'')
      in if \<exists>r \<in> set (Egress p). name_rule r n \<and> Action r = deny then deny
         else if \<exists>r \<in> set (Egress p). name_rule r n then allow
         else DefaultAction p)"
  by (simp add: domainAction_def domain_scan_spec domain_spec_def Let_def)

text \<open>An update either leaves the control untouched (closed, invalid mutation, kernel refused) or
  publishes exactly the policy the kernel accepted, advances the revision by one and forgets every
  learned address; a request that changes nothing reports the current policy.\<close>

theorem policy_update_transactional:
  "(case policy_update k p mu of
      (Inl e, p') \<Rightarrow> p' = p
    | (Inr st, p') \<Rightarrow>
        \<not> closed p \<and> st = policy_status (current p') \<and>
        (if Replace mu = None \<and> Merge mu = None \<and> Remove mu = None then p' = p
         else ApplyMutation (current p) mu = Inr (current p') \<and> k (current p') = None \<and>
              safe_policy (current p') \<and> revision p' = Suc (revision p) \<and> learned p' = [] \<and>
              closed p' = closed p))"
  using ApplyMutation_safe
  by (auto simp: policy_update_def split: sum.splits option.splits)

text \<open>Merging a rule is an upsert on its normalized target: the merged policy has exactly one rule
  with that target, the one that was merged last, and the rules of every target that is not merged are
  those of the policy before, in the same order.\<close>

theorem merge_rules_upsert:
  assumes "merge_rules e (rs @ [r]) = Inr e'" and "normalizeTarget (Target r) = Inr t"
  shows "filter (\<lambda>x. Target x = t) e' = [r\<lparr>Target := t\<rparr>] \<and>
    (\<forall>u. u \<notin> {v. \<exists>r' \<in> set (rs @ [r]). normalizeTarget (Target r') = Inr v} \<longrightarrow>
       filter (\<lambda>x. Target x = u) e' = filter (\<lambda>x. Target x = u) e)"
  using merge_rules_last [OF assms] merge_rules_frame [OF assms(1)] by fastforce

theorem merge_rules_upsert_witness:
  "filter (\<lambda>x. Target x = ''a.b'') [\<lparr>Action = allow, Target = ''c.d''\<rparr>, \<lparr>Action = deny, Target = ''a.b''\<rparr>]
     = [\<lparr>Action = deny, Target = ''a.b''\<rparr>]"
proof -
  have m: "merge_rules [\<lparr>Action = allow, Target = ''a.b''\<rparr>, \<lparr>Action = allow, Target = ''c.d''\<rparr>]
      ([] @ [\<lparr>Action = deny, Target = ''A.b''\<rparr>])
    = Inr [\<lparr>Action = allow, Target = ''c.d''\<rparr>, \<lparr>Action = deny, Target = ''a.b''\<rparr>]"
    by code_simp
  have t: "normalizeTarget (Target \<lparr>Action = deny, Target = ''A.b''\<rparr>) = Inr ''a.b''"
    by code_simp
  from merge_rules_upsert [OF m t] show ?thesis by simp
qed

text \<open>A CIDR target in IPv4-mapped form is accepted and kept in IPv6 form, so a deny rule for
  \<open>::ffff:10.0.0.0/104\<close> does not deny any address of \<open>10.0.0.0/8\<close>, although the same rule written
  for a single mapped address is unmapped and does.\<close>

theorem mapped_prefix_does_not_deny_ipv4:
  "normalizeTarget ''::ffff:10.0.0.0/104'' = Inr ''::ffff:10.0.0.0/104'' \<and>
   \<not> deniesIP \<lparr>DefaultAction = allow, Egress = [\<lparr>Action = deny, Target = ''::ffff:10.0.0.0/104''\<rparr>]\<rparr> (A4 w) \<and>
   normalizeTarget ''::ffff:10.0.0.1'' = Inr ''10.0.0.1'' \<and>
   deniesIP \<lparr>DefaultAction = allow, Egress = [\<lparr>Action = deny, Target = ''10.0.0.1''\<rparr>]\<rparr> (A4 167772161)"
proof -
  have "normalizeTarget ''::ffff:10.0.0.0/104'' = Inr ''::ffff:10.0.0.0/104''" by code_simp
  moreover have "targetPrefix ''::ffff:10.0.0.0/104'' =
      Some (Prefix (A6 [0, 0, 0, 0, 0, 65535, 2560, 0] []) 104)" by code_simp
  moreover have "normalizeTarget ''::ffff:10.0.0.1'' = Inr ''10.0.0.1''" by code_simp
  moreover have "deniesIP \<lparr>DefaultAction = allow, Egress = [\<lparr>Action = deny, Target = ''10.0.0.1''\<rparr>]\<rparr>
      (A4 167772161)" by code_simp
  ultimately show ?thesis by (simp add: deniesIP_def prefix_contains_def)
qed

end
