(* ===== verification/Net_Dns.thy ===== *)
theory Net_Dns
  imports Net_Policy
begin

text \<open>
  DNS answers under a policy: \<open>src/internal/host/network/policy_dns.go\<close>.

  \<open>exchange\<close> takes the policy lock twice: once to decide whether the question may be asked, and,
  after the upstream has answered, once to check the answer and to teach its addresses to the kernel.
  Between the two the policy may be updated or closed, so the model has the control at the first lock
  (\<open>p1\<close>) and at the second (\<open>p2\<close>) as two arguments. The DNS message codec (golang.org/x/net) is a
  parameter: \<open>unpack\<close> and \<open>pack\<close>; so are the upstream exchange and the kernel call \<open>learn\<close>.
\<close>

section \<open>Messages\<close>

record question =
  QName :: string
  QType :: nat
  QClass :: nat

datatype body = CNAMEResource string | AResource "32 word" | AAAAResource "16 word list" | OtherResource

record resource =
  TTL :: nat
  Body :: body

record message =
  ID :: nat
  Response :: bool
  RCode :: nat
  Questions :: "question list"
  Answers :: "resource list"
  Authorities :: "resource list"
  Additionals :: "resource list"

record dnsAddress =
  IP :: addr
  AddrTTL :: nat

datatype dns_error =
    ErrUnpack | ErrExpectedOneQuestion | ErrUpstream string | ErrMismatchedResponse
  | ErrAddressLimit | ErrLearn string | ErrPack

definition RCodeRefused :: nat where
  "RCodeRefused = 5"

section \<open>Exchange\<close>

definition refused_message :: "message \<Rightarrow> message" where
  "refused_message q =
     q\<lparr>Response := True, RCode := RCodeRefused, Answers := [], Authorities := [], Additionals := []\<rparr>"

definition refusedDNS :: "(message \<Rightarrow> 'b option) \<Rightarrow> message \<Rightarrow> (dns_error, 'b) result" where
  "refusedDNS pack q = (case pack (refused_message q) of None \<Rightarrow> Inl ErrPack | Some b \<Rightarrow> Inr b)"

fun record_ip :: "body \<Rightarrow> addr option" where
  "record_ip (AResource w) = Some (A4 w)"
| "record_ip (AAAAResource gs) = Some (unmap (A6 gs []))"
| "record_ip _ = None"

fun cname_denied :: "Policy \<Rightarrow> body \<Rightarrow> bool" where
  "cname_denied p (CNAMEResource n) =
     (domainAction p n = deny \<and> domainAction (p\<lparr>DefaultAction := allow\<rparr>) n = deny)"
| "cname_denied p _ = False"

definition clamp_ttl :: "nat \<Rightarrow> nat" where
  "clamp_ttl t = (let ttl = min t 300 in if ttl = 0 then 1 else ttl)"

text \<open>The loop over the answer's records: \<open>None\<close> when one of them makes the answer refused.\<close>

fun collect_addresses :: "Policy \<Rightarrow> resource list \<Rightarrow> dnsAddress list option" where
  "collect_addresses p [] = Some []"
| "collect_addresses p (r # rs) =
     (if cname_denied p (Body r) then None
      else case record_ip (Body r) of
             None \<Rightarrow> collect_addresses p rs
           | Some ip \<Rightarrow>
               if deniesIP p ip then None
               else map_option (\<lambda>as. \<lparr>IP = ip, AddrTTL = clamp_ttl (TTL r)\<rparr> # as)
                      (collect_addresses p rs))"

definition live_learned :: "time \<Rightarrow> (addr \<times> time) list \<Rightarrow> (addr \<times> time) list" where
  "live_learned now m = filter (\<lambda>e. snd e > now) m"

fun put_addresses :: "time \<Rightarrow> dnsAddress list \<Rightarrow> (addr \<times> time) list \<Rightarrow> (addr \<times> time) list" where
  "put_addresses now [] m = m"
| "put_addresses now (a # as) m =
     put_addresses now as (al_put (IP a) (now + seconds (int (AddrTTL a))) m)"

definition learn_entries :: "time \<Rightarrow> (addr \<times> time) list \<Rightarrow> dnsAddress list" where
  "learn_entries now m =
     map (\<lambda>(ip, expires). \<lparr>IP = ip, AddrTTL = nat (max 1 ((expires - now) div seconds 1))\<rparr>) m"

definition exchange_commit ::
  "(message \<Rightarrow> 'b option) \<Rightarrow> (dnsAddress list \<Rightarrow> string option) \<Rightarrow> time \<Rightarrow> nat \<Rightarrow> message \<Rightarrow> 'b \<Rightarrow> message
     \<Rightarrow> policyControl \<Rightarrow> (dns_error, 'b) result \<times> policyControl" where
  "exchange_commit pack learn now rv query data answer p =
     (if closed p \<or> revision p \<noteq> rv then (refusedDNS pack query, p)
      else case collect_addresses (current p) (Answers answer) of
             None \<Rightarrow> (refusedDNS pack query, p)
           | Some addresses \<Rightarrow>
               if DefaultAction (current p) = deny \<and> addresses \<noteq> [] then
                 (let m = put_addresses now addresses (live_learned now (learned p))
                  in if 4096 < length m then (Inl ErrAddressLimit, p)
                     else case learn (learn_entries now m) of
                            Some e \<Rightarrow> (Inl (ErrLearn e), p)
                          | None \<Rightarrow> (Inr data, p\<lparr>learned := m\<rparr>))
               else (Inr data, p))"

definition exchange ::
  "('b \<Rightarrow> message option) \<Rightarrow> (message \<Rightarrow> 'b option) \<Rightarrow> (dnsAddress list \<Rightarrow> string option) \<Rightarrow> time
     \<Rightarrow> policyControl \<Rightarrow> policyControl \<Rightarrow> 'b \<Rightarrow> (string, 'b) result
     \<Rightarrow> (dns_error, 'b) result \<times> policyControl" where
  "exchange unpack pack learn now p1 p2 payload upstream =
     (case unpack payload of
        None \<Rightarrow> (Inl ErrUnpack, p2)
      | Some query \<Rightarrow>
          if Response query \<or> length (Questions query) \<noteq> 1 then (Inl ErrExpectedOneQuestion, p2)
          else if \<not> (\<not> closed p1 \<and> domainAction (current p1) (QName (hd (Questions query))) = allow)
          then (refusedDNS pack query, p2)
          else case upstream of
                 Inl e \<Rightarrow> (Inl (ErrUpstream e), p2)
               | Inr data \<Rightarrow>
                   (case unpack data of
                      None \<Rightarrow> (Inl ErrUnpack, p2)
                    | Some answer \<Rightarrow>
                        if \<not> Response answer \<or> ID answer \<noteq> ID query \<or> length (Questions answer) \<noteq> 1
                           \<or> hd (Questions answer) \<noteq> hd (Questions query)
                        then (Inl ErrMismatchedResponse, p2)
                        else exchange_commit pack learn now (revision p1) query data answer p2))"

section \<open>What an answer has passed\<close>

lemma collect_addresses_Some:
  "collect_addresses p rs = Some as \<Longrightarrow>
     (\<forall>a \<in> set as. \<not> deniesIP p (IP a) \<and> 1 \<le> AddrTTL a \<and> AddrTTL a \<le> 300) \<and>
     (\<forall>r \<in> set rs. \<not> cname_denied p (Body r)) \<and>
     map IP as = List.map_filter (\<lambda>r. record_ip (Body r)) rs"
proof (induction rs arbitrary: as)
  case Nil
  then show ?case by (simp add: List.map_filter_def)
next
  case (Cons r rs)
  then show ?case
    by (auto simp: clamp_ttl_def Let_def List.map_filter_def split: if_splits option.splits)
qed

lemma live_learned_keys: "fst ` set (live_learned now m) \<subseteq> fst ` set m"
  by (auto simp: live_learned_def)

lemma map_of_put_addresses:
  "ip \<in> IP ` set as \<Longrightarrow> \<exists>a \<in> set as. IP a = ip \<and> map_of (put_addresses now as m) ip = Some (now + seconds (int (AddrTTL a)))"
proof (induction as arbitrary: m rule: rev_induct)
  case Nil
  then show ?case by simp
next
  case (snoc a as)
  have app: "put_addresses now (as @ [a]) m =
      al_put (IP a) (now + seconds (int (AddrTTL a))) (put_addresses now as m)" for m
    by (induction as arbitrary: m) auto
  from snoc show ?case by (cases "IP a = ip") (auto simp: app)
qed

lemma distinct_live_learned: "distinct (keys m) \<Longrightarrow> distinct (keys (live_learned now m))"
  by (induction m) (auto simp: live_learned_def)

lemma distinct_put_addresses: "distinct (keys m) \<Longrightarrow> distinct (keys (put_addresses now as m))"
  by (induction as arbitrary: m) auto

text \<open>The bound on learned addresses, and that no address is recorded twice.\<close>

definition control_ok :: "policyControl \<Rightarrow> bool" where
  "control_ok p = (distinct (keys (learned p)) \<and> length (learned p) \<le> 4096)"

lemma exchange_commit_ok:
  "control_ok p \<Longrightarrow> control_ok (snd (exchange_commit pack learn now rv q d a p))"
  by (auto simp: exchange_commit_def control_ok_def Let_def distinct_put_addresses distinct_live_learned
      split: option.splits)

lemma policy_update_ok: "control_ok p \<Longrightarrow> control_ok (snd (policy_update k p mu))"
  by (auto simp: policy_update_def control_ok_def split: sum.splits option.splits)

lemma exchange_ok:
  "control_ok p2 \<Longrightarrow> control_ok (snd (exchange unpack pack learn now p1 p2 payload up))"
  by (auto simp: exchange_def exchange_commit_ok split: option.splits sum.splits)

section \<open>The control as a state machine\<close>

text \<open>A control changes by an update, by an answer that is committed, and by being closed.\<close>

inductive control_step :: "policyControl \<Rightarrow> policyControl \<Rightarrow> bool" where
  update: "control_step p (snd (policy_update k p mu))"
| answer: "control_step p (snd (exchange_commit pack learn now rv q (d :: 8 word list) a p))"
| close: "control_step p (p\<lparr>closed := True\<rparr>)"

definition control_start :: "policyControl \<Rightarrow> bool" where
  "control_start p = (learned p = [])"

interpretation control: state_machine control_start control_step control_ok
proof
  fix s t
  show "control_start s \<Longrightarrow> control_ok s" by (simp add: control_start_def control_ok_def)
  assume "control_ok s" "control_step s t"
  from this(2,1) show "control_ok t"
  proof cases
    case (update k mu)
    with \<open>control_ok s\<close> show ?thesis by (simp add: policy_update_ok)
  next
    case (answer pack learn now rv q d a)
    with \<open>control_ok s\<close> show ?thesis by (simp add: exchange_commit_ok)
  next
    case close
    with \<open>control_ok s\<close> show ?thesis by (simp add: control_ok_def)
  qed
qed

lemma control_step_revision: "control_step p q \<Longrightarrow> revision p \<le> revision q"
  by (induction rule: control_step.induct)
    (auto simp: policy_update_def exchange_commit_def Let_def split: sum.splits option.splits)

lemma control_steps_revision: "control_step\<^sup>*\<^sup>* p q \<Longrightarrow> revision p \<le> revision q"
  by (induction rule: rtranclp_induct) (auto dest: control_step_revision)

section \<open>Properties\<close>

text \<open>C11: an upstream answer reaches the client only if the policy in force when it is checked is the
  one under which the question was allowed: same revision, not closed. Then no alias in the answer is
  explicitly denied and none of its addresses is denied, and under a default-deny policy every address
  was first accepted by the kernel with a lifetime between 1 and 300 seconds and is recorded.\<close>

theorem exchange_answer_passed_policy:
  assumes "exchange unpack pack learn now p1 p2 payload (Inr data) = (Inr out, p2')"
    and "unpack payload = Some query" and "unpack data = Some answer"
    and "\<not> Response query" and "length (Questions query) = 1"
    and "pack (refused_message query) \<noteq> Some out"
  shows "out = data \<and> \<not> closed p2 \<and> revision p2 = revision p1 \<and>
    domainAction (current p1) (QName (hd (Questions query))) = allow \<and>
    (\<forall>r \<in> set (Answers answer). \<not> cname_denied (current p2) (Body r) \<and>
       (\<forall>ip. record_ip (Body r) = Some ip \<longrightarrow> \<not> deniesIP (current p2) ip \<and>
          (DefaultAction (current p2) = deny \<longrightarrow>
             (\<exists>ttl. 1 \<le> ttl \<and> ttl \<le> 300 \<and> map_of (learned p2') ip = Some (now + seconds ttl)))))"
proof -
  have commit: "exchange_commit pack learn now (revision p1) query data answer p2 = (Inr out, p2')"
    and asked: "\<not> closed p1" "domainAction (current p1) (QName (hd (Questions query))) = allow"
    using assms by (auto simp: exchange_def refusedDNS_def split: if_splits option.splits)
  then obtain as where as: "collect_addresses (current p2) (Answers answer) = Some as"
    and live: "\<not> closed p2" "revision p2 = revision p1" and out: "out = data"
    and lrn: "DefaultAction (current p2) = deny \<Longrightarrow> as \<noteq> [] \<Longrightarrow>
       learned p2' = put_addresses now as (live_learned now (learned p2))"
    using assms(6) by (auto simp: exchange_commit_def refusedDNS_def Let_def split: if_splits option.splits)
  note c = collect_addresses_Some [OF as]
  have addr: "\<not> deniesIP (current p2) ip \<and> (DefaultAction (current p2) = deny \<longrightarrow>
      (\<exists>ttl. 1 \<le> ttl \<and> ttl \<le> 300 \<and> map_of (learned p2') ip = Some (now + seconds ttl)))"
    if r: "r \<in> set (Answers answer)" "record_ip (Body r) = Some ip" for r ip
  proof -
    have "ip \<in> set (List.map_filter (\<lambda>r. record_ip (Body r)) (Answers answer))"
      using r by (force simp: List.map_filter_def)
    with c have mem: "ip \<in> IP ` set as" by (metis list.set_map)
    with c have "\<not> deniesIP (current p2) ip" by auto
    moreover obtain a where "a \<in> set as"
      "map_of (put_addresses now as (live_learned now (learned p2))) ip = Some (now + seconds (int (AddrTTL a)))"
      using map_of_put_addresses [OF mem] by blast
    moreover from this c have "1 \<le> int (AddrTTL a)" "int (AddrTTL a) \<le> 300" by fastforce+
    ultimately show ?thesis using lrn by (metis empty_iff list.set(1))
  qed
  from out live asked c addr show ?thesis by blast
qed

text \<open>However updates, answers and closing interleave, a control never has more than 4096 learned
  addresses and none of them twice.\<close>

theorem learned_addresses_bounded:
  assumes "learned p = []" and "control_step\<^sup>*\<^sup>* p q"
  shows "length (learned q) \<le> 4096 \<and> distinct (map fst (learned q))"
  using control.inv_reachable [of p q] assms by (simp add: control_start_def control_ok_def)

text \<open>A question that was admitted under a policy is never answered after that policy was replaced.
  However many updates, answers and closings follow, an answer that arrives after an accepted
  mutation is refused: it is not forwarded, and it leaves the control and the kernel's addresses as they
  were.\<close>

theorem stale_answer_refused:
  assumes asked: "control_step\<^sup>*\<^sup>* p q"
    and mutated: "policy_update k q mu = (Inr st, q')" "Replace mu \<noteq> None \<or> Merge mu \<noteq> None \<or> Remove mu \<noteq> None"
    and arrives: "control_step\<^sup>*\<^sup>* q' r"
    and out: "exchange unpack pack learn now p r payload (Inr data) = (Inr out, r')"
  shows "r' = r \<and> (\<exists>query. unpack payload = Some query \<and> refusedDNS pack query = Inr out)"
proof -
  have "revision q' = Suc (revision q)"
    using mutated by (auto simp: policy_update_def split: if_splits sum.splits option.splits)
  then have "revision r \<noteq> revision p"
    using control_steps_revision [OF asked] control_steps_revision [OF arrives] by linarith
  then show ?thesis using out
    by (auto simp: exchange_def exchange_commit_def split: option.splits if_splits)
qed

definition sample_control :: policyControl where
  "sample_control =
     \<lparr>current = \<lparr>DefaultAction = deny, Egress = [\<lparr>Action = allow, Target = ''a.b''\<rparr>]\<rparr>,
      revision = 3, closed = False, learned = []\<rparr>"

definition sample_query :: message where
  "sample_query = \<lparr>ID = 7, Response = False, RCode = 0,
     Questions = [\<lparr>QName = ''A.b.'', QType = 1, QClass = 1\<rparr>],
     Answers = [], Authorities = [], Additionals = []\<rparr>"

definition sample_answer :: message where
  "sample_answer = sample_query\<lparr>Response := True, Answers := [\<lparr>TTL = 0, Body = AResource 16909060\<rparr>]\<rparr>"

definition sample_unpack :: "nat \<Rightarrow> message option" where
  "sample_unpack b = (if b = 0 then Some sample_query else if b = 1 then Some sample_answer else None)"

lemma sample_exchange:
  "exchange sample_unpack (\<lambda>_. Some 2) (\<lambda>_. None) 1000 sample_control sample_control 0 (Inr 1)
     = (Inr 1, sample_control\<lparr>learned := [(A4 16909060, 1000001000)]\<rparr>)"
  by code_simp

theorem exchange_answer_passed_policy_witness:
  "map_of (learned (sample_control\<lparr>learned := [(A4 16909060, 1000001000)]\<rparr>)) (A4 16909060) = Some (1000 + seconds 1)
   \<and> \<not> deniesIP (current sample_control) (A4 16909060)"
proof -
  have "\<forall>r \<in> set (Answers sample_answer). \<forall>ip. record_ip (Body r) = Some ip \<longrightarrow> \<not> deniesIP (current sample_control) ip"
    using exchange_answer_passed_policy [OF sample_exchange, of sample_query sample_answer]
    by (simp add: sample_unpack_def sample_query_def refused_message_def)
  then show ?thesis by (simp add: sample_answer_def seconds_def)
qed

theorem learned_addresses_bounded_witness:
  "length (learned (snd (policy_update (\<lambda>_. None) sample_control \<lparr>Replace = None, Merge = None, Remove = None\<rparr>))) \<le> 4096"
proof -
  have e: "learned sample_control = []" by (simp add: sample_control_def)
  have "control_step\<^sup>*\<^sup>* sample_control
     (snd (policy_update (\<lambda>_. None) sample_control \<lparr>Replace = None, Merge = None, Remove = None\<rparr>))"
    by (rule r_into_rtranclp) (rule control_step.update)
  from learned_addresses_bounded [OF e this] show ?thesis by simp
qed

definition sample_mutation :: PolicyMutation where
  "sample_mutation = \<lparr>Replace = None, Merge = Some [\<lparr>Action = deny, Target = ''a.b''\<rparr>], Remove = None\<rparr>"

lemma sample_mutation_accepted:
  "fst (policy_update (\<lambda>_. None) sample_control sample_mutation) = Inr (policy_status (current (snd (policy_update (\<lambda>_. None) sample_control sample_mutation))))"
  by code_simp

lemma sample_stale:
  "exchange sample_unpack (\<lambda>_. Some 2) (\<lambda>_. None) 1000 sample_control
     (snd (policy_update (\<lambda>_. None) sample_control sample_mutation)) 0 (Inr 1)
   = (Inr 2, snd (policy_update (\<lambda>_. None) sample_control sample_mutation))"
  by code_simp

theorem stale_answer_refused_witness:
  "\<exists>query. sample_unpack 0 = Some query \<and> refusedDNS (\<lambda>_. Some (2::nat)) query = Inr 2"
proof -
  have m: "policy_update (\<lambda>_. None) sample_control sample_mutation =
      (Inr (policy_status (current (snd (policy_update (\<lambda>_. None) sample_control sample_mutation)))),
       snd (policy_update (\<lambda>_. None) sample_control sample_mutation))"
    using sample_mutation_accepted by (simp add: prod_eq_iff)
  have "Replace sample_mutation \<noteq> None \<or> Merge sample_mutation \<noteq> None \<or> Remove sample_mutation \<noteq> None"
    by (simp add: sample_mutation_def)
  from stale_answer_refused [OF rtranclp.rtrancl_refl m this rtranclp.rtrancl_refl sample_stale]
  show ?thesis by blast
qed

end
