(* ===== verification/Net_Ports.thy ===== *)
theory Net_Ports
  imports Go_Net
begin

text \<open>
  The daemon's TCP port allocator: \<open>src/internal/host/network/ports.go\<close>.

  A \<open>*PortAllocation\<close> is a pointer that its holder keeps after the manager forgot it, so the manager
  is modelled with a store: \<open>heap\<close> holds every allocation ever made (the pointer is the index) and
  \<open>live\<close> the pointers that are keys of \<open>m.allocations\<close>. The kernel is a parameter: \<open>probe\<close> is what
  listening on an address and closing the listener gives, \<open>listen\<close> what listening gives.
  The counted loops of the source (\<open>for range n\<close>) recurse on \<open>n\<close>.
\<close>

section \<open>State\<close>

record PortAllocation =
  Owner :: string
  AllocScope :: string
  Address :: string
  State :: string
  Host :: string
  Port :: int
  Listener :: bool

record PortManager =
  First :: int
  Last :: int
  Next :: int
  Closed :: bool
  heap :: "PortAllocation list"
  live :: "nat list"

datatype port_error =
    ErrInvalidRange | NetErrClosed | ErrAddressSyntax | ErrNotLiteralIP | ErrInvalidPortRequest
  | ErrPortsExhausted | ErrCheckListener string | ErrListen string | ErrResolve string | ErrListenerClose string

datatype probe_result = ProbeOk | ProbeInUse | ProbeFails string

section \<open>Operations\<close>

definition NewPortManager :: "int \<Rightarrow> int \<Rightarrow> (port_error, PortManager) result" where
  "NewPortManager f l =
     (if f < 1 \<or> 65535 < l \<or> l < f then Inl ErrInvalidRange
      else Inr \<lparr>First = f, Last = l, Next = f, Closed = False, heap = [], live = []\<rparr>)"

definition overlappingHosts :: "string \<Rightarrow> string \<Rightarrow> bool" where
  "overlappingHosts a b =
     (if a = [] \<or> b = [] \<or> a = ''::'' \<or> b = ''::'' then True
      else
        let x = map_option unmap (parse_addr a); y = map_option unmap (parse_addr b);
            is4o = (\<lambda>z. case z of None \<Rightarrow> False | Some i \<Rightarrow> is4 i);
            unspec = (\<lambda>z. case z of None \<Rightarrow> False | Some i \<Rightarrow> is_unspecified i)
        in x = y \<or> (is4o x = is4o y \<and> (unspec x \<or> unspec y)))"

definition conflict :: "PortManager \<Rightarrow> string \<Rightarrow> int \<Rightarrow> string \<Rightarrow> bool" where
  "conflict m scope candidate host =
     list_ex (\<lambda>a. AllocScope (heap m ! a) = scope \<and> Port (heap m ! a) = candidate \<and>
                  overlappingHosts (Host (heap m ! a)) host) (live m)"

definition advance :: "PortManager \<Rightarrow> PortManager" where
  "advance m = (let n = Next m + 1 in m\<lparr>Next := if n > Last m then First m else n\<rparr>)"

definition add_allocation :: "PortManager \<Rightarrow> PortAllocation \<Rightarrow> PortManager" where
  "add_allocation m a = m\<lparr>heap := heap m @ [a], live := length (heap m) # live m\<rparr>"

definition del_allocation :: "PortManager \<Rightarrow> nat \<Rightarrow> PortManager" where
  "del_allocation m a = m\<lparr>live := filter (\<lambda>x. x \<noteq> a) (live m)\<rparr>"

fun reserve_loop ::
  "nat \<Rightarrow> PortManager \<Rightarrow> string \<Rightarrow> string \<Rightarrow> string \<Rightarrow> int \<Rightarrow> (port_error, nat) result \<times> PortManager" where
  "reserve_loop 0 m owner scope host port = (Inl ErrPortsExhausted, m)"
| "reserve_loop (Suc n) m owner scope host port =
     (let candidate = (if port = 0 then Next m else port);
          m' = (if port = 0 then advance m else m)
      in if conflict m' scope candidate host then reserve_loop n m' owner scope host port
         else (Inr (length (heap m')),
               add_allocation m'
                 \<lparr>Owner = owner, AllocScope = scope, Address = join_host_port host (itoa candidate),
                  State = ''reserved'', Host = host, Port = candidate, Listener = False\<rparr>))"

definition pool_size :: "PortManager \<Rightarrow> nat" where
  "pool_size m = nat (Last m - First m + 1)"

definition reserve ::
  "PortManager \<Rightarrow> string \<Rightarrow> string \<Rightarrow> string \<Rightarrow> (port_error, nat) result \<times> PortManager" where
  "reserve m owner scope address =
     (if Closed m then (Inl NetErrClosed, m)
      else case split_host_port address of
             None \<Rightarrow> (Inl ErrAddressSyntax, m)
           | Some (host, rawPort) \<Rightarrow>
               if host \<noteq> [] \<and> parse_addr host = None then (Inl ErrNotLiteralIP, m)
               else case atoi rawPort of
                      None \<Rightarrow> (Inl ErrInvalidPortRequest, m)
                    | Some port \<Rightarrow>
                        if port < 0 \<or> 65535 < port \<or> owner = [] then (Inl ErrInvalidPortRequest, m)
                        else reserve_loop (if port = 0 then pool_size m else 1) m owner scope host port)"

definition zero_port :: "string \<Rightarrow> bool" where
  "zero_port address = (case split_host_port address of None \<Rightarrow> False | Some (_, port) \<Rightarrow> port = ''0'')"

fun Reserve_loop ::
  "(string \<Rightarrow> probe_result) \<Rightarrow> nat \<Rightarrow> PortManager \<Rightarrow> string \<Rightarrow> string \<Rightarrow> string
     \<Rightarrow> (port_error, nat) result \<times> PortManager" where
  "Reserve_loop probe 0 m owner scope address = (Inl ErrPortsExhausted, m)"
| "Reserve_loop probe (Suc n) m owner scope address =
     (case reserve m owner scope address of
        (Inl e, m') \<Rightarrow> (Inl e, m')
      | (Inr a, m') \<Rightarrow>
          if scope \<noteq> [] then (Inr a, m')
          else case probe (Address (heap m' ! a)) of
                 ProbeOk \<Rightarrow> (Inr a, m')
               | ProbeInUse \<Rightarrow> Reserve_loop probe n (del_allocation m' a) owner scope address
               | ProbeFails e \<Rightarrow> (Inl (ErrCheckListener e), del_allocation m' a))"

definition Reserve ::
  "(string \<Rightarrow> probe_result) \<Rightarrow> PortManager \<Rightarrow> string \<Rightarrow> string \<Rightarrow> string
     \<Rightarrow> (port_error, nat) result \<times> PortManager" where
  "Reserve probe m owner scope address =
     Reserve_loop probe (if zero_port address then pool_size m else 1) m owner scope address"

definition set_listening :: "PortManager \<Rightarrow> nat \<Rightarrow> PortManager" where
  "set_listening m a = m\<lparr>heap := (heap m)[a := (heap m ! a)\<lparr>Listener := True, State := ''listening''\<rparr>]\<rparr>"

fun Listen_loop ::
  "(string \<Rightarrow> string option) \<Rightarrow> nat \<Rightarrow> PortManager \<Rightarrow> string \<Rightarrow> string \<Rightarrow> bool
     \<Rightarrow> (port_error, nat) result \<times> PortManager" where
  "Listen_loop listen 0 m owner address zero = (Inl ErrPortsExhausted, m)"
| "Listen_loop listen (Suc n) m owner address zero =
     (case reserve m owner [] address of
        (Inl e, m') \<Rightarrow> (Inl e, m')
      | (Inr a, m') \<Rightarrow>
          (case listen (Address (heap m' ! a)) of
             Some e \<Rightarrow>
               if zero then Listen_loop listen n (del_allocation m' a) owner address zero
               else (Inl (ErrListen e), del_allocation m' a)
           | None \<Rightarrow> (Inr a, set_listening m' a)))"

definition Listen ::
  "(string \<Rightarrow> (string, string) result) \<Rightarrow> (string \<Rightarrow> string option) \<Rightarrow> PortManager \<Rightarrow> string \<Rightarrow> string
     \<Rightarrow> (port_error, nat) result \<times> PortManager" where
  "Listen resolve listen m owner address0 =
     (case resolve address0 of
        Inl e \<Rightarrow> (Inl (ErrResolve e), m)
      | Inr address \<Rightarrow>
          (case split_host_port address of
             None \<Rightarrow> (Inl ErrAddressSyntax, m)
           | Some (_, port) \<Rightarrow>
               Listen_loop listen (if port = ''0'' then pool_size m else 1) m owner address (port = ''0'')))"

definition Confirm :: "PortManager \<Rightarrow> nat \<Rightarrow> (port_error, unit) result \<times> PortManager" where
  "Confirm m a =
     (if a \<notin> set (live m) then (Inl NetErrClosed, m)
      else (Inr (), m\<lparr>heap := (heap m)[a := (heap m ! a)\<lparr>State := ''listening''\<rparr>]\<rparr>))"

definition Unconfirm :: "PortManager \<Rightarrow> nat \<Rightarrow> PortManager" where
  "Unconfirm m a =
     (if a \<in> set (live m) \<and> \<not> Listener (heap m ! a)
      then m\<lparr>heap := (heap m)[a := (heap m ! a)\<lparr>State := ''reserved''\<rparr>]\<rparr> else m)"

text \<open>\<open>close_err\<close>: the error of closing the listener, \<open>None\<close> when it closed or was closed before.\<close>

definition ReleasePort :: "string option \<Rightarrow> PortManager \<Rightarrow> nat \<Rightarrow> (port_error, unit) result \<times> PortManager" where
  "ReleasePort close_err m a =
     (if a \<notin> set (live m) then (Inr (), m)
      else case (if Listener (heap m ! a) then close_err else None) of
             Some e \<Rightarrow> (Inl (ErrListenerClose e), m)
           | None \<Rightarrow> (Inr (), del_allocation m a))"

definition PortStatuses :: "PortManager \<Rightarrow> PortAllocation list" where
  "PortStatuses m = map (\<lambda>a. heap m ! a) (live m)"

definition ClosePorts :: "(nat \<Rightarrow> string option) \<Rightarrow> PortManager \<Rightarrow> string list \<times> PortManager" where
  "ClosePorts close_err m =
     (List.map_filter (\<lambda>a. if Listener (heap m ! a) then close_err a else None) (live m),
      m\<lparr>Closed := True, live := []\<rparr>)"

section \<open>Invariant\<close>

definition compatible :: "PortAllocation \<Rightarrow> PortAllocation \<Rightarrow> bool" where
  "compatible a b = (AllocScope a = AllocScope b \<longrightarrow> Port a = Port b \<longrightarrow> \<not> overlappingHosts (Host a) (Host b))"

definition ports_ok :: "PortManager \<Rightarrow> bool" where
  "ports_ok m =
     (1 \<le> First m \<and> First m \<le> Next m \<and> Next m \<le> Last m \<and> Last m \<le> 65535 \<and>
      distinct (live m) \<and>
      (\<forall>a \<in> set (live m). a < length (heap m) \<and> 1 \<le> Port (heap m ! a) \<and> Port (heap m ! a) \<le> 65535) \<and>
      (\<forall>a \<in> set (live m). \<forall>b \<in> set (live m). a \<noteq> b \<longrightarrow> compatible (heap m ! a) (heap m ! b)))"

lemma overlappingHosts_sym: "overlappingHosts a b = overlappingHosts b a"
  by (auto simp: overlappingHosts_def Let_def)

lemma compatible_sym: "compatible a b = compatible b a"
  using overlappingHosts_sym by (auto simp: compatible_def)

lemma advance_simps [simp]:
  "First (advance m) = First m" "Last (advance m) = Last m" "Closed (advance m) = Closed m"
  "heap (advance m) = heap m" "live (advance m) = live m"
  by (simp_all add: advance_def Let_def)

lemma conflict_advance [simp]: "conflict (advance m) s p h = conflict m s p h"
  by (simp add: conflict_def)

lemma advance_ok: "ports_ok m \<Longrightarrow> ports_ok (advance m)"
  unfolding ports_ok_def by (simp add: advance_def Let_def)

lemma del_allocation_ok: "ports_ok m \<Longrightarrow> ports_ok (del_allocation m a)"
  unfolding ports_ok_def by (auto simp: del_allocation_def)

text \<open>Changing what is not \<open>AllocScope\<close>, \<open>Port\<close> or \<open>Host\<close> of an allocation keeps the invariant.\<close>

lemma heap_update_ok:
  assumes ok: "ports_ok m"
    and same: "AllocScope x = AllocScope (heap m ! a)" "Port x = Port (heap m ! a)" "Host x = Host (heap m ! a)"
  shows "ports_ok (m\<lparr>heap := (heap m)[a := x]\<rparr>)"
proof -
  have keep: "b < length (heap m) \<Longrightarrow> AllocScope ((heap m)[a := x] ! b) = AllocScope (heap m ! b) \<and>
      Port ((heap m)[a := x] ! b) = Port (heap m ! b) \<and> Host ((heap m)[a := x] ! b) = Host (heap m ! b)" for b
    using same by (cases "a = b") auto
  show ?thesis using ok unfolding ports_ok_def by (auto simp: compatible_def keep)
qed

lemma add_allocation_ok:
  assumes ok: "ports_ok m"
    and free: "\<not> conflict m (AllocScope x) (Port x) (Host x)"
    and rng: "1 \<le> Port x" "Port x \<le> 65535"
  shows "ports_ok (add_allocation m x)"
proof -
  let ?h = "heap m @ [x]" and ?n = "length (heap m)"
  have old: "a \<in> set (live m) \<Longrightarrow> ?h ! a = heap m ! a" for a
    using ok by (simp add: ports_ok_def nth_append)
  have new: "a \<in> set (live m) \<Longrightarrow> compatible (heap m ! a) x" for a
    using free by (auto simp: conflict_def list_ex_iff compatible_def)
  have notin: "?n \<notin> set (live m)" using ok by (auto simp: ports_ok_def)
  let ?l = "?n # live m"
  have n: "?h ! ?n = x" by simp
  have bounds: "\<forall>a \<in> set ?l. a < length ?h \<and> 1 \<le> Port (?h ! a) \<and> Port (?h ! a) \<le> 65535"
    using ok rng old unfolding ports_ok_def by fastforce
  have pairs: "\<forall>a \<in> set ?l. \<forall>b \<in> set ?l. a \<noteq> b \<longrightarrow> compatible (?h ! a) (?h ! b)"
  proof (intro ballI impI)
    fix a b assume ab: "a \<in> set ?l" "b \<in> set ?l" "a \<noteq> b"
    then consider "a = ?n" "b \<in> set (live m)" | "b = ?n" "a \<in> set (live m)"
      | "a \<in> set (live m)" "b \<in> set (live m)" by auto
    then show "compatible (?h ! a) (?h ! b)"
    proof cases
      case 1
      then show ?thesis using new old n compatible_sym by metis
    next
      case 2
      then show ?thesis using new old n by metis
    next
      case 3
      then show ?thesis using ok ab(3) old unfolding ports_ok_def by metis
    qed
  qed
  from ok bounds pairs notin show ?thesis
    unfolding ports_ok_def add_allocation_def by simp
qed

lemma reserve_loop_ok:
  "ports_ok m \<Longrightarrow> \<not> port < 0 \<Longrightarrow> \<not> 65535 < port \<Longrightarrow> reserve_loop n m owner scope host port = (r, m')
     \<Longrightarrow> ports_ok m'"
proof (induction n arbitrary: m)
  case 0
  then show ?case by simp
next
  case (Suc n)
  let ?c = "if port = 0 then Next m else port" and ?m = "if port = 0 then advance m else m"
  have okm: "ports_ok ?m" using Suc.prems by (simp add: advance_ok)
  have rng: "1 \<le> ?c" "?c \<le> 65535" using Suc.prems by (auto simp: ports_ok_def)
  show ?case
  proof (cases "conflict ?m scope ?c host")
    case True
    with Suc.prems okm show ?thesis by (intro Suc.IH [of ?m]) (auto simp: Let_def)
  next
    case False
    with Suc.prems okm rng show ?thesis by (auto simp: Let_def intro!: add_allocation_ok)
  qed
qed

lemma reserve_ok: "ports_ok m \<Longrightarrow> reserve m owner scope address = (r, m') \<Longrightarrow> ports_ok m'"
  by (auto simp: reserve_def simp del: reserve_loop.simps
      split: if_splits option.splits prod.splits intro: reserve_loop_ok)

lemma Reserve_loop_ok:
  "ports_ok m \<Longrightarrow> Reserve_loop probe n m owner scope address = (r, m') \<Longrightarrow> ports_ok m'"
proof (induction n arbitrary: m)
  case 0
  then show ?case by simp
next
  case (Suc n)
  obtain r1 m1 where r1: "reserve m owner scope address = (r1, m1)" by fastforce
  with Suc.prems have ok1: "ports_ok m1" by (simp add: reserve_ok)
  have del: "ports_ok (del_allocation m1 a)" for a using ok1 by (rule del_allocation_ok)
  from Suc.prems(2) Suc.IH [OF del] r1 ok1 del show ?case
    by (auto split: sum.splits if_splits probe_result.splits)
qed

lemma Listen_loop_ok:
  "ports_ok m \<Longrightarrow> Listen_loop listen n m owner address z = (r, m') \<Longrightarrow> ports_ok m'"
proof (induction n arbitrary: m)
  case 0
  then show ?case by simp
next
  case (Suc n)
  obtain r1 m1 where r1: "reserve m owner [] address = (r1, m1)" by fastforce
  with Suc.prems have ok1: "ports_ok m1" by (simp add: reserve_ok)
  have del: "ports_ok (del_allocation m1 a)" for a using ok1 by (rule del_allocation_ok)
  have lis: "ports_ok (set_listening m1 a)" for a
    unfolding set_listening_def using ok1 by (rule heap_update_ok) simp_all
  from Suc.prems(2) Suc.IH [OF del] r1 ok1 del lis show ?case
    by (auto split: sum.splits if_splits option.splits)
qed

section \<open>The manager as a state machine\<close>

inductive ports_step :: "PortManager \<Rightarrow> PortManager \<Rightarrow> bool" where
  reserve: "ports_step m (snd (Reserve probe m owner scope address))"
| listen: "ports_step m (snd (Listen resolve lsn m owner address))"
| confirm: "ports_step m (snd (Confirm m a))"
| unconfirm: "ports_step m (Unconfirm m a)"
| release: "ports_step m (snd (ReleasePort err m a))"
| close: "ports_step m (snd (ClosePorts errs m))"

definition ports_start :: "PortManager \<Rightarrow> bool" where
  "ports_start m = (\<exists>f l. NewPortManager f l = Inr m)"

lemma ports_step_ok: "ports_step m t \<Longrightarrow> ports_ok m \<Longrightarrow> ports_ok t"
proof (induction rule: ports_step.induct)
  case (reserve m probe owner scope address)
  then show ?case using Reserve_loop_ok by (metis Reserve_def prod.collapse)
next
  case (listen m resolve lsn owner address)
  then show ?case
    using Listen_loop_ok [OF listen(1) prod.collapse [symmetric]]
    by (simp add: Listen_def split: sum.splits option.splits)
next
  case (confirm m a)
  then show ?case by (simp add: Confirm_def heap_update_ok)
next
  case (unconfirm m a)
  then show ?case by (simp add: Unconfirm_def heap_update_ok)
next
  case (release m err a)
  then show ?case by (auto simp: ReleasePort_def del_allocation_ok split: option.splits)
next
  case (close m errs)
  then show ?case by (auto simp: ClosePorts_def ports_ok_def)
qed

interpretation port_manager: state_machine ports_start ports_step ports_ok
proof
  show "ports_start s \<Longrightarrow> ports_ok s" for s
    by (auto simp: ports_start_def NewPortManager_def ports_ok_def split: if_splits)
  show "ports_ok s \<Longrightarrow> ports_step s t \<Longrightarrow> ports_ok t" for s t
    by (rule ports_step_ok)
qed

section \<open>The round-robin scan\<close>

text \<open>The \<open>k\<close>-th port the scan looks at.\<close>

definition scan_port :: "PortManager \<Rightarrow> nat \<Rightarrow> int" where
  "scan_port m k = First m + (Next m - First m + int k) mod (Last m - First m + 1)"

lemma scan_port_0: "ports_ok m \<Longrightarrow> scan_port m 0 = Next m"
  by (simp add: scan_port_def ports_ok_def)

lemma scan_port_advance:
  assumes "ports_ok m"
  shows "scan_port (advance m) k = scan_port m (Suc k)"
proof -
  let ?n = "Last m - First m + 1"
  have "Next (advance m) - First m = (Next m - First m + 1) mod ?n"
  proof (cases "Next m = Last m")
    case True
    then show ?thesis by (simp add: advance_def Let_def)
  next
    case False
    with assms have "Next m < Last m" by (simp add: ports_ok_def)
    with assms show ?thesis by (simp add: advance_def Let_def ports_ok_def)
  qed
  then have "(Next (advance m) - First m + int k) mod ?n = (Next m - First m + 1 + int k) mod ?n"
    by (simp add: mod_add_left_eq)
  then show ?thesis by (simp add: scan_port_def algebra_simps)
qed

lemma reserve_loop_exhausted:
  "ports_ok m \<Longrightarrow> reserve_loop n m owner scope host 0 = (Inl ErrPortsExhausted, m')
     \<Longrightarrow> k < n \<Longrightarrow> conflict m scope (scan_port m k) host"
proof (induction n arbitrary: m k)
  case 0
  then show ?case by simp
next
  case (Suc n)
  from Suc.prems(2) have c: "conflict m scope (Next m) host"
    and rest: "reserve_loop n (advance m) owner scope host 0 = (Inl ErrPortsExhausted, m')"
    by (auto simp: Let_def split: if_splits)
  show ?case
  proof (cases k)
    case 0
    with c Suc.prems(1) show ?thesis by (simp add: scan_port_0)
  next
    case (Suc j)
    with Suc.prems(3) have "j < n" by simp
    from Suc.IH [OF advance_ok [OF Suc.prems(1)] rest this] show ?thesis
      using Suc Suc.prems(1) by (simp add: scan_port_advance)
  qed
qed

lemma scan_covers_pool:
  assumes ok: "ports_ok m" and p: "First m \<le> p" "p \<le> Last m"
  shows "\<exists>k < pool_size m. scan_port m k = p"
proof -
  let ?n = "Last m - First m + 1" and ?k = "(p - Next m) mod (Last m - First m + 1)"
  have n: "0 < ?n" using p by simp
  have "(Next m - First m + ?k) mod ?n = (p - First m) mod ?n"
    by (simp add: mod_add_right_eq)
  also have "\<dots> = p - First m" using p by simp
  finally have "scan_port m (nat ?k) = p" using n by (simp add: scan_port_def)
  moreover have "nat ?k < pool_size m"
    unfolding pool_size_def using pos_mod_bound [OF n, of "p - Next m"] n by (subst nat_less_eq_zless) auto
  ultimately show ?thesis by blast
qed

section \<open>What a reservation gives\<close>

text \<open>\<open>granted m m' a scope\<close>: \<open>a\<close> is a new live allocation, every other live allocation is as before.\<close>

definition granted :: "PortManager \<Rightarrow> PortManager \<Rightarrow> nat \<Rightarrow> bool" where
  "granted m m' a =
     (a \<notin> set (live m) \<and> set (live m') = insert a (set (live m)) \<and> a < length (heap m') \<and>
      (\<forall>b \<in> set (live m). heap m' ! b = heap m ! b))"

definition unchanged :: "PortManager \<Rightarrow> PortManager \<Rightarrow> bool" where
  "unchanged m m' = (set (live m') = set (live m) \<and> (\<forall>b \<in> set (live m). heap m' ! b = heap m ! b))"

text \<open>
  \<open>fulfils m m' a owner scope address\<close>: \<open>a\<close> was granted as requested. Its port conflicts with no
  allocation that was live before; it comes from the pool when port 0 was asked, else it is the one asked.
\<close>

definition fulfils :: "PortManager \<Rightarrow> PortManager \<Rightarrow> nat \<Rightarrow> string \<Rightarrow> string \<Rightarrow> string \<Rightarrow> bool" where
  "fulfils m m' a owner scope address =
     (\<not> Closed m \<and> granted m m' a \<and> AllocScope (heap m' ! a) = scope \<and> Owner (heap m' ! a) = owner \<and>
      (\<exists>host raw. split_host_port address = Some (host, raw) \<and> Host (heap m' ! a) = host \<and>
         \<not> conflict m scope (Port (heap m' ! a)) host \<and>
         (if atoi raw = Some 0 then First m \<le> Port (heap m' ! a) \<and> Port (heap m' ! a) \<le> Last m
          else atoi raw = Some (Port (heap m' ! a))) \<and>
         Address (heap m' ! a) = join_host_port host (itoa (Port (heap m' ! a)))))"

lemma reserve_loop_result:
  "ports_ok m \<Longrightarrow> reserve_loop n m owner scope host port = (r, m') \<Longrightarrow>
     (case r of
        Inl e \<Rightarrow> e = ErrPortsExhausted \<and> unchanged m m'
      | Inr a \<Rightarrow> granted m m' a \<and> \<not> conflict m scope (Port (heap m' ! a)) host \<and>
          (if port = 0 then First m \<le> Port (heap m' ! a) \<and> Port (heap m' ! a) \<le> Last m
           else Port (heap m' ! a) = port) \<and>
          AllocScope (heap m' ! a) = scope \<and> Owner (heap m' ! a) = owner \<and> Host (heap m' ! a) = host \<and>
          Address (heap m' ! a) = join_host_port host (itoa (Port (heap m' ! a))))"
proof (induction n arbitrary: m)
  case 0
  then show ?case by (auto simp: unchanged_def)
next
  case (Suc n)
  let ?c = "if port = 0 then Next m else port" and ?m = "if port = 0 then advance m else m"
  have ok: "ports_ok ?m" using Suc.prems by (simp add: advance_ok)
  have fresh: "length (heap m) \<notin> set (live m)" "\<forall>b \<in> set (live m). b < length (heap m)"
    using Suc.prems(1) by (auto simp: ports_ok_def)
  show ?case
  proof (cases "conflict ?m scope ?c host")
    case True
    with Suc.prems(2) have "reserve_loop n ?m owner scope host port = (r, m')" by (simp add: Let_def)
    from Suc.IH [OF ok this] show ?thesis
      by (auto simp: granted_def unchanged_def split: sum.splits if_splits)
  next
    case False
    with Suc.prems fresh show ?thesis
      by (auto simp: Let_def granted_def add_allocation_def nth_append ports_ok_def)
  qed
qed

lemma reserve_result:
  assumes "ports_ok m" and "reserve m owner scope address = (r, m')"
  shows "case r of
      Inl e \<Rightarrow> unchanged m m'
    | Inr a \<Rightarrow> fulfils m m' a owner scope address"
proof -
  have same: "unchanged m m" by (simp add: unchanged_def)
  show ?thesis
    using assms(2) reserve_loop_result [OF assms(1)] same
    by (fastforce simp: reserve_def fulfils_def simp del: reserve_loop.simps
        split: if_splits option.splits prod.splits sum.splits)
qed

lemma unchanged_conflict: "unchanged m m' \<Longrightarrow> conflict m' s p h = conflict m s p h"
  by (auto simp: unchanged_def conflict_def list_ex_iff)

lemma granted_del: "granted m m' a \<Longrightarrow> unchanged m (del_allocation m' a)"
  by (auto simp: granted_def unchanged_def del_allocation_def)

lemma unchanged_trans: "unchanged m m1 \<Longrightarrow> unchanged m1 m2 \<Longrightarrow> unchanged m m2"
  by (simp add: unchanged_def)

lemma unchanged_granted: "unchanged m m1 \<Longrightarrow> granted m1 m2 a \<Longrightarrow> granted m m2 a"
  by (simp add: unchanged_def granted_def)

definition same_range :: "PortManager \<Rightarrow> PortManager \<Rightarrow> bool" where
  "same_range m m' = (First m' = First m \<and> Last m' = Last m \<and> Closed m' = Closed m)"

lemma reserve_loop_range: "reserve_loop n m owner scope host port = (r, m') \<Longrightarrow> same_range m m'"
proof (induction n arbitrary: m)
  case 0
  then show ?case by (simp add: same_range_def)
next
  case (Suc n)
  then show ?case
    by (fastforce simp: Let_def same_range_def add_allocation_def split: if_splits)
qed

lemma reserve_range: "reserve m owner scope address = (r, m') \<Longrightarrow> same_range m m'"
  by (auto simp: reserve_def same_range_def simp del: reserve_loop.simps
      split: if_splits option.splits prod.splits dest!: reserve_loop_range)

lemma unchanged_fulfils:
  assumes "unchanged m m1" and "same_range m m1" and "fulfils m1 m2 a owner scope address"
  shows "fulfils m m2 a owner scope address"
  using assms unchanged_granted [OF assms(1)]
  unfolding fulfils_def same_range_def unchanged_conflict [OF assms(1)] by auto

lemma fulfils_granted: "fulfils m m' a owner scope address \<Longrightarrow> granted m m' a"
  by (simp add: fulfils_def)

lemma Reserve_loop_result:
  "ports_ok m \<Longrightarrow> Reserve_loop probe n m owner scope address = (r, m') \<Longrightarrow>
     (case r of
        Inl e \<Rightarrow> unchanged m m'
      | Inr a \<Rightarrow> fulfils m m' a owner scope address \<and>
          (scope = [] \<longrightarrow> probe (Address (heap m' ! a)) = ProbeOk))"
proof (induction n arbitrary: m)
  case 0
  then show ?case by (auto simp: unchanged_def)
next
  case (Suc n)
  obtain r1 m1 where r1: "reserve m owner scope address = (r1, m1)" by fastforce
  note res = reserve_result [OF Suc.prems(1) r1]
  show ?case
  proof (cases r1)
    case (Inl e)
    with Suc.prems r1 res show ?thesis by auto
  next
    case (Inr a)
    with res have g: "fulfils m m1 a owner scope address" by simp
    then have u: "unchanged m (del_allocation m1 a)" by (blast intro: granted_del fulfils_granted)
    show ?thesis
    proof (cases "scope = [] \<and> probe (Address (heap m1 ! a)) = ProbeInUse")
      case True
      let ?m = "del_allocation m1 a"
      have ok: "ports_ok ?m" using Suc.prems(1) r1 by (simp add: reserve_ok del_allocation_ok)
      have rl: "Reserve_loop probe n ?m owner scope address = (r, m')"
        using True Inr r1 Suc.prems(2) by simp
      have rng: "same_range m ?m"
        using reserve_range [OF r1] by (simp add: same_range_def del_allocation_def)
      from Suc.IH [OF ok rl] show ?thesis
        by (auto intro: unchanged_trans [OF u] unchanged_fulfils [OF u rng] split: sum.splits)
    next
      case False
      with Suc.prems(2) r1 Inr g u show ?thesis
        by (auto split: if_splits probe_result.splits)
    qed
  qed
qed

section \<open>A dynamic request misses no port\<close>

text \<open>The scan of one \<open>reserve\<close> stops at the first port without a conflict and goes on behind it next time.\<close>

lemma reserve_loop_first:
  "ports_ok m \<Longrightarrow> reserve_loop n m owner scope host 0 = (Inr a, m') \<Longrightarrow>
     \<exists>c. (\<forall>k < c. conflict m scope (scan_port m k) host) \<and> \<not> conflict m scope (scan_port m c) host
       \<and> Address (heap m' ! a) = join_host_port host (itoa (scan_port m c)) \<and> (\<forall>k. scan_port (del_allocation m' a) k = scan_port m (Suc c + k))"
proof (induction n arbitrary: m)
  case (Suc n)
  note ok = Suc.prems(1)
  show ?case
  proof (cases "conflict m scope (Next m) host")
    case True
    then have "reserve_loop n (advance m) owner scope host 0 = (Inr a, m')" using Suc.prems(2) by (simp add: Let_def)
    from Suc.IH [OF advance_ok [OF ok] this] obtain c where c: "\<forall>k < c. conflict m scope (scan_port m (Suc k)) host" "\<not> conflict m scope (scan_port m (Suc c)) host"
      "Address (heap m' ! a) = join_host_port host (itoa (scan_port m (Suc c)))" "\<forall>k. scan_port (del_allocation m' a) k = scan_port m (Suc (Suc c + k))"
      by (auto simp: scan_port_advance [OF ok])
    have "conflict m scope (scan_port m k) host" if "k < Suc c" for k
      using that True c(1) scan_port_0 [OF ok] by (cases k) auto
    then show ?thesis using c(2-4) by (intro exI [of _ "Suc c"]) simp
  next
    case False
    have scan: "scan_port (del_allocation m' a) k = scan_port (advance m) k" for k
      using False Suc.prems(2) by (auto simp: Let_def scan_port_def del_allocation_def add_allocation_def)
    show ?thesis using False Suc.prems(2) scan_port_0 [OF ok]
      by (intro exI [of _ 0]) (auto simp: Let_def scan scan_port_advance [OF ok], simp add: add_allocation_def)
  qed
qed simp

text \<open>What a dynamic request needs besides a port.\<close>

definition dynamic_request :: "PortManager \<Rightarrow> string \<Rightarrow> string \<Rightarrow> bool" where
  "dynamic_request m owner host \<longleftrightarrow> \<not> Closed m \<and> owner \<noteq> [] \<and> (host = [] \<or> parse_addr host \<noteq> None)"

lemma reserve_dynamic:
  assumes "split_host_port address = Some (host, ''0'')"
  shows "reserve m owner scope address =
     (if dynamic_request m owner host then reserve_loop (pool_size m) m owner scope host 0 else (Inl (projl (fst (reserve m owner scope address))), m))"
proof -
  have "atoi ''0'' = Some 0" by code_simp
  then show ?thesis using assms by (auto simp: reserve_def dynamic_request_def simp del: reserve_loop.simps)
qed

lemma reserve_dynamic_refused: "split_host_port address = Some (host, ''0'') \<Longrightarrow> \<not> dynamic_request m owner host \<Longrightarrow> \<exists>e. reserve m owner scope address = (Inl e, m)"
  using reserve_dynamic [of address host m owner scope] by auto

text \<open>A port without a conflict that the caller may have: in the carrier's own scope one on which nothing listens.\<close>

definition usable_port :: "(string \<Rightarrow> probe_result) \<Rightarrow> PortManager \<Rightarrow> string \<Rightarrow> string \<Rightarrow> int \<Rightarrow> bool" where
  "usable_port probe m scope host p \<longleftrightarrow> \<not> conflict m scope p host \<and> (scope = [] \<longrightarrow> probe (join_host_port host (itoa p)) = ProbeOk)"

lemma Reserve_loop_exhausted:
  assumes "split_host_port address = Some (host, ''0'')" and "\<forall>p e. First m \<le> p \<and> p \<le> Last m \<and> \<not> conflict m [] p host \<longrightarrow> probe (join_host_port host (itoa p)) \<noteq> ProbeFails e"
    and "dynamic_request m owner host" and "ports_ok m" and "Reserve_loop probe n m owner [] address = (Inl e, m')" and "n \<le> pool_size m" and "k < n"
  shows "\<not> usable_port probe m [] host (scan_port m k)"
  using assms(2-)
proof (induction n arbitrary: m k)
  case (Suc n)
  note ok = Suc.prems(3)
  obtain r m1 where r: "reserve m owner [] address = (r, m1)" by fastforce
  then have rl: "reserve_loop (pool_size m) m owner [] host 0 = (r, m1)" using reserve_dynamic [OF assms(1), of m owner "[]"] Suc.prems(2) by simp
  show ?case
  proof (cases r)
    case (Inl e')
    then have "e' = ErrPortsExhausted" using reserve_loop_result [OF ok rl] by simp
    then have "conflict m [] (scan_port m k) host" using reserve_loop_exhausted [OF ok] rl Inl Suc.prems(5,6) by auto
    then show ?thesis by (simp add: usable_port_def)
  next
    case (Inr a)
    let ?m = "del_allocation m1 a"
    obtain c where c: "\<forall>k < c. conflict m [] (scan_port m k) host" "\<not> conflict m [] (scan_port m c) host"
      "Address (heap m1 ! a) = join_host_port host (itoa (scan_port m c))" "\<forall>k. scan_port ?m k = scan_port m (Suc c + k)"
      using reserve_loop_first [OF ok] rl Inr by blast
    have g: "unchanged m ?m" using reserve_result [OF ok r] Inr by (auto intro: granted_del fulfils_granted)
    note same = unchanged_conflict [OF g]
    have rng: "First ?m = First m" "Last ?m = Last m" "Closed ?m = Closed m" "pool_size ?m = pool_size m"
      using reserve_range [OF r] by (simp_all add: same_range_def del_allocation_def pool_size_def)
    have ok': "ports_ok ?m" using ok r by (simp add: reserve_ok del_allocation_ok)
    have "First m \<le> scan_port m c" "scan_port m c \<le> Last m" using ok by (simp_all add: scan_port_def ports_ok_def) (smt (verit) pos_mod_bound)
    then have "probe (join_host_port host (itoa (scan_port m c))) \<noteq> ProbeFails e" for e using Suc.prems(1) c(2) by blast
    then have used: "probe (join_host_port host (itoa (scan_port m c))) = ProbeInUse" and rest: "Reserve_loop probe n ?m owner [] address = (Inl e, m')"
      using Suc.prems(4) r Inr c(3) by (auto split: probe_result.splits)
    have later: "\<not> usable_port probe ?m [] host (scan_port ?m j)" if "j < n" for j
      by (rule Suc.IH [OF _ _ ok' rest _ that]) (use Suc.prems(1,2,5) in \<open>auto simp: same rng dynamic_request_def\<close>)
    consider "k < c" | "k = c" | j where "k = Suc c + j" by (metis less_iff_Suc_add linorder_cases add_Suc)
    then show ?thesis
    proof cases
      case 3
      then show ?thesis using later [of j] Suc.prems(6) c(4) by (simp add: usable_port_def same)
    qed (use c(1) used in \<open>auto simp: usable_port_def\<close>)
  qed
qed simp

lemma Reserve_scoped: "scope \<noteq> [] \<Longrightarrow> fst (Reserve_loop probe (Suc n) m owner scope address) = fst (reserve m owner scope address)"
  by (auto split: prod.split sum.split)

section \<open>Handles are never reused\<close>

text \<open>\<open>fresh_handle m r m'\<close>: no allocation is forgotten, and a granted one did not exist before.\<close>

definition fresh_handle :: "PortManager \<Rightarrow> (port_error, nat) result \<Rightarrow> PortManager \<Rightarrow> bool" where
  "fresh_handle m r m' =
     (length (heap m) \<le> length (heap m') \<and> (\<forall>a. r = Inr a \<longrightarrow> length (heap m) \<le> a \<and> a < length (heap m')))"

lemma fresh_handle_later:
  "length (heap m) \<le> length (heap m1) \<Longrightarrow> fresh_handle m1 r m' \<Longrightarrow> fresh_handle m r m'"
  by (auto simp: fresh_handle_def)

lemma heap_simps [simp]: "heap (del_allocation m a) = heap m" "length (heap (set_listening m a)) = length (heap m)"
  by (simp_all add: del_allocation_def set_listening_def)

lemma reserve_loop_fresh: "reserve_loop n m owner scope host port = (r, m') \<Longrightarrow> fresh_handle m r m'"
proof (induction n arbitrary: m)
  case 0
  then show ?case by (auto simp: fresh_handle_def)
next
  case (Suc n)
  show ?case
  proof (cases "conflict (if port = 0 then advance m else m) scope (if port = 0 then Next m else port) host")
    case True
    with Suc.prems have "reserve_loop n (if port = 0 then advance m else m) owner scope host port = (r, m')"
      by (simp add: Let_def)
    from Suc.IH [OF this] show ?thesis by (simp add: fresh_handle_def split: if_splits)
  next
    case False
    with Suc.prems show ?thesis by (auto simp: Let_def fresh_handle_def add_allocation_def)
  qed
qed

lemma reserve_fresh: "reserve m owner scope address = (r, m') \<Longrightarrow> fresh_handle m r m'"
  by (auto simp: reserve_def fresh_handle_def simp del: reserve_loop.simps
      split: if_splits option.splits prod.splits dest!: reserve_loop_fresh)

lemma Reserve_loop_fresh: "Reserve_loop probe n m owner scope address = (r, m') \<Longrightarrow> fresh_handle m r m'"
proof (induction n arbitrary: m)
  case 0
  then show ?case by (auto simp: fresh_handle_def)
next
  case (Suc n)
  obtain r1 m1 where r1: "reserve m owner scope address = (r1, m1)" by fastforce
  note f = reserve_fresh [OF r1]
  then have le: "length (heap m) \<le> length (heap (del_allocation m1 a))" for a by (simp add: fresh_handle_def)
  show ?case
  proof (cases "Reserve_loop probe n (del_allocation m1 (projr r1)) owner scope address = (r, m')")
    case True
    from fresh_handle_later [OF le Suc.IH [OF True]] show ?thesis .
  next
    case False
    with Suc.prems r1 f show ?thesis
      by (cases r1) (auto simp: fresh_handle_def split: if_splits probe_result.splits)
  qed
qed

lemma Listen_loop_fresh: "Listen_loop lsn n m owner address z = (r, m') \<Longrightarrow> fresh_handle m r m'"
proof (induction n arbitrary: m)
  case 0
  then show ?case by (auto simp: fresh_handle_def)
next
  case (Suc n)
  obtain r1 m1 where r1: "reserve m owner [] address = (r1, m1)" by fastforce
  note f = reserve_fresh [OF r1]
  then have le: "length (heap m) \<le> length (heap (del_allocation m1 a))" for a by (simp add: fresh_handle_def)
  show ?case
  proof (cases "Listen_loop lsn n (del_allocation m1 (projr r1)) owner address z = (r, m')")
    case True
    from fresh_handle_later [OF le Suc.IH [OF True]] show ?thesis .
  next
    case False
    with Suc.prems r1 f show ?thesis
      by (cases r1) (auto simp: fresh_handle_def split: if_splits option.splits)
  qed
qed

section \<open>What listening gives\<close>

text \<open>The endpoint of an allocation: scope, host and port.\<close>

definition endpoint :: "PortManager \<Rightarrow> nat \<Rightarrow> string \<times> string \<times> int" where
  "endpoint m a = (AllocScope (heap m ! a), Host (heap m ! a), Port (heap m ! a))"

lemma endpoint_set_listening [simp]: "endpoint (set_listening m a) b = endpoint m b"
  by (cases "a < length (heap m)"; cases "a = b") (simp_all add: endpoint_def set_listening_def list_update_beyond)

lemma Listen_loop_result:
  "ports_ok m \<Longrightarrow> Listen_loop lsn n m owner address z = (r, m') \<Longrightarrow> split_host_port address = Some (host, raw) \<Longrightarrow>
     (case r of
        Inl e \<Rightarrow> unchanged m m'
      | Inr a \<Rightarrow> a \<notin> set (live m) \<and> set (live m') = insert a (set (live m)) \<and>
          (\<forall>b \<in> set (live m). endpoint m' b = endpoint m b) \<and> (\<exists>port. endpoint m' a = ([], host, port)))"
proof (induction n arbitrary: m)
  case 0
  then show ?case by (auto simp: unchanged_def)
next
  case (Suc n)
  obtain r1 m1 where r1: "reserve m owner [] address = (r1, m1)" by fastforce
  note res = reserve_result [OF Suc.prems(1) r1]
  show ?case
  proof (cases r1)
    case (Inl e)
    with Suc.prems r1 res show ?thesis by auto
  next
    case (Inr a)
    with res have g: "fulfils m m1 a owner [] address" by simp
    then have u: "unchanged m (del_allocation m1 a)" by (blast intro: granted_del fulfils_granted)
    have ok: "ports_ok (del_allocation m1 a)" using Suc.prems(1) r1 by (simp add: reserve_ok del_allocation_ok)
    show ?thesis
    proof (cases "lsn (Address (heap m1 ! a)) \<noteq> None \<and> z")
      case True
      then have "Listen_loop lsn n (del_allocation m1 a) owner address z = (r, m')"
        using Inr r1 Suc.prems(2) by auto
      from Suc.IH [OF ok this Suc.prems(3)] u show ?thesis
        by (auto simp: unchanged_def endpoint_def split: sum.splits)
    next
      case False
      with Suc.prems r1 Inr g u show ?thesis
        by (auto simp: fulfils_def granted_def set_listening_def endpoint_def nth_list_update
            split: if_splits option.splits)
    qed
  qed
qed

section \<open>Properties\<close>

text \<open>C9: in every state the allocator can reach, two live allocations of the same scope never hold the
  same port on overlapping hosts, and every allocated port is between 1 and 65535.\<close>

theorem live_ports_exclusive:
  assumes "NewPortManager f l = Inr m0" and "ports_step\<^sup>*\<^sup>* m0 m"
    and "a \<in> set (live m)" and "b \<in> set (live m)" and "a \<noteq> b"
    and "AllocScope (heap m ! a) = AllocScope (heap m ! b)" and "Port (heap m ! a) = Port (heap m ! b)"
  shows "\<not> overlappingHosts (Host (heap m ! a)) (Host (heap m ! b)) \<and>
    1 \<le> Port (heap m ! a) \<and> Port (heap m ! a) \<le> 65535"
proof -
  have "ports_ok m"
    using port_manager.inv_reachable [of m0 m] assms(1,2) by (auto simp: ports_start_def)
  with assms(3-7) show ?thesis by (auto simp: ports_ok_def compatible_def)
qed

text \<open>A successful \<open>Reserve\<close> adds exactly one live allocation and leaves the others as they were;
  the new one has the requested owner, scope and host, a port that conflicts with no live allocation
  (from the pool when port 0 was asked, else the requested one), and in the carrier scope an address on
  which the daemon could listen. A failed \<open>Reserve\<close> leaves the live allocations as they were.\<close>

theorem Reserve_grants_one_port:
  assumes "ports_ok m" and "Reserve probe m owner scope address = (r, m')"
  shows "case r of
      Inl e \<Rightarrow> unchanged m m'
    | Inr a \<Rightarrow> fulfils m m' a owner scope address \<and>
        (scope = [] \<longrightarrow> probe (Address (heap m' ! a)) = ProbeOk)"
  using Reserve_loop_result [OF assms(1)] assms(2) unfolding Reserve_def by blast

text \<open>C10: A dynamic request finds a port whenever there is one. A request for port 0 succeeds if and only if the allocator is open, the owner is named, the host is empty or a literal
  address, and some port of the pool conflicts with no live allocation of the scope and, in the carrier's own (empty) scope, can be listened on: the round-robin scan looks at every port of
  the pool, also when ports it tried first are taken by other programs. In the carrier's scope this holds when no probe of a candidate fails for another reason than a port in use; such a failure
  ends the request with its error.\<close>

theorem Reserve_dynamic_complete:
  assumes "ports_ok m" and "split_host_port address = Some (host, ''0'')"
    and "scope = [] \<longrightarrow> (\<forall>p e. First m \<le> p \<and> p \<le> Last m \<and> \<not> conflict m [] p host \<longrightarrow> probe (join_host_port host (itoa p)) \<noteq> ProbeFails e)"
  shows "is_ok (fst (Reserve probe m owner scope address)) \<longleftrightarrow>
    \<not> Closed m \<and> owner \<noteq> [] \<and> (host = [] \<or> parse_addr host \<noteq> None) \<and> (\<exists>p. First m \<le> p \<and> p \<le> Last m \<and> usable_port probe m scope host p)"
proof -
  have "pool_size m > 0" using assms(1) by (simp add: pool_size_def ports_ok_def)
  then obtain n where n: "pool_size m = Suc n" by (cases "pool_size m") auto
  have R: "Reserve probe m owner scope address = Reserve_loop probe (Suc n) m owner scope address" using assms(2) n by (simp add: Reserve_def zero_port_def)
  obtain r m' where r: "Reserve_loop probe (Suc n) m owner scope address = (r, m')" by fastforce
  have "is_ok r \<longleftrightarrow> dynamic_request m owner host \<and> (\<exists>p. First m \<le> p \<and> p \<le> Last m \<and> usable_port probe m scope host p)"
  proof (cases r)
    case (Inr a)
    have "fulfils m m' a owner scope address" "scope = [] \<longrightarrow> probe (Address (heap m' ! a)) = ProbeOk" using Reserve_loop_result [OF assms(1) r] Inr by auto
    moreover have "dynamic_request m owner host" using reserve_dynamic_refused [OF assms(2), of m owner scope] r Inr by fastforce
    moreover have "atoi ''0'' = Some 0" by code_simp
    ultimately show ?thesis using Inr assms(2) by (auto simp: fulfils_def usable_port_def)
  next
    case (Inl e)
    have "\<not> usable_port probe m scope host p" if d: "dynamic_request m owner host" and p: "First m \<le> p" "p \<le> Last m" for p
    proof -
      obtain k where k: "k < Suc n" "scan_port m k = p" using scan_covers_pool [OF assms(1) p] n by auto
      show ?thesis
      proof (cases "scope = []")
        case True
        then show ?thesis using Reserve_loop_exhausted [OF assms(2) mp [OF assms(3) True] d assms(1) _ _ k(1), of e m'] r Inl n k(2) by simp
      next
        case False
        obtain r1 m1 where rl: "reserve_loop (Suc n) m owner scope host 0 = (r1, m1)" by fastforce
        then have "r1 = Inl e" using Reserve_scoped [OF False, of probe n m owner address] r Inl d reserve_dynamic [OF assms(2), of m owner scope] n by simp
        then have "conflict m scope (scan_port m k) host"
          using reserve_loop_result [OF assms(1) rl] reserve_loop_exhausted [OF assms(1) _ k(1)] rl by auto
        then show ?thesis using k(2) by (simp add: usable_port_def)
      qed
    qed
    then show ?thesis using Inl by auto
  qed
  then show ?thesis using R r by (simp add: dynamic_request_def)
qed

definition sample_ports :: PortManager where
  "sample_ports = \<lparr>First = 8000, Last = 8001, Next = 8001, Closed = False,
     heap = [\<lparr>Owner = ''a'', AllocScope = ''bed-1'', Address = ''0.0.0.0:8001'', State = ''reserved'',
              Host = ''0.0.0.0'', Port = 8001, Listener = False\<rparr>],
     live = [0]\<rparr>"

lemma sample_ports_ok: "ports_ok sample_ports"
  by (simp add: ports_ok_def sample_ports_def)

theorem live_ports_exclusive_witness:
  "\<not> overlappingHosts ''127.0.0.1'' ''10.0.0.1''"
proof -
  let ?m0 = "\<lparr>First = 8000, Last = 8001, Next = 8000, Closed = False, heap = [], live = []\<rparr>"
  let ?m1 = "snd (Reserve (\<lambda>_. ProbeOk) ?m0 ''a'' [] ''127.0.0.1:8000'')"
  let ?m2 = "snd (Reserve (\<lambda>_. ProbeOk) ?m1 ''b'' [] ''10.0.0.1:8000'')"
  have new: "NewPortManager 8000 8001 = Inr ?m0" by (simp add: NewPortManager_def)
  have "ports_step ?m0 ?m1" "ports_step ?m1 ?m2" by (rule ports_step.reserve)+
  then have reach: "ports_step\<^sup>*\<^sup>* ?m0 ?m2" by auto
  have a: "1 \<in> set (live ?m2)" and b: "0 \<in> set (live ?m2)"
    and s: "AllocScope (heap ?m2 ! 0) = AllocScope (heap ?m2 ! 1)" "Port (heap ?m2 ! 0) = Port (heap ?m2 ! 1)"
    and h: "Host (heap ?m2 ! 0) = ''127.0.0.1''" "Host (heap ?m2 ! 1) = ''10.0.0.1''"
    by code_simp+
  from live_ports_exclusive [OF new reach b a _ s] h show ?thesis by simp
qed

theorem Reserve_grants_one_port_witness:
  "granted sample_ports (snd (Reserve (\<lambda>_. ProbeOk) sample_ports ''b'' [] ''127.0.0.1:0'')) 1"
proof -
  have r: "Reserve (\<lambda>_. ProbeOk) sample_ports ''b'' [] ''127.0.0.1:0'' =
      (Inr 1, snd (Reserve (\<lambda>_. ProbeOk) sample_ports ''b'' [] ''127.0.0.1:0''))"
    by code_simp
  from Reserve_grants_one_port [OF sample_ports_ok r] show ?thesis by (simp add: fulfils_def)
qed

text \<open>In the carrier's scope, with another program on the first port: the second is found.\<close>

theorem Reserve_dynamic_complete_witness:
  "is_ok (fst (Reserve (\<lambda>a. if a = ''0.0.0.0:8001'' then ProbeInUse else ProbeOk) sample_ports ''b'' [] ''0.0.0.0:0''))
   \<and> \<not> is_ok (fst (Reserve (\<lambda>a. ProbeInUse) sample_ports ''b'' [] ''0.0.0.0:0''))"
proof -
  have a: "split_host_port ''0.0.0.0:0'' = Some (''0.0.0.0'', ''0'')" "parse_addr ''0.0.0.0'' \<noteq> None" by code_simp+
  have "join_host_port ''0.0.0.0'' (itoa 8000) \<noteq> ''0.0.0.0:8001''" by code_simp
  then have "\<exists>p. First sample_ports \<le> p \<and> p \<le> Last sample_ports
      \<and> usable_port (\<lambda>a. if a = ''0.0.0.0:8001'' then ProbeInUse else ProbeOk) sample_ports [] ''0.0.0.0'' p"
    by (intro exI [of _ 8000]) (simp add: usable_port_def sample_ports_def conflict_def)
  moreover have "\<not> usable_port (\<lambda>a. ProbeInUse) sample_ports [] ''0.0.0.0'' p" for p by (simp add: usable_port_def)
  moreover have "\<not> Closed sample_ports" by (simp add: sample_ports_def)
  ultimately show ?thesis
    using Reserve_dynamic_complete [OF sample_ports_ok a(1), of "[]" "\<lambda>a. if a = ''0.0.0.0:8001'' then ProbeInUse else ProbeOk" "''b''"]
      Reserve_dynamic_complete [OF sample_ports_ok a(1), of "[]" "\<lambda>a. ProbeInUse" "''b''"] a(2)
    by simp
qed

end
