(* ===== verification/Go_Path.thy ===== *)
theory Go_Path
  imports Hostel_Prelude "HOL-Library.Sublist"
begin

text \<open>
  The functions of the Go packages \<open>path\<close> and \<open>path/filepath\<close> (on Unix both are the same) that the
  sources use: \<open>Clean\<close>, \<open>IsAbs\<close>, \<open>Join\<close>, \<open>Dir\<close> and \<open>Base\<close>. \<open>Clean\<close> processes the path component by component:
  empty components and \<open>.\<close> are dropped, \<open>..\<close> removes the component before it and is dropped at the
  root. A clean absolute path is \<open>/\<close> followed by ordinary components separated by \<open>/\<close>; the lemmas
  show that \<open>Clean\<close> always gives one, that it changes nothing on one, and that comparing clean
  absolute paths as strings with a separator is comparing their component lists.
\<close>

section \<open>Definitions\<close>

abbreviation slash :: char where
  "slash \<equiv> CHR ''/''"

definition path_is_abs :: "string \<Rightarrow> bool" where
  "path_is_abs p = has_prefix p ''/''"

fun clean_step :: "bool \<Rightarrow> string list \<Rightarrow> string \<Rightarrow> string list" where
  "clean_step rooted acc c =
     (if c = [] \<or> c = ''.'' then acc
      else if c = ''..''
      then (case acc of
              [] \<Rightarrow> if rooted then [] else [''..'']
            | x # xs \<Rightarrow> if x = ''..'' then c # acc else xs)
      else c # acc)"

definition clean_components :: "bool \<Rightarrow> string list \<Rightarrow> string list" where
  "clean_components rooted cs = rev (foldl (clean_step rooted) [] cs)"

definition path_clean :: "string \<Rightarrow> string" where
  "path_clean p =
     (if p = [] then ''.''
      else let cs = clean_components (path_is_abs p) (split_on slash p) in
        if path_is_abs p then slash # join_with ''/'' cs
        else if cs = [] then ''.'' else join_with ''/'' cs)"

definition path_join :: "string list \<Rightarrow> string" where
  "path_join ps =
     (let qs = filter (\<lambda>p. p \<noteq> []) ps in
      if qs = [] then [] else path_clean (join_with ''/'' qs))"

text \<open>\<open>Dir\<close> cleans what precedes the last separator; \<open>Base\<close> is what follows it.\<close>

definition path_dir :: "string \<Rightarrow> string" where
  "path_dir p = path_clean (rev (dropWhile (\<lambda>c. c \<noteq> slash) (rev p)))"

definition path_base :: "string \<Rightarrow> string" where
  "path_base p =
     (if p = [] then ''.''
      else let q = rev (dropWhile (\<lambda>c. c = slash) (rev p)) in
        if q = [] then ''/'' else rev (takeWhile (\<lambda>c. c \<noteq> slash) (rev q)))"

definition plain_component :: "string \<Rightarrow> bool" where
  "plain_component c \<longleftrightarrow> c \<noteq> [] \<and> c \<noteq> ''.'' \<and> c \<noteq> ''..'' \<and> slash \<notin> set c"

definition abs_path :: "string list \<Rightarrow> string" where
  "abs_path cs = slash # join_with ''/'' cs"

definition is_clean_abs :: "string \<Rightarrow> bool" where
  "is_clean_abs p \<longleftrightarrow> path_is_abs p \<and> path_clean p = p"

section \<open>Splitting and joining\<close>

lemma split_on_no_sep: "c \<notin> set s \<Longrightarrow> split_on c s = [s]"
  by (induction s) auto

lemma split_on_append: "c \<notin> set w \<Longrightarrow> split_on c (w @ c # s) = w # split_on c s"
  by (induction w) auto

lemma split_on_components: "w \<in> set (split_on c s) \<Longrightarrow> c \<notin> set w"
proof (induction s arbitrary: w)
  case Nil
  then show ?case by simp
next
  case (Cons x xs)
  obtain u us where u: "split_on c xs = u # us"
    by (cases "split_on c xs") auto
  with Cons show ?case by (auto split: if_splits)
qed

lemma split_join:
  assumes "\<And>w. w \<in> set ws \<Longrightarrow> c \<notin> set w" and "ws \<noteq> []"
  shows "split_on c (join_with [c] ws) = ws"
  using assms
proof (induction "[c]" ws rule: join_with.induct)
  case 2
  then show ?case by (simp add: split_on_no_sep)
next
  case (3 w v vs)
  then show ?case by (simp add: split_on_append)
qed simp

lemma join_with_append:
  "xs \<noteq> [] \<Longrightarrow> ys \<noteq> [] \<Longrightarrow> join_with sep (xs @ ys) = join_with sep xs @ sep @ join_with sep ys"
proof (induction sep xs rule: join_with.induct)
  case (2 sep w)
  then show ?case by (cases ys) auto
qed auto

section \<open>Clean\<close>

lemma path_is_abs_iff: "path_is_abs p \<longleftrightarrow> (\<exists>q. p = slash # q)"
  by (auto simp: path_is_abs_def has_prefix_iff)

lemma set_clean_step: "set (clean_step r acc c) \<subseteq> set acc \<union> ({c} - {[], ''.''})"
  by (cases acc) auto

lemma set_foldl_clean: "set (foldl (clean_step r) acc cs) \<subseteq> set acc \<union> (set cs - {[], ''.''})"
proof (induction cs arbitrary: acc)
  case (Cons c cs)
  show ?case
    using Cons.IH [of "clean_step r acc c"] set_clean_step [of r acc c]
    by (simp del: clean_step.simps) blast
qed simp

lemma clean_step_no_parent: "''..'' \<notin> set acc \<Longrightarrow> ''..'' \<notin> set (clean_step True acc c)"
  by (cases acc) auto

lemma foldl_clean_no_parent:
  "''..'' \<notin> set acc \<Longrightarrow> ''..'' \<notin> set (foldl (clean_step True) acc cs)"
proof (induction cs arbitrary: acc)
  case (Cons c cs)
  then show ?case using clean_step_no_parent [of acc c] by (simp del: clean_step.simps)
qed simp

lemma set_clean_components:
  "w \<in> set (clean_components r (split_on slash p)) \<Longrightarrow> w \<noteq> [] \<and> w \<noteq> ''.'' \<and> slash \<notin> set w"
  using set_foldl_clean [of r "[]" "split_on slash p"]
  by (auto simp: clean_components_def dest: split_on_components)

lemma foldl_clean_id:
  "\<forall>c \<in> set cs. plain_component c \<Longrightarrow> foldl (clean_step r) acc cs = rev cs @ acc"
  by (induction cs arbitrary: acc) (auto simp: plain_component_def)

lemma clean_components_plain:
  "\<forall>w \<in> set (clean_components True (split_on slash p)). plain_component w"
proof
  fix w
  assume w: "w \<in> set (clean_components True (split_on slash p))"
  have "''..'' \<notin> set (clean_components True (split_on slash p))"
    using foldl_clean_no_parent [of "[]" "split_on slash p"] by (simp add: clean_components_def)
  with w set_clean_components [OF w] show "plain_component w"
    unfolding plain_component_def by blast
qed

lemma clean_of_abs:
  assumes "path_is_abs p"
  obtains cs where "path_clean p = abs_path cs" and "\<forall>c \<in> set cs. plain_component c"
proof -
  let ?cs = "clean_components True (split_on slash p)"
  have "p \<noteq> []" using assms by (auto simp: path_is_abs_iff)
  then have "path_clean p = abs_path ?cs"
    using assms by (simp add: path_clean_def abs_path_def Let_def)
  then show ?thesis using that clean_components_plain by blast
qed

lemma split_abs_path:
  assumes "\<forall>c \<in> set cs. plain_component c"
  shows "split_on slash (abs_path cs) = [] # (if cs = [] then [[]] else cs)"
  using assms split_join [of cs slash] by (auto simp: abs_path_def plain_component_def)

lemma clean_abs_path:
  assumes "\<forall>c \<in> set cs. plain_component c"
  shows "path_clean (abs_path cs) = abs_path cs"
proof -
  have "path_is_abs (abs_path cs)" by (simp add: path_is_abs_iff abs_path_def)
  moreover have "clean_components True (split_on slash (abs_path cs)) = cs"
    using assms foldl_clean_id [of cs True "[]"]
    by (simp add: split_abs_path clean_components_def)
  ultimately show ?thesis
    by (simp add: path_clean_def abs_path_def)
qed

lemma abs_path_is_clean_abs:
  "\<forall>c \<in> set cs. plain_component c \<Longrightarrow> is_clean_abs (abs_path cs)"
  by (simp add: is_clean_abs_def clean_abs_path) (simp add: path_is_abs_iff abs_path_def)

lemma is_clean_absE:
  assumes "is_clean_abs p"
  obtains cs where "p = abs_path cs" and "\<forall>c \<in> set cs. plain_component c"
  using assms by (metis clean_of_abs is_clean_abs_def)

lemma path_clean_idem [simp]: "path_is_abs p \<Longrightarrow> path_clean (path_clean p) = path_clean p"
  by (metis clean_abs_path clean_of_abs)

lemma is_clean_abs_clean: "path_is_abs p \<Longrightarrow> is_clean_abs (path_clean p)"
  by (metis abs_path_is_clean_abs clean_of_abs)

lemma clean_rel:
  assumes "\<not> path_is_abs p"
  shows "\<not> path_is_abs (path_clean p)"
proof (cases "clean_components False (split_on slash p)")
  case Nil
  with assms have "path_clean p = ''.''" by (simp add: path_clean_def Let_def)
  then show ?thesis by (simp add: path_is_abs_iff)
next
  case (Cons w ws)
  then have "w \<noteq> []" "slash \<notin> set w" using set_clean_components [of w False p] by auto
  then obtain a b where w: "w = a # b" "a \<noteq> slash" by (cases w) auto
  have "p \<noteq> []" using Cons by (auto simp: clean_components_def)
  then have "path_clean p = join_with ''/'' (w # ws)"
    using assms Cons by (simp add: path_clean_def Let_def)
  with w show ?thesis by (cases ws) (auto simp: path_is_abs_iff)
qed

lemma clean_abs_iff: "path_is_abs (path_clean p) \<longleftrightarrow> path_is_abs p"
  using clean_rel is_clean_abs_clean is_clean_abs_def by blast

lemma split_on_subset: "w \<in> set (split_on c s) \<Longrightarrow> set w \<subseteq> set s"
proof (induction s arbitrary: w)
  case (Cons x xs)
  obtain u us where u: "split_on c xs = u # us"
    by (cases "split_on c xs") auto
  with Cons show ?case by (force split: if_splits)
qed simp

lemma set_path_clean: "set (path_clean p) \<subseteq> insert slash (insert (CHR ''.'') (set p))"
proof -
  have "set w \<subseteq> set p" if "w \<in> set (clean_components r (split_on slash p))" for w r
    using that set_foldl_clean [of r "[]" "split_on slash p"] split_on_subset [of w slash p]
    by (auto simp: clean_components_def)
  then have "set (join_with ''/'' (clean_components r (split_on slash p))) \<subseteq> insert slash (set p)" for r
    using set_join_with [of "''/''" "clean_components r (split_on slash p)"] by fastforce
  then show ?thesis by (auto simp: path_clean_def Let_def split: if_splits)
qed

lemma abs_path_inject:
  assumes "\<forall>c \<in> set cs. plain_component c" and "\<forall>c \<in> set ds. plain_component c"
  shows "abs_path cs = abs_path ds \<longleftrightarrow> cs = ds"
proof
  assume "abs_path cs = abs_path ds"
  then have eq: "(if cs = [] then [[]] else cs) = (if ds = [] then [[]] else ds)"
    using split_abs_path [OF assms(1)] split_abs_path [OF assms(2)] by simp
  have "\<not> plain_component []" by (simp add: plain_component_def)
  then have "cs \<noteq> [[]]" "ds \<noteq> [[]]" using assms(1) assms(2) by force+
  with eq show "cs = ds" by (cases cs; cases ds) simp_all
qed simp

lemma abs_path_prefix:
  assumes "\<forall>c \<in> set cs. plain_component c" and "\<forall>c \<in> set ds. plain_component c"
    and "cs \<noteq> []"
  shows "has_prefix (abs_path ds) (abs_path cs @ ''/'') \<longleftrightarrow> (\<exists>es. es \<noteq> [] \<and> ds = cs @ es)"
proof
  assume "has_prefix (abs_path ds) (abs_path cs @ ''/'')"
  then obtain t where t: "join_with ''/'' ds = join_with ''/'' cs @ slash # t"
    by (auto simp: has_prefix_iff abs_path_def)
  then have "ds \<noteq> []" by (cases ds) auto
  have "join_with ''/'' ds = join_with ''/'' (cs @ split_on slash t)"
    using t assms(3) by (simp add: join_with_append join_split_on)
  then have "split_on slash (join_with ''/'' ds) = split_on slash (join_with ''/'' (cs @ split_on slash t))"
    by simp
  moreover have "split_on slash (join_with ''/'' ds) = ds"
    using assms(2) \<open>ds \<noteq> []\<close> by (intro split_join) (auto simp: plain_component_def)
  moreover have "split_on slash (join_with ''/'' (cs @ split_on slash t)) = cs @ split_on slash t"
    using assms(1) by (intro split_join) (auto simp: plain_component_def dest: split_on_components)
  ultimately show "\<exists>es. es \<noteq> [] \<and> ds = cs @ es" by auto
next
  assume "\<exists>es. es \<noteq> [] \<and> ds = cs @ es"
  then show "has_prefix (abs_path ds) (abs_path cs @ ''/'')"
    using assms(3) by (auto simp: has_prefix_iff abs_path_def join_with_append)
qed

section \<open>Children of one directory\<close>

lemma split_on_snoc: "c \<notin> set w \<Longrightarrow> split_on c (s @ c # w) = split_on c s @ [w]"
proof (induction s)
  case Nil
  then show ?case by (simp add: split_on_no_sep)
next
  case (Cons x s)
  then show ?case by (auto split: list.splits)
qed

text \<open>The stacks that cleaning builds: parents only at the bottom, and none below the root. Cleaning them again changes nothing.\<close>

fun clean_stack :: "bool \<Rightarrow> string list \<Rightarrow> bool" where
  "clean_stack r [] = True"
| "clean_stack r (x # xs) = (x \<noteq> [] \<and> x \<noteq> ''.'' \<and> (x = ''..'' \<longrightarrow> \<not> r \<and> set xs \<subseteq> {''..''}) \<and> clean_stack r xs)"

lemma clean_stack_step: "clean_stack r acc \<Longrightarrow> clean_stack r (clean_step r acc c)"
  by (cases acc) auto

lemma clean_stack_foldl: "clean_stack r acc \<Longrightarrow> clean_stack r (foldl (clean_step r) acc cs)"
  by (induction cs arbitrary: acc) (simp_all add: clean_stack_step del: clean_step.simps)

lemma clean_stack_again: "clean_stack r acc \<Longrightarrow> foldl (clean_step r) [] (rev acc) = acc"
  by (induction acc) (auto split: list.splits)

definition render_path :: "bool \<Rightarrow> string list \<Rightarrow> string" where
  "render_path r cs = (if r then ''/'' else []) @ join_with ''/'' cs"

lemma clean_render:
  assumes "clean_stack r acc" and "acc \<noteq> []" and "\<forall>c \<in> set acc. slash \<notin> set c"
  shows "path_is_abs (render_path r (rev acc)) = r \<and> clean_components r (split_on slash (render_path r (rev acc))) = rev acc \<and> render_path r (rev acc) \<noteq> []"
proof -
  have s: "split_on slash (join_with ''/'' (rev acc)) = rev acc" by (rule split_join) (use assms in auto)
  have ne: "\<And>c. c \<in> set acc \<Longrightarrow> c \<noteq> []" using assms(1) by (induction acc) auto
  obtain c cs where c: "rev acc = c # cs" using assms(2) by (cases "rev acc") auto
  then have "c \<in> set acc" by (metis list.set_intros(1) set_rev)
  then have hd: "c \<noteq> []" "slash \<notin> set c" using ne assms(3) by auto
  then have "\<not> path_is_abs (join_with ''/'' (rev acc))" "join_with ''/'' (rev acc) \<noteq> []"
    using c by (cases cs; cases c; auto simp: path_is_abs_iff)+
  moreover have "clean_components r (rev acc) = rev acc" using clean_stack_again [OF assms(1)] by (simp add: clean_components_def)
  moreover have "clean_components r ([] # rev acc) = clean_components r (rev acc)" by (simp add: clean_components_def)
  ultimately show ?thesis using s by (auto simp: render_path_def path_is_abs_iff)
qed

lemma join_onto:
  assumes "D \<noteq> []" and "plain_component c"
  shows "path_join [D, c] = render_path (path_is_abs D) (clean_components (path_is_abs D) (split_on slash D) @ [c])"
proof -
  have c: "c \<noteq> []" "slash \<notin> set c" "c \<noteq> ''.''" "c \<noteq> ''..''" using assms(2) by (simp_all add: plain_component_def)
  have a: "path_is_abs (D @ slash # c) = path_is_abs D" using assms(1) by (cases D) (simp_all add: path_is_abs_iff)
  have "clean_components (path_is_abs D) (split_on slash (D @ slash # c)) = clean_components (path_is_abs D) (split_on slash D) @ [c]"
    using c by (simp add: split_on_snoc clean_components_def)
  then show ?thesis using a assms(1) c by (simp add: path_join_def path_clean_def render_path_def)
qed

lemma join_plain: "plain_component c \<Longrightarrow> path_join [[], c] = render_path False [c]"
proof -
  assume "plain_component c"
  then have c: "c \<noteq> []" "slash \<notin> set c" "c \<noteq> ''.''" "c \<noteq> ''..''" by (simp_all add: plain_component_def)
  then have "\<not> path_is_abs c" by (auto simp: path_is_abs_iff)
  then show ?thesis using c by (simp add: path_join_def path_clean_def clean_components_def split_on_no_sep render_path_def)
qed

lemma join_is_clean:
  assumes "plain_component c"
  shows "\<exists>r acc. path_join [D, c] = render_path r (rev (c # acc)) \<and> clean_stack r (c # acc) \<and> (\<forall>x \<in> set (c # acc). slash \<notin> set x)"
proof (cases "D = []")
  case True
  then show ?thesis using join_plain [OF assms] assms by (intro exI [of _ False] exI [of _ "[]"]) (simp add: plain_component_def)
next
  case False
  let ?acc = "foldl (clean_step (path_is_abs D)) [] (split_on slash D)"
  have "clean_stack (path_is_abs D) ?acc" by (rule clean_stack_foldl) simp
  moreover have "\<forall>x \<in> set ?acc. slash \<notin> set x" using set_clean_components [of _ "path_is_abs D" D] by (auto simp: clean_components_def)
  ultimately show ?thesis
    using join_onto [OF False assms] assms by (intro exI [of _ "path_is_abs D"] exI [of _ ?acc]) (auto simp: plain_component_def clean_components_def)
qed

lemma render_snoc: "cs \<noteq> [] \<Longrightarrow> render_path r (cs @ [x]) = render_path r cs @ slash # x"
  by (simp add: render_path_def join_with_append)

text \<open>Joining plain names to a directory only appends them.\<close>

lemma join_child: "\<exists>K. \<forall>c. plain_component c \<longrightarrow> path_join [D, c] = K @ c"
proof (cases "D = []")
  case True
  then show ?thesis using join_plain by (intro exI [of _ "[]"]) (simp add: render_path_def)
next
  case False
  let ?cs = "clean_components (path_is_abs D) (split_on slash D)"
  let ?K = "if ?cs = [] then render_path (path_is_abs D) [] else render_path (path_is_abs D) ?cs @ ''/''"
  have "path_join [D, c] = ?K @ c" if "plain_component c" for c
    using join_onto [OF False that] by (auto simp: render_snoc) (simp add: render_path_def)
  then show ?thesis by blast
qed

lemma join_join:
  assumes c: "plain_component c" and x: "plain_component x"
  shows "path_join [path_join [D, c], x] = path_join [D, c] @ slash # x"
proof -
  obtain r acc where j: "path_join [D, c] = render_path r (rev (c # acc))" "clean_stack r (c # acc)" "\<forall>x \<in> set (c # acc). slash \<notin> set x"
    using join_is_clean [OF c] by blast
  have "path_is_abs (path_join [D, c]) = r" "clean_components r (split_on slash (path_join [D, c])) = rev (c # acc)" "path_join [D, c] \<noteq> []"
    using clean_render [OF j(2) _ j(3)] j(1) by simp_all
  then show ?thesis using join_onto [of "path_join [D, c]", OF _ x] j(1) by (simp add: render_snoc del: rev.simps)
qed

lemma join_three:
  assumes c: "plain_component c" and x: "plain_component x"
  shows "path_join [D, c, x] = path_join [D, c] @ slash # x"
proof (cases "D = []")
  case True
  have "c \<noteq> []" "x \<noteq> []" using assms by (simp_all add: plain_component_def)
  then have "path_join [D, c, x] = path_join [c, x]" "path_join [D, c] = path_join [c]" using True by (simp_all add: path_join_def)
  moreover have "path_join [c, x] = path_join [D, c] @ slash # x"
  proof -
    have j: "path_join [D, c] = c" using True join_plain [OF c] by (simp add: render_path_def)
    then show ?thesis using join_join [OF c x, of D] by simp
  qed
  ultimately show ?thesis by simp
next
  case False
  have ne: "c \<noteq> []" "x \<noteq> []" "slash \<notin> set c" using assms by (simp_all add: plain_component_def)
  then have e: "path_join [D, c, x] = path_join [D @ slash # c, x]" using False by (simp add: path_join_def)
  have a: "path_is_abs (D @ slash # c) = path_is_abs D" using False by (cases D) (simp_all add: path_is_abs_iff)
  have "clean_components (path_is_abs D) (split_on slash (D @ slash # c)) = clean_components (path_is_abs D) (split_on slash D) @ [c]"
    using c ne by (simp add: split_on_snoc clean_components_def plain_component_def)
  then have "path_join [D @ slash # c, x] = render_path (path_is_abs D) ((clean_components (path_is_abs D) (split_on slash D) @ [c]) @ [x])"
    using join_onto [of "D @ slash # c", OF _ x] a by simp
  then show ?thesis using e join_onto [OF False c] by (simp only: render_snoc append_is_Nil_conv list.distinct simp_thms)
qed

lemma path_base_child: "slash \<notin> set c \<Longrightarrow> c \<noteq> [] \<Longrightarrow> path_base (p @ slash # c) = c"
proof -
  assume c: "slash \<notin> set c" "c \<noteq> []"
  then have "dropWhile (\<lambda>x. x = slash) (rev (p @ slash # c)) = rev (p @ slash # c)"
    by (cases "rev c") (auto simp: rev_eq_Cons_iff)
  moreover have "takeWhile (\<lambda>x. x \<noteq> slash) (rev c @ slash # rev p) = rev c" using c(1) by (induction c rule: rev_induct) auto
  ultimately show ?thesis by (simp add: path_base_def)
qed

end
