(* ===== verification/Bed_Spec.thy ===== *)
theory Bed_Spec
  imports Go_Path Net_Policy "HOL-Library.List_Lexorder" "HOL-Library.Char_ord"
begin

text \<open>
  The desired state of a Bed (\<open>internal/bed/bed.go\<close>, \<open>pillows.go\<close>, \<open>paths.go\<close>, \<open>volumes.go\<close> and the
  wire types of \<open>protocol/pillow_spec.go\<close> and \<open>protocol/probe.go\<close>): volumes, mounts, pillows, and the
  validation that turns a declaration into its normal form. Pointers that may be nil are options;
  a Go map is an association list. Cloning is the identity on HOL values, so the \<open>Clone\<close> functions
  have no counterpart.

  The lemmas show what an accepted declaration guarantees (every mount path is clean, absolute and
  disjoint as a tree from every other one and from the reserved trees) and that normalizing again
  changes nothing, which is what local recovery and repeated creates rely on.
\<close>

section \<open>Data\<close>

record VolumeSpec =
  VS_Name :: string
  VS_Managed :: "string option"    \<comment> \<open>the \<open>Persistence\<close> of a \<open>ManagedVolume\<close>\<close>
  VS_HostPath :: "string option"   \<comment> \<open>the \<open>Path\<close> of a \<open>HostPathVolume\<close>\<close>

record VolumeMount =
  VM_Volume :: string
  VM_Path :: string
  VM_ReadOnly :: bool

record PillowPort =
  PP_Name :: string
  PP_ContainerPort :: int
  PP_Protocol :: string
  PP_Dynamic :: bool
  PP_Publish :: bool

record HTTPGetAction =
  HG_Path :: string
  HG_Port :: string

record Probe =
  PB_HTTPGet :: "HTTPGetAction option"
  PB_TCPSocket :: "string option"   \<comment> \<open>the \<open>Port\<close> of a \<open>TCPSocketAction\<close>\<close>
  PB_InitialDelaySeconds :: int
  PB_TimeoutSeconds :: int
  PB_PeriodSeconds :: int
  PB_SuccessThreshold :: int
  PB_FailureThreshold :: int

record ConfigurationKeyRef =
  KR_Source :: string
  KR_Key :: string

record Configuration =
  CF_Env :: "(string \<times> string) list"
  CF_EnvFiles :: "(string \<times> string) list"
  CF_EnvFrom :: "string list"
  CF_EnvValueFrom :: "(string \<times> ConfigurationKeyRef) list"

record PillowSpec =
  PS_Name :: string
  PS_Ports :: "PillowPort list"
  PS_ReadinessProbe :: "Probe option"
  PS_Mounts :: "VolumeMount list"
  PS_Args :: "string list"
  PS_Command :: "string list option"   \<comment> \<open>a nil and an empty slice differ\<close>
  PS_Workdir :: string
  PS_Configuration :: Configuration    \<comment> \<open>\<open>Env\<close>, \<open>EnvFiles\<close>, \<open>EnvFrom\<close> and \<open>EnvValueFrom\<close>\<close>
  PS_Required :: bool
  PS_RestartPolicy :: string
  PS_MaxRestarts :: int
  PS_StopSeconds :: int
  PS_SpecDigest :: string

datatype SyncKind = SyncNoop | SyncAuto | SyncCAS | SyncPack | SyncTar | SyncRestic | SyncCopy

record Spec =
  SP_Volumes :: "VolumeSpec list option"
  SP_Pillows :: "PillowSpec list"
  SP_Dir :: string
  SP_CreatedAt :: time
  SP_StoreKind :: SyncKind
  SP_NetworkPolicy :: "Policy option"
  SP_LocalPresent :: bool
  SP_LocalGeneration :: int

definition pillow_command :: "PillowSpec \<Rightarrow> string list" where
  "pillow_command p = (case PS_Command p of None \<Rightarrow> [] | Some c \<Rightarrow> c)"

definition empty_configuration :: Configuration where
  "empty_configuration = \<lparr> CF_Env = [], CF_EnvFiles = [], CF_EnvFrom = [], CF_EnvValueFrom = [] \<rparr>"

definition empty_pillow :: PillowSpec where
  "empty_pillow = \<lparr> PS_Name = [], PS_Ports = [], PS_ReadinessProbe = None, PS_Mounts = [], PS_Args = [],
     PS_Command = None, PS_Workdir = [], PS_Configuration = empty_configuration, PS_Required = False,
     PS_RestartPolicy = [], PS_MaxRestarts = 0, PS_StopSeconds = 0, PS_SpecDigest = [] \<rparr>"

definition DefaultPillow :: "Spec \<Rightarrow> PillowSpec" where
  "DefaultPillow s = (case SP_Pillows s of [] \<Rightarrow> empty_pillow | p # _ \<Rightarrow> p)"

definition HasMainProcesses :: "Spec \<Rightarrow> bool" where
  "HasMainProcesses s = (\<exists>p \<in> set (SP_Pillows s). pillow_command p \<noteq> [])"

definition NetworkPorts :: "Spec \<Rightarrow> PillowPort list" where
  "NetworkPorts s = concat (map PS_Ports (SP_Pillows s))"

section \<open>Paths, volumes and mounts\<close>

datatype path_error =
    MountNotAbsolute
  | MountReserved string
  | InvalidVolume string
  | HostPathNotAbsolute string
  | HostPathOverlap string string
  | InvalidPersistence string
  | InvalidMount string
  | MountOverlap
  | UnknownVolume string string

definition PathsOverlap :: "string \<Rightarrow> string \<Rightarrow> bool" where
  "PathsOverlap a b \<longleftrightarrow>
     a = b \<or> a = ''/'' \<or> b = ''/'' \<or> has_prefix a (b @ ''/'') \<or> has_prefix b (a @ ''/'')"

definition reserved_paths :: "string list" where
  "reserved_paths = [''/dev'', ''/proc'', ''/sys'', ''/.hostel'']"

definition validateMountPath :: "string \<Rightarrow> (path_error, unit) result" where
  "validateMountPath p =
     (if \<not> path_is_abs p \<or> p = ''/'' then Inl MountNotAbsolute
      else case List.find (PathsOverlap p) reserved_paths of
             Some r \<Rightarrow> Inl (MountReserved r)
           | None \<Rightarrow> Inr ())"

definition is_alnum :: "char \<Rightarrow> bool" where
  "is_alnum c \<longleftrightarrow> is_lower c \<or> is_upper c \<or> is_digit c"

definition name_char :: "char \<Rightarrow> bool" where
  "name_char c \<longleftrightarrow> is_alnum c \<or> c = CHR ''_'' \<or> c = CHR ''.'' \<or> c = CHR ''-''"

definition volumeName :: "string \<Rightarrow> bool" where
  "volumeName s = (case s of [] \<Rightarrow> False | c # cs \<Rightarrow> is_alnum c \<and> list_all name_char cs \<and> length cs \<le> 63)"

definition normalize_volume :: "VolumeSpec list \<Rightarrow> VolumeSpec \<Rightarrow> (path_error, VolumeSpec) result" where
  "normalize_volume done v =
     (if \<not> volumeName (VS_Name v) \<or> VS_Name v \<in> set (map VS_Name done)
         \<or> (VS_Managed v = None) = (VS_HostPath v = None)
      then Inl (InvalidVolume (VS_Name v))
      else case VS_HostPath v of
        Some h \<Rightarrow>
          (let p = path_clean h in
           if \<not> path_is_abs p \<or> p = ''/'' then Inl (HostPathNotAbsolute (VS_Name v))
           else case List.find (\<lambda>u. case VS_HostPath u of None \<Rightarrow> False | Some q \<Rightarrow> PathsOverlap p q) done of
                  Some u \<Rightarrow> Inl (HostPathOverlap (VS_Name v) (VS_Name u))
                | None \<Rightarrow> Inr (v\<lparr>VS_HostPath := Some p\<rparr>))
      | None \<Rightarrow>
          (if VS_Managed v = Some ''none'' \<or> VS_Managed v = Some ''sync'' then Inr v
           else Inl (InvalidPersistence (VS_Name v))))"

definition NormalizeVolumes :: "VolumeSpec list \<Rightarrow> (path_error, VolumeSpec list) result" where
  "NormalizeVolumes vs =
     res_bind (normalize_each normalize_volume [] vs) (\<lambda>out. Inr (sort_key VS_Name out))"

definition normalize_mount :: "VolumeMount list \<Rightarrow> VolumeMount \<Rightarrow> (path_error, VolumeMount) result" where
  "normalize_mount done m =
     (let p = path_clean (VM_Path m) in
      if \<not> volumeName (VM_Volume m) \<or> VM_Volume m \<in> set (map VM_Volume done)
      then Inl (InvalidMount (VM_Volume m))
      else res_bind (validateMountPath p) (\<lambda>_.
        if \<exists>u \<in> set done. PathsOverlap p (VM_Path u) then Inl MountOverlap
        else Inr (m\<lparr>VM_Path := p\<rparr>)))"

definition NormalizeMounts :: "VolumeMount list \<Rightarrow> (path_error, VolumeMount list) result" where
  "NormalizeMounts ms =
     res_bind (normalize_each normalize_mount [] ms) (\<lambda>out. Inr (sort_key VM_Path out))"

definition spec_volumes :: "Spec \<Rightarrow> VolumeSpec list" where
  "spec_volumes s = (case SP_Volumes s of None \<Rightarrow> [] | Some vs \<Rightarrow> vs)"

definition check_mounts :: "string set \<Rightarrow> string \<Rightarrow> VolumeMount list \<Rightarrow> (path_error, unit) result" where
  "check_mounts names consumer ms =
     (case List.find (\<lambda>m. VM_Volume m \<notin> names) ms of
        Some m \<Rightarrow> Inl (UnknownVolume consumer (VM_Volume m))
      | None \<Rightarrow> Inr ())"

definition ValidateVolumeMounts :: "Spec \<Rightarrow> (path_error, unit) result" where
  "ValidateVolumeMounts s =
     res_bind (traverse (\<lambda>p. check_mounts (VS_Name ` set (spec_volumes s)) (PS_Name p) (PS_Mounts p)) (SP_Pillows s))
       (\<lambda>_. Inr ())"

definition is_persistent :: "VolumeSpec \<Rightarrow> bool" where
  "is_persistent v \<longleftrightarrow> VS_Managed v = Some ''sync''"

definition PersistentVolumes :: "VolumeSpec list \<Rightarrow> VolumeSpec list" where
  "PersistentVolumes vs = filter is_persistent vs"

definition HasVolume :: "VolumeSpec list \<Rightarrow> string \<Rightarrow> bool" where
  "HasVolume vs name = (\<exists>v \<in> set vs. VS_Name v = name)"

definition PersistentVolumeRoots :: "VolumeSpec list \<Rightarrow> string list" where
  "PersistentVolumeRoots vs = map (\<lambda>v. ''volumes/'' @ VS_Name v) (filter is_persistent vs)"

section \<open>Overlap of path trees\<close>

text \<open>
  On clean absolute paths \<open>PathsOverlap\<close>, which works on strings, decides whether one component list
  is a prefix of the other: one of the two trees contains the other.
\<close>

definition path_components :: "string \<Rightarrow> string list" where
  "path_components p = (if p = ''/'' then [] else tl (split_on slash p))"

lemma path_components_abs_path:
  assumes "\<forall>c \<in> set cs. plain_component c"
  shows "path_components (abs_path cs) = cs"
proof (cases "cs = []")
  case True
  then show ?thesis by (simp add: path_components_def abs_path_def)
next
  case False
  then have "abs_path cs \<noteq> ''/''"
    using assms abs_path_inject [of cs "[]"] by (simp add: abs_path_def)
  with False show ?thesis by (simp add: path_components_def split_abs_path assms)
qed

definition trees_overlap :: "string \<Rightarrow> string \<Rightarrow> bool" where
  "trees_overlap a b \<longleftrightarrow>
     prefix (path_components a) (path_components b) \<or> prefix (path_components b) (path_components a)"

lemma PathsOverlap_trees:
  assumes "is_clean_abs a" and "is_clean_abs b"
  shows "PathsOverlap a b \<longleftrightarrow> trees_overlap a b"
proof -
  obtain cs where cs: "a = abs_path cs" "\<forall>c \<in> set cs. plain_component c"
    using assms(1) is_clean_absE by blast
  obtain ds where ds: "b = abs_path ds" "\<forall>c \<in> set ds. plain_component c"
    using assms(2) is_clean_absE by blast
  have root: "abs_path es = ''/'' \<longleftrightarrow> es = []" if "\<forall>c \<in> set es. plain_component c" for es
    using that abs_path_inject [of es "[]"] by (simp add: abs_path_def)
  show ?thesis
  proof (cases "cs = [] \<or> ds = []")
    case True
    then show ?thesis
      using cs ds by (auto simp: PathsOverlap_def trees_overlap_def path_components_abs_path root)
  next
    case False
    then have "PathsOverlap a b \<longleftrightarrow>
        cs = ds \<or> (\<exists>es. es \<noteq> [] \<and> cs = ds @ es) \<or> (\<exists>es. es \<noteq> [] \<and> ds = cs @ es)"
      using cs ds root by (simp add: PathsOverlap_def abs_path_prefix abs_path_inject)
    also have "\<dots> \<longleftrightarrow> prefix cs ds \<or> prefix ds cs"
      by (auto simp: prefix_def)
    finally show ?thesis
      using cs ds by (simp add: trees_overlap_def path_components_abs_path)
  qed
qed

lemma PathsOverlap_sym: "PathsOverlap a b = PathsOverlap b a"
  by (auto simp: PathsOverlap_def)

lemma find_None_all: "List.find P xs = None \<longleftrightarrow> (\<forall>x \<in> set xs. \<not> P x)"
  by (auto simp: find_None_iff)

section \<open>What an accepted declaration guarantees\<close>

definition volume_ok :: "VolumeSpec \<Rightarrow> bool" where
  "volume_ok v \<longleftrightarrow> volumeName (VS_Name v) \<and>
     (case VS_HostPath v of
        Some p \<Rightarrow> VS_Managed v = None \<and> is_clean_abs p \<and> p \<noteq> ''/''
      | None \<Rightarrow> VS_Managed v = Some ''none'' \<or> VS_Managed v = Some ''sync'')"

definition volumes_compat :: "VolumeSpec \<Rightarrow> VolumeSpec \<Rightarrow> bool" where
  "volumes_compat u v \<longleftrightarrow> VS_Name u \<noteq> VS_Name v \<and>
     (\<forall>p q. VS_HostPath u = Some p \<longrightarrow> VS_HostPath v = Some q \<longrightarrow> \<not> PathsOverlap p q)"

definition mount_ok :: "VolumeMount \<Rightarrow> bool" where
  "mount_ok m \<longleftrightarrow> volumeName (VM_Volume m) \<and> is_clean_abs (VM_Path m) \<and> VM_Path m \<noteq> ''/'' \<and>
     (\<forall>r \<in> set reserved_paths. \<not> PathsOverlap (VM_Path m) r)"

definition mounts_compat :: "VolumeMount \<Rightarrow> VolumeMount \<Rightarrow> bool" where
  "mounts_compat u m \<longleftrightarrow> VM_Volume u \<noteq> VM_Volume m \<and> \<not> PathsOverlap (VM_Path u) (VM_Path m)"

lemma not_in_image_ne: "f x \<notin> f ` A \<Longrightarrow> u \<in> A \<Longrightarrow> f u \<noteq> f x"
  by (metis imageI)

lemma clean_ok:
  "path_is_abs (path_clean p) \<Longrightarrow> is_clean_abs (path_clean p)"
  using clean_abs_iff is_clean_abs_clean by blast

interpretation volumes: incremental_check normalize_volume volume_ok volumes_compat
proof unfold_locales
  fix "done" v w
  assume "normalize_volume done v = Inr w"
  then show "volume_ok w"
    by (auto simp: normalize_volume_def volume_ok_def Let_def clean_ok split: if_splits option.splits)
next
  fix "done" v w u
  assume "normalize_volume done v = Inr w" "u \<in> set done"
  then show "volumes_compat u w"
    by (auto simp: normalize_volume_def volumes_compat_def Let_def find_None_all PathsOverlap_sym
        split: if_splits option.splits dest: not_in_image_ne)
next
  fix v "done"
  assume v: "volume_ok v" and d: "\<And>u. u \<in> set done \<Longrightarrow> volumes_compat u v"
  have fresh: "VS_Name v \<notin> VS_Name ` set done"
    using d by (force simp: volumes_compat_def)
  show "normalize_volume done v = Inr v"
  proof (cases "VS_HostPath v")
    case None
    then show ?thesis using v fresh by (auto simp: normalize_volume_def volume_ok_def)
  next
    case (Some p)
    then have "path_clean p = p" "path_is_abs p" "p \<noteq> ''/''" "VS_Managed v = None" "volumeName (VS_Name v)"
      using v by (auto simp: volume_ok_def is_clean_abs_def)
    moreover have "List.find (\<lambda>u. case VS_HostPath u of None \<Rightarrow> False | Some q \<Rightarrow> PathsOverlap p q) done = None"
      using d Some by (auto simp: find_None_all volumes_compat_def PathsOverlap_sym split: option.splits)
    ultimately show ?thesis using Some fresh by (simp add: normalize_volume_def)
  qed
next
  show "volumes_compat u v \<Longrightarrow> volumes_compat v u" for u v
    by (auto simp: volumes_compat_def PathsOverlap_sym)
qed

interpretation mounts: incremental_check normalize_mount mount_ok mounts_compat
proof unfold_locales
  show "normalize_mount done m = Inr n \<Longrightarrow> mount_ok n" for "done" m n
    by (auto simp: normalize_mount_def mount_ok_def Let_def validateMountPath_def find_None_all clean_ok
        split: if_splits option.splits)
  show "normalize_mount done m = Inr n \<Longrightarrow> u \<in> set done \<Longrightarrow> mounts_compat u n" for "done" m n u
    by (auto simp: normalize_mount_def mounts_compat_def Let_def PathsOverlap_sym split: if_splits
        dest: not_in_image_ne)
next
  fix m "done"
  assume m: "mount_ok m" and d: "\<And>u. u \<in> set done \<Longrightarrow> mounts_compat u m"
  have "VM_Volume m \<notin> VM_Volume ` set done"
    using d by (force simp: mounts_compat_def)
  moreover have "\<not> (\<exists>u \<in> set done. PathsOverlap (VM_Path m) (VM_Path u))"
    using d by (auto simp: mounts_compat_def PathsOverlap_sym)
  moreover have "validateMountPath (VM_Path m) = Inr ()" "path_clean (VM_Path m) = VM_Path m"
    using m by (auto simp: mount_ok_def validateMountPath_def is_clean_abs_def find_None_all
        split: option.splits)
  ultimately show "normalize_mount done m = Inr m"
    using m by (simp add: normalize_mount_def mount_ok_def)
next
  show "mounts_compat u m \<Longrightarrow> mounts_compat m u" for u m
    by (auto simp: mounts_compat_def PathsOverlap_sym)
qed

lemma NormalizeVolumes_sound:
  assumes "NormalizeVolumes vs = Inr ws"
  shows "(\<forall>v \<in> set ws. volume_ok v) \<and> sorted_wrt volumes_compat ws \<and> sorted (map VS_Name ws)"
  using assms volumes.each_sound_perm by (auto simp: NormalizeVolumes_def)

lemma NormalizeVolumes_idem:
  assumes "NormalizeVolumes vs = Inr ws"
  shows "NormalizeVolumes ws = Inr ws"
proof -
  obtain us where us: "normalize_each normalize_volume [] vs = Inr us" "ws = sort_key VS_Name us"
    using assms by (auto simp: NormalizeVolumes_def)
  then have "normalize_each normalize_volume [] ws = Inr ws"
    using volumes.each_idem_perm [OF us(1), of ws] by simp
  then show ?thesis using us(2) by (simp add: NormalizeVolumes_def sort_key_id_if_sorted)
qed

lemma NormalizeMounts_sound:
  assumes "NormalizeMounts ms = Inr ns"
  shows "(\<forall>m \<in> set ns. mount_ok m) \<and> sorted_wrt mounts_compat ns \<and> sorted (map VM_Path ns)"
  using assms mounts.each_sound_perm by (auto simp: NormalizeMounts_def)

lemma NormalizeMounts_idem:
  assumes "NormalizeMounts ms = Inr ns"
  shows "NormalizeMounts ns = Inr ns"
proof -
  obtain us where us: "normalize_each normalize_mount [] ms = Inr us" "ns = sort_key VM_Path us"
    using assms by (auto simp: NormalizeMounts_def)
  then have "normalize_each normalize_mount [] ns = Inr ns"
    using mounts.each_idem_perm [OF us(1), of ns] by simp
  then show ?thesis using us(2) by (simp add: NormalizeMounts_def sort_key_id_if_sorted)
qed

section \<open>Properties\<close>

text \<open>C19: Mounts that \<open>NormalizeMounts\<close> accepts are isolated from each other and from the host trees:
  every accepted path is clean and absolute, no accepted path lies inside \<open>/dev\<close>, \<open>/proc\<close>, \<open>/sys\<close> or
  \<open>/.hostel\<close> or contains one of them, and of two mounts at different positions neither tree
  contains the other. The overlap is decided on path components, so sibling names that share a
  string prefix do not count as nested.\<close>

theorem NormalizeMounts_isolates_trees:
  assumes "NormalizeMounts ms = Inr ns"
  shows "(\<forall>m \<in> set ns. is_clean_abs (VM_Path m)
            \<and> (\<forall>r \<in> set reserved_paths. \<not> trees_overlap (VM_Path m) r))
       \<and> (\<forall>i < length ns. \<forall>j < i. \<not> trees_overlap (VM_Path (ns ! j)) (VM_Path (ns ! i)))"
proof -
  have reserved: "is_clean_abs r" if "r \<in> set reserved_paths" for r
    using that by (auto simp: reserved_paths_def is_clean_abs_def path_is_abs_def has_prefix_def
        path_clean_def clean_components_def)
  have ok: "\<And>m. m \<in> set ns \<Longrightarrow> mount_ok m" and compat: "sorted_wrt mounts_compat ns"
    using NormalizeMounts_sound [OF assms] by auto
  show ?thesis
    using ok compat reserved
    by (auto simp: mount_ok_def mounts_compat_def sorted_wrt_iff_nth_less
        simp flip: PathsOverlap_trees)
qed

theorem NormalizeMounts_isolates_trees_witness:
  "\<not> trees_overlap ''/data'' ''/dev''"
  using NormalizeMounts_isolates_trees
    [of "[\<lparr>VM_Volume = ''v'', VM_Path = ''//data/x/..'', VM_ReadOnly = False\<rparr>]"
        "[\<lparr>VM_Volume = ''v'', VM_Path = ''/data'', VM_ReadOnly = False\<rparr>]"]
  by (simp add: NormalizeMounts_def normalize_mount_def path_clean_def path_is_abs_def has_prefix_def
      clean_components_def validateMountPath_def reserved_paths_def PathsOverlap_def volumeName_def
      is_alnum_def is_lower_def)

end
