(* ===== verification/Bed_Configuration.thy ===== *)
theory Bed_Configuration
  imports Bed_Spec
begin

text \<open>
  Process configuration (\<open>internal/bed/configuration/spec.go\<close> and \<open>manager.go\<close>): the validation of
  variable names and references, and \<open>Resolve\<close>, which imports whole source directories in
  declaration order, then single keys, then files, then literal values.

  The host filesystem is the argument \<open>fs\<close>: \<open>fs d\<close> is the directory \<open>d\<close> as \<open>os.OpenRoot\<close> sees it, or
  \<open>None\<close> when it cannot be opened; \<open>DIR_Entries\<close> is what \<open>ReadDir\<close> returns (\<open>None\<close> an error) and
  \<open>DIR_File\<close> what \<open>Stat\<close> and \<open>ReadAll\<close> find under a name. The same directory is seen by the several
  opens of one \<open>Resolve\<close>; closing handles has no counterpart.

  Every environment that \<open>Resolve\<close> returns has only valid, unreserved names, no value with a NUL
  byte, and the documented precedence.
\<close>

section \<open>Names and declarations\<close>

datatype config_error =
    InvalidVariable string | ReservedVariable string | ManagedVariable string | NulValue string
  | InvalidFileReference string | DuplicateVariable string | InvalidSourceReference string
  | EmptySourceName | UnknownSource string | SourceUnavailable string | SourceNotEnumerable string
  | SourceInvalidVariable string string | KeyUnavailable string string | FileUnavailable string
  | InvalidSource string | NotPrepared | UnknownPillow string | PillowConfigurationFailed string config_error

abbreviation nul :: char where
  "nul \<equiv> CHR 0x00"

definition env_identifier :: "string \<Rightarrow> bool" where
  "env_identifier s =
     (case s of [] \<Rightarrow> False
      | c # cs \<Rightarrow> (is_lower c \<or> is_upper c \<or> c = CHR ''_'') \<and> list_all (\<lambda>d. is_alnum d \<or> d = CHR ''_'') cs)"

definition ValidName :: "string \<Rightarrow> bool" where
  "ValidName name \<longleftrightarrow> env_identifier name \<and> \<not> has_prefix name ''HOSTEL_'' \<and> \<not> has_prefix name ''BED_''
     \<and> name \<noteq> ''PLAYWRIGHT_MCP_CDP_ENDPOINT''"

fun ValidateEnv :: "(string \<times> string) list \<Rightarrow> (config_error, unit) result" where
  "ValidateEnv [] = Inr ()"
| "ValidateEnv ((name, v) # env) =
     (if \<not> env_identifier name then Inl (InvalidVariable name)
      else if has_prefix name ''HOSTEL_'' \<or> has_prefix name ''BED_'' then Inl (ReservedVariable name)
      else if name = ''PLAYWRIGHT_MCP_CDP_ENDPOINT'' then Inl (ManagedVariable name)
      else if contains_char nul v then Inl (NulValue name)
      else ValidateEnv env)"

definition validKey :: "string \<Rightarrow> bool" where
  "validKey key \<longleftrightarrow> key \<noteq> [] \<and> key \<noteq> ''.'' \<and> \<not> has_prefix key ''..''
     \<and> slash \<notin> set key \<and> CHR 0x5C \<notin> set key \<and> nul \<notin> set key"

definition validate_file :: "Configuration \<Rightarrow> string \<times> string \<Rightarrow> (config_error, unit) result" where
  "validate_file s nf =
     (if \<not> ValidName (fst nf) \<or> \<not> path_is_abs (snd nf) \<or> contains_char nul (snd nf)
      then Inl (InvalidFileReference (fst nf))
      else if map_of (CF_Env s) (fst nf) \<noteq> None then Inl (DuplicateVariable (fst nf))
      else Inr ())"

definition validate_ref :: "Configuration \<Rightarrow> string \<times> ConfigurationKeyRef \<Rightarrow> (config_error, unit) result" where
  "validate_ref s nr =
     (if \<not> ValidName (fst nr) \<or> KR_Source (snd nr) = [] \<or> \<not> validKey (KR_Key (snd nr))
      then Inl (InvalidSourceReference (fst nr))
      else if map_of (CF_Env s) (fst nr) \<noteq> None then Inl (DuplicateVariable (fst nr))
      else if map_of (CF_EnvFiles s) (fst nr) \<noteq> None then Inl (DuplicateVariable (fst nr))
      else Inr ())"

definition Validate :: "Configuration \<Rightarrow> (config_error, unit) result" where
  "Validate s =
     res_bind (ValidateEnv (CF_Env s)) (\<lambda>_.
     res_bind (traverse (validate_file s) (CF_EnvFiles s)) (\<lambda>_.
     res_bind (traverse (validate_ref s) (CF_EnvValueFrom s)) (\<lambda>_.
     check ([] \<notin> set (CF_EnvFrom s)) EmptySourceName)))"

definition HasVariable :: "Configuration \<Rightarrow> string \<Rightarrow> bool" where
  "HasVariable s name \<longleftrightarrow> map_of (CF_Env s) name \<noteq> None \<or> map_of (CF_EnvFiles s) name \<noteq> None
     \<or> map_of (CF_EnvValueFrom s) name \<noteq> None \<or> CF_EnvFrom s \<noteq> []"

section \<open>The manager\<close>

datatype file_content = RegularFile string | IrregularFile | UnreadableFile

record directory =
  DIR_Entries :: "string list option"
  DIR_File :: "string \<Rightarrow> file_content option"

type_synonym filesystem = "string \<Rightarrow> directory option"

record SourceStatus =
  SS_Readable :: bool
  SS_ObservedAt :: time

record ConfigManager =
  CM_sources :: "(string \<times> string) list"
  CM_prepared :: "nat list"                         \<comment> \<open>the Beds, by address\<close>
  CM_observations :: "(string \<times> SourceStatus) list"

definition maxValueBytes :: int where
  "maxValueBytes = 65536"

definition validate_sources :: "(string \<times> string) list \<Rightarrow> (config_error, unit) result" where
  "validate_sources sources =
     (case List.find (\<lambda>(name, dir). \<not> validKey name \<or> \<not> path_is_abs dir \<or> contains_char nul dir) sources of
        Some (name, dir) \<Rightarrow> Inl (InvalidSource name)
      | None \<Rightarrow> Inr ())"

definition NewConfigManager :: "(string \<times> string) list \<Rightarrow> (config_error, ConfigManager) result" where
  "NewConfigManager sources =
     res_bind (validate_sources sources)
       (\<lambda>_. Inr \<lparr> CM_sources = sources, CM_prepared = [], CM_observations = [] \<rparr>)"

definition readRootValue :: "directory \<Rightarrow> string \<Rightarrow> string option" where
  "readRootValue root key =
     (case DIR_File root key of
        Some (RegularFile data) \<Rightarrow>
          (if int (length data) > maxValueBytes \<or> contains_char nul data then None
           else Some (trim_suffix data [CHR 0x0A]))
      | _ \<Rightarrow> None)"

definition openSource ::
  "filesystem \<Rightarrow> time \<Rightarrow> ConfigManager \<Rightarrow> string \<Rightarrow> ConfigManager \<times> (config_error, directory) result" where
  "openSource fs now m name =
     (case map_of (CM_sources m) name of
        None \<Rightarrow> (m, Inl (UnknownSource name))
      | Some d \<Rightarrow>
          (let root = (case fs d of
                         Some r \<Rightarrow> if DIR_Entries r = None then None else Some r
                       | None \<Rightarrow> None);
               m' = m\<lparr>CM_observations := al_put name \<lparr>SS_Readable = (root \<noteq> None), SS_ObservedAt = now\<rparr> (CM_observations m)\<rparr>
           in (m', case root of None \<Rightarrow> Inl (SourceUnavailable name) | Some r \<Rightarrow> Inr r)))"

fun read_entries ::
  "directory \<Rightarrow> string \<Rightarrow> string list \<Rightarrow> (string \<rightharpoonup> string) \<Rightarrow> (config_error, string \<rightharpoonup> string) result" where
  "read_entries root name [] env = Inr env"
| "read_entries root name (key # ks) env =
     (if has_prefix key ''..'' then read_entries root name ks env
      else if \<not> ValidName key then Inl (SourceInvalidVariable name key)
      else case readRootValue root key of
             None \<Rightarrow> Inl (KeyUnavailable name key)
           | Some v \<Rightarrow> read_entries root name ks (env(key \<mapsto> v)))"

definition readSource ::
  "filesystem \<Rightarrow> time \<Rightarrow> ConfigManager \<Rightarrow> string \<Rightarrow> ConfigManager \<times> (config_error, string \<rightharpoonup> string) result" where
  "readSource fs now m name =
     (case openSource fs now m name of
        (m', Inl e) \<Rightarrow> (m', Inl e)
      | (m', Inr root) \<Rightarrow>
          (m', case DIR_Entries root of
                 None \<Rightarrow> Inl (SourceNotEnumerable name)
               | Some entries \<Rightarrow>
                   if int (length entries) > 4096 then Inl (SourceNotEnumerable name)
                   else read_entries root name entries Map.empty))"

fun resolve_sources ::
  "filesystem \<Rightarrow> time \<Rightarrow> ConfigManager \<Rightarrow> string list \<Rightarrow> (string \<rightharpoonup> string)
     \<Rightarrow> ConfigManager \<times> (config_error, string \<rightharpoonup> string) result" where
  "resolve_sources fs now m [] env = (m, Inr env)"
| "resolve_sources fs now m (n # ns) env =
     (case readSource fs now m n of
        (m', Inl e) \<Rightarrow> (m', Inl e)
      | (m', Inr vals) \<Rightarrow> resolve_sources fs now m' ns (env ++ vals))"

fun resolve_refs ::
  "filesystem \<Rightarrow> time \<Rightarrow> ConfigManager \<Rightarrow> (string \<times> ConfigurationKeyRef) list \<Rightarrow> (string \<rightharpoonup> string)
     \<Rightarrow> ConfigManager \<times> (config_error, string \<rightharpoonup> string) result" where
  "resolve_refs fs now m [] env = (m, Inr env)"
| "resolve_refs fs now m ((name, ref) # rs) env =
     (case openSource fs now m (KR_Source ref) of
        (m', Inl e) \<Rightarrow> (m', Inl e)
      | (m', Inr root) \<Rightarrow>
          (case readRootValue root (KR_Key ref) of
             None \<Rightarrow> (m', Inl (KeyUnavailable (KR_Source ref) (KR_Key ref)))
           | Some v \<Rightarrow> resolve_refs fs now m' rs (env(name \<mapsto> v))))"

definition read_file :: "filesystem \<Rightarrow> string \<Rightarrow> string option" where
  "read_file fs file =
     (case fs (path_dir file) of
        None \<Rightarrow> None
      | Some root \<Rightarrow> readRootValue root (path_base file))"

fun resolve_files ::
  "filesystem \<Rightarrow> (string \<times> string) list \<Rightarrow> (string \<rightharpoonup> string) \<Rightarrow> (config_error, string \<rightharpoonup> string) result" where
  "resolve_files fs [] env = Inr env"
| "resolve_files fs ((name, file) # rest) env =
     (case read_file fs file of
        None \<Rightarrow> Inl (FileUnavailable name)
      | Some v \<Rightarrow> resolve_files fs rest (env(name \<mapsto> v)))"

definition Resolve ::
  "filesystem \<Rightarrow> time \<Rightarrow> ConfigManager \<Rightarrow> Configuration
     \<Rightarrow> ConfigManager \<times> (config_error, string \<rightharpoonup> string) result" where
  "Resolve fs now m s =
     (case Validate s of
        Inl e \<Rightarrow> (m, Inl e)
      | Inr _ \<Rightarrow>
          (case resolve_sources fs now m (CF_EnvFrom s) Map.empty of
             (m1, Inl e) \<Rightarrow> (m1, Inl e)
           | (m1, Inr env1) \<Rightarrow>
               (case resolve_refs fs now m1 (CF_EnvValueFrom s) env1 of
                  (m2, Inl e) \<Rightarrow> (m2, Inl e)
                | (m2, Inr env2) \<Rightarrow>
                    (m2, res_bind (resolve_files fs (CF_EnvFiles s) env2)
                           (\<lambda>env3. Inr (env3 ++ map_of (CF_Env s)))))))"

fun prepare_pillows ::
  "filesystem \<Rightarrow> time \<Rightarrow> ConfigManager \<Rightarrow> PillowSpec list \<Rightarrow> ConfigManager \<times> (config_error, unit) result" where
  "prepare_pillows fs now m [] = (m, Inr ())"
| "prepare_pillows fs now m (p # ps) =
     (case Resolve fs now m (PS_Configuration p) of
        (m', Inl e) \<Rightarrow> (m', Inl (PillowConfigurationFailed (PS_Name p) e))
      | (m', Inr _) \<Rightarrow> prepare_pillows fs now m' ps)"

definition config_Prepare ::
  "filesystem \<Rightarrow> time \<Rightarrow> ConfigManager \<Rightarrow> nat \<Rightarrow> Spec \<Rightarrow> ConfigManager \<times> (config_error, unit) result" where
  "config_Prepare fs now m b spec =
     (case prepare_pillows fs now m (SP_Pillows spec) of
        (m', Inl e) \<Rightarrow> (m', Inl e)
      | (m', Inr _) \<Rightarrow> (m'\<lparr>CM_prepared := List.insert b (CM_prepared m')\<rparr>, Inr ()))"

definition config_Pillow ::
  "filesystem \<Rightarrow> time \<Rightarrow> ConfigManager \<Rightarrow> nat \<Rightarrow> Spec \<Rightarrow> string
     \<Rightarrow> ConfigManager \<times> (config_error, string \<rightharpoonup> string) result" where
  "config_Pillow fs now m b spec name =
     (if b \<notin> set (CM_prepared m) then (m, Inl NotPrepared)
      else case List.find (\<lambda>p. PS_Name p = name) (SP_Pillows spec) of
        Some p \<Rightarrow> Resolve fs now m (PS_Configuration p)
      | None \<Rightarrow>
          if PS_Name (DefaultPillow spec) = name
          then Resolve fs now m (PS_Configuration (DefaultPillow spec))
          else (m, Inl (UnknownPillow name)))"

definition config_Main ::
  "filesystem \<Rightarrow> time \<Rightarrow> ConfigManager \<Rightarrow> nat \<Rightarrow> Spec
     \<Rightarrow> ConfigManager \<times> (config_error, string \<rightharpoonup> string) result" where
  "config_Main fs now m b spec = config_Pillow fs now m b spec (PS_Name (DefaultPillow spec))"

definition config_Release :: "ConfigManager \<Rightarrow> nat \<Rightarrow> ConfigManager" where
  "config_Release m b = m\<lparr>CM_prepared := removeAll b (CM_prepared m)\<rparr>"

definition config_Close :: "ConfigManager \<Rightarrow> ConfigManager" where
  "config_Close m = m\<lparr>CM_prepared := []\<rparr>"

section \<open>Environments that are safe to hand to a process\<close>

definition env_safe :: "(string \<rightharpoonup> string) \<Rightarrow> bool" where
  "env_safe env \<longleftrightarrow> (\<forall>n v. env n = Some v \<longrightarrow> ValidName n \<and> nul \<notin> set v)"

lemma env_safe_empty [simp]: "env_safe Map.empty"
  by (simp add: env_safe_def)

lemma env_safe_upd: "env_safe env \<Longrightarrow> ValidName n \<Longrightarrow> nul \<notin> set v \<Longrightarrow> env_safe (env(n \<mapsto> v))"
  by (simp add: env_safe_def)

lemma env_safe_add: "env_safe e1 \<Longrightarrow> env_safe e2 \<Longrightarrow> env_safe (e1 ++ e2)"
  by (auto simp: env_safe_def map_add_Some_iff)

lemma ValidateEnv_Cons:
  "ValidateEnv ((name, v) # env) = Inr u \<longleftrightarrow> ValidName name \<and> nul \<notin> set v \<and> ValidateEnv env = Inr u"
  by (simp add: ValidName_def)

lemma ValidateEnv_safe: "ValidateEnv env = Inr u \<Longrightarrow> env_safe (map_of env)"
proof (induction env)
  case (Cons p env)
  then show ?case
    by (cases p) (simp only: ValidateEnv_Cons map_of.simps, auto simp: env_safe_def)
qed simp

lemma readRootValue_safe:
  assumes "readRootValue root key = Some v"
  shows "nul \<notin> set v"
proof -
  obtain bytes where "\<not> contains_char nul bytes" and v: "v = trim_suffix bytes [CHR 0x0A]"
    using assms by (auto simp: readRootValue_def split: option.splits file_content.splits if_splits)
  then have "nul \<notin> set bytes" by simp
  then show ?thesis unfolding v using set_trim_suffix by blast
qed

lemma read_entries_safe:
  "read_entries root name ks env = Inr env' \<Longrightarrow> env_safe env \<Longrightarrow> env_safe env'"
  by (induction root name ks env rule: read_entries.induct)
    (auto split: if_splits option.splits intro: env_safe_upd dest: readRootValue_safe)

lemma readSource_safe: "readSource fs now m n = (m', Inr vals) \<Longrightarrow> env_safe vals"
  by (auto simp: readSource_def split: prod.splits sum.splits option.splits if_splits
      dest: read_entries_safe)

lemma resolve_sources_safe:
  "resolve_sources fs now m ns env = (m', Inr env') \<Longrightarrow> env_safe env \<Longrightarrow> env_safe env'"
  by (induction fs now m ns env rule: resolve_sources.induct)
    (auto split: prod.splits sum.splits intro: env_safe_add dest: readSource_safe)

lemma resolve_refs_safe:
  "resolve_refs fs now m rs env = (m', Inr env') \<Longrightarrow> env_safe env \<Longrightarrow> \<forall>n \<in> fst ` set rs. ValidName n
     \<Longrightarrow> env_safe env'"
  by (induction fs now m rs env rule: resolve_refs.induct)
    (auto split: prod.splits sum.splits option.splits simp: env_safe_upd dest: readRootValue_safe)

lemma resolve_files_safe:
  "resolve_files fs rs env = Inr env' \<Longrightarrow> env_safe env \<Longrightarrow> \<forall>n \<in> fst ` set rs. ValidName n
     \<Longrightarrow> env_safe env'"
  by (induction fs rs env rule: resolve_files.induct)
    (auto simp: read_file_def split: option.splits intro: env_safe_upd dest: readRootValue_safe)

lemma traverse_unit_all: "traverse f xs = Inr us \<Longrightarrow> x \<in> set xs \<Longrightarrow> \<exists>u. f x = Inr u"
  by (induction xs arbitrary: us) auto

lemma Validate_file_names:
  "Validate s = Inr u \<Longrightarrow> \<forall>n \<in> fst ` set (CF_EnvFiles s). ValidName n"
  by (fastforce simp: Validate_def validate_file_def split: if_splits dest: traverse_unit_all)

lemma Validate_ref_names:
  "Validate s = Inr u \<Longrightarrow> \<forall>n \<in> fst ` set (CF_EnvValueFrom s). ValidName n"
  by (fastforce simp: Validate_def validate_ref_def split: if_splits dest: traverse_unit_all)

lemma Resolve_InrE:
  assumes "Resolve fs now m s = (m', Inr env)"
  obtains u m1 env1 env2 env3 where "Validate s = Inr u"
    and "resolve_sources fs now m (CF_EnvFrom s) Map.empty = (m1, Inr env1)"
    and "resolve_refs fs now m1 (CF_EnvValueFrom s) env1 = (m', Inr env2)"
    and "resolve_files fs (CF_EnvFiles s) env2 = Inr env3"
    and "env = env3 ++ map_of (CF_Env s)"
  using assms by (auto simp: Resolve_def split: sum.splits prod.splits)

section \<open>Precedence\<close>

lemma resolve_files_get:
  assumes "resolve_files fs rs env = Inr env'" and "distinct (keys rs)"
  shows "env' n = (case map_of rs n of Some f \<Rightarrow> read_file fs f | None \<Rightarrow> env n)"
  using assms
proof (induction fs rs env rule: resolve_files.induct)
  case (2 fs name f rest env)
  then obtain v where v: "read_file fs f = Some v" "resolve_files fs rest (env(name \<mapsto> v)) = Inr env'"
    by (auto split: option.splits)
  have ih: "env' n = (case map_of rest n of Some f \<Rightarrow> read_file fs f | None \<Rightarrow> (env(name \<mapsto> v)) n)"
    using 2(1) [OF v] 2(3) by simp
  have "map_of rest name = None" using 2(3) by (simp add: map_of_eq_None_iff)
  with ih v(1) show ?case by (cases "n = name"; cases "map_of rest n") simp_all
qed simp

lemma openSource_sources [simp]: "CM_sources (fst (openSource fs now m n)) = CM_sources m"
  by (simp add: openSource_def Let_def split: option.splits)

definition source_dir :: "filesystem \<Rightarrow> (string \<times> string) list \<Rightarrow> string \<Rightarrow> directory option" where
  "source_dir fs sources name = Option.bind (map_of sources name) fs"

lemma openSource_dir:
  "openSource fs now m n = (m', Inr root) \<Longrightarrow> source_dir fs (CM_sources m) n = Some root"
  by (auto simp: openSource_def source_dir_def Let_def split: option.splits if_splits)

lemma resolve_refs_get:
  assumes "resolve_refs fs now m rs env = (m', Inr env')" and "distinct (keys rs)"
  shows "env' n = (case map_of rs n of
            Some r \<Rightarrow> Option.bind (source_dir fs (CM_sources m) (KR_Source r)) (\<lambda>d. readRootValue d (KR_Key r))
          | None \<Rightarrow> env n)"
  using assms
proof (induction fs now m rs env rule: resolve_refs.induct)
  case (2 fs now m name ref rs env)
  obtain m1 r where open1: "openSource fs now m (KR_Source ref) = (m1, r)"
    by (cases "openSource fs now m (KR_Source ref)")
  then obtain root v where root: "r = Inr root" "readRootValue root (KR_Key ref) = Some v"
    and rest: "resolve_refs fs now m1 rs (env(name \<mapsto> v)) = (m', Inr env')"
    using 2(2) by (auto split: sum.splits option.splits)
  have same: "CM_sources m1 = CM_sources m"
    using open1 openSource_sources [of fs now m "KR_Source ref"] by simp
  have ih: "env' n = (case map_of rs n of
            Some r \<Rightarrow> Option.bind (source_dir fs (CM_sources m) (KR_Source r)) (\<lambda>d. readRootValue d (KR_Key r))
          | None \<Rightarrow> (env(name \<mapsto> v)) n)"
    using 2(1) [OF open1 [symmetric] root(1) root(2) rest] 2(3) unfolding same by simp
  have "source_dir fs (CM_sources m) (KR_Source ref) = Some root"
    using open1 root(1) openSource_dir by blast
  moreover have "map_of rs name = None" using 2(3) by (simp add: map_of_eq_None_iff)
  ultimately show ?case using ih root(2) by (cases "n = name"; cases "map_of rs n") simp_all
qed simp

definition source_values :: "filesystem \<Rightarrow> (string \<times> string) list \<Rightarrow> string \<Rightarrow> (string \<rightharpoonup> string)" where
  "source_values fs sources name =
     (case Option.bind (source_dir fs sources name)
             (\<lambda>d. Option.bind (DIR_Entries d) (\<lambda>es. Some (read_entries d name es Map.empty))) of
        Some (Inr env) \<Rightarrow> env
      | _ \<Rightarrow> Map.empty)"

definition imported :: "filesystem \<Rightarrow> (string \<times> string) list \<Rightarrow> string list \<Rightarrow> (string \<rightharpoonup> string)" where
  "imported fs sources names = foldl (\<lambda>env n. env ++ source_values fs sources n) Map.empty names"

lemma readSource_values:
  assumes "readSource fs now m n = (m', Inr vals)"
  shows "vals = source_values fs (CM_sources m) n \<and> CM_sources m' = CM_sources m"
proof -
  obtain root where root: "openSource fs now m n = (m', Inr root)"
    using assms by (auto simp: readSource_def split: prod.splits sum.splits)
  then have "CM_sources m' = CM_sources m"
    using openSource_sources [of fs now m n] by simp
  with root assms openSource_dir [OF root] show ?thesis
    by (auto simp: readSource_def source_values_def split: option.splits if_splits)
qed

lemma resolve_sources_get:
  assumes "resolve_sources fs now m ns env = (m', Inr env')"
  shows "env' = foldl (\<lambda>env n. env ++ source_values fs (CM_sources m) n) env ns
       \<and> CM_sources m' = CM_sources m"
  using assms
proof (induction fs now m ns env rule: resolve_sources.induct)
  case (2 fs now m n ns env)
  obtain m1 r where r: "readSource fs now m n = (m1, r)" by (cases "readSource fs now m n")
  then obtain vals where vals: "r = Inr vals" "resolve_sources fs now m1 ns (env ++ vals) = (m', Inr env')"
    using 2(2) by (auto split: sum.splits)
  then show ?case
    using 2(1) [OF r [symmetric] vals(1) vals(2)] readSource_values [of fs now m n m1 vals] r by auto
qed simp

section \<open>Properties\<close>

text \<open>Every environment that \<open>Resolve\<close> hands to a process is safe, whatever the source directories
  and files contain: each name is a valid identifier outside the namespaces \<open>HOSTEL_\<close> and \<open>BED_\<close> that
  the runtime owns (and is not the managed browser endpoint), and no value contains a NUL byte.\<close>

theorem Resolve_env_safe:
  assumes "Resolve fs now m s = (m', Inr env)" and "env n = Some v"
  shows "ValidName n \<and> nul \<notin> set v"
proof -
  obtain u m1 env1 env2 env3 where v: "Validate s = Inr u"
    and src: "resolve_sources fs now m (CF_EnvFrom s) Map.empty = (m1, Inr env1)"
    and ref: "resolve_refs fs now m1 (CF_EnvValueFrom s) env1 = (m', Inr env2)"
    and fil: "resolve_files fs (CF_EnvFiles s) env2 = Inr env3"
    and env: "env = env3 ++ map_of (CF_Env s)"
    using Resolve_InrE [OF assms(1)] .
  have "env_safe env1" by (rule resolve_sources_safe [OF src env_safe_empty])
  then have "env_safe env2" by (rule resolve_refs_safe [OF ref _ Validate_ref_names [OF v]])
  then have "env_safe env3" by (rule resolve_files_safe [OF fil _ Validate_file_names [OF v]])
  moreover have "env_safe (map_of (CF_Env s))"
    using v by (auto simp: Validate_def intro: ValidateEnv_safe)
  ultimately show ?thesis
    using assms(2) env_safe_add unfolding env env_safe_def by blast
qed

definition sample_fs :: filesystem where
  "sample_fs d =
     (if d = ''/etc/app'' then Some \<lparr> DIR_Entries = Some [''..data'', ''TOKEN''],
        DIR_File = (\<lambda>k. if k = ''TOKEN'' then Some (RegularFile [CHR ''x'', CHR 0x0A]) else None) \<rparr>
      else None)"

definition sample_manager :: ConfigManager where
  "sample_manager = \<lparr> CM_sources = [(''app'', ''/etc/app'')], CM_prepared = [], CM_observations = [] \<rparr>"

definition sample_config :: Configuration where
  "sample_config = \<lparr> CF_Env = [(''A'', ''1'')], CF_EnvFiles = [], CF_EnvFrom = [''app''], CF_EnvValueFrom = [] \<rparr>"

lemmas sample_eval =
  Resolve_def Validate_def sample_config_def sample_manager_def sample_fs_def readSource_def openSource_def
  env_identifier_def ValidName_def is_lower_def is_upper_def is_alnum_def is_digit_def has_prefix_def
  has_suffix_def trim_suffix_def readRootValue_def maxValueBytes_def check_def

lemma sample_resolve:
  "snd (Resolve sample_fs 5 sample_manager sample_config) = Inr [''TOKEN'' \<mapsto> ''x'', ''A'' \<mapsto> ''1'']"
  by (simp add: sample_eval)

theorem Resolve_env_safe_witness: "ValidName ''TOKEN'' \<and> nul \<notin> set ''x''"
proof -
  obtain m' where "Resolve sample_fs 5 sample_manager sample_config = (m', Inr [''TOKEN'' \<mapsto> ''x'', ''A'' \<mapsto> ''1''])"
    using sample_resolve by (metis prod.collapse)
  then show ?thesis by (rule Resolve_env_safe) simp
qed

text \<open>\<open>Resolve\<close> has the documented precedence. A literal value wins over a file, a file over a single
  key of a source, and a key over whole-directory imports, where a later directory overrides an
  earlier one; a name that none of them gives is absent.\<close>

theorem Resolve_precedence:
  assumes "Resolve fs now m s = (m', Inr env)"
    and "distinct (keys (CF_EnvFiles s))" and "distinct (keys (CF_EnvValueFrom s))"
  shows "env n =
    (case map_of (CF_Env s) n of Some v \<Rightarrow> Some v
     | None \<Rightarrow> (case map_of (CF_EnvFiles s) n of Some f \<Rightarrow> read_file fs f
     | None \<Rightarrow> (case map_of (CF_EnvValueFrom s) n of
         Some r \<Rightarrow> Option.bind (source_dir fs (CM_sources m) (KR_Source r)) (\<lambda>d. readRootValue d (KR_Key r))
     | None \<Rightarrow> imported fs (CM_sources m) (CF_EnvFrom s) n)))"
proof -
  obtain u m1 env1 env2 env3 where
        src: "resolve_sources fs now m (CF_EnvFrom s) Map.empty = (m1, Inr env1)"
    and ref: "resolve_refs fs now m1 (CF_EnvValueFrom s) env1 = (m', Inr env2)"
    and fil: "resolve_files fs (CF_EnvFiles s) env2 = Inr env3"
    and env: "env = env3 ++ map_of (CF_Env s)"
    using Resolve_InrE [OF assms(1)] .
  have "env1 = imported fs (CM_sources m) (CF_EnvFrom s)" and same: "CM_sources m1 = CM_sources m"
    using resolve_sources_get [OF src] by (auto simp: imported_def)
  then show ?thesis
    using resolve_files_get [OF fil assms(2), of n] resolve_refs_get [OF ref assms(3), of n]
    unfolding env same by (simp add: map_add_def split: option.splits)
qed

theorem Resolve_precedence_witness:
  "imported sample_fs (CM_sources sample_manager) (CF_EnvFrom sample_config) ''TOKEN'' = Some ''x''"
proof -
  obtain m' where m': "Resolve sample_fs 5 sample_manager sample_config = (m', Inr [''TOKEN'' \<mapsto> ''x'', ''A'' \<mapsto> ''1''])"
    using sample_resolve by (metis prod.collapse)
  show ?thesis
    using Resolve_precedence [OF m', of "''TOKEN''"] by (simp add: sample_config_def)
qed

end
