(* ===== verification/Pillow_Spec.thy ===== *)
theory Pillow_Spec
  imports Bed_Configuration Go_Net
begin

text \<open>
  Normalization of pillow declarations (\<open>internal/bed/pillow/spec.go\<close> and \<open>probe_spec.go\<close>). A Bed's
  pillows are validated, completed with defaults and pinned by a digest; local recovery and every
  repeated create normalize the stored declaration again and compare, so normalization must be
  idempotent. The digest, the hexadecimal SHA-256 of the JSON form of the declaration, is the
  argument \<open>digest\<close>: the results hold for every function of the declaration.

  \<open>normalize_pillow\<close> is the body of the loop of \<open>Normalize\<close>; the list of the pillows already done
  stands for the map \<open>seen\<close>.
\<close>

section \<open>Ports and probes\<close>

datatype pillow_error =
    NoPillows
  | PillowMounts string path_error
  | InvalidPillow string
  | RelativeWorkdir string
  | ProcessSettingsWithoutCommand string
  | EmptyCommand string
  | CommandContainsNul string
  | InvalidRestartPolicy string
  | InvalidDeadlines string
  | PillowConfiguration config_error
  | InvalidPort string
  | NumericPortName string
  | UnsupportedProtocol string
  | DynamicWithContainerPort string
  | ContainerPortRange string
  | ProbeActions
  | ProbeNegative
  | ProbeLimit
  | ProbePath
  | ProbePortUnknown
  | DefinitionChanged string
  | PortNameTwice string string string
  | PortNumberTwice int string string

definition pillow_identifier :: "string \<Rightarrow> bool" where
  "pillow_identifier s = volumeName s"   \<comment> \<open>the same regular expression\<close>

definition normalize_port :: "PillowPort \<Rightarrow> (pillow_error, PillowPort) result" where
  "normalize_port p =
     (if \<not> pillow_identifier (PP_Name p) then Inl (InvalidPort (PP_Name p))
      else if list_all is_digit (PP_Name p) then Inl (NumericPortName (PP_Name p))
      else
        let q = (if PP_Protocol p = [] then p\<lparr>PP_Protocol := ''TCP''\<rparr> else p) in
        if PP_Protocol q \<noteq> ''TCP'' then Inl (UnsupportedProtocol (PP_Name p))
        else if PP_Dynamic q then
          (if PP_ContainerPort q \<noteq> 0 then Inl (DynamicWithContainerPort (PP_Name p)) else Inr q)
        else if PP_ContainerPort q < 1 \<or> PP_ContainerPort q > 65535 then Inl (ContainerPortRange (PP_Name p))
        else Inr q)"

definition probe_reference :: "Probe \<Rightarrow> string" where
  "probe_reference pb =
     (case PB_TCPSocket pb of
        Some port \<Rightarrow> port
      | None \<Rightarrow> (case PB_HTTPGet pb of Some a \<Rightarrow> HG_Port a | None \<Rightarrow> []))"

definition probePortName :: "PillowSpec \<Rightarrow> string" where
  "probePortName s =
     (case PS_ReadinessProbe s of
        None \<Rightarrow> []
      | Some pb \<Rightarrow>
          let ref = probe_reference pb; number = atoi ref in
          case List.find (\<lambda>p. PP_Name p = ref \<or> \<not> PP_Dynamic p \<and> number = Some (PP_ContainerPort p)) (PS_Ports s) of
            Some p \<Rightarrow> PP_Name p
          | None \<Rightarrow> [])"

text \<open>\<open>url.ParseRequestURI\<close> on a path that starts with \<open>/\<close>: control bytes are refused, and every
  percent sign before the query must introduce two hexadecimal digits.\<close>

fun escapes_ok :: "string \<Rightarrow> bool" where
  "escapes_ok [] = True"
| "escapes_ok (c # cs) =
     (if c = CHR ''%'' then (case cs of a # b # ds \<Rightarrow> is_hex a \<and> is_hex b \<and> escapes_ok ds | _ \<Rightarrow> False)
      else escapes_ok cs)"

definition is_control :: "char \<Rightarrow> bool" where
  "is_control c \<longleftrightarrow> (of_char c :: int) < 32 \<or> (of_char c :: int) = 127"

definition valid_request_path :: "string \<Rightarrow> bool" where
  "valid_request_path p \<longleftrightarrow> has_prefix p ''/'' \<and> \<not> has_prefix p ''//'' \<and> \<not> list_ex is_control p
     \<and> escapes_ok (takeWhile (\<lambda>c. c \<noteq> CHR ''?'') p)"

definition default_int :: "int \<Rightarrow> int \<Rightarrow> int" where
  "default_int d v = (if v = 0 then d else v)"

definition probe_defaults :: "Probe \<Rightarrow> Probe" where
  "probe_defaults pb = pb\<lparr> PB_TimeoutSeconds := default_int 1 (PB_TimeoutSeconds pb),
     PB_PeriodSeconds := default_int 10 (PB_PeriodSeconds pb),
     PB_SuccessThreshold := default_int 1 (PB_SuccessThreshold pb),
     PB_FailureThreshold := default_int 3 (PB_FailureThreshold pb),
     PB_HTTPGet := map_option (\<lambda>a. if HG_Path a = [] then a\<lparr>HG_Path := ''/''\<rparr> else a) (PB_HTTPGet pb) \<rparr>"

definition pin_port :: "string \<Rightarrow> Probe \<Rightarrow> Probe" where
  "pin_port name pb = pb\<lparr> PB_HTTPGet := map_option (\<lambda>a. a\<lparr>HG_Port := name\<rparr>) (PB_HTTPGet pb),
     PB_TCPSocket := map_option (\<lambda>_. name) (PB_TCPSocket pb) \<rparr>"

definition normalize_probe :: "PillowSpec \<Rightarrow> Probe \<Rightarrow> (pillow_error, PillowSpec) result" where
  "normalize_probe s pb =
     (if (PB_HTTPGet pb = None) = (PB_TCPSocket pb = None) then Inl ProbeActions
      else if PB_InitialDelaySeconds pb < 0 \<or> PB_TimeoutSeconds pb < 0 \<or> PB_PeriodSeconds pb < 0
           \<or> PB_SuccessThreshold pb < 0 \<or> PB_FailureThreshold pb < 0 then Inl ProbeNegative
      else if PB_InitialDelaySeconds pb > 86400 \<or> PB_TimeoutSeconds pb > 3600 \<or> PB_PeriodSeconds pb > 3600
           \<or> PB_SuccessThreshold pb > 1000 \<or> PB_FailureThreshold pb > 1000 then Inl ProbeLimit
      else
        let pb = probe_defaults pb in
        if (case PB_HTTPGet pb of Some a \<Rightarrow> \<not> valid_request_path (HG_Path a) | None \<Rightarrow> False) then Inl ProbePath
        else
          let name = probePortName (s\<lparr>PS_ReadinessProbe := Some pb\<rparr>) in
          if name = [] then Inl ProbePortUnknown
          else Inr (s\<lparr>PS_ReadinessProbe := Some (pin_port name pb)\<rparr>))"

definition normalizePortsAndProbe :: "PillowSpec \<Rightarrow> (pillow_error, PillowSpec) result" where
  "normalizePortsAndProbe s =
     res_bind (traverse normalize_port (PS_Ports s)) (\<lambda>ports.
       let s' = s\<lparr>PS_Ports := ports\<rparr> in
       case PS_ReadinessProbe s' of None \<Rightarrow> Inr s' | Some pb \<Rightarrow> normalize_probe s' pb)"

fun validate_ports :: "(string \<times> string) list \<Rightarrow> (int \<times> string) list \<Rightarrow> (string \<times> PillowPort) list
     \<Rightarrow> (pillow_error, unit) result" where
  "validate_ports names numbers [] = Inr ()"
| "validate_ports names numbers ((owner, p) # rest) =
     (case map_of names (PP_Name p) of
        Some other \<Rightarrow> Inl (PortNameTwice (PP_Name p) other owner)
      | None \<Rightarrow>
          if PP_Dynamic p then validate_ports ((PP_Name p, owner) # names) numbers rest
          else (case map_of numbers (PP_ContainerPort p) of
                  Some other \<Rightarrow> Inl (PortNumberTwice (PP_ContainerPort p) other owner)
                | None \<Rightarrow> validate_ports ((PP_Name p, owner) # names) ((PP_ContainerPort p, owner) # numbers) rest))"

definition owned_ports :: "PillowSpec list \<Rightarrow> (string \<times> PillowPort) list" where
  "owned_ports specs = concat (map (\<lambda>s. map (Pair (PS_Name s)) (PS_Ports s)) specs)"

definition validateBedPorts :: "PillowSpec list \<Rightarrow> (pillow_error, unit) result" where
  "validateBedPorts specs = validate_ports [] [] (owned_ports specs)"

section \<open>Normalize\<close>

definition lift_error :: "('e \<Rightarrow> 'f) \<Rightarrow> ('e, 'a) result \<Rightarrow> ('f, 'a) result" where
  "lift_error f r = (case r of Inl e \<Rightarrow> Inl (f e) | Inr x \<Rightarrow> Inr x)"

lemma lift_error_Inr [simp]: "lift_error f r = Inr x \<longleftrightarrow> r = Inr x"
  by (cases r) (simp_all add: lift_error_def)

definition normalize_workdir :: "PillowSpec \<Rightarrow> (pillow_error, PillowSpec) result" where
  "normalize_workdir s =
     (let wd = (if PS_Workdir s = [] then ''/workspace'' else PS_Workdir s) in
      if \<not> path_is_abs wd \<or> contains_char nul wd then Inl (RelativeWorkdir (PS_Name s))
      else Inr (s\<lparr>PS_Workdir := path_clean wd\<rparr>))"

definition normalize_process :: "PillowSpec \<Rightarrow> (pillow_error, PillowSpec) result" where
  "normalize_process s =
     (if pillow_command s = [] then
        (if PS_Command s \<noteq> None \<or> PS_Args s \<noteq> [] \<or> PS_RestartPolicy s \<noteq> [] \<or> PS_Required s
            \<or> PS_MaxRestarts s \<noteq> 0 \<or> PS_StopSeconds s \<noteq> 0 \<or> PS_Ports s \<noteq> [] \<or> PS_ReadinessProbe s \<noteq> None
         then Inl (ProcessSettingsWithoutCommand (PS_Name s)) else Inr s)
      else if hd (pillow_command s) = [] then Inl (EmptyCommand (PS_Name s))
      else if list_ex (contains_char nul) (pillow_command s @ PS_Args s) then Inl (CommandContainsNul (PS_Name s))
      else
        let policy = (if PS_RestartPolicy s = [] then ''never'' else PS_RestartPolicy s) in
        if policy \<notin> {''never'', ''on-failure'', ''always''} \<or> PS_MaxRestarts s < 0 \<or> PS_MaxRestarts s > 100
        then Inl (InvalidRestartPolicy (PS_Name s))
        else
          let stop = default_int 5 (PS_StopSeconds s) in
          if stop < 1 \<or> stop > 30 then Inl (InvalidDeadlines (PS_Name s))
          else Inr (s\<lparr>PS_RestartPolicy := policy, PS_MaxRestarts := default_int 5 (PS_MaxRestarts s),
                      PS_StopSeconds := stop\<rparr>))"

definition pin_digest :: "(PillowSpec \<Rightarrow> string) \<Rightarrow> string \<Rightarrow> PillowSpec \<Rightarrow> (pillow_error, PillowSpec) result" where
  "pin_digest digest provided s =
     (if provided \<noteq> [] \<and> provided \<noteq> digest s then Inl (DefinitionChanged (PS_Name s))
      else Inr (s\<lparr>PS_SpecDigest := digest s\<rparr>))"

definition normalize_pillow ::
  "(PillowSpec \<Rightarrow> string) \<Rightarrow> PillowSpec list \<Rightarrow> PillowSpec \<Rightarrow> (pillow_error, PillowSpec) result" where
  "normalize_pillow digest done s =
     res_bind (lift_error (PillowMounts (PS_Name s)) (NormalizeMounts (PS_Mounts s))) (\<lambda>ms.
       let provided = PS_SpecDigest s; s1 = s\<lparr>PS_Mounts := ms, PS_SpecDigest := []\<rparr> in
       if \<not> pillow_identifier (PS_Name s) \<or> PS_Name s \<in> set (map PS_Name done) then Inl (InvalidPillow (PS_Name s))
       else
         res_bind (normalize_workdir s1) (\<lambda>s2.
         res_bind (normalize_process s2) (\<lambda>s3.
         res_bind (lift_error PillowConfiguration (Validate (PS_Configuration s3))) (\<lambda>_.
         res_bind (normalizePortsAndProbe s3) (\<lambda>s4.
         pin_digest digest provided s4)))))"

definition Normalize :: "(PillowSpec \<Rightarrow> string) \<Rightarrow> PillowSpec list \<Rightarrow> (pillow_error, PillowSpec list) result" where
  "Normalize digest specs =
     (if specs = [] then Inl NoPillows
      else res_bind (normalize_each (normalize_pillow digest) [] specs) (\<lambda>out.
        res_bind (validateBedPorts out) (\<lambda>_. Inr out)))"

section \<open>Each stage is idempotent\<close>

lemma normalize_port_Inr:
  "normalize_port p = Inr q \<longleftrightarrow>
     pillow_identifier (PP_Name p) \<and> \<not> list_all is_digit (PP_Name p)
     \<and> q = p\<lparr>PP_Protocol := ''TCP''\<rparr> \<and> (PP_Protocol p = [] \<or> PP_Protocol p = ''TCP'')
     \<and> (if PP_Dynamic p then PP_ContainerPort p = 0 else 1 \<le> PP_ContainerPort p \<and> PP_ContainerPort p \<le> 65535)"
proof (cases "PP_Protocol p = []")
  case True
  then show ?thesis by (simp add: normalize_port_def not_less, blast)
next
  case False
  show ?thesis
  proof (cases "PP_Protocol p = ''TCP''")
    case True
    then have "p\<lparr>PP_Protocol := ''TCP''\<rparr> = p" by simp
    with True False show ?thesis by (auto simp: normalize_port_def not_less)
  next
    case False
    with \<open>PP_Protocol p \<noteq> []\<close> show ?thesis by (simp add: normalize_port_def)
  qed
qed

lemma normalize_port_idem: "normalize_port p = Inr q \<Longrightarrow> normalize_port q = Inr q \<and> PP_Name q = PP_Name p"
  by (simp add: normalize_port_Inr)

lemma traverse_ports_all:
  "traverse normalize_port ps = Inr qs \<Longrightarrow> q \<in> set qs \<Longrightarrow> \<exists>p. normalize_port p = Inr q"
  unfolding traverse_Inr using list_all2_imp_set2 [of "\<lambda>x y. normalize_port x = Inr y" ps qs q] by blast

lemma traverse_ports_idem:
  assumes "traverse normalize_port ps = Inr qs"
  shows "traverse normalize_port qs = Inr qs"
proof (rule traverse_id)
  fix q
  assume "q \<in> set qs"
  then obtain p where "normalize_port p = Inr q" using traverse_ports_all [OF assms] by blast
  then show "normalize_port q = Inr q" using normalize_port_idem by blast
qed

lemma normalize_port_name:
  assumes "normalize_port p = Inr q"
  shows "PP_Name q \<noteq> [] \<and> is_alnum (hd (PP_Name q)) \<and> \<not> list_all is_digit (PP_Name q)"
  using assms
  by (cases "PP_Name p") (simp_all add: normalize_port_Inr pillow_identifier_def volumeName_def)

lemma atoi_name:
  assumes "is_alnum (hd n)" and "n \<noteq> []" and "\<not> list_all is_digit n"
  shows "atoi n = None"
proof -
  have "take 1 n \<noteq> ''-''" "take 1 n \<noteq> ''+''"
    using assms(1,2) by (cases n; auto simp: is_alnum_def is_lower_def is_upper_def is_digit_def)+
  then show ?thesis using assms(3) by (simp add: atoi_def atoi_digits_def Let_def)
qed

lemma default_int_idem [simp]: "default_int d (default_int d v) = default_int d v"
  by (simp add: default_int_def)

lemma normalize_workdir_idem:
  assumes "normalize_workdir s = Inr t"
  shows "normalize_workdir t = Inr t"
proof -
  obtain wd where wd: "path_is_abs wd" "nul \<notin> set wd" "t = s\<lparr>PS_Workdir := path_clean wd\<rparr>"
    using assms by (auto simp: normalize_workdir_def Let_def split: if_splits)
  have "path_is_abs (path_clean wd)" using wd(1) by (simp add: clean_abs_iff)
  moreover from this have "path_clean wd \<noteq> []" by (auto simp: path_is_abs_iff)
  moreover have "nul \<notin> set (path_clean wd)" using wd(2) set_path_clean [of wd] by auto
  ultimately show ?thesis using wd by (simp add: normalize_workdir_def)
qed

lemma restart_policy_ne: "p \<in> {''never'', ''on-failure'', ''always''} \<Longrightarrow> p \<noteq> []"
  by auto

lemma normalize_process_idem:
  assumes "normalize_process s = Inr t"
  shows "normalize_process t = Inr t"
proof (cases "pillow_command s = []")
  case True
  then have "t = s" using assms by (simp add: normalize_process_def split: if_splits)
  with assms show ?thesis by simp
next
  case False
  let ?policy = "if PS_RestartPolicy s = [] then ''never'' else PS_RestartPolicy s"
  have ok: "hd (pillow_command s) \<noteq> []" "\<not> list_ex (contains_char nul) (pillow_command s @ PS_Args s)"
    "?policy \<in> {''never'', ''on-failure'', ''always''}" "0 \<le> PS_MaxRestarts s" "PS_MaxRestarts s \<le> 100"
    "1 \<le> default_int 5 (PS_StopSeconds s)" "default_int 5 (PS_StopSeconds s) \<le> 30"
    and t: "t = s\<lparr>PS_RestartPolicy := ?policy, PS_MaxRestarts := default_int 5 (PS_MaxRestarts s),
                  PS_StopSeconds := default_int 5 (PS_StopSeconds s)\<rparr>"
    using assms False by (simp_all add: normalize_process_def Let_def not_less split: if_split_asm)
  have "?policy \<noteq> []" using ok(3) by (rule restart_policy_ne)
  moreover have "0 \<le> default_int 5 (PS_MaxRestarts s)" "default_int 5 (PS_MaxRestarts s) \<le> 100"
    using ok by (auto simp: default_int_def)
  moreover have "pillow_command t = pillow_command s" by (simp add: t pillow_command_def)
  ultimately show ?thesis
    using False ok by (simp add: normalize_process_def t Let_def del: insert_iff)
qed

subsection \<open>The probe\<close>

definition ports_normal :: "PillowPort list \<Rightarrow> bool" where
  "ports_normal ps \<longleftrightarrow> (\<forall>p \<in> set ps. normalize_port p = Inr p)"

lemma probePortName_of_name:
  assumes "ports_normal (PS_Ports s)" and "PS_ReadinessProbe s = Some pb" and "probe_reference pb = PP_Name p"
    and "p \<in> set (PS_Ports s)"
  shows "probePortName s = PP_Name p"
proof -
  have "normalize_port p = Inr p" using assms(1,4) by (simp add: ports_normal_def)
  then have "atoi (PP_Name p) = None"
    using normalize_port_name [of p p] atoi_name [of "PP_Name p"] by blast
  moreover have "\<exists>q. List.find (\<lambda>q. PP_Name q = PP_Name p) (PS_Ports s) = Some q \<and> PP_Name q = PP_Name p"
    using assms(4) by (cases "List.find (\<lambda>q. PP_Name q = PP_Name p) (PS_Ports s)")
      (auto simp: find_None_all find_Some_iff)
  ultimately show ?thesis
    using assms(2,3) by (auto simp: probePortName_def)
qed

lemma probePortName_port:
  assumes "probePortName s \<noteq> []"
  obtains p where "p \<in> set (PS_Ports s)" and "PP_Name p = probePortName s"
proof -
  obtain pb where pb: "PS_ReadinessProbe s = Some pb"
    using assms by (cases "PS_ReadinessProbe s") (auto simp: probePortName_def)
  let ?P = "\<lambda>p. PP_Name p = probe_reference pb \<or> \<not> PP_Dynamic p \<and> atoi (probe_reference pb) = Some (PP_ContainerPort p)"
  obtain p where p: "List.find ?P (PS_Ports s) = Some p"
    using assms pb by (cases "List.find ?P (PS_Ports s)") (auto simp: probePortName_def Let_def)
  then have "p \<in> set (PS_Ports s)" by (auto simp: find_Some_iff)
  moreover have "PP_Name p = probePortName s" using p pb by (simp add: probePortName_def Let_def)
  ultimately show ?thesis using that by blast
qed

lemma probe_defaults_idem: "probe_defaults (probe_defaults pb) = probe_defaults pb"
  by (cases "PB_HTTPGet pb") (simp_all add: probe_defaults_def)

lemma probe_defaults_pin: "probe_defaults (pin_port n pb) = pin_port n (probe_defaults pb)"
  by (cases "PB_HTTPGet pb") (simp_all add: probe_defaults_def pin_port_def)

lemma pin_port_idem: "pin_port n (pin_port n pb) = pin_port n pb"
  by (cases "PB_HTTPGet pb"; cases "PB_TCPSocket pb") (simp_all add: pin_port_def)

lemma normalize_probe_idem:
  assumes n: "normalize_probe s pb = Inr t" and ports: "ports_normal (PS_Ports s)"
  obtains pb' where "t = s\<lparr>PS_ReadinessProbe := Some pb'\<rparr>" and "normalize_probe t pb' = Inr t"
proof -
  let ?d = "probe_defaults pb"
  let ?n = "probePortName (s\<lparr>PS_ReadinessProbe := Some ?d\<rparr>)"
  let ?pb = "pin_port ?n ?d"
  have act: "(PB_HTTPGet pb = None) \<noteq> (PB_TCPSocket pb = None)"
    and lo: "0 \<le> PB_InitialDelaySeconds pb" "0 \<le> PB_TimeoutSeconds pb" "0 \<le> PB_PeriodSeconds pb"
      "0 \<le> PB_SuccessThreshold pb" "0 \<le> PB_FailureThreshold pb"
    and hi: "PB_InitialDelaySeconds pb \<le> 86400" "PB_TimeoutSeconds pb \<le> 3600" "PB_PeriodSeconds pb \<le> 3600"
      "PB_SuccessThreshold pb \<le> 1000" "PB_FailureThreshold pb \<le> 1000"
    and path: "\<not> (case PB_HTTPGet ?d of Some a \<Rightarrow> \<not> valid_request_path (HG_Path a) | None \<Rightarrow> False)"
    and name: "?n \<noteq> []" and t: "t = s\<lparr>PS_ReadinessProbe := Some ?pb\<rparr>"
    using n by (simp_all add: normalize_probe_def Let_def not_less split: if_split_asm)
  obtain p where p: "p \<in> set (PS_Ports s)" "PP_Name p = ?n"
    using probePortName_port [OF name] by auto
  have "probe_reference ?pb = ?n"
    using act by (auto simp: probe_reference_def pin_port_def probe_defaults_def split: option.splits)
  then have found: "probePortName (t\<lparr>PS_ReadinessProbe := Some ?pb\<rparr>) = ?n"
    using probePortName_of_name [of "t\<lparr>PS_ReadinessProbe := Some ?pb\<rparr>" ?pb p] ports p by (simp add: t)
  have "probe_defaults ?pb = ?pb" by (simp add: probe_defaults_pin probe_defaults_idem)
  moreover have "(PB_HTTPGet ?pb = None) \<noteq> (PB_TCPSocket ?pb = None)"
    using act by (simp add: pin_port_def probe_defaults_def)
  moreover have "\<not> (case PB_HTTPGet ?pb of Some a \<Rightarrow> \<not> valid_request_path (HG_Path a) | None \<Rightarrow> False)"
    using path by (simp add: pin_port_def split: option.splits)
  moreover have "PB_InitialDelaySeconds ?pb = PB_InitialDelaySeconds pb"
    "PB_TimeoutSeconds ?pb = default_int 1 (PB_TimeoutSeconds pb)"
    "PB_PeriodSeconds ?pb = default_int 10 (PB_PeriodSeconds pb)"
    "PB_SuccessThreshold ?pb = default_int 1 (PB_SuccessThreshold pb)"
    "PB_FailureThreshold ?pb = default_int 3 (PB_FailureThreshold pb)"
    by (simp_all add: pin_port_def probe_defaults_def)
  ultimately have "normalize_probe t ?pb = Inr (t\<lparr>PS_ReadinessProbe := Some ?pb\<rparr>)"
    using lo hi name found
    by (simp add: normalize_probe_def Let_def not_less default_int_def pin_port_idem)
  then have "normalize_probe t ?pb = Inr t" by (simp add: t)
  with t show ?thesis using that by blast
qed

lemma normalizePortsAndProbe_idem:
  assumes "normalizePortsAndProbe s = Inr t"
  shows "normalizePortsAndProbe t = Inr t"
proof -
  obtain ports where ports: "traverse normalize_port (PS_Ports s) = Inr ports"
    and rest: "(case PS_ReadinessProbe s of None \<Rightarrow> Inr (s\<lparr>PS_Ports := ports\<rparr>)
                | Some pb \<Rightarrow> normalize_probe (s\<lparr>PS_Ports := ports\<rparr>) pb) = Inr t"
    using assms by (auto simp: normalizePortsAndProbe_def Let_def)
  have id: "traverse normalize_port ports = Inr ports" by (rule traverse_ports_idem [OF ports])
  have normal: "ports_normal ports"
    unfolding ports_normal_def using traverse_ports_all [OF ports] normalize_port_idem by blast
  show ?thesis
  proof (cases "PS_ReadinessProbe s")
    case None
    with rest have "t = s\<lparr>PS_Ports := ports\<rparr>" by simp
    with id None show ?thesis by (simp add: normalizePortsAndProbe_def)
  next
    case (Some pb)
    with rest have "normalize_probe (s\<lparr>PS_Ports := ports\<rparr>) pb = Inr t" by simp
    then obtain pb' where "t = s\<lparr>PS_Ports := ports, PS_ReadinessProbe := Some pb'\<rparr>" "normalize_probe t pb' = Inr t"
      using normal normalize_probe_idem [of "s\<lparr>PS_Ports := ports\<rparr>" pb t] by auto
    then have "traverse normalize_port (PS_Ports t) = Inr (PS_Ports t)" "PS_ReadinessProbe t = Some pb'"
      "normalize_probe t pb' = Inr t"
      using id by simp_all
    then show ?thesis by (simp add: normalizePortsAndProbe_def)
  qed
qed

subsection \<open>The whole declaration\<close>

lemma normalize_workdir_fixed:
  "normalize_workdir s = Inr s \<longleftrightarrow>
     PS_Workdir s \<noteq> [] \<and> path_is_abs (PS_Workdir s) \<and> nul \<notin> set (PS_Workdir s) \<and> path_clean (PS_Workdir s) = PS_Workdir s"
proof -
  have eq: "s\<lparr>PS_Workdir := w\<rparr> = s \<longleftrightarrow> w = PS_Workdir s" for w
    by (metis PillowSpec.select_convs(7) PillowSpec.surjective PillowSpec.update_convs(7))
  have "path_clean ''/workspace'' \<noteq> []" by (simp add: path_clean_def path_is_abs_def has_prefix_def)
  then show ?thesis
    by (cases "PS_Workdir s = []") (simp_all add: normalize_workdir_def Let_def eq)
qed

lemma normalize_process_fixed:
  "normalize_process s = Inr s \<longleftrightarrow>
     (if pillow_command s = [] then
        PS_Command s = None \<and> PS_Args s = [] \<and> PS_RestartPolicy s = [] \<and> \<not> PS_Required s
        \<and> PS_MaxRestarts s = 0 \<and> PS_StopSeconds s = 0 \<and> PS_Ports s = [] \<and> PS_ReadinessProbe s = None
      else hd (pillow_command s) \<noteq> [] \<and> \<not> list_ex (contains_char nul) (pillow_command s @ PS_Args s)
        \<and> PS_RestartPolicy s \<in> {''never'', ''on-failure'', ''always''}
        \<and> 1 \<le> PS_MaxRestarts s \<and> PS_MaxRestarts s \<le> 100 \<and> 1 \<le> PS_StopSeconds s \<and> PS_StopSeconds s \<le> 30)"
  (is "?l = ?r")
proof (cases "pillow_command s = []")
  case True
  then show ?thesis by (simp add: normalize_process_def)
next
  case False
  let ?policy = "if PS_RestartPolicy s = [] then ''never'' else PS_RestartPolicy s"
  show ?thesis
  proof
    assume l: ?l
    then have ok: "hd (pillow_command s) \<noteq> []" "\<not> list_ex (contains_char nul) (pillow_command s @ PS_Args s)"
      "?policy \<in> {''never'', ''on-failure'', ''always''}" "0 \<le> PS_MaxRestarts s" "PS_MaxRestarts s \<le> 100"
      "1 \<le> default_int 5 (PS_StopSeconds s)" "default_int 5 (PS_StopSeconds s) \<le> 30"
      and s: "s\<lparr>PS_RestartPolicy := ?policy, PS_MaxRestarts := default_int 5 (PS_MaxRestarts s),
                PS_StopSeconds := default_int 5 (PS_StopSeconds s)\<rparr> = s"
      using False by (simp_all add: normalize_process_def Let_def not_less split: if_split_asm)
    have "?policy = PS_RestartPolicy s" using arg_cong [OF s, of PS_RestartPolicy] by simp
    moreover have "default_int 5 (PS_MaxRestarts s) = PS_MaxRestarts s" using arg_cong [OF s, of PS_MaxRestarts] by simp
    moreover have "default_int 5 (PS_StopSeconds s) = PS_StopSeconds s" using arg_cong [OF s, of PS_StopSeconds] by simp
    moreover from calculation have "PS_MaxRestarts s \<noteq> 0" by (simp add: default_int_def split: if_split_asm)
    ultimately show ?r using ok False by simp
  next
    assume r: ?r
    then have "PS_RestartPolicy s \<noteq> []" using False restart_policy_ne by presburger
    with r False show ?l by (simp add: normalize_process_def Let_def default_int_def del: insert_iff)
  qed
qed

lemma normalize_workdir_frame:
  "normalize_workdir s = Inr t \<Longrightarrow> \<exists>w. t = s\<lparr>PS_Workdir := w\<rparr>"
  by (auto simp: normalize_workdir_def Let_def split: if_split_asm)

lemma normalize_process_frame:
  assumes "normalize_process s = Inr t"
  shows "\<exists>a b c. t = s\<lparr>PS_RestartPolicy := a, PS_MaxRestarts := b, PS_StopSeconds := c\<rparr>"
proof (cases "pillow_command s = []")
  case True
  then have "t = s\<lparr>PS_RestartPolicy := PS_RestartPolicy s, PS_MaxRestarts := PS_MaxRestarts s, PS_StopSeconds := PS_StopSeconds s\<rparr>"
    using assms by (simp add: normalize_process_def split: if_split_asm)
  then show ?thesis by blast
next
  case False
  let ?policy = "if PS_RestartPolicy s = [] then ''never'' else PS_RestartPolicy s"
  have "t = s\<lparr>PS_RestartPolicy := ?policy, PS_MaxRestarts := default_int 5 (PS_MaxRestarts s),
              PS_StopSeconds := default_int 5 (PS_StopSeconds s)\<rparr>"
    using assms False by (simp add: normalize_process_def Let_def split: if_split_asm)
  then show ?thesis by blast
qed

lemma normalizePortsAndProbe_frame:
  assumes "normalizePortsAndProbe s = Inr t"
  shows "\<exists>ps pr. t = s\<lparr>PS_Ports := ps, PS_ReadinessProbe := pr\<rparr> \<and> (ps = [] \<longleftrightarrow> PS_Ports s = [])
      \<and> (pr = None \<longleftrightarrow> PS_ReadinessProbe s = None)"
proof -
  obtain ports where ports: "traverse normalize_port (PS_Ports s) = Inr ports"
    and rest: "(case PS_ReadinessProbe s of None \<Rightarrow> Inr (s\<lparr>PS_Ports := ports\<rparr>)
                | Some pb \<Rightarrow> normalize_probe (s\<lparr>PS_Ports := ports\<rparr>) pb) = Inr t"
    using assms by (auto simp: normalizePortsAndProbe_def Let_def)
  have len: "ports = [] \<longleftrightarrow> PS_Ports s = []" using traverse_length [OF ports] by auto
  show ?thesis
  proof (cases "PS_ReadinessProbe s")
    case None
    with rest have "t = s\<lparr>PS_Ports := ports\<rparr>" by simp
    moreover have "s = s\<lparr>PS_ReadinessProbe := None\<rparr>" using None by (metis PillowSpec.surjective PillowSpec.update_convs(3))
    ultimately have "t = s\<lparr>PS_ReadinessProbe := None, PS_Ports := ports\<rparr>" by simp
    then have "t = s\<lparr>PS_Ports := ports, PS_ReadinessProbe := None\<rparr>" by simp
    with len None show ?thesis by blast
  next
    case (Some pb)
    with rest obtain pb' where "t = s\<lparr>PS_Ports := ports, PS_ReadinessProbe := Some pb'\<rparr>"
      by (auto simp: normalize_probe_def Let_def split: if_split_asm)
    with len Some show ?thesis by (intro exI [of _ ports] exI [of _ "Some pb'"]) simp
  qed
qed

lemma normalize_pillow_InrE:
  assumes "normalize_pillow digest done s = Inr t"
  obtains ms s2 s3 s4 where "NormalizeMounts (PS_Mounts s) = Inr ms"
    and "pillow_identifier (PS_Name s)" and "PS_Name s \<notin> set (map PS_Name done)"
    and "normalize_workdir (s\<lparr>PS_Mounts := ms, PS_SpecDigest := []\<rparr>) = Inr s2"
    and "normalize_process s2 = Inr s3" and "\<exists>u. Validate (PS_Configuration s3) = Inr u"
    and "normalizePortsAndProbe s3 = Inr s4" and "t = s4\<lparr>PS_SpecDigest := digest s4\<rparr>"
proof -
  have pin: "pin_digest digest d s4 = Inr t \<Longrightarrow> t = s4\<lparr>PS_SpecDigest := digest s4\<rparr>" for d s4
    by (auto simp: pin_digest_def split: if_split_asm)
  show ?thesis
    using assms that unfolding normalize_pillow_def res_bind_Inr_conv Let_def
    by (auto split: if_split_asm dest: pin)
qed

lemma normalize_pillow_idem:
  assumes "normalize_pillow digest done s = Inr t"
  shows "normalize_pillow digest [] t = Inr t"
proof -
  obtain ms s2 s3 s4 where ms: "NormalizeMounts (PS_Mounts s) = Inr ms" and name: "pillow_identifier (PS_Name s)"
    and s2: "normalize_workdir (s\<lparr>PS_Mounts := ms, PS_SpecDigest := []\<rparr>) = Inr s2"
    and s3: "normalize_process s2 = Inr s3" and cfg: "\<exists>u. Validate (PS_Configuration s3) = Inr u"
    and s4: "normalizePortsAndProbe s3 = Inr s4" and t: "t = s4\<lparr>PS_SpecDigest := digest s4\<rparr>"
    using normalize_pillow_InrE [OF assms] .
  obtain w where w: "s2 = s\<lparr>PS_Mounts := ms, PS_SpecDigest := [], PS_Workdir := w\<rparr>"
    using normalize_workdir_frame [OF s2] by auto
  obtain a b c where abc: "s3 = s2\<lparr>PS_RestartPolicy := a, PS_MaxRestarts := b, PS_StopSeconds := c\<rparr>"
    using normalize_process_frame [OF s3] by auto
  obtain ps pr where pp: "s4 = s3\<lparr>PS_Ports := ps, PS_ReadinessProbe := pr\<rparr>"
    "ps = [] \<longleftrightarrow> PS_Ports s3 = []" "pr = None \<longleftrightarrow> PS_ReadinessProbe s3 = None"
    using normalizePortsAndProbe_frame [OF s4] by auto
  have clear: "t\<lparr>PS_Mounts := ms, PS_SpecDigest := []\<rparr> = s4" by (cases s) (simp add: t pp abc w)
  have "normalize_workdir s2 = Inr s2" by (rule normalize_workdir_idem [OF s2])
  then have wd: "normalize_workdir s4 = Inr s4"
    by (simp add: normalize_workdir_fixed pp abc)
  have "normalize_process s3 = Inr s3" by (rule normalize_process_idem [OF s3])
  moreover have "pillow_command s4 = pillow_command s3" by (simp add: pp(1) pillow_command_def)
  moreover have "PS_Command s4 = PS_Command s3" "PS_Args s4 = PS_Args s3" "PS_RestartPolicy s4 = PS_RestartPolicy s3"
    "PS_Required s4 = PS_Required s3" "PS_MaxRestarts s4 = PS_MaxRestarts s3" "PS_StopSeconds s4 = PS_StopSeconds s3"
    "PS_Ports s4 = [] \<longleftrightarrow> PS_Ports s3 = []" "PS_ReadinessProbe s4 = None \<longleftrightarrow> PS_ReadinessProbe s3 = None"
    using pp(2,3) by (simp_all add: pp(1))
  ultimately have pr: "normalize_process s4 = Inr s4"
    unfolding normalize_process_fixed by presburger
  have "PS_Configuration s4 = PS_Configuration s3" by (simp add: pp(1))
  with cfg have "\<exists>u. Validate (PS_Configuration s4) = Inr u" by simp
  moreover have "NormalizeMounts (PS_Mounts t) = Inr ms" "PS_Name t = PS_Name s" "PS_SpecDigest t = digest s4"
    using NormalizeMounts_idem [OF ms] by (simp_all add: t pp(1) abc w)
  moreover have "normalizePortsAndProbe s4 = Inr s4" by (rule normalizePortsAndProbe_idem [OF s4])
  ultimately show ?thesis
    using name wd pr clear t
    by (auto simp: normalize_pillow_def lift_error_def pin_digest_def Let_def)
qed

definition pillow_good :: "(PillowSpec \<Rightarrow> string) \<Rightarrow> PillowSpec \<Rightarrow> bool" where
  "pillow_good digest s \<longleftrightarrow> normalize_pillow digest [] s = Inr s"

lemma distinct_map_sorted_wrt: "sorted_wrt (\<lambda>x y. f x \<noteq> f y) xs \<longleftrightarrow> distinct (map f xs)"
  by (induction xs) auto

definition pillows_compat :: "PillowSpec \<Rightarrow> PillowSpec \<Rightarrow> bool" where
  "pillows_compat u s \<longleftrightarrow> PS_Name u \<noteq> PS_Name s"

lemma normalize_pillow_name: "normalize_pillow digest done s = Inr t \<Longrightarrow> PS_Name t = PS_Name s"
  by (auto elim!: normalize_pillow_InrE
      dest!: normalize_workdir_frame normalize_process_frame normalizePortsAndProbe_frame)

lemma normalize_pillow_done:
  assumes "PS_Name s \<notin> set (map PS_Name done)"
  shows "normalize_pillow digest done s = normalize_pillow digest [] s"
  using assms by (simp add: normalize_pillow_def)

interpretation pillows: incremental_check "normalize_pillow digest" "pillow_good digest" pillows_compat
  for digest
proof unfold_locales
  show "normalize_pillow digest done s = Inr t \<Longrightarrow> pillow_good digest t" for "done" s t
    using normalize_pillow_idem by (simp add: pillow_good_def)
  show "normalize_pillow digest done s = Inr t \<Longrightarrow> u \<in> set done \<Longrightarrow> pillows_compat u t" for "done" s t u
    by (auto simp: pillows_compat_def normalize_pillow_name elim!: normalize_pillow_InrE dest: not_in_image_ne)
  show "pillow_good digest s \<Longrightarrow> (\<And>u. u \<in> set done \<Longrightarrow> pillows_compat u s)
      \<Longrightarrow> normalize_pillow digest done s = Inr s" for s "done"
    using normalize_pillow_done [of s "done" digest] by (force simp: pillow_good_def pillows_compat_def)
  show "pillows_compat u s \<Longrightarrow> pillows_compat s u" for u s
    by (simp add: pillows_compat_def)
qed

section \<open>Properties\<close>

definition fixed_ports :: "(string \<times> PillowPort) list \<Rightarrow> int list" where
  "fixed_ports xs = map (PP_ContainerPort \<circ> snd) (filter (\<lambda>x. \<not> PP_Dynamic (snd x)) xs)"

lemma validate_ports_Inr:
  "validate_ports names numbers xs = Inr u \<longleftrightarrow>
     distinct (map (PP_Name \<circ> snd) xs) \<and> set (map (PP_Name \<circ> snd) xs) \<inter> set (keys names) = {}
     \<and> distinct (fixed_ports xs) \<and> set (fixed_ports xs) \<inter> set (keys numbers) = {}"
proof (induction names numbers xs rule: validate_ports.induct)
  case (2 names numbers owner p rest)
  have n: "map_of names k = None \<longleftrightarrow> k \<notin> set (keys names)" for k by (simp add: map_of_eq_None_iff)
  have m: "map_of numbers k = None \<longleftrightarrow> k \<notin> set (keys numbers)" for k by (simp add: map_of_eq_None_iff)
  show ?case
  proof (cases "map_of names (PP_Name p)")
    case (Some other)
    then have "PP_Name p \<in> set (keys names)" using n [of "PP_Name p"] by auto
    with Some show ?thesis by auto
  next
    case None
    note nn = this n [of "PP_Name p"]
    show ?thesis
    proof (cases "PP_Dynamic p")
      case True
      then show ?thesis using 2(1) [OF None True] None nn by (auto simp: fixed_ports_def)
    next
      case False
      show ?thesis
      proof (cases "map_of numbers (PP_ContainerPort p)")
        case (Some other)
        then have "PP_ContainerPort p \<in> set (keys numbers)" using m [of "PP_ContainerPort p"] by auto
        with Some False None show ?thesis by (auto simp: fixed_ports_def)
      next
        case None
        with nn False m [of "PP_ContainerPort p"] 2(2) [OF \<open>map_of names (PP_Name p) = None\<close> False None]
        show ?thesis by (auto simp: fixed_ports_def)
      qed
    qed
  qed
qed (simp add: fixed_ports_def)

definition probe_ok :: "PillowSpec \<Rightarrow> bool" where
  "probe_ok s \<longleftrightarrow> (\<forall>pb. PS_ReadinessProbe s = Some pb \<longrightarrow> probe_reference pb \<in> PP_Name ` set (PS_Ports s)
     \<and> 0 < PB_TimeoutSeconds pb \<and> 0 < PB_PeriodSeconds pb \<and> 0 < PB_SuccessThreshold pb \<and> 0 < PB_FailureThreshold pb)"

lemma normalize_probe_ok:
  assumes n: "normalize_probe s pb = Inr t"
  shows "probe_ok t"
proof -
  let ?d = "probe_defaults pb"
  let ?n = "probePortName (s\<lparr>PS_ReadinessProbe := Some ?d\<rparr>)"
  have act: "(PB_HTTPGet pb = None) \<noteq> (PB_TCPSocket pb = None)"
    and lo: "0 \<le> PB_TimeoutSeconds pb" "0 \<le> PB_PeriodSeconds pb" "0 \<le> PB_SuccessThreshold pb" "0 \<le> PB_FailureThreshold pb"
    and name: "?n \<noteq> []" and t: "t = s\<lparr>PS_ReadinessProbe := Some (pin_port ?n ?d)\<rparr>"
    using n by (simp_all add: normalize_probe_def Let_def not_less split: if_split_asm)
  obtain p where p: "p \<in> set (PS_Ports s)" "PP_Name p = ?n"
    using probePortName_port [OF name] by auto
  have ref: "probe_reference (pin_port ?n ?d) = ?n"
    using act by (auto simp: probe_reference_def pin_port_def probe_defaults_def split: option.splits)
  have "?n \<in> PP_Name ` set (PS_Ports s)" using p by (metis imageI)
  with ref lo show ?thesis
    by (simp add: probe_ok_def t) (simp add: pin_port_def probe_defaults_def default_int_def)
qed

lemma normalizePortsAndProbe_ok:
  assumes "normalizePortsAndProbe s = Inr t"
  shows "probe_ok t \<and> (\<forall>p \<in> set (PS_Ports t). PP_Dynamic p \<or> 1 \<le> PP_ContainerPort p \<and> PP_ContainerPort p \<le> 65535)"
proof -
  obtain ports where ports: "traverse normalize_port (PS_Ports s) = Inr ports"
    and rest: "(case PS_ReadinessProbe s of None \<Rightarrow> Inr (s\<lparr>PS_Ports := ports\<rparr>)
                | Some pb \<Rightarrow> normalize_probe (s\<lparr>PS_Ports := ports\<rparr>) pb) = Inr t"
    using assms by (auto simp: normalizePortsAndProbe_def Let_def)
  have range: "PP_Dynamic p \<or> 1 \<le> PP_ContainerPort p \<and> PP_ContainerPort p \<le> 65535" if "p \<in> set ports" for p
    using traverse_ports_all [OF ports that] by (auto simp: normalize_port_Inr split: if_split_asm)
  show ?thesis
  proof (cases "PS_ReadinessProbe s")
    case None
    with rest have "t = s\<lparr>PS_Ports := ports\<rparr>" by simp
    with range None show ?thesis by (simp add: probe_ok_def)
  next
    case (Some pb)
    with rest have n: "normalize_probe (s\<lparr>PS_Ports := ports\<rparr>) pb = Inr t" by simp
    then have "PS_Ports t = ports" by (auto simp: normalize_probe_def Let_def split: if_split_asm)
    with range normalize_probe_ok [OF n] show ?thesis by simp
  qed
qed

definition process_ok :: "PillowSpec \<Rightarrow> bool" where
  "process_ok s \<longleftrightarrow> (pillow_command s \<noteq> [] \<longrightarrow> PS_RestartPolicy s \<in> {''never'', ''on-failure'', ''always''}
     \<and> 1 \<le> PS_MaxRestarts s \<and> PS_MaxRestarts s \<le> 100 \<and> 1 \<le> PS_StopSeconds s \<and> PS_StopSeconds s \<le> 30)"

lemma normalize_pillow_ok:
  assumes "normalize_pillow digest done s = Inr t"
  shows "probe_ok t \<and> process_ok t
    \<and> (\<forall>p \<in> set (PS_Ports t). PP_Dynamic p \<or> 1 \<le> PP_ContainerPort p \<and> PP_ContainerPort p \<le> 65535)"
proof -
  obtain s2 s3 s4 where s3: "normalize_process s2 = Inr s3" and s4: "normalizePortsAndProbe s3 = Inr s4"
    and t: "t = s4\<lparr>PS_SpecDigest := digest s4\<rparr>"
    using normalize_pillow_InrE [OF assms] .
  have "process_ok s3"
    using normalize_process_idem [OF s3] unfolding normalize_process_fixed process_ok_def by presburger
  moreover obtain ps pr where "s4 = s3\<lparr>PS_Ports := ps, PS_ReadinessProbe := pr\<rparr>"
    using normalizePortsAndProbe_frame [OF s4] by auto
  ultimately have "process_ok t" by (simp add: process_ok_def pillow_command_def t del: insert_iff)
  with normalizePortsAndProbe_ok [OF s4] show ?thesis by (simp add: t probe_ok_def)
qed

lemma owned_ports_snd: "map snd (owned_ports specs) = concat (map PS_Ports specs)"
  by (induction specs) (simp_all add: owned_ports_def comp_def)

text \<open>Normalization of a Bed's pillows is idempotent: a declaration that was accepted is accepted again
  unchanged, with the same digests. Local recovery after a restart and a repeated create, which
  normalize the stored declaration and compare it, therefore never see a spurious change. It holds
  for every digest function.\<close>

theorem Normalize_idempotent:
  assumes "Normalize digest specs = Inr out"
  shows "Normalize digest out = Inr out"
proof -
  have specs: "specs \<noteq> []" and each: "normalize_each (normalize_pillow digest) [] specs = Inr out"
    and ports: "\<exists>u. validateBedPorts out = Inr u"
    using assms by (auto simp: Normalize_def split: if_split_asm)
  have "normalize_each (normalize_pillow digest) [] out = Inr out"
    by (rule pillows.each_idem_perm [OF each refl])
  moreover have "out \<noteq> []"
  proof -
    have "length out = length acc + length xs" if "normalize_each f acc xs = Inr out" for f :: "PillowSpec list \<Rightarrow> PillowSpec \<Rightarrow> (pillow_error, PillowSpec) result" and acc xs
      using that by (induction xs arbitrary: acc) fastforce+
    from this [OF each] specs show ?thesis by auto
  qed
  ultimately show ?thesis using ports by (auto simp: Normalize_def)
qed

definition sample_pillow :: PillowSpec where
  "sample_pillow = empty_pillow\<lparr>PS_Name := ''web'', PS_Command := Some [''serve''],
     PS_Ports := [\<lparr>PP_Name = ''http'', PP_ContainerPort = 80, PP_Protocol = [], PP_Dynamic = False, PP_Publish = True\<rparr>],
     PS_ReadinessProbe := Some \<lparr>PB_HTTPGet = Some \<lparr>HG_Path = [], HG_Port = ''80''\<rparr>, PB_TCPSocket = None,
       PB_InitialDelaySeconds = 0, PB_TimeoutSeconds = 0, PB_PeriodSeconds = 0, PB_SuccessThreshold = 0,
       PB_FailureThreshold = 0\<rparr>\<rparr>"

definition sample_normal :: PillowSpec where
  "sample_normal = sample_pillow\<lparr>PS_Workdir := ''/workspace'', PS_RestartPolicy := ''never'', PS_MaxRestarts := 5,
     PS_StopSeconds := 5, PS_SpecDigest := ''d'',
     PS_Ports := [\<lparr>PP_Name = ''http'', PP_ContainerPort = 80, PP_Protocol = ''TCP'', PP_Dynamic = False, PP_Publish = True\<rparr>],
     PS_ReadinessProbe := Some \<lparr>PB_HTTPGet = Some \<lparr>HG_Path = ''/'', HG_Port = ''http''\<rparr>, PB_TCPSocket = None,
       PB_InitialDelaySeconds = 0, PB_TimeoutSeconds = 1, PB_PeriodSeconds = 10, PB_SuccessThreshold = 1,
       PB_FailureThreshold = 3\<rparr>\<rparr>"

lemma sample_Normalize: "Normalize (\<lambda>_. ''d'') [sample_pillow] = Inr [sample_normal]"
  by code_simp

theorem Normalize_idempotent_witness: "Normalize (\<lambda>_. ''d'') [sample_normal] = Inr [sample_normal]"
  using Normalize_idempotent [OF sample_Normalize] .

text \<open>C20: What an accepted declaration guarantees the rest of the daemon: pillow names are distinct; port
  names are distinct across the whole Bed, and so are the fixed container ports, each in 1..65535;
  a readiness probe names a port of its own pillow, with positive period, timeout and thresholds;
  a pillow with a command has a restart policy of the three known ones, a restart budget of 1 to
  100 and a stop deadline of 1 to 30 seconds.\<close>

theorem Normalize_contract:
  assumes "Normalize digest specs = Inr out"
  shows "distinct (map PS_Name out)
    \<and> distinct (map PP_Name (concat (map PS_Ports out)))
    \<and> distinct (map PP_ContainerPort (filter (\<lambda>p. \<not> PP_Dynamic p) (concat (map PS_Ports out))))
    \<and> (\<forall>s \<in> set out.
         (\<forall>p \<in> set (PS_Ports s). PP_Dynamic p \<or> 1 \<le> PP_ContainerPort p \<and> PP_ContainerPort p \<le> 65535)
       \<and> (\<forall>pb. PS_ReadinessProbe s = Some pb \<longrightarrow> probe_reference pb \<in> PP_Name ` set (PS_Ports s)
            \<and> 0 < PB_TimeoutSeconds pb \<and> 0 < PB_PeriodSeconds pb
            \<and> 0 < PB_SuccessThreshold pb \<and> 0 < PB_FailureThreshold pb)
       \<and> (pillow_command s \<noteq> [] \<longrightarrow> PS_RestartPolicy s \<in> {''never'', ''on-failure'', ''always''}
            \<and> 1 \<le> PS_MaxRestarts s \<and> PS_MaxRestarts s \<le> 100 \<and> 1 \<le> PS_StopSeconds s \<and> PS_StopSeconds s \<le> 30))"
proof -
  have each: "normalize_each (normalize_pillow digest) [] specs = Inr out"
    and ports: "\<exists>u. validate_ports [] [] (owned_ports out) = Inr u"
    using assms by (auto simp: Normalize_def validateBedPorts_def split: if_split_asm)
  have good: "\<forall>s \<in> set out. pillow_good digest s" and "sorted_wrt pillows_compat out"
    using pillows.each_sound_perm [OF each refl] by auto
  then have names: "distinct (map PS_Name out)"
    by (simp add: pillows_compat_def [abs_def] distinct_map_sorted_wrt)
  have "distinct (map PP_Name (map snd (owned_ports out)))"
    and "distinct (map PP_ContainerPort (filter (\<lambda>p. \<not> PP_Dynamic p) (map snd (owned_ports out))))"
    using ports by (auto simp: validate_ports_Inr fixed_ports_def filter_map comp_def)
  moreover have "probe_ok s \<and> process_ok s
      \<and> (\<forall>p \<in> set (PS_Ports s). PP_Dynamic p \<or> 1 \<le> PP_ContainerPort p \<and> PP_ContainerPort p \<le> 65535)"
    if "s \<in> set out" for s
    using good that normalize_pillow_ok [of digest "[]" s s] by (simp add: pillow_good_def)
  ultimately show ?thesis
    using names unfolding owned_ports_snd probe_ok_def process_ok_def by blast
qed

theorem Normalize_contract_witness:
  "probe_reference (the (PS_ReadinessProbe sample_normal)) \<in> PP_Name ` set (PS_Ports sample_normal)"
  using Normalize_contract [OF sample_Normalize] by (simp add: sample_normal_def)

end
