(* ===== verification/Bed_State.thy ===== *)
theory Bed_State
  imports Pillow_Spec
begin

text \<open>
  The state of the Bed Manager (\<open>internal/bed/manager\<close>) and the facts it derives from it.

  Pointers are addresses (\<open>nat\<close>) into heaps that are part of the state, because the code compares
  Beds by pointer: a request may hold a \<open>*managedBed\<close> whose entry in \<open>m.beds\<close> was removed or
  replaced, and \<open>m.beds[b.Name] == b\<close> is what fences it. \<open>M_models\<close> holds the shared \<open>model.Bed\<close>
  objects (identity, spec and lifecycle status), which a managed Bed, an initialization and a local
  identity may share; \<open>M_heap\<close> the \<open>managedBed\<close>s, \<open>M_inits\<close> the \<open>bedInitialization\<close>s, \<open>M_locals\<close> the
  \<open>localIdentity\<close> objects. \<open>M_next\<close> is the next unused address.

  \<open>activitySeq\<close>, a \<open>uint64\<close> that counts activity events, is a natural number: it is only compared for
  equality over one eviction and does not wrap in the life of a Bed. The store-sync request of
  several operations only wakes the store's loop and has no counterpart in the state.
\<close>

section \<open>Data\<close>

datatype LifecyclePhase =
    PhaseUnset | PhaseInitializing | PhaseResident | PhaseEvicting | PhasePurging | PhaseDormant | PhaseFailed

record LifecycleStatus =
  LS_KeepaliveAt :: time
  LS_Phase :: LifecyclePhase
  LS_Ready :: bool
  LS_Reason :: string
  LS_UpdatedAt :: time

datatype OperationKind = OpExec | OpFile | OpBrowser | OpMCP | OpCheckpoint | OpControl | OpPillow

datatype Activity = ActivityActive | ActivityIdle

record StoreStatus =
  ST_SnapshotGeneration :: int
  ST_SnapshotBytes :: int
  ST_LocalBytes :: int

record ModelBed =
  Bed_ID :: string
  Bed_Name :: string
  Bed_Spec :: Spec
  Bed_Lifecycle :: LifecycleStatus
  Bed_Store :: StoreStatus

record Usage =
  US_CmdCount :: int
  US_CmdTotalMs :: int
  US_LastPersistMs :: int
  US_LastRestoreMs :: int

record bedMeta =
  ME_Volumes :: "VolumeSpec list"
  ME_Sync :: SyncKind
  ME_Version :: int
  ME_BedID :: string
  ME_CreatedAt :: time
  ME_LastPersistedAt :: time
  ME_Generation :: int
  ME_SnapshotGeneration :: int
  ME_SnapshotBytes :: int
  ME_LastActiveAt :: time
  ME_Usage :: Usage

record managedBed =
  mb_model :: nat
  mb_local :: nat
  mb_lastActiveAt :: time
  mb_idleTTL :: duration
  mb_inflight :: int
  mb_inflightByKind :: "(OperationKind \<times> int) list"
  mb_activitySeq :: nat
  mb_generation :: int
  mb_persistedAt :: time
  mb_purging :: bool
  mb_shells :: "string list"
  mb_sessions :: "string list"
  mb_usage :: Usage
  mb_runtimeClosed :: bool

datatype bed_error =
    ErrBedUnavailable
  | ErrBedPurging
  | ErrBedLimit
  | ErrResourcePressure string
  | ErrInvalidExpiration
  | ErrNotFound
  | ErrCanceled
  | ErrBecameResident string
  | ErrCleanupPending string
  | ErrInvalidHold
  | ErrInvalidLimit
  | ErrSyncInvalid
  | ErrPolicyConflict
  | ErrPillowsConflict
  | ErrPathsConflict
  | ErrPillows pillow_error
  | ErrPorts
  | ErrInvalidBedID
  | ErrStage string          \<comment> \<open>an error of a stage outside this model, with its text\<close>

record bedInitialization =
  bi_model :: nat
  bi_local :: nat
  bi_startedAt :: time
  bi_cancelled :: bool
  bi_done :: bool
  bi_bed :: "nat option"
  bi_err :: "bed_error option"

record localCleanup =
  lc_running :: bool
  lc_removeRoot :: bool
  lc_err :: "bed_error option"

record localIdentity =
  li_bed :: nat
  li_cleanup :: "localCleanup option"

record Manager =
  M_models :: "nat \<Rightarrow> ModelBed"
  M_heap :: "nat \<Rightarrow> managedBed"
  M_inits :: "nat \<Rightarrow> bedInitialization"
  M_locals :: "nat \<Rightarrow> localIdentity"
  M_next :: nat
  M_root :: string
  M_closed :: bool
  M_maxBeds :: int
  M_maxPinnedBeds :: int
  M_pressurePercent :: int
  M_bedIdleTTL :: duration
  M_pinnedBeds :: int
  M_residentBeds :: int
  M_beds :: "(string \<times> nat) list"
  M_initializations :: "(string \<times> nat) list"
  M_purges :: "(string \<times> nat) list"
  M_retirements :: "(string \<times> nat) list"
  M_localIdentities :: "(string \<times> nat) list"
  M_pillowHolds :: "(string \<times> nat) list"
  M_meta :: "string \<rightharpoonup> bedMeta"     \<comment> \<open>\<open>meta.json\<close> of each Bed directory\<close>

section \<open>Reading and writing the heaps\<close>

abbreviation model_of :: "Manager \<Rightarrow> nat \<Rightarrow> ModelBed" where
  "model_of m b \<equiv> M_models m (mb_model (M_heap m b))"

abbreviation bed_name :: "Manager \<Rightarrow> nat \<Rightarrow> string" where
  "bed_name m b \<equiv> Bed_Name (model_of m b)"

abbreviation bed_spec :: "Manager \<Rightarrow> nat \<Rightarrow> Spec" where
  "bed_spec m b \<equiv> Bed_Spec (model_of m b)"

abbreviation bed_lifecycle :: "Manager \<Rightarrow> nat \<Rightarrow> LifecycleStatus" where
  "bed_lifecycle m b \<equiv> Bed_Lifecycle (model_of m b)"

definition with_bed :: "Manager \<Rightarrow> nat \<Rightarrow> (managedBed \<Rightarrow> managedBed) \<Rightarrow> Manager" where
  "with_bed m b f = m\<lparr>M_heap := (M_heap m)(b := f (M_heap m b))\<rparr>"

definition update_lifecycle :: "Manager \<Rightarrow> nat \<Rightarrow> (LifecycleStatus \<Rightarrow> LifecycleStatus) \<Rightarrow> Manager" where
  "update_lifecycle m p f =
     m\<lparr>M_models := (M_models m)(p := (M_models m p)\<lparr>Bed_Lifecycle := f (Bed_Lifecycle (M_models m p))\<rparr>)\<rparr>"

definition observe_store :: "Manager \<Rightarrow> nat \<Rightarrow> (int \<times> int) option \<Rightarrow> int \<Rightarrow> Manager" where
  "observe_store m p snapshot localBytes =
     m\<lparr>M_models := (M_models m)(p := (M_models m p)\<lparr>Bed_Store :=
       (case snapshot of
          None \<Rightarrow> (Bed_Store (M_models m p))\<lparr>ST_LocalBytes := localBytes\<rparr>
        | Some (g, n) \<Rightarrow> \<lparr> ST_SnapshotGeneration = g, ST_SnapshotBytes = n, ST_LocalBytes = localBytes \<rparr>)\<rparr>)\<rparr>"

definition al_get :: "'k \<Rightarrow> ('k \<times> int) list \<Rightarrow> int" where
  "al_get k m = (case map_of m k of None \<Rightarrow> 0 | Some n \<Rightarrow> n)"

definition is_current :: "Manager \<Rightarrow> nat \<Rightarrow> bool" where
  "is_current m b \<longleftrightarrow> map_of (M_beds m) (bed_name m b) = Some b"

section \<open>Lifecycle status\<close>

definition setLifecycle :: "Manager \<Rightarrow> nat \<Rightarrow> LifecycleStatus \<Rightarrow> Manager" where
  "setLifecycle m p nxt =
     update_lifecycle m p (\<lambda>current. nxt\<lparr>LS_KeepaliveAt := LS_KeepaliveAt current\<rparr>)"

definition keepaliveLocked :: "Manager \<Rightarrow> nat \<Rightarrow> time \<Rightarrow> Manager" where
  "keepaliveLocked m b base =
     update_lifecycle m (mb_model (M_heap m b))
       (\<lambda>s. if base > LS_KeepaliveAt s then s\<lparr>LS_KeepaliveAt := base\<rparr> else s)"

definition retentionDeadline :: "time \<Rightarrow> duration \<Rightarrow> time" where
  "retentionDeadline base ttl = (if ttl \<le> 0 \<or> base = zero_time then zero_time else base + ttl)"

definition retainedUntilLocked :: "Manager \<Rightarrow> nat \<Rightarrow> time" where
  "retainedUntilLocked m b = retentionDeadline (LS_KeepaliveAt (bed_lifecycle m b)) (mb_idleTTL (M_heap m b))"

definition lifecycle_status :: "LifecyclePhase \<Rightarrow> bool \<Rightarrow> string \<Rightarrow> time \<Rightarrow> LifecycleStatus" where
  "lifecycle_status phase ready reason now =
     \<lparr> LS_KeepaliveAt = zero_time, LS_Phase = phase, LS_Ready = ready, LS_Reason = reason, LS_UpdatedAt = now \<rparr>"

section \<open>Derived facts of one Bed\<close>

definition activityLocked :: "managedBed \<Rightarrow> Activity" where
  "activityLocked b = (if mb_inflight b > 0 then ActivityActive else ActivityIdle)"

definition dataSyncedLocked :: "Manager \<Rightarrow> nat \<Rightarrow> bool" where
  "dataSyncedLocked m b \<longleftrightarrow>
     SP_StoreKind (bed_spec m b) = SyncNoop \<or> \<not> mb_lastActiveAt (M_heap m b) > mb_persistedAt (M_heap m b)"

definition pinnedLocked :: "Manager \<Rightarrow> nat \<Rightarrow> bool" where
  "pinnedLocked m b \<longleftrightarrow> mb_inflight (M_heap m b) > 0 \<or> \<not> dataSyncedLocked m b"

definition estimatedRestoreBytes :: "int \<Rightarrow> int \<Rightarrow> int \<Rightarrow> bool \<Rightarrow> int" where
  "estimatedRestoreBytes generation snapshotGeneration snapshotBytes dataSynced =
     (if snapshotBytes \<le> 0 \<or> dataSynced \<and> generation \<ge> snapshotGeneration then 0 else snapshotBytes)"

definition RecordCommand :: "Manager \<Rightarrow> nat \<Rightarrow> int \<Rightarrow> Manager" where
  "RecordCommand m b ms = with_bed m b (\<lambda>r. r\<lparr>mb_usage :=
     (mb_usage r)\<lparr>US_CmdCount := US_CmdCount (mb_usage r) + 1, US_CmdTotalMs := US_CmdTotalMs (mb_usage r) + ms\<rparr>\<rparr>)"

section \<open>Capacity\<close>

definition adjustPinnedLocked :: "Manager \<Rightarrow> nat \<Rightarrow> bool \<Rightarrow> Manager" where
  "adjustPinnedLocked m b wasPinned =
     (let isPinned = pinnedLocked m b in
      if \<not> wasPinned \<and> isPinned then m\<lparr>M_pinnedBeds := M_pinnedBeds m + 1\<rparr>
      else if wasPinned \<and> \<not> isPinned then m\<lparr>M_pinnedBeds := M_pinnedBeds m - 1\<rparr>
      else m)"

definition touchLocked :: "Manager \<Rightarrow> nat \<Rightarrow> time \<Rightarrow> Manager" where
  "touchLocked m b now =
     keepaliveLocked (with_bed m b (\<lambda>r. r\<lparr>mb_lastActiveAt := now, mb_activitySeq := mb_activitySeq r + 1\<rparr>)) b now"

definition SetMaxPinnedBeds :: "Manager \<Rightarrow> int \<Rightarrow> Manager \<times> (bed_error, unit) result" where
  "SetMaxPinnedBeds m n =
     (if n < 0 then (m, Inl ErrInvalidLimit)
      else (m\<lparr>M_maxPinnedBeds := (if n = 0 then M_maxBeds m else n)\<rparr>, Inr ()))"

definition SetBedPressureThresholdPercent :: "Manager \<Rightarrow> int \<Rightarrow> Manager \<times> (bed_error, unit) result" where
  "SetBedPressureThresholdPercent m percent =
     (if percent < 0 \<or> percent > 100 then (m, Inl ErrInvalidLimit)
      else (m\<lparr>M_pressurePercent := percent\<rparr>, Inr ()))"

text \<open>Go's integer division truncates; both operands are positive here.\<close>

definition bedPressureThreshold :: "int \<Rightarrow> int \<Rightarrow> int" where
  "bedPressureThreshold limit percent =
     (if limit \<le> 0 \<or> percent \<le> 0 then 0 else (limit * percent + 99) div 100)"

definition bedPressureForCounts :: "Manager \<Rightarrow> int \<Rightarrow> int \<Rightarrow> bool" where
  "bedPressureForCounts m occupied pinned =
     (if M_pressurePercent m \<le> 0 then False
      else
        let pinnedThreshold = bedPressureThreshold (M_maxPinnedBeds m) (M_pressurePercent m) in
        if pinnedThreshold > 0 \<and> pinned \<ge> pinnedThreshold then True
        else
          let occupiedThreshold = bedPressureThreshold (M_maxBeds m) (M_pressurePercent m) in
          occupiedThreshold > 0 \<and> occupied \<ge> occupiedThreshold)"

definition init_phase :: "Manager \<Rightarrow> nat \<Rightarrow> LifecyclePhase" where
  "init_phase m i = LS_Phase (Bed_Lifecycle (M_models m (bi_model (M_inits m i))))"

definition init_name :: "Manager \<Rightarrow> nat \<Rightarrow> string" where
  "init_name m i = Bed_Name (M_models m (bi_model (M_inits m i)))"

definition occupying_inits :: "Manager \<Rightarrow> (string \<times> nat) list" where
  "occupying_inits m = filter (\<lambda>(id, i). map_of (M_retirements m) id = None \<and> init_phase m i = PhaseInitializing)
     (M_initializations m)"

definition occupiedBedsLocked :: "Manager \<Rightarrow> int" where
  "occupiedBedsLocked m =
     int (length (M_beds m)) + int (length (M_retirements m)) + int (length (occupying_inits m))"

definition BedPressure :: "Manager \<Rightarrow> bool" where
  "BedPressure m = bedPressureForCounts m (occupiedBedsLocked m) (M_pinnedBeds m)"

text \<open>The carrier's admission decision at the time of the call: allowed, or the reason against.\<close>

type_synonym decision = "string option"

definition resourceAdmissionErrorLocked :: "decision \<Rightarrow> (bed_error, unit) result" where
  "resourceAdmissionErrorLocked d = (case d of None \<Rightarrow> Inr () | Some reason \<Rightarrow> Inl (ErrResourcePressure reason))"

definition pinned_count :: "Manager \<Rightarrow> int" where
  "pinned_count m = int (length (filter (\<lambda>(id, b). pinnedLocked m b) (M_beds m)))"

section \<open>Framing\<close>

named_theorems bed_frame \<open>what the small updates leave unchanged\<close>

lemma with_bed_sel [bed_frame, simp]:
  "M_models (with_bed m b f) = M_models m" "M_inits (with_bed m b f) = M_inits m"
  "M_locals (with_bed m b f) = M_locals m" "M_next (with_bed m b f) = M_next m"
  "M_closed (with_bed m b f) = M_closed m" "M_maxBeds (with_bed m b f) = M_maxBeds m"
  "M_maxPinnedBeds (with_bed m b f) = M_maxPinnedBeds m" "M_pressurePercent (with_bed m b f) = M_pressurePercent m"
  "M_bedIdleTTL (with_bed m b f) = M_bedIdleTTL m" "M_pinnedBeds (with_bed m b f) = M_pinnedBeds m"
  "M_residentBeds (with_bed m b f) = M_residentBeds m" "M_beds (with_bed m b f) = M_beds m"
  "M_initializations (with_bed m b f) = M_initializations m" "M_purges (with_bed m b f) = M_purges m"
  "M_retirements (with_bed m b f) = M_retirements m" "M_localIdentities (with_bed m b f) = M_localIdentities m"
  "M_pillowHolds (with_bed m b f) = M_pillowHolds m" "M_meta (with_bed m b f) = M_meta m"
  "M_root (with_bed m b f) = M_root m"
  "M_heap (with_bed m b f) = (M_heap m)(b := f (M_heap m b))"
  by (simp_all add: with_bed_def)

lemma update_lifecycle_sel [bed_frame, simp]:
  "M_heap (update_lifecycle m p f) = M_heap m" "M_inits (update_lifecycle m p f) = M_inits m"
  "M_locals (update_lifecycle m p f) = M_locals m" "M_next (update_lifecycle m p f) = M_next m"
  "M_closed (update_lifecycle m p f) = M_closed m" "M_maxBeds (update_lifecycle m p f) = M_maxBeds m"
  "M_maxPinnedBeds (update_lifecycle m p f) = M_maxPinnedBeds m"
  "M_pressurePercent (update_lifecycle m p f) = M_pressurePercent m"
  "M_bedIdleTTL (update_lifecycle m p f) = M_bedIdleTTL m" "M_pinnedBeds (update_lifecycle m p f) = M_pinnedBeds m"
  "M_residentBeds (update_lifecycle m p f) = M_residentBeds m" "M_beds (update_lifecycle m p f) = M_beds m"
  "M_initializations (update_lifecycle m p f) = M_initializations m" "M_purges (update_lifecycle m p f) = M_purges m"
  "M_retirements (update_lifecycle m p f) = M_retirements m"
  "M_localIdentities (update_lifecycle m p f) = M_localIdentities m"
  "M_pillowHolds (update_lifecycle m p f) = M_pillowHolds m" "M_meta (update_lifecycle m p f) = M_meta m"
  "M_root (update_lifecycle m p f) = M_root m"
  by (simp_all add: update_lifecycle_def)

lemma update_lifecycle_model [simp]:
  "Bed_Name (M_models (update_lifecycle m p f) q) = Bed_Name (M_models m q)"
  "Bed_ID (M_models (update_lifecycle m p f) q) = Bed_ID (M_models m q)"
  "Bed_Spec (M_models (update_lifecycle m p f) q) = Bed_Spec (M_models m q)"
  "Bed_Lifecycle (M_models (update_lifecycle m p f) q) =
     (if q = p then f (Bed_Lifecycle (M_models m p)) else Bed_Lifecycle (M_models m q))"
  by (simp_all add: update_lifecycle_def)

lemma observe_store_sel [bed_frame, simp]:
  "M_heap (observe_store m p sn n) = M_heap m" "M_inits (observe_store m p sn n) = M_inits m"
  "M_locals (observe_store m p sn n) = M_locals m" "M_next (observe_store m p sn n) = M_next m"
  "M_closed (observe_store m p sn n) = M_closed m" "M_maxBeds (observe_store m p sn n) = M_maxBeds m"
  "M_pinnedBeds (observe_store m p sn n) = M_pinnedBeds m" "M_residentBeds (observe_store m p sn n) = M_residentBeds m"
  "M_beds (observe_store m p sn n) = M_beds m" "M_initializations (observe_store m p sn n) = M_initializations m"
  "M_purges (observe_store m p sn n) = M_purges m" "M_retirements (observe_store m p sn n) = M_retirements m"
  "M_localIdentities (observe_store m p sn n) = M_localIdentities m"
  "M_pillowHolds (observe_store m p sn n) = M_pillowHolds m" "M_meta (observe_store m p sn n) = M_meta m"
  "M_root (observe_store m p sn n) = M_root m"
  "Bed_Name (M_models (observe_store m p sn n) q) = Bed_Name (M_models m q)"
  "Bed_Spec (M_models (observe_store m p sn n) q) = Bed_Spec (M_models m q)"
  "Bed_Lifecycle (M_models (observe_store m p sn n) q) = Bed_Lifecycle (M_models m q)"
  by (simp_all add: observe_store_def)

lemma adjustPinned_sel [bed_frame, simp]:
  "M_models (adjustPinnedLocked m b w) = M_models m" "M_heap (adjustPinnedLocked m b w) = M_heap m"
  "M_inits (adjustPinnedLocked m b w) = M_inits m" "M_locals (adjustPinnedLocked m b w) = M_locals m"
  "M_next (adjustPinnedLocked m b w) = M_next m" "M_closed (adjustPinnedLocked m b w) = M_closed m"
  "M_maxBeds (adjustPinnedLocked m b w) = M_maxBeds m" "M_residentBeds (adjustPinnedLocked m b w) = M_residentBeds m"
  "M_beds (adjustPinnedLocked m b w) = M_beds m" "M_initializations (adjustPinnedLocked m b w) = M_initializations m"
  "M_purges (adjustPinnedLocked m b w) = M_purges m" "M_retirements (adjustPinnedLocked m b w) = M_retirements m"
  "M_localIdentities (adjustPinnedLocked m b w) = M_localIdentities m"
  "M_pillowHolds (adjustPinnedLocked m b w) = M_pillowHolds m" "M_meta (adjustPinnedLocked m b w) = M_meta m"
  "M_root (adjustPinnedLocked m b w) = M_root m"
  by (simp_all add: adjustPinnedLocked_def Let_def)

lemma pinned_cong:
  "M_heap m' b = M_heap m b \<Longrightarrow> Bed_Spec (M_models m' (mb_model (M_heap m b))) = bed_spec m b
     \<Longrightarrow> pinnedLocked m' b = pinnedLocked m b"
  by (simp add: pinnedLocked_def dataSyncedLocked_def)

lemma pinned_update_lifecycle [simp]: "pinnedLocked (update_lifecycle m p f) b = pinnedLocked m b"
  by (rule pinned_cong) simp_all

lemma pinned_observe_store [simp]: "pinnedLocked (observe_store m p sn n) b = pinnedLocked m b"
  by (rule pinned_cong) simp_all

lemma pinned_adjust [simp]: "pinnedLocked (adjustPinnedLocked m b w) c = pinnedLocked m c"
  by (rule pinned_cong) simp_all

lemma adjust_count:
  "M_pinnedBeds (adjustPinnedLocked m b w) =
     M_pinnedBeds m + of_bool (pinnedLocked m b) - of_bool w"
  by (auto simp: adjustPinnedLocked_def Let_def)

end
