(* ===== verification/Bed_Operations.thy ===== *)
theory Bed_Operations
  imports Bed_State
begin

text \<open>
  Admission of work on a resident Bed: operations (\<open>operation.go\<close>), sessions (\<open>session.go\<close>), explicit
  renewal (\<open>renew.go\<close>) and pillow holds (\<open>pillows.go\<close>), each one critical section under \<open>m.mu\<close> and
  \<open>b.mu\<close>. The clock reading of a call is the argument \<open>now\<close>; the carrier's admission decision is the
  argument \<open>d\<close> (\<open>None\<close> when allowed), random identifiers are arguments. The closure that
  \<open>BeginOperation\<close> returns is \<open>finishOperation\<close>; that it runs once is part of the step relation of the
  manager.
\<close>

section \<open>Operations\<close>

definition DefaultOperationTimeout :: duration where
  "DefaultOperationTimeout = 5 * 60 * 1000000000"

definition MaxOperationTimeout :: duration where
  "MaxOperationTimeout = 2 * 3600 * 1000000000"

definition clamp_timeout :: "duration \<Rightarrow> duration" where
  "clamp_timeout timeout =
     (let t = (if timeout \<le> 0 then DefaultOperationTimeout else timeout) in
      if t > MaxOperationTimeout then MaxOperationTimeout else t)"

definition touchBed :: "Manager \<Rightarrow> nat \<Rightarrow> time \<Rightarrow> Manager" where
  "touchBed m b now =
     (if is_current m b then adjustPinnedLocked (touchLocked m b now) b (pinnedLocked m b) else m)"

definition start_operation :: "OperationKind \<Rightarrow> time \<Rightarrow> managedBed \<Rightarrow> managedBed" where
  "start_operation kind now r =
     r\<lparr>mb_lastActiveAt := now, mb_activitySeq := mb_activitySeq r + 1, mb_inflight := mb_inflight r + 1,
       mb_inflightByKind := al_put kind (al_get kind (mb_inflightByKind r) + 1) (mb_inflightByKind r)\<rparr>"

definition BeginOperation ::
  "Manager \<Rightarrow> nat \<Rightarrow> OperationKind \<Rightarrow> duration \<Rightarrow> time \<Rightarrow> decision \<Rightarrow> Manager \<times> (bed_error, unit) result" where
  "BeginOperation m b kind timeout now d =
     (let timeout = clamp_timeout timeout in
      if \<not> is_current m b \<or> M_closed m then (m, Inl ErrBedUnavailable)
      else if LS_Phase (bed_lifecycle m b) \<noteq> PhaseResident then (m, Inl ErrBedUnavailable)
      else if HasMainProcesses (bed_spec m b) \<and> \<not> LS_Ready (bed_lifecycle m b) \<and> kind \<noteq> OpControl
      then (m, Inl ErrBedUnavailable)
      else
        let wasPinned = pinnedLocked m b in
        case (if wasPinned then Inr () else resourceAdmissionErrorLocked d) of
          Inl e \<Rightarrow> (m, Inl e)
        | Inr _ \<Rightarrow>
            let m1 = with_bed m b (start_operation kind now);
                m2 = adjustPinnedLocked m1 b wasPinned
            in (keepaliveLocked m2 b (now + timeout), Inr ()))"

definition end_operation :: "OperationKind \<Rightarrow> time \<Rightarrow> managedBed \<Rightarrow> managedBed" where
  "end_operation kind now r =
     (let r1 = r\<lparr>mb_inflight := (if mb_inflight r > 0 then mb_inflight r - 1 else mb_inflight r)\<rparr>;
          n = al_get kind (mb_inflightByKind r1);
          r2 = r1\<lparr>mb_inflightByKind := (if n > 1 then al_put kind (n - 1) (mb_inflightByKind r1)
                                        else al_del kind (mb_inflightByKind r1))\<rparr>
      in if kind \<noteq> OpCheckpoint
         then r2\<lparr>mb_lastActiveAt := now, mb_activitySeq := mb_activitySeq r2 + 1\<rparr> else r2)"

definition finishOperation :: "Manager \<Rightarrow> nat \<Rightarrow> OperationKind \<Rightarrow> time \<Rightarrow> Manager" where
  "finishOperation m b kind now =
     (let wasPinned = pinnedLocked m b;
          m1 = keepaliveLocked (with_bed m b (end_operation kind now)) b now
      in if is_current m1 b then adjustPinnedLocked m1 b wasPinned else m1)"

section \<open>Sessions\<close>

definition OpenSession ::
  "Manager \<Rightarrow> nat \<Rightarrow> string \<Rightarrow> time \<Rightarrow> decision \<Rightarrow> Manager \<times> (bed_error, unit) result" where
  "OpenSession m b sid now d =
     (if \<not> is_current m b \<or> M_closed m then (m, Inl ErrBedUnavailable)
      else if HasMainProcesses (bed_spec m b)
           \<and> (LS_Phase (bed_lifecycle m b) \<noteq> PhaseResident \<or> \<not> LS_Ready (bed_lifecycle m b))
      then (m, Inl ErrBedUnavailable)
      else
        let wasPinned = pinnedLocked m b in
        case (if wasPinned then Inr () else resourceAdmissionErrorLocked d) of
          Inl e \<Rightarrow> (m, Inl e)
        | Inr _ \<Rightarrow>
            let m1 = with_bed (touchLocked m b now) b (\<lambda>r. r\<lparr>mb_sessions := List.insert sid (mb_sessions r)\<rparr>)
            in (adjustPinnedLocked m1 b wasPinned, Inr ()))"

definition CloseSession :: "Manager \<Rightarrow> nat \<Rightarrow> string \<Rightarrow> Manager" where
  "CloseSession m b sid = with_bed m b (\<lambda>r. r\<lparr>mb_sessions := removeAll sid (mb_sessions r)\<rparr>)"

text \<open>\<open>revokeSessions\<close> empties the table of shells and returns the sessions it cancels; each session
  leaves \<open>b.sessions\<close> by its own \<open>Close\<close>.\<close>

definition revokeSessions :: "Manager \<Rightarrow> nat \<Rightarrow> Manager \<times> string list \<times> string list" where
  "revokeSessions m b =
     (with_bed m b (\<lambda>r. r\<lparr>mb_shells := []\<rparr>), mb_shells (M_heap m b), mb_sessions (M_heap m b))"

section \<open>Renewal\<close>

definition year_10000 :: time where
  "year_10000 = 3652059 * 86400 * 1000000000"

definition RenewExpiration ::
  "Manager \<Rightarrow> nat option \<Rightarrow> time option \<Rightarrow> time \<Rightarrow> Manager \<times> (bed_error, time) result" where
  "RenewExpiration m bo expiresAt now =
     (case bo of
        None \<Rightarrow> (m, Inl ErrBedUnavailable)
      | Some b \<Rightarrow>
          if M_closed m \<or> \<not> is_current m b \<or> mb_purging (M_heap m b)
             \<or> LS_Phase (bed_lifecycle m b) \<noteq> PhaseResident
          then (m, Inl ErrBedUnavailable)
          else if (case expiresAt of None \<Rightarrow> False | Some e \<Rightarrow> \<not> e > now \<or> e \<ge> year_10000)
          then (m, Inl ErrInvalidExpiration)
          else
            let base = (case expiresAt of
                          Some e \<Rightarrow> if mb_idleTTL (M_heap m b) > 0 then e - mb_idleTTL (M_heap m b) else now
                        | None \<Rightarrow> now);
                m1 = keepaliveLocked m b base
            in (m1, Inr (retainedUntilLocked m1 b)))"

section \<open>Pillow holds\<close>

definition HoldPillow ::
  "Manager \<Rightarrow> nat \<Rightarrow> string \<Rightarrow> duration \<Rightarrow> time \<Rightarrow> decision \<Rightarrow> Manager \<times> (bed_error, string \<times> time) result" where
  "HoldPillow m b hold duration now d =
     (if duration \<le> 0 \<or> duration > MaxOperationTimeout then (m, Inl ErrInvalidHold)
      else case BeginOperation m b OpPillow duration now d of
        (m1, Inl e) \<Rightarrow> (m1, Inl e)
      | (m1, Inr _) \<Rightarrow> (m1\<lparr>M_pillowHolds := al_put hold b (M_pillowHolds m1)\<rparr>, Inr (hold, now + duration)))"

definition finishHold :: "Manager \<Rightarrow> string \<Rightarrow> time \<Rightarrow> Manager" where
  "finishHold m hold now =
     (case map_of (M_pillowHolds m) hold of
        None \<Rightarrow> m
      | Some b \<Rightarrow> finishOperation (m\<lparr>M_pillowHolds := al_del hold (M_pillowHolds m)\<rparr>) b OpPillow now)"

definition ReleasePillowHold :: "Manager \<Rightarrow> nat \<Rightarrow> string \<Rightarrow> time \<Rightarrow> Manager" where
  "ReleasePillowHold m b hold now = (if map_of (M_pillowHolds m) hold = Some b then finishHold m hold now else m)"

section \<open>Effect of keepalive\<close>

lemma keepalive_sel [bed_frame, simp]:
  "M_heap (keepaliveLocked m b t) = M_heap m" "M_beds (keepaliveLocked m b t) = M_beds m"
  "M_closed (keepaliveLocked m b t) = M_closed m" "M_pinnedBeds (keepaliveLocked m b t) = M_pinnedBeds m"
  "M_residentBeds (keepaliveLocked m b t) = M_residentBeds m" "M_inits (keepaliveLocked m b t) = M_inits m"
  "M_locals (keepaliveLocked m b t) = M_locals m" "M_next (keepaliveLocked m b t) = M_next m"
  "M_maxBeds (keepaliveLocked m b t) = M_maxBeds m" "M_initializations (keepaliveLocked m b t) = M_initializations m"
  "M_purges (keepaliveLocked m b t) = M_purges m" "M_retirements (keepaliveLocked m b t) = M_retirements m"
  "M_localIdentities (keepaliveLocked m b t) = M_localIdentities m"
  "M_pillowHolds (keepaliveLocked m b t) = M_pillowHolds m" "M_meta (keepaliveLocked m b t) = M_meta m"
  "M_root (keepaliveLocked m b t) = M_root m"
  "Bed_Name (M_models (keepaliveLocked m b t) q) = Bed_Name (M_models m q)"
  "Bed_Spec (M_models (keepaliveLocked m b t) q) = Bed_Spec (M_models m q)"
  "LS_Phase (Bed_Lifecycle (M_models (keepaliveLocked m b t) q)) = LS_Phase (Bed_Lifecycle (M_models m q))"
  "LS_Ready (Bed_Lifecycle (M_models (keepaliveLocked m b t) q)) = LS_Ready (Bed_Lifecycle (M_models m q))"
  "pinnedLocked (keepaliveLocked m b t) c = pinnedLocked m c"
  "is_current (keepaliveLocked m b t) c = is_current m c"
  by (simp_all add: keepaliveLocked_def is_current_def)

lemma keepalive_at:
  "LS_KeepaliveAt (Bed_Lifecycle (M_models (keepaliveLocked m b t) q)) =
     (if q = mb_model (M_heap m b) then max (LS_KeepaliveAt (bed_lifecycle m b)) t
      else LS_KeepaliveAt (Bed_Lifecycle (M_models m q)))"
  by (auto simp: keepaliveLocked_def)

lemma is_current_adjust [simp]: "is_current (adjustPinnedLocked m b w) c = is_current m c"
  by (simp add: is_current_def)

lemma BeginOperation_cases:
  obtains (refused) e where "BeginOperation m b kind timeout now d = (m, Inl e)"
  | (admitted) "is_current m b" "\<not> M_closed m" "LS_Phase (bed_lifecycle m b) = PhaseResident"
      "HasMainProcesses (bed_spec m b) \<longrightarrow> LS_Ready (bed_lifecycle m b) \<or> kind = OpControl"
      "pinnedLocked m b \<or> d = None"
      "BeginOperation m b kind timeout now d =
         (keepaliveLocked (adjustPinnedLocked (with_bed m b (start_operation kind now)) b (pinnedLocked m b)) b
            (now + clamp_timeout timeout), Inr ())"
proof (cases "snd (BeginOperation m b kind timeout now d)")
  case (Inl e)
  then have "BeginOperation m b kind timeout now d = (m, Inl e)"
    by (auto simp: BeginOperation_def Let_def split: if_splits sum.splits)
  then show ?thesis by (rule that(1))
next
  case (Inr u)
  then show ?thesis
    by (intro that(2))
      (auto simp: BeginOperation_def Let_def resourceAdmissionErrorLocked_def split: if_splits sum.splits option.splits)
qed

lemma OpenSession_cases:
  obtains (refused) e where "OpenSession m b sid now d = (m, Inl e)"
  | (admitted) "is_current m b" "\<not> M_closed m" "pinnedLocked m b \<or> d = None"
      "OpenSession m b sid now d =
         (adjustPinnedLocked (with_bed (touchLocked m b now) b
            (\<lambda>r. r\<lparr>mb_sessions := List.insert sid (mb_sessions r)\<rparr>)) b (pinnedLocked m b), Inr ())"
proof (cases "snd (OpenSession m b sid now d)")
  case (Inl e)
  then have "OpenSession m b sid now d = (m, Inl e)"
    by (auto simp: OpenSession_def Let_def split: if_splits sum.splits)
  then show ?thesis by (rule that(1))
next
  case (Inr u)
  then show ?thesis
    by (intro that(2))
      (auto simp: OpenSession_def Let_def resourceAdmissionErrorLocked_def split: if_splits sum.splits option.splits)
qed

end
