(* ===== verification/Bed_Names.thy ===== *)
theory Bed_Names
  imports Go_Path
begin

text \<open>
  UTF-8 as the Go package \<open>unicode/utf8\<close> decodes it, and the names of Beds (\<open>validBedID\<close> of \<open>src/internal/bed/manager/shell.go\<close>). A valid name is one
  plain path component, so a path built from it stays where it was meant to be.
\<close>

section \<open>UTF-8\<close>

text \<open>\<open>utf8.DecodeRune\<close>: the code point and its length in bytes; an invalid byte is U+FFFD.\<close>

definition rune_length :: "nat \<Rightarrow> nat" where
  "rune_length b = (if 0xC2 \<le> b \<and> b \<le> 0xDF then 2 else if 0xE0 \<le> b \<and> b \<le> 0xEF then 3 else if 0xF0 \<le> b \<and> b \<le> 0xF4 then 4 else 1)"

definition second_range :: "nat \<Rightarrow> nat \<times> nat" where
  "second_range b = (if b = 0xE0 then (0xA0, 0xBF) else if b = 0xED then (0x80, 0x9F) else if b = 0xF0 then (0x90, 0xBF)
     else if b = 0xF4 then (0x80, 0x8F) else (0x80, 0xBF))"

definition decode_rune :: "string \<Rightarrow> nat \<times> nat" where
  "decode_rune s =
     (case map of_char s :: nat list of
        [] \<Rightarrow> (0xFFFD, 0)
      | b # bs \<Rightarrow>
          if b < 0x80 then (b, 1)
          else let n = rune_length b; rest = take (n - 1) bs in
            if n = 1 \<or> length rest < n - 1 \<or> \<not> (fst (second_range b) \<le> hd rest \<and> hd rest \<le> snd (second_range b))
               \<or> \<not> list_all (\<lambda>c. 0x80 \<le> c \<and> c \<le> 0xBF) (tl rest)
            then (0xFFFD, 1)
            else (foldl (\<lambda>a c. a * 64 + c mod 64) (b mod 2 ^ (7 - n)) rest, n))"

function runes :: "string \<Rightarrow> nat list" where
  "runes s = (if s = [] then [] else fst (decode_rune s) # runes (drop (max 1 (snd (decode_rune s))) s))"
  by pat_completeness auto

termination
  by (relation "measure length") (auto simp: max_def)

declare runes.simps [simp del]

text \<open>\<open>utf8.ValidString\<close>\<close>

function valid_utf8 :: "string \<Rightarrow> bool" where
  "valid_utf8 s = (if s = [] then True else decode_rune s \<noteq> (0xFFFD, 1) \<and> valid_utf8 (drop (max 1 (snd (decode_rune s))) s))"
  by pat_completeness auto

termination
  by (relation "measure length") (auto simp: max_def)

declare valid_utf8.simps [simp del]

section \<open>Names of Beds\<close>

text \<open>\<open>letter_or_number\<close>: the Unicode classes \<open>L\<close> and \<open>N\<close>. Their tables for code points outside ASCII are the argument \<open>uni\<close>; U+FFFD is in neither.\<close>

definition letter_or_number :: "(nat \<Rightarrow> bool) \<Rightarrow> nat \<Rightarrow> bool" where
  "letter_or_number uni c =
     (if c < 128 then 48 \<le> c \<and> c \<le> 57 \<or> 65 \<le> c \<and> c \<le> 90 \<or> 97 \<le> c \<and> c \<le> 122 else c \<noteq> 0xFFFD \<and> uni c)"

definition validBedID :: "(nat \<Rightarrow> bool) \<Rightarrow> string \<Rightarrow> bool" where
  "validBedID uni name =
     (length name \<le> 128 \<and>
      (case runes name of
         [] \<Rightarrow> False
       | c # cs \<Rightarrow> letter_or_number uni c \<and> length cs \<le> 127
           \<and> list_all (\<lambda>c. letter_or_number uni c \<or> c = of_char (CHR ''.'') \<or> c = of_char (CHR ''_'') \<or> c = of_char (CHR ''-'')) cs))"

lemma validBedID_no_dot: "validBedID uni (CHR ''.'' # s) \<Longrightarrow> False"
  by (simp add: validBedID_def runes.simps [of "CHR ''.'' # s"] decode_rune_def letter_or_number_def)

text \<open>A byte below 0x80 is never inside a longer sequence.\<close>

lemma rune_ascii:
  assumes "s \<noteq> []" and "c \<in> set (take (max 1 (snd (decode_rune s))) s)" and "of_char c < (0x80 :: nat)"
  shows "fst (decode_rune s) = of_char c"
proof (cases s)
  case Nil
  then show ?thesis using assms(1) by simp
next
  case (Cons x xs)
  let ?b = "of_char x :: nat" let ?n = "rune_length ?b" let ?rest = "take (?n - 1) (map of_char xs) :: nat list"
  show ?thesis
  proof (cases "?b < 0x80")
    case True
    then show ?thesis using assms(2) Cons by (simp add: decode_rune_def)
  next
    case False
    let ?bad = "?n = 1 \<or> length ?rest < ?n - 1 \<or> \<not> (fst (second_range ?b) \<le> hd ?rest \<and> hd ?rest \<le> snd (second_range ?b))
      \<or> \<not> list_all (\<lambda>c. 0x80 \<le> c \<and> c \<le> 0xBF) (tl ?rest)"
    have "\<not> ?bad" and w: "snd (decode_rune s) = ?n"
    proof -
      show "\<not> ?bad"
      proof
        assume ?bad
        then have "decode_rune s = (0xFFFD, 1)" using False Cons by (simp add: decode_rune_def Let_def)
        then show False using assms(2,3) Cons False by simp
      qed
      then show "snd (decode_rune s) = ?n" using False Cons by (simp add: decode_rune_def Let_def)
    qed
    then have n: "?n \<noteq> 1" "length ?rest = ?n - 1" "0x80 \<le> hd ?rest" "list_all (\<lambda>c. 0x80 \<le> c) (tl ?rest)"
      by (auto simp: second_range_def list_all_iff split: if_splits)
    have "?n \<ge> 1" by (simp add: rune_length_def)
    then have "take (max 1 ?n) s = x # take (?n - 1) xs" using Cons n(1) by (cases ?n) (auto simp: max_def)
    then consider "c = x" | "of_char c \<in> set ?rest" using assms(2) w by (auto simp: take_map)
    then have "(0x80 :: nat) \<le> of_char c"
    proof cases
      case 2
      then have "of_char c = hd ?rest \<or> of_char c \<in> set (tl ?rest)" by (metis empty_iff empty_set hd_Cons_tl set_ConsD)
      then show ?thesis using n(3,4) unfolding list_all_iff by metis
    qed (use False in simp)
    then show ?thesis using assms(3) by simp
  qed
qed

lemma runes_ascii: "c \<in> set s \<Longrightarrow> of_char c < (0x80 :: nat) \<Longrightarrow> of_char c \<in> set (runes s)"
proof (induction s rule: runes.induct)
  case (1 s)
  let ?w = "max 1 (snd (decode_rune s))"
  have s: "s \<noteq> []" using 1(2) by auto
  have "set s = set (take ?w s) \<union> set (drop ?w s)" by (metis append_take_drop_id set_append)
  then consider "c \<in> set (take ?w s)" | "c \<in> set (drop ?w s)" using 1(2) by auto
  then show ?case
  proof cases
    case 1
    then show ?thesis using rune_ascii [OF s 1] \<open>of_char c < 0x80\<close> s by (simp add: runes.simps [of s])
  next
    case 2
    then show ?thesis using "1.IH" [OF s 2] 1(3) s by (simp add: runes.simps [of s])
  qed
qed

lemma validBedID_plain: "validBedID uni name \<Longrightarrow> plain_component name"
proof -
  assume v: "validBedID uni name"
  then have ne: "name \<noteq> []" by (auto simp: validBedID_def runes.simps)
  have "slash \<notin> set name"
  proof
    assume "slash \<in> set name"
    then have "(47 :: nat) \<in> set (runes name)" using runes_ascii [of slash name] by simp
    then show False using v by (auto simp: validBedID_def letter_or_number_def list_all_iff split: list.splits)
  qed
  moreover have "name \<noteq> ''.''" "name \<noteq> ''..''" using v validBedID_no_dot by auto
  ultimately show ?thesis using ne by (simp add: plain_component_def)
qed

end
