(* ===== verification/Bed_Persistence.thy ===== *)
theory Bed_Persistence
  imports Bed_Operations Bed_Names
begin

text \<open>
  Durability and retirement of a resident Bed: \<open>persistBed\<close>, \<open>Checkpoint\<close>, \<open>persistDirty\<close>, \<open>CollectExpired\<close>,
  \<open>evict\<close> and \<open>finishRetirement\<close> (\<open>manager.go\<close>), \<open>evictResidentBed\<close> (\<open>eviction.go\<close>), the eviction fence
  (\<open>lifecycle_state.go\<close>), \<open>teardown\<close> (\<open>component_lifecycle.go\<close>) and the readiness update of \<open>pillows.go\<close>.

  A function that does slow work between critical sections is given twice: its critical sections
  are definitions of their own (\<open>persist_prepare\<close>, \<open>persist_commit\<close>, \<open>evict_commit\<close>, \<open>evict_resume\<close>), which
  the step relation of the manager interleaves with other requests, and their composition
  (\<open>persistBed\<close>, \<open>evictResidentBed\<close>) is the function itself, without interleaving. What the stages
  outside this model return (uploads, stopping pillows, deleting trees) is the argument \<open>oc\<close>.
\<close>

section \<open>Persisting\<close>

definition fresh_meta :: "Manager \<Rightarrow> nat \<Rightarrow> bedMeta" where
  "fresh_meta m b = \<lparr> ME_Volumes = [], ME_Sync = SP_StoreKind (bed_spec m b), ME_Version = 1, ME_BedID = bed_name m b,
     ME_CreatedAt = SP_CreatedAt (bed_spec m b), ME_LastPersistedAt = zero_time, ME_Generation = 0,
     ME_SnapshotGeneration = 0, ME_SnapshotBytes = 0, ME_LastActiveAt = zero_time,
     ME_Usage = \<lparr> US_CmdCount = 0, US_CmdTotalMs = 0, US_LastPersistMs = 0, US_LastRestoreMs = 0 \<rparr> \<rparr>"

definition loadMeta :: "Manager \<Rightarrow> string \<Rightarrow> bedMeta option" where
  "loadMeta m dir = M_meta m dir"

definition saveMeta :: "Manager \<Rightarrow> string \<Rightarrow> bedMeta \<Rightarrow> Manager" where
  "saveMeta m dir meta = m\<lparr>M_meta := (M_meta m)(dir \<mapsto> meta)\<rparr>"

text \<open>The meta file that \<open>persistBed\<close> writes before packing.\<close>

definition bumped_meta :: "Manager \<Rightarrow> nat \<Rightarrow> bedMeta" where
  "bumped_meta m b =
     (let meta = (case loadMeta m (SP_Dir (bed_spec m b)) of Some x \<Rightarrow> x | None \<Rightarrow> fresh_meta m b)
      in meta\<lparr>ME_Version := 2, ME_Volumes := PersistentVolumes (spec_volumes (bed_spec m b)),
              ME_Generation := ME_Generation meta + 1, ME_Usage := mb_usage (M_heap m b)\<rparr>)"

definition persist_prepare :: "Manager \<Rightarrow> nat \<Rightarrow> bool \<Rightarrow> Manager \<times> (bed_error, bedMeta \<times> time) result" where
  "persist_prepare m b saved =
     (if mb_purging (M_heap m b) then (m, Inl ErrBedPurging)
      else if \<not> saved then (m, Inl (ErrStage ''bump generation''))
      else
        let meta = bumped_meta m b;
            m1 = saveMeta m (SP_Dir (bed_spec m b)) meta;
            m2 = with_bed m1 b (\<lambda>r. r\<lparr>mb_generation := ME_Generation meta\<rparr>)
        in (m2, Inr (meta, mb_lastActiveAt (M_heap m2 b))))"

record persist_outcome =
  po_saved :: bool                         \<comment> \<open>the first \<open>saveMeta\<close> succeeds\<close>
  po_upload :: "bed_error option"          \<comment> \<open>\<open>store.PersistBed\<close>\<close>
  po_snapshot :: "(int \<times> int) option"      \<comment> \<open>\<open>store.StatBed\<close>: generation and bytes\<close>
  po_localBytes :: int
  po_millis :: int
  po_final :: bool                         \<comment> \<open>the best-effort second \<open>saveMeta\<close> succeeds\<close>

definition persist_commit :: "Manager \<Rightarrow> nat \<Rightarrow> bedMeta \<Rightarrow> time \<Rightarrow> persist_outcome \<Rightarrow> Manager" where
  "persist_commit m b meta watermark oc =
     (let wasPinned = pinnedLocked m b;
          m1 = with_bed m b (\<lambda>r. r\<lparr>mb_persistedAt := watermark,
                 mb_usage := (mb_usage r)\<lparr>US_LastPersistMs := po_millis oc\<rparr>\<rparr>);
          m2 = observe_store m1 (mb_model (M_heap m1 b)) (po_snapshot oc) (po_localBytes oc);
          meta1 = (case po_snapshot oc of
                     None \<Rightarrow> meta
                   | Some (g, n) \<Rightarrow> meta\<lparr>ME_SnapshotGeneration := g, ME_SnapshotBytes := n\<rparr>);
          meta2 = meta1\<lparr>ME_Usage := mb_usage (M_heap m2 b), ME_LastPersistedAt := watermark\<rparr>;
          m3 = (if is_current m2 b then adjustPinnedLocked m2 b wasPinned else m2)
      in if po_final oc then saveMeta m3 (SP_Dir (bed_spec m3 b)) meta2 else m3)"

definition persistBed :: "Manager \<Rightarrow> nat \<Rightarrow> persist_outcome \<Rightarrow> Manager \<times> (bed_error, unit) result" where
  "persistBed m b oc =
     (case persist_prepare m b (po_saved oc) of
        (m1, Inl e) \<Rightarrow> (m1, Inl e)
      | (m1, Inr (meta, watermark)) \<Rightarrow>
          (case po_upload oc of
             Some e \<Rightarrow> (m1, Inl e)
           | None \<Rightarrow> (persist_commit m1 b meta watermark oc, Inr ())))"

definition Checkpoint ::
  "Manager \<Rightarrow> string \<Rightarrow> time \<Rightarrow> decision \<Rightarrow> time \<Rightarrow> persist_outcome \<Rightarrow> Manager \<times> (bed_error, unit) result" where
  "Checkpoint m name now d later oc =
     (case map_of (M_beds m) name of
        None \<Rightarrow> (m, Inl ErrNotFound)
      | Some b \<Rightarrow>
          (case BeginOperation m b OpCheckpoint 0 now d of
             (m1, Inl e) \<Rightarrow> (m1, Inl e)
           | (m1, Inr _) \<Rightarrow>
               (case persistBed m1 b oc of (m2, r) \<Rightarrow> (finishOperation m2 b OpCheckpoint later, r))))"

definition is_dirty :: "Manager \<Rightarrow> nat \<Rightarrow> bool" where
  "is_dirty m b \<longleftrightarrow> mb_lastActiveAt (M_heap m b) > mb_persistedAt (M_heap m b) \<and> mb_inflight (M_heap m b) = 0
     \<and> LS_Phase (bed_lifecycle m b) \<noteq> PhaseEvicting \<and> \<not> mb_purging (M_heap m b)"

fun persist_each :: "(nat \<Rightarrow> persist_outcome) \<Rightarrow> Manager \<Rightarrow> nat list \<Rightarrow> Manager \<times> string list \<times> bool" where
  "persist_each oc m [] = (m, [], False)"
| "persist_each oc m (b # bs) =
     (if SP_StoreKind (bed_spec m b) = SyncNoop
      then persist_each oc (observe_store m (mb_model (M_heap m b)) None (po_localBytes (oc b))) bs
      else if \<not> is_dirty m b then persist_each oc m bs
      else case persistBed m b (oc b) of
        (m1, Inl e) \<Rightarrow> (case persist_each oc m1 bs of (m2, ids, _) \<Rightarrow> (m2, ids, True))
      | (m1, Inr _) \<Rightarrow> (case persist_each oc m1 bs of (m2, ids, failed) \<Rightarrow> (m2, bed_name m1 b # ids, failed)))"

definition persistDirty :: "(nat \<Rightarrow> persist_outcome) \<Rightarrow> Manager \<Rightarrow> Manager \<times> string list \<times> bool" where
  "persistDirty oc m = persist_each oc m (map snd (M_beds m))"

section \<open>The eviction fence\<close>

definition pillowsChanged :: "Manager \<Rightarrow> nat \<Rightarrow> bool \<Rightarrow> time \<Rightarrow> Manager" where
  "pillowsChanged m p ready now =
     update_lifecycle m p (\<lambda>s. if LS_Phase s \<noteq> PhaseResident then s
       else s\<lparr>LS_Ready := ready, LS_UpdatedAt := now,
              LS_Reason := (if ready then ''Initialized'' else ''RequiredPillowUnavailable'')\<rparr>)"

definition beginEvictionLocked ::
  "Manager \<Rightarrow> nat \<Rightarrow> time option \<Rightarrow> bool \<Rightarrow> time \<Rightarrow> Manager \<times> (bed_error, bool) result" where
  "beginEvictionLocked m b cutoff stopPillows now =
     (if M_closed m \<or> \<not> is_current m b \<or> mb_purging (M_heap m b) then (m, Inl ErrBedUnavailable)
      else if LS_Phase (bed_lifecycle m b) \<noteq> PhaseResident \<or> mb_inflight (M_heap m b) > 0 then (m, Inr False)
      else if (case cutoff of
                 None \<Rightarrow> False
               | Some c \<Rightarrow> retainedUntilLocked m b = zero_time \<or> retainedUntilLocked m b > c)
      then (m, Inr False)
      else (setLifecycle m (mb_model (M_heap m b))
              (lifecycle_status PhaseEvicting (\<not> stopPillows)
                 (if stopPillows then ''StoppingPillows'' else ''Evicting'') now), Inr True))"

definition evict_commit :: "Manager \<Rightarrow> nat \<Rightarrow> nat \<Rightarrow> Manager \<times> bool" where
  "evict_commit m b sequence =
     (if M_closed m \<or> \<not> is_current m b \<or> mb_inflight (M_heap m b) > 0 \<or> mb_activitySeq (M_heap m b) \<noteq> sequence
      then (m, False)
      else (m\<lparr>M_retirements := al_put (bed_name m b) b (M_retirements m),
              M_beds := al_del (bed_name m b) (M_beds m),
              M_residentBeds := M_residentBeds m - 1\<rparr>, True))"

definition evict_resume :: "Manager \<Rightarrow> nat \<Rightarrow> bool \<Rightarrow> time \<Rightarrow> Manager" where
  "evict_resume m b ready now =
     (if \<not> M_closed m \<and> is_current m b
      then pillowsChanged (setLifecycle m (mb_model (M_heap m b)) (lifecycle_status PhaseResident False [] now))
             (mb_model (M_heap m b)) ready now
      else m)"

section \<open>Teardown and retirement\<close>

record teardown_outcome =
  to_pillows :: "bed_error option"
  to_ctx :: "bed_error option"
  to_stop :: "bed_error option"       \<comment> \<open>\<open>stopSequence.Run\<close>\<close>
  to_release :: "bed_error option"    \<comment> \<open>\<open>releaseSequence.Run\<close>\<close>
  to_now :: time

definition first_error :: "bed_error option list \<Rightarrow> bed_error option" where
  "first_error es = (case filter (\<lambda>e. e \<noteq> None) es of [] \<Rightarrow> None | e # _ \<Rightarrow> e)"

definition teardown :: "Manager \<Rightarrow> nat \<Rightarrow> teardown_outcome \<Rightarrow> Manager \<times> (bed_error, unit) result" where
  "teardown m b oc =
     (if mb_runtimeClosed (M_heap m b) then (m, Inr ())
      else
        let p = mb_model (M_heap m b);
            initializing = (LS_Phase (bed_lifecycle m b) = PhaseInitializing);
            set = (\<lambda>m phase reason. if initializing then m
                     else setLifecycle m p (lifecycle_status phase False reason (to_now oc)));
            m1 = set m PhaseEvicting ''RuntimeCleanup'';
            m2 = (if to_pillows oc = None then fst (revokeSessions m1 b) else m1)
        in case first_error [to_pillows oc, to_ctx oc, to_stop oc, to_release oc] of
             Some e \<Rightarrow> (set m2 PhaseEvicting ''CleanupPending'', Inl e)
           | None \<Rightarrow>
               let m3 = with_bed m2 b (\<lambda>r. r\<lparr>mb_runtimeClosed := True\<rparr>) in
               if map_of (M_retirements m3) (bed_name m3 b) = Some b
               then (set m3 PhaseEvicting ''CleanupPending'', Inr ())
               else (set m3 PhaseDormant ''RuntimeReleased'', Inr ()))"

text \<open>\<open>clean\<close> is \<open>cleanLocalIdentity\<close> on the Bed's local identity with \<open>removeRoot\<close> set.\<close>

definition finishRetirement ::
  "(Manager \<Rightarrow> nat \<Rightarrow> Manager \<times> (bed_error, unit) result) \<Rightarrow> Manager \<Rightarrow> nat \<Rightarrow> teardown_outcome
     \<Rightarrow> Manager \<times> (bed_error, bool) result" where
  "finishRetirement clean m b oc =
     (if map_of (M_retirements m) (bed_name m b) \<noteq> Some b then (m, Inr True)
      else case teardown m b oc of
        (m1, Inl e) \<Rightarrow> (m1, Inl e)
      | (m1, Inr _) \<Rightarrow>
          (case clean m1 (mb_local (M_heap m1 b)) of
             (m2, Inl e) \<Rightarrow> (m2, Inl e)
           | (m2, Inr _) \<Rightarrow>
               (if map_of (M_retirements m2) (bed_name m2 b) = Some b
                then m2\<lparr>M_retirements := al_del (bed_name m2 b) (M_retirements m2)\<rparr> else m2, Inr True)))"

record evict_outcome =
  eo_start :: time
  eo_stop :: "bed_error option"        \<comment> \<open>\<open>pillows.Stop\<close>\<close>
  eo_transfers :: "bed_error option"   \<comment> \<open>\<open>store.StopTransfers\<close>\<close>
  eo_shutdown :: "bed_error option"    \<comment> \<open>the current executor's \<open>Shutdown\<close>\<close>
  eo_ctx :: "bed_error option"
  eo_persist :: persist_outcome
  eo_ready :: bool                     \<comment> \<open>\<open>pillows.Ready\<close> after a recovery\<close>
  eo_end :: time
  eo_teardown :: teardown_outcome

definition evictResidentBed ::
  "(Manager \<Rightarrow> nat \<Rightarrow> Manager \<times> (bed_error, unit) result) \<Rightarrow> Manager \<Rightarrow> nat \<Rightarrow> time option \<Rightarrow> evict_outcome
     \<Rightarrow> Manager \<times> (bed_error, bool) result" where
  "evictResidentBed clean m b cutoff oc =
     (case beginEvictionLocked m b cutoff True (eo_start oc) of
        (m1, Inl e) \<Rightarrow> (m1, Inl e)
      | (m1, Inr started) \<Rightarrow>
          if \<not> started then (m1, Inr False)
          else
            let sequence = mb_activitySeq (M_heap m1 b);
                resume = (\<lambda>m. evict_resume m b (eo_ready oc) (eo_end oc)) in
            case eo_stop oc of
              Some e \<Rightarrow> (resume m1, Inl e)
            | None \<Rightarrow>
                let m2 = fst (revokeSessions m1 b) in
                case first_error [eo_transfers oc, eo_shutdown oc, eo_ctx oc] of
                  Some e \<Rightarrow> (resume m2, Inl e)
                | None \<Rightarrow>
                    (case persistBed m2 b (eo_persist oc) of
                       (m3, Inl e) \<Rightarrow> (resume m3, Inl e)
                     | (m3, Inr _) \<Rightarrow>
                         (case evict_commit m3 b sequence of
                            (m4, False) \<Rightarrow> (resume m4, Inr False)
                          | (m4, True) \<Rightarrow> finishRetirement clean m4 b (eo_teardown oc))))"

section \<open>Idle collection\<close>

definition stale_beds :: "Manager \<Rightarrow> time \<Rightarrow> string list" where
  "stale_beds m now =
     map fst (filter (\<lambda>(name, b). retainedUntilLocked m b \<noteq> zero_time \<and> \<not> retainedUntilLocked m b > now) (M_beds m))"

text \<open>\<open>evict\<close> on an identity without a resident Bed cancels its initialization: \<open>cancel\<close>. \<open>uni\<close> is the table of letters and digits outside ASCII (\<open>validBedID\<close>).\<close>

definition evict ::
  "(nat \<Rightarrow> bool) \<Rightarrow> (Manager \<Rightarrow> nat \<Rightarrow> Manager \<times> (bed_error, unit) result)
     \<Rightarrow> (Manager \<Rightarrow> string \<Rightarrow> Manager \<times> (bed_error, bool) result)
     \<Rightarrow> Manager \<Rightarrow> string \<Rightarrow> time option \<Rightarrow> evict_outcome \<Rightarrow> Manager \<times> (bed_error, bool) result" where
  "evict uni clean cancel m name cutoff oc =
     (if \<not> validBedID uni name then (m, Inl ErrInvalidBedID)
      else case map_of (M_retirements m) name of
        Some r \<Rightarrow> finishRetirement clean m r (eo_teardown oc)
      | None \<Rightarrow>
          (case map_of (M_beds m) name of
             None \<Rightarrow> cancel m name
           | Some b \<Rightarrow> evictResidentBed clean m b cutoff oc))"

fun evict_each ::
  "(nat \<Rightarrow> bool) \<Rightarrow> (Manager \<Rightarrow> nat \<Rightarrow> Manager \<times> (bed_error, unit) result)
     \<Rightarrow> (Manager \<Rightarrow> string \<Rightarrow> Manager \<times> (bed_error, bool) result)
     \<Rightarrow> (string \<Rightarrow> evict_outcome) \<Rightarrow> time \<Rightarrow> Manager \<Rightarrow> string list \<Rightarrow> Manager \<times> string list" where
  "evict_each uni clean cancel oc now m [] = (m, [])"
| "evict_each uni clean cancel oc now m (name # ids) =
     (case evict uni clean cancel m name (Some now) (oc name) of
        (m1, r) \<Rightarrow>
          (case evict_each uni clean cancel oc now m1 ids of
             (m2, reaped) \<Rightarrow> (m2, if r = Inr True then name # reaped else reaped)))"

definition CollectExpired ::
  "(nat \<Rightarrow> bool) \<Rightarrow> (Manager \<Rightarrow> nat \<Rightarrow> Manager \<times> (bed_error, unit) result)
     \<Rightarrow> (Manager \<Rightarrow> string \<Rightarrow> Manager \<times> (bed_error, bool) result)
     \<Rightarrow> (string \<Rightarrow> evict_outcome) \<Rightarrow> Manager \<Rightarrow> time \<Rightarrow> Manager \<times> string list" where
  "CollectExpired uni clean cancel oc m now = evict_each uni clean cancel oc now m (stale_beds m now)"

end
