(* ===== verification/Bed_Initialization.thy ===== *)
theory Bed_Initialization
  imports Bed_Persistence
begin

text \<open>
  Creation and deletion of Bed identities: \<open>initialization.go\<close>, the allocation of \<open>resident.go\<close>, the
  volume contract of \<open>volume_contract.go\<close>, \<open>purge.go\<close>, and the part of \<open>local_identity.go\<close> that the
  manager's lock protects. \<open>beginInitialization\<close> is the critical section that accepts a request, after
  the request has been validated and the store selected (\<open>prepare_request\<close>); the other steps of the
  initializing goroutine are definitions of their own.
\<close>

section \<open>Requests\<close>

record CreateOptions =
  CO_Volumes :: "VolumeSpec list option"
  CO_Pillows :: "PillowSpec list"
  CO_NetworkPolicy :: "Policy option"

definition pillow_Resolve :: "(PillowSpec \<Rightarrow> string) \<Rightarrow> bool \<Rightarrow> PillowSpec list \<Rightarrow> (bed_error, PillowSpec list) result" where
  "pillow_Resolve digest available specs =
     res_bind (lift_error ErrPillows (Normalize digest specs)) (\<lambda>resolved.
       if concat (map PS_Ports resolved) \<noteq> [] \<and> \<not> available then Inl ErrPorts else Inr resolved)"

definition checkInitialPolicy :: "Policy option \<Rightarrow> Policy option \<Rightarrow> bed_error option" where
  "checkInitialPolicy requested initial =
     (if requested \<noteq> None \<and> requested \<noteq> initial then Some ErrPolicyConflict else None)"

definition checkPillows :: "(PillowSpec \<Rightarrow> string) \<Rightarrow> CreateOptions \<Rightarrow> PillowSpec list \<Rightarrow> bed_error option" where
  "checkPillows digest options actual =
     (case Normalize digest actual of
        Inl e \<Rightarrow> Some (ErrPillows e)
      | Inr normalized \<Rightarrow> if normalized \<noteq> CO_Pillows options then Some ErrPillowsConflict else None)"

definition checkBedPaths :: "CreateOptions \<Rightarrow> Spec \<Rightarrow> bed_error option" where
  "checkBedPaths options actual =
     (if CO_Volumes options \<noteq> None \<and> CO_Volumes options \<noteq> SP_Volumes actual then Some ErrPathsConflict else None)"

definition option_volumes :: "CreateOptions \<Rightarrow> VolumeSpec list" where
  "option_volumes options = (case CO_Volumes options of None \<Rightarrow> [] | Some vs \<Rightarrow> vs)"

text \<open>The validation before any lock is taken. \<open>durable\<close> is \<open>store.ResolveDurable\<close>; the result carries the
  requested kind of synchronization, \<open>None\<close> for the empty string.\<close>

definition prepare_request ::
  "(PillowSpec \<Rightarrow> string) \<Rightarrow> bool \<Rightarrow> (bed_error, SyncKind) result \<Rightarrow> CreateOptions
     \<Rightarrow> (bed_error, CreateOptions \<times> SyncKind option) result" where
  "prepare_request digest available durable options =
     res_bind (case CO_Volumes options of
                 None \<Rightarrow> Inr None
               | Some vs \<Rightarrow> (case NormalizeVolumes vs of Inl e \<Rightarrow> Inl ErrPathsConflict | Inr ws \<Rightarrow> Inr (Some ws))) (\<lambda>volumes.
     res_bind (pillow_Resolve digest available (CO_Pillows options)) (\<lambda>pillows.
     res_bind (case volumes of
                 None \<Rightarrow> Inr None
               | Some vs \<Rightarrow>
                   if PersistentVolumeRoots vs \<noteq> []
                   then (case durable of Inl _ \<Rightarrow> Inl ErrSyncInvalid | Inr k \<Rightarrow> Inr (Some k))
                   else Inr (Some SyncNoop)) (\<lambda>sync.
     res_bind (case CO_NetworkPolicy options of
                 None \<Rightarrow> Inr None
               | Some p \<Rightarrow> (case NormalizePolicy p of Inl _ \<Rightarrow> Inl ErrPolicyConflict | Inr q \<Rightarrow> Inr (Some q))) (\<lambda>policy.
     Inr (\<lparr> CO_Volumes = volumes, CO_Pillows = pillows, CO_NetworkPolicy = policy \<rparr>, sync)))))"

section \<open>Local identities\<close>

definition new_model :: "Manager \<Rightarrow> string \<Rightarrow> string \<Rightarrow> ModelBed" where
  "new_model m name bedid = \<lparr> Bed_ID = bedid, Bed_Name = name,
     Bed_Spec = \<lparr> SP_Volumes = None, SP_Pillows = [], SP_Dir = path_join [M_root m, name], SP_CreatedAt = zero_time,
       SP_StoreKind = SyncNoop, SP_NetworkPolicy = None, SP_LocalPresent = False, SP_LocalGeneration = 0 \<rparr>,
     Bed_Lifecycle = lifecycle_status PhaseUnset False [] zero_time,
     Bed_Store = \<lparr> ST_SnapshotGeneration = 0, ST_SnapshotBytes = 0, ST_LocalBytes = 0 \<rparr> \<rparr>"

definition localIdentityLocked :: "Manager \<Rightarrow> string \<Rightarrow> string \<Rightarrow> Manager \<times> nat" where
  "localIdentityLocked m name bedid =
     (case map_of (M_localIdentities m) name of
        Some l \<Rightarrow> (m, l)
      | None \<Rightarrow>
          let p = M_next m; l = M_next m + 1 in
          (m\<lparr>M_models := (M_models m)(p := new_model m name bedid),
             M_locals := (M_locals m)(l := \<lparr> li_bed = p, li_cleanup = None \<rparr>),
             M_localIdentities := al_put name l (M_localIdentities m),
             M_next := M_next m + 2\<rparr>, l))"

definition bedIdentityInUseLocked :: "Manager \<Rightarrow> string \<Rightarrow> bool" where
  "bedIdentityInUseLocked m name \<longleftrightarrow>
     map_of (M_beds m) name \<noteq> None
     \<or> (case map_of (M_initializations m) name of None \<Rightarrow> False | Some i \<Rightarrow> init_phase m i = PhaseInitializing)
     \<or> map_of (M_retirements m) name \<noteq> None \<or> map_of (M_purges m) name \<noteq> None"

datatype wait_result = CleanupFree | CleanupRunning | CleanupRefused bed_error

definition waitForLocalCleanup :: "Manager \<Rightarrow> string \<Rightarrow> wait_result" where
  "waitForLocalCleanup m name =
     (case map_of (M_localIdentities m) name of
        None \<Rightarrow> CleanupFree
      | Some l \<Rightarrow>
          (case li_cleanup (M_locals m l) of
             None \<Rightarrow> CleanupFree
           | Some c \<Rightarrow> if lc_running c then CleanupRunning else CleanupRefused (ErrCleanupPending name)))"

text \<open>The critical section at the end of \<open>removeIdentityTrees\<close>, which forgets the identity.\<close>

definition forgetLocalIdentity :: "Manager \<Rightarrow> nat \<Rightarrow> time \<Rightarrow> Manager" where
  "forgetLocalIdentity m l now =
     (let name = Bed_Name (M_models m (li_bed (M_locals m l))) in
      if map_of (M_localIdentities m) name = Some l
      then setLifecycle (m\<lparr>M_localIdentities := al_del name (M_localIdentities m)\<rparr>) (li_bed (M_locals m l))
             (lifecycle_status PhaseDormant False ''Forgotten'' now)
      else m)"

section \<open>Accepting an initialization\<close>

definition failedInitializationRetention :: duration where
  "failedInitializationRetention = 10 * 60 * 1000000000"

definition prunable :: "Manager \<Rightarrow> time \<Rightarrow> nat \<Rightarrow> bool" where
  "prunable m now i \<longleftrightarrow> init_phase m i = PhaseFailed
     \<and> now - LS_UpdatedAt (Bed_Lifecycle (M_models m (bi_model (M_inits m i)))) \<ge> failedInitializationRetention"

definition pruneFailedInitializationsLocked :: "Manager \<Rightarrow> time \<Rightarrow> Manager" where
  "pruneFailedInitializationsLocked m now =
     m\<lparr>M_initializations := filter (\<lambda>(name, i). \<not> prunable m now i) (M_initializations m)\<rparr>"

datatype init_result = InitBlocked | AlreadyResident nat | InProgress nat

definition start_initialization ::
  "Manager \<Rightarrow> string \<Rightarrow> string \<Rightarrow> CreateOptions \<Rightarrow> SyncKind \<Rightarrow> time \<Rightarrow> Manager \<times> nat" where
  "start_initialization m name bedid options selected now =
     (let (m1, l) = localIdentityLocked m name bedid;
          dir = path_join [M_root m1, name];
          p = li_bed (M_locals m1 l);
          meta = loadMeta m1 dir;
          spec = \<lparr> SP_Volumes = CO_Volumes options, SP_Pillows = CO_Pillows options, SP_Dir = dir,
            SP_CreatedAt = (case meta of None \<Rightarrow> zero_time | Some x \<Rightarrow> ME_CreatedAt x), SP_StoreKind = selected,
            SP_NetworkPolicy = CO_NetworkPolicy options, SP_LocalPresent = (meta \<noteq> None),
            SP_LocalGeneration = (case meta of None \<Rightarrow> 0 | Some x \<Rightarrow> ME_Generation x) \<rparr>;
          m2 = m1\<lparr>M_models := (M_models m1)(p := (M_models m1 p)\<lparr>Bed_Spec := spec\<rparr>)\<rparr>;
          m3 = setLifecycle m2 p (lifecycle_status PhaseInitializing False ''InitializationQueued'' now);
          i = M_next m3;
          m4 = m3\<lparr>M_inits := (M_inits m3)(i := \<lparr> bi_model = p, bi_local = l, bi_startedAt = now, bi_cancelled = False,
                     bi_done = False, bi_bed = None, bi_err = None \<rparr>),
                  M_next := M_next m3 + 1,
                  M_initializations := al_put name i (M_initializations m3)\<rparr>
      in (m4, i))"

definition join_checks :: "(PillowSpec \<Rightarrow> string) \<Rightarrow> CreateOptions \<Rightarrow> Spec \<Rightarrow> bed_error option" where
  "join_checks digest options actual =
     first_error [checkInitialPolicy (CO_NetworkPolicy options) (SP_NetworkPolicy actual),
                  checkPillows digest options (SP_Pillows actual), checkBedPaths options actual]"

text \<open>A retained local identity keeps its declaration: the request must repeat it.\<close>

definition retained_options ::
  "(PillowSpec \<Rightarrow> string) \<Rightarrow> bool \<Rightarrow> Manager \<Rightarrow> string \<Rightarrow> CreateOptions \<Rightarrow> (bed_error, CreateOptions) result" where
  "retained_options digest available m name options =
     (case map_of (M_localIdentities m) name of
        None \<Rightarrow> Inr options
      | Some l \<Rightarrow>
          let actual = Bed_Spec (M_models m (li_bed (M_locals m l))) in
          if SP_Pillows actual = [] then Inr options
          else case first_error [checkPillows digest options (SP_Pillows actual), checkBedPaths options actual] of
            Some e \<Rightarrow> Inl e
          | None \<Rightarrow>
              res_bind (pillow_Resolve digest available (SP_Pillows actual)) (\<lambda>resolved.
                Inr (options\<lparr>CO_Pillows := resolved,
                  CO_Volumes := (if CO_Volumes options = None then SP_Volumes actual else CO_Volumes options)\<rparr>)))"

text \<open>The end of the critical section: capacity and carrier admission, then the new initialization.\<close>

definition admit_initialization ::
  "Manager \<Rightarrow> string \<Rightarrow> string \<Rightarrow> CreateOptions \<Rightarrow> SyncKind \<Rightarrow> time \<Rightarrow> decision
     \<Rightarrow> Manager \<times> (bed_error, init_result) result" where
  "admit_initialization m name bedid options kind now d =
     (let m1 = m\<lparr>M_initializations := al_del name (M_initializations m)\<rparr> in
      if M_maxBeds m1 > 0 \<and> occupiedBedsLocked m1 \<ge> M_maxBeds m1 then (m1, Inl ErrBedLimit)
      else case resourceAdmissionErrorLocked d of
        Inl e \<Rightarrow> (m1, Inl e)
      | Inr _ \<Rightarrow> (case start_initialization m1 name bedid options kind now of (m2, i) \<Rightarrow> (m2, Inr (InProgress i))))"

definition running_initialization :: "Manager \<Rightarrow> string \<Rightarrow> nat option" where
  "running_initialization m name =
     (case map_of (M_initializations m) name of
        Some i \<Rightarrow> if init_phase m i = PhaseInitializing then Some i else None
      | None \<Rightarrow> None)"

definition new_initialization ::
  "(PillowSpec \<Rightarrow> string) \<Rightarrow> bool \<Rightarrow> Manager \<Rightarrow> string \<Rightarrow> string \<Rightarrow> CreateOptions \<Rightarrow> (bed_error, SyncKind) result
     \<Rightarrow> time \<Rightarrow> decision \<Rightarrow> Manager \<times> (bed_error, init_result) result" where
  "new_initialization digest available m name bedid options selected now d =
     (if map_of (M_retirements m) name \<noteq> None then (m, Inl (ErrCleanupPending name))
      else case selected of
        Inl e \<Rightarrow> (m, Inl e)
      | Inr kind \<Rightarrow>
          if PersistentVolumeRoots (option_volumes options) \<noteq> [] \<and> kind = SyncNoop then (m, Inl ErrSyncInvalid)
          else case retained_options digest available m name options of
            Inl e \<Rightarrow> (m, Inl e)
          | Inr opts \<Rightarrow> admit_initialization m name bedid opts kind now d)"

text \<open>\<open>selected\<close> is what \<open>bedSync\<close> answers. When the request asks for a kind of synchronization, that is when it names volumes, its error ends the request at once;
  otherwise it counts only for a new Bed. \<open>uni\<close> is the table of letters and digits outside ASCII (\<open>validBedID\<close>).\<close>

definition beginInitialization ::
  "(nat \<Rightarrow> bool) \<Rightarrow> (PillowSpec \<Rightarrow> string) \<Rightarrow> bool \<Rightarrow> Manager \<Rightarrow> string \<Rightarrow> string \<Rightarrow> CreateOptions \<Rightarrow> (bed_error, SyncKind) result
     \<Rightarrow> time \<Rightarrow> decision \<Rightarrow> Manager \<times> (bed_error, init_result) result" where
  "beginInitialization uni digest available m0 name bedid options selected now d =
     (if \<not> validBedID uni name then (m0, Inl ErrInvalidBedID)
      else case waitForLocalCleanup m0 name of
        CleanupRunning \<Rightarrow> (m0, Inr InitBlocked)
      | CleanupRefused e \<Rightarrow> (m0, Inl e)
      | CleanupFree \<Rightarrow>
          if CO_Volumes options \<noteq> None \<and> \<not> is_ok selected then (m0, Inl (projl selected))
          else if M_closed m0 then (m0, Inl ErrBedUnavailable)
          else
            let m = pruneFailedInitializationsLocked m0 now in
            if map_of (M_purges m) name \<noteq> None then (m, Inl ErrBedPurging)
            else case map_of (M_beds m) name of
              Some b \<Rightarrow> (m, case join_checks digest options (bed_spec m b) of
                              Some e \<Rightarrow> Inl e | None \<Rightarrow> Inr (AlreadyResident b))
            | None \<Rightarrow>
                (case running_initialization m name of
                   Some i \<Rightarrow> (m, case join_checks digest options (Bed_Spec (M_models m (bi_model (M_inits m i)))) of
                                   Some e \<Rightarrow> Inl e | None \<Rightarrow> Inr (InProgress i))
                 | None \<Rightarrow> new_initialization digest available m name bedid options selected now d))"

section \<open>The initializing goroutine\<close>

definition updateInitialization :: "Manager \<Rightarrow> nat \<Rightarrow> string \<Rightarrow> time \<Rightarrow> Manager" where
  "updateInitialization m i reason now =
     (if map_of (M_initializations m) (init_name m i) = Some i \<and> init_phase m i = PhaseInitializing
      then setLifecycle m (bi_model (M_inits m i)) (lifecycle_status PhaseInitializing False reason now) else m)"

text \<open>\<open>preparePaths\<close> fixes the volumes and pillows of the allocation; \<open>restored\<close> is the contract of the
  staged snapshot, if there is one.\<close>

definition preparePaths ::
  "(PillowSpec \<Rightarrow> string) \<Rightarrow> VolumeSpec list option \<Rightarrow> Spec \<Rightarrow> (bed_error, Spec) result" where
  "preparePaths digest restored spec =
     res_bind (case restored of
                 None \<Rightarrow> Inr (SP_Volumes spec)
               | Some vs \<Rightarrow>
                   (case SP_Volumes spec of
                      None \<Rightarrow> Inr (Some vs)
                    | Some us \<Rightarrow> if PersistentVolumes us \<noteq> vs then Inl ErrPathsConflict else Inr (Some us))) (\<lambda>volumes.
     let vs = (case volumes of
                 Some us \<Rightarrow> us
               | None \<Rightarrow> [\<lparr> VS_Name = ''workspace'',
                            VS_Managed = Some (if SP_StoreKind spec = SyncNoop then ''none'' else ''sync''), VS_HostPath = None \<rparr>]) in
     res_bind (case NormalizeVolumes vs of Inl _ \<Rightarrow> Inl ErrPathsConflict | Inr ws \<Rightarrow> Inr ws) (\<lambda>ws.
     if PersistentVolumeRoots ws \<noteq> [] \<and> SP_StoreKind spec = SyncNoop then Inl ErrSyncInvalid
     else res_bind (lift_error ErrPillows (Normalize digest (SP_Pillows spec))) (\<lambda>ps.
       let spec' = spec\<lparr>SP_Volumes := Some ws, SP_Pillows := ps\<rparr> in
       res_bind (case ValidateVolumeMounts spec' of Inl _ \<Rightarrow> Inl ErrPathsConflict | Inr u \<Rightarrow> Inr u) (\<lambda>_. Inr spec'))))"

definition new_managedBed :: "Manager \<Rightarrow> nat \<Rightarrow> managedBed" where
  "new_managedBed m i = \<lparr> mb_model = bi_model (M_inits m i), mb_local = bi_local (M_inits m i),
     mb_lastActiveAt = zero_time, mb_idleTTL = M_bedIdleTTL m, mb_inflight = 0, mb_inflightByKind = [],
     mb_activitySeq = 0, mb_generation = 0, mb_persistedAt = zero_time, mb_purging = False, mb_shells = [],
     mb_sessions = [], mb_usage = \<lparr> US_CmdCount = 0, US_CmdTotalMs = 0, US_LastPersistMs = 0, US_LastRestoreMs = 0 \<rparr>,
     mb_runtimeClosed = False \<rparr>"

definition allocate_bed :: "Manager \<Rightarrow> nat \<Rightarrow> Manager \<times> nat" where
  "allocate_bed m i = (m\<lparr>M_heap := (M_heap m)(M_next m := new_managedBed m i), M_next := M_next m + 1\<rparr>, M_next m)"

text \<open>The stage \<open>prepare_resident\<close>: \<open>restored\<close> says whether a snapshot was staged in, with its facts.\<close>

definition prepare_resident ::
  "Manager \<Rightarrow> nat \<Rightarrow> (int \<times> int) option \<Rightarrow> bool \<Rightarrow> int \<Rightarrow> int \<Rightarrow> time \<Rightarrow> Manager" where
  "prepare_resident m b snapshot restored restoreMs localBytes now =
     (let p = mb_model (M_heap m b); spec = bed_spec m b;
          meta0 = (case loadMeta m (SP_Dir spec) of
                     Some x \<Rightarrow> x
                   | None \<Rightarrow> (fresh_meta m b)\<lparr>ME_CreatedAt := now\<rparr>);
          meta1 = meta0\<lparr>ME_Sync := SP_StoreKind spec, ME_Version := 2,
                        ME_Volumes := PersistentVolumes (spec_volumes spec)\<rparr>;
          meta = (case snapshot of
                    None \<Rightarrow> meta1
                  | Some (g, n) \<Rightarrow> meta1\<lparr>ME_SnapshotGeneration := g, ME_SnapshotBytes := n\<rparr>);
          m1 = saveMeta m (SP_Dir spec) meta;
          m2 = m1\<lparr>M_models := (M_models m1)(p := (M_models m1 p)\<lparr>Bed_Spec := spec\<lparr>SP_CreatedAt := ME_CreatedAt meta\<rparr>\<rparr>)\<rparr>;
          m3 = with_bed m2 b (\<lambda>r. r\<lparr>mb_lastActiveAt := now,
                 mb_persistedAt := (if restored \<or> ME_LastPersistedAt meta = zero_time then now else ME_LastPersistedAt meta),
                 mb_generation := ME_Generation meta,
                 mb_usage := (if restored then (ME_Usage meta)\<lparr>US_LastRestoreMs := restoreMs\<rparr> else ME_Usage meta)\<rparr>)
      in observe_store m3 p (Some (ME_SnapshotGeneration meta, ME_SnapshotBytes meta)) localBytes)"

definition publishInitializedBed :: "Manager \<Rightarrow> nat \<Rightarrow> nat \<Rightarrow> bool \<Rightarrow> time \<Rightarrow> Manager \<times> (bed_error, unit) result" where
  "publishInitializedBed m i b ready now =
     (if M_closed m \<or> map_of (M_initializations m) (init_name m i) \<noteq> Some i \<or> init_phase m i \<noteq> PhaseInitializing
      then (m, Inl ErrCanceled)
      else if map_of (M_beds m) (bed_name m b) \<noteq> None then (m, Inl (ErrBecameResident (bed_name m b)))
      else
        let m1 = keepaliveLocked m b now;
            m2 = setLifecycle m1 (mb_model (M_heap m1 b))
                   (lifecycle_status PhaseResident ready (if ready then ''Initialized'' else ''RequiredPillowUnavailable'') now);
            m3 = m2\<lparr>M_beds := al_put (bed_name m2 b) b (M_beds m2),
                    M_initializations := al_del (bed_name m2 b) (M_initializations m2),
                    M_residentBeds := M_residentBeds m2 + 1\<rparr>;
            m4 = (if pinnedLocked m3 b then m3\<lparr>M_pinnedBeds := M_pinnedBeds m3 + 1\<rparr> else m3)
        in (m4, Inr ()))"

text \<open>A Bed that was prepared but not published becomes a retirement until its rollback succeeds.\<close>

definition abandon_resident :: "Manager \<Rightarrow> nat \<Rightarrow> teardown_outcome \<Rightarrow> Manager \<times> (bed_error, unit) result" where
  "abandon_resident m b oc =
     (let name = bed_name m b;
          m1 = m\<lparr>M_retirements := al_put name b (M_retirements m)\<rparr> in
      case teardown m1 b oc of
        (m2, Inl e) \<Rightarrow> (m2, Inl e)
      | (m2, Inr _) \<Rightarrow> (m2\<lparr>M_retirements := al_del name (M_retirements m2)\<rparr>, Inr ()))"

text \<open>A failure inside \<open>initializeResidentBed\<close> rolls back directly and keeps the owner if that fails.\<close>

definition fail_prepare :: "Manager \<Rightarrow> nat \<Rightarrow> teardown_outcome \<Rightarrow> Manager" where
  "fail_prepare m b oc =
     (case teardown m b oc of
        (m1, Inl _) \<Rightarrow> m1\<lparr>M_retirements := al_put (bed_name m1 b) b (M_retirements m1)\<rparr>
      | (m1, Inr _) \<Rightarrow> m1)"

definition failedReadinessReason :: "string \<Rightarrow> string" where
  "failedReadinessReason stage =
     (if stage = ''InspectingSnapshot'' \<or> stage = ''SelectingBedFSSource'' then ''SnapshotInspectionFailed''
      else if stage = ''RestoringSnapshot'' then ''SnapshotRestoreFailed''
      else if stage = ''PreparingBedFS'' then ''BedFSPreparationFailed''
      else if stage = ''PreparingNetwork'' then ''NetworkPreparationFailed''
      else if stage = ''PreparingResources'' then ''ResourcePreparationFailed''
      else if stage = ''PublishingResident'' then ''ResidentPublicationFailed''
      else ''InitializationFailed'')"

text \<open>The last critical section of \<open>finishInitialization\<close>; \<open>reason\<close> is \<open>failedReadinessReason\<close> of the stage
  the initialization was in.\<close>

definition finishInitialization ::
  "Manager \<Rightarrow> nat \<Rightarrow> string \<Rightarrow> nat option \<Rightarrow> bed_error option \<Rightarrow> time \<Rightarrow> Manager" where
  "finishInitialization m i reason resident err now =
     (let m1 = m\<lparr>M_inits := (M_inits m)(i := (M_inits m i)\<lparr>bi_bed := resident, bi_err := err, bi_done := True\<rparr>)\<rparr>;
          name = init_name m1 i; p = bi_model (M_inits m1 i) in
      if map_of (M_initializations m1) name \<noteq> Some i then m1
      else case err of
        None \<Rightarrow> m1\<lparr>M_initializations := al_del name (M_initializations m1)\<rparr>
      | Some e \<Rightarrow>
          if map_of (M_retirements m1) name \<noteq> None
          then (setLifecycle m1 p (lifecycle_status PhaseEvicting False ''CleanupPending'' now))
                 \<lparr>M_initializations := al_del name (M_initializations m1)\<rparr>
          else if e \<noteq> ErrCanceled then setLifecycle m1 p (lifecycle_status PhaseFailed False reason now)
          else m1\<lparr>M_initializations := al_del name (M_initializations m1)\<rparr>)"

definition cancelInitialization :: "Manager \<Rightarrow> string \<Rightarrow> Manager \<times> (bed_error, bool) result" where
  "cancelInitialization m name =
     (case map_of (M_initializations m) name of
        None \<Rightarrow> (m, Inr False)
      | Some i \<Rightarrow>
          if init_phase m i \<noteq> PhaseInitializing
          then (m\<lparr>M_initializations := al_del name (M_initializations m)\<rparr>, Inr True)
          else (m\<lparr>M_inits := (M_inits m)(i := (M_inits m i)\<lparr>bi_cancelled := True\<rparr>)\<rparr>, Inr True))"

datatype ensure_result = EnsureBed nat | EnsureWait nat

definition Ensure :: "(nat \<Rightarrow> bool) \<Rightarrow> Manager \<Rightarrow> string \<Rightarrow> (bed_error, ensure_result) result" where
  "Ensure uni m name =
     (if \<not> validBedID uni name then Inl ErrInvalidBedID
      else if M_closed m then Inl ErrBedUnavailable
      else if map_of (M_purges m) name \<noteq> None then Inl ErrBedPurging
      else case map_of (M_beds m) name of
        Some b \<Rightarrow> Inr (EnsureBed b)
      | None \<Rightarrow>
          if map_of (M_retirements m) name \<noteq> None then Inl ErrBedUnavailable
          else case map_of (M_initializations m) name of
                 None \<Rightarrow> Inl ErrNotFound
               | Some i \<Rightarrow> Inr (EnsureWait i))"

section \<open>Purging\<close>

definition beginPurge :: "Manager \<Rightarrow> string \<Rightarrow> Manager \<times> nat \<times> bool" where
  "beginPurge m name =
     (case map_of (M_purges m) name of
        Some t \<Rightarrow> (m, t, False)
      | None \<Rightarrow> (m\<lparr>M_purges := al_put name (M_next m) (M_purges m), M_next := M_next m + 1\<rparr>, M_next m, True))"

definition finishPurge :: "Manager \<Rightarrow> string \<Rightarrow> nat \<Rightarrow> Manager" where
  "finishPurge m name token =
     (if map_of (M_purges m) name = Some token then m\<lparr>M_purges := al_del name (M_purges m)\<rparr> else m)"

text \<open>The kind of store whose snapshot is deleted: the Bed's own, else what the metadata selected.\<close>

definition purge_kind :: "Manager \<Rightarrow> string \<Rightarrow> SyncKind \<Rightarrow> SyncKind" where
  "purge_kind m name kind =
     (case map_of (M_beds m) name of
        Some b \<Rightarrow> SP_StoreKind (bed_spec m b)
      | None \<Rightarrow>
          (case map_of (M_retirements m) name of
             Some b \<Rightarrow> SP_StoreKind (bed_spec m b)
           | None \<Rightarrow>
               (case map_of (M_initializations m) name of
                  Some i \<Rightarrow> SP_StoreKind (Bed_Spec (M_models m (bi_model (M_inits m i))))
                | None \<Rightarrow> kind)))"

definition purge_detach :: "Manager \<Rightarrow> string \<Rightarrow> Manager \<times> nat option" where
  "purge_detach m name =
     (case map_of (M_beds m) name of
        None \<Rightarrow> (m, map_of (M_retirements m) name)
      | Some b \<Rightarrow>
          let m1 = with_bed m b (\<lambda>r. r\<lparr>mb_purging := True\<rparr>);
              m2 = m1\<lparr>M_retirements := al_put name b (M_retirements m1), M_beds := al_del name (M_beds m1),
                      M_residentBeds := M_residentBeds m1 - 1\<rparr>
          in (if pinnedLocked m2 b then m2\<lparr>M_pinnedBeds := M_pinnedBeds m2 - 1\<rparr> else m2, Some b))"

text \<open>
  \<open>selected\<close>: what \<open>bedSync\<close> and \<open>ResolveDurable\<close> answer; \<open>join\<close>: what other goroutines have made of the manager when the cancelled initialization is over, or the error when the
  context ended first; \<open>deleted\<close>: what deleting the snapshot of a kind answers.
\<close>

definition purgeOwned ::
  "(Manager \<Rightarrow> nat \<Rightarrow> Manager \<times> (bed_error, unit) result) \<Rightarrow> (bed_error, SyncKind) result \<Rightarrow> (Manager \<Rightarrow> Manager \<times> (bed_error, unit) result)
     \<Rightarrow> (SyncKind \<Rightarrow> (bed_error, unit) result) \<Rightarrow> Manager \<Rightarrow> string \<Rightarrow> string \<Rightarrow> teardown_outcome \<Rightarrow> Manager \<times> (bed_error, unit) result" where
  "purgeOwned clean selected join deleted m name bedid oc =
     (let (m0, l) = localIdentityLocked m name bedid in
      case selected of
        Inl e \<Rightarrow> (m0, Inl e)
      | Inr k \<Rightarrow>
          let kind = purge_kind m0 name k;
              m1 = fst (cancelInitialization m0 name) in
          case (if running_initialization m0 name = None then (m1, Inr ()) else join m1) of
            (m2, Inl e) \<Rightarrow> (m2, Inl e)
          | (m2, Inr _) \<Rightarrow>
              (case purge_detach m2 name of
                 (m3, bo) \<Rightarrow>
                   (case (case bo of None \<Rightarrow> (m3, Inr ()) | Some b \<Rightarrow> teardown m3 b oc) of
                      (m4, Inl e) \<Rightarrow> (m4, Inl e)
                    | (m4, Inr _) \<Rightarrow>
                        (case deleted kind of
                           Inl e \<Rightarrow> (m4, Inl e)
                         | Inr _ \<Rightarrow>
                             (case clean m4 l of
                                (m5, Inl e) \<Rightarrow> (m5, Inl e)
                              | (m5, Inr _) \<Rightarrow> (m5\<lparr>M_retirements := al_del name (M_retirements m5)\<rparr>, Inr ()))))))"

text \<open>The result is \<open>None\<close> when another purge of the same identity is in progress: the call waits for it and
  returns its error.\<close>

definition Purge ::
  "(nat \<Rightarrow> bool) \<Rightarrow> (Manager \<Rightarrow> nat \<Rightarrow> Manager \<times> (bed_error, unit) result) \<Rightarrow> (bed_error, SyncKind) result \<Rightarrow> (Manager \<Rightarrow> Manager \<times> (bed_error, unit) result)
     \<Rightarrow> (SyncKind \<Rightarrow> (bed_error, unit) result) \<Rightarrow> Manager \<Rightarrow> string \<Rightarrow> string \<Rightarrow> teardown_outcome \<Rightarrow> Manager \<times> (bed_error, unit) result option" where
  "Purge uni clean selected join deleted m name bedid oc =
     (if \<not> validBedID uni name then (m, Some (Inl ErrInvalidBedID))
      else case beginPurge m name of
        (m1, token, owner) \<Rightarrow>
          if \<not> owner then (m1, None)
          else case purgeOwned clean selected join deleted m1 name bedid oc of
            (m2, r) \<Rightarrow> (finishPurge m2 name token, Some r))"

end
