(* ===== verification/Bed_Manager.thy ===== *)
theory Bed_Manager
  imports Bed_Initialization
begin

text \<open>
  The Bed Manager as a concurrent system. Every critical section of the manager is one step; slow work
  between two critical sections of a call may be interleaved with any other step. Besides the
  manager's state, \<open>Sys\<close> has what the goroutines remember between their critical sections:

  \<^item> \<open>S_ops\<close>: the operations whose \<open>finish\<close> closure has not run, so that each runs once (the closure of
    a pillow hold is in the manager's table of holds while the hold is registered);
  \<^item> \<open>S_persist b\<close>: the holder of \<open>b.persistMu\<close>, with the metadata and activity watermark it captured;
  \<^item> \<open>S_evict b\<close>: the eviction that holds \<open>b.cleanupMu\<close>, with the activity sequence it captured at the
    fence and how far it is;
  \<^item> \<open>S_prepared i\<close>: the Bed that the goroutine of initialization \<open>i\<close> has allocated and not published.

  The invariant says that the lock-free counters are exact, that the in-flight counters count the
  outstanding operations and holds, and that an eviction that may still commit has all activity
  of its Bed in a finished snapshot.
\<close>

section \<open>The system and its steps\<close>

datatype evict_pc = Fenced nat | EvPersisting nat | EvPersisted nat

record Sys =
  S_m :: Manager
  S_ops :: "(nat \<times> OperationKind) list"
  S_persist :: "nat \<Rightarrow> (bedMeta \<times> time) option"
  S_evict :: "nat \<Rightarrow> evict_pc option"
  S_prepared :: "nat \<Rightarrow> nat option"

definition is_private :: "Sys \<Rightarrow> nat \<Rightarrow> bool" where
  "is_private s b \<longleftrightarrow> (\<exists>i. S_prepared s i = Some b)"

abbreviation set_m :: "Sys \<Rightarrow> Manager \<Rightarrow> Sys" where
  "set_m s m \<equiv> s\<lparr>S_m := m\<rparr>"

inductive sys_step :: "Sys \<Rightarrow> Sys \<Rightarrow> bool" where
  begin_operation: "BeginOperation (S_m s) b kind timeout now d = (m, Inr ())
     \<Longrightarrow> sys_step s (s\<lparr>S_m := m, S_ops := (b, kind) # S_ops s\<rparr>)"
| finish_operation: "(b, kind) \<in> set (S_ops s)
     \<Longrightarrow> sys_step s (s\<lparr>S_m := finishOperation (S_m s) b kind now, S_ops := remove1 (b, kind) (S_ops s)\<rparr>)"
| hold_registers: "(b, OpPillow) \<in> set (S_ops s) \<Longrightarrow> hold \<notin> set (keys (M_pillowHolds (S_m s)))
     \<Longrightarrow> sys_step s (s\<lparr>S_m := (S_m s)\<lparr>M_pillowHolds := al_put hold b (M_pillowHolds (S_m s))\<rparr>,
                    S_ops := remove1 (b, OpPillow) (S_ops s)\<rparr>)"
| hold_ends: "map_of (M_pillowHolds (S_m s)) hold = Some b
     \<Longrightarrow> sys_step s (s\<lparr>S_m := (S_m s)\<lparr>M_pillowHolds := al_del hold (M_pillowHolds (S_m s))\<rparr>,
                    S_ops := (b, OpPillow) # S_ops s\<rparr>)"
| touch: "sys_step s (set_m s (touchBed (S_m s) b now))"
| open_session: "OpenSession (S_m s) b sid now d = (m, Inr ()) \<Longrightarrow> sys_step s (set_m s m)"
| close_session: "sys_step s (set_m s (CloseSession (S_m s) b sid))"
| record_command: "sys_step s (set_m s (RecordCommand (S_m s) b ms))"
| renew: "sys_step s (set_m s (fst (RenewExpiration (S_m s) bo e now)))"
| pillows_changed: "sys_step s (set_m s (pillowsChanged (S_m s) p ready now))"
| persist_begin: "S_persist s b = None \<Longrightarrow> \<not> is_private s b \<Longrightarrow> b < M_next (S_m s)
     \<Longrightarrow> persist_prepare (S_m s) b True = (m, Inr mw)
     \<Longrightarrow> sys_step s (s\<lparr>S_m := m, S_persist := (S_persist s)(b \<mapsto> mw)\<rparr>)"
| persist_fail: "S_persist s b = Some mw \<Longrightarrow> (\<And>n. S_evict s b \<noteq> Some (EvPersisting n))
     \<Longrightarrow> sys_step s (s\<lparr>S_persist := (S_persist s)(b := None)\<rparr>)"
| persist_done: "S_persist s b = Some (meta, w) \<Longrightarrow> (\<And>n. S_evict s b \<noteq> Some (EvPersisting n))
     \<Longrightarrow> sys_step s (s\<lparr>S_m := persist_commit (S_m s) b meta w oc, S_persist := (S_persist s)(b := None)\<rparr>)"
| evict_fence: "S_evict s b = None \<Longrightarrow> beginEvictionLocked (S_m s) b cutoff True now = (m, Inr True)
     \<Longrightarrow> sys_step s (s\<lparr>S_m := m, S_evict := (S_evict s)(b \<mapsto> Fenced (mb_activitySeq (M_heap m b)))\<rparr>)"
| evict_revoke: "S_evict s b = Some (Fenced n) \<Longrightarrow> sys_step s (set_m s (fst (revokeSessions (S_m s) b)))"
| evict_persist_begin: "S_evict s b = Some (Fenced n) \<Longrightarrow> S_persist s b = None
     \<Longrightarrow> persist_prepare (S_m s) b True = (m, Inr mw)
     \<Longrightarrow> sys_step s (s\<lparr>S_m := m, S_persist := (S_persist s)(b \<mapsto> mw), S_evict := (S_evict s)(b \<mapsto> EvPersisting n)\<rparr>)"
| evict_persist_done: "S_evict s b = Some (EvPersisting n) \<Longrightarrow> S_persist s b = Some (meta, w)
     \<Longrightarrow> sys_step s (s\<lparr>S_m := persist_commit (S_m s) b meta w oc, S_persist := (S_persist s)(b := None),
                    S_evict := (S_evict s)(b \<mapsto> EvPersisted n)\<rparr>)"
| evict_commits: "S_evict s b = Some (EvPersisted n) \<Longrightarrow> evict_commit (S_m s) b n = (m, True)
     \<Longrightarrow> sys_step s (s\<lparr>S_m := m, S_evict := (S_evict s)(b := None)\<rparr>)"
| evict_fails: "S_evict s b = Some pc
     \<Longrightarrow> sys_step s (s\<lparr>S_m := evict_resume (S_m s) b ready now, S_evict := (S_evict s)(b := None),
                    S_persist := (case pc of EvPersisting n \<Rightarrow> (S_persist s)(b := None) | _ \<Rightarrow> S_persist s)\<rparr>)"
| teardown_runs: "sys_step s (set_m s (fst (teardown (S_m s) b oc)))"
| retirement_done: "sys_step s (set_m s ((S_m s)\<lparr>M_retirements := al_del name (M_retirements (S_m s))\<rparr>))"
| retirement_kept: "sys_step s (set_m s ((S_m s)\<lparr>M_retirements := al_put (bed_name (S_m s) b) b (M_retirements (S_m s))\<rparr>))"
| identity_claimed: "sys_step s (set_m s (fst (localIdentityLocked (S_m s) name bedid)))"
| identity_cleanup: "sys_step s (set_m s ((S_m s)\<lparr>M_locals := (M_locals (S_m s))(l := (M_locals (S_m s) l)\<lparr>li_cleanup := c\<rparr>)\<rparr>))"
| identity_forgotten: "sys_step s (set_m s (forgetLocalIdentity (S_m s) l now))"
| init_begins: "sys_step s (set_m s (fst (beginInitialization uni digest available (S_m s) name bedid options selected now d)))"
| init_progress: "sys_step s (set_m s (updateInitialization (S_m s) i reason now))"
| init_paths: "preparePaths digest restored (Bed_Spec (M_models (S_m s) p)) = Inr spec
     \<Longrightarrow> sys_step s (set_m s ((S_m s)\<lparr>M_models := (M_models (S_m s))(p := (M_models (S_m s) p)\<lparr>Bed_Spec := spec\<rparr>)\<rparr>))"
| init_allocates: "S_prepared s i = None \<Longrightarrow> allocate_bed (S_m s) i = (m, b)
     \<Longrightarrow> sys_step s (s\<lparr>S_m := m, S_prepared := (S_prepared s)(i \<mapsto> b)\<rparr>)"
| init_prepares: "S_prepared s i = Some b
     \<Longrightarrow> sys_step s (set_m s (prepare_resident (S_m s) b snapshot restored restoreMs localBytes now))"
| init_publishes: "S_prepared s i = Some b \<Longrightarrow> publishInitializedBed (S_m s) i b ready now = (m, Inr ())
     \<Longrightarrow> sys_step s (s\<lparr>S_m := m, S_prepared := (S_prepared s)(i := None)\<rparr>)"
| init_gives_up: "S_prepared s i = Some b \<Longrightarrow> sys_step s (s\<lparr>S_prepared := (S_prepared s)(i := None)\<rparr>)"
| init_finishes: "sys_step s (set_m s (finishInitialization (S_m s) i reason resident err now))"
| init_cancelled: "sys_step s (set_m s (fst (cancelInitialization (S_m s) name)))"
| failed_pruned: "sys_step s (set_m s (pruneFailedInitializationsLocked (S_m s) now))"
| purge_begins: "sys_step s (set_m s (fst (beginPurge (S_m s) name)))"
| purge_detaches: "sys_step s (set_m s (fst (purge_detach (S_m s) name)))"
| purge_finishes: "sys_step s (set_m s (finishPurge (S_m s) name token))"
| manager_closes: "sys_step s (set_m s ((S_m s)\<lparr>M_closed := True\<rparr>))"

definition sys_start :: "Sys \<Rightarrow> bool" where
  "sys_start s \<longleftrightarrow>
     M_beds (S_m s) = [] \<and> M_initializations (S_m s) = [] \<and> M_purges (S_m s) = [] \<and> M_retirements (S_m s) = []
     \<and> M_localIdentities (S_m s) = [] \<and> M_pillowHolds (S_m s) = [] \<and> M_pinnedBeds (S_m s) = 0
     \<and> M_residentBeds (S_m s) = 0 \<and> M_next (S_m s) = 1
     \<and> (\<forall>x. mb_model (M_heap (S_m s) x) = 0 \<and> mb_inflight (M_heap (S_m s) x) = 0
            \<and> mb_inflightByKind (M_heap (S_m s) x) = []
            \<and> bi_model (M_inits (S_m s) x) = 0 \<and> li_bed (M_locals (S_m s) x) = 0)
     \<and> S_ops s = [] \<and> S_persist s = Map.empty \<and> S_evict s = Map.empty \<and> S_prepared s = Map.empty"

section \<open>The invariant\<close>

text \<open>Addresses are allocated, and names never change.\<close>

definition alloc_ok :: "Manager \<Rightarrow> bool" where
  "alloc_ok m \<longleftrightarrow> (\<forall>x. mb_model (M_heap m x) < M_next m \<and> bi_model (M_inits m x) < M_next m \<and> li_bed (M_locals m x) < M_next m)
     \<and> (\<forall>n b. map_of (M_beds m) n = Some b \<longrightarrow> b < M_next m)
     \<and> (\<forall>n l. map_of (M_localIdentities m) n = Some l \<longrightarrow>
          l < M_next m \<and> Bed_Name (M_models m (li_bed (M_locals m l))) = n)"

text \<open>The counters that are read without the manager's lock are exact.\<close>

definition ledger_ok :: "Manager \<Rightarrow> bool" where
  "ledger_ok m \<longleftrightarrow> distinct (keys (M_beds m)) \<and> (\<forall>n b. map_of (M_beds m) n = Some b \<longrightarrow> bed_name m b = n)
     \<and> M_pinnedBeds m = pinned_count m \<and> M_residentBeds m = int (length (M_beds m))"

definition op_count :: "Sys \<Rightarrow> nat \<Rightarrow> OperationKind \<Rightarrow> int" where
  "op_count s b kind = int (length (filter (\<lambda>x. x = (b, kind)) (S_ops s)))
     + (if kind = OpPillow then int (length (filter (\<lambda>h. snd h = b) (M_pillowHolds (S_m s)))) else 0)"

definition op_total :: "Sys \<Rightarrow> nat \<Rightarrow> int" where
  "op_total s b = int (length (filter (\<lambda>x. fst x = b) (S_ops s)))
     + int (length (filter (\<lambda>h. snd h = b) (M_pillowHolds (S_m s))))"

definition inflight_ok :: "Sys \<Rightarrow> bool" where
  "inflight_ok s \<longleftrightarrow> distinct (keys (M_pillowHolds (S_m s)))
     \<and> (\<forall>b. mb_inflight (M_heap (S_m s) b) = op_total s b)
     \<and> (\<forall>b kind. al_get kind (mb_inflightByKind (M_heap (S_m s) b)) = op_count s b kind)
     \<and> (\<forall>b. op_total s b \<noteq> 0 \<longrightarrow> b < M_next (S_m s))"

definition evict_ok :: "Sys \<Rightarrow> nat \<Rightarrow> bool" where
  "evict_ok s b \<longleftrightarrow>
     (let r = M_heap (S_m s) b in
      case S_evict s b of
        None \<Rightarrow> True
      | Some (Fenced n) \<Rightarrow> n \<le> mb_activitySeq r
      | Some (EvPersisting n) \<Rightarrow> n \<le> mb_activitySeq r
          \<and> (\<exists>meta w. S_persist s b = Some (meta, w) \<and> (mb_activitySeq r = n \<longrightarrow> w = mb_lastActiveAt r))
      | Some (EvPersisted n) \<Rightarrow> n \<le> mb_activitySeq r
          \<and> (mb_activitySeq r = n \<longrightarrow> mb_persistedAt r = mb_lastActiveAt r
              \<and> (\<forall>meta w. S_persist s b = Some (meta, w) \<longrightarrow> w = mb_lastActiveAt r)))"

definition private_ok :: "Sys \<Rightarrow> bool" where
  "private_ok s \<longleftrightarrow>
     (\<forall>i b. S_prepared s i = Some b \<longrightarrow> b < M_next (S_m s) \<and> b \<notin> snd ` set (M_beds (S_m s))
        \<and> S_evict s b = None \<and> S_persist s b = None)
     \<and> (\<forall>i j b. S_prepared s i = Some b \<longrightarrow> S_prepared s j = Some b \<longrightarrow> i = j)
     \<and> (\<forall>b. M_next (S_m s) \<le> b \<longrightarrow> S_evict s b = None \<and> S_persist s b = None)"

definition sys_ok :: "Sys \<Rightarrow> bool" where
  "sys_ok s \<longleftrightarrow> alloc_ok (S_m s) \<and> ledger_ok (S_m s) \<and> inflight_ok s \<and> (\<forall>b. evict_ok s b) \<and> private_ok s"

section \<open>Counting pinned Beds\<close>

lemma in_values: "b \<in> snd ` set xs \<longleftrightarrow> (\<exists>n. (n, b) \<in> set xs)"
  by force

lemma ledger_current: "ledger_ok m \<Longrightarrow> (n, b) \<in> set (M_beds m) \<Longrightarrow> is_current m b \<and> bed_name m b = n"
  by (auto simp: ledger_ok_def is_current_def)

lemma ledger_stale: "ledger_ok m \<Longrightarrow> \<not> is_current m b \<Longrightarrow> b \<notin> snd ` set (M_beds m)"
  using ledger_current by fastforce

lemma pinned_count_frame:
  assumes "M_beds m' = M_beds m" and "\<And>b. b \<in> snd ` set (M_beds m) \<Longrightarrow> pinnedLocked m' b = pinnedLocked m b"
  shows "pinned_count m' = pinned_count m"
proof -
  have "filter (\<lambda>(n, b). pinnedLocked m' b) (M_beds m) = filter (\<lambda>(n, b). pinnedLocked m b) (M_beds m)"
    using assms(2) by (intro filter_cong) force+
  then show ?thesis by (simp add: pinned_count_def assms(1))
qed

lemma filter_snd_frame:
  "b \<notin> snd ` set xs \<Longrightarrow> (\<And>c. c \<noteq> b \<Longrightarrow> P c = Q c) \<Longrightarrow> filter (\<lambda>(n, c). P c) xs = filter (\<lambda>(n, c). Q c) xs"
  by (induction xs) auto

lemma pinned_count_one:
  assumes "ledger_ok m" and "is_current m b" and "M_beds m' = M_beds m"
    and "\<And>c. c \<noteq> b \<Longrightarrow> pinnedLocked m' c = pinnedLocked m c"
  shows "pinned_count m' = pinned_count m + of_bool (pinnedLocked m' b) - of_bool (pinnedLocked m b)"
proof -
  have "(bed_name m b, b) \<in> set (M_beds m)"
    using assms(2) by (auto simp: is_current_def dest: map_of_SomeD)
  then obtain xs ys where split: "M_beds m = xs @ (bed_name m b, b) # ys" by (meson split_list)
  have "b \<notin> snd ` set (xs @ ys)"
  proof
    assume "b \<in> snd ` set (xs @ ys)"
    then obtain n where n: "(n, b) \<in> set (xs @ ys)" unfolding in_values by (rule exE)
    then have "n = bed_name m b" using ledger_current [OF assms(1), of n b] split by auto
    then have "bed_name m b \<in> fst ` set (xs @ ys)" using n by force
    moreover have "distinct (keys (M_beds m))" using assms(1) by (simp add: ledger_ok_def)
    ultimately show False by (auto simp: split)
  qed
  then have "filter (\<lambda>(n, c). pinnedLocked m' c) xs = filter (\<lambda>(n, c). pinnedLocked m c) xs"
    and "filter (\<lambda>(n, c). pinnedLocked m' c) ys = filter (\<lambda>(n, c). pinnedLocked m c) ys"
    using assms(4) by (auto intro!: filter_snd_frame [of b])
  then show ?thesis by (simp add: pinned_count_def assms(3) split)
qed

text \<open>The counter is exact after any change of one Bed that adjusts it when, and only when, the Bed is
  the current one of its name.\<close>

lemma ledger_one:
  assumes "ledger_ok m" and "M_beds m' = M_beds m" and "\<And>c. bed_name m' c = bed_name m c"
    and "\<And>c. c \<noteq> b \<Longrightarrow> pinnedLocked m' c = pinnedLocked m c"
    and "M_residentBeds m' = M_residentBeds m"
    and "M_pinnedBeds m' = M_pinnedBeds m
           + (if is_current m b then of_bool (pinnedLocked m' b) - of_bool (pinnedLocked m b) else 0)"
  shows "ledger_ok m'"
proof (cases "is_current m b")
  case True
  then show ?thesis
    using assms pinned_count_one [OF assms(1) True assms(2,4)] by (simp add: ledger_ok_def)
next
  case False
  then have "b \<notin> snd ` set (M_beds m)" by (rule ledger_stale [OF assms(1)])
  then have "pinned_count m' = pinned_count m"
    using assms(2,4) by (intro pinned_count_frame) metis+
  with False assms show ?thesis by (simp add: ledger_ok_def)
qed

section \<open>Steps that change neither counters nor activity\<close>

definition same_activity :: "managedBed \<Rightarrow> managedBed \<Rightarrow> bool" where
  "same_activity r r' \<longleftrightarrow> mb_model r' = mb_model r \<and> mb_inflight r' = mb_inflight r
     \<and> mb_inflightByKind r' = mb_inflightByKind r \<and> mb_activitySeq r' = mb_activitySeq r
     \<and> mb_lastActiveAt r' = mb_lastActiveAt r \<and> mb_persistedAt r' = mb_persistedAt r"

definition same_pointers :: "Manager \<Rightarrow> Manager \<Rightarrow> bool" where
  "same_pointers m m' \<longleftrightarrow> M_next m \<le> M_next m'
     \<and> (\<forall>x. bi_model (M_inits m' x) < M_next m' \<and> li_bed (M_locals m' x) < M_next m')
     \<and> (\<forall>n l. map_of (M_localIdentities m') n = Some l \<longrightarrow>
          l < M_next m' \<and> Bed_Name (M_models m' (li_bed (M_locals m' l))) = n)"

definition inert :: "Manager \<Rightarrow> Manager \<Rightarrow> bool" where
  "inert m m' \<longleftrightarrow> M_beds m' = M_beds m \<and> M_residentBeds m' = M_residentBeds m \<and> M_pinnedBeds m' = M_pinnedBeds m
     \<and> M_pillowHolds m' = M_pillowHolds m \<and> same_pointers m m'
     \<and> (\<forall>x. same_activity (M_heap m x) (M_heap m' x))
     \<and> (\<forall>n b. map_of (M_beds m) n = Some b \<longrightarrow> bed_name m' b = bed_name m b
          \<and> SP_StoreKind (bed_spec m' b) = SP_StoreKind (bed_spec m b))"

lemma same_activity_refl [simp]: "same_activity r r"
  by (simp add: same_activity_def)

lemma inert_alloc:
  assumes "inert m m'" and "alloc_ok m"
  shows "alloc_ok m'"
proof -
  have le: "M_next m \<le> M_next m'" and same: "\<And>x. mb_model (M_heap m' x) = mb_model (M_heap m x)"
    and beds: "M_beds m' = M_beds m" and ptr: "same_pointers m m'"
    using assms(1) by (auto simp: inert_def same_pointers_def same_activity_def)
  have "mb_model (M_heap m' x) < M_next m'" for x
    using assms(2) le same [of x] by (metis alloc_ok_def order_less_le_trans)
  moreover have "b < M_next m'" if "map_of (M_beds m') n = Some b" for n b
    using assms(2) le that beds by (metis alloc_ok_def order_less_le_trans)
  ultimately show ?thesis using ptr by (simp add: alloc_ok_def same_pointers_def)
qed

lemma inert_ledger:
  assumes "inert m m'" and "ledger_ok m"
  shows "ledger_ok m'"
proof -
  have "pinnedLocked m' b = pinnedLocked m b" if b: "b \<in> snd ` set (M_beds m)" for b
  proof -
    obtain n where "(n, b) \<in> set (M_beds m)" using b unfolding in_values by (rule exE)
    then have "map_of (M_beds m) n = Some b" using assms(2) by (simp add: ledger_ok_def)
    then have "SP_StoreKind (bed_spec m' b) = SP_StoreKind (bed_spec m b)" "same_activity (M_heap m b) (M_heap m' b)"
      using assms(1) unfolding inert_def by blast+
    then show ?thesis by (simp add: same_activity_def pinnedLocked_def dataSyncedLocked_def)
  qed
  then have "pinned_count m' = pinned_count m"
    using assms(1) by (intro pinned_count_frame) (auto simp: inert_def)
  moreover have "bed_name m' b = n" if "map_of (M_beds m) n = Some b" for n b
    using that assms unfolding inert_def ledger_ok_def by metis
  moreover have "M_beds m' = M_beds m" "M_residentBeds m' = M_residentBeds m" "M_pinnedBeds m' = M_pinnedBeds m"
    using assms(1) by (simp_all add: inert_def)
  ultimately show ?thesis using assms(2) by (simp add: ledger_ok_def)
qed

lemma inert_inflight: "inert (S_m s) m' \<Longrightarrow> inflight_ok s \<Longrightarrow> inflight_ok (set_m s m')"
  by (auto simp: inert_def inflight_ok_def same_activity_def same_pointers_def op_total_def op_count_def)

lemma inert_evict: "inert (S_m s) m' \<Longrightarrow> evict_ok s b \<Longrightarrow> evict_ok (set_m s m') b"
  by (auto simp: inert_def evict_ok_def same_activity_def Let_def split: option.splits evict_pc.splits)

lemma inert_private: "inert (S_m s) m' \<Longrightarrow> private_ok s \<Longrightarrow> private_ok (set_m s m')"
  by (fastforce simp: inert_def private_ok_def same_pointers_def)

lemma inert_sys: "inert (S_m s) m' \<Longrightarrow> sys_ok s \<Longrightarrow> sys_ok (set_m s m')"
  using inert_alloc inert_ledger inert_inflight inert_evict inert_private by (simp add: sys_ok_def)

named_theorems inert_intro \<open>updates that are inert\<close>

lemma alloc_pointers: "alloc_ok m \<Longrightarrow> same_pointers m m"
  by (simp add: alloc_ok_def same_pointers_def)

lemma inert_refl [inert_intro]: "alloc_ok m \<Longrightarrow> inert m m"
  by (simp add: inert_def alloc_pointers)

lemma inert_trans:
  assumes "inert m m1" and "inert m1 m2"
  shows "inert m m2"
proof -
  have "same_pointers m m2"
    using assms by (auto simp: inert_def same_pointers_def)
  moreover have "\<forall>x. same_activity (M_heap m x) (M_heap m2 x)"
    using assms by (simp add: inert_def same_activity_def)
  moreover have "\<forall>n b. map_of (M_beds m) n = Some b \<longrightarrow> bed_name m2 b = bed_name m b
          \<and> SP_StoreKind (bed_spec m2 b) = SP_StoreKind (bed_spec m b)"
    using assms unfolding inert_def by metis
  ultimately show ?thesis using assms by (simp add: inert_def)
qed

lemma inert_then: "inert m m1 \<Longrightarrow> alloc_ok m \<Longrightarrow> (alloc_ok m1 \<Longrightarrow> inert m1 m2) \<Longrightarrow> inert m m2"
  using inert_alloc inert_trans by blast

lemma inert_lifecycle [inert_intro]: "alloc_ok m \<Longrightarrow> inert m (update_lifecycle m p f)"
  by (auto simp: inert_def alloc_ok_def same_pointers_def)

lemma inert_setLifecycle [inert_intro]: "alloc_ok m \<Longrightarrow> inert m (setLifecycle m p n)"
  by (simp add: setLifecycle_def inert_lifecycle)

lemma inert_keepalive [inert_intro]: "alloc_ok m \<Longrightarrow> inert m (keepaliveLocked m b t)"
  by (simp add: keepaliveLocked_def inert_lifecycle)

lemma inert_pillowsChanged [inert_intro]: "alloc_ok m \<Longrightarrow> inert m (pillowsChanged m p r t)"
  by (simp add: pillowsChanged_def inert_lifecycle)

lemma inert_with_bed [inert_intro]:
  "alloc_ok m \<Longrightarrow> (\<And>r. same_activity r (f r)) \<Longrightarrow> inert m (with_bed m b f)"
  by (auto simp: inert_def alloc_ok_def same_pointers_def same_activity_def)

lemma inert_tables [inert_intro]:
  "alloc_ok m \<Longrightarrow> inert m (m\<lparr>M_retirements := rt\<rparr>)"
  "alloc_ok m \<Longrightarrow> inert m (m\<lparr>M_initializations := it\<rparr>)"
  "alloc_ok m \<Longrightarrow> inert m (m\<lparr>M_purges := pu\<rparr>)"
  "alloc_ok m \<Longrightarrow> inert m (m\<lparr>M_closed := c\<rparr>)"
  "alloc_ok m \<Longrightarrow> inert m (m\<lparr>M_meta := me\<rparr>)"
  by (auto simp: inert_def alloc_ok_def same_pointers_def)

lemma inert_inits [inert_intro]:
  "alloc_ok m \<Longrightarrow> bi_model x = bi_model (M_inits m i) \<Longrightarrow> inert m (m\<lparr>M_inits := (M_inits m)(i := x)\<rparr>)"
  by (auto simp: inert_def alloc_ok_def same_pointers_def)

lemma inert_cleanup [inert_intro]:
  "alloc_ok m \<Longrightarrow> inert m (m\<lparr>M_locals := (M_locals m)(l := (M_locals m l)\<lparr>li_cleanup := c\<rparr>)\<rparr>)"
  by (auto simp: inert_def alloc_ok_def same_pointers_def)

lemma inert_spec [inert_intro]:
  "alloc_ok m \<Longrightarrow> SP_StoreKind spec = SP_StoreKind (Bed_Spec (M_models m p))
     \<Longrightarrow> inert m (m\<lparr>M_models := (M_models m)(p := (M_models m p)\<lparr>Bed_Spec := spec\<rparr>)\<rparr>)"
  by (auto simp: inert_def alloc_ok_def same_pointers_def)

lemma inert_observe [inert_intro]: "alloc_ok m \<Longrightarrow> inert m (observe_store m p sn n)"
  by (auto simp: inert_def alloc_ok_def same_pointers_def)

lemma inert_saveMeta [inert_intro]: "alloc_ok m \<Longrightarrow> inert m (saveMeta m dir meta)"
  by (simp add: saveMeta_def inert_tables)

lemma inert_revoke [inert_intro]: "alloc_ok m \<Longrightarrow> inert m (fst (revokeSessions m b))"
  by (simp add: revokeSessions_def inert_with_bed same_activity_def)

text \<open>The same updates after other inert ones.\<close>

lemmas inert_acc = inert_refl
  inert_then [OF _ _ inert_setLifecycle] inert_then [OF _ _ inert_keepalive]
  inert_then [OF _ _ inert_pillowsChanged] inert_then [OF _ _ inert_with_bed]
  inert_then [OF _ _ inert_saveMeta] inert_then [OF _ _ inert_revoke]
  inert_then [OF _ _ inert_observe] inert_then [OF _ _ inert_tables(1)] inert_then [OF _ _ inert_tables(2)]
  inert_then [OF _ _ inert_spec] inert_then [OF _ _ inert_inits]

lemma inert_renew: "alloc_ok m \<Longrightarrow> inert m (fst (RenewExpiration m bo e now))"
  by (auto simp: RenewExpiration_def Let_def inert_refl inert_keepalive split: option.splits)

lemma inert_prepare: "alloc_ok m \<Longrightarrow> persist_prepare m b saved = (m', r) \<Longrightarrow> inert m m'"
  by (auto simp: persist_prepare_def Let_def same_activity_def split: if_split_asm intro!: inert_acc)

lemma inert_fence: "alloc_ok m \<Longrightarrow> beginEvictionLocked m b cutoff stop now = (m', r) \<Longrightarrow> inert m m'"
  unfolding beginEvictionLocked_def by (auto split: if_split_asm option.splits intro: inert_acc)

lemma inert_resume: "alloc_ok m \<Longrightarrow> inert m (evict_resume m b ready now)"
  by (auto simp: evict_resume_def intro: inert_acc)

lemma inert_forget: "alloc_ok m \<Longrightarrow> inert m (forgetLocalIdentity m l now)"
proof -
  assume m: "alloc_ok m"
  let ?n = "Bed_Name (M_models m (li_bed (M_locals m l)))"
  have "inert m (m\<lparr>M_localIdentities := al_del ?n (M_localIdentities m)\<rparr>)"
    using m by (auto simp: inert_def alloc_ok_def same_pointers_def split: if_split_asm)
  with m show ?thesis
    by (simp add: forgetLocalIdentity_def Let_def inert_refl inert_then [OF _ _ inert_setLifecycle])
qed

lemma inert_progress: "alloc_ok m \<Longrightarrow> inert m (updateInitialization m i reason now)"
  by (simp add: updateInitialization_def inert_refl inert_setLifecycle)

lemma inert_cancel: "alloc_ok m \<Longrightarrow> inert m (fst (cancelInitialization m name))"
  by (auto simp: cancelInitialization_def inert_refl inert_tables inert_inits split: option.splits)

lemma inert_prune: "alloc_ok m \<Longrightarrow> inert m (pruneFailedInitializationsLocked m now)"
  by (simp add: pruneFailedInitializationsLocked_def inert_tables)

lemma inert_beginPurge: "alloc_ok m \<Longrightarrow> inert m (fst (beginPurge m name))"
  by (auto simp: beginPurge_def inert_refl split: option.splits)
    (auto simp: inert_def alloc_ok_def same_pointers_def less_SucI)

lemma inert_finishPurge: "alloc_ok m \<Longrightarrow> inert m (finishPurge m name token)"
  by (simp add: finishPurge_def inert_refl inert_tables)

lemma inert_teardown:
  assumes "alloc_ok m"
  shows "inert m (fst (teardown m b oc))"
  using assms unfolding teardown_def Let_def
  by (auto simp: same_activity_def split: option.splits if_split intro!: inert_acc)

lemma inert_finishInit: "alloc_ok m \<Longrightarrow> inert m (finishInitialization m i reason resident err now)"
  unfolding finishInitialization_def Let_def
  by (auto split: option.splits intro!: inert_acc)

lemma preparePaths_kind: "preparePaths digest restored spec = Inr spec' \<Longrightarrow> SP_StoreKind spec' = SP_StoreKind spec"
  by (auto simp: preparePaths_def Let_def split: if_split_asm)

lemma inert_spec_unused:
  assumes "alloc_ok m" and "\<And>n b. map_of (M_beds m) n = Some b \<Longrightarrow> mb_model (M_heap m b) \<noteq> p"
  shows "inert m (m\<lparr>M_models := (M_models m)(p := (M_models m p)\<lparr>Bed_Spec := spec\<rparr>)\<rparr>)"
  using assms by (auto simp: inert_def alloc_ok_def same_pointers_def)

lemma localIdentity_spec:
  assumes m: "alloc_ok m" and l: "localIdentityLocked m name bedid = (m', l)"
  shows "inert m m' \<and> Bed_Name (M_models m' (li_bed (M_locals m' l))) = name"
proof (cases "map_of (M_localIdentities m) name")
  case (Some l')
  with l m show ?thesis by (auto simp: localIdentityLocked_def inert_refl alloc_ok_def)
next
  case None
  then have m': "m' = m\<lparr>M_models := (M_models m)(M_next m := new_model m name bedid),
             M_locals := (M_locals m)(M_next m + 1 := \<lparr> li_bed = M_next m, li_cleanup = None \<rparr>),
             M_localIdentities := al_put name (M_next m + 1) (M_localIdentities m), M_next := M_next m + 2\<rparr>"
    and l': "l = M_next m + 1"
    using l by (auto simp: localIdentityLocked_def Let_def)
  have ne: "mb_model (M_heap m x) \<noteq> M_next m" "li_bed (M_locals m x) \<noteq> M_next m" for x
    using m by (auto simp: alloc_ok_def dest: spec [of _ x])
  have lt: "bi_model (M_inits m x) < M_next m + 2" "li_bed (M_locals m x) < M_next m + 2" for x
    using m by (simp_all add: alloc_ok_def less_SucI)
  have "map_of (M_localIdentities m) n = Some k \<Longrightarrow> Bed_Name (M_models m (li_bed (M_locals m k))) = n \<and> k < M_next m" for n k
    using m by (simp add: alloc_ok_def)
  then have ptr: "same_pointers m m'"
    using lt ne by (fastforce simp: same_pointers_def m' new_model_def)
  have "inert m m'"
    using ptr ne by (simp add: inert_def) (simp add: m')
  moreover have "Bed_Name (M_models m' (li_bed (M_locals m' l))) = name"
    by (simp add: m' l' new_model_def)
  ultimately show ?thesis by blast
qed

lemma inert_next: "alloc_ok m \<Longrightarrow> bi_model y < M_next m \<Longrightarrow>
    inert m (m\<lparr>M_inits := (M_inits m)(M_next m := y), M_next := M_next m + 1, M_initializations := it\<rparr>)"
  by (auto simp: inert_def alloc_ok_def same_pointers_def less_SucI)

lemma inert_start:
  assumes m: "alloc_ok m" "ledger_ok m" and absent: "map_of (M_beds m) name = None"
    and st: "start_initialization m name bedid options kind now = (m', i)"
  shows "inert m m'"
proof -
  obtain m1 l where l: "localIdentityLocked m name bedid = (m1, l)" by (cases "localIdentityLocked m name bedid")
  then have m1: "inert m m1" and name: "Bed_Name (M_models m1 (li_bed (M_locals m1 l))) = name"
    using localIdentity_spec [OF m(1) l] by auto
  have ok1: "alloc_ok m1" "ledger_ok m1" using m m1 inert_alloc inert_ledger by blast+
  let ?p = "li_bed (M_locals m1 l)"
  have "mb_model (M_heap m1 b) \<noteq> ?p" if "map_of (M_beds m1) n = Some b" for n b
  proof -
    have "bed_name m1 b = n" using ok1(2) that by (simp add: ledger_ok_def)
    moreover have "n \<noteq> name" using that absent m1 by (auto simp: inert_def)
    ultimately show ?thesis using name by auto
  qed
  then have i2: "inert m1 (m1\<lparr>M_models := (M_models m1)(?p := (M_models m1 ?p)\<lparr>Bed_Spec := sp\<rparr>)\<rparr>)" for sp
    by (rule inert_spec_unused [OF ok1(1)])
  have p: "?p < M_next m1" using ok1(1) by (simp add: alloc_ok_def)
  obtain sp where m': "m' = (let m3 = setLifecycle (m1\<lparr>M_models := (M_models m1)(?p := (M_models m1 ?p)\<lparr>Bed_Spec := sp\<rparr>)\<rparr>) ?p
            (lifecycle_status PhaseInitializing False ''InitializationQueued'' now)
        in m3\<lparr>M_inits := (M_inits m3)(M_next m3 := \<lparr> bi_model = ?p, bi_local = l, bi_startedAt = now, bi_cancelled = False,
                     bi_done = False, bi_bed = None, bi_err = None \<rparr>),
              M_next := M_next m3 + 1, M_initializations := al_put name (M_next m3) (M_initializations m3)\<rparr>)"
    using st l unfolding start_initialization_def Let_def by (simp, blast)
  define m3 where "m3 = setLifecycle (m1\<lparr>M_models := (M_models m1)(?p := (M_models m1 ?p)\<lparr>Bed_Spec := sp\<rparr>)\<rparr>) ?p
            (lifecycle_status PhaseInitializing False ''InitializationQueued'' now)"
  have i3: "inert m1 m3"
    unfolding m3_def by (rule inert_then [OF i2 ok1(1) inert_setLifecycle])
  have "M_next m3 = M_next m1" by (simp add: m3_def setLifecycle_def)
  then have "inert m3 m'"
    using m' p inert_next [OF inert_alloc [OF i3 ok1(1)]] unfolding Let_def m3_def [symmetric] by simp
  with i3 m1 show ?thesis by (blast intro: inert_trans)
qed

lemma inert_admit:
  assumes "alloc_ok m" and "ledger_ok m" and "map_of (M_beds m) name = None"
  shows "inert m (fst (admit_initialization m name bedid opts kind now d))"
proof -
  let ?m1 = "m\<lparr>M_initializations := al_del name (M_initializations m)\<rparr>"
  have m1: "inert m ?m1" by (rule inert_tables(2) [OF assms(1)])
  obtain m2 i where s: "start_initialization ?m1 name bedid opts kind now = (m2, i)" by fastforce
  have "inert ?m1 m2"
    by (rule inert_start [OF inert_alloc [OF m1 assms(1)] inert_ledger [OF m1 assms(2)] _ s]) (simp add: assms(3))
  then have "inert m m2" by (rule inert_trans [OF m1])
  with m1 s show ?thesis by (simp add: admit_initialization_def Let_def split: sum.splits)
qed

lemma inert_newInit:
  assumes "alloc_ok m" and "ledger_ok m" and "map_of (M_beds m) name = None"
  shows "inert m (fst (new_initialization digest available m name bedid options selected now d))"
  using inert_admit [OF assms] inert_refl [OF assms(1)]
  by (simp add: new_initialization_def split: sum.splits)

lemma inert_beginInit:
  assumes "alloc_ok m" and "ledger_ok m"
  shows "inert m (fst (beginInitialization uni digest available m name bedid options selected now d))"
proof -
  let ?m = "pruneFailedInitializationsLocked m now"
  have m: "inert m ?m" by (rule inert_prune [OF assms(1)])
  have "inert m (fst (new_initialization digest available ?m name bedid options selected now d))"
    if "map_of (M_beds ?m) name = None"
    using inert_newInit [OF inert_alloc [OF m assms(1)] inert_ledger [OF m assms(2)] that] inert_trans [OF m] by blast
  then show ?thesis
    using m inert_refl [OF assms(1)]
    by (simp add: beginInitialization_def Let_def split: wait_result.splits option.splits sum.splits)
qed

section \<open>Steps on one Bed\<close>

text \<open>The shape of every mutation of a published Bed: change its record, adjust the pinned counter if it is
  the current Bed of its name, and inert updates around that.\<close>

definition one_bed :: "Manager \<Rightarrow> nat \<Rightarrow> (managedBed \<Rightarrow> managedBed) \<Rightarrow> Manager \<Rightarrow> bool" where
  "one_bed m b f m' \<longleftrightarrow> (\<exists>m2. inert (with_bed m b f) m2 \<and>
     inert (if is_current m b then adjustPinnedLocked m2 b (pinnedLocked m b) else m2) m')"

definition activity_of :: "Manager \<Rightarrow> nat \<Rightarrow> (managedBed \<Rightarrow> managedBed) \<Rightarrow> nat \<Rightarrow> managedBed" where
  "activity_of m b f c = (if c = b then f (M_heap m b) else M_heap m c)"

lemma alloc_with_bed: "alloc_ok m \<Longrightarrow> (\<And>r. mb_model (f r) = mb_model r) \<Longrightarrow> alloc_ok (with_bed m b f)"
  by (auto simp: alloc_ok_def)

lemma alloc_adjust: "alloc_ok (adjustPinnedLocked m b w) = alloc_ok m"
  by (simp add: alloc_ok_def)

lemma one_bed_ok:
  assumes m: "alloc_ok m" "ledger_ok m" and f: "\<And>r. mb_model (f r) = mb_model r" and one: "one_bed m b f m'"
  shows "alloc_ok m' \<and> ledger_ok m' \<and> M_pillowHolds m' = M_pillowHolds m \<and> M_beds m' = M_beds m
    \<and> M_next m \<le> M_next m' \<and> (\<forall>c. same_activity (activity_of m b f c) (M_heap m' c))"
proof -
  obtain m2 where i2: "inert (with_bed m b f) m2"
    and i3: "inert (if is_current m b then adjustPinnedLocked m2 b (pinnedLocked m b) else m2) m'" (is "inert ?m3 m'")
    using one by (auto simp: one_bed_def)
  have ok1: "alloc_ok (with_bed m b f)" using m(1) f by (rule alloc_with_bed)
  have ok2: "alloc_ok m2" by (rule inert_alloc [OF i2 ok1])
  then have ok3: "alloc_ok ?m3" by (simp add: alloc_adjust)
  have names: "bed_name m2 c = bed_name m c \<and> SP_StoreKind (bed_spec m2 c) = SP_StoreKind (bed_spec m c)"
    if "map_of (M_beds m) n = Some c" for n c
    using i2 that f [of "M_heap m c"] unfolding inert_def by fastforce
  have act2: "same_activity (activity_of m b f c) (M_heap m2 c)" for c
    using i2 by (auto simp: inert_def activity_of_def)
  have pin: "pinnedLocked m2 c = pinnedLocked m c" if c: "c \<noteq> b" "c \<in> snd ` set (M_beds m)" for c
  proof -
    obtain n where "(n, c) \<in> set (M_beds m)" using c(2) unfolding in_values by (rule exE)
    then have "map_of (M_beds m) n = Some c" using m(2) by (simp add: ledger_ok_def)
    from names [OF this] act2 [of c] c(1) show ?thesis
      by (simp add: activity_of_def same_activity_def pinnedLocked_def dataSyncedLocked_def)
  qed
  have beds: "M_beds m2 = M_beds m" "M_residentBeds m2 = M_residentBeds m" "M_pinnedBeds m2 = M_pinnedBeds m"
    "M_pillowHolds m2 = M_pillowHolds m" "M_next m \<le> M_next m2"
    using i2 by (auto simp: inert_def same_pointers_def)
  have count: "pinned_count m2 = pinned_count m + (if is_current m b then of_bool (pinnedLocked m2 b) - of_bool (pinnedLocked m b) else 0)"
  proof (cases "is_current m b")
    case True
    let ?m2 = "m2\<lparr>M_models := M_models m, M_heap := (M_heap m)(b := M_heap m2 b)\<rparr>"
    have bn: "map_of (M_beds m) (bed_name m b) = Some b" using True by (simp add: is_current_def)
    have "mb_model (M_heap m2 b) = mb_model (M_heap m b)"
      using act2 [of b] f [of "M_heap m b"] by (simp add: activity_of_def same_activity_def)
    then have pb: "pinnedLocked ?m2 b = pinnedLocked m2 b"
      using names [OF bn] by (simp add: pinnedLocked_def dataSyncedLocked_def)
    have other: "pinnedLocked ?m2 c = pinnedLocked m c" if "c \<noteq> b" for c
      using that by (simp add: pinnedLocked_def dataSyncedLocked_def)
    have "pinned_count ?m2 = pinned_count m + of_bool (pinnedLocked ?m2 b) - of_bool (pinnedLocked m b)"
      by (rule pinned_count_one [OF m(2) True _ other]) (simp_all add: beds)
    moreover have "pinned_count m2 = pinned_count ?m2"
    proof (rule pinned_count_frame)
      show "pinnedLocked m2 c = pinnedLocked ?m2 c" if "c \<in> snd ` set (M_beds ?m2)" for c
        using pin [of c] other [of c] pb beds that by (cases "c = b") simp_all
    qed simp
    ultimately show ?thesis using True pb by simp
  next
    case False
    then have "b \<notin> snd ` set (M_beds m)" by (rule ledger_stale [OF m(2)])
    then have "pinned_count m2 = pinned_count m"
      using pin beds by (intro pinned_count_frame) metis+
    with False show ?thesis by simp
  qed
  have "ledger_ok ?m3"
  proof -
    have "bed_name m2 c = n" if "map_of (M_beds m) n = Some c" for n c
      using names [OF that] m(2) that by (simp add: ledger_ok_def)
    moreover have "pinned_count (adjustPinnedLocked m2 b w) = pinned_count m2" for w
      by (rule pinned_count_frame) simp_all
    ultimately show ?thesis
      using m(2) beds count by (simp add: ledger_ok_def adjust_count)
  qed
  then have "alloc_ok m'" "ledger_ok m'" using i3 ok3 inert_alloc inert_ledger by blast+
  moreover have "M_pillowHolds m' = M_pillowHolds m" "M_beds m' = M_beds m" "M_next m \<le> M_next m'"
    using i3 beds by (auto simp: inert_def same_pointers_def split: if_split_asm)
  moreover have "same_activity (activity_of m b f c) (M_heap m' c)" for c
    using i3 act2 [of c] by (simp add: inert_def same_activity_def split: if_split_asm)
  ultimately show ?thesis by blast
qed

lemma mb_model_ops [simp]:
  "mb_model (start_operation kind now r) = mb_model r" "mb_model (end_operation kind now r) = mb_model r"
  by (simp_all add: start_operation_def end_operation_def Let_def)

definition touched :: "time \<Rightarrow> managedBed \<Rightarrow> managedBed" where
  "touched now r = r\<lparr>mb_lastActiveAt := now, mb_activitySeq := mb_activitySeq r + 1\<rparr>"

definition persisted :: "time \<Rightarrow> int \<Rightarrow> managedBed \<Rightarrow> managedBed" where
  "persisted w ms r = r\<lparr>mb_persistedAt := w, mb_usage := (mb_usage r)\<lparr>US_LastPersistMs := ms\<rparr>\<rparr>"

lemma mb_model_touched [simp]: "mb_model (touched now r) = mb_model r" "mb_model (persisted w ms r) = mb_model r"
  by (simp_all add: touched_def persisted_def)

lemma one_begin:
  assumes m: "alloc_ok m" and op: "BeginOperation m b kind timeout now d = (m', Inr ())"
  shows "one_bed m b (start_operation kind now) m' \<and> is_current m b"
proof -
  have cur: "is_current m b" and m': "m' = keepaliveLocked (adjustPinnedLocked (with_bed m b (start_operation kind now)) b
      (pinnedLocked m b)) b (now + clamp_timeout timeout)"
    using op by (cases rule: BeginOperation_cases [of m b kind timeout now d]; simp)+
  have ok: "alloc_ok (with_bed m b (start_operation kind now))" by (rule alloc_with_bed [OF m]) simp
  show ?thesis
    unfolding one_bed_def using cur m' ok
    by (auto intro!: exI [of _ "with_bed m b (start_operation kind now)"] inert_refl inert_keepalive simp: alloc_adjust)
qed

lemma one_finish:
  assumes m: "alloc_ok m"
  shows "one_bed m b (end_operation kind now) (finishOperation m b kind now)"
proof -
  have ok: "alloc_ok (with_bed m b (end_operation kind now))" by (rule alloc_with_bed [OF m]) simp
  let ?m2 = "keepaliveLocked (with_bed m b (end_operation kind now)) b now"
  have i: "inert (with_bed m b (end_operation kind now)) ?m2" by (rule inert_keepalive [OF ok])
  have cur: "is_current ?m2 b = is_current m b" by (simp add: is_current_def)
  show ?thesis
    unfolding one_bed_def finishOperation_def Let_def cur
    using i inert_alloc [OF i ok] by (intro exI [of _ ?m2]) (simp add: inert_refl alloc_adjust)
qed

lemma one_touch:
  assumes m: "alloc_ok m" and cur: "is_current m b"
  shows "one_bed m b (touched now) (touchBed m b now)"
proof -
  have ok: "alloc_ok (with_bed m b (touched now))" by (rule alloc_with_bed [OF m]) simp
  have i: "inert (with_bed m b (touched now)) (touchLocked m b now)"
    unfolding touchLocked_def touched_def [symmetric] by (rule inert_keepalive [OF ok])
  show ?thesis
    unfolding one_bed_def touchBed_def
    using i inert_alloc [OF i ok] cur by (intro exI [of _ "touchLocked m b now"]) (simp add: inert_refl alloc_adjust)
qed

lemma one_session:
  assumes m: "alloc_ok m" and op: "OpenSession m b sid now d = (m', Inr ())"
  shows "one_bed m b (touched now) m' \<and> is_current m b"
proof -
  let ?g = "\<lambda>r. r\<lparr>mb_sessions := List.insert sid (mb_sessions r)\<rparr>"
  have cur: "is_current m b" and m': "m' = adjustPinnedLocked (with_bed (touchLocked m b now) b ?g) b (pinnedLocked m b)"
    using op by (cases rule: OpenSession_cases [of m b sid now d]; simp)+
  have ok: "alloc_ok (with_bed m b (touched now))" by (rule alloc_with_bed [OF m]) simp
  have i: "inert (with_bed m b (touched now)) (touchLocked m b now)"
    unfolding touchLocked_def touched_def [symmetric] by (rule inert_keepalive [OF ok])
  have i2: "inert (with_bed m b (touched now)) (with_bed (touchLocked m b now) b ?g)"
    using i ok by (rule inert_then [OF _ _ inert_with_bed]) (simp_all add: same_activity_def)
  show ?thesis
    unfolding one_bed_def
    using i2 inert_alloc [OF i2 ok] cur m' by (auto intro!: exI [of _ "with_bed (touchLocked m b now) b ?g"] simp: inert_refl alloc_adjust)
qed

lemma one_commit:
  assumes m: "alloc_ok m"
  shows "one_bed m b (persisted w (po_millis oc)) (persist_commit m b meta w oc)"
proof -
  let ?m1 = "with_bed m b (persisted w (po_millis oc))"
  have ok: "alloc_ok ?m1" by (rule alloc_with_bed [OF m]) simp
  let ?m2 = "observe_store ?m1 (mb_model (M_heap ?m1 b)) (po_snapshot oc) (po_localBytes oc)"
  have i: "inert ?m1 ?m2" by (rule inert_observe [OF ok])
  have cur: "is_current ?m2 b = is_current m b" by (simp add: is_current_def)
  let ?m3 = "if is_current m b then adjustPinnedLocked ?m2 b (pinnedLocked m b) else ?m2"
  have ok3: "alloc_ok ?m3" using inert_alloc [OF i ok] by (simp add: alloc_adjust)
  have "inert ?m3 (persist_commit m b meta w oc)"
    unfolding persist_commit_def Let_def persisted_def [symmetric] cur
    using ok3 by (simp add: inert_refl inert_saveMeta)
  with i show ?thesis unfolding one_bed_def by blast
qed

section \<open>Every step preserves the invariant\<close>

lemma private_shrinks:
  assumes "\<And>c. S_evict s c = None \<longrightarrow> S_evict s' c = None" "\<And>c. S_persist s c = None \<longrightarrow> S_persist s' c = None"
    and "private_ok s" and "snd ` set (M_beds m') \<subseteq> snd ` set (M_beds (S_m s))" and "M_next (S_m s) \<le> M_next m'"
    and "S_m s' = m'" and "S_prepared s' = S_prepared s"
  shows "private_ok s'"
  unfolding private_ok_def assms(6,7)
proof (intro conjI allI impI)
  fix i b
  assume "S_prepared s i = Some b"
  then have "b < M_next (S_m s)" "b \<notin> snd ` set (M_beds (S_m s))" "S_evict s b = None" "S_persist s b = None"
    using assms(3) unfolding private_ok_def by blast+
  then show "b < M_next m'" "b \<notin> snd ` set (M_beds m')" "S_evict s' b = None" "S_persist s' b = None"
    using assms(1,2,4,5) by auto
next
  fix i j b
  assume "S_prepared s i = Some b" "S_prepared s j = Some b"
  then show "i = j" using assms(3) unfolding private_ok_def by blast
next
  fix b
  assume "M_next m' \<le> b"
  then have "M_next (S_m s) \<le> b" using assms(5) by simp
  then have "S_evict s b = None" "S_persist s b = None" using assms(3) unfolding private_ok_def by blast+
  then show "S_evict s' b = None" "S_persist s' b = None" using assms(1,2) by blast+
qed

lemmas private_frame = private_shrinks [OF _ _ _ equalityD1 [OF arg_cong [where f = "\<lambda>x. snd ` set x"]]]

text \<open>\<open>m0\<close> is the manager with, possibly, another table of holds.\<close>

lemma sys_one_bed0:
  assumes s: "sys_ok s" and m0: "m0 = (S_m s)\<lparr>M_pillowHolds := hs\<rparr>"
    and f: "\<And>r. mb_model (f r) = mb_model r" and one: "one_bed m0 b f m'"
    and s': "S_m s' = m'" "S_prepared s' = S_prepared s"
    and inflight: "(\<And>c. same_activity (activity_of (S_m s) b f c) (M_heap m' c)) \<Longrightarrow> M_pillowHolds m' = hs
        \<Longrightarrow> M_next (S_m s) \<le> M_next m' \<Longrightarrow> inflight_ok s'"
    and evict: "same_activity (f (M_heap (S_m s) b)) (M_heap m' b) \<Longrightarrow> evict_ok s' b"
    and others: "\<And>c. c \<noteq> b \<Longrightarrow> S_evict s' c = S_evict s c \<and> S_persist s' c = S_persist s c"
    and fresh: "S_evict s b = None \<Longrightarrow> S_evict s' b = None" "S_persist s b = None \<Longrightarrow> S_persist s' b = None"
  shows "sys_ok s'"
proof -
  have ok: "alloc_ok (S_m s)" "ledger_ok (S_m s)" "private_ok s" "\<And>c. evict_ok s c"
    using s by (simp_all add: sys_ok_def)
  have pins: "pinnedLocked m0 c = pinnedLocked (S_m s) c" for c
    by (rule pinned_cong) (simp_all add: m0)
  have "pinned_count m0 = pinned_count (S_m s)"
    by (rule pinned_count_frame) (use pins in \<open>simp_all add: m0\<close>)
  then have ok0: "alloc_ok m0" "ledger_ok m0" using ok(1,2) by (simp_all add: alloc_ok_def ledger_ok_def m0)
  have act0: "activity_of m0 b f = activity_of (S_m s) b f" by (simp add: activity_of_def m0 fun_eq_iff)
  have r: "alloc_ok m'" "ledger_ok m'" "M_pillowHolds m' = hs" "M_beds m' = M_beds (S_m s)"
    "M_next (S_m s) \<le> M_next m'" "\<And>c. same_activity (activity_of (S_m s) b f c) (M_heap m' c)"
    using one_bed_ok [OF ok0 f one] unfolding act0 by (simp_all add: m0)
  have "evict_ok s' c" for c
  proof (cases "c = b")
    case True
    then show ?thesis using evict r(6) [of b] by (simp add: activity_of_def)
  next
    case False
    then show ?thesis
      using ok(4) [of c] r(6) [of c] others [OF False] s'(1)
      by (auto simp: evict_ok_def activity_of_def same_activity_def Let_def split: option.splits evict_pc.splits)
  qed
  moreover have "private_ok s'"
  proof -
    have "S_evict s c = None \<longrightarrow> S_evict s' c = None" "S_persist s c = None \<longrightarrow> S_persist s' c = None" for c
      using others [of c] fresh by (cases "c = b"; simp)+
    then show ?thesis
      using ok(3) r(4,5) s'(1) s'(2) by (rule private_frame)
  qed
  ultimately show ?thesis
    using r inflight [OF r(6,3,5)] s' by (simp add: sys_ok_def)
qed

lemma sys_one_bed:
  assumes s: "sys_ok s" and f: "\<And>r. mb_model (f r) = mb_model r" and one: "one_bed (S_m s) b f m'"
    and s': "S_m s' = m'" "S_prepared s' = S_prepared s"
    and inflight: "(\<And>c. same_activity (activity_of (S_m s) b f c) (M_heap m' c)) \<Longrightarrow> M_pillowHolds m' = M_pillowHolds (S_m s)
        \<Longrightarrow> M_next (S_m s) \<le> M_next m' \<Longrightarrow> inflight_ok s'"
    and evict: "same_activity (f (M_heap (S_m s) b)) (M_heap m' b) \<Longrightarrow> evict_ok s' b"
    and others: "\<And>c. c \<noteq> b \<Longrightarrow> S_evict s' c = S_evict s c \<and> S_persist s' c = S_persist s c"
    and fresh: "S_evict s b = None \<Longrightarrow> S_evict s' b = None" "S_persist s b = None \<Longrightarrow> S_persist s' b = None"
  shows "sys_ok s'"
proof -
  have "S_m s = (S_m s)\<lparr>M_pillowHolds := M_pillowHolds (S_m s)\<rparr>" by simp
  from sys_one_bed0 [OF s this f one s' inflight evict others fresh] show ?thesis .
qed

lemma inflight_okI:
  assumes "distinct (keys (M_pillowHolds (S_m s)))"
    and "\<And>b. mb_inflight (M_heap (S_m s) b) = op_total s b"
    and "\<And>b kind. al_get kind (mb_inflightByKind (M_heap (S_m s) b)) = op_count s b kind"
    and "\<And>b. op_total s b \<noteq> 0 \<Longrightarrow> b < M_next (S_m s)"
  shows "inflight_ok s"
  using assms unfolding inflight_ok_def by blast

lemma inflight_frame:
  assumes "inflight_ok s" and "\<And>c. mb_inflight (M_heap m' c) = mb_inflight (M_heap (S_m s) c)
      \<and> mb_inflightByKind (M_heap m' c) = mb_inflightByKind (M_heap (S_m s) c)"
    and "M_pillowHolds m' = M_pillowHolds (S_m s)" and "M_next (S_m s) \<le> M_next m'"
    and "S_m s' = m'" and "S_ops s' = S_ops s"
  shows "inflight_ok s'"
proof -
  have "op_total s' c = op_total s c" "op_count s' c k = op_count s c k" for c k
    using assms(3,5,6) by (simp_all add: op_total_def op_count_def)
  then show ?thesis
    using assms unfolding inflight_ok_def by (metis order_less_le_trans)
qed

lemma evict_bumped:
  assumes "evict_ok s b" and "mb_activitySeq (M_heap (S_m s') b) = mb_activitySeq (M_heap (S_m s) b) + 1"
    and "S_evict s' b = S_evict s b" and "S_persist s' b = S_persist s b"
  shows "evict_ok s' b"
  using assms by (auto simp: evict_ok_def Let_def split: option.splits evict_pc.splits)

lemma touched_sel [simp]:
  "mb_inflight (touched now r) = mb_inflight r" "mb_inflightByKind (touched now r) = mb_inflightByKind r"
  "mb_activitySeq (touched now r) = mb_activitySeq r + 1" "mb_lastActiveAt (touched now r) = now"
  "mb_persistedAt (touched now r) = mb_persistedAt r"
  by (simp_all add: touched_def)

lemma persisted_sel [simp]:
  "mb_inflight (persisted w ms r) = mb_inflight r" "mb_inflightByKind (persisted w ms r) = mb_inflightByKind r"
  "mb_activitySeq (persisted w ms r) = mb_activitySeq r" "mb_lastActiveAt (persisted w ms r) = mb_lastActiveAt r"
  "mb_persistedAt (persisted w ms r) = w"
  by (simp_all add: persisted_def)

lemma sys_touched:
  assumes s: "sys_ok s" and one: "one_bed (S_m s) b (touched now) m'"
  shows "sys_ok (set_m s m')"
proof (rule sys_one_bed [OF s _ one])
  assume act: "\<And>c. same_activity (activity_of (S_m s) b (touched now) c) (M_heap m' c)"
    and "M_pillowHolds m' = M_pillowHolds (S_m s)" "M_next (S_m s) \<le> M_next m'"
  note rest = this
  have "mb_inflight (M_heap m' c) = mb_inflight (M_heap (S_m s) c)
      \<and> mb_inflightByKind (M_heap m' c) = mb_inflightByKind (M_heap (S_m s) c)" for c
    using act [of c] by (auto simp: activity_of_def same_activity_def split: if_split_asm)
  from inflight_frame [OF _ this rest(2,3)] s show "inflight_ok (set_m s m')"
    by (simp add: sys_ok_def)
next
  assume "same_activity (touched now (M_heap (S_m s) b)) (M_heap m' b)"
  with s show "evict_ok (set_m s m') b"
    by - (rule evict_bumped [of s], auto simp: sys_ok_def same_activity_def)
qed simp_all

lemma sys_persisted:
  assumes s: "sys_ok s" and one: "one_bed (S_m s) b (persisted w ms) m'"
    and p: "S_persist s b = Some (meta, w)"
    and s': "s' = s\<lparr>S_m := m', S_persist := (S_persist s)(b := None), S_evict := ev\<rparr>"
    and ev: "(\<forall>n. S_evict s b \<noteq> Some (EvPersisting n)) \<and> ev = S_evict s
        \<or> (\<exists>n. S_evict s b = Some (EvPersisting n) \<and> ev = (S_evict s)(b \<mapsto> EvPersisted n))"
  shows "sys_ok s'"
proof (rule sys_one_bed [OF s _ one])
  assume act: "\<And>c. same_activity (activity_of (S_m s) b (persisted w ms) c) (M_heap m' c)"
    and "M_pillowHolds m' = M_pillowHolds (S_m s)" "M_next (S_m s) \<le> M_next m'"
  note rest = this
  have "mb_inflight (M_heap m' c) = mb_inflight (M_heap (S_m s) c)
      \<and> mb_inflightByKind (M_heap m' c) = mb_inflightByKind (M_heap (S_m s) c)" for c
    using act [of c] by (auto simp: activity_of_def same_activity_def split: if_split_asm)
  from inflight_frame [OF _ this rest(2,3)] s show "inflight_ok s'"
    by (simp add: sys_ok_def s')
next
  assume "same_activity (persisted w ms (M_heap (S_m s) b)) (M_heap m' b)"
  moreover have "evict_ok s b" using s by (simp add: sys_ok_def)
  ultimately show "evict_ok s' b"
    using ev p by (auto simp: evict_ok_def Let_def s' same_activity_def split: option.splits evict_pc.splits)
next
  show "S_evict s' c = S_evict s c \<and> S_persist s' c = S_persist s c" if "c \<noteq> b" for c
    using ev that by (auto simp: s')
  show "S_evict s b = None \<Longrightarrow> S_evict s' b = None"
    using ev by (auto simp: s')
qed (simp_all add: s')

lemma al_get_put [simp]: "al_get k (al_put k v xs) = v" "k \<noteq> k' \<Longrightarrow> al_get k (al_put k' v xs) = al_get k xs"
  by (simp_all add: al_get_def)

lemma al_get_del [simp]: "al_get k (al_del k xs) = 0" "k \<noteq> k' \<Longrightarrow> al_get k (al_del k' xs) = al_get k xs"
  by (simp_all add: al_get_def)

lemma length_filter_remove1:
  "x \<in> set xs \<Longrightarrow> int (length (filter P (remove1 x xs))) = int (length (filter P xs)) - of_bool (P x)"
  by (induction xs) auto

lemma sys_begin:
  assumes s: "sys_ok s" and op: "BeginOperation (S_m s) b kind timeout now d = (m', Inr ())"
  shows "sys_ok (s\<lparr>S_m := m', S_ops := (b, kind) # S_ops s\<rparr>)" (is "sys_ok ?s'")
proof -
  have ok: "alloc_ok (S_m s)" "ledger_ok (S_m s)" "inflight_ok s" "evict_ok s b" using s by (simp_all add: sys_ok_def)
  have one: "one_bed (S_m s) b (start_operation kind now) m'" and cur: "is_current (S_m s) b"
    using one_begin [OF ok(1) op] by auto
  have lt: "b < M_next (S_m s)" using cur ok(1) by (auto simp: is_current_def alloc_ok_def)
  show ?thesis
  proof (rule sys_one_bed [OF s _ one])
    assume act: "\<And>c. same_activity (activity_of (S_m s) b (start_operation kind now) c) (M_heap m' c)"
      and h: "M_pillowHolds m' = M_pillowHolds (S_m s)" and n: "M_next (S_m s) \<le> M_next m'"
    have tot: "op_total ?s' c = op_total s c + of_bool (c = b)" for c
      using h by (simp add: op_total_def)
    have cnt: "op_count ?s' c k = op_count s c k + of_bool (c = b \<and> k = kind)" for c k
      using h by (auto simp: op_count_def)
    have a: "mb_inflight (M_heap m' c) = op_total ?s' c" for c
      using act [of c] ok(3) tot [of c]
      by (auto simp: inflight_ok_def activity_of_def same_activity_def start_operation_def split: if_split_asm)
    have b: "al_get k (mb_inflightByKind (M_heap m' c)) = op_count ?s' c k" for c k
    proof (cases "c = b")
      case True
      then show ?thesis
        using act [of c] ok(3) cnt [of c k]
        by (cases "k = kind") (auto simp: inflight_ok_def activity_of_def same_activity_def start_operation_def)
    next
      case False
      then show ?thesis
        using act [of c] ok(3) cnt [of c k] by (simp add: inflight_ok_def activity_of_def same_activity_def)
    qed
    have c: "c < M_next m'" if "op_total ?s' c \<noteq> 0" for c
      using ok(3) tot [of c] lt n that by (cases "c = b") (auto simp: inflight_ok_def intro: order_less_le_trans)
    show "inflight_ok ?s'"
      using ok(3) h a b c by (intro inflight_okI) (simp_all add: inflight_ok_def)
  next
    assume "same_activity (start_operation kind now (M_heap (S_m s) b)) (M_heap m' b)"
    with ok(4) show "evict_ok ?s' b"
      by - (rule evict_bumped [of s], auto simp: same_activity_def start_operation_def)
  qed simp_all
qed

lemma end_operation_sel:
  "mb_inflight (end_operation kind now r) = (if mb_inflight r > 0 then mb_inflight r - 1 else mb_inflight r)"
  "al_get k (mb_inflightByKind (end_operation kind now r)) =
     (if k = kind then (if al_get kind (mb_inflightByKind r) > 1 then al_get kind (mb_inflightByKind r) - 1 else 0)
      else al_get k (mb_inflightByKind r))"
  "mb_persistedAt (end_operation kind now r) = mb_persistedAt r"
  "kind \<noteq> OpCheckpoint \<Longrightarrow> mb_activitySeq (end_operation kind now r) = mb_activitySeq r + 1"
  "kind = OpCheckpoint \<Longrightarrow> mb_activitySeq (end_operation kind now r) = mb_activitySeq r"
  "kind = OpCheckpoint \<Longrightarrow> mb_lastActiveAt (end_operation kind now r) = mb_lastActiveAt r"
  by (auto simp: end_operation_def Let_def)

lemma evict_same:
  assumes "evict_ok s b" and "mb_activitySeq (M_heap (S_m s') b) = mb_activitySeq (M_heap (S_m s) b)"
    and "mb_lastActiveAt (M_heap (S_m s') b) = mb_lastActiveAt (M_heap (S_m s) b)"
    and "mb_persistedAt (M_heap (S_m s') b) = mb_persistedAt (M_heap (S_m s) b)"
    and "S_evict s' b = S_evict s b" and "S_persist s' b = S_persist s b"
  shows "evict_ok s' b"
  using assms by (auto simp: evict_ok_def Let_def split: option.splits evict_pc.splits)

text \<open>The end of an operation or hold of kind \<open>kind\<close> on \<open>b\<close>, in terms of what it leaves outstanding.\<close>

lemma sys_ending:
  assumes s: "sys_ok s" and m0: "m0 = (S_m s)\<lparr>M_pillowHolds := hs\<rparr>"
    and s': "s' = s\<lparr>S_m := finishOperation m0 b kind now, S_ops := ops\<rparr>" and hs: "distinct (keys hs)"
    and tot: "\<And>m c. M_pillowHolds m = hs \<Longrightarrow> op_total (s\<lparr>S_m := m, S_ops := ops\<rparr>) c = op_total s c - of_bool (c = b)"
    and cnt: "\<And>m c k. M_pillowHolds m = hs \<Longrightarrow> op_count (s\<lparr>S_m := m, S_ops := ops\<rparr>) c k = op_count s c k - of_bool (c = b \<and> k = kind)"
    and pos: "op_total s b > 0" "op_count s b kind > 0"
  shows "sys_ok s'"
proof -
  have ok: "alloc_ok (S_m s)" "inflight_ok s" "evict_ok s b" using s by (simp_all add: sys_ok_def)
  have ok0: "alloc_ok m0" using ok(1) by (simp add: m0 alloc_ok_def)
  let ?m = "finishOperation m0 b kind now"
  show ?thesis
  proof (rule sys_one_bed0 [OF s m0 _ one_finish [OF ok0]])
    assume act: "\<And>c. same_activity (activity_of (S_m s) b (end_operation kind now) c) (M_heap ?m c)"
      and h: "M_pillowHolds ?m = hs" and n: "M_next (S_m s) \<le> M_next ?m"
    have tot': "op_total s' c = op_total s c - of_bool (c = b)"
      and cnt': "op_count s' c k = op_count s c k - of_bool (c = b \<and> k = kind)" for c k
      using tot [OF h] cnt [OF h] by (simp_all add: s')
    have a: "mb_inflight (M_heap ?m c) = op_total s' c" for c
      using act [of c] ok(2) tot' [of c] pos(1)
      by (auto simp: inflight_ok_def activity_of_def same_activity_def end_operation_sel split: if_split_asm)
    have b: "al_get k (mb_inflightByKind (M_heap ?m c)) = op_count s' c k" for c k
    proof (cases "c = b")
      case True
      then have eq: "al_get k (mb_inflightByKind (M_heap ?m c)) = al_get k (mb_inflightByKind (end_operation kind now (M_heap (S_m s) b)))"
        using act [of c] by (simp add: activity_of_def same_activity_def)
      have old: "al_get k' (mb_inflightByKind (M_heap (S_m s) b)) = op_count s b k'" for k'
        using ok(2) by (simp add: inflight_ok_def)
      show ?thesis unfolding eq cnt' end_operation_sel old using True pos(2) by auto
    next
      case False
      then show ?thesis
        using act [of c] ok(2) cnt' [of c k] by (simp add: inflight_ok_def activity_of_def same_activity_def)
    qed
    have c: "c < M_next ?m" if "op_total s' c \<noteq> 0" for c
    proof -
      have "op_total s c \<noteq> 0" using tot' [of c] that pos(1) by (cases "c = b") simp_all
      then have "c < M_next (S_m s)" using ok(2) by (simp add: inflight_ok_def)
      with n show ?thesis by simp
    qed
    show "inflight_ok s'"
      using hs h a b c by (intro inflight_okI) (simp_all add: s')
  next
    assume act: "same_activity (end_operation kind now (M_heap (S_m s) b)) (M_heap ?m b)"
    show "evict_ok s' b"
    proof (cases "kind = OpCheckpoint")
      case True
      with act ok(3) show ?thesis
        by - (rule evict_same [of s], auto simp: same_activity_def end_operation_sel s')
    next
      case False
      with act ok(3) show ?thesis
        by - (rule evict_bumped [of s], auto simp: same_activity_def end_operation_sel s')
    qed
  qed (simp_all add: s')
qed

lemma sys_finish:
  assumes s: "sys_ok s" and op: "(b, kind) \<in> set (S_ops s)"
  shows "sys_ok (s\<lparr>S_m := finishOperation (S_m s) b kind now, S_ops := remove1 (b, kind) (S_ops s)\<rparr>)"
proof (rule sys_ending [OF s _ refl, of "S_m s" "M_pillowHolds (S_m s)"])
  show "distinct (keys (M_pillowHolds (S_m s)))" using s by (simp add: sys_ok_def inflight_ok_def)
  show "op_total (s\<lparr>S_m := m, S_ops := remove1 (b, kind) (S_ops s)\<rparr>) c = op_total s c - of_bool (c = b)"
    if "M_pillowHolds m = M_pillowHolds (S_m s)" for m c
    using that length_filter_remove1 [OF op, of "\<lambda>x. fst x = c"] by (auto simp: op_total_def)
  show "op_count (s\<lparr>S_m := m, S_ops := remove1 (b, kind) (S_ops s)\<rparr>) c k = op_count s c k - of_bool (c = b \<and> k = kind)"
    if "M_pillowHolds m = M_pillowHolds (S_m s)" for m c k
    using that length_filter_remove1 [OF op, of "\<lambda>x. x = (c, k)"] by (auto simp: op_count_def)
  have "(b, kind) \<in> set (filter (\<lambda>x. fst x = b) (S_ops s))" "(b, kind) \<in> set (filter (\<lambda>x. x = (b, kind)) (S_ops s))"
    using op by auto
  then have "0 < length (filter (\<lambda>x. fst x = b) (S_ops s))" "0 < length (filter (\<lambda>x. x = (b, kind)) (S_ops s))"
    by (meson length_pos_if_in_set)+
  then show "op_total s b > 0" "op_count s b kind > 0" by (simp_all add: op_total_def op_count_def add_pos_nonneg)
qed simp

text \<open>A hold is an operation whose \<open>finish\<close> closure is kept in the manager's table of holds.\<close>

lemma al_put_absent: "k \<notin> set (keys xs) \<Longrightarrow> al_put k v xs = xs @ [(k, v)]"
  by (induction xs) auto

lemma length_filter_al_del:
  "distinct (keys xs) \<Longrightarrow> map_of xs k = Some v \<Longrightarrow>
     int (length (filter P (al_del k xs))) = int (length (filter P xs)) - of_bool (P (k, v))"
proof (induction xs)
  case Nil
  then show ?case by simp
next
  case (Cons x xs)
  then show ?case
  proof (cases "fst x = k")
    case True
    then have "al_del k xs = xs" using Cons.prems(1) by (intro al_del_absent) (simp add: map_of_eq_None_iff)
    with True Cons.prems show ?thesis by (cases x) (simp add: al_del_def)
  next
    case False
    with Cons show ?thesis by (cases x) (simp add: al_del_def)
  qed
qed

lemma sys_tables:
  assumes s: "sys_ok s" and s': "s' = s\<lparr>S_m := (S_m s)\<lparr>M_pillowHolds := hs\<rparr>, S_ops := ops\<rparr>"
    and hs: "distinct (keys hs)"
    and cnt: "\<And>c. op_total s' c = op_total s c" "\<And>c k. op_count s' c k = op_count s c k"
  shows "sys_ok s'"
proof -
  have ok: "alloc_ok (S_m s)" "ledger_ok (S_m s)" "inflight_ok s" "\<And>c. evict_ok s c" "private_ok s"
    using s by (simp_all add: sys_ok_def)
  have "inflight_ok s'"
    using ok(3) hs by (intro inflight_okI) (simp_all only: cnt, simp_all add: s' inflight_ok_def)
  moreover have "pinnedLocked (S_m s') c = pinnedLocked (S_m s) c" for c
    by (rule pinned_cong) (simp_all add: s')
  then have "ledger_ok (S_m s')"
    using ok(2) pinned_count_frame [of "S_m s'" "S_m s"] by (simp add: ledger_ok_def s')
  moreover have "evict_ok s' c" for c by (rule evict_same [OF ok(4)]) (simp_all add: s')
  moreover have "alloc_ok (S_m s')" "private_ok s'"
    using ok(1,5) by (simp_all add: alloc_ok_def private_ok_def s')
  ultimately show ?thesis by (simp add: sys_ok_def)
qed

lemma sys_hold_registers:
  assumes s: "sys_ok s" and op: "(b, OpPillow) \<in> set (S_ops s)" and fresh: "hold \<notin> set (keys (M_pillowHolds (S_m s)))"
  shows "sys_ok (s\<lparr>S_m := (S_m s)\<lparr>M_pillowHolds := al_put hold b (M_pillowHolds (S_m s))\<rparr>,
                    S_ops := remove1 (b, OpPillow) (S_ops s)\<rparr>)"
proof (rule sys_tables [OF s refl])
  show "distinct (keys (al_put hold b (M_pillowHolds (S_m s))))"
    using s by (intro distinct_al_put) (simp add: sys_ok_def inflight_ok_def)
qed (use fresh length_filter_remove1 [OF op] in \<open>auto simp: op_total_def op_count_def al_put_absent\<close>)

lemma sys_hold_ends:
  assumes s: "sys_ok s" and h: "map_of (M_pillowHolds (S_m s)) hold = Some b"
  shows "sys_ok (s\<lparr>S_m := (S_m s)\<lparr>M_pillowHolds := al_del hold (M_pillowHolds (S_m s))\<rparr>,
                    S_ops := (b, OpPillow) # S_ops s\<rparr>)"
proof -
  have dist: "distinct (keys (M_pillowHolds (S_m s)))" using s by (simp add: sys_ok_def inflight_ok_def)
  then show ?thesis
    using length_filter_al_del [OF dist h] by (intro sys_tables [OF s refl]) (auto simp: op_total_def op_count_def)
qed

text \<open>Steps of the goroutines that hold \<open>persistMu\<close> or \<open>cleanupMu\<close> of \<open>b\<close>, with inert effects on the manager.\<close>

lemma private_owned:
  "private_ok s \<Longrightarrow> S_evict s b \<noteq> None \<or> S_persist s b \<noteq> None \<Longrightarrow> b < M_next (S_m s) \<and> \<not> is_private s b"
  unfolding private_ok_def is_private_def by (metis linorder_not_less)

lemma sys_owner:
  assumes s: "sys_ok s" and i: "inert (S_m s) m'" and s': "S_m s' = m'" "S_ops s' = S_ops s" "S_prepared s' = S_prepared s"
    and others: "\<And>c. c \<noteq> b \<Longrightarrow> S_evict s' c = S_evict s c \<and> S_persist s' c = S_persist s c"
    and ev: "evict_ok s' b" and owned: "b < M_next (S_m s)" "\<not> is_private s b"
  shows "sys_ok s'"
proof -
  have s1: "sys_ok (set_m s m')" by (rule inert_sys [OF i s])
  then have ok: "alloc_ok m'" "ledger_ok m'" "inflight_ok (set_m s m')" "\<And>c. evict_ok (set_m s m') c" "private_ok (set_m s m')"
    by (simp_all add: sys_ok_def)
  have le: "M_next (S_m s) \<le> M_next m'" using i by (simp add: inert_def same_pointers_def)
  have "inflight_ok s'"
    using inflight_frame [OF ok(3), of m' s'] s' by simp
  moreover have "evict_ok s' c" for c
  proof (cases "c = b")
    case False
    from others [OF this] show ?thesis using s' by (intro evict_same [OF ok(4)]) simp_all
  qed (simp add: ev)
  moreover have "private_ok s'"
    unfolding private_ok_def s'
  proof (intro conjI allI impI)
    fix j c
    assume "S_prepared s j = Some c"
    then have c: "c < M_next m' \<and> c \<notin> snd ` set (M_beds m') \<and> S_evict s c = None \<and> S_persist s c = None" and "c \<noteq> b"
      using ok(5) owned(2) by (auto simp: private_ok_def is_private_def)
    with others [of c] show "c < M_next m'" "c \<notin> snd ` set (M_beds m')" "S_evict s' c = None" "S_persist s' c = None"
      by simp_all
  next
    fix j k c
    assume "S_prepared s j = Some c" "S_prepared s k = Some c"
    then show "j = k" using ok(5) by (simp add: private_ok_def)
  next
    fix c
    assume "M_next m' \<le> c"
    then have "S_evict s c = None" "S_persist s c = None" "c \<noteq> b" using ok(5) owned(1) le by (auto simp: private_ok_def)
    with others [of c] show "S_evict s' c = None" "S_persist s' c = None" by simp_all
  qed
  ultimately show ?thesis using ok s' by (simp add: sys_ok_def)
qed

lemma prepare_watermark:
  "persist_prepare m b saved = (m', Inr (meta, w)) \<Longrightarrow> w = mb_lastActiveAt (M_heap m' b) \<and> \<not> mb_purging (M_heap m b)"
  by (auto simp: persist_prepare_def Let_def split: if_split_asm)

lemma sys_persist_begin:
  assumes s: "sys_ok s" and p: "persist_prepare (S_m s) b True = (m', Inr mw)"
    and free: "S_persist s b = None" and owned: "b < M_next (S_m s)" "\<not> is_private s b"
    and s': "s' = s\<lparr>S_m := m', S_persist := (S_persist s)(b \<mapsto> mw), S_evict := ev\<rparr>"
    and ev: "ev = S_evict s \<or> (\<exists>n. S_evict s b = Some (Fenced n) \<and> ev = (S_evict s)(b \<mapsto> EvPersisting n))"
  shows "sys_ok s'"
proof -
  have ok: "alloc_ok (S_m s)" "evict_ok s b" using s by (simp_all add: sys_ok_def)
  obtain meta w where mw: "mw = (meta, w)" by (cases mw)
  have i: "inert (S_m s) m'" by (rule inert_prepare [OF ok(1) p])
  have "w = mb_lastActiveAt (M_heap m' b)" using prepare_watermark p mw by auto
  moreover have "same_activity (M_heap (S_m s) b) (M_heap m' b)" using i by (simp add: inert_def)
  ultimately have "evict_ok s' b"
    using ok(2) ev free by (auto simp: s' mw evict_ok_def Let_def same_activity_def split: option.splits evict_pc.splits)
  then show ?thesis
    using ev by (intro sys_owner [OF s i, of s' b]) (auto simp: s' owned)
qed

lemma sys_fence:
  assumes s: "sys_ok s" and e: "beginEvictionLocked (S_m s) b cutoff True now = (m', Inr True)"
  shows "sys_ok (s\<lparr>S_m := m', S_evict := (S_evict s)(b \<mapsto> Fenced (mb_activitySeq (M_heap m' b)))\<rparr>)"
proof -
  have ok: "alloc_ok (S_m s)" "private_ok s" using s by (simp_all add: sys_ok_def)
  have i: "inert (S_m s) m'" by (rule inert_fence [OF ok(1) e])
  have cur: "is_current (S_m s) b" using e by (auto simp: beginEvictionLocked_def split: if_split_asm)
  then have mem: "b \<in> snd ` set (M_beds (S_m s))" by (force simp: is_current_def dest: map_of_SomeD)
  then have "\<not> is_private s b" using ok(2) by (auto simp: is_private_def private_ok_def)
  moreover have "b < M_next (S_m s)" using cur ok(1) by (auto simp: is_current_def alloc_ok_def)
  ultimately show ?thesis
    by (intro sys_owner [OF s i, of _ b]) (simp_all add: evict_ok_def)
qed

lemma sys_evict_fails:
  assumes s: "sys_ok s" and e: "S_evict s b = Some pc"
  shows "sys_ok (s\<lparr>S_m := evict_resume (S_m s) b ready now, S_evict := (S_evict s)(b := None),
                    S_persist := (case pc of EvPersisting n \<Rightarrow> (S_persist s)(b := None) | _ \<Rightarrow> S_persist s)\<rparr>)"
proof -
  have ok: "alloc_ok (S_m s)" "private_ok s" using s by (simp_all add: sys_ok_def)
  have "b < M_next (S_m s) \<and> \<not> is_private s b" using private_owned [OF ok(2)] e by simp
  then show ?thesis
    by (intro sys_owner [OF s inert_resume [OF ok(1)], of _ b]) (auto simp: evict_ok_def split: evict_pc.splits)
qed

lemma sys_persist_fail:
  assumes s: "sys_ok s" and p: "S_persist s b = Some mw" and e: "\<And>n. S_evict s b \<noteq> Some (EvPersisting n)"
  shows "sys_ok (s\<lparr>S_persist := (S_persist s)(b := None)\<rparr>)"
proof -
  have ok: "alloc_ok (S_m s)" "private_ok s" "evict_ok s b" using s by (simp_all add: sys_ok_def)
  have "b < M_next (S_m s) \<and> \<not> is_private s b" using private_owned [OF ok(2)] p by simp
  then show ?thesis
    using ok(3) e by (intro sys_owner [OF s inert_refl [OF ok(1)], of _ b])
      (auto simp: evict_ok_def Let_def split: option.splits evict_pc.splits)
qed

section \<open>Steps that publish or remove a Bed\<close>

lemma ledger_remove:
  assumes m: "ledger_ok m" and n: "map_of (M_beds m) n = Some b"
    and m': "M_beds m' = al_del n (M_beds m)" "M_residentBeds m' = M_residentBeds m - 1"
      "M_pinnedBeds m' = M_pinnedBeds m - of_bool (pinnedLocked m b)" "M_models m' = M_models m"
    and heap: "\<And>c. mb_model (M_heap m' c) = mb_model (M_heap m c)" "\<And>c. pinnedLocked m' c = pinnedLocked m c"
  shows "ledger_ok m'"
proof -
  have dist: "distinct (keys (M_beds m))" using m by (simp add: ledger_ok_def)
  have "int (length (al_del n (M_beds m))) = int (length (M_beds m)) - 1"
    using length_filter_al_del [OF dist n, of "\<lambda>_. True"] by simp
  moreover have "pinned_count m' = pinned_count m - of_bool (pinnedLocked m b)"
    using length_filter_al_del [OF dist n, of "\<lambda>(i, c). pinnedLocked m c"] by (simp add: pinned_count_def m' heap)
  ultimately show ?thesis using m by (simp add: ledger_ok_def m' heap)
qed

lemma ledger_add:
  assumes m: "ledger_ok m" and n: "map_of (M_beds m) (bed_name m b) = None"
    and m': "M_beds m' = al_put (bed_name m b) b (M_beds m)" "M_residentBeds m' = M_residentBeds m + 1"
      "M_pinnedBeds m' = M_pinnedBeds m + of_bool (pinnedLocked m b)" "M_models m' = M_models m" "M_heap m' = M_heap m"
  shows "ledger_ok m'"
proof -
  have put: "al_put (bed_name m b) b (M_beds m) = M_beds m @ [(bed_name m b, b)]"
    using n by (intro al_put_absent) (simp add: map_of_eq_None_iff)
  have "pinnedLocked m' c = pinnedLocked m c" for c by (rule pinned_cong) (simp_all add: m')
  then have "pinned_count m' = pinned_count m + of_bool (pinnedLocked m b)"
    by (simp add: pinned_count_def m' put)
  moreover have "distinct (keys (M_beds m'))" using m by (simp add: ledger_ok_def m' del: distinct_map)
  moreover have "length (M_beds m') = length (M_beds m) + 1" by (simp add: m' put)
  ultimately show ?thesis using m by (simp add: ledger_ok_def m')
qed

text \<open>Taking \<open>b\<close> out of the table of Beds.\<close>

lemma sys_removed:
  assumes s: "sys_ok s" and n: "map_of (M_beds (S_m s)) n = Some b" and led: "ledger_ok m'"
    and m': "M_beds m' = al_del n (M_beds (S_m s))" "M_models m' = M_models (S_m s)" "M_next m' = M_next (S_m s)"
      "M_inits m' = M_inits (S_m s)" "M_locals m' = M_locals (S_m s)" "M_localIdentities m' = M_localIdentities (S_m s)"
      "M_pillowHolds m' = M_pillowHolds (S_m s)"
    and heap: "\<And>c. same_activity (M_heap (S_m s) c) (M_heap m' c)"
    and s': "S_m s' = m'" "S_ops s' = S_ops s" "S_prepared s' = S_prepared s" "S_persist s' = S_persist s"
      "S_evict s' = S_evict s \<or> S_evict s' = (S_evict s)(b := None)"
  shows "sys_ok s'"
proof -
  have ok: "alloc_ok (S_m s)" "inflight_ok s" "\<And>c. evict_ok s c" "private_ok s" using s by (simp_all add: sys_ok_def)
  have "alloc_ok m'" using ok(1) heap by (auto simp: alloc_ok_def m' same_activity_def split: if_split_asm)
  moreover have "inflight_ok s'"
    by (rule inflight_frame [OF ok(2), of m']) (use heap in \<open>simp_all add: m' s' same_activity_def\<close>)
  moreover have "evict_ok s' c" for c
  proof (cases "c = b \<and> S_evict s' = (S_evict s)(b := None)")
    case True
    then show ?thesis by (simp add: evict_ok_def)
  next
    case False
    then have "S_evict s' c = S_evict s c" using s'(5) by auto
    then show ?thesis
      using heap [of c] by - (rule evict_same [OF ok(3)], simp_all add: s'(1-4) same_activity_def)
  qed
  moreover have "private_ok s'"
  proof -
    have e: "S_evict s c = None \<longrightarrow> S_evict s' c = None" for c using s'(5) by auto
    have sub: "snd ` set (M_beds m') \<subseteq> snd ` set (M_beds (S_m s))" by (auto simp: m' al_del_def)
    show ?thesis by (rule private_shrinks [OF e _ ok(4) sub]) (simp_all add: s'(1-4) m'(3))
  qed
  ultimately show ?thesis using led by (simp add: sys_ok_def s')
qed

lemma evict_commit_cases:
  assumes "evict_commit m b n = (m', True)"
  shows "\<not> M_closed m \<and> is_current m b \<and> mb_inflight (M_heap m b) \<le> 0 \<and> mb_activitySeq (M_heap m b) = n
    \<and> m' = m\<lparr>M_retirements := al_put (bed_name m b) b (M_retirements m), M_beds := al_del (bed_name m b) (M_beds m),
              M_residentBeds := M_residentBeds m - 1\<rparr>"
  using assms by (auto simp: evict_commit_def split: if_split_asm)

lemma committed_unpinned:
  assumes s: "sys_ok s" and e: "S_evict s b = Some (EvPersisted n)" and c: "evict_commit (S_m s) b n = (m', True)"
  shows "\<not> pinnedLocked (S_m s) b \<and> op_total s b = 0 \<and> mb_persistedAt (M_heap (S_m s) b) = mb_lastActiveAt (M_heap (S_m s) b)"
proof -
  have ok: "evict_ok s b" "inflight_ok s" using s by (simp_all add: sys_ok_def)
  then have "mb_persistedAt (M_heap (S_m s) b) = mb_lastActiveAt (M_heap (S_m s) b)"
    using e evict_commit_cases [OF c] by (auto simp: evict_ok_def Let_def)
  moreover have "mb_inflight (M_heap (S_m s) b) = op_total s b" using ok(2) by (simp add: inflight_ok_def)
  moreover have "op_total s b \<ge> 0" by (simp add: op_total_def)
  ultimately show ?thesis
    using evict_commit_cases [OF c] by (auto simp: pinnedLocked_def dataSyncedLocked_def)
qed

lemma sys_evicted:
  assumes s: "sys_ok s" and e: "S_evict s b = Some (EvPersisted n)" and c: "evict_commit (S_m s) b n = (m', True)"
  shows "sys_ok (s\<lparr>S_m := m', S_evict := (S_evict s)(b := None)\<rparr>)"
proof -
  have cur: "map_of (M_beds (S_m s)) (bed_name (S_m s) b) = Some b" and m': "m' = (S_m s)\<lparr>M_retirements :=
      al_put (bed_name (S_m s) b) b (M_retirements (S_m s)), M_beds := al_del (bed_name (S_m s) b) (M_beds (S_m s)),
      M_residentBeds := M_residentBeds (S_m s) - 1\<rparr>"
    using evict_commit_cases [OF c] by (auto simp: is_current_def)
  have pin: "pinnedLocked m' x = pinnedLocked (S_m s) x" for x by (rule pinned_cong) (simp_all add: m')
  have led0: "ledger_ok (S_m s)" using s by (simp add: sys_ok_def)
  have led: "ledger_ok m'"
    using committed_unpinned [OF s e c] by - (rule ledger_remove [OF led0 cur _ _ _ _ _ pin], simp_all add: m')
  show ?thesis by (rule sys_removed [OF s cur led]) (simp_all add: m')
qed

lemma sys_detached:
  assumes s: "sys_ok s"
  shows "sys_ok (set_m s (fst (purge_detach (S_m s) name)))"
proof (cases "map_of (M_beds (S_m s)) name")
  case None
  with s show ?thesis by (simp add: purge_detach_def)
next
  case (Some b)
  let ?m1 = "with_bed (S_m s) b (\<lambda>r. r\<lparr>mb_purging := True\<rparr>)"
  let ?m2 = "?m1\<lparr>M_retirements := al_put name b (M_retirements ?m1), M_beds := al_del name (M_beds ?m1),
                 M_residentBeds := M_residentBeds ?m1 - 1\<rparr>"
  let ?m' = "fst (purge_detach (S_m s) name)"
  have pin: "pinnedLocked ?m2 c = pinnedLocked (S_m s) c" for c
    by (simp add: pinnedLocked_def dataSyncedLocked_def)
  have m': "?m' = (if pinnedLocked (S_m s) b then ?m2\<lparr>M_pinnedBeds := M_pinnedBeds ?m2 - 1\<rparr> else ?m2)"
    using Some pin by (simp add: purge_detach_def Let_def)
  have sel: "M_beds ?m' = al_del name (M_beds (S_m s))" "M_residentBeds ?m' = M_residentBeds (S_m s) - 1"
    "M_models ?m' = M_models (S_m s)" "M_heap ?m' = M_heap ?m1" "M_next ?m' = M_next (S_m s)"
    "M_inits ?m' = M_inits (S_m s)" "M_locals ?m' = M_locals (S_m s)" "M_localIdentities ?m' = M_localIdentities (S_m s)"
    "M_pillowHolds ?m' = M_pillowHolds (S_m s)"
    "M_pinnedBeds ?m' = M_pinnedBeds (S_m s) - of_bool (pinnedLocked (S_m s) b)"
    unfolding m' by (simp_all del: fun_upd_apply)
  have pin': "pinnedLocked ?m' c = pinnedLocked (S_m s) c" for c
    using sel(3,4) by (simp add: pinnedLocked_def dataSyncedLocked_def)
  have led: "ledger_ok ?m'"
    using s by (intro ledger_remove [OF _ Some sel(1,2,10,3) _ pin']) (simp_all add: sys_ok_def sel(4))
  show ?thesis by (rule sys_removed [OF s Some led sel(1,3,5-9)]) (simp_all add: sel(4) same_activity_def)
qed

lemma current_listed: "is_current m b \<Longrightarrow> b \<in> snd ` set (M_beds m)"
  by (force simp: is_current_def dest: map_of_SomeD)

lemma private_not_current: "private_ok s \<Longrightarrow> S_prepared s i = Some b \<Longrightarrow> \<not> is_current (S_m s) b"
  using current_listed unfolding private_ok_def by blast

lemma sys_allocated:
  assumes s: "sys_ok s" and free: "S_prepared s i = None" and a: "allocate_bed (S_m s) i = (m', b)"
  shows "sys_ok (s\<lparr>S_m := m', S_prepared := (S_prepared s)(i \<mapsto> b)\<rparr>)" (is "sys_ok ?s'")
proof -
  have ok: "alloc_ok (S_m s)" "ledger_ok (S_m s)" "inflight_ok s" "\<And>c. evict_ok s c" "private_ok s"
    using s by (simp_all add: sys_ok_def)
  have b: "b = M_next (S_m s)" using a unfolding allocate_bed_def by blast
  have m': "m' = (S_m s)\<lparr>M_heap := (M_heap (S_m s))(b := new_managedBed (S_m s) i), M_next := b + 1\<rparr>"
    using a unfolding allocate_bed_def b by blast
  have none: "S_evict s b = None" "S_persist s b = None" "op_total s b = 0"
    using ok(5) unfolding private_ok_def b by (blast, blast, use ok(3) in \<open>auto simp: inflight_ok_def\<close>)
  have in_beds: "c \<noteq> b" if c: "c \<in> snd ` set (M_beds (S_m s))" for c
  proof -
    obtain n where "(n, c) \<in> set (M_beds (S_m s))" using c unfolding in_values by (rule exE)
    then have "map_of (M_beds (S_m s)) n = Some c" using ok(2) by (simp add: ledger_ok_def)
    then show ?thesis using ok(1) by (auto simp: alloc_ok_def b)
  qed
  have "alloc_ok m'"
    using ok(1) by (simp add: alloc_ok_def m' b new_managedBed_def less_SucI)
  moreover have "ledger_ok m'"
  proof -
    have "pinned_count m' = pinned_count (S_m s)"
    proof (rule pinned_count_frame)
      show "pinnedLocked m' c = pinnedLocked (S_m s) c" if "c \<in> snd ` set (M_beds (S_m s))" for c
        using in_beds [OF that] by (intro pinned_cong) (simp_all add: m')
    qed (simp add: m')
    moreover have "bed_name m' c = n" if "map_of (M_beds (S_m s)) n = Some c" for n c
    proof -
      have "c < b" using ok(1) that by (auto simp: alloc_ok_def b)
      then show ?thesis using ok(2) that by (simp add: ledger_ok_def m')
    qed
    ultimately show ?thesis using ok(2) by (simp add: ledger_ok_def m')
  qed
  moreover have "inflight_ok ?s'"
  proof (rule inflight_okI)
    have t: "op_total ?s' c = op_total s c" "op_count ?s' c k = op_count s c k" for c k
      by (simp_all add: op_total_def op_count_def m')
    have "filter (\<lambda>x. fst x = b) (S_ops s) = []" "filter (\<lambda>h. snd h = b) (M_pillowHolds (S_m s)) = []"
      using none(3) by (simp_all add: op_total_def add_nonneg_eq_0_iff)
    then have "op_count s b k = 0" for k
      by (auto simp: op_count_def filter_empty_conv)
    then show "al_get k (mb_inflightByKind (M_heap (S_m ?s') c)) = op_count ?s' c k" for c k
      using ok(3) unfolding t by (simp add: inflight_ok_def m' new_managedBed_def al_get_def)
    show "mb_inflight (M_heap (S_m ?s') c) = op_total ?s' c" for c
      using ok(3) none(3) unfolding t by (simp add: inflight_ok_def m' new_managedBed_def)
    show "c < M_next (S_m ?s')" if "op_total ?s' c \<noteq> 0" for c
      using ok(3) that unfolding t by (simp add: inflight_ok_def m' b less_SucI)
    show "distinct (keys (M_pillowHolds (S_m ?s')))" using ok(3) by (simp add: inflight_ok_def m')
  qed
  moreover have "evict_ok ?s' c" for c
  proof (cases "c = b")
    case True
    then show ?thesis by (simp add: evict_ok_def none(1))
  next
    case False
    show ?thesis by (rule evict_same [OF ok(4)]) (simp_all add: m' False)
  qed
  moreover have "private_ok ?s'"
  proof -
    have old: "c < b \<and> c \<notin> snd ` set (M_beds (S_m s)) \<and> S_evict s c = None \<and> S_persist s c = None"
      if "S_prepared s j = Some c" for j c
      using ok(5) that unfolding private_ok_def b by blast
    have inj: "j = k" if "S_prepared s j = Some c" "S_prepared s k = Some c" for j k c
      using ok(5) that unfolding private_ok_def by blast
    have new: "S_evict s c = None \<and> S_persist s c = None" if "b + 1 \<le> c" for c
      using ok(5) that by (simp add: private_ok_def b)
    have nb: "b \<notin> snd ` set (M_beds (S_m s))" using in_beds by blast
    have sel: "M_beds (S_m ?s') = M_beds (S_m s)" "M_next (S_m ?s') = b + 1" by (simp_all add: m')
    show ?thesis
      unfolding private_ok_def sel
    proof (intro conjI allI impI)
      fix j c
      assume "S_prepared ?s' j = Some c"
      then have "j = i \<and> c = b \<or> S_prepared s j = Some c" by (auto split: if_split_asm)
      then show "c < b + 1" "c \<notin> snd ` set (M_beds (S_m s))" "S_evict ?s' c = None" "S_persist ?s' c = None"
        using old [of j c] none nb by auto
    next
      fix j k c
      assume "S_prepared ?s' j = Some c" "S_prepared ?s' k = Some c"
      then show "j = k" using old [of j b] old [of k b] inj [of j c k] by (auto split: if_split_asm)
    next
      fix c
      assume "b + 1 \<le> c"
      then show "S_evict ?s' c = None" "S_persist ?s' c = None" using new by simp_all
    qed
  qed
  ultimately show ?thesis by (simp add: sys_ok_def)
qed

lemma prepare_sel:
  "M_beds (prepare_resident m b sn re ms n now) = M_beds m"
  "M_residentBeds (prepare_resident m b sn re ms n now) = M_residentBeds m"
  "M_pinnedBeds (prepare_resident m b sn re ms n now) = M_pinnedBeds m"
  "M_pillowHolds (prepare_resident m b sn re ms n now) = M_pillowHolds m"
  "M_next (prepare_resident m b sn re ms n now) = M_next m"
  "M_inits (prepare_resident m b sn re ms n now) = M_inits m"
  "M_locals (prepare_resident m b sn re ms n now) = M_locals m"
  "M_localIdentities (prepare_resident m b sn re ms n now) = M_localIdentities m"
  "Bed_Name (M_models (prepare_resident m b sn re ms n now) q) = Bed_Name (M_models m q)"
  "SP_StoreKind (Bed_Spec (M_models (prepare_resident m b sn re ms n now) q)) = SP_StoreKind (Bed_Spec (M_models m q))"
  "c \<noteq> b \<Longrightarrow> M_heap (prepare_resident m b sn re ms n now) c = M_heap m c"
  "mb_model (M_heap (prepare_resident m b sn re ms n now) b) = mb_model (M_heap m b)"
  "mb_inflight (M_heap (prepare_resident m b sn re ms n now) b) = mb_inflight (M_heap m b)"
  "mb_inflightByKind (M_heap (prepare_resident m b sn re ms n now) b) = mb_inflightByKind (M_heap m b)"
  "mb_activitySeq (M_heap (prepare_resident m b sn re ms n now) b) = mb_activitySeq (M_heap m b)"
  by (simp_all add: prepare_resident_def Let_def saveMeta_def)

lemma one_prepare:
  assumes m: "alloc_ok m" and b: "\<not> is_current m b"
  shows "\<exists>f. one_bed m b f (prepare_resident m b snapshot restored restoreMs localBytes now)
    \<and> (\<forall>r. mb_model (f r) = mb_model r \<and> mb_inflight (f r) = mb_inflight r \<and> mb_inflightByKind (f r) = mb_inflightByKind r)"
proof -
  let ?m' = "prepare_resident m b snapshot restored restoreMs localBytes now"
  let ?f = "\<lambda>r. r\<lparr>mb_lastActiveAt := mb_lastActiveAt (M_heap ?m' b), mb_persistedAt := mb_persistedAt (M_heap ?m' b)\<rparr>"
  have ok: "alloc_ok (with_bed m b ?f)" by (rule alloc_with_bed [OF m]) simp
  have act: "same_activity (M_heap (with_bed m b ?f) c) (M_heap ?m' c)" for c
    by (cases "c = b") (simp_all add: same_activity_def prepare_sel)
  have model: "mb_model (M_heap ?m' c) = mb_model (M_heap m c)" for c
    by (cases "c = b") (simp_all add: prepare_sel)
  have "inert (with_bed m b ?f) ?m'"
    using m act by (simp add: inert_def same_pointers_def alloc_ok_def model prepare_sel)
  with b inert_alloc [OF this ok] have "one_bed m b ?f ?m'"
    unfolding one_bed_def by (auto intro!: exI [of _ ?m'] inert_refl)
  then show ?thesis by (intro exI [of _ ?f]) simp
qed

lemma sys_prepared:
  assumes s: "sys_ok s" and p: "S_prepared s i = Some b"
  shows "sys_ok (set_m s (prepare_resident (S_m s) b snapshot restored restoreMs localBytes now))" (is "sys_ok (set_m s ?m')")
proof -
  have ok: "alloc_ok (S_m s)" "private_ok s" "inflight_ok s" using s by (simp_all add: sys_ok_def)
  obtain f where f: "one_bed (S_m s) b f ?m'"
    and same: "\<And>r. mb_model (f r) = mb_model r \<and> mb_inflight (f r) = mb_inflight r \<and> mb_inflightByKind (f r) = mb_inflightByKind r"
    using one_prepare [OF ok(1) private_not_current [OF ok(2) p]] by blast
  show ?thesis
  proof (rule sys_one_bed [OF s _ f])
    assume act: "\<And>c. same_activity (activity_of (S_m s) b f c) (M_heap ?m' c)"
      and "M_pillowHolds ?m' = M_pillowHolds (S_m s)" "M_next (S_m s) \<le> M_next ?m'"
    note rest = this
    have "mb_inflight (M_heap ?m' c) = mb_inflight (M_heap (S_m s) c)
        \<and> mb_inflightByKind (M_heap ?m' c) = mb_inflightByKind (M_heap (S_m s) c)" for c
      using act [of c] same [of "M_heap (S_m s) b"] by (auto simp: activity_of_def same_activity_def split: if_split_asm)
    from inflight_frame [OF ok(3) this rest(2,3)] show "inflight_ok (set_m s ?m')" by simp
  next
    show "evict_ok (set_m s ?m') b" using ok(2) p by (simp add: private_ok_def evict_ok_def)
  qed (simp_all add: same)
qed

lemma sys_abandoned:
  assumes "sys_ok s"
  shows "sys_ok (s\<lparr>S_prepared := (S_prepared s)(i := None)\<rparr>)"
proof -
  have ok: "inflight_ok s" "\<And>c. evict_ok s c" "private_ok s" using assms by (simp_all add: sys_ok_def)
  let ?s' = "s\<lparr>S_prepared := (S_prepared s)(i := None)\<rparr>"
  have "inflight_ok ?s'" by (rule inflight_frame [OF ok(1)]) simp_all
  moreover have "evict_ok ?s' c" for c by (rule evict_same [OF ok(2)]) simp_all
  moreover have "private_ok ?s'" using ok(3) by (auto simp: private_ok_def)
  ultimately show ?thesis using assms by (simp add: sys_ok_def)
qed

lemma publish_cases:
  assumes "publishInitializedBed m i b ready now = (m', Inr ())"
  shows "\<exists>m2. (alloc_ok m \<longrightarrow> inert m m2) \<and> map_of (M_beds m2) (bed_name m2 b) = None
    \<and> M_heap m2 = M_heap m \<and> M_next m2 = M_next m
    \<and> m' = m2\<lparr>M_beds := al_put (bed_name m2 b) b (M_beds m2),
              M_initializations := al_del (bed_name m2 b) (M_initializations m2),
              M_residentBeds := M_residentBeds m2 + 1,
              M_pinnedBeds := M_pinnedBeds m2 + of_bool (pinnedLocked m2 b)\<rparr>"
proof -
  let ?m2 = "setLifecycle (keepaliveLocked m b now) (mb_model (M_heap (keepaliveLocked m b now) b))
     (lifecycle_status PhaseResident ready (if ready then ''Initialized'' else ''RequiredPillowUnavailable'') now)"
  let ?m3 = "?m2\<lparr>M_beds := al_put (bed_name ?m2 b) b (M_beds ?m2),
              M_initializations := al_del (bed_name ?m2 b) (M_initializations ?m2),
              M_residentBeds := M_residentBeds ?m2 + 1\<rparr>"
  let ?refused = "M_closed m \<or> map_of (M_initializations m) (init_name m i) \<noteq> Some i \<or> init_phase m i \<noteq> PhaseInitializing"
  have ok: "\<not> ?refused"
  proof
    assume ?refused
    then have "publishInitializedBed m i b ready now = (m, Inl ErrCanceled)"
      by (simp only: publishInitializedBed_def if_True)
    with assms show False by simp
  qed
  have none: "map_of (M_beds m) (bed_name m b) = None"
  proof (rule ccontr)
    assume "map_of (M_beds m) (bed_name m b) \<noteq> None"
    with ok have "publishInitializedBed m i b ready now = (m, Inl (ErrBecameResident (bed_name m b)))"
      by (simp only: publishInitializedBed_def if_True if_False simp_thms)
    with assms show False by simp
  qed
  have "publishInitializedBed m i b ready now =
      (if pinnedLocked ?m3 b then ?m3\<lparr>M_pinnedBeds := M_pinnedBeds ?m3 + 1\<rparr> else ?m3, Inr ())"
    using ok none by (simp only: publishInitializedBed_def if_False Let_def simp_thms)
  with assms have m': "m' = (if pinnedLocked ?m3 b then ?m3\<lparr>M_pinnedBeds := M_pinnedBeds ?m3 + 1\<rparr> else ?m3)"
    by (simp only: prod.inject)
  have "pinnedLocked ?m3 b = pinnedLocked ?m2 b" by (rule pinned_cong) simp_all
  then have "m' = ?m2\<lparr>M_beds := al_put (bed_name ?m2 b) b (M_beds ?m2),
              M_initializations := al_del (bed_name ?m2 b) (M_initializations ?m2),
              M_residentBeds := M_residentBeds ?m2 + 1,
              M_pinnedBeds := M_pinnedBeds ?m2 + of_bool (pinnedLocked ?m2 b)\<rparr>"
    unfolding m' by simp
  moreover have "inert m ?m2" if "alloc_ok m"
    using that by (intro inert_then [OF inert_keepalive _ inert_setLifecycle])
  moreover have "map_of (M_beds ?m2) (bed_name ?m2 b) = None" "M_heap ?m2 = M_heap m" "M_next ?m2 = M_next m"
    using none by (simp_all add: setLifecycle_def)
  ultimately show ?thesis by blast
qed

lemma sys_published:
  assumes s: "sys_ok s" and p: "S_prepared s i = Some b"
    and r: "publishInitializedBed (S_m s) i b ready now = (m', Inr ())"
  shows "sys_ok (s\<lparr>S_m := m', S_prepared := (S_prepared s)(i := None)\<rparr>)" (is "sys_ok ?s'")
proof -
  obtain m2 where i2: "alloc_ok (S_m s) \<longrightarrow> inert (S_m s) m2" and none: "map_of (M_beds m2) (bed_name m2 b) = None"
    and m': "m' = m2\<lparr>M_beds := al_put (bed_name m2 b) b (M_beds m2),
              M_initializations := al_del (bed_name m2 b) (M_initializations m2),
              M_residentBeds := M_residentBeds m2 + 1,
              M_pinnedBeds := M_pinnedBeds m2 + of_bool (pinnedLocked m2 b)\<rparr>"
    using publish_cases [OF r] by blast
  have "alloc_ok (S_m s)" using s by (simp add: sys_ok_def)
  then have "sys_ok (set_m s m2)" using i2 inert_sys s by blast
  then have ok: "alloc_ok m2" "ledger_ok m2" "inflight_ok (set_m s m2)" "\<And>c. evict_ok (set_m s m2) c" "private_ok (set_m s m2)"
    by (simp_all add: sys_ok_def)
  have b: "b < M_next m2" using ok(5) p by (simp add: private_ok_def)
  have "ledger_ok m'" by (rule ledger_add [OF ok(2) none]) (simp_all add: m')
  moreover have "alloc_ok m'" using ok(1) b by (simp add: alloc_ok_def m')
  moreover have "inflight_ok ?s'" by (rule inflight_frame [OF ok(3)]) (simp_all add: m')
  moreover have "evict_ok ?s' c" for c by (rule evict_same [OF ok(4)]) (simp_all add: m')
  moreover have "private_ok ?s'"
  proof -
    have put: "set (M_beds m') = insert (bed_name m2 b, b) (set (M_beds m2))"
      using none by (subst m') (simp add: al_put_absent map_of_eq_None_iff)
    have "c \<noteq> b" if "S_prepared s j = Some c" "j \<noteq> i" for j c using ok(5) p that by (auto simp: private_ok_def)
    moreover have "M_next m' = M_next m2" by (simp add: m')
    ultimately show ?thesis using ok(5) by (auto simp: private_ok_def put split: if_split_asm)
  qed
  ultimately show ?thesis by (simp add: sys_ok_def)
qed

section \<open>The invariant holds in every reachable state\<close>

lemma inert_step: "sys_ok s \<Longrightarrow> (alloc_ok (S_m s) \<Longrightarrow> inert (S_m s) m') \<Longrightarrow> sys_ok (set_m s m')"
  by (rule inert_sys) (auto simp: sys_ok_def)

lemma sys_step_ok: "sys_step s s' \<Longrightarrow> sys_ok s \<Longrightarrow> sys_ok s'"
proof (induction rule: sys_step.induct)
  case (begin_operation s b kind timeout now d m)
  then show ?case by (simp add: sys_begin)
next
  case (finish_operation b kind s now)
  then show ?case by (simp add: sys_finish)
next
  case (hold_registers b s hold)
  then show ?case by (metis sys_hold_registers)
next
  case (hold_ends s hold b)
  then show ?case by (metis sys_hold_ends)
next
  case (touch s b now)
  then show ?case
    using sys_touched [OF touch one_touch] by (cases "is_current (S_m s) b") (auto simp: sys_ok_def touchBed_def)
next
  case (open_session s b sid now d m)
  have "alloc_ok (S_m s)" using open_session.prems by (simp add: sys_ok_def)
  from one_session [OF this open_session.hyps] show ?case by (blast intro: sys_touched [OF open_session.prems])
next
  case (close_session s b sid)
  then show ?case by (rule inert_step) (simp add: CloseSession_def inert_with_bed same_activity_def)
next
  case (record_command s b ms)
  then show ?case by (rule inert_step) (simp add: RecordCommand_def inert_with_bed same_activity_def)
next
  case (renew s bo e now)
  then show ?case by (rule inert_step) (rule inert_renew)
next
  case (pillows_changed s p ready now)
  then show ?case by (rule inert_step) (rule inert_pillowsChanged)
next
  case (persist_begin s b m mw)
  show ?case
    by (rule sys_persist_begin [OF persist_begin.prems persist_begin.hyps(4,1,3,2), where ev = "S_evict s"]) simp_all
next
  case (persist_fail s b mw)
  then show ?case by (metis sys_persist_fail)
next
  case (persist_done s b meta w oc)
  have "alloc_ok (S_m s)" using persist_done.prems by (simp add: sys_ok_def)
  from sys_persisted [OF persist_done.prems one_commit [OF this] persist_done.hyps(1)] persist_done.hyps(2)
  show ?case by simp
next
  case (evict_fence s b cutoff now m)
  then show ?case by (metis sys_fence)
next
  case (evict_revoke s b n)
  show ?case using evict_revoke.prems by (rule inert_step) (rule inert_revoke)
next
  case (evict_persist_begin s b n m mw)
  then have "b < M_next (S_m s) \<and> \<not> is_private s b"
    by (intro private_owned) (auto simp: sys_ok_def)
  then have owned: "b < M_next (S_m s)" "\<not> is_private s b" by simp_all
  show ?case
    by (rule sys_persist_begin [OF evict_persist_begin.prems evict_persist_begin.hyps(3,2) owned refl])
      (simp add: evict_persist_begin.hyps(1))
next
  case (evict_persist_done s b n meta w oc)
  have "alloc_ok (S_m s)" using evict_persist_done.prems by (simp add: sys_ok_def)
  from sys_persisted [OF evict_persist_done.prems one_commit [OF this] evict_persist_done.hyps(2)] evict_persist_done.hyps(1)
  show ?case by simp
next
  case (evict_commits s b n m)
  then show ?case by (metis sys_evicted)
next
  case (evict_fails s b pc ready now)
  then show ?case by (metis sys_evict_fails)
next
  case (teardown_runs s b oc)
  then show ?case by (rule inert_step) (rule inert_teardown)
next
  case (retirement_done s name)
  then show ?case by (rule inert_step) (rule inert_tables)
next
  case (retirement_kept s b)
  then show ?case by (rule inert_step) (rule inert_tables)
next
  case (identity_claimed s name bedid)
  then show ?case by (rule inert_step) (metis localIdentity_spec prod.collapse)
next
  case (identity_cleanup s l c)
  then show ?case by (rule inert_step) (rule inert_cleanup)
next
  case (identity_forgotten s l now)
  then show ?case by (rule inert_step) (rule inert_forget)
next
  case (init_begins s digest available name bedid options selected now d)
  then show ?case by (rule inert_step) (use init_begins in \<open>simp add: sys_ok_def inert_beginInit\<close>)
next
  case (init_progress s i reason now)
  then show ?case by (rule inert_step) (rule inert_progress)
next
  case (init_paths digest restored s p spec)
  show ?case using init_paths.prems by (rule inert_step) (rule inert_spec, simp_all add: preparePaths_kind [OF init_paths.hyps])
next
  case (init_allocates s i m b)
  then show ?case by (metis sys_allocated)
next
  case (init_prepares s i b snapshot restored restoreMs localBytes now)
  then show ?case by (metis sys_prepared)
next
  case (init_publishes s i b ready now m)
  then show ?case by (metis sys_published)
next
  case (init_gives_up s i b)
  then show ?case by (metis sys_abandoned)
next
  case (init_finishes s i reason resident err now)
  then show ?case by (rule inert_step) (rule inert_finishInit)
next
  case (init_cancelled s name)
  then show ?case by (rule inert_step) (rule inert_cancel)
next
  case (failed_pruned s now)
  then show ?case by (rule inert_step) (rule inert_prune)
next
  case (purge_begins s name)
  then show ?case by (rule inert_step) (rule inert_beginPurge)
next
  case (purge_detaches s name)
  then show ?case by (rule sys_detached)
next
  case (purge_finishes s name token)
  then show ?case by (rule inert_step) (rule inert_finishPurge)
next
  case (manager_closes s)
  then show ?case by (rule inert_step) (rule inert_tables)
qed

lemma sys_start_ok: "sys_start s \<Longrightarrow> sys_ok s"
  by (auto simp: sys_start_def sys_ok_def alloc_ok_def ledger_ok_def pinned_count_def inflight_ok_def op_total_def
      op_count_def al_get_def evict_ok_def private_ok_def)

interpretation bed_manager: state_machine sys_start sys_step sys_ok
  by unfold_locales (auto intro: sys_start_ok sys_step_ok)

section \<open>A run of the system\<close>

text \<open>One Bed is created, published, used once, and evicted. \<open>sample_run k\<close> is the state after \<open>k\<close> steps.\<close>

definition sample_empty :: Manager where
  "sample_empty = \<lparr>
     M_models = (\<lambda>_. \<lparr> Bed_ID = [], Bed_Name = [],
       Bed_Spec = \<lparr> SP_Volumes = None, SP_Pillows = [], SP_Dir = [], SP_CreatedAt = 0, SP_StoreKind = SyncNoop,
         SP_NetworkPolicy = None, SP_LocalPresent = False, SP_LocalGeneration = 0 \<rparr>,
       Bed_Lifecycle = lifecycle_status PhaseUnset False [] 0,
       Bed_Store = \<lparr> ST_SnapshotGeneration = 0, ST_SnapshotBytes = 0, ST_LocalBytes = 0 \<rparr> \<rparr>),
     M_heap = (\<lambda>_. \<lparr> mb_model = 0, mb_local = 0, mb_lastActiveAt = 0, mb_idleTTL = 0, mb_inflight = 0,
       mb_inflightByKind = [], mb_activitySeq = 0, mb_generation = 0, mb_persistedAt = 0, mb_purging = False,
       mb_shells = [], mb_sessions = [],
       mb_usage = \<lparr> US_CmdCount = 0, US_CmdTotalMs = 0, US_LastPersistMs = 0, US_LastRestoreMs = 0 \<rparr>,
       mb_runtimeClosed = False \<rparr>),
     M_inits = (\<lambda>_. \<lparr> bi_model = 0, bi_local = 0, bi_startedAt = 0, bi_cancelled = False, bi_done = False,
       bi_bed = None, bi_err = None \<rparr>),
     M_locals = (\<lambda>_. \<lparr> li_bed = 0, li_cleanup = None \<rparr>), M_next = 1, M_root = ''/r'', M_closed = False,
     M_maxBeds = 2, M_maxPinnedBeds = 2, M_pressurePercent = 80, M_bedIdleTTL = 600, M_pinnedBeds = 0,
     M_residentBeds = 0, M_beds = [], M_initializations = [], M_purges = [], M_retirements = [],
     M_localIdentities = [], M_pillowHolds = [], M_meta = Map.empty \<rparr>"

definition sample_options :: CreateOptions where
  "sample_options = \<lparr> CO_Volumes = None, CO_Pillows = [], CO_NetworkPolicy = None \<rparr>"

definition sample_persist :: persist_outcome where
  "sample_persist = \<lparr> po_saved = True, po_upload = None, po_snapshot = Some (1, 64), po_localBytes = 80, po_millis = 3,
     po_final = True \<rparr>"

definition sample_state :: "Manager \<Rightarrow> Sys" where
  "sample_state m = \<lparr> S_m = m, S_ops = [], S_persist = Map.empty, S_evict = Map.empty, S_prepared = Map.empty \<rparr>"

definition sample_begun :: Manager where
  "sample_begun = fst (beginInitialization (\<lambda>_. False) (\<lambda>_. ''d'') True sample_empty ''b1'' ''id'' sample_options (Inr SyncCAS) 100 None)"

definition sample_allocated :: Manager where
  "sample_allocated = fst (allocate_bed sample_begun 3)"

definition sample_restored :: Manager where
  "sample_restored = prepare_resident sample_allocated 4 None False 0 10 110"

definition sample_published :: Manager where
  "sample_published = fst (publishInitializedBed sample_restored 3 4 True 120)"

definition sample_busy :: Manager where
  "sample_busy = fst (BeginOperation sample_published 4 OpExec 0 200 None)"

definition sample_idle :: Manager where
  "sample_idle = finishOperation sample_busy 4 OpExec 300"

definition sample_fenced :: Manager where
  "sample_fenced = fst (beginEvictionLocked sample_idle 4 None True 400)"

definition sample_packed :: Manager where
  "sample_packed = fst (persist_prepare sample_fenced 4 True)"

definition sample_meta :: "bedMeta \<times> time" where
  "sample_meta = (case snd (persist_prepare sample_fenced 4 True) of Inr mw \<Rightarrow> mw | Inl _ \<Rightarrow> (fresh_meta sample_fenced 4, 0))"

definition sample_durable :: Manager where
  "sample_durable = persist_commit sample_packed 4 (fst sample_meta) (snd sample_meta) sample_persist"

lemma sample_results:
  "snd (allocate_bed sample_begun 3) = 4"
  "snd (publishInitializedBed sample_restored 3 4 True 120) = Inr ()"
  "snd (BeginOperation sample_published 4 OpExec 0 200 None) = Inr ()"
  "snd (beginEvictionLocked sample_idle 4 None True 400) = Inr True"
  "mb_activitySeq (M_heap sample_fenced 4) = 2"
  "snd (persist_prepare sample_fenced 4 True) = Inr sample_meta"
  "snd (evict_commit sample_durable 4 2)"
  by code_simp+

lemma sample_started: "sys_start (sample_state sample_empty)"
  by (simp add: sys_start_def sample_state_def sample_empty_def)

lemma sample_resident: "sys_step\<^sup>*\<^sup>* (sample_state sample_empty) (sample_state sample_published)"
proof -
  have a: "sys_step (sample_state sample_empty) (sample_state sample_begun)"
    using init_begins [of "sample_state sample_empty" "\<lambda>_. False" "\<lambda>_. ''d''" True "''b1''" "''id''" sample_options "Inr SyncCAS" 100 None]
    by (simp add: sample_state_def sample_begun_def)
  have b: "sys_step (sample_state sample_begun) ((sample_state sample_allocated)\<lparr>S_prepared := [3 \<mapsto> 4]\<rparr>)"
    using init_allocates [of "sample_state sample_begun" 3 sample_allocated 4] sample_results(1)
    by (simp add: sample_state_def sample_allocated_def prod_eq_iff)
  have c: "sys_step ((sample_state sample_allocated)\<lparr>S_prepared := [3 \<mapsto> 4]\<rparr>) ((sample_state sample_restored)\<lparr>S_prepared := [3 \<mapsto> 4]\<rparr>)"
    using init_prepares [of "(sample_state sample_allocated)\<lparr>S_prepared := [3 \<mapsto> 4]\<rparr>" 3 4 None False 0 10 110]
    by (simp add: sample_state_def sample_restored_def)
  have d: "sys_step ((sample_state sample_restored)\<lparr>S_prepared := [3 \<mapsto> 4]\<rparr>) (sample_state sample_published)"
    using init_publishes [of "(sample_state sample_restored)\<lparr>S_prepared := [3 \<mapsto> 4]\<rparr>" 3 4 True 120 sample_published] sample_results(2)
    by (simp add: sample_state_def sample_published_def prod_eq_iff)
  show ?thesis using a b c d by (meson converse_rtranclp_into_rtranclp rtranclp.rtrancl_refl)
qed

lemma sample_reaches_fence:
  "sys_step\<^sup>*\<^sup>* (sample_state sample_empty) ((sample_state sample_fenced)\<lparr>S_evict := [4 \<mapsto> Fenced 2]\<rparr>)"
proof -
  have a: "sys_step (sample_state sample_published) ((sample_state sample_busy)\<lparr>S_ops := [(4, OpExec)]\<rparr>)"
    using begin_operation [of "sample_state sample_published" 4 OpExec 0 200 None sample_busy] sample_results(3)
    by (simp add: sample_state_def sample_busy_def prod_eq_iff)
  have b: "sys_step ((sample_state sample_busy)\<lparr>S_ops := [(4, OpExec)]\<rparr>) (sample_state sample_idle)"
    using finish_operation [of 4 OpExec "(sample_state sample_busy)\<lparr>S_ops := [(4, OpExec)]\<rparr>" 300]
    by (simp add: sample_state_def sample_idle_def)
  have c: "sys_step (sample_state sample_idle) ((sample_state sample_fenced)\<lparr>S_evict := [4 \<mapsto> Fenced 2]\<rparr>)"
    using evict_fence [of "sample_state sample_idle" 4 None 400 sample_fenced] sample_results(4,5)
    by (simp add: sample_state_def sample_fenced_def prod_eq_iff)
  show ?thesis using sample_resident a b c by (meson rtranclp.rtrancl_into_rtrancl)
qed

lemma sample_evicting:
  "sys_step\<^sup>*\<^sup>* (sample_state sample_empty) ((sample_state sample_durable)\<lparr>S_evict := [4 \<mapsto> EvPersisted 2]\<rparr>)"
proof -
  have d: "sys_step ((sample_state sample_fenced)\<lparr>S_evict := [4 \<mapsto> Fenced 2]\<rparr>)
      ((sample_state sample_packed)\<lparr>S_persist := [4 \<mapsto> sample_meta], S_evict := [4 \<mapsto> EvPersisting 2]\<rparr>)"
    using evict_persist_begin [of "(sample_state sample_fenced)\<lparr>S_evict := [4 \<mapsto> Fenced 2]\<rparr>" 4 2 sample_packed sample_meta] sample_results(6)
    by (simp add: sample_state_def sample_packed_def prod_eq_iff)
  have e: "sys_step ((sample_state sample_packed)\<lparr>S_persist := [4 \<mapsto> sample_meta], S_evict := [4 \<mapsto> EvPersisting 2]\<rparr>)
      ((sample_state sample_durable)\<lparr>S_evict := [4 \<mapsto> EvPersisted 2]\<rparr>)"
    using evict_persist_done [of "(sample_state sample_packed)\<lparr>S_persist := [4 \<mapsto> sample_meta], S_evict := [4 \<mapsto> EvPersisting 2]\<rparr>"
        4 2 "fst sample_meta" "snd sample_meta" sample_persist]
    by (simp add: sample_state_def sample_durable_def)
  show ?thesis using sample_reaches_fence d e by (meson rtranclp.rtrancl_into_rtrancl)
qed

section \<open>Properties\<close>

text \<open>C2: the lock-free counters of the manager are exact in every state the system reaches, however
  requests, persists, evictions, initializations and purges interleave: \<open>pinnedBeds\<close> is the number of
  published Beds with work in flight or unsaved data, \<open>residentBeds\<close> the number of published Beds, and
  a name has one published Bed.\<close>

theorem counters_exact:
  assumes "sys_start s" and "sys_step\<^sup>*\<^sup>* s t"
  shows "M_pinnedBeds (S_m t) = pinned_count (S_m t) \<and> M_residentBeds (S_m t) = int (length (M_beds (S_m t)))
    \<and> distinct (keys (M_beds (S_m t)))"
  using bed_manager.inv_reachable [OF assms] by (simp add: sys_ok_def ledger_ok_def)

theorem counters_exact_witness:
  "M_pinnedBeds sample_published = pinned_count sample_published \<and> M_residentBeds sample_published = 1"
  using counters_exact [OF sample_started sample_resident]
  by (simp add: sample_state_def) code_simp

text \<open>C3: a Bed's in-flight counters are exact: \<open>inflight\<close> is the number of its operations and pillow
  holds that have begun and not finished, and \<open>inflightByKind\<close> counts them by kind, so that neither
  becomes negative nor keeps a Bed alive after its work.\<close>

theorem inflight_exact:
  assumes "sys_start s" and "sys_step\<^sup>*\<^sup>* s t"
  shows "mb_inflight (M_heap (S_m t) b) = op_total t b \<and> 0 \<le> mb_inflight (M_heap (S_m t) b)
    \<and> al_get kind (mb_inflightByKind (M_heap (S_m t) b)) = op_count t b kind"
proof -
  have "inflight_ok t" using bed_manager.inv_reachable [OF assms] by (simp add: sys_ok_def)
  moreover have "0 \<le> op_total t b" by (simp add: op_total_def)
  ultimately show ?thesis by (simp add: inflight_ok_def)
qed

theorem inflight_exact_witness:
  "mb_inflight (M_heap sample_published 4) = 0 \<and> al_get OpExec (mb_inflightByKind (M_heap sample_published 4)) = 0"
  using inflight_exact [OF sample_started sample_resident, of 4 OpExec]
  by (simp add: sample_state_def op_total_def op_count_def) code_simp

text \<open>C1: eviction loses no data. When the commit of an eviction removes a Bed from the published Beds, in
  any interleaving, then nothing of that Bed is in flight and its last activity is the one that a finished
  snapshot captured, so the Bed is not pinned.\<close>

theorem eviction_commits_durable:
  assumes "sys_start s" and "sys_step\<^sup>*\<^sup>* s t" and "S_evict t b = Some (EvPersisted n)"
    and "evict_commit (S_m t) b n = (m, True)"
  shows "op_total t b = 0 \<and> mb_persistedAt (M_heap (S_m t) b) = mb_lastActiveAt (M_heap (S_m t) b)
    \<and> \<not> pinnedLocked (S_m t) b"
  using committed_unpinned [OF bed_manager.inv_reachable [OF assms(1,2)] assms(3,4)] by blast

theorem eviction_commits_durable_witness:
  "mb_persistedAt (M_heap sample_durable 4) = mb_lastActiveAt (M_heap sample_durable 4) \<and> \<not> pinnedLocked sample_durable 4"
  using eviction_commits_durable [OF sample_started sample_evicting, of 4 2 "fst (evict_commit sample_durable 4 2)"] sample_results(7)
  by (simp add: sample_state_def prod_eq_iff)

end
