(* ===== verification/Bed_Contracts.thy ===== *)
theory Bed_Contracts
  imports Bed_Manager
begin

text \<open>
  Contracts of single requests to the Bed Manager: what an admitted operation, a renewal, a persist, an
  idle collection, a purge and a new initialization promise to their callers, on every branch. The
  concrete states of the witnesses are those of the run in \<open>Bed_Manager\<close>.
\<close>

section \<open>Operations and retention\<close>

lemma clamp_bounds: "0 < clamp_timeout t" "clamp_timeout t \<le> MaxOperationTimeout"
  by (auto simp: clamp_timeout_def Let_def MaxOperationTimeout_def DefaultOperationTimeout_def)

lemma retained_keepalive:
  "retainedUntilLocked (keepaliveLocked m b t) b =
     retentionDeadline (max (LS_KeepaliveAt (bed_lifecycle m b)) t) (mb_idleTTL (M_heap m b))"
  by (simp add: retainedUntilLocked_def keepalive_at)

lemma deadline_mono: "0 < k \<Longrightarrow> k \<le> k' \<Longrightarrow> retentionDeadline k ttl \<le> retentionDeadline k' ttl"
  by (simp add: retentionDeadline_def)

text \<open>An admitted operation protects its Bed. The Bed's retention deadline is at least the time of
  admission plus the clamped timeout (at most two hours) plus the idle TTL and never moves back, and
  while the operation is outstanding no eviction, explicit or by expiry, can pass its fence.\<close>

theorem operation_protects_bed:
  assumes "BeginOperation m b kind timeout now d = (m', Inr ())"
    and "0 \<le> mb_inflight (M_heap m b)" and "0 < mb_idleTTL (M_heap m b)"
    and "0 < LS_KeepaliveAt (bed_lifecycle m b)"
  shows "retainedUntilLocked m' b \<ge> now + clamp_timeout timeout + mb_idleTTL (M_heap m b)
    \<and> retainedUntilLocked m' b \<ge> retainedUntilLocked m b
    \<and> beginEvictionLocked m' b cutoff stop later \<in> {(m', Inr False), (m', Inl ErrBedUnavailable)}"
proof -
  let ?m1 = "adjustPinnedLocked (with_bed m b (start_operation kind now)) b (pinnedLocked m b)"
  have m': "m' = keepaliveLocked ?m1 b (now + clamp_timeout timeout)"
    using assms(1) by (cases rule: BeginOperation_cases [of m b kind timeout now d]) auto
  have k: "LS_KeepaliveAt (bed_lifecycle ?m1 b) = LS_KeepaliveAt (bed_lifecycle m b)"
    and ttl: "mb_idleTTL (M_heap ?m1 b) = mb_idleTTL (M_heap m b)"
    by (simp_all add: start_operation_def)
  have "retainedUntilLocked m' b = max (LS_KeepaliveAt (bed_lifecycle m b)) (now + clamp_timeout timeout) + mb_idleTTL (M_heap m b)"
    unfolding m' retained_keepalive k ttl using assms(3,4) by (auto simp: retentionDeadline_def max_def)
  moreover have "retainedUntilLocked m b = LS_KeepaliveAt (bed_lifecycle m b) + mb_idleTTL (M_heap m b)"
    using assms(3,4) by (simp add: retainedUntilLocked_def retentionDeadline_def)
  moreover have "mb_inflight (M_heap m' b) > 0" using assms(2) by (simp add: m' start_operation_def)
  ultimately show ?thesis by (auto simp: beginEvictionLocked_def)
qed

lemma sample_alive:
  "mb_inflight (M_heap sample_published 4) = 0" "mb_idleTTL (M_heap sample_published 4) = 600"
  "LS_KeepaliveAt (bed_lifecycle sample_published 4) = 120"
  by code_simp+

theorem operation_protects_bed_witness:
  "retainedUntilLocked sample_busy 4 \<ge> 200 + clamp_timeout 0 + 600
   \<and> beginEvictionLocked sample_busy 4 None True 400 \<in> {(sample_busy, Inr False), (sample_busy, Inl ErrBedUnavailable)}"
proof -
  have "BeginOperation sample_published 4 OpExec 0 200 None = (sample_busy, Inr ())"
    using sample_results(3) by (simp add: sample_busy_def prod_eq_iff)
  from operation_protects_bed [OF this] show ?thesis by (simp add: sample_alive)
qed

text \<open>An explicit renewal only extends. When it succeeds, the deadline it reports is the Bed's new
  retention deadline, not earlier than the old one nor than the requested expiration, and it leaves
  the Bed's activity, its pin and the counters as they were.\<close>

theorem RenewExpiration_extends:
  assumes "RenewExpiration m (Some b) expiresAt now = (m', Inr t)"
    and "0 < mb_idleTTL (M_heap m b)" and "0 < LS_KeepaliveAt (bed_lifecycle m b)"
  shows "t = retainedUntilLocked m' b \<and> t \<ge> retainedUntilLocked m b
    \<and> (case expiresAt of None \<Rightarrow> t \<ge> now + mb_idleTTL (M_heap m b) | Some e \<Rightarrow> t \<ge> e \<and> e > now)
    \<and> M_heap m' = M_heap m \<and> M_pinnedBeds m' = M_pinnedBeds m \<and> LS_Phase (bed_lifecycle m b) = PhaseResident"
proof -
  define base where "base = (case expiresAt of Some e \<Rightarrow> e - mb_idleTTL (M_heap m b) | None \<Rightarrow> now)"
  have m': "m' = keepaliveLocked m b base" and t: "t = retainedUntilLocked m' b"
    and phase: "LS_Phase (bed_lifecycle m b) = PhaseResident"
    and e: "\<And>e. expiresAt = Some e \<Longrightarrow> e > now"
    using assms(1,2) by (auto simp: RenewExpiration_def Let_def base_def split: if_split_asm option.splits)
  have "t = max (LS_KeepaliveAt (bed_lifecycle m b)) base + mb_idleTTL (M_heap m b)"
    unfolding t m' retained_keepalive using assms(2,3) by (auto simp: retentionDeadline_def max_def)
  moreover have "retainedUntilLocked m b = LS_KeepaliveAt (bed_lifecycle m b) + mb_idleTTL (M_heap m b)"
    using assms(2,3) by (simp add: retainedUntilLocked_def retentionDeadline_def)
  ultimately show ?thesis using t e phase by (auto simp: m' base_def split: option.splits)
qed

theorem RenewExpiration_extends_witness:
  "\<exists>m'. RenewExpiration sample_published (Some 4) (Some 5000) 130 = (m', Inr 5000) \<and> retainedUntilLocked m' 4 = 5000
     \<and> M_heap m' = M_heap sample_published"
proof -
  have "snd (RenewExpiration sample_published (Some 4) (Some 5000) 130) = Inr 5000" by code_simp
  then have r: "RenewExpiration sample_published (Some 4) (Some 5000) 130 =
      (fst (RenewExpiration sample_published (Some 4) (Some 5000) 130), Inr 5000)" by (simp add: prod_eq_iff)
  from RenewExpiration_extends [OF r] r show ?thesis by (simp add: sample_alive) metis
qed

text \<open>The comment at \<open>OpenSession\<close> says that its admission mirrors \<open>BeginOperation\<close> with the same
  residency check. It does not: while a Bed without main processes is being evicted, an operation is
  refused and a session is admitted. The state is reachable.\<close>

theorem session_admitted_during_eviction:
  "sys_step\<^sup>*\<^sup>* (sample_state sample_empty) ((sample_state sample_fenced)\<lparr>S_evict := [4 \<mapsto> Fenced 2]\<rparr>)
   \<and> snd (BeginOperation sample_fenced 4 OpExec 0 500 None) = Inl ErrBedUnavailable
   \<and> snd (OpenSession sample_fenced 4 ''sess'' 500 None) = Inr ()"
proof -
  have "snd (BeginOperation sample_fenced 4 OpExec 0 500 None) = Inl ErrBedUnavailable"
    "snd (OpenSession sample_fenced 4 ''sess'' 500 None) = Inr ()"
    by code_simp+
  then show ?thesis using sample_reaches_fence by simp
qed

section \<open>Persistence\<close>

text \<open>What the metadata on disk says about the last durable activity.\<close>

definition persisted_stamp :: "Manager \<Rightarrow> string \<Rightarrow> time" where
  "persisted_stamp m dir = (case M_meta m dir of None \<Rightarrow> zero_time | Some x \<Rightarrow> ME_LastPersistedAt x)"

definition disk_generation :: "Manager \<Rightarrow> string \<Rightarrow> int" where
  "disk_generation m dir = (case M_meta m dir of None \<Rightarrow> 0 | Some x \<Rightarrow> ME_Generation x)"

lemma bumped_stamp:
  "ME_LastPersistedAt (bumped_meta m b) = persisted_stamp m (SP_Dir (bed_spec m b))"
  "ME_Generation (bumped_meta m b) = disk_generation m (SP_Dir (bed_spec m b)) + 1"
  by (auto simp: bumped_meta_def Let_def loadMeta_def persisted_stamp_def disk_generation_def fresh_meta_def split: option.splits)

lemma prepare_disk:
  assumes "persist_prepare m b saved = (m', r)"
  shows "persisted_stamp m' dir = persisted_stamp m dir"
    and "mb_persistedAt (M_heap m' b) = mb_persistedAt (M_heap m b)"
    and "r = Inr (meta, w) \<Longrightarrow> w = mb_lastActiveAt (M_heap m b) \<and> meta = bumped_meta m b
      \<and> bed_spec m' b = bed_spec m b
      \<and> disk_generation m' (SP_Dir (bed_spec m b)) = disk_generation m (SP_Dir (bed_spec m b)) + 1"
  using assms bumped_stamp [of m b]
  by (auto simp: persist_prepare_def Let_def saveMeta_def persisted_stamp_def disk_generation_def split: if_split_asm)

lemma commit_disk:
  "mb_persistedAt (M_heap (persist_commit m b meta w oc) b) = w"
  "persisted_stamp (persist_commit m b meta w oc) (SP_Dir (bed_spec m b)) =
     (if po_final oc then w else persisted_stamp m (SP_Dir (bed_spec m b)))"
  "disk_generation (persist_commit m b meta w oc) (SP_Dir (bed_spec m b)) =
     (if po_final oc then ME_Generation meta else disk_generation m (SP_Dir (bed_spec m b)))"
  by (auto simp: persist_commit_def Let_def saveMeta_def persisted_stamp_def disk_generation_def split: option.splits)

text \<open>The watermark of a persist follows the upload. A persist that fails at any stage leaves both the
  Bed's watermark and the one on disk as they were, so a restart still sees the Bed as dirty; one that
  succeeds sets the Bed's watermark to the activity captured before packing, writes the same (or, when
  the last best-effort write fails, the old one) to disk, and raises the generation on disk by one.\<close>

theorem persistBed_watermark:
  "case persistBed m b oc of
     (m', Inl e) \<Rightarrow> mb_persistedAt (M_heap m' b) = mb_persistedAt (M_heap m b)
       \<and> persisted_stamp m' dir = persisted_stamp m dir
   | (m', Inr _) \<Rightarrow> mb_persistedAt (M_heap m' b) = mb_lastActiveAt (M_heap m b)
       \<and> persisted_stamp m' (SP_Dir (bed_spec m b)) =
           (if po_final oc then mb_lastActiveAt (M_heap m b) else persisted_stamp m (SP_Dir (bed_spec m b)))
       \<and> disk_generation m' (SP_Dir (bed_spec m b)) = disk_generation m (SP_Dir (bed_spec m b)) + 1"
proof -
  obtain m1 r where p: "persist_prepare m b (po_saved oc) = (m1, r)" by fastforce
  note same = prepare_disk(1,2) [OF p]
  show ?thesis
  proof (cases r)
    case (Inl e)
    with p same show ?thesis by (simp add: persistBed_def)
  next
    case (Inr mw)
    obtain meta w where mw: "mw = (meta, w)" by (cases mw)
    then have w: "w = mb_lastActiveAt (M_heap m b)" "meta = bumped_meta m b" "bed_spec m1 b = bed_spec m b"
      "disk_generation m1 (SP_Dir (bed_spec m b)) = disk_generation m (SP_Dir (bed_spec m b)) + 1"
      using prepare_disk(3) [OF p, of meta w] Inr by auto
    show ?thesis
    proof (cases "po_upload oc")
      case None
      with p Inr mw w same commit_disk [of m1 b meta w oc] bumped_stamp(2) [of m b]
      show ?thesis by (simp add: persistBed_def)
    next
      case (Some e)
      with p Inr mw same show ?thesis by (simp add: persistBed_def)
    qed
  qed
qed

section \<open>Idle collection\<close>

text \<open>Eviction by expiry checks the promise again under the locks. A Bed whose deadline is unlimited or in
  the future, or that has work in flight, or that another transition already owns, is left exactly as it
  is, whatever the stages of the eviction would have done.\<close>

theorem expiry_rechecked:
  assumes "retainedUntilLocked m b = zero_time \<or> retainedUntilLocked m b > now \<or> mb_inflight (M_heap m b) > 0
      \<or> LS_Phase (bed_lifecycle m b) \<noteq> PhaseResident"
  shows "evictResidentBed clean m b (Some now) oc \<in> {(m, Inr False), (m, Inl ErrBedUnavailable)}"
proof -
  have "beginEvictionLocked m b (Some now) True (eo_start oc) \<in> {(m, Inr False), (m, Inl ErrBedUnavailable)}"
    using assms by (auto simp: beginEvictionLocked_def)
  then show ?thesis by (auto simp: evictResidentBed_def)
qed

definition sample_teardown :: teardown_outcome where
  "sample_teardown = \<lparr> to_pillows = None, to_ctx = None, to_stop = None, to_release = None, to_now = 500 \<rparr>"

definition sample_evict :: evict_outcome where
  "sample_evict = \<lparr> eo_start = 400, eo_stop = None, eo_transfers = None, eo_shutdown = None, eo_ctx = None,
     eo_persist = sample_persist, eo_ready = True, eo_end = 500, eo_teardown = sample_teardown \<rparr>"

theorem expiry_rechecked_witness:
  "evictResidentBed (\<lambda>m l. (m, Inr ())) sample_published 4 (Some 400) sample_evict
     \<in> {(sample_published, Inr False), (sample_published, Inl ErrBedUnavailable)}"
proof -
  have "retainedUntilLocked sample_published 4 = 720" by code_simp
  then show ?thesis using expiry_rechecked [of sample_published 4 400] by simp
qed

lemma evict_each_subset: "set (snd (evict_each uni clean cancel oc now m ids)) \<subseteq> set ids"
proof (induction ids arbitrary: m)
  case Nil
  then show ?case by simp
next
  case (Cons name ids)
  obtain m1 r where e: "evict uni clean cancel m name (Some now) (oc name) = (m1, r)" by fastforce
  obtain m2 ids' where e2: "evict_each uni clean cancel oc now m1 ids = (m2, ids')" by fastforce
  then show ?case using Cons.IH [of m1] e by auto
qed

text \<open>Idle collection reaps only Beds whose promise has expired when it scans: every reaped name is a
  published Bed with a finite retention deadline that is not in the future.\<close>

theorem collection_reaps_expired:
  "set (snd (CollectExpired uni clean cancel oc m now)) \<subseteq>
     {name. \<exists>b. (name, b) \<in> set (M_beds m) \<and> retainedUntilLocked m b \<noteq> zero_time \<and> retainedUntilLocked m b \<le> now}"
  using evict_each_subset [of uni clean cancel oc now m "stale_beds m now"]
  by (fastforce simp: CollectExpired_def stale_beds_def)

section \<open>Purge and initialization fences\<close>

text \<open>C22: While an identity is being purged it cannot come back through a new request: a request to create it (\<open>beginInitialization\<close>) ends in an error or waits for a running cleanup, is
  given neither an initialization nor a resident Bed, and adds no entry to the tables of Beds and initializations; \<open>Ensure\<close> refuses; a second purge joins the first; and no token but the
  owner's lifts the fence. The lookups of a Bed that is resident (\<open>Get\<close>, operations, renewals, checkpoints) are not among these requests: they can still find it until the purge has
  detached it.\<close>

theorem purge_fences_identity:
  assumes "map_of (M_purges m) name = Some token"
  shows "(case beginInitialization uni digest available m name bedid options selected now d of
            (m', Inl e) \<Rightarrow> M_beds m' = M_beds m \<and> set (M_initializations m') \<subseteq> set (M_initializations m)
          | (m', Inr r) \<Rightarrow> r = InitBlocked \<and> m' = m)
     \<and> (\<exists>e. Ensure uni m name = Inl e) \<and> beginPurge m name = (m, token, False)
     \<and> (token' \<noteq> token \<longrightarrow> map_of (M_purges (finishPurge m name token')) name = Some token)"
proof -
  let ?p = "pruneFailedInitializationsLocked m now"
  have "M_purges ?p = M_purges m" "M_beds ?p = M_beds m" "set (M_initializations ?p) \<subseteq> set (M_initializations m)"
    by (auto simp: pruneFailedInitializationsLocked_def)
  moreover have "\<exists>e. Ensure uni m name = Inl e" using assms by (simp add: Ensure_def)
  ultimately show ?thesis
    using assms by (simp add: beginInitialization_def beginPurge_def finishPurge_def Let_def split: wait_result.split)
qed

theorem purge_fences_identity_witness:
  "(\<exists>e. Ensure (\<lambda>_. False) (fst (beginPurge sample_published ''b1'')) ''b1'' = Inl e)
   \<and> beginPurge (fst (beginPurge sample_published ''b1'')) ''b1'' = (fst (beginPurge sample_published ''b1''), 5, False)"
proof -
  have "map_of (M_purges (fst (beginPurge sample_published ''b1''))) ''b1'' = Some 5" by code_simp
  from purge_fences_identity [OF this, of "\<lambda>_. False" "\<lambda>_. []" True "[]" sample_options "Inr SyncNoop" 0 None 0] show ?thesis by blast
qed

text \<open>A purge that succeeds has deleted the snapshot of the kind the identity was kept with, and nothing of it awaits retirement.\<close>

lemma purgeOwned_success:
  assumes "purgeOwned clean selected join deleted m name bedid oc = (m', Inr ())"
  shows "map_of (M_retirements m') name = None
    \<and> (\<exists>k. selected = Inr k \<and> deleted (purge_kind (fst (localIdentityLocked m name bedid)) name k) = Inr ())"
proof -
  obtain m0 l where l: "localIdentityLocked m name bedid = (m0, l)" by fastforce
  obtain k where k: "selected = Inr k" using assms l by (cases selected) (simp_all add: purgeOwned_def)
  let ?m1 = "fst (cancelInitialization m0 name)"
  obtain m2 j where j: "(if running_initialization m0 name = None then (?m1, Inr ()) else join ?m1) = (m2, j)" by fastforce
  obtain m3 bo where d: "purge_detach m2 name = (m3, bo)" by fastforce
  obtain m4 t where t: "(case bo of None \<Rightarrow> (m3, Inr ()) | Some b \<Rightarrow> teardown m3 b oc) = (m4, t)" by fastforce
  obtain m5 c where c: "clean m4 l = (m5, c)" by fastforce
  note run = assms [unfolded purgeOwned_def Let_def l k prod.case sum.case j d t c]
  then show ?thesis using l k by (auto split: sum.splits)
qed

section \<open>Capacity\<close>

text \<open>The table of initializations is consistent: one entry per name, and each entry's model has that name.\<close>

definition inits_ok :: "Manager \<Rightarrow> bool" where
  "inits_ok m \<longleftrightarrow> distinct (keys (M_initializations m))
     \<and> (\<forall>(n, i) \<in> set (M_initializations m). init_name m i = n \<and> i < M_next m)"

lemma localIdentity_frame:
  assumes "localIdentityLocked m name bedid = (m1, l)"
  shows "M_beds m1 = M_beds m" "M_initializations m1 = M_initializations m" "M_retirements m1 = M_retirements m"
    "M_inits m1 = M_inits m" "M_maxBeds m1 = M_maxBeds m" "q < M_next m \<Longrightarrow> M_models m1 q = M_models m q"
    "M_next m \<le> M_next m1"
  using assms by (auto simp: localIdentityLocked_def Let_def split: option.splits)

lemma start_occupied:
  assumes m: "alloc_ok m" and inits: "inits_ok m" and absent: "map_of (M_initializations m) name = None"
    and st: "start_initialization m name bedid options kind now = (m', i)"
  shows "occupiedBedsLocked m' \<le> occupiedBedsLocked m + 1" and "M_maxBeds m' = M_maxBeds m"
proof -
  obtain m1 l where l: "localIdentityLocked m name bedid = (m1, l)" by (cases "localIdentityLocked m name bedid")
  let ?p = "li_bed (M_locals m1 l)"
  have name: "Bed_Name (M_models m1 ?p) = name" using localIdentity_spec [OF m l] by blast
  note fr = localIdentity_frame [OF l]
  have sel: "M_beds m' = M_beds m" "M_retirements m' = M_retirements m" "M_maxBeds m' = M_maxBeds m"
    "M_initializations m' = al_put name (M_next m1) (M_initializations m)"
    "\<And>j. j \<noteq> M_next m1 \<Longrightarrow> M_inits m' j = M_inits m j"
    "\<And>q. q \<noteq> ?p \<Longrightarrow> M_models m' q = M_models m1 q"
    using st l fr(1-5) by (auto simp: start_initialization_def Let_def setLifecycle_def update_lifecycle_def)
  then show "M_maxBeds m' = M_maxBeds m" by simp
  have same: "init_phase m' j = init_phase m j" if "(n, j) \<in> set (M_initializations m)" for n j
  proof -
    have j: "init_name m j = n" "j < M_next m" using inits that by (auto simp: inits_ok_def)
    have "n \<noteq> name" using absent that by (force simp: map_of_eq_None_iff)
    let ?q = "bi_model (M_inits m j)"
    have "M_models m1 ?q = M_models m ?q" using fr(6) m by (auto simp: alloc_ok_def)
    moreover from this have "?q \<noteq> ?p" using j(1) name \<open>n \<noteq> name\<close> by (auto simp: init_name_def)
    moreover have "M_inits m' j = M_inits m j" using sel(5) j(2) fr(7) by simp
    ultimately show ?thesis using sel(6) by (simp add: init_phase_def)
  qed
  have put: "M_initializations m' = M_initializations m @ [(name, M_next m1)]"
    using absent sel(4) by (simp add: al_put_absent map_of_eq_None_iff)
  have "filter (\<lambda>(n, j). map_of (M_retirements m) n = None \<and> init_phase m' j = PhaseInitializing) (M_initializations m) = occupying_inits m"
    unfolding occupying_inits_def using same by (intro filter_cong) auto
  then have "length (occupying_inits m') \<le> length (occupying_inits m) + 1"
    unfolding occupying_inits_def put sel(2) by simp
  then show "occupiedBedsLocked m' \<le> occupiedBedsLocked m + 1"
    by (simp add: occupiedBedsLocked_def sel)
qed

lemma length_filter_conj: "length (filter (\<lambda>x. P x \<and> Q x) xs) \<le> length (filter Q xs)"
  by (induction xs) auto

lemma occupied_drop:
  assumes "M_initializations m' = filter P (M_initializations m)" and "M_beds m' = M_beds m"
    and "M_retirements m' = M_retirements m" and "M_models m' = M_models m" and "M_inits m' = M_inits m"
  shows "occupiedBedsLocked m' \<le> occupiedBedsLocked m"
proof -
  have "length (occupying_inits m') \<le> length (occupying_inits m)"
    unfolding occupying_inits_def assms init_phase_def filter_filter
    by (rule length_filter_conj)
  then show ?thesis by (simp add: occupiedBedsLocked_def assms)
qed

lemma inits_drop:
  assumes "M_initializations m' = filter P (M_initializations m)" and "inits_ok m" and "M_models m' = M_models m"
    and "M_inits m' = M_inits m" and "M_next m' = M_next m"
  shows "inits_ok m'"
  using assms by (auto simp: inits_ok_def init_name_def distinct_map_filter)

text \<open>C21: accepting requests never exceeds the configured capacity: when the occupied Beds (resident,
  retiring or initializing) are within \<open>maxBeds\<close>, they still are after a request, whatever its outcome.\<close>

theorem capacity_respected:
  assumes m: "alloc_ok m" and inits: "inits_ok m" and limit: "0 < M_maxBeds m" "occupiedBedsLocked m \<le> M_maxBeds m"
  shows "occupiedBedsLocked (fst (beginInitialization uni digest available m name bedid options selected now d)) \<le> M_maxBeds m"
proof -
  let ?m1 = "pruneFailedInitializationsLocked m now"
  let ?m2 = "?m1\<lparr>M_initializations := al_del name (M_initializations ?m1)\<rparr>"
  have m1: "alloc_ok ?m1" by (rule inert_alloc [OF inert_prune [OF m] m])
  have sel: "M_maxBeds ?m1 = M_maxBeds m" "M_models ?m1 = M_models m" "M_inits ?m1 = M_inits m" "M_next ?m1 = M_next m"
    by (simp_all add: pruneFailedInitializationsLocked_def)
  have i1: "inits_ok ?m1" by (rule inits_drop [OF _ inits]) (simp_all add: pruneFailedInitializationsLocked_def)
  have o1: "occupiedBedsLocked ?m1 \<le> occupiedBedsLocked m"
    by (rule occupied_drop) (simp_all add: pruneFailedInitializationsLocked_def)
  have m2: "alloc_ok ?m2" by (rule inert_alloc [OF inert_tables(2) [OF m1] m1])
  have i2: "inits_ok ?m2" by (rule inits_drop [OF _ i1]) (simp_all add: al_del_def)
  have o2: "occupiedBedsLocked ?m2 \<le> occupiedBedsLocked ?m1" by (rule occupied_drop) (simp_all add: al_del_def)
  have admit: "occupiedBedsLocked (fst (admit_initialization ?m1 name bedid opts kind now d)) \<le> M_maxBeds m" for opts kind
  proof -
    obtain m3 i where s: "start_initialization ?m2 name bedid opts kind now = (m3, i)" by fastforce
    have "occupiedBedsLocked m3 \<le> occupiedBedsLocked ?m2 + 1"
      by (rule start_occupied(1) [OF m2 i2 _ s]) simp
    then show ?thesis
      using o1 o2 limit s sel(1)
      by (auto simp: admit_initialization_def Let_def split: sum.splits prod.splits)
  qed
  have "occupiedBedsLocked (fst (new_initialization digest available ?m1 name bedid options selected now d)) \<le> M_maxBeds m"
    using admit o1 limit by (simp add: new_initialization_def split: sum.splits)
  then show ?thesis
    using o1 limit by (simp add: beginInitialization_def Let_def split: wait_result.splits option.splits sum.splits)
qed

theorem capacity_respected_witness:
  "occupiedBedsLocked (fst (beginInitialization (\<lambda>_. False) (\<lambda>_. []) True sample_published ''b2'' ''id2'' sample_options (Inr SyncCAS) 130 None)) \<le> 2"
proof -
  have ok: "alloc_ok sample_published"
    using bed_manager.inv_reachable [OF sample_started sample_resident] by (simp add: sys_ok_def sample_state_def)
  have "M_initializations sample_published = []" "M_maxBeds sample_published = 2" "occupiedBedsLocked sample_published = 1"
    by code_simp+
  then show ?thesis using capacity_respected [OF ok] by (simp add: inits_ok_def)
qed

text \<open>The threshold of Bed pressure is the limit times the percentage, rounded up: the least number whose
  hundredfold reaches the product. A zero percentage or limit switches the threshold off.\<close>

theorem pressure_threshold_exact:
  assumes "0 < limit" and "0 < percent"
  shows "(n \<ge> bedPressureThreshold limit percent \<longleftrightarrow> 100 * n \<ge> limit * percent)
    \<and> 0 < bedPressureThreshold limit percent \<and> bedPressureThreshold 0 percent = 0 \<and> bedPressureThreshold limit 0 = 0"
proof -
  have t: "bedPressureThreshold limit percent = (limit * percent + 99) div 100"
    using assms by (simp add: bedPressureThreshold_def)
  have "limit * percent \<ge> 1" using assms by (simp add: int_one_le_iff_zero_less)
  then have "0 < bedPressureThreshold limit percent" unfolding t by linarith
  moreover have "n \<ge> bedPressureThreshold limit percent \<longleftrightarrow> 100 * n \<ge> limit * percent"
    unfolding t by linarith
  ultimately show ?thesis by (simp add: bedPressureThreshold_def)
qed

theorem pressure_threshold_exact_witness: "(3::int) \<ge> bedPressureThreshold 3 80 \<and> \<not> (2::int) \<ge> bedPressureThreshold 3 80"
  using pressure_threshold_exact [of 3 80 3] pressure_threshold_exact [of 3 80 2] by simp

section \<open>Failed initializations\<close>

text \<open>The record of a failed initialization is meant to be dropped after its retention time. When the
  local identity of that Bed is cleaned up and forgotten first, the shared lifecycle is no longer
  Failed, and no later pruning, at any time, drops the record.\<close>

theorem forgotten_failure_never_pruned:
  assumes "map_of (M_initializations m) name = Some i" and "init_phase m i = PhaseFailed"
    and "bi_model (M_inits m i) = li_bed (M_locals m l)"
    and "map_of (M_localIdentities m) (Bed_Name (M_models m (li_bed (M_locals m l)))) = Some l"
  shows "(name, i) \<in> set (M_initializations (pruneFailedInitializationsLocked (forgetLocalIdentity m l t) now))"
proof -
  let ?m = "forgetLocalIdentity m l t"
  have "init_phase ?m i = PhaseDormant"
    using assms(3,4)
    by (simp add: forgetLocalIdentity_def Let_def init_phase_def setLifecycle_def update_lifecycle_def lifecycle_status_def)
  moreover have "M_initializations ?m = M_initializations m"
    by (simp add: forgetLocalIdentity_def Let_def setLifecycle_def update_lifecycle_def)
  ultimately show ?thesis
    using assms(1) by (auto simp: pruneFailedInitializationsLocked_def prunable_def dest: map_of_SomeD)
qed

definition sample_failed :: Manager where
  "sample_failed = finishInitialization sample_begun 3 ''NetworkPreparationFailed'' None (Some (ErrStage ''network'')) 200"

theorem forgotten_failure_never_pruned_witness:
  "(''b1'', 3) \<in> set (M_initializations (pruneFailedInitializationsLocked (forgetLocalIdentity sample_failed 2 300)
     (200 + 1000 * failedInitializationRetention)))
   \<and> (''b1'', 3) \<notin> set (M_initializations (pruneFailedInitializationsLocked sample_failed
     (200 + 1000 * failedInitializationRetention)))"
proof -
  have "map_of (M_initializations sample_failed) ''b1'' = Some 3" "init_phase sample_failed 3 = PhaseFailed"
    "bi_model (M_inits sample_failed 3) = li_bed (M_locals sample_failed 2)"
    "map_of (M_localIdentities sample_failed) (Bed_Name (M_models sample_failed (li_bed (M_locals sample_failed 2)))) = Some 2"
    by code_simp+
  from forgotten_failure_never_pruned [OF this] show ?thesis by simp code_simp
qed

end
