(* ===== verification/Bed_Users.thy ===== *)
theory Bed_Users
  imports Hostel_Prelude "HOL-Library.List_Lexorder" "HOL-Library.Char_ord"
begin

text \<open>
  Unix users of Beds (\<open>bed/privilege\<close>): the allocator of per-Bed users (\<open>bed_user_allocator.go\<close>,
  \<open>bed_user_reservation_linux.go\<close>), the privilege manager that is its client (\<open>manager.go\<close>), the capability
  requirements (\<open>bed_user.go\<close>) and the selection of the identity strategy at start-up (\<open>selection.go\<close>).

  The interface between manager and allocator is the locale \<open>user_allocator\<close>: what acquiring, reserving and
  releasing promise. The manager's operations take the allocator's operations as arguments; the
  allocator interprets the locale for its per-Bed strategy. Go's \<open>int\<close> is \<open>int\<close>; the hash and its
  reduction to a slot are 32-bit words, with the division by a slot count that wraps to zero as a panic.
\<close>

section \<open>Users\<close>

record BedUser =
  BU_uid :: int
  BU_gid :: int

datatype user_error =
    UserRoot int int
  | UserRange int int
  | UserConflict string int int
  | UserOwned int string string
  | UserExhausted int int
  | UserPanic
  | UserStat
  | UserPrepare
  | UserProbeCleanup
  | UserProbe

definition NewBedUser :: "int \<Rightarrow> int \<Rightarrow> (user_error, BedUser) result" where
  "NewBedUser uid gid = (if uid \<le> 0 \<or> gid \<le> 0 then Inl (UserRoot uid gid) else Inr \<lparr> BU_uid = uid, BU_gid = gid \<rparr>)"

section \<open>The allocator\<close>

record BedUserAllocator =
  BA_fixed :: "BedUser option"
  BA_uidMin :: int
  BA_uidMax :: int
  BA_byBed :: "(string \<times> BedUser) list"
  BA_ownerUID :: "(int \<times> string) list"

definition NewFixedBedUserAllocator :: "BedUser \<Rightarrow> BedUserAllocator" where
  "NewFixedBedUserAllocator user =
     \<lparr> BA_fixed = Some user, BA_uidMin = 0, BA_uidMax = 0, BA_byBed = [], BA_ownerUID = [] \<rparr>"

definition NewPerBedUserAllocator :: "int \<Rightarrow> int \<Rightarrow> (user_error, BedUserAllocator) result" where
  "NewPerBedUserAllocator uidMin uidMax =
     (if uidMin \<le> 0 \<or> uidMax < uidMin then Inl (UserRange uidMin uidMax)
      else Inr \<lparr> BA_fixed = None, BA_uidMin = uidMin, BA_uidMax = uidMax, BA_byBed = [], BA_ownerUID = [] \<rparr>)"

definition own :: "BedUserAllocator \<Rightarrow> string \<Rightarrow> BedUser \<Rightarrow> BedUserAllocator" where
  "own a bedID user = a\<lparr>BA_byBed := al_put bedID user (BA_byBed a), BA_ownerUID := al_put (BU_uid user) bedID (BA_ownerUID a)\<rparr>"

definition reserveLocked :: "BedUserAllocator \<Rightarrow> string \<Rightarrow> int \<Rightarrow> BedUserAllocator \<times> (user_error, unit) result" where
  "reserveLocked a bedID uid =
     (if BA_fixed a \<noteq> None then (a, Inr ())
      else if uid < BA_uidMin a \<or> uid > BA_uidMax a then (a, Inr ())
      else case map_of (BA_byBed a) bedID of
        Some user \<Rightarrow> (a, if BU_uid user \<noteq> uid then Inl (UserConflict bedID (BU_uid user) uid) else Inr ())
      | None \<Rightarrow>
          (case map_of (BA_ownerUID a) uid of
             Some owner \<Rightarrow>
               if owner \<noteq> bedID then (a, Inl (UserOwned uid owner bedID))
               else (case NewBedUser uid uid of Inl e \<Rightarrow> (a, Inl e) | Inr user \<Rightarrow> (own a bedID user, Inr ()))
           | None \<Rightarrow> (case NewBedUser uid uid of Inl e \<Rightarrow> (a, Inl e) | Inr user \<Rightarrow> (own a bedID user, Inr ()))))"

text \<open>FNV-1a over the bytes of the identity, as in \<open>hash/fnv\<close>.\<close>

fun fnv_write :: "32 word \<Rightarrow> string \<Rightarrow> 32 word" where
  "fnv_write h [] = h"
| "fnv_write h (c # cs) = fnv_write (xor h (of_char c) * 16777619) cs"

definition fnv32a :: "string \<Rightarrow> 32 word" where
  "fnv32a s = fnv_write 2166136261 s"

text \<open>\<open>None\<close> is the run-time panic of a division by zero.\<close>

definition stableBedUserSlot :: "string \<Rightarrow> int \<Rightarrow> int option" where
  "stableBedUserSlot bedID slots =
     (let d = (of_int slots :: 32 word) in if d = 0 then None else Some (uint (fnv32a bedID mod d)))"

text \<open>The probing loop; \<open>n\<close> is the number of offsets left.\<close>

fun acquire_scan :: "BedUserAllocator \<Rightarrow> string \<Rightarrow> int \<Rightarrow> int \<Rightarrow> nat \<Rightarrow> BedUserAllocator \<times> (user_error, BedUser) result" where
  "acquire_scan a bedID start slots 0 = (a, Inl (UserExhausted (BA_uidMin a) (BA_uidMax a)))"
| "acquire_scan a bedID start slots (Suc n) =
     (let uid = BA_uidMin a + (start + (slots - int (Suc n))) mod slots in
      if map_of (BA_ownerUID a) uid \<noteq> None then acquire_scan a bedID start slots n
      else case NewBedUser uid uid of
        Inl e \<Rightarrow> (a, Inl e)
      | Inr user \<Rightarrow> (own a bedID user, Inr user))"

definition Acquire :: "BedUserAllocator \<Rightarrow> string \<Rightarrow> BedUserAllocator \<times> (user_error, BedUser) result" where
  "Acquire a bedID =
     (case BA_fixed a of
        Some user \<Rightarrow> (a, Inr user)
      | None \<Rightarrow>
          (case map_of (BA_byBed a) bedID of
             Some user \<Rightarrow> (a, Inr user)
           | None \<Rightarrow>
               let slots = BA_uidMax a - BA_uidMin a + 1 in
               case stableBedUserSlot bedID slots of
                 None \<Rightarrow> (a, Inl UserPanic)
               | Some start \<Rightarrow> acquire_scan a bedID start slots (nat slots)))"

definition ReleaseUser :: "BedUserAllocator \<Rightarrow> string \<Rightarrow> BedUserAllocator" where
  "ReleaseUser a bedID =
     (if BA_fixed a \<noteq> None then a
      else case map_of (BA_byBed a) bedID of
        None \<Rightarrow> a
      | Some user \<Rightarrow> a\<lparr>BA_ownerUID := al_del (BU_uid user) (BA_ownerUID a), BA_byBed := al_del bedID (BA_byBed a)\<rparr>)"

text \<open>What \<open>os.Stat\<close> says of a data directory.\<close>

datatype stat_result = StatMissing | StatFailed | StatUnknown | StatOwner int

definition ReserveOwnedDirectory ::
  "(string \<Rightarrow> stat_result) \<Rightarrow> BedUserAllocator \<Rightarrow> string \<Rightarrow> string \<Rightarrow> BedUserAllocator \<times> (user_error, unit) result" where
  "ReserveOwnedDirectory stat a bedID dir =
     (if BA_fixed a \<noteq> None then (a, Inr ())
      else case stat dir of
        StatMissing \<Rightarrow> (a, Inr ())
      | StatFailed \<Rightarrow> (a, Inl UserStat)
      | StatUnknown \<Rightarrow> (a, Inr ())
      | StatOwner uid \<Rightarrow> reserveLocked a bedID uid)"

section \<open>The privilege manager\<close>

record PrivilegeStatus =
  PR_UID :: "32 word"
  PR_GID :: "32 word"
  PR_Assigned :: bool

record 'a PrivilegeManager =
  PM_allocator :: 'a
  PM_users :: "(string \<times> BedUser) list"
  PM_recovered :: "string list"
  PM_status :: "string \<Rightarrow> PrivilegeStatus"

definition no_privilege :: PrivilegeStatus where
  "no_privilege = \<lparr> PR_UID = 0, PR_GID = 0, PR_Assigned = False \<rparr>"

fun reserve_dirs ::
  "('a \<Rightarrow> string \<Rightarrow> string \<Rightarrow> 'a \<times> (user_error, unit) result) \<Rightarrow> 'a \<Rightarrow> string \<Rightarrow> string list \<Rightarrow> 'a \<times> (user_error, unit) result" where
  "reserve_dirs reserve a b [] = (a, Inr ())"
| "reserve_dirs reserve a b (d # ds) =
     (case reserve a b d of (a1, Inl e) \<Rightarrow> (a1, Inl e) | (a1, Inr _) \<Rightarrow> reserve_dirs reserve a1 b ds)"

definition RecoverUser ::
  "('a \<Rightarrow> string \<Rightarrow> string \<Rightarrow> 'a \<times> (user_error, unit) result) \<Rightarrow> 'a PrivilegeManager \<Rightarrow> string \<Rightarrow> string list
     \<Rightarrow> 'a PrivilegeManager \<times> (user_error, unit) result" where
  "RecoverUser reserve m b dirs =
     (case reserve_dirs reserve (PM_allocator m) b dirs of
        (a, r) \<Rightarrow> (m\<lparr>PM_recovered := List.insert b (PM_recovered m), PM_allocator := a\<rparr>, r))"

text \<open>\<open>files\<close> is the outcome of handing the Bed's tree to the user, \<open>None\<close> without a tree.\<close>

definition PrepareUser ::
  "('a \<Rightarrow> string \<Rightarrow> 'a \<times> (user_error, BedUser) result) \<Rightarrow> 'a PrivilegeManager \<Rightarrow> string
     \<Rightarrow> (BedUser \<Rightarrow> (user_error, unit) result) option \<Rightarrow> 'a PrivilegeManager \<times> (user_error, unit) result" where
  "PrepareUser acquire m b files =
     (case (case map_of (PM_users m) b of
              Some user \<Rightarrow> (m, Inr user)
            | None \<Rightarrow>
                (case acquire (PM_allocator m) b of
                   (a, Inl e) \<Rightarrow> (m\<lparr>PM_allocator := a\<rparr>, Inl e)
                 | (a, Inr user) \<Rightarrow> (m\<lparr>PM_allocator := a, PM_users := al_put b user (PM_users m)\<rparr>, Inr user))) of
        (m1, Inl e) \<Rightarrow> (m1, Inl e)
      | (m1, Inr user) \<Rightarrow>
          (m1\<lparr>PM_status := (PM_status m1)(b := \<lparr> PR_UID = of_int (BU_uid user), PR_GID = of_int (BU_gid user), PR_Assigned = True \<rparr>)\<rparr>,
           case files of None \<Rightarrow> Inr () | Some prepare \<Rightarrow> prepare user))"

definition UserOf :: "'a PrivilegeManager \<Rightarrow> string \<Rightarrow> BedUser" where
  "UserOf m b = (case map_of (PM_users m) b of Some u \<Rightarrow> u | None \<Rightarrow> \<lparr> BU_uid = 0, BU_gid = 0 \<rparr>)"

definition ForgetUser :: "('a \<Rightarrow> string \<Rightarrow> 'a) \<Rightarrow> 'a PrivilegeManager \<Rightarrow> string \<Rightarrow> 'a PrivilegeManager" where
  "ForgetUser release m b =
     (let m1 = (if map_of (PM_users m) b \<noteq> None
                then m\<lparr>PM_allocator := release (PM_allocator m) b, PM_users := al_del b (PM_users m)\<rparr>
                else if b \<in> set (PM_recovered m) then m\<lparr>PM_allocator := release (PM_allocator m) b\<rparr> else m)
      in m1\<lparr>PM_recovered := removeAll b (PM_recovered m1), PM_status := (PM_status m1)(b := no_privilege)\<rparr>)"

section \<open>Capabilities and the choice of a strategy\<close>

definition bedIdentityCapabilities :: "(nat \<times> string) list" where
  "bedIdentityCapabilities =
     [(0, ''CAP_CHOWN''), (1, ''CAP_DAC_OVERRIDE''), (3, ''CAP_FOWNER''), (5, ''CAP_KILL''), (6, ''CAP_SETGID''),
      (7, ''CAP_SETUID''), (8, ''CAP_SETPCAP'')]"

definition MissingBedIdentityCapabilities :: "64 word \<Rightarrow> string list" where
  "MissingBedIdentityCapabilities caps = map snd (filter (\<lambda>(n, name). \<not> bit caps n) bedIdentityCapabilities)"

datatype Strategy = FixedUser int int | PerBedUsers int int

record PrivilegeReport =
  RP_needed :: "string list"
  RP_missing :: "string list"
  RP_satisfied :: bool
  RP_helper_required :: bool
  RP_helper_available :: bool
  RP_preconditions :: bool

definition NewReport :: "bool \<Rightarrow> bool \<Rightarrow> BedUser \<Rightarrow> Strategy \<Rightarrow> 64 word \<Rightarrow> PrivilegeReport" where
  "NewReport linux helper daemon strategy caps =
     (let needsSwitch = (case strategy of
            PerBedUsers _ _ \<Rightarrow> True
          | FixedUser uid gid \<Rightarrow> uid \<noteq> BU_uid daemon \<or> gid \<noteq> BU_gid daemon);
          needed = (if needsSwitch then map snd bedIdentityCapabilities else []);
          missing = (if needsSwitch then MissingBedIdentityCapabilities caps else [])
      in \<lparr> RP_needed = sort needed, RP_missing = sort missing, RP_satisfied = (missing = []), RP_helper_required = linux,
           RP_helper_available = helper, RP_preconditions = (missing = [] \<and> (\<not> linux \<or> helper)) \<rparr>)"

datatype Level = SharedLevel | DedicatedLevel

datatype selection_reason =
    NoReason
  | PrerequisitesMissing int int
  | ProbeFailed int int string
  | DedicatedUnavailable
  | DedicatedProbeFailed string
  | PreferredFixed

record Selection =
  SE_Effective :: Level
  SE_Supported :: "Level list"
  SE_Reason :: selection_reason
  SE_Policy :: Strategy
  SE_User :: BedUser

record IdentityConfig =
  IC_UID :: int
  IC_GID :: int
  IC_Configured :: bool

text \<open>A probe runs a child under the identity; \<open>Inl\<close> is a failed clean-up, \<open>Some\<close> a failed probe. The
  first argument is the number of the call. \<open>UIDMin\<close> and \<open>UIDMax\<close> bound the per-Bed range.\<close>

type_synonym probe = "nat \<Rightarrow> BedUser \<Rightarrow> (user_error, string option) result"

definition UIDMin :: int where "UIDMin = 200000"

definition UIDMax :: int where "UIDMax = 299999"

definition preferred_user :: "bool \<Rightarrow> BedUser \<Rightarrow> bool \<Rightarrow> IdentityConfig \<Rightarrow> (user_error, BedUser) result" where
  "preferred_user root current canManage cfg =
     (if IC_Configured cfg then NewBedUser (IC_UID cfg) (IC_GID cfg)
      else if root \<and> canManage then NewBedUser 1000 1000
      else Inr current)"

definition select_dedicated ::
  "probe \<Rightarrow> bool \<Rightarrow> IdentityConfig \<Rightarrow> BedUser \<Rightarrow> selection_reason \<Rightarrow> (user_error, Selection) result" where
  "select_dedicated probe canManage cfg user reason =
     (let s = \<lparr> SE_Effective = SharedLevel, SE_Supported = [SharedLevel], SE_Reason = reason,
                SE_Policy = FixedUser (BU_uid user) (BU_gid user), SE_User = user \<rparr> in
      if \<not> canManage then Inr (if reason = NoReason then s\<lparr>SE_Reason := DedicatedUnavailable\<rparr> else s)
      else res_bind (NewBedUser UIDMin UIDMin) (\<lambda>dedicated.
        res_bind (probe 2 dedicated) (\<lambda>failed.
        case failed of
          Some text \<Rightarrow> Inr (if reason = NoReason then s\<lparr>SE_Reason := DedicatedProbeFailed text\<rparr> else s)
        | None \<Rightarrow>
            let s1 = s\<lparr>SE_Supported := [SharedLevel, DedicatedLevel]\<rparr> in
            if IC_Configured cfg then Inr (if reason = NoReason then s1\<lparr>SE_Reason := PreferredFixed\<rparr> else s1)
            else Inr (s1\<lparr>SE_Effective := DedicatedLevel, SE_Policy := PerBedUsers UIDMin UIDMax\<rparr>))))"

definition ResolveIdentity ::
  "probe \<Rightarrow> bool \<Rightarrow> BedUser \<Rightarrow> 64 word \<Rightarrow> bool \<Rightarrow> IdentityConfig \<Rightarrow> (user_error, Selection) result" where
  "ResolveIdentity probe linux current caps root cfg =
     (let canManage = (linux \<and> MissingBedIdentityCapabilities caps = []) in
      res_bind (preferred_user root current canManage cfg) (\<lambda>wanted.
      let (user, reason) = (if wanted \<noteq> current \<and> \<not> canManage
            then (current, PrerequisitesMissing (BU_uid wanted) (BU_gid wanted)) else (wanted, NoReason)) in
      res_bind (probe 0 user) (\<lambda>failed.
      case failed of
        None \<Rightarrow> select_dedicated probe canManage cfg user reason
      | Some text \<Rightarrow>
          if user = current then Inl UserProbe
          else res_bind (probe 1 current) (\<lambda>failed2.
            if failed2 \<noteq> None then Inl UserProbe
            else select_dedicated probe canManage cfg current (ProbeFailed (BU_uid user) (BU_gid user) text)))))"

section \<open>The interface of an allocator\<close>

text \<open>\<open>owner a b\<close> is the user that the allocator keeps for Bed \<open>b\<close>. Reserving a directory may record an owner
  for its Bed and nothing else.\<close>

locale user_allocator =
  fixes acquire :: "'a \<Rightarrow> string \<Rightarrow> 'a \<times> (user_error, BedUser) result"
    and reserve :: "'a \<Rightarrow> string \<Rightarrow> string \<Rightarrow> 'a \<times> (user_error, unit) result"
    and release :: "'a \<Rightarrow> string \<Rightarrow> 'a"
    and owner :: "'a \<Rightarrow> string \<Rightarrow> BedUser option"
    and inv :: "'a \<Rightarrow> bool"
  assumes exclusive: "inv a \<Longrightarrow> owner a b = Some u \<Longrightarrow> owner a c = Some v \<Longrightarrow> BU_uid u = BU_uid v \<Longrightarrow> b = c"
    and acquire_inv: "inv a \<Longrightarrow> inv (fst (acquire a b))"
    and acquire_ok: "inv a \<Longrightarrow> acquire a b = (a', Inr u) \<Longrightarrow> owner a' b = Some u"
    and acquire_other: "inv a \<Longrightarrow> owner a c \<noteq> None \<or> c \<noteq> b \<Longrightarrow> owner (fst (acquire a b)) c = owner a c"
    and reserve_inv: "inv a \<Longrightarrow> inv (fst (reserve a b d))"
    and reserve_other: "inv a \<Longrightarrow> owner a c \<noteq> None \<or> c \<noteq> b \<Longrightarrow> owner (fst (reserve a b d)) c = owner a c"
    and release_inv: "inv a \<Longrightarrow> inv (release a b)"
    and release_self: "inv a \<Longrightarrow> owner (release a b) b = None"
    and release_other: "inv a \<Longrightarrow> c \<noteq> b \<Longrightarrow> owner (release a b) c = owner a c"
begin

text \<open>The manager's invariant: the user it handed to a Bed is still that Bed's user in the allocator.\<close>

definition backed :: "'a PrivilegeManager \<Rightarrow> bool" where
  "backed m \<longleftrightarrow> inv (PM_allocator m) \<and> (\<forall>b u. map_of (PM_users m) b = Some u \<longrightarrow> owner (PM_allocator m) b = Some u)"

lemma reserve_dirs_keeps:
  assumes "inv a"
  shows "inv (fst (reserve_dirs reserve a b ds))
    \<and> (\<forall>c. owner a c \<noteq> None \<longrightarrow> owner (fst (reserve_dirs reserve a b ds)) c = owner a c)"
  using assms
proof (induction ds arbitrary: a)
  case Nil
  then show ?case by simp
next
  case (Cons d ds)
  obtain a1 r where s: "reserve a b d = (a1, r)" by fastforce
  have i: "inv a1" using reserve_inv [OF Cons.prems, of b d] s by simp
  have o: "owner a1 c = owner a c" if "owner a c \<noteq> None" for c
    using reserve_other [OF Cons.prems, of c b d] that s by simp
  show ?case using Cons.IH [OF i] i o s by (cases r) fastforce+
qed

lemma recover_backed: "backed m \<Longrightarrow> backed (fst (RecoverUser reserve m b dirs))"
  using reserve_dirs_keeps [of "PM_allocator m" b dirs]
  by (fastforce simp: backed_def RecoverUser_def split: prod.splits)

lemma prepare_backed:
  assumes "backed m"
  shows "backed (fst (PrepareUser acquire m b files))"
proof (cases "map_of (PM_users m) b")
  case (Some u)
  with assms show ?thesis by (simp add: PrepareUser_def backed_def)
next
  case None
  obtain a r where a: "acquire (PM_allocator m) b = (a, r)" by fastforce
  have i: "inv (PM_allocator m)" "inv a" using assms acquire_inv [of "PM_allocator m" b] a by (auto simp: backed_def)
  have old: "owner a c = Some u" if "map_of (PM_users m) c = Some u" for c u
    using assms that acquire_other [OF i(1), of c b] a by (auto simp: backed_def)
  show ?thesis
  proof (cases r)
    case (Inl e)
    with a None i old show ?thesis by (simp add: PrepareUser_def backed_def)
  next
    case (Inr u)
    with acquire_ok [OF i(1), of b a u] a None i old show ?thesis by (simp add: PrepareUser_def backed_def)
  qed
qed

lemma forget_backed:
  assumes "backed m"
  shows "backed (ForgetUser release m b)"
proof -
  have i: "inv (PM_allocator m)" and old: "\<And>c u. map_of (PM_users m) c = Some u \<Longrightarrow> owner (PM_allocator m) c = Some u"
    using assms by (auto simp: backed_def)
  have rel: "owner (release (PM_allocator m) b) c = Some u" if "c \<noteq> b" "map_of (PM_users m) c = Some u" for c u
    using release_other [OF i that(1)] old [OF that(2)] by simp
  have rel': "owner (release (PM_allocator m) b) c = Some u" if "map_of (PM_users m) b = None" "map_of (PM_users m) c = Some u" for c u
    using that by (intro rel) auto
  show ?thesis
    using i old rel rel' release_inv [OF i, of b]
    by (auto simp: backed_def ForgetUser_def Let_def split: if_split_asm)
qed

text \<open>Two Beds that the manager has prepared never share a user.\<close>

lemma users_distinct:
  "backed m \<Longrightarrow> map_of (PM_users m) b = Some u \<Longrightarrow> map_of (PM_users m) c = Some v \<Longrightarrow> BU_uid u = BU_uid v \<Longrightarrow> b = c"
  unfolding backed_def by (metis exclusive)

end

section \<open>The allocator keeps its promise\<close>

definition users_ok :: "BedUserAllocator \<Rightarrow> bool" where
  "users_ok a \<longleftrightarrow> BA_fixed a = None \<and> 0 < BA_uidMin a \<and> BA_uidMin a \<le> BA_uidMax a
     \<and> (\<forall>b u. map_of (BA_byBed a) b = Some u \<longrightarrow> BU_gid u = BU_uid u \<and> BA_uidMin a \<le> BU_uid u \<and> BU_uid u \<le> BA_uidMax a
          \<and> map_of (BA_ownerUID a) (BU_uid u) = Some b)
     \<and> (\<forall>uid b. map_of (BA_ownerUID a) uid = Some b \<longrightarrow> map_of (BA_byBed a) b = Some \<lparr> BU_uid = uid, BU_gid = uid \<rparr>)"

definition user_of :: "BedUserAllocator \<Rightarrow> string \<Rightarrow> BedUser option" where
  "user_of a b = map_of (BA_byBed a) b"

lemma own_ok:
  assumes "users_ok a" and "map_of (BA_byBed a) b = None" and "map_of (BA_ownerUID a) uid = None"
    and "BA_uidMin a \<le> uid" "uid \<le> BA_uidMax a"
  shows "users_ok (own a b \<lparr> BU_uid = uid, BU_gid = uid \<rparr>)"
proof -
  have ne: "BU_uid u \<noteq> uid" if "map_of (BA_byBed a) c = Some u" for c u
    using assms(1,3) that by (auto simp: users_ok_def)
  have nb: "c \<noteq> b" if "map_of (BA_ownerUID a) i = Some c" for i c
    using assms(1,2) that by (auto simp: users_ok_def)
  show ?thesis
    using assms ne nb by (auto simp: users_ok_def own_def split: if_split_asm)
qed

lemma own_user: "user_of (own a b u) c = (if c = b then Some u else user_of a c)"
  by (simp add: user_of_def own_def)

lemma reserve_spec:
  assumes a: "users_ok a" and r: "reserveLocked a b uid = (a', r)"
  shows "users_ok a'" "user_of a c \<noteq> None \<or> c \<noteq> b \<Longrightarrow> user_of a' c = user_of a c"
proof -
  have "a' = a \<or> (user_of a b = None \<and> a' = own a b \<lparr> BU_uid = uid, BU_gid = uid \<rparr> \<and> users_ok a')"
    using a r own_ok [OF a, of b uid]
    by (auto simp: reserveLocked_def NewBedUser_def user_of_def users_ok_def split: if_split_asm option.splits)
  then show "users_ok a'" "user_of a c \<noteq> None \<or> c \<noteq> b \<Longrightarrow> user_of a' c = user_of a c"
    using a by (auto simp: own_user)
qed

lemma scan_spec:
  assumes "users_ok a" and "map_of (BA_byBed a) b = None" and "slots = BA_uidMax a - BA_uidMin a + 1"
    and "acquire_scan a b start slots n = (a', r)"
  shows "(\<exists>e. r = Inl e \<and> a' = a)
    \<or> (\<exists>uid. r = Inr \<lparr> BU_uid = uid, BU_gid = uid \<rparr> \<and> a' = own a b \<lparr> BU_uid = uid, BU_gid = uid \<rparr> \<and> users_ok a')"
  using assms(4)
proof (induction n)
  case 0
  then show ?case by auto
next
  case (Suc n)
  let ?uid = "BA_uidMin a + (start + (slots - int (Suc n))) mod slots"
  have pos: "0 < slots" using assms(1,3) by (simp add: users_ok_def)
  have "BA_uidMin a \<le> ?uid" using pos by simp
  moreover have "(start + (slots - int (Suc n))) mod slots < slots" using pos by (rule pos_mod_bound)
  then have "?uid \<le> BA_uidMax a" using assms(3) by linarith
  ultimately show ?case
    using Suc own_ok [OF assms(1,2), of ?uid]
    by (auto simp: Let_def NewBedUser_def split: if_split_asm)
qed

lemma acquire_spec:
  assumes a: "users_ok a" and r: "Acquire a b = (a', r)"
  shows "(\<exists>e. r = Inl e \<and> a' = a) \<or> (\<exists>u. r = Inr u \<and> a' = a \<and> user_of a b = Some u)
    \<or> (\<exists>uid. user_of a b = None \<and> r = Inr \<lparr> BU_uid = uid, BU_gid = uid \<rparr>
         \<and> a' = own a b \<lparr> BU_uid = uid, BU_gid = uid \<rparr> \<and> users_ok a')"
proof (cases "map_of (BA_byBed a) b")
  case (Some u)
  with a r show ?thesis by (auto simp: Acquire_def users_ok_def user_of_def)
next
  case None
  then show ?thesis
    using a r scan_spec [OF a None refl]
    by (auto simp: Acquire_def users_ok_def user_of_def Let_def split: option.splits)
qed

lemma release_ok: "users_ok a \<Longrightarrow> users_ok (ReleaseUser a b)"
proof (cases "map_of (BA_byBed a) b")
  case (Some u)
  assume a: "users_ok a"
  have ne: "BU_uid v \<noteq> BU_uid u" if "map_of (BA_byBed a) c = Some v" "c \<noteq> b" for c v
    using a Some that unfolding users_ok_def by (metis option.inject)
  have nb: "c \<noteq> b" if "map_of (BA_ownerUID a) i = Some c" "i \<noteq> BU_uid u" for i c
  proof
    assume "c = b"
    with a that Some have "u = \<lparr> BU_uid = i, BU_gid = i \<rparr>" by (auto simp: users_ok_def)
    with that show False by simp
  qed
  show ?thesis
    using a Some ne nb by (auto simp: users_ok_def ReleaseUser_def split: if_split_asm)
qed (simp add: ReleaseUser_def users_ok_def)

interpretation per_bed: user_allocator Acquire "ReserveOwnedDirectory stat" ReleaseUser user_of users_ok
proof unfold_locales
  fix a b c d and u v a'
  show "users_ok a \<Longrightarrow> user_of a b = Some u \<Longrightarrow> user_of a c = Some v \<Longrightarrow> BU_uid u = BU_uid v \<Longrightarrow> b = c"
    unfolding users_ok_def user_of_def by (metis option.inject)
  assume a: "users_ok a"
  obtain a1 r where acq: "Acquire a b = (a1, r)" by fastforce
  show "users_ok (fst (Acquire a b))" using acquire_spec [OF a acq] a acq by auto
  show "Acquire a b = (a', Inr u) \<Longrightarrow> user_of a' b = Some u"
    using acquire_spec [OF a, of b a' "Inr u"] by (auto simp: own_user)
  show "user_of a c \<noteq> None \<or> c \<noteq> b \<Longrightarrow> user_of (fst (Acquire a b)) c = user_of a c"
    using acquire_spec [OF a acq] acq by (auto simp: own_user)
  obtain a2 r2 where res: "ReserveOwnedDirectory stat a b d = (a2, r2)" by fastforce
  then have "a2 = a \<or> (\<exists>uid. reserveLocked a b uid = (a2, r2))"
    by (auto simp: ReserveOwnedDirectory_def split: if_split_asm stat_result.splits)
  then show "users_ok (fst (ReserveOwnedDirectory stat a b d))"
    "user_of a c \<noteq> None \<or> c \<noteq> b \<Longrightarrow> user_of (fst (ReserveOwnedDirectory stat a b d)) c = user_of a c"
    using reserve_spec [OF a] a res by auto
  show "users_ok (ReleaseUser a b)" by (rule release_ok [OF a])
  show "user_of (ReleaseUser a b) b = None" "c \<noteq> b \<Longrightarrow> user_of (ReleaseUser a b) c = user_of a c"
    using a by (auto simp: ReleaseUser_def user_of_def users_ok_def split: option.splits)
qed

section \<open>The manager over the allocator\<close>

inductive users_step :: "BedUserAllocator PrivilegeManager \<Rightarrow> BedUserAllocator PrivilegeManager \<Rightarrow> bool" where
  recover: "users_step m (fst (RecoverUser (ReserveOwnedDirectory stat) m b dirs))"
| prepare: "users_step m (fst (PrepareUser Acquire m b files))"
| forget: "users_step m (ForgetUser ReleaseUser m b)"

definition users_start :: "int \<Rightarrow> int \<Rightarrow> BedUserAllocator PrivilegeManager \<Rightarrow> bool" where
  "users_start uidMin uidMax m \<longleftrightarrow>
     NewPerBedUserAllocator uidMin uidMax = Inr (PM_allocator m) \<and> PM_users m = [] \<and> PM_recovered m = []"

interpretation users: state_machine "users_start lo hi" users_step per_bed.backed
proof
  have "NewPerBedUserAllocator lo hi = Inr a \<Longrightarrow> users_ok a" for a
    by (auto simp: NewPerBedUserAllocator_def users_ok_def split: if_split_asm)
  then show "users_start lo hi m \<Longrightarrow> per_bed.backed m" for m
    by (simp add: users_start_def per_bed.backed_def)
  show "per_bed.backed m \<Longrightarrow> users_step m m' \<Longrightarrow> per_bed.backed m'" for m m'
    by (auto elim!: users_step.cases intro: per_bed.recover_backed per_bed.prepare_backed per_bed.forget_backed)
qed

text \<open>C23: with per-Bed users, no two prepared Beds share a Unix user and none runs as root, in every state
  that recovery, preparation and forgetting reach, whatever the owners of recovered directories.\<close>

theorem bed_users_exclusive:
  assumes "users_start lo hi m" and "users_step\<^sup>*\<^sup>* m m'"
    and "map_of (PM_users m') b = Some u" and "map_of (PM_users m') c = Some v"
  shows "(BU_uid u = BU_uid v \<longleftrightarrow> b = c) \<and> 0 < BU_uid u \<and> BU_gid u = BU_uid u"
proof -
  have ok: "per_bed.backed m'" by (rule users.inv_reachable [OF assms(1,2)])
  have "users_ok (PM_allocator m')" "user_of (PM_allocator m') b = Some u"
    using ok assms(3) by (auto simp: per_bed.backed_def)
  then have "0 < BU_uid u" "BU_gid u = BU_uid u" unfolding users_ok_def user_of_def by fastforce+
  moreover have "BU_uid u = BU_uid v \<longleftrightarrow> b = c"
    using per_bed.users_distinct [OF ok assms(3,4)] assms(3,4) by auto
  ultimately show ?thesis by blast
qed

definition sample_users :: "BedUserAllocator PrivilegeManager" where
  "sample_users = \<lparr> PM_allocator = \<lparr> BA_fixed = None, BA_uidMin = 200000, BA_uidMax = 200003, BA_byBed = [], BA_ownerUID = [] \<rparr>,
     PM_users = [], PM_recovered = [], PM_status = (\<lambda>_. no_privilege) \<rparr>"

definition sample_two_users :: "BedUserAllocator PrivilegeManager" where
  "sample_two_users = fst (PrepareUser Acquire (fst (PrepareUser Acquire sample_users ''b1'' None)) ''b2'' None)"

theorem bed_users_exclusive_witness:
  "BU_uid (UserOf sample_two_users ''b1'') \<noteq> BU_uid (UserOf sample_two_users ''b2'') \<and> 0 < BU_uid (UserOf sample_two_users ''b1'')"
proof -
  have start: "users_start 200000 200003 sample_users"
    by (simp add: users_start_def sample_users_def NewPerBedUserAllocator_def)
  have "users_step\<^sup>*\<^sup>* sample_users sample_two_users"
    unfolding sample_two_users_def by (meson prepare rtranclp.rtrancl_into_rtrancl rtranclp.rtrancl_refl)
  note run = bed_users_exclusive [OF start this]
  have "map_of (PM_users sample_two_users) ''b1'' = Some (UserOf sample_two_users ''b1'')"
    "map_of (PM_users sample_two_users) ''b2'' = Some (UserOf sample_two_users ''b2'')"
    by code_simp+
  from run [OF this] show ?thesis by simp
qed

lemma of_int_word_nonzero: "0 < s \<Longrightarrow> s < 2 ^ 32 \<Longrightarrow> (of_int s :: 32 word) \<noteq> 0"
proof
  assume "0 < s" "s < 2 ^ 32" "(of_int s :: 32 word) = 0"
  then have "uint (word_of_int s :: 32 word) = 0" by simp
  then show False using \<open>0 < s\<close> \<open>s < 2 ^ 32\<close> by (simp add: uint_word_of_int)
qed

text \<open>Every offset that the scan has passed is owned.\<close>

lemma scan_error_occupied:
  assumes "0 < BA_uidMin a" and "0 < slots" and "acquire_scan a b start slots n = (a', Inl e)" and "k < n"
  shows "map_of (BA_ownerUID a) (BA_uidMin a + (start + (slots - int (Suc k))) mod slots) \<noteq> None"
  using assms(3,4)
proof (induction n)
  case 0
  then show ?case by simp
next
  case (Suc n)
  let ?uid = "BA_uidMin a + (start + (slots - int (Suc n))) mod slots"
  have "0 \<le> (start + (slots - int (Suc n))) mod slots" using assms(2) by simp
  then have "0 < ?uid" using assms(1) by linarith
  then have used: "map_of (BA_ownerUID a) ?uid \<noteq> None"
    and "acquire_scan a b start slots n = (a', Inl e)"
    using Suc.prems(1) by (auto simp: Let_def NewBedUser_def split: if_split_asm)
  then show ?case using Suc.IH Suc.prems(2) by (cases "k = n") auto
qed

lemma scan_takes_free:
  "acquire_scan a b start slots n = (a', Inr u) \<Longrightarrow>
     map_of (BA_ownerUID a) (BU_uid u) = None \<and> map_of (BA_ownerUID a') (BU_uid u) = Some b"
  by (induction n) (auto simp: Let_def NewBedUser_def own_def split: if_split_asm)

text \<open>The search for a user is complete: as long as some user of the range has no owner, and the range
  has fewer than \<open>2^32\<close> users, acquiring succeeds, and it takes a user that nobody owns.\<close>

theorem Acquire_complete:
  assumes "users_ok a" and "user_of a b = None" and "BA_uidMax a - BA_uidMin a + 1 < 2 ^ 32"
    and "BA_uidMin a \<le> uid" "uid \<le> BA_uidMax a" and "map_of (BA_ownerUID a) uid = None"
  shows "\<exists>a' u. Acquire a b = (a', Inr u) \<and> map_of (BA_ownerUID a) (BU_uid u) = None \<and> map_of (BA_ownerUID a') (BU_uid u) = Some b"
proof -
  let ?slots = "BA_uidMax a - BA_uidMin a + 1"
  have pos: "0 < ?slots" using assms(4,5) by simp
  then have "(of_int ?slots :: 32 word) \<noteq> 0" using assms(3) by (rule of_int_word_nonzero)
  then obtain start where st: "stableBedUserSlot b ?slots = Some start" by (simp add: stableBedUserSlot_def Let_def)
  obtain a' r where r: "Acquire a b = (a', r)" by fastforce
  then have sc: "acquire_scan a b start ?slots (nat ?slots) = (a', r)"
    using assms(1,2) st by (simp add: Acquire_def users_ok_def user_of_def Let_def)
  have "\<exists>u. r = Inr u"
  proof (rule ccontr)
    assume "\<nexists>u. r = Inr u"
    then obtain e where e: "r = Inl e" by (cases r) auto
    define off where "off = (uid - BA_uidMin a - start) mod ?slots"
    have off: "0 \<le> off" "off < ?slots"
      unfolding off_def using pos pos_mod_sign [OF pos] pos_mod_bound [OF pos] by blast+
    let ?k = "nat (?slots - off - 1)"
    have k: "?slots - int (Suc ?k) = off" "?k < nat ?slots" using off by simp_all
    have "(start + off) mod ?slots = (uid - BA_uidMin a) mod ?slots" by (simp add: off_def mod_add_right_eq)
    also have "\<dots> = uid - BA_uidMin a" using assms(4,5) by (intro mod_pos_pos_trivial) simp_all
    finally have "BA_uidMin a + (start + (?slots - int (Suc ?k))) mod ?slots = uid" using k(1) by simp
    then show False
      using scan_error_occupied [OF _ pos sc [unfolded e] k(2)] assms(1,6) by (simp add: users_ok_def)
  qed
  then obtain u where u: "r = Inr u" by blast
  have free: "map_of (BA_ownerUID a) (BU_uid u) = None \<and> map_of (BA_ownerUID a') (BU_uid u) = Some b"
    using scan_takes_free sc unfolding u by blast
  show ?thesis using r u free by blast
qed

theorem Acquire_complete_witness:
  "\<exists>a' u. Acquire (PM_allocator sample_two_users) ''b3'' = (a', Inr u)
     \<and> map_of (BA_ownerUID (PM_allocator sample_two_users)) (BU_uid u) = None"
proof -
  let ?a = "PM_allocator sample_two_users"
  have start: "users_start 200000 200003 sample_users"
    by (simp add: users_start_def sample_users_def NewPerBedUserAllocator_def)
  have "users_step\<^sup>*\<^sup>* sample_users sample_two_users"
    unfolding sample_two_users_def by (meson prepare rtranclp.rtrancl_into_rtrancl rtranclp.rtrancl_refl)
  then have ok: "users_ok ?a" using users.inv_reachable [OF start] by (simp add: per_bed.backed_def)
  have f: "user_of ?a ''b3'' = None" "BA_uidMax ?a - BA_uidMin ?a + 1 < 2 ^ 32"
    "BA_uidMin ?a \<le> hd (filter (\<lambda>i. map_of (BA_ownerUID ?a) i = None) [200000, 200001, 200002])"
    "hd (filter (\<lambda>i. map_of (BA_ownerUID ?a) i = None) [200000, 200001, 200002]) \<le> BA_uidMax ?a"
    "map_of (BA_ownerUID ?a) (hd (filter (\<lambda>i. map_of (BA_ownerUID ?a) i = None) [200000, 200001, 200002])) = None"
    by code_simp+
  from Acquire_complete [OF ok f] show ?thesis by blast
qed

section \<open>The selected identity\<close>

lemma select_user:
  assumes "select_dedicated probe canManage cfg user reason = Inr s"
  shows "SE_User s = user \<and> SharedLevel \<in> set (SE_Supported s)
    \<and> (SE_Effective s = DedicatedLevel \<longrightarrow> canManage \<and> \<not> IC_Configured cfg \<and> SE_Policy s = PerBedUsers UIDMin UIDMax
         \<and> probe 2 \<lparr> BU_uid = UIDMin, BU_gid = UIDMin \<rparr> = Inr None)
    \<and> (SE_Effective s = SharedLevel \<longrightarrow> SE_Policy s = FixedUser (BU_uid user) (BU_gid user))"
proof (cases canManage)
  case False
  with assms show ?thesis by (auto simp: select_dedicated_def Let_def split: if_split_asm)
next
  case True
  have d: "NewBedUser UIDMin UIDMin = Inr \<lparr> BU_uid = UIDMin, BU_gid = UIDMin \<rparr>" by (simp add: NewBedUser_def UIDMin_def)
  obtain failed where f: "probe 2 \<lparr> BU_uid = UIDMin, BU_gid = UIDMin \<rparr> = Inr failed"
    using assms True d by (auto simp: select_dedicated_def Let_def)
  show ?thesis
  proof (cases failed)
    case None
    with assms True d f show ?thesis by (cases "IC_Configured cfg"; cases "reason = NoReason") (auto simp: select_dedicated_def Let_def)
  next
    case (Some msg)
    with assms True d f show ?thesis by (cases "reason = NoReason") (auto simp: select_dedicated_def Let_def)
  qed
qed

text \<open>The daemon runs Beds only under an identity that a child process demonstrated. Whenever selection
  succeeds, the shared user passed a probe, it is root only if the daemon itself is, and dedicated users are
  chosen only with every required capability, without a configured user, and after a probe of a dedicated
  user.\<close>

theorem selected_identity_verified:
  assumes "ResolveIdentity probe linux current caps root cfg = Inr s"
  shows "(\<exists>k. probe k (SE_User s) = Inr None) \<and> (BU_uid (SE_User s) \<le> 0 \<longrightarrow> SE_User s = current)
    \<and> (SE_Effective s = DedicatedLevel \<longrightarrow> linux \<and> MissingBedIdentityCapabilities caps = [] \<and> \<not> IC_Configured cfg
         \<and> SE_Policy s = PerBedUsers UIDMin UIDMax \<and> probe 2 \<lparr> BU_uid = UIDMin, BU_gid = UIDMin \<rparr> = Inr None)"
proof -
  let ?can = "linux \<and> MissingBedIdentityCapabilities caps = []"
  obtain wanted where w: "preferred_user root current ?can cfg = Inr wanted"
    using assms by (auto simp: ResolveIdentity_def Let_def)
  then have root: "BU_uid wanted \<le> 0 \<longrightarrow> wanted = current"
    by (auto simp: preferred_user_def NewBedUser_def split: if_split_asm)
  define user where "user = (if wanted \<noteq> current \<and> \<not> ?can then current else wanted)"
  define reason where "reason = (if wanted \<noteq> current \<and> \<not> ?can then PrerequisitesMissing (BU_uid wanted) (BU_gid wanted) else NoReason)"
  have pair: "(if wanted \<noteq> current \<and> \<not> ?can then (current, PrerequisitesMissing (BU_uid wanted) (BU_gid wanted))
      else (wanted, NoReason)) = (user, reason)" by (simp add: user_def reason_def)
  obtain failed where f: "probe 0 user = Inr failed"
    and s: "(case failed of None \<Rightarrow> select_dedicated probe ?can cfg user reason
      | Some text \<Rightarrow> if user = current then Inl UserProbe
          else res_bind (probe 1 current) (\<lambda>failed2. if failed2 \<noteq> None then Inl UserProbe
            else select_dedicated probe ?can cfg current (ProbeFailed (BU_uid user) (BU_gid user) text))) = Inr s"
    using assms unfolding ResolveIdentity_def Let_def w res_bind.simps pair prod.case res_bind_Inr_conv by blast
  have "\<exists>k user reason. (user = wanted \<or> user = current) \<and> probe k user = Inr None \<and> select_dedicated probe ?can cfg user reason = Inr s"
  proof (cases failed)
    case None
    with f s have "probe 0 user = Inr None \<and> select_dedicated probe ?can cfg user reason = Inr s" by simp
    moreover have "user = wanted \<or> user = current" by (simp add: user_def)
    ultimately show ?thesis by blast
  next
    case (Some msg)
    with s have "probe 1 current = Inr None
        \<and> select_dedicated probe ?can cfg current (ProbeFailed (BU_uid user) (BU_gid user) msg) = Inr s"
      by (simp split: if_split_asm)
    then show ?thesis by blast
  qed
  then obtain k user reason where "user = wanted \<or> user = current" "probe k user = Inr None"
    "select_dedicated probe ?can cfg user reason = Inr s"
    by blast
  with select_user [of probe ?can cfg user reason s] root show ?thesis by auto
qed

definition sample_identity :: IdentityConfig where
  "sample_identity = \<lparr> IC_UID = 0, IC_GID = 0, IC_Configured = False \<rparr>"

theorem selected_identity_verified_witness:
  "\<exists>s. ResolveIdentity (\<lambda>_ _. Inr None) True \<lparr> BU_uid = 0, BU_gid = 0 \<rparr> 511 True sample_identity = Inr s
     \<and> SE_Effective s = DedicatedLevel \<and> SE_Policy s = PerBedUsers UIDMin UIDMax \<and> 0 < BU_uid (SE_User s)"
proof -
  let ?r = "ResolveIdentity (\<lambda>_ _. Inr None) True \<lparr> BU_uid = 0, BU_gid = 0 \<rparr> 511 True sample_identity"
  have r: "?r = Inr \<lparr> SE_Effective = DedicatedLevel, SE_Supported = [SharedLevel, DedicatedLevel], SE_Reason = NoReason,
      SE_Policy = PerBedUsers UIDMin UIDMax, SE_User = \<lparr> BU_uid = 1000, BU_gid = 1000 \<rparr> \<rparr>"
    by code_simp
  from selected_identity_verified [OF r] show ?thesis using r by simp
qed

end
