(* ===== verification/Port_Mappings.thy ===== *)
theory Port_Mappings
  imports Net_Ports Bed_Spec
begin

text \<open>
  The registry of port mappings (\<open>src/internal/bed/network/port_mappings.go\<close>), a client of the port allocator.

  The locale \<open>port_provider\<close> is the interface: what reserving, listening, confirming and releasing promise
  about the live allocations. The operations of the registry take the allocator's operations as
  arguments, their invariant is proved once in the locale, and \<open>Net_Ports\<close> interprets it with the kernel's
  answers as parameters. A \<open>*PortMapping\<close> is an index into a store, since its holder keeps it after
  the registry forgot it; a \<open>TCPForwarder\<close> is the allocation it listens on (its connections are not
  modelled). \<open>Release\<close> has three critical sections, which the step relation interleaves.
\<close>

section \<open>State\<close>

record PortMapping =
  MP_bed :: nat
  MP_spec :: PillowPort
  MP_allocation :: nat
  MP_forward :: "nat option"
  MP_probeAddress :: string
  MP_pillow :: string
  MP_private :: bool
  MP_state :: string
  MP_bedPort :: int
  MP_hostPort :: int
  MP_execution :: string

record 'm PortMappings =
  MS_ports :: 'm
  MS_available :: bool
  MS_heap :: "PortMapping list"
  MS_beds :: "((nat \<times> string) \<times> nat) list"

datatype mapping_error = MapUndeclared string | MapUnavailable string | MapAllocated string | MapNotReserved string
  | MapPorts port_error | MapOwned nat

abbreviation mapping :: "'m PortMappings \<Rightarrow> nat \<Rightarrow> PortMapping" where
  "mapping ms p \<equiv> MS_heap ms ! p"

abbreviation mapping_key :: "PortMapping \<Rightarrow> nat \<times> string" where
  "mapping_key x \<equiv> (MP_bed x, PP_Name (MP_spec x))"

definition set_mapping :: "'m PortMappings \<Rightarrow> nat \<Rightarrow> (PortMapping \<Rightarrow> PortMapping) \<Rightarrow> 'm PortMappings" where
  "set_mapping ms p f = ms\<lparr>MS_heap := (MS_heap ms)[p := f (mapping ms p)]\<rparr>"

section \<open>Operations\<close>

definition NewPortMappings :: "'m \<Rightarrow> 'm PortMappings" where
  "NewPortMappings ports = \<lparr> MS_ports = ports, MS_available = True, MS_heap = [], MS_beds = [] \<rparr>"

definition listen_host :: "string \<Rightarrow> PillowPort \<Rightarrow> string" where
  "listen_host scope spec = (if scope = [] \<and> \<not> PP_Publish spec then ''127.0.0.1'' else ''0.0.0.0'')"

text \<open>\<open>ports\<close> are the declared ports of the Bed, \<open>bedid\<close> its identity.\<close>

definition ReserveMapping ::
  "('m \<Rightarrow> string \<Rightarrow> string \<Rightarrow> string \<Rightarrow> (port_error, nat) result \<times> 'm) \<Rightarrow> ('m \<Rightarrow> nat \<Rightarrow> int) \<Rightarrow> 'm PortMappings
     \<Rightarrow> nat \<Rightarrow> string \<Rightarrow> PillowPort list \<Rightarrow> string \<Rightarrow> string \<Rightarrow> string \<Rightarrow> string \<Rightarrow> (mapping_error, nat) result \<times> 'm PortMappings" where
  "ReserveMapping rsv port_of ms b bedid ports name pillow scope host =
     (case (if name = [] then None else List.find (\<lambda>s. PP_Name s = name) ports) of
        None \<Rightarrow> (Inl (MapUndeclared name), ms)
      | Some spec \<Rightarrow>
          if \<not> MS_available ms then (Inl (MapUnavailable name), ms)
          else if map_of (MS_beds ms) (b, name) \<noteq> None then (Inl (MapAllocated name), ms)
          else
            case rsv (MS_ports ms) (bedid @ ''/port/'' @ name) scope
                   (join_host_port (listen_host scope spec) (itoa (PP_ContainerPort spec))) of
              (Inl e, m) \<Rightarrow> (Inl (MapPorts e), ms\<lparr>MS_ports := m\<rparr>)
            | (Inr a, m) \<Rightarrow>
                let p = length (MS_heap ms);
                    new = \<lparr> MP_bed = b, MP_spec = spec, MP_allocation = a, MP_forward = None,
                      MP_probeAddress = join_host_port host (itoa (port_of m a)), MP_pillow = pillow, MP_private = (scope \<noteq> []),
                      MP_state = ''reserved'', MP_bedPort = port_of m a, MP_hostPort = 0, MP_execution = [] \<rparr>
                in (Inr p, ms\<lparr>MS_ports := m, MS_heap := MS_heap ms @ [new], MS_beds := al_put (b, name) p (MS_beds ms)\<rparr>))"

definition BindMapping :: "'m PortMappings \<Rightarrow> nat \<Rightarrow> string \<Rightarrow> 'm PortMappings" where
  "BindMapping ms p execution = set_mapping ms p (\<lambda>x. x\<lparr>MP_execution := execution\<rparr>)"

text \<open>\<open>fwd m owner\<close> is \<open>NewTCPForwarder\<close>: it listens on a dynamic port of the carrier.\<close>

definition PublishMapping ::
  "('m \<Rightarrow> nat \<Rightarrow> (port_error, unit) result \<times> 'm) \<Rightarrow> ('m \<Rightarrow> string \<Rightarrow> (port_error, nat) result \<times> 'm) \<Rightarrow> ('m \<Rightarrow> nat \<Rightarrow> int)
     \<Rightarrow> 'm PortMappings \<Rightarrow> nat \<Rightarrow> string \<Rightarrow> (mapping_error, unit) result \<times> 'm PortMappings" where
  "PublishMapping cfm fwd port_of ms p bedid =
     (let x = mapping ms p in
      if MP_state x \<noteq> ''reserved'' then (Inl (MapNotReserved (PP_Name (MP_spec x))), ms)
      else case cfm (MS_ports ms) (MP_allocation x) of
        (Inl e, m) \<Rightarrow> (Inl (MapPorts e), ms\<lparr>MS_ports := m\<rparr>)
      | (Inr _, m) \<Rightarrow>
          let ms1 = ms\<lparr>MS_ports := m\<rparr> in
          if \<not> PP_Publish (MP_spec x) then (Inr (), set_mapping ms1 p (\<lambda>x. x\<lparr>MP_state := ''listening''\<rparr>))
          else if \<not> MP_private x
          then (Inr (), set_mapping ms1 p (\<lambda>x. x\<lparr>MP_hostPort := port_of m (MP_allocation x), MP_state := ''listening''\<rparr>))
          else case fwd m (bedid @ ''/port/'' @ PP_Name (MP_spec x) @ ''/publish'') of
            (Inl e, m2) \<Rightarrow> (Inl (MapPorts e), ms1\<lparr>MS_ports := m2\<rparr>)
          | (Inr f, m2) \<Rightarrow>
              (Inr (), set_mapping (ms1\<lparr>MS_ports := m2\<rparr>) p
                 (\<lambda>x. x\<lparr>MP_forward := Some f, MP_hostPort := port_of m2 f, MP_state := ''listening''\<rparr>)))"

definition WithdrawMapping ::
  "('m \<Rightarrow> nat \<Rightarrow> (port_error, unit) result \<times> 'm) \<Rightarrow> 'm PortMappings \<Rightarrow> nat \<Rightarrow> (mapping_error, unit) result \<times> 'm PortMappings" where
  "WithdrawMapping rel ms p =
     (if MP_state (mapping ms p) = ''released'' then (Inr (), ms)
      else
        let ms1 = set_mapping ms p (\<lambda>x. x\<lparr>MP_state := ''stopping'', MP_hostPort := 0\<rparr>) in
        case MP_forward (mapping ms p) of
          None \<Rightarrow> (Inr (), ms1)
        | Some f \<Rightarrow>
            (case rel (MS_ports ms1) f of
               (Inl e, m) \<Rightarrow> (Inl (MapPorts e), ms1\<lparr>MS_ports := m\<rparr>)
             | (Inr _, m) \<Rightarrow> (Inr (), set_mapping (ms1\<lparr>MS_ports := m\<rparr>) p (\<lambda>x. x\<lparr>MP_forward := None\<rparr>))))"

definition release_allocation ::
  "('m \<Rightarrow> nat \<Rightarrow> (port_error, unit) result \<times> 'm) \<Rightarrow> 'm PortMappings \<Rightarrow> nat \<Rightarrow> (mapping_error, unit) result \<times> 'm PortMappings" where
  "release_allocation rel ms p =
     (case rel (MS_ports ms) (MP_allocation (mapping ms p)) of
        (Inl e, m) \<Rightarrow> (Inl (MapPorts e), ms\<lparr>MS_ports := m\<rparr>)
      | (Inr _, m) \<Rightarrow> (Inr (), set_mapping (ms\<lparr>MS_ports := m\<rparr>) p (\<lambda>x. x\<lparr>MP_state := ''released''\<rparr>)))"

definition forget_mapping :: "'m PortMappings \<Rightarrow> nat \<Rightarrow> 'm PortMappings" where
  "forget_mapping ms p =
     (let key = mapping_key (mapping ms p) in
      if map_of (MS_beds ms) key = Some p then ms\<lparr>MS_beds := al_del key (MS_beds ms)\<rparr> else ms)"

definition ReleaseMapping ::
  "('m \<Rightarrow> nat \<Rightarrow> (port_error, unit) result \<times> 'm) \<Rightarrow> 'm PortMappings \<Rightarrow> nat \<Rightarrow> (mapping_error, unit) result \<times> 'm PortMappings" where
  "ReleaseMapping rel ms p =
     (case WithdrawMapping rel ms p of
        (Inl e, ms1) \<Rightarrow> (Inl e, ms1)
      | (Inr _, ms1) \<Rightarrow>
          (case release_allocation rel ms1 p of
             (Inl e, ms2) \<Rightarrow> (Inl e, ms2)
           | (Inr _, ms2) \<Rightarrow> (Inr (), forget_mapping ms2 p)))"

definition CheckReleased :: "'m PortMappings \<Rightarrow> nat \<Rightarrow> (mapping_error, unit) result" where
  "CheckReleased ms b = (if list_ex (\<lambda>(k, p). fst k = b) (MS_beds ms) then Inl (MapOwned b) else Inr ())"

section \<open>Invariant\<close>

text \<open>The allocations a mapping owns: none once it is released.\<close>

definition held :: "PortMapping \<Rightarrow> nat set" where
  "held x = (if MP_state x = ''released'' then {} else insert (MP_allocation x) (set_option (MP_forward x)))"

text \<open>
  \<open>mapping_sane alive issued endp m x\<close>: what the mapping owns exists in the allocator, and the port it
  publishes is the port of the allocation that listens on the carrier.
\<close>

definition mapping_sane ::
  "('m \<Rightarrow> nat set) \<Rightarrow> ('m \<Rightarrow> nat set) \<Rightarrow> ('m \<Rightarrow> nat \<Rightarrow> string \<times> string \<times> int) \<Rightarrow> 'm \<Rightarrow> PortMapping \<Rightarrow> bool" where
  "mapping_sane alive issued endp m x \<longleftrightarrow>
     MP_allocation x \<in> issued m \<and> held x \<subseteq> alive m \<and> MP_forward x \<noteq> Some (MP_allocation x)
     \<and> (MP_state x = ''released'' \<longrightarrow> MP_allocation x \<notin> alive m \<and> MP_forward x = None)
     \<and> (MP_state x = ''reserved'' \<longrightarrow> MP_forward x = None)
     \<and> (MP_state x \<noteq> ''listening'' \<longrightarrow> MP_hostPort x = 0)
     \<and> (MP_state x \<noteq> ''released'' \<longrightarrow> PP_Publish (MP_spec x) \<longrightarrow> \<not> MP_private x \<longrightarrow>
          (\<exists>port. endp m (MP_allocation x) = ([], ''0.0.0.0'', port)))
     \<and> (MP_hostPort x \<noteq> 0 \<longrightarrow>
          (\<exists>a. a \<in> held x \<and> endp m a = ([], ''0.0.0.0'', MP_hostPort x)))"

definition mappings_ok ::
  "('m \<Rightarrow> nat set) \<Rightarrow> ('m \<Rightarrow> nat set) \<Rightarrow> ('m \<Rightarrow> nat \<Rightarrow> string \<times> string \<times> int) \<Rightarrow> ('m \<Rightarrow> bool) \<Rightarrow> 'm PortMappings \<Rightarrow> bool" where
  "mappings_ok alive issued endp good ms \<longleftrightarrow>
     good (MS_ports ms) \<and> distinct (keys (MS_beds ms))
     \<and> (\<forall>p < length (MS_heap ms). mapping_sane alive issued endp (MS_ports ms) (mapping ms p))
     \<and> (\<forall>p < length (MS_heap ms). \<forall>q < length (MS_heap ms). p \<noteq> q \<longrightarrow> held (mapping ms p) \<inter> held (mapping ms q) = {})
     \<and> (\<forall>k p. map_of (MS_beds ms) k = Some p \<longrightarrow> p < length (MS_heap ms) \<and> mapping_key (mapping ms p) = k)
     \<and> (\<forall>p < length (MS_heap ms). MP_state (mapping ms p) \<noteq> ''released'' \<longrightarrow>
          map_of (MS_beds ms) (mapping_key (mapping ms p)) = Some p)"

section \<open>The interface of a port provider\<close>

text \<open>
  \<open>alive\<close> are the allocations that exist, \<open>issued\<close> all that ever existed (handles are not reused) and
  \<open>endp\<close> gives the scope, host and port of one.
\<close>

locale port_provider =
  fixes rsv :: "'m \<Rightarrow> string \<Rightarrow> string \<Rightarrow> string \<Rightarrow> (port_error, nat) result \<times> 'm"
    and fwd :: "'m \<Rightarrow> string \<Rightarrow> (port_error, nat) result \<times> 'm"
    and cfm :: "'m \<Rightarrow> nat \<Rightarrow> (port_error, unit) result \<times> 'm"
    and rel :: "'m \<Rightarrow> nat \<Rightarrow> (port_error, unit) result \<times> 'm"
    and alive :: "'m \<Rightarrow> nat set"
    and issued :: "'m \<Rightarrow> nat set"
    and endp :: "'m \<Rightarrow> nat \<Rightarrow> string \<times> string \<times> int"
    and good :: "'m \<Rightarrow> bool"
  assumes alive_issued: "good m \<Longrightarrow> alive m \<subseteq> issued m"
    and exclusive: "good m \<Longrightarrow> a \<in> alive m \<Longrightarrow> b \<in> alive m \<Longrightarrow> endp m a = (s, h, n) \<Longrightarrow> endp m b = (s, h, n) \<Longrightarrow> a = b"
    and port_range: "good m \<Longrightarrow> a \<in> alive m \<Longrightarrow> endp m a = (s, h, n) \<Longrightarrow> 1 \<le> n \<and> n \<le> 65535"
    and rsv_ok: "good m \<Longrightarrow> rsv m owner scope address = (Inr a, m') \<Longrightarrow>
          good m' \<and> a \<notin> issued m \<and> alive m' = insert a (alive m) \<and> issued m \<subseteq> issued m' \<and>
          (\<forall>b \<in> alive m. endp m' b = endp m b)"
    and rsv_endp: "good m \<Longrightarrow> rsv m owner scope (join_host_port host (itoa n)) = (Inr a, m') \<Longrightarrow>
          host \<in> {''0.0.0.0'', ''127.0.0.1''} \<Longrightarrow> \<exists>port. endp m' a = (scope, host, port)"
    and rsv_err: "good m \<Longrightarrow> rsv m owner scope address = (Inl e, m') \<Longrightarrow>
          good m' \<and> alive m' = alive m \<and> issued m \<subseteq> issued m' \<and> (\<forall>b \<in> alive m. endp m' b = endp m b)"
    and fwd_ok: "good m \<Longrightarrow> fwd m owner = (Inr a, m') \<Longrightarrow>
          good m' \<and> a \<notin> issued m \<and> alive m' = insert a (alive m) \<and> issued m \<subseteq> issued m' \<and>
          (\<forall>b \<in> alive m. endp m' b = endp m b) \<and> (\<exists>port. endp m' a = ([], ''0.0.0.0'', port))"
    and fwd_err: "good m \<Longrightarrow> fwd m owner = (Inl e, m') \<Longrightarrow>
          good m' \<and> alive m' = alive m \<and> issued m \<subseteq> issued m' \<and> (\<forall>b \<in> alive m. endp m' b = endp m b)"
    and cfm_keeps: "good m \<Longrightarrow> cfm m a = (r, m') \<Longrightarrow>
          good m' \<and> alive m' = alive m \<and> issued m' = issued m \<and> (\<forall>b \<in> alive m. endp m' b = endp m b)"
    and rel_ok: "good m \<Longrightarrow> rel m a = (Inr u, m') \<Longrightarrow>
          good m' \<and> alive m' = alive m - {a} \<and> issued m' = issued m \<and> (\<forall>b \<in> alive m'. endp m' b = endp m b)"
    and rel_err: "good m \<Longrightarrow> rel m a = (Inl e, m') \<Longrightarrow> m' = m"
begin

abbreviation port_of :: "'m \<Rightarrow> nat \<Rightarrow> int" where
  "port_of m a \<equiv> snd (snd (endp m a))"

abbreviation sane :: "'m \<Rightarrow> PortMapping \<Rightarrow> bool" where
  "sane \<equiv> mapping_sane alive issued endp"

abbreviation wf :: "'m PortMappings \<Rightarrow> bool" where
  "wf \<equiv> mappings_ok alive issued endp good"

lemma wf_good: "wf ms \<Longrightarrow> good (MS_ports ms)"
  by (simp add: mappings_ok_def)

lemma wf_sane: "wf ms \<Longrightarrow> p < length (MS_heap ms) \<Longrightarrow> sane (MS_ports ms) (mapping ms p)"
  by (simp add: mappings_ok_def)

lemma wf_disjoint:
  "wf ms \<Longrightarrow> p < length (MS_heap ms) \<Longrightarrow> q < length (MS_heap ms) \<Longrightarrow> p \<noteq> q \<Longrightarrow> held (mapping ms p) \<inter> held (mapping ms q) = {}"
  by (simp add: mappings_ok_def)

lemma wf_registered:
  "wf ms \<Longrightarrow> p < length (MS_heap ms) \<Longrightarrow> MP_state (mapping ms p) \<noteq> ''released'' \<Longrightarrow>
     map_of (MS_beds ms) (mapping_key (mapping ms p)) = Some p"
  by (simp add: mappings_ok_def)

lemma wf_alive: "wf ms \<Longrightarrow> p < length (MS_heap ms) \<Longrightarrow> a \<in> held (mapping ms p) \<Longrightarrow> a \<in> alive (MS_ports ms)"
  using wf_sane by (auto simp: mapping_sane_def)

text \<open>A mapping stays sane when the allocator changes what the mapping does not own.\<close>

lemma sane_move:
  assumes "sane m x" and "held x \<subseteq> alive m'" and "issued m \<subseteq> issued m'" and "alive m' \<subseteq> alive m \<union> (- issued m)"
    and "\<And>a. a \<in> held x \<Longrightarrow> endp m' a = endp m a"
  shows "sane m' x"
  using assms unfolding mapping_sane_def held_def by (auto split: if_splits)

text \<open>The allocator may change under the registry as long as nothing owned is released.\<close>

lemma ports_change:
  assumes ok: "wf ms" and "good m'" and "issued (MS_ports ms) \<subseteq> issued m'"
    and "alive m' \<subseteq> alive (MS_ports ms) \<union> (- issued (MS_ports ms))"
    and owned: "\<And>p a. p < length (MS_heap ms) \<Longrightarrow> a \<in> held (mapping ms p) \<Longrightarrow> a \<in> alive m' \<and> endp m' a = endp (MS_ports ms) a"
  shows "wf (ms\<lparr>MS_ports := m'\<rparr>)"
proof -
  have "sane m' (mapping ms p)" if "p < length (MS_heap ms)" for p
  proof (rule sane_move)
    show "sane (MS_ports ms) (mapping ms p)" using ok that by (simp add: mappings_ok_def)
  qed (use assms owned [OF that] in auto)
  with ok \<open>good m'\<close> show ?thesis by (simp add: mappings_ok_def)
qed

text \<open>Replacing one mapping.\<close>

lemma replace_ok:
  assumes ok: "wf ms" and p: "p < length (MS_heap ms)" and sane: "sane (MS_ports ms) x"
    and key: "mapping_key x = mapping_key (mapping ms p)"
    and state: "MP_state (mapping ms p) = ''released'' \<Longrightarrow> MP_state x = ''released''"
    and held: "\<And>q. q < length (MS_heap ms) \<Longrightarrow> q \<noteq> p \<Longrightarrow> held x \<inter> held (mapping ms q) = {}"
  shows "wf (ms\<lparr>MS_heap := (MS_heap ms)[p := x]\<rparr>)"
proof -
  have keys: "mapping_key ((MS_heap ms)[p := x] ! q) = mapping_key (mapping ms q)" for q
    using key p by (cases "q = p") simp_all
  have "held ((MS_heap ms)[p := x] ! q) \<inter> held ((MS_heap ms)[p := x] ! r) = {}"
    if "q < length (MS_heap ms)" "r < length (MS_heap ms)" "q \<noteq> r" for q r
    using held [of q] held [of r] that ok p
    by (cases "q = p"; cases "r = p") (auto simp: mappings_ok_def nth_list_update)
  moreover have "sane (MS_ports ms) ((MS_heap ms)[p := x] ! q)" if "q < length (MS_heap ms)" for q
    using that ok sane p by (cases "q = p") (auto simp: mappings_ok_def)
  moreover have "map_of (MS_beds ms) (mapping_key (mapping ms q)) = Some q"
    if "q < length (MS_heap ms)" "MP_state ((MS_heap ms)[p := x] ! q) \<noteq> ''released''" for q
    using that(2) wf_registered [OF ok that(1)] state p by (cases "q = p") auto
  ultimately show ?thesis using ok by (simp add: mappings_ok_def keys)
qed

text \<open>The allocator grants something new, or keeps everything.\<close>

lemma ports_grow:
  assumes ok: "wf ms" and "good m'" and "issued (MS_ports ms) \<subseteq> issued m'"
    and "alive (MS_ports ms) \<subseteq> alive m'" and "alive m' \<subseteq> alive (MS_ports ms) \<union> (- issued (MS_ports ms))"
    and "\<forall>b \<in> alive (MS_ports ms). endp m' b = endp (MS_ports ms) b"
  shows "wf (ms\<lparr>MS_ports := m'\<rparr>)"
  using assms wf_alive [OF ok] by (intro ports_change [OF ok]) blast+

lemma rsv_err_ok: "wf ms \<Longrightarrow> rsv (MS_ports ms) owner scope address = (Inl e, m') \<Longrightarrow> wf (ms\<lparr>MS_ports := m'\<rparr>)"
  using rsv_err [OF wf_good] by (intro ports_grow) auto

lemma fwd_err_ok: "wf ms \<Longrightarrow> fwd (MS_ports ms) owner = (Inl e, m') \<Longrightarrow> wf (ms\<lparr>MS_ports := m'\<rparr>)"
  using fwd_err [OF wf_good] by (intro ports_grow) auto

lemma cfm_wf: "wf ms \<Longrightarrow> cfm (MS_ports ms) a = (r, m') \<Longrightarrow> wf (ms\<lparr>MS_ports := m'\<rparr>)"
  using cfm_keeps [OF wf_good] by (intro ports_grow) auto

lemma rsv_wf:
  assumes "wf ms" and "rsv (MS_ports ms) owner scope address = (r, m')"
  shows "wf (ms\<lparr>MS_ports := m'\<rparr>)"
proof (cases r)
  case (Inl e)
  with assms rsv_err_ok show ?thesis by blast
next
  case (Inr a)
  with rsv_ok [OF wf_good, of ms owner scope address a m'] assms show ?thesis by (intro ports_grow) auto
qed

lemma fwd_wf: assumes "wf ms" and "fwd (MS_ports ms) owner = (r, m')" shows "wf (ms\<lparr>MS_ports := m'\<rparr>)"
proof (cases r)
  case (Inl e)
  with assms fwd_err_ok show ?thesis by blast
next
  case (Inr a)
  with fwd_ok [OF wf_good, of ms owner a m'] assms show ?thesis by (intro ports_grow) auto
qed

text \<open>Somebody else releases what no mapping owns.\<close>

lemma rel_other_wf:
  assumes ok: "wf ms" and r: "rel (MS_ports ms) a = (r, m')" and free: "\<And>p. p < length (MS_heap ms) \<Longrightarrow> a \<notin> held (mapping ms p)"
  shows "wf (ms\<lparr>MS_ports := m'\<rparr>)"
proof (cases r)
  case (Inl e)
  with r rel_err [OF wf_good [OF ok]] have "m' = MS_ports ms" by blast
  with ok show ?thesis by simp
next
  case (Inr u)
  with r have l: "good m' \<and> alive m' = alive (MS_ports ms) - {a} \<and> issued m' = issued (MS_ports ms) \<and>
      (\<forall>b \<in> alive m'. endp m' b = endp (MS_ports ms) b)"
    using rel_ok [OF wf_good [OF ok]] by blast
  show ?thesis
  proof (rule ports_change [OF ok])
    fix p b assume "p < length (MS_heap ms)" "b \<in> held (mapping ms p)"
    then show "b \<in> alive m' \<and> endp m' b = endp (MS_ports ms) b"
      using wf_alive [OF ok] free l by (metis DiffI singletonD)
  qed (use l in auto)
qed

lemma Reserve_wf:
  assumes ok: "wf ms"
  shows "wf (snd (ReserveMapping rsv port_of ms b bedid ports name pillow scope host))"
proof (cases "snd (ReserveMapping rsv port_of ms b bedid ports name pillow scope host) = ms")
  case True
  with ok show ?thesis by simp
next
  case False
  let ?find = "if name = [] then None else List.find (\<lambda>s. PP_Name s = name) ports"
  from False obtain spec where spec: "?find = Some spec"
    by (cases ?find) (simp_all only: ReserveMapping_def option.case prod.sel simp_thms)
  then have name: "PP_Name spec = name" by (auto simp: find_Some_iff split: if_splits)
  from False have new: "MS_available ms" "map_of (MS_beds ms) (b, name) = None"
    by (auto simp: ReserveMapping_def spec simp del: if_split split: if_split_asm)
  obtain r m' where rs: "rsv (MS_ports ms) (bedid @ ''/port/'' @ name) scope
      (join_host_port (listen_host scope spec) (itoa (PP_ContainerPort spec))) = (r, m')" by fastforce
  have lh: "listen_host scope spec \<in> {''0.0.0.0'', ''127.0.0.1''}" by (simp add: listen_host_def)
  note wf1 = rsv_wf [OF ok rs]
  show ?thesis
  proof (cases r)
    case (Inl e)
    with wf1 rs new show ?thesis by (simp add: ReserveMapping_def spec)
  next
    case (Inr a)
    note l = rsv_ok [OF wf_good [OF ok] rs [unfolded Inr]] rsv_endp [OF wf_good [OF ok] rs [unfolded Inr] lh]
    let ?x = "\<lparr> MP_bed = b, MP_spec = spec, MP_allocation = a, MP_forward = None,
        MP_probeAddress = join_host_port host (itoa (port_of m' a)), MP_pillow = pillow, MP_private = (scope \<noteq> []),
        MP_state = ''reserved'', MP_bedPort = port_of m' a, MP_hostPort = 0, MP_execution = [] \<rparr>"
    let ?n = "length (MS_heap ms)"
    have res: "snd (ReserveMapping rsv port_of ms b bedid ports name pillow scope host) =
        ms\<lparr>MS_ports := m', MS_heap := MS_heap ms @ [?x], MS_beds := al_put (b, name) ?n (MS_beds ms)\<rparr>"
      using rs new Inr by (simp add: ReserveMapping_def spec Let_def)
    have hx: "held ?x = {a}" by (simp add: held_def)
    have sx: "sane m' ?x"
      using l alive_issued [of m'] by (auto simp: mapping_sane_def held_def listen_host_def)
    have fresh: "a \<notin> held (mapping ms q)" if "q < ?n" for q
      using wf_alive [OF ok that] l alive_issued [OF wf_good [OF ok]] by blast
    show ?thesis unfolding res
      using wf1 sx fresh new name hx
      by (auto simp: mappings_ok_def nth_append less_Suc_eq Int_commute)
  qed
qed

text \<open>Changing a mapping so that it owns no more than before.\<close>

lemma set_mapping_wf:
  assumes ok: "wf ms" and p: "p < length (MS_heap ms)" and sane: "sane (MS_ports ms) (f (mapping ms p))"
    and key: "mapping_key (f (mapping ms p)) = mapping_key (mapping ms p)"
    and state: "MP_state (mapping ms p) = ''released'' \<Longrightarrow> MP_state (f (mapping ms p)) = ''released''"
    and held: "held (f (mapping ms p)) \<subseteq> held (mapping ms p)"
  shows "wf (set_mapping ms p f)"
  unfolding set_mapping_def
proof (rule replace_ok [OF ok p sane key state])
  fix q assume "q < length (MS_heap ms)" "q \<noteq> p"
  with wf_disjoint [OF ok p] held show "held (f (mapping ms p)) \<inter> held (mapping ms q) = {}" by blast
qed

lemma Bind_wf:
  assumes ok: "wf ms" and p: "p < length (MS_heap ms)"
  shows "wf (BindMapping ms p execution)"
  unfolding BindMapping_def
  by (rule set_mapping_wf [OF ok p]) (use wf_sane [OF ok p] in \<open>auto simp: mapping_sane_def held_def\<close>)

lemma Publish_forward_wf:
  assumes ok: "wf ms" and p: "p < length (MS_heap ms)" and st: "MP_state (mapping ms p) = ''reserved''"
    and f: "fwd (MS_ports ms) owner = (Inr a, m)"
  shows "wf (set_mapping (ms\<lparr>MS_ports := m\<rparr>) p
           (\<lambda>x. x\<lparr>MP_forward := Some a, MP_hostPort := port_of m a, MP_state := ''listening''\<rparr>))"
proof -
  let ?ms = "ms\<lparr>MS_ports := m\<rparr>"
  let ?x = "(mapping ms p)\<lparr>MP_forward := Some a, MP_hostPort := port_of m a, MP_state := ''listening''\<rparr>"
  note l = fwd_ok [OF wf_good [OF ok] f]
  have ok1: "wf ?ms" using ok f by (rule fwd_wf)
  have s: "sane m (mapping ms p)" using wf_sane [OF ok1] p by simp
  have old: "MP_allocation (mapping ms p) \<in> issued (MS_ports ms)" using wf_sane [OF ok p] by (simp add: mapping_sane_def)
  have "sane m ?x" using s l old st by (auto simp: mapping_sane_def held_def)
  moreover have "held ?x \<inter> held (mapping ms q) = {}" if "q < length (MS_heap ms)" "q \<noteq> p" for q
  proof -
    have "a \<notin> held (mapping ms q)" using wf_alive [OF ok that(1)] l alive_issued [OF wf_good [OF ok]] by blast
    moreover have "held ?x = insert a (held (mapping ms p))"
      using s st by (auto simp: held_def mapping_sane_def)
    moreover have "held (mapping ms p) \<inter> held (mapping ms q) = {}"
      using wf_disjoint [OF ok p that(1)] that(2) by simp
    ultimately show ?thesis by simp
  qed
  ultimately show ?thesis
    unfolding set_mapping_def using replace_ok [OF ok1, of p ?x] p st by simp
qed

lemma Publish_wf:
  assumes ok: "wf ms" and p: "p < length (MS_heap ms)"
  shows "wf (snd (PublishMapping cfm fwd port_of ms p bedid))"
proof (cases "MP_state (mapping ms p) = ''reserved''")
  case False
  with ok show ?thesis by (simp add: PublishMapping_def)
next
  case st: True
  let ?x = "mapping ms p"
  obtain r m where c: "cfm (MS_ports ms) (MP_allocation ?x) = (r, m)" by fastforce
  let ?ms = "ms\<lparr>MS_ports := m\<rparr>"
  have ok1: "wf ?ms" using ok c by (rule cfm_wf)
  have p1: "p < length (MS_heap ?ms)" using p by simp
  note s1 = wf_sane [OF ok1 p1]
  show ?thesis
  proof (cases "r = Inr () \<and> PP_Publish (MP_spec ?x) \<and> MP_private ?x")
    case True
    obtain q m2 where f: "fwd m (bedid @ ''/port/'' @ PP_Name (MP_spec ?x) @ ''/publish'') = (q, m2)" by fastforce
    have res: "snd (PublishMapping cfm fwd port_of ms p bedid) = (case q of Inl e \<Rightarrow> ?ms\<lparr>MS_ports := m2\<rparr>
        | Inr a \<Rightarrow> set_mapping (?ms\<lparr>MS_ports := m2\<rparr>) p
            (\<lambda>x. x\<lparr>MP_forward := Some a, MP_hostPort := port_of m2 a, MP_state := ''listening''\<rparr>))"
      using True st c f by (simp add: PublishMapping_def Let_def split: sum.splits)
    have f1: "fwd (MS_ports ?ms) (bedid @ ''/port/'' @ PP_Name (MP_spec ?x) @ ''/publish'') = (q, m2)" using f by simp
    show ?thesis
    proof (cases q)
      case (Inl e)
      with fwd_wf [OF ok1 f1] res show ?thesis by simp
    next
      case (Inr a)
      with Publish_forward_wf [OF ok1 p1 _ f1 [unfolded Inr]] res st show ?thesis by simp
    qed
  next
    case False
    have listening: "wf (set_mapping ?ms p (\<lambda>x. x\<lparr>MP_state := ''listening''\<rparr>))"
      by (rule set_mapping_wf [OF ok1 p1]) (use s1 st in \<open>auto simp: mapping_sane_def held_def\<close>)
    have shared: "PP_Publish (MP_spec ?x) \<Longrightarrow> \<not> MP_private ?x \<Longrightarrow>
        wf (set_mapping ?ms p (\<lambda>x. x\<lparr>MP_hostPort := port_of m (MP_allocation x), MP_state := ''listening''\<rparr>))"
      by (rule set_mapping_wf [OF ok1 p1]) (use s1 st in \<open>auto simp: mapping_sane_def held_def\<close>)
    show ?thesis using False st c ok1 listening shared
      by (cases r) (simp_all add: PublishMapping_def Let_def)
  qed
qed

text \<open>Releasing an allocation of a mapping together with forgetting it in the mapping.\<close>

lemma release_own_wf:
  assumes ok: "wf ms" and p: "p < length (MS_heap ms)" and r: "rel (MS_ports ms) a = (Inr u, m)"
    and own: "a \<in> held (mapping ms p) \<or> a \<notin> alive (MS_ports ms)"
    and sane: "sane m (f (mapping ms p))"
    and key: "mapping_key (f (mapping ms p)) = mapping_key (mapping ms p)"
    and state: "MP_state (mapping ms p) = ''released'' \<Longrightarrow> MP_state (f (mapping ms p)) = ''released''"
    and held: "held (f (mapping ms p)) \<subseteq> held (mapping ms p)"
  shows "wf (set_mapping (ms\<lparr>MS_ports := m\<rparr>) p f)"
proof -
  let ?x = "f (mapping ms p)" and ?H = "(MS_heap ms)[p := f (mapping ms p)]"
  note l = rel_ok [OF wf_good [OF ok] r]
  have other: "sane m (mapping ms q)" if q: "q < length (MS_heap ms)" "q \<noteq> p" for q
  proof (rule sane_move [OF wf_sane [OF ok q(1)]])
    have "a \<notin> held (mapping ms q)" using own wf_disjoint [OF ok p q(1)] q(2) wf_alive [OF ok q(1)] by blast
    then show "held (mapping ms q) \<subseteq> alive m" using l wf_alive [OF ok q(1)] by blast
    then show "endp m b = endp (MS_ports ms) b" if "b \<in> held (mapping ms q)" for b using l that by blast
  qed (use l in auto)
  have keys: "mapping_key (?H ! q) = mapping_key (mapping ms q)" for q
    using key p by (cases "q = p") simp_all
  have "held (?H ! q) \<inter> held (?H ! q') = {}" if "q < length (MS_heap ms)" "q' < length (MS_heap ms)" "q \<noteq> q'" for q q'
    using wf_disjoint [OF ok that] held p by (cases "q = p"; cases "q' = p") (auto simp: nth_list_update)
  moreover have "sane m (?H ! q)" if "q < length (MS_heap ms)" for q
    using that other sane p by (cases "q = p") auto
  moreover have "map_of (MS_beds ms) (mapping_key (mapping ms q)) = Some q"
    if "q < length (MS_heap ms)" "MP_state (?H ! q) \<noteq> ''released''" for q
    using that(2) wf_registered [OF ok that(1)] state p by (cases "q = p") auto
  ultimately show ?thesis using ok l by (simp add: mappings_ok_def set_mapping_def keys)
qed

lemma Withdraw_wf:
  assumes ok: "wf ms" and p: "p < length (MS_heap ms)"
  shows "wf (snd (WithdrawMapping rel ms p))"
proof (cases "MP_state (mapping ms p) = ''released''")
  case True
  with ok show ?thesis by (simp add: WithdrawMapping_def)
next
  case False
  let ?ms = "set_mapping ms p (\<lambda>x. x\<lparr>MP_state := ''stopping'', MP_hostPort := 0\<rparr>)"
  note s = wf_sane [OF ok p]
  have ok1: "wf ?ms"
    by (rule set_mapping_wf [OF ok p]) (use s False in \<open>auto simp: mapping_sane_def held_def\<close>)
  have p1: "p < length (MS_heap ?ms)" using p by (simp add: set_mapping_def)
  have x: "mapping ?ms p = (mapping ms p)\<lparr>MP_state := ''stopping'', MP_hostPort := 0\<rparr>" using p by (simp add: set_mapping_def)
  show ?thesis
  proof (cases "MP_forward (mapping ms p)")
    case None
    with ok1 False show ?thesis by (simp add: WithdrawMapping_def)
  next
    case (Some a)
    obtain r m where rl: "rel (MS_ports ?ms) a = (r, m)" by fastforce
    show ?thesis
    proof (cases r)
      case (Inl e)
      with rl rel_err [OF wf_good [OF ok1]] have "m = MS_ports ?ms" by blast
      with Inl rl ok1 False Some show ?thesis by (simp add: WithdrawMapping_def)
    next
      case (Inr u)
      note l = rel_ok [OF wf_good [OF ok1] rl [unfolded Inr]]
      have "wf (set_mapping (?ms\<lparr>MS_ports := m\<rparr>) p (\<lambda>x. x\<lparr>MP_forward := None\<rparr>))"
      proof (rule release_own_wf [OF ok1 p1 rl [unfolded Inr]])
        show "sane m ((mapping ?ms p)\<lparr>MP_forward := None\<rparr>)"
          using wf_sane [OF ok1 p1] l Some unfolding x by (auto simp: mapping_sane_def held_def)
      qed (auto simp: x held_def Some)
      with Inr rl False Some show ?thesis by (simp add: WithdrawMapping_def)
    qed
  qed
qed

text \<open>After a successful \<open>Withdraw\<close> the mapping is withdrawn: stopping or released, without a forwarder.\<close>

lemma release_allocation_wf:
  assumes ok: "wf ms" and p: "p < length (MS_heap ms)"
    and st: "MP_state (mapping ms p) \<in> {''stopping'', ''released''}" "MP_forward (mapping ms p) = None"
  shows "wf (snd (release_allocation rel ms p))"
proof -
  obtain r m where rl: "rel (MS_ports ms) (MP_allocation (mapping ms p)) = (r, m)" by fastforce
  show ?thesis
  proof (cases r)
    case (Inl e)
    with rl rel_err [OF wf_good [OF ok]] have "m = MS_ports ms" by blast
    with Inl rl ok show ?thesis by (simp add: release_allocation_def)
  next
    case (Inr u)
    note l = rel_ok [OF wf_good [OF ok] rl [unfolded Inr]]
    note s = wf_sane [OF ok p]
    have "wf (set_mapping (ms\<lparr>MS_ports := m\<rparr>) p (\<lambda>x. x\<lparr>MP_state := ''released''\<rparr>))"
    proof (rule release_own_wf [OF ok p rl [unfolded Inr]])
      show "MP_allocation (mapping ms p) \<in> held (mapping ms p) \<or> MP_allocation (mapping ms p) \<notin> alive (MS_ports ms)"
        using s by (simp add: held_def mapping_sane_def)
      show "sane m ((mapping ms p)\<lparr>MP_state := ''released''\<rparr>)"
        using s l st by (auto simp: mapping_sane_def held_def)
    qed (simp_all add: held_def)
    with Inr rl show ?thesis by (simp add: release_allocation_def)
  qed
qed

lemma registry_shrinks_wf:
  assumes ok: "wf ms" and bs: "bs = al_del k (MS_beds ms)"
    and reg: "\<forall>q < length (MS_heap ms). MP_state (mapping ms q) \<noteq> ''released'' \<longrightarrow> mapping_key (mapping ms q) \<noteq> k"
  shows "wf (ms\<lparr>MS_beds := bs\<rparr>)"
proof -
  have d: "distinct (keys bs)" using ok bs by (simp add: mappings_ok_def)
  have sub: "\<forall>k p. map_of bs k = Some p \<longrightarrow> p < length (MS_heap ms) \<and> mapping_key (mapping ms p) = k"
    using ok bs by (simp add: mappings_ok_def)
  have reg: "\<forall>p < length (MS_heap ms). MP_state (mapping ms p) \<noteq> ''released'' \<longrightarrow> map_of bs (mapping_key (mapping ms p)) = Some p"
    using wf_registered [OF ok] reg unfolding bs map_of_al_del by (metis fun_upd_other)
  from ok d sub reg show ?thesis unfolding mappings_ok_def by simp
qed

lemma forget_wf:
  assumes ok: "wf ms" and p: "p < length (MS_heap ms)" and st: "MP_state (mapping ms p) = ''released''"
  shows "wf (forget_mapping ms p)"
proof (cases "map_of (MS_beds ms) (mapping_key (mapping ms p)) = Some p")
  case False
  with ok show ?thesis by (simp add: forget_mapping_def)
next
  case True
  then have "\<forall>q < length (MS_heap ms). MP_state (mapping ms q) \<noteq> ''released'' \<longrightarrow>
      mapping_key (mapping ms q) \<noteq> mapping_key (mapping ms p)"
    using wf_registered [OF ok] st by (metis option.inject)
  from registry_shrinks_wf [OF ok refl this] True show ?thesis by (simp add: forget_mapping_def)
qed

text \<open>A Bed that owns nothing in the registry has only released mappings.\<close>

lemma CheckReleased_sound:
  assumes ok: "wf ms" and c: "CheckReleased ms b = Inr ()" and p: "p < length (MS_heap ms)" and b: "MP_bed (mapping ms p) = b"
  shows "MP_state (mapping ms p) = ''released'' \<and> MP_allocation (mapping ms p) \<notin> alive (MS_ports ms)
    \<and> MP_forward (mapping ms p) = None \<and> MP_hostPort (mapping ms p) = 0"
proof -
  have "map_of (MS_beds ms) (mapping_key (mapping ms p)) = None"
    using c b by (auto simp: CheckReleased_def list_ex_iff map_of_eq_None_iff split: if_splits)
  with wf_registered [OF ok p] have st: "MP_state (mapping ms p) = ''released''" by fastforce
  with wf_sane [OF ok p] show ?thesis by (simp add: mapping_sane_def)
qed

text \<open>Two mappings never publish the same port of the carrier.\<close>

lemma host_ports_distinct:
  assumes ok: "wf ms" and p: "p < length (MS_heap ms)" and q: "q < length (MS_heap ms)"
    and "MP_hostPort (mapping ms p) \<noteq> 0" and "MP_hostPort (mapping ms q) = MP_hostPort (mapping ms p)"
  shows "p = q \<and> 1 \<le> MP_hostPort (mapping ms p) \<and> MP_hostPort (mapping ms p) \<le> 65535"
proof -
  obtain a b where a: "a \<in> held (mapping ms p)" "endp (MS_ports ms) a = ([], ''0.0.0.0'', MP_hostPort (mapping ms p))"
    and b: "b \<in> held (mapping ms q)" "endp (MS_ports ms) b = ([], ''0.0.0.0'', MP_hostPort (mapping ms p))"
    using wf_sane [OF ok p] wf_sane [OF ok q] assms(4,5) unfolding mapping_sane_def by metis
  have l: "a \<in> alive (MS_ports ms)" "b \<in> alive (MS_ports ms)" using wf_alive [OF ok] p q a b by blast+
  have "a = b" by (rule exclusive [OF wf_good [OF ok] l a(2) b(2)])
  with wf_disjoint [OF ok p q] a b have "p = q" by auto
  with port_range [OF wf_good [OF ok] l(1) a(2)] show ?thesis by blast
qed

end

section \<open>What a call on one mapping changes\<close>

text \<open>
  \<open>touches alive p ms ms'\<close>: nothing but the mapping \<open>p\<close>, its entry in the registry and the allocations it
  owns has changed.
\<close>

definition touches :: "('m \<Rightarrow> nat set) \<Rightarrow> nat \<Rightarrow> 'm PortMappings \<Rightarrow> 'm PortMappings \<Rightarrow> bool" where
  "touches alive p ms ms' \<longleftrightarrow>
     length (MS_heap ms') = length (MS_heap ms) \<and> (\<forall>q. q \<noteq> p \<longrightarrow> mapping ms' q = mapping ms q)
     \<and> mapping_key (mapping ms' p) = mapping_key (mapping ms p)
     \<and> (\<forall>k q. q \<noteq> p \<longrightarrow> (map_of (MS_beds ms') k = Some q \<longleftrightarrow> map_of (MS_beds ms) k = Some q))
     \<and> alive (MS_ports ms') = (alive (MS_ports ms) - held (mapping ms p)) \<union> held (mapping ms' p)
     \<and> held (mapping ms' p) \<inter> (alive (MS_ports ms) - held (mapping ms p)) = {}"

lemma touches_trans:
  assumes "touches alive p ms ms1" and "touches alive p ms1 ms2"
  shows "touches alive p ms ms2"
proof -
  have "alive (MS_ports ms1) - held (mapping ms1 p) = alive (MS_ports ms) - held (mapping ms p)"
    using assms(1) unfolding touches_def by blast
  with assms show ?thesis unfolding touches_def by simp
qed

lemma set_mapping_sel [simp]:
  "MS_ports (set_mapping ms p f) = MS_ports ms" "MS_beds (set_mapping ms p f) = MS_beds ms"
  "length (MS_heap (set_mapping ms p f)) = length (MS_heap ms)" "q \<noteq> p \<Longrightarrow> mapping (set_mapping ms p f) q = mapping ms q"
  "p < length (MS_heap ms) \<Longrightarrow> mapping (set_mapping ms p f) p = f (mapping ms p)"
  by (simp_all add: set_mapping_def)

context port_provider
begin

lemma touches_refl: "wf ms \<Longrightarrow> p < length (MS_heap ms) \<Longrightarrow> touches alive p ms ms"
  using wf_alive [of ms p] unfolding touches_def by blast

lemma touches_set:
  assumes ok: "wf ms" and p: "p < length (MS_heap ms)"
    and "mapping_key (f (mapping ms p)) = mapping_key (mapping ms p)"
    and "alive m = (alive (MS_ports ms) - held (mapping ms p)) \<union> held (f (mapping ms p))"
    and "held (f (mapping ms p)) \<inter> (alive (MS_ports ms) - held (mapping ms p)) = {}"
  shows "touches alive p ms (set_mapping (ms\<lparr>MS_ports := m\<rparr>) p f)"
  using assms unfolding touches_def by (simp add: set_mapping_def)

lemma touches_ports:
  assumes ok: "wf ms" and p: "p < length (MS_heap ms)" and "alive m = alive (MS_ports ms)"
  shows "touches alive p ms (ms\<lparr>MS_ports := m\<rparr>)"
  using touches_refl [OF ok p] assms unfolding touches_def by simp

lemma same_held_touches:
  assumes ok: "wf ms" and p: "p < length (MS_heap ms)" and "alive m = alive (MS_ports ms)"
    and "mapping_key (f (mapping ms p)) = mapping_key (mapping ms p)" and "held (f (mapping ms p)) = held (mapping ms p)"
  shows "touches alive p ms (set_mapping (ms\<lparr>MS_ports := m\<rparr>) p f)"
  using assms(3-5) wf_alive [OF ok p] by (intro touches_set [OF ok p]) auto

lemma Bind_touches: "wf ms \<Longrightarrow> p < length (MS_heap ms) \<Longrightarrow> touches alive p ms (BindMapping ms p execution)"
  using same_held_touches [of ms p "MS_ports ms" "\<lambda>x. x\<lparr>MP_execution := execution\<rparr>"]
  by (simp add: BindMapping_def held_def)

lemma Publish_touches:
  assumes ok: "wf ms" and p: "p < length (MS_heap ms)"
  shows "touches alive p ms (snd (PublishMapping cfm fwd port_of ms p bedid))"
proof (cases "MP_state (mapping ms p) = ''reserved''")
  case False
  with touches_refl [OF ok p] show ?thesis by (simp add: PublishMapping_def)
next
  case st: True
  let ?x = "mapping ms p"
  have fw: "MP_forward ?x = None" using wf_sane [OF ok p] st by (simp add: mapping_sane_def)
  obtain r m where c: "cfm (MS_ports ms) (MP_allocation ?x) = (r, m)" by fastforce
  have al: "alive m = alive (MS_ports ms)" using cfm_keeps [OF wf_good [OF ok] c] by blast
  note ports = touches_ports [OF ok p]
  have listening: "touches alive p ms (set_mapping (ms\<lparr>MS_ports := m\<rparr>) p (\<lambda>x. x\<lparr>MP_state := ''listening''\<rparr>))"
    "touches alive p ms (set_mapping (ms\<lparr>MS_ports := m\<rparr>) p (\<lambda>x. x\<lparr>MP_hostPort := port_of m (MP_allocation x), MP_state := ''listening''\<rparr>))"
    by (rule same_held_touches [OF ok p al]; use st in \<open>simp add: held_def\<close>)+
  show ?thesis
  proof (cases "r = Inr () \<and> PP_Publish (MP_spec ?x) \<and> MP_private ?x")
    case False
    then show ?thesis using st c ports [OF al] listening by (cases r) (simp_all add: PublishMapping_def Let_def)
  next
    case True
    obtain q m2 where f: "fwd m (bedid @ ''/port/'' @ PP_Name (MP_spec ?x) @ ''/publish'') = (q, m2)" by fastforce
    have gm: "good m" using cfm_keeps [OF wf_good [OF ok] c] by blast
    show ?thesis
    proof (cases q)
      case (Inl e)
      have "alive m2 = alive (MS_ports ms)" using fwd_err [OF gm f [unfolded Inl]] al by simp
      from ports [OF this] True st c f Inl show ?thesis by (simp add: PublishMapping_def Let_def)
    next
      case (Inr a)
      note l = fwd_ok [OF gm f [unfolded Inr]]
      have "a \<notin> alive m" using l alive_issued [OF gm] by blast
      then have "touches alive p ms (set_mapping (ms\<lparr>MS_ports := m2\<rparr>) p
          (\<lambda>x. x\<lparr>MP_forward := Some a, MP_hostPort := port_of m2 a, MP_state := ''listening''\<rparr>))"
        using l al st fw wf_alive [OF ok p] by (intro touches_set [OF ok p]) (auto simp: held_def)
      with True st c f Inr show ?thesis by (simp add: PublishMapping_def Let_def)
    qed
  qed
qed

lemma Withdraw_touches:
  assumes ok: "wf ms" and p: "p < length (MS_heap ms)"
  shows "touches alive p ms (snd (WithdrawMapping rel ms p))"
proof (cases "MP_state (mapping ms p) = ''released''")
  case True
  with touches_refl [OF ok p] show ?thesis by (simp add: WithdrawMapping_def)
next
  case st: False
  let ?f = "\<lambda>x. x\<lparr>MP_state := ''stopping'', MP_hostPort := 0\<rparr>"
  let ?ms = "set_mapping ms p ?f"
  have t1: "touches alive p ms ?ms"
    using same_held_touches [OF ok p refl, of ?f] st by (simp add: held_def)
  show ?thesis
  proof (cases "MP_forward (mapping ms p)")
    case None
    with t1 st show ?thesis by (simp add: WithdrawMapping_def)
  next
    case (Some a)
    obtain r m where rl: "rel (MS_ports ms) a = (r, m)" by fastforce
    show ?thesis
    proof (cases r)
      case (Inl e)
      with rl rel_err [OF wf_good [OF ok]] have "m = MS_ports ms" by blast
      then have "?ms\<lparr>MS_ports := m\<rparr> = ?ms" by (simp add: set_mapping_def)
      with Inl rl t1 st Some show ?thesis by (simp add: WithdrawMapping_def)
    next
      case (Inr u)
      note l = rel_ok [OF wf_good [OF ok] rl [unfolded Inr]]
      have ne: "a \<noteq> MP_allocation (mapping ms p)" using wf_sane [OF ok p] Some by (auto simp: mapping_sane_def)
      have "touches alive p ms (set_mapping (ms\<lparr>MS_ports := m\<rparr>) p (\<lambda>x. (?f x)\<lparr>MP_forward := None\<rparr>))"
        by (rule touches_set [OF ok p]) (use l ne st Some wf_alive [OF ok p] in \<open>auto simp: held_def\<close>)
      moreover have "set_mapping (?ms\<lparr>MS_ports := m\<rparr>) p (\<lambda>x. x\<lparr>MP_forward := None\<rparr>) = set_mapping (ms\<lparr>MS_ports := m\<rparr>) p (\<lambda>x. (?f x)\<lparr>MP_forward := None\<rparr>)"
        using p by (simp add: set_mapping_def)
      ultimately show ?thesis using Inr rl st Some by (simp add: WithdrawMapping_def)
    qed
  qed
qed

lemma release_allocation_touches:
  assumes ok: "wf ms" and p: "p < length (MS_heap ms)" and fw: "MP_forward (mapping ms p) = None"
  shows "touches alive p ms (snd (release_allocation rel ms p))"
proof -
  obtain r m where rl: "rel (MS_ports ms) (MP_allocation (mapping ms p)) = (r, m)" by fastforce
  show ?thesis
  proof (cases r)
    case (Inl e)
    with rl rel_err [OF wf_good [OF ok]] have "m = MS_ports ms" by blast
    with Inl rl touches_refl [OF ok p] show ?thesis by (simp add: release_allocation_def)
  next
    case (Inr u)
    note l = rel_ok [OF wf_good [OF ok] rl [unfolded Inr]]
    have "MP_state (mapping ms p) = ''released'' \<Longrightarrow> MP_allocation (mapping ms p) \<notin> alive (MS_ports ms)"
      using wf_sane [OF ok p] by (simp add: mapping_sane_def)
    then have "touches alive p ms (set_mapping (ms\<lparr>MS_ports := m\<rparr>) p (\<lambda>x. x\<lparr>MP_state := ''released''\<rparr>))"
      using l fw by (intro touches_set [OF ok p]) (auto simp: held_def)
    with Inr rl show ?thesis by (simp add: release_allocation_def)
  qed
qed

lemma forget_touches:
  assumes ok: "wf ms" and p: "p < length (MS_heap ms)"
  shows "touches alive p ms (forget_mapping ms p)"
  using touches_refl [OF ok p] unfolding touches_def forget_mapping_def by (auto simp: Let_def)

text \<open>\<open>Release\<close> as a whole: it keeps the invariant, touches only its mapping, and when it succeeds the mapping is gone.\<close>

lemma Withdraw_success:
  assumes ok: "wf ms" and p: "p < length (MS_heap ms)" and w: "WithdrawMapping rel ms p = (Inr u, ms1)"
  shows "MP_state (mapping ms1 p) \<in> {''stopping'', ''released''} \<and> MP_forward (mapping ms1 p) = None"
proof (cases "MP_state (mapping ms p) = ''released''")
  case True
  with w wf_sane [OF ok p] show ?thesis by (simp add: WithdrawMapping_def mapping_sane_def)
next
  case False
  with w p show ?thesis
    by (auto simp: WithdrawMapping_def Let_def set_mapping_def split: option.splits sum.splits prod.splits)
qed

lemma Release_effect:
  assumes ok: "wf ms" and p: "p < length (MS_heap ms)"
  shows "wf (snd (ReleaseMapping rel ms p)) \<and> touches alive p ms (snd (ReleaseMapping rel ms p)) \<and>
    (is_ok (fst (ReleaseMapping rel ms p)) \<longrightarrow>
       MP_state (mapping (snd (ReleaseMapping rel ms p)) p) = ''released'' \<and>
       (\<forall>k. map_of (MS_beds (snd (ReleaseMapping rel ms p))) k \<noteq> Some p))"
proof -
  obtain r ms1 where w: "WithdrawMapping rel ms p = (r, ms1)" by fastforce
  have ok1: "wf ms1" and t1: "touches alive p ms ms1"
    using Withdraw_wf [OF ok p] Withdraw_touches [OF ok p] w by simp_all
  then have p1: "p < length (MS_heap ms1)" using p by (simp add: touches_def)
  show ?thesis
  proof (cases r)
    case (Inl e)
    with w ok1 t1 show ?thesis by (simp add: ReleaseMapping_def)
  next
    case (Inr u)
    with Withdraw_success [OF ok p] w have st: "MP_state (mapping ms1 p) \<in> {''stopping'', ''released''}" "MP_forward (mapping ms1 p) = None"
      by blast+
    obtain r2 ms2 where ra: "release_allocation rel ms1 p = (r2, ms2)" by fastforce
    have ok2: "wf ms2" and t2: "touches alive p ms1 ms2"
      using release_allocation_wf [OF ok1 p1 st] release_allocation_touches [OF ok1 p1 st(2)] ra by simp_all
    then have p2: "p < length (MS_heap ms2)" using p1 by (simp add: touches_def)
    show ?thesis
    proof (cases r2)
      case (Inl e)
      with Inr w ra ok2 touches_trans [OF t1 t2] show ?thesis by (simp add: ReleaseMapping_def)
    next
      case r2: (Inr v)
      then have rs: "MP_state (mapping ms2 p) = ''released''"
        using ra p1 by (auto simp: release_allocation_def split: prod.splits sum.splits)
      have res: "ReleaseMapping rel ms p = (Inr (), forget_mapping ms2 p)" using Inr r2 w ra by (simp add: ReleaseMapping_def)
      have "map_of (MS_beds (forget_mapping ms2 p)) k \<noteq> Some p" for k
      proof
        assume a: "map_of (MS_beds (forget_mapping ms2 p)) k = Some p"
        then have "map_of (MS_beds ms2) k = Some p" by (auto simp: forget_mapping_def Let_def split: if_splits)
        then have "mapping_key (mapping ms2 p) = k" using ok2 unfolding mappings_ok_def by blast
        with a show False by (auto simp: forget_mapping_def Let_def split: if_splits)
      qed
      moreover have "mapping (forget_mapping ms2 p) p = mapping ms2 p" by (simp add: forget_mapping_def Let_def)
      ultimately show ?thesis
        using forget_wf [OF ok2 p2 rs] touches_trans [OF touches_trans [OF t1 t2] forget_touches [OF ok2 p2]] rs res
        by simp
    qed
  qed
qed

end

section \<open>The daemon's allocator provides the interface\<close>

text \<open>The forwarder's listener; the literal address resolves to itself.\<close>

definition NewTCPForwarder ::
  "(string \<Rightarrow> string option) \<Rightarrow> PortManager \<Rightarrow> string \<Rightarrow> (port_error, nat) result \<times> PortManager" where
  "NewTCPForwarder lsn m owner = Listen Inr lsn m owner ''0.0.0.0:0''"

abbreviation alloc_port :: "PortManager \<Rightarrow> nat \<Rightarrow> int" where
  "alloc_port m a \<equiv> snd (snd (endpoint m a))"

lemma literal_hosts: "host \<in> {''0.0.0.0'', ''127.0.0.1''} \<Longrightarrow> CHR ''['' \<notin> set host \<and> CHR '']'' \<notin> set host"
  by auto

lemma same_host_overlaps: "overlappingHosts h h"
  by (simp add: overlappingHosts_def Let_def)

lemma NewTCPForwarder_loop:
  "NewTCPForwarder lsn m owner = Listen_loop lsn (pool_size m) m owner ''0.0.0.0:0'' True"
proof -
  have "split_host_port ''0.0.0.0:0'' = Some (''0.0.0.0'', ''0'')" by code_simp
  then show ?thesis by (simp add: NewTCPForwarder_def Listen_def)
qed

lemma ports_ok_live: "ports_ok m \<Longrightarrow> set (live m) \<subseteq> {..<length (heap m)}"
  by (auto simp: ports_ok_def)

interpretation carrier_ports: port_provider "Reserve probe" "NewTCPForwarder lsn" Confirm "ReleasePort err"
  "\<lambda>m. set (live m)" "\<lambda>m. {..<length (heap m)}" endpoint ports_ok for probe lsn err
proof
  fix m m' :: PortManager and a b :: nat and s h owner scope host address :: string and n :: int
    and r :: "(port_error, unit) result" and e :: port_error and u :: unit
  show "ports_ok m \<Longrightarrow> set (live m) \<subseteq> {..<length (heap m)}" by (rule ports_ok_live)
  show "ports_ok m \<Longrightarrow> a \<in> set (live m) \<Longrightarrow> b \<in> set (live m) \<Longrightarrow> endpoint m a = (s, h, n) \<Longrightarrow> endpoint m b = (s, h, n) \<Longrightarrow> a = b"
    using same_host_overlaps by (fastforce simp: ports_ok_def endpoint_def compatible_def)
  show "ports_ok m \<Longrightarrow> a \<in> set (live m) \<Longrightarrow> endpoint m a = (s, h, n) \<Longrightarrow> 1 \<le> n \<and> n \<le> 65535"
    by (auto simp: ports_ok_def endpoint_def)
  show "ports_ok m' \<and> a \<notin> {..<length (heap m)} \<and> set (live m') = insert a (set (live m)) \<and> {..<length (heap m)} \<subseteq> {..<length (heap m')} \<and>
      (\<forall>b \<in> set (live m). endpoint m' b = endpoint m b)"
    if ok: "ports_ok m" and r: "Reserve probe m owner scope address = (Inr a, m')"
    using Reserve_loop_result [OF ok r [unfolded Reserve_def]] Reserve_loop_ok [OF ok r [unfolded Reserve_def]]
      Reserve_loop_fresh [OF r [unfolded Reserve_def]]
    by (auto simp: fulfils_def granted_def endpoint_def fresh_handle_def)
  show "\<exists>port. endpoint m' a = (scope, host, port)"
    if ok: "ports_ok m" and r: "Reserve probe m owner scope (join_host_port host (itoa n)) = (Inr a, m')"
      and host: "host \<in> {''0.0.0.0'', ''127.0.0.1''}"
    using Reserve_loop_result [OF ok r [unfolded Reserve_def]] literal_hosts [OF host]
    by (auto simp: fulfils_def endpoint_def split_join_itoa)
  show "ports_ok m' \<and> set (live m') = set (live m) \<and> {..<length (heap m)} \<subseteq> {..<length (heap m')} \<and>
      (\<forall>b \<in> set (live m). endpoint m' b = endpoint m b)"
    if ok: "ports_ok m" and r: "Reserve probe m owner scope address = (Inl e, m')"
    using Reserve_loop_result [OF ok r [unfolded Reserve_def]] Reserve_loop_ok [OF ok r [unfolded Reserve_def]]
      Reserve_loop_fresh [OF r [unfolded Reserve_def]]
    by (auto simp: unchanged_def endpoint_def fresh_handle_def)
  have lit: "split_host_port ''0.0.0.0:0'' = Some (''0.0.0.0'', ''0'')" by code_simp
  show "ports_ok m' \<and> a \<notin> {..<length (heap m)} \<and> set (live m') = insert a (set (live m)) \<and> {..<length (heap m)} \<subseteq> {..<length (heap m')} \<and>
      (\<forall>b \<in> set (live m). endpoint m' b = endpoint m b) \<and> (\<exists>port. endpoint m' a = ([], ''0.0.0.0'', port))"
    if ok: "ports_ok m" and r: "NewTCPForwarder lsn m owner = (Inr a, m')"
    using Listen_loop_result [OF ok r [unfolded NewTCPForwarder_loop] lit] Listen_loop_ok [OF ok r [unfolded NewTCPForwarder_loop]]
      Listen_loop_fresh [OF r [unfolded NewTCPForwarder_loop]]
    by (auto simp: fresh_handle_def)
  show "ports_ok m' \<and> set (live m') = set (live m) \<and> {..<length (heap m)} \<subseteq> {..<length (heap m')} \<and>
      (\<forall>b \<in> set (live m). endpoint m' b = endpoint m b)"
    if ok: "ports_ok m" and r: "NewTCPForwarder lsn m owner = (Inl e, m')"
    using Listen_loop_result [OF ok r [unfolded NewTCPForwarder_loop] lit] Listen_loop_ok [OF ok r [unfolded NewTCPForwarder_loop]]
      Listen_loop_fresh [OF r [unfolded NewTCPForwarder_loop]]
    by (auto simp: fresh_handle_def unchanged_def endpoint_def)
  show "ports_ok m' \<and> set (live m') = set (live m) \<and> {..<length (heap m')} = {..<length (heap m)} \<and>
      (\<forall>b \<in> set (live m). endpoint m' b = endpoint m b)"
    if ok: "ports_ok m" and r: "Confirm m a = (r, m')"
  proof -
    have "ports_ok m'" using ports_step_ok [OF ports_step.confirm ok] r by (metis snd_conv)
    moreover have "\<forall>b \<in> set (live m). b < length (heap m)" using ok by (auto simp: ports_ok_def)
    ultimately show ?thesis using r by (auto simp: Confirm_def endpoint_def nth_list_update split: if_splits)
  qed
  show "ports_ok m' \<and> set (live m') = set (live m) - {a} \<and> {..<length (heap m')} = {..<length (heap m)} \<and>
      (\<forall>b \<in> set (live m'). endpoint m' b = endpoint m b)"
    if ok: "ports_ok m" and r: "ReleasePort err m a = (Inr u, m')"
    using ok r del_allocation_ok [OF ok]
    by (auto simp: ReleasePort_def endpoint_def del_allocation_def split: if_splits option.splits)
  show "m' = m" if "ports_ok m" and "ReleasePort err m a = (Inl e, m')"
    using that by (auto simp: ReleasePort_def split: if_splits option.splits)
qed

section \<open>The registry as a state machine\<close>

text \<open>
  Every call on the registry and its mappings, with any answer of the kernel, and the other users of the
  port allocator: they release only what they own. \<open>released\<close> and \<open>forgotten\<close> are the second and third
  critical sections of \<open>Release\<close>, which follow a successful \<open>Withdraw\<close>.
\<close>

inductive mappings_step :: "PortManager PortMappings \<Rightarrow> PortManager PortMappings \<Rightarrow> bool" where
  reserved: "mappings_step ms (snd (ReserveMapping (Reserve probe) alloc_port ms b bedid ports name pillow scope host))"
| bound: "p < length (MS_heap ms) \<Longrightarrow> mappings_step ms (BindMapping ms p execution)"
| published: "p < length (MS_heap ms) \<Longrightarrow> mappings_step ms (snd (PublishMapping Confirm (NewTCPForwarder lsn) alloc_port ms p bedid))"
| withdrawn: "p < length (MS_heap ms) \<Longrightarrow> mappings_step ms (snd (WithdrawMapping (ReleasePort err) ms p))"
| released: "p < length (MS_heap ms) \<Longrightarrow> MP_state (mapping ms p) \<in> {''stopping'', ''released''} \<Longrightarrow> MP_forward (mapping ms p) = None
    \<Longrightarrow> mappings_step ms (snd (release_allocation (ReleasePort err) ms p))"
| forgotten: "p < length (MS_heap ms) \<Longrightarrow> MP_state (mapping ms p) = ''released'' \<Longrightarrow> mappings_step ms (forget_mapping ms p)"
| other_reserves: "mappings_step ms (ms\<lparr>MS_ports := snd (Reserve probe (MS_ports ms) owner scope address)\<rparr>)"
| other_listens: "mappings_step ms (ms\<lparr>MS_ports := snd (Listen resolve lsn (MS_ports ms) owner address)\<rparr>)"
| other_confirms: "mappings_step ms (ms\<lparr>MS_ports := snd (Confirm (MS_ports ms) a)\<rparr>)"
| other_releases: "(\<forall>p < length (MS_heap ms). a \<notin> held (mapping ms p)) \<Longrightarrow>
    mappings_step ms (ms\<lparr>MS_ports := snd (ReleasePort err (MS_ports ms) a)\<rparr>)"

definition registry_ok :: "PortManager PortMappings \<Rightarrow> bool" where
  "registry_ok = mappings_ok (\<lambda>m. set (live m)) (\<lambda>m. {..<length (heap m)}) endpoint ports_ok"

definition registry_start :: "PortManager PortMappings \<Rightarrow> bool" where
  "registry_start ms = (\<exists>f l m. NewPortManager f l = Inr m \<and> ms = NewPortMappings m)"

lemma Listen_wf:
  assumes ok: "mappings_ok (\<lambda>m. set (live m)) (\<lambda>m. {..<length (heap m)}) endpoint ports_ok ms"
  shows "mappings_ok (\<lambda>m. set (live m)) (\<lambda>m. {..<length (heap m)}) endpoint ports_ok
    (ms\<lparr>MS_ports := snd (Listen resolve lsn (MS_ports ms) owner address)\<rparr>)"
proof (cases "snd (Listen resolve lsn (MS_ports ms) owner address) = MS_ports ms")
  case True
  with ok show ?thesis by simp
next
  case False
  then obtain ad host raw where ad: "resolve address = Inr ad" "split_host_port ad = Some (host, raw)"
    by (auto simp: Listen_def split: sum.splits option.splits)
  obtain r m where l: "Listen_loop lsn (if raw = ''0'' then pool_size (MS_ports ms) else 1) (MS_ports ms) owner ad (raw = ''0'') = (r, m)"
    by fastforce
  have res: "snd (Listen resolve lsn (MS_ports ms) owner address) = m" using ad l by (simp add: Listen_def)
  note good = carrier_ports.wf_good [OF ok]
  note facts = Listen_loop_result [OF good l ad(2)] Listen_loop_ok [OF good l] Listen_loop_fresh [OF l]
  show ?thesis unfolding res
    by (rule carrier_ports.ports_grow [OF ok])
      (use facts in \<open>auto simp: fresh_handle_def unchanged_def endpoint_def split: sum.splits\<close>)
qed

lemma mappings_step_ok: "mappings_step ms ms' \<Longrightarrow> registry_ok ms \<Longrightarrow> registry_ok ms'"
  unfolding registry_ok_def
proof (induction rule: mappings_step.induct)
  case reserved
  then show ?case by (rule carrier_ports.Reserve_wf)
next
  case bound
  from bound(2,1) show ?case by (rule carrier_ports.Bind_wf)
next
  case published
  from published(2,1) show ?case by (rule carrier_ports.Publish_wf)
next
  case withdrawn
  from withdrawn(2,1) show ?case by (rule carrier_ports.Withdraw_wf)
next
  case released
  from released(4,1,2,3) show ?case by (rule carrier_ports.release_allocation_wf)
next
  case forgotten
  from forgotten(3,1,2) show ?case by (rule carrier_ports.forget_wf)
next
  case other_reserves
  from carrier_ports.rsv_wf [OF other_reserves prod.collapse [symmetric]] show ?case .
next
  case other_listens
  then show ?case by (rule Listen_wf)
next
  case other_confirms
  from carrier_ports.cfm_wf [OF other_confirms prod.collapse [symmetric]] show ?case .
next
  case other_releases
  from carrier_ports.rel_other_wf [OF other_releases(2) prod.collapse [symmetric]] other_releases(1) show ?case by blast
qed

interpretation port_registry: state_machine registry_start mappings_step registry_ok
proof
  show "registry_start ms \<Longrightarrow> registry_ok ms" for ms
    by (auto simp: registry_start_def registry_ok_def NewPortMappings_def NewPortManager_def mappings_ok_def ports_ok_def
        split: if_splits)
  show "registry_ok ms \<Longrightarrow> mappings_step ms ms' \<Longrightarrow> registry_ok ms'" for ms ms'
    by (rule mappings_step_ok)
qed

section \<open>Properties\<close>

text \<open>C24: two port mappings never publish the same port of the carrier, whatever Beds own them, however their
  reservation, publication and release interleave with each other and with the other users of the
  allocator; a published port is a valid port.\<close>

theorem published_ports_exclusive:
  assumes "registry_start ms0" and "mappings_step\<^sup>*\<^sup>* ms0 ms"
    and "p < length (MS_heap ms)" and "q < length (MS_heap ms)"
    and "MP_hostPort (mapping ms p) \<noteq> 0" and "MP_hostPort (mapping ms q) = MP_hostPort (mapping ms p)"
  shows "p = q \<and> 1 \<le> MP_hostPort (mapping ms p) \<and> MP_hostPort (mapping ms p) \<le> 65535"
  using carrier_ports.host_ports_distinct [OF port_registry.inv_reachable [OF assms(1,2), unfolded registry_ok_def] assms(3-6)] .

text \<open>The release check of a Bed leaks nothing. In every reachable state, when \<open>CheckReleased\<close> accepts a
  Bed, every mapping the Bed ever had is released: its allocation is no longer live, it has no forwarder
  and it publishes no port.\<close>

theorem CheckReleased_no_leak:
  assumes "registry_start ms0" and "mappings_step\<^sup>*\<^sup>* ms0 ms" and "CheckReleased ms b = Inr ()"
    and "p < length (MS_heap ms)" and "MP_bed (mapping ms p) = b"
  shows "MP_state (mapping ms p) = ''released'' \<and> MP_allocation (mapping ms p) \<notin> set (live (MS_ports ms))
    \<and> MP_forward (mapping ms p) = None \<and> MP_hostPort (mapping ms p) = 0"
  using carrier_ports.CheckReleased_sound [OF port_registry.inv_reachable [OF assms(1,2), unfolded registry_ok_def] assms(3-5)] .

section \<open>A sample run\<close>

definition pm_sample_spec :: PillowPort where
  "pm_sample_spec = \<lparr> PP_Name = ''web'', PP_ContainerPort = 8080, PP_Protocol = ''tcp'', PP_Dynamic = False, PP_Publish = True \<rparr>"

definition pm_sample_registry :: "PortManager PortMappings" where
  "pm_sample_registry = NewPortMappings \<lparr> First = 9000, Last = 9003, Next = 9000, Closed = False, heap = [], live = [] \<rparr>"

definition pm_sample_reserved :: "PortManager PortMappings" where
  "pm_sample_reserved = snd (ReserveMapping (Reserve (\<lambda>_. ProbeOk)) alloc_port pm_sample_registry 1 ''b1'' [pm_sample_spec] ''web'' ''pillow'' ''ns1'' ''10.0.0.2'')"

definition pm_sample_published :: "PortManager PortMappings" where
  "pm_sample_published = snd (PublishMapping Confirm (NewTCPForwarder (\<lambda>_. None)) alloc_port pm_sample_reserved 0 ''b1'')"

definition pm_sample_withdrawn :: "PortManager PortMappings" where
  "pm_sample_withdrawn = snd (WithdrawMapping (ReleasePort None) pm_sample_published 0)"

definition pm_sample_released :: "PortManager PortMappings" where
  "pm_sample_released = snd (release_allocation (ReleasePort None) pm_sample_withdrawn 0)"

lemma pm_sample_registry_start: "registry_start pm_sample_registry"
  unfolding registry_start_def pm_sample_registry_def
  by (rule exI [of _ 9000], rule exI [of _ 9003]) (simp add: NewPortManager_def)

lemma pm_sample_publishes: "mappings_step\<^sup>*\<^sup>* pm_sample_registry pm_sample_published"
proof -
  have "mappings_step pm_sample_registry pm_sample_reserved" unfolding pm_sample_reserved_def by (rule mappings_step.reserved)
  moreover have "mappings_step pm_sample_reserved pm_sample_published"
    unfolding pm_sample_published_def by (rule mappings_step.published) code_simp
  ultimately show ?thesis by auto
qed

lemma pm_sample_releases: "mappings_step\<^sup>*\<^sup>* pm_sample_registry (forget_mapping pm_sample_released 0)"
proof -
  have "mappings_step pm_sample_published pm_sample_withdrawn"
    unfolding pm_sample_withdrawn_def by (rule mappings_step.withdrawn) code_simp
  moreover have "mappings_step pm_sample_withdrawn pm_sample_released"
    unfolding pm_sample_released_def by (rule mappings_step.released) code_simp+
  moreover have "mappings_step pm_sample_released (forget_mapping pm_sample_released 0)"
    by (rule mappings_step.forgotten) code_simp+
  ultimately show ?thesis using pm_sample_publishes by (meson rtranclp.rtrancl_into_rtrancl)
qed

theorem published_ports_exclusive_witness: "1 \<le> MP_hostPort (mapping pm_sample_published 0) \<and> MP_hostPort (mapping pm_sample_published 0) = 9000"
proof -
  have h: "0 < length (MS_heap pm_sample_published)" "MP_hostPort (mapping pm_sample_published 0) = 9000" by code_simp+
  from published_ports_exclusive [OF pm_sample_registry_start pm_sample_publishes h(1) h(1)] h(2) show ?thesis by simp
qed

theorem CheckReleased_no_leak_witness:
  "MP_allocation (mapping (forget_mapping pm_sample_released 0) 0) \<notin> set (live (MS_ports (forget_mapping pm_sample_released 0)))"
proof -
  have h: "CheckReleased (forget_mapping pm_sample_released 0) 1 = Inr ()" "0 < length (MS_heap (forget_mapping pm_sample_released 0))"
    "MP_bed (mapping (forget_mapping pm_sample_released 0) 0) = 1" by code_simp+
  from CheckReleased_no_leak [OF pm_sample_registry_start pm_sample_releases h] show ?thesis by simp
qed

end
