(* ===== verification/Pillow_Runtime.thy ===== *)
theory Pillow_Runtime
  imports Port_Mappings Pillow_Spec "HOL-Library.Sublist"
begin

text \<open>
  The runtime of pillows (\<open>src/internal/bed/pillow\<close>): the supervision of one pillow's process with its
  restart budget, readiness and ports (\<open>supervision.go\<close>, \<open>readiness.go\<close>, \<open>ports.go\<close>), and the groups of
  the pillow manager (\<open>manager.go\<close>).

  \<open>supervise\<close> and \<open>run\<close> block on channels, timers, probes and processes. What they receive is an argument:
  a \<open>run_script\<close> says what the environment answers to one call of \<open>run\<close>, in the order \<open>run\<close> asks. A
  script whose events end before the process does describes a \<open>run\<close> that has not returned (\<open>None\<close>).
  The loops that retry a cleanup until it succeeds take the list of the failing tries. The port
  mappings are those of \<open>Port_Mappings\<close>: a \<open>run\<close> changes the registry by the registry's own operations.
  The notification \<open>onChange\<close> and log lines are left out.
\<close>

section \<open>Data\<close>

datatype ProcessOutcomeKind = ProcessUnset | ProcessExited | ProcessSignaled | ProcessLost

record ProcessOutcome =
  OC_Kind :: ProcessOutcomeKind
  OC_ExitCode :: int
  OC_Signal :: int
  OC_CoreDumped :: bool
  OC_Error :: string
  OC_Detail :: string

definition zero_outcome :: ProcessOutcome where
  "zero_outcome = \<lparr> OC_Kind = ProcessUnset, OC_ExitCode = 0, OC_Signal = 0, OC_CoreDumped = False, OC_Error = [], OC_Detail = [] \<rparr>"

record ListenerInspection =
  LI_State :: string
  LI_Method :: string
  LI_Reason :: string

record PillowStatus =
  ST_Name :: string
  ST_Ports :: "string list"
  ST_Prepared :: bool
  ST_Required :: bool
  ST_Phase :: string
  ST_Ready :: bool
  ST_ExecutionID :: string
  ST_ExecutorID :: string
  ST_Restarts :: int
  ST_Reason :: string
  ST_Outcome :: "ProcessOutcome option"
  ST_Listener :: "ListenerInspection option"

record pillow_record =
  PR_mappings :: "nat list"
  PR_spec :: PillowSpec
  PR_status :: PillowStatus
  PR_restart :: bool       \<comment> \<open>a token in the channel of capacity one\<close>
  PR_cancelled :: bool
  PR_done :: bool

datatype run_error = RunCancelled | RunConfig string | RunNetwork string | RunMapping mapping_error | RunConflict string
  | RunStart string | RunProbePort string | RunInspection string

text \<open>An error is the list of the errors joined in it; \<open>[]\<close> is \<open>nil\<close>.\<close>

type_synonym run_errors = "run_error list"

section \<open>Status updates\<close>

definition update :: "(PillowStatus \<Rightarrow> PillowStatus) \<Rightarrow> pillow_record \<Rightarrow> pillow_record" where
  "update fn r = (let s = fn (PR_status r) in r\<lparr>PR_status := (if ST_Phase s \<noteq> ''running'' then s\<lparr>ST_Ready := False\<rparr> else s)\<rparr>)"

section \<open>Readiness\<close>

record readinessResult =
  RR_Ready :: bool
  RR_Reason :: string

record readinessTracker =
  RT_ready :: bool
  RT_successes :: int
  RT_failures :: int

definition new_tracker :: readinessTracker where
  "new_tracker = \<lparr> RT_ready = False, RT_successes = 0, RT_failures = 0 \<rparr>"

definition thresholds :: "Probe option \<Rightarrow> int \<times> int" where
  "thresholds probe = (case probe of None \<Rightarrow> (1, 1) | Some p \<Rightarrow> (PB_SuccessThreshold p, PB_FailureThreshold p))"

definition track :: "int \<Rightarrow> int \<Rightarrow> bool \<Rightarrow> readinessTracker \<Rightarrow> readinessTracker" where
  "track success failure ready t =
     (if ready then
        let n = min (RT_successes t + 1) success in
        t\<lparr>RT_failures := 0, RT_successes := n, RT_ready := (n \<ge> success \<or> RT_ready t)\<rparr>
      else
        let n = min (RT_failures t + 1) failure in
        t\<lparr>RT_successes := 0, RT_failures := n, RT_ready := (\<not> n \<ge> failure \<and> RT_ready t)\<rparr>)"

definition observe :: "readinessTracker \<Rightarrow> readinessResult \<Rightarrow> Probe option \<Rightarrow> readinessTracker \<times> readinessResult" where
  "observe t result probe =
     (case thresholds probe of (success, failure) \<Rightarrow>
        let t1 = track success failure (RR_Ready result) t in
        (t1, if RT_ready t1 then \<lparr> RR_Ready = True, RR_Reason = [] \<rparr>
             else if RR_Ready result then \<lparr> RR_Ready = False, RR_Reason = ''ReadinessSuccessThresholdPending'' \<rparr>
             else result))"

text \<open>\<open>probeMapping\<close> finds the mapping of the port that the probe names.\<close>

definition probeMapping :: "'m PortMappings \<Rightarrow> PillowSpec \<Rightarrow> nat list \<Rightarrow> (run_error, nat) result" where
  "probeMapping ms spec ps =
     (case List.find (\<lambda>p. PP_Name (MP_spec (mapping ms p)) = probePortName spec) ps of
        None \<Rightarrow> Inl (RunProbePort (probePortName spec))
      | Some p \<Rightarrow> Inr p)"

text \<open>
  One call of the closure that \<open>readinessCheck\<close> returns. \<open>inspect\<close> gives what the first and the second
  inspection of the listener answer (with \<open>True\<close> for an error), \<open>reach\<close> what the HTTP or TCP probe answers.
\<close>

definition readinessCheck ::
  "(nat \<Rightarrow> ListenerInspection \<times> bool) \<Rightarrow> readinessResult \<Rightarrow> 'm PortMappings \<Rightarrow> nat list \<Rightarrow> pillow_record
     \<Rightarrow> (run_error, readinessResult) result \<times> pillow_record" where
  "readinessCheck inspect reach ms ps r =
     (if PS_ReadinessProbe (PR_spec r) = None then (Inr \<lparr> RR_Ready = True, RR_Reason = [] \<rparr>, r)
      else case probeMapping ms (PR_spec r) ps of
        Inl e \<Rightarrow> (Inl e, r)
      | Inr p \<Rightarrow>
          case (if \<not> snd (inspect 0) \<and> LI_State (fst (inspect 0)) = ''foreign'' then inspect 1 else inspect 0) of
            (i, failed) \<Rightarrow>
              if failed then
                (Inr \<lparr> RR_Ready = False, RR_Reason = ''ListenerInspectionFailed'' \<rparr>,
                 update (\<lambda>s. s\<lparr>ST_Listener := Some (i\<lparr>LI_State := ''unavailable'', LI_Reason := ''inspection_failed''\<rparr>)\<rparr>) r)
              else
                let r1 = update (\<lambda>s. s\<lparr>ST_Listener := Some i\<rparr>) r in
                if LI_State i = ''foreign'' then (Inl (RunConflict (PP_Name (MP_spec (mapping ms p)))), r1)
                else if LI_State i = ''not_listening'' then (Inr \<lparr> RR_Ready = False, RR_Reason = ''ListenerAbsent'' \<rparr>, r1)
                else if LI_State i = ''unavailable'' \<or> LI_State i = ''owned'' then (Inr reach, r1)
                else (Inl (RunInspection (LI_State i)), r1))"

section \<open>Ports\<close>

definition retryPortConflict :: "run_errors \<Rightarrow> PillowSpec \<Rightarrow> bool" where
  "retryPortConflict err spec =
     (case List.map_filter (\<lambda>e. case e of RunConflict n \<Rightarrow> Some n | _ \<Rightarrow> None) err of
        [] \<Rightarrow> False
      | name # _ \<Rightarrow>
          (case List.find (\<lambda>p. PP_Name p = name) (PS_Ports spec) of
             None \<Rightarrow> False
           | Some p \<Rightarrow> PP_Dynamic p))"

text \<open>\<open>b\<close>, \<open>bedid\<close> and \<open>declared\<close> are the group's Bed: its address, identity and declared ports.\<close>

record group_bed =
  GB_bed :: nat
  GB_id :: string
  GB_ports :: "PillowPort list"

type_synonym registry = "PortManager PortMappings"

fun reserve_each ::
  "(string \<Rightarrow> probe_result) \<Rightarrow> group_bed \<Rightarrow> string \<Rightarrow> string \<Rightarrow> string \<Rightarrow> PillowPort list \<Rightarrow> nat list \<Rightarrow> registry
     \<Rightarrow> nat list \<times> run_errors \<times> registry" where
  "reserve_each probe g pillow scope host [] ps ms = (ps, [], ms)"
| "reserve_each probe g pillow scope host (port # ports) ps ms =
     (case ReserveMapping (Reserve probe) alloc_port ms (GB_bed g) (GB_id g) (GB_ports g) (PP_Name port) pillow scope host of
        (Inl e, ms1) \<Rightarrow> (ps, [RunMapping e], ms1)
      | (Inr p, ms1) \<Rightarrow> reserve_each probe g pillow scope host ports (ps @ [p]) ms1)"

definition reservePorts ::
  "(string \<Rightarrow> probe_result) \<Rightarrow> (string, string \<times> string) result \<Rightarrow> group_bed \<Rightarrow> pillow_record \<Rightarrow> registry
     \<Rightarrow> nat list \<times> run_errors \<times> registry \<times> pillow_record" where
  "reservePorts probe net g r ms =
     (if PS_Ports (PR_spec r) = [] then ([], [], ms, r)
      else case net of
        Inl e \<Rightarrow> ([], [RunNetwork e], ms, r)
      | Inr (scope, host) \<Rightarrow>
          (case reserve_each probe g (PS_Name (PR_spec r)) scope host (PS_Ports (PR_spec r)) [] ms of
             (ps, err, ms1) \<Rightarrow> (ps, err, ms1, if err = [] then r\<lparr>PR_mappings := ps\<rparr> else r)))"

text \<open>\<open>fails\<close>: the errors of closing a listener in the tries before the one that succeeds.\<close>

fun release_until :: "string option list \<Rightarrow> registry \<Rightarrow> nat \<Rightarrow> pillow_record \<Rightarrow> registry \<times> pillow_record" where
  "release_until [] ms p r = (snd (ReleaseMapping (ReleasePort None) ms p), r)"
| "release_until (err # fails) ms p r =
     (case ReleaseMapping (ReleasePort err) ms p of
        (Inr _, ms1) \<Rightarrow> (ms1, r)
      | (Inl _, ms1) \<Rightarrow> release_until fails ms1 p (update (\<lambda>s. s\<lparr>ST_Reason := ''PortCleanupPending''\<rparr>) r))"

fun release_each :: "(nat \<Rightarrow> string option list) \<Rightarrow> nat list \<Rightarrow> registry \<Rightarrow> pillow_record \<Rightarrow> registry \<times> pillow_record" where
  "release_each fails [] ms r = (ms, r)"
| "release_each fails (p # ps) ms r =
     (case release_until (fails p) ms p r of (ms1, r1) \<Rightarrow> release_each fails ps ms1 r1)"

definition releasePorts :: "(nat \<Rightarrow> string option list) \<Rightarrow> nat list \<Rightarrow> registry \<Rightarrow> pillow_record \<Rightarrow> registry \<times> pillow_record" where
  "releasePorts fails ps ms r = (case release_each fails ps ms r of (ms1, r1) \<Rightarrow> (ms1, r1\<lparr>PR_mappings := []\<rparr>))"

text \<open>
  \<open>strings.NewReplacer\<close>: the replacements are made from left to right without overlap; at each position
  the first pair in argument order that matches is taken.
\<close>

fun replace_at :: "nat \<Rightarrow> (string \<times> string) list \<Rightarrow> string \<Rightarrow> string" where
  "replace_at 0 pairs s = s"
| "replace_at (Suc n) pairs [] = []"
| "replace_at (Suc n) pairs (c # cs) =
     (case List.find (\<lambda>(old, new). old \<noteq> [] \<and> has_prefix (c # cs) old) pairs of
        Some (old, new) \<Rightarrow> new @ replace_at n pairs (drop (length old) (c # cs))
      | None \<Rightarrow> c # replace_at n pairs cs)"

definition replace_all :: "(string \<times> string) list \<Rightarrow> string \<Rightarrow> string" where
  "replace_all pairs s = replace_at (length s) pairs s"

definition mapping_address :: "registry \<Rightarrow> nat \<Rightarrow> string" where
  "mapping_address ms p = Address (heap (MS_ports ms) ! MP_allocation (mapping ms p))"

definition mapping_port :: "registry \<Rightarrow> nat \<Rightarrow> int" where
  "mapping_port ms p = Port (heap (MS_ports ms) ! MP_allocation (mapping ms p))"

definition portCommand :: "registry \<Rightarrow> PillowSpec \<Rightarrow> nat list \<Rightarrow> string list" where
  "portCommand ms spec ps =
     (let command = pillow_command spec @ PS_Args spec;
          pairs = concat (map (\<lambda>p. let name = PP_Name (MP_spec (mapping ms p)) in
                    [(''${PORT_'' @ name @ ''}'', itoa (mapping_port ms p)),
                     (''${LISTEN_ADDR_'' @ name @ ''}'', mapping_address ms p)]) ps)
                  @ (case ps of
                       [p] \<Rightarrow> [(''${PORT}'', itoa (mapping_port ms p)), (''${LISTEN_ADDR}'', mapping_address ms p)]
                     | _ \<Rightarrow> [])
      in map (replace_all pairs) command)"

section \<open>One execution\<close>

text \<open>
  What the loop of \<open>run\<close> receives: cancellation, a restart request, the exit of the process, or a tick
  with the answers of the readiness check and what became known while it ran.
\<close>

datatype during_check = StillRunning | CancelledMeanwhile | ExitedMeanwhile

datatype run_event = EventCancelled | EventRestart | EventExit
  | EventTick "nat \<Rightarrow> ListenerInspection \<times> bool" readinessResult during_check

record run_script =
  SC_cancelled :: bool                                        \<comment> \<open>\<open>ctx.Err()\<close> at the start\<close>
  SC_env :: "string option"                                   \<comment> \<open>the error of \<open>configurations.Resolve\<close>\<close>
  SC_network :: "(string, string \<times> string) result"
  SC_probe :: "string \<Rightarrow> probe_result"
  SC_start :: "string list \<Rightarrow> (string, string \<times> string) result"  \<comment> \<open>execution and executor of the process\<close>
  SC_events :: "run_event list"
  SC_listen :: "string \<Rightarrow> string option"
  SC_withdraw :: "nat \<Rightarrow> string option"
  SC_stopFails :: nat                                         \<comment> \<open>tries of \<open>proc.Stop\<close> that fail\<close>
  SC_outcome :: ProcessOutcome                                \<comment> \<open>\<open>proc.Outcome()\<close>\<close>
  SC_release :: "nat \<Rightarrow> string option list"

fun publish_each :: "(string \<Rightarrow> string option) \<Rightarrow> string \<Rightarrow> nat list \<Rightarrow> registry \<Rightarrow> run_errors \<times> registry" where
  "publish_each lsn bedid [] ms = ([], ms)"
| "publish_each lsn bedid (p # ps) ms =
     (case PublishMapping Confirm (NewTCPForwarder lsn) alloc_port ms p bedid of
        (Inl e, ms1) \<Rightarrow> ([RunMapping e], ms1)
      | (Inr _, ms1) \<Rightarrow> publish_each lsn bedid ps ms1)"

fun withdraw_each :: "(nat \<Rightarrow> string option) \<Rightarrow> nat list \<Rightarrow> registry \<Rightarrow> run_errors \<times> registry" where
  "withdraw_each errs [] ms = ([], ms)"
| "withdraw_each errs (p # ps) ms =
     (case WithdrawMapping (ReleasePort (errs p)) ms p of
        (r, ms1) \<Rightarrow>
          (case withdraw_each errs ps ms1 of
             (err, ms2) \<Rightarrow> (case r of Inl e \<Rightarrow> RunMapping e # err | Inr _ \<Rightarrow> err, ms2)))"

definition bind_each :: "string \<Rightarrow> nat list \<Rightarrow> registry \<Rightarrow> registry" where
  "bind_each execution ps ms = fold (\<lambda>p ms. BindMapping ms p execution) ps ms"

text \<open>The loop: whether the restart is explicit, the outcome and the error it returns with.\<close>

type_synonym run_result = "bool \<times> ProcessOutcome \<times> run_errors"

fun run_loop ::
  "run_script \<Rightarrow> string \<Rightarrow> nat list \<Rightarrow> readinessTracker \<Rightarrow> bool \<Rightarrow> run_event list \<Rightarrow> registry \<Rightarrow> pillow_record
     \<Rightarrow> (run_result \<times> registry \<times> pillow_record) option" where
  "run_loop sc bedid ps t published [] ms r = None"
| "run_loop sc bedid ps t published (EventCancelled # es) ms r = Some ((False, zero_outcome, [RunCancelled]), ms, r)"
| "run_loop sc bedid ps t published (EventRestart # es) ms r = Some ((True, zero_outcome, []), ms, r\<lparr>PR_restart := False\<rparr>)"
| "run_loop sc bedid ps t published (EventExit # es) ms r = Some ((False, SC_outcome sc, []), ms, r)"
| "run_loop sc bedid ps t published (EventTick inspect reach meanwhile # es) ms r =
     (case readinessCheck inspect reach ms ps r of
        (Inl e, r1) \<Rightarrow> Some ((False, zero_outcome, [e]), ms, r1)
      | (Inr result, r1) \<Rightarrow>
          (case meanwhile of
             CancelledMeanwhile \<Rightarrow> Some ((False, zero_outcome, [RunCancelled]), ms, r1)
           | ExitedMeanwhile \<Rightarrow> Some ((False, SC_outcome sc, []), ms, r1)
           | StillRunning \<Rightarrow>
               (case observe t result (PS_ReadinessProbe (PR_spec r1)) of
                  (t1, shown) \<Rightarrow>
                    let finish = (\<lambda>published ms.
                          run_loop sc bedid ps t1 published es ms
                            (update (\<lambda>s. s\<lparr>ST_Ready := RR_Ready shown, ST_Reason := RR_Reason shown\<rparr>) r1)) in
                    if RR_Ready shown \<and> \<not> published then
                      (case publish_each (SC_listen sc) bedid ps ms of
                         ([], ms1) \<Rightarrow> finish True ms1
                       | (err, ms1) \<Rightarrow> Some ((False, zero_outcome, err), ms1, r1))
                    else finish published ms)))"

text \<open>The deferred cleanup after the process started: withdraw the ports, stop the process, record its outcome.\<close>

definition stop_process :: "run_script \<Rightarrow> nat list \<Rightarrow> registry \<Rightarrow> pillow_record \<Rightarrow> run_errors \<times> registry \<times> pillow_record" where
  "stop_process sc ps ms r =
     (case withdraw_each (SC_withdraw sc) ps ms of
        (err, ms1) \<Rightarrow>
          let r1 = update (\<lambda>s. s\<lparr>ST_Phase := ''stopping''\<rparr>) r;
              r2 = (if SC_stopFails sc = 0 then r1 else update (\<lambda>s. s\<lparr>ST_Reason := ''ProcessCleanupPending''\<rparr>) r1)
          in (err, ms1, update (\<lambda>s. s\<lparr>ST_Outcome := Some (SC_outcome sc)\<rparr>) r2))"

text \<open>From the start of the process to its end.\<close>

definition run_process ::
  "run_script \<Rightarrow> group_bed \<Rightarrow> nat list \<Rightarrow> string \<times> string \<Rightarrow> registry \<Rightarrow> pillow_record
     \<Rightarrow> (run_result \<times> registry \<times> pillow_record) option" where
  "run_process sc g ps proc ms r =
     (let ms1 = bind_each (fst proc) ps ms;
          r1 = update (\<lambda>s. s\<lparr>ST_Phase := ''running'', ST_ExecutionID := fst proc, ST_ExecutorID := snd proc, ST_Outcome := None\<rparr>) r
      in case run_loop sc (GB_id g) ps new_tracker False (SC_events sc) ms1 r1 of
           None \<Rightarrow> None
         | Some ((explicit, outcome, err), ms2, r2) \<Rightarrow>
             (case stop_process sc ps ms2 r2 of
                (werr, ms3, r3) \<Rightarrow> Some ((explicit, SC_outcome sc, err @ werr), ms3, r3)))"

definition run ::
  "run_script \<Rightarrow> group_bed \<Rightarrow> registry \<Rightarrow> pillow_record \<Rightarrow> (run_result \<times> registry \<times> pillow_record) option" where
  "run sc g ms r =
     (if SC_cancelled sc then Some ((False, zero_outcome, [RunCancelled]), ms, r)
      else
        let r1 = update (\<lambda>s. s\<lparr>ST_Phase := ''starting'', ST_Listener := None\<rparr>) r in
        case SC_env sc of
          Some e \<Rightarrow> Some ((False, zero_outcome, [RunConfig e]), ms, r1)
        | None \<Rightarrow>
            (case reservePorts (SC_probe sc) (SC_network sc) g r1 ms of
               (ps, err, ms1, r2) \<Rightarrow>
                 let release = (\<lambda>res ms r. case releasePorts (SC_release sc) ps ms r of (ms', r') \<Rightarrow> (res, ms', r')) in
                 if err \<noteq> [] then Some (release (False, zero_outcome, err) ms1 r2)
                 else case SC_start sc (portCommand ms1 (PR_spec r) ps) of
                   Inl e \<Rightarrow> Some (release (False, zero_outcome, [RunStart e]) ms1 r2)
                 | Inr proc \<Rightarrow>
                     (case run_process sc g ps proc ms1 r2 of
                        None \<Rightarrow> None
                      | Some (res, ms2, r3) \<Rightarrow> Some (release res ms2 r3))))"

section \<open>Supervision\<close>

fun attempts ::
  "nat \<Rightarrow> run_script list \<Rightarrow> group_bed \<Rightarrow> run_result \<Rightarrow> registry \<Rightarrow> pillow_record
     \<Rightarrow> (run_result \<times> registry \<times> pillow_record) option" where
  "attempts 0 scs g res ms r = Some (res, ms, r)"
| "attempts (Suc n) [] g res ms r = None"
| "attempts (Suc n) (sc # scs) g res ms r =
     (case run sc g ms r of
        None \<Rightarrow> None
      | Some (res1, ms1, r1) \<Rightarrow>
          if \<not> retryPortConflict (snd (snd res1)) (PR_spec r) then Some (res1, ms1, r1)
          else attempts n scs g res1 ms1 r1)"

definition failed_run :: "run_result \<Rightarrow> bool" where
  "failed_run res = (case res of (_, outcome, err) \<Rightarrow> err \<noteq> [] \<or> OC_Kind outcome \<noteq> ProcessExited \<or> OC_ExitCode outcome \<noteq> 0)"

definition automatic_restart :: "PillowSpec \<Rightarrow> run_result \<Rightarrow> bool" where
  "automatic_restart spec res =
     (PS_RestartPolicy spec = ''always'' \<or> PS_RestartPolicy spec = ''on-failure'' \<and> failed_run res
      \<or> OC_Kind (fst (snd res)) = ProcessLost)"

definition restart_delay :: "int \<Rightarrow> duration" where
  "restart_delay restarts = min (2 ^ nat (min (restarts - 1) 5) * seconds 1) (seconds 30)"

datatype backoff_wake = BackoffCancelled | BackoffRestart | BackoffTimer
datatype idle_wake = IdleCancelled | IdleRestart | IdleWaits

record supervise_input =
  SI_runs :: "run_script list"
  SI_cancelled :: bool          \<comment> \<open>\<open>ctx.Err()\<close> after the tries\<close>
  SI_backoff :: backoff_wake
  SI_idle :: idle_wake
  SI_text :: "run_errors \<Rightarrow> string"   \<comment> \<open>\<open>err.Error()\<close>\<close>

text \<open>
  Where the loop stands after a pass: before the next pass with the given number of consumed restarts, waiting without a timer for a restart or the end of the context
  (\<open>IdleWaits\<close>: neither has come yet), or returned.
\<close>

datatype supervisor = Supervising int | Waiting | Finished

text \<open>One pass of the loop with \<open>restarts\<close> consumed restarts.\<close>

definition supervise_pass ::
  "supervise_input \<Rightarrow> group_bed \<Rightarrow> int \<Rightarrow> registry \<Rightarrow> pillow_record \<Rightarrow> (supervisor \<times> registry \<times> pillow_record) option" where
  "supervise_pass si g restarts ms r =
     (case attempts 3 (SI_runs si) g (False, zero_outcome, []) ms
             (update (\<lambda>s. s\<lparr>ST_Phase := ''starting'', ST_Reason := [], ST_Restarts := restarts\<rparr>) r) of
        None \<Rightarrow> None
      | Some (res, ms1, r1) \<Rightarrow>
          Some (
            if SI_cancelled si then (Finished, ms1, update (\<lambda>s. s\<lparr>ST_Phase := ''stopped''\<rparr>) r1)
            else if fst res then (Supervising 0, ms1, r1)
            else if automatic_restart (PR_spec r) res \<and> restarts < PS_MaxRestarts (PR_spec r) then
              let r2 = update (\<lambda>s. s\<lparr>ST_Phase := ''backoff'', ST_Restarts := restarts + 1, ST_Reason := ''RestartScheduled''\<rparr>) r1
              in (case SI_backoff si of
                    BackoffRestart \<Rightarrow> (Supervising 0, ms1, r2\<lparr>PR_restart := False\<rparr>)
                  | _ \<Rightarrow> (Supervising (restarts + 1), ms1, r2))
            else
              let r2 = update (\<lambda>s. s\<lparr>ST_Phase := (if failed_run res then ''failed'' else ''completed''),
                         ST_Reason := (if snd (snd res) = [] then ''ProcessExited'' else SI_text si (snd (snd res))),
                         ST_Outcome := Some (fst (snd res))\<rparr>) r1
              in (case SI_idle si of
                    IdleCancelled \<Rightarrow> (Finished, ms1, update (\<lambda>s. s\<lparr>ST_Phase := ''stopped''\<rparr>) r2)
                  | IdleRestart \<Rightarrow> (Supervising 0, ms1, r2\<lparr>PR_restart := False\<rparr>)
                  | IdleWaits \<Rightarrow> (Waiting, ms1, r2))))"

fun supervise ::
  "supervise_input list \<Rightarrow> group_bed \<Rightarrow> int \<Rightarrow> registry \<Rightarrow> pillow_record \<Rightarrow> (supervisor \<times> registry \<times> pillow_record) option" where
  "supervise [] g restarts ms r = Some (Supervising restarts, ms, r)"
| "supervise (si # sis) g restarts ms r =
     (case supervise_pass si g restarts ms r of
        None \<Rightarrow> None
      | Some (Finished, ms1, r1) \<Rightarrow> Some (Finished, ms1, r1\<lparr>PR_done := True\<rparr>)
      | Some (Waiting, ms1, r1) \<Rightarrow> Some (Waiting, ms1, r1)
      | Some (Supervising n, ms1, r1) \<Rightarrow> supervise sis g n ms1 r1)"

section \<open>Groups\<close>

record pillow_group =
  PG_records :: "pillow_record list"
  PG_stopped :: bool

record PillowManager =
  PLM_closed :: bool
  PLM_groups :: "(nat \<times> pillow_group) list"

datatype group_error = GroupSpec pillow_error | GroupPorts | GroupClosed | GroupPrepared | GroupFailed string | GroupCancelled
  | GroupNotFound | GroupUnavailable | GroupStopping | GroupNoProcess string

definition ResolvePillows ::
  "(PillowSpec \<Rightarrow> string) \<Rightarrow> bool \<Rightarrow> PillowSpec list \<Rightarrow> (group_error, PillowSpec list) result" where
  "ResolvePillows digest available specs =
     (case Normalize digest specs of
        Inl e \<Rightarrow> Inl (GroupSpec e)
      | Inr resolved \<Rightarrow> if concat (map PS_Ports resolved) \<noteq> [] \<and> \<not> available then Inl GroupPorts else Inr resolved)"

text \<open>A pillow without a command has no process: it is prepared and ready at once, and nothing supervises it.\<close>

definition prepare_record :: "PillowSpec \<Rightarrow> pillow_record" where
  "prepare_record spec =
     (let process = (pillow_command spec \<noteq> []) in
      \<lparr> PR_mappings = [], PR_spec = spec,
        PR_status = \<lparr> ST_Name = PS_Name spec, ST_Ports = map PP_Name (PS_Ports spec), ST_Prepared = True, ST_Required = PS_Required spec,
          ST_Phase = (if process then ''starting'' else ''prepared''), ST_Ready = \<not> process, ST_ExecutionID = [], ST_ExecutorID = [],
          ST_Restarts = 0, ST_Reason = [], ST_Outcome = None, ST_Listener = None \<rparr>,
        PR_restart = False, PR_cancelled = False, PR_done = \<not> process \<rparr>)"

definition register_group ::
  "(PillowSpec \<Rightarrow> string) \<Rightarrow> bool \<Rightarrow> PillowManager \<Rightarrow> nat \<Rightarrow> PillowSpec list \<Rightarrow> (group_error, unit) result \<times> PillowManager" where
  "register_group digest available m b specs =
     (case ResolvePillows digest available specs of
        Inl e \<Rightarrow> (Inl e, m)
      | Inr resolved \<Rightarrow>
          if PLM_closed m then (Inl GroupClosed, m)
          else if map_of (PLM_groups m) b \<noteq> None then (Inl GroupPrepared, m)
          else (Inr (), m\<lparr>PLM_groups := al_put b \<lparr> PG_records = map prepare_record resolved, PG_stopped = False \<rparr> (PLM_groups m)\<rparr>))"

definition terminal_phase :: "string \<Rightarrow> bool" where
  "terminal_phase ph \<longleftrightarrow> ph = ''failed'' \<or> ph = ''stopped'' \<or> ph = ''completed''"

fun readiness_scan :: "bool \<Rightarrow> pillow_record list \<Rightarrow> bool \<times> string" where
  "readiness_scan ready [] = (ready, [])"
| "readiness_scan ready (r # rs) =
     (if PS_Required (PR_spec r) \<and> \<not> ST_Ready (PR_status r) then
        if terminal_phase (ST_Phase (PR_status r)) then (False, PS_Name (PR_spec r)) else readiness_scan False rs
      else readiness_scan ready rs)"

definition groupReadiness :: "pillow_group \<Rightarrow> bool \<times> string" where
  "groupReadiness g = readiness_scan (\<not> PG_stopped g) (PG_records g)"

text \<open>The wait of \<open>PrepareBed\<close>: the group as observed after each change; the list ends when the context does.\<close>

fun await_ready :: "pillow_group list \<Rightarrow> (group_error, unit) result" where
  "await_ready [] = Inl GroupCancelled"
| "await_ready (g # gs) =
     (case groupReadiness g of
        (ready, failed) \<Rightarrow> if failed \<noteq> [] then Inl (GroupFailed failed) else if ready then Inr () else await_ready gs)"

definition PillowsReady :: "PillowManager \<Rightarrow> nat \<Rightarrow> bool" where
  "PillowsReady m b = (case map_of (PLM_groups m) b of None \<Rightarrow> False | Some g \<Rightarrow> fst (groupReadiness g))"

text \<open>The public snapshot clears the executor's private diagnostic.\<close>

definition PillowStatuses :: "PillowManager \<Rightarrow> nat \<Rightarrow> PillowStatus list" where
  "PillowStatuses m b =
     (case map_of (PLM_groups m) b of
        None \<Rightarrow> []
      | Some g \<Rightarrow> map (\<lambda>r. (PR_status r)\<lparr>ST_Outcome := map_option (\<lambda>v. v\<lparr>OC_Detail := []\<rparr>) (ST_Outcome (PR_status r))\<rparr>) (PG_records g))"

fun access_ports :: "'m PortMappings \<Rightarrow> string \<Rightarrow> nat list \<Rightarrow> (group_error, nat list) result" where
  "access_ports ms execution [] = Inr []"
| "access_ports ms execution (p # ps) =
     (if MP_state (mapping ms p) \<noteq> ''listening'' \<or> MP_execution (mapping ms p) \<noteq> execution then Inl GroupUnavailable
      else res_bind (access_ports ms execution ps) (\<lambda>qs. Inr (p # qs)))"

definition Access :: "'m PortMappings \<Rightarrow> PillowManager \<Rightarrow> nat \<Rightarrow> string \<Rightarrow> (group_error, nat list) result" where
  "Access ms m b name =
     (case map_of (PLM_groups m) b of
        None \<Rightarrow> Inl GroupNotFound
      | Some g \<Rightarrow>
          (case List.find (\<lambda>r. PS_Name (PR_spec r) = name \<and> \<not> PG_stopped g \<and> ST_Ready (PR_status r) \<and> PR_mappings r \<noteq> []) (PG_records g) of
             None \<Rightarrow> Inl GroupUnavailable
           | Some r \<Rightarrow> access_ports ms (ST_ExecutionID (PR_status r)) (PR_mappings r)))"

fun restart_record :: "string \<Rightarrow> pillow_record list \<Rightarrow> (group_error, pillow_record list) result" where
  "restart_record name [] = Inl GroupNotFound"
| "restart_record name (r # rs) =
     (if PS_Name (PR_spec r) = name then
        if pillow_command (PR_spec r) = [] then Inl (GroupNoProcess name) else Inr (r\<lparr>PR_restart := True\<rparr> # rs)
      else res_bind (restart_record name rs) (\<lambda>qs. Inr (r # qs)))"

definition RestartPillow :: "PillowManager \<Rightarrow> nat \<Rightarrow> string \<Rightarrow> (group_error, unit) result \<times> PillowManager" where
  "RestartPillow m b name =
     (case map_of (PLM_groups m) b of
        None \<Rightarrow> (Inl GroupNotFound, m)
      | Some g \<Rightarrow>
          if PG_stopped g then (Inl GroupStopping, m)
          else case restart_record name (PG_records g) of
            Inl e \<Rightarrow> (Inl e, m)
          | Inr rs \<Rightarrow> (Inr (), m\<lparr>PLM_groups := al_put b (g\<lparr>PG_records := rs\<rparr>) (PLM_groups m)\<rparr>))"

text \<open>\<open>finished\<close>: whether every record's \<open>done\<close> channel closes before the context ends.\<close>

definition stopGroup :: "PillowManager \<Rightarrow> nat \<Rightarrow> PillowManager" where
  "stopGroup m b =
     (case map_of (PLM_groups m) b of
        None \<Rightarrow> m
      | Some g \<Rightarrow> m\<lparr>PLM_groups := al_put b
          \<lparr> PG_records = map (\<lambda>r. r\<lparr>PR_cancelled := True\<rparr>) (PG_records g), PG_stopped = True \<rparr> (PLM_groups m)\<rparr>)"

definition ReleasePillows :: "bool \<Rightarrow> PillowManager \<Rightarrow> nat \<Rightarrow> (group_error, unit) result \<times> PillowManager" where
  "ReleasePillows finished m b =
     (let m1 = stopGroup m b in
      if map_of (PLM_groups m) b \<noteq> None \<and> \<not> finished then (Inl GroupCancelled, m1)
      else (Inr (), m1\<lparr>PLM_groups := al_del b (PLM_groups m1)\<rparr>))"

fun release_groups :: "(nat \<Rightarrow> bool) \<Rightarrow> PillowManager \<Rightarrow> nat list \<Rightarrow> bool \<times> PillowManager" where
  "release_groups finished m [] = (True, m)"
| "release_groups finished m (b # bs) =
     (case ReleasePillows (finished b) m b of
        (r, m1) \<Rightarrow> (case release_groups finished m1 bs of (ok, m2) \<Rightarrow> (is_ok r \<and> ok, m2)))"

definition ClosePillows :: "(nat \<Rightarrow> bool) \<Rightarrow> PillowManager \<Rightarrow> bool \<times> PillowManager" where
  "ClosePillows finished m = release_groups finished (m\<lparr>PLM_closed := True\<rparr>) (map fst (PLM_groups m))"

section \<open>The readiness tracker against its specification\<close>

text \<open>
  What the thresholds mean on the history of probe results (oldest first): some \<open>success\<close> consecutive
  successes happened, and no \<open>failure\<close> consecutive failures since.
\<close>

definition stably_ready :: "nat \<Rightarrow> nat \<Rightarrow> bool list \<Rightarrow> bool" where
  "stably_ready success failure h \<longleftrightarrow>
     (\<exists>u v. h = u @ replicate success True @ v \<and> \<not> sublist (replicate failure False) v)"

definition trailing :: "bool \<Rightarrow> bool list \<Rightarrow> nat" where
  "trailing b h = length (takeWhile (\<lambda>x. x = b) (rev h))"

lemma trailing_simps [simp]:
  "trailing b [] = 0" "trailing b (h @ [b]) = Suc (trailing b h)" "b \<noteq> c \<Longrightarrow> trailing b (h @ [c]) = 0"
  by (simp_all add: trailing_def)

lemma suffix_replicate: "suffix (replicate n b) h \<longleftrightarrow> n \<le> trailing b h"
proof (induction h arbitrary: n rule: rev_induct)
  case Nil
  then show ?case by auto
next
  case (snoc x h)
  show ?case
  proof (cases n)
    case (Suc k)
    have "suffix (replicate (Suc k) b) (h @ [x]) \<longleftrightarrow> x = b \<and> suffix (replicate k b) h"
      unfolding replicate_Suc replicate_append_same [symmetric] snoc_suffix_snoc by auto
    with Suc snoc show ?thesis by (cases "x = b") simp_all
  qed simp
qed

lemma sublist_snoc: "sublist xs (ys @ [y]) \<longleftrightarrow> sublist xs ys \<or> suffix xs (ys @ [y])"
proof
  assume "sublist xs (ys @ [y])"
  then obtain ps ss where e: "ys @ [y] = ps @ xs @ ss" by (auto simp: sublist_def)
  then show "sublist xs ys \<or> suffix xs (ys @ [y])"
  proof (cases ss rule: rev_cases)
    case Nil
    with e show ?thesis by (auto simp: suffix_def)
  next
    case (snoc ss' z)
    with e have "ys = ps @ xs @ ss'" by simp
    then show ?thesis by (auto simp: sublist_def)
  qed
next
  assume "sublist xs ys \<or> suffix xs (ys @ [y])"
  then show "sublist xs (ys @ [y])"
    by (auto intro: sublist_order.order_trans suffix_imp_sublist)
qed

lemma trailing_after_True: "trailing False (u @ True # v) = trailing False v"
proof (induction v rule: rev_induct)
  case Nil
  then show ?case using trailing_simps(3) [of False True u] by simp
next
  case (snoc x v)
  then show ?case
    using trailing_simps(2) [of False "u @ True # v"] trailing_simps(3) [of False True "u @ True # v"]
    by (cases x) simp_all
qed

lemma stably_ready_True:
  assumes "0 < s" "0 < f"
  shows "stably_ready s f (h @ [True]) \<longleftrightarrow> s \<le> Suc (trailing True h) \<or> stably_ready s f h"
proof -
  have nosuf: "\<not> suffix (replicate f False) (v @ [True])" for v
    using assms(2) suffix_replicate [of f False "v @ [True]"] by simp
  have "stably_ready s f (h @ [True]) \<longleftrightarrow> (\<exists>u. h @ [True] = u @ replicate s True) \<or> stably_ready s f h"
    (is "?l \<longleftrightarrow> ?r")
  proof
    assume ?l
    then obtain u v where e: "h @ [True] = u @ replicate s True @ v" and n: "\<not> sublist (replicate f False) v"
      by (auto simp: stably_ready_def)
    show ?r
    proof (cases v rule: rev_cases)
      case (snoc w z)
      with e have "h = u @ replicate s True @ w" by simp
      moreover have "\<not> sublist (replicate f False) w"
        using n snoc sublist_snoc [of "replicate f False" w z] by blast
      ultimately have "h = u @ replicate s True @ w" "\<not> sublist (replicate f False) w" .
      then show ?thesis by (auto simp: stably_ready_def)
    qed (use e in auto)
  next
    assume ?r
    then show ?l
    proof
      assume "\<exists>u. h @ [True] = u @ replicate s True"
      then obtain u where "h @ [True] = u @ replicate s True @ []" by auto
      moreover have "\<not> sublist (replicate f False) []" using assms(2) by simp
      ultimately show ?l unfolding stably_ready_def by blast
    next
      assume "stably_ready s f h"
      then obtain u v where "h = u @ replicate s True @ v" "\<not> sublist (replicate f False) v"
        by (auto simp: stably_ready_def)
      then have "h @ [True] = u @ replicate s True @ (v @ [True])" "\<not> sublist (replicate f False) (v @ [True])"
        using sublist_snoc [of "replicate f False" v True] nosuf by auto
      then show ?l unfolding stably_ready_def by blast
    qed
  qed
  moreover have "(\<exists>u. h @ [True] = u @ replicate s True) \<longleftrightarrow> s \<le> Suc (trailing True h)"
    using suffix_replicate [of s True "h @ [True]"] by (auto simp: suffix_def)
  ultimately show ?thesis by simp
qed

lemma stably_ready_False:
  assumes "0 < s" "0 < f"
  shows "stably_ready s f (h @ [False]) \<longleftrightarrow> \<not> f \<le> Suc (trailing False h) \<and> stably_ready s f h"
proof -
  obtain k where k: "s = Suc k" using assms(1) by (cases s) auto
  have tr: "trailing False (u @ replicate s True @ v) = trailing False v" for u v
  proof -
    have "u @ replicate s True @ v = (u @ replicate k True) @ True # v"
      using k by (simp add: replicate_append_same [symmetric])
    then show ?thesis by (simp only: trailing_after_True)
  qed
  have key: "\<not> sublist (replicate f False) (v @ [False]) \<longleftrightarrow> \<not> f \<le> Suc (trailing False v) \<and> \<not> sublist (replicate f False) v" for v
    unfolding sublist_snoc suffix_replicate by auto
  show ?thesis
  proof
    assume "stably_ready s f (h @ [False])"
    then obtain u v where e: "h @ [False] = u @ replicate s True @ v" and n: "\<not> sublist (replicate f False) v"
      by (auto simp: stably_ready_def)
    show "\<not> f \<le> Suc (trailing False h) \<and> stably_ready s f h"
    proof (cases v rule: rev_cases)
      case Nil
      with e k have "h @ [False] = (u @ replicate k True) @ [True]" by (simp add: replicate_append_same)
      then show ?thesis by simp
    next
      case (snoc w z)
      with e have h: "h = u @ replicate s True @ w" "v = w @ [False]" by auto
      with n key tr show ?thesis unfolding stably_ready_def by metis
    qed
  next
    assume r: "\<not> f \<le> Suc (trailing False h) \<and> stably_ready s f h"
    then obtain u v where h: "h = u @ replicate s True @ v" "\<not> sublist (replicate f False) v"
      by (auto simp: stably_ready_def)
    with r tr key have "\<not> sublist (replicate f False) (v @ [False])" by metis
    moreover have "h @ [False] = u @ replicate s True @ (v @ [False])" using h by simp
    ultimately show "stably_ready s f (h @ [False])" unfolding stably_ready_def by blast
  qed
qed

lemma not_stably_ready_Nil: "0 < s \<Longrightarrow> \<not> stably_ready s f []"
  by (simp add: stably_ready_def)

lemma track_history:
  assumes "0 < s" "0 < f"
  shows "fold (track (int s) (int f)) h new_tracker =
    \<lparr> RT_ready = stably_ready s f h, RT_successes = int (min s (trailing True h)), RT_failures = int (min f (trailing False h)) \<rparr>"
proof (induction h rule: rev_induct)
  case Nil
  then show ?case using assms by (simp add: new_tracker_def not_stably_ready_Nil)
next
  case (snoc x h)
  have m: "min (int (min n t) + 1) (int n) = int (min n (Suc t))" for n t by simp
  show ?case
  proof (cases x)
    case True
    then show ?thesis using snoc assms
      by (auto simp: track_def Let_def stably_ready_True m min_def)
  next
    case False
    then show ?thesis using snoc assms
      by (auto simp: track_def Let_def stably_ready_False m min_def)
  qed
qed

section \<open>What an execution keeps\<close>

lemma update_sel [simp]:
  "PR_spec (update fn r) = PR_spec r" "PR_mappings (update fn r) = PR_mappings r" "PR_done (update fn r) = PR_done r"
  "PR_cancelled (update fn r) = PR_cancelled r" "PR_restart (update fn r) = PR_restart r"
  by (simp_all add: update_def Let_def)

text \<open>Only a running pillow is ready.\<close>

lemma update_ready: "ST_Ready (PR_status (update fn r)) \<Longrightarrow> ST_Phase (PR_status (update fn r)) = ''running''"
  by (auto simp: update_def Let_def split: if_splits)

lemma readinessCheck_sel [simp]: "PR_spec (snd (readinessCheck inspect reach ms ps r)) = PR_spec r"
  by (auto simp: readinessCheck_def Let_def split: sum.splits prod.splits)

lemma readinessCheck_keeps [simp]: "PR_mappings (snd (readinessCheck inspect reach ms ps r)) = PR_mappings r"
  by (auto simp: readinessCheck_def Let_def split: sum.splits prod.splits)

lemma run_loop_tick:
  assumes run: "run_loop sc bedid ps t published (EventTick inspect reach meanwhile # es) ms r = Some (res, ms', r')"
  obtains (ends) "\<not> fst res" "r' = snd (readinessCheck inspect reach ms ps r)"
      "ms' = ms \<or> ms' = snd (publish_each (SC_listen sc) bedid ps ms)"
  | (goes_on) t1 pub ms1 fn where
      "run_loop sc bedid ps t1 pub es ms1 (update fn (snd (readinessCheck inspect reach ms ps r))) = Some (res, ms', r')"
      "ms1 = ms \<or> ms1 = snd (publish_each (SC_listen sc) bedid ps ms)"
proof -
  obtain c r1 where c: "readinessCheck inspect reach ms ps r = (c, r1)" by fastforce
  show thesis
  proof (cases "\<exists>result. c = Inr result \<and> meanwhile = StillRunning")
    case False
    with run c show ?thesis by (intro ends) (cases c; cases meanwhile; auto)+
  next
    case True
    then obtain result where cr: "c = Inr result" "meanwhile = StillRunning" by blast
    obtain t1 shown where o: "observe t result (PS_ReadinessProbe (PR_spec r1)) = (t1, shown)" by fastforce
    obtain err ms1 where pub: "publish_each (SC_listen sc) bedid ps ms = (err, ms1)" by fastforce
    let ?fn = "\<lambda>s. s\<lparr>ST_Ready := RR_Ready shown, ST_Reason := RR_Reason shown\<rparr>"
    show ?thesis
    proof (cases "RR_Ready shown \<and> \<not> published")
      case False
      then have "run_loop sc bedid ps t1 published es ms (update ?fn r1) = Some (res, ms', r')"
        using run c cr o by (auto simp: Let_def)
      then show ?thesis by (intro goes_on [of t1 published ms ?fn]) (simp_all add: c)
    next
      case True
      show ?thesis
      proof (cases err)
        case Nil
        then have "run_loop sc bedid ps t1 True es ms1 (update ?fn r1) = Some (res, ms', r')"
          using run c cr o pub True by (auto simp: Let_def)
        then show ?thesis by (intro goes_on [of t1 True ms1 ?fn]) (simp_all add: c pub)
      next
        case (Cons e errs)
        with run c cr o pub True show ?thesis by (intro ends) (auto simp: Let_def)
      qed
    qed
  qed
qed

lemma run_loop_result:
  "run_loop sc bedid ps t published es ms r = Some (res, ms', r') \<Longrightarrow>
     PR_spec r' = PR_spec r \<and> (EventRestart \<notin> set es \<longrightarrow> \<not> fst res)"
proof (induction es arbitrary: t published ms r)
  case (Cons e es)
  show ?case
  proof (cases e)
    case (EventTick inspect reach meanwhile)
    from Cons.prems [unfolded EventTick] show ?thesis
    proof (cases rule: run_loop_tick)
      case ends
      then show ?thesis by simp
    next
      case (goes_on t1 pub ms1 fn)
      from Cons.IH [OF goes_on(1)] show ?thesis by (simp add: EventTick)
    qed
  qed (use Cons.prems in auto)
qed simp

lemma release_until_keeps [simp]:
  "PR_spec (snd (release_until fails ms p r)) = PR_spec r"
  by (induction fails arbitrary: ms r) (auto split: prod.splits sum.splits)

lemma release_each_keeps [simp]: "PR_spec (snd (release_each fails ps ms r)) = PR_spec r"
proof (induction ps arbitrary: ms r)
  case (Cons p ps)
  obtain ms1 r1 where "release_until (fails p) ms p r = (ms1, r1)" by fastforce
  with Cons release_until_keeps [of "fails p" ms p r] show ?case by simp
qed simp

lemma releasePorts_keeps [simp]: "PR_spec (snd (releasePorts fails ps ms r)) = PR_spec r"
  using release_each_keeps [of fails ps ms r] by (cases "release_each fails ps ms r") (simp add: releasePorts_def)

lemma stop_process_keeps [simp]: "PR_spec (snd (snd (stop_process sc ps ms r))) = PR_spec r"
  by (simp add: stop_process_def Let_def split: prod.splits)

lemma reservePorts_keeps [simp]: "PR_spec (snd (snd (snd (reservePorts probe net g r ms)))) = PR_spec r"
  by (simp add: reservePorts_def split: sum.splits prod.splits)

lemma run_process_result:
  assumes "run_process sc g ps proc ms r = Some (res, ms', r')"
  shows "PR_spec r' = PR_spec r \<and> (EventRestart \<notin> set (SC_events sc) \<longrightarrow> \<not> fst res)"
proof -
  let ?fn = "\<lambda>s. s\<lparr>ST_Phase := ''running'', ST_ExecutionID := fst proc, ST_ExecutorID := snd proc, ST_Outcome := None\<rparr>"
  obtain ex oc err ms2 r2 where l: "run_loop sc (GB_id g) ps new_tracker False (SC_events sc) (bind_each (fst proc) ps ms) (update ?fn r)
      = Some ((ex, oc, err), ms2, r2)"
    using assms by (auto simp: run_process_def Let_def split: option.splits)
  obtain werr ms3 r3 where s: "stop_process sc ps ms2 r2 = (werr, ms3, r3)" by (cases "stop_process sc ps ms2 r2") auto
  from assms l s have "fst res = ex" "r' = r3" by (auto simp: run_process_def Let_def)
  with run_loop_result [OF l] stop_process_keeps [of sc ps ms2 r2] s show ?thesis by simp
qed

text \<open>The ways a \<open>run\<close> returns: before it asked for ports, or with its ports released again.\<close>

lemma run_cases:
  assumes run: "run sc g ms r = Some (res, ms', r')"
  obtains (early) fn where "ms' = ms" "r' = r \<or> r' = update fn r" "\<not> fst res"
  | (ports) ps err ms1 r1 ms2 r2 where
      "reservePorts (SC_probe sc) (SC_network sc) g (update (\<lambda>s. s\<lparr>ST_Phase := ''starting'', ST_Listener := None\<rparr>) r) ms = (ps, err, ms1, r1)"
      "releasePorts (SC_release sc) ps ms2 r2 = (ms', r')"
      "ms2 = ms1 \<and> r2 = r1 \<and> \<not> fst res \<or> err = [] \<and> (\<exists>proc. run_process sc g ps proc ms1 r1 = Some (res, ms2, r2))"
proof -
  let ?fn = "\<lambda>s. s\<lparr>ST_Phase := ''starting'', ST_Listener := None\<rparr>"
  obtain ps err ms1 r1 where rp: "reservePorts (SC_probe sc) (SC_network sc) g (update ?fn r) ms = (ps, err, ms1, r1)"
    by (cases "reservePorts (SC_probe sc) (SC_network sc) g (update ?fn r) ms") auto
  show thesis
  proof (cases "SC_cancelled sc \<or> SC_env sc \<noteq> None")
    case True
    with run show ?thesis by (intro early [of ?fn]) (auto simp: run_def Let_def split: if_splits)
  next
    case False
    then have c: "\<not> SC_cancelled sc" "SC_env sc = None" by simp_all
    obtain m x where rel: "releasePorts (SC_release sc) ps ms1 r1 = (m, x)" by fastforce
    show ?thesis
    proof (cases "err = [] \<and> (\<exists>proc. SC_start sc (portCommand ms1 (PR_spec r) ps) = Inr proc)")
      case False
      then have "ms' = m \<and> r' = x \<and> \<not> fst res"
        using run c rp rel by (cases "err = []"; cases "SC_start sc (portCommand ms1 (PR_spec r) ps)")
          (auto simp: run_def Let_def)
      with rp rel show ?thesis by (intro ports [of ps err ms1 r1 ms1 r1]) auto
    next
      case True
      then obtain proc where st: "err = []" "SC_start sc (portCommand ms1 (PR_spec r) ps) = Inr proc" by blast
      then obtain res2 ms2 r2 where pr: "run_process sc g ps proc ms1 r1 = Some (res2, ms2, r2)"
        using run c rp by (auto simp: run_def Let_def split: option.splits)
      obtain m2 x2 where rel2: "releasePorts (SC_release sc) ps ms2 r2 = (m2, x2)" by fastforce
      have e: "res = res2" "ms' = m2" "r' = x2" using run c rp st pr rel2 by (simp_all add: run_def Let_def)
      show ?thesis
      proof (rule ports)
        show "reservePorts (SC_probe sc) (SC_network sc) g (update ?fn r) ms = (ps, err, ms1, r1)" by (rule rp)
        show "releasePorts (SC_release sc) ps ms2 r2 = (ms', r')" unfolding e by (rule rel2)
        show "ms2 = ms1 \<and> r2 = r1 \<and> \<not> fst res \<or> err = [] \<and> (\<exists>proc. run_process sc g ps proc ms1 r1 = Some (res, ms2, r2))"
          using st(1) pr unfolding e by blast
      qed
    qed
  qed
qed

lemma run_result:
  assumes "run sc g ms r = Some (res, ms', r')"
  shows "PR_spec r' = PR_spec r \<and> (EventRestart \<notin> set (SC_events sc) \<longrightarrow> \<not> fst res)"
  using assms
proof (cases rule: run_cases)
  case early
  then show ?thesis by auto
next
  case (ports ps err ms1 r1 ms2 r2)
  have "PR_spec r1 = PR_spec r"
    using reservePorts_keeps [of "SC_probe sc" "SC_network sc" g _ ms] ports(1) by (metis snd_conv update_sel(1))
  moreover have "PR_spec r' = PR_spec r2" using releasePorts_keeps [of "SC_release sc" ps ms2 r2] ports(2) by simp
  ultimately show ?thesis using ports(3) run_process_result by metis
qed

lemma attempts_spec: "attempts n scs g res0 ms r = Some (res, ms', r') \<Longrightarrow> PR_spec r' = PR_spec r"
proof (induction n arbitrary: scs res0 ms r)
  case (Suc n)
  then obtain sc scs' res1 ms1 r1 where s: "scs = sc # scs'" "run sc g ms r = Some (res1, ms1, r1)"
    by (cases scs) (auto split: option.splits)
  with Suc run_result [OF s(2)] show ?case by (auto split: if_splits dest: Suc.IH)
qed simp

lemma attempts_explicit:
  "attempts n scs g res0 ms r = Some (res, ms', r') \<Longrightarrow> \<not> fst res0 \<Longrightarrow> \<forall>sc \<in> set scs. EventRestart \<notin> set (SC_events sc) \<Longrightarrow> \<not> fst res"
proof (induction n arbitrary: scs res0 ms r)
  case (Suc n)
  then obtain sc scs' res1 ms1 r1 where s: "scs = sc # scs'" "run sc g ms r = Some (res1, ms1, r1)"
    by (cases scs) (auto split: option.splits)
  with Suc.prems run_result [OF s(2)] have "\<not> fst res1" by simp
  with Suc s show ?case by (auto split: if_splits dest: Suc.IH)
qed auto

section \<open>The restart budget\<close>

text \<open>Nobody asks for a restart while these passes run.\<close>

definition no_request :: "supervise_input \<Rightarrow> bool" where
  "no_request si \<longleftrightarrow> (\<forall>sc \<in> set (SI_runs si). EventRestart \<notin> set (SC_events sc)) \<and> SI_backoff si \<noteq> BackoffRestart \<and> SI_idle si \<noteq> IdleRestart"

lemma supervise_pass_spec:
  assumes "supervise_pass si g restarts ms r = Some (st, ms', r')"
  shows "PR_spec r' = PR_spec r"
proof -
  let ?r = "update (\<lambda>s. s\<lparr>ST_Phase := ''starting'', ST_Reason := [], ST_Restarts := restarts\<rparr>) r"
  obtain res ms1 r1 where a: "attempts 3 (SI_runs si) g (False, zero_outcome, []) ms ?r = Some (res, ms1, r1)"
    using assms by (auto simp: supervise_pass_def split: option.splits)
  have "PR_spec r1 = PR_spec r" using attempts_spec [OF a] by simp
  with assms a show ?thesis
    by (auto simp: supervise_pass_def Let_def split: if_splits backoff_wake.splits idle_wake.splits)
qed

lemma supervise_pass_budget:
  assumes pass: "supervise_pass si g restarts ms r = Some (Supervising n, ms', r')" and "no_request si"
  shows "n = restarts + 1 \<and> n \<le> PS_MaxRestarts (PR_spec r)"
proof -
  let ?r = "update (\<lambda>s. s\<lparr>ST_Phase := ''starting'', ST_Reason := [], ST_Restarts := restarts\<rparr>) r"
  obtain res ms1 r1 where a: "attempts 3 (SI_runs si) g (False, zero_outcome, []) ms ?r = Some (res, ms1, r1)"
    using pass by (auto simp: supervise_pass_def split: option.splits)
  have "\<not> fst res" using attempts_explicit [OF a] assms(2) by (simp add: no_request_def)
  with pass a assms(2) show ?thesis
    by (auto simp: supervise_pass_def Let_def no_request_def split: if_splits backoff_wake.splits idle_wake.splits)
qed

lemma restart_delay_bounds: "1 \<le> k \<Longrightarrow> seconds 1 \<le> restart_delay k \<and> restart_delay k \<le> seconds 30"
proof -
  have "(1::int) \<le> 2 ^ nat (min (k - 1) 5)" by simp
  then show ?thesis by (simp add: restart_delay_def seconds_def)
qed

section \<open>Supervision returns\<close>

text \<open>An event that is not a tick ends the execution.\<close>

definition ends_run :: "run_event \<Rightarrow> bool" where
  "ends_run e = (case e of EventTick _ _ _ \<Rightarrow> False | _ \<Rightarrow> True)"

lemma run_loop_returns: "list_ex ends_run es \<Longrightarrow> run_loop sc bedid ps t published es ms r \<noteq> None"
proof (induction es arbitrary: t published ms r)
  case (Cons e es)
  show ?case
  proof (cases e)
    case (EventTick inspect reach meanwhile)
    with Cons.prems have rest: "run_loop sc bedid ps t' pub es ms' r' \<noteq> None" for t' pub ms' r'
      by (intro Cons.IH) (simp add: ends_run_def)
    obtain c r1 where c: "readinessCheck inspect reach ms ps r = (c, r1)" by fastforce
    obtain err ms1 where pub: "publish_each (SC_listen sc) bedid ps ms = (err, ms1)" by fastforce
    obtain t1 shown where o: "observe t (projr c) (PS_ReadinessProbe (PR_spec r1)) = (t1, shown)" by fastforce
    show ?thesis unfolding EventTick
      using c pub o rest by (cases c; cases meanwhile; cases err) (simp_all add: Let_def del: not_None_eq)
  qed simp_all
qed simp

lemma run_returns:
  assumes "list_ex ends_run (SC_events sc)"
  shows "run sc g ms r \<noteq> None"
proof -
  have process: "run_process sc g ps proc ms1 r1 \<noteq> None" for ps proc ms1 r1
  proof -
    let ?fn = "\<lambda>s. s\<lparr>ST_Phase := ''running'', ST_ExecutionID := fst proc, ST_ExecutorID := snd proc, ST_Outcome := None\<rparr>"
    obtain ex oc err ms2 r2 where "run_loop sc (GB_id g) ps new_tracker False (SC_events sc) (bind_each (fst proc) ps ms1) (update ?fn r1)
        = Some ((ex, oc, err), ms2, r2)"
      using run_loop_returns [OF assms, of sc "GB_id g" ps new_tracker False "bind_each (fst proc) ps ms1" "update ?fn r1"] by fastforce
    then show ?thesis by (cases "stop_process sc ps ms2 r2") (simp add: run_process_def Let_def)
  qed
  let ?r = "update (\<lambda>s. s\<lparr>ST_Phase := ''starting'', ST_Listener := None\<rparr>) r"
  obtain ps err ms1 r1 where rp: "reservePorts (SC_probe sc) (SC_network sc) g ?r ms = (ps, err, ms1, r1)"
    by (cases "reservePorts (SC_probe sc) (SC_network sc) g ?r ms") auto
  show ?thesis
  proof (cases "SC_start sc (portCommand ms1 (PR_spec r) ps)")
    case (Inl e)
    with rp show ?thesis by (simp add: run_def Let_def del: not_None_eq split: option.split)
  next
    case (Inr proc)
    obtain res ms2 r2 where "run_process sc g ps proc ms1 r1 = Some (res, ms2, r2)"
      using process [of ps proc ms1 r1] by fastforce
    with rp Inr show ?thesis by (simp add: run_def Let_def del: not_None_eq split: option.split)
  qed
qed

lemma attempts_returns:
  "n \<le> length scs \<Longrightarrow> \<forall>sc \<in> set scs. list_ex ends_run (SC_events sc) \<Longrightarrow> attempts n scs g res0 ms r \<noteq> None"
proof (induction n arbitrary: scs res0 ms r)
  case (Suc n)
  then obtain sc scs' where scs: "scs = sc # scs'" by (cases scs) auto
  with Suc.prems have "list_ex ends_run (SC_events sc)" by simp
  from run_returns [OF this, of g ms r] obtain res1 ms1 r1 where "run sc g ms r = Some (res1, ms1, r1)" by fastforce
  with Suc.IH [of scs' res1 ms1 r1] Suc.prems scs show ?case by (simp del: not_None_eq)
qed simp

text \<open>Every execution of the pass ends.\<close>

definition ends_pass :: "supervise_input \<Rightarrow> bool" where
  "ends_pass si \<longleftrightarrow> 3 \<le> length (SI_runs si) \<and> (\<forall>sc \<in> set (SI_runs si). list_ex ends_run (SC_events sc))"

lemma supervise_pass_returns:
  assumes "ends_pass si"
  shows "\<exists>st ms' r'. supervise_pass si g restarts ms r = Some (st, ms', r')"
proof -
  let ?r = "update (\<lambda>s. s\<lparr>ST_Phase := ''starting'', ST_Reason := [], ST_Restarts := restarts\<rparr>) r"
  obtain res ms1 r1 where "attempts 3 (SI_runs si) g (False, zero_outcome, []) ms ?r = Some (res, ms1, r1)"
    using attempts_returns [of 3 "SI_runs si" g "(False, zero_outcome, [])" ms ?r] assms by (fastforce simp: ends_pass_def)
  then have "supervise_pass si g restarts ms r \<noteq> None" by (simp add: supervise_pass_def del: not_None_eq)
  then show ?thesis by fastforce
qed

lemma supervise_pass_finished:
  "supervise_pass si g restarts ms r = Some (Finished, ms', r') \<Longrightarrow> ST_Phase (PR_status r') = ''stopped'' \<and> \<not> ST_Ready (PR_status r')"
  by (auto simp: supervise_pass_def Let_def update_def split: option.splits if_splits backoff_wake.splits idle_wake.splits)

text \<open>The pass after which the supervisor waits: the process is over, and a failure whose policy asks for a restart has used up the budget.\<close>

definition gave_up :: "PillowSpec \<Rightarrow> int \<Rightarrow> pillow_record \<Rightarrow> bool" where
  "gave_up spec restarts r \<longleftrightarrow> ST_Phase (PR_status r) \<in> {''failed'', ''completed''} \<and> \<not> ST_Ready (PR_status r) \<and> ST_Outcome (PR_status r) \<noteq> None
     \<and> (PS_RestartPolicy spec = ''always'' \<or> PS_RestartPolicy spec = ''on-failure'' \<and> ST_Phase (PR_status r) = ''failed'' \<longrightarrow> PS_MaxRestarts spec \<le> restarts)"

lemma supervise_pass_waiting:
  "supervise_pass si g restarts ms r = Some (Waiting, ms', r') \<Longrightarrow> gave_up (PR_spec r) restarts r'"
  by (auto simp: supervise_pass_def Let_def update_def gave_up_def automatic_restart_def split: option.splits if_splits backoff_wake.splits idle_wake.splits)

lemma gave_up_later: "gave_up spec n r \<Longrightarrow> n \<le> m \<Longrightarrow> gave_up spec m r"
  by (auto simp: gave_up_def)

text \<open>What a number of passes leads to, the first of them with \<open>restarts\<close> consumed.\<close>

definition supervised_until :: "PillowSpec \<Rightarrow> int \<Rightarrow> nat \<Rightarrow> supervisor \<Rightarrow> pillow_record \<Rightarrow> bool" where
  "supervised_until spec restarts passes st r' \<longleftrightarrow>
     (case st of
        Supervising n \<Rightarrow> n = restarts + int passes \<and> (passes \<noteq> 0 \<longrightarrow> n \<le> PS_MaxRestarts spec)
      | Waiting \<Rightarrow> passes \<noteq> 0 \<and> gave_up spec (restarts + int passes - 1) r'
      | Finished \<Rightarrow> ST_Phase (PR_status r') = ''stopped'' \<and> \<not> ST_Ready (PR_status r') \<and> PR_done r')"

lemma supervise_returns:
  "\<forall>si \<in> set sis. ends_pass si \<and> no_request si \<Longrightarrow>
     \<exists>st ms' r'. supervise sis g restarts ms r = Some (st, ms', r') \<and> supervised_until (PR_spec r) restarts (length sis) st r'"
proof (induction sis arbitrary: restarts ms r)
  case (Cons si sis)
  obtain st ms1 r1 where p: "supervise_pass si g restarts ms r = Some (st, ms1, r1)"
    using supervise_pass_returns [of si g restarts ms r] Cons.prems by auto
  show ?case
  proof (cases st)
    case Finished
    with p supervise_pass_finished [OF p [unfolded Finished]] show ?thesis by (simp add: supervised_until_def)
  next
    case Waiting
    then have "gave_up (PR_spec r) (restarts + int (length sis)) r1"
      using supervise_pass_waiting [of si g restarts ms r ms1 r1] p gave_up_later by force
    with p Waiting show ?thesis by (simp add: supervised_until_def)
  next
    case (Supervising n)
    have n: "n = restarts + 1" "n \<le> PS_MaxRestarts (PR_spec r)" using supervise_pass_budget [OF p [unfolded Supervising]] Cons.prems by simp_all
    obtain st' ms' r' where rest: "supervise sis g n ms1 r1 = Some (st', ms', r')" "supervised_until (PR_spec r1) n (length sis) st' r'"
      using Cons.IH [of n ms1 r1] Cons.prems by auto
    with n supervise_pass_spec [OF p] have "supervised_until (PR_spec r) restarts (length (si # sis)) st' r'"
      by (auto simp: supervised_until_def add.commute split: supervisor.splits)
    with p Supervising rest(1) show ?thesis by simp
  qed
qed (simp add: supervised_until_def)

text \<open>Passes after the loop returned or while it waits do not happen.\<close>

lemma supervise_append:
  "supervise sis g restarts ms r = Some (st, ms', r') \<Longrightarrow> (\<And>n. st \<noteq> Supervising n) \<Longrightarrow> supervise (sis @ later) g restarts ms r = Some (st, ms', r')"
  by (induction sis arbitrary: restarts ms r) (auto split: option.splits supervisor.splits)

section \<open>Properties\<close>

text \<open>C27: the readiness a pillow reports is exactly the one its thresholds describe. After any history of
  probe results of an execution, the pillow is reported ready if and only if at some point \<open>success\<close>
  consecutive probes succeeded and since then no \<open>failure\<close> consecutive probes failed.\<close>

theorem readiness_hysteresis:
  assumes "thresholds probe = (int success, int failure)" and "0 < success" and "0 < failure"
  shows "RR_Ready (snd (observe (fold (\<lambda>x t. fst (observe t x probe)) history new_tracker) result probe))
    \<longleftrightarrow> stably_ready success failure (map RR_Ready (history @ [result]))"
proof -
  have step: "fst (observe t x probe) = track (int success) (int failure) (RR_Ready x) t" for t x
    using assms(1) by (simp add: observe_def Let_def)
  have "fold (\<lambda>x t. fst (observe t x probe)) h t = fold (track (int success) (int failure)) (map RR_Ready h) t" for h t
    by (induction h arbitrary: t) (simp_all add: step)
  then have "fold (\<lambda>x t. fst (observe t x probe)) (history @ [result]) new_tracker =
      fold (track (int success) (int failure)) (map RR_Ready (history @ [result])) new_tracker" .
  then have "RT_ready (fst (observe (fold (\<lambda>x t. fst (observe t x probe)) history new_tracker) result probe))
      \<longleftrightarrow> stably_ready success failure (map RR_Ready (history @ [result]))"
    using track_history [OF assms(2,3), of "map RR_Ready (history @ [result])"] by simp
  moreover have "RR_Ready (snd (observe t result probe)) = RT_ready (fst (observe t result probe))" for t
    using assms(1) by (simp add: observe_def Let_def track_def)
  ultimately show ?thesis by simp
qed

text \<open>C26: A pillow is restarted automatically at most \<open>MaxRestarts\<close> times, and not fewer. When every execution of the pillow ends and nobody asks for a restart, the supervisor
  makes at most \<open>MaxRestarts + 1\<close> passes, whatever happens afterwards. While it makes passes their number is the number of consumed restarts, and it waits between 1 and 30 seconds before
  each. When it makes no more it has either returned on the end of its context, with the pillow stopped, not ready and its \<open>done\<close> channel closed, or it waits, for as long as it takes, for a
  restart request or the end of its context: then the pillow is failed or completed with its outcome recorded and not ready, and if its policy restarts it after such an outcome then all
  \<open>MaxRestarts\<close> restarts were consumed.\<close>

theorem supervise_gives_up:
  assumes "\<forall>si \<in> set sis. no_request si \<and> ends_pass si"
  shows "\<exists>st ms' r'. supervise sis g 0 ms r = Some (st, ms', r')
    \<and> supervise (take (Suc (nat (PS_MaxRestarts (PR_spec r)))) sis) g 0 ms r = Some (st, ms', r')
    \<and> (case st of
         Supervising n \<Rightarrow> n = int (length sis) \<and> n \<le> max 0 (PS_MaxRestarts (PR_spec r)) \<and>
           (n \<noteq> 0 \<longrightarrow> seconds 1 \<le> restart_delay n \<and> restart_delay n \<le> seconds 30)
       | Waiting \<Rightarrow> sis \<noteq> [] \<and> gave_up (PR_spec r) (int (length sis) - 1) r'
       | Finished \<Rightarrow> ST_Phase (PR_status r') = ''stopped'' \<and> \<not> ST_Ready (PR_status r') \<and> PR_done r')"
proof -
  let ?k = "Suc (nat (PS_MaxRestarts (PR_spec r)))"
  have ends: "\<forall>si \<in> set sis. ends_pass si \<and> no_request si" "\<forall>si \<in> set (take ?k sis). ends_pass si \<and> no_request si"
    using assms by (auto dest: in_set_takeD)
  obtain st ms' r' where s: "supervise sis g 0 ms r = Some (st, ms', r')" and u: "supervised_until (PR_spec r) 0 (length sis) st r'"
    using supervise_returns [OF ends(1), of g 0 ms r] by blast
  obtain st1 ms1 r1 where t: "supervise (take ?k sis) g 0 ms r = Some (st1, ms1, r1)" and v: "supervised_until (PR_spec r) 0 (length (take ?k sis)) st1 r1"
    using supervise_returns [OF ends(2), of g 0 ms r] by blast
  have "supervise (take ?k sis) g 0 ms r = Some (st, ms', r')"
  proof (cases "length sis \<le> ?k \<and> (\<exists>n. st1 = Supervising n)")
    case True
    then show ?thesis using s by simp
  next
    case False
    then have "st1 \<noteq> Supervising n" for n using v by (auto simp: supervised_until_def split: if_splits)
    then show ?thesis using supervise_append [OF t, of "drop ?k sis"] s t by simp
  qed
  moreover have "n = int (length sis) \<and> n \<le> max 0 (PS_MaxRestarts (PR_spec r)) \<and> (n \<noteq> 0 \<longrightarrow> seconds 1 \<le> restart_delay n \<and> restart_delay n \<le> seconds 30)"
    if "st = Supervising n" for n
    using u that restart_delay_bounds [of n] by (cases sis) (auto simp: supervised_until_def)
  ultimately show ?thesis using s u by (intro exI conjI) (auto simp: supervised_until_def split: supervisor.split)
qed

section \<open>Witnesses\<close>

definition sample_probe3 :: Probe where
  "sample_probe3 = \<lparr> PB_HTTPGet = None, PB_TCPSocket = Some ''web'', PB_InitialDelaySeconds = 0, PB_TimeoutSeconds = 1,
     PB_PeriodSeconds = 10, PB_SuccessThreshold = 2, PB_FailureThreshold = 3 \<rparr>"

theorem readiness_hysteresis_witness:
  "RR_Ready (snd (observe (fold (\<lambda>x t. fst (observe t x (Some sample_probe3)))
      (map (\<lambda>b. \<lparr> RR_Ready = b, RR_Reason = ''r'' \<rparr>) [True, True, False]) new_tracker) \<lparr> RR_Ready = False, RR_Reason = ''r'' \<rparr> (Some sample_probe3)))"
proof -
  have t: "thresholds (Some sample_probe3) = (int 2, int 3)" by (simp add: thresholds_def sample_probe3_def)
  have "stably_ready 2 3 [True, True, False, False]"
    unfolding stably_ready_def
    by (rule exI [of _ "[]"], rule exI [of _ "[False, False]"])
      (simp add: numeral_eq_Suc sublist_Cons_right prefix_Cons)
  then show ?thesis
    using readiness_hysteresis [OF t, of "map (\<lambda>b. \<lparr> RR_Ready = b, RR_Reason = ''r'' \<rparr>) [True, True, False]" "\<lparr> RR_Ready = False, RR_Reason = ''r'' \<rparr>"]
    by simp
qed

definition quiet_input :: supervise_input where
  "quiet_input = \<lparr> SI_runs = replicate 3 \<lparr> SC_cancelled = False, SC_env = None, SC_network = Inr ([], ''127.0.0.1''), SC_probe = (\<lambda>_. ProbeOk),
       SC_start = (\<lambda>_. Inr (''e1'', ''x1'')), SC_events = [EventExit], SC_listen = (\<lambda>_. None), SC_withdraw = (\<lambda>_. None), SC_stopFails = 0,
       SC_outcome = \<lparr> OC_Kind = ProcessExited, OC_ExitCode = 1, OC_Signal = 0, OC_CoreDumped = False, OC_Error = [], OC_Detail = [] \<rparr>,
       SC_release = (\<lambda>_. []) \<rparr>,
     SI_cancelled = False, SI_backoff = BackoffTimer, SI_idle = IdleWaits, SI_text = (\<lambda>_. []) \<rparr>"

definition quiet_pillow :: PillowSpec where
  "quiet_pillow = empty_pillow\<lparr> PS_Name := ''app'', PS_Command := Some [''serve''], PS_RestartPolicy := ''on-failure'', PS_MaxRestarts := 1, PS_Required := True \<rparr>"

text \<open>With a budget of one restart and three failing executions the second one is the last, and the supervisor waits.\<close>

theorem supervise_gives_up_witness:
  "\<exists>ms' r'. supervise [quiet_input, quiet_input, quiet_input] \<lparr> GB_bed = 1, GB_id = ''b'', GB_ports = [] \<rparr> 0 pm_sample_registry (prepare_record quiet_pillow)
     = Some (Waiting, ms', r') \<and> gave_up quiet_pillow 2 r'
     \<and> supervise [quiet_input, quiet_input] \<lparr> GB_bed = 1, GB_id = ''b'', GB_ports = [] \<rparr> 0 pm_sample_registry (prepare_record quiet_pillow) = Some (Waiting, ms', r')"
proof -
  let ?sis = "[quiet_input, quiet_input, quiet_input]" and ?g = "\<lparr> GB_bed = 1, GB_id = ''b'', GB_ports = [] \<rparr>"
  have q: "\<forall>si \<in> set ?sis. no_request si \<and> ends_pass si"
    by (simp add: no_request_def ends_pass_def quiet_input_def ends_run_def)
  have m: "PR_spec (prepare_record quiet_pillow) = quiet_pillow" "PS_MaxRestarts quiet_pillow = 1" by (simp_all add: prepare_record_def quiet_pillow_def Let_def)
  have w: "map_option fst (supervise ?sis ?g 0 pm_sample_registry (prepare_record quiet_pillow)) = Some Waiting" by code_simp
  show ?thesis using supervise_gives_up [OF q, of ?g pm_sample_registry "prepare_record quiet_pillow"] w
    by (auto simp: m numeral_2_eq_2)
qed

end
