(* ===== verification/Pillow_Ports.thy ===== *)
theory Pillow_Ports
  imports Pillow_Runtime
begin

text \<open>
  The composition of the pillow runtime with the registry of port mappings and the port allocator: what
  one execution of a pillow (\<open>run\<close> in \<open>src/internal/bed/pillow/supervision.go\<close>) reserves, publishes and
  releases. The theory follows the mappings that a \<open>run\<close> owns through its calls and shows that it gives all
  of them back, on every path.
\<close>

section \<open>The ports of an execution\<close>

abbreviation live_ports :: "registry \<Rightarrow> nat set" where
  "live_ports ms \<equiv> set (live (MS_ports ms))"

text \<open>
  \<open>owns ms0 ms ps\<close>: since \<open>ms0\<close> the mappings \<open>ps\<close> were reserved and only they were touched; the allocations
  that are live now and were not live then are the ones they own.
\<close>

definition owns :: "registry \<Rightarrow> registry \<Rightarrow> nat list \<Rightarrow> bool" where
  "owns ms0 ms ps \<longleftrightarrow>
     registry_ok ms \<and> length (MS_heap ms0) \<le> length (MS_heap ms)
     \<and> set ps = {length (MS_heap ms0)..<length (MS_heap ms)}
     \<and> (\<forall>q < length (MS_heap ms0). mapping ms q = mapping ms0 q)
     \<and> (\<forall>k q. q < length (MS_heap ms0) \<longrightarrow> (map_of (MS_beds ms) k = Some q \<longleftrightarrow> map_of (MS_beds ms0) k = Some q))
     \<and> live_ports ms = live_ports ms0 \<union> (\<Union>p \<in> set ps. held (mapping ms p))
     \<and> (\<forall>p \<in> set ps. held (mapping ms p) \<inter> live_ports ms0 = {})"

definition gone :: "registry \<Rightarrow> nat \<Rightarrow> bool" where
  "gone ms p \<longleftrightarrow> MP_state (mapping ms p) = ''released'' \<and> (\<forall>k. map_of (MS_beds ms) k \<noteq> Some p)"

abbreviation touched :: "nat \<Rightarrow> registry \<Rightarrow> registry \<Rightarrow> bool" where
  "touched \<equiv> touches (\<lambda>m. set (live m))"

lemma owns_start: "registry_ok ms \<Longrightarrow> owns ms ms []"
  by (simp add: owns_def)

lemma owns_ok: "owns ms0 ms ps \<Longrightarrow> registry_ok ms"
  by (simp add: owns_def)

lemma owns_range: "owns ms0 ms ps \<Longrightarrow> p \<in> set ps \<Longrightarrow> p < length (MS_heap ms)"
  by (simp add: owns_def)

lemma owns_touch:
  assumes o: "owns ms0 ms ps" and p: "p \<in> set ps" and t: "touched p ms ms'" and ok: "registry_ok ms'"
  shows "owns ms0 ms' ps"
proof -
  have lt: "p < length (MS_heap ms)" and ge: "length (MS_heap ms0) \<le> p" using o p by (auto simp: owns_def)
  have live: "live_ports ms = live_ports ms0 \<union> (\<Union>q \<in> set ps. held (mapping ms q))" using o by (simp add: owns_def)
  have same: "mapping ms' q = mapping ms q" if "q \<noteq> p" for q using t that by (simp add: touches_def)
  have disj: "held (mapping ms q) \<inter> held (mapping ms p) = {}" if "q \<in> set ps" "q \<noteq> p" for q
    using carrier_ports.wf_disjoint [OF owns_ok [OF o, unfolded registry_ok_def] owns_range [OF o that(1)] lt that(2)] .
  have live0: "held (mapping ms p) \<inter> live_ports ms0 = {}" using o p by (simp add: owns_def)
  have new: "live_ports ms' = (live_ports ms - held (mapping ms p)) \<union> held (mapping ms' p)"
    "held (mapping ms' p) \<inter> (live_ports ms - held (mapping ms p)) = {}"
    using t by (auto simp: touches_def)
  have rest: "(\<Union>q \<in> set ps - {p}. held (mapping ms' q)) = (\<Union>q \<in> set ps - {p}. held (mapping ms q))"
    using same by auto
  have "live_ports ms - held (mapping ms p) = live_ports ms0 \<union> (\<Union>q \<in> set ps - {p}. held (mapping ms q))"
    using live live0 disj p by blast
  then have live': "live_ports ms' = live_ports ms0 \<union> (\<Union>q \<in> set ps. held (mapping ms' q))"
    unfolding new(1) using rest p by blast
  have h1: "held (mapping ms' p) \<inter> live_ports ms0 = {}" using new(2) live live0 by blast
  have "held (mapping ms' q) \<inter> live_ports ms0 = {}" if "q \<in> set ps" "q \<noteq> p" for q
    using o that by (simp add: owns_def same)
  with h1 have h: "\<forall>q \<in> set ps. held (mapping ms' q) \<inter> live_ports ms0 = {}" by blast
  have len: "length (MS_heap ms') = length (MS_heap ms)" using t by (simp add: touches_def)
  have old: "\<forall>q < length (MS_heap ms0). mapping ms' q = mapping ms0 q"
  proof (intro allI impI)
    fix q assume q: "q < length (MS_heap ms0)"
    with ge same [of q] have "mapping ms' q = mapping ms q" by simp
    with o q show "mapping ms' q = mapping ms0 q" by (simp add: owns_def)
  qed
  have reg: "\<forall>k q. q < length (MS_heap ms0) \<longrightarrow> (map_of (MS_beds ms') k = Some q \<longleftrightarrow> map_of (MS_beds ms0) k = Some q)"
  proof (intro allI impI)
    fix k q assume q: "q < length (MS_heap ms0)"
    with ge have "q \<noteq> p" by simp
    with t have "map_of (MS_beds ms') k = Some q \<longleftrightarrow> map_of (MS_beds ms) k = Some q" unfolding touches_def by blast
    also have "\<dots> \<longleftrightarrow> map_of (MS_beds ms0) k = Some q" using o q unfolding owns_def by blast
    finally show "map_of (MS_beds ms') k = Some q \<longleftrightarrow> map_of (MS_beds ms0) k = Some q" .
  qed
  have rng: "length (MS_heap ms0) \<le> length (MS_heap ms')" "set ps = {length (MS_heap ms0)..<length (MS_heap ms')}"
    using o len by (simp_all add: owns_def)
  show ?thesis unfolding owns_def by (intro conjI; fact)
qed

lemma touch_gone: "touched p ms ms' \<Longrightarrow> gone ms q \<Longrightarrow> q \<noteq> p \<Longrightarrow> gone ms' q"
  by (auto simp: gone_def touches_def)

lemma Bind_owns: "owns ms0 ms ps \<Longrightarrow> p \<in> set ps \<Longrightarrow> owns ms0 (BindMapping ms p execution) ps"
  using owns_touch [OF _ _ carrier_ports.Bind_touches] carrier_ports.Bind_wf owns_ok owns_range
  unfolding registry_ok_def by metis

lemma Publish_owns:
  "owns ms0 ms ps \<Longrightarrow> p \<in> set ps \<Longrightarrow> owns ms0 (snd (PublishMapping Confirm (NewTCPForwarder lsn) alloc_port ms p bedid)) ps"
  using owns_touch [OF _ _ carrier_ports.Publish_touches] carrier_ports.Publish_wf owns_ok owns_range
  unfolding registry_ok_def by metis

lemma Withdraw_owns: "owns ms0 ms ps \<Longrightarrow> p \<in> set ps \<Longrightarrow> owns ms0 (snd (WithdrawMapping (ReleasePort err) ms p)) ps"
  using owns_touch [OF _ _ carrier_ports.Withdraw_touches] carrier_ports.Withdraw_wf owns_ok owns_range
  unfolding registry_ok_def by metis

lemma bind_each_owns: "owns ms0 ms ps \<Longrightarrow> set qs \<subseteq> set ps \<Longrightarrow> owns ms0 (bind_each execution qs ms) ps"
  unfolding bind_each_def by (induction qs arbitrary: ms) (auto intro: Bind_owns)

lemma publish_each_owns: "owns ms0 ms ps \<Longrightarrow> set qs \<subseteq> set ps \<Longrightarrow> owns ms0 (snd (publish_each lsn bedid qs ms)) ps"
proof (induction qs arbitrary: ms)
  case (Cons q qs)
  obtain r ms1 where p: "PublishMapping Confirm (NewTCPForwarder lsn) alloc_port ms q bedid = (r, ms1)" by fastforce
  with Publish_owns [OF Cons.prems(1), of q lsn bedid] Cons.prems(2) have "owns ms0 ms1 ps" by simp
  with Cons p show ?case by (cases r) auto
qed simp

lemma withdraw_each_owns: "owns ms0 ms ps \<Longrightarrow> set qs \<subseteq> set ps \<Longrightarrow> owns ms0 (snd (withdraw_each errs qs ms)) ps"
proof (induction qs arbitrary: ms)
  case (Cons q qs)
  obtain r ms1 where p: "WithdrawMapping (ReleasePort (errs q)) ms q = (r, ms1)" by fastforce
  with Withdraw_owns [OF Cons.prems(1), of q "errs q"] Cons.prems(2) have "owns ms0 ms1 ps" by simp
  with Cons p show ?case by (cases "withdraw_each errs qs ms1") fastforce
qed simp

lemma run_loop_owns:
  "run_loop sc bedid ps t published es ms r = Some (res, ms', r') \<Longrightarrow> owns ms0 ms ps \<Longrightarrow> owns ms0 ms' ps"
proof (induction es arbitrary: t published ms r)
  case (Cons e es)
  show ?case
  proof (cases e)
    case (EventTick inspect reach meanwhile)
    have pub: "owns ms0 (snd (publish_each (SC_listen sc) bedid ps ms)) ps"
      using Cons.prems(2) by (rule publish_each_owns) simp
    from Cons.prems(1) [unfolded EventTick] show ?thesis
    proof (cases rule: run_loop_tick)
      case ends
      then show ?thesis using pub Cons.prems(2) by auto
    next
      case (goes_on t1 pub' ms1 fn)
      with Cons.IH [OF goes_on(1)] pub Cons.prems(2) show ?thesis by auto
    qed
  qed (use Cons.prems in auto)
qed simp

lemma Reserve_result:
  assumes ok: "registry_ok ms"
    and r: "ReserveMapping (Reserve probe) alloc_port ms b bedid declared name pillow scope host = (Inr p, ms')"
  shows "p = length (MS_heap ms) \<and> (\<exists>x a. MS_heap ms' = MS_heap ms @ [x] \<and> held x = {a} \<and> a \<notin> live_ports ms
    \<and> live_ports ms' = insert a (live_ports ms) \<and> (\<exists>k. map_of (MS_beds ms) k = None \<and> map_of (MS_beds ms') = (map_of (MS_beds ms))(k \<mapsto> p)))"
proof -
  let ?find = "if name = [] then None else List.find (\<lambda>s. PP_Name s = name) declared"
  obtain spec where spec: "?find = Some spec"
    using r by (cases ?find) (simp_all only: ReserveMapping_def option.case prod.inject sum.distinct simp_thms)
  obtain q m where rs: "Reserve probe (MS_ports ms) (bedid @ ''/port/'' @ name) scope
      (join_host_port (listen_host scope spec) (itoa (PP_ContainerPort spec))) = (q, m)" by fastforce
  have new: "MS_available ms" "map_of (MS_beds ms) (b, name) = None"
    using r by (auto simp: ReserveMapping_def spec simp del: if_split split: if_split_asm)
  then obtain a where a: "q = Inr a" using r rs by (cases q) (simp_all add: ReserveMapping_def spec)
  have good: "ports_ok (MS_ports ms)" using carrier_ports.wf_good ok unfolding registry_ok_def by blast
  note l = carrier_ports.rsv_ok [OF good rs [unfolded a]]
  have fresh: "a \<notin> live_ports ms" using l ports_ok_live [OF good] by blast
  let ?x = "\<lparr> MP_bed = b, MP_spec = spec, MP_allocation = a, MP_forward = None,
      MP_probeAddress = join_host_port host (itoa (alloc_port m a)), MP_pillow = pillow, MP_private = (scope \<noteq> []),
      MP_state = ''reserved'', MP_bedPort = alloc_port m a, MP_hostPort = 0, MP_execution = [] \<rparr>"
  have e: "p = length (MS_heap ms)"
    "ms' = ms\<lparr>MS_ports := m, MS_heap := MS_heap ms @ [?x], MS_beds := al_put (b, name) (length (MS_heap ms)) (MS_beds ms)\<rparr>"
    using r rs new a by (auto simp: ReserveMapping_def spec Let_def)
  have "held ?x = {a}" by (simp add: held_def)
  moreover have "live_ports ms' = insert a (live_ports ms)" using e(2) l by simp
  moreover have "map_of (MS_beds ms') = (map_of (MS_beds ms))((b, name) \<mapsto> p)" using e by simp
  moreover have "MS_heap ms' = MS_heap ms @ [?x]" using e(2) by simp
  ultimately show ?thesis using e(1) fresh new(2) by blast
qed

lemma Reserve_failed:
  assumes ok: "registry_ok ms"
    and r: "ReserveMapping (Reserve probe) alloc_port ms b bedid declared name pillow scope host = (Inl e, ms')"
  shows "MS_heap ms' = MS_heap ms \<and> MS_beds ms' = MS_beds ms \<and> live_ports ms' = live_ports ms"
proof -
  let ?find = "if name = [] then None else List.find (\<lambda>s. PP_Name s = name) declared"
  have good: "ports_ok (MS_ports ms)" using carrier_ports.wf_good ok unfolding registry_ok_def by blast
  note l = carrier_ports.rsv_err [OF good]
  show ?thesis
  proof (cases "ms' = ms")
    case False
    then obtain spec where spec: "?find = Some spec"
      using r by (cases ?find) (simp_all only: ReserveMapping_def option.case prod.inject simp_thms)
    obtain q m where rs: "Reserve probe (MS_ports ms) (bedid @ ''/port/'' @ name) scope
        (join_host_port (listen_host scope spec) (itoa (PP_ContainerPort spec))) = (q, m)" by fastforce
    obtain e' where "q = Inl e'" and e: "ms' = ms\<lparr>MS_ports := m\<rparr>"
      using r rs False by (cases q) (auto simp: ReserveMapping_def spec Let_def split: if_splits)
    with rs have "set (live m) = live_ports ms" using l by blast
    then show ?thesis unfolding e by simp
  qed simp
qed

lemma Reserve_owns:
  assumes o: "owns ms0 ms ps"
    and r: "ReserveMapping (Reserve probe) alloc_port ms b bedid declared name pillow scope host = (Inr p, ms')"
  shows "owns ms0 ms' (ps @ [p])"
proof -
  obtain x a k where x: "p = length (MS_heap ms)" "MS_heap ms' = MS_heap ms @ [x]" "held x = {a}" "a \<notin> live_ports ms"
      "live_ports ms' = insert a (live_ports ms)" "map_of (MS_beds ms) k = None" "map_of (MS_beds ms') = (map_of (MS_beds ms))(k \<mapsto> p)"
    using Reserve_result [OF owns_ok [OF o] r] by blast
  have ok: "registry_ok ms'"
    using mappings_step_ok [OF mappings_step.reserved owns_ok [OF o]] r by (metis snd_conv)
  have len: "length (MS_heap ms0) \<le> length (MS_heap ms)" and ps: "set ps = {length (MS_heap ms0)..<length (MS_heap ms)}"
    using o by (simp_all add: owns_def)
  have old: "mapping ms' q = mapping ms q" if "q < length (MS_heap ms)" for q using that x(2) by (simp add: nth_append)
  have new: "mapping ms' p = x" using x(1,2) by simp
  have held: "(\<Union>q \<in> set (ps @ [p]). held (mapping ms' q)) = insert a (\<Union>q \<in> set ps. held (mapping ms q))"
    using old new x(3) ps by auto
  have sub: "live_ports ms0 \<subseteq> live_ports ms" using o by (simp add: owns_def)
  have rng: "length (MS_heap ms0) \<le> length (MS_heap ms')" "set (ps @ [p]) = {length (MS_heap ms0)..<length (MS_heap ms')}"
    using x(1,2) len ps by auto
  have old0: "\<forall>q < length (MS_heap ms0). mapping ms' q = mapping ms0 q"
    using o old len by (simp add: owns_def)
  have reg: "\<forall>k q. q < length (MS_heap ms0) \<longrightarrow> (map_of (MS_beds ms') k = Some q \<longleftrightarrow> map_of (MS_beds ms0) k = Some q)"
  proof (intro allI impI)
    fix j q assume q: "q < length (MS_heap ms0)"
    then have "q \<noteq> p" using x(1) len by simp
    then have "map_of (MS_beds ms') j = Some q \<longleftrightarrow> map_of (MS_beds ms) j = Some q" using x(6,7) by (cases "j = k") auto
    also have "\<dots> \<longleftrightarrow> map_of (MS_beds ms0) j = Some q" using o q unfolding owns_def by blast
    finally show "map_of (MS_beds ms') j = Some q \<longleftrightarrow> map_of (MS_beds ms0) j = Some q" .
  qed
  have live: "live_ports ms' = live_ports ms0 \<union> (\<Union>q \<in> set (ps @ [p]). held (mapping ms' q))"
    unfolding held x(5) using o by (simp add: owns_def)
  have disj: "\<forall>q \<in> set (ps @ [p]). held (mapping ms' q) \<inter> live_ports ms0 = {}"
  proof
    fix q assume "q \<in> set (ps @ [p])"
    then consider "q = p" | "q \<in> set ps" by auto
    then show "held (mapping ms' q) \<inter> live_ports ms0 = {}"
    proof cases
      case 1
      then show ?thesis using new x(3,4) sub by auto
    next
      case 2
      then have "held (mapping ms q) \<inter> live_ports ms0 = {}" using o by (simp add: owns_def)
      moreover have "q < length (MS_heap ms)" using 2 ps by simp
      ultimately show ?thesis using old by simp
    qed
  qed
  show ?thesis unfolding owns_def by (intro conjI; fact)
qed

lemma owns_failed:
  assumes o: "owns ms0 ms ps"
    and r: "ReserveMapping (Reserve probe) alloc_port ms b bedid declared name pillow scope host = (Inl e, ms')"
  shows "owns ms0 ms' ps"
proof -
  note f = Reserve_failed [OF owns_ok [OF o] r]
  have "registry_ok ms'" using mappings_step_ok [OF mappings_step.reserved owns_ok [OF o]] r by (metis snd_conv)
  with o f show ?thesis unfolding owns_def by simp
qed

lemma reserve_each_owns:
  "reserve_each probe g pillow scope host ports ps ms = (ps', err, ms') \<Longrightarrow> owns ms0 ms ps \<Longrightarrow> owns ms0 ms' ps'"
proof (induction ports arbitrary: ps ms)
  case (Cons port ports)
  obtain r ms1 where r: "ReserveMapping (Reserve probe) alloc_port ms (GB_bed g) (GB_id g) (GB_ports g) (PP_Name port) pillow scope host = (r, ms1)"
    by fastforce
  show ?case
  proof (cases r)
    case (Inl e)
    with Cons.prems r owns_failed [OF Cons.prems(2) r [unfolded Inl]] show ?thesis by simp
  next
    case (Inr p)
    with Cons r Reserve_owns [OF Cons.prems(2) r [unfolded Inr]] show ?thesis by simp
  qed
qed simp

lemma reservePorts_owns:
  assumes "reservePorts probe net g r ms = (ps, err, ms', r')" and "registry_ok ms"
  shows "owns ms ms' ps"
  using assms(1) reserve_each_owns [OF _ owns_start [OF assms(2)]] owns_start [OF assms(2)]
  by (auto simp: reservePorts_def split: if_splits sum.splits prod.splits)

section \<open>Releasing\<close>

text \<open>A try without a listener error succeeds.\<close>

lemma release_without_error: "is_ok (fst (ReleaseMapping (ReleasePort None) ms p))"
proof -
  have r: "fst (ReleasePort None m a) = Inr ()" for m a by (auto simp: ReleasePort_def)
  have w: "is_ok (fst (WithdrawMapping (ReleasePort None) ms p))"
  proof (cases "MP_forward (mapping ms p)")
    case (Some f)
    then show ?thesis using r [of "MS_ports ms" f]
      by (cases "ReleasePort None (MS_ports ms) f") (simp add: WithdrawMapping_def Let_def)
  qed (simp add: WithdrawMapping_def Let_def)
  have a: "is_ok (fst (release_allocation (ReleasePort None) ms1 p))" for ms1 :: registry
    using r [of "MS_ports ms1" "MP_allocation (mapping ms1 p)"]
    by (cases "ReleasePort None (MS_ports ms1) (MP_allocation (mapping ms1 p))") (simp add: release_allocation_def)
  obtain u ms1 where "WithdrawMapping (ReleasePort None) ms p = (Inr u, ms1)" using w by (metis is_ok_iff prod.collapse)
  moreover obtain v ms2 where "release_allocation (ReleasePort None) ms1 p = (Inr v, ms2)" using a by (metis is_ok_iff prod.collapse)
  ultimately show ?thesis by (simp add: ReleaseMapping_def)
qed

lemma Release_owns:
  assumes o: "owns ms0 ms ps" and p: "p \<in> set ps" and r: "ReleaseMapping (ReleasePort err) ms p = (res, ms')"
  shows "owns ms0 ms' ps \<and> (is_ok res \<longrightarrow> gone ms' p) \<and> (\<forall>q. gone ms q \<longrightarrow> q \<noteq> p \<longrightarrow> gone ms' q)"
proof -
  note e = carrier_ports.Release_effect [OF owns_ok [OF o, unfolded registry_ok_def] owns_range [OF o p], of err, unfolded r]
  then have t: "touched p ms ms'" and ok: "registry_ok ms'" and g: "is_ok res \<Longrightarrow> gone ms' p"
    by (simp_all add: registry_ok_def gone_def)
  from owns_touch [OF o p t ok] g touch_gone [OF t] show ?thesis by blast
qed

lemma release_until_owns:
  "owns ms0 ms ps \<Longrightarrow> p \<in> set ps \<Longrightarrow> release_until fails ms p r = (ms', r') \<Longrightarrow>
     owns ms0 ms' ps \<and> gone ms' p \<and> (\<forall>q. gone ms q \<longrightarrow> gone ms' q)"
proof (induction fails arbitrary: ms r)
  case Nil
  obtain res ms1 where r: "ReleaseMapping (ReleasePort None) ms p = (res, ms1)" by fastforce
  with release_without_error [of ms p] Release_owns [OF Nil.prems(1,2) r] Nil.prems(3) show ?case by auto
next
  case (Cons err fails)
  obtain res ms1 where r: "ReleaseMapping (ReleasePort err) ms p = (res, ms1)" by fastforce
  note o = Release_owns [OF Cons.prems(1,2) r]
  show ?case
  proof (cases res)
    case (Inr u)
    with Cons.prems(3) r o show ?thesis by auto
  next
    case (Inl e)
    then have "release_until fails ms1 p (update (\<lambda>s. s\<lparr>ST_Reason := ''PortCleanupPending''\<rparr>) r) = (ms', r')"
      using Cons.prems(3) r by simp
    from Cons.IH [OF conjunct1 [OF o] Cons.prems(2) this] o show ?thesis by metis
  qed
qed

lemma release_each_owns:
  "owns ms0 ms ps \<Longrightarrow> set qs \<subseteq> set ps \<Longrightarrow> release_each fails qs ms r = (ms', r') \<Longrightarrow>
     owns ms0 ms' ps \<and> (\<forall>q. q \<in> set qs \<or> gone ms q \<longrightarrow> gone ms' q)"
proof (induction qs arbitrary: ms r)
  case (Cons p qs)
  obtain ms1 r1 where r: "release_until (fails p) ms p r = (ms1, r1)" by fastforce
  have o: "owns ms0 ms1 ps \<and> gone ms1 p \<and> (\<forall>q. gone ms q \<longrightarrow> gone ms1 q)"
    using release_until_owns [OF Cons.prems(1) _ r] Cons.prems(2) by simp
  have "release_each fails qs ms1 r1 = (ms', r')" using Cons.prems(3) r by simp
  with Cons.IH [of ms1 r1] o Cons.prems(2) show ?case by simp
qed simp

text \<open>When all of them are gone, the registry and the allocator are as before.\<close>

definition restored :: "registry \<Rightarrow> registry \<Rightarrow> bool" where
  "restored ms ms' \<longleftrightarrow> registry_ok ms' \<and> live_ports ms' = live_ports ms \<and> map_of (MS_beds ms') = map_of (MS_beds ms)
     \<and> length (MS_heap ms) \<le> length (MS_heap ms') \<and> (\<forall>q < length (MS_heap ms). mapping ms' q = mapping ms q)"

lemma owns_all_gone:
  assumes o: "owns ms0 ms ps" and g: "\<forall>p \<in> set ps. gone ms p" and ok0: "registry_ok ms0"
  shows "restored ms0 ms"
proof -
  have "held (mapping ms p) = {}" if "p \<in> set ps" for p using g that by (simp add: gone_def held_def)
  then have live: "live_ports ms = live_ports ms0" using o by (simp add: owns_def)
  have known: "map_of (MS_beds m) k = Some q \<Longrightarrow> q < length (MS_heap m)" if "registry_ok m" for m k q
    using that unfolding registry_ok_def mappings_ok_def by blast
  have "map_of (MS_beds ms) k = Some q \<longleftrightarrow> map_of (MS_beds ms0) k = Some q" for k q
  proof (cases "q < length (MS_heap ms0)")
    case True
    then show ?thesis using o unfolding owns_def by blast
  next
    case False
    then have "map_of (MS_beds ms0) k \<noteq> Some q" using known [OF ok0] by blast
    moreover have "map_of (MS_beds ms) k \<noteq> Some q"
    proof
      assume a: "map_of (MS_beds ms) k = Some q"
      then have "q \<in> set ps" using known [OF owns_ok [OF o]] False o by (simp add: owns_def)
      with g a show False unfolding gone_def by blast
    qed
    ultimately show ?thesis by simp
  qed
  then have "map_of (MS_beds ms) = map_of (MS_beds ms0)" by (metis ext not_Some_eq)
  with o live show ?thesis by (simp add: restored_def owns_def)
qed

lemma releasePorts_restores:
  assumes "owns ms0 ms ps" and "registry_ok ms0" and "releasePorts fails ps ms r = (ms', r')"
  shows "restored ms0 ms' \<and> PR_mappings r' = []"
proof -
  obtain ms1 r1 where r: "release_each fails ps ms r = (ms1, r1)" by fastforce
  with assms(3) have "ms' = ms1" "PR_mappings r' = []" by (auto simp: releasePorts_def)
  with release_each_owns [OF assms(1) order.refl r] owns_all_gone [OF _ _ assms(2)] show ?thesis by blast
qed

lemma run_process_owns:
  assumes "run_process sc g ps proc ms r = Some (res, ms', r')" and "owns ms0 ms ps"
  shows "owns ms0 ms' ps"
proof -
  let ?fn = "\<lambda>s. s\<lparr>ST_Phase := ''running'', ST_ExecutionID := fst proc, ST_ExecutorID := snd proc, ST_Outcome := None\<rparr>"
  obtain ex oc err ms2 r2 where l: "run_loop sc (GB_id g) ps new_tracker False (SC_events sc) (bind_each (fst proc) ps ms) (update ?fn r)
      = Some ((ex, oc, err), ms2, r2)"
    using assms(1) by (auto simp: run_process_def Let_def split: option.splits)
  obtain werr ms3 where w: "withdraw_each (SC_withdraw sc) ps ms2 = (werr, ms3)" by fastforce
  have "owns ms0 ms2 ps" using run_loop_owns [OF l] bind_each_owns [OF assms(2)] by blast
  with withdraw_each_owns [of ms0 ms2 ps ps "SC_withdraw sc"] w have "owns ms0 ms3 ps" by simp
  moreover have "ms' = ms3" using assms(1) l w by (auto simp: run_process_def stop_process_def Let_def)
  ultimately show ?thesis by simp
qed

lemma run_restores:
  assumes run: "run sc g ms r = Some (res, ms', r')" and ok: "registry_ok ms" and fresh: "PR_mappings r = []"
  shows "restored ms ms' \<and> PR_mappings r' = []"
  using run
proof (cases rule: run_cases)
  case (early fn)
  then show ?thesis using ok fresh by (auto simp: restored_def)
next
  case (ports ps err ms1 r1 ms2 r2)
  have o: "owns ms ms1 ps" by (rule reservePorts_owns [OF ports(1) ok])
  then have "owns ms ms2 ps" using ports(3) run_process_owns by blast
  from releasePorts_restores [OF this ok ports(2)] show ?thesis .
qed

lemma restored_refl: "registry_ok ms \<Longrightarrow> restored ms ms"
  by (simp add: restored_def)

lemma restored_trans: "restored ms ms1 \<Longrightarrow> restored ms1 ms2 \<Longrightarrow> restored ms ms2"
  by (simp add: restored_def)

lemma restored_ok: "restored ms ms' \<Longrightarrow> registry_ok ms'"
  by (simp add: restored_def)

lemma attempts_restores:
  "attempts n scs g res0 ms r = Some (res, ms', r') \<Longrightarrow> registry_ok ms \<Longrightarrow> PR_mappings r = [] \<Longrightarrow>
     restored ms ms' \<and> PR_mappings r' = []"
proof (induction n arbitrary: scs res0 ms r)
  case 0
  then show ?case by (simp add: restored_refl)
next
  case (Suc n)
  then obtain sc scs' res1 ms1 r1 where s: "scs = sc # scs'" "run sc g ms r = Some (res1, ms1, r1)"
    by (cases scs) (auto split: option.splits)
  note one = run_restores [OF s(2) Suc.prems(2,3)]
  show ?case
  proof (cases "retryPortConflict (snd (snd res1)) (PR_spec r)")
    case False
    with Suc.prems(1) s one show ?thesis by auto
  next
    case True
    with Suc.prems(1) s have "attempts n scs' g res1 ms1 r1 = Some (res, ms', r')" by simp
    from Suc.IH [OF this] one restored_ok restored_trans show ?thesis by blast
  qed
qed

lemma supervise_pass_restores:
  assumes pass: "supervise_pass si g restarts ms r = Some (st, ms', r')" and ok: "registry_ok ms" and "PR_mappings r = []"
  shows "restored ms ms' \<and> PR_mappings r' = []"
proof -
  let ?r = "update (\<lambda>s. s\<lparr>ST_Phase := ''starting'', ST_Reason := [], ST_Restarts := restarts\<rparr>) r"
  obtain res ms1 r1 where a: "attempts 3 (SI_runs si) g (False, zero_outcome, []) ms ?r = Some (res, ms1, r1)"
    using pass by (auto simp: supervise_pass_def split: option.splits)
  have "restored ms ms1 \<and> PR_mappings r1 = []" using attempts_restores [OF a ok] assms(3) by simp
  moreover have "ms' = ms1 \<and> PR_mappings r' = PR_mappings r1"
    using pass a by (auto simp: supervise_pass_def Let_def split: if_splits backoff_wake.splits idle_wake.splits)
  ultimately show ?thesis by simp
qed

lemma supervise_restores:
  "supervise sis g restarts ms r = Some (st, ms', r') \<Longrightarrow> registry_ok ms \<Longrightarrow> PR_mappings r = [] \<Longrightarrow>
     restored ms ms' \<and> PR_mappings r' = []"
proof (induction sis arbitrary: restarts ms r)
  case Nil
  then show ?case by (auto simp: restored_refl)
next
  case (Cons si sis)
  then obtain st1 ms1 r1 where p: "supervise_pass si g restarts ms r = Some (st1, ms1, r1)"
    by (cases "supervise_pass si g restarts ms r") auto
  note one = supervise_pass_restores [OF p Cons.prems(2,3)]
  show ?case
  proof (cases st1)
    case Finished
    with Cons.prems(1) p one show ?thesis by auto
  next
    case Waiting
    with Cons.prems(1) p one show ?thesis by auto
  next
    case (Supervising n)
    with Cons.prems(1) p have "supervise sis g n ms1 r1 = Some (st, ms', r')" by simp
    from Cons.IH [OF this] one restored_ok restored_trans show ?thesis by blast
  qed
qed

section \<open>Property\<close>

text \<open>C25: the supervision of a pillow leaks no port. From any reachable state of the port registry, whenever
  the supervisor is between executions or has ended, after any number of executions, port conflicts,
  failing starts, failing cleanups and restarts, the live allocations of the port allocator and the
  registered mappings are those from before, no other mapping was touched, and the pillow holds none.\<close>

theorem supervise_leaks_no_port:
  assumes "registry_start ms0" and "mappings_step\<^sup>*\<^sup>* ms0 ms" and "PR_mappings r = []"
    and "supervise sis g restarts ms r = Some (st, ms', r')"
  shows "set (live (MS_ports ms')) = set (live (MS_ports ms)) \<and> map_of (MS_beds ms') = map_of (MS_beds ms)
    \<and> (\<forall>q < length (MS_heap ms). mapping ms' q = mapping ms q) \<and> PR_mappings r' = []"
  using supervise_restores [OF assms(4) port_registry.inv_reachable [OF assms(1,2)] assms(3)] by (simp add: restored_def)

text \<open>A run in which the first port is taken by another process, and the retried process exits.\<close>

definition sample_port :: PillowPort where
  "sample_port = \<lparr> PP_Name = ''web'', PP_ContainerPort = 0, PP_Protocol = ''tcp'', PP_Dynamic = True, PP_Publish = True \<rparr>"

definition sample_probe :: Probe where
  "sample_probe = \<lparr> PB_HTTPGet = None, PB_TCPSocket = Some ''web'', PB_InitialDelaySeconds = 0, PB_TimeoutSeconds = 1,
     PB_PeriodSeconds = 10, PB_SuccessThreshold = 1, PB_FailureThreshold = 3 \<rparr>"

definition sample_process :: PillowSpec where
  "sample_process = empty_pillow\<lparr> PS_Name := ''app'', PS_Ports := [sample_port], PS_ReadinessProbe := Some sample_probe,
     PS_Command := Some [''serve'', ''${PORT}''], PS_RestartPolicy := ''always'', PS_MaxRestarts := 1 \<rparr>"

definition sample_script :: "string \<Rightarrow> run_event list \<Rightarrow> run_script" where
  "sample_script state es = \<lparr> SC_cancelled = False, SC_env = None, SC_network = Inr (''ns1'', ''10.0.0.2''), SC_probe = (\<lambda>_. ProbeOk),
     SC_start = (\<lambda>_. Inr (''e1'', ''x1'')),
     SC_events = EventTick (\<lambda>_. (\<lparr> LI_State = state, LI_Method = ''proc'', LI_Reason = [] \<rparr>, False)) \<lparr> RR_Ready = True, RR_Reason = [] \<rparr> StillRunning # es,
     SC_listen = (\<lambda>_. None), SC_withdraw = (\<lambda>_. Some ''busy''), SC_stopFails = 1,
     SC_outcome = \<lparr> OC_Kind = ProcessExited, OC_ExitCode = 0, OC_Signal = 0, OC_CoreDumped = False, OC_Error = [], OC_Detail = [] \<rparr>,
     SC_release = (\<lambda>_. [Some ''busy'']) \<rparr>"

definition sample_input :: supervise_input where
  "sample_input = \<lparr> SI_runs = [sample_script ''foreign'' [], sample_script ''owned'' [EventExit], sample_script ''owned'' [EventExit]],
     SI_cancelled = False, SI_backoff = BackoffTimer, SI_idle = IdleCancelled, SI_text = (\<lambda>_. ''failed'') \<rparr>"

definition sample_group :: group_bed where
  "sample_group = \<lparr> GB_bed = 1, GB_id = ''b1'', GB_ports = [sample_port] \<rparr>"

definition sample_supervised :: "(supervisor \<times> registry \<times> pillow_record) option" where
  "sample_supervised = supervise [sample_input, sample_input] sample_group 0 pm_sample_registry (prepare_record sample_process)"

lemma sample_supervised_finishes: "map_option fst sample_supervised = Some Finished"
  by code_simp

theorem supervise_leaks_no_port_witness: "set (live (MS_ports (fst (snd (the sample_supervised))))) = set (live (MS_ports pm_sample_registry))"
proof -
  obtain ms' r' where s: "sample_supervised = Some (Finished, ms', r')"
    using sample_supervised_finishes by (cases sample_supervised) auto
  have "PR_mappings (prepare_record sample_process) = []" by (simp add: prepare_record_def Let_def)
  from supervise_leaks_no_port [OF pm_sample_registry_start rtranclp.rtrancl_refl this s [unfolded sample_supervised_def]]
  show ?thesis by (simp add: s)
qed

end
