(* ===== verification/Pillow_Groups.thy ===== *)
theory Pillow_Groups
  imports Pillow_Runtime
begin

text \<open>
  The supervisors of a Bed's pillows as processes of their own (\<open>supervise\<close> and \<open>run\<close> of \<open>src/internal/bed/pillow/supervision.go\<close>), interleaved with the operations of the pillow manager
  (\<open>manager.go\<close>). A supervisor is a point of that code and the executions it has started and not yet seen stopped; its steps change its record by the very updates
  the code makes. The functions \<open>run\<close> and \<open>supervise\<close> of \<open>Pillow_Runtime\<close> are paths of these steps. Shown: a pillow has at most one process, a pillow
  that is ready has one, and a released group has none.
\<close>

section \<open>The points of a supervisor\<close>

text \<open>
  \<open>Top n\<close>: before a pass with \<open>n\<close> consumed restarts. \<open>Trying n k\<close>: before the try \<open>k\<close> of \<open>run\<close>. \<open>Launching n k\<close>: in \<open>run\<close>, before \<open>Start\<close> has answered. \<open>Launched n k e x\<close>: \<open>Start\<close>
  has returned the process \<open>e\<close> of the executor \<open>x\<close>. \<open>Watching n k e\<close>: in the loop that watches it. \<open>Stopping n k e\<close>: in the deferred cleanup, before
  \<open>Stop\<close> has succeeded. \<open>Releasing n k\<close>: in the deferred release of the ports. \<open>Ran n k\<close>: \<open>run\<close> has returned. \<open>BackingOff n\<close> and \<open>Idle\<close>: in the two selects of
  \<open>supervise\<close>. \<open>Returned\<close>: \<open>supervise\<close> has returned. Every branch of the code is a step with the status update the code makes there; which branch
  a channel, a probe, a call of the runtime or the result of \<open>run\<close> selects is left open, so the steps include all that the code can do.
\<close>

datatype sup_point = Top int | Trying int nat | Launching int nat | Launched int nat string string | Watching int nat string | Stopping int nat string
  | Releasing int nat | Ran int nat | BackingOff int | Idle | Returned

type_synonym sup = "sup_point \<times> string list"   \<comment> \<open>with the executions started and not yet stopped\<close>

inductive sup_step :: "sup \<times> pillow_record \<Rightarrow> sup \<times> pillow_record \<Rightarrow> bool" where
  begins: "sup_step ((Top n, es), r) ((Trying n 0, es), update (\<lambda>s. s\<lparr>ST_Phase := ''starting'', ST_Reason := [], ST_Restarts := n\<rparr>) r)"
| cancelled: "sup_step ((Trying n k, es), r) ((Ran n k, es), r)"
| enters: "sup_step ((Trying n k, es), r) ((Launching n k, es), update (\<lambda>s. s\<lparr>ST_Phase := ''starting'', ST_Listener := None\<rparr>) r)"
| unconfigured: "sup_step ((Launching n k, es), r) ((Ran n k, es), r)"
| reserves: "sup_step ((Launching n k, es), r) ((Launching n k, es), r\<lparr>PR_mappings := ps\<rparr>)"
| unstarted: "sup_step ((Launching n k, es), r) ((Releasing n k, es), r)"
| starts: "sup_step ((Launching n k, es), r) ((Launched n k e x, e # es), r)"
| watches: "sup_step ((Launched n k e x, es), r)
    ((Watching n k e, es), update (\<lambda>s. s\<lparr>ST_Phase := ''running'', ST_ExecutionID := e, ST_ExecutorID := x, ST_Outcome := None\<rparr>) r)"
| inspects: "sup_step ((Watching n k e, es), r) ((Watching n k e, es), update (\<lambda>s. s\<lparr>ST_Listener := l\<rparr>) r)"
| observes: "sup_step ((Watching n k e, es), r) ((Watching n k e, es), update (\<lambda>s. s\<lparr>ST_Ready := ready, ST_Reason := reason\<rparr>) r)"
| restarted: "sup_step ((Watching n k e, es), r) ((Stopping n k e, es), update (\<lambda>s. s\<lparr>ST_Phase := ''stopping''\<rparr>) (r\<lparr>PR_restart := False\<rparr>))"
| leaves: "sup_step ((Watching n k e, es), r) ((Stopping n k e, es), update (\<lambda>s. s\<lparr>ST_Phase := ''stopping''\<rparr>) r)"
| stop_fails: "sup_step ((Stopping n k e, es), r) ((Stopping n k e, es), update (\<lambda>s. s\<lparr>ST_Reason := ''ProcessCleanupPending''\<rparr>) r)"
| stops: "sup_step ((Stopping n k e, es), r) ((Releasing n k, remove1 e es), update (\<lambda>s. s\<lparr>ST_Outcome := Some oc\<rparr>) r)"
| release_fails: "sup_step ((Releasing n k, es), r) ((Releasing n k, es), update (\<lambda>s. s\<lparr>ST_Reason := ''PortCleanupPending''\<rparr>) r)"
| released: "sup_step ((Releasing n k, es), r) ((Ran n k, es), r\<lparr>PR_mappings := []\<rparr>)"
| retries: "k < 2 \<Longrightarrow> sup_step ((Ran n k, es), r) ((Trying n (Suc k), es), r)"
| returns: "sup_step ((Ran n k, es), r) ((Returned, es), (update (\<lambda>s. s\<lparr>ST_Phase := ''stopped''\<rparr>) r)\<lparr>PR_done := True\<rparr>)"
| explicit: "sup_step ((Ran n k, es), r) ((Top 0, es), r)"
| backs_off: "n < PS_MaxRestarts (PR_spec r) \<Longrightarrow>
    sup_step ((Ran n k, es), r) ((BackingOff (n + 1), es), update (\<lambda>s. s\<lparr>ST_Phase := ''backoff'', ST_Restarts := n + 1, ST_Reason := ''RestartScheduled''\<rparr>) r)"
| waits: "ph \<in> {''failed'', ''completed''} \<Longrightarrow>
    sup_step ((Ran n k, es), r) ((Idle, es), update (\<lambda>s. s\<lparr>ST_Phase := ph, ST_Reason := reason, ST_Outcome := Some oc\<rparr>) r)"
| backoff_ends: "sup_step ((BackingOff n, es), r) ((Top n, es), r)"
| backoff_restarted: "sup_step ((BackingOff n, es), r) ((Top 0, es), r\<lparr>PR_restart := False\<rparr>)"
| idle_restarted: "sup_step ((Idle, es), r) ((Top 0, es), r\<lparr>PR_restart := False\<rparr>)"
| idle_cancelled: "sup_step ((Idle, es), r) ((Returned, es), (update (\<lambda>s. s\<lparr>ST_Phase := ''stopped''\<rparr>) r)\<lparr>PR_done := True\<rparr>)"

section \<open>The functions are paths of these steps\<close>

lemma sup_path:
  assumes "sup_step\<^sup>*\<^sup>* a b" and "sup_step b c"
  shows "sup_step\<^sup>*\<^sup>* a c"
  using assms by (rule rtranclp.rtrancl_into_rtrancl)

lemma sup_one: "sup_step a b \<Longrightarrow> sup_step\<^sup>*\<^sup>* a b"
  by (rule r_into_rtranclp)

lemma sup_first: "sup_step a b \<Longrightarrow> sup_step\<^sup>*\<^sup>* b c \<Longrightarrow> sup_step\<^sup>*\<^sup>* a c"
  by (rule converse_rtranclp_into_rtranclp)

lemma sup_path_trans: "sup_step\<^sup>*\<^sup>* a b \<Longrightarrow> sup_step\<^sup>*\<^sup>* b c \<Longrightarrow> sup_step\<^sup>*\<^sup>* a c"
  by (rule rtranclp_trans)

lemma readinessCheck_path:
  assumes "readinessCheck inspect reach ms ps r = (c, r')"
  shows "sup_step\<^sup>*\<^sup>* ((Watching n k e, es), r) ((Watching n k e, es), r')"
proof -
  have "r' = r \<or> (\<exists>l. r' = update (\<lambda>s. s\<lparr>ST_Listener := l\<rparr>) r)"
    using assms unfolding readinessCheck_def by (auto simp: Let_def split: if_splits sum.splits prod.splits)
  then show ?thesis using sup_step.inspects by blast
qed

lemma run_loop_path:
  "run_loop sc bedid ps t published evs ms r = Some (res, ms', r') \<Longrightarrow>
     sup_step\<^sup>*\<^sup>* ((Watching n k e, es), r) ((Stopping n k e, es), update (\<lambda>s. s\<lparr>ST_Phase := ''stopping''\<rparr>) r')"
proof (induction evs arbitrary: t published ms r)
  case (Cons ev evs)
  show ?case
  proof (cases ev)
    case EventCancelled
    then show ?thesis using Cons.prems sup_step.leaves by auto
  next
    case EventRestart
    then show ?thesis using Cons.prems sup_step.restarted by auto
  next
    case EventExit
    then show ?thesis using Cons.prems sup_step.leaves by auto
  next
    case (EventTick inspect reach meanwhile)
    obtain c r1 where c: "readinessCheck inspect reach ms ps r = (c, r1)" by fastforce
    note path = readinessCheck_path [OF c, of n k e es]
    have leave: ?thesis if "r' = r1" using sup_path [OF path sup_step.leaves] that by simp
    show ?thesis
    proof (cases "(\<exists>x. c = Inl x) \<or> meanwhile \<noteq> StillRunning")
      case True
      then have "r' = r1" using Cons.prems EventTick c by (cases c; cases meanwhile) auto
      then show ?thesis by (rule leave)
    next
      case False
      then obtain result where result: "c = Inr result" "meanwhile = StillRunning" by (cases c) auto
      obtain t1 shown where o: "observe t result (PS_ReadinessProbe (PR_spec r1)) = (t1, shown)" by fastforce
      obtain err ms1 where pub: "publish_each (SC_listen sc) bedid ps ms = (err, ms1)" by fastforce
      let ?r = "update (\<lambda>s. s\<lparr>ST_Ready := RR_Ready shown, ST_Reason := RR_Reason shown\<rparr>) r1"
      show ?thesis
      proof (cases "RR_Ready shown \<and> \<not> published \<and> err \<noteq> []")
        case True
        then have "r' = r1" using Cons.prems EventTick c result o pub by (cases err) auto
        then show ?thesis by (rule leave)
      next
        case False
        then obtain pub' ms2 where rest: "run_loop sc bedid ps t1 pub' evs ms2 ?r = Some (res, ms', r')"
          using Cons.prems EventTick c result o pub by (auto simp: Let_def split: if_splits)
        show ?thesis using sup_path_trans [OF sup_path [OF path sup_step.observes] Cons.IH [OF rest]] .
      qed
    qed
  qed
qed simp

lemma run_process_path:
  assumes "run_process sc g ps proc ms r = Some (res, ms', r')"
  shows "sup_step\<^sup>*\<^sup>* ((Launching n k, []), r) ((Releasing n k, []), r')"
proof -
  obtain e x where proc: "proc = (e, x)" by fastforce
  let ?r1 = "update (\<lambda>s. s\<lparr>ST_Phase := ''running'', ST_ExecutionID := e, ST_ExecutorID := x, ST_Outcome := None\<rparr>) r"
  obtain res2 ms2 r2 where loop: "run_loop sc (GB_id g) ps new_tracker False (SC_events sc) (bind_each e ps ms) ?r1 = Some (res2, ms2, r2)"
    using assms proc by (auto simp: run_process_def Let_def split: option.splits)
  let ?r3 = "update (\<lambda>s. s\<lparr>ST_Phase := ''stopping''\<rparr>) r2"
  have r': "r' = update (\<lambda>s. s\<lparr>ST_Outcome := Some (SC_outcome sc)\<rparr>) (if SC_stopFails sc = 0 then ?r3 else update (\<lambda>s. s\<lparr>ST_Reason := ''ProcessCleanupPending''\<rparr>) ?r3)"
    using assms proc loop by (cases res2) (auto simp: run_process_def stop_process_def Let_def split: prod.splits)
  have "sup_step\<^sup>*\<^sup>* ((Launching n k, []), r) ((Watching n k e, [e]), ?r1)"
    by (rule sup_path [OF sup_one [OF sup_step.starts] sup_step.watches])
  then have "sup_step\<^sup>*\<^sup>* ((Launching n k, []), r) ((Stopping n k e, [e]), ?r3)" by (rule sup_path_trans) (rule run_loop_path [OF loop])
  then have "sup_step\<^sup>*\<^sup>* ((Launching n k, []), r)
      ((Stopping n k e, [e]), if SC_stopFails sc = 0 then ?r3 else update (\<lambda>s. s\<lparr>ST_Reason := ''ProcessCleanupPending''\<rparr>) ?r3)"
    using sup_path [OF _ sup_step.stop_fails] by simp
  from sup_path [OF this sup_step.stops, of "SC_outcome sc"] show ?thesis unfolding r' by simp
qed

lemma release_until_path:
  "release_until fails ms p r = (ms', r') \<Longrightarrow> sup_step\<^sup>*\<^sup>* ((Releasing n k, es), r) ((Releasing n k, es), r')"
proof (induction fails arbitrary: ms r)
  case (Cons f fails)
  then show ?case
    by (auto split: prod.splits sum.splits intro: sup_first [OF sup_step.release_fails])
qed simp

lemma release_each_path:
  "release_each fails ps ms r = (ms', r') \<Longrightarrow> sup_step\<^sup>*\<^sup>* ((Releasing n k, es), r) ((Releasing n k, es), r')"
proof (induction ps arbitrary: ms r)
  case (Cons p ps)
  obtain ms1 r1 where u: "release_until (fails p) ms p r = (ms1, r1)" by fastforce
  then have "release_each fails ps ms1 r1 = (ms', r')" using Cons.prems by simp
  from sup_path_trans [OF release_until_path [OF u] Cons.IH [OF this]] show ?case .
qed simp

lemma releasePorts_path:
  assumes "releasePorts fails ps ms r = (ms', r')"
  shows "sup_step\<^sup>*\<^sup>* ((Releasing n k, es), r) ((Ran n k, es), r')"
proof -
  obtain ms1 r1 where e: "release_each fails ps ms r = (ms1, r1)" by fastforce
  then have "r' = r1\<lparr>PR_mappings := []\<rparr>" using assms by (simp add: releasePorts_def)
  then show ?thesis using sup_path [OF release_each_path [OF e] sup_step.released] by simp
qed

lemma run_path:
  assumes "run sc g ms r = Some (res, ms', r')"
  shows "sup_step\<^sup>*\<^sup>* ((Trying n k, []), r) ((Ran n k, []), r')"
proof (cases "SC_cancelled sc")
  case True
  then show ?thesis using assms sup_step.cancelled by (auto simp: run_def)
next
  case False
  let ?r1 = "update (\<lambda>s. s\<lparr>ST_Phase := ''starting'', ST_Listener := None\<rparr>) r"
  have enter: "sup_step\<^sup>*\<^sup>* ((Trying n k, []), r) ((Launching n k, []), ?r1)" by (rule sup_one [OF sup_step.enters])
  show ?thesis
  proof (cases "SC_env sc")
    case (Some e)
    then show ?thesis using assms False sup_path [OF enter sup_step.unconfigured] by (auto simp: run_def Let_def)
  next
    case None
    obtain ps err ms1 r2 where rp: "reservePorts (SC_probe sc) (SC_network sc) g ?r1 ms = (ps, err, ms1, r2)"
      by (cases "reservePorts (SC_probe sc) (SC_network sc) g ?r1 ms") auto
    have "r2 = ?r1 \<or> (\<exists>qs. r2 = ?r1\<lparr>PR_mappings := qs\<rparr>)" using rp by (auto simp: reservePorts_def split: if_splits sum.splits prod.splits)
    then have reserved: "sup_step\<^sup>*\<^sup>* ((Trying n k, []), r) ((Launching n k, []), r2)" using sup_path [OF enter sup_step.reserves] enter by blast
    have "\<exists>r3 res1 ms2 ms3. sup_step\<^sup>*\<^sup>* ((Launching n k, []), r2) ((Releasing n k, []), r3) \<and> releasePorts (SC_release sc) ps ms2 r3 = (ms3, r')"
    proof (cases "err \<noteq> [] \<or> (\<exists>e. SC_start sc (portCommand ms1 (PR_spec r) ps) = Inl e)")
      case True
      then have "\<exists>ms3. releasePorts (SC_release sc) ps ms1 r2 = (ms3, r')"
        using assms False None rp by (auto simp: run_def Let_def split: if_splits prod.splits sum.splits)
      then show ?thesis using sup_step.unstarted by blast
    next
      case start: False
      then obtain proc where proc: "SC_start sc (portCommand ms1 (PR_spec r) ps) = Inr proc" by (cases "SC_start sc (portCommand ms1 (PR_spec r) ps)") auto
      then obtain res2 ms2 r3 where rn: "run_process sc g ps proc ms1 r2 = Some (res2, ms2, r3)"
        using assms False None rp start by (auto simp: run_def Let_def split: option.splits)
      then have "\<exists>ms3. releasePorts (SC_release sc) ps ms2 r3 = (ms3, r')"
        using assms False None rp start proc by (auto simp: run_def Let_def split: prod.splits)
      then show ?thesis using run_process_path [OF rn] by blast
    qed
    then show ?thesis using sup_path_trans [OF reserved] sup_path_trans releasePorts_path by metis
  qed
qed

lemma attempts_path:
  "attempts j scs g res0 ms r = Some (res, ms', r') \<Longrightarrow> 0 < j \<Longrightarrow> k + j \<le> 3 \<Longrightarrow> \<exists>k'. sup_step\<^sup>*\<^sup>* ((Trying n k, []), r) ((Ran n k', []), r')"
proof (induction j arbitrary: scs res0 ms r k)
  case (Suc j)
  then obtain sc scs' res1 ms1 r1 where sc: "scs = sc # scs'" "run sc g ms r = Some (res1, ms1, r1)"
    by (cases scs) (auto split: option.splits)
  note one = run_path [OF sc(2), of n k]
  show ?case
  proof (cases "retryPortConflict (snd (snd res1)) (PR_spec r) \<and> 0 < j")
    case True
    then have rest: "attempts j scs' g res1 ms1 r1 = Some (res, ms', r')" using Suc.prems(1) sc by simp
    have "k < 2" using True Suc.prems(3) by simp
    then have "sup_step\<^sup>*\<^sup>* ((Trying n k, []), r) ((Trying n (Suc k), []), r1)" by (rule sup_path [OF one sup_step.retries])
    moreover obtain k' where "sup_step\<^sup>*\<^sup>* ((Trying n (Suc k), []), r1) ((Ran n k', []), r')" using Suc.IH [OF rest, of "Suc k"] True Suc.prems(3) by auto
    ultimately show ?thesis using sup_path_trans by blast
  next
    case False
    then have "r' = r1" using Suc.prems(1) sc by (cases j) (auto split: if_splits)
    then show ?thesis using one by blast
  qed
qed simp

text \<open>The point at which a pass leaves the supervisor.\<close>

fun point_of :: "supervisor \<Rightarrow> sup_point" where
  "point_of (Supervising n) = Top n"
| "point_of Waiting = Idle"
| "point_of Finished = Returned"

lemma supervise_pass_path:
  assumes "supervise_pass si g n ms r = Some (st, ms', r')"
  shows "sup_step\<^sup>*\<^sup>* ((Top n, []), r) ((point_of st, []), if st = Finished then r'\<lparr>PR_done := True\<rparr> else r')"
proof -
  let ?r = "update (\<lambda>s. s\<lparr>ST_Phase := ''starting'', ST_Reason := [], ST_Restarts := n\<rparr>) r"
  obtain res ms1 r1 where a: "attempts 3 (SI_runs si) g (False, zero_outcome, []) ms ?r = Some (res, ms1, r1)"
    using assms by (auto simp: supervise_pass_def split: option.splits)
  obtain k where "sup_step\<^sup>*\<^sup>* ((Trying n 0, []), ?r) ((Ran n k, []), r1)" using attempts_path [OF a, of 0 n] by auto
  then have ran: "sup_step\<^sup>*\<^sup>* ((Top n, []), r) ((Ran n k, []), r1)" by (rule sup_first [OF sup_step.begins])
  have spec: "PR_spec r1 = PR_spec r" using attempts_spec [OF a] by simp
  let ?scheduled = "update (\<lambda>s. s\<lparr>ST_Phase := ''backoff'', ST_Restarts := n + 1, ST_Reason := ''RestartScheduled''\<rparr>) r1"
  let ?over = "update (\<lambda>s. s\<lparr>ST_Phase := (if failed_run res then ''failed'' else ''completed''),
      ST_Reason := (if snd (snd res) = [] then ''ProcessExited'' else SI_text si (snd (snd res))), ST_Outcome := Some (fst (snd res))\<rparr>) r1"
  consider "SI_cancelled si" | "\<not> SI_cancelled si" "fst res" | "\<not> SI_cancelled si" "\<not> fst res" "automatic_restart (PR_spec r) res" "n < PS_MaxRestarts (PR_spec r)"
    | "\<not> SI_cancelled si" "\<not> fst res" "\<not> (automatic_restart (PR_spec r) res \<and> n < PS_MaxRestarts (PR_spec r))" by blast
  then show ?thesis
  proof cases
    case 1
    then have "st = Finished" "r' = update (\<lambda>s. s\<lparr>ST_Phase := ''stopped''\<rparr>) r1" using assms a by (auto simp: supervise_pass_def)
    then show ?thesis using sup_path [OF ran sup_step.returns] by simp
  next
    case 2
    then have "st = Supervising 0" "r' = r1" using assms a by (auto simp: supervise_pass_def)
    then show ?thesis using sup_path [OF ran sup_step.explicit] by simp
  next
    case 3
    have backed: "sup_step\<^sup>*\<^sup>* ((Top n, []), r) ((BackingOff (n + 1), []), ?scheduled)"
      by (rule sup_path [OF ran sup_step.backs_off]) (use 3 spec in simp)
    show ?thesis
    proof (cases "SI_backoff si = BackoffRestart")
      case True
      then have "st = Supervising 0" "r' = ?scheduled\<lparr>PR_restart := False\<rparr>" using assms a 3 by (auto simp: supervise_pass_def)
      then show ?thesis using sup_path [OF backed sup_step.backoff_restarted] by simp
    next
      case False
      then have "st = Supervising (n + 1)" "r' = ?scheduled" using assms a 3 by (auto simp: supervise_pass_def Let_def split: backoff_wake.splits)
      then show ?thesis using sup_path [OF backed sup_step.backoff_ends] by simp
    qed
  next
    case 4
    have over: "sup_step\<^sup>*\<^sup>* ((Top n, []), r) ((Idle, []), ?over)" by (rule sup_path [OF ran sup_step.waits]) simp
    have "(st, ms', r') = (case SI_idle si of IdleCancelled \<Rightarrow> (Finished, ms1, update (\<lambda>s. s\<lparr>ST_Phase := ''stopped''\<rparr>) ?over)
        | IdleRestart \<Rightarrow> (Supervising 0, ms1, ?over\<lparr>PR_restart := False\<rparr>) | IdleWaits \<Rightarrow> (Waiting, ms1, ?over))"
      using assms a 4 by (simp add: supervise_pass_def Let_def)
    then show ?thesis
      using sup_path [OF over sup_step.idle_cancelled] sup_path [OF over sup_step.idle_restarted] over by (cases "SI_idle si") simp_all
  qed
qed

lemma supervise_path:
  "supervise sis g n ms r = Some (st, ms', r') \<Longrightarrow> sup_step\<^sup>*\<^sup>* ((Top n, []), r) ((point_of st, []), r')"
proof (induction sis arbitrary: n ms r)
  case (Cons si sis)
  obtain st1 ms1 r1 where p: "supervise_pass si g n ms r = Some (st1, ms1, r1)" using Cons.prems by (cases "supervise_pass si g n ms r") auto
  note path = supervise_pass_path [OF p]
  show ?case
  proof (cases st1)
    case (Supervising m)
    then have "supervise sis g m ms1 r1 = Some (st, ms', r')" using Cons.prems p by simp
    from sup_path_trans [OF _ Cons.IH [OF this]] show ?thesis using path Supervising by simp
  qed (use Cons.prems p path in auto)
qed auto

section \<open>One process at a time\<close>

text \<open>What holds of a supervisor and its record: which process there is, and what the status says.\<close>

definition sup_ok :: "sup \<Rightarrow> pillow_record \<Rightarrow> bool" where
  "sup_ok u r \<longleftrightarrow> (ST_Ready (PR_status r) \<longrightarrow> ST_Phase (PR_status r) = ''running'') \<and> (PR_done r \<longrightarrow> fst u = Returned) \<and>
     (case fst u of
        Launched n k e x \<Rightarrow> snd u = [e] \<and> ST_Phase (PR_status r) \<noteq> ''running''
      | Watching n k e \<Rightarrow> snd u = [e] \<and> ST_Phase (PR_status r) = ''running'' \<and> ST_ExecutionID (PR_status r) = e
      | Stopping n k e \<Rightarrow> snd u = [e] \<and> ST_Phase (PR_status r) \<noteq> ''running''
      | _ \<Rightarrow> snd u = [] \<and> ST_Phase (PR_status r) \<noteq> ''running'')"

lemma sup_ok_step:
  assumes "sup_step (u, r) (u', r')" and "sup_ok u r"
  shows "sup_ok u' r'"
  using assms by (cases rule: sup_step.cases) (auto simp: sup_ok_def update_def Let_def)

lemma sup_step_spec: "sup_step (u, r) (u', r') \<Longrightarrow> PR_spec r' = PR_spec r"
  by (cases rule: sup_step.cases) auto

lemma sup_step_cancelled: "sup_step (u, r) (u', r') \<Longrightarrow> PR_cancelled r' = PR_cancelled r"
  by (cases rule: sup_step.cases) auto

section \<open>The groups of all Beds\<close>

text \<open>The supervisors that \<open>PrepareBed\<close> starts: none for a pillow without a command.\<close>

definition start_sup :: "pillow_record \<Rightarrow> sup" where
  "start_sup r = (if pillow_command (PR_spec r) = [] then Returned else Top 0, [])"

definition all_done :: "PillowManager \<Rightarrow> nat \<Rightarrow> bool" where
  "all_done m b = (case map_of (PLM_groups m) b of None \<Rightarrow> True | Some g \<Rightarrow> list_all PR_done (PG_records g))"

text \<open>
  The manager with the supervisors of each Bed, in the order of its records. \<open>Release\<close> stops a group and deletes it once the \<open>done\<close> channels of all its records are closed; \<open>Close\<close> marks the
  manager and releases the groups one by one, which are steps of their own.
\<close>

inductive pillows_step :: "PillowManager \<times> (nat \<Rightarrow> sup list) \<Rightarrow> PillowManager \<times> (nat \<Rightarrow> sup list) \<Rightarrow> bool" where
  prepared: "register_group digest available m b specs = (Inr (), m') \<Longrightarrow> map_of (PLM_groups m') b = Some g \<Longrightarrow>
    pillows_step (m, us) (m', us(b := map start_sup (PG_records g)))"
| refused: "register_group digest available m b specs = (Inl e, m') \<Longrightarrow> pillows_step (m, us) (m', us)"
| supervised: "map_of (PLM_groups m) b = Some g \<Longrightarrow> i < length (PG_records g) \<Longrightarrow> pillow_command (PR_spec (PG_records g ! i)) \<noteq> [] \<Longrightarrow>
    sup_step (us b ! i, PG_records g ! i) (u, r) \<Longrightarrow>
    pillows_step (m, us) (m\<lparr>PLM_groups := al_put b (g\<lparr>PG_records := (PG_records g)[i := r]\<rparr>) (PLM_groups m)\<rparr>, us(b := (us b)[i := u]))"
| restarts: "pillows_step (m, us) (snd (RestartPillow m b name), us)"
| stopped: "pillows_step (m, us) (stopGroup m b, us)"
| releases: "(finished \<Longrightarrow> all_done m b) \<Longrightarrow> pillows_step (m, us) (snd (ReleasePillows finished m b), us)"
| closes: "pillows_step (m, us) (m\<lparr>PLM_closed := True\<rparr>, us)"

definition record_ok :: "sup \<Rightarrow> pillow_record \<Rightarrow> bool" where
  "record_ok u r \<longleftrightarrow>
     (if pillow_command (PR_spec r) = [] then u = (Returned, []) \<and> ST_Phase (PR_status r) = ''prepared'' \<and> ST_Ready (PR_status r) else sup_ok u r)"

definition group_ok :: "pillow_group \<Rightarrow> sup list \<Rightarrow> bool" where
  "group_ok g us \<longleftrightarrow> length us = length (PG_records g)
     \<and> (\<forall>i < length (PG_records g). record_ok (us ! i) (PG_records g ! i) \<and> (PG_stopped g \<longrightarrow> PR_cancelled (PG_records g ! i)))"

definition pillows_ok :: "PillowManager \<times> (nat \<Rightarrow> sup list) \<Rightarrow> bool" where
  "pillows_ok s \<longleftrightarrow> (\<forall>b. case map_of (PLM_groups (fst s)) b of None \<Rightarrow> list_all (\<lambda>u. snd u = []) (snd s b) | Some g \<Rightarrow> group_ok g (snd s b))"

lemma pillows_ok_iff:
  "pillows_ok (m, us) \<longleftrightarrow> (\<forall>b. (map_of (PLM_groups m) b = None \<longrightarrow> list_all (\<lambda>u. snd u = []) (us b)) \<and> (\<forall>g. map_of (PLM_groups m) b = Some g \<longrightarrow> group_ok g (us b)))"
  unfolding pillows_ok_def fst_conv snd_conv by (auto split: option.splits)

lemma pillows_put: "pillows_ok (m, us) \<Longrightarrow> group_ok g vs \<Longrightarrow> pillows_ok (m\<lparr>PLM_groups := al_put b g (PLM_groups m)\<rparr>, us(b := vs))"
  unfolding pillows_ok_iff by simp

lemma pillows_put_same: "pillows_ok (m, us) \<Longrightarrow> group_ok g (us b) \<Longrightarrow> pillows_ok (m\<lparr>PLM_groups := al_put b g (PLM_groups m)\<rparr>, us)"
  using pillows_put [of m us g "us b" b] by simp

lemma pillows_group: "pillows_ok (m, us) \<Longrightarrow> map_of (PLM_groups m) b = Some g \<Longrightarrow> group_ok g (us b)"
  unfolding pillows_ok_iff by blast

lemma prepare_record_ok: "record_ok (start_sup (prepare_record spec)) (prepare_record spec)"
  by (simp add: record_ok_def start_sup_def sup_ok_def prepare_record_def Let_def)

lemma record_ok_flags [simp]: "record_ok u (r\<lparr>PR_restart := x\<rparr>) = record_ok u r" "record_ok u (r\<lparr>PR_cancelled := y\<rparr>) = record_ok u r"
  by (simp_all add: record_ok_def sup_ok_def split: sup_point.split)

lemma restart_record_at:
  "restart_record name rs = Inr rs' \<Longrightarrow> length rs' = length rs \<and> (\<forall>i < length rs. rs' ! i = rs ! i \<or> rs' ! i = (rs ! i)\<lparr>PR_restart := True\<rparr>)"
proof (induction rs arbitrary: rs')
  case (Cons r rs)
  show ?case
  proof (cases "PS_Name (PR_spec r) = name")
    case True
    with Cons.prems show ?thesis by (auto simp: nth_Cons' split: if_splits)
  next
    case False
    then obtain qs where "restart_record name rs = Inr qs" "rs' = r # qs" using Cons.prems by auto
    with Cons.IH [of qs] show ?thesis by (auto simp: nth_Cons')
  qed
qed simp

lemma restart_ok:
  assumes "pillows_ok (m, us)"
  shows "pillows_ok (snd (RestartPillow m b name), us)"
proof (cases "snd (RestartPillow m b name) = m")
  case False
  then obtain g rs where g: "map_of (PLM_groups m) b = Some g" "restart_record name (PG_records g) = Inr rs"
      "snd (RestartPillow m b name) = m\<lparr>PLM_groups := al_put b (g\<lparr>PG_records := rs\<rparr>) (PLM_groups m)\<rparr>"
    by (auto simp: RestartPillow_def split: option.splits if_splits sum.splits)
  note old = pillows_group [OF assms g(1)] and at = restart_record_at [OF g(2)]
  have "record_ok (us b ! i) (rs ! i) \<and> (PG_stopped g \<longrightarrow> PR_cancelled (rs ! i))" if i: "i < length rs" for i
  proof -
    have "record_ok (us b ! i) (PG_records g ! i) \<and> (PG_stopped g \<longrightarrow> PR_cancelled (PG_records g ! i))" using old at i by (simp add: group_ok_def)
    moreover have "rs ! i = PG_records g ! i \<or> rs ! i = (PG_records g ! i)\<lparr>PR_restart := True\<rparr>" using at i by simp
    ultimately show ?thesis by auto
  qed
  then have "group_ok (g\<lparr>PG_records := rs\<rparr>) (us b)" using old at by (simp add: group_ok_def)
  then show ?thesis unfolding g(3) by (rule pillows_put_same [OF assms])
qed (use assms in simp)

lemma stop_ok:
  assumes "pillows_ok (m, us)"
  shows "pillows_ok (stopGroup m b, us)"
proof (cases "map_of (PLM_groups m) b")
  case (Some g)
  have "group_ok \<lparr> PG_records = map (\<lambda>r. r\<lparr>PR_cancelled := True\<rparr>) (PG_records g), PG_stopped = True \<rparr> (us b)"
    using pillows_group [OF assms Some] by (simp add: group_ok_def)
  then show ?thesis unfolding stopGroup_def Some option.case by (rule pillows_put_same [OF assms])
qed (use assms in \<open>simp add: stopGroup_def\<close>)

text \<open>When all records are done their supervisors have returned, and with them the processes are gone.\<close>

lemma done_no_process:
  assumes "group_ok g us" and "list_all PR_done (PG_records g)"
  shows "list_all (\<lambda>u. snd u = []) us"
  unfolding list_all_length
proof (intro allI impI)
  fix i assume "i < length us"
  then have i: "i < length (PG_records g)" using assms(1) by (simp add: group_ok_def)
  then have "record_ok (us ! i) (PG_records g ! i)" "PR_done (PG_records g ! i)" using assms by (auto simp: group_ok_def list_all_length)
  then show "snd (us ! i) = []" by (auto simp: record_ok_def sup_ok_def split: if_splits)
qed

lemma group_release_ok:
  assumes "pillows_ok (m, us)" and "finished \<Longrightarrow> all_done m b"
  shows "pillows_ok (snd (ReleasePillows finished m b), us)"
proof (cases "map_of (PLM_groups m) b")
  case None
  then have "stopGroup m b = m" "al_del b (PLM_groups m) = PLM_groups m" by (simp_all add: stopGroup_def al_del_absent)
  then show ?thesis using assms(1) None by (simp add: ReleasePillows_def)
next
  case (Some g)
  show ?thesis
  proof (cases finished)
    case True
    then have "list_all (\<lambda>u. snd u = []) (us b)" using done_no_process [OF pillows_group [OF assms(1) Some]] assms(2) Some by (simp add: all_done_def)
    moreover have "map_of (al_del b (PLM_groups (stopGroup m b))) = (map_of (PLM_groups (stopGroup m b)))(b := None)" by simp
    ultimately show ?thesis using stop_ok [OF assms(1), of b] True by (simp add: ReleasePillows_def pillows_ok_iff Let_def)
  next
    case False
    then show ?thesis using stop_ok [OF assms(1), of b] Some by (simp add: ReleasePillows_def Let_def)
  qed
qed

lemma supervised_ok:
  assumes "pillows_ok (m, us)" and g: "map_of (PLM_groups m) b = Some g" and i: "i < length (PG_records g)" and c: "pillow_command (PR_spec (PG_records g ! i)) \<noteq> []"
    and s: "sup_step (us b ! i, PG_records g ! i) (u, r)"
  shows "pillows_ok (m\<lparr>PLM_groups := al_put b (g\<lparr>PG_records := (PG_records g)[i := r]\<rparr>) (PLM_groups m)\<rparr>, us(b := (us b)[i := u]))"
proof (rule pillows_put [OF assms(1)])
  have old: "group_ok g (us b)" by (rule pillows_group [OF assms(1) g])
  have "record_ok u r"
    using sup_ok_step [OF s] sup_step_spec [OF s] old i c by (auto simp: group_ok_def record_ok_def)
  moreover have "PR_cancelled r = PR_cancelled (PG_records g ! i)" by (rule sup_step_cancelled [OF s])
  ultimately show "group_ok (g\<lparr>PG_records := (PG_records g)[i := r]\<rparr>) ((us b)[i := u])"
    using old i by (auto simp: group_ok_def nth_list_update)
qed

lemma prepared_ok:
  assumes "pillows_ok (m, us)" and "register_group digest available m b specs = (Inr (), m')" and "map_of (PLM_groups m') b = Some g"
  shows "pillows_ok (m', us(b := map start_sup (PG_records g)))"
proof -
  obtain resolved where m': "m' = m\<lparr>PLM_groups := al_put b \<lparr> PG_records = map prepare_record resolved, PG_stopped = False \<rparr> (PLM_groups m)\<rparr>"
    using assms(2) by (auto simp: register_group_def split: sum.splits if_splits)
  then have g: "g = \<lparr> PG_records = map prepare_record resolved, PG_stopped = False \<rparr>" using assms(3) by simp
  have "group_ok g (map start_sup (PG_records g))" by (simp add: g group_ok_def prepare_record_ok)
  then show ?thesis unfolding m' g by (rule pillows_put [OF assms(1)])
qed

definition pillows_start :: "PillowManager \<times> (nat \<Rightarrow> sup list) \<Rightarrow> bool" where
  "pillows_start s \<longleftrightarrow> s = (\<lparr> PLM_closed = False, PLM_groups = [] \<rparr>, \<lambda>_. [])"

interpretation pillow_manager: state_machine pillows_start pillows_step pillows_ok
proof
  show "pillows_start s \<Longrightarrow> pillows_ok s" for s by (simp add: pillows_start_def pillows_ok_def)
  show "pillows_ok t" if ok: "pillows_ok s" and step: "pillows_step s t" for s t
    using step ok
  proof cases
    case (refused digest available m b specs e m' us)
    then have "m' = m" by (auto simp: register_group_def split: sum.splits if_splits)
    then show ?thesis using refused ok by simp
  next
    case (releases finished m b us)
    then show ?thesis using group_release_ok [of m us finished b] ok by blast
  next
    case (closes m us)
    then show ?thesis using ok by (simp add: pillows_ok_iff)
  qed (use ok in \<open>auto intro: prepared_ok supervised_ok restart_ok stop_ok\<close>)
qed

lemma readiness_scan_iff:
  "readiness_scan ready rs = (True, failed) \<Longrightarrow> ready \<and> (\<forall>r \<in> set rs. PS_Required (PR_spec r) \<longrightarrow> ST_Ready (PR_status r))"
  by (induction rs arbitrary: ready) (auto split: if_splits)

lemma access_ports_Inr:
  "access_ports ms execution ps = Inr qs \<Longrightarrow> qs = ps \<and> (\<forall>p \<in> set ps. MP_state (mapping ms p) = ''listening'' \<and> MP_execution (mapping ms p) = execution)"
  by (induction ps arbitrary: qs) (auto split: if_splits)

text \<open>The pillow \<open>i\<close> of a group has a process, the one its status names, and its supervisor watches it.\<close>

definition watched :: "sup list \<Rightarrow> pillow_group \<Rightarrow> nat \<Rightarrow> bool" where
  "watched us g i \<longleftrightarrow> (\<exists>n k. us ! i = (Watching n k (ST_ExecutionID (PR_status (PG_records g ! i))), [ST_ExecutionID (PR_status (PG_records g ! i))]))"

lemma ready_watched:
  assumes "group_ok g us" and "i < length (PG_records g)" and "ST_Ready (PR_status (PG_records g ! i))" and "pillow_command (PR_spec (PG_records g ! i)) \<noteq> []"
  shows "watched us g i"
proof -
  have "sup_ok (us ! i) (PG_records g ! i)" using assms by (auto simp: group_ok_def record_ok_def)
  then show ?thesis using assms(3) by (cases "us ! i") (auto simp: sup_ok_def watched_def split: sup_point.splits)
qed

lemma one_process:
  assumes "group_ok g us" and "i < length (PG_records g)"
  shows "length (snd (us ! i)) \<le> 1"
proof -
  have "record_ok (us ! i) (PG_records g ! i)" using assms by (simp add: group_ok_def)
  then show ?thesis by (auto simp: record_ok_def sup_ok_def split: if_splits sup_point.splits)
qed

text \<open>C28: Under every interleaving of the supervisors of all pillows with preparing, restarting, stopping and releasing Beds: a pillow never has two processes at once. A Bed counts as ready only while its
  group is not stopped and every required pillow is ready, and for a required pillow with a command this means that the supervisor has started the execution its status names, watches it, and has
  neither seen it end nor begun to stop it. The ports that \<open>Access\<close> hands out are listening, belong to the execution named by the status of a pillow of that name, and that
  execution is watched too. A Bed without a group has no process left.\<close>

theorem ready_means_watched:
  assumes "pillows_start s0" and "pillows_step\<^sup>*\<^sup>* s0 (m, us)"
  shows "case map_of (PLM_groups m) b of
      None \<Rightarrow> \<forall>i < length (us b). snd (us b ! i) = []
    | Some g \<Rightarrow> (\<forall>i < length (PG_records g). length (snd (us b ! i)) \<le> 1)
        \<and> (PillowsReady m b \<longrightarrow> \<not> PG_stopped g \<and> (\<forall>i < length (PG_records g). PS_Required (PR_spec (PG_records g ! i)) \<longrightarrow>
             ST_Ready (PR_status (PG_records g ! i)) \<and> (pillow_command (PR_spec (PG_records g ! i)) \<noteq> [] \<longrightarrow> watched (us b) g i)))
        \<and> (\<forall>ps. Access ms m b name = Inr ps \<longrightarrow> \<not> PG_stopped g \<and> (\<exists>i < length (PG_records g). PS_Name (PR_spec (PG_records g ! i)) = name
             \<and> PR_mappings (PG_records g ! i) = ps \<and> (pillow_command (PR_spec (PG_records g ! i)) \<noteq> [] \<longrightarrow> watched (us b) g i)
             \<and> (\<forall>p \<in> set ps. MP_state (mapping ms p) = ''listening'' \<and> MP_execution (mapping ms p) = ST_ExecutionID (PR_status (PG_records g ! i)))))"
proof -
  have inv: "pillows_ok (m, us)" by (rule pillow_manager.inv_reachable [OF assms])
  show ?thesis
  proof (cases "map_of (PLM_groups m) b")
    case None
    then have "list_all (\<lambda>u. snd u = []) (us b)" using inv unfolding pillows_ok_iff by blast
    then show ?thesis using None by (simp add: list_all_length)
  next
    case (Some g)
    have ok: "group_ok g (us b)" by (rule pillows_group [OF inv Some])
    have ready: "\<not> PG_stopped g \<and> (\<forall>r \<in> set (PG_records g). PS_Required (PR_spec r) \<longrightarrow> ST_Ready (PR_status r))" if rdy: "PillowsReady m b"
    proof -
      obtain failed where "groupReadiness g = (True, failed)" using rdy Some by (cases "groupReadiness g") (simp add: PillowsReady_def)
      then show ?thesis unfolding groupReadiness_def by (rule readiness_scan_iff)
    qed
    have access: "\<not> PG_stopped g \<and> (\<exists>i < length (PG_records g). PS_Name (PR_spec (PG_records g ! i)) = name
             \<and> PR_mappings (PG_records g ! i) = ps \<and> (pillow_command (PR_spec (PG_records g ! i)) \<noteq> [] \<longrightarrow> watched (us b) g i)
             \<and> (\<forall>p \<in> set ps. MP_state (mapping ms p) = ''listening'' \<and> MP_execution (mapping ms p) = ST_ExecutionID (PR_status (PG_records g ! i))))"
      if a: "Access ms m b name = Inr ps" for ps
    proof -
      let ?P = "\<lambda>r. PS_Name (PR_spec r) = name \<and> \<not> PG_stopped g \<and> ST_Ready (PR_status r) \<and> PR_mappings r \<noteq> []"
      obtain r where r: "List.find ?P (PG_records g) = Some r" and ps: "access_ports ms (ST_ExecutionID (PR_status r)) (PR_mappings r) = Inr ps"
        using a Some by (auto simp: Access_def split: option.splits)
      obtain i where i: "i < length (PG_records g)" "r = PG_records g ! i" "?P r" using r by (auto simp: find_Some_iff)
      then show ?thesis using access_ports_Inr [OF ps] ready_watched [OF ok i(1)] by (intro conjI exI [of _ i]) auto
    qed
    show ?thesis using Some ready access one_process [OF ok] ready_watched [OF ok] by (auto simp: all_set_conv_all_nth)
  qed
qed

text \<open>A Bed with one required pillow, from the registration of its group to the first passed readiness check.\<close>

definition serving_spec :: PillowSpec where
  "serving_spec = sample_normal\<lparr>PS_Required := True\<rparr>"

definition serving_record :: pillow_record where
  "serving_record =
     update (\<lambda>s. s\<lparr>ST_Ready := True, ST_Reason := []\<rparr>)
      (update (\<lambda>s. s\<lparr>ST_Phase := ''running'', ST_ExecutionID := ''e1'', ST_ExecutorID := ''x1'', ST_Outcome := None\<rparr>)
        (update (\<lambda>s. s\<lparr>ST_Phase := ''starting'', ST_Listener := None\<rparr>)
          (update (\<lambda>s. s\<lparr>ST_Phase := ''starting'', ST_Reason := [], ST_Restarts := 0\<rparr>) (prepare_record serving_spec))))"

definition one_pillow :: "pillow_record \<Rightarrow> sup \<Rightarrow> PillowManager \<times> (nat \<Rightarrow> sup list)" where
  "one_pillow r u = (\<lparr> PLM_closed = False, PLM_groups = [(0, \<lparr> PG_records = [r], PG_stopped = False \<rparr>)] \<rparr>, (\<lambda>_. [])(0 := [u]))"

lemma supervisor_path:
  assumes "sup_step\<^sup>*\<^sup>* ur ur'" and "pillow_command (PR_spec (snd ur)) \<noteq> []"
  shows "pillows_step\<^sup>*\<^sup>* (one_pillow (snd ur) (fst ur)) (one_pillow (snd ur') (fst ur')) \<and> PR_spec (snd ur') = PR_spec (snd ur)"
  using assms
proof (induction rule: rtranclp_induct)
  case (step y z)
  then have s: "sup_step (fst y, snd y) (fst z, snd z)" and ih: "pillows_step\<^sup>*\<^sup>* (one_pillow (snd ur) (fst ur)) (one_pillow (snd y) (fst y))" "PR_spec (snd y) = PR_spec (snd ur)"
    by simp_all
  have "pillows_step (one_pillow (snd y) (fst y)) (one_pillow (snd z) (fst z))"
    using pillows_step.supervised [of "fst (one_pillow (snd y) (fst y))" 0 "\<lparr> PG_records = [snd y], PG_stopped = False \<rparr>" 0 "snd (one_pillow (snd y) (fst y))" "fst z" "snd z"]
      s step.prems ih(2) by (simp add: one_pillow_def)
  with ih(1) have "pillows_step\<^sup>*\<^sup>* (one_pillow (snd ur) (fst ur)) (one_pillow (snd z) (fst z))" by (rule rtranclp.rtrancl_into_rtrancl)
  then show ?case using sup_step_spec [OF s] ih(2) by simp
qed simp

lemma serving_path: "sup_step\<^sup>*\<^sup>* ((Top 0, []), prepare_record serving_spec) ((Watching 0 0 ''e1'', [''e1'']), serving_record)"
  unfolding serving_record_def
  by (rule sup_path [OF sup_path [OF sup_path [OF sup_path [OF sup_one [OF sup_step.begins] sup_step.enters] sup_step.starts] sup_step.watches] sup_step.observes])

lemma serving_reachable:
  "pillows_step\<^sup>*\<^sup>* (\<lparr> PLM_closed = False, PLM_groups = [] \<rparr>, \<lambda>_. []) (one_pillow serving_record (Watching 0 0 ''e1'', [''e1'']))"
proof -
  have n: "Normalize (\<lambda>_. ''d'') [serving_spec] = Inr [serving_spec]" by code_simp
  have c: "pillow_command (PR_spec (prepare_record serving_spec)) \<noteq> []" by code_simp
  have "register_group (\<lambda>_. ''d'') True \<lparr> PLM_closed = False, PLM_groups = [] \<rparr> 0 [serving_spec] = (Inr (), fst (one_pillow (prepare_record serving_spec) (Top 0, [])))"
    by (simp add: register_group_def ResolvePillows_def n one_pillow_def)
  from pillows_step.prepared [OF this, of _ "\<lambda>_. []"]
  have "pillows_step (\<lparr> PLM_closed = False, PLM_groups = [] \<rparr>, \<lambda>_. []) (one_pillow (prepare_record serving_spec) (Top 0, []))"
    using c by (simp add: one_pillow_def start_sup_def)
  moreover have "pillows_step\<^sup>*\<^sup>* (one_pillow (prepare_record serving_spec) (Top 0, [])) (one_pillow serving_record (Watching 0 0 ''e1'', [''e1'']))"
    using supervisor_path [OF serving_path] c by simp
  ultimately show ?thesis by (rule converse_rtranclp_into_rtranclp)
qed

theorem ready_means_watched_witness:
  "PillowsReady (fst (one_pillow serving_record (Watching 0 0 ''e1'', [''e1'']))) 0 \<and> PS_Required (PR_spec serving_record) \<and> pillow_command (PR_spec serving_record) \<noteq> []
     \<and> watched [(Watching 0 0 ''e1'', [''e1''])] \<lparr> PG_records = [serving_record], PG_stopped = False \<rparr> 0"
proof -
  have r: "PillowsReady (fst (one_pillow serving_record (Watching 0 0 ''e1'', [''e1'']))) 0" by code_simp
  have q: "PS_Required (PR_spec serving_record)" "pillow_command (PR_spec serving_record) \<noteq> []" by code_simp+
  have s: "pillows_start (\<lparr> PLM_closed = False, PLM_groups = [] \<rparr>, \<lambda>_. [])" by (simp add: pillows_start_def)
  from ready_means_watched [OF s serving_reachable [unfolded one_pillow_def], where b = 0 and ms = pm_sample_registry and name = "[]"] r q
  show ?thesis by (simp add: one_pillow_def)
qed

end
