(* ===== verification/Executions.thy ===== *)
theory Executions
  imports Pillow_Runtime
begin

text \<open>
  Executions of commands (\<open>src/internal/bed/manager/execution.go\<close>, \<open>execution_log.go\<close>): the lifetime of one
  execution (stop requests, completion, output history, background log) and the registry that retains
  finished executions.

  The process, its pipes and the trace spans are not modelled: what they deliver are the arguments. Each
  critical section under \<open>e.mu\<close> is a definition. \<open>requestStop\<close> and \<open>finishResult\<close> have two each, which the
  relation \<open>execution_history\<close> interleaves with output, together with the full output as a history.
  \<open>cursor\<close> is an \<open>int64\<close> and its successor wraps around; sequence numbers and byte counts are integers,
  since they count fragments and bytes that were produced. The text of the command, the trace and the kill
  function are left out of the record: no operation here reads them.
\<close>

section \<open>Data\<close>

datatype ExecutionMode = ExecutionForeground | ExecutionBackground | ExecutionSession | ExecutionMain

datatype TerminationCause = CausePreparationFailed | CauseOutputFailure | CauseNatural | CauseTimeout | CauseClientCanceled
  | CauseInterrupted | CauseMainStop | CauseBedTeardown | CauseDaemonShutdown | CauseExternalSignal | CauseOOM | CauseExecutorLost

datatype OutputStream = StreamStdout | StreamStderr

record ExecutionOutput =
  EO_Sequence :: int
  EO_Stream :: OutputStream
  EO_Text :: string

record ExecutionResult =
  XR_Pillow :: string
  XR_ExecutionID :: string
  XR_BedID :: string
  XR_Mode :: ExecutionMode
  XR_ExecutorID :: string
  XR_ExecutorBackend :: string
  XR_StartedAt :: time
  XR_FinishedAt :: time
  XR_Duration :: duration
  XR_Process :: "ProcessOutcome option"
  XR_Err :: "string option"
  XR_Cause :: TerminationCause

record executionLog =
  EL_path :: string
  EL_writer :: bool             \<comment> \<open>the file is open for writing\<close>
  EL_err :: "string option"

record Execution =
  EX_Pillow :: string
  EX_log :: "executionLog option"
  EX_ID :: string
  EX_BedID :: string
  EX_Mode :: ExecutionMode
  EX_ExecutorID :: string
  EX_ExecutorBackend :: string
  EX_stopDone :: bool
  EX_finishing :: bool
  EX_startedAt :: time
  EX_finishedAt :: "time option"
  EX_result :: "ExecutionResult option"
  EX_stopCause :: "TerminationCause option"
  EX_output :: "ExecutionOutput list"
  EX_outputBytes :: int
  EX_truncated :: bool
  EX_nextOutput :: int
  EX_dropped :: int
  EX_done :: bool

definition executionOutputBytes :: nat where
  "executionOutputBytes = 65536"

definition executionOutputFragments :: nat where
  "executionOutputFragments = 1024"

definition executionHistoryLimit :: nat where
  "executionHistoryLimit = 1024"

definition newExecution ::
  "string \<Rightarrow> string \<Rightarrow> string \<Rightarrow> ExecutionMode \<Rightarrow> string \<Rightarrow> string \<Rightarrow> executionLog option \<Rightarrow> time \<Rightarrow> Execution" where
  "newExecution execution pillow bed mode exec backend log now =
     \<lparr> EX_Pillow = pillow, EX_log = log, EX_ID = execution, EX_BedID = bed, EX_Mode = mode, EX_ExecutorID = exec,
       EX_ExecutorBackend = backend, EX_stopDone = False, EX_finishing = False, EX_startedAt = now, EX_finishedAt = None,
       EX_result = None, EX_stopCause = None, EX_output = [], EX_outputBytes = 0, EX_truncated = False, EX_nextOutput = 0,
       EX_dropped = 0, EX_done = False \<rparr>"

section \<open>Stopping and finishing\<close>

definition requestStop :: "Execution \<Rightarrow> TerminationCause \<Rightarrow> bool \<times> Execution" where
  "requestStop e cause =
     (if EX_result e \<noteq> None \<or> EX_finishing e \<or> EX_stopCause e \<noteq> None then (False, e)
      else (True, e\<lparr>EX_stopCause := Some cause\<rparr>))"

text \<open>After the stop action, the caller that recorded the cause closes \<open>stopDone\<close>.\<close>

definition stopped :: "Execution \<Rightarrow> Execution" where
  "stopped e = e\<lparr>EX_stopDone := True\<rparr>"

definition claimFinish :: "Execution \<Rightarrow> TerminationCause option \<times> Execution" where
  "claimFinish e = (case EX_stopCause e of None \<Rightarrow> (None, e\<lparr>EX_finishing := True\<rparr>) | Some c \<Rightarrow> (Some c, e))"

text \<open>The source reads the outcome only without a failure, and then there is one.\<close>

definition terminal_cause :: "TerminationCause option \<Rightarrow> ProcessOutcome option \<Rightarrow> string option \<Rightarrow> TerminationCause" where
  "terminal_cause claimed outcome failure =
     (case claimed of
        Some c \<Rightarrow> c
      | None \<Rightarrow>
          if failure \<noteq> None then CausePreparationFailed
          else case outcome of
            None \<Rightarrow> CauseExecutorLost
          | Some oc \<Rightarrow>
              (case OC_Kind oc of
                 ProcessExited \<Rightarrow> CauseNatural
               | ProcessSignaled \<Rightarrow> CauseExternalSignal
               | _ \<Rightarrow> CauseExecutorLost))"

text \<open>\<open>close_err\<close>: the error of closing the background log.\<close>

definition close_log :: "string option \<Rightarrow> executionLog \<Rightarrow> executionLog" where
  "close_log close_err l = l\<lparr>EL_err := (if EL_err l = None then close_err else EL_err l), EL_writer := False\<rparr>"

definition publishResult ::
  "TerminationCause option \<Rightarrow> ProcessOutcome option \<Rightarrow> string option \<Rightarrow> time \<Rightarrow> string option \<Rightarrow> Execution \<Rightarrow> Execution" where
  "publishResult claimed outcome failure finishedAt close_err e =
     e\<lparr>EX_finishedAt := Some finishedAt, EX_log := map_option (close_log close_err) (EX_log e),
       EX_result := Some \<lparr> XR_Pillow = EX_Pillow e, XR_ExecutionID = EX_ID e, XR_BedID = EX_BedID e, XR_Mode = EX_Mode e,
         XR_ExecutorID = EX_ExecutorID e, XR_ExecutorBackend = EX_ExecutorBackend e, XR_StartedAt = EX_startedAt e,
         XR_FinishedAt = finishedAt, XR_Duration = finishedAt - EX_startedAt e, XR_Process = outcome, XR_Err = failure,
         XR_Cause = terminal_cause claimed outcome failure \<rparr>,
       EX_finishing := False\<rparr>"

definition finished :: "Execution \<Rightarrow> Execution" where
  "finished e = e\<lparr>EX_done := True\<rparr>"

section \<open>Output\<close>

fun trim_output :: "ExecutionOutput list \<Rightarrow> int \<Rightarrow> int \<Rightarrow> bool \<Rightarrow> ExecutionOutput list \<times> int \<times> int \<times> bool" where
  "trim_output [] bytes dropped truncated = ([], bytes, dropped, truncated)"
| "trim_output (o0 # os) bytes dropped truncated =
     (if bytes > int executionOutputBytes \<or> length (o0 # os) > executionOutputFragments
      then trim_output os (bytes - int (length (EO_Text o0))) (dropped + 1) True
      else (o0 # os, bytes, dropped, truncated))"

definition retained_text :: "string \<Rightarrow> string" where
  "retained_text s = (if length s > executionOutputBytes then drop (length s - executionOutputBytes) s else s)"

definition appendOutput :: "Execution \<Rightarrow> OutputStream \<Rightarrow> string \<Rightarrow> ExecutionOutput \<times> Execution" where
  "appendOutput e stream msg =
     (let output = \<lparr> EO_Sequence = EX_nextOutput e, EO_Stream = stream, EO_Text = msg \<rparr>;
          retained = output\<lparr>EO_Text := retained_text msg\<rparr>
      in case trim_output (EX_output e @ [retained]) (EX_outputBytes e + int (length (EO_Text retained))) (EX_dropped e)
                (EX_truncated e \<or> length msg > executionOutputBytes) of
           (os, bytes, dropped, truncated) \<Rightarrow>
             (output, e\<lparr>EX_nextOutput := EX_nextOutput e + 1, EX_output := os, EX_outputBytes := bytes,
                        EX_dropped := dropped, EX_truncated := truncated\<rparr>))"

definition releaseOutput :: "Execution \<Rightarrow> Execution" where
  "releaseOutput e = e\<lparr>EX_output := [], EX_outputBytes := 0, EX_dropped := EX_nextOutput e,
     EX_truncated := (EX_truncated e \<or> EX_nextOutput e > 0)\<rparr>"

definition Logs :: "Execution \<Rightarrow> int \<Rightarrow> ExecutionOutput list \<times> int \<times> bool \<times> bool" where
  "Logs e cursor =
     (let start0 = (if cursor < 0 then 0 else wrap64 (cursor + 1));
          gap = (start0 < EX_dropped e);
          start = (if gap then EX_dropped e else start0)
      in (if start < EX_nextOutput e then drop (nat (start - EX_dropped e)) (EX_output e) else [],
          EX_nextOutput e - 1, EX_result e = None, gap \<or> EX_truncated e))"

section \<open>The background log\<close>

text \<open>\<open>err\<close>: the error of writing to the file; a failed write also requests a stop with \<open>CauseOutputFailure\<close>.\<close>

definition writeLog :: "string option \<Rightarrow> Execution \<Rightarrow> Execution" where
  "writeLog err e = (if err = None then e else e\<lparr>EX_log := map_option (\<lambda>l. l\<lparr>EL_err := err\<rparr>) (EX_log e)\<rparr>)"

text \<open>\<open>err\<close>: the error of removing the file, other than that it does not exist.\<close>

definition removeLog :: "string option \<Rightarrow> Execution \<Rightarrow> string option" where
  "removeLog err e =
     (case EX_log e of None \<Rightarrow> None | Some l \<Rightarrow> if EL_writer l then Some ''execution log is still active'' else err)"

text \<open>\<open>size\<close>: the size of the file, or the error of opening it. The result is where reading starts and the next cursor.\<close>

definition OpenBackgroundLog :: "(string, int) result \<Rightarrow> Execution \<Rightarrow> int \<Rightarrow> (string, int \<times> int) result" where
  "OpenBackgroundLog fsize e cursor =
     (if cursor < 0 then Inl ''cursor must be nonnegative''
      else case EX_log e of
        None \<Rightarrow> Inl ''execution is not a background command''
      | Some l \<Rightarrow>
          (case EL_err l of
             Some msg \<Rightarrow> Inl (''capture execution output: '' @ msg)
           | None \<Rightarrow> res_bind fsize (\<lambda>n. Inr (if cursor > n then n else cursor, n))))"

section \<open>The registry\<close>

record ExecutionRegistry =
  ER_executions :: "(string \<times> Execution) list"
  ER_order :: "string list"

definition newExecutionRegistry :: ExecutionRegistry where
  "newExecutionRegistry = \<lparr> ER_executions = [], ER_order = [] \<rparr>"

definition track_execution :: "ExecutionRegistry \<Rightarrow> Execution \<Rightarrow> ExecutionRegistry" where
  "track_execution r e = r\<lparr>ER_executions := al_put (EX_ID e) e (ER_executions r), ER_order := ER_order r @ [EX_ID e]\<rparr>"

definition contextTerminationCause :: "bool \<Rightarrow> TerminationCause" where
  "contextTerminationCause deadline = (if deadline then CauseTimeout else CauseClientCanceled)"

definition killBed :: "string \<Rightarrow> TerminationCause \<Rightarrow> ExecutionRegistry \<Rightarrow> ExecutionRegistry" where
  "killBed bed cause r =
     r\<lparr>ER_executions := map (\<lambda>(k, e). (k, if EX_BedID e = bed \<and> EX_Mode e \<noteq> ExecutionMain then snd (requestStop e cause) else e))
        (ER_executions r)\<rparr>"

definition forgetBed :: "string \<Rightarrow> ExecutionRegistry \<Rightarrow> ExecutionRegistry" where
  "forgetBed bed r =
     (let of_bed = (\<lambda>k. case map_of (ER_executions r) k of None \<Rightarrow> False | Some e \<Rightarrow> EX_BedID e = bed)
      in r\<lparr>ER_executions := filter (\<lambda>(k, e). \<not> (k \<in> set (ER_order r) \<and> of_bed k)) (ER_executions r),
           ER_order := filter (\<lambda>k. map_of (ER_executions r) k \<noteq> None \<and> \<not> of_bed k) (ER_order r)\<rparr>)"

definition day :: duration where
  "day = 24 * 3600 * seconds 1"

definition expired :: "time \<Rightarrow> Execution \<Rightarrow> bool" where
  "expired now e = (case EX_finishedAt e of None \<Rightarrow> False | Some t \<Rightarrow> now - t \<ge> day)"

text \<open>The loop of \<open>prune\<close>, newest first; \<open>errs\<close> are the errors of removing logs.\<close>

fun prune_scan ::
  "time \<Rightarrow> (string \<Rightarrow> string option) \<Rightarrow> nat \<Rightarrow> nat \<Rightarrow> string list \<Rightarrow> (string \<times> Execution) list \<Rightarrow> string list \<times> (string \<times> Execution) list" where
  "prune_scan now errs native hot [] es = ([], es)"
| "prune_scan now errs native hot (k # ks) es =
     (case map_of es k of
        None \<Rightarrow> prune_scan now errs native hot ks es
      | Some e \<Rightarrow>
          if EX_result e = None then (case prune_scan now errs native hot ks es of (kept, es1) \<Rightarrow> (k # kept, es1))
          else
            let native1 = (if EX_Mode e \<noteq> ExecutionBackground \<and> \<not> expired now e then Suc native else native);
                evict = (expired now e \<or> EX_Mode e \<noteq> ExecutionBackground \<and> native1 > executionHistoryLimit)
            in if evict \<and> removeLog (errs k) e = None then prune_scan now errs native1 hot ks (al_del k es)
               else
                 let es1 = (if Suc hot > executionHistoryLimit then al_put k (releaseOutput e) es else es)
                 in (case prune_scan now errs native1 (Suc hot) ks es1 of (kept, es2) \<Rightarrow> (k # kept, es2)))"

definition prune :: "time \<Rightarrow> (string \<Rightarrow> string option) \<Rightarrow> ExecutionRegistry \<Rightarrow> ExecutionRegistry" where
  "prune now errs r =
     (case prune_scan now errs 0 0 (rev (ER_order r)) (ER_executions r) of
        (kept, es) \<Rightarrow> \<lparr> ER_executions = es, ER_order = rev kept \<rparr>)"

section \<open>Executions with their full output\<close>

text \<open>
  The steps of one execution: output, stop requests and stop actions, completion, log writes and collection, with
  what each step prints. \<open>finishResult\<close> publishes after it claimed the finish or after the stop action
  that it found recorded was done. \<open>execution_history e h\<close>: some interleaving leads to \<open>e\<close>, and \<open>h\<close> is everything printed.
\<close>

inductive execution_step :: "Execution \<Rightarrow> ExecutionOutput list \<Rightarrow> Execution \<Rightarrow> bool" where
  prints: "appendOutput e stream msg = (x, e') \<Longrightarrow> execution_step e [x] e'"
| stop: "execution_step e [] (snd (requestStop e cause))"
| stop_done: "EX_stopCause e \<noteq> None \<Longrightarrow> execution_step e [] (stopped e)"
| claim: "EX_result e = None \<Longrightarrow> execution_step e [] (snd (claimFinish e))"
| publish: "EX_result e = None \<Longrightarrow>
    EX_finishing e \<and> claimed = None \<or> claimed \<noteq> None \<and> EX_stopCause e = claimed \<and> EX_stopDone e \<Longrightarrow>
    execution_step e [] (publishResult claimed outcome failure finishedAt close_err e)"
| finish: "EX_result e \<noteq> None \<Longrightarrow> execution_step e [] (finished e)"
| collect: "execution_step e [] (releaseOutput e)"
| log_write: "execution_step e [] (writeLog err e)"

inductive execution_steps :: "Execution \<Rightarrow> ExecutionOutput list \<Rightarrow> Execution \<Rightarrow> bool" where
  no_step: "execution_steps e [] e"
| step: "execution_steps e h e1 \<Longrightarrow> execution_step e1 h1 e2 \<Longrightarrow> execution_steps e (h @ h1) e2"

inductive execution_history :: "Execution \<Rightarrow> ExecutionOutput list \<Rightarrow> bool" where
  start: "execution_history (newExecution execution pillow bed mode exec backend log now) []"
| step: "execution_history e h \<Longrightarrow> execution_step e h1 e1 \<Longrightarrow> execution_history e1 (h @ h1)"

lemma execution_history_steps: "execution_steps e h1 e1 \<Longrightarrow> execution_history e h \<Longrightarrow> execution_history e1 (h @ h1)"
proof (induction rule: execution_steps.induct)
  case (step e h1 e1 h2 e2)
  then show ?case using execution_history.step [of e1 "h @ h1" h2 e2] by simp
qed simp

section \<open>One terminal cause\<close>

definition cause_ok :: "Execution \<Rightarrow> bool" where
  "cause_ok e \<longleftrightarrow>
     (EX_finishing e \<longrightarrow> EX_stopCause e = None \<and> EX_result e = None)
     \<and> (\<forall>r. EX_result e = Some r \<longrightarrow> XR_Cause r = terminal_cause (EX_stopCause e) (XR_Process r) (XR_Err r)
          \<and> (EX_stopCause e \<noteq> None \<longrightarrow> EX_stopDone e))"

lemmas execution_operation_defs = requestStop_def stopped_def claimFinish_def publishResult_def finished_def releaseOutput_def
  writeLog_def

lemma cause_ok_step: "execution_step e h e' \<Longrightarrow> cause_ok e \<Longrightarrow> cause_ok e'"
proof (induction rule: execution_step.induct)
  case (prints e stream msg x e')
  then show ?case by (auto simp: cause_ok_def appendOutput_def Let_def split: prod.splits)
qed (auto simp: cause_ok_def execution_operation_defs split: option.splits)

lemma cause_ok_history: "execution_history e h \<Longrightarrow> cause_ok e"
proof (induction rule: execution_history.induct)
  case start
  then show ?case by (simp add: cause_ok_def newExecution_def)
next
  case (step e h h1 e1)
  then show ?case by (auto intro: cause_ok_step)
qed

text \<open>A recorded cause and a published result are final; a claimed finish excludes stop requests for ever.\<close>

lemma step_keeps_cause: "execution_step e h e' \<Longrightarrow> EX_stopCause e = Some c \<Longrightarrow> EX_stopCause e' = Some c"
  by (erule execution_step.cases) (auto simp: execution_operation_defs appendOutput_def Let_def split: prod.splits option.splits)

lemma step_keeps_result: "execution_step e h e' \<Longrightarrow> EX_result e = Some r \<Longrightarrow> EX_result e' = Some r"
  by (erule execution_step.cases) (auto simp: execution_operation_defs appendOutput_def Let_def split: prod.splits option.splits)

definition undisturbed :: "Execution \<Rightarrow> bool" where
  "undisturbed e \<longleftrightarrow> EX_stopCause e = None \<and> (EX_finishing e \<or> EX_result e \<noteq> None)"

lemma step_undisturbed: "execution_step e h e' \<Longrightarrow> undisturbed e \<Longrightarrow> undisturbed e'"
  by (erule execution_step.cases)
    (auto simp: undisturbed_def execution_operation_defs appendOutput_def Let_def split: prod.splits option.splits)

lemma steps_keep:
  assumes "execution_steps e h e'"
  shows "EX_stopCause e = Some c \<Longrightarrow> EX_stopCause e' = Some c" and "EX_result e = Some r \<Longrightarrow> EX_result e' = Some r"
    and "undisturbed e \<Longrightarrow> undisturbed e'"
  using assms by (induction rule: execution_steps.induct)
    (auto dest: step_keeps_cause step_keeps_result step_undisturbed)

lemma execution_cause_cases:
  assumes "execution_history e h" and "execution_steps e1 h1 e2" and "EX_result e2 = Some r"
  shows "requestStop e c = (True, e1) \<Longrightarrow> XR_Cause r = c \<and> EX_stopDone e2"
    and "claimFinish e = (None, e1) \<Longrightarrow>
      XR_Cause r = terminal_cause None (XR_Process r) (XR_Err r) \<and> (\<forall>c. \<not> fst (requestStop e1 c)) \<and> (\<forall>c. \<not> fst (requestStop e2 c))"
    and "e1 = e \<Longrightarrow> EX_result e = Some r0 \<Longrightarrow> r = r0 \<and> (\<forall>c. \<not> fst (requestStop e c))"
proof -
  assume s: "requestStop e c = (True, e1)"
  have "e1 = snd (requestStop e c)" using s by simp
  then have "execution_step e [] e1" using execution_step.stop [of e c] by simp
  then have "execution_history e1 (h @ [])" by (rule execution_history.step [OF assms(1)])
  then have "cause_ok e2" by (rule cause_ok_history [OF execution_history_steps [OF assms(2)]])
  moreover have "EX_stopCause e1 = Some c" using s by (auto simp: requestStop_def split: if_splits)
  then have "EX_stopCause e2 = Some c" by (rule steps_keep(1) [OF assms(2)])
  ultimately show "XR_Cause r = c \<and> EX_stopDone e2" using assms(3) by (simp add: cause_ok_def terminal_cause_def)
next
  assume s: "claimFinish e = (None, e1)"
  show "XR_Cause r = terminal_cause None (XR_Process r) (XR_Err r) \<and> (\<forall>c. \<not> fst (requestStop e1 c)) \<and> (\<forall>c. \<not> fst (requestStop e2 c))"
  proof (cases "EX_result e")
    case None
    have e1: "e1 = snd (claimFinish e)" using s by simp
    then have "execution_step e [] e1" using execution_step.claim [OF None] by simp
    then have "execution_history e1 (h @ [])" by (rule execution_history.step [OF assms(1)])
    then have "cause_ok e2" by (rule cause_ok_history [OF execution_history_steps [OF assms(2)]])
    moreover have "undisturbed e1" using s by (auto simp: claimFinish_def undisturbed_def split: option.splits)
    moreover from this have "undisturbed e2" by (rule steps_keep(3) [OF assms(2)])
    ultimately show ?thesis using assms(3) by (auto simp: cause_ok_def undisturbed_def requestStop_def)
  next
    case (Some r0)
    have e: "EX_stopCause e = None" "EX_result e1 = Some r0" using s Some by (auto simp: claimFinish_def split: option.splits)
    have "XR_Cause r0 = terminal_cause None (XR_Process r0) (XR_Err r0)" using cause_ok_history [OF assms(1)] Some e(1) by (simp add: cause_ok_def)
    moreover have "r = r0" using steps_keep(2) [OF assms(2) e(2)] assms(3) by simp
    ultimately show ?thesis using e assms(3) by (simp add: requestStop_def)
  qed
next
  assume "e1 = e" and "EX_result e = Some r0"
  then show "r = r0 \<and> (\<forall>c. \<not> fst (requestStop e c))" using steps_keep(2) [OF assms(2)] assms(3) by (simp add: requestStop_def)
qed

text \<open>C13: the terminal cause of an execution is decided once. When a stop request is accepted, whatever happens afterwards, a
  published result carries its cause and was published after the stop action; a process that finished
  first keeps the cause of its own outcome and no later request is accepted; a published result never changes.\<close>

theorem execution_cause_decided_once:
  assumes "execution_history e h" and "execution_steps e1 h1 e2" and "EX_result e2 = Some r"
  shows "(requestStop e c = (True, e1) \<longrightarrow> XR_Cause r = c \<and> EX_stopDone e2)
    \<and> (claimFinish e = (None, e1) \<longrightarrow>
        XR_Cause r = terminal_cause None (XR_Process r) (XR_Err r) \<and> (\<forall>c. \<not> fst (requestStop e1 c)) \<and> (\<forall>c. \<not> fst (requestStop e2 c)))
    \<and> (e1 = e \<and> EX_result e = Some r0 \<longrightarrow> r = r0 \<and> (\<forall>c. \<not> fst (requestStop e c)))"
  using execution_cause_cases [OF assms] by blast

definition sample_execution :: Execution where
  "sample_execution = newExecution ''exec-1'' ''main'' ''bed-1'' ExecutionForeground ''executor-1'' ''native'' None 100"

theorem execution_cause_decided_once_witness:
  "\<exists>e h e1 e2 h1 r. execution_history e h \<and> requestStop e CauseTimeout = (True, e1) \<and> execution_steps e1 h1 e2
     \<and> EX_result e2 = Some r \<and> map_option OC_Kind (XR_Process r) = Some ProcessExited \<and> XR_Cause r = CauseTimeout"
proof -
  let ?e1 = "snd (requestStop sample_execution CauseTimeout)"
  let ?e2 = "publishResult (Some CauseTimeout) (Some (zero_outcome\<lparr>OC_Kind := ProcessExited\<rparr>)) None 160 None (stopped ?e1)"
  have h: "execution_history sample_execution []" unfolding sample_execution_def by (rule execution_history.start)
  have r: "requestStop sample_execution CauseTimeout = (True, ?e1)" by code_simp
  have "execution_steps ?e1 [] ?e1" by (rule execution_steps.no_step)
  then have "execution_steps ?e1 ([] @ []) (stopped ?e1)"
    by (rule execution_steps.step) (rule execution_step.stop_done, code_simp)
  then have s: "execution_steps ?e1 (([] @ []) @ []) ?e2"
    by (rule execution_steps.step) (rule execution_step.publish, code_simp, code_simp)
  obtain res where res: "EX_result ?e2 = Some res" "map_option OC_Kind (XR_Process res) = Some ProcessExited"
    by (simp add: publishResult_def)
  have "XR_Cause res = CauseTimeout" using execution_cause_decided_once [OF h s res(1)] r by blast
  then show ?thesis using h r s res by blast
qed

section \<open>The retained output refines the full output\<close>

definition retained :: "ExecutionOutput \<Rightarrow> ExecutionOutput" where
  "retained x = x\<lparr>EO_Text := retained_text (EO_Text x)\<rparr>"

definition text_bytes :: "ExecutionOutput list \<Rightarrow> int" where
  "text_bytes xs = (\<Sum>x\<leftarrow>xs. int (length (EO_Text x)))"

definition within_limits :: "ExecutionOutput list \<Rightarrow> bool" where
  "within_limits xs \<longleftrightarrow> text_bytes xs \<le> int executionOutputBytes \<and> length xs \<le> executionOutputFragments"

lemma trim_output_spec:
  assumes "trim_output xs bytes d t = (ys, b, d', t')" and "bytes = text_bytes xs"
  shows "\<exists>k \<le> length xs. ys = drop k xs \<and> d' = d + int k \<and> t' = (t \<or> 0 < k) \<and> b = text_bytes ys \<and> within_limits ys"
  using assms
proof (induction xs bytes d t rule: trim_output.induct)
  case (1 bytes d t)
  then show ?case by (auto simp: within_limits_def text_bytes_def)
next
  case (2 x xs bytes d t)
  show ?case
  proof (cases "bytes > int executionOutputBytes \<or> length (x # xs) > executionOutputFragments")
    case True
    then have "trim_output xs (bytes - int (length (EO_Text x))) (d + 1) True = (ys, b, d', t')"
      using "2.prems"(1) by simp
    moreover have "bytes - int (length (EO_Text x)) = text_bytes xs" using "2.prems"(2) by (simp add: text_bytes_def)
    ultimately obtain k where "k \<le> length xs" "ys = drop k xs" "d' = d + 1 + int k" "t'" "b = text_bytes ys" "within_limits ys"
      using "2.IH" [OF True] by auto
    then show ?thesis by (intro exI [of _ "Suc k"]) simp
  next
    case False
    with "2.prems" have "ys = x # xs" "d' = d" "t' = t" "b = text_bytes (x # xs)" by auto
    moreover have "within_limits (x # xs)" using False "2.prems"(2) by (simp add: within_limits_def)
    ultimately show ?thesis by (intro exI [of _ 0]) simp
  qed
qed

definition refines :: "ExecutionOutput list \<Rightarrow> Execution \<Rightarrow> bool" where
  "refines h e \<longleftrightarrow>
     EX_nextOutput e = int (length h)
     \<and> (\<exists>d \<le> length h. EX_dropped e = int d \<and> EX_output e = map retained (drop d h))
     \<and> EX_outputBytes e = text_bytes (EX_output e) \<and> within_limits (EX_output e)
     \<and> (\<forall>i < length h. EO_Sequence (h ! i) = int i)
     \<and> (\<not> EX_truncated e \<longrightarrow> EX_dropped e = 0 \<and> (\<forall>x \<in> set h. retained x = x))"

lemma refines_append:
  assumes r: "refines h e" and a: "appendOutput e stream msg = (x, e')"
  shows "refines (h @ [x]) e'"
proof -
  obtain d where d: "d \<le> length h" "EX_dropped e = int d" "EX_output e = map retained (drop d h)"
    using r by (auto simp: refines_def)
  let ?x = "\<lparr> EO_Sequence = EX_nextOutput e, EO_Stream = stream, EO_Text = msg \<rparr>"
  have x: "x = ?x" using a by (simp add: appendOutput_def Let_def split: prod.splits)
  let ?os = "EX_output e @ [retained ?x]"
  obtain ys b d' t' where tr: "trim_output ?os (EX_outputBytes e + int (length (retained_text msg))) (EX_dropped e)
      (EX_truncated e \<or> length msg > executionOutputBytes) = (ys, b, d', t')" by (metis prod_cases4)
  have e': "e' = e\<lparr>EX_nextOutput := EX_nextOutput e + 1, EX_output := ys, EX_outputBytes := b, EX_dropped := d', EX_truncated := t'\<rparr>"
    using a tr by (simp add: appendOutput_def Let_def retained_def)
  have "EX_outputBytes e + int (length (retained_text msg)) = text_bytes ?os"
    using r by (simp add: refines_def text_bytes_def retained_def)
  from trim_output_spec [OF tr this] obtain k where k: "k \<le> length ?os" "ys = drop k ?os" "d' = EX_dropped e + int k"
      "t' = ((EX_truncated e \<or> length msg > executionOutputBytes) \<or> 0 < k)" "b = text_bytes ys" "within_limits ys"
    by blast
  have os: "?os = map retained (drop d (h @ [x]))" using d x by simp
  have "drop k (map retained (drop d (h @ [x]))) = map retained (drop (d + k) (h @ [x]))"
    by (simp only: drop_map drop_drop add.commute)
  then have "ys = map retained (drop (d + k) (h @ [x]))" unfolding k(2) os .
  moreover have "d + k \<le> length (h @ [x])" using k(1) d by (simp add: os)
  moreover have "EO_Sequence ((h @ [x]) ! i) = int i" if "i < length (h @ [x])" for i
    using r x that by (auto simp: refines_def nth_append less_Suc_eq)
  moreover have "\<not> t' \<Longrightarrow> d' = 0 \<and> (\<forall>y \<in> set (h @ [x]). retained y = y)"
    using k r x by (auto simp: refines_def retained_def retained_text_def)
  moreover have "EX_nextOutput e + 1 = int (length (h @ [x]))" using r by (simp add: refines_def)
  moreover have "d' = int (d + k)" using k(3) d(2) by simp
  ultimately show ?thesis unfolding refines_def e' using k(5,6) by auto
qed

lemma refines_step: "execution_step e h1 e' \<Longrightarrow> refines h e \<Longrightarrow> refines (h @ h1) e'"
proof (induction rule: execution_step.induct)
  case (prints e stream msg x e')
  from prints(2,1) show ?case by (rule refines_append)
next
  case (collect e)
  then show ?case by (auto simp: refines_def releaseOutput_def text_bytes_def within_limits_def)
qed (simp_all add: refines_def requestStop_def stopped_def claimFinish_def publishResult_def finished_def writeLog_def split: option.splits)

lemma refines_history: "execution_history e h \<Longrightarrow> refines h e"
proof (induction rule: execution_history.induct)
  case start
  then show ?case by (simp add: refines_def newExecution_def text_bytes_def within_limits_def)
next
  case (step e h h1 e1)
  then show ?case by (auto intro: refines_step)
qed

definition full_logs :: "ExecutionOutput list \<Rightarrow> int \<Rightarrow> ExecutionOutput list" where
  "full_logs h cursor = drop (nat (cursor + 1)) h"

lemma map_retained_id: "\<forall>x \<in> set h. retained x = x \<Longrightarrow> map retained (drop k h) = drop k h"
  by (metis in_set_dropD map_idI)

lemma within_limits_drop: "within_limits xs \<Longrightarrow> within_limits (drop k xs)"
proof -
  have "text_bytes xs = text_bytes (take k xs) + text_bytes (drop k xs)"
    unfolding text_bytes_def by (subst (1) append_take_drop_id [of k, symmetric]) (simp only: map_append sum_list_append)
  moreover have "0 \<le> text_bytes (take k xs)" unfolding text_bytes_def by (rule sum_list_nonneg) auto
  ultimately show "within_limits xs \<Longrightarrow> within_limits (drop k xs)" by (auto simp: within_limits_def)
qed

lemma refines_Logs:
  assumes r: "refines h e" and c: "cursor < 2 ^ 63 - 1" and l: "Logs e cursor = (out, nxt, running, trunc)"
  shows "nxt = int (length h) - 1 \<and> running = (EX_result e = None) \<and> within_limits out
    \<and> (\<exists>k \<ge> nat (cursor + 1). out = map retained (drop k h)) \<and> (\<not> trunc \<longrightarrow> out = full_logs h cursor)"
proof -
  obtain d where d: "d \<le> length h" "EX_dropped e = int d" "EX_output e = map retained (drop d h)" "EX_nextOutput e = int (length h)"
    using r by (auto simp: refines_def)
  define s where "s = nat (cursor + 1)"
  have w: "(if cursor < 0 then 0 else wrap64 (cursor + 1)) = int s" using c by (simp add: wrap64_id s_def)
  have out: "out = map retained (drop (max s d) h)" and rest: "nxt = int (length h) - 1" "running = (EX_result e = None)"
    "trunc = (s < d \<or> EX_truncated e)"
    using l unfolding Logs_def w Let_def d(2,3,4) by (auto simp: drop_map max_def not_less nat_diff_distrib)
  have "max s d = (max s d - d) + d" by simp
  then have "out = drop (max s d - d) (EX_output e)" unfolding out d(3) drop_map drop_drop by simp
  then have "within_limits out" using r by (simp add: refines_def within_limits_drop)
  moreover have "out = full_logs h cursor" if "\<not> trunc"
  proof -
    have "\<forall>x \<in> set h. retained x = x" and "d = 0" using that rest(3) r d(2) by (auto simp: refines_def)
    then show ?thesis unfolding out full_logs_def s_def by (simp add: map_retained_id)
  qed
  ultimately show ?thesis unfolding s_def [symmetric] using rest out by (intro conjI exI [of _ "max s d"]) auto
qed

text \<open>C12: \<open>Logs\<close> refines reading the full output. In every state an execution can reach, for every cursor below
  the largest \<open>int64\<close>, the next cursor is the last sequence number printed and the result is a suffix
  of the output after the cursor within 64 KiB and 1024 fragments, each fragment cut to its last 64 KiB. When
  the result is not marked truncated it is exactly the output after the cursor.\<close>

theorem Logs_refines_history:
  assumes "execution_history e h" and "cursor < 2 ^ 63 - 1" and "Logs e cursor = (out, nxt, running, trunc)"
  shows "nxt = int (length h) - 1 \<and> running = (EX_result e = None)
    \<and> text_bytes out \<le> 65536 \<and> length out \<le> 1024
    \<and> (\<exists>k \<ge> nat (cursor + 1). out = map retained (drop k h))
    \<and> (\<not> trunc \<longrightarrow> out = full_logs h cursor)
    \<and> (\<forall>i < length h. EO_Sequence (h ! i) = int i)"
  using refines_Logs [OF refines_history [OF assms(1)] assms(2,3)] refines_history [OF assms(1)]
  by (simp add: within_limits_def executionOutputBytes_def executionOutputFragments_def refines_def)

lemmas append_sample = sample_execution_def newExecution_def appendOutput_def retained_text_def
  executionOutputBytes_def executionOutputFragments_def Let_def

lemma sample_history:
  "execution_history (snd (appendOutput (snd (appendOutput sample_execution StreamStdout ''a'')) StreamStderr ''b''))
     [\<lparr> EO_Sequence = 0, EO_Stream = StreamStdout, EO_Text = ''a'' \<rparr>, \<lparr> EO_Sequence = 1, EO_Stream = StreamStderr, EO_Text = ''b'' \<rparr>]"
proof -
  let ?e = "snd (appendOutput sample_execution StreamStdout ''a'')"
  have "execution_history sample_execution []" unfolding sample_execution_def by (rule execution_history.start)
  moreover have "appendOutput sample_execution StreamStdout ''a'' = (\<lparr> EO_Sequence = 0, EO_Stream = StreamStdout, EO_Text = ''a'' \<rparr>, ?e)"
    by (simp add: append_sample)
  ultimately have "execution_history ?e ([] @ [\<lparr> EO_Sequence = 0, EO_Stream = StreamStdout, EO_Text = ''a'' \<rparr>])"
    by (intro execution_history.step execution_step.prints)
  moreover have "appendOutput ?e StreamStderr ''b'' = (\<lparr> EO_Sequence = 1, EO_Stream = StreamStderr, EO_Text = ''b'' \<rparr>, snd (appendOutput ?e StreamStderr ''b''))"
    by (simp add: append_sample)
  ultimately show ?thesis by (auto dest!: execution_step.prints dest: execution_history.step)
qed

theorem Logs_refines_history_witness:
  "\<exists>e h. execution_history e h \<and> Logs e 0 = (full_logs h 0, 1, True, False)
     \<and> full_logs h 0 = [\<lparr> EO_Sequence = 1, EO_Stream = StreamStderr, EO_Text = ''b'' \<rparr>]"
proof -
  let ?e = "snd (appendOutput (snd (appendOutput sample_execution StreamStdout ''a'')) StreamStderr ''b'')"
  let ?h = "[\<lparr> EO_Sequence = 0, EO_Stream = StreamStdout, EO_Text = ''a'' \<rparr>, \<lparr> EO_Sequence = 1, EO_Stream = StreamStderr, EO_Text = ''b'' \<rparr>]"
  obtain out nxt running trunc where l: "Logs ?e 0 = (out, nxt, running, trunc)" by (metis prod_cases4)
  have "Logs ?e 0 = ([\<lparr> EO_Sequence = 1, EO_Stream = StreamStderr, EO_Text = ''b'' \<rparr>], 1, True, False)" by (simp add: append_sample Logs_def wrap64_def)
  moreover from this l have "\<not> trunc" by simp
  then have "out = full_logs ?h 0" using Logs_refines_history [OF sample_history _ l] by simp
  ultimately show ?thesis using l sample_history by (intro exI [of _ ?e] exI [of _ ?h]) (simp add: full_logs_def)
qed

text \<open>At the largest \<open>int64\<close> cursor the successor wraps around to a negative number. A client that is ahead of
  every fragment then receives all retained output, marked truncated, instead of nothing.\<close>

theorem Logs_max_cursor:
  assumes "execution_history e h"
  shows "Logs e (2 ^ 63 - 1) = (EX_output e, int (length h) - 1, EX_result e = None, True)"
proof -
  obtain d where d: "d \<le> length h" "EX_dropped e = int d" "EX_output e = map retained (drop d h)" "EX_nextOutput e = int (length h)"
    using refines_history [OF assms] by (auto simp: refines_def)
  have "wrap64 (2 ^ 63 - 1 + 1) = - (2 ^ 63)" by (simp add: wrap64_def)
  then show ?thesis using d by (simp add: Logs_def)
qed

theorem Logs_max_cursor_witness:
  "\<exists>e. Logs e (2 ^ 63 - 1) = (EX_output e, 1, True, True) \<and> length (EX_output e) = 2"
proof -
  let ?e = "snd (appendOutput (snd (appendOutput sample_execution StreamStdout ''a'')) StreamStderr ''b'')"
  have "EX_result ?e = None \<and> length (EX_output ?e) = 2" by (simp add: append_sample Logs_def wrap64_def)
  then show ?thesis using Logs_max_cursor [OF sample_history] by (intro exI [of _ ?e]) simp
qed

section \<open>What pruning keeps\<close>

text \<open>One step of the loop: the entry after it (\<open>None\<close>: evicted) and the two counters.\<close>

definition prune_entry :: "time \<Rightarrow> string option \<Rightarrow> nat \<Rightarrow> nat \<Rightarrow> Execution \<Rightarrow> Execution option \<times> nat \<times> nat" where
  "prune_entry now err native hot e =
     (if EX_result e = None then (Some e, native, hot)
      else
        let native1 = (if EX_Mode e \<noteq> ExecutionBackground \<and> \<not> expired now e then Suc native else native)
        in if (expired now e \<or> EX_Mode e \<noteq> ExecutionBackground \<and> native1 > executionHistoryLimit) \<and> removeLog err e = None
           then (None, native1, hot)
           else (Some (if Suc hot > executionHistoryLimit then releaseOutput e else e), native1, Suc hot))"

definition set_entry :: "string \<Rightarrow> Execution option \<Rightarrow> (string \<times> Execution) list \<Rightarrow> (string \<times> Execution) list" where
  "set_entry k v es = (case v of None \<Rightarrow> al_del k es | Some e \<Rightarrow> al_put k e es)"

lemma al_put_same: "map_of es k = Some e \<Longrightarrow> al_put k e es = es"
  by (induction es) auto

lemma prune_scan_step:
  assumes "map_of es k = Some e" and "prune_entry now (errs k) native hot e = (v, native1, hot1)"
  shows "prune_scan now errs native hot (k # ks) es =
    (case prune_scan now errs native1 hot1 ks (set_entry k v es) of (kept, es1) \<Rightarrow> (if v = None then kept else k # kept, es1))"
  using assms by (auto simp: prune_entry_def set_entry_def Let_def al_put_same split: if_splits prod.splits)

lemma map_of_set_entry [simp]: "map_of (set_entry k v es) = (map_of es)(k := v)"
  by (simp add: set_entry_def split: option.splits)

lemma distinct_set_entry [simp]: "distinct (keys es) \<Longrightarrow> distinct (keys (set_entry k v es))"
  by (simp add: set_entry_def split: option.splits)

lemma prune_scan_induct [consumes 2, case_names empty absent entry]:
  assumes "prune_scan now errs native hot ks es = (kept, es')" and "distinct ks"
    and "\<And>native hot es. P native hot [] es [] es"
    and "\<And>native hot k ks es kept es'. map_of es k = None \<Longrightarrow> k \<notin> set ks \<Longrightarrow> distinct ks \<Longrightarrow>
      prune_scan now errs native hot ks es = (kept, es') \<Longrightarrow>
      P native hot ks es kept es' \<Longrightarrow> P native hot (k # ks) es kept es'"
    and "\<And>native hot k e v native1 hot1 ks es kept es'. map_of es k = Some e \<Longrightarrow> k \<notin> set ks \<Longrightarrow> distinct ks \<Longrightarrow>
      prune_entry now (errs k) native hot e = (v, native1, hot1) \<Longrightarrow>
      prune_scan now errs native1 hot1 ks (set_entry k v es) = (kept, es') \<Longrightarrow>
      P native1 hot1 ks (set_entry k v es) kept es' \<Longrightarrow> P native hot (k # ks) es (if v = None then kept else k # kept) es'"
  shows "P native hot ks es kept es'"
  using assms(1,2)
proof (induction ks arbitrary: native hot es kept es')
  case Nil
  then show ?case using assms(3) by simp
next
  case (Cons k ks)
  show ?case
  proof (cases "map_of es k")
    case None
    then show ?thesis using Cons assms(4) by simp
  next
    case (Some e)
    obtain v native1 hot1 where v: "prune_entry now (errs k) native hot e = (v, native1, hot1)" by (metis prod_cases3)
    obtain kept1 es1 where r: "prune_scan now errs native1 hot1 ks (set_entry k v es) = (kept1, es1)" by force
    have "kept = (if v = None then kept1 else k # kept1)" "es' = es1"
      using Cons.prems(1) unfolding prune_scan_step [where errs = errs, OF Some v] r by simp_all
    then show ?thesis using assms(5) [OF Some _ _ v r] Cons.IH [OF r] Cons.prems(2) by simp
  qed
qed

lemma prune_scan_outside: "prune_scan now errs native hot ks es = (kept, es') \<Longrightarrow> distinct ks \<Longrightarrow> k \<notin> set ks \<Longrightarrow> map_of es' k = map_of es k"
  by (induction rule: prune_scan_induct) auto

lemma prune_scan_subseq: "prune_scan now errs native hot ks es = (kept, es') \<Longrightarrow> distinct ks \<Longrightarrow> subseq kept ks"
  by (induction rule: prune_scan_induct) auto

lemma subseq_set: "subseq xs ys \<Longrightarrow> x \<in> set xs \<Longrightarrow> x \<in> set ys"
  by (blast elim: list_emb_set)

lemma subseq_rev_rev: "subseq xs ys \<Longrightarrow> subseq (rev xs) (rev ys)"
  by (induction rule: list_emb.induct) (auto intro: list_emb_append_mono)

lemma prune_scan_kept:
  "prune_scan now errs native hot ks es = (kept, es') \<Longrightarrow> distinct ks \<Longrightarrow> k \<in> set ks \<Longrightarrow> k \<in> set kept \<longleftrightarrow> map_of es' k \<noteq> None"
proof (induction rule: prune_scan_induct)
  case (absent native hot k' ks es kept es')
  then show ?case using prune_scan_outside [of now errs native hot ks es kept es' k'] prune_scan_subseq [of now errs native hot ks es kept es'] 
    by (cases "k = k'") (auto simp del: not_None_eq dest: subseq_set)
next
  case (entry native hot k' e v native1 hot1 ks es kept es')
  then show ?case using prune_scan_outside [OF entry(5,3,2)] prune_scan_subseq [OF entry(5,3)]
    by (cases "k = k'") (auto simp del: not_None_eq dest: subseq_set)
qed simp

lemma prune_entry_finished: "prune_entry now err native hot e = (v, native1, hot1) \<Longrightarrow> EX_result e = None \<Longrightarrow> v = Some e"
  by (simp add: prune_entry_def)

lemma prune_entry_result:
  "prune_entry now err native hot e = (v, native1, hot1) \<Longrightarrow> v \<in> {None, Some e, Some (releaseOutput e)}"
  by (auto simp: prune_entry_def Let_def split: if_splits)

lemma prune_scan_running:
  "prune_scan now errs native hot ks es = (kept, es') \<Longrightarrow> distinct ks \<Longrightarrow> map_of es k = Some e \<Longrightarrow> EX_result e = None \<Longrightarrow>
    map_of es' k = Some e"
proof (induction rule: prune_scan_induct)
  case (entry native hot k' e' v native1 hot1 ks es kept es')
  then show ?case using prune_entry_finished [OF entry(4)] by (cases "k = k'") auto
qed auto

lemma prune_scan_origin:
  "prune_scan now errs native hot ks es = (kept, es') \<Longrightarrow> distinct ks \<Longrightarrow> map_of es' k = Some e' \<Longrightarrow>
    \<exists>e. map_of es k = Some e \<and> (e' = e \<or> e' = releaseOutput e)"
proof (induction rule: prune_scan_induct)
  case (entry native hot k' e v native1 hot1 ks es kept es')
  then show ?case using prune_entry_result [OF entry(4)] prune_scan_outside [OF entry(5,3,2)] by (cases "k = k'") auto
qed auto

lemma prune_scan_distinct:
  "prune_scan now errs native hot ks es = (kept, es') \<Longrightarrow> distinct ks \<Longrightarrow> distinct (keys es) \<Longrightarrow> distinct (keys es')"
  by (induction rule: prune_scan_induct) auto

text \<open>A finished execution that holds output.\<close>

definition hot_record :: "(string \<times> Execution) list \<Rightarrow> string \<Rightarrow> bool" where
  "hot_record es k = (case map_of es k of None \<Rightarrow> False | Some e \<Rightarrow> EX_result e \<noteq> None \<and> EX_output e \<noteq> [])"

definition native_record :: "(string \<times> Execution) list \<Rightarrow> string \<Rightarrow> bool" where
  "native_record es k = (case map_of es k of None \<Rightarrow> False | Some e \<Rightarrow> EX_result e \<noteq> None \<and> EX_Mode e \<noteq> ExecutionBackground)"

definition fresh_record :: "time \<Rightarrow> (string \<times> Execution) list \<Rightarrow> string \<Rightarrow> bool" where
  "fresh_record now es k = (case map_of es k of None \<Rightarrow> False | Some e \<Rightarrow> \<not> expired now e)"

lemma prune_entry_hot:
  assumes "prune_entry now err native hot e = (v, native1, hot1)"
  shows "hot1 = (if v \<noteq> None \<and> EX_result e \<noteq> None then Suc hot else hot)"
    and "v = Some e' \<Longrightarrow> EX_result e' \<noteq> None \<Longrightarrow> EX_output e' \<noteq> [] \<Longrightarrow> Suc hot \<le> executionHistoryLimit"
  using assms by (auto simp: prune_entry_def Let_def releaseOutput_def split: if_splits)

lemma prune_scan_hot:
  "prune_scan now errs native hot ks es = (kept, es') \<Longrightarrow> distinct ks \<Longrightarrow>
    length (filter (hot_record es') kept) \<le> executionHistoryLimit - hot"
proof (induction rule: prune_scan_induct)
  case (entry native hot k e v native1 hot1 ks es kept es')
  have k: "map_of es' k = v" using prune_scan_outside [OF entry(5,3,2)] by simp
  have res: "EX_result e' = EX_result e" if "v = Some e'" for e'
    using prune_entry_result [OF entry(4)] that by (auto simp: releaseOutput_def)
  show ?case
  proof (cases "v \<noteq> None \<and> hot_record es' k")
    case True
    then obtain e' where e': "v = Some e'" "EX_result e' \<noteq> None" "EX_output e' \<noteq> []" using k by (auto simp: hot_record_def)
    then show ?thesis using True prune_entry_hot [OF entry(4)] res [OF e'(1)] entry(6) by auto
  next
    case False
    moreover have "hot \<le> hot1" using prune_entry_hot(1) [OF entry(4)] by simp
    ultimately show ?thesis using entry(6) by (cases "v = None") auto
  qed
qed auto

lemma record_set_entry [simp]:
  "k' \<noteq> k \<Longrightarrow> native_record (set_entry k v es) k' = native_record es k'"
  "k' \<noteq> k \<Longrightarrow> fresh_record now (set_entry k v es) k' = fresh_record now es k'"
  by (simp_all add: native_record_def fresh_record_def)

lemma filter_set_entry:
  assumes "k \<notin> set ks"
  shows "filter (native_record (set_entry k v es)) ks = filter (native_record es) ks"
    and "filter (\<lambda>j. native_record (set_entry k v es) j \<and> fresh_record now (set_entry k v es) j) ks
       = filter (\<lambda>j. native_record es j \<and> fresh_record now es j) ks"
proof -
  have ne: "x \<noteq> k" if "x \<in> set ks" for x using assms that by auto
  show "filter (native_record (set_entry k v es)) ks = filter (native_record es) ks"
    by (intro filter_cong refl) (simp add: ne)
  show "filter (\<lambda>j. native_record (set_entry k v es) j \<and> fresh_record now (set_entry k v es) j) ks
      = filter (\<lambda>j. native_record es j \<and> fresh_record now es j) ks"
    by (intro filter_cong refl) (simp add: ne)
qed

lemma prune_entry_native:
  assumes "prune_entry now err native hot e = (v, native1, hot1)" and "EX_result e \<noteq> None \<Longrightarrow> removeLog err e = None"
  shows "EX_result e \<noteq> None \<and> EX_Mode e \<noteq> ExecutionBackground \<and> \<not> expired now e \<Longrightarrow>
      native1 = Suc native \<and> (v = None \<longleftrightarrow> native \<ge> executionHistoryLimit)"
    and "\<not> (EX_result e \<noteq> None \<and> EX_Mode e \<noteq> ExecutionBackground \<and> \<not> expired now e) \<Longrightarrow>
      native1 = native \<and> (v = None \<longleftrightarrow> EX_result e \<noteq> None \<and> expired now e)"
  using assms by (auto simp: prune_entry_def Let_def split: if_splits)

lemma prune_scan_native:
  "prune_scan now errs native hot ks es = (kept, es') \<Longrightarrow> distinct ks \<Longrightarrow>
    \<forall>k \<in> set ks. \<forall>e. map_of es k = Some e \<longrightarrow> EX_result e \<noteq> None \<longrightarrow> removeLog (errs k) e = None \<Longrightarrow>
    filter (native_record es) kept
      = take (executionHistoryLimit - native) (filter (\<lambda>j. native_record es j \<and> fresh_record now es j) ks)"
proof (induction rule: prune_scan_induct)
  case (absent native hot k ks es kept es')
  then have "\<not> native_record es k" by (simp add: native_record_def)
  moreover have "filter (native_record es) kept
      = take (executionHistoryLimit - native) (filter (\<lambda>j. native_record es j \<and> fresh_record now es j) ks)"
    using absent by auto
  ultimately show ?case by simp
next
  case (entry native hot k e v native1 hot1 ks es kept es')
  have "k \<notin> set kept" using prune_scan_subseq [OF entry(5,3)] entry(2) by (auto dest: subseq_set)
  moreover have "filter (native_record (set_entry k v es)) kept = take (executionHistoryLimit - native1)
      (filter (\<lambda>j. native_record (set_entry k v es) j \<and> fresh_record now (set_entry k v es) j) ks)"
    by (rule entry.IH) (use entry.hyps(2) entry.prems in \<open>auto split: if_splits\<close>)
  ultimately have IH: "filter (native_record es) kept = take (executionHistoryLimit - native1)
      (filter (\<lambda>j. native_record es j \<and> fresh_record now es j) ks)"
    by (simp add: filter_set_entry entry(2))
  have n: "native_record es k \<longleftrightarrow> EX_result e \<noteq> None \<and> EX_Mode e \<noteq> ExecutionBackground" "fresh_record now es k \<longleftrightarrow> \<not> expired now e"
    using entry(1) by (simp_all add: native_record_def fresh_record_def)
  have rm: "EX_result e \<noteq> None \<Longrightarrow> removeLog (errs k) e = None" using entry.hyps(1) entry.prems by simp
  note step = prune_entry_native [OF entry(4) rm]
  show ?case
  proof (cases "native_record es k \<and> fresh_record now es k")
    case True
    with n step(1) have "native1 = Suc native" "v = None \<longleftrightarrow> native \<ge> executionHistoryLimit" by auto
    then show ?thesis using True IH by (cases "native < executionHistoryLimit") (auto simp: Suc_diff_Suc [symmetric])
  next
    case False
    with n step(2) have "native1 = native" "v = None \<longleftrightarrow> EX_result e \<noteq> None \<and> expired now e" by auto
    then show ?thesis using False IH n by auto
  qed
qed auto

lemma prune_scan_fresh:
  "prune_scan now errs native hot ks es = (kept, es') \<Longrightarrow> distinct ks \<Longrightarrow>
    map_of es k = Some e \<Longrightarrow> EX_Mode e = ExecutionBackground \<Longrightarrow> \<not> expired now e \<Longrightarrow> map_of es' k \<noteq> None"
proof (induction rule: prune_scan_induct)
  case (entry native hot k' e' v native1 hot1 ks es kept es')
  show ?case
  proof (cases "k = k'")
    case True
    then have "e' = e" using entry.hyps(1) entry.prems(1) by simp
    then have "v \<noteq> None" using entry.hyps(4) entry.prems(2,3) by (auto simp: prune_entry_def Let_def split: if_splits)
    then show ?thesis using True prune_scan_outside [OF entry(5,3,2)] by simp
  qed (use entry in auto)
qed auto

section \<open>The registry's invariant\<close>

definition registry_ok :: "ExecutionRegistry \<Rightarrow> bool" where
  "registry_ok r \<longleftrightarrow> distinct (ER_order r) \<and> distinct (keys (ER_executions r)) \<and> set (ER_order r) = set (keys (ER_executions r))"

lemma set_keys_map_of: "k \<in> set (keys es) \<longleftrightarrow> map_of es k \<noteq> None"
  by (simp add: map_of_eq_None_iff del: not_None_eq)

lemma track_ok: "registry_ok r \<Longrightarrow> map_of (ER_executions r) (EX_ID e) = None \<Longrightarrow> registry_ok (track_execution r e)"
  by (auto simp: registry_ok_def track_execution_def map_of_eq_None_iff)

lemma killBed_entry:
  "map_of (ER_executions (killBed bed cause r)) k =
     map_option (\<lambda>e. if EX_BedID e = bed \<and> EX_Mode e \<noteq> ExecutionMain then snd (requestStop e cause) else e) (map_of (ER_executions r) k)"
proof -
  have "map_of (map (\<lambda>(k, e). (k, g e)) es) k = map_option g (map_of es k)" for g :: "Execution \<Rightarrow> Execution" and es
    by (simp add: map_of_map)
  then show ?thesis by (simp add: killBed_def)
qed

lemma killBed_ok: "registry_ok r \<Longrightarrow> registry_ok (killBed bed cause r)"
  by (simp add: registry_ok_def killBed_def case_prod_unfold comp_def)

lemma forgetBed_entry:
  assumes "registry_ok r"
  shows "map_of (ER_executions (forgetBed bed r)) k =
    (case map_of (ER_executions r) k of None \<Rightarrow> None | Some e \<Rightarrow> if EX_BedID e = bed then None else Some e)"
proof -
  have f: "map_of (filter (\<lambda>(k, e). Q k) es) k = (if Q k then map_of es k else None)" for Q and es :: "(string \<times> Execution) list"
    by (induction es) auto
  have "k \<in> set (ER_order r) \<longleftrightarrow> map_of (ER_executions r) k \<noteq> None"
    using assms by (simp add: registry_ok_def map_of_eq_None_iff del: not_None_eq)
  then show ?thesis by (auto simp: forgetBed_def Let_def f split: option.splits)
qed

lemma registry_okI:
  assumes "distinct ks" and "distinct (keys es)" and "\<And>k. k \<in> set ks \<longleftrightarrow> map_of es k \<noteq> None"
  shows "registry_ok \<lparr> ER_executions = es, ER_order = ks \<rparr>"
  using assms(1,2) unfolding registry_ok_def by (auto simp: assms(3) set_keys_map_of simp del: not_None_eq set_map)

lemma registry_ok_entry: "registry_ok r \<Longrightarrow> k \<in> set (ER_order r) \<longleftrightarrow> map_of (ER_executions r) k \<noteq> None"
  unfolding registry_ok_def by (simp only: set_keys_map_of simp_thms)

lemma forgetBed_ok:
  assumes "registry_ok r"
  shows "registry_ok (forgetBed bed r)"
proof -
  let ?r = "forgetBed bed r"
  have "k \<in> set (ER_order ?r) \<longleftrightarrow> map_of (ER_executions ?r) k \<noteq> None" for k
    unfolding forgetBed_entry [OF assms]
    using registry_ok_entry [OF assms, of k] by (auto simp: forgetBed_def Let_def split: option.splits)
  moreover have "distinct (ER_order ?r)" "distinct (keys (ER_executions ?r))"
    using assms by (simp_all add: registry_ok_def forgetBed_def Let_def distinct_map_filter)
  ultimately have "registry_ok \<lparr> ER_executions = ER_executions ?r, ER_order = ER_order ?r \<rparr>" by (intro registry_okI)
  then show ?thesis by (simp add: registry_ok_def)
qed

lemma prune_scanE:
  assumes "registry_ok r"
  obtains kept es where "prune_scan now errs 0 0 (rev (ER_order r)) (ER_executions r) = (kept, es)" and "distinct (rev (ER_order r))"
    and "prune now errs r = \<lparr> ER_executions = es, ER_order = rev kept \<rparr>"
proof -
  obtain kept es where "prune_scan now errs 0 0 (rev (ER_order r)) (ER_executions r) = (kept, es)" by force
  then show ?thesis using assms by (intro that [of kept es]) (simp_all add: prune_def registry_ok_def)
qed

lemma prune_ok:
  assumes "registry_ok r"
  shows "registry_ok (prune now errs r)"
proof (rule prune_scanE [OF assms, of now errs])
  fix kept es
  assume p: "prune_scan now errs 0 0 (rev (ER_order r)) (ER_executions r) = (kept, es)" "distinct (rev (ER_order r))"
    and r: "prune now errs r = \<lparr> ER_executions = es, ER_order = rev kept \<rparr>"
  have "k \<in> set kept \<longleftrightarrow> map_of es k \<noteq> None" for k
  proof (cases "k \<in> set (rev (ER_order r))")
    case True
    then show ?thesis by (rule prune_scan_kept [OF p])
  next
    case False
    then have "map_of es k = None"
      using prune_scan_outside [OF p False] registry_ok_entry [OF assms, of k] by (simp del: not_None_eq)
    then show ?thesis using False prune_scan_subseq [OF p] by (auto dest: subseq_set)
  qed
  moreover have "distinct kept" using prune_scan_subseq [OF p] p(2) by (metis distinct_nthsI subseq_conv_nths)
  moreover have "distinct (keys es)" using prune_scan_distinct [OF p] assms by (simp add: registry_ok_def)
  ultimately show ?thesis unfolding r by (intro registry_okI) simp_all
qed

text \<open>
  The registries the daemon can reach. Executions get fresh identifiers; between registry operations an execution changes
  in any way that keeps its identifier.
\<close>

inductive registry_reachable :: "ExecutionRegistry \<Rightarrow> bool" where
  empty: "registry_reachable newExecutionRegistry"
| tracked: "registry_reachable r \<Longrightarrow> map_of (ER_executions r) (EX_ID e) = None \<Longrightarrow> registry_reachable (track_execution r e)"
| changed: "registry_reachable r \<Longrightarrow> map_of (ER_executions r) k = Some e \<Longrightarrow> execution_step e out e' \<Longrightarrow>
    registry_reachable (r\<lparr>ER_executions := al_put k e' (ER_executions r)\<rparr>)"
| killed: "registry_reachable r \<Longrightarrow> registry_reachable (killBed bed cause r)"
| forgotten: "registry_reachable r \<Longrightarrow> registry_reachable (forgetBed bed r)"
| pruned: "registry_reachable r \<Longrightarrow> registry_reachable (prune now errs r)"

lemma registry_reachable_ok: "registry_reachable r \<Longrightarrow> registry_ok r"
proof (induction rule: registry_reachable.induct)
  case empty
  then show ?case by (simp add: newExecutionRegistry_def registry_ok_def)
next
  case (changed r k e out e')
  then have "insert k (fst ` set (ER_executions r)) = fst ` set (ER_executions r)" by (meson insert_absorb map_of_in_keys)
  then show ?case using changed(4) by (simp add: registry_ok_def)
qed (simp_all add: track_ok killBed_ok forgetBed_ok prune_ok)

text \<open>C14: what collection keeps. In every reachable registry \<open>prune\<close> keeps every running execution as it is and every
  unexpired background execution, invents nothing and keeps the order consistent with the index; at most 1024 finished executions
  keep output in memory; and when no log removal fails, of the finished foreground, session and main
  executions exactly the newest 1024 that are younger than a day remain.\<close>

theorem prune_retention:
  assumes "registry_reachable r"
  shows "registry_ok (prune now errs r) \<and> subseq (ER_order (prune now errs r)) (ER_order r)
    \<and> (\<forall>k e. map_of (ER_executions r) k = Some e \<and> EX_result e = None \<longrightarrow> map_of (ER_executions (prune now errs r)) k = Some e)
    \<and> (\<forall>k e. map_of (ER_executions r) k = Some e \<and> EX_Mode e = ExecutionBackground \<and> \<not> expired now e \<longrightarrow>
        map_of (ER_executions (prune now errs r)) k \<noteq> None)
    \<and> (\<forall>k e'. map_of (ER_executions (prune now errs r)) k = Some e' \<longrightarrow>
        (\<exists>e. map_of (ER_executions r) k = Some e \<and> (e' = e \<or> e' = releaseOutput e)))
    \<and> length (filter (hot_record (ER_executions (prune now errs r))) (ER_order (prune now errs r))) \<le> 1024
    \<and> ((\<forall>k e. map_of (ER_executions r) k = Some e \<and> EX_result e \<noteq> None \<longrightarrow> removeLog (errs k) e = None) \<longrightarrow>
        rev (filter (native_record (ER_executions r)) (ER_order (prune now errs r)))
          = take 1024 (rev (filter (\<lambda>j. native_record (ER_executions r) j \<and> fresh_record now (ER_executions r) j) (ER_order r))))"
proof -
  note ok = registry_reachable_ok [OF assms]
  obtain kept es where p: "prune_scan now errs 0 0 (rev (ER_order r)) (ER_executions r) = (kept, es)" "distinct (rev (ER_order r))"
    and r: "prune now errs r = \<lparr> ER_executions = es, ER_order = rev kept \<rparr>" by (rule prune_scanE [OF ok])
  have "subseq (rev kept) (ER_order r)" using prune_scan_subseq [OF p] by (auto dest: subseq_rev_rev)
  moreover have "length (filter (hot_record es) (rev kept)) \<le> 1024"
    using prune_scan_hot [OF p] by (simp add: executionHistoryLimit_def rev_filter [symmetric])
  moreover have "rev (filter (native_record (ER_executions r)) (rev kept))
      = take 1024 (rev (filter (\<lambda>j. native_record (ER_executions r) j \<and> fresh_record now (ER_executions r) j) (ER_order r)))"
    if "\<forall>k e. map_of (ER_executions r) k = Some e \<and> EX_result e \<noteq> None \<longrightarrow> removeLog (errs k) e = None"
    using prune_scan_native [OF p] that by (simp add: executionHistoryLimit_def rev_filter del: not_None_eq)
  ultimately show ?thesis
    using prune_ok [OF ok, of now errs] prune_scan_running [OF p] prune_scan_fresh [OF p] prune_scan_origin [OF p]
    unfolding r by (simp del: not_None_eq)
qed

definition sample_registry :: ExecutionRegistry where
  "sample_registry =
     (let e1 = snd (claimFinish sample_execution);
          old = publishResult None (Some (zero_outcome\<lparr>OC_Kind := ProcessExited\<rparr>)) None 160 None e1
      in track_execution
           ((track_execution newExecutionRegistry sample_execution)\<lparr>ER_executions := [(''exec-1'', old)]\<rparr>)
           (sample_execution\<lparr>EX_ID := ''exec-2''\<rparr>))"

lemma sample_registry_reachable: "registry_reachable sample_registry"
proof -
  define r where "r = track_execution newExecutionRegistry sample_execution"
  define e1 where "e1 = snd (claimFinish sample_execution)"
  define old where "old = publishResult None (Some (zero_outcome\<lparr>OC_Kind := ProcessExited\<rparr>)) None 160 None e1"
  have r: "ER_executions r = [(''exec-1'', sample_execution)]"
    by (simp add: r_def track_execution_def newExecutionRegistry_def sample_execution_def newExecution_def)
  have "registry_reachable r" unfolding r_def
    by (rule registry_reachable.tracked [OF registry_reachable.empty]) (simp add: newExecutionRegistry_def)
  moreover have "execution_step sample_execution [] e1" unfolding e1_def by (rule execution_step.claim) code_simp
  ultimately have "registry_reachable (r\<lparr>ER_executions := al_put ''exec-1'' e1 (ER_executions r)\<rparr>)"
    using registry_reachable.changed [of r "''exec-1''" sample_execution "[]" e1] by (simp add: r)
  then have "registry_reachable (r\<lparr>ER_executions := [(''exec-1'', e1)]\<rparr>)" by (simp add: r)
  moreover have "execution_step e1 [] old" unfolding old_def e1_def by (rule execution_step.publish) code_simp+
  ultimately have "registry_reachable (r\<lparr>ER_executions := [(''exec-1'', e1)], ER_executions := al_put ''exec-1'' old [(''exec-1'', e1)]\<rparr>)"
    using registry_reachable.changed [of "r\<lparr>ER_executions := [(''exec-1'', e1)]\<rparr>" "''exec-1''" e1 "[]" old] by simp
  then have "registry_reachable (r\<lparr>ER_executions := [(''exec-1'', old)]\<rparr>)" by simp
  then have "registry_reachable (track_execution (r\<lparr>ER_executions := [(''exec-1'', old)]\<rparr>) (sample_execution\<lparr>EX_ID := ''exec-2''\<rparr>))"
    by (rule registry_reachable.tracked) (simp add: sample_execution_def newExecution_def)
  then show ?thesis by (simp add: sample_registry_def Let_def r_def old_def e1_def)
qed

theorem prune_retention_witness:
  "\<exists>e. registry_reachable sample_registry \<and> map_of (ER_executions sample_registry) ''exec-2'' = Some e
     \<and> map_of (ER_executions (prune (100 * day) (\<lambda>_. None) sample_registry)) ''exec-2'' = Some e
     \<and> filter (native_record (ER_executions sample_registry)) (ER_order (prune (100 * day) (\<lambda>_. None) sample_registry)) = []"
proof -
  let ?e = "sample_execution\<lparr>EX_ID := ''exec-2''\<rparr>"
  have e: "map_of (ER_executions sample_registry) ''exec-2'' = Some ?e" "EX_result ?e = None" by code_simp+
  have rm: "removeLog None e = None" if "map_of (ER_executions sample_registry) k = Some e" for k e
  proof -
    have "\<forall>p \<in> set (ER_executions sample_registry). EX_log (snd p) = None" by code_simp
    then show ?thesis using map_of_SomeD [OF that] by (auto simp: removeLog_def)
  qed
  have "filter (\<lambda>j. native_record (ER_executions sample_registry) j \<and> fresh_record (100 * day) (ER_executions sample_registry) j)
      (ER_order sample_registry) = []" by code_simp
  moreover have "\<forall>k e. map_of (ER_executions sample_registry) k = Some e \<and> EX_result e \<noteq> None \<longrightarrow> removeLog None e = None"
    using rm by blast
  ultimately show ?thesis
    using prune_retention [OF sample_registry_reachable, of "100 * day" "\<lambda>_. None"] e sample_registry_reachable
    by (intro exI [of _ ?e]) simp
qed

text \<open>Tearing a bed down: every command of the bed is told to stop or is finishing already, and forgetting the bed
  drops exactly its executions.\<close>

lemma killBed_stops:
  assumes "map_of (ER_executions r) k = Some e" and "EX_BedID e = bed" and "EX_Mode e \<noteq> ExecutionMain"
    and "map_of (ER_executions (killBed bed cause r)) k = Some e'"
  shows "EX_stopCause e' \<noteq> None \<or> EX_finishing e' \<or> EX_result e' \<noteq> None"
  using assms by (auto simp: killBed_entry requestStop_def split: if_splits)

end
