(* ===== verification/Shell_Sessions.thy ===== *)
theory Shell_Sessions
  imports Bed_Configuration Go_Net "HOL-Library.Sublist"
begin

text \<open>
  Stateful shell sessions (\<open>src/internal/bed/manager/shell.go\<close>, \<open>session_settings.go\<close>): the framing of a command's output by an
  end marker, the reader that splits the shell's output into lines, and the expansion of a session's
  directory. The shell itself is outside: what it prints are the lines the framing reads. \<open>shellx.Quote\<close> is the
  argument \<open>quote\<close>. A run that waits for lines which do not come has not returned (\<open>None\<close>).
\<close>

section \<open>Lines and the end marker\<close>

abbreviation nl :: char where
  "nl \<equiv> CHR 0x0A"

text \<open>What repeated \<open>ReadString\<close> up to a newline returns of a stream, the last fragment included.\<close>

fun read_lines :: "string \<Rightarrow> string list" where
  "read_lines [] = []"
| "read_lines (c # cs) =
     (if c = nl then [c] # read_lines cs
      else case read_lines cs of [] \<Rightarrow> [[c]] | l # ls \<Rightarrow> (c # l) # ls)"

definition end_marker :: "int \<Rightarrow> string" where
  "end_marker nano = ''__hostel_end_'' @ itoa nano @ ''__''"

definition framed_command :: "string \<Rightarrow> string \<Rightarrow> string" where
  "framed_command command marker = command @ [nl] @ ''printf '' @ [CHR 0x27] @ ''%s %d'' @ [CHR 0x5C] @ ''n'' @ [CHR 0x27] @ '' '' @ marker
     @ '' '' @ [CHR 0x22] @ ''$?'' @ [CHR 0x22, nl]"

text \<open>The regular expression: the marker, a blank, digits, white space up to the end of the line; the leftmost match counts.\<close>

definition re_space :: "char \<Rightarrow> bool" where
  "re_space c = (c \<in> {CHR 0x09, CHR 0x0A, CHR 0x0C, CHR 0x0D, CHR '' ''})"

definition match_at :: "string \<Rightarrow> string \<Rightarrow> string option" where
  "match_at marker s =
     (if has_prefix s (marker @ '' '')
      then let r = drop (length marker + 1) s; ds = takeWhile is_digit r
           in if ds \<noteq> [] \<and> list_all re_space (dropWhile is_digit r) then Some ds else None
      else None)"

fun find_marker :: "string \<Rightarrow> string \<Rightarrow> (string \<times> string) option" where
  "find_marker marker [] = map_option (\<lambda>ds. ([], ds)) (match_at marker [])"
| "find_marker marker (c # cs) =
     (case match_at marker (c # cs) of
        Some ds \<Rightarrow> Some ([], ds)
      | None \<Rightarrow> map_option (\<lambda>(pre, ds). (c # pre, ds)) (find_marker marker cs))"

datatype shell_event = ShellLine string | ShellExited | ContextDone string

text \<open>The loop of \<open>runLocked\<close>: its result, what it passed to \<open>onLine\<close>, and the events it left.\<close>

fun run_lines :: "string \<Rightarrow> shell_event list \<Rightarrow> ((string, int) result \<times> string list \<times> shell_event list) option" where
  "run_lines marker [] = None"
| "run_lines marker (ContextDone e # es) = Some (Inl e, [], es)"
| "run_lines marker (ShellExited # es) = Some (Inl ''shell: session exited during run'', [], es)"
| "run_lines marker (ShellLine line # es) =
     (case find_marker marker line of
        Some (pre, ds) \<Rightarrow> Some (Inr (case atoi ds of None \<Rightarrow> 0 | Some n \<Rightarrow> n), if pre = [] then [] else [pre], es)
      | None \<Rightarrow> map_option (\<lambda>(r, outs, rest). (r, line # outs, rest)) (run_lines marker es))"

section \<open>The framing is transparent\<close>

lemma concat_read_lines: "concat (read_lines s) = s"
  by (induction s rule: read_lines.induct) (auto split: list.splits)

lemma read_lines_last:
  assumes "nl \<notin> set t"
  shows "\<exists>ls p. read_lines (out @ t @ [nl]) = ls @ [p @ t @ [nl]] \<and> out = concat ls @ p"
proof (induction out)
  case Nil
  have "read_lines (t @ [nl]) = [t @ [nl]]" using assms by (induction t) auto
  then show ?case by (intro exI [of _ "[]"]) simp
next
  case (Cons c cs)
  then obtain ls p where IH: "read_lines (cs @ t @ [nl]) = ls @ [p @ t @ [nl]]" "cs = concat ls @ p" by blast
  show ?case
  proof (cases "c = nl")
    case True
    then show ?thesis using IH by (intro exI [of _ "[c] # ls"] exI [of _ p]) simp
  next
    case False
    then show ?thesis using IH
      by (cases ls) (auto intro: exI [of _ "[]"] exI [of _ "c # p"] exI [of _ "(c # hd ls) # tl ls"])
  qed
qed

lemma match_at_prefix: "match_at m s = Some ds \<Longrightarrow> \<exists>ws. s = m @ '' '' @ ds @ ws \<and> list_all is_digit ds \<and> list_all re_space ws"
proof -
  assume "match_at m s = Some ds"
  then have p: "has_prefix s (m @ '' '')" and ds: "ds = takeWhile is_digit (drop (length m + 1) s)"
    and ws: "list_all re_space (dropWhile is_digit (drop (length m + 1) s))"
    by (auto simp: match_at_def Let_def split: if_splits)
  have "s = (m @ '' '') @ drop (length m + 1) s" using p unfolding has_prefix_def by (metis append_take_drop_id length_append list.size(3,4) One_nat_def Suc_eq_plus1_left plus_1_eq_Suc add.commute)
  moreover have "drop (length m + 1) s = ds @ dropWhile is_digit (drop (length m + 1) s)" unfolding ds by simp
  ultimately have "s = m @ '' '' @ ds @ dropWhile is_digit (drop (length m + 1) s)" by simp
  moreover have "list_all is_digit ds" unfolding ds list_all_iff by (auto dest: set_takeWhileD)
  ultimately show ?thesis using ws by blast
qed

lemma find_marker_absent: "\<not> sublist m s \<Longrightarrow> find_marker m s = None"
proof (induction s)
  case Nil
  show ?case by (simp add: match_at_def has_prefix_def)
next
  case (Cons c cs)
  have "match_at m (c # cs) = None"
  proof (cases "match_at m (c # cs)")
    case (Some ds)
    then have "sublist m (c # cs)" using match_at_prefix [OF Some] by auto
    then show ?thesis using Cons.prems by simp
  qed
  moreover have "\<not> sublist m cs" using Cons.prems by (auto simp: sublist_Cons_right)
  ultimately show ?case using Cons.IH by simp
qed

lemma match_at_frame:
  assumes "list_all is_digit ds" and "ds \<noteq> []"
  shows "match_at m (m @ '' '' @ ds @ [nl]) = Some ds"
proof -
  have "\<not> is_digit nl" by (simp add: is_digit_def)
  then have "takeWhile is_digit (ds @ [nl]) = ds" "dropWhile is_digit (ds @ [nl]) = [nl]" using assms(1) by (simp_all add: list_all_iff)
  then show ?thesis using assms(2) by (simp add: match_at_def has_prefix_iff Let_def re_space_def)
qed

text \<open>A match before the real marker would have to end in the blank, the digits and the white space after its own marker, but the last
  character of the real one is neither.\<close>

lemma match_at_early:
  assumes "\<not> is_digit u" and "\<not> re_space u" and "p \<noteq> []"
  shows "match_at (m @ [u]) (p @ (m @ [u]) @ '' '' @ ds @ [nl]) = None"
proof (rule ccontr)
  assume "match_at (m @ [u]) (p @ (m @ [u]) @ '' '' @ ds @ [nl]) \<noteq> None"
  then obtain ds' ws where eq: "p @ (m @ [u]) @ '' '' @ ds @ [nl] = (m @ [u]) @ '' '' @ ds' @ ws" and a: "list_all is_digit ds'" "list_all re_space ws"
    using match_at_prefix by blast
  let ?i = "length p + length m"
  have "(p @ (m @ [u]) @ '' '' @ ds @ [nl]) ! ?i = u" by (simp add: nth_append)
  moreover have "?i = length (m @ [u]) + (length p - 1)" using assms(3) by (cases p) simp_all
  ultimately have u: "('' '' @ ds' @ ws) ! (length p - 1) = u" unfolding eq by (simp only: nth_append_length_plus)
  have "length p - 1 < length ('' '' @ ds' @ ws)" using arg_cong [OF eq, of length] assms(3) by (cases p) auto
  then have "u \<in> set ('' '' @ ds' @ ws)" using u by (metis nth_mem)
  then show False using assms(1,2) a by (auto simp: list_all_iff re_space_def)
qed

lemma find_marker_frame:
  assumes "\<not> is_digit u" and "\<not> re_space u" and "list_all is_digit ds" and "ds \<noteq> []"
  shows "find_marker (m @ [u]) (p @ (m @ [u]) @ '' '' @ ds @ [nl]) = Some (p, ds)"
proof (induction p)
  case Nil
  have "match_at (m @ [u]) ((m @ [u]) @ '' '' @ ds @ [nl]) = Some ds" by (rule match_at_frame [OF assms(3,4)])
  then show ?case by (cases m) simp_all
next
  case (Cons c cs)
  have "match_at (m @ [u]) ((c # cs) @ (m @ [u]) @ '' '' @ ds @ [nl]) = None" by (rule match_at_early [OF assms(1,2)]) simp
  then show ?case using Cons by simp
qed

lemma run_lines_skip:
  "(\<And>l. l \<in> set ls \<Longrightarrow> find_marker m l = None) \<Longrightarrow>
   run_lines m (map ShellLine ls @ es) = map_option (\<lambda>(r, outs, rest). (r, ls @ outs, rest)) (run_lines m es)"
  by (induction ls) (auto simp: option.map_comp comp_def case_prod_unfold option.map_ident)

text \<open>C29: the framing of a session's command is transparent. Whatever a command prints, as long as the marker of this run does not
  occur in it, the run ends when the shell has printed the marker, reports the exit status, and has passed on exactly the
  bytes that were printed, whether or not they end in a newline; nothing that the shell prints later is consumed.\<close>

theorem framing_transparent:
  assumes "\<not> sublist (end_marker nano) out" and "0 \<le> code" and "code \<le> max_int64"
  shows "\<exists>outs. run_lines (end_marker nano) (map ShellLine (read_lines (out @ end_marker nano @ '' '' @ itoa code @ [nl])) @ later)
      = Some (Inr code, outs, later) \<and> concat outs = out"
proof -
  let ?m = "''__hostel_end_'' @ itoa nano @ ''_''"
  have m: "end_marker nano = ?m @ [CHR ''_'']" by (simp add: end_marker_def)
  have u: "\<not> is_digit (CHR ''_'')" "\<not> re_space (CHR ''_'')" by (simp_all add: is_digit_def re_space_def)
  have ds: "list_all is_digit (itoa code)" "itoa code \<noteq> []" using digits_itoa_pos [OF assms(2)] assms(2) by (simp_all add: itoa_def)
  have "nl \<notin> set (end_marker nano @ '' '' @ itoa code)"
    using itoa_chars [of nano] itoa_chars [of code] by (auto simp: end_marker_def digit_chars_def)
  from read_lines_last [OF this, of out] obtain ls p where
    rl: "read_lines (out @ end_marker nano @ '' '' @ itoa code @ [nl]) = ls @ [p @ end_marker nano @ '' '' @ itoa code @ [nl]]" and out: "out = concat ls @ p"
    by auto
  have "find_marker (end_marker nano) l = None" if "l \<in> set ls" for l
  proof (rule find_marker_absent)
    have "sublist l out" using that out by (metis concat.simps(2) concat_append sublist_appendI append.assoc split_list)
    then show "\<not> sublist (end_marker nano) l" using assms(1) by (meson sublist_order.order_trans)
  qed
  moreover have "find_marker (end_marker nano) (p @ end_marker nano @ '' '' @ itoa code @ [nl]) = Some (p, itoa code)"
    unfolding m by (rule find_marker_frame [OF u ds])
  ultimately have "run_lines (end_marker nano) (map ShellLine (ls @ [p @ end_marker nano @ '' '' @ itoa code @ [nl]]) @ later)
      = Some (Inr code, ls @ (if p = [] then [] else [p]), later)"
    using atoi_itoa [OF assms(2,3)] by (simp add: run_lines_skip)
  then show ?thesis unfolding rl using out by (intro exI [of _ "ls @ (if p = [] then [] else [p])"]) simp
qed

theorem framing_transparent_witness:
  "\<exists>outs. run_lines (end_marker 7) (map ShellLine (read_lines (''ab'' @ [nl] @ ''c'' @ end_marker 7 @ '' '' @ itoa 3 @ [nl])) @ [ShellExited])
     = Some (Inr 3, outs, [ShellExited]) \<and> concat outs = ''ab'' @ [nl] @ ''c''"
proof -
  have "\<not> sublist (end_marker 7) (''ab'' @ [nl] @ ''c'')" by (auto simp: end_marker_def dest: sublist_length_le)
  from framing_transparent [OF this, of 3 "[ShellExited]"] show ?thesis by (simp add: max_int64_def)
qed

section \<open>The directory of a session\<close>

definition name_char :: "char \<Rightarrow> bool" where
  "name_char c = (is_alnum c \<or> c = CHR ''_'')"

definition variable :: "string \<Rightarrow> string" where
  "variable name = [CHR 0x22] @ ''${'' @ name @ '':?}'' @ [CHR 0x22]"

text \<open>The name after a dollar sign and what follows it; \<open>None\<close>: an opening brace without its end.\<close>

definition variable_name :: "string \<Rightarrow> (string \<times> string) option" where
  "variable_name dir =
     (if has_prefix dir ''{''
      then (if CHR ''}'' \<in> set dir
            then Some (drop 1 (takeWhile (\<lambda>c. c \<noteq> CHR ''}'') dir), drop 1 (dropWhile (\<lambda>c. c \<noteq> CHR ''}'') dir))
            else None)
      else Some (takeWhile name_char dir, dropWhile name_char dir))"

lemma split_first:
  "c \<in> set s \<Longrightarrow> s = takeWhile (\<lambda>d. d \<noteq> c) s @ c # drop 1 (dropWhile (\<lambda>d. d \<noteq> c) s)"
  by (induction s) auto

lemma split_first_shorter: "c \<in> set s \<Longrightarrow> length (drop 1 (dropWhile (\<lambda>d. d \<noteq> c) s)) < length s"
  by (induction s) auto

lemma variable_name_shorter: "variable_name dir = Some (name, rest) \<Longrightarrow> length rest \<le> length dir"
  using split_first_shorter [of "CHR ''}''" dir] by (auto simp: variable_name_def length_dropWhile_le split: if_splits)

function directory_loop :: "(string \<Rightarrow> string) \<Rightarrow> string \<Rightarrow> (string, string) result" where
  "directory_loop quote dir =
     (if dir = [] then Inr []
      else if CHR ''$'' \<notin> set dir then Inr (quote dir)
      else
        (case variable_name (drop 1 (dropWhile (\<lambda>c. c \<noteq> CHR ''$'') dir)) of
           None \<Rightarrow> Inl ''unterminated directory variable''
         | Some (name, rest) \<Rightarrow>
             if \<not> env_identifier name then Inl ''directory supports only $NAME and ${NAME} variables''
             else res_bind (directory_loop quote rest)
               (\<lambda>out. Inr (quote (takeWhile (\<lambda>c. c \<noteq> CHR ''$'') dir) @ variable name @ out))))"
  by pat_completeness auto

termination
proof (relation "measure (\<lambda>(quote, dir). length dir)")
  fix quote :: "string \<Rightarrow> string" and "dir" :: string and x and name rest
  assume "dir \<noteq> []" "\<not> CHR ''$'' \<notin> set dir" "variable_name (drop 1 (dropWhile (\<lambda>c. c \<noteq> CHR ''$'') dir)) = Some x" "(name, rest) = x"
  then have "length rest < length dir"
    using variable_name_shorter [of "drop 1 (dropWhile (\<lambda>c. c \<noteq> CHR ''$'') dir)" name rest] split_first_shorter [of "CHR ''$''" dir]
    by (metis le_less_trans)
  then show "((quote, rest), (quote, dir)) \<in> measure (\<lambda>(quote, dir). length dir)" by simp
qed simp

declare directory_loop.simps [simp del]

definition directoryExpression :: "(string \<Rightarrow> string) \<Rightarrow> string \<Rightarrow> (string, string) result" where
  "directoryExpression quote dir =
     (if nl \<in> set dir \<or> CHR 0x0D \<in> set dir \<or> nul \<in> set dir then Inl ''directory contains a control character''
      else if dir = ''~'' \<or> has_prefix dir ''~/'' then res_bind (directory_loop quote (drop 1 dir)) (\<lambda>out. Inr (variable ''HOME'' @ out))
      else directory_loop quote dir)"

text \<open>The pieces of an accepted directory, what each becomes in the shell, and how it was spelled.\<close>

datatype piece = Literal string | Variable string | Home

fun piece_expression :: "(string \<Rightarrow> string) \<Rightarrow> piece \<Rightarrow> string" where
  "piece_expression quote (Literal s) = quote s"
| "piece_expression quote (Variable n) = variable n"
| "piece_expression quote Home = variable ''HOME''"

fun piece_spells :: "piece \<Rightarrow> string \<Rightarrow> bool" where
  "piece_spells (Literal s) t \<longleftrightarrow> t = s \<and> CHR ''$'' \<notin> set s"
| "piece_spells (Variable n) t \<longleftrightarrow> env_identifier n \<and> (t = ''$'' @ n \<or> t = ''${'' @ n @ ''}'')"
| "piece_spells Home t \<longleftrightarrow> t = ''~''"

definition spells :: "piece list \<Rightarrow> string \<Rightarrow> bool" where
  "spells ps dir \<longleftrightarrow> (\<exists>ts. list_all2 piece_spells ps ts \<and> dir = concat ts)"

lemma variable_name_spells:
  assumes "variable_name dir = Some (name, rest)"
  shows "dir = name @ rest \<or> dir = ''{'' @ name @ ''}'' @ rest"
proof (cases "has_prefix dir ''{''")
  case True
  then obtain v where v: "dir = CHR ''{'' # v" by (auto simp: has_prefix_iff)
  have b: "CHR ''}'' \<in> set dir" using assms True by (auto simp: variable_name_def split: if_splits)
  let ?pre = "takeWhile (\<lambda>c. c \<noteq> CHR ''}'') dir" and ?post = "drop 1 (dropWhile (\<lambda>c. c \<noteq> CHR ''}'') dir)"
  have nr: "name = drop 1 ?pre" "rest = ?post" using assms True b by (simp_all add: variable_name_def)
  have "?pre = ''{'' @ drop 1 ?pre" unfolding v by simp
  moreover have "dir = ?pre @ ''}'' @ ?post" using split_first [OF b] by simp
  ultimately have "dir = (''{'' @ drop 1 ?pre) @ ''}'' @ ?post" by argo
  then show ?thesis unfolding nr by (simp only: append.assoc simp_thms)
next
  case False
  then have "name = takeWhile name_char dir" "rest = dropWhile name_char dir" using assms by (simp_all add: variable_name_def)
  then show ?thesis by simp
qed

lemma directory_loop_pieces:
  "directory_loop quote dir = Inr out \<Longrightarrow>
   \<exists>ps. out = concat (map (piece_expression quote) ps) \<and> spells ps dir \<and> Home \<notin> set ps"
proof (induction "length dir" arbitrary: "dir" out rule: less_induct)
  case less
  let ?pre = "takeWhile (\<lambda>c. c \<noteq> CHR ''$'') dir" and ?post = "drop 1 (dropWhile (\<lambda>c. c \<noteq> CHR ''$'') dir)"
  show ?case
  proof (cases "dir = [] \<or> CHR ''$'' \<notin> set dir")
    case True
    then have "out = (if dir = [] then [] else quote dir)" using less.prems by (auto simp: directory_loop.simps [of quote "dir"])
    then have "out = concat (map (piece_expression quote) (if dir = [] then [] else [Literal dir]))" by simp
    moreover have "list_all2 piece_spells (if dir = [] then [] else [Literal dir]) (if dir = [] then [] else [dir])" using True by auto
    then have "spells (if dir = [] then [] else [Literal dir]) dir" unfolding spells_def by (intro exI conjI) (assumption, simp)
    ultimately show ?thesis by (intro exI [of _ "if dir = [] then [] else [Literal dir]"]) simp
  next
    case False
    then have d: "CHR ''$'' \<in> set dir" by blast
    from False less.prems obtain name rest out' where
      n: "variable_name ?post = Some (name, rest)" "env_identifier name" "directory_loop quote rest = Inr out'" "out = quote ?pre @ variable name @ out'"
      by (subst (asm) directory_loop.simps) (auto split: option.splits prod.splits if_splits)
    have "length rest < length dir" using variable_name_shorter [OF n(1)] split_first_shorter [OF d] by simp
    from less.hyps [OF this n(3)] obtain ps ts where ps: "out' = concat (map (piece_expression quote) ps)" "list_all2 piece_spells ps ts" "rest = concat ts" "Home \<notin> set ps"
      by (auto simp: spells_def)
    have v: "dir = ?pre @ CHR ''$'' # ?post" by (rule split_first [OF d])
    obtain t where t: "piece_spells (Variable name) t" "CHR ''$'' # ?post = t @ rest"
      using variable_name_spells [OF n(1)] n(2) by (elim disjE) (auto intro: that [of "''$'' @ name"] that [of "''${'' @ name @ ''}''"])
    have "list_all2 piece_spells (Literal ?pre # Variable name # ps) (?pre # t # ts)" using ps(2) t(1) by (auto dest: set_takeWhileD)
    moreover have "dir = concat (?pre # t # ts)" using v t(2) ps(3) by simp
    ultimately have "spells (Literal ?pre # Variable name # ps) dir" unfolding spells_def by blast
    then show ?thesis using n(4) ps(1,4) by (intro exI [of _ "Literal ?pre # Variable name # ps"]) simp
  qed
qed

text \<open>C30: a session directory cannot inject shell syntax. The expression handed to the shell for an accepted directory consists of quoted
  literal text and double-quoted references to variables with identifier names, and its pieces spell the directory exactly,
  with \<open>~\<close> at the front standing for the home directory; a directory with a newline, carriage return or NUL byte is refused.\<close>

theorem directoryExpression_quoted:
  assumes "directoryExpression quote dir = Inr expression"
  shows "\<exists>ps. expression = concat (map (piece_expression quote) ps) \<and> spells ps dir
    \<and> (\<forall>p \<in> set (drop 1 ps). p \<noteq> Home) \<and> set dir \<inter> {nl, CHR 0x0D, nul} = {}"
proof -
  have ctl: "set dir \<inter> {nl, CHR 0x0D, nul} = {}" using assms by (auto simp: directoryExpression_def split: if_splits)
  show ?thesis
  proof (cases "dir = ''~'' \<or> has_prefix dir ''~/''")
    case True
    then obtain v where v: "dir = CHR ''~'' # v" by (auto simp: has_prefix_iff)
    obtain out where ob: "directory_loop quote v = Inr out" "expression = variable ''HOME'' @ out"
      using assms True v by (auto simp: directoryExpression_def split: if_splits)
    from directory_loop_pieces [OF ob(1)] obtain ps ts where
      ps: "out = concat (map (piece_expression quote) ps)" "list_all2 piece_spells ps ts" "v = concat ts" "Home \<notin> set ps" by (auto simp: spells_def)
    have "spells (Home # ps) dir" unfolding spells_def using ps(2,3) v by (intro exI [of _ "''~'' # ts"]) simp
    then show ?thesis using ps ob(2) ctl by (intro exI [of _ "Home # ps"]) auto
  next
    case False
    then have "directory_loop quote dir = Inr expression" using assms by (auto simp: directoryExpression_def split: if_splits)
    from directory_loop_pieces [OF this] show ?thesis using ctl by (metis in_set_dropD)
  qed
qed

definition sample_quote :: "string \<Rightarrow> string" where
  "sample_quote s = [CHR 0x27] @ s @ [CHR 0x27]"

theorem directoryExpression_quoted_witness:
  "\<exists>ps. directoryExpression sample_quote ''~/a/${B}/$C;rm'' = Inr (concat (map (piece_expression sample_quote) ps))
     \<and> spells ps ''~/a/${B}/$C;rm''"
proof -
  have "is_ok (directoryExpression sample_quote ''~/a/${B}/$C;rm'')" by code_simp
  then obtain e where "directoryExpression sample_quote ''~/a/${B}/$C;rm'' = Inr e" by (auto simp: is_ok_iff)
  then show ?thesis using directoryExpression_quoted by metis
qed

section \<open>Preparing a session\<close>

text \<open>The script that sets the environment, in the order in which the map is iterated, and the script that expands the directory.\<close>

definition export_script :: "(string \<Rightarrow> string) \<Rightarrow> (string \<times> string) list \<Rightarrow> string" where
  "export_script quote env = concat (map (\<lambda>(k, v). ''export '' @ k @ ''='' @ quote v @ [nl]) env)"

definition expand_script :: "string \<Rightarrow> string" where
  "expand_script expression =
     ''(printf '' @ [CHR 0x27] @ ''%s'' @ [CHR 0x5C] @ ''n'' @ [CHR 0x27] @ '' '' @ [CHR 0x22] @ ''$PWD'' @ [CHR 0x22] @ ''; printf ''
     @ [CHR 0x27] @ ''%s'' @ [CHR 0x5C] @ ''n'' @ [CHR 0x27] @ '' '' @ expression @ '')''"

definition expanded_directory :: "string \<Rightarrow> string option" where
  "expanded_directory printed =
     (case split_on nl (trim_suffix printed [nl]) of
        [cwd, d] \<Rightarrow> if d = [] then None else Some (if path_is_abs d then d else path_join [cwd, d])
      | _ \<Rightarrow> None)"

datatype session_error = EnvironmentInvalid config_error | RunFailed string | EnvironmentRejected | DirectoryInvalid string
  | CannotExpand | InvalidExpansion | DirectoryUnresolved string | CdExited int | SessionDead

text \<open>\<open>run\<close>: one framed run in the shell, whose own state is \<open>'s\<close>: its result, the output it passes on and the next state.
  \<open>resolve\<close>: the carrier directory for a directory of the process view; \<open>path\<close> the projection back.\<close>

type_synonym 's shell_run = "string \<Rightarrow> 's \<Rightarrow> ((string, int) result \<times> string list) \<times> 's"

definition prepare_environment :: "(string \<Rightarrow> string) \<Rightarrow> 's shell_run \<Rightarrow> (string \<times> string) list \<Rightarrow> 's \<Rightarrow> (session_error, unit) result \<times> 's" where
  "prepare_environment quote run env s =
     (if env = [] then (Inr (), s)
      else case run (export_script quote env) s of
        ((Inl e, _), s') \<Rightarrow> (Inl (RunFailed e), s')
      | ((Inr code, _), s') \<Rightarrow> (if code \<noteq> 0 then Inl EnvironmentRejected else Inr (), s'))"

definition prepare_directory ::
  "(string \<Rightarrow> string) \<Rightarrow> 's shell_run \<Rightarrow> (string \<Rightarrow> (string, string) result) \<Rightarrow> string \<Rightarrow> 's \<Rightarrow> (session_error, string) result \<times> 's" where
  "prepare_directory quote run resolve dir s =
     (if dir = [] then (Inr [], s)
      else case directoryExpression quote dir of
        Inl e \<Rightarrow> (Inl (DirectoryInvalid e), s)
      | Inr expression \<Rightarrow>
          (case run (expand_script expression) s of
             ((Inl e, _), s') \<Rightarrow> (Inl (RunFailed e), s')
           | ((Inr code, printed), s') \<Rightarrow>
               (if code \<noteq> 0 then Inl CannotExpand
                else case expanded_directory (concat printed) of
                  None \<Rightarrow> Inl InvalidExpansion
                | Some d \<Rightarrow> (case resolve d of Inl e \<Rightarrow> Inl (DirectoryUnresolved e) | Inr r \<Rightarrow> Inr r), s')))"

definition prepareSession ::
  "(string \<Rightarrow> string) \<Rightarrow> 's shell_run \<Rightarrow> (string \<Rightarrow> (string, string) result) \<Rightarrow> (string \<times> string) list \<Rightarrow> string \<Rightarrow> 's
     \<Rightarrow> (session_error, string) result \<times> 's" where
  "prepareSession quote run resolve env dir s =
     (case ValidateEnv env of
        Inl e \<Rightarrow> (Inl (EnvironmentInvalid e), s)
      | Inr _ \<Rightarrow>
          (case prepare_environment quote run env s of
             (Inl e, s') \<Rightarrow> (Inl e, s')
           | (Inr _, s') \<Rightarrow> prepare_directory quote run resolve dir s'))"

text \<open>\<open>runAt\<close> under the run lock: settings first, then the change of directory as a step of its own, then the command as it was given.
  The result has what \<open>onLine\<close> received.\<close>

definition change_directory ::
  "(string \<Rightarrow> string) \<Rightarrow> 's shell_run \<Rightarrow> (string \<Rightarrow> (string, string) result) \<Rightarrow> string \<Rightarrow> 's \<Rightarrow> ((session_error, unit) result \<times> string list) \<times> 's" where
  "change_directory quote run path cwd s =
     (if cwd = [] then ((Inr (), []), s)
      else case path cwd of
        Inl e \<Rightarrow> ((Inl (DirectoryUnresolved e), []), s)
      | Inr processCwd \<Rightarrow>
          (case run (''command cd -- '' @ quote processCwd) s of
             ((Inl e, outs), s') \<Rightarrow> ((Inl (RunFailed e), outs), s')
           | ((Inr code, outs), s') \<Rightarrow> ((if code \<noteq> 0 then Inl (CdExited code) else Inr (), outs), s')))"

definition run_command :: "'s shell_run \<Rightarrow> string \<Rightarrow> 's \<Rightarrow> ((session_error, int) result \<times> string list) \<times> 's" where
  "run_command run command s = (case run command s of
     ((Inl e, outs), s') \<Rightarrow> ((Inl (RunFailed e), outs), s')
   | ((Inr code, outs), s') \<Rightarrow> ((Inr code, outs), s'))"

definition runAt ::
  "(string \<Rightarrow> string) \<Rightarrow> 's shell_run \<Rightarrow> (string \<Rightarrow> (string, string) result) \<Rightarrow> (string \<Rightarrow> (string, string) result) \<Rightarrow> bool
     \<Rightarrow> ((string \<times> string) list \<times> string) option \<Rightarrow> string \<Rightarrow> string \<Rightarrow> 's \<Rightarrow> ((session_error, int) result \<times> string list) \<times> 's" where
  "runAt quote run resolve path dead settings cwdInBed command s =
     (if dead then ((Inl SessionDead, []), s)
      else case (case settings of None \<Rightarrow> (Inr cwdInBed, s) | Some (env, dir) \<Rightarrow> prepareSession quote run resolve env dir s) of
        (Inl e, s1) \<Rightarrow> ((Inl e, []), s1)
      | (Inr cwd, s1) \<Rightarrow>
          (case change_directory quote run path cwd s1 of
             ((Inl e, outs), s2) \<Rightarrow> ((Inl e, outs), s2)
           | ((Inr _, outs), s2) \<Rightarrow>
               (case run_command run command s2 of ((r, outs'), s3) \<Rightarrow> ((r, outs @ outs'), s3))))"

text \<open>The directory that is resolved comes from the second line that the expansion printed.\<close>

lemma prepare_directory_resolved:
  assumes "prepare_directory quote run resolve dir s = (Inr d, s')" and "dir \<noteq> []"
  shows "\<exists>expression printed x. directoryExpression quote dir = Inr expression \<and> run (expand_script expression) s = ((Inr 0, printed), s')
    \<and> expanded_directory (concat printed) = Some x \<and> resolve x = Inr d"
  using assms by (auto simp: prepare_directory_def split: sum.splits option.splits prod.splits if_splits)

text \<open>A command without settings and directory is what the shell gets, and its output is what the caller gets; after a failed change of
  directory the command is not run.\<close>

lemma runAt_plain:
  "runAt quote run resolve path False None [] command s = run_command run command s"
  by (simp add: runAt_def change_directory_def split: prod.splits)

lemma runAt_cd_failed:
  assumes "path cwd = Inr p" and "cwd \<noteq> []" and "run (''command cd -- '' @ quote p) s = ((Inr code, outs), s')" and "code \<noteq> 0"
  shows "runAt quote run resolve path False None cwd command s = ((Inl (CdExited code), outs), s')"
  using assms by (simp add: runAt_def change_directory_def)

end
