(* ===== verification/Crash_IO.thy ===== *)
theory Crash_IO
  imports Hostel_Prelude
begin

text \<open>
  Computations over external state that may stop at any point: the daemon can be killed and other readers can look between any two
  effects. A computation returns, besides its result and its final state, the list of all states it passed through. \<open>io_ok\<close> is
  a judgement about such computations: an invariant of every passed state, with a precondition, a postcondition for
  success and one for failure.
\<close>

section \<open>Computations\<close>

type_synonym ('s, 'e, 'a) io = "'s \<Rightarrow> 's list \<times> ('e, 'a) result \<times> 's"

definition io_return :: "'a \<Rightarrow> ('s, 'e, 'a) io" where
  "io_return x s = ([], Inr x, s)"

definition io_fail :: "'e \<Rightarrow> ('s, 'e, 'a) io" where
  "io_fail e s = ([], Inl e, s)"

definition io_check :: "'e option \<Rightarrow> ('s, 'e, unit) io" where
  "io_check err s = ([], case err of None \<Rightarrow> Inr () | Some e \<Rightarrow> Inl e, s)"

definition io_get :: "('s \<Rightarrow> ('e, 'a) result) \<Rightarrow> ('s, 'e, 'a) io" where
  "io_get f s = ([], f s, s)"

definition io_do :: "('s \<Rightarrow> 's) \<Rightarrow> ('s, 'e, unit) io" where
  "io_do f s = ([f s], Inr (), f s)"

definition io_bind :: "('s, 'e, 'a) io \<Rightarrow> ('a \<Rightarrow> ('s, 'e, 'b) io) \<Rightarrow> ('s, 'e, 'b) io" where
  "io_bind p q s = (case p s of
     (t, Inl e, s') \<Rightarrow> (t, Inl e, s')
   | (t, Inr x, s') \<Rightarrow> (case q x s' of (t', r, s'') \<Rightarrow> (t @ t', r, s'')))"

text \<open>A call whose error is ignored.\<close>

definition io_try :: "('s, 'e, 'a) io \<Rightarrow> ('s, 'e, unit) io" where
  "io_try p s = (case p s of (t, r, s') \<Rightarrow> (t, Inr (), s'))"

text \<open>A call whose error is looked at.\<close>

definition io_outcome :: "('s, 'e, 'a) io \<Rightarrow> ('s, 'e, ('e, 'a) result) io" where
  "io_outcome p s = (case p s of (t, r, s') \<Rightarrow> (t, Inr r, s'))"

fun io_each :: "('b \<Rightarrow> ('s, 'e, unit) io) \<Rightarrow> 'b list \<Rightarrow> ('s, 'e, unit) io" where
  "io_each f [] = io_return ()"
| "io_each f (x # xs) = io_bind (f x) (\<lambda>_. io_each f xs)"

fun io_fold :: "('a \<Rightarrow> 'b \<Rightarrow> ('s, 'e, 'a) io) \<Rightarrow> 'a \<Rightarrow> 'b list \<Rightarrow> ('s, 'e, 'a) io" where
  "io_fold f a [] = io_return a"
| "io_fold f a (x # xs) = io_bind (f a x) (\<lambda>a'. io_fold f a' xs)"

fun io_map :: "('b \<Rightarrow> ('s, 'e, 'a) io) \<Rightarrow> 'b list \<Rightarrow> ('s, 'e, 'a list) io" where
  "io_map f [] = io_return []"
| "io_map f (x # xs) = io_bind (f x) (\<lambda>y. io_bind (io_map f xs) (\<lambda>ys. io_return (y # ys)))"

lemmas io_defs = io_bind_def io_check_def io_do_def io_return_def io_get_def io_fail_def io_try_def

lemma io_bind_return: "io_bind p io_return = p"
  by (auto simp: io_defs fun_eq_iff split: prod.splits sum.splits)

lemma io_map_map: "io_map f (map g xs) = io_map (\<lambda>x. f (g x)) xs"
  by (induction xs) simp_all

section \<open>Computations with an invariant of every state they pass\<close>

definition io_ok :: "('s \<Rightarrow> bool) \<Rightarrow> ('s \<Rightarrow> bool) \<Rightarrow> ('s, 'e, 'a) io \<Rightarrow> ('a \<Rightarrow> 's \<Rightarrow> bool) \<Rightarrow> ('s \<Rightarrow> bool) \<Rightarrow> bool" where
  "io_ok I P p Q E \<longleftrightarrow> (\<forall>s. I s \<longrightarrow> P s \<longrightarrow> (case p s of (t, r, s') \<Rightarrow>
     (\<forall>x \<in> set t. I x) \<and> I s' \<and> (case r of Inl e \<Rightarrow> E s' | Inr x \<Rightarrow> Q x s')))"

lemma io_okD:
  assumes "io_ok I P p Q E" and "I s" and "P s" and "p s = (t, r, s')"
  shows "\<forall>x \<in> set t. I x" and "I s'" and "r = Inl e \<Longrightarrow> E s'" and "r = Inr x \<Longrightarrow> Q x s'"
proof -
  have "(\<forall>x \<in> set t. I x) \<and> I s' \<and> (case r of Inl e \<Rightarrow> E s' | Inr x \<Rightarrow> Q x s')"
    using assms(1) [unfolded io_ok_def, rule_format, OF assms(2,3)] assms(4) by simp
  then show "\<forall>x \<in> set t. I x" "I s'" "r = Inl e \<Longrightarrow> E s'" "r = Inr x \<Longrightarrow> Q x s'" by simp_all
qed

lemma io_okI:
  assumes "\<And>s t r s'. I s \<Longrightarrow> P s \<Longrightarrow> p s = (t, r, s') \<Longrightarrow>
    (\<forall>x \<in> set t. I x) \<and> I s' \<and> (case r of Inl e \<Rightarrow> E s' | Inr x \<Rightarrow> Q x s')"
  shows "io_ok I P p Q E"
  unfolding io_ok_def
proof (intro allI impI)
  fix s assume s: "I s" "P s"
  obtain t r s' where e: "p s = (t, r, s')" by (metis prod_cases3)
  show "case p s of (t, r, s') \<Rightarrow> (\<forall>x \<in> set t. I x) \<and> I s' \<and> (case r of Inl e \<Rightarrow> E s' | Inr x \<Rightarrow> Q x s')"
    using assms [OF s e] e by simp
qed

lemma io_ok_bind:
  assumes p: "io_ok I P p R E" and q: "\<And>x. io_ok I (R x) (q x) Q E"
  shows "io_ok I P (io_bind p q) Q E"
  unfolding io_ok_def
proof (intro allI impI)
  fix s assume s: "I s" "P s"
  obtain t r s1 where ps: "p s = (t, r, s1)" by (metis prod_cases3)
  note p1 = io_okD [OF p s ps]
  show "case io_bind p q s of (t, r, s') \<Rightarrow> (\<forall>x \<in> set t. I x) \<and> I s' \<and> (case r of Inl e \<Rightarrow> E s' | Inr x \<Rightarrow> Q x s')"
  proof (cases r)
    case (Inl e)
    then show ?thesis using ps p1(1,2) p1(3) [OF Inl] by (simp add: io_bind_def)
  next
    case (Inr x)
    obtain t2 r2 s2 where qs: "q x s1 = (t2, r2, s2)" by (metis prod_cases3)
    note q1 = io_okD [OF q p1(2) p1(4) [OF Inr] qs]
    then show ?thesis using ps qs Inr p1(1) by (auto simp: io_bind_def split: sum.splits)
  qed
qed

lemma io_ok_check: "(\<And>s. P s \<Longrightarrow> E s) \<Longrightarrow> io_ok I P (io_check err) (\<lambda>_. P) E"
  by (auto simp: io_ok_def io_check_def split: option.splits)

lemma io_ok_return: "(\<And>s. I s \<Longrightarrow> P s \<Longrightarrow> Q x s) \<Longrightarrow> io_ok I P (io_return x) Q E"
  by (simp add: io_ok_def io_return_def)

lemma io_ok_do: "(\<And>s. I s \<Longrightarrow> P s \<Longrightarrow> I (f s) \<and> Q () (f s)) \<Longrightarrow> io_ok I P (io_do f) Q E"
  by (simp add: io_ok_def io_do_def)

lemma io_ok_weaken: "io_ok I P p Q E \<Longrightarrow> (\<And>x s. Q x s \<Longrightarrow> Q' x s) \<Longrightarrow> io_ok I P p Q' E"
proof (rule io_okI)
  fix s t r s' assume ok: "io_ok I P p Q E" and q: "\<And>x s. Q x s \<Longrightarrow> Q' x s" and s: "I s" "P s" "p s = (t, r, s')"
  note okD = io_okD [OF ok s]
  show "(\<forall>x \<in> set t. I x) \<and> I s' \<and> (case r of Inl e \<Rightarrow> E s' | Inr x \<Rightarrow> Q' x s')"
    using okD(1,2) okD(3) q [OF okD(4)] by (simp split: sum.split)
qed

lemma io_ok_strengthen: "io_ok I P p Q E \<Longrightarrow> (\<And>s. I s \<Longrightarrow> P' s \<Longrightarrow> P s) \<Longrightarrow> io_ok I P' p Q E"
  unfolding io_ok_def by meson

lemma io_ok_fail: "(\<And>s. I s \<Longrightarrow> P s \<Longrightarrow> E s) \<Longrightarrow> io_ok I P (io_fail e) Q E"
  by (simp add: io_ok_def io_fail_def)

lemma io_ok_get:
  "(\<And>s. I s \<Longrightarrow> P s \<Longrightarrow> (case f s of Inl e \<Rightarrow> E s | Inr x \<Rightarrow> Q x s)) \<Longrightarrow> io_ok I P (io_get f) Q E"
  by (simp add: io_ok_def io_get_def)

lemma io_ok_try:
  assumes "io_ok I P p (\<lambda>_. Q) Q"
  shows "io_ok I P (io_try p) (\<lambda>_. Q) E"
proof (rule io_okI)
  fix s t r s' assume s: "I s" "P s" and "io_try p s = (t, r, s')"
  then obtain r' where p: "p s = (t, r', s')" and r: "r = Inr ()" by (auto simp: io_try_def split: prod.splits)
  note okD = io_okD [OF assms s p]
  have "Q s'" using okD(3,4) by (cases r') simp_all
  then show "(\<forall>x \<in> set t. I x) \<and> I s' \<and> (case r of Inl e \<Rightarrow> E s' | Inr x \<Rightarrow> Q s')" using okD(1,2) r by simp
qed

text \<open>A loop with a postcondition that counts what it has done.\<close>

lemma io_ok_each:
  assumes "\<And>ys x. io_ok I (R ys) (f x) (\<lambda>_. R (ys @ [x])) E"
  shows "io_ok I (R ys) (io_each f xs) (\<lambda>_. R (ys @ xs)) E"
proof (induction xs arbitrary: ys)
  case Nil
  show ?case by (simp add: io_ok_return)
next
  case (Cons x xs)
  have "io_ok I (R ys) (io_bind (f x) (\<lambda>_. io_each f xs)) (\<lambda>_. R ((ys @ [x]) @ xs)) E"
    by (rule io_ok_bind [OF assms Cons.IH])
  then show ?case by simp
qed

end
