(* ===== verification/Local_Identity.thy ===== *)
theory Local_Identity
  imports Bed_Manager Bed_Names Crash_IO
begin

text \<open>
  Local identities and their cleanup (\<open>src/internal/bed/manager/local_identity.go\<close>).

  A cold Bed owns a directory \<open>NAME\<close> in the daemon's root, an identity record and a Unix user. A cleanup renames the directory to
  \<open>.gc-NAME\<close>, removes it, and only then gives the user up, removes the record and forgets the identity. \<open>Local\<close> is the manager with
  the part of the disk and of the privilege manager that this touches: \<open>L_entries\<close> has the directories of the root by
  name (\<open>Damaged\<close> when a removal of the tree has begun), \<open>L_records\<close> the identity records by Bed name and \<open>L_users\<close> the names whose user is held.

  The operations are computations of \<open>Crash_IO\<close>: they return every state they pass through besides their result, since the daemon can
  be killed in any of them. Which calls of the system fail is an argument (\<open>cleanup_outcome\<close>).
\<close>

section \<open>State and computations\<close>

datatype tree = Whole | Damaged

record localIdentityRecord =
  IR_ID :: string
  IR_Volumes :: "VolumeSpec list option"
  IR_Pillows :: "PillowSpec list"

record Local =
  L_m :: Manager
  L_entries :: "string \<rightharpoonup> tree"
  L_records :: "string \<rightharpoonup> localIdentityRecord"
  L_users :: "string set"

type_synonym 'a local_io = "(Local, bed_error, 'a) io"

section \<open>Removing the trees of an identity\<close>

definition gcTmpPrefix :: string where
  "gcTmpPrefix = ''.gc-''"

definition garbage :: "string \<Rightarrow> string" where
  "garbage name = gcTmpPrefix @ name"

definition local_name :: "Manager \<Rightarrow> nat \<Rightarrow> string" where
  "local_name m l = Bed_Name (M_models m (li_bed (M_locals m l)))"

text \<open>The answers of the system in one cleanup: the states of the context and the errors of the calls, in their order.\<close>

record cleanup_outcome =
  co_ctx :: "bed_error option"
  co_ctx_trees :: "bed_error option"
  co_garbage :: "bed_error option"
  co_rename :: "bed_error option"
  co_ctx_renamed :: "bed_error option"
  co_removed :: "bed_error option"
  co_lstat :: "string \<Rightarrow> bed_error option"
  co_forget :: "bed_error option"
  co_record :: "bed_error option"
  co_now :: time

text \<open>\<open>os.RemoveAll\<close>: a failed or interrupted removal leaves a damaged tree.\<close>

definition removeLocalTree :: "bed_error option \<Rightarrow> string \<Rightarrow> unit local_io" where
  "removeLocalTree err path s =
     (if L_entries s path = None then io_check err s
      else io_bind (io_do (\<lambda>s. s\<lparr>L_entries := (L_entries s)(path \<mapsto> Damaged)\<rparr>)) (\<lambda>_.
           io_bind (io_check err) (\<lambda>_.
           io_do (\<lambda>s. s\<lparr>L_entries := (L_entries s)(path := None)\<rparr>))) s)"

text \<open>\<open>os.Rename\<close>, with a missing source as success; the target of a directory must not exist.\<close>

definition rename_tree :: "bed_error option \<Rightarrow> string \<Rightarrow> string \<Rightarrow> unit local_io" where
  "rename_tree err from to s =
     io_bind (io_check err) (\<lambda>_ s.
       case L_entries s from of
         None \<Rightarrow> io_return () s
       | Some t \<Rightarrow>
           if L_entries s to \<noteq> None then ([], Inl (ErrStage ''rename''), s)
           else io_do (\<lambda>s. s\<lparr>L_entries := (L_entries s)(from := None, to \<mapsto> t)\<rparr>) s) s"

definition lstat :: "bed_error option \<Rightarrow> string \<Rightarrow> bool local_io" where
  "lstat err path s = ([], case err of Some e \<Rightarrow> Inl e | None \<Rightarrow> Inr (L_entries s path \<noteq> None), s)"

text \<open>The execution history of the Bed, which is forgotten as well, is modelled in \<open>Executions\<close>.\<close>

definition forget_identity :: "cleanup_outcome \<Rightarrow> nat \<Rightarrow> string \<Rightarrow> unit local_io" where
  "forget_identity oc l name =
     io_bind (io_check (co_forget oc)) (\<lambda>_.
     io_bind (io_do (\<lambda>s. s\<lparr>L_users := L_users s - {name}\<rparr>)) (\<lambda>_.
     io_bind (io_check (co_record oc)) (\<lambda>_.
     io_bind (io_do (\<lambda>s. s\<lparr>L_records := (L_records s)(name := None)\<rparr>)) (\<lambda>_.
     io_do (\<lambda>s. s\<lparr>L_m := forgetLocalIdentity (L_m s) l (co_now oc)\<rparr>)))))"

definition claim_trees :: "cleanup_outcome \<Rightarrow> string \<Rightarrow> bool \<Rightarrow> unit local_io" where
  "claim_trees oc name removeRoot =
     io_bind (io_check (co_ctx_trees oc)) (\<lambda>_.
     io_bind (removeLocalTree (co_garbage oc) (garbage name)) (\<lambda>_.
       if \<not> removeRoot then io_return ()
       else io_bind (rename_tree (co_rename oc) name (garbage name)) (\<lambda>_.
            io_bind (io_check (co_ctx_renamed oc)) (\<lambda>_.
            removeLocalTree (co_removed oc) (garbage name)))))"

definition removeIdentityTrees :: "cleanup_outcome \<Rightarrow> nat \<Rightarrow> bool \<Rightarrow> unit local_io" where
  "removeIdentityTrees oc l removeRoot s =
     (let name = local_name (L_m s) l in
      io_bind (claim_trees oc name removeRoot) (\<lambda>_.
      io_bind (lstat (co_lstat oc name) name) (\<lambda>present.
        if present then io_return ()
        else io_bind (lstat (co_lstat oc (garbage name)) (garbage name)) (\<lambda>present.
          if present then io_return () else forget_identity oc l name))) s)"

section \<open>One cleanup at a time\<close>

text \<open>The critical section before an attempt: the identity is gone, an attempt is running and has to be joined, the context is
  over, or this call owns the next attempt, with whether the root is removed.\<close>

datatype clean_start = CleanGone | CleanJoin | CleanCancelled bed_error | CleanOwned bool

definition set_cleanup :: "Manager \<Rightarrow> nat \<Rightarrow> localCleanup option \<Rightarrow> Manager" where
  "set_cleanup m l c = m\<lparr>M_locals := (M_locals m)(l := (M_locals m l)\<lparr>li_cleanup := c\<rparr>)\<rparr>"

definition clean_begin :: "Manager \<Rightarrow> nat \<Rightarrow> bool \<Rightarrow> bed_error option \<Rightarrow> Manager \<times> clean_start" where
  "clean_begin m l removeRoot ctx =
     (if map_of (M_localIdentities m) (local_name m l) \<noteq> Some l then (m, CleanGone)
      else
        let c = li_cleanup (M_locals m l);
            root = (removeRoot \<or> (case c of None \<Rightarrow> False | Some c \<Rightarrow> lc_removeRoot c)) in
        if (case c of None \<Rightarrow> False | Some c \<Rightarrow> lc_running c) then (m, CleanJoin)
        else case ctx of
          Some e \<Rightarrow> (m, CleanCancelled e)
        | None \<Rightarrow> (set_cleanup m l (Some \<lparr> lc_running = True, lc_removeRoot = root, lc_err = None \<rparr>), CleanOwned root))"

definition clean_finish :: "Manager \<Rightarrow> nat \<Rightarrow> bool \<Rightarrow> bed_error option \<Rightarrow> Manager" where
  "clean_finish m l root err =
     set_cleanup m l
       (if err = None \<and> map_of (M_localIdentities m) (local_name m l) = Some l then None
        else Some \<lparr> lc_running = False, lc_removeRoot = root, lc_err = err \<rparr>)"

text \<open>\<open>None\<close>: the call waits for the attempt that is running.\<close>

definition cleanLocalIdentity :: "cleanup_outcome \<Rightarrow> nat \<Rightarrow> bool \<Rightarrow> Local \<Rightarrow> Local list \<times> (bed_error, unit) result option \<times> Local" where
  "cleanLocalIdentity oc l removeRoot s =
     (case clean_begin (L_m s) l removeRoot (co_ctx oc) of
        (m, CleanGone) \<Rightarrow> ([], Some (Inr ()), s)
      | (m, CleanJoin) \<Rightarrow> ([], None, s)
      | (m, CleanCancelled e) \<Rightarrow> ([], Some (Inl e), s)
      | (m, CleanOwned root) \<Rightarrow>
          (case removeIdentityTrees oc l root (s\<lparr>L_m := m\<rparr>) of
             (t, r, s1) \<Rightarrow>
               let s2 = s1\<lparr>L_m := clean_finish (L_m s1) l root (case r of Inl e \<Rightarrow> Some e | Inr _ \<Rightarrow> None)\<rparr>
               in (s\<lparr>L_m := m\<rparr> # t @ [s2], Some r, s2)))"

text \<open>The claim of the collector of cold data, and the retry of the cleanups that are pending.\<close>

definition claim_luggage :: "Manager \<Rightarrow> string \<Rightarrow> string \<Rightarrow> Manager \<times> nat option" where
  "claim_luggage m name bedid =
     (if bedIdentityInUseLocked m name then (m, None)
      else case localIdentityLocked m name bedid of
        (m1, l) \<Rightarrow>
          if li_cleanup (M_locals m1 l) \<noteq> None then (m1, None)
          else (set_cleanup m1 l (Some \<lparr> lc_running = False, lc_removeRoot = True, lc_err = None \<rparr>), Some l))"

definition removeLuggage :: "cleanup_outcome \<Rightarrow> string \<Rightarrow> string \<Rightarrow> Local \<Rightarrow> Local list \<times> bool \<times> Local" where
  "removeLuggage oc name bedid s =
     (case claim_luggage (L_m s) name bedid of
        (m, None) \<Rightarrow> ([], False, s\<lparr>L_m := m\<rparr>)
      | (m, Some l) \<Rightarrow>
          (case cleanLocalIdentity oc l True (s\<lparr>L_m := m\<rparr>) of (t, r, s') \<Rightarrow> (s\<lparr>L_m := m\<rparr> # t, r = Some (Inr ()), s')))"

definition pending_cleanups :: "Manager \<Rightarrow> nat list" where
  "pending_cleanups m =
     map snd (filter (\<lambda>(name, l). li_cleanup (M_locals m l) \<noteq> None \<and> \<not> bedIdentityInUseLocked m name) (M_localIdentities m))"

fun retry_each :: "(nat \<Rightarrow> cleanup_outcome) \<Rightarrow> nat list \<Rightarrow> Local \<Rightarrow> Local list \<times> bed_error list \<times> Local" where
  "retry_each oc [] s = ([], [], s)"
| "retry_each oc (l # ls) s =
     (case co_ctx (oc l) of
        Some e \<Rightarrow> ([], [e], s)
      | None \<Rightarrow>
          (case cleanLocalIdentity (oc l) l False s of
             (t, r, s1) \<Rightarrow>
               (case retry_each oc ls s1 of
                  (t', errs, s2) \<Rightarrow> (t @ t', (case r of Some (Inl e) \<Rightarrow> [e] | _ \<Rightarrow> []) @ errs, s2))))"

definition RetryLocalCleanups :: "(nat \<Rightarrow> cleanup_outcome) \<Rightarrow> Local \<Rightarrow> Local list \<times> bed_error list \<times> Local" where
  "RetryLocalCleanups oc s = retry_each oc (pending_cleanups (L_m s)) s"

definition localCleanupReports :: "Manager \<Rightarrow> (string \<times> bool \<times> bed_error option) list" where
  "localCleanupReports m =
     sort_key fst (concat (map (\<lambda>(name, l). case li_cleanup (M_locals m l) of
        None \<Rightarrow> [] | Some c \<Rightarrow> [(name, lc_running c, lc_err c)]) (M_localIdentities m)))"


section \<open>Recovery at startup\<close>

text \<open>The answers of the system: reading the two directories, removing, reading and writing records, recovering the users.\<close>

record recover_outcome =
  ro_root :: "bed_error option"
  ro_identities :: "bed_error option"
  ro_remove :: "string \<Rightarrow> bed_error option"
  ro_read :: "string \<Rightarrow> bed_error option"
  ro_save :: "string \<Rightarrow> bed_error option"
  ro_user :: "string \<Rightarrow> bed_error option"
  ro_fresh :: "string \<Rightarrow> string"          \<comment> \<open>random identifiers\<close>
  ro_now :: time

text \<open>\<open>entries\<close>: the names in the root, with whether each is a directory.\<close>

definition recover_entry :: "(nat \<Rightarrow> bool) \<Rightarrow> recover_outcome \<Rightarrow> string \<times> bool \<Rightarrow> Manager \<Rightarrow> Manager" where
  "recover_entry uni ro e m =
     (let name = trim_prefix (fst e) gcTmpPrefix in
      if \<not> snd e \<or> \<not> validBedID uni name then m
      else case localIdentityLocked m name (ro_fresh ro name) of
        (m1, l) \<Rightarrow>
          if has_prefix (fst e) gcTmpPrefix
          then set_cleanup m1 l (Some \<lparr> lc_running = False, lc_removeRoot = False, lc_err = None \<rparr>) else m1)"

definition orphan_record :: "(nat \<Rightarrow> bool) \<Rightarrow> Manager \<Rightarrow> string \<times> bool \<Rightarrow> bool" where
  "orphan_record uni m f =
     (has_suffix (fst f) ''.local'' \<and> \<not> snd f \<and> validBedID uni (trim_suffix (fst f) ''.local'')
      \<and> map_of (M_localIdentities m) (trim_suffix (fst f) ''.local'') = None)"

fun remove_orphans ::
  "(nat \<Rightarrow> bool) \<Rightarrow> recover_outcome \<Rightarrow> Manager \<Rightarrow> (string \<times> bool) list \<Rightarrow> (string \<rightharpoonup> localIdentityRecord)
     \<Rightarrow> (bed_error, string \<rightharpoonup> localIdentityRecord) result" where
  "remove_orphans uni ro m [] recs = Inr recs"
| "remove_orphans uni ro m (f # fs) recs =
     (if \<not> orphan_record uni m f then remove_orphans uni ro m fs recs
      else case ro_remove ro (trim_suffix (fst f) ''.local'') of
        Some e \<Rightarrow> Inl e
      | None \<Rightarrow> remove_orphans uni ro m fs (recs(trim_suffix (fst f) ''.local'' := None)))"

definition recovered_spec :: "(PillowSpec \<Rightarrow> string) \<Rightarrow> Spec \<Rightarrow> localIdentityRecord \<Rightarrow> (bed_error, Spec) result" where
  "recovered_spec digest spec r =
     res_bind (if IR_Pillows r = [] then Inr [] else lift_error ErrPillows (Normalize digest (IR_Pillows r))) (\<lambda>ps.
     res_bind (case IR_Volumes r of
                 None \<Rightarrow> Inr None
               | Some vs \<Rightarrow> (case NormalizeVolumes vs of Inl _ \<Rightarrow> Inl ErrPathsConflict | Inr ws \<Rightarrow> Inr (Some ws))) (\<lambda>vs.
     if \<not> has_prefix (IR_ID r) ''bed-'' \<or> length (IR_ID r) \<noteq> 36 then Inl (ErrStage ''invalid local identity'')
     else Inr (spec\<lparr>SP_Pillows := ps, SP_Volumes := vs\<rparr>)))"

text \<open>The model that replaces the one of the entry when there is a record.\<close>

definition recovered_model :: "Manager \<Rightarrow> nat \<Rightarrow> string \<Rightarrow> Spec \<Rightarrow> Manager" where
  "recovered_model m l bedid spec =
     (let name = local_name m l; p = M_next m in
      m\<lparr>M_models := (M_models m)(p := (new_model m name bedid)\<lparr>Bed_Spec := spec\<rparr>),
        M_locals := (M_locals m)(l := (M_locals m l)\<lparr>li_bed := p\<rparr>), M_next := p + 1\<rparr>)"

definition saved_record :: "Manager \<Rightarrow> nat \<Rightarrow> localIdentityRecord" where
  "saved_record m l =
     (let b = M_models m (li_bed (M_locals m l)) in
      \<lparr> IR_ID = Bed_ID b, IR_Volumes = SP_Volumes (Bed_Spec b), IR_Pillows = SP_Pillows (Bed_Spec b) \<rparr>)"

definition recover_identity ::
  "(PillowSpec \<Rightarrow> string) \<Rightarrow> recover_outcome \<Rightarrow> nat \<Rightarrow> Manager \<times> (string \<rightharpoonup> localIdentityRecord)
     \<Rightarrow> (bed_error, Manager \<times> (string \<rightharpoonup> localIdentityRecord)) result" where
  "recover_identity digest ro l mr =
     (let (m, recs) = mr; name = local_name m l in
      res_bind (case ro_read ro name of Some e \<Rightarrow> Inl e | None \<Rightarrow>
                 (case recs name of
                    None \<Rightarrow> Inr m
                  | Some r \<Rightarrow> res_bind (recovered_spec digest (Bed_Spec (M_models m (li_bed (M_locals m l)))) r) (\<lambda>spec.
                      Inr (recovered_model m l (IR_ID r) spec)))) (\<lambda>m1.
      case ro_save ro name of
        Some e \<Rightarrow> Inl e
      | None \<Rightarrow>
          let m2 = setLifecycle m1 (li_bed (M_locals m1 l)) (lifecycle_status PhaseDormant False ''NotResident'' (ro_now ro)) in
          (case ro_user ro name of Some e \<Rightarrow> Inl e | None \<Rightarrow> Inr (m2, recs(name \<mapsto> saved_record m1 l)))))"

fun recover_each ::
  "(PillowSpec \<Rightarrow> string) \<Rightarrow> recover_outcome \<Rightarrow> nat list \<Rightarrow> Manager \<times> (string \<rightharpoonup> localIdentityRecord)
     \<Rightarrow> (bed_error, Manager \<times> (string \<rightharpoonup> localIdentityRecord)) result" where
  "recover_each digest ro [] mr = Inr mr"
| "recover_each digest ro (l # ls) mr = res_bind (recover_identity digest ro l mr) (recover_each digest ro ls)"

definition recoverLocalIdentities ::
  "(nat \<Rightarrow> bool) \<Rightarrow> (PillowSpec \<Rightarrow> string) \<Rightarrow> recover_outcome \<Rightarrow> (string \<times> bool) list \<Rightarrow> (string \<times> bool) list
     \<Rightarrow> (string \<rightharpoonup> localIdentityRecord) \<Rightarrow> Manager \<Rightarrow> (bed_error, Manager \<times> (string \<rightharpoonup> localIdentityRecord)) result" where
  "recoverLocalIdentities uni digest ro entries files recs m =
     (case ro_root ro of
        Some e \<Rightarrow> Inl e
      | None \<Rightarrow>
          let m1 = fold (recover_entry uni ro) entries m in
          (case ro_identities ro of
             Some e \<Rightarrow> Inl e
           | None \<Rightarrow>
               res_bind (remove_orphans uni ro m1 files recs) (\<lambda>recs1.
                 recover_each digest ro (map snd (M_localIdentities m1)) (m1, recs1))))"

section \<open>What a cleanup keeps until when\<close>

text \<open>The order in which an identity ends: the user is given up after the trees, the record goes after the user and the entry of the
  table last; the directory under the Bed's own name is never damaged.\<close>

definition forget_order :: "string \<Rightarrow> nat \<Rightarrow> Local \<Rightarrow> bool" where
  "forget_order name l s \<longleftrightarrow>
     (name \<notin> L_users s \<longrightarrow> L_entries s name = None \<and> L_entries s (garbage name) = None)
     \<and> (L_records s name = None \<longrightarrow> name \<notin> L_users s)
     \<and> (map_of (M_localIdentities (L_m s)) name \<noteq> Some l \<longrightarrow> L_records s name = None)
     \<and> L_entries s name \<noteq> Some Damaged"

definition identity_ended :: "string \<Rightarrow> Local \<Rightarrow> bool" where
  "identity_ended name s \<longleftrightarrow> L_entries s name = None \<and> L_entries s (garbage name) = None \<and> name \<notin> L_users s \<and> L_records s name = None"

lemma garbage_neq [simp]: "garbage name \<noteq> name" "name \<noteq> garbage name"
  by (auto simp: garbage_def gcTmpPrefix_def dest: arg_cong [of _ _ length])

lemma removeLocalTree_ok:
  "io_ok (forget_order name l) (\<lambda>s. L_m s = m) (removeLocalTree err (garbage name))
     (\<lambda>_ s. L_m s = m \<and> L_entries s (garbage name) = None) (\<lambda>s. L_m s = m)"
  by (auto simp: io_ok_def removeLocalTree_def io_bind_def io_do_def io_check_def forget_order_def split: option.splits)

lemma rename_tree_ok:
  "io_ok (forget_order name l) (\<lambda>s. L_m s = m \<and> L_entries s (garbage name) = None) (rename_tree err name (garbage name))
     (\<lambda>_ s. L_m s = m) (\<lambda>s. L_m s = m)"
  by (auto simp: io_ok_def rename_tree_def io_bind_def io_do_def io_check_def io_return_def forget_order_def split: option.splits)

lemma lstat_ok:
  "(\<And>s. P s \<Longrightarrow> E s) \<Longrightarrow> io_ok I P (lstat err path) (\<lambda>present s. P s \<and> present = (L_entries s path \<noteq> None)) E"
  by (auto simp: io_ok_def lstat_def split: option.splits)

lemma claim_trees_ok:
  "io_ok (forget_order name l) (\<lambda>s. L_m s = m) (claim_trees oc name root) (\<lambda>_ s. L_m s = m) (\<lambda>s. L_m s = m)"
  unfolding claim_trees_def
  by (intro io_ok_bind [OF io_ok_check] io_ok_bind [OF removeLocalTree_ok])
    (auto intro!: io_ok_return io_ok_bind [OF rename_tree_ok] io_ok_bind [OF io_ok_check] io_ok_weaken [OF removeLocalTree_ok])

lemma forget_identity_ok:
  assumes "local_name m l = name"
  shows "io_ok (forget_order name l) (\<lambda>s. L_m s = m \<and> L_entries s name = None \<and> L_entries s (garbage name) = None) (forget_identity oc l name)
     (\<lambda>_ s. L_m s = forgetLocalIdentity m l (co_now oc) \<and> identity_ended name s) (\<lambda>s. L_m s = m)"
proof -
  let ?gone = "\<lambda>s. L_m s = m \<and> L_entries s name = None \<and> L_entries s (garbage name) = None"
  have users: "io_ok (forget_order name l) ?gone (io_do (\<lambda>s. s\<lparr>L_users := L_users s - {name}\<rparr>)) (\<lambda>_ s. ?gone s \<and> name \<notin> L_users s) (\<lambda>s. L_m s = m)"
    by (rule io_ok_do) (auto simp: forget_order_def)
  have rec: "io_ok (forget_order name l) (\<lambda>s. ?gone s \<and> name \<notin> L_users s) (io_do (\<lambda>s. s\<lparr>L_records := (L_records s)(name := None)\<rparr>))
      (\<lambda>_ s. L_m s = m \<and> identity_ended name s) (\<lambda>s. L_m s = m)"
    by (rule io_ok_do) (auto simp: forget_order_def identity_ended_def)
  have tab: "io_ok (forget_order name l) (\<lambda>s. L_m s = m \<and> identity_ended name s) (io_do (\<lambda>s. s\<lparr>L_m := forgetLocalIdentity (L_m s) l (co_now oc)\<rparr>))
      (\<lambda>_ s. L_m s = forgetLocalIdentity m l (co_now oc) \<and> identity_ended name s) (\<lambda>s. L_m s = m)"
    by (rule io_ok_do) (auto simp: forget_order_def identity_ended_def)
  show ?thesis unfolding forget_identity_def
    by (intro io_ok_bind [OF io_ok_check] io_ok_bind [OF users] io_ok_bind [OF rec] tab) auto
qed

lemma removeIdentityTrees_ok:
  assumes "local_name m l = name"
  shows "io_ok (forget_order name l) (\<lambda>s. L_m s = m) (removeIdentityTrees oc l root)
     (\<lambda>_ s. L_m s = m \<and> (L_entries s name \<noteq> None \<or> L_entries s (garbage name) \<noteq> None)
        \<or> L_m s = forgetLocalIdentity m l (co_now oc) \<and> identity_ended name s) (\<lambda>s. L_m s = m)"
    (is "io_ok ?I _ _ ?Q ?E")
proof -
  have rest: "io_ok ?I ?E (io_bind (claim_trees oc name root) (\<lambda>_.
      io_bind (lstat (co_lstat oc name) name) (\<lambda>present.
        if present then io_return ()
        else io_bind (lstat (co_lstat oc (garbage name)) (garbage name)) (\<lambda>present.
          if present then io_return () else forget_identity oc l name)))) ?Q ?E"
  proof (rule io_ok_bind [OF claim_trees_ok], rule io_ok_bind [OF lstat_ok], simp)
    fix x present
    show "io_ok ?I (\<lambda>s. L_m s = m \<and> present = (L_entries s name \<noteq> None))
       (if present then io_return () else io_bind (lstat (co_lstat oc (garbage name)) (garbage name)) (\<lambda>present.
          if present then io_return () else forget_identity oc l name)) ?Q ?E"
    proof (cases present)
      case False
      have "io_ok ?I (\<lambda>s. (L_m s = m \<and> present = (L_entries s name \<noteq> None)) \<and> present' = (L_entries s (garbage name) \<noteq> None))
         (if present' then io_return () else forget_identity oc l name) ?Q ?E" for present'
      proof (cases present')
        case True
        then show ?thesis by (auto intro!: io_ok_return)
      next
        case f: False
        have "io_ok ?I (\<lambda>s. L_m s = m \<and> L_entries s name = None \<and> L_entries s (garbage name) = None) (forget_identity oc l name) ?Q ?E"
          using forget_identity_ok [OF assms] by (rule io_ok_weaken) simp
        then show ?thesis using f False by simp
      qed
      then show ?thesis using False by (auto intro!: io_ok_bind [OF lstat_ok])
    qed (auto intro!: io_ok_return)
  qed
  have "removeIdentityTrees oc l root s = (io_bind (claim_trees oc name root) (\<lambda>_.
      io_bind (lstat (co_lstat oc name) name) (\<lambda>present.
        if present then io_return ()
        else io_bind (lstat (co_lstat oc (garbage name)) (garbage name)) (\<lambda>present.
          if present then io_return () else forget_identity oc l name)))) s" if "L_m s = m" for s
    using that assms by (simp add: removeIdentityTrees_def Let_def)
  then show ?thesis using rest unfolding io_ok_def by simp
qed


lemma local_name_set_cleanup [simp]:
  "local_name (set_cleanup m l c) k = local_name m k" "M_localIdentities (set_cleanup m l c) = M_localIdentities m"
  "li_cleanup (M_locals (set_cleanup m l c) k) = (if k = l then c else li_cleanup (M_locals m k))"
  by (auto simp: local_name_def set_cleanup_def)

lemma forget_order_memory [simp]:
  "forget_order name l (s\<lparr>L_m := set_cleanup m k c\<rparr>) = forget_order name l (s\<lparr>L_m := m\<rparr>)"
  by (simp add: forget_order_def)

lemma clean_begin_owned:
  "clean_begin m l root ctx = (m', CleanOwned r) \<Longrightarrow>
     map_of (M_localIdentities m) (local_name m l) = Some l \<and> (\<exists>c. m' = set_cleanup m l c)"
  by (auto simp: clean_begin_def Let_def split: if_splits option.splits)

lemma clean_attempt:
  assumes "local_name (L_m s) l = name" and "map_of (M_localIdentities (L_m s)) name = Some l" and "forget_order name l s"
    and "cleanLocalIdentity oc l removeRoot s = (t, r, s')" and "clean_begin (L_m s) l removeRoot (co_ctx oc) = (m, CleanOwned root)"
  shows "(\<forall>x \<in> set t. forget_order name l x)
    \<and> (r = Some (Inr ()) \<longrightarrow>
        identity_ended name s' \<and> map_of (M_localIdentities (L_m s')) name = None
        \<or> (L_entries s' name \<noteq> None \<or> L_entries s' (garbage name) \<noteq> None)
            \<and> map_of (M_localIdentities (L_m s')) name = Some l \<and> li_cleanup (M_locals (L_m s') l) = None)
    \<and> (\<forall>e. r = Some (Inl e) \<longrightarrow> map_of (M_localIdentities (L_m s')) name = Some l
        \<and> (s' = s \<or> (\<exists>c. li_cleanup (M_locals (L_m s') l) = Some c \<and> lc_err c = Some e \<and> \<not> lc_running c)))"
proof -
  obtain c where m: "m = set_cleanup (L_m s) l c" using assms(5) clean_begin_owned by blast
  let ?s = "s\<lparr>L_m := m\<rparr>"
  obtain t1 r1 s1 where rt: "removeIdentityTrees oc l root ?s = (t1, r1, s1)" by (metis prod_cases3)
  have res: "t = ?s # t1 @ [s']" "r = Some r1"
    "s' = s1\<lparr>L_m := clean_finish (L_m s1) l root (case r1 of Inl e \<Rightarrow> Some e | Inr _ \<Rightarrow> None)\<rparr>"
    using assms(4,5) rt by (auto simp: cleanLocalIdentity_def Let_def)
  have name: "local_name m l = name" and tab: "map_of (M_localIdentities m) name = Some l" using assms(1,2) m by simp_all
  have start: "forget_order name l ?s" using assms(3) m by simp
  note ok = io_okD [OF removeIdentityTrees_ok [OF name] start _ rt, simplified]
  have s': "forget_order name l s'" using ok(2) unfolding res(3) clean_finish_def by simp
  show ?thesis
  proof (cases r1)
    case (Inl e)
    then have "L_m s1 = m" using ok(3) by blast
    then show ?thesis using res Inl ok(1) start s' tab by (simp add: clean_finish_def)
  next
    case (Inr u)
    then consider "L_m s1 = m" "L_entries s1 name \<noteq> None \<or> L_entries s1 (garbage name) \<noteq> None"
      | "L_m s1 = forgetLocalIdentity m l (co_now oc)" "identity_ended name s1" using ok(4) by auto
    then show ?thesis
    proof cases
      case 1
      then show ?thesis using res Inr ok(1) start s' tab name by (simp add: clean_finish_def)
    next
      case 2
      have "map_of (M_localIdentities (L_m s1)) name = None" using 2(1) tab name unfolding local_name_def
        by (simp add: forgetLocalIdentity_def Let_def setLifecycle_def)
      then show ?thesis using res Inr ok(1) start s' 2(2) by (simp add: clean_finish_def identity_ended_def)
    qed
  qed
qed

lemma cleanup_states:
  assumes "local_name (L_m s) l = name" and "map_of (M_localIdentities (L_m s)) name = Some l" and "forget_order name l s"
    and "cleanLocalIdentity oc l removeRoot s = (t, r, s')"
  shows "(\<forall>x \<in> set t. forget_order name l x)
    \<and> (r = Some (Inr ()) \<longrightarrow>
        identity_ended name s' \<and> map_of (M_localIdentities (L_m s')) name = None
        \<or> (L_entries s' name \<noteq> None \<or> L_entries s' (garbage name) \<noteq> None)
            \<and> map_of (M_localIdentities (L_m s')) name = Some l \<and> li_cleanup (M_locals (L_m s') l) = None)
    \<and> (\<forall>e. r = Some (Inl e) \<longrightarrow> map_of (M_localIdentities (L_m s')) name = Some l
        \<and> (s' = s \<or> (\<exists>c. li_cleanup (M_locals (L_m s') l) = Some c \<and> lc_err c = Some e \<and> \<not> lc_running c)))"
proof (cases "clean_begin (L_m s) l removeRoot (co_ctx oc)")
  case (Pair m st)
  show ?thesis
  proof (cases st)
    case CleanGone
    then show ?thesis using Pair assms(1,2) by (auto simp: clean_begin_def Let_def split: if_splits option.splits)
  next
    case CleanJoin
    then show ?thesis using Pair assms(2,4) by (simp add: cleanLocalIdentity_def)
  next
    case (CleanCancelled e)
    then show ?thesis using Pair assms(2,4) by (auto simp: cleanLocalIdentity_def)
  next
    case (CleanOwned root)
    then show ?thesis using Pair clean_attempt [OF assms] by blast
  qed
qed


text \<open>C31: an identity ends in the documented order, whatever fails and wherever the daemon is killed: in every state that a cleanup passes,
  the user is held until both trees are gone, the record is kept until the user is given up, the identity is known until the record is
  removed, and the directory of the Bed's own name is never partly removed. When the cleanup succeeds, either everything of the
  identity is gone or a tree is left and the identity is kept without a fence; when it fails, the identity and
  its fence stay, with the error.\<close>

theorem cleanup_ends_identity_last:
  assumes "local_name (L_m s) l = name" and "map_of (M_localIdentities (L_m s)) name = Some l" and "forget_order name l s"
    and "cleanLocalIdentity oc l removeRoot s = (t, r, s')"
  shows "(\<forall>x \<in> set t. forget_order name l x)
    \<and> (r = Some (Inr ()) \<longrightarrow>
        identity_ended name s' \<and> map_of (M_localIdentities (L_m s')) name = None
        \<or> (L_entries s' name \<noteq> None \<or> L_entries s' (garbage name) \<noteq> None)
            \<and> map_of (M_localIdentities (L_m s')) name = Some l \<and> li_cleanup (M_locals (L_m s') l) = None)
    \<and> (\<forall>e. r = Some (Inl e) \<longrightarrow> map_of (M_localIdentities (L_m s')) name = Some l
        \<and> (s' = s \<or> (\<exists>c. li_cleanup (M_locals (L_m s') l) = Some c \<and> lc_err c = Some e \<and> \<not> lc_running c)))"
  using assms by (rule cleanup_states)

section \<open>Recovery after a crash\<close>

definition identities_ok :: "Manager \<Rightarrow> bool" where
  "identities_ok m \<longleftrightarrow> (\<forall>(name, l) \<in> set (M_localIdentities m).
     l < M_next m \<and> li_bed (M_locals m l) < M_next m \<and> local_name m l = name)"

definition fenced :: "Manager \<Rightarrow> string \<Rightarrow> bool" where
  "fenced m name \<longleftrightarrow> (\<exists>l c. map_of (M_localIdentities m) name = Some l \<and> li_cleanup (M_locals m l) = Some c \<and> \<not> lc_running c)"

lemma fenced_refuses: "fenced m name \<Longrightarrow> waitForLocalCleanup m name = CleanupRefused (ErrCleanupPending name)"
  by (auto simp: fenced_def waitForLocalCleanup_def)

lemma set_al_put: "set (al_put k v xs) \<subseteq> insert (k, v) (set xs)"
  by (induction xs) (auto split: if_splits)

lemma identities_okD: "identities_ok m \<Longrightarrow> map_of (M_localIdentities m) name = Some l \<Longrightarrow> l < M_next m"
  by (auto simp: identities_ok_def dest!: map_of_SomeD)

lemma localIdentityLocked_spec:
  assumes "identities_ok m" and "localIdentityLocked m name bedid = (m', l)"
  shows "identities_ok m'" and "map_of (M_localIdentities m') = (map_of (M_localIdentities m))(name \<mapsto> l)" and "fenced m n \<Longrightarrow> fenced m' n"
proof -
  show "map_of (M_localIdentities m') = (map_of (M_localIdentities m))(name \<mapsto> l)"
    using assms(2) by (auto simp: localIdentityLocked_def Let_def split: option.splits)
  show "fenced m n \<Longrightarrow> fenced m' n"
    using assms identities_okD [OF assms(1)] by (fastforce simp: localIdentityLocked_def fenced_def Let_def split: option.splits)
  show "identities_ok m'"
  proof (cases "map_of (M_localIdentities m) name")
    case None
    have old: "k < M_next m \<and> li_bed (M_locals m k) < M_next m \<and> local_name m k = n" if "(n, k) \<in> set (M_localIdentities m)" for n k
      using assms(1) that by (auto simp: identities_ok_def)
    have m': "m' = m\<lparr>M_models := (M_models m)(M_next m := new_model m name bedid),
             M_locals := (M_locals m)(M_next m + 1 := \<lparr> li_bed = M_next m, li_cleanup = None \<rparr>),
             M_localIdentities := al_put name (M_next m + 1) (M_localIdentities m), M_next := M_next m + 2\<rparr>"
      using assms(2) None by (auto simp: localIdentityLocked_def Let_def)
    show ?thesis unfolding identities_ok_def
    proof (rule ballI, clarify)
      fix n k assume "(n, k) \<in> set (M_localIdentities m')"
      then have "(n, k) = (name, M_next m + 1) \<or> (n, k) \<in> set (M_localIdentities m)" using set_al_put unfolding m' by fastforce
      then show "k < M_next m' \<and> li_bed (M_locals m' k) < M_next m' \<and> local_name m' k = n"
        using old [of n k] unfolding m' by (auto simp: local_name_def new_model_def)
    qed
  next
    case (Some k)
    then show ?thesis using assms by (simp add: localIdentityLocked_def)
  qed
qed

lemma identities_ok_set_cleanup [simp]: "identities_ok (set_cleanup m l c) = identities_ok m"
  by (auto simp: identities_ok_def local_name_def set_cleanup_def)

lemma fenced_set_cleanup: "fenced m n \<Longrightarrow> fenced (set_cleanup m l (Some \<lparr> lc_running = False, lc_removeRoot = root, lc_err = err \<rparr>)) n"
  by (auto simp: fenced_def)

lemma recover_entry_spec:
  assumes "identities_ok m"
  shows "identities_ok (recover_entry uni ro e m)" and "fenced m n \<Longrightarrow> fenced (recover_entry uni ro e m) n"
    and "map_of (M_localIdentities (recover_entry uni ro e m)) n = None \<longleftrightarrow> map_of (M_localIdentities m) n = None
           \<and> \<not> (snd e \<and> validBedID uni n \<and> n = trim_prefix (fst e) gcTmpPrefix)"
    and "snd e \<Longrightarrow> validBedID uni n \<Longrightarrow> fst e = garbage n \<Longrightarrow> fenced (recover_entry uni ro e m) n"
proof -
  let ?name = "trim_prefix (fst e) gcTmpPrefix"
  obtain m1 l where li: "localIdentityLocked m ?name (ro_fresh ro ?name) = (m1, l)" by fastforce
  note spec = localIdentityLocked_spec [OF assms li]
  have split: "recover_entry uni ro e m = (if \<not> snd e \<or> \<not> validBedID uni ?name then m
     else if has_prefix (fst e) gcTmpPrefix
     then set_cleanup m1 l (Some \<lparr> lc_running = False, lc_removeRoot = False, lc_err = None \<rparr>) else m1)"
    by (simp add: recover_entry_def Let_def li)
  show "identities_ok (recover_entry uni ro e m)" unfolding split using spec(1) assms by simp
  show "fenced m n \<Longrightarrow> fenced (recover_entry uni ro e m) n" unfolding split using spec(3) fenced_set_cleanup by simp
  show "map_of (M_localIdentities (recover_entry uni ro e m)) n = None \<longleftrightarrow> map_of (M_localIdentities m) n = None
           \<and> \<not> (snd e \<and> validBedID uni n \<and> n = ?name)"
    unfolding split using spec(2) by auto
  show "fenced (recover_entry uni ro e m) n" if "snd e" "validBedID uni n" "fst e = garbage n"
  proof -
    have "has_prefix (fst e) gcTmpPrefix" "?name = n" using that(3) by (simp_all add: garbage_def has_prefix_iff trim_prefix_def)
    then show ?thesis unfolding split using that spec(2) by (auto simp: fenced_def)
  qed
qed

lemma recover_entries_spec:
  assumes "identities_ok m"
  shows "identities_ok (fold (recover_entry uni ro) es m)"
    and "map_of (M_localIdentities (fold (recover_entry uni ro) es m)) n = None \<longleftrightarrow> map_of (M_localIdentities m) n = None
           \<and> \<not> (\<exists>e \<in> set es. snd e \<and> validBedID uni n \<and> n = trim_prefix (fst e) gcTmpPrefix)"
    and "fenced m n \<or> validBedID uni n \<and> (garbage n, True) \<in> set es \<Longrightarrow> fenced (fold (recover_entry uni ro) es m) n"
  using assms
proof (induction es arbitrary: m)
  case (Cons e es)
  {
    case 1
    then show ?case using Cons.IH(1) recover_entry_spec(1) by simp
  next
    case 2
    then show ?case using Cons.IH(2) [of "recover_entry uni ro e m"] recover_entry_spec(1,3) by auto
  next
    case 3
    have "fenced (recover_entry uni ro e m) n \<or> validBedID uni n \<and> (garbage n, True) \<in> set es"
      using 3 recover_entry_spec(2,4) [OF 3(2), where uni = uni and ro = ro and e = e and n = n] by auto
    then show ?case using Cons.IH(3) [of "recover_entry uni ro e m"] recover_entry_spec(1) [OF 3(2)] by simp
  }
qed auto


lemma trim_local: "trim_suffix (n @ ''.local'') ''.local'' = n" "has_suffix (n @ ''.local'') ''.local''"
  by (simp_all add: trim_suffix_def has_suffix_iff)

lemma remove_orphans_spec:
  assumes "remove_orphans uni ro m fs recs = Inr recs'"
  shows "recs' n = recs n \<or> recs' n = None"
    and "(n @ ''.local'', False) \<in> set fs \<Longrightarrow> validBedID uni n \<Longrightarrow> map_of (M_localIdentities m) n = None \<Longrightarrow> recs' n = None"
  using assms
proof (induction fs arbitrary: recs)
  case (Cons f fs)
  {
    case 1
    then show ?case using Cons.IH(1) by (fastforce split: if_splits option.splits)
  next
    case 2
    show ?case
    proof (cases "f = (n @ ''.local'', False)")
      case True
      then have "orphan_record uni m f" using 2 by (simp add: orphan_record_def trim_local)
      then have "remove_orphans uni ro m fs (recs(n := None)) = Inr recs'"
        using 2 True by (auto simp: trim_local split: option.splits)
      then show ?thesis using Cons.IH(1) [of "recs(n := None)"] by fastforce
    next
      case False
      then show ?thesis using Cons.IH(2) 2 by (fastforce split: if_splits option.splits)
    qed
  }
qed auto

text \<open>What the last loop of the recovery leaves alone.\<close>

definition same_fences :: "Manager \<Rightarrow> Manager \<Rightarrow> bool" where
  "same_fences m m' \<longleftrightarrow> M_localIdentities m' = M_localIdentities m \<and> (\<forall>k. li_cleanup (M_locals m' k) = li_cleanup (M_locals m k))"

lemma recovered_model_spec:
  assumes "identities_ok m" and "(name, l) \<in> set (M_localIdentities m)"
  shows "identities_ok (recovered_model m l bedid spec)" and "same_fences m (recovered_model m l bedid spec)"
  using assms by (fastforce simp: identities_ok_def recovered_model_def same_fences_def local_name_def new_model_def Let_def)+

lemma identities_ok_setLifecycle [simp]: "identities_ok (setLifecycle m p st) = identities_ok m"
  by (simp add: identities_ok_def local_name_def setLifecycle_def)

lemma recover_identity_spec:
  assumes "identities_ok m" and "(name, l) \<in> set (M_localIdentities m)" and "recover_identity digest ro l (m, recs) = Inr (m', recs')"
  shows "identities_ok m'" and "same_fences m m'" and "n \<noteq> name \<Longrightarrow> recs' n = recs n"
proof -
  have name: "local_name m l = name" using assms(1,2) by (auto simp: identities_ok_def)
  obtain m1 where m1: "m1 = m \<or> (\<exists>bedid spec. m1 = recovered_model m l bedid spec)"
    and m': "m' = setLifecycle m1 (li_bed (M_locals m1 l)) (lifecycle_status PhaseDormant False ''NotResident'' (ro_now ro))"
    and r': "recs' = recs(name \<mapsto> saved_record m1 l)"
    using assms(3) name by (auto simp: recover_identity_def Let_def split: option.splits)
  have "identities_ok m1" "same_fences m m1" using m1 recovered_model_spec [OF assms(1,2)] assms(1) by (auto simp: same_fences_def)
  then show "identities_ok m'" "same_fences m m'" unfolding m' by (simp, simp add: same_fences_def setLifecycle_def)
  show "n \<noteq> name \<Longrightarrow> recs' n = recs n" unfolding r' by simp
qed

lemma recover_each_spec:
  assumes "identities_ok m" and "set ls \<subseteq> snd ` set (M_localIdentities m)" and "recover_each digest ro ls (m, recs) = Inr (m', recs')"
  shows "same_fences m m' \<and> (n \<notin> fst ` set (M_localIdentities m) \<longrightarrow> recs' n = recs n)"
  using assms
proof (induction ls arbitrary: m recs)
  case Nil
  then show ?case by (simp add: same_fences_def)
next
  case (Cons l ls)
  obtain name where l: "(name, l) \<in> set (M_localIdentities m)" using Cons.prems(2) by force
  obtain m1 recs1 where r: "recover_identity digest ro l (m, recs) = Inr (m1, recs1)" "recover_each digest ro ls (m1, recs1) = Inr (m', recs')"
    using Cons.prems(3) by auto
  note spec = recover_identity_spec [OF Cons.prems(1) l r(1)]
  have "M_localIdentities m1 = M_localIdentities m" using spec(2) by (simp add: same_fences_def)
  then have "same_fences m1 m' \<and> (n \<notin> fst ` set (M_localIdentities m) \<longrightarrow> recs' n = recs1 n)"
    using Cons.IH [OF spec(1) _ r(2)] Cons.prems(2) by simp
  moreover have "recs1 n = recs n" if "n \<notin> fst ` set (M_localIdentities m)"
  proof (rule spec(3))
    show "n \<noteq> name" using that l by (auto simp: image_iff)
  qed
  ultimately show ?case using spec(2) by (simp add: same_fences_def)
qed

lemma recover_spec:
  assumes "M_localIdentities m = []" and "recoverLocalIdentities uni digest ro entries files recs m = Inr (m', recs')"
  shows "validBedID uni n \<Longrightarrow> (garbage n, True) \<in> set entries \<Longrightarrow> fenced m' n"
    and "map_of (M_localIdentities m') n = None \<longleftrightarrow> \<not> (\<exists>e \<in> set entries. snd e \<and> validBedID uni n \<and> n = trim_prefix (fst e) gcTmpPrefix)"
    and "validBedID uni n \<Longrightarrow> map_of (M_localIdentities m') n = None \<Longrightarrow> (recs n \<noteq> None \<longrightarrow> (n @ ''.local'', False) \<in> set files) \<Longrightarrow> recs' n = None"
proof -
  let ?m1 = "fold (recover_entry uni ro) entries m"
  have start: "identities_ok m" using assms(1) by (simp add: identities_ok_def)
  note ents = recover_entries_spec [OF start]
  obtain recs1 where r: "remove_orphans uni ro ?m1 files recs = Inr recs1"
      "recover_each digest ro (map snd (M_localIdentities ?m1)) (?m1, recs1) = Inr (m', recs')"
    using assms(2) by (auto simp: recoverLocalIdentities_def Let_def split: option.splits)
  have each: "same_fences ?m1 m' \<and> (n \<notin> fst ` set (M_localIdentities ?m1) \<longrightarrow> recs' n = recs1 n)" for n
    using recover_each_spec [OF ents(1) _ r(2)] by simp
  then have ids: "M_localIdentities m' = M_localIdentities ?m1" and cl: "\<And>k. li_cleanup (M_locals m' k) = li_cleanup (M_locals ?m1 k)"
    by (auto simp: same_fences_def)
  show "validBedID uni n \<Longrightarrow> (garbage n, True) \<in> set entries \<Longrightarrow> fenced m' n"
    using ents(3) unfolding fenced_def ids cl by blast
  show "map_of (M_localIdentities m') n = None \<longleftrightarrow> \<not> (\<exists>e \<in> set entries. snd e \<and> validBedID uni n \<and> n = trim_prefix (fst e) gcTmpPrefix)"
    unfolding ids ents(2) using assms(1) by simp
  show "recs' n = None" if "validBedID uni n" "map_of (M_localIdentities m') n = None" "recs n \<noteq> None \<longrightarrow> (n @ ''.local'', False) \<in> set files"
  proof -
    have "recs1 n = None" using remove_orphans_spec [OF r(1), of n] that unfolding ids by metis
    then show ?thesis using each [of n] that(2) unfolding ids map_of_eq_None_iff by simp
  qed
qed


lemma trim_own: "validBedID uni name \<Longrightarrow> trim_prefix name gcTmpPrefix = name"
  using validBedID_no_dot by (auto simp: trim_prefix_def gcTmpPrefix_def has_prefix_iff)

lemma trim_gc: "validBedID uni name \<Longrightarrow> name = trim_prefix f gcTmpPrefix \<Longrightarrow> f = name \<or> f = garbage name"
  by (auto simp: trim_prefix_def garbage_def has_prefix_iff split: if_splits)

text \<open>C32: the daemon may be killed in any state of a cleanup, or when it begins. After the next start, the directory of the Bed is whole if it is
  there; a removal that had begun is fenced, so that creating the Bed is refused until it is completed; and if both
  trees were already removed, neither an identity nor its record is left.\<close>

theorem crash_during_cleanup_recovered:
  assumes "local_name (L_m s) l = name" and "map_of (M_localIdentities (L_m s)) name = Some l" and "forget_order name l s"
    and "cleanLocalIdentity oc l removeRoot s = (t, r, s')" and "x \<in> set (s # t)" and "validBedID uni name"
    and "\<forall>n. (n, True) \<in> set entries \<longleftrightarrow> L_entries x n \<noteq> None"
    and "\<forall>n. (n @ ''.local'', False) \<in> set files \<longleftrightarrow> L_records x n \<noteq> None"
    and "M_localIdentities m = []" and "recoverLocalIdentities uni digest ro entries files (L_records x) m = Inr (m', recs)"
  shows "L_entries x name \<noteq> Some Damaged
    \<and> (L_entries x name \<noteq> None \<longrightarrow> map_of (M_localIdentities m') name \<noteq> None)
    \<and> (L_entries x (garbage name) \<noteq> None \<longrightarrow> waitForLocalCleanup m' name = CleanupRefused (ErrCleanupPending name))
    \<and> (L_entries x name = None \<and> L_entries x (garbage name) = None \<longrightarrow> map_of (M_localIdentities m') name = None \<and> recs name = None)"
proof (intro conjI impI)
  have "\<forall>x \<in> set t. forget_order name l x" using cleanup_states [OF assms(1-4)] by simp
  then show "L_entries x name \<noteq> Some Damaged" using assms(3,5) by (auto simp: forget_order_def)
  note rec = recover_spec [OF assms(9,10), of name]
  show "map_of (M_localIdentities m') name \<noteq> None" if "L_entries x name \<noteq> None"
    unfolding rec(2) using that assms(6,7) trim_own [OF assms(6)] by (metis fst_conv snd_conv)
  show "waitForLocalCleanup m' name = CleanupRefused (ErrCleanupPending name)" if "L_entries x (garbage name) \<noteq> None"
    using that assms(7) by (intro fenced_refuses rec(1) [OF assms(6)]) simp
  assume gone: "L_entries x name = None \<and> L_entries x (garbage name) = None"
  have "\<not> (\<exists>e \<in> set entries. snd e \<and> validBedID uni name \<and> name = trim_prefix (fst e) gcTmpPrefix)"
    using gone assms(7) trim_gc [OF assms(6)] by (metis prod.collapse)
  then show none: "map_of (M_localIdentities m') name = None" unfolding rec(2) .
  show "recs name = None" using rec(3) [OF assms(6) none] assms(8) by simp
qed

definition no_failure :: "time \<Rightarrow> cleanup_outcome" where
  "no_failure now = \<lparr> co_ctx = None, co_ctx_trees = None, co_garbage = None, co_rename = None, co_ctx_renamed = None, co_removed = None,
     co_lstat = (\<lambda>_. None), co_forget = None, co_record = None, co_now = now \<rparr>"

lemma removeLocalTree_succeeds:
  "\<exists>t. removeLocalTree None path s = (t, Inr (), s\<lparr>L_entries := (L_entries s)(path := None)\<rparr>)"
proof (cases "L_entries s path")
  case None
  then have "(L_entries s)(path := None) = L_entries s" by auto
  then show ?thesis using None by (simp add: removeLocalTree_def io_defs)
qed (simp add: removeLocalTree_def io_defs)

lemma rename_tree_succeeds:
  assumes "L_entries s to = None" and "from \<noteq> to"
  shows "\<exists>t. rename_tree None from to s = (t, Inr (), s\<lparr>L_entries := (L_entries s)(to := L_entries s from, from := None)\<rparr>)"
proof (cases "L_entries s from")
  case None
  then have "(L_entries s)(to := L_entries s from, from := None) = L_entries s" using assms(1) by auto
  then show ?thesis using None by (simp add: rename_tree_def io_defs)
qed (use assms in \<open>simp add: rename_tree_def io_defs fun_upd_twist\<close>)

text \<open>When no call fails, a cleanup of the whole identity ends it, whatever earlier attempts left behind.\<close>

lemma removeIdentityTrees_succeeds:
  assumes "local_name (L_m s) l = name"
  shows "\<exists>t s'. removeIdentityTrees (no_failure now) l True s = (t, Inr (), s') \<and> identity_ended name s' \<and> L_m s' = forgetLocalIdentity (L_m s) l now"
proof -
  let ?g = "garbage name" and ?del = "\<lambda>s. s\<lparr>L_entries := (L_entries s)(garbage name := None)\<rparr>"
  obtain t1 where t1: "removeLocalTree None ?g s = (t1, Inr (), ?del s)" using removeLocalTree_succeeds by blast
  obtain t2 s2 where t2: "rename_tree None name ?g (?del s) = (t2, Inr (), s2)" "L_entries s2 name = None" "L_m s2 = L_m s"
    using rename_tree_succeeds [of "?del s" ?g name] by auto
  obtain t3 where t3: "removeLocalTree None ?g s2 = (t3, Inr (), ?del s2)" using removeLocalTree_succeeds by blast
  have "claim_trees (no_failure now) name True s = (t1 @ t2 @ t3, Inr (), ?del s2)"
    using t1 t2(1) t3 by (simp add: claim_trees_def no_failure_def io_defs)
  then show ?thesis using assms t2(2,3)
    by (simp add: removeIdentityTrees_def no_failure_def lstat_def forget_identity_def io_defs identity_ended_def Let_def)
qed

text \<open>A cleanup is never stuck. Whatever earlier attempts, failures and crashes left of the trees, an attempt in which no call fails and
  none other is running removes all of the identity: its trees, its user, its record and its entry.\<close>

theorem cleanup_completes:
  assumes "local_name (L_m s) l = name" and "map_of (M_localIdentities (L_m s)) name = Some l"
    and "\<forall>c. li_cleanup (M_locals (L_m s) l) = Some c \<longrightarrow> \<not> lc_running c"
  shows "\<exists>t s'. cleanLocalIdentity (no_failure now) l True s = (t, Some (Inr ()), s')
    \<and> identity_ended name s' \<and> map_of (M_localIdentities (L_m s')) name = None"
proof -
  let ?m = "set_cleanup (L_m s) l (Some \<lparr> lc_running = True, lc_removeRoot = True, lc_err = None \<rparr>)"
  have b: "clean_begin (L_m s) l True None = (?m, CleanOwned True)"
    using assms by (auto simp: clean_begin_def split: option.splits)
  have "local_name (L_m (s\<lparr>L_m := ?m\<rparr>)) l = name" using assms(1) by simp
  from removeIdentityTrees_succeeds [OF this, of now] obtain t s' where
    r: "removeIdentityTrees (no_failure now) l True (s\<lparr>L_m := ?m\<rparr>) = (t, Inr (), s')" "identity_ended name s'" "L_m s' = forgetLocalIdentity ?m l now"
    by auto
  have "map_of (M_localIdentities (L_m s')) name = None" unfolding r(3)
    using assms(1,2) by (simp add: forgetLocalIdentity_def setLifecycle_def local_name_def set_cleanup_def Let_def)
  then show ?thesis using b r by (simp add: cleanLocalIdentity_def no_failure_def clean_finish_def identity_ended_def Let_def)
qed

definition sample_cold :: Local where
  "sample_cold = \<lparr> L_m = fst (localIdentityLocked sample_empty ''b1'' ''bed-0123456789abcdef0123456789abcdef''),
     L_entries = [''b1'' \<mapsto> Whole], L_records = [''b1'' \<mapsto> \<lparr> IR_ID = ''bed-0123456789abcdef0123456789abcdef'', IR_Volumes = None, IR_Pillows = [] \<rparr>],
     L_users = {''b1''} \<rparr>"

definition sample_busy_tree :: cleanup_outcome where
  "sample_busy_tree = (no_failure 5)\<lparr>co_removed := Some (ErrStage ''busy'')\<rparr>"

lemma sample_cold_ok:
  "local_name (L_m sample_cold) 2 = ''b1''" "map_of (M_localIdentities (L_m sample_cold)) ''b1'' = Some 2" "forget_order ''b1'' 2 sample_cold"
  by (simp_all add: sample_cold_def sample_empty_def localIdentityLocked_def local_name_def new_model_def forget_order_def garbage_def gcTmpPrefix_def Let_def)

theorem cleanup_ends_identity_last_witness:
  "\<exists>t s'. cleanLocalIdentity sample_busy_tree 2 True sample_cold = (t, Some (Inl (ErrStage ''busy'')), s')
     \<and> (\<forall>x \<in> set t. forget_order ''b1'' 2 x) \<and> map_of (M_localIdentities (L_m s')) ''b1'' = Some 2 \<and> ''b1'' \<in> L_users s'"
proof -
  obtain t r s' where c: "cleanLocalIdentity sample_busy_tree 2 True sample_cold = (t, r, s')" by (metis prod_cases3)
  have "fst (snd (cleanLocalIdentity sample_busy_tree 2 True sample_cold)) = Some (Inl (ErrStage ''busy''))"
    "''b1'' \<in> L_users (snd (snd (cleanLocalIdentity sample_busy_tree 2 True sample_cold)))"
    by code_simp+
  then have "r = Some (Inl (ErrStage ''busy''))" "''b1'' \<in> L_users s'" unfolding c by simp_all
  then show ?thesis using c cleanup_ends_identity_last [OF sample_cold_ok c] by simp
qed


definition sample_crash :: Local where
  "sample_crash = sample_cold\<lparr>L_m := set_cleanup (L_m sample_cold) 2 (Some \<lparr> lc_running = True, lc_removeRoot = True, lc_err = None \<rparr>),
     L_entries := [''.gc-b1'' \<mapsto> Damaged]\<rparr>"

definition sample_recovery :: recover_outcome where
  "sample_recovery = \<lparr> ro_root = None, ro_identities = None, ro_remove = (\<lambda>_. None), ro_read = (\<lambda>_. None), ro_save = (\<lambda>_. None),
     ro_user = (\<lambda>_. None), ro_fresh = (\<lambda>_. ''bed-fresh''), ro_now = 9 \<rparr>"

lemma sample_crash_passed: "sample_crash \<in> set (sample_cold # fst (cleanLocalIdentity sample_busy_tree 2 True sample_cold))"
proof -
  have b: "clean_begin (L_m sample_cold) 2 True None = (L_m sample_crash, CleanOwned True)"
    by (simp add: clean_begin_def sample_cold_ok sample_crash_def)
       (simp add: sample_cold_def sample_empty_def localIdentityLocked_def Let_def)
  have n: "local_name (L_m sample_crash) 2 = ''b1''" using sample_cold_ok(1) by (simp add: sample_crash_def)
  have e: "(L_entries sample_cold)(''b1'' := None, ''.gc-b1'' \<mapsto> Damaged) = L_entries sample_crash"
    by (auto simp: sample_crash_def sample_cold_def)
  have "sample_cold\<lparr>L_m := L_m sample_crash, L_entries := (L_entries sample_cold)(''b1'' := None, ''.gc-b1'' \<mapsto> Damaged)\<rparr> = sample_crash"
    unfolding e by (simp add: sample_crash_def)
  moreover have "L_entries sample_cold ''b1'' = Some Whole" "L_entries sample_cold ''.gc-b1'' = None" by (simp_all add: sample_cold_def)
  ultimately show ?thesis using b n
    by (simp add: cleanLocalIdentity_def sample_busy_tree_def no_failure_def removeIdentityTrees_def claim_trees_def removeLocalTree_def
      rename_tree_def io_defs garbage_def gcTmpPrefix_def Let_def)
qed

theorem cleanup_completes_witness:
  "\<exists>t s'. cleanLocalIdentity (no_failure 8) 2 True (sample_crash\<lparr>L_m := L_m sample_cold\<rparr>) = (t, Some (Inr ()), s') \<and> identity_ended ''b1'' s'"
proof -
  have "li_cleanup (M_locals (L_m sample_cold) 2) = None" by (simp add: sample_cold_def localIdentityLocked_def sample_empty_def Let_def)
  then show ?thesis using cleanup_completes [of "sample_crash\<lparr>L_m := L_m sample_cold\<rparr>" 2 "''b1''" 8] sample_cold_ok by auto
qed

theorem crash_during_cleanup_recovered_witness:
  "\<exists>m' recs. recoverLocalIdentities (\<lambda>_. False) (\<lambda>_. ''d'') sample_recovery [(''.gc-b1'', True)] [(''b1.local'', False)] (L_records sample_crash) sample_empty
      = Inr (m', recs) \<and> waitForLocalCleanup m' ''b1'' = CleanupRefused (ErrCleanupPending ''b1'')"
proof -
  obtain t r s' where c: "cleanLocalIdentity sample_busy_tree 2 True sample_cold = (t, r, s')" by (metis prod_cases3)
  have x: "sample_crash \<in> set (sample_cold # t)" using sample_crash_passed unfolding c by simp
  have v: "validBedID (\<lambda>_. False) ''b1''" by code_simp
  have "is_ok (recoverLocalIdentities (\<lambda>_. False) (\<lambda>_. ''d'') sample_recovery [(''.gc-b1'', True)] [(''b1.local'', False)] (L_records sample_crash) sample_empty)"
    by code_simp
  then obtain m' recs where r: "recoverLocalIdentities (\<lambda>_. False) (\<lambda>_. ''d'') sample_recovery [(''.gc-b1'', True)] [(''b1.local'', False)] (L_records sample_crash) sample_empty
      = Inr (m', recs)" by (auto simp: is_ok_iff)
  have es: "\<forall>n. (n, True) \<in> set [(''.gc-b1'', True)] \<longleftrightarrow> L_entries sample_crash n \<noteq> None" by (simp add: sample_crash_def)
  have "n @ ''.local'' = ''b1.local'' \<longleftrightarrow> n = ''b1''" for n using append_same_eq [of n "''.local''" "''b1''"] by simp
  then have fs: "\<forall>n. (n @ ''.local'', False) \<in> set [(''b1.local'', False)] \<longleftrightarrow> L_records sample_crash n \<noteq> None" by (simp add: sample_crash_def sample_cold_def)
  have "M_localIdentities sample_empty = []" by (simp add: sample_empty_def)
  from crash_during_cleanup_recovered [OF sample_cold_ok c x v es fs this r] show ?thesis
    using r by (simp add: sample_crash_def garbage_def gcTmpPrefix_def)
qed

end
