(* ===== verification/Bed_Inventory.thy ===== *)
theory Bed_Inventory
  imports Local_Identity "HOL-Library.Sublist"
begin

text \<open>
  Cold data and the inventory (\<open>src/internal/bed/manager/luggage.go\<close>, \<open>inventory_status.go\<close>): the directories that no Bed uses, their collection
  between two watermarks, the rows that the scheduler reads and the counts derived from them.

  \<open>sort.Slice\<close> promises a sorted permutation and no more; it is the parameter \<open>slice_sort\<close> of the definitions, and the locale
  \<open>slice_sorter\<close> states the promise. \<open>sort_by\<close> interprets it.
\<close>

section \<open>Sorting\<close>

definition weak_order :: "('a \<Rightarrow> 'a \<Rightarrow> bool) \<Rightarrow> bool" where
  "weak_order lt \<longleftrightarrow> (\<forall>a b. lt a b \<longrightarrow> \<not> lt b a) \<and> (\<forall>a b c. \<not> lt b a \<longrightarrow> \<not> lt c b \<longrightarrow> \<not> lt c a)"

locale slice_sorter =
  fixes slice_sort :: "('a \<Rightarrow> 'a \<Rightarrow> bool) \<Rightarrow> 'a list \<Rightarrow> 'a list"
  assumes slice_perm: "mset (slice_sort lt xs) = mset xs"
    and slice_sorted: "weak_order lt \<Longrightarrow> sorted_wrt (\<lambda>a b. \<not> lt b a) (slice_sort lt xs)"
begin

lemma slice_set: "set (slice_sort lt xs) = set xs"
  using slice_perm by (metis set_mset_mset)

lemma slice_sum: "sum_list (map f (slice_sort lt xs)) = (sum_list (map f xs) :: int)"
  using slice_perm by (metis mset_map sum_mset_sum_list)

end

fun insert_by :: "('a \<Rightarrow> 'a \<Rightarrow> bool) \<Rightarrow> 'a \<Rightarrow> 'a list \<Rightarrow> 'a list" where
  "insert_by lt x [] = [x]"
| "insert_by lt x (y # ys) = (if lt y x then y # insert_by lt x ys else x # y # ys)"

definition sort_by :: "('a \<Rightarrow> 'a \<Rightarrow> bool) \<Rightarrow> 'a list \<Rightarrow> 'a list" where
  "sort_by lt xs = foldr (insert_by lt) xs []"

lemma mset_insert_by [simp]: "mset (insert_by lt x ys) = add_mset x (mset ys)"
  by (induction ys) auto

lemma weak_order_trans: "weak_order lt \<Longrightarrow> \<not> lt b a \<Longrightarrow> \<not> lt c b \<Longrightarrow> \<not> lt c a"
  unfolding weak_order_def by blast

lemma sorted_insert_by:
  assumes "weak_order lt" and "sorted_wrt (\<lambda>a b. \<not> lt b a) ys"
  shows "sorted_wrt (\<lambda>a b. \<not> lt b a) (insert_by lt x ys)"
  using assms(2)
proof (induction ys)
  case (Cons y ys)
  have "set (insert_by lt x ys) = insert x (set ys)" using mset_insert_by [of lt x ys] by (metis set_mset_add_mset_insert set_mset_mset)
  moreover have "\<not> lt z x" if "\<not> lt y x" "z \<in> set ys" for z
  proof (rule weak_order_trans [OF assms(1) that(1)])
    show "\<not> lt z y" using that(2) Cons.prems by simp
  qed
  moreover have "\<not> lt x y" if "lt y x" using that assms(1) unfolding weak_order_def by blast
  ultimately show ?case using Cons by (cases "lt y x") simp_all
qed simp

interpretation slice: slice_sorter sort_by
proof
  fix lt :: "'a \<Rightarrow> 'a \<Rightarrow> bool" and xs
  show "mset (sort_by lt xs) = mset xs" unfolding sort_by_def by (induction xs) simp_all
  show "weak_order lt \<Longrightarrow> sorted_wrt (\<lambda>a b. \<not> lt b a) (sort_by lt xs)"
    unfolding sort_by_def by (induction xs) (simp_all add: sorted_insert_by)
qed

section \<open>Luggage\<close>

record LuggageEntry =
  LG_Sync :: SyncKind
  LG_BedID :: string
  LG_Bytes :: int
  LG_Generation :: int
  LG_SnapshotGeneration :: int
  LG_SnapshotBytes :: int
  LG_LastActiveAt :: time
  LG_Usage :: Usage

text \<open>An entry of the root directory: its name, whether it is a directory, the size of the tree and its time of modification, if it
  can be read.\<close>

record root_entry =
  RE_Name :: string
  RE_IsDir :: bool
  RE_Bytes :: int
  RE_ModTime :: "time option"

definition luggage_active :: "Manager \<Rightarrow> string \<Rightarrow> bool" where
  "luggage_active m name \<longleftrightarrow> map_of (M_beds m) name \<noteq> None \<or> map_of (M_initializations m) name \<noteq> None \<or> map_of (M_retirements m) name \<noteq> None
     \<or> (case map_of (M_localIdentities m) name of None \<Rightarrow> False | Some l \<Rightarrow> li_cleanup (M_locals m l) \<noteq> None)
     \<or> map_of (M_purges m) name \<noteq> None"

text \<open>Metadata without a kind of synchronization has the store's default; the model's metadata always has one.\<close>

definition luggage_entry :: "SyncKind \<Rightarrow> bedMeta option \<Rightarrow> root_entry \<Rightarrow> LuggageEntry" where
  "luggage_entry dflt meta e =
     (let last = (case meta of None \<Rightarrow> zero_time
                   | Some me \<Rightarrow> if ME_LastActiveAt me = zero_time then ME_LastPersistedAt me else ME_LastActiveAt me) in
      \<lparr> LG_Sync = (case meta of None \<Rightarrow> dflt | Some me \<Rightarrow> ME_Sync me), LG_BedID = RE_Name e, LG_Bytes = RE_Bytes e,
        LG_Generation = (case meta of None \<Rightarrow> 0 | Some me \<Rightarrow> ME_Generation me),
        LG_SnapshotGeneration = (case meta of None \<Rightarrow> 0 | Some me \<Rightarrow> ME_SnapshotGeneration me),
        LG_SnapshotBytes = (case meta of None \<Rightarrow> 0 | Some me \<Rightarrow> ME_SnapshotBytes me),
        LG_LastActiveAt = (if last = zero_time then (case RE_ModTime e of None \<Rightarrow> zero_time | Some t \<Rightarrow> t) else last),
        LG_Usage = (case meta of None \<Rightarrow> \<lparr> US_CmdCount = 0, US_CmdTotalMs = 0, US_LastPersistMs = 0, US_LastRestoreMs = 0 \<rparr>
                     | Some me \<Rightarrow> ME_Usage me) \<rparr>)"

text \<open>\<open>entries\<close> is \<open>None\<close> when the root cannot be read.\<close>

definition ListLuggage :: "(nat \<Rightarrow> bool) \<Rightarrow> SyncKind \<Rightarrow> root_entry list option \<Rightarrow> Manager \<Rightarrow> LuggageEntry list" where
  "ListLuggage uni dflt entries m =
     (case entries of
        None \<Rightarrow> []
      | Some es \<Rightarrow>
          map (\<lambda>e. luggage_entry dflt (loadMeta m (path_join [M_root m, RE_Name e])) e)
            (filter (\<lambda>e. RE_IsDir e \<and> \<not> luggage_active m (RE_Name e) \<and> validBedID uni (RE_Name e)) es))"

text \<open>The order of deletion: copies older than their snapshot first, then the least recently used.\<close>

definition luggage_before :: "(string \<Rightarrow> bool) \<Rightarrow> LuggageEntry \<Rightarrow> LuggageEntry \<Rightarrow> bool" where
  "luggage_before stale a b =
     (if stale (LG_BedID a) \<noteq> stale (LG_BedID b) then stale (LG_BedID a) else LG_LastActiveAt a < LG_LastActiveAt b)"

definition total_bytes :: "LuggageEntry list \<Rightarrow> int" where
  "total_bytes ls = sum_list (map LG_Bytes ls)"

text \<open>\<open>remove\<close> is \<open>removeLuggage\<close> on the state \<open>'s\<close>.\<close>

fun collect_loop :: "(string \<Rightarrow> 's \<Rightarrow> bool \<times> 's) \<Rightarrow> int \<Rightarrow> int \<Rightarrow> LuggageEntry list \<Rightarrow> 's \<Rightarrow> string list \<times> 's" where
  "collect_loop remove low tot [] s = ([], s)"
| "collect_loop remove low tot (l # ls) s =
     (if tot \<le> low then ([], s)
      else case remove (LG_BedID l) s of
        (True, s1) \<Rightarrow> (case collect_loop remove low (tot - LG_Bytes l) ls s1 of (reaped, s2) \<Rightarrow> (LG_BedID l # reaped, s2))
      | (False, s1) \<Rightarrow> collect_loop remove low tot ls s1)"

text \<open>\<open>stat\<close>: the generation of the snapshot, if the store has one. A name is stale when its local copy is older.\<close>

definition is_stale :: "(string \<Rightarrow> int option) \<Rightarrow> LuggageEntry list \<Rightarrow> string \<Rightarrow> bool" where
  "is_stale stat ls name \<longleftrightarrow> (\<exists>l \<in> set ls. LG_BedID l = name \<and> (case stat name of None \<Rightarrow> False | Some g \<Rightarrow> LG_Generation l < g))"

definition collect_luggage ::
  "((LuggageEntry \<Rightarrow> LuggageEntry \<Rightarrow> bool) \<Rightarrow> LuggageEntry list \<Rightarrow> LuggageEntry list) \<Rightarrow> (string \<Rightarrow> 's \<Rightarrow> bool \<times> 's) \<Rightarrow> (string \<Rightarrow> int option)
     \<Rightarrow> int \<Rightarrow> int \<Rightarrow> LuggageEntry list \<Rightarrow> 's \<Rightarrow> string list \<times> 's" where
  "collect_luggage slice_sort remove stat high low ls s =
     (if total_bytes ls \<le> high then ([], s)
      else collect_loop remove low (total_bytes ls) (slice_sort (luggage_before (is_stale stat ls)) ls) s)"

text \<open>The whole tick: pending cleanups first, then the watermarks over the luggage that is left.\<close>

definition CollectLuggage ::
  "((LuggageEntry \<Rightarrow> LuggageEntry \<Rightarrow> bool) \<Rightarrow> LuggageEntry list \<Rightarrow> LuggageEntry list) \<Rightarrow> (nat \<Rightarrow> bool) \<Rightarrow> SyncKind
     \<Rightarrow> (nat \<Rightarrow> cleanup_outcome) \<Rightarrow> (string \<Rightarrow> cleanup_outcome) \<Rightarrow> (string \<Rightarrow> string) \<Rightarrow> (Local \<Rightarrow> root_entry list option) \<Rightarrow> (string \<Rightarrow> int option)
     \<Rightarrow> int \<Rightarrow> int \<Rightarrow> Local \<Rightarrow> string list \<times> Local" where
  "CollectLuggage slice_sort uni dflt retry oc fresh entries stat high low s =
     (case RetryLocalCleanups retry s of
        (_, _, s1) \<Rightarrow>
          if high \<le> 0 then ([], s1)
          else collect_luggage slice_sort (\<lambda>name s. snd (removeLuggage (oc name) name (fresh name) s)) stat high low
                 (ListLuggage uni dflt (entries s1) (L_m s1)) s1)"

section \<open>The rows of the inventory\<close>

record BedStatus =
  BS_Phase :: LifecyclePhase
  BS_Activity :: "Activity option"
  BS_Ready :: bool
  BS_Reason :: string
  BS_UpdatedAt :: time

record InventoryBed =
  IB_Sync :: "SyncKind option"      \<comment> \<open>\<open>None\<close> where the source leaves it empty\<close>
  IB_ID :: string
  IB_Name :: string
  IB_Status :: BedStatus
  IB_Generation :: int
  IB_SnapshotGeneration :: int
  IB_SnapshotBytes :: int
  IB_LocalBytes :: int
  IB_RestoreBytes :: int
  IB_DataSynced :: bool
  IB_Pinned :: bool
  IB_LastActiveAt :: time
  IB_KeepaliveAt :: time
  IB_RetainUntil :: time
  IB_Usage :: Usage

definition lifecycleView :: "LifecycleStatus \<Rightarrow> BedStatus" where
  "lifecycleView st = \<lparr> BS_Phase = LS_Phase st, BS_Activity = None, BS_Ready = LS_Ready st, BS_Reason = LS_Reason st, BS_UpdatedAt = LS_UpdatedAt st \<rparr>"

definition no_usage :: Usage where
  "no_usage = \<lparr> US_CmdCount = 0, US_CmdTotalMs = 0, US_LastPersistMs = 0, US_LastRestoreMs = 0 \<rparr>"

text \<open>\<open>managedBed.Status\<close> with its \<open>RestoreBytes\<close>, as far as the inventory shows them.\<close>

definition resident_row :: "Manager \<Rightarrow> nat \<Rightarrow> InventoryBed" where
  "resident_row m b =
     (let r = M_heap m b; mo = model_of m b; st = Bed_Store mo in
      \<lparr> IB_Sync = Some (SP_StoreKind (Bed_Spec mo)), IB_ID = Bed_ID mo, IB_Name = Bed_Name mo,
        IB_Status = (lifecycleView (Bed_Lifecycle mo))\<lparr>BS_Activity := Some (activityLocked r)\<rparr>,
        IB_Generation = mb_generation r, IB_SnapshotGeneration = ST_SnapshotGeneration st, IB_SnapshotBytes = ST_SnapshotBytes st,
        IB_LocalBytes = ST_LocalBytes st,
        IB_RestoreBytes = estimatedRestoreBytes (mb_generation r) (ST_SnapshotGeneration st) (ST_SnapshotBytes st) (dataSyncedLocked m b),
        IB_DataSynced = dataSyncedLocked m b, IB_Pinned = pinnedLocked m b, IB_LastActiveAt = mb_lastActiveAt r,
        IB_KeepaliveAt = LS_KeepaliveAt (Bed_Lifecycle mo), IB_RetainUntil = retainedUntilLocked m b, IB_Usage = mb_usage r \<rparr>)"

record InitializationStatus =
  IN_ID :: string
  IN_Name :: string
  IN_Sync :: "SyncKind option"
  IN_Status :: BedStatus
  IN_StartedAt :: time

definition init_snapshot :: "Manager \<Rightarrow> nat \<Rightarrow> InitializationStatus" where
  "init_snapshot m i =
     (let mo = M_models m (bi_model (M_inits m i)) in
      \<lparr> IN_ID = Bed_ID mo, IN_Name = Bed_Name mo, IN_Sync = Some (SP_StoreKind (Bed_Spec mo)), IN_Status = lifecycleView (Bed_Lifecycle mo),
        IN_StartedAt = bi_startedAt (M_inits m i) \<rparr>)"

definition retirementStatus :: "Manager \<Rightarrow> nat \<Rightarrow> InitializationStatus" where
  "retirementStatus m b =
     \<lparr> IN_ID = Bed_ID (model_of m b), IN_Name = bed_name m b, IN_Sync = Some (SP_StoreKind (bed_spec m b)),
       IN_Status = lifecycleView (bed_lifecycle m b), IN_StartedAt = zero_time \<rparr>"

text \<open>The status that \<open>beginPurge\<close> fixes; \<open>began\<close> has the identifier it found and the time it read, by the purge's token.\<close>

definition purge_status :: "(nat \<Rightarrow> string \<times> time) \<Rightarrow> string \<times> nat \<Rightarrow> InitializationStatus" where
  "purge_status began p =
     \<lparr> IN_ID = fst (began (snd p)), IN_Name = fst p, IN_Sync = None,
       IN_Status = \<lparr> BS_Phase = PhasePurging, BS_Activity = None, BS_Ready = False, BS_Reason = ''Purging'', BS_UpdatedAt = snd (began (snd p)) \<rparr>,
       IN_StartedAt = snd (began (snd p)) \<rparr>"

definition initializationStatusesLocked :: "(nat \<Rightarrow> string \<times> time) \<Rightarrow> time \<Rightarrow> Manager \<Rightarrow> Manager \<times> InitializationStatus list" where
  "initializationStatusesLocked began now m =
     (let m1 = pruneFailedInitializationsLocked m now in
      (m1, map (\<lambda>(name, i). init_snapshot m1 i)
             (filter (\<lambda>(name, i). map_of (M_purges m1) name = None \<and> map_of (M_retirements m1) name = None) (M_initializations m1))
           @ map (\<lambda>(name, b). retirementStatus m1 b) (filter (\<lambda>(name, b). map_of (M_purges m1) name = None) (M_retirements m1))
           @ map (purge_status began) (M_purges m1)))"

definition initialization_row :: "InitializationStatus \<Rightarrow> InventoryBed" where
  "initialization_row st =
     \<lparr> IB_Sync = IN_Sync st, IB_ID = IN_ID st, IB_Name = IN_Name st, IB_Status = IN_Status st, IB_Generation = 0, IB_SnapshotGeneration = 0,
       IB_SnapshotBytes = 0, IB_LocalBytes = 0, IB_RestoreBytes = 0, IB_DataSynced = False, IB_Pinned = False,
       IB_LastActiveAt = IN_StartedAt st, IB_KeepaliveAt = zero_time, IB_RetainUntil = zero_time, IB_Usage = no_usage \<rparr>"

definition luggage_row :: "Manager \<Rightarrow> LuggageEntry \<Rightarrow> InventoryBed" where
  "luggage_row m l =
     \<lparr> IB_Sync = Some (LG_Sync l),
       IB_ID = (case map_of (M_localIdentities m) (LG_BedID l) of None \<Rightarrow> [] | Some k \<Rightarrow> Bed_ID (M_models m (li_bed (M_locals m k)))),
       IB_Name = LG_BedID l,
       IB_Status = \<lparr> BS_Phase = PhaseDormant, BS_Activity = None, BS_Ready = False, BS_Reason = ''NotResident'', BS_UpdatedAt = LG_LastActiveAt l \<rparr>,
       IB_Generation = LG_Generation l, IB_SnapshotGeneration = LG_SnapshotGeneration l, IB_SnapshotBytes = LG_SnapshotBytes l,
       IB_LocalBytes = LG_Bytes l,
       IB_RestoreBytes = estimatedRestoreBytes (LG_Generation l) (LG_SnapshotGeneration l) (LG_SnapshotBytes l) True,
       IB_DataSynced = True, IB_Pinned = False, IB_LastActiveAt = LG_LastActiveAt l, IB_KeepaliveAt = zero_time, IB_RetainUntil = zero_time,
       IB_Usage = LG_Usage l \<rparr>"

text \<open>\<open>luggage\<close> was listed before the lock was taken; \<open>name_lt\<close> is Go's comparison of strings.\<close>

definition captureInventory ::
  "((InventoryBed \<Rightarrow> InventoryBed \<Rightarrow> bool) \<Rightarrow> InventoryBed list \<Rightarrow> InventoryBed list) \<Rightarrow> (string \<Rightarrow> string \<Rightarrow> bool) \<Rightarrow> (nat \<Rightarrow> string \<times> time) \<Rightarrow> time
     \<Rightarrow> LuggageEntry list \<Rightarrow> Manager \<Rightarrow> Manager \<times> InventoryBed list" where
  "captureInventory slice_sort name_lt began now luggage m =
     (let beds = map (\<lambda>(name, b). resident_row m b) (filter (\<lambda>(name, b). map_of (M_purges m) (bed_name m b) = None) (M_beds m));
          (m1, inits) = initializationStatusesLocked began now m;
          cold = map (luggage_row m1) (filter (\<lambda>l. \<not> luggage_active m1 (LG_BedID l)) luggage)
      in (m1, slice_sort (\<lambda>a b. name_lt (IB_Name a) (IB_Name b)) (beds @ map initialization_row inits @ cold)))"

section \<open>The status of the instance\<close>

datatype InstanceState = InstanceRetained | InstanceDraining | InstanceReleasable

definition status_step :: "time \<Rightarrow> InventoryBed \<Rightarrow> bool \<times> bool \<Rightarrow> bool \<times> bool" where
  "status_step now b acc =
     (case BS_Phase (IB_Status b) of
        PhaseInitializing \<Rightarrow> (True, False)
      | PhasePurging \<Rightarrow> (True, snd acc)
      | PhaseFailed \<Rightarrow> acc
      | PhaseDormant \<Rightarrow> acc
      | _ \<Rightarrow> (True, if IB_RetainUntil b = zero_time \<or> IB_RetainUntil b > now then False else snd acc))"

definition statusOfInstance :: "InventoryBed list \<Rightarrow> time \<Rightarrow> InstanceState" where
  "statusOfInstance beds now =
     (case fold (status_step now) beds (False, True) of
        (hasResident, allExpired) \<Rightarrow>
          if hasResident \<and> \<not> allExpired then InstanceRetained else if hasResident then InstanceDraining else InstanceReleasable)"

record InstanceStatus =
  IS_Status :: InstanceState
  IS_OccupiedBeds :: int
  IS_ResidentBeds :: int
  IS_MaxBeds :: int
  IS_PinnedBeds :: int
  IS_MaxPinnedBeds :: int
  IS_PhaseCounts :: "(LifecyclePhase \<times> int) list"
  IS_ActivityCounts :: "(Activity \<times> int) list"
  IS_RetainedUntil :: "time option"
  IS_LuggageBytes :: int
  IS_LuggageHighBytes :: int
  IS_LuggageLowBytes :: int

definition al_count :: "'k \<Rightarrow> ('k \<times> int) list \<Rightarrow> ('k \<times> int) list" where
  "al_count k m = al_put k (al_get k m + 1) m"

text \<open>The loop: the counts, the latest retention and whether every retention is known.\<close>

definition occupies :: "InventoryBed \<Rightarrow> bool" where
  "occupies b \<longleftrightarrow> BS_Phase (IB_Status b) \<noteq> PhaseDormant \<and> BS_Phase (IB_Status b) \<noteq> PhaseFailed"

definition count_bed :: "InventoryBed \<Rightarrow> InstanceStatus \<times> time \<times> bool \<Rightarrow> InstanceStatus \<times> time \<times> bool" where
  "count_bed b acc =
     (let (is, retainUntil, known) = acc;
          phase = BS_Phase (IB_Status b);
          is1 = is\<lparr>IS_PhaseCounts := al_count phase (IS_PhaseCounts is),
                  IS_ActivityCounts := (case BS_Activity (IB_Status b) of None \<Rightarrow> IS_ActivityCounts is | Some a \<Rightarrow> al_count a (IS_ActivityCounts is)),
                  IS_PinnedBeds := IS_PinnedBeds is + of_bool (IB_Pinned b)\<rparr>
      in if phase = PhaseDormant then (is1\<lparr>IS_LuggageBytes := IS_LuggageBytes is1 + IB_LocalBytes b\<rparr>, retainUntil, known)
         else if phase = PhaseFailed then (is1, retainUntil, known)
         else (is1\<lparr>IS_ResidentBeds := IS_ResidentBeds is1 + of_bool (phase = PhaseResident \<or> phase = PhaseEvicting),
                   IS_OccupiedBeds := IS_OccupiedBeds is1 + 1\<rparr>,
               if IB_RetainUntil b \<noteq> zero_time \<and> IB_RetainUntil b > retainUntil then IB_RetainUntil b else retainUntil,
               known \<and> IB_RetainUntil b \<noteq> zero_time))"

definition empty_status :: "InventoryBed list \<Rightarrow> time \<Rightarrow> int \<Rightarrow> int \<Rightarrow> Manager \<Rightarrow> InstanceStatus" where
  "empty_status beds now high low m =
     \<lparr> IS_Status = statusOfInstance beds now, IS_OccupiedBeds = 0, IS_ResidentBeds = 0, IS_MaxBeds = M_maxBeds m, IS_PinnedBeds = 0,
       IS_MaxPinnedBeds = M_maxPinnedBeds m,
       IS_PhaseCounts = map (\<lambda>p. (p, 0)) [PhaseResident, PhaseEvicting, PhasePurging, PhaseDormant, PhaseInitializing, PhaseFailed],
       IS_ActivityCounts = [(ActivityIdle, 0), (ActivityActive, 0)], IS_RetainedUntil = None, IS_LuggageBytes = 0,
       IS_LuggageHighBytes = high, IS_LuggageLowBytes = low \<rparr>"

text \<open>The parts that only name the configuration (store, isolation, network, transfers) are left out.\<close>

definition InventoryStatus :: "InventoryBed list \<Rightarrow> time \<Rightarrow> int \<Rightarrow> int \<Rightarrow> Manager \<Rightarrow> InstanceStatus" where
  "InventoryStatus beds now high low m =
     (case fold count_bed beds (empty_status beds now high low m, zero_time, True) of
        (is, retainUntil, known) \<Rightarrow> if IS_OccupiedBeds is > 0 \<and> known then is\<lparr>IS_RetainedUntil := Some retainUntil\<rparr> else is)"

text \<open>The pressure that \<open>Status\<close> reports.\<close>

definition status_pressure :: "Manager \<Rightarrow> InstanceStatus \<Rightarrow> bool" where
  "status_pressure m is = bedPressureForCounts m (IS_OccupiedBeds is) (IS_PinnedBeds is)"

section \<open>Which copies are deleted\<close>

lemma luggage_before_weak: "weak_order (luggage_before stale)"
  by (auto simp: weak_order_def luggage_before_def)

text \<open>A sequence of removals in the given order, whatever the watermarks: the copies that were removed, and the state it ends in.\<close>

fun remove_each :: "(string \<Rightarrow> 's \<Rightarrow> bool \<times> 's) \<Rightarrow> LuggageEntry list \<Rightarrow> 's \<Rightarrow> LuggageEntry list \<times> 's" where
  "remove_each remove [] s = ([], s)"
| "remove_each remove (l # ls) s =
     (case remove (LG_BedID l) s of (ok, s1) \<Rightarrow> (case remove_each remove ls s1 of (gone, s2) \<Rightarrow> (if ok then l # gone else gone, s2)))"

text \<open>The bytes left after the removals of a list.\<close>

definition bytes_left :: "(string \<Rightarrow> 's \<Rightarrow> bool \<times> 's) \<Rightarrow> int \<Rightarrow> LuggageEntry list \<Rightarrow> 's \<Rightarrow> int" where
  "bytes_left remove tot tried s = tot - total_bytes (fst (remove_each remove tried s))"

lemma bytes_left_simps [simp]:
  "bytes_left remove tot [] s = tot"
  "bytes_left remove tot (l # ls) s = (case remove (LG_BedID l) s of (ok, s1) \<Rightarrow> bytes_left remove (if ok then tot - LG_Bytes l else tot) ls s1)"
  by (simp_all add: bytes_left_def total_bytes_def split: prod.split)

lemma collect_loop_spec:
  assumes "collect_loop remove low tot ls s = (reaped, s')"
  shows "\<exists>tried rest gone. ls = tried @ rest \<and> remove_each remove tried s = (gone, s') \<and> reaped = map LG_BedID gone
    \<and> (\<forall>i < length tried. low < bytes_left remove tot (take i tried) s) \<and> (rest = [] \<or> bytes_left remove tot tried s \<le> low)"
  using assms
proof (induction remove low tot ls s arbitrary: reaped rule: collect_loop.induct)
  case (1 remove low tot s)
  then show ?case by simp
next
  case (2 remove low tot l ls s)
  show ?case
  proof (cases "tot \<le> low")
    case True
    then show ?thesis using 2(3) by (intro exI [of _ "[]"] exI [of _ "l # ls"]) simp
  next
    case False
    obtain ok s1 where r: "remove (LG_BedID l) s = (ok, s1)" by fastforce
    obtain tail where t: "collect_loop remove low (if ok then tot - LG_Bytes l else tot) ls s1 = (tail, s')"
      and reaped: "reaped = (if ok then LG_BedID l # tail else tail)"
      using 2(3) False r by (cases ok) (auto split: prod.splits)
    then obtain tried rest gone where k: "ls = tried @ rest" "remove_each remove tried s1 = (gone, s')" "tail = map LG_BedID gone"
      "\<forall>i < length tried. low < bytes_left remove (if ok then tot - LG_Bytes l else tot) (take i tried) s1"
      "rest = [] \<or> bytes_left remove (if ok then tot - LG_Bytes l else tot) tried s1 \<le> low"
      using 2(1,2) [OF False r [symmetric]] by (cases ok) auto
    have "\<forall>i < length (l # tried). low < bytes_left remove tot (take i (l # tried)) s"
    proof (intro allI impI)
      fix i
      assume "i < length (l # tried)"
      then show "low < bytes_left remove tot (take i (l # tried)) s" using k(4) r False by (cases i) simp_all
    qed
    then show ?thesis using reaped k r
      by (intro exI [of _ "l # tried"] exI [of _ rest] exI [of _ "if ok then l # gone else gone"]) simp
  qed
qed

text \<open>The order of deletion, as a relation between a copy and one that is tried later.\<close>

definition not_after :: "(string \<Rightarrow> bool) \<Rightarrow> LuggageEntry \<Rightarrow> LuggageEntry \<Rightarrow> bool" where
  "not_after stale a b \<longleftrightarrow> stale (LG_BedID a) \<and> \<not> stale (LG_BedID b)
     \<or> stale (LG_BedID a) = stale (LG_BedID b) \<and> LG_LastActiveAt a \<le> LG_LastActiveAt b"

lemma luggage_sorted:
  assumes "slice_sorter slice_sort"
  shows "sorted_wrt (not_after stale) (slice_sort (luggage_before stale) ls)"
proof -
  have "(\<lambda>a b. \<not> luggage_before stale b a) = not_after stale" by (intro ext) (auto simp: luggage_before_def not_after_def)
  then show ?thesis using slice_sorter.slice_sorted [OF assms luggage_before_weak, of stale ls] by simp
qed

text \<open>C33: Collection deletes exactly what the watermarks and the documented order say. At or below the high watermark nothing is touched. Above it the copies are tried one after the
  other in an order of all of them in which copies older than their snapshot come first and, among those and among the others, the less recently used before the more recently
  used; the copies reported are those whose removal succeeded; each is tried while what is left exceeds the low watermark, and the first copy that is not tried, if any, is not tried because
  what is left no longer exceeds it. The removals made are these and no others: the state reached is the one they lead to.\<close>

theorem collection_order:
  assumes "slice_sorter slice_sort" and "collect_luggage slice_sort remove stat high low ls s = (reaped, s')"
  shows "if total_bytes ls \<le> high then reaped = [] \<and> s' = s
    else \<exists>tried rest gone. mset (tried @ rest) = mset ls \<and> sorted_wrt (not_after (is_stale stat ls)) (tried @ rest)
        \<and> remove_each remove tried s = (gone, s') \<and> reaped = map LG_BedID gone
        \<and> (\<forall>i < length tried. low < bytes_left remove (total_bytes ls) (take i tried) s)
        \<and> (rest = [] \<or> bytes_left remove (total_bytes ls) tried s \<le> low)"
proof (cases "total_bytes ls \<le> high")
  case True
  then show ?thesis using assms(2) by (simp add: collect_luggage_def)
next
  case False
  let ?ls = "slice_sort (luggage_before (is_stale stat ls)) ls"
  have "collect_loop remove low (total_bytes ls) ?ls s = (reaped, s')" using assms(2) False by (simp add: collect_luggage_def)
  from collect_loop_spec [OF this] obtain tried rest gone where g: "?ls = tried @ rest" "remove_each remove tried s = (gone, s')" "reaped = map LG_BedID gone"
    "\<forall>i < length tried. low < bytes_left remove (total_bytes ls) (take i tried) s" "rest = [] \<or> bytes_left remove (total_bytes ls) tried s \<le> low" by blast
  have "mset (tried @ rest) = mset ls" "sorted_wrt (not_after (is_stale stat ls)) (tried @ rest)"
    using slice_sorter.slice_perm [OF assms(1)] luggage_sorted [OF assms(1)] g(1) by metis+
  then show ?thesis using False g by auto
qed

section \<open>What the status promises\<close>

definition retains :: "time \<Rightarrow> InventoryBed \<Rightarrow> bool" where
  "retains now b \<longleftrightarrow> BS_Phase (IB_Status b) = PhaseInitializing
     \<or> BS_Phase (IB_Status b) \<in> {PhaseUnset, PhaseResident, PhaseEvicting} \<and> (IB_RetainUntil b = zero_time \<or> IB_RetainUntil b > now)"

lemma status_fold:
  "fold (status_step now) beds (h, a) = (h \<or> (\<exists>b \<in> set beds. occupies b), a \<and> \<not> (\<exists>b \<in> set beds. retains now b))"
proof (induction beds arbitrary: h a)
  case (Cons b beds)
  have "status_step now b (h, a) = (h \<or> occupies b, a \<and> \<not> retains now b)"
    by (cases "BS_Phase (IB_Status b)") (auto simp: status_step_def occupies_def retains_def)
  then show ?case using Cons.IH by auto
qed simp

lemma retains_occupies: "retains now b \<Longrightarrow> occupies b"
  by (auto simp: retains_def occupies_def)

lemma statusOfInstance_cases:
  "statusOfInstance beds now = (if \<exists>b \<in> set beds. retains now b then InstanceRetained
     else if \<exists>b \<in> set beds. occupies b then InstanceDraining else InstanceReleasable)"
  using retains_occupies by (auto simp: statusOfInstance_def status_fold)

lemma al_get_count: "al_get k (al_count j m) = al_get k m + of_bool (k = j)"
  by (simp add: al_count_def al_get_def)

lemma count_bed_sel:
  assumes "count_bed b (is, t, known) = (is1, t1, k1)"
  shows "IS_OccupiedBeds is1 = IS_OccupiedBeds is + of_bool (occupies b)" "IS_PinnedBeds is1 = IS_PinnedBeds is + of_bool (IB_Pinned b)"
    "al_get p (IS_PhaseCounts is1) = al_get p (IS_PhaseCounts is) + of_bool (p = BS_Phase (IB_Status b))"
    "IS_LuggageBytes is1 = IS_LuggageBytes is + (if BS_Phase (IB_Status b) = PhaseDormant then IB_LocalBytes b else 0)"
    "IS_Status is1 = IS_Status is" "IS_RetainedUntil is1 = IS_RetainedUntil is"
    "k1 \<longleftrightarrow> known \<and> (occupies b \<longrightarrow> IB_RetainUntil b \<noteq> zero_time)"
    "t \<le> t1" "k1 \<Longrightarrow> occupies b \<Longrightarrow> IB_RetainUntil b \<le> t1" "t1 = t \<or> occupies b \<and> t1 = IB_RetainUntil b"
  using assms by (auto simp: count_bed_def occupies_def al_get_count Let_def split: if_splits)

lemma count_fold:
  assumes "fold count_bed beds (is, t, known) = (is', t', known')"
  shows "IS_OccupiedBeds is' = IS_OccupiedBeds is + int (length (filter occupies beds))
    \<and> IS_PinnedBeds is' = IS_PinnedBeds is + int (length (filter IB_Pinned beds))
    \<and> al_get p (IS_PhaseCounts is') = al_get p (IS_PhaseCounts is) + int (length (filter (\<lambda>b. BS_Phase (IB_Status b) = p) beds))
    \<and> IS_LuggageBytes is' = IS_LuggageBytes is + sum_list (map IB_LocalBytes (filter (\<lambda>b. BS_Phase (IB_Status b) = PhaseDormant) beds))
    \<and> IS_Status is' = IS_Status is \<and> IS_RetainedUntil is' = IS_RetainedUntil is"
  using assms
proof (induction beds arbitrary: "is" t known)
  case (Cons b beds)
  obtain is1 t1 k1 where b: "count_bed b (is, t, known) = (is1, t1, k1)" by (metis prod_cases3)
  then have "fold count_bed beds (is1, t1, k1) = (is', t', known')" using Cons.prems by simp
  from Cons.IH [OF this] count_bed_sel(1-6) [OF b] show ?case by auto
qed simp

lemma count_retention:
  assumes "fold count_bed beds (is, t, known) = (is', t', known')"
  shows "(known' \<longleftrightarrow> known \<and> (\<forall>b \<in> set beds. occupies b \<longrightarrow> IB_RetainUntil b \<noteq> zero_time)) \<and> t \<le> t'
    \<and> (known' \<longrightarrow> (\<forall>b \<in> set beds. occupies b \<longrightarrow> IB_RetainUntil b \<le> t')) \<and> (t' = t \<or> (\<exists>b \<in> set beds. occupies b \<and> t' = IB_RetainUntil b))"
  using assms
proof (induction beds arbitrary: "is" t known)
  case (Cons b beds)
  obtain is1 t1 k1 where b: "count_bed b (is, t, known) = (is1, t1, k1)" by (metis prod_cases3)
  then have "fold count_bed beds (is1, t1, k1) = (is', t', known')" using Cons.prems by simp
  note rest = Cons.IH [OF this]
  have "known' \<longrightarrow> k1" using rest by blast
  then have "known' \<longrightarrow> occupies b \<longrightarrow> IB_RetainUntil b \<le> t'" using rest count_bed_sel(9) [OF b] by force
  then show ?case using rest count_bed_sel(7,8,10) [OF b] by auto
qed simp

lemma inventory_counts:
  shows "IS_OccupiedBeds (InventoryStatus beds now high low m) = int (length (filter occupies beds))"
    and "IS_PinnedBeds (InventoryStatus beds now high low m) = int (length (filter IB_Pinned beds))"
    and "al_get p (IS_PhaseCounts (InventoryStatus beds now high low m)) = int (length (filter (\<lambda>b. BS_Phase (IB_Status b) = p) beds))"
    and "IS_LuggageBytes (InventoryStatus beds now high low m)
      = sum_list (map IB_LocalBytes (filter (\<lambda>b. BS_Phase (IB_Status b) = PhaseDormant) beds))"
    and "IS_Status (InventoryStatus beds now high low m) = InstanceReleasable \<longleftrightarrow> IS_OccupiedBeds (InventoryStatus beds now high low m) = 0"
    and "IS_Status (InventoryStatus beds now high low m) = InstanceRetained \<longleftrightarrow> (\<exists>b \<in> set beds. retains now b)"
    and "IS_RetainedUntil (InventoryStatus beds now high low m) = Some t \<Longrightarrow> b \<in> set beds \<Longrightarrow> occupies b \<Longrightarrow>
      IB_RetainUntil b \<noteq> zero_time \<and> IB_RetainUntil b \<le> t"
proof -
  obtain is' t' k' where f: "fold count_bed beds (empty_status beds now high low m, zero_time, True) = (is', t', k')" by (metis prod_cases3)
  note cnt = count_fold [OF f] and ret = count_retention [OF f]
  have st: "InventoryStatus beds now high low m = (if IS_OccupiedBeds is' > 0 \<and> k' then is'\<lparr>IS_RetainedUntil := Some t'\<rparr> else is')"
    by (simp add: InventoryStatus_def f)
  have zero: "al_get p (IS_PhaseCounts (empty_status beds now high low m)) = 0" for p
    by (simp add: empty_status_def al_get_def)
  show occ: "IS_OccupiedBeds (InventoryStatus beds now high low m) = int (length (filter occupies beds))"
    and "IS_PinnedBeds (InventoryStatus beds now high low m) = int (length (filter IB_Pinned beds))"
    and "IS_LuggageBytes (InventoryStatus beds now high low m) = sum_list (map IB_LocalBytes (filter (\<lambda>b. BS_Phase (IB_Status b) = PhaseDormant) beds))"
    unfolding st using cnt by (simp_all add: empty_status_def)
  show "al_get p (IS_PhaseCounts (InventoryStatus beds now high low m)) = int (length (filter (\<lambda>b. BS_Phase (IB_Status b) = p) beds))"
    unfolding st using count_fold [OF f, of p] zero by simp
  have s: "IS_Status (InventoryStatus beds now high low m) = statusOfInstance beds now" unfolding st using cnt by (simp add: empty_status_def)
  show "IS_Status (InventoryStatus beds now high low m) = InstanceReleasable \<longleftrightarrow> IS_OccupiedBeds (InventoryStatus beds now high low m) = 0"
    unfolding s occ statusOfInstance_cases using retains_occupies by (auto simp: filter_empty_conv)
  show "IS_Status (InventoryStatus beds now high low m) = InstanceRetained \<longleftrightarrow> (\<exists>b \<in> set beds. retains now b)"
    unfolding s statusOfInstance_cases by simp
  show "IB_RetainUntil b \<noteq> zero_time \<and> IB_RetainUntil b \<le> t"
    if "IS_RetainedUntil (InventoryStatus beds now high low m) = Some t" "b \<in> set beds" "occupies b"
    using that ret cnt unfolding st by (auto simp: empty_status_def split: if_splits)
qed

text \<open>The counts of the instance are those of the captured rows, and its state agrees with them: it is releasable exactly when no row
  occupies the instance, retained exactly when some Bed is being initialized or is in its retention (or has none configured), and otherwise
  draining. A published retention deadline is one that every occupying row has reached when it has passed.\<close>

theorem instance_status_exact:
  assumes "is = InventoryStatus beds now high low m"
  shows "IS_OccupiedBeds is = int (length (filter occupies beds)) \<and> IS_PinnedBeds is = int (length (filter IB_Pinned beds))
    \<and> (\<forall>p. al_get p (IS_PhaseCounts is) = int (length (filter (\<lambda>b. BS_Phase (IB_Status b) = p) beds)))
    \<and> IS_LuggageBytes is = sum_list (map IB_LocalBytes (filter (\<lambda>b. BS_Phase (IB_Status b) = PhaseDormant) beds))
    \<and> (IS_Status is = InstanceReleasable \<longleftrightarrow> IS_OccupiedBeds is = 0)
    \<and> (IS_Status is = InstanceRetained \<longleftrightarrow> (\<exists>b \<in> set beds. retains now b))
    \<and> (\<forall>t. IS_RetainedUntil is = Some t \<longrightarrow> (\<forall>b \<in> set beds. occupies b \<longrightarrow> IB_RetainUntil b \<noteq> zero_time \<and> IB_RetainUntil b \<le> t))"
  unfolding assms
proof (intro conjI allI impI ballI)
  fix t b
  assume "IS_RetainedUntil (InventoryStatus beds now high low m) = Some t" "b \<in> set beds" "occupies b"
  note r = inventory_counts(7) [OF this]
  show "IB_RetainUntil b \<noteq> zero_time" "IB_RetainUntil b \<le> t" using r by simp_all
qed (rule inventory_counts)+

text \<open>C34: an instance that the captured inventory calls releasable holds nothing: no purge is in progress, and no Bed that is resident, retiring or
  being initialized is in a phase other than dormant or failed.\<close>

theorem releasable_means_nothing_held:
  assumes "slice_sorter slice_sort" and "captureInventory slice_sort name_lt began now luggage m = (m', rows)"
    and "statusOfInstance rows now' = InstanceReleasable"
  shows "M_purges m = []
    \<and> (\<forall>(name, b) \<in> set (M_beds m) \<union> set (M_retirements m). LS_Phase (bed_lifecycle m b) \<in> {PhaseDormant, PhaseFailed})
    \<and> (\<forall>(name, i) \<in> set (M_initializations m). map_of (M_retirements m) name = None \<longrightarrow> init_phase m i \<in> {PhaseDormant, PhaseFailed})"
proof -
  let ?m = "pruneFailedInitializationsLocked m now"
  let ?inits = "snd (initializationStatusesLocked began now m)"
  have idle: "\<not> occupies r" if "r \<in> set rows" for r
    using assms(3) that by (auto simp: statusOfInstance_cases split: if_splits)
  have "rows = slice_sort (\<lambda>a b. name_lt (IB_Name a) (IB_Name b))
      (map (\<lambda>(name, b). resident_row m b) (filter (\<lambda>(name, b). map_of (M_purges m) (bed_name m b) = None) (M_beds m))
       @ map initialization_row ?inits @ map (luggage_row ?m) (filter (\<lambda>l. \<not> luggage_active ?m (LG_BedID l)) luggage))"
    using assms(2) by (auto simp: captureInventory_def initializationStatusesLocked_def Let_def)
  then have rows: "set rows = set (map (\<lambda>(name, b). resident_row m b) (filter (\<lambda>(name, b). map_of (M_purges m) (bed_name m b) = None) (M_beds m)))
      \<union> (initialization_row ` set ?inits \<union> set (map (luggage_row ?m) (filter (\<lambda>l. \<not> luggage_active ?m (LG_BedID l)) luggage)))"
    using slice_sorter.slice_set [OF assms(1)] by (simp only: set_append set_map)
  have inits: "BS_Phase (IN_Status st) \<in> {PhaseDormant, PhaseFailed}" if "st \<in> set ?inits" for st
    using idle [of "initialization_row st"] that unfolding rows by (auto simp: occupies_def initialization_row_def)
  have purges: "M_purges m = []"
  proof (rule ccontr)
    assume "M_purges m \<noteq> []"
    then obtain p where "p \<in> set (M_purges m)" by (meson last_in_set)
    then have "purge_status began p \<in> set ?inits" by (simp add: initializationStatusesLocked_def pruneFailedInitializationsLocked_def Let_def)
    then show False using inits by (fastforce simp: purge_status_def)
  qed
  have "LS_Phase (bed_lifecycle m b) \<in> {PhaseDormant, PhaseFailed}" if "(name, b) \<in> set (M_beds m)" for name b
    using idle [of "resident_row m b"] that purges unfolding rows by (force simp: occupies_def resident_row_def lifecycleView_def Let_def)
  moreover have "LS_Phase (bed_lifecycle m b) \<in> {PhaseDormant, PhaseFailed}" if "(name, b) \<in> set (M_retirements m)" for name b
  proof -
    have "retirementStatus m b \<in> set ?inits"
      using that purges by (force simp: initializationStatusesLocked_def pruneFailedInitializationsLocked_def retirementStatus_def Let_def)
    then show ?thesis using inits by (fastforce simp: retirementStatus_def lifecycleView_def)
  qed
  moreover have "init_phase m i \<in> {PhaseDormant, PhaseFailed}" if "(name, i) \<in> set (M_initializations m)" "map_of (M_retirements m) name = None" for name i
  proof (cases "prunable m now i")
    case False
    then have "init_snapshot m i \<in> set ?inits" using that purges
      by (force simp: initializationStatusesLocked_def pruneFailedInitializationsLocked_def init_snapshot_def Let_def)
    then show ?thesis using inits by (fastforce simp: init_snapshot_def lifecycleView_def init_phase_def Let_def)
  qed (simp add: prunable_def)
  ultimately show ?thesis using purges by (intro conjI ballI) (simp, blast, blast)
qed


section \<open>Examples\<close>

definition sample_luggage :: "string \<Rightarrow> int \<Rightarrow> time \<Rightarrow> LuggageEntry" where
  "sample_luggage name n t = \<lparr> LG_Sync = SyncCAS, LG_BedID = name, LG_Bytes = n, LG_Generation = 1, LG_SnapshotGeneration = 1, LG_SnapshotBytes = 5,
     LG_LastActiveAt = t, LG_Usage = no_usage \<rparr>"

definition sample_row :: "LifecyclePhase \<Rightarrow> time \<Rightarrow> InventoryBed" where
  "sample_row phase t = (luggage_row sample_empty (sample_luggage ''a'' 10 1))\<lparr>IB_RetainUntil := t,
     IB_Status := \<lparr> BS_Phase = phase, BS_Activity = None, BS_Ready = True, BS_Reason = [], BS_UpdatedAt = 1 \<rparr>\<rparr>"

theorem instance_status_exact_witness:
  "IS_Status (InventoryStatus [sample_row PhaseResident 50, sample_row PhaseDormant 0] 60 9 3 sample_empty) \<noteq> InstanceReleasable
   \<and> IS_RetainedUntil (InventoryStatus [sample_row PhaseResident 50, sample_row PhaseDormant 0] 60 9 3 sample_empty) = Some 50
   \<and> IS_OccupiedBeds (InventoryStatus [sample_row PhaseResident 50, sample_row PhaseDormant 0] 60 9 3 sample_empty) = 1"
proof -
  have "IS_RetainedUntil (InventoryStatus [sample_row PhaseResident 50, sample_row PhaseDormant 0] 60 9 3 sample_empty) = Some 50"
    "occupies (sample_row PhaseResident 50)" "\<not> occupies (sample_row PhaseDormant 0)"
    by code_simp+
  then show ?thesis
    using instance_status_exact [OF refl, of "[sample_row PhaseResident 50, sample_row PhaseDormant 0]" 60 9 3 sample_empty] by simp
qed

definition sample_stored :: "LuggageEntry list" where
  "sample_stored = [sample_luggage ''new'' 10 9, sample_luggage ''old'' 20 2, sample_luggage ''stale'' 30 12]"

theorem collection_order_witness:
  "\<exists>tried rest gone. mset (tried @ rest) = mset sample_stored
     \<and> sorted_wrt (not_after (is_stale (\<lambda>name. if name = ''stale'' then Some 2 else None) sample_stored)) (tried @ rest)
     \<and> remove_each (\<lambda>name s. (True, name # s)) tried [] = (gone, [''old'', ''stale'']) \<and> map LG_BedID gone = [''stale'', ''old'']"
proof -
  have c: "collect_luggage sort_by (\<lambda>name s. (True, name # s)) (\<lambda>name. if name = ''stale'' then Some 2 else None) 50 15 sample_stored []
         = ([''stale'', ''old''], [''old'', ''stale''])" by code_simp
  have "\<not> total_bytes sample_stored \<le> 50" by code_simp
  then show ?thesis using collection_order [OF slice.slice_sorter_axioms c] by (simp only: if_False) metis
qed

theorem releasable_means_nothing_held_witness:
  "M_purges sample_empty = []
   \<and> statusOfInstance (snd (captureInventory sort_by (\<lambda>a b. False) (\<lambda>_. ([], 0)) 5 sample_stored sample_empty)) 6 = InstanceReleasable"
proof -
  obtain m' rows where c: "captureInventory sort_by (\<lambda>a b. False) (\<lambda>_. ([], 0)) 5 sample_stored sample_empty = (m', rows)" by fastforce
  have "statusOfInstance (snd (captureInventory sort_by (\<lambda>a b. False) (\<lambda>_. ([], 0)) 5 sample_stored sample_empty)) 6 = InstanceReleasable" by code_simp
  then show ?thesis using releasable_means_nothing_held [OF slice.slice_sorter_axioms c] c by simp
qed

end
