(* ===== verification/Lifecycle_Sequences.thy ===== *)
theory Lifecycle_Sequences
  imports Hostel_Prelude "HOL-Library.Sublist"
begin

text \<open>
  Lifecycle sequences (\<open>src/internal/bed/lifecycle.go\<close>), their use for the runtime of a Bed
  (\<open>src/internal/bed/manager/component_lifecycle.go\<close>) and the summary of isolation grades
  (\<open>src/internal/bed/room.go\<close>).

  The hooks of the subsystems and the context are functions on a world of any type: a hook returns its error
  and the world it leaves. Every call is recorded, so that the theorems speak of the calls made over
  several attempts, each of which may have other hooks, another context and another world. A Bed is
  its address.
\<close>

section \<open>Sequences\<close>

datatype Phase = Recover | Prepare | Stop | Release | Forget | OtherPhase string

type_synonym 'w hook = "Phase \<Rightarrow> string \<Rightarrow> nat \<Rightarrow> 'w \<Rightarrow> string option \<times> 'w"

datatype sequence_error = DifferentBed | ContextEnded string | UnknownPhase Phase | HookFailed Phase string string

record Sequence =
  SQ_phase :: Phase
  SQ_participants :: "string list"
  SQ_next :: nat
  SQ_bed :: "nat option"

record hook_call =
  HC_bed :: nat
  HC_name :: string
  HC_ok :: bool

definition NewSequence :: "Phase \<Rightarrow> string list \<Rightarrow> Sequence" where
  "NewSequence phase participants = \<lparr> SQ_phase = phase, SQ_participants = participants, SQ_next = 0, SQ_bed = None \<rparr>"

fun known_phase :: "Phase \<Rightarrow> bool" where
  "known_phase (OtherPhase _) = False"
| "known_phase _ = True"

text \<open>The loop of \<open>Run\<close>: the error, the sequence and the world afterwards, and the hooks that were called.\<close>

function Run_loop ::
  "('w \<Rightarrow> string option) \<Rightarrow> 'w hook \<Rightarrow> nat \<Rightarrow> Sequence \<Rightarrow> 'w \<Rightarrow> sequence_error option \<times> Sequence \<times> 'w \<times> hook_call list" where
  "Run_loop ctx hook b s w =
     (if SQ_next s < length (SQ_participants s) then
        let p = SQ_participants s ! SQ_next s
        in case ctx w of
             Some e \<Rightarrow> (Some (ContextEnded e), s, w, [])
           | None \<Rightarrow>
               if \<not> known_phase (SQ_phase s) then (Some (UnknownPhase (SQ_phase s)), s, w, [])
               else case hook (SQ_phase s) p b w of
                 (Some e, w1) \<Rightarrow> (Some (HookFailed (SQ_phase s) p e), s, w1, [\<lparr> HC_bed = b, HC_name = p, HC_ok = False \<rparr>])
               | (None, w1) \<Rightarrow>
                   (case Run_loop ctx hook b (s\<lparr>SQ_next := Suc (SQ_next s)\<rparr>) w1 of
                      (err, s2, w2, calls) \<Rightarrow> (err, s2, w2, \<lparr> HC_bed = b, HC_name = p, HC_ok = True \<rparr> # calls))
      else (None, s, w, []))"
  by pat_completeness auto

termination
  by (relation "measure (\<lambda>(ctx, hook, b, s, w). length (SQ_participants s) - SQ_next s)") auto

declare Run_loop.simps [simp del]

definition Run ::
  "('w \<Rightarrow> string option) \<Rightarrow> 'w hook \<Rightarrow> nat \<Rightarrow> Sequence \<Rightarrow> 'w \<Rightarrow> sequence_error option \<times> Sequence \<times> 'w \<times> hook_call list" where
  "Run ctx hook b s w =
     (if SQ_bed s \<noteq> None \<and> SQ_bed s \<noteq> Some b then (Some DifferentBed, s, w, [])
      else Run_loop ctx hook b (s\<lparr>SQ_bed := Some b\<rparr>) w)"

section \<open>What one run does\<close>

abbreviation succeeded :: "hook_call list \<Rightarrow> string list" where
  "succeeded calls \<equiv> map HC_name (filter HC_ok calls)"

text \<open>\<open>in_turn ps n calls\<close>: each call is for the participant whose turn it is, when \<open>n\<close> have succeeded before.\<close>

fun in_turn :: "string list \<Rightarrow> nat \<Rightarrow> hook_call list \<Rightarrow> bool" where
  "in_turn ps n [] \<longleftrightarrow> True"
| "in_turn ps n (c # cs) \<longleftrightarrow>
     n < length ps \<and> HC_name c = ps ! n \<and> in_turn ps (if HC_ok c then Suc n else n) cs"

lemma in_turn_append: "in_turn ps n (cs @ ds) \<longleftrightarrow> in_turn ps n cs \<and> in_turn ps (n + length (filter HC_ok cs)) ds"
  by (induction cs arbitrary: n) auto

lemma in_turn_succeeded: "in_turn ps n cs \<Longrightarrow> n \<le> length ps \<Longrightarrow>
  succeeded cs = take (length (filter HC_ok cs)) (drop n ps) \<and> n + length (filter HC_ok cs) \<le> length ps"
proof (induction cs arbitrary: n)
  case (Cons c cs)
  show ?case
  proof (cases "HC_ok c")
    case True
    have "drop n ps = ps ! n # drop (Suc n) ps" using Cons.prems by (simp add: Cons_nth_drop_Suc)
    then show ?thesis using Cons.IH [of "Suc n"] Cons.prems True by auto
  next
    case False
    then show ?thesis using Cons.IH [of n] Cons.prems by simp
  qed
qed simp

lemma Run_loop_next:
  assumes "SQ_next s < length (SQ_participants s)" and "ctx w = None" and "known_phase (SQ_phase s)"
    and "hook (SQ_phase s) (SQ_participants s ! SQ_next s) b w = (None, w1)"
    and "Run_loop ctx hook b (s\<lparr>SQ_next := Suc (SQ_next s)\<rparr>) w1 = (err, s2, w2, calls)"
  shows "Run_loop ctx hook b s w = (err, s2, w2, \<lparr> HC_bed = b, HC_name = SQ_participants s ! SQ_next s, HC_ok = True \<rparr> # calls)"
  using assms by (subst Run_loop.simps) simp

lemma Run_loop_ends:
  assumes "\<not> (SQ_next s < length (SQ_participants s) \<and> ctx w = None \<and> known_phase (SQ_phase s)
      \<and> fst (hook (SQ_phase s) (SQ_participants s ! SQ_next s) b w) = None)"
    and "Run_loop ctx hook b s w = (err, s', w', calls)"
  shows "s' = s" and "err = None \<longrightarrow> calls = [] \<and> length (SQ_participants s) \<le> SQ_next s"
    and "calls = [] \<or> (SQ_next s < length (SQ_participants s) \<and> calls = [\<lparr> HC_bed = b, HC_name = SQ_participants s ! SQ_next s, HC_ok = False \<rparr>])"
  using assms unfolding Run_loop.simps [of ctx hook b s w]
  by (auto simp: Let_def split: option.splits prod.splits if_splits)

definition run_spec :: "nat \<Rightarrow> Sequence \<Rightarrow> sequence_error option \<Rightarrow> Sequence \<Rightarrow> hook_call list \<Rightarrow> bool" where
  "run_spec b s err s' calls \<longleftrightarrow>
     s' = s\<lparr>SQ_next := SQ_next s + length (filter HC_ok calls)\<rparr>
     \<and> in_turn (SQ_participants s) (SQ_next s) calls \<and> (\<forall>c \<in> set calls. HC_bed c = b)
     \<and> (err = None \<longrightarrow> length (SQ_participants s) \<le> SQ_next s') \<and> length (filter (\<lambda>c. \<not> HC_ok c) calls) \<le> 1"

lemma Run_loop_spec:
  "Run_loop ctx hook b s w = (err, s', w', calls) \<Longrightarrow> run_spec b s err s' calls"
proof (induction "length (SQ_participants s) - SQ_next s" arbitrary: s w err s' w' calls)
  case less: 0
  then have "\<not> SQ_next s < length (SQ_participants s)" by simp
  then show ?case using Run_loop_ends [OF _ less(2)] by (auto simp: run_spec_def)
next
  case (Suc n)
  let ?p = "SQ_participants s ! SQ_next s"
  show ?case
  proof (cases "SQ_next s < length (SQ_participants s) \<and> ctx w = None \<and> known_phase (SQ_phase s)
      \<and> fst (hook (SQ_phase s) ?p b w) = None")
    case False
    then show ?thesis using Run_loop_ends [OF False Suc.prems] by (auto simp: run_spec_def)
  next
    case True
    then obtain w1 where h: "hook (SQ_phase s) ?p b w = (None, w1)" by (metis prod.collapse)
    obtain e2 s2 w2 cs where r: "Run_loop ctx hook b (s\<lparr>SQ_next := Suc (SQ_next s)\<rparr>) w1 = (e2, s2, w2, cs)" by (metis prod_cases4)
    have "run_spec b (s\<lparr>SQ_next := Suc (SQ_next s)\<rparr>) e2 s2 cs" by (rule Suc.hyps(1) [OF _ r]) (use Suc.hyps(2) in simp)
    moreover have "err = e2" "s' = s2" "calls = \<lparr> HC_bed = b, HC_name = ?p, HC_ok = True \<rparr> # cs"
      using Suc.prems Run_loop_next [OF _ _ _ h r] True by simp_all
    ultimately show ?thesis using True by (auto simp: run_spec_def)
  qed
qed

lemma Run_spec:
  assumes "Run ctx hook b s w = (err, s', w', calls)"
  shows "run_spec b s err (s'\<lparr>SQ_bed := SQ_bed s\<rparr>) calls
    \<and> (s' = s \<and> calls = [] \<and> err = Some DifferentBed \<or> SQ_bed s \<in> {None, Some b} \<and> SQ_bed s' = Some b)"
  using assms Run_loop_spec [of ctx hook b "s\<lparr>SQ_bed := Some b\<rparr>" w err s' w' calls]
  by (auto simp: Run_def run_spec_def split: if_splits)

lemma Run_completes:
  assumes "\<And>w. ctx w = None" and "\<And>p w. p \<in> set (SQ_participants s) \<Longrightarrow> fst (hook (SQ_phase s) p b w) = None"
    and "known_phase (SQ_phase s)"
  shows "fst (Run_loop ctx hook b s w) = None"
  using assms
proof (induction "length (SQ_participants s) - SQ_next s" arbitrary: s w)
  case 0
  then show ?case by (subst Run_loop.simps) simp
next
  case (Suc n)
  let ?p = "SQ_participants s ! SQ_next s"
  have p: "SQ_next s < length (SQ_participants s)" using Suc.hyps(2) by simp
  then have "fst (hook (SQ_phase s) ?p b w) = None" using Suc.prems(2) by simp
  then obtain w1 where h: "hook (SQ_phase s) ?p b w = (None, w1)" by (metis prod.collapse)
  obtain e2 s2 w2 cs where r: "Run_loop ctx hook b (s\<lparr>SQ_next := Suc (SQ_next s)\<rparr>) w1 = (e2, s2, w2, cs)" by (metis prod_cases4)
  have "fst (Run_loop ctx hook b (s\<lparr>SQ_next := Suc (SQ_next s)\<rparr>) w1) = None"
    by (rule Suc.hyps(1)) (use Suc.hyps(2) Suc.prems in auto)
  then show ?case using Run_loop_next [OF p Suc.prems(1,3) h r] r by simp
qed

section \<open>Retries of one sequence\<close>

definition sequence_ok :: "Phase \<Rightarrow> string list \<Rightarrow> Sequence \<Rightarrow> hook_call list \<Rightarrow> bool" where
  "sequence_ok phase ps s calls \<longleftrightarrow>
     SQ_phase s = phase \<and> SQ_participants s = ps \<and> SQ_next s = length (filter HC_ok calls) \<and> in_turn ps 0 calls
     \<and> (calls \<noteq> [] \<longrightarrow> SQ_bed s \<noteq> None) \<and> (\<forall>c \<in> set calls. SQ_bed s = Some (HC_bed c))"

lemma sequence_ok_New [simp]: "sequence_ok phase ps (NewSequence phase ps) []"
  by (simp add: sequence_ok_def NewSequence_def)

text \<open>Whatever the hooks and the context do, an attempt continues where the last one stopped.\<close>

lemma sequence_ok_Run:
  assumes "sequence_ok phase ps s calls0" and "Run ctx hook b s w = (err, s', w', calls)"
  shows "sequence_ok phase ps s' (calls0 @ calls)"
    and "succeeded (calls0 @ calls) = take (SQ_next s') ps"
    and "err = None \<Longrightarrow> succeeded (calls0 @ calls) = ps"
proof -
  note r = Run_spec [OF assms(2)]
  have eq: "s'\<lparr>SQ_bed := SQ_bed s\<rparr> = s\<lparr>SQ_next := SQ_next s + length (filter HC_ok calls)\<rparr>" using r by (simp add: run_spec_def)
  have s': "SQ_phase s' = SQ_phase s \<and> SQ_participants s' = SQ_participants s \<and> SQ_next s' = SQ_next s + length (filter HC_ok calls)"
    using arg_cong [OF eq, of SQ_phase] arg_cong [OF eq, of SQ_participants] arg_cong [OF eq, of SQ_next] by simp
  show ok: "sequence_ok phase ps s' (calls0 @ calls)"
    using r assms(1) s' by (auto simp: sequence_ok_def run_spec_def in_turn_append)
  then have t: "in_turn ps 0 (calls0 @ calls)" "SQ_next s' = length (filter HC_ok (calls0 @ calls))" by (simp_all only: sequence_ok_def)
  from in_turn_succeeded [OF t(1)] show all: "succeeded (calls0 @ calls) = take (SQ_next s') ps" unfolding t(2) by simp
  show "succeeded (calls0 @ calls) = ps" if "err = None"
    using r that all s' assms(1) by (simp add: run_spec_def sequence_ok_def)
qed

section \<open>Tearing down the runtime of a Bed\<close>

definition stop_order :: "string list" where
  "stop_order = [''pillow'', ''store'', ''executor'']"

definition release_order :: "string list" where
  "release_order = [''pillow'', ''amenity'', ''executor'', ''resource'', ''configuration'', ''filesystem'', ''network'', ''store'']"

record bed_runtime =
  BR_stopSequence :: Sequence
  BR_releaseSequence :: Sequence
  BR_runtimeClosed :: bool

definition bindRuntimeLifecycle :: bed_runtime where
  "bindRuntimeLifecycle = \<lparr> BR_stopSequence = NewSequence Stop stop_order, BR_releaseSequence = NewSequence Release release_order,
     BR_runtimeClosed = False \<rparr>"

datatype teardown_error = PillowStopFailed string | TeardownEnded string | SequenceFailed sequence_error

datatype cleanup_event = PillowsStopped bool | CommandsRevoked | StopHook hook_call | ReleaseHook hook_call

text \<open>\<open>revoke\<close>: killing the executions of the Bed and revoking its sessions. The lifecycle phases that \<open>teardown\<close> publishes are
  in \<open>Bed_Persistence.teardown\<close>, where this function is an outcome.\<close>

definition teardown_runtime ::
  "('w \<Rightarrow> string option) \<Rightarrow> 'w hook \<Rightarrow> ('w \<Rightarrow> 'w) \<Rightarrow> nat \<Rightarrow> bed_runtime \<Rightarrow> 'w
     \<Rightarrow> teardown_error option \<times> bed_runtime \<times> 'w \<times> cleanup_event list" where
  "teardown_runtime ctx hook revoke b rt w =
     (if BR_runtimeClosed rt then (None, rt, w, [])
      else case hook Stop ''pillow'' b w of
        (Some e, w1) \<Rightarrow> (Some (PillowStopFailed e), rt, w1, [PillowsStopped False])
      | (None, w1) \<Rightarrow>
          let w2 = revoke w1; begun = [PillowsStopped True, CommandsRevoked]
          in case ctx w2 of
               Some e \<Rightarrow> (Some (TeardownEnded e), rt, w2, begun)
             | None \<Rightarrow>
                 (case Run ctx hook b (BR_stopSequence rt) w2 of (err1, s1, w3, calls1) \<Rightarrow>
                    let rt1 = rt\<lparr>BR_stopSequence := s1\<rparr>; stopped = begun @ map StopHook calls1
                    in case err1 of
                         Some e \<Rightarrow> (Some (SequenceFailed e), rt1, w3, stopped)
                       | None \<Rightarrow>
                           (case Run ctx hook b (BR_releaseSequence rt) w3 of (err2, s2, w4, calls2) \<Rightarrow>
                              let rt2 = rt1\<lparr>BR_releaseSequence := s2\<rparr>; released = stopped @ map ReleaseHook calls2
                              in case err2 of
                                   Some e \<Rightarrow> (Some (SequenceFailed e), rt2, w4, released)
                                 | None \<Rightarrow> (None, rt2\<lparr>BR_runtimeClosed := True\<rparr>, w4, released))))"

fun stop_calls :: "cleanup_event list \<Rightarrow> hook_call list" where
  "stop_calls [] = []"
| "stop_calls (StopHook c # es) = c # stop_calls es"
| "stop_calls (_ # es) = stop_calls es"

fun release_calls :: "cleanup_event list \<Rightarrow> hook_call list" where
  "release_calls [] = []"
| "release_calls (ReleaseHook c # es) = c # release_calls es"
| "release_calls (_ # es) = release_calls es"

lemma calls_append [simp]:
  "stop_calls (es @ fs) = stop_calls es @ stop_calls fs"
  "release_calls (es @ fs) = release_calls es @ release_calls fs"
  by (induction es rule: stop_calls.induct; simp) (induction es rule: release_calls.induct; simp)

lemma calls_map [simp]:
  "stop_calls (map StopHook cs) = cs" "stop_calls (map ReleaseHook cs) = []"
  "release_calls (map ReleaseHook cs) = cs" "release_calls (map StopHook cs) = []"
  by (induction cs) simp_all

text \<open>The attempts to tear one Bed down, each with its own context, hooks and world; the world is an argument of the relation only for
  its type.\<close>

inductive cleanup :: "nat \<Rightarrow> bed_runtime \<Rightarrow> cleanup_event list \<Rightarrow> 'w \<Rightarrow> bool" for b where
  bound: "cleanup b bindRuntimeLifecycle [] w"
| attempt: "cleanup b rt es w0 \<Longrightarrow> teardown_runtime ctx hook revoke b rt w = (err, rt', w', new) \<Longrightarrow> cleanup b rt' (es @ new) w'"

definition stopped_before :: "cleanup_event list \<Rightarrow> bool" where
  "stopped_before pre \<longleftrightarrow> succeeded (stop_calls pre) = stop_order \<and> PillowsStopped True \<in> set pre \<and> CommandsRevoked \<in> set pre"

definition stops_first :: "cleanup_event list \<Rightarrow> bool" where
  "stops_first es \<longleftrightarrow> (\<forall>i < length es. \<forall>c. es ! i = ReleaseHook c \<longrightarrow> stopped_before (take i es))"

lemma stops_first_append: "stops_first es \<Longrightarrow> (\<And>c. ReleaseHook c \<notin> set new) \<Longrightarrow> stops_first (es @ new)"
  unfolding stops_first_def by (metis length_append nat_add_left_cancel_less le_add_diff_inverse not_less nth_append nth_mem take_append diff_is_0_eq' less_imp_le take0 append_Nil2)

lemma stops_first_release:
  assumes "stops_first es" and "stopped_before es"
  shows "stops_first (es @ map ReleaseHook cs)"
proof -
  have "stopped_before (es @ map ReleaseHook (take n cs))" for n using assms(2) by (auto simp: stopped_before_def)
  then show ?thesis using assms(1) by (auto simp: stops_first_def nth_append take_map)
qed

definition cleanup_ok :: "bed_runtime \<Rightarrow> cleanup_event list \<Rightarrow> bool" where
  "cleanup_ok rt es \<longleftrightarrow>
     sequence_ok Stop stop_order (BR_stopSequence rt) (stop_calls es)
     \<and> sequence_ok Release release_order (BR_releaseSequence rt) (release_calls es) \<and> stops_first es
     \<and> (BR_runtimeClosed rt \<longrightarrow> succeeded (stop_calls es) = stop_order \<and> succeeded (release_calls es) = release_order)"

lemma cleanup_ok_bound: "cleanup_ok bindRuntimeLifecycle []"
  by (simp add: cleanup_ok_def bindRuntimeLifecycle_def stops_first_def)

lemma cleanup_ok_attempt:
  assumes ok: "cleanup_ok rt es" and t: "teardown_runtime ctx hook revoke b rt w = (err, rt', w', new)"
  shows "cleanup_ok rt' (es @ new) \<and> (err = None \<longrightarrow> BR_runtimeClosed rt')"
proof (cases "BR_runtimeClosed rt")
  case True
  then show ?thesis using assms by (simp add: teardown_runtime_def)
next
  case running: False
  note st = ok [unfolded cleanup_ok_def]
  obtain e0 w1 where h: "hook Stop ''pillow'' b w = (e0, w1)" by force
  obtain err1 s1 w3 calls1 where r1: "Run ctx hook b (BR_stopSequence rt) (revoke w1) = (err1, s1, w3, calls1)" by (metis prod_cases4)
  obtain err2 s2 w4 calls2 where r2: "Run ctx hook b (BR_releaseSequence rt) w3 = (err2, s2, w4, calls2)" by (metis prod_cases4)
  let ?begun = "[PillowsStopped True, CommandsRevoked]"
  have q1: "sequence_ok Stop stop_order s1 (stop_calls es @ calls1)" and f1: "err1 = None \<Longrightarrow> succeeded (stop_calls es @ calls1) = stop_order"
    using sequence_ok_Run [OF _ r1] st by blast+
  have q2: "sequence_ok Release release_order s2 (release_calls es @ calls2)" and f2: "err2 = None \<Longrightarrow> succeeded (release_calls es @ calls2) = release_order"
    using sequence_ok_Run [OF _ r2] st by blast+
  have stopping: "stops_first (es @ ?begun @ map StopHook calls1)" "stops_first (es @ ?begun)" "stops_first (es @ [PillowsStopped False])"
    using st by (auto intro!: stops_first_append)
  consider (pillow) e where "e0 = Some e" | (ended) e where "e0 = None" "ctx (revoke w1) = Some e"
    | (stop) e where "e0 = None" "ctx (revoke w1) = None" "err1 = Some e" | (release) "e0 = None" "ctx (revoke w1) = None" "err1 = None"
    by fastforce
  then show ?thesis
  proof cases
    case pillow
    then show ?thesis using t running h st stopping by (auto simp: teardown_runtime_def cleanup_ok_def)
  next
    case ended
    then show ?thesis using t running h st stopping by (auto simp: teardown_runtime_def cleanup_ok_def)
  next
    case stop
    then show ?thesis using t running h r1 st stopping q1 by (auto simp: teardown_runtime_def cleanup_ok_def)
  next
    case release
    have "stopped_before (es @ ?begun @ map StopHook calls1)" using f1 release(3) by (simp add: stopped_before_def)
    then have "stops_first ((es @ ?begun @ map StopHook calls1) @ map ReleaseHook calls2)" by (rule stops_first_release [OF stopping(1)])
    then show ?thesis using t running release h r1 r2 st q1 q2 f1 f2
      by (cases err2) (auto simp: teardown_runtime_def cleanup_ok_def)
  qed
qed

lemma cleanup_reachable_ok: "cleanup b rt es w \<Longrightarrow> cleanup_ok rt es"
  by (induction rule: cleanup.induct) (auto simp: cleanup_ok_bound dest: cleanup_ok_attempt)

text \<open>C15: however often tearing a Bed down fails and is retried, whatever fails: a release hook is called only after
  the pillows stopped, the commands were revoked and all stop hooks succeeded; the hooks of each sequence succeed
  at most once, in their order; and an attempt that reports success has had every stop and every release hook succeed exactly once.\<close>

theorem teardown_stops_before_release:
  assumes "cleanup b rt es w0" and "teardown_runtime ctx hook revoke b rt w = (err, rt', w', new)"
  shows "(\<forall>i < length (es @ new). \<forall>c. (es @ new) ! i = ReleaseHook c \<longrightarrow> stopped_before (take i (es @ new)))
    \<and> prefix (succeeded (stop_calls (es @ new))) [''pillow'', ''store'', ''executor'']
    \<and> prefix (succeeded (release_calls (es @ new)))
        [''pillow'', ''amenity'', ''executor'', ''resource'', ''configuration'', ''filesystem'', ''network'', ''store'']
    \<and> (err = None \<longrightarrow> succeeded (stop_calls (es @ new)) = stop_order \<and> succeeded (release_calls (es @ new)) = release_order)"
proof -
  have ok: "cleanup_ok rt' (es @ new)" "err = None \<longrightarrow> BR_runtimeClosed rt'"
    using cleanup_ok_attempt [OF cleanup_reachable_ok [OF assms(1)] assms(2)] by simp_all
  have "prefix (succeeded calls) ps" if "sequence_ok phase ps s calls" for phase ps s calls
    using that in_turn_succeeded [of ps 0 calls] by (simp add: sequence_ok_def take_is_prefix)
  then show ?thesis using ok unfolding cleanup_ok_def stops_first_def stop_order_def [symmetric] release_order_def [symmetric] by blast
qed

text \<open>Hooks on a world without state that all succeed, except the release hook of one participant.\<close>

definition sample_hook :: "string \<Rightarrow> unit hook" where
  "sample_hook failing phase p b w = (if phase = Release \<and> p = failing then Some ''busy'' else None, w)"

definition sample_teardown :: "string \<Rightarrow> bed_runtime \<Rightarrow> teardown_error option \<times> bed_runtime \<times> unit \<times> cleanup_event list" where
  "sample_teardown failing rt = teardown_runtime (\<lambda>_. None) (sample_hook failing) (\<lambda>w. w) 7 rt ()"

theorem teardown_stops_before_release_witness:
  "\<exists>rt es. cleanup 7 rt es () \<and> succeeded (release_calls es) = [''pillow'', ''amenity'', ''executor'', ''resource'', ''configuration'', ''filesystem'']
     \<and> fst (sample_teardown '''' rt) = None
     \<and> succeeded (release_calls (es @ snd (snd (snd (sample_teardown '''' rt))))) = release_order"
proof -
  let ?first = "sample_teardown ''network'' bindRuntimeLifecycle"
  let ?rt = "fst (snd ?first)" and ?es = "snd (snd (snd ?first))"
  let ?second = "sample_teardown '''' ?rt"
  have "teardown_runtime (\<lambda>_. None) (sample_hook ''network'') (\<lambda>w. w) 7 bindRuntimeLifecycle () = (fst ?first, ?rt, (), ?es)"
    by (simp add: sample_teardown_def prod_eq_iff)
  from cleanup.attempt [OF cleanup.bound this] have c: "cleanup 7 ?rt ?es ()" by simp
  have "teardown_runtime (\<lambda>_. None) (sample_hook '''') (\<lambda>w. w) 7 ?rt () = (fst ?second, fst (snd ?second), (), snd (snd (snd ?second)))"
    by (simp add: sample_teardown_def prod_eq_iff)
  from teardown_stops_before_release [OF c this]
  have "fst ?second = None \<longrightarrow> succeeded (release_calls (?es @ snd (snd (snd ?second)))) = release_order" by blast
  moreover have "fst ?second = None" by code_simp
  moreover have "succeeded (release_calls ?es) = [''pillow'', ''amenity'', ''executor'', ''resource'', ''configuration'', ''filesystem'']" by code_simp
  ultimately show ?thesis using c by (intro exI [of _ ?rt] exI [of _ ?es] conjI) simp_all
qed

text \<open>When nothing fails, one attempt is enough.\<close>

lemma Run_loop_SQ_bed_completes:
  assumes "\<And>w. ctx w = None" and "\<And>phase p w. fst (hook phase p b w) = None" and "known_phase (SQ_phase s)"
    and "SQ_bed s \<in> {None, Some b}" and "Run ctx hook b s w = (err, s', w', calls)"
  shows "err = None"
  using assms Run_completes [of ctx "s\<lparr>SQ_bed := Some b\<rparr>" hook b w] by (auto simp: Run_def)

lemma teardown_completes:
  assumes "\<And>w. ctx w = None" and "\<And>phase p w. fst (hook phase p b w) = None"
    and "cleanup_ok rt es" and "SQ_bed (BR_stopSequence rt) \<in> {None, Some b}" and "SQ_bed (BR_releaseSequence rt) \<in> {None, Some b}"
  shows "fst (teardown_runtime ctx hook revoke b rt w) = None"
proof -
  have ph: "SQ_phase (BR_stopSequence rt) = Stop" "SQ_phase (BR_releaseSequence rt) = Release"
    using assms(3) by (simp_all add: cleanup_ok_def sequence_ok_def)
  obtain w1 where h: "hook Stop ''pillow'' b w = (None, w1)" using assms(2) by (metis prod.collapse)
  obtain err1 s1 w3 calls1 where r1: "Run ctx hook b (BR_stopSequence rt) (revoke w1) = (err1, s1, w3, calls1)" by (metis prod_cases4)
  obtain err2 s2 w4 calls2 where r2: "Run ctx hook b (BR_releaseSequence rt) w3 = (err2, s2, w4, calls2)" by (metis prod_cases4)
  have "err1 = None" "err2 = None"
    using Run_loop_SQ_bed_completes [OF assms(1,2) _ _ r1] Run_loop_SQ_bed_completes [OF assms(1,2) _ _ r2] ph assms(4,5) by simp_all
  then show ?thesis using h r1 r2 assms(1) by (simp add: teardown_runtime_def Let_def)
qed

section \<open>Isolation grades\<close>

definition Dorm :: string where
  "Dorm = ''dorm''"

definition Room :: string where
  "Room = ''room''"

definition Suite :: string where
  "Suite = ''suite''"

definition Rank :: "string \<Rightarrow> nat" where
  "Rank r = (if r = Suite then 3 else if r = Room then 2 else if r = Dorm then 1 else 0)"

definition SummarizeRoom :: "string \<Rightarrow> string \<Rightarrow> string" where
  "SummarizeRoom files network = (if Rank network < Rank files then network else files)"

lemma SummarizeRoom_weakest:
  "Rank (SummarizeRoom files network) = min (Rank files) (Rank network)
   \<and> SummarizeRoom files network \<in> {files, network}"
  by (simp add: SummarizeRoom_def min_def)

end
