(* ===== verification/Bed_Network.thy ===== *)
theory Bed_Network
  imports Net_Policy Lifecycle_Sequences
begin

text \<open>
  The network of a Bed (\<open>src/internal/bed/network/lifecycle.go\<close>, \<open>manager.go\<close>, \<open>profile.go\<close>): the choice between a private and
  the shared network, preparation, release, and policy updates with the status they publish.

  The host side is the interface \<open>policy_provider\<close>: a state per attachment, an update that applies a mutation
  under an environment (what the kernel answers) and the policy in force. The host's \<open>policyControl\<close> provides
  it. What acquiring and closing an attachment return are arguments. A Bed and an attachment are addresses. The per-allocation lock makes an
  update and its publication one step, so the operations are functions on the state of the network manager; allocations
  are shared by address, because an update may hold one that is released meanwhile.
\<close>

section \<open>Levels and reports\<close>

definition Shared :: string where
  "Shared = ''shared''"

definition Private :: string where
  "Private = ''private''"

definition level_room :: "string \<Rightarrow> string" where
  "level_room l = (if l = Private then Suite else Dorm)"

definition tool_effective :: "string \<Rightarrow> string" where
  "tool_effective p = (if p = [] then ''auto'' else p)"

definition tool_validate :: "string \<Rightarrow> bool" where
  "tool_validate p = (tool_effective p \<in> {''auto'', ''off'', ''required''})"

record tool_status =
  TS_Policy :: string
  TS_Probe :: string
  TS_Selected :: bool
  TS_Reason :: string

definition tool_describe :: "string \<Rightarrow> bool \<Rightarrow> bool \<Rightarrow> bool \<Rightarrow> string \<Rightarrow> tool_status" where
  "tool_describe p probed available selected reason =
     (if tool_effective p = ''off''
      then \<lparr> TS_Policy = tool_effective p, TS_Probe = ''not_probed'', TS_Selected = False, TS_Reason = ''disabled_by_config'' \<rparr>
      else \<lparr> TS_Policy = tool_effective p,
             TS_Probe = (if probed then (if available then ''available'' else ''unavailable'') else ''not_probed''),
             TS_Selected = selected, TS_Reason = reason \<rparr>)"

definition CheckRequired :: "tool_status \<Rightarrow> string option" where
  "CheckRequired s =
     (if TS_Policy s = ''required'' \<and> \<not> TS_Selected s
      then Some (if TS_Reason s = [] then ''tool unavailable or excluded by subsystem selection'' else TS_Reason s) else None)"

text \<open>The fields of the network manager's status that decide; an error is its cause.\<close>

record NetworkReport =
  NR_Effective :: string
  NR_Supported :: "string list"
  NR_Netns :: tool_status
  NR_Room :: string
  NR_Backend :: string
  NR_Scope :: string
  NR_Reason :: string
  NR_Cause :: string
  NR_Err :: "string option"
  NR_Stage :: string

definition describe :: "string \<Rightarrow> NetworkReport \<Rightarrow> NetworkReport" where
  "describe config s =
     (let available = (NR_Effective s = Private);
          policy = tool_effective config;
          s1 = (if policy = ''off''
                then s\<lparr>NR_Effective := Shared, NR_Backend := ''shared'', NR_Scope := ''carrier'', NR_Reason := ''disabled_by_config'', NR_Err := Some ''request''\<rparr>
                else s);
          selected = (NR_Effective s1 = Private);
          err = (if selected then None else if NR_Err s1 = None then Some ''unknown'' else NR_Err s1)
      in s1\<lparr>NR_Effective := (if selected then Private else Shared),
            NR_Supported := (if available \<and> policy \<noteq> ''off'' then [Shared, Private] else [Shared]),
            NR_Err := err, NR_Cause := (case err of None \<Rightarrow> [] | Some c \<Rightarrow> c),
            NR_Netns := tool_describe policy (NR_Stage s1 \<noteq> []) available selected (NR_Reason s1),
            NR_Room := level_room (if selected then Private else Shared)\<rparr>)"

lemma describe_effective:
  "NR_Effective (describe config s) = (if NR_Effective s = Private \<and> tool_effective config \<noteq> ''off'' then Private else Shared)"
  by (simp add: describe_def Let_def Shared_def Private_def)

text \<open>A required namespace that was not selected fails the start; an optional one never does.\<close>

lemma describe_required:
  "CheckRequired (NR_Netns (describe config s)) \<noteq> None
     \<longleftrightarrow> tool_effective config = ''required'' \<and> NR_Effective (describe config s) \<noteq> Private"
  by (auto simp: CheckRequired_def describe_def Let_def tool_describe_def Shared_def Private_def tool_effective_def)

section \<open>State\<close>

record NetworkStatus =
  NS_Room :: string
  NS_Level :: string
  NS_RequestedPolicy :: "Policy option"
  NS_PolicyStatus :: string
  NS_Reason :: string
  NS_Cause :: string
  NS_Gateway :: string
  NS_Policy :: "Policy option"

definition no_status :: NetworkStatus where
  "no_status = \<lparr> NS_Room = [], NS_Level = [], NS_RequestedPolicy = None, NS_PolicyStatus = [], NS_Reason = [], NS_Cause = [],
     NS_Gateway = [], NS_Policy = None \<rparr>"

record bedAllocation =
  BA_attachment :: "nat option"
  BA_released :: bool
  BA_requested :: "Policy option"

record 'c bed_networks =
  BN_heap :: "bedAllocation list"
  BN_allocations :: "(nat \<times> nat) list"         \<comment> \<open>by Bed\<close>
  BN_status :: "nat \<Rightarrow> NetworkStatus"
  BN_controls :: "nat \<Rightarrow> 'c"                    \<comment> \<open>by attachment\<close>

record BedPolicyStatus = PolicyStatus +
  BP_RequestedPolicy :: "Policy option"
  BP_Reason :: string
  BP_Cause :: string

definition set_status :: "nat \<Rightarrow> (NetworkStatus \<Rightarrow> NetworkStatus) \<Rightarrow> 'c bed_networks \<Rightarrow> 'c bed_networks" where
  "set_status b f m = m\<lparr>BN_status := (BN_status m)(b := f (BN_status m b))\<rparr>"

section \<open>Operations\<close>

definition changes :: "PolicyMutation \<Rightarrow> bool" where
  "changes mu = (Replace mu \<noteq> None \<or> Merge mu \<noteq> None \<or> Remove mu \<noteq> None)"

text \<open>An update on an allocation without an attachment records the wish and reports that nothing enforces it.\<close>

definition update_unenforced ::
  "NetworkReport \<Rightarrow> 'c bed_networks \<Rightarrow> nat \<Rightarrow> nat \<Rightarrow> PolicyMutation \<Rightarrow> (policy_error, BedPolicyStatus) result \<times> 'c bed_networks" where
  "update_unenforced report m b al mu =
     (let a = BN_heap m ! al
      in case ApplyMutation (case BA_requested a of None \<Rightarrow> \<lparr> DefaultAction = allow, Egress = [] \<rparr> | Some p \<Rightarrow> p) mu of
           Inl e \<Rightarrow> (Inl e, m)
         | Inr desired \<Rightarrow>
             let requested = (if changes mu then Some desired else BA_requested a);
                 m1 = m\<lparr>BN_heap := (BN_heap m)[al := a\<lparr>BA_requested := requested\<rparr>]\<rparr>;
                 result = \<lparr> Status = ''degraded'', Mode = ''unenforced'', EnforcementMode = ''none'', Scope = ''bed_processes'',
                            StatusPolicy = \<lparr> DefaultAction = allow, Egress = [] \<rparr>,
                            BP_RequestedPolicy = (if requested = None then None else Some desired), BP_Reason = NR_Reason report, BP_Cause = NR_Cause report \<rparr>
             in (Inr result,
                 if requested = None then m1
                 else set_status b (\<lambda>s. s\<lparr>NS_RequestedPolicy := Some desired, NS_Policy := None, NS_PolicyStatus := ''unenforced''\<rparr>) m1))"

definition update_enforced ::
  "('k \<Rightarrow> 'c \<Rightarrow> PolicyMutation \<Rightarrow> (policy_error, PolicyStatus) result \<times> 'c) \<Rightarrow> 'k \<Rightarrow> NetworkReport \<Rightarrow> 'c bed_networks \<Rightarrow> nat \<Rightarrow> nat \<Rightarrow> PolicyMutation
     \<Rightarrow> (policy_error, BedPolicyStatus) result \<times> 'c bed_networks" where
  "update_enforced update k report m b at mu =
     (if NR_Effective report \<noteq> Private then (Inl ErrUnavailable, m)
      else case update k (BN_controls m at) mu of
        (Inl e, c) \<Rightarrow> (Inl e, m\<lparr>BN_controls := (BN_controls m)(at := c)\<rparr>)
      | (Inr st, c) \<Rightarrow>
          (Inr \<lparr> Status = Status st, Mode = Mode st, EnforcementMode = EnforcementMode st, Scope = ''bed_processes'', StatusPolicy = StatusPolicy st,
                 BP_RequestedPolicy = None, BP_Reason = [], BP_Cause = [] \<rparr>,
           set_status b (\<lambda>s. s\<lparr>NS_Policy := Some (StatusPolicy st), NS_RequestedPolicy := Some (StatusPolicy st), NS_PolicyStatus := ''enforced''\<rparr>)
             (m\<lparr>BN_controls := (BN_controls m)(at := c)\<rparr>)))"

text \<open>\<open>al\<close>: the allocation that the lookup returned, which may have been released before its lock was taken.\<close>

definition update_allocation ::
  "('k \<Rightarrow> 'c \<Rightarrow> PolicyMutation \<Rightarrow> (policy_error, PolicyStatus) result \<times> 'c) \<Rightarrow> 'k \<Rightarrow> NetworkReport \<Rightarrow> 'c bed_networks \<Rightarrow> nat \<Rightarrow> nat option \<Rightarrow> PolicyMutation
     \<Rightarrow> (policy_error, BedPolicyStatus) result \<times> 'c bed_networks" where
  "update_allocation update k report m b found mu =
     (case found of
        None \<Rightarrow> (Inl ErrUnavailable, m)
      | Some al \<Rightarrow>
          if BA_released (BN_heap m ! al) then (Inl ErrUnavailable, m)
          else case BA_attachment (BN_heap m ! al) of
            None \<Rightarrow> update_unenforced report m b al mu
          | Some at \<Rightarrow> update_enforced update k report m b at mu)"

definition UpdatePolicy ::
  "('k \<Rightarrow> 'c \<Rightarrow> PolicyMutation \<Rightarrow> (policy_error, PolicyStatus) result \<times> 'c) \<Rightarrow> 'k \<Rightarrow> NetworkReport \<Rightarrow> 'c bed_networks \<Rightarrow> nat \<Rightarrow> PolicyMutation
     \<Rightarrow> (policy_error, BedPolicyStatus) result \<times> 'c bed_networks" where
  "UpdatePolicy update k report m b mu = update_allocation update k report m b (map_of (BN_allocations m) b) mu"

datatype network_error = AcquireFailed string | NoAttachment | PolicyFailed policy_error | StillMapped | CloseFailed string

text \<open>\<open>acquired\<close>: what acquiring the attachment returned, with its gateway; on a shared network there is none.\<close>

definition PrepareNetwork ::
  "('k \<Rightarrow> 'c \<Rightarrow> PolicyMutation \<Rightarrow> (policy_error, PolicyStatus) result \<times> 'c) \<Rightarrow> 'k \<Rightarrow> NetworkReport \<Rightarrow> (string, (nat \<times> string) option) result
     \<Rightarrow> Policy option \<Rightarrow> 'c bed_networks \<Rightarrow> nat \<Rightarrow> (network_error, unit) result \<times> 'c bed_networks" where
  "PrepareNetwork update k report acquired spec m b =
     (case (if NR_Effective report \<noteq> Private then Inr None else acquired) of
        Inl e \<Rightarrow> (Inl (AcquireFailed e), m)
      | Inr attachment \<Rightarrow>
          let al = length (BN_heap m);
              m1 = m\<lparr>BN_heap := BN_heap m @ [\<lparr> BA_attachment = map_option fst attachment, BA_released = False, BA_requested = None \<rparr>],
                     BN_allocations := al_put b al (BN_allocations m)\<rparr>;
              level = (if attachment = None then Shared else Private)
          in if NR_Effective report = Private \<and> attachment = None then (Inl NoAttachment, m1)
             else
               let m2 = set_status b (\<lambda>_. no_status\<lparr>NS_Level := level, NS_PolicyStatus := ''none'', NS_Reason := NR_Reason report, NS_Cause := NR_Cause report,
                          NS_Gateway := (case attachment of None \<Rightarrow> [] | Some (_, g) \<Rightarrow> g)\<rparr>) m1
               in case (case spec of
                          None \<Rightarrow> (None, m2)
                        | Some p \<Rightarrow>
                            (case UpdatePolicy update k report m2 b \<lparr> Replace = Some p, Merge = None, Remove = None \<rparr> of
                               (Inl e, m3) \<Rightarrow> (Some e, m3) | (Inr _, m3) \<Rightarrow> (None, m3))) of
                    (Some e, m3) \<Rightarrow> (Inl (PolicyFailed e), m3)
                  | (None, m3) \<Rightarrow> (Inr (), set_status b (\<lambda>s. s\<lparr>NS_Room := level_room level\<rparr>) m3))"

text \<open>\<open>mapped\<close>: the port registry still holds mappings of the Bed; \<open>closed\<close>: the error of closing the attachment.\<close>

definition ReleaseNetwork :: "bool \<Rightarrow> string option \<Rightarrow> 'c bed_networks \<Rightarrow> nat \<Rightarrow> (network_error, unit) result \<times> 'c bed_networks" where
  "ReleaseNetwork mapped close_err m b =
     (if mapped then (Inl StillMapped, m)
      else case map_of (BN_allocations m) b of
        None \<Rightarrow> (Inr (), m)
      | Some al \<Rightarrow>
          if BA_released (BN_heap m ! al) then (Inr (), m)
          else case (if BA_attachment (BN_heap m ! al) = None then None else close_err) of
            Some e \<Rightarrow> (Inl (CloseFailed e), m)
          | None \<Rightarrow>
              (Inr (), set_status b (\<lambda>_. no_status)
                 (m\<lparr>BN_heap := (BN_heap m)[al := (BN_heap m ! al)\<lparr>BA_released := True\<rparr>], BN_allocations := al_del b (BN_allocations m)\<rparr>)))"

section \<open>Sequences of operations\<close>

text \<open>
  A Bed is prepared once before it is released, with an attachment that no other Bed holds, since the pool gives an attachment to one key; updates
  use the Bed's allocation or one that was released before they got its lock.
\<close>

inductive network_step ::
  "('k \<Rightarrow> 'c \<Rightarrow> PolicyMutation \<Rightarrow> (policy_error, PolicyStatus) result \<times> 'c) \<Rightarrow> 'c bed_networks \<Rightarrow> 'c bed_networks \<Rightarrow> bool" for update where
  prepare: "map_of (BN_allocations m) b = None \<Longrightarrow>
    (\<And>at g c al. acquired = Inr (Some (at, g)) \<Longrightarrow> map_of (BN_allocations m) c = Some al \<Longrightarrow> BA_attachment (BN_heap m ! al) \<noteq> Some at) \<Longrightarrow>
    network_step update m (snd (PrepareNetwork update k report acquired spec m b))"
| update: "map_of (BN_allocations m) b = Some al \<or> al < length (BN_heap m) \<and> BA_released (BN_heap m ! al) \<Longrightarrow>
    network_step update m (snd (update_allocation update k report m b (Some al) mu))"
| release: "network_step update m (snd (ReleaseNetwork mapped close_err m b))"

definition no_networks :: "(nat \<Rightarrow> 'c) \<Rightarrow> 'c bed_networks" where
  "no_networks controls = \<lparr> BN_heap = [], BN_allocations = [], BN_status = (\<lambda>_. no_status), BN_controls = controls \<rparr>"

section \<open>The published status is true\<close>

definition status_true :: "('c \<Rightarrow> Policy) \<Rightarrow> (nat \<Rightarrow> 'c) \<Rightarrow> bedAllocation \<Rightarrow> NetworkStatus \<Rightarrow> bool" where
  "status_true enforced controls a st \<longleftrightarrow>
     \<not> BA_released a
     \<and> (NS_PolicyStatus st = ''enforced'' \<longrightarrow>
          (\<exists>at. BA_attachment a = Some at \<and> NS_Policy st = Some (enforced (controls at)) \<and> NS_RequestedPolicy st = NS_Policy st))
     \<and> (NS_PolicyStatus st \<noteq> ''enforced'' \<longrightarrow> NS_Policy st = None)
     \<and> (NS_PolicyStatus st = ''unenforced'' \<longrightarrow> BA_attachment a = None
          \<and> (\<exists>p q. BA_requested a = Some p \<and> NS_RequestedPolicy st = Some q \<and> (q = p \<or> NormalizePolicy p = Inr q)))
     \<and> (NS_Level st = Private \<or> NS_Room st = Suite \<longrightarrow> BA_attachment a \<noteq> None)"

definition networks_ok :: "('c \<Rightarrow> Policy) \<Rightarrow> 'c bed_networks \<Rightarrow> bool" where
  "networks_ok enforced m \<longleftrightarrow>
     (\<forall>b. map_of (BN_allocations m) b = None \<longrightarrow> BN_status m b = no_status)
     \<and> (\<forall>b al. map_of (BN_allocations m) b = Some al \<longrightarrow> al < length (BN_heap m) \<and> status_true enforced (BN_controls m) (BN_heap m ! al) (BN_status m b))
     \<and> (\<forall>b c al al'. map_of (BN_allocations m) b = Some al \<and> map_of (BN_allocations m) c = Some al'
          \<and> (al = al' \<or> BA_attachment (BN_heap m ! al) \<noteq> None \<and> BA_attachment (BN_heap m ! al) = BA_attachment (BN_heap m ! al')) \<longrightarrow> b = c)"

lemma networks_okD:
  assumes "networks_ok enforced m"
  shows "map_of (BN_allocations m) b = None \<Longrightarrow> BN_status m b = no_status"
    and "map_of (BN_allocations m) b = Some al \<Longrightarrow> al < length (BN_heap m)"
    and "map_of (BN_allocations m) b = Some al \<Longrightarrow> status_true enforced (BN_controls m) (BN_heap m ! al) (BN_status m b)"
    and "map_of (BN_allocations m) b = Some al \<Longrightarrow> map_of (BN_allocations m) c = Some al \<Longrightarrow> b = c"
    and "map_of (BN_allocations m) b = Some al \<Longrightarrow> map_of (BN_allocations m) c = Some al' \<Longrightarrow> BA_attachment (BN_heap m ! al) = Some at \<Longrightarrow>
      BA_attachment (BN_heap m ! al') = Some at \<Longrightarrow> b = c"
  using assms unfolding networks_ok_def by (blast | metis option.distinct(1))+

lemma networks_ok_empty: "networks_ok enforced (no_networks controls)"
  by (simp add: networks_ok_def no_networks_def)

text \<open>Replacing one allocation and the status of its Bed.\<close>

lemma networks_ok_change:
  assumes ok: "networks_ok enforced m" and al: "map_of (BN_allocations m) b = Some al"
    and "BA_attachment a = BA_attachment (BN_heap m ! al)" and "status_true enforced controls a st"
    and other: "\<And>at. BA_attachment (BN_heap m ! al) \<noteq> Some at \<Longrightarrow> enforced (controls at) = enforced (BN_controls m at)"
  shows "networks_ok enforced (m\<lparr>BN_heap := (BN_heap m)[al := a], BN_status := (BN_status m)(b := st), BN_controls := controls\<rparr>)"
proof -
  note d = networks_okD [OF ok]
  have same: "BA_attachment ((BN_heap m)[al := a] ! j) = BA_attachment (BN_heap m ! j)" for j
    using assms(3) d(2) [OF al] by (cases "j = al") simp_all
  have "status_true enforced controls ((BN_heap m)[al := a] ! j) (((BN_status m)(b := st)) c)" if c: "map_of (BN_allocations m) c = Some j" for c j
  proof (cases "c = b")
    case True
    then show ?thesis using al c assms(4) d(2) [OF al] by simp
  next
    case False
    then have "j \<noteq> al" using d(4) al c by blast
    moreover have "BA_attachment (BN_heap m ! j) = Some at \<Longrightarrow> BA_attachment (BN_heap m ! al) \<noteq> Some at" for at
      using d(5) [OF c al] False by blast
    ultimately show ?thesis using d(3) [OF c] False other by (auto simp: status_true_def)
  qed
  moreover have "j < length (BN_heap m)" if "map_of (BN_allocations m) c = Some j" for c j using d(2) that .
  ultimately show ?thesis using ok al unfolding networks_ok_def by (auto simp: same)
qed

lemma update_unenforced_ok:
  assumes ok: "networks_ok enforced m" and al: "map_of (BN_allocations m) b = Some al" and "BA_attachment (BN_heap m ! al) = None"
  shows "networks_ok enforced (snd (update_unenforced report m b al mu))"
proof (cases "ApplyMutation (case BA_requested (BN_heap m ! al) of None \<Rightarrow> \<lparr> DefaultAction = allow, Egress = [] \<rparr> | Some p \<Rightarrow> p) mu")
  case (Inl e)
  then show ?thesis using ok by (simp add: update_unenforced_def Let_def)
next
  case (Inr desired)
  let ?a = "BN_heap m ! al"
  let ?req = "if changes mu then Some desired else BA_requested ?a"
  let ?a' = "?a\<lparr>BA_requested := ?req\<rparr>"
  have st: "status_true enforced (BN_controls m) ?a (BN_status m b)" by (rule networks_okD(3) [OF ok al])
  show ?thesis
  proof (cases ?req)
    case None
    then have "?a' = ?a" by (auto split: if_splits)
    then have "snd (update_unenforced report m b al mu) = m" using Inr None by (auto simp: update_unenforced_def Let_def)
    then show ?thesis using ok by simp
  next
    case (Some p)
    let ?st = "(BN_status m b)\<lparr>NS_RequestedPolicy := Some desired, NS_Policy := None, NS_PolicyStatus := ''unenforced''\<rparr>"
    have "desired = p \<or> NormalizePolicy p = Inr desired"
      using Inr Some by (auto simp: changes_def ApplyMutation_def split: if_splits)
    then have "status_true enforced (BN_controls m) ?a' ?st" using st assms(3) Some by (auto simp: status_true_def)
    from networks_ok_change [OF ok al _ this] have
      "networks_ok enforced (m\<lparr>BN_heap := (BN_heap m)[al := ?a'], BN_status := (BN_status m)(b := ?st), BN_controls := BN_controls m\<rparr>)" by simp
    moreover have "snd (update_unenforced report m b al mu) = m\<lparr>BN_heap := (BN_heap m)[al := ?a'], BN_status := (BN_status m)(b := ?st), BN_controls := BN_controls m\<rparr>"
      unfolding update_unenforced_def Let_def Inr sum.case snd_conv Some option.distinct(2) if_False set_status_def by (cases m) simp
    ultimately show ?thesis by simp
  qed
qed

lemma UpdatePolicy_keeps:
  "BN_allocations (snd (UpdatePolicy update k report m b mu)) = BN_allocations m"
  "BA_attachment (BN_heap (snd (UpdatePolicy update k report m b mu)) ! al) = BA_attachment (BN_heap m ! al)"
proof -
  have "BA_attachment ((BN_heap m)[j := (BN_heap m ! j)\<lparr>BA_requested := r\<rparr>] ! al) = BA_attachment (BN_heap m ! al)" for j r
    by (cases "j < length (BN_heap m)") (auto simp: nth_list_update list_update_beyond not_less)
  then show "BN_allocations (snd (UpdatePolicy update k report m b mu)) = BN_allocations m"
    "BA_attachment (BN_heap (snd (UpdatePolicy update k report m b mu)) ! al) = BA_attachment (BN_heap m ! al)"
    by (auto simp: UpdatePolicy_def update_allocation_def update_unenforced_def update_enforced_def set_status_def Let_def
      split: option.splits sum.splits prod.splits)
qed

lemma networks_ok_status:
  assumes "networks_ok enforced m" and "map_of (BN_allocations m) b = Some al"
    and "status_true enforced (BN_controls m) (BN_heap m ! al) (f (BN_status m b))"
  shows "networks_ok enforced (set_status b f m)"
  using networks_ok_change [OF assms(1,2) refl assms(3)] by (cases m) (simp add: set_status_def)

lemma networks_ok_new:
  assumes ok: "networks_ok enforced m" and b: "map_of (BN_allocations m) b = None"
    and other: "\<And>c al. map_of (BN_allocations m) c = Some al \<Longrightarrow> BA_attachment a = None \<or> BA_attachment (BN_heap m ! al) \<noteq> BA_attachment a"
    and "\<not> BA_released a"
  shows "networks_ok enforced (m\<lparr>BN_heap := BN_heap m @ [a], BN_allocations := al_put b (length (BN_heap m)) (BN_allocations m)\<rparr>)"
proof -
  note d = networks_okD [OF ok]
  have new: "status_true enforced (BN_controls m) a (BN_status m b)"
    using d(1) [OF b] assms(4) by (simp add: status_true_def no_status_def Private_def Suite_def)
  have old: "al < length (BN_heap m) \<and> (BN_heap m @ [a]) ! al = BN_heap m ! al" if "map_of (BN_allocations m) c = Some al" for c al
    using d(2) [OF that] by (simp add: nth_append)
  let ?m = "m\<lparr>BN_heap := BN_heap m @ [a], BN_allocations := al_put b (length (BN_heap m)) (BN_allocations m)\<rparr>"
  have st: "al < length (BN_heap ?m) \<and> status_true enforced (BN_controls ?m) (BN_heap ?m ! al) (BN_status ?m c)"
    if "map_of (BN_allocations ?m) c = Some al" for c al
  proof (cases "c = b")
    case True
    then have "al = length (BN_heap m)" using that by simp
    then show ?thesis using True new by (simp add: nth_append)
  next
    case False
    then have c: "map_of (BN_allocations m) c = Some al" using that by simp
    then show ?thesis using d(3) [OF c] old [OF c] by simp
  qed
  have uniq: "c = c'" if "map_of (BN_allocations ?m) c = Some al" "map_of (BN_allocations ?m) c' = Some al'"
    "al = al' \<or> BA_attachment (BN_heap ?m ! al) \<noteq> None \<and> BA_attachment (BN_heap ?m ! al) = BA_attachment (BN_heap ?m ! al')" for c c' al al'
  proof (cases "c = b \<or> c' = b")
    case True
    have clash: "j \<noteq> length (BN_heap m) \<and> (BA_attachment a \<noteq> None \<longrightarrow> BA_attachment ((BN_heap m @ [a]) ! j) \<noteq> BA_attachment a)"
      if "map_of (BN_allocations m) x = Some j" for x j
      using old [OF that] other [OF that] by auto
    show ?thesis
    proof (rule ccontr)
      assume "c \<noteq> c'"
      with True consider "c = b" "c' \<noteq> b" | "c \<noteq> b" "c' = b" by blast
      then show False
      proof cases
        case 1
        then show False using that clash [of c' al'] by (auto simp: nth_append)
      next
        case 2
        then show False using that clash [of c al] by (auto simp: nth_append)
      qed
    qed
  next
    case False
    then have c: "map_of (BN_allocations m) c = Some al" "map_of (BN_allocations m) c' = Some al'" using that by simp_all
    have "al = al' \<or> (\<exists>at. BA_attachment (BN_heap m ! al) = Some at \<and> BA_attachment (BN_heap m ! al') = Some at)"
      using that(3) old [OF c(1)] old [OF c(2)] by auto
    then show ?thesis using c d(4) [of c al c'] d(5) [OF c] by blast
  qed
  have none: "BN_status ?m c = no_status" if "map_of (BN_allocations ?m) c = None" for c using that d(1) by (simp split: if_splits)
  show ?thesis unfolding networks_ok_def
  proof (intro conjI allI impI)
    fix c assume "map_of (BN_allocations ?m) c = None"
    then show "BN_status ?m c = no_status" by (rule none)
  next
    fix c al assume "map_of (BN_allocations ?m) c = Some al"
    from st [OF this] show "al < length (BN_heap ?m)" and "status_true enforced (BN_controls ?m) (BN_heap ?m ! al) (BN_status ?m c)" by (rule conjunct1, rule conjunct2)
  next
    fix c c' al al'
    assume "map_of (BN_allocations ?m) c = Some al \<and> map_of (BN_allocations ?m) c' = Some al'
      \<and> (al = al' \<or> BA_attachment (BN_heap ?m ! al) \<noteq> None \<and> BA_attachment (BN_heap ?m ! al) = BA_attachment (BN_heap ?m ! al'))"
    then show "c = c'" by (elim conjE) (rule uniq)
  qed
qed

locale policy_provider =
  fixes update :: "'k \<Rightarrow> 'c \<Rightarrow> PolicyMutation \<Rightarrow> (policy_error, PolicyStatus) result \<times> 'c"
    and enforced :: "'c \<Rightarrow> Policy"
  assumes update_failed: "update k c mu = (Inl e, c') \<Longrightarrow> enforced c' = enforced c"
    and update_done: "update k c mu = (Inr st, c') \<Longrightarrow> StatusPolicy st = enforced c'"
begin

lemma update_enforced_ok:
  assumes ok: "networks_ok enforced m" and al: "map_of (BN_allocations m) b = Some al" and at: "BA_attachment (BN_heap m ! al) = Some at"
  shows "networks_ok enforced (snd (update_enforced update k report m b at mu))"
proof (cases "NR_Effective report = Private")
  case True
  have st: "status_true enforced (BN_controls m) (BN_heap m ! al) (BN_status m b)" by (rule networks_okD(3) [OF ok al])
  obtain r c where u: "update k (BN_controls m at) mu = (r, c)" by force
  let ?controls = "(BN_controls m)(at := c)"
  have same: "(BN_heap m)[al := BN_heap m ! al] = BN_heap m" by simp
  show ?thesis
  proof (cases r)
    case (Inl e)
    have "status_true enforced ?controls (BN_heap m ! al) (BN_status m b)"
      using st at update_failed u Inl by (auto simp: status_true_def)
    from networks_ok_change [OF ok al refl this] show ?thesis
      using True u Inl at same by (simp add: update_enforced_def)
  next
    case (Inr s)
    let ?st = "(BN_status m b)\<lparr>NS_Policy := Some (StatusPolicy s), NS_RequestedPolicy := Some (StatusPolicy s), NS_PolicyStatus := ''enforced''\<rparr>"
    have "status_true enforced ?controls (BN_heap m ! al) ?st"
      using st at update_done u Inr by (auto simp: status_true_def)
    from networks_ok_change [OF ok al refl this] show ?thesis
      using True u Inr at same by (cases m) (simp add: update_enforced_def set_status_def)
  qed
next
  case False
  then show ?thesis using ok by (simp add: update_enforced_def)
qed

lemma update_allocation_ok:
  assumes ok: "networks_ok enforced m" and "map_of (BN_allocations m) b = Some al \<or> BA_released (BN_heap m ! al)"
  shows "networks_ok enforced (snd (update_allocation update k report m b (Some al) mu))"
  using assms update_enforced_ok update_unenforced_ok by (auto simp: update_allocation_def split: option.splits)

lemma UpdatePolicy_ok:
  "networks_ok enforced m \<Longrightarrow> networks_ok enforced (snd (UpdatePolicy update k report m b mu))"
  using update_allocation_ok by (cases "map_of (BN_allocations m) b") (auto simp: UpdatePolicy_def update_allocation_def)

lemma PrepareNetwork_ok:
  assumes ok: "networks_ok enforced m" and b: "map_of (BN_allocations m) b = None"
    and other: "\<And>at g c al. acquired = Inr (Some (at, g)) \<Longrightarrow> map_of (BN_allocations m) c = Some al \<Longrightarrow> BA_attachment (BN_heap m ! al) \<noteq> Some at"
  shows "networks_ok enforced (snd (PrepareNetwork update k report acquired spec m b))"
proof (cases "if NR_Effective report \<noteq> Private then Inr None else acquired")
  case (Inl e)
  then show ?thesis using ok by (simp add: PrepareNetwork_def)
next
  case (Inr attachment)
  let ?a = "\<lparr> BA_attachment = map_option fst attachment, BA_released = False, BA_requested = None \<rparr>"
  let ?al = "length (BN_heap m)"
  let ?m1 = "m\<lparr>BN_heap := BN_heap m @ [?a], BN_allocations := al_put b ?al (BN_allocations m)\<rparr>"
  let ?level = "if attachment = None then Shared else Private"
  let ?st = "no_status\<lparr>NS_Level := ?level, NS_PolicyStatus := ''none'', NS_Reason := NR_Reason report, NS_Cause := NR_Cause report,
      NS_Gateway := (case attachment of None \<Rightarrow> [] | Some (_, g) \<Rightarrow> g)\<rparr>"
  let ?m2 = "set_status b (\<lambda>_. ?st) ?m1"
  have att: "attachment = None \<or> acquired = Inr attachment" using Inr by (auto split: if_splits)
  have m1: "networks_ok enforced ?m1"
  proof (rule networks_ok_new [OF ok b])
    fix c al
    assume "map_of (BN_allocations m) c = Some al"
    then show "BA_attachment ?a = None \<or> BA_attachment (BN_heap m ! al) \<noteq> BA_attachment ?a"
      using att other by (cases attachment) fastforce+
  qed simp
  have m2: "networks_ok enforced ?m2"
    by (rule networks_ok_status [OF m1, of b ?al]) (auto simp: nth_append status_true_def no_status_def Suite_def Shared_def Private_def)
  define r where "r = (case spec of None \<Rightarrow> (None, ?m2)
    | Some p \<Rightarrow> (case UpdatePolicy update k report ?m2 b \<lparr> Replace = Some p, Merge = None, Remove = None \<rparr> of (Inl e, m3) \<Rightarrow> (Some e, m3) | (Inr _, m3) \<Rightarrow> (None, m3)))"
  have r: "networks_ok enforced (snd r) \<and> BN_allocations (snd r) = BN_allocations ?m2 \<and> BA_attachment (BN_heap (snd r) ! ?al) = BA_attachment (BN_heap ?m2 ! ?al)"
  proof (cases spec)
    case None
    then show ?thesis using m2 by (simp add: r_def)
  next
    case (Some p)
    let ?u = "UpdatePolicy update k report ?m2 b \<lparr> Replace = Some p, Merge = None, Remove = None \<rparr>"
    have "snd r = snd ?u" unfolding r_def Some by (auto split: prod.splits sum.splits)
    then show ?thesis using UpdatePolicy_ok [OF m2] UpdatePolicy_keeps [of update k report ?m2 b] by metis
  qed
  then have al: "map_of (BN_allocations (snd r)) b = Some ?al" "BA_attachment (BN_heap (snd r) ! ?al) = map_option fst attachment"
    by (simp_all add: set_status_def)
  have room: "networks_ok enforced (set_status b (\<lambda>s. s\<lparr>NS_Room := level_room ?level\<rparr>) (snd r))"
  proof (rule networks_ok_status [OF _ al(1)])
    show "networks_ok enforced (snd r)" using r by simp
    then show "status_true enforced (BN_controls (snd r)) (BN_heap (snd r) ! ?al) ((BN_status (snd r) b)\<lparr>NS_Room := level_room ?level\<rparr>)"
      using networks_okD(3) [OF _ al(1)] al(2) by (auto simp: status_true_def level_room_def Suite_def Dorm_def Shared_def Private_def)
  qed
  obtain e m3 where em: "r = (e, m3)" by force
  have "snd (PrepareNetwork update k report acquired spec m b)
      = (if NR_Effective report = Private \<and> attachment = None then ?m1
         else case e of Some _ \<Rightarrow> m3 | None \<Rightarrow> set_status b (\<lambda>s. s\<lparr>NS_Room := level_room ?level\<rparr>) m3)"
    unfolding PrepareNetwork_def Inr sum.case Let_def using em [unfolded r_def] by (auto split: option.splits)
  then show ?thesis using m1 r room em by (auto split: option.splits)
qed

lemma ReleaseNetwork_ok:
  assumes ok: "networks_ok enforced m"
  shows "networks_ok enforced (snd (ReleaseNetwork mapped close_err m b))"
proof (cases "\<not> mapped \<and> map_of (BN_allocations m) b \<noteq> None")
  case True
  then obtain al where al: "map_of (BN_allocations m) b = Some al" by auto
  note d = networks_okD [OF ok]
  let ?m = "set_status b (\<lambda>_. no_status) (m\<lparr>BN_heap := (BN_heap m)[al := (BN_heap m ! al)\<lparr>BA_released := True\<rparr>], BN_allocations := al_del b (BN_allocations m)\<rparr>)"
  have old: "c \<noteq> b \<and> map_of (BN_allocations m) c = Some al' \<and> BN_heap ?m ! al' = BN_heap m ! al'" if "map_of (BN_allocations ?m) c = Some al'" for c al'
  proof -
    have c: "c \<noteq> b" "map_of (BN_allocations m) c = Some al'" using that by (auto simp: set_status_def split: if_splits)
    then have "al' \<noteq> al" using d(4) [OF al] by blast
    then show ?thesis using c by (simp add: set_status_def)
  qed
  have "networks_ok enforced ?m" unfolding networks_ok_def
  proof (intro conjI allI impI)
    fix c assume "map_of (BN_allocations ?m) c = None"
    then show "BN_status ?m c = no_status" using d(1) by (auto simp: set_status_def split: if_splits)
  next
    fix c al' assume c: "map_of (BN_allocations ?m) c = Some al'"
    have "al' < length (BN_heap m)" using d(2) old [OF c] by blast
    then show "al' < length (BN_heap ?m)" by (simp add: set_status_def)
    have "BN_status ?m c = BN_status m c" "BN_controls ?m = BN_controls m" using old [OF c] by (simp_all add: set_status_def)
    then show "status_true enforced (BN_controls ?m) (BN_heap ?m ! al') (BN_status ?m c)" using d(3) old [OF c] by simp
  next
    fix c c' al1 al2
    assume h: "map_of (BN_allocations ?m) c = Some al1 \<and> map_of (BN_allocations ?m) c' = Some al2
      \<and> (al1 = al2 \<or> BA_attachment (BN_heap ?m ! al1) \<noteq> None \<and> BA_attachment (BN_heap ?m ! al1) = BA_attachment (BN_heap ?m ! al2))"
    then show "c = c'" using old [of c al1] old [of c' al2] d(4) d(5) by (metis option.exhaust)
  qed
  then show ?thesis using ok True al by (auto simp: ReleaseNetwork_def split: option.splits)
next
  case False
  then show ?thesis using ok by (auto simp: ReleaseNetwork_def)
qed

lemma networks_ok_step: "network_step update m m' \<Longrightarrow> networks_ok enforced m \<Longrightarrow> networks_ok enforced m'"
proof (induction rule: network_step.induct)
  case (prepare m b acquired k report spec)
  show ?case by (rule PrepareNetwork_ok [OF prepare.prems prepare.hyps(1)]) (rule prepare.hyps(2))
next
  case (update m b al k report mu)
  then show ?case using update_allocation_ok by blast
next
  case release
  then show ?case by (rule ReleaseNetwork_ok)
qed

lemma networks_reachable_ok: "(network_step update)\<^sup>*\<^sup>* (no_networks controls) m \<Longrightarrow> networks_ok enforced m"
  by (induction rule: rtranclp_induct) (auto intro: networks_ok_empty networks_ok_step)

end

interpretation host_policy: policy_provider policy_update current
  by unfold_locales (auto simp: policy_update_def policy_status_def split: if_splits sum.splits option.splits)

text \<open>C18: the network status of a Bed is true. After any sequence of preparations, policy updates and releases, whatever the kernel and
  the pool answer: a policy published as enforced is the policy that the control of the Bed's own attachment has in force, and
  no other Bed holds that attachment; a policy that nothing enforces is never published as the effective one; the private room is
  reported only with an attachment; and a Bed without an allocation reports nothing.\<close>

theorem network_status_true:
  assumes "(network_step policy_update)\<^sup>*\<^sup>* (no_networks controls) m"
  shows "(NS_PolicyStatus (BN_status m b) = ''enforced'' \<longrightarrow>
      (\<exists>al at. map_of (BN_allocations m) b = Some al \<and> \<not> BA_released (BN_heap m ! al) \<and> BA_attachment (BN_heap m ! al) = Some at
        \<and> NS_Policy (BN_status m b) = Some (current (BN_controls m at))
        \<and> (\<forall>c al'. map_of (BN_allocations m) c = Some al' \<and> BA_attachment (BN_heap m ! al') = Some at \<longrightarrow> c = b)))
    \<and> (NS_Policy (BN_status m b) \<noteq> None \<longrightarrow> NS_PolicyStatus (BN_status m b) = ''enforced'')
    \<and> (NS_PolicyStatus (BN_status m b) = ''unenforced'' \<longrightarrow>
        (\<exists>al. map_of (BN_allocations m) b = Some al \<and> BA_attachment (BN_heap m ! al) = None \<and> BA_requested (BN_heap m ! al) \<noteq> None))
    \<and> (NS_Room (BN_status m b) = Suite \<longrightarrow>
        (\<exists>al. map_of (BN_allocations m) b = Some al \<and> BA_attachment (BN_heap m ! al) \<noteq> None))
    \<and> (map_of (BN_allocations m) b = None \<longrightarrow> BN_status m b = no_status)"
proof -
  have ok: "networks_ok current m" by (rule host_policy.networks_reachable_ok [OF assms])
  note d = networks_okD [OF ok]
  show ?thesis
  proof (cases "map_of (BN_allocations m) b")
    case None
    then show ?thesis using d(1) [OF None] by (simp add: no_status_def Suite_def)
  next
    case (Some al)
    have st: "status_true current (BN_controls m) (BN_heap m ! al) (BN_status m b)" by (rule d(3) [OF Some])
    have own: "c = b" if "BA_attachment (BN_heap m ! al) = Some at" "map_of (BN_allocations m) c = Some al' \<and> BA_attachment (BN_heap m ! al') = Some at" for c al' at
      using d(5) [OF _ Some _ that(1), of c al'] that(2) by blast
    show ?thesis using st Some own unfolding status_true_def by fastforce
  qed
qed

definition sample_report :: NetworkReport where
  "sample_report = describe ''auto''
     \<lparr> NR_Effective = Private, NR_Supported = [], NR_Netns = \<lparr> TS_Policy = [], TS_Probe = [], TS_Selected = False, TS_Reason = [] \<rparr>, NR_Room = [],
       NR_Backend = ''netns'', NR_Scope = ''bed_processes'', NR_Reason = [], NR_Cause = [], NR_Err = None, NR_Stage = ''ready'' \<rparr>"

definition sample_networks :: "policyControl bed_networks" where
  "sample_networks = snd (PrepareNetwork policy_update (\<lambda>_. None) sample_report (Inr (Some (5, ''198.18.0.1'')))
     (Some \<lparr> DefaultAction = ''deny'', Egress = [\<lparr> Action = ''allow'', Target = ''Example.COM.'' \<rparr>] \<rparr>)
     (no_networks (\<lambda>_. \<lparr> current = \<lparr> DefaultAction = ''allow'', Egress = [] \<rparr>, revision = 0, closed = False, learned = [] \<rparr>)) 1)"

theorem network_status_true_witness:
  "NS_Policy (BN_status sample_networks 1) = Some (current (BN_controls sample_networks 5))
   \<and> current (BN_controls sample_networks 5) = \<lparr> DefaultAction = ''deny'', Egress = [\<lparr> Action = ''allow'', Target = ''example.com'' \<rparr>] \<rparr>"
proof -
  have "network_step policy_update (no_networks (\<lambda>_. \<lparr> current = \<lparr> DefaultAction = ''allow'', Egress = [] \<rparr>, revision = 0, closed = False, learned = [] \<rparr>)) sample_networks"
    unfolding sample_networks_def by (rule network_step.prepare) (simp_all add: no_networks_def)
  then have r: "(network_step policy_update)\<^sup>*\<^sup>* (no_networks (\<lambda>_. \<lparr> current = \<lparr> DefaultAction = ''allow'', Egress = [] \<rparr>, revision = 0, closed = False, learned = [] \<rparr>)) sample_networks"
    by (rule r_into_rtranclp)
  have e: "NS_PolicyStatus (BN_status sample_networks 1) = ''enforced''" "map_of (BN_allocations sample_networks) 1 = Some 0"
    "BA_attachment (BN_heap sample_networks ! 0) = Some 5" by code_simp+
  obtain al at where "map_of (BN_allocations sample_networks) 1 = Some al" "BA_attachment (BN_heap sample_networks ! al) = Some at"
    "NS_Policy (BN_status sample_networks 1) = Some (current (BN_controls sample_networks at))"
    using network_status_true [OF r, of 1] e(1) by blast
  moreover have "current (BN_controls sample_networks 5) = \<lparr> DefaultAction = ''deny'', Egress = [\<lparr> Action = ''allow'', Target = ''example.com'' \<rparr>] \<rparr>" by code_simp
  ultimately show ?thesis using e by simp
qed

end
