(* ===== verification/Net_Pool.thy ===== *)
theory Net_Pool
  imports Hostel_Prelude
begin

text \<open>
  The pool of network allocations (\<open>src/internal/host/network/pool.go\<close>).

  Attachments and acquisitions are shared by address: both heaps are lists, a pointer is an index. Each
  critical section of \<open>Acquire\<close>, of \<open>attachment.Close\<close> and of \<open>Pool.Close\<close> is a definition. The relation
  \<open>pool_step\<close> interleaves them between any number of goroutines, together with the calls of the
  backend between them (creating an endpoint, closing it), which succeed or fail; it keeps the endpoints that exist.
  An endpoint is a number, the backend never hands out one twice, and a failed close leaves it in place to be
  closed again. Timeouts and cancellation are failures of these calls.
\<close>

section \<open>State\<close>

record acquisition =
  AC_done :: bool
  AC_lease :: "nat option"
  AC_err :: "string option"

record attachment =
  AT_key :: string
  AT_endpoint :: nat
  AT_active :: bool

record Pool =
  PO_attachments :: "attachment list"
  PO_acquisitions :: "acquisition list"
  PO_allocations :: "(string \<times> nat) list"
  PO_pending :: "(string \<times> nat) list"
  PO_closed :: bool

definition NewPool :: Pool where
  "NewPool = \<lparr> PO_attachments = [], PO_acquisitions = [], PO_allocations = [], PO_pending = [], PO_closed = False \<rparr>"

section \<open>Acquire\<close>

datatype acquire_result = AcquireClosed | AcquireExisting nat | AcquireWait nat | AcquireCreate nat

text \<open>The section that decides; the caller of \<open>AcquireExisting\<close> uses the attachment when it is usable and otherwise closes
  it and starts again.\<close>

definition acquire_begin :: "Pool \<Rightarrow> string \<Rightarrow> acquire_result \<times> Pool" where
  "acquire_begin m key =
     (if PO_closed m then (AcquireClosed, m)
      else case map_of (PO_allocations m) key of
        Some old \<Rightarrow> (AcquireExisting old, m)
      | None \<Rightarrow>
          (case map_of (PO_pending m) key of
             Some p \<Rightarrow> (AcquireWait p, m)
           | None \<Rightarrow>
               let p = length (PO_acquisitions m)
               in (AcquireCreate p, m\<lparr>PO_acquisitions := PO_acquisitions m @ [\<lparr> AC_done = False, AC_lease = None, AC_err = None \<rparr>],
                                      PO_pending := al_put key p (PO_pending m)\<rparr>)))"

definition current :: "Pool \<Rightarrow> nat \<Rightarrow> bool" where
  "current m a = (\<not> PO_closed m \<and> map_of (PO_allocations m) (AT_key (PO_attachments m ! a)) = Some a)"

definition usable :: "Pool \<Rightarrow> nat \<Rightarrow> bool" where
  "usable m a = (AT_active (PO_attachments m ! a) \<and> current m a)"

text \<open>After the backend returned. The flag is whether the pool was closed meanwhile.\<close>

definition acquire_publish :: "Pool \<Rightarrow> string \<Rightarrow> nat \<Rightarrow> (string, nat) result \<Rightarrow> bool \<times> Pool" where
  "acquire_publish m key p created =
     (PO_closed m,
      case created of
        Inl e \<Rightarrow> m\<lparr>PO_acquisitions := (PO_acquisitions m)[p := (PO_acquisitions m ! p)\<lparr>AC_err := Some (''network: create allocation '' @ key @ '': '' @ e)\<rparr>]\<rparr>
      | Inr ep \<Rightarrow>
          if PO_closed m
          then m\<lparr>PO_acquisitions := (PO_acquisitions m)[p := (PO_acquisitions m ! p)\<lparr>AC_err := Some ''network: manager closed''\<rparr>]\<rparr>
          else let a = length (PO_attachments m)
               in m\<lparr>PO_attachments := PO_attachments m @ [\<lparr> AT_key = key, AT_endpoint = ep, AT_active = True \<rparr>],
                    PO_acquisitions := (PO_acquisitions m)[p := (PO_acquisitions m ! p)\<lparr>AC_lease := Some a\<rparr>],
                    PO_allocations := al_put key a (PO_allocations m)\<rparr>)"

text \<open>The endpoint created for a closed pool was closed with the error \<open>err\<close>.\<close>

definition acquire_discard :: "Pool \<Rightarrow> nat \<Rightarrow> string option \<Rightarrow> Pool" where
  "acquire_discard m p err =
     m\<lparr>PO_acquisitions := (PO_acquisitions m)[p := (PO_acquisitions m ! p)\<lparr>AC_err :=
        (case (AC_err (PO_acquisitions m ! p), err) of
           (None, e) \<Rightarrow> e | (Some s, None) \<Rightarrow> Some s | (Some s, Some e) \<Rightarrow> Some (s @ [CHR 0x0A] @ e))\<rparr>]\<rparr>"

definition acquire_finish :: "Pool \<Rightarrow> string \<Rightarrow> nat \<Rightarrow> Pool" where
  "acquire_finish m key p =
     m\<lparr>PO_pending := (if map_of (PO_pending m) key = Some p then al_del key (PO_pending m) else PO_pending m),
       PO_acquisitions := (PO_acquisitions m)[p := (PO_acquisitions m ! p)\<lparr>AC_done := True\<rparr>]\<rparr>"

text \<open>What the creator and everyone who waited for it return.\<close>

definition acquire_outcome :: "Pool \<Rightarrow> nat \<Rightarrow> (string, nat option) result" where
  "acquire_outcome m p =
     (case AC_err (PO_acquisitions m ! p) of Some e \<Rightarrow> Inl e | None \<Rightarrow> Inr (AC_lease (PO_acquisitions m ! p)))"

section \<open>Attachments\<close>

definition Enter :: "Pool \<Rightarrow> nat \<Rightarrow> (string, nat) result" where
  "Enter m a =
     (if \<not> usable m a then Inl (''network: allocation '' @ AT_key (PO_attachments m ! a) @ '' allocation is not active'')
      else Inr (AT_endpoint (PO_attachments m ! a)))"

text \<open>\<open>Gateway\<close>, \<open>ResolverPath\<close> and \<open>Address\<close> read the endpoint of a usable attachment and are empty otherwise.\<close>

definition read_endpoint :: "(nat \<Rightarrow> string) \<Rightarrow> Pool \<Rightarrow> nat \<Rightarrow> string" where
  "read_endpoint field m a = (if usable m a then field (AT_endpoint (PO_attachments m ! a)) else [])"

text \<open>\<open>Close\<close> up to the call of the endpoint, which follows when the attachment is still registered, and after a call that
  succeeded. The attachment stays locked in between.\<close>

definition close_begin :: "Pool \<Rightarrow> nat \<Rightarrow> bool \<times> Pool" where
  "close_begin m a =
     (map_of (PO_allocations m) (AT_key (PO_attachments m ! a)) = Some a,
      m\<lparr>PO_attachments := (PO_attachments m)[a := (PO_attachments m ! a)\<lparr>AT_active := False\<rparr>]\<rparr>)"

definition close_commit :: "Pool \<Rightarrow> nat \<Rightarrow> Pool" where
  "close_commit m a =
     (let key = AT_key (PO_attachments m ! a)
      in if map_of (PO_allocations m) key = Some a then m\<lparr>PO_allocations := al_del key (PO_allocations m)\<rparr> else m)"

definition attachment_Close :: "Pool \<Rightarrow> nat \<Rightarrow> string option \<Rightarrow> string option \<times> Pool" where
  "attachment_Close m a err =
     (case close_begin m a of (registered, m1) \<Rightarrow>
        if \<not> registered then (None, m1)
        else case err of
          Some e \<Rightarrow> (Some (''network: release allocation '' @ AT_key (PO_attachments m ! a) @ '': '' @ e), m1)
        | None \<Rightarrow> (None, close_commit m1 a))"

definition pool_shut :: "Pool \<Rightarrow> nat list \<times> Pool" where
  "pool_shut m = (map snd (PO_pending m), m\<lparr>PO_closed := True\<rparr>)"

section \<open>All interleavings\<close>

datatype stage = Creating | Created nat | Discarding nat | Finishing

record pool_machine =
  PM_pool :: Pool
  PM_work :: "(nat \<times> string \<times> stage) list"   \<comment> \<open>acquisitions under way, by address\<close>
  PM_closing :: "nat set"                       \<comment> \<open>attachments inside \<open>Close\<close>, waiting for their endpoint\<close>
  PM_live :: "nat list"                         \<comment> \<open>endpoints that exist\<close>
  PM_orphans :: "nat list"                      \<comment> \<open>endpoints left to the backend: their discard failed, or the cleanup of their failed creation\<close>
  PM_next :: nat

definition pool_start :: pool_machine where
  "pool_start = \<lparr> PM_pool = NewPool, PM_work = [], PM_closing = {}, PM_live = [], PM_orphans = [], PM_next = 0 \<rparr>"

text \<open>
  A backend whose creation fails removes what it made (\<open>linuxBackend.Create\<close> calls \<open>ep.Close\<close>); when that removal fails too, the endpoint still exists and stays in the
  backend's own table, although \<open>Acquire\<close> only sees an error: \<open>create_leaks\<close>.
\<close>

inductive pool_step :: "pool_machine \<Rightarrow> pool_machine \<Rightarrow> bool" where
  starts: "acquire_begin (PM_pool s) key = (AcquireCreate p, m) \<Longrightarrow>
    pool_step s (s\<lparr>PM_pool := m, PM_work := al_put p (key, Creating) (PM_work s)\<rparr>)"
| create: "map_of (PM_work s) p = Some (key, Creating) \<Longrightarrow>
    pool_step s (s\<lparr>PM_work := al_put p (key, Created (PM_next s)) (PM_work s), PM_live := PM_live s @ [PM_next s], PM_next := Suc (PM_next s)\<rparr>)"
| create_fails: "map_of (PM_work s) p = Some (key, Creating) \<Longrightarrow>
    pool_step s (s\<lparr>PM_pool := snd (acquire_publish (PM_pool s) key p (Inl e)), PM_work := al_put p (key, Finishing) (PM_work s)\<rparr>)"
| create_leaks: "map_of (PM_work s) p = Some (key, Creating) \<Longrightarrow>
    pool_step s (s\<lparr>PM_next := Suc (PM_next s), PM_pool := snd (acquire_publish (PM_pool s) key p (Inl e)), PM_work := al_put p (key, Finishing) (PM_work s),
      PM_live := PM_live s @ [PM_next s], PM_orphans := PM_next s # PM_orphans s\<rparr>)"
| publish: "map_of (PM_work s) p = Some (key, Created ep) \<Longrightarrow> acquire_publish (PM_pool s) key p (Inr ep) = (shut, m) \<Longrightarrow>
    pool_step s (s\<lparr>PM_pool := m, PM_work := al_put p (key, if shut then Discarding ep else Finishing) (PM_work s)\<rparr>)"
| discard: "map_of (PM_work s) p = Some (key, Discarding ep) \<Longrightarrow>
    pool_step s (s\<lparr>PM_pool := acquire_discard (PM_pool s) p None, PM_work := al_put p (key, Finishing) (PM_work s), PM_live := remove1 ep (PM_live s)\<rparr>)"
| discard_fails: "map_of (PM_work s) p = Some (key, Discarding ep) \<Longrightarrow>
    pool_step s (s\<lparr>PM_pool := acquire_discard (PM_pool s) p (Some e), PM_work := al_put p (key, Finishing) (PM_work s), PM_orphans := ep # PM_orphans s\<rparr>)"
| finish: "map_of (PM_work s) p = Some (key, Finishing) \<Longrightarrow>
    pool_step s (s\<lparr>PM_pool := acquire_finish (PM_pool s) key p, PM_work := al_del p (PM_work s)\<rparr>)"
| close: "a < length (PO_attachments (PM_pool s)) \<Longrightarrow> a \<notin> PM_closing s \<Longrightarrow> close_begin (PM_pool s) a = (registered, m) \<Longrightarrow>
    pool_step s (s\<lparr>PM_pool := m, PM_closing := (if registered then insert a (PM_closing s) else PM_closing s)\<rparr>)"
| close_ends: "a \<in> PM_closing s \<Longrightarrow>
    pool_step s (s\<lparr>PM_pool := close_commit (PM_pool s) a, PM_closing := PM_closing s - {a},
      PM_live := remove1 (AT_endpoint (PO_attachments (PM_pool s) ! a)) (PM_live s)\<rparr>)"
| close_fails: "a \<in> PM_closing s \<Longrightarrow> pool_step s (s\<lparr>PM_closing := PM_closing s - {a}\<rparr>)"
| shut: "pool_step s (s\<lparr>PM_pool := snd (pool_shut (PM_pool s))\<rparr>)"

fun unpublished :: "stage \<Rightarrow> bool" where
  "unpublished Creating = True"
| "unpublished (Created _) = True"
| "unpublished _ = False"

section \<open>The invariant: who owns which endpoint\<close>

fun stage_endpoint :: "stage \<Rightarrow> nat list" where
  "stage_endpoint (Created ep) = [ep]"
| "stage_endpoint (Discarding ep) = [ep]"
| "stage_endpoint _ = []"

definition pool_endpoints :: "Pool \<Rightarrow> nat list" where
  "pool_endpoints m = map (\<lambda>e. AT_endpoint (PO_attachments m ! snd e)) (PO_allocations m)"

definition work_endpoints :: "(nat \<times> string \<times> stage) list \<Rightarrow> nat list" where
  "work_endpoints ws = concat (map (\<lambda>w. stage_endpoint (snd (snd w))) ws)"

definition owned :: "pool_machine \<Rightarrow> nat list" where
  "owned s = pool_endpoints (PM_pool s) @ work_endpoints (PM_work s)"

definition owners_ok :: "pool_machine \<Rightarrow> bool" where
  "owners_ok s \<longleftrightarrow> mset (PM_live s) = mset (owned s) + mset (PM_orphans s) \<and> distinct (PM_live s)
     \<and> (\<forall>ep \<in> set (PM_live s). ep < PM_next s)"

definition allocations_ok :: "pool_machine \<Rightarrow> bool" where
  "allocations_ok s \<longleftrightarrow>
     distinct (keys (PO_allocations (PM_pool s)))
     \<and> (\<forall>e \<in> set (PO_allocations (PM_pool s)). snd e < length (PO_attachments (PM_pool s)) \<and> AT_key (PO_attachments (PM_pool s) ! snd e) = fst e)
     \<and> (\<forall>a \<in> PM_closing s. a < length (PO_attachments (PM_pool s)) \<and> \<not> AT_active (PO_attachments (PM_pool s) ! a)
          \<and> map_of (PO_allocations (PM_pool s)) (AT_key (PO_attachments (PM_pool s) ! a)) = Some a)"

definition work_ok :: "pool_machine \<Rightarrow> bool" where
  "work_ok s \<longleftrightarrow>
     PO_pending (PM_pool s) = map (\<lambda>w. (fst (snd w), fst w)) (PM_work s)
     \<and> distinct (keys (PM_work s)) \<and> distinct (map (\<lambda>w. fst (snd w)) (PM_work s))
     \<and> (\<forall>p < length (PO_acquisitions (PM_pool s)). AC_done (PO_acquisitions (PM_pool s) ! p) \<longleftrightarrow> p \<notin> fst ` set (PM_work s))
     \<and> (\<forall>w \<in> set (PM_work s). fst w < length (PO_acquisitions (PM_pool s))
          \<and> (unpublished (snd (snd w)) \<longrightarrow> map_of (PO_allocations (PM_pool s)) (fst (snd w)) = None))"

lemma al_put_new: "map_of m k = None \<Longrightarrow> al_put k v m = m @ [(k, v)]"
  by (induction m) (auto split: if_splits)

lemma al_split:
  assumes "distinct (keys m)" and "map_of m k = Some x"
  obtains xs ys where "m = xs @ (k, x) # ys" and "\<And>y. al_put k y m = xs @ (k, y) # ys" and "al_del k m = xs @ ys"
    and "k \<notin> fst ` set xs" and "k \<notin> fst ` set ys"
proof -
  have "(k, x) \<in> set m" using assms(2) by (rule map_of_SomeD)
  then obtain xs ys where m: "m = xs @ (k, x) # ys" by (meson split_list)
  have n: "k \<notin> fst ` set xs" "k \<notin> fst ` set ys" using assms(1) m by auto
  have "al_put k y (zs @ (k, x) # ys) = zs @ (k, y) # ys" if "k \<notin> fst ` set zs" for y zs using that by (induction zs) auto
  moreover have "filter (\<lambda>p. fst p \<noteq> k) zs = zs" if "k \<notin> fst ` set zs" for zs :: "('a \<times> 'b) list" using that by (induction zs) auto
  then have "al_del k m = xs @ ys" using n unfolding m al_del_def by simp
  ultimately show thesis using that m n by blast
qed

lemmas pool_ok_defs = owners_ok_def allocations_ok_def work_ok_def

lemma pool_ok_start: "owners_ok pool_start" "allocations_ok pool_start" "work_ok pool_start"
  by (simp_all add: pool_ok_defs pool_start_def NewPool_def owned_def pool_endpoints_def work_endpoints_def)

lemma acquire_begin_create:
  assumes "acquire_begin m key = (AcquireCreate p, m')"
  shows "p = length (PO_acquisitions m)" and "map_of (PO_allocations m) key = None" and "map_of (PO_pending m) key = None" and "\<not> PO_closed m"
    and "m' = m\<lparr>PO_acquisitions := PO_acquisitions m @ [\<lparr> AC_done = False, AC_lease = None, AC_err = None \<rparr>],
                 PO_pending := PO_pending m @ [(key, length (PO_acquisitions m))]\<rparr>"
  using assms by (auto simp: acquire_begin_def Let_def al_put_new split: if_splits option.splits)

text \<open>What a step may change of an acquisition under way: its stage.\<close>

lemma work_ok_stage:
  assumes "work_ok s" and "map_of (PM_work s) p = Some (key, st)" and "unpublished st' \<longrightarrow> unpublished st"
    and "PO_pending m = PO_pending (PM_pool s)" and "length (PO_acquisitions m) = length (PO_acquisitions (PM_pool s))"
    and "\<forall>q < length (PO_acquisitions m). AC_done (PO_acquisitions m ! q) = AC_done (PO_acquisitions (PM_pool s) ! q)"
    and "\<forall>k. k \<noteq> key \<and> map_of (PO_allocations (PM_pool s)) k = None \<longrightarrow> map_of (PO_allocations m) k = None"
    and "unpublished st' \<longrightarrow> PO_allocations m = PO_allocations (PM_pool s)"
    and "PM_pool s' = m" and "PM_work s' = al_put p (key, st') (PM_work s)"
  shows "work_ok s'"
proof -
  obtain xs ys where w: "PM_work s = xs @ (p, key, st) # ys" "\<And>y. al_put p y (PM_work s) = xs @ (p, y) # ys"
    by (rule al_split [OF _ assms(2)]) (use assms(1) in \<open>auto simp: work_ok_def\<close>)
  note old = assms(1) [unfolded work_ok_def]
  have same: "map (\<lambda>w. (fst (snd w), fst w)) (PM_work s') = map (\<lambda>w. (fst (snd w), fst w)) (PM_work s)"
      "keys (PM_work s') = keys (PM_work s)" "map (\<lambda>w. fst (snd w)) (PM_work s') = map (\<lambda>w. fst (snd w)) (PM_work s)"
      "fst ` set (PM_work s') = fst ` set (PM_work s)"
    unfolding assms(10) w(2) unfolding w(1) by simp_all
  have "fst v < length (PO_acquisitions m) \<and> (unpublished (snd (snd v)) \<longrightarrow> map_of (PO_allocations m) (fst (snd v)) = None)"
    if v: "v \<in> set (PM_work s')" for v
  proof (cases "v = (p, key, st')")
    case True
    have "(p, key, st) \<in> set (PM_work s)" using w(1) by simp
    then show ?thesis using True old assms(3,5,8) by fastforce
  next
    case False
    then have v': "v \<in> set xs \<union> set ys" using v unfolding assms(10) w(2) by auto
    then have "v \<in> set (PM_work s)" "fst (snd v) \<noteq> key" using old unfolding w(1) by (auto simp: image_iff)
    then show ?thesis using old assms(5,7) by auto
  qed
  then show ?thesis using old assms(4-6) unfolding work_ok_def same assms(9) by simp
qed

lemma work_endpoints_stage:
  assumes "work_ok s" and "map_of (PM_work s) p = Some (key, st)"
  shows "mset (work_endpoints (al_put p (key, st') (PM_work s))) + mset (stage_endpoint st)
    = mset (work_endpoints (PM_work s)) + mset (stage_endpoint st')"
proof -
  obtain xs ys where w: "PM_work s = xs @ (p, key, st) # ys" "\<And>y. al_put p y (PM_work s) = xs @ (p, y) # ys"
    by (rule al_split [OF _ assms(2)]) (use assms(1) in \<open>auto simp: work_ok_def\<close>)
  show ?thesis unfolding w(2) unfolding w(1) by (simp add: work_endpoints_def)
qed

lemma owners_ok_stage:
  assumes "owners_ok s" and "work_ok s" and "map_of (PM_work s) p = Some (key, st)"
    and "PM_work s' = al_put p (key, st') (PM_work s)"
    and "mset (PM_live s') + mset (pool_endpoints (PM_pool s)) + mset (stage_endpoint st) + mset (PM_orphans s)
       = mset (PM_live s) + mset (pool_endpoints (PM_pool s')) + mset (stage_endpoint st') + mset (PM_orphans s')"
    and "distinct (PM_live s')" and "\<forall>ep \<in> set (PM_live s'). ep < PM_next s'"
  shows "owners_ok s'"
proof -
  have "mset (PM_live s) = mset (pool_endpoints (PM_pool s)) + mset (work_endpoints (PM_work s)) + mset (PM_orphans s)"
    using assms(1) by (simp add: owners_ok_def owned_def)
  with assms(5) have "mset (PM_live s') + mset (stage_endpoint st)
      = mset (work_endpoints (PM_work s)) + mset (pool_endpoints (PM_pool s')) + mset (stage_endpoint st') + mset (PM_orphans s')"
    by (simp add: ac_simps)
  also have "\<dots> = mset (work_endpoints (PM_work s')) + mset (stage_endpoint st) + mset (pool_endpoints (PM_pool s')) + mset (PM_orphans s')"
    using work_endpoints_stage [OF assms(2,3), of st'] assms(4) by (simp add: ac_simps)
  finally have "mset (PM_live s') = mset (owned s') + mset (PM_orphans s')" by (simp add: owned_def ac_simps)
  then show ?thesis using assms(6,7) by (simp add: owners_ok_def)
qed

lemma work_owned: "map_of (PM_work s) p = Some (key, st) \<Longrightarrow> ep \<in> set (stage_endpoint st) \<Longrightarrow> ep \<in> set (owned s)"
  by (fastforce simp: owned_def work_endpoints_def dest: map_of_SomeD)

lemma owned_live: "owners_ok s \<Longrightarrow> ep \<in> set (owned s) \<Longrightarrow> ep \<in> set (PM_live s)"
  unfolding owners_ok_def by (metis Un_iff mset_append set_append set_mset_mset)

lemma pool_endpoints_append:
  assumes "allocations_ok s"
  shows "map (\<lambda>e. AT_endpoint ((PO_attachments (PM_pool s) @ extra) ! snd e)) (PO_allocations (PM_pool s)) = pool_endpoints (PM_pool s)"
  using assms unfolding pool_endpoints_def allocations_ok_def by (auto simp: nth_append)

lemma field_update: "f x = f (xs ! i) \<Longrightarrow> f (xs[i := x] ! j) = f (xs ! j)"
  by (cases "i < length xs") (auto simp: nth_list_update list_update_beyond not_less)

lemma pool_endpoints_update:
  "AT_endpoint x = AT_endpoint (PO_attachments m ! a) \<Longrightarrow>
   pool_endpoints (m\<lparr>PO_attachments := (PO_attachments m)[a := x]\<rparr>) = pool_endpoints m"
  by (simp add: pool_endpoints_def field_update [where f = AT_endpoint])

section \<open>Every step keeps it\<close>

definition pool_inv :: "pool_machine \<Rightarrow> bool" where
  "pool_inv s \<longleftrightarrow> owners_ok s \<and> allocations_ok s \<and> work_ok s"

lemma inv_starts:
  assumes "pool_inv s" and "acquire_begin (PM_pool s) key = (AcquireCreate p, m)"
  shows "pool_inv (s\<lparr>PM_pool := m, PM_work := al_put p (key, Creating) (PM_work s)\<rparr>)"
proof -
  note b = acquire_begin_create [OF assms(2)]
  have w: "work_ok s" using assms(1) by (simp add: pool_inv_def)
  have fresh: "p \<notin> fst ` set (PM_work s)" using w b(1) by (fastforce simp: work_ok_def)
  have "al_put p (key, Creating) (PM_work s) = PM_work s @ [(p, key, Creating)]"
    using fresh by (intro al_put_new) (simp add: map_of_eq_None_iff)
  moreover have "key \<notin> (\<lambda>w. fst (snd w)) ` set (PM_work s)"
    using w b(3) by (auto simp: work_ok_def map_of_eq_None_iff image_iff)
  ultimately show ?thesis using assms(1) fresh b unfolding pool_inv_def
    by (auto simp: pool_ok_defs owned_def pool_endpoints_def work_endpoints_def nth_append less_Suc_eq)
qed

lemma inv_create:
  assumes "pool_inv s" and "map_of (PM_work s) p = Some (key, Creating)"
  shows "pool_inv (s\<lparr>PM_work := al_put p (key, Created (PM_next s)) (PM_work s), PM_live := PM_live s @ [PM_next s], PM_next := Suc (PM_next s)\<rparr>)"
proof -
  let ?s = "s\<lparr>PM_work := al_put p (key, Created (PM_next s)) (PM_work s), PM_live := PM_live s @ [PM_next s], PM_next := Suc (PM_next s)\<rparr>"
  have i: "owners_ok s" "allocations_ok s" "work_ok s" using assms(1) by (simp_all add: pool_inv_def)
  have "owners_ok ?s" by (rule owners_ok_stage [OF i(1,3) assms(2)]) (use i(1) in \<open>auto simp: owners_ok_def\<close>)
  moreover have "allocations_ok ?s" using i(2) by (simp add: allocations_ok_def)
  moreover have "work_ok ?s" by (rule work_ok_stage [OF i(3) assms(2)]) simp_all
  ultimately show ?thesis by (simp add: pool_inv_def)
qed

text \<open>A step that only records an error in its acquisition and goes on.\<close>

lemma inv_record:
  assumes "pool_inv s" and "map_of (PM_work s) p = Some (key, st)" and "unpublished st' \<longrightarrow> unpublished st"
    and "mset live + mset (stage_endpoint st) + mset (PM_orphans s) = mset (PM_live s) + mset (stage_endpoint st') + mset orphans"
    and "distinct live" and "set live \<subseteq> set (PM_live s)" and "AC_done x = AC_done (PO_acquisitions (PM_pool s) ! p)"
  shows "pool_inv (s\<lparr>PM_pool := (PM_pool s)\<lparr>PO_acquisitions := (PO_acquisitions (PM_pool s))[p := x]\<rparr>,
    PM_work := al_put p (key, st') (PM_work s), PM_live := live, PM_orphans := orphans\<rparr>)" (is "pool_inv ?s")
proof -
  have i: "owners_ok s" "allocations_ok s" "work_ok s" using assms(1) by (simp_all add: pool_inv_def)
  have "pool_endpoints (PM_pool ?s) = pool_endpoints (PM_pool s)" by (simp add: pool_endpoints_def)
  then have "owners_ok ?s" using i(1) assms(4-6)
    by (intro owners_ok_stage [OF i(1,3) assms(2)]) (auto simp: owners_ok_def ac_simps)
  moreover have "allocations_ok ?s" using i(2) by (simp add: allocations_ok_def)
  moreover have "work_ok ?s"
    by (rule work_ok_stage [OF i(3) assms(2,3)]) (use assms(7) in \<open>simp_all add: field_update [where f = AC_done]\<close>)
  ultimately show ?thesis by (simp add: pool_inv_def)
qed

lemma inv_publish:
  assumes "pool_inv s" and "map_of (PM_work s) p = Some (key, Created ep)" and "acquire_publish (PM_pool s) key p (Inr ep) = (shut, m)"
  shows "pool_inv (s\<lparr>PM_pool := m, PM_work := al_put p (key, if shut then Discarding ep else Finishing) (PM_work s)\<rparr>)" (is "pool_inv ?s")
proof (cases "PO_closed (PM_pool s)")
  case True
  then have "shut" and m: "m = (PM_pool s)\<lparr>PO_acquisitions := (PO_acquisitions (PM_pool s))[p := (PO_acquisitions (PM_pool s) ! p)\<lparr>AC_err := Some ''network: manager closed''\<rparr>]\<rparr>"
    using assms(3) by (simp_all add: acquire_publish_def)
  moreover have "distinct (PM_live s)" using assms(1) by (simp add: pool_inv_def owners_ok_def)
  ultimately show ?thesis
    using inv_record [OF assms(1,2), where st' = "Discarding ep" and live = "PM_live s" and orphans = "PM_orphans s"] by simp
next
  case False
  have i: "owners_ok s" "allocations_ok s" "work_ok s" using assms(1) by (simp_all add: pool_inv_def)
  have none: "map_of (PO_allocations (PM_pool s)) key = None"
    using i(3) map_of_SomeD [OF assms(2)] by (force simp: work_ok_def)
  let ?a = "length (PO_attachments (PM_pool s))"
  have nsh: "\<not> shut" and m: "m = (PM_pool s)\<lparr>PO_attachments := PO_attachments (PM_pool s) @ [\<lparr> AT_key = key, AT_endpoint = ep, AT_active = True \<rparr>],
      PO_acquisitions := (PO_acquisitions (PM_pool s))[p := (PO_acquisitions (PM_pool s) ! p)\<lparr>AC_lease := Some ?a\<rparr>],
      PO_allocations := PO_allocations (PM_pool s) @ [(key, ?a)]\<rparr>"
    using assms(3) False none by (simp_all add: acquire_publish_def Let_def al_put_new)
  have e: "pool_endpoints m = pool_endpoints (PM_pool s) @ [ep]"
    using pool_endpoints_append [OF i(2)] unfolding m by (simp add: pool_endpoints_def)
  have "owners_ok ?s" using i(1) nsh
    by (intro owners_ok_stage [OF i(1,3) assms(2)]) (auto simp: owners_ok_def e)
  moreover have "allocations_ok ?s" using i(2) none unfolding m by (auto simp: allocations_ok_def nth_append map_of_eq_None_iff)
  moreover have "work_ok ?s" using nsh
    by (intro work_ok_stage [OF i(3) assms(2)]) (simp_all add: m field_update [where f = AC_done])
  ultimately show ?thesis by (simp add: pool_inv_def)
qed

lemma inv_discard:
  assumes "pool_inv s" and "map_of (PM_work s) p = Some (key, Discarding ep)"
  shows "pool_inv (s\<lparr>PM_pool := acquire_discard (PM_pool s) p None, PM_work := al_put p (key, Finishing) (PM_work s), PM_live := remove1 ep (PM_live s)\<rparr>)"
    and "pool_inv (s\<lparr>PM_pool := acquire_discard (PM_pool s) p (Some e), PM_work := al_put p (key, Finishing) (PM_work s), PM_orphans := ep # PM_orphans s\<rparr>)"
proof -
  have i: "owners_ok s" using assms(1) by (simp add: pool_inv_def)
  then have live: "distinct (PM_live s)" "ep \<in> set (PM_live s)"
    using owned_live [OF i work_owned [OF assms(2)]] by (simp_all add: owners_ok_def)
  show "pool_inv (s\<lparr>PM_pool := acquire_discard (PM_pool s) p None, PM_work := al_put p (key, Finishing) (PM_work s), PM_live := remove1 ep (PM_live s)\<rparr>)"
    unfolding acquire_discard_def
    using inv_record [OF assms, where st' = Finishing and live = "remove1 ep (PM_live s)" and orphans = "PM_orphans s"] live
    by (simp add: set_remove1_subset)
  show "pool_inv (s\<lparr>PM_pool := acquire_discard (PM_pool s) p (Some e), PM_work := al_put p (key, Finishing) (PM_work s), PM_orphans := ep # PM_orphans s\<rparr>)"
    unfolding acquire_discard_def
    using inv_record [OF assms, where st' = Finishing and live = "PM_live s" and orphans = "ep # PM_orphans s"] live
    by simp
qed

lemma inv_finish:
  assumes "pool_inv s" and "map_of (PM_work s) p = Some (key, Finishing)"
  shows "pool_inv (s\<lparr>PM_pool := acquire_finish (PM_pool s) key p, PM_work := al_del p (PM_work s)\<rparr>)" (is "pool_inv ?s")
proof -
  have i: "owners_ok s" "allocations_ok s" "work_ok s" using assms(1) by (simp_all add: pool_inv_def)
  obtain xs ys where w: "PM_work s = xs @ (p, key, Finishing) # ys" "al_del p (PM_work s) = xs @ ys"
    by (rule al_split [OF _ assms(2)]) (use i(3) in \<open>auto simp: work_ok_def\<close>)
  note old = i(3) [unfolded work_ok_def]
  have "work_endpoints (al_del p (PM_work s)) = work_endpoints (PM_work s)"
    unfolding w(2) unfolding w(1) by (simp add: work_endpoints_def)
  then have "owners_ok ?s" using i(1) unfolding owners_ok_def by (simp add: owned_def acquire_finish_def pool_endpoints_def)
  moreover have "allocations_ok ?s" using i(2) by (simp add: allocations_ok_def acquire_finish_def)
  moreover have "work_ok ?s"
  proof -
    let ?f = "\<lambda>w :: nat \<times> string \<times> stage. (fst (snd w), fst w)"
    have pend: "PO_pending (PM_pool s) = map ?f xs @ (key, p) # map ?f ys" using old unfolding w(1) by simp
    have keys: "key \<notin> (\<lambda>w. fst (snd w)) ` set xs" "key \<notin> (\<lambda>w. fst (snd w)) ` set ys" using old unfolding w(1) by simp_all
    have id: "filter (\<lambda>q. fst q \<noteq> key) (map ?f zs) = map ?f zs" if "key \<notin> (\<lambda>w. fst (snd w)) ` set zs" for zs
      using that by (induction zs) auto
    have "al_del key (PO_pending (PM_pool s)) = map ?f (xs @ ys)" unfolding pend al_del_def using id [OF keys(1)] id [OF keys(2)] by simp
    moreover have "distinct (keys (PO_pending (PM_pool s)))" using old by (simp add: comp_def)
    then have "map_of (PO_pending (PM_pool s)) key = Some p" by (rule map_of_is_SomeI) (simp add: pend)
    ultimately have "PO_pending (PM_pool ?s) = map ?f (PM_work ?s)" using w(2) by (simp add: acquire_finish_def)
    moreover have "AC_done (PO_acquisitions (PM_pool ?s) ! q) \<longleftrightarrow> q \<notin> fst ` set (PM_work ?s)" if "q < length (PO_acquisitions (PM_pool s))" for q
      using old that w(2) unfolding w(1) by (cases "q = p") (auto simp: acquire_finish_def nth_list_update)
    ultimately show ?thesis using old w(2) unfolding work_ok_def w(1) by (auto simp: acquire_finish_def)
  qed
  ultimately show ?thesis by (simp add: pool_inv_def)
qed

lemma inv_close:
  assumes "pool_inv s" and "a < length (PO_attachments (PM_pool s))" and "close_begin (PM_pool s) a = (registered, m)"
  shows "pool_inv (s\<lparr>PM_pool := m, PM_closing := (if registered then insert a (PM_closing s) else PM_closing s)\<rparr>)" (is "pool_inv ?s")
proof -
  have i: "owners_ok s" "allocations_ok s" "work_ok s" using assms(1) by (simp_all add: pool_inv_def)
  let ?x = "(PO_attachments (PM_pool s) ! a)\<lparr>AT_active := False\<rparr>"
  have m: "m = (PM_pool s)\<lparr>PO_attachments := (PO_attachments (PM_pool s))[a := ?x]\<rparr>"
    and reg: "registered \<longleftrightarrow> map_of (PO_allocations (PM_pool s)) (AT_key (PO_attachments (PM_pool s) ! a)) = Some a"
    using assms(3) by (auto simp: close_begin_def)
  have key: "AT_key ((PO_attachments (PM_pool s))[a := ?x] ! b) = AT_key (PO_attachments (PM_pool s) ! b)" for b
    by (rule field_update) simp
  have "owners_ok ?s" using i(1) pool_endpoints_update [of ?x "PM_pool s" a] by (simp add: owners_ok_def owned_def m)
  moreover have "allocations_ok ?s" using i(2) assms(2) reg unfolding m by (auto simp: allocations_ok_def key nth_list_update)
  moreover have "work_ok ?s" using i(3) by (simp add: work_ok_def m)
  ultimately show ?thesis by (simp add: pool_inv_def)
qed

lemma inv_close_ends:
  assumes "pool_inv s" and "a \<in> PM_closing s"
  shows "pool_inv (s\<lparr>PM_pool := close_commit (PM_pool s) a, PM_closing := PM_closing s - {a},
      PM_live := remove1 (AT_endpoint (PO_attachments (PM_pool s) ! a)) (PM_live s)\<rparr>)" (is "pool_inv ?s")
proof -
  have i: "owners_ok s" "allocations_ok s" "work_ok s" using assms(1) by (simp_all add: pool_inv_def)
  let ?k = "AT_key (PO_attachments (PM_pool s) ! a)" and ?ep = "AT_endpoint (PO_attachments (PM_pool s) ! a)"
  have reg: "map_of (PO_allocations (PM_pool s)) ?k = Some a" using i(2) assms(2) by (simp add: allocations_ok_def)
  then have m: "close_commit (PM_pool s) a = (PM_pool s)\<lparr>PO_allocations := al_del ?k (PO_allocations (PM_pool s))\<rparr>"
    by (simp add: close_commit_def Let_def)
  obtain xs ys where w: "PO_allocations (PM_pool s) = xs @ (?k, a) # ys" "al_del ?k (PO_allocations (PM_pool s)) = xs @ ys"
    by (rule al_split [OF _ reg]) (use i(2) in \<open>auto simp: allocations_ok_def\<close>)
  have "mset (pool_endpoints (PM_pool s)) = add_mset ?ep (mset (pool_endpoints (PM_pool ?s)))"
    unfolding pool_endpoints_def m by (simp add: w(2)) (simp add: w(1))
  then have "mset (owned s) = add_mset ?ep (mset (owned ?s))" by (simp add: owned_def)
  then have "owners_ok ?s" using i(1) by (auto simp: owners_ok_def dest: notin_set_remove1)
  moreover have "set (al_del ?k (PO_allocations (PM_pool s))) \<subseteq> set (PO_allocations (PM_pool s))" by (auto simp: al_del_def)
  moreover have "AT_key (PO_attachments (PM_pool s) ! b) \<noteq> ?k" if "b \<in> PM_closing s" "b \<noteq> a" for b
    using that i(2) reg by (auto simp: allocations_ok_def simp del: map_of_eq_Some_iff)
  ultimately have "owners_ok ?s" "allocations_ok ?s" using i(2) unfolding m
    by (auto simp: allocations_ok_def subset_iff simp del: map_of_eq_Some_iff)
  moreover have "work_ok ?s" using i(3) unfolding m by (simp add: work_ok_def)
  ultimately show ?thesis by (simp add: pool_inv_def)
qed

lemma al_put_twice [simp]: "al_put k y (al_put k x m) = al_put k y m"
  by (induction m) (auto split: if_splits)

lemma inv_create_leaks:
  assumes "pool_inv s" and "map_of (PM_work s) p = Some (key, Creating)"
  shows "pool_inv (s\<lparr>PM_next := Suc (PM_next s), PM_pool := snd (acquire_publish (PM_pool s) key p (Inl e)), PM_work := al_put p (key, Finishing) (PM_work s),
      PM_live := PM_live s @ [PM_next s], PM_orphans := PM_next s # PM_orphans s\<rparr>)"
proof -
  let ?s = "s\<lparr>PM_work := al_put p (key, Created (PM_next s)) (PM_work s), PM_live := PM_live s @ [PM_next s], PM_next := Suc (PM_next s)\<rparr>"
  have i: "pool_inv ?s" by (rule inv_create [OF assms])
  have "map_of (PM_work ?s) p = Some (key, Created (PM_next s))" "distinct (PM_live ?s)" using i by (simp_all add: pool_inv_def owners_ok_def)
  then show ?thesis
    using inv_record [OF i, of p key "Created (PM_next s)" Finishing "PM_live ?s" "PM_next s # PM_orphans s"
      "PO_acquisitions (snd (acquire_publish (PM_pool s) key p (Inl e))) ! p"]
    by (cases "p < length (PO_acquisitions (PM_pool s))") (simp_all add: acquire_publish_def list_update_beyond)
qed

lemma pool_inv_step: "pool_step s t \<Longrightarrow> pool_inv s \<Longrightarrow> pool_inv t"
proof (induction rule: pool_step.induct)
  case (create_fails s p key e)
  have "distinct (PM_live s)" using create_fails(2) by (simp add: pool_inv_def owners_ok_def)
  then show ?case unfolding acquire_publish_def
    using inv_record [OF create_fails(2,1), where st' = Finishing and live = "PM_live s" and orphans = "PM_orphans s"] by simp
next
  case (close_fails a s)
  then show ?case by (auto simp: pool_inv_def owners_ok_def owned_def allocations_ok_def work_ok_def)
next
  case (shut s)
  then show ?case by (simp add: pool_inv_def owners_ok_def owned_def pool_endpoints_def allocations_ok_def work_ok_def pool_shut_def)
qed (simp_all add: inv_starts inv_create inv_create_leaks inv_publish inv_discard inv_finish inv_close inv_close_ends)

lemma pool_inv_start: "pool_inv pool_start"
  by (simp add: pool_inv_def pool_ok_start)

interpretation pool: state_machine "\<lambda>s. s = pool_start" pool_step pool_inv
  by unfold_locales (auto intro: pool_inv_start pool_inv_step)

section \<open>Ownership\<close>

lemma registered_endpoint:
  "map_of (PO_allocations m) k = Some a \<Longrightarrow> AT_endpoint (PO_attachments m ! a) \<in> set (pool_endpoints m)"
  by (force simp: pool_endpoints_def dest: map_of_SomeD)

lemma registered_distinct:
  assumes "distinct (pool_endpoints m)" and "map_of (PO_allocations m) k = Some a" and "map_of (PO_allocations m) l = Some b"
    and "AT_endpoint (PO_attachments m ! a) = AT_endpoint (PO_attachments m ! b)"
  shows "a = b"
proof -
  have "inj_on (\<lambda>e. AT_endpoint (PO_attachments m ! snd e)) (set (PO_allocations m))" using assms(1) by (simp add: pool_endpoints_def distinct_map)
  then have "(k, a) = (l, b)" by (rule inj_onD) (use assms(2-4) in \<open>auto dest: map_of_SomeD\<close>)
  then show ?thesis by simp
qed

lemma distinct_owned: "owners_ok s \<Longrightarrow> distinct (owned s @ PM_orphans s)"
  unfolding owners_ok_def by (metis mset_append mset_eq_imp_distinct_iff)

text \<open>C16: under every interleaving of acquisitions, closes and shutdown, whatever the backend does, each endpoint that exists has
  exactly one owner: a registered attachment, an acquisition under way, or the backend after a failed discard or a failed cleanup of a failed creation.
  An attachment that a process may enter has an existing endpoint, is the only such attachment of
  its key, and shares its endpoint with no other.\<close>

theorem pool_endpoints_owned:
  assumes "pool_step\<^sup>*\<^sup>* pool_start s"
  shows "mset (PM_live s) = mset (pool_endpoints (PM_pool s)) + mset (work_endpoints (PM_work s)) + mset (PM_orphans s)
    \<and> distinct (PM_live s)
    \<and> (\<forall>a ep. Enter (PM_pool s) a = Inr ep \<longrightarrow> ep \<in> set (PM_live s))
    \<and> (\<forall>a b. usable (PM_pool s) a \<and> usable (PM_pool s) b
         \<and> (AT_key (PO_attachments (PM_pool s) ! a) = AT_key (PO_attachments (PM_pool s) ! b)
            \<or> AT_endpoint (PO_attachments (PM_pool s) ! a) = AT_endpoint (PO_attachments (PM_pool s) ! b)) \<longrightarrow> a = b)"
proof -
  have i: "owners_ok s" using pool.inv_reachable [OF refl assms] by (simp add: pool_inv_def)
  have d: "distinct (pool_endpoints (PM_pool s))" using distinct_owned [OF i] by (simp add: owned_def)
  have reg: "map_of (PO_allocations (PM_pool s)) (AT_key (PO_attachments (PM_pool s) ! a)) = Some a" if "usable (PM_pool s) a" for a
    using that by (simp add: usable_def current_def)
  have "ep \<in> set (PM_live s)" if "Enter (PM_pool s) a = Inr ep" for a ep
  proof -
    have "usable (PM_pool s) a" "ep = AT_endpoint (PO_attachments (PM_pool s) ! a)" using that by (auto simp: Enter_def split: if_splits)
    then show ?thesis using owned_live [OF i] registered_endpoint [OF reg] by (simp add: owned_def)
  qed
  moreover have "a = b" if "usable (PM_pool s) a" "usable (PM_pool s) b" "AT_key (PO_attachments (PM_pool s) ! a) = AT_key (PO_attachments (PM_pool s) ! b)
      \<or> AT_endpoint (PO_attachments (PM_pool s) ! a) = AT_endpoint (PO_attachments (PM_pool s) ! b)" for a b
    using that(3)
  proof
    assume "AT_key (PO_attachments (PM_pool s) ! a) = AT_key (PO_attachments (PM_pool s) ! b)"
    then show ?thesis using reg [OF that(1)] reg [OF that(2)] by (metis option.inject)
  qed (rule registered_distinct [OF d reg [OF that(1)] reg [OF that(2)]])
  moreover have "mset (PM_live s) = mset (pool_endpoints (PM_pool s)) + mset (work_endpoints (PM_work s)) + mset (PM_orphans s)"
    "distinct (PM_live s)" using i by (simp_all add: owners_ok_def owned_def)
  ultimately show ?thesis by blast
qed

section \<open>Closing the pool\<close>

lemma attachment_Close_removes:
  assumes "allocations_ok s" and "attachment_Close (PM_pool s) a err = (None, m)" and "a < length (PO_attachments (PM_pool s))"
  shows "a \<notin> snd ` set (PO_allocations m)"
proof
  assume "a \<in> snd ` set (PO_allocations m)"
  then obtain k where k: "(k, a) \<in> set (PO_allocations m)" by force
  let ?key = "AT_key (PO_attachments (PM_pool s) ! a)"
  have m: "PO_allocations m = (if map_of (PO_allocations (PM_pool s)) ?key = Some a then al_del ?key (PO_allocations (PM_pool s))
      else PO_allocations (PM_pool s))"
    using assms(2,3) by (auto simp: attachment_Close_def close_begin_def close_commit_def Let_def split: if_splits option.splits)
  then have "(k, a) \<in> set (PO_allocations (PM_pool s))" using k by (auto simp: al_del_def split: if_splits)
  then have "?key = k" "map_of (PO_allocations (PM_pool s)) k = Some a"
    using assms(1) by (auto simp: allocations_ok_def simp del: map_of_eq_Some_iff intro: map_of_is_SomeI)
  then show False using m k by (auto simp: al_del_def)
qed

lemma closed_step:
  assumes "pool_step s t" and "PO_closed (PM_pool s)"
  shows "PO_closed (PM_pool t) \<and> set (PO_allocations (PM_pool t)) \<subseteq> set (PO_allocations (PM_pool s)) \<and> fst ` set (PM_work t) \<subseteq> fst ` set (PM_work s)"
  using assms
proof (induction rule: pool_step.induct)
  case (starts s key p m)
  then show ?case by (simp add: acquire_begin_def)
qed (auto simp: acquire_publish_def acquire_discard_def acquire_finish_def close_begin_def close_commit_def pool_shut_def Let_def al_del_def
  dest: map_of_in_keys split: if_splits)

lemma closed_steps:
  assumes "pool_step\<^sup>*\<^sup>* s t" and "PO_closed (PM_pool s)"
  shows "PO_closed (PM_pool t) \<and> set (PO_allocations (PM_pool t)) \<subseteq> set (PO_allocations (PM_pool s)) \<and> fst ` set (PM_work t) \<subseteq> fst ` set (PM_work s)"
  using assms
proof (induction rule: rtranclp_induct)
  case (step y z)
  then show ?case using closed_step [OF step(2)] by (meson order_trans)
qed simp

lemma finished_work:
  assumes "work_ok s" and "p < length (PO_acquisitions (PM_pool s))" and "AC_done (PO_acquisitions (PM_pool s) ! p)"
  shows "p \<notin> fst ` set (PM_work s)"
  using assms by (simp add: work_ok_def)

text \<open>C17: closing the pool is final. Let \<open>Close\<close> mark the pool, then wait until the acquisitions it found pending are done, then close
  the attachments it finds registered until each is gone, while any other goroutines go on. Afterwards and for ever
  no attachment is registered, no acquisition is pending, every acquisition is refused, no attachment can be entered, and the only endpoints that exist are those left to the backend, because
  their discard failed or because their creation failed and so did its cleanup, which closing the backend takes over.\<close>

theorem pool_close_complete:
  assumes "pool_step\<^sup>*\<^sup>* pool_start s1" and "pool_shut (PM_pool s1) = (pending, m)"
    and "pool_step\<^sup>*\<^sup>* (s1\<lparr>PM_pool := m\<rparr>) s2" and "\<forall>p \<in> set pending. AC_done (PO_acquisitions (PM_pool s2) ! p)"
    and "pool_step\<^sup>*\<^sup>* s2 s3" and "\<forall>a \<in> snd ` set (PO_allocations (PM_pool s2)). a \<notin> snd ` set (PO_allocations (PM_pool s3))"
    and "pool_step\<^sup>*\<^sup>* s3 s4"
  shows "PO_allocations (PM_pool s4) = [] \<and> PO_pending (PM_pool s4) = [] \<and> mset (PM_live s4) = mset (PM_orphans s4)
    \<and> (\<forall>key. fst (acquire_begin (PM_pool s4) key) = AcquireClosed) \<and> (\<forall>a ep. Enter (PM_pool s4) a \<noteq> Inr ep)"
proof -
  let ?s1 = "s1\<lparr>PM_pool := m\<rparr>"
  have m: "m = snd (pool_shut (PM_pool s1))" "pending = map snd (PO_pending (PM_pool s1))" "PO_closed m" "PO_pending m = PO_pending (PM_pool s1)"
    using assms(2) by (auto simp: pool_shut_def)
  have "pool_step\<^sup>*\<^sup>* pool_start ?s1" using assms(1) pool_step.shut [of s1] m(1) by simp
  then have r2: "pool_step\<^sup>*\<^sup>* pool_start s2" and r4: "pool_step\<^sup>*\<^sup>* pool_start s4" and i1: "pool_inv ?s1"
    using assms(3,5,7) pool.inv_reachable by (auto intro: rtranclp_trans)
  have c2: "PO_closed (PM_pool s2)" "fst ` set (PM_work s2) \<subseteq> fst ` set (PM_work ?s1)"
    using closed_steps [OF assms(3)] m(3) by simp_all
  have c3: "PO_closed (PM_pool s3)" "set (PO_allocations (PM_pool s3)) \<subseteq> set (PO_allocations (PM_pool s2))" "fst ` set (PM_work s3) \<subseteq> fst ` set (PM_work s2)"
    using closed_steps [OF assms(5) c2(1)] by simp_all
  have c4: "PO_closed (PM_pool s4)" "set (PO_allocations (PM_pool s4)) \<subseteq> set (PO_allocations (PM_pool s3))" "fst ` set (PM_work s4) \<subseteq> fst ` set (PM_work s3)"
    using closed_steps [OF assms(7) c3(1)] by simp_all
  have i2: "work_ok s2" and i4: "owners_ok s4" "work_ok s4" using pool.inv_reachable [OF refl r2] pool.inv_reachable [OF refl r4] by (simp_all add: pool_inv_def)
  have pend: "fst ` set (PM_work ?s1) = set pending"
    using i1 m(2,4) by (auto simp: pool_inv_def work_ok_def image_image)
  have "fst ` set (PM_work s2) = {}"
  proof (rule equals0I)
    fix p
    assume p: "p \<in> fst ` set (PM_work s2)"
    then have "AC_done (PO_acquisitions (PM_pool s2) ! p)" using c2(2) pend assms(4) by auto
    moreover have "p < length (PO_acquisitions (PM_pool s2))" using i2 p by (auto simp: work_ok_def)
    ultimately show False using finished_work [OF i2] p by simp
  qed
  with order_trans [OF c4(3) c3(3)] have "fst ` set (PM_work s4) = {}" by (simp only: subset_empty)
  then have w4: "PM_work s4 = []" by simp
  have "set (PO_allocations (PM_pool s3)) = {}"
  proof (rule equals0I)
    fix e
    assume e: "e \<in> set (PO_allocations (PM_pool s3))"
    then have "snd e \<in> snd ` set (PO_allocations (PM_pool s2))" using c3(2) by (intro imageI) (rule subsetD)
    then have "snd e \<notin> snd ` set (PO_allocations (PM_pool s3))" using assms(6) by (simp only:) simp
    then show False using e by simp
  qed
  then have a4: "PO_allocations (PM_pool s4) = []" using c4(2) by simp
  have "pool_endpoints (PM_pool s4) = []" "work_endpoints (PM_work s4) = []" by (simp_all add: pool_endpoints_def work_endpoints_def a4 w4)
  then have "mset (PM_live s4) = mset (PM_orphans s4)" using i4(1) by (simp add: owners_ok_def owned_def)
  moreover have "PO_pending (PM_pool s4) = []" using i4(2) w4 by (simp add: work_ok_def)
  moreover have "\<not> usable (PM_pool s4) a" for a using a4 by (simp add: usable_def current_def)
  ultimately show ?thesis using a4 c4(1) by (simp add: acquire_begin_def Enter_def)
qed

text \<open>A run: acquire, shut down while the acquisition finishes, close. \<open>i\<close> counts the steps done.\<close>

definition sample_pool :: "nat \<Rightarrow> Pool" where
  "sample_pool i =
     \<lparr> PO_attachments = (if i < 3 then [] else [\<lparr> AT_key = ''bed-1'', AT_endpoint = 0, AT_active = (i < 6) \<rparr>]),
       PO_acquisitions = (if i < 1 then [] else [\<lparr> AC_done = (5 \<le> i), AC_lease = (if i < 3 then None else Some 0), AC_err = None \<rparr>]),
       PO_allocations = (if 3 \<le> i \<and> i < 7 then [(''bed-1'', 0)] else []),
       PO_pending = (if 1 \<le> i \<and> i < 5 then [(''bed-1'', 0)] else []), PO_closed = (4 \<le> i) \<rparr>"

definition sample_machine :: "nat \<Rightarrow> pool_machine" where
  "sample_machine i =
     \<lparr> PM_pool = sample_pool i,
       PM_work = (if 1 \<le> i \<and> i < 5 then [(0, ''bed-1'', if i = 1 then Creating else if i = 2 then Created 0 else Finishing)] else []),
       PM_closing = (if i = 6 then {0} else {}), PM_live = (if 2 \<le> i \<and> i < 7 then [0] else []), PM_orphans = [],
       PM_next = (if i < 2 then 0 else 1) \<rparr>"

lemma sample_run:
  "pool_step\<^sup>*\<^sup>* pool_start (sample_machine 3)"
  "pool_shut (PM_pool (sample_machine 3)) = ([0], sample_pool 4)" "(sample_machine 3)\<lparr>PM_pool := sample_pool 4\<rparr> = sample_machine 4"
  "pool_step\<^sup>*\<^sup>* (sample_machine 4) (sample_machine 5)" "pool_step\<^sup>*\<^sup>* (sample_machine 5) (sample_machine 7)"
proof -
  have "pool_start = sample_machine 0" by (simp add: pool_start_def NewPool_def sample_machine_def sample_pool_def)
  moreover have "pool_step (sample_machine 0) (sample_machine 1)"
    using pool_step.starts [of "sample_machine 0" "''bed-1''" 0 "sample_pool 1"] by (simp add: sample_machine_def sample_pool_def acquire_begin_def)
  moreover have "pool_step (sample_machine 1) (sample_machine 2)"
    using pool_step.create [of "sample_machine 1" 0 "''bed-1''"] by (simp add: sample_machine_def sample_pool_def)
  moreover have "pool_step (sample_machine 2) (sample_machine 3)"
    using pool_step.publish [of "sample_machine 2" 0 "''bed-1''" 0 False "sample_pool 3"]
    by (simp add: sample_machine_def sample_pool_def acquire_publish_def)
  ultimately show "pool_step\<^sup>*\<^sup>* pool_start (sample_machine 3)" by (metis rtranclp.rtrancl_into_rtrancl rtranclp.rtrancl_refl)
  show "pool_shut (PM_pool (sample_machine 3)) = ([0], sample_pool 4)" "(sample_machine 3)\<lparr>PM_pool := sample_pool 4\<rparr> = sample_machine 4"
    by (simp_all add: sample_machine_def sample_pool_def pool_shut_def)
  have "pool_step (sample_machine 4) (sample_machine 5)"
    using pool_step.finish [of "sample_machine 4" 0 "''bed-1''"] by (simp add: sample_machine_def sample_pool_def acquire_finish_def al_del_def)
  then show "pool_step\<^sup>*\<^sup>* (sample_machine 4) (sample_machine 5)" by (rule r_into_rtranclp)
  have "pool_step (sample_machine 5) (sample_machine 6)"
    using pool_step.close [of 0 "sample_machine 5" True "sample_pool 6"] by (simp add: sample_machine_def sample_pool_def close_begin_def)
  moreover have "pool_step (sample_machine 6) (sample_machine 7)"
    using pool_step.close_ends [of 0 "sample_machine 6"] by (simp add: sample_machine_def sample_pool_def close_commit_def al_del_def)
  ultimately show "pool_step\<^sup>*\<^sup>* (sample_machine 5) (sample_machine 7)" by (metis rtranclp.rtrancl_into_rtrancl rtranclp.rtrancl_refl)
qed

theorem pool_endpoints_owned_witness:
  "Enter (PM_pool (sample_machine 3)) 0 = Inr 0 \<and> 0 \<in> set (PM_live (sample_machine 3))"
proof -
  have "Enter (PM_pool (sample_machine 3)) 0 = Inr 0" by (simp add: sample_machine_def sample_pool_def Enter_def usable_def current_def)
  then show ?thesis using pool_endpoints_owned [OF sample_run(1)] by blast
qed

theorem pool_close_complete_witness:
  "PO_allocations (PM_pool (sample_machine 7)) = [] \<and> mset (PM_live (sample_machine 7)) = mset (PM_orphans (sample_machine 7))"
proof -
  have "pool_step\<^sup>*\<^sup>* ((sample_machine 3)\<lparr>PM_pool := sample_pool 4\<rparr>) (sample_machine 5)" using sample_run(3,4) by simp
  moreover have "\<forall>p \<in> set [0]. AC_done (PO_acquisitions (PM_pool (sample_machine 5)) ! p)" by (simp add: sample_machine_def sample_pool_def)
  moreover have "\<forall>a \<in> snd ` set (PO_allocations (PM_pool (sample_machine 5))). a \<notin> snd ` set (PO_allocations (PM_pool (sample_machine 7)))"
    by (simp add: sample_machine_def sample_pool_def)
  ultimately show ?thesis using pool_close_complete [OF sample_run(1,2) _ _ sample_run(5) _ rtranclp.rtrancl_refl] by blast
qed

end
