(* ===== verification/Net_Subnets.thy ===== *)
theory Net_Subnets
  imports Go_Net
begin

text \<open>
  Selection of the addresses of a private network (\<open>linuxBackend.allocate\<close> in
  \<open>src/internal/host/network/backend_linux.go\<close>): the first /30 of 198.18.0.0/15 that no
  route of the carrier overlaps. The destinations of the routes, as \<open>ip -j route\<close> prints them, are the argument.
  \<open>netip.Prefix.Overlaps\<close> and \<open>netip.Addr.Next\<close> are modelled here, over the prefixes of \<open>Go_Net\<close>.
\<close>

unbundle bit_operations_syntax

section \<open>Definitions\<close>

definition prefix_overlaps :: "prefix \<Rightarrow> prefix \<Rightarrow> bool" where
  "prefix_overlaps p q =
     (p = q \<or> is4 (prefix_addr p) = is4 (prefix_addr q)
        \<and> (let m = min (prefix_bits p) (prefix_bits q)
           in m = 0 \<or> mask_addr m (prefix_addr p) = mask_addr m (prefix_addr q)))"

text \<open>The successor of an IPv4 address; the candidates end far below the last one.\<close>

fun addr_next :: "addr \<Rightarrow> addr" where
  "addr_next (A4 w) = A4 (w + 1)"
| "addr_next a = a"

definition raw_subnet :: "nat \<Rightarrow> 32 word" where
  "raw_subnet n = push_bit 24 198 OR push_bit 16 18 OR push_bit 2 (word_of_nat n)"

definition subnet :: "nat \<Rightarrow> prefix" where
  "subnet n = prefix_from (A4 (raw_subnet n)) 30"

definition route_prefix :: "string \<Rightarrow> prefix option" where
  "route_prefix dst =
     (if dst = ''default'' \<or> dst = ''0.0.0.0/0'' then None
      else case parse_prefix dst of
        Some p \<Rightarrow> Some p
      | None \<Rightarrow> map_option (\<lambda>ip. prefix_from ip 32) (parse_addr dst))"

definition busy :: "string list \<Rightarrow> nat \<Rightarrow> bool" where
  "busy routes n = list_ex (\<lambda>dst. case route_prefix dst of None \<Rightarrow> False | Some p \<Rightarrow> prefix_overlaps (subnet n) p) routes"

fun allocate_scan :: "string list \<Rightarrow> nat \<Rightarrow> nat \<Rightarrow> (string, addr \<times> addr) result" where
  "allocate_scan routes 0 n = Inl ''no unused /30 network in 198.18.0.0/15''"
| "allocate_scan routes (Suc left) n =
     (if \<not> busy routes n
      then Inr (addr_next (prefix_addr (subnet n)), addr_next (addr_next (prefix_addr (subnet n))))
      else allocate_scan routes left (Suc n))"

definition allocate :: "(string, string list) result \<Rightarrow> (string, addr \<times> addr) result" where
  "allocate listing = res_bind listing (\<lambda>routes. allocate_scan routes 32768 0)"

section \<open>Overlap is a shared address\<close>

lemma uint_of_int32: "0 \<le> x \<Longrightarrow> x < 4294967296 \<Longrightarrow> uint (word_of_int x :: 32 word) = x"
  by (simp add: uint_word_of_int take_bit_int_eq_self)

lemma mask_A4_eq: "mask_addr b (A4 x) = mask_addr b (A4 y) \<longleftrightarrow> uint x div 2 ^ (32 - b) = uint y div 2 ^ (32 - b)"
proof -
  have u: "uint (word_of_int (uint w div 2 ^ k * 2 ^ k) :: 32 word) = uint w div 2 ^ k * 2 ^ k" for w :: "32 word" and k
  proof (rule uint_of_int32)
    show "0 \<le> uint w div 2 ^ k * 2 ^ k" by (intro mult_nonneg_nonneg) (simp_all add: pos_imp_zdiv_nonneg_iff)
    have "0 \<le> uint w mod 2 ^ k" by simp
    then have "uint w div 2 ^ k * 2 ^ k \<le> uint w" using minus_mod_eq_div_mult [of "uint w" "2 ^ k"] by linarith
    moreover have "uint w < 4294967296" using uint_lt2p [of w] by simp
    ultimately show "uint w div 2 ^ k * 2 ^ k < 4294967296" by linarith
  qed
  show ?thesis
  proof
    assume "mask_addr b (A4 x) = mask_addr b (A4 y)"
    then have "(word_of_int (uint x div 2 ^ (32 - b) * 2 ^ (32 - b)) :: 32 word) = word_of_int (uint y div 2 ^ (32 - b) * 2 ^ (32 - b))"
      by (simp only: mask_addr.simps addr.inject)
    then have "uint x div 2 ^ (32 - b) * 2 ^ (32 - b) = uint y div 2 ^ (32 - b) * 2 ^ (32 - b)"
      using u [of x "32 - b"] u [of y "32 - b"] by argo
    then show "uint x div 2 ^ (32 - b) = uint y div 2 ^ (32 - b)" by simp
  qed (simp only: mask_addr.simps)
qed

lemma div_power_mono: "k \<le> j \<Longrightarrow> x div 2 ^ k = y div 2 ^ k \<Longrightarrow> x div 2 ^ j = y div (2 ^ j :: int)"
proof -
  assume "k \<le> j" and eq: "x div 2 ^ k = y div 2 ^ k"
  then have p: "(2 ^ j :: int) = 2 ^ k * 2 ^ (j - k)" by (simp flip: power_add)
  show ?thesis unfolding p using eq by (simp add: zdiv_zmult2_eq)
qed

lemma uint_raw_subnet:
  assumes "n < 32768"
  shows "uint (raw_subnet n) = 3323068416 + 4 * int n"
proof -
  have high: "push_bit 24 198 OR push_bit 16 18 = (push_bit 17 25353 :: 32 word)" by (simp add: push_bit_eq_mult)
  have "take_bit 15 n = n" using assms by (simp add: take_bit_nat_eq_self)
  then have "bit n j \<longrightarrow> j < 15" for j by (metis bit_take_bit_iff)
  then have low: "k - 2 < 15" if "bit (push_bit 2 (word_of_nat n) :: 32 word) k" for k
    using that unfolding bit_push_bit_iff bit_of_nat_iff by blast
  have up: "17 \<le> k" if "bit (push_bit 17 25353 :: 32 word) k" for k using that unfolding bit_push_bit_iff by blast
  have "\<not> bit (push_bit 17 25353 :: 32 word) k \<or> \<not> bit (push_bit 2 (word_of_nat n) :: 32 word) k" for k
  proof (rule ccontr)
    assume "\<not> (\<not> bit (push_bit 17 25353 :: 32 word) k \<or> \<not> bit (push_bit 2 (word_of_nat n) :: 32 word) k)"
    then have "17 \<le> k" "k - 2 < 15" using low up by blast+
    then show False by simp
  qed
  then have "raw_subnet n = push_bit 17 25353 + push_bit 2 (word_of_nat n)"
    unfolding raw_subnet_def or.assoc [symmetric] high by (metis disjunctive_add)
  also have "\<dots> = word_of_int (3323068416 + 4 * int n)" by (simp add: push_bit_eq_mult)
  finally show ?thesis using assms uint_of_int32 [of "3323068416 + 4 * int n"] by simp
qed

lemma subnet_word:
  assumes "n < 32768" and "i < 4"
  shows "uint (raw_subnet n + word_of_nat i) = 3323068416 + 4 * int n + int i"
proof -
  have "raw_subnet n + word_of_nat i = word_of_int (3323068416 + 4 * int n + int i)"
    using uint_raw_subnet [OF assms(1)] by (metis of_int_add of_int_of_nat_eq word_of_int_uint)
  then show ?thesis using assms uint_of_int32 [of "3323068416 + 4 * int n + int i"] by simp
qed

lemma overlaps_A4:
  "prefix_overlaps (Prefix (A4 v) c) (Prefix (A4 w) b) \<longleftrightarrow> uint v div 2 ^ (32 - min c b) = uint w div 2 ^ (32 - min c b)"
proof -
  have "uint x div 2 ^ 32 = 0" for x :: "32 word" using uint_lt2p [of x] by (simp add: div_pos_pos_trivial)
  then have "uint v div 2 ^ (32 - min c b) = uint w div 2 ^ (32 - min c b)" if "min c b = 0" using that by simp
  then show ?thesis unfolding prefix_overlaps_def Let_def prefix.sel mask_A4_eq by (auto simp: is4_def)
qed

lemma overlaps_iff:
  assumes "n < 32768"
  shows "prefix_overlaps (subnet n) p \<longleftrightarrow> (\<exists>i < 4. prefix_contains p (A4 (raw_subnet n + word_of_nat i)))"
proof (cases p)
  case (Prefix a b)
  show ?thesis
  proof (cases a)
    case (A6 gs z)
    then show ?thesis using Prefix by (simp add: prefix_overlaps_def subnet_def prefix_from_def prefix_contains_def is4_def)
  next
    case (A4 w)
    let ?s = "3323068416 + 4 * int n"
    let ?j = "32 - min 30 b"
    have ov: "prefix_overlaps (subnet n) p \<longleftrightarrow> ?s div 2 ^ ?j = uint w div 2 ^ ?j"
      using uint_raw_subnet [OF assms] A4 Prefix by (simp only: subnet_def prefix_from_def without_zone.simps overlaps_A4)
    have c: "prefix_contains p (A4 (raw_subnet n + word_of_nat i)) \<longleftrightarrow> (?s + int i) div 2 ^ (32 - b) = uint w div 2 ^ (32 - b)" if "i < 4" for i
      using A4 Prefix subnet_word [OF assms that] by (simp add: prefix_contains_def mask_A4_eq del: mask_addr.simps)
    have near: "(?s + int i) div 2 ^ ?j = ?s div 2 ^ ?j" if "i < 4" for i
    proof (rule div_power_mono [of 2])
      show "(?s + int i) div 2 ^ 2 = ?s div 2 ^ 2" using that by simp
    qed simp
    show ?thesis
    proof
      assume "\<exists>i < 4. prefix_contains p (A4 (raw_subnet n + word_of_nat i))"
      then obtain i where i: "i < 4" "(?s + int i) div 2 ^ (32 - b) = uint w div 2 ^ (32 - b)" using c by blast
      have "(?s + int i) div 2 ^ ?j = uint w div 2 ^ ?j" by (rule div_power_mono [OF _ i(2)]) simp
      then show "prefix_overlaps (subnet n) p" using ov near [OF i(1)] by simp
    next
      assume ovl: "prefix_overlaps (subnet n) p"
      show "\<exists>i < 4. prefix_contains p (A4 (raw_subnet n + word_of_nat i))"
      proof (cases "b \<le> 30")
        case True
        then show ?thesis using ovl ov c [of 0] by (intro exI [of _ 0]) simp
      next
        case False
        then have "?s div 4 = uint w div 4" using ovl ov by simp
        then have "uint w = ?s + uint w mod 4" by presburger
        then show ?thesis using c [of "nat (uint w mod 4)"] by (intro exI [of _ "nat (uint w mod 4)"]) simp
      qed
    qed
  qed
qed

section \<open>The selected network is free\<close>

definition covered :: "string list \<Rightarrow> nat \<Rightarrow> bool" where
  "covered routes n \<longleftrightarrow>
     (\<exists>dst \<in> set routes. \<exists>p. route_prefix dst = Some p \<and> (\<exists>i < 4. prefix_contains p (A4 (raw_subnet n + word_of_nat i))))"

lemma busy_iff: "n < 32768 \<Longrightarrow> busy routes n \<longleftrightarrow> covered routes n"
  unfolding busy_def covered_def list_ex_iff
  by (intro bex_cong refl) (simp add: overlaps_iff split: option.splits)

lemma allocate_scan_full: "allocate_scan routes left n = Inl e \<Longrightarrow> n \<le> k \<Longrightarrow> k < n + left \<Longrightarrow> busy routes k"
proof (induction routes left n rule: allocate_scan.induct)
  case (2 routes left n)
  then show ?case by (cases "k = n") (auto split: if_splits)
qed simp

lemma allocate_scan_free:
  "allocate_scan routes left n = Inr (g, a) \<Longrightarrow>
     \<exists>k. n \<le> k \<and> k < n + left \<and> g = A4 (raw_subnet k + 1) \<and> a = A4 (raw_subnet k + 2) \<and> \<not> busy routes k
       \<and> (\<forall>m. n \<le> m \<and> m < k \<longrightarrow> busy routes m)"
proof (induction routes left n rule: allocate_scan.induct)
  case (2 routes left n)
  show ?case
  proof (cases "busy routes n")
    case True
    then obtain k where k: "Suc n \<le> k" "k < Suc n + left" "g = A4 (raw_subnet k + 1)" "a = A4 (raw_subnet k + 2)" "\<not> busy routes k"
        "\<forall>m. Suc n \<le> m \<and> m < k \<longrightarrow> busy routes m" using 2 by auto
    have "busy routes m" if "n \<le> m" "m < k" for m using k(6) that True by (cases "m = n") simp_all
    then show ?thesis using k by (intro exI [of _ k]) simp
  next
    case False
    then show ?thesis using "2.prems" by (intro exI [of _ n]) (auto simp: subnet_def prefix_from_def add.assoc)
  qed
qed simp

text \<open>The network of a new allocation is the first free one. \<open>allocate\<close> returns the two usable addresses of the first
  of the 32768 /30 networks of 198.18.0.0/15 none of whose four addresses is covered by a route of the carrier other than
  a default route, and fails only when every one of them is covered.\<close>

theorem allocate_first_free:
  "case allocate (Inr routes) of
     Inl _ \<Rightarrow> \<forall>n < 32768. covered routes n
   | Inr (gateway, address) \<Rightarrow>
       \<exists>n < 32768. gateway = A4 (raw_subnet n + 1) \<and> address = A4 (raw_subnet n + 2)
         \<and> uint (raw_subnet n) = 198 * 2 ^ 24 + 18 * 2 ^ 16 + 4 * int n \<and> \<not> covered routes n \<and> (\<forall>m < n. covered routes m)"
proof -
  have a: "allocate (Inr routes) = allocate_scan routes 32768 0" by (simp only: allocate_def res_bind.simps)
  show ?thesis
  proof (cases "allocate (Inr routes)")
    case (Inl e)
    then show ?thesis using allocate_scan_full [OF Inl [unfolded a]] busy_iff by auto
  next
    case (Inr ga)
    obtain g b where ga: "ga = (g, b)" by force
    obtain k where k: "k < 32768" "g = A4 (raw_subnet k + 1)" "b = A4 (raw_subnet k + 2)" "\<not> busy routes k" "\<forall>m. m < k \<longrightarrow> busy routes m"
      using allocate_scan_free [OF Inr [unfolded a ga]] by auto
    have "\<forall>m < k. covered routes m" using k(1,5) busy_iff by (metis order.strict_trans)
    then show ?thesis using Inr ga k busy_iff uint_raw_subnet [OF k(1)] by (auto intro!: exI [of _ k])
  qed
qed

text \<open>A carrier that has a route to the first network gets the second.\<close>

lemma allocate_sample: "allocate (Inr [''default'', ''10.0.0.0/8'', ''198.18.0.0/30'']) = Inr (A4 3323068421, A4 3323068422)"
  by code_simp

theorem allocate_first_free_witness:
  "\<exists>n < 32768. A4 3323068421 = A4 (raw_subnet n + 1) \<and> \<not> covered [''default'', ''10.0.0.0/8'', ''198.18.0.0/30''] n
     \<and> (\<forall>m < n. covered [''default'', ''10.0.0.0/8'', ''198.18.0.0/30''] m)"
  using allocate_first_free [of "[''default'', ''10.0.0.0/8'', ''198.18.0.0/30'']"] unfolding allocate_sample by auto

end
