(* ===== verification/Store_Objects.thy ===== *)
theory Store_Objects
  imports Go_Net Go_Path Crash_IO
begin

text \<open>
  The object storage under the snapshot layouts (\<open>src/internal/bed/store/sync\<close>: \<open>objects.go\<close>, \<open>store.go\<close>) and the contract of a layout.

  A bucket is an association list from keys to objects with user metadata. \<open>Remote\<close> adds the answers to the coming requests: a
  request may succeed, be lost, or take effect and still report an error; with an empty list everything succeeds. JSON documents and chunk
  indexes are kept as values (\<open>body\<close>): a body that is not the expected document does not decode.

  Outside the sources are chunking, compression, archives and digests; they are the fields of a \<open>Codec\<close>. \<open>codec_ok\<close> has what the
  layouts rely on: chunks are pieces of the stream, what was compressed or archived can be read back, and digests are lower-case
  hexadecimal and do not collide.

  \<open>snapshot_layout\<close> is the contract of the interface \<open>Store\<close>: in every state that a \<open>Persist\<close> passes, the snapshot of the Bed is the
  complete old or the complete new one.
\<close>

section \<open>Buckets\<close>

record chunk_index =
  IX_Chunks :: "string list"
  IX_Length :: int

record packHead =
  PH_Snapshot :: string
  PH_Generation :: int
  PH_Bytes :: int

record packChunkRef =
  CR_ID :: string
  CR_Pack :: string
  CR_Offset :: int
  CR_Length :: int

text \<open>The index inside a manifest is a byte string; \<open>None\<close> when it does not decode.\<close>

record packManifest =
  PM_Index :: "chunk_index option"
  PM_Chunks :: "packChunkRef list"

record resticHead =
  RH_Ref :: string
  RH_Generation :: int
  RH_Bytes :: int

text \<open>An entry of a directory tree: its path relative to the Bed directory, what it is, and its mode bits.\<close>

datatype entry_kind = Folder | Regular string | Symlink string | Special

record tree_entry =
  TE_Path :: string
  TE_Kind :: entry_kind
  TE_Mode :: nat

datatype body = Bytes string | IndexBody chunk_index | HeadBody packHead | ManifestBody packManifest | ArchiveBody "tree_entry list" | ResticBody resticHead

record object =
  OB_Body :: body
  OB_Meta :: "(string \<times> string) list"

type_synonym objects = "(string \<times> object) list"

datatype answer = Done | Lost | Late

record Remote =
  RM_Objects :: objects
  RM_Answers :: "answer list"
  RM_Digested :: "body list"   \<comment> \<open>what was digested to name an object\<close>

datatype store_error = RequestFailed | NoSuchKey string | ErrConflict | DecodeFailed string | InvalidRoot string | Corrupt string
  | WalkFailed | Unsupported string | ErrAmbiguous | NoSnapshot | InspectFailed | DeleteFailed | NilStore
  | ResticExit nat | ResticUnavailable | ResticNoReference

type_synonym 'a remote_io = "(Remote, store_error, 'a) io"

definition next_answer :: "Remote \<Rightarrow> answer \<times> Remote" where
  "next_answer r = (case RM_Answers r of [] \<Rightarrow> (Done, r) | a # as \<Rightarrow> (a, r\<lparr>RM_Answers := as\<rparr>))"

definition obj_read :: "(objects \<Rightarrow> (store_error, 'a) result) \<Rightarrow> 'a remote_io" where
  "obj_read f r = (case next_answer r of (a, r1) \<Rightarrow> ([], if a = Done then f (RM_Objects r1) else Inl RequestFailed, r1))"

definition obj_write :: "(objects \<Rightarrow> objects) \<Rightarrow> unit remote_io" where
  "obj_write f r =
     (case next_answer r of
        (a, r1) \<Rightarrow>
          let r2 = r1\<lparr>RM_Objects := f (RM_Objects r1)\<rparr> in
          (case a of Done \<Rightarrow> ([r2], Inr (), r2) | Lost \<Rightarrow> ([], Inl RequestFailed, r1) | Late \<Rightarrow> ([r2], Inl RequestFailed, r2)))"

definition obj_head :: "string \<Rightarrow> object option remote_io" where
  "obj_head key = obj_read (\<lambda>objs. Inr (map_of objs key))"

definition obj_get :: "string \<Rightarrow> body remote_io" where
  "obj_get key = obj_read (\<lambda>objs. case map_of objs key of None \<Rightarrow> Inl (NoSuchKey key) | Some ob \<Rightarrow> Inr (OB_Body ob))"

definition obj_put :: "string \<Rightarrow> body \<Rightarrow> (string \<times> string) list \<Rightarrow> unit remote_io" where
  "obj_put key b meta = obj_write (al_put key \<lparr> OB_Body = b, OB_Meta = meta \<rparr>)"

text \<open>A deletion of many keys may stop anywhere.\<close>

definition obj_delete :: "string list \<Rightarrow> unit remote_io" where
  "obj_delete = io_each (\<lambda>key. obj_write (al_del key))"

definition obj_list :: "string \<Rightarrow> string list remote_io" where
  "obj_list pfx = obj_read (\<lambda>objs. Inr (filter (\<lambda>k. has_prefix k pfx) (keys objs)))"

definition meta_int :: "object \<Rightarrow> string \<Rightarrow> int option" where
  "meta_int ob name = (case map_of (OB_Meta ob) name of None \<Rightarrow> None | Some s \<Rightarrow> atoi s)"

definition generationMetaKey :: string where
  "generationMetaKey = ''generation''"

record SnapshotInfo =
  SI_Generation :: int
  SI_Bytes :: int

text \<open>Metadata that does not parse reads as 0.\<close>

definition snapshot_info :: "object \<Rightarrow> SnapshotInfo" where
  "snapshot_info ob =
     \<lparr> SI_Generation = (case meta_int ob generationMetaKey of None \<Rightarrow> 0 | Some g \<Rightarrow> g),
       SI_Bytes = (case meta_int ob ''bytes'' of None \<Rightarrow> 0 | Some n \<Rightarrow> n) \<rparr>"

text \<open>The guard at the start of every \<open>Persist\<close>: a snapshot at least as new is a conflict.\<close>

definition fence :: "object option \<Rightarrow> int \<Rightarrow> store_error option" where
  "fence prev generation =
     (case prev of
        None \<Rightarrow> None
      | Some ob \<Rightarrow> (case meta_int ob generationMetaKey of None \<Rightarrow> None | Some g \<Rightarrow> if generation \<le> g then Some ErrConflict else None))"

section \<open>Trees, chunks and digests\<close>

text \<open>A walk of a directory: the entries that it found, in order, and whether it then broke off with an error.\<close>

type_synonym walk = "tree_entry list \<times> bool"

abbreviation walked_whole :: "walk \<Rightarrow> bool" where
  "walked_whole w \<equiv> \<not> snd w"

record Codec =
  CD_catar :: "tree_entry list \<Rightarrow> string"
  CD_untar :: "string \<Rightarrow> tree_entry list option"
  CD_chunks :: "string \<Rightarrow> string list"         \<comment> \<open>the pieces of a stream\<close>
  CD_order :: "string list \<Rightarrow> string list"     \<comment> \<open>the order in which workers store them; repeats may be left out\<close>
  CD_probe :: bool                              \<comment> \<open>whether a worker asks \<open>HasChunk\<close> first\<close>
  CD_id :: "string \<Rightarrow> string"                 \<comment> \<open>the identifier of a chunk\<close>
  CD_storage :: "string \<Rightarrow> string"            \<comment> \<open>the stored form of a chunk\<close>
  CD_load :: "string \<Rightarrow> string option"
  CD_digest :: "body \<Rightarrow> string"               \<comment> \<open>\<open>objectID\<close>\<close>
  CD_size :: "body \<Rightarrow> int"                    \<comment> \<open>the size of an object\<close>
  CD_seen :: "string set"                       \<comment> \<open>the chunks that ever occur\<close>
  CD_bodies :: "body set"                       \<comment> \<open>the packs and manifests that are ever digested\<close>

definition hex_id :: "string \<Rightarrow> bool" where
  "hex_id s \<longleftrightarrow> length s = 64 \<and> list_all (\<lambda>c. is_digit c \<or> c \<in> set ''abcdef'') s"

text \<open>\<open>hex.DecodeString\<close> takes upper-case digits too.\<close>

definition validObjectID :: "string \<Rightarrow> bool" where
  "validObjectID s \<longleftrightarrow> length s = 64 \<and> list_all (\<lambda>c. is_digit c \<or> c \<in> set ''abcdefABCDEF'') s"

definition codec_ok :: "Codec \<Rightarrow> bool" where
  "codec_ok C \<longleftrightarrow>
     (\<forall>t. CD_untar C (CD_catar C t) = Some t)
     \<and> (\<forall>d. concat (CD_chunks C d) = d) \<and> (\<forall>cs. set (CD_order C cs) = set cs)
     \<and> (\<forall>c. CD_load C (CD_storage C c) = Some c) \<and> (\<forall>c. CD_storage C c \<noteq> [])
     \<and> (\<forall>c. hex_id (CD_id C c)) \<and> inj_on (CD_id C) (CD_seen C)
     \<and> (\<forall>b. hex_id (CD_digest C b)) \<and> inj_on (CD_digest C) (CD_bodies C)"

text \<open>\<open>desync.NewChunkFromStorage\<close> with verification, and the index of a stream.\<close>

definition load_chunk :: "Codec \<Rightarrow> string \<Rightarrow> string \<Rightarrow> (store_error, string) result" where
  "load_chunk C ident stored =
     (case CD_load C stored of
        None \<Rightarrow> Inl (Corrupt ident)
      | Some c \<Rightarrow> if CD_id C c = ident then Inr c else Inl (Corrupt ident))"

definition obj_digest :: "Codec \<Rightarrow> body \<Rightarrow> string remote_io" where
  "obj_digest C b r = (let r1 = r\<lparr>RM_Digested := b # RM_Digested r\<rparr> in ([r1], Inr (CD_digest C b), r1))"

text \<open>The digests that were computed do not collide.\<close>

definition digests_seen :: "Codec \<Rightarrow> Remote \<Rightarrow> bool" where
  "digests_seen C r \<longleftrightarrow> set (RM_Digested r) \<subseteq> CD_bodies C"

definition stream_index :: "Codec \<Rightarrow> string list \<Rightarrow> chunk_index" where
  "stream_index C cs = \<lparr> IX_Chunks = map (CD_id C) cs, IX_Length = int (length (concat cs)) \<rparr>"

text \<open>The metadata of a commit point.\<close>

definition commit_meta :: "int \<Rightarrow> chunk_index \<Rightarrow> (string \<times> string) list" where
  "commit_meta generation ix = [(generationMetaKey, itoa generation), (''bytes'', itoa (IX_Length ix))]"

lemma those_map_Some: "\<forall>x \<in> set xs. f x = Some (g x) \<Longrightarrow> those (map f xs) = Some (map g xs)"
  by (induction xs) auto

lemma codec_okD:
  assumes "codec_ok C"
  shows "CD_untar C (CD_catar C t) = Some t" and "concat (CD_chunks C d) = d" and "set (CD_order C cs) = set cs"
    and "CD_load C (CD_storage C c) = Some c" and "CD_storage C c \<noteq> []" and "hex_id (CD_id C c)"
    and "c \<in> CD_seen C \<Longrightarrow> c' \<in> CD_seen C \<Longrightarrow> CD_id C c = CD_id C c' \<longleftrightarrow> c = c'" and "hex_id (CD_digest C b)"
    and "b \<in> CD_bodies C \<Longrightarrow> b' \<in> CD_bodies C \<Longrightarrow> CD_digest C b = CD_digest C b' \<longleftrightarrow> b = b'"
  using assms by (auto simp: codec_ok_def inj_on_eq_iff)

lemma hex_id_plain: "hex_id s \<Longrightarrow> slash \<notin> set s \<and> s \<noteq> []"
  by (auto simp: hex_id_def list_all_iff is_digit_def)

lemma hex_id_valid: "hex_id s \<Longrightarrow> validObjectID s"
  by (auto simp: hex_id_def validObjectID_def list_all_iff)

lemma load_chunk_stored: "codec_ok C \<Longrightarrow> load_chunk C (CD_id C c) (CD_storage C c) = Inr c"
  by (simp add: load_chunk_def codec_okD)

lemma meta_int_commit: "0 \<le> g \<Longrightarrow> g \<le> max_int64 \<Longrightarrow> meta_int \<lparr> OB_Body = b, OB_Meta = commit_meta g ix \<rparr> generationMetaKey = Some g"
  by (simp add: meta_int_def commit_meta_def atoi_itoa)

section \<open>What a snapshot contains\<close>

definition pathWithin :: "string \<Rightarrow> string \<Rightarrow> bool" where
  "pathWithin candidate root \<longleftrightarrow> candidate = root \<or> has_prefix candidate (root @ ''/'')"

fun add_roots :: "string list \<Rightarrow> string list \<Rightarrow> (store_error, string list) result" where
  "add_roots acc [] = Inr acc"
| "add_roots acc (root # roots) =
     (if \<not> has_prefix root ''volumes/'' \<or> path_clean root \<noteq> root \<or> slash \<in> set (trim_prefix root ''volumes/'') \<or> root = ''volumes/''
      then Inl (InvalidRoot root)
      else if root \<in> set acc then Inl (InvalidRoot root)
      else add_roots (acc @ [root]) roots)"

text \<open>\<open>None\<close> is the nil slice.\<close>

definition newSnapshotFilter :: "string list option \<Rightarrow> (store_error, string list) result" where
  "newSnapshotFilter roots = add_roots [] (case roots of None \<Rightarrow> [''volumes/workspace''] | Some rs \<Rightarrow> rs)"

definition trim_slashes :: "string \<Rightarrow> string" where
  "trim_slashes s = rev (dropWhile (\<lambda>c. c = slash) (rev (dropWhile (\<lambda>c. c = slash) s)))"

definition filter_excluded :: "string list \<Rightarrow> string \<Rightarrow> bool" where
  "filter_excluded roots rel =
     (let rel = trim_slashes rel in
      \<not> (rel = ''.'' \<or> rel = ''meta.json'' \<or> (\<exists>root \<in> set roots. pathWithin rel root \<or> pathWithin root rel)))"

definition kept :: "string list \<Rightarrow> tree_entry list \<Rightarrow> tree_entry list" where
  "kept roots = filter (\<lambda>e. \<not> filter_excluded roots (TE_Path e))"

definition filter_roots :: "string list option \<Rightarrow> string list" where
  "filter_roots volumeRoots = (case newSnapshotFilter volumeRoots of Inl _ \<Rightarrow> [] | Inr roots \<Rightarrow> roots)"

section \<open>Requests and invariants of the bucket\<close>

lemma next_answer_objects: "next_answer r = (a, r1) \<Longrightarrow> RM_Objects r1 = RM_Objects r"
  by (auto simp: next_answer_def split: list.splits)

text \<open>
  Computations that only read: they leave the bucket alone, and fail at most because a request failed. Without failures, requests do what
  they say.
\<close>

definition obj_reads :: "objects \<Rightarrow> 'a remote_io \<Rightarrow> 'a \<Rightarrow> bool" where
  "obj_reads objs p x \<longleftrightarrow> (\<forall>r. RM_Objects r = objs \<longrightarrow> (case p r of (t, res, r') \<Rightarrow>
     t = [] \<and> RM_Objects r' = objs \<and> (RM_Answers r = [] \<longrightarrow> RM_Answers r' = []) \<and> (res = Inr x \<or> res = Inl RequestFailed \<and> RM_Answers r \<noteq> [])))"

lemma obj_readsD:
  "obj_reads (RM_Objects r) p x \<Longrightarrow> p r = (t, res, r') \<Longrightarrow>
     t = [] \<and> RM_Objects r' = RM_Objects r \<and> (RM_Answers r = [] \<longrightarrow> RM_Answers r' = []) \<and> (res = Inr x \<or> res = Inl RequestFailed \<and> RM_Answers r \<noteq> [])"
  by (fastforce simp: obj_reads_def)

lemma obj_reads_read: "f objs = Inr x \<Longrightarrow> obj_reads objs (obj_read f) x"
  by (auto simp: obj_reads_def obj_read_def next_answer_def split: list.splits)

lemma obj_reads_return: "obj_reads objs (io_return x) x"
  by (simp add: obj_reads_def io_return_def)

lemma obj_reads_get: "(\<And>r. f r = Inr x) \<Longrightarrow> obj_reads objs (io_get f) x"
  by (simp add: obj_reads_def io_get_def)

lemma obj_reads_bind:
  assumes p: "obj_reads objs p x" and q: "obj_reads objs (q x) y"
  shows "obj_reads objs (io_bind p q) y"
  unfolding obj_reads_def
proof (intro allI impI)
  fix r :: Remote assume r: "RM_Objects r = objs"
  obtain t res r1 where pr: "p r = (t, res, r1)" by (metis prod_cases3)
  note P = obj_readsD [OF p [folded r] pr]
  show "case io_bind p q r of (t, res, r') \<Rightarrow> t = [] \<and> RM_Objects r' = objs \<and> (RM_Answers r = [] \<longrightarrow> RM_Answers r' = [])
    \<and> (res = Inr y \<or> res = Inl RequestFailed \<and> RM_Answers r \<noteq> [])"
  proof (cases "res = Inr x")
    case True
    obtain t2 res2 r2 where qr: "q x r1 = (t2, res2, r2)" by (metis prod_cases3)
    have "obj_reads (RM_Objects r1) (q x) y" using q P r by simp
    from obj_readsD [OF this qr] P True pr qr r show ?thesis by (auto simp: io_bind_def)
  next
    case False
    then show ?thesis using P pr r by (auto simp: io_bind_def)
  qed
qed

lemma obj_reads_map: "(\<And>x. x \<in> set xs \<Longrightarrow> obj_reads objs (f x) (g x)) \<Longrightarrow> obj_reads objs (io_map f xs) (map g xs)"
proof (induction xs)
  case Nil
  show ?case by (simp add: obj_reads_return)
next
  case (Cons x xs)
  then show ?case by (auto intro!: obj_reads_bind obj_reads_return)
qed

text \<open>A guard that rejects what was read ends the computation there.\<close>

lemma obj_reads_reject:
  fixes r :: Remote
  assumes p: "obj_reads (RM_Objects r) p x" and err: "err x = Some e" and run: "io_bind p (\<lambda>x. io_bind (io_check (err x)) (q x)) r = (t, res, r')"
  shows "t = [] \<and> RM_Objects r' = RM_Objects r \<and> (\<nexists>u. res = Inr u)"
proof -
  obtain t1 res1 r1 where pr: "p r = (t1, res1, r1)" by (metis prod_cases3)
  from obj_readsD [OF p pr] pr err run show ?thesis by (auto simp: io_bind_def io_check_def)
qed

lemmas obj_reads_rules = obj_reads_bind obj_reads_read obj_reads_return

text \<open>
  The judgement about computations, as far as it is about the bucket. \<open>A\<close> is what may be assumed of the states that are passed: that
  the digests computed so far do not collide.
\<close>

definition obj_ok :: "(Remote \<Rightarrow> bool) \<Rightarrow> (objects \<Rightarrow> bool) \<Rightarrow> (objects \<Rightarrow> bool) \<Rightarrow> 'a remote_io \<Rightarrow> ('a \<Rightarrow> objects \<Rightarrow> bool) \<Rightarrow> bool" where
  "obj_ok A I P p Q \<longleftrightarrow> (\<forall>r t res r'. I (RM_Objects r) \<longrightarrow> P (RM_Objects r) \<longrightarrow> p r = (t, res, r') \<longrightarrow> (\<forall>x \<in> set t. A x) \<longrightarrow>
     (\<forall>x \<in> set t. I (RM_Objects x)) \<and> I (RM_Objects r') \<and> (\<forall>y. res = Inr y \<longrightarrow> Q y (RM_Objects r')))"

lemma obj_okD:
  assumes "obj_ok A I P p Q" and "I (RM_Objects r)" and "P (RM_Objects r)" and "p r = (t, res, r')" and "\<forall>x \<in> set t. A x"
  shows "\<forall>x \<in> set (r' # t). I (RM_Objects x)" and "res = Inr y \<Longrightarrow> Q y (RM_Objects r')"
  using assms(1) [unfolded obj_ok_def, rule_format, OF assms(2-4)] assms(5) by auto

lemma obj_ok_bind:
  assumes p: "obj_ok A I P p R" and q: "\<And>x. obj_ok A I (R x) (q x) Q"
  shows "obj_ok A I P (io_bind p q) Q"
  unfolding obj_ok_def
proof (intro allI impI)
  fix r :: Remote and t res r'
  assume r: "I (RM_Objects r)" "P (RM_Objects r)" and run: "io_bind p q r = (t, res, r')" and A: "\<forall>x \<in> set t. A x"
  obtain t1 res1 r1 where pr: "p r = (t1, res1, r1)" by (metis prod_cases3)
  show "(\<forall>x \<in> set t. I (RM_Objects x)) \<and> I (RM_Objects r') \<and> (\<forall>y. res = Inr y \<longrightarrow> Q y (RM_Objects r'))"
  proof (cases res1)
    case (Inl e)
    then have "t = t1" "r' = r1" "res = Inl e" using run pr by (simp_all add: io_bind_def)
    then show ?thesis using obj_okD [OF p r pr] A by simp
  next
    case (Inr x)
    obtain t2 res2 r2 where qr: "q x r1 = (t2, res2, r2)" by (metis prod_cases3)
    have e: "t = t1 @ t2" "res = res2" "r' = r2" using run pr qr Inr by (simp_all add: io_bind_def)
    have "\<forall>x \<in> set t1. A x" "\<forall>x \<in> set t2. A x" using A e(1) by auto
    with obj_okD(1) [OF p r pr] obj_okD(2) [OF p r pr _ Inr] obj_okD [OF q _ _ qr] e show ?thesis by auto
  qed
qed

lemma obj_ok_return: "(\<And>objs. I objs \<Longrightarrow> P objs \<Longrightarrow> Q x objs) \<Longrightarrow> obj_ok A I P (io_return x) Q"
  by (simp add: obj_ok_def io_return_def)

lemma obj_ok_get: "(\<And>r x objs. f r = Inr x \<Longrightarrow> I objs \<Longrightarrow> P objs \<Longrightarrow> Q x objs) \<Longrightarrow> obj_ok A I P (io_get f) Q"
  by (simp add: obj_ok_def io_get_def)

lemma obj_ok_fail: "obj_ok A I P (io_fail e) Q"
  by (simp add: obj_ok_def io_fail_def)

text \<open>After a check that passed, its condition is known.\<close>

lemma obj_ok_check: "(\<And>objs. I objs \<Longrightarrow> P objs \<Longrightarrow> err = None \<Longrightarrow> Q () objs) \<Longrightarrow> obj_ok A I P (io_check err) Q"
  by (auto simp: obj_ok_def io_check_def split: option.splits)

lemma obj_ok_read: "(\<And>objs x. I objs \<Longrightarrow> P objs \<Longrightarrow> f objs = Inr x \<Longrightarrow> Q x objs) \<Longrightarrow> obj_ok A I P (obj_read f) Q"
  by (auto simp: obj_ok_def obj_read_def dest!: next_answer_objects split: prod.splits if_splits)

lemma obj_ok_write:
  assumes "\<And>objs. I objs \<Longrightarrow> P objs \<Longrightarrow> I (f objs) \<and> Q () (f objs)"
  shows "obj_ok A I P (obj_write f) Q"
  unfolding obj_ok_def
proof (intro allI impI)
  fix r :: Remote and t res r'
  assume r: "I (RM_Objects r)" "P (RM_Objects r)" and run: "obj_write f r = (t, res, r')" and A: "\<forall>x \<in> set t. A x"
  obtain a r1 where a: "next_answer r = (a, r1)" by fastforce
  then show "(\<forall>x \<in> set t. I (RM_Objects x)) \<and> I (RM_Objects r') \<and> (\<forall>y. res = Inr y \<longrightarrow> Q y (RM_Objects r'))"
    using run A r assms [OF r] next_answer_objects [OF a] by (cases a) (auto simp: obj_write_def Let_def)
qed

text \<open>What is digested is among the bodies that do not collide.\<close>

lemma obj_ok_digest:
  assumes "\<And>objs. I objs \<Longrightarrow> P objs \<Longrightarrow> b \<in> CD_bodies C \<Longrightarrow> Q (CD_digest C b) objs"
  shows "obj_ok (digests_seen C) I P (obj_digest C b) Q"
  using assms by (auto simp: obj_ok_def obj_digest_def Let_def digests_seen_def)

lemma obj_ok_fold: "(\<And>ys x a. x \<in> set xs \<Longrightarrow> obj_ok A I (R ys a) (f a x) (R (ys @ [x]))) \<Longrightarrow> obj_ok A I (R ys a) (io_fold f a xs) (R (ys @ xs))"
proof (induction xs arbitrary: ys a)
  case Nil
  show ?case by (simp add: obj_ok_return)
next
  case (Cons x xs)
  have step: "obj_ok A I (R ys a) (f a x) (R (ys @ [x]))" by (rule Cons.prems) simp
  have "obj_ok A I (R (ys @ [x]) a') (io_fold f a' xs) (R ((ys @ [x]) @ xs))" for a' by (rule Cons.IH) (rule Cons.prems, simp)
  then have "obj_ok A I (R ys a) (io_bind (f a x) (\<lambda>a'. io_fold f a' xs)) (R ((ys @ [x]) @ xs))" by (rule obj_ok_bind [OF step])
  then show ?case by simp
qed

lemma obj_ok_each_keep: "(\<And>x. x \<in> set xs \<Longrightarrow> obj_ok A I P (f x) (\<lambda>_. P)) \<Longrightarrow> obj_ok A I P (io_each f xs) (\<lambda>_. P)"
proof (induction xs)
  case Nil
  show ?case by (simp add: obj_ok_return)
next
  case (Cons x xs)
  have "obj_ok A I P (f x) (\<lambda>_. P)" "obj_ok A I P (io_each f xs) (\<lambda>_. P)" using Cons by simp_all
  then show ?case using obj_ok_bind [where R = "\<lambda>_. P"] by fastforce
qed

lemma obj_ok_strengthen:
  assumes p: "obj_ok A I P p Q" and "\<And>objs. I objs \<Longrightarrow> P' objs \<Longrightarrow> P objs"
  shows "obj_ok A I P' p Q"
  unfolding obj_ok_def
proof (intro allI impI)
  fix r :: Remote and t res r'
  assume r: "I (RM_Objects r)" "P' (RM_Objects r)" and run: "p r = (t, res, r')" and A: "\<forall>x \<in> set t. A x"
  show "(\<forall>x \<in> set t. I (RM_Objects x)) \<and> I (RM_Objects r') \<and> (\<forall>y. res = Inr y \<longrightarrow> Q y (RM_Objects r'))"
    using obj_okD [OF p r(1) assms(2) [OF r] run A] by auto
qed

lemma obj_ok_weaken: "obj_ok A I P p Q \<Longrightarrow> (\<And>x objs. I objs \<Longrightarrow> Q x objs \<Longrightarrow> Q' x objs) \<Longrightarrow> obj_ok A I P p Q'"
  using obj_ok_bind [where p = p and q = io_return] by (simp add: io_bind_return obj_ok_return)

lemma obj_ok_assume: "(H \<Longrightarrow> obj_ok A I (\<lambda>_. True) p Q) \<Longrightarrow> obj_ok A I (\<lambda>_. H) p Q"
  by (cases H) (simp, simp (no_asm_simp) add: obj_ok_def)

text \<open>What every state of an ignored computation satisfies holds after it.\<close>

lemma obj_ok_try:
  assumes "obj_ok A (\<lambda>objs. I objs \<and> Q objs) (\<lambda>_. True) p (\<lambda>_ _. True)"
  shows "obj_ok A I Q (io_try p) (\<lambda>_. Q)"
  unfolding obj_ok_def
proof (intro allI impI)
  fix s :: Remote and t res s'
  assume s: "I (RM_Objects s)" "Q (RM_Objects s)" and "io_try p s = (t, res, s')" and A: "\<forall>x \<in> set t. A x"
  then obtain res' where p: "p s = (t, res', s')" and r: "res = Inr ()" by (auto simp: io_try_def split: prod.splits)
  show "(\<forall>x \<in> set t. I (RM_Objects x)) \<and> I (RM_Objects s') \<and> (\<forall>y. res = Inr y \<longrightarrow> Q (RM_Objects s'))"
    using obj_okD(1) [OF assms _ _ p A] s by simp
qed

section \<open>The contract of a layout\<close>

text \<open>
  Attempts to persist, each of which may be cut off in any state that it passes. The answers of the storage may differ from attempt to attempt.
  \<open>fits\<close> and \<open>seen\<close> restrict the walks and the states to those whose digests do not collide.
\<close>

inductive attempts :: "(int \<Rightarrow> 'w \<Rightarrow> unit remote_io) \<Rightarrow> ('w \<Rightarrow> bool) \<Rightarrow> (Remote \<Rightarrow> bool) \<Rightarrow> objects \<Rightarrow> (int \<times> 'w) list \<Rightarrow> objects \<Rightarrow> bool"
  for persist fits seen where
  no_attempt: "attempts persist fits seen objs [] objs"
| attempt: "attempts persist fits seen objs ps (RM_Objects r) \<Longrightarrow> persist g w r = (t, res, r') \<Longrightarrow> x \<in> set (r # t) \<Longrightarrow> 0 \<le> g \<Longrightarrow> g \<le> max_int64
     \<Longrightarrow> fits w \<Longrightarrow> \<forall>y \<in> set t. seen y \<Longrightarrow> attempts persist fits seen objs ((g, w) # ps) (RM_Objects x)"

locale snapshot_layout =
  fixes ok :: "objects \<Rightarrow> bool" and snap :: "objects \<Rightarrow> (int \<times> tree_entry list) option" and content :: "'w \<Rightarrow> tree_entry list" and complete :: "'w \<Rightarrow> bool"
    and fits :: "'w \<Rightarrow> bool" and seen :: "Remote \<Rightarrow> bool"
    and persist :: "int \<Rightarrow> 'w \<Rightarrow> unit remote_io" and restore :: "tree_entry list remote_io"
  assumes persist_atomic: "ok (RM_Objects r) \<Longrightarrow> 0 \<le> g \<Longrightarrow> g \<le> max_int64 \<Longrightarrow> fits w \<Longrightarrow> persist g w r = (t, res, r')
      \<Longrightarrow> \<forall>y \<in> set t. seen y \<Longrightarrow> x \<in> set (r # r' # t)
      \<Longrightarrow> ok (RM_Objects x) \<and> (snap (RM_Objects x) = snap (RM_Objects r) \<or> complete w \<and> snap (RM_Objects x) = Some (g, content w))"
    and persist_commits: "ok (RM_Objects r) \<Longrightarrow> 0 \<le> g \<Longrightarrow> g \<le> max_int64 \<Longrightarrow> fits w \<Longrightarrow> persist g w r = (t, Inr u, r')
      \<Longrightarrow> \<forall>y \<in> set t. seen y \<Longrightarrow> complete w \<and> snap (RM_Objects r') = Some (g, content w)"
    and persist_fenced: "ok (RM_Objects r) \<Longrightarrow> snap (RM_Objects r) = Some (g', d') \<Longrightarrow> g \<le> g' \<Longrightarrow> persist g w r = (t, res, r')
      \<Longrightarrow> t = [] \<and> RM_Objects r' = RM_Objects r \<and> (\<nexists>u. res = Inr u)"
    and restore_exact: "ok (RM_Objects r) \<Longrightarrow> snap (RM_Objects r) = Some (g, d) \<Longrightarrow> restore r = (t, out, r')
      \<Longrightarrow> (\<forall>x \<in> set (r' # t). ok (RM_Objects x) \<and> snap (RM_Objects x) = Some (g, d)) \<and> (out = Inr d \<or> out = Inl RequestFailed \<and> RM_Answers r \<noteq> [])"
begin

text \<open>However many attempts were cut off, the snapshot is one that some attempt wrote completely, and generations never go back.\<close>

lemma attempts_atomic:
  assumes "attempts persist fits seen objs ps objs'" and "ok objs"
  shows "ok objs' \<and> (snap objs' = snap objs \<or> (\<exists>(g, w) \<in> set ps. complete w \<and> snap objs' = Some (g, content w)))
    \<and> (\<forall>g d. snap objs = Some (g, d) \<longrightarrow> (\<exists>g' d'. snap objs' = Some (g', d') \<and> g \<le> g'))"
  using assms
proof (induction rule: attempts.induct)
  case (no_attempt objs)
  then show ?case by auto
next
  case (attempt objs ps r g w t res r' x)
  then have IH: "ok (RM_Objects r)" "snap (RM_Objects r) = snap objs \<or> (\<exists>(g, w) \<in> set ps. complete w \<and> snap (RM_Objects r) = Some (g, content w))"
    "\<And>g d. snap objs = Some (g, d) \<Longrightarrow> \<exists>g' d'. snap (RM_Objects r) = Some (g', d') \<and> g \<le> g'" by auto
  have x: "x \<in> set (r # r' # t)" using attempt.hyps(3) by auto
  note at = persist_atomic [OF IH(1) attempt.hyps(4,5,6,2,7) x]
  have mono: "\<exists>g'' d''. snap (RM_Objects x) = Some (g'', d'') \<and> g' \<le> g''" if "snap (RM_Objects r) = Some (g', d')" for g' d'
  proof (cases "g \<le> g'")
    case True
    then have "snap (RM_Objects x) = Some (g', d')"
      using persist_fenced [OF IH(1) that True attempt.hyps(2)] attempt.hyps(3) that by auto
    then show ?thesis by simp
  next
    case False
    then show ?thesis using at that by auto
  qed
  have "\<exists>g'' d''. snap (RM_Objects x) = Some (g'', d'') \<and> a \<le> g''" if "snap objs = Some (a, b)" for a b
    using IH(3) [OF that] mono by (metis order_trans)
  then show ?case using at IH(2) by auto
qed

text \<open>A snapshot that was persisted without an error and not overwritten is what a restore gives back.\<close>

lemma persist_restore:
  assumes "ok (RM_Objects r)" and "0 \<le> g" and "g \<le> max_int64" and "fits w" and "persist g w r = (t, Inr u, r')"
    and "\<forall>y \<in> set t. seen y"
  shows "fst (snd (restore \<lparr> RM_Objects = RM_Objects r', RM_Answers = [], RM_Digested = [] \<rparr>)) = Inr (content w)"
proof -
  let ?r = "\<lparr> RM_Objects = RM_Objects r', RM_Answers = [], RM_Digested = [] \<rparr>"
  have ok: "ok (RM_Objects r')" using persist_atomic [OF assms, of r'] by simp
  obtain t1 res1 r1 where e: "restore ?r = (t1, res1, r1)" by (metis prod_cases3)
  have "res1 = Inr (content w)" using restore_exact [of ?r, OF _ _ e] ok persist_commits [OF assms] by simp
  then show ?thesis using e by simp
qed

end

section \<open>A codec\<close>

text \<open>An instance of the parameters: trees are written out, a stream is one chunk, and digests only distinguish kinds of objects.\<close>

definition enc_str :: "string \<Rightarrow> string" where
  "enc_str s = concat (map (\<lambda>c. [CHR ''+'', c]) s) @ ''.''"

fun dec_str :: "string \<Rightarrow> (string \<times> string) option" where
  "dec_str (x # c # xs) = (if x = CHR ''.'' then Some ([], c # xs) else map_option (\<lambda>(s, rest). (c # s, rest)) (dec_str xs))"
| "dec_str [x] = (if x = CHR ''.'' then Some ([], []) else None)"
| "dec_str [] = None"

definition enc_entry :: "tree_entry \<Rightarrow> string" where
  "enc_entry e = (case TE_Kind e of Folder \<Rightarrow> ''d'' @ enc_str [] | Regular s \<Rightarrow> ''f'' @ enc_str s | Symlink s \<Rightarrow> ''l'' @ enc_str s | Special \<Rightarrow> ''s'' @ enc_str [])
     @ enc_str (TE_Path e) @ enc_str (replicate (TE_Mode e) (CHR ''+''))"

definition dec_kind :: "char \<Rightarrow> string \<Rightarrow> entry_kind" where
  "dec_kind k s = (if k = CHR ''d'' then Folder else if k = CHR ''f'' then Regular s else if k = CHR ''l'' then Symlink s else Special)"

fun dec_tree :: "nat \<Rightarrow> string \<Rightarrow> tree_entry list option" where
  "dec_tree n [] = Some []"
| "dec_tree 0 (k # xs) = None"
| "dec_tree (Suc n) (k # xs) =
     (case dec_str xs of
        None \<Rightarrow> None
      | Some (s, xs1) \<Rightarrow>
          (case dec_str xs1 of
             None \<Rightarrow> None
           | Some (p, xs2) \<Rightarrow>
               (case dec_str xs2 of
                  None \<Rightarrow> None
                | Some (m, xs3) \<Rightarrow> map_option (\<lambda>es. \<lparr> TE_Path = p, TE_Kind = dec_kind k s, TE_Mode = length m \<rparr> # es) (dec_tree n xs3))))"

definition sample_codec :: "string set \<Rightarrow> body set \<Rightarrow> Codec" where
  "sample_codec seen bodies = \<lparr>
     CD_catar = \<lambda>t. concat (map enc_entry t), CD_untar = \<lambda>s. dec_tree (length s) s,
     CD_chunks = \<lambda>d. [d], CD_order = \<lambda>cs. cs, CD_probe = True,
     CD_id = \<lambda>c. replicate 64 (CHR ''a''), CD_storage = \<lambda>c. CHR ''z'' # c, CD_load = \<lambda>s. case s of [] \<Rightarrow> None | _ # c \<Rightarrow> Some c,
     CD_digest = \<lambda>b. replicate 64 (case b of Bytes _ \<Rightarrow> CHR ''1'' | ManifestBody _ \<Rightarrow> CHR ''2'' | _ \<Rightarrow> CHR ''3''),
     CD_size = \<lambda>b. 0, CD_seen = seen, CD_bodies = bodies \<rparr>"

lemma dec_enc_str [simp]: "dec_str (enc_str s @ rest) = Some (s, rest)"
  by (induction s) (cases rest; simp add: enc_str_def)+

lemma enc_entry_shape: "\<exists>k s. enc_entry e = k # enc_str s @ enc_str (TE_Path e) @ enc_str (replicate (TE_Mode e) (CHR ''+'')) \<and> dec_kind k s = TE_Kind e"
  by (cases "TE_Kind e") (auto simp: enc_entry_def dec_kind_def)

lemma dec_enc_tree: "length t \<le> n \<Longrightarrow> dec_tree n (concat (map enc_entry t)) = Some t"
proof (induction t arbitrary: n)
  case Nil
  show ?case by (cases n) simp_all
next
  case (Cons e t)
  obtain n' where n: "n = Suc n'" using Cons.prems by (cases n) auto
  obtain k s where e: "enc_entry e = k # enc_str s @ enc_str (TE_Path e) @ enc_str (replicate (TE_Mode e) (CHR ''+''))" "dec_kind k s = TE_Kind e"
    using enc_entry_shape by blast
  show ?case using Cons n e(1) by (simp add: e(2))
qed

lemma sample_codec_ok:
  assumes "\<forall>x y. x \<in> seen \<longrightarrow> y \<in> seen \<longrightarrow> x = y" and "inj_on (CD_digest (sample_codec seen bodies)) bodies"
  shows "codec_ok (sample_codec seen bodies)"
proof -
  have "length t \<le> length (concat (map enc_entry t))" for t
  proof (induction t)
    case (Cons e t)
    have "enc_entry e \<noteq> []" using enc_entry_shape [of e] by auto
    then show ?case using Cons by (cases "enc_entry e") simp_all
  qed simp
  then have t: "dec_tree (length (concat (map enc_entry t))) (concat (map enc_entry t)) = Some t" for t by (rule dec_enc_tree)
  have hex: "hex_id (replicate 64 x)" if "is_digit x \<or> x = CHR ''a''" for x using that by (auto simp: hex_id_def list_all_iff)
  have kinds: "is_digit (case b of Bytes _ \<Rightarrow> CHR ''1'' | ManifestBody _ \<Rightarrow> CHR ''2'' | _ \<Rightarrow> CHR ''3'')" for b
    by (cases b) (simp_all add: is_digit_def)
  show ?thesis
    unfolding codec_ok_def
  proof (intro conjI allI)
    show "inj_on (CD_id (sample_codec seen bodies)) (CD_seen (sample_codec seen bodies))"
      using assms(1) by (simp add: sample_codec_def inj_on_def)
    show "inj_on (CD_digest (sample_codec seen bodies)) (CD_bodies (sample_codec seen bodies))"
      using assms(2) by (simp add: sample_codec_def)
    show "hex_id (CD_id (sample_codec seen bodies) c)" for c using hex by (simp add: sample_codec_def)
    show "hex_id (CD_digest (sample_codec seen bodies) b)" for b using hex kinds by (simp add: sample_codec_def)
  qed (simp_all add: sample_codec_def t)
qed

end
