(* ===== verification/Store_Cas.thy ===== *)
theory Store_Cas
  imports Store_Objects
begin

text \<open>
  The content-addressed layout (\<open>src/internal/bed/store/sync/cas.go\<close>): every chunk of the stream is an object of its own, and the index object is
  the commit point. \<open>Persist\<close> skips the chunks that the previous index names, stores the others, puts the index and then deletes what the
  new index does not name. The layout is an interpretation of \<open>snapshot_layout\<close>.
\<close>

section \<open>Keys\<close>

definition cas_bedPrefix :: "string \<Rightarrow> string \<Rightarrow> string" where
  "cas_bedPrefix pfx bedID = path_join [pfx, bedID]"

definition cas_indexKey :: "string \<Rightarrow> string \<Rightarrow> string" where
  "cas_indexKey pfx bedID = path_join [cas_bedPrefix pfx bedID, ''index.caibx'']"

definition cas_chunkPrefix :: "string \<Rightarrow> string \<Rightarrow> string" where
  "cas_chunkPrefix pfx bedID = path_join [cas_bedPrefix pfx bedID, ''chunks''] @ ''/''"

section \<open>Chunks\<close>

definition cas_HasChunk :: "string \<Rightarrow> string list \<Rightarrow> string \<Rightarrow> bool remote_io" where
  "cas_HasChunk cp known ident =
     (if ident \<in> set known then io_return True else io_bind (obj_head (cp @ ident)) (\<lambda>ob. io_return (ob \<noteq> None)))"

definition cas_StoreChunk :: "Codec \<Rightarrow> string \<Rightarrow> string list \<Rightarrow> string \<Rightarrow> string list remote_io" where
  "cas_StoreChunk C cp known c =
     (if CD_id C c \<in> set known then io_return known
      else io_bind (obj_put (cp @ CD_id C c) (Bytes (CD_storage C c)) []) (\<lambda>_. io_return (CD_id C c # known)))"

definition cas_worker :: "Codec \<Rightarrow> string \<Rightarrow> string list \<Rightarrow> string \<Rightarrow> string list remote_io" where
  "cas_worker C cp known c =
     (if CD_probe C
      then io_bind (cas_HasChunk cp known (CD_id C c)) (\<lambda>has. if has then io_return known else cas_StoreChunk C cp known c)
      else cas_StoreChunk C cp known c)"

definition cas_GetChunk :: "Codec \<Rightarrow> string \<Rightarrow> string \<Rightarrow> string remote_io" where
  "cas_GetChunk C cp ident =
     io_bind (obj_get (cp @ ident)) (\<lambda>b. io_get (\<lambda>_. case b of Bytes d \<Rightarrow> load_chunk C ident d | _ \<Rightarrow> Inl (Corrupt ident)))"

section \<open>Operations\<close>

definition cas_loadIndex :: "string \<Rightarrow> string \<Rightarrow> chunk_index remote_io" where
  "cas_loadIndex pfx bedID =
     io_bind (obj_get (cas_indexKey pfx bedID)) (\<lambda>b. case b of IndexBody ix \<Rightarrow> io_return ix | _ \<Rightarrow> io_fail (DecodeFailed bedID))"

definition sameChunks :: "chunk_index \<Rightarrow> chunk_index \<Rightarrow> bool" where
  "sameChunks a b \<longleftrightarrow> IX_Chunks a = IX_Chunks b"

definition cas_Stat :: "string \<Rightarrow> string \<Rightarrow> SnapshotInfo option remote_io" where
  "cas_Stat pfx bedID = io_bind (obj_head (cas_indexKey pfx bedID)) (\<lambda>ob. io_return (map_option snapshot_info ob))"

definition cas_previous :: "string \<Rightarrow> string \<Rightarrow> object option \<Rightarrow> chunk_index option remote_io" where
  "cas_previous pfx bedID prev =
     (case prev of None \<Rightarrow> io_return None | Some _ \<Rightarrow> io_bind (cas_loadIndex pfx bedID) (\<lambda>ix. io_return (Some ix)))"

definition cas_gc :: "string \<Rightarrow> chunk_index \<Rightarrow> unit remote_io" where
  "cas_gc cp ix =
     io_try (io_bind (obj_list cp) (\<lambda>listed. obj_delete (filter (\<lambda>key. path_base key \<notin> set (IX_Chunks ix)) listed)))"

definition cas_chunks :: "Codec \<Rightarrow> string list \<Rightarrow> walk \<Rightarrow> string list" where
  "cas_chunks C roots w = CD_chunks C (CD_catar C (kept roots (fst w)))"

definition cas_known :: "chunk_index option \<Rightarrow> string list" where
  "cas_known prevIx = (case prevIx of None \<Rightarrow> [] | Some ix \<Rightarrow> IX_Chunks ix)"

definition cas_commit :: "string \<Rightarrow> string \<Rightarrow> int \<Rightarrow> chunk_index option \<Rightarrow> chunk_index \<Rightarrow> unit remote_io" where
  "cas_commit pfx bedID generation prevIx ix =
     io_bind (obj_put (cas_indexKey pfx bedID) (IndexBody ix) (commit_meta generation ix)) (\<lambda>_.
       if (case prevIx of None \<Rightarrow> False | Some p \<Rightarrow> sameChunks ix p) then io_return ()
       else cas_gc (cas_chunkPrefix pfx bedID) ix)"

definition cas_Persist :: "Codec \<Rightarrow> string \<Rightarrow> string \<Rightarrow> string list option \<Rightarrow> int \<Rightarrow> walk \<Rightarrow> unit remote_io" where
  "cas_Persist C pfx bedID volumeRoots generation w =
     (case newSnapshotFilter volumeRoots of
        Inl e \<Rightarrow> io_fail e
      | Inr roots \<Rightarrow>
          io_bind (obj_head (cas_indexKey pfx bedID)) (\<lambda>prev.
          io_bind (io_check (fence prev generation)) (\<lambda>_.
          io_bind (cas_previous pfx bedID prev) (\<lambda>prevIx.
          io_bind (io_fold (cas_worker C (cas_chunkPrefix pfx bedID)) (cas_known prevIx) (CD_order C (cas_chunks C roots w))) (\<lambda>_.
          io_bind (io_check (if snd w then Some WalkFailed else None)) (\<lambda>_.
          cas_commit pfx bedID generation prevIx (stream_index C (cas_chunks C roots w))))))))"

definition cas_Restore :: "Codec \<Rightarrow> string \<Rightarrow> string \<Rightarrow> tree_entry list remote_io" where
  "cas_Restore C pfx bedID =
     io_bind (cas_loadIndex pfx bedID) (\<lambda>ix.
     io_bind (io_map (cas_GetChunk C (cas_chunkPrefix pfx bedID)) (IX_Chunks ix)) (\<lambda>cs.
       case CD_untar C (concat cs) of None \<Rightarrow> io_fail (Corrupt bedID) | Some t \<Rightarrow> io_return t))"

definition cas_Delete :: "string \<Rightarrow> string \<Rightarrow> unit remote_io" where
  "cas_Delete pfx bedID =
     io_bind (obj_list (cas_chunkPrefix pfx bedID)) (\<lambda>ks. obj_delete (ks @ [cas_indexKey pfx bedID]))"

section \<open>The snapshot that a bucket holds\<close>

definition cas_chunk :: "Codec \<Rightarrow> string \<Rightarrow> objects \<Rightarrow> string \<Rightarrow> string option" where
  "cas_chunk C cp objs ident =
     (case map_of objs (cp @ ident) of
        Some ob \<Rightarrow> (case OB_Body ob of Bytes d \<Rightarrow> (case load_chunk C ident d of Inr c \<Rightarrow> Some c | Inl _ \<Rightarrow> None) | _ \<Rightarrow> None)
      | None \<Rightarrow> None)"

definition cas_snap :: "Codec \<Rightarrow> string \<Rightarrow> string \<Rightarrow> objects \<Rightarrow> (int \<times> tree_entry list) option" where
  "cas_snap C pfx bedID objs =
     (case map_of objs (cas_indexKey pfx bedID) of
        Some ob \<Rightarrow>
          (case OB_Body ob of
             IndexBody ix \<Rightarrow>
               (case (meta_int ob generationMetaKey, those (map (cas_chunk C (cas_chunkPrefix pfx bedID) objs) (IX_Chunks ix))) of
                  (Some g, Some cs) \<Rightarrow> map_option (\<lambda>t. (g, t)) (CD_untar C (concat cs))
                | _ \<Rightarrow> None)
           | _ \<Rightarrow> None)
      | None \<Rightarrow> None)"

definition cas_indexed :: "Codec \<Rightarrow> string \<Rightarrow> string \<Rightarrow> objects \<Rightarrow> int \<Rightarrow> string list \<Rightarrow> tree_entry list \<Rightarrow> bool" where
  "cas_indexed C pfx bedID objs g cs t \<longleftrightarrow>
     (\<exists>ob. map_of objs (cas_indexKey pfx bedID) = Some ob \<and> OB_Body ob = IndexBody (stream_index C cs)
       \<and> meta_int ob generationMetaKey = Some g) \<and> concat cs = CD_catar C t \<and> set cs \<subseteq> CD_seen C
     \<and> (\<forall>c \<in> set cs. map_of objs (cas_chunkPrefix pfx bedID @ CD_id C c) \<noteq> None)"

definition cas_good :: "Codec \<Rightarrow> string \<Rightarrow> objects \<Rightarrow> bool" where
  "cas_good C cp objs \<longleftrightarrow> (\<forall>c \<in> CD_seen C. \<forall>ob. map_of objs (cp @ CD_id C c) = Some ob \<longrightarrow> OB_Body ob = Bytes (CD_storage C c))"

text \<open>The invariant: chunk objects hold what their names say, and an index only names chunks that are there.\<close>

definition cas_ok :: "Codec \<Rightarrow> string \<Rightarrow> string \<Rightarrow> objects \<Rightarrow> bool" where
  "cas_ok C pfx bedID objs \<longleftrightarrow> cas_good C (cas_chunkPrefix pfx bedID) objs
     \<and> (map_of objs (cas_indexKey pfx bedID) = None \<or> (\<exists>g cs t. cas_indexed C pfx bedID objs g cs t))"

lemma cas_keys: "\<exists>K. cas_indexKey pfx bedID = K @ ''index.caibx'' \<and> cas_chunkPrefix pfx bedID = K @ ''chunks/''"
proof -
  obtain K where K: "\<And>c. plain_component c \<Longrightarrow> path_join [cas_bedPrefix pfx bedID, c] = K @ c" using join_child by blast
  have "plain_component ''index.caibx''" "plain_component ''chunks''" by (simp_all add: plain_component_def)
  then show ?thesis using K by (auto simp: cas_indexKey_def cas_chunkPrefix_def)
qed

lemma cas_index_not_chunk [simp]: "cas_indexKey pfx bedID \<noteq> cas_chunkPrefix pfx bedID @ s" "cas_chunkPrefix pfx bedID @ s \<noteq> cas_indexKey pfx bedID"
  using cas_keys [of pfx bedID] by auto

lemma cas_index_not_listed: "\<not> has_prefix (cas_indexKey pfx bedID) (cas_chunkPrefix pfx bedID)"
  by (auto simp: has_prefix_iff)

lemma cas_base: "codec_ok C \<Longrightarrow> path_base (cas_chunkPrefix pfx bedID @ CD_id C c) = CD_id C c"
  using path_base_child [of "CD_id C c"] hex_id_plain [OF codec_okD(6)] by (simp add: cas_chunkPrefix_def)

lemma cas_chunk_good:
  assumes "codec_ok C" and "cas_good C cp objs" and "map_of objs (cp @ CD_id C c) \<noteq> None" and "c \<in> CD_seen C"
  shows "cas_chunk C cp objs (CD_id C c) = Some c"
  using assms by (auto simp: cas_chunk_def cas_good_def load_chunk_stored)

lemma cas_snap_indexed:
  assumes C: "codec_ok C" and good: "cas_good C (cas_chunkPrefix pfx bedID) objs" and ix: "cas_indexed C pfx bedID objs g cs t"
  shows "cas_snap C pfx bedID objs = Some (g, t)"
proof -
  have "\<forall>c \<in> set cs. cas_chunk C (cas_chunkPrefix pfx bedID) objs (CD_id C c) = Some c"
    using ix cas_chunk_good [OF C good] by (auto simp: cas_indexed_def)
  then have "those (map (cas_chunk C (cas_chunkPrefix pfx bedID) objs) (map (CD_id C) cs)) = Some cs"
    using those_map_Some [of cs "cas_chunk C (cas_chunkPrefix pfx bedID) objs \<circ> CD_id C" "\<lambda>c. c"] by simp
  then show ?thesis using ix codec_okD(1) [OF C] by (auto simp: cas_snap_def cas_indexed_def stream_index_def)
qed

lemma cas_ok_snap:
  assumes "codec_ok C" and "cas_ok C pfx bedID objs" and "cas_snap C pfx bedID objs = Some (g, t)"
  shows "\<exists>cs. cas_indexed C pfx bedID objs g cs t"
proof -
  have "map_of objs (cas_indexKey pfx bedID) \<noteq> None" using assms(3) by (auto simp: cas_snap_def split: option.splits)
  then obtain g' cs t' where ix: "cas_indexed C pfx bedID objs g' cs t'" using assms(2) by (auto simp: cas_ok_def)
  then show ?thesis using cas_snap_indexed [OF assms(1) _ ix] assms(2,3) by (auto simp: cas_ok_def)
qed

text \<open>Changes that leave the index and its chunks alone change neither the invariant nor the snapshot.\<close>

lemma cas_frame:
  assumes C: "codec_ok C" and ok: "cas_ok C pfx bedID objs" and good: "cas_good C (cas_chunkPrefix pfx bedID) objs'"
    and ix: "map_of objs' (cas_indexKey pfx bedID) = map_of objs (cas_indexKey pfx bedID)"
    and present: "\<And>g cs t c. cas_indexed C pfx bedID objs g cs t \<Longrightarrow> c \<in> set cs
      \<Longrightarrow> map_of objs' (cas_chunkPrefix pfx bedID @ CD_id C c) \<noteq> None"
  shows "cas_ok C pfx bedID objs' \<and> cas_snap C pfx bedID objs' = cas_snap C pfx bedID objs"
proof (cases "map_of objs (cas_indexKey pfx bedID) = None")
  case True
  then show ?thesis using good ix by (simp add: cas_ok_def cas_snap_def)
next
  case False
  then obtain g cs t where o: "cas_indexed C pfx bedID objs g cs t" using ok by (auto simp: cas_ok_def)
  then have "cas_indexed C pfx bedID objs' g cs t" using present [OF o] ix by (auto simp: cas_indexed_def)
  then show ?thesis using cas_snap_indexed [OF C _ o] cas_snap_indexed [OF C good] ok good unfolding cas_ok_def by metis
qed

lemma cas_good_put: "codec_ok C \<Longrightarrow> c \<in> CD_seen C \<Longrightarrow> cas_good C cp objs \<Longrightarrow> cas_good C cp (al_put (cp @ CD_id C c) \<lparr> OB_Body = Bytes (CD_storage C c), OB_Meta = m \<rparr> objs)"
  by (auto simp: cas_good_def codec_okD)

lemma cas_store_frame:
  fixes c :: string and m :: "(string \<times> string) list"
  assumes "codec_ok C" and "cas_ok C pfx bedID objs" and "c \<in> CD_seen C"
  defines "objs' \<equiv> al_put (cas_chunkPrefix pfx bedID @ CD_id C c) \<lparr> OB_Body = Bytes (CD_storage C c), OB_Meta = m \<rparr> objs"
  shows "cas_ok C pfx bedID objs' \<and> cas_snap C pfx bedID objs' = cas_snap C pfx bedID objs"
proof (rule cas_frame [OF assms(1,2)])
  show "cas_good C (cas_chunkPrefix pfx bedID) objs'" using assms cas_good_put unfolding cas_ok_def by blast
qed (auto simp: objs'_def cas_indexed_def)

lemma cas_put_index:
  assumes C: "codec_ok C" and ok: "cas_ok C pfx bedID objs" and g: "0 \<le> g" "g \<le> max_int64" and t: "concat cs = CD_catar C t" "set cs \<subseteq> CD_seen C"
    and present: "\<forall>c \<in> set cs. map_of objs (cas_chunkPrefix pfx bedID @ CD_id C c) \<noteq> None"
  defines "objs' \<equiv> al_put (cas_indexKey pfx bedID) \<lparr> OB_Body = IndexBody (stream_index C cs), OB_Meta = commit_meta g (stream_index C cs) \<rparr> objs"
  shows "cas_ok C pfx bedID objs' \<and> cas_snap C pfx bedID objs' = Some (g, t) \<and> cas_indexed C pfx bedID objs' g cs t"
proof -
  have ix: "cas_indexed C pfx bedID objs' g cs t" using t present meta_int_commit [OF g] by (simp add: objs'_def cas_indexed_def)
  have good: "cas_good C (cas_chunkPrefix pfx bedID) objs'" using ok by (simp add: objs'_def cas_ok_def cas_good_def)
  show ?thesis using ix good cas_snap_indexed [OF C good ix] by (auto simp: cas_ok_def)
qed

lemma cas_gc_frame:
  assumes C: "codec_ok C" and ok: "cas_ok C pfx bedID objs" and ix: "cas_indexed C pfx bedID objs g cs t"
    and key: "path_base key \<notin> set (IX_Chunks (stream_index C cs))" "has_prefix key (cas_chunkPrefix pfx bedID)"
  shows "cas_ok C pfx bedID (al_del key objs) \<and> cas_snap C pfx bedID (al_del key objs) = Some (g, t)
    \<and> cas_indexed C pfx bedID (al_del key objs) g cs t"
proof -
  have ne: "key \<noteq> cas_indexKey pfx bedID" using key(2) cas_index_not_listed by blast
  have "key \<noteq> cas_chunkPrefix pfx bedID @ CD_id C c" if "c \<in> set cs" for c
    using that key(1) cas_base [OF C] by (auto simp: stream_index_def)
  then have ix': "cas_indexed C pfx bedID (al_del key objs) g cs t" using ix ne by (auto simp: cas_indexed_def)
  have good: "cas_good C (cas_chunkPrefix pfx bedID) (al_del key objs)" using ok by (auto simp: cas_ok_def cas_good_def)
  show ?thesis using ix' good cas_snap_indexed [OF C good ix'] by (auto simp: cas_ok_def)
qed

section \<open>Every state that a Persist passes\<close>

definition cas_inv :: "Codec \<Rightarrow> string \<Rightarrow> string \<Rightarrow> (int \<times> tree_entry list) option \<Rightarrow> int \<times> tree_entry list \<Rightarrow> objects \<Rightarrow> bool" where
  "cas_inv C pfx bedID S D objs \<longleftrightarrow> cas_ok C pfx bedID objs \<and> (cas_snap C pfx bedID objs = S \<or> cas_snap C pfx bedID objs = Some D)"

text \<open>Before the commit: the old snapshot, and the chunks named or stored so far are there.\<close>

definition cas_held :: "Codec \<Rightarrow> string \<Rightarrow> string \<Rightarrow> (int \<times> tree_entry list) option \<Rightarrow> string list \<Rightarrow> string list \<Rightarrow> objects \<Rightarrow> bool" where
  "cas_held C pfx bedID S ys known objs \<longleftrightarrow> cas_snap C pfx bedID objs = S
     \<and> (\<forall>c \<in> CD_seen C. CD_id C c \<in> set known \<or> c \<in> set ys \<longrightarrow> map_of objs (cas_chunkPrefix pfx bedID @ CD_id C c) \<noteq> None)"

lemma cas_StoreChunk_ok:
  assumes C: "codec_ok C" and c: "c \<in> CD_seen C"
  shows "obj_ok A (cas_inv C pfx bedID S D) (cas_held C pfx bedID S ys known) (cas_StoreChunk C (cas_chunkPrefix pfx bedID) known c)
    (cas_held C pfx bedID S (ys @ [c]))"
proof (cases "CD_id C c \<in> set known")
  case True
  then show ?thesis using c by (auto simp: cas_StoreChunk_def cas_held_def intro!: obj_ok_return)
next
  case False
  let ?ob = "\<lparr> OB_Body = Bytes (CD_storage C c), OB_Meta = [] \<rparr>"
  have put: "obj_ok A (cas_inv C pfx bedID S D) (cas_held C pfx bedID S ys known) (obj_put (cas_chunkPrefix pfx bedID @ CD_id C c) (Bytes (CD_storage C c)) [])
    (\<lambda>_. cas_held C pfx bedID S (ys @ [c]) (CD_id C c # known))"
    unfolding obj_put_def
  proof (rule obj_ok_write)
    fix objs assume i: "cas_inv C pfx bedID S D objs" and h: "cas_held C pfx bedID S ys known objs"
    show "cas_inv C pfx bedID S D (al_put (cas_chunkPrefix pfx bedID @ CD_id C c) ?ob objs)
      \<and> cas_held C pfx bedID S (ys @ [c]) (CD_id C c # known) (al_put (cas_chunkPrefix pfx bedID @ CD_id C c) ?ob objs)"
      using cas_store_frame [OF C _ c, of pfx bedID objs "[]"] i h codec_okD(7) [OF C _ c] by (auto simp: cas_inv_def cas_held_def)
  qed
  show ?thesis using False by (auto simp: cas_StoreChunk_def intro!: obj_ok_bind [OF put] obj_ok_return)
qed

lemma cas_worker_ok:
  assumes C: "codec_ok C" and c: "c \<in> CD_seen C"
  shows "obj_ok A (cas_inv C pfx bedID S D) (cas_held C pfx bedID S ys known) (cas_worker C (cas_chunkPrefix pfx bedID) known c)
    (cas_held C pfx bedID S (ys @ [c]))"
proof (cases "CD_probe C")
  case False
  then show ?thesis by (simp add: cas_worker_def cas_StoreChunk_ok [OF C c])
next
  case True
  have has: "obj_ok A (cas_inv C pfx bedID S D) (cas_held C pfx bedID S ys known) (cas_HasChunk (cas_chunkPrefix pfx bedID) known (CD_id C c))
    (\<lambda>h objs. cas_held C pfx bedID S ys known objs \<and> (h \<longrightarrow> map_of objs (cas_chunkPrefix pfx bedID @ CD_id C c) \<noteq> None))"
    unfolding cas_HasChunk_def obj_head_def using c
    by (auto intro!: obj_ok_return obj_ok_bind [OF obj_ok_read [where Q = "\<lambda>x objs. cas_held C pfx bedID S ys known objs
      \<and> x = map_of objs (cas_chunkPrefix pfx bedID @ CD_id C c)"]] simp: cas_held_def)
  have rest: "obj_ok A (cas_inv C pfx bedID S D)
      (\<lambda>objs. cas_held C pfx bedID S ys known objs \<and> (h \<longrightarrow> map_of objs (cas_chunkPrefix pfx bedID @ CD_id C c) \<noteq> None))
      (if h then io_return known else cas_StoreChunk C (cas_chunkPrefix pfx bedID) known c) (cas_held C pfx bedID S (ys @ [c]))" for h
  proof (cases h)
    case True
    then show ?thesis using c by (auto simp: cas_held_def intro!: obj_ok_return)
  next
    case False
    then show ?thesis using cas_StoreChunk_ok [OF C c] by simp
  qed
  show ?thesis using True obj_ok_bind [OF has rest] by (simp add: cas_worker_def)
qed

lemma cas_gc_ok:
  assumes C: "codec_ok C"
  shows "obj_ok A (cas_inv C pfx bedID S (g, t)) (\<lambda>objs. cas_indexed C pfx bedID objs g cs t) (cas_gc (cas_chunkPrefix pfx bedID) (stream_index C cs))
    (\<lambda>_ objs. cas_indexed C pfx bedID objs g cs t)"
  unfolding cas_gc_def
proof (rule obj_ok_try)
  let ?I = "\<lambda>objs. cas_inv C pfx bedID S (g, t) objs \<and> cas_indexed C pfx bedID objs g cs t"
  have del: "obj_ok A ?I (\<lambda>_. True) (obj_write (al_del key)) (\<lambda>_ _. True)"
    if "path_base key \<notin> set (IX_Chunks (stream_index C cs))" "has_prefix key (cas_chunkPrefix pfx bedID)" for key
    by (rule obj_ok_write) (use cas_gc_frame [OF C _ _ that] in \<open>auto simp: cas_inv_def\<close>)
  have dels: "obj_ok A ?I (\<lambda>_. True) (obj_delete (filter (\<lambda>key. path_base key \<notin> set (IX_Chunks (stream_index C cs))) listed)) (\<lambda>_ _. True)"
    if "list_all (\<lambda>k. has_prefix k (cas_chunkPrefix pfx bedID)) listed" for listed
    unfolding obj_delete_def by (rule obj_ok_each_keep) (use that in \<open>auto simp: list_all_iff intro: del\<close>)
  show "obj_ok A ?I (\<lambda>_. True) (io_bind (obj_list (cas_chunkPrefix pfx bedID))
      (\<lambda>listed. obj_delete (filter (\<lambda>key. path_base key \<notin> set (IX_Chunks (stream_index C cs))) listed))) (\<lambda>_ _. True)"
    unfolding obj_list_def
  proof (rule obj_ok_bind [OF obj_ok_read [where Q = "\<lambda>l _. list_all (\<lambda>k. has_prefix k (cas_chunkPrefix pfx bedID)) l"]])
    fix listed
    show "obj_ok A ?I (\<lambda>_. list_all (\<lambda>k. has_prefix k (cas_chunkPrefix pfx bedID)) listed)
      (obj_delete (filter (\<lambda>key. path_base key \<notin> set (IX_Chunks (stream_index C cs))) listed)) (\<lambda>_ _. True)"
      by (rule obj_ok_assume) (rule dels)
  qed (auto simp: list_all_iff)
qed

lemma cas_previous_ok:
  "obj_ok A (cas_inv C pfx bedID S D) (\<lambda>objs. cas_snap C pfx bedID objs = S) (cas_previous pfx bedID prev)
    (\<lambda>prevIx. cas_held C pfx bedID S [] (cas_known prevIx))"
proof (cases prev)
  case None
  then show ?thesis by (auto simp: cas_previous_def cas_known_def cas_held_def intro!: obj_ok_return)
next
  case (Some ob)
  let ?Q = "\<lambda>b objs. cas_snap C pfx bedID objs = S \<and> (\<forall>ix. b = IndexBody ix \<longrightarrow> cas_held C pfx bedID S [] (cas_known (Some ix)) objs)"
  have get: "obj_ok A (cas_inv C pfx bedID S D) (\<lambda>objs. cas_snap C pfx bedID objs = S) (obj_get (cas_indexKey pfx bedID)) ?Q"
    unfolding obj_get_def
  proof (rule obj_ok_read)
    fix objs b assume i: "cas_inv C pfx bedID S D objs" and s: "cas_snap C pfx bedID objs = S"
      and "(case map_of objs (cas_indexKey pfx bedID) of None \<Rightarrow> Inl (NoSuchKey (cas_indexKey pfx bedID)) | Some ob \<Rightarrow> Inr (OB_Body ob)) = Inr b"
    then obtain o' where o': "map_of objs (cas_indexKey pfx bedID) = Some o'" "b = OB_Body o'" by (auto split: option.splits)
    then obtain g cs t where "cas_indexed C pfx bedID objs g cs t" using i by (auto simp: cas_inv_def cas_ok_def)
    then show "?Q b objs" using o' s by (auto simp: cas_indexed_def cas_held_def cas_known_def stream_index_def)
  qed
  have ix: "obj_ok A (cas_inv C pfx bedID S D) (?Q b) (case b of IndexBody ix \<Rightarrow> io_return ix | _ \<Rightarrow> io_fail (DecodeFailed bedID))
    (\<lambda>ix. cas_held C pfx bedID S [] (cas_known (Some ix)))" for b
    by (cases b) (auto intro: obj_ok_return obj_ok_fail)
  show ?thesis
    using Some by (auto simp: cas_previous_def cas_loadIndex_def intro!: obj_ok_bind [OF obj_ok_bind [OF get ix]] obj_ok_return)
qed

lemma cas_commit_ok:
  assumes C: "codec_ok C" and g: "0 \<le> g" "g \<le> max_int64" and t: "concat cs = CD_catar C t" "set cs \<subseteq> CD_seen C"
  shows "obj_ok A (cas_inv C pfx bedID S (g, t)) (cas_held C pfx bedID S cs known) (cas_commit pfx bedID g prevIx (stream_index C cs))
    (\<lambda>_ objs. cas_snap C pfx bedID objs = Some (g, t))"
proof -
  have put: "obj_ok A (cas_inv C pfx bedID S (g, t)) (cas_held C pfx bedID S cs known)
      (obj_put (cas_indexKey pfx bedID) (IndexBody (stream_index C cs)) (commit_meta g (stream_index C cs)))
      (\<lambda>_ objs. cas_indexed C pfx bedID objs g cs t)"
    unfolding obj_put_def
  proof (rule obj_ok_write)
    fix objs assume i: "cas_inv C pfx bedID S (g, t) objs" and h: "cas_held C pfx bedID S cs known objs"
    have "\<forall>c \<in> set cs. map_of objs (cas_chunkPrefix pfx bedID @ CD_id C c) \<noteq> None" using h t(2) by (auto simp: cas_held_def)
    from cas_put_index [OF C _ g t this] i
    show "cas_inv C pfx bedID S (g, t) (al_put (cas_indexKey pfx bedID) \<lparr> OB_Body = IndexBody (stream_index C cs), OB_Meta = commit_meta g (stream_index C cs) \<rparr> objs)
      \<and> cas_indexed C pfx bedID (al_put (cas_indexKey pfx bedID) \<lparr> OB_Body = IndexBody (stream_index C cs), OB_Meta = commit_meta g (stream_index C cs) \<rparr> objs) g cs t"
      by (simp add: cas_inv_def)
  qed
  have fin: "cas_snap C pfx bedID objs = Some (g, t)" if "cas_inv C pfx bedID S (g, t) objs" "cas_indexed C pfx bedID objs g cs t" for objs
    using cas_snap_indexed [OF C _ that(2)] that(1) by (simp add: cas_inv_def cas_ok_def)
  have rest: "obj_ok A (cas_inv C pfx bedID S (g, t)) (\<lambda>objs. cas_indexed C pfx bedID objs g cs t)
      (if (case prevIx of None \<Rightarrow> False | Some p \<Rightarrow> sameChunks (stream_index C cs) p) then io_return () else cas_gc (cas_chunkPrefix pfx bedID) (stream_index C cs))
      (\<lambda>_ objs. cas_indexed C pfx bedID objs g cs t)"
    using cas_gc_ok [OF C] by (auto intro: obj_ok_return split: option.splits)
  have "obj_ok A (cas_inv C pfx bedID S (g, t)) (cas_held C pfx bedID S cs known)
      (io_bind (cas_commit pfx bedID g prevIx (stream_index C cs)) io_return) (\<lambda>_ objs. cas_snap C pfx bedID objs = Some (g, t))"
    unfolding cas_commit_def
    by (rule obj_ok_bind [OF obj_ok_bind [OF put rest]]) (auto intro: obj_ok_return fin)
  then show ?thesis by (simp add: io_bind_return)
qed

text \<open>The whole of \<open>Persist\<close>. The only snapshot it can commit is that of a walk that was not broken off.\<close>

lemma cas_Persist_ok:
  assumes C: "codec_ok C" and g: "0 \<le> g" "g \<le> max_int64" and roots: "newSnapshotFilter volumeRoots = Inr roots"
    and fits: "set (cas_chunks C roots w) \<subseteq> CD_seen C" and D: "walked_whole w \<Longrightarrow> D = (g, kept roots (fst w))"
  shows "obj_ok A (cas_inv C pfx bedID S D) (\<lambda>objs. cas_snap C pfx bedID objs = S) (cas_Persist C pfx bedID volumeRoots g w)
    (\<lambda>_ objs. walked_whole w \<and> cas_snap C pfx bedID objs = Some D)"
proof -
  let ?I = "cas_inv C pfx bedID S D" and ?cs = "cas_chunks C roots w"
  have head: "obj_ok A ?I (\<lambda>objs. cas_snap C pfx bedID objs = S) (obj_head (cas_indexKey pfx bedID)) (\<lambda>_ objs. cas_snap C pfx bedID objs = S)"
    unfolding obj_head_def by (rule obj_ok_read)
  have fold: "obj_ok A ?I (cas_held C pfx bedID S [] known) (io_fold (cas_worker C (cas_chunkPrefix pfx bedID)) known (CD_order C ?cs))
      (cas_held C pfx bedID S ([] @ CD_order C ?cs))" for known
    by (rule obj_ok_fold [where R = "cas_held C pfx bedID S"], rule cas_worker_ok [OF C]) (use fits codec_okD(3) [OF C] in auto)
  have t: "concat ?cs = CD_catar C (kept roots (fst w))" by (simp add: cas_chunks_def codec_okD [OF C])
  have ordered: "cas_held C pfx bedID S ([] @ CD_order C ?cs) k objs \<Longrightarrow> cas_held C pfx bedID S ?cs k objs" for k objs
    by (simp add: cas_held_def codec_okD(3) [OF C])
  have req: "obj_ok A ?I P (io_check err) (\<lambda>_. P)" for P err
    by (rule obj_ok_check)
  have walked: "obj_ok A ?I P (io_check (if snd w then Some WalkFailed else None)) (\<lambda>_ objs. walked_whole w \<and> P objs)" for P
    by (rule obj_ok_check) (auto split: if_splits)
  have commit: "obj_ok A ?I (\<lambda>objs. walked_whole w \<and> cas_held C pfx bedID S ([] @ CD_order C ?cs) known objs) (cas_commit pfx bedID g prevIx (stream_index C ?cs))
      (\<lambda>_ objs. walked_whole w \<and> cas_snap C pfx bedID objs = Some D)" for known prevIx
  proof (cases "walked_whole w")
    case True
    have "obj_ok A ?I (cas_held C pfx bedID S ([] @ CD_order C ?cs) known) (cas_commit pfx bedID g prevIx (stream_index C ?cs)) (\<lambda>_ objs. cas_snap C pfx bedID objs = Some D)"
      unfolding D [OF True] by (rule obj_ok_strengthen [OF cas_commit_ok [OF C g t fits]]) (rule ordered)
    then show ?thesis using True by simp
  qed (simp add: obj_ok_def)
  show ?thesis
    unfolding cas_Persist_def roots sum.case
    by (rule obj_ok_bind [OF head obj_ok_bind [OF req obj_ok_bind [OF cas_previous_ok obj_ok_bind [OF fold obj_ok_bind [OF walked commit]]]]])
qed

section \<open>The layout\<close>

definition cas_content :: "string list option \<Rightarrow> walk \<Rightarrow> tree_entry list" where
  "cas_content volumeRoots w = kept (filter_roots volumeRoots) (fst w)"

definition cas_fits :: "Codec \<Rightarrow> string list option \<Rightarrow> walk \<Rightarrow> bool" where
  "cas_fits C volumeRoots w \<longleftrightarrow> set (cas_chunks C (filter_roots volumeRoots) w) \<subseteq> CD_seen C"

lemma cas_Persist_run:
  assumes C: "codec_ok C" and ok: "cas_ok C pfx bedID (RM_Objects r)" and g: "0 \<le> g" "g \<le> max_int64" and fits: "cas_fits C volumeRoots w"
    and run: "cas_Persist C pfx bedID volumeRoots g w r = (t, res, r')"
  shows "(\<forall>x \<in> set (r' # t). cas_ok C pfx bedID (RM_Objects x) \<and> (cas_snap C pfx bedID (RM_Objects x) = cas_snap C pfx bedID (RM_Objects r)
        \<or> walked_whole w \<and> cas_snap C pfx bedID (RM_Objects x) = Some (g, cas_content volumeRoots w)))
    \<and> (\<forall>u. res = Inr u \<longrightarrow> walked_whole w \<and> cas_snap C pfx bedID (RM_Objects r') = Some (g, cas_content volumeRoots w))"
proof (cases "newSnapshotFilter volumeRoots")
  case (Inl e)
  then show ?thesis using run ok by (auto simp: cas_Persist_def io_fail_def)
next
  case (Inr roots)
  then have roots: "filter_roots volumeRoots = roots" by (simp add: filter_roots_def)
  let ?S = "cas_snap C pfx bedID (RM_Objects r)"
  have P: "obj_ok (\<lambda>_. True) (cas_inv C pfx bedID ?S D) (\<lambda>objs. cas_snap C pfx bedID objs = ?S) (cas_Persist C pfx bedID volumeRoots g w)
      (\<lambda>_ objs. walked_whole w \<and> cas_snap C pfx bedID objs = Some D)" if "walked_whole w \<Longrightarrow> D = (g, kept roots (fst w))" for D
    using cas_Persist_ok [OF C g Inr _ that] fits by (simp add: cas_fits_def roots)
  show ?thesis
  proof (cases "walked_whole w")
    case True
    show ?thesis using obj_okD [OF P [of "(g, kept roots (fst w))"] _ _ run] ok True by (simp add: cas_inv_def cas_content_def roots)
  next
    case False
    note P0 = obj_okD [OF P [of "(0, [])"] _ _ run] and P1 = obj_okD [OF P [of "(1, [])"] _ _ run]
    have "cas_ok C pfx bedID (RM_Objects x) \<and> cas_snap C pfx bedID (RM_Objects x) = ?S" if "x \<in> set (r' # t)" for x
    proof -
      have "cas_inv C pfx bedID ?S (0, []) (RM_Objects x)" "cas_inv C pfx bedID ?S (1, []) (RM_Objects x)"
        using P0(1) P1(1) that False ok by (auto simp: cas_inv_def)
      then show ?thesis by (auto simp: cas_inv_def)
    qed
    moreover have "res \<noteq> Inr u" for u using P0(2) [of u] False ok by (auto simp: cas_inv_def)
    ultimately show ?thesis by simp
  qed
qed

lemma cas_Persist_fenced:
  assumes C: "codec_ok C" and ok: "cas_ok C pfx bedID (RM_Objects r)" and snap: "cas_snap C pfx bedID (RM_Objects r) = Some (g', d')" and g: "g \<le> g'"
    and run: "cas_Persist C pfx bedID volumeRoots g w r = (t, res, r')"
  shows "t = [] \<and> RM_Objects r' = RM_Objects r \<and> (\<nexists>u. res = Inr u)"
proof (cases "newSnapshotFilter volumeRoots")
  case (Inl e)
  then show ?thesis using run by (auto simp: cas_Persist_def io_fail_def)
next
  case (Inr roots)
  obtain ob where ob: "map_of (RM_Objects r) (cas_indexKey pfx bedID) = Some ob" "meta_int ob generationMetaKey = Some g'"
    using cas_ok_snap [OF C ok snap] by (auto simp: cas_indexed_def)
  have "obj_reads (RM_Objects r) (obj_head (cas_indexKey pfx bedID)) (Some ob)" unfolding obj_head_def by (rule obj_reads_read) (simp add: ob)
  from obj_reads_reject [OF this _ run [unfolded cas_Persist_def Inr sum.case]] show ?thesis using ob(2) g by (simp add: fence_def)
qed

lemma cas_Restore_reads:
  assumes C: "codec_ok C" and ok: "cas_ok C pfx bedID objs" and snap: "cas_snap C pfx bedID objs = Some (g, d)"
  shows "obj_reads objs (cas_Restore C pfx bedID) d"
proof -
  obtain cs ob where ix: "cas_indexed C pfx bedID objs g cs d" and ob: "map_of objs (cas_indexKey pfx bedID) = Some ob"
    "OB_Body ob = IndexBody (stream_index C cs)" using cas_ok_snap [OF C ok snap] by (auto simp: cas_indexed_def)
  have chunk: "obj_reads objs (cas_GetChunk C (cas_chunkPrefix pfx bedID) (CD_id C c)) c" if "c \<in> set cs" for c
  proof -
    have "map_of objs (cas_chunkPrefix pfx bedID @ CD_id C c) \<noteq> None" "c \<in> CD_seen C" using that ix by (auto simp: cas_indexed_def)
    then obtain o' where o': "map_of objs (cas_chunkPrefix pfx bedID @ CD_id C c) = Some o'" "OB_Body o' = Bytes (CD_storage C c)"
      using ok unfolding cas_ok_def cas_good_def by blast
    show ?thesis
      unfolding cas_GetChunk_def obj_get_def
      by (rule obj_reads_bind [OF obj_reads_read [where x = "Bytes (CD_storage C c)"] obj_reads_get]) (simp_all add: o' load_chunk_stored [OF C])
  qed
  have "obj_reads objs (io_map (\<lambda>c. cas_GetChunk C (cas_chunkPrefix pfx bedID) (CD_id C c)) cs) (map (\<lambda>c. c) cs)"
    by (rule obj_reads_map) (rule chunk)
  then have chunks: "obj_reads objs (io_map (cas_GetChunk C (cas_chunkPrefix pfx bedID)) (map (CD_id C) cs)) cs"
    by (simp add: io_map_map)
  have "concat cs = CD_catar C d" using ix by (simp add: cas_indexed_def)
  then show ?thesis
    unfolding cas_Restore_def cas_loadIndex_def obj_get_def
    by (intro obj_reads_bind [OF obj_reads_bind [OF obj_reads_read]])
      (auto simp: ob stream_index_def codec_okD [OF C] intro!: obj_reads_return obj_reads_bind [OF chunks])
qed

interpretation cas: snapshot_layout "\<lambda>objs. codec_ok C \<and> cas_ok C pfx bedID objs" "cas_snap C pfx bedID" "cas_content volumeRoots" walked_whole
  "cas_fits C volumeRoots" "\<lambda>_. True" "cas_Persist C pfx bedID volumeRoots" "cas_Restore C pfx bedID"
  for C pfx bedID volumeRoots
proof (unfold_locales, goal_cases)
  case (1 r g w t res r' x)
  then show ?case using cas_Persist_run [of C pfx bedID r g volumeRoots w t res r'] by (auto simp: cas_inv_def)
next
  case (2 r g w t u r')
  then show ?case using cas_Persist_run [of C pfx bedID r g volumeRoots w t "Inr u" r'] by simp
next
  case (3 r g' d' g w t res r')
  then show ?case using cas_Persist_fenced by blast
next
  case (4 r g d t out r')
  have "obj_reads (RM_Objects r) (cas_Restore C pfx bedID) d" using 4(1,2) by (auto intro: cas_Restore_reads)
  from obj_readsD [OF this 4(3)] show ?case using 4(1,2) by simp
qed

end
