(* ===== verification/Store_Pack.thy ===== *)
theory Store_Pack
  imports Store_Objects
begin

text \<open>
  The pack layout (\<open>src/internal/bed/store/sync/pack.go\<close>): stored chunks are collected into immutable packs that are named by their digest, a manifest
  says where each chunk lies, and the head object is the commit point. Chunks that the previous manifest locates are not stored again.
  The reader keeps the last two packs. The layout is an interpretation of \<open>snapshot_layout\<close>.
\<close>

section \<open>Keys\<close>

definition pack_bedPrefix :: "string \<Rightarrow> string \<Rightarrow> string" where
  "pack_bedPrefix pfx bedID = path_join [pfx, ''beds'', bedID] @ ''/''"

definition pack_headKey :: "string \<Rightarrow> string" where
  "pack_headKey bp = bp @ ''head.json''"

definition pack_snapshotKey :: "string \<Rightarrow> string \<Rightarrow> string" where
  "pack_snapshotKey bp snapshotID = bp @ ''snapshots/'' @ snapshotID @ ''.json''"

definition pack_packKey :: "string \<Rightarrow> string \<Rightarrow> string" where
  "pack_packKey bp packID = bp @ ''packs/'' @ take 2 packID @ ''/'' @ packID @ ''.pack''"

section \<open>Manifests\<close>

record packLocation =
  PL_pack :: string
  PL_offset :: int
  PL_length :: int

type_synonym locations = "(string \<times> packLocation) list"

definition ChunkIDFromString :: "string \<Rightarrow> string option" where
  "ChunkIDFromString s = (if validObjectID s then Some (map lower_char s) else None)"

fun build_refs :: "locations \<Rightarrow> string list \<Rightarrow> (store_error, packChunkRef list) result" where
  "build_refs locs [] = Inr []"
| "build_refs locs (c # cs) =
     (case map_of locs c of
        None \<Rightarrow> Inl (Corrupt c)
      | Some l \<Rightarrow>
          res_bind (build_refs locs cs)
            (\<lambda>refs. Inr (\<lparr> CR_ID = c, CR_Pack = PL_pack l, CR_Offset = PL_offset l, CR_Length = PL_length l \<rparr> # refs)))"

definition buildPackManifest :: "chunk_index \<Rightarrow> locations \<Rightarrow> (store_error, packManifest) result" where
  "buildPackManifest ix locs = res_bind (build_refs locs (IX_Chunks ix)) (\<lambda>refs. Inr \<lparr> PM_Index = Some ix, PM_Chunks = refs \<rparr>)"

fun locate_refs :: "locations \<Rightarrow> packChunkRef list \<Rightarrow> (store_error, locations) result" where
  "locate_refs locs [] = Inr locs"
| "locate_refs locs (ref # refs) =
     (case ChunkIDFromString (CR_ID ref) of
        None \<Rightarrow> Inl (Corrupt (CR_ID ref))
      | Some ident \<Rightarrow>
          let l = \<lparr> PL_pack = CR_Pack ref, PL_offset = CR_Offset ref, PL_length = CR_Length ref \<rparr> in
          if \<not> validObjectID (CR_Pack ref) \<or> CR_Offset ref < 0 \<or> CR_Length ref \<le> 0 then Inl (Corrupt (CR_ID ref))
          else if (case map_of locs ident of None \<Rightarrow> False | Some old \<Rightarrow> old \<noteq> l) then Inl (Corrupt (CR_ID ref))
          else locate_refs (al_put ident l locs) refs)"

definition manifestLocations :: "packManifest \<Rightarrow> (store_error, locations) result" where
  "manifestLocations m = locate_refs [] (PM_Chunks m)"

definition pack_loadHead :: "string \<Rightarrow> packHead remote_io" where
  "pack_loadHead bp =
     io_bind (obj_get (pack_headKey bp)) (\<lambda>b.
       case b of
         HeadBody h \<Rightarrow> if validObjectID (PH_Snapshot h) then io_return h else io_fail (DecodeFailed bp)
       | _ \<Rightarrow> io_fail (DecodeFailed bp))"

definition pack_loadManifest :: "Codec \<Rightarrow> string \<Rightarrow> string \<Rightarrow> packManifest remote_io" where
  "pack_loadManifest C bp snapshotID =
     (if \<not> validObjectID snapshotID then io_fail (DecodeFailed bp)
      else io_bind (obj_get (pack_snapshotKey bp snapshotID)) (\<lambda>b.
        if CD_digest C b \<noteq> snapshotID then io_fail (Corrupt snapshotID)
        else case b of ManifestBody m \<Rightarrow> io_return m | _ \<Rightarrow> io_fail (DecodeFailed bp)))"

section \<open>Writing packs\<close>

text \<open>Pending chunks: identifier, offset and length in the buffer.\<close>

record packWriter =
  PW_target :: int
  PW_buf :: string
  PW_pending :: "(string \<times> int \<times> int) list"
  PW_locations :: locations

definition packTargetBytes :: int where
  "packTargetBytes = 33554432"

definition newPackWriter :: "int \<Rightarrow> locations \<Rightarrow> packWriter" where
  "newPackWriter targetBytes known =
     \<lparr> PW_target = (if targetBytes \<le> 0 then packTargetBytes else targetBytes), PW_buf = [], PW_pending = [], PW_locations = known \<rparr>"

fun settle_pending :: "string \<Rightarrow> (string \<times> int \<times> int) list \<Rightarrow> locations \<Rightarrow> locations" where
  "settle_pending packID [] locs = locs"
| "settle_pending packID ((ident, offset, len) # ps) locs =
     settle_pending packID ps (al_put ident \<lparr> PL_pack = packID, PL_offset = offset, PL_length = len \<rparr> locs)"

definition pack_flushLocked :: "Codec \<Rightarrow> string \<Rightarrow> packWriter \<Rightarrow> packWriter remote_io" where
  "pack_flushLocked C bp pw =
     (if PW_buf pw = [] then io_return pw
      else io_bind (obj_digest C (Bytes (PW_buf pw))) (\<lambda>packID.
           io_bind (obj_put (pack_packKey bp packID) (Bytes (PW_buf pw)) []) (\<lambda>_.
             io_return (pw\<lparr>PW_locations := settle_pending packID (PW_pending pw) (PW_locations pw), PW_buf := [], PW_pending := []\<rparr>))))"

definition pack_append :: "Codec \<Rightarrow> string \<Rightarrow> packWriter \<Rightarrow> packWriter" where
  "pack_append C c pw = pw\<lparr>PW_buf := PW_buf pw @ CD_storage C c,
     PW_pending := PW_pending pw @ [(CD_id C c, int (length (PW_buf pw)), int (length (CD_storage C c)))]\<rparr>"

definition pack_StoreChunk :: "Codec \<Rightarrow> string \<Rightarrow> packWriter \<Rightarrow> string \<Rightarrow> packWriter remote_io" where
  "pack_StoreChunk C bp pw c =
     (if map_of (PW_locations pw) (CD_id C c) \<noteq> None then io_return pw
      else
        io_bind (if PW_buf pw \<noteq> [] \<and> int (length (PW_buf pw)) + int (length (CD_storage C c)) > PW_target pw
                 then pack_flushLocked C bp pw else io_return pw) (\<lambda>pw1.
          let pw2 = pack_append C c pw1 in
          if int (length (PW_buf pw2)) \<ge> PW_target pw2 then pack_flushLocked C bp pw2 else io_return pw2))"

text \<open>\<open>HasChunk\<close> of the writer only looks at the settled locations, as \<open>StoreChunk\<close> does itself.\<close>

definition pack_HasChunk :: "packWriter \<Rightarrow> string \<Rightarrow> bool" where
  "pack_HasChunk pw ident \<longleftrightarrow> map_of (PW_locations pw) ident \<noteq> None"

definition pack_worker :: "Codec \<Rightarrow> string \<Rightarrow> packWriter \<Rightarrow> string \<Rightarrow> packWriter remote_io" where
  "pack_worker C bp pw c = (if CD_probe C \<and> pack_HasChunk pw (CD_id C c) then io_return pw else pack_StoreChunk C bp pw c)"

section \<open>Operations\<close>

definition pack_Stat :: "string \<Rightarrow> string \<Rightarrow> SnapshotInfo option remote_io" where
  "pack_Stat pfx bedID = io_bind (obj_head (pack_headKey (pack_bedPrefix pfx bedID))) (\<lambda>ob. io_return (map_option snapshot_info ob))"

definition pack_previous :: "Codec \<Rightarrow> string \<Rightarrow> object option \<Rightarrow> (packHead \<times> packManifest) option remote_io" where
  "pack_previous C bp prev =
     (case prev of
        None \<Rightarrow> io_return None
      | Some _ \<Rightarrow>
          io_bind (pack_loadHead bp) (\<lambda>h. io_bind (pack_loadManifest C bp (PH_Snapshot h)) (\<lambda>m. io_return (Some (h, m)))))"

definition pack_known :: "(packHead \<times> packManifest) option \<Rightarrow> (store_error, locations) result" where
  "pack_known prev = (case prev of None \<Rightarrow> Inr [] | Some (h, m) \<Rightarrow> manifestLocations m)"

definition pack_commit :: "Codec \<Rightarrow> string \<Rightarrow> int \<Rightarrow> (packHead \<times> packManifest) option \<Rightarrow> chunk_index \<Rightarrow> packManifest \<Rightarrow> unit remote_io" where
  "pack_commit C bp generation prev ix m =
     io_bind (obj_digest C (ManifestBody m)) (\<lambda>snapshotID.
      io_bind (if (case prev of None \<Rightarrow> True | Some (h, _) \<Rightarrow> PH_Snapshot h \<noteq> snapshotID)
               then obj_put (pack_snapshotKey bp snapshotID) (ManifestBody m) [] else io_return ()) (\<lambda>_.
        obj_put (pack_headKey bp) (HeadBody \<lparr> PH_Snapshot = snapshotID, PH_Generation = generation, PH_Bytes = IX_Length ix \<rparr>)
          (commit_meta generation ix)))"

definition pack_chunks :: "Codec \<Rightarrow> string list \<Rightarrow> walk \<Rightarrow> string list" where
  "pack_chunks C roots w = CD_chunks C (CD_catar C (kept roots (fst w)))"

definition pack_Persist :: "Codec \<Rightarrow> int \<Rightarrow> string \<Rightarrow> string \<Rightarrow> string list option \<Rightarrow> int \<Rightarrow> walk \<Rightarrow> unit remote_io" where
  "pack_Persist C targetBytes pfx bedID volumeRoots generation w =
     (case newSnapshotFilter volumeRoots of
        Inl e \<Rightarrow> io_fail e
      | Inr roots \<Rightarrow>
          let bp = pack_bedPrefix pfx bedID; cs = pack_chunks C roots w; ix = stream_index C cs in
          io_bind (obj_head (pack_headKey bp)) (\<lambda>prev.
          io_bind (io_check (fence prev generation)) (\<lambda>_.
          io_bind (pack_previous C bp prev) (\<lambda>prevHM.
          io_bind (io_get (\<lambda>_. pack_known prevHM)) (\<lambda>known.
          io_bind (io_fold (pack_worker C bp) (newPackWriter targetBytes known) (CD_order C cs)) (\<lambda>pw.
          io_bind (io_check (if snd w then Some WalkFailed else None)) (\<lambda>_.
          io_bind (pack_flushLocked C bp pw) (\<lambda>pw.
          io_bind (io_get (\<lambda>_. buildPackManifest ix (PW_locations pw))) (\<lambda>m.
          pack_commit C bp generation prevHM ix m)))))))))"

section \<open>Reading packs\<close>

type_synonym pack_cache = "(string \<times> string) list"

definition packReadCache :: nat where
  "packReadCache = 2"

text \<open>The cache in the order of the list, the latest use first.\<close>

definition pack_fetch :: "Codec \<Rightarrow> string \<Rightarrow> pack_cache \<Rightarrow> string \<Rightarrow> (string \<times> pack_cache) remote_io" where
  "pack_fetch C bp cache packID =
     (case map_of cache packID of
        Some d \<Rightarrow> io_return (d, (packID, d) # al_del packID cache)
      | None \<Rightarrow>
          io_bind (obj_get (pack_packKey bp packID)) (\<lambda>b.
            if CD_digest C b \<noteq> packID then io_fail (Corrupt packID)
            else case b of
                Bytes d \<Rightarrow>
                  let cache1 = (packID, d) # cache in
                  io_return (d, if packReadCache < length cache1 then butlast cache1 else cache1)
              | _ \<Rightarrow> io_fail (Corrupt packID)))"

text \<open>A location is checked against the pack with the addition of \<open>int64\<close>.\<close>

definition pack_slice :: "packLocation \<Rightarrow> string \<Rightarrow> (store_error, string) result" where
  "pack_slice l d =
     (let upto = wrap64 (PL_offset l + PL_length l) in
      if PL_offset l < 0 \<or> upto < PL_offset l \<or> upto > int (length d) then Inl (Corrupt (PL_pack l))
      else Inr (take (nat (upto - PL_offset l)) (drop (nat (PL_offset l)) d)))"

definition pack_GetChunk :: "Codec \<Rightarrow> string \<Rightarrow> locations \<Rightarrow> pack_cache \<Rightarrow> string \<Rightarrow> (string \<times> pack_cache) remote_io" where
  "pack_GetChunk C bp locs cache ident =
     (case map_of locs ident of
        None \<Rightarrow> io_fail (Corrupt ident)
      | Some l \<Rightarrow>
          io_bind (pack_fetch C bp cache (PL_pack l)) (\<lambda>(d, cache1).
          io_bind (io_get (\<lambda>_. res_bind (pack_slice l d) (load_chunk C ident))) (\<lambda>c. io_return (c, cache1))))"

definition pack_read_next :: "Codec \<Rightarrow> string \<Rightarrow> locations \<Rightarrow> string list \<times> pack_cache \<Rightarrow> string \<Rightarrow> (string list \<times> pack_cache) remote_io" where
  "pack_read_next C bp locs st ident =
     (case st of (got, cache) \<Rightarrow> io_bind (pack_GetChunk C bp locs cache ident) (\<lambda>(c, cache1). io_return (got @ [c], cache1)))"

definition pack_Restore :: "Codec \<Rightarrow> string \<Rightarrow> string \<Rightarrow> tree_entry list remote_io" where
  "pack_Restore C pfx bedID =
     (let bp = pack_bedPrefix pfx bedID in
      io_bind (pack_loadHead bp) (\<lambda>h.
      io_bind (pack_loadManifest C bp (PH_Snapshot h)) (\<lambda>m.
      case PM_Index m of
        None \<Rightarrow> io_fail (DecodeFailed bedID)
      | Some ix \<Rightarrow>
          io_bind (io_get (\<lambda>_. manifestLocations m)) (\<lambda>locs.
          if \<not> list_all (\<lambda>c. map_of locs c \<noteq> None) (IX_Chunks ix) then io_fail (Corrupt bedID)
          else io_bind (io_fold (pack_read_next C bp locs) ([], []) (IX_Chunks ix)) (\<lambda>(got, _).
            case CD_untar C (concat got) of None \<Rightarrow> io_fail (Corrupt bedID) | Some t \<Rightarrow> io_return t)))))"

definition pack_Delete :: "string \<Rightarrow> string \<Rightarrow> unit remote_io" where
  "pack_Delete pfx bedID = io_bind (obj_list (pack_bedPrefix pfx bedID)) obj_delete"

section \<open>The snapshot that a bucket holds\<close>

definition located :: "Codec \<Rightarrow> string \<Rightarrow> objects \<Rightarrow> string \<Rightarrow> packLocation \<Rightarrow> bool" where
  "located C bp objs c l \<longleftrightarrow> 0 \<le> PL_offset l \<and> 0 < PL_length l
     \<and> (\<exists>ob d. map_of objs (pack_packKey bp (PL_pack l)) = Some ob \<and> OB_Body ob = Bytes d \<and> CD_digest C (Bytes d) = PL_pack l
          \<and> pack_slice l d = Inr (CD_storage C c))"

definition all_located :: "Codec \<Rightarrow> string \<Rightarrow> objects \<Rightarrow> locations \<Rightarrow> bool" where
  "all_located C bp objs locs \<longleftrightarrow> (\<forall>c \<in> CD_seen C. \<forall>l. map_of locs (CD_id C c) = Some l \<longrightarrow> located C bp objs c l)"

definition pack_manifest :: "Codec \<Rightarrow> string \<Rightarrow> objects \<Rightarrow> packManifest \<Rightarrow> string list \<Rightarrow> bool" where
  "pack_manifest C bp objs m cs \<longleftrightarrow> PM_Index m = Some (stream_index C cs) \<and> set cs \<subseteq> CD_seen C
     \<and> (\<exists>locs. manifestLocations m = Inr locs \<and> (\<forall>c \<in> set cs. map_of locs (CD_id C c) \<noteq> None) \<and> all_located C bp objs locs)"

definition pack_headed :: "Codec \<Rightarrow> string \<Rightarrow> objects \<Rightarrow> int \<Rightarrow> packManifest \<Rightarrow> string list \<Rightarrow> tree_entry list \<Rightarrow> bool" where
  "pack_headed C bp objs g m cs t \<longleftrightarrow>
     (\<exists>ob h. map_of objs (pack_headKey bp) = Some ob \<and> OB_Body ob = HeadBody h \<and> meta_int ob generationMetaKey = Some g
        \<and> PH_Snapshot h = CD_digest C (ManifestBody m))
     \<and> (\<exists>ob. map_of objs (pack_snapshotKey bp (CD_digest C (ManifestBody m))) = Some ob \<and> OB_Body ob = ManifestBody m)
     \<and> pack_manifest C bp objs m cs \<and> concat cs = CD_catar C t"

text \<open>Objects that are named by a digest hold what has this digest.\<close>

definition pack_good :: "Codec \<Rightarrow> string \<Rightarrow> objects \<Rightarrow> bool" where
  "pack_good C bp objs \<longleftrightarrow> (\<forall>p ob. hex_id p \<longrightarrow>
     map_of objs (pack_packKey bp p) = Some ob \<or> map_of objs (pack_snapshotKey bp p) = Some ob \<longrightarrow>
     CD_digest C (OB_Body ob) = p \<and> OB_Body ob \<in> CD_bodies C)"

definition pack_ok :: "Codec \<Rightarrow> string \<Rightarrow> objects \<Rightarrow> bool" where
  "pack_ok C bp objs \<longleftrightarrow> pack_good C bp objs \<and> (map_of objs (pack_headKey bp) = None \<or> (\<exists>g m cs t. pack_headed C bp objs g m cs t))"

definition pack_chunk :: "Codec \<Rightarrow> string \<Rightarrow> objects \<Rightarrow> locations \<Rightarrow> string \<Rightarrow> string option" where
  "pack_chunk C bp objs locs ident =
     (case map_of locs ident of
        None \<Rightarrow> None
      | Some l \<Rightarrow>
          (case map_option OB_Body (map_of objs (pack_packKey bp (PL_pack l))) of
             Some (Bytes d) \<Rightarrow>
               if CD_digest C (Bytes d) \<noteq> PL_pack l then None
               else (case res_bind (pack_slice l d) (load_chunk C ident) of Inr c \<Rightarrow> Some c | Inl _ \<Rightarrow> None)
           | _ \<Rightarrow> None))"

definition pack_snap :: "Codec \<Rightarrow> string \<Rightarrow> objects \<Rightarrow> (int \<times> tree_entry list) option" where
  "pack_snap C bp objs =
     (case map_of objs (pack_headKey bp) of
        None \<Rightarrow> None
      | Some ob \<Rightarrow>
          (case (OB_Body ob, meta_int ob generationMetaKey) of
             (HeadBody h, Some g) \<Rightarrow>
               (case map_option OB_Body (map_of objs (pack_snapshotKey bp (PH_Snapshot h))) of
                  Some (ManifestBody m) \<Rightarrow>
                    (case (PM_Index m, manifestLocations m) of
                       (Some ix, Inr locs) \<Rightarrow>
                         (case those (map (pack_chunk C bp objs locs) (IX_Chunks ix)) of
                            Some cs \<Rightarrow> map_option (\<lambda>t. (g, t)) (CD_untar C (concat cs))
                          | None \<Rightarrow> None)
                     | _ \<Rightarrow> None)
                | _ \<Rightarrow> None)
           | _ \<Rightarrow> None))"

section \<open>Keys and digests\<close>

lemma pack_keys_differ [simp]:
  "pack_packKey bp p \<noteq> pack_headKey bp" "pack_headKey bp \<noteq> pack_packKey bp p" "pack_snapshotKey bp p \<noteq> pack_headKey bp"
  "pack_headKey bp \<noteq> pack_snapshotKey bp p" "pack_packKey bp p \<noteq> pack_snapshotKey bp q" "pack_snapshotKey bp q \<noteq> pack_packKey bp p"
  by (simp_all add: pack_packKey_def pack_headKey_def pack_snapshotKey_def)

lemma pack_keys_inj:
  assumes "hex_id p" and "hex_id q"
  shows "pack_packKey bp p = pack_packKey bp q \<longleftrightarrow> p = q" and "pack_snapshotKey bp p = pack_snapshotKey bp q \<longleftrightarrow> p = q"
proof -
  have l: "length p = 64" "length q = 64" using assms by (simp_all add: hex_id_def)
  then show "pack_packKey bp p = pack_packKey bp q \<longleftrightarrow> p = q" by (auto simp: pack_packKey_def)
  show "pack_snapshotKey bp p = pack_snapshotKey bp q \<longleftrightarrow> p = q" by (auto simp: pack_snapshotKey_def)
qed

lemma ChunkIDFromString_hex: "hex_id s \<Longrightarrow> ChunkIDFromString s = Some s"
proof -
  assume h: "hex_id s"
  then have "map lower_char s = s" by (induction s rule: list.induct) (auto simp: hex_id_def list_all_iff lower_char_def is_digit_def is_upper_def intro!: map_idI)
  then show ?thesis using hex_id_valid [OF h] by (simp add: ChunkIDFromString_def)
qed

text \<open>Reading a located chunk, with any cache that agrees with the bucket.\<close>

definition cache_agrees :: "string \<Rightarrow> objects \<Rightarrow> pack_cache \<Rightarrow> bool" where
  "cache_agrees bp objs cache \<longleftrightarrow>
     (\<forall>p d. (p, d) \<in> set cache \<longrightarrow> (\<exists>ob. map_of objs (pack_packKey bp p) = Some ob \<and> OB_Body ob = Bytes d))"

lemma pack_chunk_located:
  assumes "codec_ok C" and "map_of locs (CD_id C c) = Some l" and "located C bp objs c l"
  shows "pack_chunk C bp objs locs (CD_id C c) = Some c"
  using assms by (auto simp: pack_chunk_def located_def load_chunk_stored)

lemma pack_snap_headed:
  assumes C: "codec_ok C" and h: "pack_headed C bp objs g m cs t"
  shows "pack_snap C bp objs = Some (g, t)"
proof -
  obtain locs where m: "manifestLocations m = Inr locs" "PM_Index m = Some (stream_index C cs)"
    and locs: "\<And>c. c \<in> set cs \<Longrightarrow> map_of locs (CD_id C c) \<noteq> None" "all_located C bp objs locs" "set cs \<subseteq> CD_seen C"
    using h by (auto simp: pack_headed_def pack_manifest_def)
  have "\<forall>c \<in> set cs. (pack_chunk C bp objs locs \<circ> CD_id C) c = Some c"
    using locs pack_chunk_located [OF C] by (fastforce simp: all_located_def)
  then have "those (map (pack_chunk C bp objs locs \<circ> CD_id C) cs) = Some (map (\<lambda>c. c) cs)" by (rule those_map_Some)
  then show ?thesis using h m codec_okD(1) [OF C] by (auto simp: pack_snap_def pack_headed_def stream_index_def)
qed

lemma pack_ok_snap:
  assumes "codec_ok C" and "pack_ok C bp objs" and "pack_snap C bp objs = Some (g, t)"
  shows "\<exists>m cs. pack_headed C bp objs g m cs t"
proof -
  have "map_of objs (pack_headKey bp) \<noteq> None" using assms(3) by (auto simp: pack_snap_def split: option.splits)
  then obtain g' m cs t' where h: "pack_headed C bp objs g' m cs t'" using assms(2) by (auto simp: pack_ok_def)
  then show ?thesis using pack_snap_headed [OF assms(1) h] assms(3) by auto
qed

section \<open>Objects are only added before the commit\<close>

definition bodies_kept :: "string \<Rightarrow> objects \<Rightarrow> objects \<Rightarrow> bool" where
  "bodies_kept bp objs objs' \<longleftrightarrow> (\<forall>p ob. hex_id p \<longrightarrow>
     (map_of objs (pack_packKey bp p) = Some ob \<longrightarrow> (\<exists>ob'. map_of objs' (pack_packKey bp p) = Some ob' \<and> OB_Body ob' = OB_Body ob))
     \<and> (map_of objs (pack_snapshotKey bp p) = Some ob \<longrightarrow> (\<exists>ob'. map_of objs' (pack_snapshotKey bp p) = Some ob' \<and> OB_Body ob' = OB_Body ob)))"

lemma located_kept: "codec_ok C \<Longrightarrow> located C bp objs c l \<Longrightarrow> bodies_kept bp objs objs' \<Longrightarrow> located C bp objs' c l"
  unfolding located_def bodies_kept_def by (metis codec_okD(8))

lemma all_located_kept: "codec_ok C \<Longrightarrow> all_located C bp objs locs \<Longrightarrow> bodies_kept bp objs objs' \<Longrightarrow> all_located C bp objs' locs"
  unfolding all_located_def by (blast intro: located_kept)

lemma pack_headed_kept:
  assumes C: "codec_ok C" and h: "pack_headed C bp objs g m cs t" and k: "bodies_kept bp objs objs'"
    and head: "map_of objs' (pack_headKey bp) = map_of objs (pack_headKey bp)"
  shows "pack_headed C bp objs' g m cs t"
proof -
  have "\<exists>ob. map_of objs' (pack_snapshotKey bp (CD_digest C (ManifestBody m))) = Some ob \<and> OB_Body ob = ManifestBody m"
    using h k codec_okD(8) [OF C] unfolding pack_headed_def bodies_kept_def by metis
  moreover have "pack_manifest C bp objs' m cs"
    using h all_located_kept [OF C _ k] unfolding pack_headed_def pack_manifest_def by blast
  ultimately show ?thesis using h head by (auto simp: pack_headed_def)
qed

lemma pack_frame:
  assumes C: "codec_ok C" and ok: "pack_ok C bp objs" and k: "bodies_kept bp objs objs'" and good: "pack_good C bp objs'"
    and head: "map_of objs' (pack_headKey bp) = map_of objs (pack_headKey bp)"
  shows "pack_ok C bp objs' \<and> pack_snap C bp objs' = pack_snap C bp objs"
proof (cases "map_of objs (pack_headKey bp)")
  case None
  then show ?thesis using good head by (simp add: pack_ok_def pack_snap_def)
next
  case (Some ob)
  then obtain g m cs t where h: "pack_headed C bp objs g m cs t" using ok by (auto simp: pack_ok_def)
  note h' = pack_headed_kept [OF C h k head]
  show ?thesis using pack_snap_headed [OF C h] pack_snap_headed [OF C h'] h' good by (auto simp: pack_ok_def)
qed

lemma pack_put_named:
  fixes b :: body
  assumes C: "codec_ok C" and good: "pack_good C bp objs" and b: "b \<in> CD_bodies C" and p: "p = CD_digest C b"
    and key: "key = pack_packKey bp p \<or> key = pack_snapshotKey bp p"
  defines "objs' \<equiv> al_put key \<lparr> OB_Body = b, OB_Meta = [] \<rparr> objs"
  shows "bodies_kept bp objs objs' \<and> pack_good C bp objs' \<and> map_of objs' (pack_headKey bp) = map_of objs (pack_headKey bp)"
proof -
  have hp: "hex_id p" using p codec_okD(8) [OF C] by simp
  have same: "OB_Body ob = b" if "map_of objs key = Some ob" for ob
  proof -
    have "CD_digest C (OB_Body ob) = p" "OB_Body ob \<in> CD_bodies C" using that key good hp unfolding pack_good_def by blast+
    then show ?thesis using codec_okD(9) [OF C _ b] p by simp
  qed
  have "bodies_kept bp objs objs'" unfolding bodies_kept_def objs'_def using same by auto
  moreover have "pack_good C bp objs'"
    unfolding pack_good_def
  proof (intro allI impI)
    fix q ob assume q: "hex_id q" and m: "map_of objs' (pack_packKey bp q) = Some ob \<or> map_of objs' (pack_snapshotKey bp q) = Some ob"
    show "CD_digest C (OB_Body ob) = q \<and> OB_Body ob \<in> CD_bodies C"
    proof (cases "q = p")
      case True
      then show ?thesis using m key good hp b p by (auto simp: objs'_def pack_good_def split: if_splits)
    next
      case False
      then have "map_of objs (pack_packKey bp q) = Some ob \<or> map_of objs (pack_snapshotKey bp q) = Some ob"
        using m key pack_keys_inj [OF q hp] by (auto simp: objs'_def split: if_splits)
      then show ?thesis using good q unfolding pack_good_def by blast
    qed
  qed
  moreover have "map_of objs' (pack_headKey bp) = map_of objs (pack_headKey bp)" using key by (auto simp: objs'_def)
  ultimately show ?thesis by blast
qed

section \<open>The writer\<close>

definition pending_ok :: "Codec \<Rightarrow> string \<Rightarrow> (string \<times> int \<times> int) list \<Rightarrow> bool" where
  "pending_ok C buf pending \<longleftrightarrow> (\<forall>ident offset len. (ident, offset, len) \<in> set pending \<longrightarrow> 0 \<le> offset \<and> 0 < len
     \<and> (\<forall>c \<in> CD_seen C. CD_id C c = ident \<longrightarrow> (\<forall>p. pack_slice \<lparr> PL_pack = p, PL_offset = offset, PL_length = len \<rparr> buf = Inr (CD_storage C c))))"

text \<open>What holds between two chunks: \<open>O\<close> is the bucket before the \<open>Persist\<close>, \<open>ys\<close> are the chunks that were handed over so far.\<close>

definition writing :: "Codec \<Rightarrow> string \<Rightarrow> objects \<Rightarrow> int \<Rightarrow> string list \<Rightarrow> packWriter \<Rightarrow> objects \<Rightarrow> bool" where
  "writing C bp O' target ys pw objs \<longleftrightarrow>
     pack_snap C bp objs = pack_snap C bp O' \<and> bodies_kept bp O' objs
     \<and> all_located C bp objs (PW_locations pw) \<and> pending_ok C (PW_buf pw) (PW_pending pw)
     \<and> (\<forall>c \<in> set ys. map_of (PW_locations pw) (CD_id C c) \<noteq> None \<or> CD_id C c \<in> fst ` set (PW_pending pw))
     \<and> (PW_buf pw = [] \<longrightarrow> PW_pending pw = []) \<and> PW_target pw = target"

definition pack_inv :: "Codec \<Rightarrow> string \<Rightarrow> (int \<times> tree_entry list) option \<Rightarrow> int \<times> tree_entry list \<Rightarrow> objects \<Rightarrow> bool" where
  "pack_inv C bp S D objs \<longleftrightarrow> pack_ok C bp objs \<and> (pack_snap C bp objs = S \<or> pack_snap C bp objs = Some D)"

lemma bodies_kept_trans:
  assumes ab: "bodies_kept bp a b" and bc: "bodies_kept bp b c"
  shows "bodies_kept bp a c"
  unfolding bodies_kept_def
proof (intro allI impI conjI)
  fix p ob assume p: "hex_id p"
  show "\<exists>ob'. map_of c (pack_packKey bp p) = Some ob' \<and> OB_Body ob' = OB_Body ob" if "map_of a (pack_packKey bp p) = Some ob"
    using ab [unfolded bodies_kept_def, rule_format, OF p, THEN conjunct1, rule_format, OF that]
      bc [unfolded bodies_kept_def, rule_format, OF p, THEN conjunct1, rule_format] by auto
  show "\<exists>ob'. map_of c (pack_snapshotKey bp p) = Some ob' \<and> OB_Body ob' = OB_Body ob" if "map_of a (pack_snapshotKey bp p) = Some ob"
    using ab [unfolded bodies_kept_def, rule_format, OF p, THEN conjunct2, rule_format, OF that]
      bc [unfolded bodies_kept_def, rule_format, OF p, THEN conjunct2, rule_format] by auto
qed

lemma pack_slice_append: "pack_slice l d = Inr x \<Longrightarrow> pack_slice l (d @ e) = Inr x"
  by (auto simp: pack_slice_def Let_def split: if_splits)

lemma pack_slice_end:
  assumes "e \<noteq> []" and "int (length d) + int (length e) \<le> max_int64"
  shows "pack_slice \<lparr> PL_pack = p, PL_offset = int (length d), PL_length = int (length e) \<rparr> (d @ e) = Inr e"
proof -
  have "wrap64 (int (length d) + int (length e)) = int (length d) + int (length e)" using assms(2) by (simp add: wrap64_id max_int64_def)
  then show ?thesis by (simp add: pack_slice_def)
qed

lemma pending_append:
  assumes C: "codec_ok C" and ok: "pending_ok C buf pending" and c: "c \<in> CD_seen C"
    and len: "int (length buf) + int (length (CD_storage C c)) \<le> max_int64"
  shows "pending_ok C (buf @ CD_storage C c) (pending @ [(CD_id C c, int (length buf), int (length (CD_storage C c)))])"
  unfolding pending_ok_def
proof (intro allI impI)
  fix ident offset l
  assume "(ident, offset, l) \<in> set (pending @ [(CD_id C c, int (length buf), int (length (CD_storage C c)))])"
  then consider "(ident, offset, l) \<in> set pending" | "ident = CD_id C c" "offset = int (length buf)" "l = int (length (CD_storage C c))" by auto
  then show "0 \<le> offset \<and> 0 < l \<and> (\<forall>c' \<in> CD_seen C. CD_id C c' = ident \<longrightarrow>
      (\<forall>p. pack_slice \<lparr> PL_pack = p, PL_offset = offset, PL_length = l \<rparr> (buf @ CD_storage C c) = Inr (CD_storage C c')))"
  proof cases
    case 1
    then show ?thesis using ok unfolding pending_ok_def by (blast intro: pack_slice_append)
  next
    case 2
    then show ?thesis using pack_slice_end [OF codec_okD(5) [OF C] len] codec_okD(5) [OF C] codec_okD(7) [OF C _ c] by auto
  qed
qed

lemma settle_pending_dom: "map_of (settle_pending p ps locs) ident \<noteq> None \<longleftrightarrow> map_of locs ident \<noteq> None \<or> ident \<in> fst ` set ps"
  by (induction p ps locs rule: settle_pending.induct) auto

lemma settle_pending_located:
  assumes C: "codec_ok C" and pack: "map_of objs (pack_packKey bp p) = Some ob" "OB_Body ob = Bytes buf" "CD_digest C (Bytes buf) = p"
  shows "all_located C bp objs locs \<Longrightarrow> pending_ok C buf ps \<Longrightarrow> all_located C bp objs (settle_pending p ps locs)"
proof (induction ps arbitrary: locs)
  case Nil
  then show ?case by simp
next
  case (Cons x ps)
  obtain ident offset len where x: "x = (ident, offset, len)" by (metis prod_cases3)
  have "all_located C bp objs (al_put ident \<lparr> PL_pack = p, PL_offset = offset, PL_length = len \<rparr> locs)"
  proof -
    have "0 \<le> offset" "0 < len" and slice: "\<And>c p. c \<in> CD_seen C \<Longrightarrow> CD_id C c = ident
        \<Longrightarrow> pack_slice \<lparr> PL_pack = p, PL_offset = offset, PL_length = len \<rparr> buf = Inr (CD_storage C c)"
      using Cons.prems(2) [unfolded pending_ok_def, rule_format, of ident offset len] x by auto
    then have "located C bp objs c \<lparr> PL_pack = p, PL_offset = offset, PL_length = len \<rparr>" if "c \<in> CD_seen C" "CD_id C c = ident" for c
      using pack slice [OF that] by (simp add: located_def)
    then show ?thesis using Cons.prems(1) by (simp add: all_located_def)
  qed
  moreover have "pending_ok C buf ps" using Cons.prems(2) unfolding pending_ok_def by (meson list.set_intros(2))
  ultimately show ?case using Cons.IH x by simp
qed

lemma pack_put_frame:
  fixes b :: body
  assumes C: "codec_ok C" and inv: "pack_inv C bp S D objs" and b: "b \<in> CD_bodies C"
    and key: "key = pack_packKey bp (CD_digest C b) \<or> key = pack_snapshotKey bp (CD_digest C b)"
  defines "objs' \<equiv> al_put key \<lparr> OB_Body = b, OB_Meta = [] \<rparr> objs"
  shows "pack_inv C bp S D objs' \<and> bodies_kept bp objs objs' \<and> pack_snap C bp objs' = pack_snap C bp objs"
proof -
  have ok: "pack_ok C bp objs" using inv by (simp add: pack_inv_def)
  then have good: "pack_good C bp objs" by (simp add: pack_ok_def)
  note put = pack_put_named [OF C good b refl key, folded objs'_def]
  show ?thesis using put pack_frame [OF C ok, of objs'] inv by (simp add: pack_inv_def)
qed

lemma pack_flush_ok:
  assumes C: "codec_ok C"
  shows "obj_ok (digests_seen C) (pack_inv C bp S D) (writing C bp O' target ys pw) (pack_flushLocked C bp pw)
    (\<lambda>pw' objs. writing C bp O' target ys pw' objs \<and> PW_buf pw' = [])"
proof (cases "PW_buf pw = []")
  case True
  then show ?thesis by (auto simp: pack_flushLocked_def intro!: obj_ok_return)
next
  case False
  let ?b = "Bytes (PW_buf pw)"
  let ?p = "CD_digest C ?b"
  let ?pw = "pw\<lparr>PW_locations := settle_pending ?p (PW_pending pw) (PW_locations pw), PW_buf := [], PW_pending := []\<rparr>"
  have dig: "obj_ok (digests_seen C) (pack_inv C bp S D) (writing C bp O' target ys pw) (obj_digest C ?b)
      (\<lambda>p objs. writing C bp O' target ys pw objs \<and> p = ?p \<and> ?b \<in> CD_bodies C)"
    by (rule obj_ok_digest) simp
  have put: "obj_ok (digests_seen C) (pack_inv C bp S D) (\<lambda>objs. writing C bp O' target ys pw objs \<and> p = ?p \<and> ?b \<in> CD_bodies C)
      (obj_put (pack_packKey bp p) ?b []) (\<lambda>_ objs. writing C bp O' target ys ?pw objs \<and> p = ?p)" for p
    unfolding obj_put_def
  proof (rule obj_ok_write)
    fix objs assume i: "pack_inv C bp S D objs" and "writing C bp O' target ys pw objs \<and> p = ?p \<and> ?b \<in> CD_bodies C"
    then have w: "writing C bp O' target ys pw objs" and p: "p = ?p" and b: "?b \<in> CD_bodies C" by simp_all
    let ?objs = "al_put (pack_packKey bp ?p) \<lparr> OB_Body = ?b, OB_Meta = [] \<rparr> objs"
    note f = pack_put_frame [OF C i b disjI1 [OF refl]]
    have "all_located C bp ?objs (PW_locations pw)" using all_located_kept [OF C _ conjunct1 [OF conjunct2 [OF f]]] w by (simp add: writing_def)
    then have "all_located C bp ?objs (settle_pending ?p (PW_pending pw) (PW_locations pw))"
      using w by (intro settle_pending_located [OF C]) (auto simp: writing_def)
    then have "writing C bp O' target ys ?pw ?objs"
      using w f bodies_kept_trans [of bp O' objs ?objs] settle_pending_dom [of ?p "PW_pending pw" "PW_locations pw"]
      by (auto simp: writing_def pending_ok_def)
    then show "pack_inv C bp S D (al_put (pack_packKey bp p) \<lparr> OB_Body = ?b, OB_Meta = [] \<rparr> objs)
      \<and> writing C bp O' target ys ?pw (al_put (pack_packKey bp p) \<lparr> OB_Body = ?b, OB_Meta = [] \<rparr> objs) \<and> p = ?p" using p f by simp
  qed
  show ?thesis
    using False unfolding pack_flushLocked_def
    by (auto intro!: obj_ok_bind [OF dig] obj_ok_bind [OF put] obj_ok_return)
qed

definition between :: "Codec \<Rightarrow> string \<Rightarrow> objects \<Rightarrow> int \<Rightarrow> string list \<Rightarrow> packWriter \<Rightarrow> objects \<Rightarrow> bool" where
  "between C bp O' target ys pw objs \<longleftrightarrow> writing C bp O' target ys pw objs \<and> int (length (PW_buf pw)) < target"

lemma writing_append:
  assumes C: "codec_ok C" and c: "c \<in> CD_seen C" and len: "target + int (length (CD_storage C c)) \<le> max_int64"
    and w: "between C bp O' target ys pw objs"
  shows "writing C bp O' target (ys @ [c]) (pack_append C c pw) objs"
proof -
  have "int (length (PW_buf pw)) + int (length (CD_storage C c)) \<le> max_int64" using w len by (simp add: between_def)
  then show ?thesis using w pending_append [OF C _ c] codec_okD(5) [OF C] by (auto simp: between_def writing_def pack_append_def)
qed

lemma pack_StoreChunk_ok:
  assumes C: "codec_ok C" and c: "c \<in> CD_seen C" and target: "0 < target" "target + int (length (CD_storage C c)) \<le> max_int64"
  shows "obj_ok (digests_seen C) (pack_inv C bp S D) (between C bp O' target ys pw) (pack_StoreChunk C bp pw c) (between C bp O' target (ys @ [c]))"
proof (cases "map_of (PW_locations pw) (CD_id C c) = None")
  case False
  then show ?thesis by (auto simp: pack_StoreChunk_def between_def writing_def intro!: obj_ok_return)
next
  case True
  have flushed: "obj_ok (digests_seen C) (pack_inv C bp S D) (writing C bp O' target zs pw1) (pack_flushLocked C bp pw1) (between C bp O' target zs)" for zs pw1
    by (rule obj_ok_weaken [OF pack_flush_ok [OF C]]) (use target(1) in \<open>simp add: between_def\<close>)
  have first: "obj_ok (digests_seen C) (pack_inv C bp S D) (between C bp O' target ys pw)
      (if PW_buf pw \<noteq> [] \<and> int (length (PW_buf pw)) + int (length (CD_storage C c)) > PW_target pw then pack_flushLocked C bp pw else io_return pw)
      (between C bp O' target ys)"
    using obj_ok_strengthen [OF flushed, of "between C bp O' target ys pw"] by (auto simp: between_def intro: obj_ok_return)
  have second: "obj_ok (digests_seen C) (pack_inv C bp S D) (between C bp O' target ys pw1)
      (let pw2 = pack_append C c pw1 in if int (length (PW_buf pw2)) \<ge> PW_target pw2 then pack_flushLocked C bp pw2 else io_return pw2)
      (between C bp O' target (ys @ [c]))" for pw1
  proof (cases "int (length (PW_buf (pack_append C c pw1))) \<ge> PW_target (pack_append C c pw1)")
    case True
    have "obj_ok (digests_seen C) (pack_inv C bp S D) (between C bp O' target ys pw1) (pack_flushLocked C bp (pack_append C c pw1))
      (between C bp O' target (ys @ [c]))"
      by (rule obj_ok_strengthen [OF flushed]) (rule writing_append [OF C c target(2)])
    then show ?thesis using True by (simp add: Let_def)
  next
    case False
    have "between C bp O' target (ys @ [c]) (pack_append C c pw1) objs" if "between C bp O' target ys pw1 objs" for objs
      using writing_append [OF C c target(2) that] False by (simp add: between_def writing_def)
    then show ?thesis using False by (simp add: Let_def obj_ok_return)
  qed
  show ?thesis using True obj_ok_bind [OF first second] by (simp add: pack_StoreChunk_def)
qed

lemma pack_worker_ok:
  assumes C: "codec_ok C" and c: "c \<in> CD_seen C" and target: "0 < target" "target + int (length (CD_storage C c)) \<le> max_int64"
  shows "obj_ok (digests_seen C) (pack_inv C bp S D) (between C bp O' target ys pw) (pack_worker C bp pw c) (between C bp O' target (ys @ [c]))"
proof (cases "CD_probe C \<and> pack_HasChunk pw (CD_id C c)")
  case True
  then show ?thesis by (auto simp: pack_worker_def pack_HasChunk_def between_def writing_def intro!: obj_ok_return)
next
  case False
  then show ?thesis using pack_StoreChunk_ok [OF C c target] by (auto simp: pack_worker_def)
qed

section \<open>Manifests locate what was written\<close>

lemma locate_build:
  assumes C: "codec_ok C"
  shows "set cs \<subseteq> CD_seen C \<Longrightarrow> all_located C bp objs locs \<Longrightarrow> build_refs locs (map (CD_id C) cs) = Inr refs
    \<Longrightarrow> \<forall>k l. map_of acc k = Some l \<longrightarrow> map_of locs k = Some l
    \<Longrightarrow> \<exists>locs'. locate_refs acc refs = Inr locs' \<and> (\<forall>k l. map_of locs' k = Some l \<longrightarrow> map_of locs k = Some l)
        \<and> (\<forall>k. map_of acc k \<noteq> None \<or> k \<in> CD_id C ` set cs \<longrightarrow> map_of locs' k \<noteq> None)"
proof (induction cs arbitrary: acc refs)
  case Nil
  then show ?case by auto
next
  case (Cons c cs)
  obtain l refs' where l: "map_of locs (CD_id C c) = Some l" and refs': "build_refs locs (map (CD_id C) cs) = Inr refs'"
    and refs: "refs = \<lparr> CR_ID = CD_id C c, CR_Pack = PL_pack l, CR_Offset = PL_offset l, CR_Length = PL_length l \<rparr> # refs'"
    using Cons.prems(3) by (cases "build_refs locs (map (CD_id C) cs)") (auto split: option.splits)
  have lc: "located C bp objs c l" using Cons.prems(1,2) l by (simp add: all_located_def)
  then have "hex_id (PL_pack l)" using codec_okD(8) [OF C] by (metis located_def)
  then have valid: "validObjectID (PL_pack l)" "0 \<le> PL_offset l" "0 < PL_length l" using hex_id_valid lc by (auto simp: located_def)
  have acc: "map_of acc (CD_id C c) = None \<or> map_of acc (CD_id C c) = Some l" using Cons.prems(4) l by (metis option.exhaust)
  have "\<forall>k l'. map_of (al_put (CD_id C c) l acc) k = Some l' \<longrightarrow> map_of locs k = Some l'" using Cons.prems(4) l by auto
  from Cons.IH [OF _ Cons.prems(2) refs' this] Cons.prems(1)
  obtain locs' where "locate_refs (al_put (CD_id C c) l acc) refs' = Inr locs'" "\<forall>k l. map_of locs' k = Some l \<longrightarrow> map_of locs k = Some l"
    "\<forall>k. map_of (al_put (CD_id C c) l acc) k \<noteq> None \<or> k \<in> CD_id C ` set cs \<longrightarrow> map_of locs' k \<noteq> None" by auto
  moreover have "locate_refs acc refs = locate_refs (al_put (CD_id C c) l acc) refs'"
    using acc valid refs ChunkIDFromString_hex [OF codec_okD(6) [OF C], of c] by (cases l) (auto simp: Let_def)
  ultimately show ?case by auto
qed

lemma build_refs_total: "\<forall>c \<in> set cs. map_of locs c \<noteq> None \<Longrightarrow> \<exists>refs. build_refs locs cs = Inr refs"
  by (induction cs) auto

lemma built_manifest:
  assumes C: "codec_ok C" and cs: "set cs \<subseteq> CD_seen C" and locs: "all_located C bp objs locs" and m: "buildPackManifest (stream_index C cs) locs = Inr m"
  shows "pack_manifest C bp objs m cs"
proof -
  obtain refs where refs: "build_refs locs (map (CD_id C) cs) = Inr refs" and mm: "m = \<lparr> PM_Index = Some (stream_index C cs), PM_Chunks = refs \<rparr>"
    using m by (cases "build_refs locs (map (CD_id C) cs)") (auto simp: buildPackManifest_def stream_index_def)
  obtain locs' where l: "locate_refs [] refs = Inr locs'" "\<forall>k l. map_of locs' k = Some l \<longrightarrow> map_of locs k = Some l"
    "\<forall>k. k \<in> CD_id C ` set cs \<longrightarrow> map_of locs' k \<noteq> None"
    using locate_build [OF C cs locs refs, of "[]"] by auto
  have "all_located C bp objs locs'" using locs l(2) unfolding all_located_def by blast
  then show ?thesis using l(1,3) mm cs by (auto simp: pack_manifest_def manifestLocations_def)
qed

section \<open>Every state that a Persist passes\<close>

definition pack_prev_ok :: "Codec \<Rightarrow> string \<Rightarrow> objects \<Rightarrow> (packHead \<times> packManifest) option \<Rightarrow> bool" where
  "pack_prev_ok C bp objs prev \<longleftrightarrow> (\<forall>h m. prev = Some (h, m) \<longrightarrow> (\<exists>g cs t. pack_headed C bp objs g m cs t) \<and> PH_Snapshot h = CD_digest C (ManifestBody m))"

lemma pack_loads:
  assumes C: "codec_ok C" and h: "pack_headed C bp objs g m cs t"
  shows "\<exists>h. PH_Snapshot h = CD_digest C (ManifestBody m) \<and> obj_reads objs (pack_loadHead bp) h"
    and "obj_reads objs (pack_loadManifest C bp (CD_digest C (ManifestBody m))) m"
proof -
  obtain ob hd where hd: "map_of objs (pack_headKey bp) = Some ob" "OB_Body ob = HeadBody hd" "PH_Snapshot hd = CD_digest C (ManifestBody m)"
    using h by (auto simp: pack_headed_def)
  have valid: "validObjectID (CD_digest C (ManifestBody m))" using codec_okD(8) [OF C] hex_id_valid by blast
  have "obj_reads objs (pack_loadHead bp) hd"
    unfolding pack_loadHead_def obj_get_def
    by (rule obj_reads_bind [OF obj_reads_read [where x = "HeadBody hd"]]) (use hd valid obj_reads_return in \<open>auto\<close>)
  then show "\<exists>h. PH_Snapshot h = CD_digest C (ManifestBody m) \<and> obj_reads objs (pack_loadHead bp) h" using hd by blast
  obtain o2 where "map_of objs (pack_snapshotKey bp (CD_digest C (ManifestBody m))) = Some o2" "OB_Body o2 = ManifestBody m"
    using h by (auto simp: pack_headed_def)
  then have get: "obj_reads objs (obj_get (pack_snapshotKey bp (CD_digest C (ManifestBody m)))) (ManifestBody m)"
    unfolding obj_get_def by (intro obj_reads_read) simp
  show "obj_reads objs (pack_loadManifest C bp (CD_digest C (ManifestBody m))) m"
    using valid by (auto simp: pack_loadManifest_def intro!: obj_reads_bind [OF get] obj_reads_return)
qed

lemma obj_ok_reads:
  assumes p: "\<And>objs. I objs \<Longrightarrow> P objs \<Longrightarrow> \<exists>x. obj_reads objs p x \<and> Q x objs"
  shows "obj_ok A I P p Q"
  unfolding obj_ok_def
proof (intro allI impI)
  fix r :: Remote and t res r'
  assume r: "I (RM_Objects r)" "P (RM_Objects r)" and run: "p r = (t, res, r')"
  obtain x where x: "obj_reads (RM_Objects r) p x" "Q x (RM_Objects r)" using p [OF r] by blast
  show "(\<forall>x \<in> set t. I (RM_Objects x)) \<and> I (RM_Objects r') \<and> (\<forall>y. res = Inr y \<longrightarrow> Q y (RM_Objects r'))"
    using obj_readsD [OF x(1) run] x(2) r by auto
qed

lemma pack_previous_ok:
  assumes C: "codec_ok C"
  shows "obj_ok A (pack_inv C bp S D) (\<lambda>objs. objs = O' \<and> (prev = None \<longleftrightarrow> map_of O' (pack_headKey bp) = None)) (pack_previous C bp prev)
    (\<lambda>prevHM objs. objs = O' \<and> pack_prev_ok C bp O' prevHM)"
proof (rule obj_ok_reads)
  fix objs assume i: "pack_inv C bp S D objs" and o: "objs = O' \<and> (prev = None \<longleftrightarrow> map_of O' (pack_headKey bp) = None)"
  show "\<exists>x. obj_reads objs (pack_previous C bp prev) x \<and> objs = O' \<and> pack_prev_ok C bp O' x"
  proof (cases prev)
    case None
    then show ?thesis using o obj_reads_return [of objs None] by (intro exI [of _ None]) (simp add: pack_previous_def pack_prev_ok_def)
  next
    case (Some ob)
    then obtain g m cs t where h: "pack_headed C bp objs g m cs t" using i o by (auto simp: pack_inv_def pack_ok_def)
    obtain hd where hd: "PH_Snapshot hd = CD_digest C (ManifestBody m)" "obj_reads objs (pack_loadHead bp) hd" using pack_loads(1) [OF C h] by blast
    have "obj_reads objs (pack_loadManifest C bp (PH_Snapshot hd)) m" using pack_loads(2) [OF C h] hd(1) by simp
    then have "obj_reads objs (pack_previous C bp prev) (Some (hd, m))"
      unfolding pack_previous_def Some option.case by (intro obj_reads_bind [OF hd(2)] obj_reads_bind [OF _ obj_reads_return])
    moreover have "pack_prev_ok C bp O' (Some (hd, m))" using h hd(1) o by (auto simp: pack_prev_ok_def)
    ultimately show ?thesis using o by blast
  qed
qed

lemma pack_known_ok:
  "obj_ok A (pack_inv C bp S D) (\<lambda>objs. objs = O' \<and> pack_prev_ok C bp O' prevHM) (io_get (\<lambda>_. pack_known prevHM))
    (\<lambda>known objs. objs = O' \<and> pack_prev_ok C bp O' prevHM \<and> all_located C bp O' known)"
proof (rule obj_ok_get)
  fix known and objs :: objects assume k: "pack_known prevHM = Inr known" and o: "objs = O' \<and> pack_prev_ok C bp O' prevHM"
  show "objs = O' \<and> pack_prev_ok C bp O' prevHM \<and> all_located C bp O' known"
  proof (cases prevHM)
    case None
    then show ?thesis using k o by (simp add: pack_known_def all_located_def)
  next
    case (Some hm)
    then show ?thesis using k o by (cases hm) (auto simp: pack_known_def pack_prev_ok_def pack_headed_def pack_manifest_def)
  qed
qed

text \<open>The commit: the manifest is there, then the head names it.\<close>

lemma pack_put_head:
  fixes n :: int
  assumes C: "codec_ok C" and inv: "pack_inv C bp S (g, t) objs" and g: "0 \<le> g" "g \<le> max_int64" and cs: "concat cs = CD_catar C t"
    and m: "pack_manifest C bp objs m cs" and ob: "map_of objs (pack_snapshotKey bp (CD_digest C (ManifestBody m))) = Some ob" "OB_Body ob = ManifestBody m"
  defines "objs' \<equiv> al_put (pack_headKey bp) \<lparr> OB_Body = HeadBody \<lparr> PH_Snapshot = CD_digest C (ManifestBody m), PH_Generation = g, PH_Bytes = n \<rparr>,
      OB_Meta = commit_meta g (stream_index C cs) \<rparr> objs"
  shows "pack_inv C bp S (g, t) objs' \<and> pack_snap C bp objs' = Some (g, t)"
proof -
  have k: "bodies_kept bp objs objs'" by (auto simp: bodies_kept_def objs'_def)
  have m': "pack_manifest C bp objs' m cs" using m all_located_kept [OF C _ k] unfolding pack_manifest_def by blast
  have h: "pack_headed C bp objs' g m cs t" using m' ob cs meta_int_commit [OF g] by (simp add: pack_headed_def objs'_def)
  have "pack_good C bp objs'" using inv by (simp add: pack_inv_def pack_ok_def pack_good_def objs'_def)
  then show ?thesis using h pack_snap_headed [OF C h] by (auto simp: pack_inv_def pack_ok_def)
qed

lemma pack_commit_ok:
  assumes C: "codec_ok C" and g: "0 \<le> g" "g \<le> max_int64" and cs: "concat cs = CD_catar C t" and prev: "pack_ok C bp O'" "pack_prev_ok C bp O' prevHM"
  shows "obj_ok (digests_seen C) (pack_inv C bp S (g, t)) (\<lambda>objs. bodies_kept bp O' objs \<and> pack_manifest C bp objs m cs)
    (pack_commit C bp g prevHM (stream_index C cs) m) (\<lambda>_ objs. pack_snap C bp objs = Some (g, t))"
proof -
  let ?b = "ManifestBody m" let ?id = "CD_digest C (ManifestBody m)"
  let ?P = "\<lambda>objs. bodies_kept bp O' objs \<and> pack_manifest C bp objs m cs"
  let ?there = "\<lambda>objs. pack_manifest C bp objs m cs \<and> (\<exists>ob. map_of objs (pack_snapshotKey bp ?id) = Some ob \<and> OB_Body ob = ?b)"
  have dig: "obj_ok (digests_seen C) (pack_inv C bp S (g, t)) ?P (obj_digest C ?b) (\<lambda>i objs. ?P objs \<and> i = ?id \<and> ?b \<in> CD_bodies C)"
    by (rule obj_ok_digest) simp
  have put: "obj_ok (digests_seen C) (pack_inv C bp S (g, t)) (\<lambda>objs. ?P objs \<and> i = ?id \<and> ?b \<in> CD_bodies C)
      (obj_put (pack_snapshotKey bp i) ?b []) (\<lambda>_ objs. ?there objs \<and> i = ?id)" for i
    unfolding obj_put_def
  proof (rule obj_ok_write)
    fix objs assume inv: "pack_inv C bp S (g, t) objs" and p: "?P objs \<and> i = ?id \<and> ?b \<in> CD_bodies C"
    have f: "pack_inv C bp S (g, t) (al_put (pack_snapshotKey bp ?id) \<lparr> OB_Body = ?b, OB_Meta = [] \<rparr> objs)"
      "bodies_kept bp objs (al_put (pack_snapshotKey bp ?id) \<lparr> OB_Body = ?b, OB_Meta = [] \<rparr> objs)"
      using pack_put_frame [OF C inv _ disjI2 [OF refl], of ?b] p by simp_all
    have "pack_manifest C bp (al_put (pack_snapshotKey bp ?id) \<lparr> OB_Body = ?b, OB_Meta = [] \<rparr> objs) m cs"
      using p all_located_kept [OF C _ f(2)] unfolding pack_manifest_def by blast
    then show "pack_inv C bp S (g, t) (al_put (pack_snapshotKey bp i) \<lparr> OB_Body = ?b, OB_Meta = [] \<rparr> objs)
      \<and> ?there (al_put (pack_snapshotKey bp i) \<lparr> OB_Body = ?b, OB_Meta = [] \<rparr> objs) \<and> i = ?id" using f(1) p by simp
  qed
  have kept: "?there objs" if P: "?P objs \<and> i = ?id \<and> ?b \<in> CD_bodies C" and hm: "prevHM = Some (h, m')" "PH_Snapshot h = i" for objs i h m'
  proof -
    obtain g cs t where h: "pack_headed C bp O' g m' cs t" "PH_Snapshot h = CD_digest C (ManifestBody m')"
      using prev(2) hm(1) by (auto simp: pack_prev_ok_def)
    then have "CD_digest C (ManifestBody m') = ?id" using hm P by simp
    then obtain ob where ob: "map_of O' (pack_snapshotKey bp ?id) = Some ob" "OB_Body ob = ManifestBody m'"
      using h(1) by (auto simp: pack_headed_def)
    have hid: "hex_id ?id" by (rule codec_okD(8) [OF C])
    have "pack_good C bp O'" using prev(1) by (simp add: pack_ok_def)
    from this [unfolded pack_good_def, rule_format, OF hid disjI2 [OF ob(1)]]
    have "CD_digest C (ManifestBody m') = ?id" "ManifestBody m' \<in> CD_bodies C" using ob(2) by simp_all
    then have b: "ManifestBody m' = ?b" using codec_okD(9) [OF C, of "ManifestBody m'" ?b] P by simp
    have "bodies_kept bp O' objs" using P by simp
    from this [unfolded bodies_kept_def, rule_format, OF hid, THEN conjunct2, rule_format, OF ob(1)] show ?thesis
      using P ob(2) b by simp
  qed
  have first: "obj_ok (digests_seen C) (pack_inv C bp S (g, t)) (\<lambda>objs. ?P objs \<and> i = ?id \<and> ?b \<in> CD_bodies C)
      (if (case prevHM of None \<Rightarrow> True | Some (h, _) \<Rightarrow> PH_Snapshot h \<noteq> i) then obj_put (pack_snapshotKey bp i) ?b [] else io_return ())
      (\<lambda>_ objs. ?there objs \<and> i = ?id)" for i
  proof (cases "case prevHM of None \<Rightarrow> True | Some (h, _) \<Rightarrow> PH_Snapshot h \<noteq> i")
    case True
    then show ?thesis using put by simp
  next
    case False
    then obtain h m' where "prevHM = Some (h, m')" "PH_Snapshot h = i" by (auto split: option.splits)
    then show ?thesis using False kept by (auto intro!: obj_ok_return)
  qed
  have head: "obj_ok (digests_seen C) (pack_inv C bp S (g, t)) (\<lambda>objs. ?there objs \<and> i = ?id)
      (obj_put (pack_headKey bp) (HeadBody \<lparr> PH_Snapshot = i, PH_Generation = g, PH_Bytes = IX_Length (stream_index C cs) \<rparr>) (commit_meta g (stream_index C cs)))
      (\<lambda>_ objs. pack_snap C bp objs = Some (g, t))" for i
    unfolding obj_put_def by (rule obj_ok_write) (use pack_put_head [OF C _ g cs] in blast)
  show ?thesis unfolding pack_commit_def by (rule obj_ok_bind [OF dig obj_ok_bind [OF first head]])
qed

definition pack_content :: "string list option \<Rightarrow> walk \<Rightarrow> tree_entry list" where
  "pack_content volumeRoots w = kept (filter_roots volumeRoots) (fst w)"

text \<open>The chunks are among those whose digests do not collide, and an overfull buffer is still an \<open>int64\<close>.\<close>

definition pack_fits :: "Codec \<Rightarrow> int \<Rightarrow> string list option \<Rightarrow> walk \<Rightarrow> bool" where
  "pack_fits C targetBytes volumeRoots w \<longleftrightarrow> set (pack_chunks C (filter_roots volumeRoots) w) \<subseteq> CD_seen C
     \<and> list_all (\<lambda>c. PW_target (newPackWriter targetBytes []) + int (length (CD_storage C c)) \<le> max_int64)
         (pack_chunks C (filter_roots volumeRoots) w)"

lemma bodies_kept_refl: "bodies_kept bp objs objs"
  by (simp add: bodies_kept_def)

lemma pack_Persist_ok:
  assumes C: "codec_ok C" and g: "0 \<le> g" "g \<le> max_int64" and roots: "newSnapshotFilter volumeRoots = Inr roots"
    and fits: "pack_fits C targetBytes volumeRoots w" and ok: "pack_ok C (pack_bedPrefix pfx bedID) O'"
    and D: "walked_whole w \<Longrightarrow> D = (g, kept roots (fst w))"
  defines "bp \<equiv> pack_bedPrefix pfx bedID" and "d \<equiv> kept roots (fst w)"
  shows "obj_ok (digests_seen C) (pack_inv C bp (pack_snap C bp O') D) (\<lambda>objs. objs = O')
    (pack_Persist C targetBytes pfx bedID volumeRoots g w) (\<lambda>_ objs. walked_whole w \<and> pack_snap C bp objs = Some D)"
proof -
  let ?I = "pack_inv C bp (pack_snap C bp O') D" and ?A = "digests_seen C" and ?cs = "pack_chunks C roots w"
  define target where "target = PW_target (newPackWriter targetBytes [])"
  have target: "0 < target" by (simp add: target_def newPackWriter_def packTargetBytes_def)
  have roots': "filter_roots volumeRoots = roots" using roots by (simp add: filter_roots_def)
  have cs: "set ?cs \<subseteq> CD_seen C" and len: "\<And>c. c \<in> set ?cs \<Longrightarrow> target + int (length (CD_storage C c)) \<le> max_int64"
    using fits by (auto simp: pack_fits_def roots' target_def list_all_iff)
  have t: "concat ?cs = CD_catar C d" by (simp add: pack_chunks_def d_def codec_okD [OF C])
  have head: "obj_ok ?A ?I (\<lambda>objs. objs = O') (obj_head (pack_headKey bp))
      (\<lambda>prev objs. objs = O' \<and> (prev = None \<longleftrightarrow> map_of O' (pack_headKey bp) = None))"
    unfolding obj_head_def by (rule obj_ok_read) auto
  have check: "obj_ok ?A ?I P (io_check err) (\<lambda>_. P)" for P err by (rule obj_ok_check)
  have new: "between C bp O' target [] (newPackWriter targetBytes known) O'" if "all_located C bp O' known" for known
    using that target by (simp add: between_def writing_def newPackWriter_def target_def bodies_kept_refl pending_ok_def)
  have fold: "obj_ok ?A ?I (between C bp O' target [] pw) (io_fold (pack_worker C bp) pw (CD_order C ?cs)) (between C bp O' target ([] @ CD_order C ?cs))" for pw
    by (rule obj_ok_fold [where R = "between C bp O' target"], rule pack_worker_ok [OF C _ target]) (use cs len codec_okD(3) [OF C] in auto)
  have flush: "obj_ok ?A ?I (between C bp O' target ([] @ CD_order C ?cs) pw) (pack_flushLocked C bp pw)
      (\<lambda>pw' objs. bodies_kept bp O' objs \<and> all_located C bp objs (PW_locations pw'))" for pw
    by (rule obj_ok_weaken [OF obj_ok_strengthen [OF pack_flush_ok [OF C]]]) (auto simp: between_def writing_def)
  have build: "obj_ok ?A ?I (\<lambda>objs. bodies_kept bp O' objs \<and> all_located C bp objs locs) (io_get (\<lambda>_. buildPackManifest (stream_index C ?cs) locs))
      (\<lambda>m objs. bodies_kept bp O' objs \<and> pack_manifest C bp objs m ?cs)" for locs
    by (rule obj_ok_get) (use built_manifest [OF C cs] in blast)
  have walked: "obj_ok ?A ?I P (io_check (if snd w then Some WalkFailed else None)) (\<lambda>_ objs. walked_whole w \<and> P objs)" for P
    by (rule obj_ok_check) (auto split: if_splits)
  have rest: "obj_ok ?A ?I (\<lambda>objs. objs = O' \<and> pack_prev_ok C bp O' prevHM \<and> all_located C bp O' known)
      (io_bind (io_fold (pack_worker C bp) (newPackWriter targetBytes known) (CD_order C ?cs)) (\<lambda>pw.
       io_bind (io_check (if snd w then Some WalkFailed else None)) (\<lambda>_.
       io_bind (pack_flushLocked C bp pw) (\<lambda>pw.
       io_bind (io_get (\<lambda>_. buildPackManifest (stream_index C ?cs) (PW_locations pw))) (\<lambda>m.
       pack_commit C bp g prevHM (stream_index C ?cs) m)))))
      (\<lambda>_ objs. walked_whole w \<and> pack_snap C bp objs = Some D)" for prevHM known
  proof (cases "pack_prev_ok C bp O' prevHM \<and> all_located C bp O' known")
    case True
    have tail: "obj_ok ?A ?I (\<lambda>objs. walked_whole w \<and> between C bp O' target ([] @ CD_order C ?cs) pw objs)
        (io_bind (pack_flushLocked C bp pw) (\<lambda>pw. io_bind (io_get (\<lambda>_. buildPackManifest (stream_index C ?cs) (PW_locations pw))) (\<lambda>m.
         pack_commit C bp g prevHM (stream_index C ?cs) m))) (\<lambda>_ objs. walked_whole w \<and> pack_snap C bp objs = Some D)" for pw
    proof (cases "walked_whole w")
      case whole: True
      have commit: "obj_ok ?A ?I (\<lambda>objs. bodies_kept bp O' objs \<and> pack_manifest C bp objs m ?cs) (pack_commit C bp g prevHM (stream_index C ?cs) m)
        (\<lambda>_ objs. pack_snap C bp objs = Some D)" for m
        using pack_commit_ok [OF C g t ok [folded bp_def]] True D [OF whole, folded d_def] by blast
      show ?thesis using obj_ok_bind [OF flush obj_ok_bind [OF build commit], of pw] whole by (simp del: append_Nil)
    qed (simp add: obj_ok_def)
    show ?thesis
      by (rule obj_ok_strengthen [OF obj_ok_bind [OF fold obj_ok_bind [OF walked tail]]]) (use new True in blast)
  next
    case False
    then show ?thesis by (auto simp: obj_ok_def)
  qed
  show ?thesis
    unfolding pack_Persist_def roots sum.case Let_def bp_def [symmetric]
    by (rule obj_ok_bind [OF head obj_ok_bind [OF check obj_ok_bind [OF pack_previous_ok [OF C] obj_ok_bind [OF pack_known_ok rest]]]])
qed

section \<open>Reading through the cache\<close>

lemma pack_fetch_reads:
  assumes C: "codec_ok C" and ob: "map_of objs (pack_packKey bp p) = Some ob" "OB_Body ob = Bytes d" "CD_digest C (Bytes d) = p"
    and cache: "cache_agrees bp objs cache" "length cache \<le> packReadCache" "distinct (keys cache)"
  shows "\<exists>cache'. obj_reads objs (pack_fetch C bp cache p) (d, cache') \<and> cache_agrees bp objs cache' \<and> length cache' \<le> packReadCache \<and> distinct (keys cache')"
proof (cases "map_of cache p")
  case (Some d')
  then have "(p, d') \<in> set cache" by (rule map_of_SomeD)
  then have d: "d' = d" using cache(1) ob unfolding cache_agrees_def by fastforce
  have "cache_agrees bp objs ((p, d) # al_del p cache)" using cache(1) ob by (auto simp: cache_agrees_def al_del_def)
  moreover have "length ((p, d) # al_del p cache) \<le> packReadCache"
  proof -
    have "length (al_del p cache) < length cache" unfolding al_del_def
      by (rule length_filter_less [of "(p, d')"]) (use \<open>(p, d') \<in> set cache\<close> in auto)
    then show ?thesis using cache(2) by simp
  qed
  moreover have "distinct (keys ((p, d) # al_del p cache))" using cache(3) by (auto simp: al_del_def distinct_map_filter)
  moreover have "obj_reads objs (pack_fetch C bp cache p) (d, (p, d) # al_del p cache)" using Some d by (simp add: pack_fetch_def obj_reads_return)
  ultimately show ?thesis by blast
next
  case None
  let ?c = "(p, d) # cache"
  let ?c' = "if packReadCache < length ?c then butlast ?c else ?c"
  have get: "obj_reads objs (obj_get (pack_packKey bp p)) (Bytes d)" unfolding obj_get_def by (rule obj_reads_read) (simp add: ob)
  have "obj_reads objs (pack_fetch C bp cache p) (d, ?c')"
    unfolding pack_fetch_def None option.case by (rule obj_reads_bind [OF get]) (simp add: ob(3) Let_def obj_reads_return)
  moreover have "cache_agrees bp objs ?c" using cache(1) ob by (auto simp: cache_agrees_def)
  then have "cache_agrees bp objs ?c'" by (auto simp: cache_agrees_def dest: in_set_butlastD)
  moreover have "length ?c' \<le> packReadCache" using cache(2) by simp
  moreover have "distinct (keys ?c)" using cache(3) None by (auto simp: map_of_eq_None_iff)
  then have "distinct (keys ?c')" by (simp add: map_butlast distinct_butlast del: butlast.simps)
  ultimately show ?thesis by blast
qed

text \<open>Reading a chunk gives the chunk, whatever the cache holds, and keeps the cache within its bound.\<close>

definition cache_ok :: "string \<Rightarrow> objects \<Rightarrow> pack_cache \<Rightarrow> bool" where
  "cache_ok bp objs cache \<longleftrightarrow> cache_agrees bp objs cache \<and> length cache \<le> packReadCache \<and> distinct (keys cache)"

lemma pack_GetChunk_reads:
  assumes C: "codec_ok C" and l: "map_of locs (CD_id C c) = Some l" "located C bp objs c l" and cache: "cache_ok bp objs cache"
  shows "\<exists>cache'. obj_reads objs (pack_GetChunk C bp locs cache (CD_id C c)) (c, cache') \<and> cache_ok bp objs cache'"
proof -
  obtain ob d where ob: "map_of objs (pack_packKey bp (PL_pack l)) = Some ob" "OB_Body ob = Bytes d" "CD_digest C (Bytes d) = PL_pack l"
    and slice: "pack_slice l d = Inr (CD_storage C c)" using l(2) by (auto simp: located_def)
  obtain cache' where f: "obj_reads objs (pack_fetch C bp cache (PL_pack l)) (d, cache')" "cache_ok bp objs cache'"
    using pack_fetch_reads [OF C ob] cache by (auto simp: cache_ok_def)
  have "obj_reads objs (pack_GetChunk C bp locs cache (CD_id C c)) (c, cache')"
    unfolding pack_GetChunk_def l(1) option.case
    by (rule obj_reads_bind [OF f(1)])
      (simp, rule obj_reads_bind [OF obj_reads_get obj_reads_return], simp add: slice load_chunk_stored [OF C])
  then show ?thesis using f(2) by blast
qed

lemma pack_read_all:
  assumes C: "codec_ok C" and locs: "all_located C bp objs locs"
  shows "set cs \<subseteq> CD_seen C \<Longrightarrow> \<forall>c \<in> set cs. map_of locs (CD_id C c) \<noteq> None \<Longrightarrow> cache_ok bp objs cache
    \<Longrightarrow> \<exists>cache'. obj_reads objs (io_fold (pack_read_next C bp locs) (got, cache) (map (CD_id C) cs)) (got @ cs, cache')"
proof (induction cs arbitrary: got cache)
  case Nil
  show ?case by (auto intro: obj_reads_return)
next
  case (Cons c cs)
  then obtain l where l: "map_of locs (CD_id C c) = Some l" by auto
  have "located C bp objs c l" using locs l Cons.prems(1) by (simp add: all_located_def)
  then obtain c1 where c1: "obj_reads objs (pack_GetChunk C bp locs cache (CD_id C c)) (c, c1)" "cache_ok bp objs c1"
    using pack_GetChunk_reads [OF C l _ Cons.prems(3)] by blast
  have step: "obj_reads objs (pack_read_next C bp locs (got, cache) (CD_id C c)) (got @ [c], c1)"
    unfolding pack_read_next_def prod.case by (rule obj_reads_bind [OF c1(1)]) (simp add: obj_reads_return)
  obtain c2 where "obj_reads objs (io_fold (pack_read_next C bp locs) (got @ [c], c1) (map (CD_id C) cs)) ((got @ [c]) @ cs, c2)"
    using Cons.IH [OF _ _ c1(2), of "got @ [c]"] Cons.prems(1,2) by auto
  then have "obj_reads objs (io_fold (pack_read_next C bp locs) (got, cache) (map (CD_id C) (c # cs))) (got @ c # cs, c2)"
    using obj_reads_bind [OF step] by simp
  then show ?case by blast
qed

lemma pack_Restore_reads:
  assumes C: "codec_ok C" and ok: "pack_ok C (pack_bedPrefix pfx bedID) objs" and snap: "pack_snap C (pack_bedPrefix pfx bedID) objs = Some (g, d)"
  shows "obj_reads objs (pack_Restore C pfx bedID) d"
proof -
  let ?bp = "pack_bedPrefix pfx bedID"
  obtain m cs where h: "pack_headed C ?bp objs g m cs d" using pack_ok_snap [OF C ok snap] by blast
  obtain hd where hd: "PH_Snapshot hd = CD_digest C (ManifestBody m)" "obj_reads objs (pack_loadHead ?bp) hd" using pack_loads(1) [OF C h] by blast
  have m: "obj_reads objs (pack_loadManifest C ?bp (PH_Snapshot hd)) m" using pack_loads(2) [OF C h] hd(1) by simp
  obtain locs where locs: "PM_Index m = Some (stream_index C cs)" "manifestLocations m = Inr locs" "set cs \<subseteq> CD_seen C"
    "\<forall>c \<in> set cs. map_of locs (CD_id C c) \<noteq> None" "all_located C ?bp objs locs" and cs: "concat cs = CD_catar C d"
    using h by (auto simp: pack_headed_def pack_manifest_def)
  have "cache_ok ?bp objs []" by (simp add: cache_ok_def cache_agrees_def)
  from pack_read_all [OF C locs(5,3,4) this, of "[]"]
  obtain cache where all: "obj_reads objs (io_fold (pack_read_next C ?bp locs) ([], []) (map (CD_id C) cs)) (cs, cache)" by auto
  have fin: "obj_reads objs (io_bind (io_fold (pack_read_next C ?bp locs) ([], []) (map (CD_id C) cs)) (\<lambda>(got, _).
      case CD_untar C (concat got) of None \<Rightarrow> io_fail (Corrupt bedID) | Some t \<Rightarrow> io_return t)) d"
    by (rule obj_reads_bind [OF all]) (simp add: cs codec_okD [OF C] obj_reads_return)
  have all': "list_all (\<lambda>c. map_of locs c \<noteq> None) (map (CD_id C) cs)" using locs(4) by (simp add: list_all_iff)
  show ?thesis
    unfolding pack_Restore_def Let_def
    by (rule obj_reads_bind [OF hd(2)], rule obj_reads_bind [OF m], unfold locs(1) option.case)
      (rule obj_reads_bind [OF obj_reads_get [of _ locs]], simp add: locs(2), use fin all' in \<open>simp add: stream_index_def\<close>)
qed

section \<open>The layout\<close>

lemma pack_Persist_run:
  assumes C: "codec_ok C" and ok: "pack_ok C (pack_bedPrefix pfx bedID) (RM_Objects r)" and g: "0 \<le> g" "g \<le> max_int64"
    and fits: "pack_fits C targetBytes volumeRoots w" and run: "pack_Persist C targetBytes pfx bedID volumeRoots g w r = (t, res, r')"
    and seen: "\<forall>y \<in> set t. digests_seen C y"
  defines "bp \<equiv> pack_bedPrefix pfx bedID"
  shows "(\<forall>x \<in> set (r' # t). pack_ok C bp (RM_Objects x) \<and> (pack_snap C bp (RM_Objects x) = pack_snap C bp (RM_Objects r)
        \<or> walked_whole w \<and> pack_snap C bp (RM_Objects x) = Some (g, pack_content volumeRoots w)))
    \<and> (\<forall>u. res = Inr u \<longrightarrow> walked_whole w \<and> pack_snap C bp (RM_Objects r') = Some (g, pack_content volumeRoots w))"
proof (cases "newSnapshotFilter volumeRoots")
  case (Inl e)
  then show ?thesis using run ok by (auto simp: pack_Persist_def io_fail_def bp_def)
next
  case (Inr roots)
  have d: "pack_content volumeRoots w = kept roots (fst w)" using Inr by (simp add: pack_content_def filter_roots_def)
  note P = pack_Persist_ok [OF C g Inr fits ok, folded bp_def]
  show ?thesis
  proof (cases "walked_whole w")
    case True
    show ?thesis using obj_okD [OF P [of "(g, kept roots (fst w))"] _ refl run seen] ok True by (simp add: pack_inv_def d bp_def)
  next
    case False
    note P0 = obj_okD [OF P [of "(0, [])"] _ refl run seen] and P1 = obj_okD [OF P [of "(1, [])"] _ refl run seen]
    have "pack_ok C bp (RM_Objects x) \<and> pack_snap C bp (RM_Objects x) = pack_snap C bp (RM_Objects r)" if "x \<in> set (r' # t)" for x
    proof -
      have "pack_inv C bp (pack_snap C bp (RM_Objects r)) (0, []) (RM_Objects x)" "pack_inv C bp (pack_snap C bp (RM_Objects r)) (1, []) (RM_Objects x)"
        using P0(1) P1(1) that False ok by (auto simp: pack_inv_def bp_def)
      then show ?thesis by (auto simp: pack_inv_def)
    qed
    moreover have "res \<noteq> Inr u" for u using P0(2) [of u] False ok by (auto simp: pack_inv_def bp_def)
    ultimately show ?thesis by simp
  qed
qed

lemma pack_Persist_fenced:
  assumes C: "codec_ok C" and ok: "pack_ok C (pack_bedPrefix pfx bedID) (RM_Objects r)"
    and snap: "pack_snap C (pack_bedPrefix pfx bedID) (RM_Objects r) = Some (g', d')" and g: "g \<le> g'"
    and run: "pack_Persist C targetBytes pfx bedID volumeRoots g w r = (t, res, r')"
  shows "t = [] \<and> RM_Objects r' = RM_Objects r \<and> (\<nexists>u. res = Inr u)"
proof (cases "newSnapshotFilter volumeRoots")
  case (Inl e)
  then show ?thesis using run by (auto simp: pack_Persist_def io_fail_def)
next
  case (Inr roots)
  obtain ob where ob: "map_of (RM_Objects r) (pack_headKey (pack_bedPrefix pfx bedID)) = Some ob" "meta_int ob generationMetaKey = Some g'"
    using pack_ok_snap [OF C ok snap] by (auto simp: pack_headed_def)
  have "obj_reads (RM_Objects r) (obj_head (pack_headKey (pack_bedPrefix pfx bedID))) (Some ob)"
    unfolding obj_head_def by (rule obj_reads_read) (simp add: ob)
  from obj_reads_reject [OF this _ run [unfolded pack_Persist_def Inr sum.case Let_def]] show ?thesis using ob(2) g by (simp add: fence_def)
qed

interpretation pack: snapshot_layout "\<lambda>objs. codec_ok C \<and> pack_ok C (pack_bedPrefix pfx bedID) objs" "pack_snap C (pack_bedPrefix pfx bedID)"
  "pack_content volumeRoots" walked_whole "pack_fits C targetBytes volumeRoots" "digests_seen C" "pack_Persist C targetBytes pfx bedID volumeRoots"
  "pack_Restore C pfx bedID"
  for C targetBytes pfx bedID volumeRoots
proof (unfold_locales, goal_cases)
  case (1 r g w t res r' x)
  then show ?case using pack_Persist_run [of C pfx bedID r g targetBytes volumeRoots w t res r'] by (auto simp: pack_inv_def)
next
  case (2 r g w t u r')
  then show ?case using pack_Persist_run [of C pfx bedID r g targetBytes volumeRoots w t "Inr u" r'] by simp
next
  case (3 r g' d' g w t res r')
  then show ?case using pack_Persist_fenced by blast
next
  case (4 r g d t out r')
  have "obj_reads (RM_Objects r) (pack_Restore C pfx bedID) d" using 4(1,2) by (auto intro: pack_Restore_reads)
  from obj_readsD [OF this 4(3)] show ?case using 4(1,2) by simp
qed

end
