(* ===== verification/Store_Tar.thy ===== *)
theory Store_Tar
  imports Store_Objects Bed_Names
begin

text \<open>
  The full-archive layout (\<open>src/internal/bed/store/sync/tar.go\<close>): one object per Bed holds the whole archive and is the commit point. The archive is kept as
  the list of its entries; the encoding by the Go packages \<open>archive/tar\<close> and \<open>compress/gzip\<close> is not spelled out. The checks on names and
  links on both sides are, and they differ: what cannot be restored can be persisted. For trees without such names the layout is an interpretation
  of \<open>snapshot_layout\<close>.
\<close>

section \<open>Names and links in archives\<close>

abbreviation backslash :: char where
  "backslash \<equiv> CHR 0x5C"

definition tar_snapshotKey :: "string \<Rightarrow> string \<Rightarrow> string" where
  "tar_snapshotKey pfx bedID = path_join [pfx, ''tar'', bedID] @ ''/snapshot.tar.gz''"

text \<open>\<open>fs.ValidPath\<close>\<close>

definition ValidPath :: "string \<Rightarrow> bool" where
  "ValidPath name \<longleftrightarrow> valid_utf8 name \<and> (name = ''.'' \<or> list_all plain_component (split_on slash name))"

definition cleanTarPath :: "string \<Rightarrow> string option" where
  "cleanTarPath name =
     (if backslash \<in> set name then None
      else let clean = path_clean name in if clean = ''.'' \<or> \<not> ValidPath clean then None else Some clean)"

definition validateTarSymlink :: "string \<Rightarrow> string \<Rightarrow> bool" where
  "validateTarSymlink name target \<longleftrightarrow>
     \<not> (target = [] \<or> path_is_abs target \<or> backslash \<in> set target)
     \<and> (let resolved = path_clean (path_join [path_dir name, target]) in \<not> (resolved = ''..'' \<or> has_prefix resolved ''../''))"

section \<open>Archives\<close>

text \<open>A walk visits a directory before what is in it; an excluded directory is not entered.\<close>

function walk_kept :: "(string \<Rightarrow> string \<Rightarrow> bool) \<Rightarrow> string list \<Rightarrow> tree_entry list \<Rightarrow> (store_error, tree_entry list) result" where
  "walk_kept link roots [] = Inr []"
| "walk_kept link roots (e # es) =
     (if TE_Path e = ''.'' then walk_kept link roots es
      else if filter_excluded roots (TE_Path e)
      then walk_kept link roots (if TE_Kind e = Folder then dropWhile (\<lambda>x. has_prefix (TE_Path x) (TE_Path e @ ''/'')) es else es)
      else case TE_Kind e of
          Special \<Rightarrow> Inl (Unsupported (TE_Path e))
        | Symlink target \<Rightarrow>
            if link (TE_Path e) target then res_bind (walk_kept link roots es) (\<lambda>hs. Inr (e # hs)) else Inl (Unsupported (TE_Path e))
        | _ \<Rightarrow> res_bind (walk_kept link roots es) (\<lambda>hs. Inr (e # hs)))"
  by pat_completeness auto

termination
  by (relation "measure (length \<circ> snd \<circ> snd)") (auto simp: less_Suc_eq_le length_dropWhile_le)

definition writeTar :: "string list \<Rightarrow> tree_entry list \<Rightarrow> (store_error, tree_entry list) result" where
  "writeTar = walk_kept validateTarSymlink"

definition writeTarGzip :: "string list \<Rightarrow> walk \<Rightarrow> (store_error, tree_entry list) result" where
  "writeTarGzip roots w = res_bind (writeTar roots (fst w)) (\<lambda>hs. if snd w then Inl WalkFailed else Inr hs)"

text \<open>Of the mode only the permission bits are restored.\<close>

definition restored :: "string \<Rightarrow> tree_entry \<Rightarrow> tree_entry" where
  "restored name h = h\<lparr>TE_Path := name, TE_Mode := TE_Mode h mod 512\<rparr>"

fun readTar :: "string list \<Rightarrow> tree_entry list \<Rightarrow> (store_error, tree_entry list) result" where
  "readTar found [] = Inr []"
| "readTar found (h # hs) =
     (case cleanTarPath (TE_Path h) of
        None \<Rightarrow> Inl (Unsupported (TE_Path h))
      | Some name \<Rightarrow>
          if name \<in> set found then Inl (Unsupported name)
          else case TE_Kind h of
              Special \<Rightarrow> Inl (Unsupported name)
            | Symlink target \<Rightarrow>
                if validateTarSymlink name target
                then res_bind (readTar (name # found) hs) (\<lambda>es. Inr (restored name h # es)) else Inl (Unsupported name)
            | _ \<Rightarrow> res_bind (readTar (name # found) hs) (\<lambda>es. Inr (restored name h # es)))"

section \<open>Operations\<close>

definition tar_Stat :: "Codec \<Rightarrow> string \<Rightarrow> string \<Rightarrow> SnapshotInfo option remote_io" where
  "tar_Stat C pfx bedID =
     io_bind (obj_head (tar_snapshotKey pfx bedID)) (\<lambda>ob. io_return
       (map_option (\<lambda>ob. \<lparr> SI_Generation = SI_Generation (snapshot_info ob), SI_Bytes = CD_size C (OB_Body ob) \<rparr>) ob))"

definition tar_Persist :: "string \<Rightarrow> string \<Rightarrow> string list option \<Rightarrow> int \<Rightarrow> walk \<Rightarrow> unit remote_io" where
  "tar_Persist pfx bedID volumeRoots generation w =
     (case newSnapshotFilter volumeRoots of
        Inl e \<Rightarrow> io_fail e
      | Inr roots \<Rightarrow>
          io_bind (obj_head (tar_snapshotKey pfx bedID)) (\<lambda>prev.
          io_bind (io_check (fence prev generation)) (\<lambda>_.
          io_bind (io_get (\<lambda>_. writeTarGzip roots w)) (\<lambda>hs.
          obj_put (tar_snapshotKey pfx bedID) (ArchiveBody hs) [(generationMetaKey, itoa generation)]))))"

definition tar_Restore :: "string \<Rightarrow> string \<Rightarrow> tree_entry list remote_io" where
  "tar_Restore pfx bedID =
     io_bind (obj_get (tar_snapshotKey pfx bedID)) (\<lambda>b.
       io_get (\<lambda>_. case b of ArchiveBody hs \<Rightarrow> readTar [] hs | _ \<Rightarrow> Inl (DecodeFailed bedID)))"

definition tar_Delete :: "string \<Rightarrow> string \<Rightarrow> unit remote_io" where
  "tar_Delete pfx bedID = obj_delete [tar_snapshotKey pfx bedID]"

section \<open>What archives keep\<close>

definition tar_snap :: "string \<Rightarrow> string \<Rightarrow> objects \<Rightarrow> (int \<times> tree_entry list) option" where
  "tar_snap pfx bedID objs =
     (case map_of objs (tar_snapshotKey pfx bedID) of
        None \<Rightarrow> None
      | Some ob \<Rightarrow>
          (case (OB_Body ob, meta_int ob generationMetaKey) of
             (ArchiveBody hs, Some g) \<Rightarrow> (case readTar [] hs of Inr t \<Rightarrow> Some (g, t) | Inl _ \<Rightarrow> None)
           | _ \<Rightarrow> None))"

definition tar_ok :: "string \<Rightarrow> string \<Rightarrow> objects \<Rightarrow> bool" where
  "tar_ok pfx bedID objs \<longleftrightarrow> map_of objs (tar_snapshotKey pfx bedID) = None \<or> tar_snap pfx bedID objs \<noteq> None"

definition tar_content :: "string list option \<Rightarrow> walk \<Rightarrow> tree_entry list" where
  "tar_content volumeRoots w = map (\<lambda>e. restored (TE_Path e) e) (filter (\<lambda>e. TE_Path e \<noteq> ''.'') (kept (filter_roots volumeRoots) (fst w)))"

definition tidy :: "string \<Rightarrow> bool" where
  "tidy p \<longleftrightarrow> p \<noteq> [] \<and> hd p \<noteq> slash \<and> last p \<noteq> slash"

text \<open>The walks that can be restored: every entry is named once, by a clean path that the reader takes.\<close>

definition tar_fits :: "walk \<Rightarrow> bool" where
  "tar_fits w \<longleftrightarrow> distinct (map TE_Path (fst w)) \<and> list_all (\<lambda>e. TE_Path e = ''.'' \<or> cleanTarPath (TE_Path e) = Some (TE_Path e)) (fst w)"

lemma trim_slashes_tidy: "tidy p \<Longrightarrow> trim_slashes p = p"
proof -
  assume p: "tidy p"
  then have "dropWhile (\<lambda>c. c = slash) p = p" "dropWhile (\<lambda>c. c = slash) (rev p) = rev p"
    by (simp_all add: tidy_def dropWhile_eq_self_iff hd_rev)
  then show ?thesis by (simp add: trim_slashes_def)
qed

lemma pathWithin_iff: "pathWithin p d \<longleftrightarrow> p = d \<or> (\<exists>x. p = d @ slash # x)"
  by (auto simp: pathWithin_def has_prefix_iff)

text \<open>What is in an excluded directory is excluded, so not entering it loses nothing.\<close>

lemma excluded_child:
  assumes d: "filter_excluded roots d" "tidy d" and p: "has_prefix p (d @ ''/'')" "tidy p"
  shows "filter_excluded roots p"
proof (rule ccontr)
  assume "\<not> filter_excluded roots p"
  moreover obtain x where x: "p = d @ slash # x" using p(1) by (auto simp: has_prefix_iff)
  moreover have "p \<noteq> ''.''" "p \<noteq> ''meta.json''" using x d(2) by (auto simp: tidy_def append_eq_Cons_conv)
  ultimately obtain root where root: "root \<in> set roots" "pathWithin p root \<or> pathWithin root p"
    using trim_slashes_tidy [OF p(2)] by (auto simp: filter_excluded_def Let_def)
  have "pathWithin d root \<or> pathWithin root d"
    using root(2)
  proof
    assume "pathWithin root p"
    then show ?thesis using x by (auto simp: pathWithin_iff)
  next
    assume "pathWithin p root"
    then consider "p = root" | y where "d @ slash # x = root @ slash # y" using x by (auto simp: pathWithin_iff)
    then show ?thesis
    proof cases
      case 1
      then show ?thesis using x by (auto simp: pathWithin_iff)
    next
      case 2
      then obtain us where "d = root @ us \<and> us @ slash # x = slash # y \<or> d @ us = root \<and> slash # x = us @ slash # y"
        by (auto simp: append_eq_append_conv2)
      then show ?thesis by (auto simp: pathWithin_iff append_eq_Cons_conv Cons_eq_append_conv)
    qed
  qed
  then show False using root(1) d trim_slashes_tidy [OF d(2)] by (auto simp: filter_excluded_def Let_def)
qed

lemma ValidPath_tidy: "ValidPath p \<Longrightarrow> p \<noteq> ''.'' \<Longrightarrow> tidy p"
proof -
  assume "ValidPath p" "p \<noteq> ''.''"
  then have plain: "list_all plain_component (split_on slash p)" by (simp add: ValidPath_def)
  then have ne: "p \<noteq> []" by (auto simp: plain_component_def)
  have "hd p \<noteq> slash" using plain ne by (cases p) (auto simp: plain_component_def split: if_splits)
  moreover have "last p \<noteq> slash"
  proof
    assume "last p = slash"
    then have "p = butlast p @ slash # []" using ne append_butlast_last_id [OF ne] by simp
    then have "split_on slash p = split_on slash (butlast p) @ [[]]" using split_on_snoc [of slash "[]" "butlast p"] by simp
    then show False using plain by (simp add: plain_component_def)
  qed
  ultimately show ?thesis using ne by (simp add: tidy_def)
qed

lemma cleanTarPath_tidy: "cleanTarPath p = Some q \<Longrightarrow> tidy q"
  by (auto simp: cleanTarPath_def Let_def intro: ValidPath_tidy split: if_splits)

lemma walk_kept_filter:
  assumes "walk_kept link roots es = Inr hs" and "list_all (\<lambda>e. TE_Path e = ''.'' \<or> tidy (TE_Path e)) es"
  shows "hs = filter (\<lambda>e. TE_Path e \<noteq> ''.'') (kept roots es)
    \<and> list_all (\<lambda>e. TE_Kind e \<noteq> Special \<and> (\<forall>target. TE_Kind e = Symlink target \<longrightarrow> link (TE_Path e) target)) hs"
  using assms
proof (induction link roots es arbitrary: hs rule: walk_kept.induct)
  case (1 link roots)
  then show ?case by (simp add: kept_def)
next
  case (2 link roots e es)
  consider "TE_Path e = ''.''" | "TE_Path e \<noteq> ''.''" "filter_excluded roots (TE_Path e)" | "TE_Path e \<noteq> ''.''" "\<not> filter_excluded roots (TE_Path e)"
    by blast
  then show ?case
  proof cases
    case 1
    then show ?thesis using 2 by (auto simp: kept_def)
  next
    case 2
    let ?P = "\<lambda>x. has_prefix (TE_Path x) (TE_Path e @ ''/'')"
    let ?es = "if TE_Kind e = Folder then dropWhile ?P es else es"
    have tidy: "tidy (TE_Path e)" using 2 "2.prems"(2) by simp
    have out: "filter_excluded roots (TE_Path x)" if "x \<in> set (takeWhile ?P es)" for x
    proof -
      have "?P x" "x \<in> set es" using that set_takeWhileD by fast+
      then have "slash \<in> set (TE_Path x)" by (auto simp: has_prefix_iff)
      then have "TE_Path x \<noteq> ''.''" by auto
      then have "tidy (TE_Path x)" using "2.prems"(2) \<open>x \<in> set es\<close> by (auto simp: list_all_iff)
      then show ?thesis using excluded_child [OF 2(2) tidy \<open>?P x\<close>] by simp
    qed
    have "kept roots (takeWhile ?P es) = []" using out by (auto simp: kept_def filter_empty_conv)
    then have "kept roots (dropWhile ?P es) = kept roots (takeWhile ?P es @ dropWhile ?P es)" by (simp add: kept_def del: takeWhile_dropWhile_id)
    then have k: "kept roots ?es = kept roots (e # es)" using 2(2) by (simp add: kept_def)
    have "list_all (\<lambda>e. TE_Path e = ''.'' \<or> tidy (TE_Path e)) ?es" using "2.prems"(2) set_dropWhileD by (fastforce simp: list_all_iff)
    moreover have "walk_kept link roots ?es = Inr hs" using "2.prems"(1) 2 by simp
    ultimately show ?thesis using "2.IH"(2) [OF 2] k by auto
  next
    case 3
    then obtain hs' where hs': "walk_kept link roots es = Inr hs'" "hs = e # hs'"
      and e: "TE_Kind e \<noteq> Special \<and> (\<forall>target. TE_Kind e = Symlink target \<longrightarrow> link (TE_Path e) target)"
      using "2.prems"(1) by (cases "walk_kept link roots es"; cases "TE_Kind e") (auto split: if_splits)
    have "hs' = filter (\<lambda>e. TE_Path e \<noteq> ''.'') (kept roots es)
      \<and> list_all (\<lambda>e. TE_Kind e \<noteq> Special \<and> (\<forall>target. TE_Kind e = Symlink target \<longrightarrow> link (TE_Path e) target)) hs'"
    proof (cases "TE_Kind e")
      case Folder
      then show ?thesis using "2.IH"(3) [OF 3 Folder hs'(1)] "2.prems"(2) by auto
    next
      case (Regular content)
      then show ?thesis using "2.IH"(4) [OF 3 Regular hs'(1)] "2.prems"(2) by auto
    next
      case (Symlink target)
      then show ?thesis using "2.IH"(5) [OF 3 Symlink _ hs'(1)] e "2.prems"(2) by auto
    qed (use e in simp)
    then show ?thesis using 3 hs'(2) e by (auto simp: kept_def)
  qed
qed

lemma readTar_named:
  assumes "list_all (\<lambda>h. cleanTarPath (TE_Path h) = Some (TE_Path h)) hs"
    and "list_all (\<lambda>e. TE_Kind e \<noteq> Special \<and> (\<forall>target. TE_Kind e = Symlink target \<longrightarrow> validateTarSymlink (TE_Path e) target)) hs"
    and "distinct (map TE_Path hs)" and "set found \<inter> TE_Path ` set hs = {}"
  shows "readTar found hs = Inr (map (\<lambda>e. restored (TE_Path e) e) hs)"
  using assms
proof (induction hs arbitrary: found)
  case Nil
  show ?case by simp
next
  case (Cons h hs)
  then have "readTar (TE_Path h # found) hs = Inr (map (\<lambda>e. restored (TE_Path e) e) hs)" by auto
  then show ?case using Cons.prems by (auto split: entry_kind.split)
qed

lemma tar_roundtrip:
  assumes "tar_fits w" and "newSnapshotFilter volumeRoots = Inr roots" and "writeTarGzip roots w = Inr hs"
  shows "readTar [] hs = Inr (tar_content volumeRoots w)"
proof -
  have roots: "filter_roots volumeRoots = roots" using assms(2) by (simp add: filter_roots_def)
  have w: "writeTar roots (fst w) = Inr hs" using assms(3) by (cases "writeTar roots (fst w)") (auto simp: writeTarGzip_def split: if_splits)
  have "list_all (\<lambda>e. TE_Path e = ''.'' \<or> tidy (TE_Path e)) (fst w)"
    using assms(1) by (auto simp: tar_fits_def list_all_iff dest: cleanTarPath_tidy)
  note k = walk_kept_filter [OF w [unfolded writeTar_def] this]
  have "readTar [] hs = Inr (map (\<lambda>e. restored (TE_Path e) e) hs)"
  proof (rule readTar_named)
    show "list_all (\<lambda>h. cleanTarPath (TE_Path h) = Some (TE_Path h)) hs"
      using k assms(1) by (auto simp: tar_fits_def list_all_iff kept_def)
    show "distinct (map TE_Path hs)" using k assms(1) by (auto simp: tar_fits_def kept_def distinct_map_filter)
  qed (use k in auto)
  then show ?thesis using k by (simp add: tar_content_def roots)
qed

section \<open>The layout\<close>

lemma tar_meta: "0 \<le> g \<Longrightarrow> g \<le> max_int64 \<Longrightarrow> meta_int \<lparr> OB_Body = b, OB_Meta = [(generationMetaKey, itoa g)] \<rparr> generationMetaKey = Some g"
  by (simp add: meta_int_def atoi_itoa)

lemma writeTarGzip_whole: "writeTarGzip roots w = Inr hs \<Longrightarrow> walked_whole w"
  by (cases "writeTar roots (fst w)") (auto simp: writeTarGzip_def split: if_splits)

lemma tar_Persist_ok:
  fixes volumeRoots :: "string list option" and S :: "(int \<times> tree_entry list) option"
  assumes g: "0 \<le> g" "g \<le> max_int64" and fits: "tar_fits w"
  defines "D \<equiv> if walked_whole w then Some (g, tar_content volumeRoots w) else S"
  shows "obj_ok A (\<lambda>objs. tar_ok pfx bedID objs \<and> (tar_snap pfx bedID objs = S \<or> tar_snap pfx bedID objs = D)) (\<lambda>_. True)
    (tar_Persist pfx bedID volumeRoots g w) (\<lambda>_ objs. walked_whole w \<and> tar_snap pfx bedID objs = D)"
proof (cases "newSnapshotFilter volumeRoots")
  case (Inl e)
  then show ?thesis by (simp add: tar_Persist_def obj_ok_fail)
next
  case (Inr roots)
  let ?I = "\<lambda>objs. tar_ok pfx bedID objs \<and> (tar_snap pfx bedID objs = S \<or> tar_snap pfx bedID objs = D)"
  have head: "obj_ok A ?I (\<lambda>_. True) (obj_head (tar_snapshotKey pfx bedID)) (\<lambda>_ _. True)" unfolding obj_head_def by (rule obj_ok_read) simp
  have check: "obj_ok A ?I (\<lambda>_. True) (io_check err) (\<lambda>_ _. True)" for err by (rule obj_ok_check)
  have archive: "obj_ok A ?I (\<lambda>_. True) (io_get (\<lambda>_. writeTarGzip roots w)) (\<lambda>hs _. walked_whole w \<and> readTar [] hs = Inr (tar_content volumeRoots w))"
    by (rule obj_ok_get) (use tar_roundtrip [OF fits Inr] writeTarGzip_whole in blast)
  have put: "obj_ok A ?I (\<lambda>_. walked_whole w \<and> readTar [] hs = Inr (tar_content volumeRoots w))
      (obj_put (tar_snapshotKey pfx bedID) (ArchiveBody hs) [(generationMetaKey, itoa g)]) (\<lambda>_ objs. walked_whole w \<and> tar_snap pfx bedID objs = D)" for hs
    unfolding obj_put_def by (rule obj_ok_write) (simp add: tar_ok_def tar_snap_def D_def tar_meta [OF g])
  show ?thesis unfolding tar_Persist_def Inr sum.case by (rule obj_ok_bind [OF head obj_ok_bind [OF check obj_ok_bind [OF archive put]]])
qed

lemma tar_snapD:
  assumes "tar_snap pfx bedID objs = Some (g, d)"
  shows "\<exists>ob hs. map_of objs (tar_snapshotKey pfx bedID) = Some ob \<and> OB_Body ob = ArchiveBody hs \<and> meta_int ob generationMetaKey = Some g
    \<and> readTar [] hs = Inr d"
  using assms by (auto simp: tar_snap_def split: option.splits body.splits sum.splits)

lemma tar_Persist_fenced:
  assumes snap: "tar_snap pfx bedID (RM_Objects r) = Some (g', d')" and g: "g \<le> g'" and run: "tar_Persist pfx bedID volumeRoots g w r = (t, res, r')"
  shows "t = [] \<and> RM_Objects r' = RM_Objects r \<and> (\<nexists>u. res = Inr u)"
proof (cases "newSnapshotFilter volumeRoots")
  case (Inl e)
  then show ?thesis using run by (auto simp: tar_Persist_def io_fail_def)
next
  case (Inr roots)
  obtain ob where ob: "map_of (RM_Objects r) (tar_snapshotKey pfx bedID) = Some ob" "meta_int ob generationMetaKey = Some g'"
    using tar_snapD [OF snap] by auto
  have "obj_reads (RM_Objects r) (obj_head (tar_snapshotKey pfx bedID)) (Some ob)" unfolding obj_head_def by (rule obj_reads_read) (simp add: ob)
  from obj_reads_reject [OF this _ run [unfolded tar_Persist_def Inr sum.case]] show ?thesis using ob(2) g by (simp add: fence_def)
qed

lemma tar_Restore_reads:
  assumes "tar_snap pfx bedID objs = Some (g, d)"
  shows "obj_reads objs (tar_Restore pfx bedID) d"
proof -
  obtain ob hs where ob: "map_of objs (tar_snapshotKey pfx bedID) = Some ob" "OB_Body ob = ArchiveBody hs" "readTar [] hs = Inr d"
    using tar_snapD [OF assms] by blast
  show ?thesis
    unfolding tar_Restore_def obj_get_def
    by (rule obj_reads_bind [OF obj_reads_read [where x = "ArchiveBody hs"] obj_reads_get]) (simp_all add: ob)
qed

interpretation tar: snapshot_layout "tar_ok pfx bedID" "tar_snap pfx bedID" "tar_content volumeRoots" walked_whole tar_fits "\<lambda>_. True"
  "tar_Persist pfx bedID volumeRoots" "tar_Restore pfx bedID"
  for pfx bedID volumeRoots
proof (unfold_locales, goal_cases)
  case (1 r g w t res r' x)
  then show ?case
    using obj_okD(1) [OF tar_Persist_ok [of g w "\<lambda>_. True" pfx bedID "tar_snap pfx bedID (RM_Objects r)" volumeRoots] _ _ 1(5)] by (cases "walked_whole w") auto
next
  case (2 r g w t u r')
  then show ?case
    using obj_okD(2) [OF tar_Persist_ok [of g w "\<lambda>_. True" pfx bedID "tar_snap pfx bedID (RM_Objects r)" volumeRoots] _ _ 2(5)] by auto
next
  case (3 r g' d' g w t res r')
  then show ?case using tar_Persist_fenced by blast
next
  case (4 r g d t out r')
  have "obj_reads (RM_Objects r) (tar_Restore pfx bedID) d" using 4(1,2) by (auto intro: tar_Restore_reads)
  from obj_readsD [OF this 4(3)] show ?case using 4(1,2) by simp
qed

text \<open>
  A name with a backslash, or one that is not UTF-8, can be persisted but not restored: the writer does not look at names.
\<close>

lemma readTar_bad_name:
  "h \<in> set hs \<Longrightarrow> backslash \<in> set (TE_Path h) \<or> \<not> valid_utf8 (path_clean (TE_Path h)) \<Longrightarrow> \<exists>e. readTar found hs = Inl e"
proof (induction hs arbitrary: found)
  case (Cons x hs)
  show ?case
  proof (cases "x = h")
    case True
    then have "cleanTarPath (TE_Path x) = None" using Cons.prems(2) by (auto simp: cleanTarPath_def ValidPath_def)
    then show ?thesis by simp
  next
    case False
    then have "\<And>name. \<exists>e. readTar (name # found) hs = Inl e" using Cons by simp
    then have "\<And>name f. \<exists>e. res_bind (readTar (name # found) hs) f = (Inl e :: (store_error, tree_entry list) result)" by (metis res_bind.simps(1))
    then show ?thesis by (auto split: option.split entry_kind.split)
  qed
qed simp

end
