(* ===== verification/Store_Regions.thy ===== *)
theory Store_Regions
  imports Store_Cas Store_Pack Store_Tar
begin

text \<open>
  Which keys of the shared bucket each layout touches for one Bed. All layouts live under one prefix, and the content-addressed layout has no directory
  of its own: its keys start with the Bed's name where the others have \<open>beds\<close>, \<open>tar\<close> or \<open>restic\<close>. The keys of one Bed in different
  layouts never overlap; those of different Beds do not overlap either as long as no Bed has one of these names.
\<close>

section \<open>Computations that stay in a region\<close>

definition same_outside :: "(string \<Rightarrow> bool) \<Rightarrow> objects \<Rightarrow> objects \<Rightarrow> bool" where
  "same_outside R objs objs' \<longleftrightarrow> (\<forall>k. \<not> R k \<longrightarrow> map_of objs' k = map_of objs k)"

definition stays_in :: "(string \<Rightarrow> bool) \<Rightarrow> 'a remote_io \<Rightarrow> bool" where
  "stays_in R p \<longleftrightarrow> (\<forall>r t res r'. p r = (t, res, r') \<longrightarrow> (\<forall>x \<in> set (r' # t). same_outside R (RM_Objects r) (RM_Objects x)))"

lemma same_outside_refl: "same_outside R objs objs"
  by (simp add: same_outside_def)

lemma same_outside_trans: "same_outside R a b \<Longrightarrow> same_outside R b c \<Longrightarrow> same_outside R a c"
  by (simp add: same_outside_def)

lemma stays_inD: "stays_in R p \<Longrightarrow> p r = (t, res, r') \<Longrightarrow> x \<in> set (r' # t) \<Longrightarrow> same_outside R (RM_Objects r) (RM_Objects x)"
  unfolding stays_in_def by blast

lemma stays_in_bind:
  assumes p: "stays_in R p" and q: "\<And>x. stays_in R (q x)"
  shows "stays_in R (io_bind p q)"
  unfolding stays_in_def
proof (intro allI impI ballI)
  fix r t res r' x assume run: "io_bind p q r = (t, res, r')" and x: "x \<in> set (r' # t)"
  obtain t1 res1 r1 where pr: "p r = (t1, res1, r1)" by (metis prod_cases3)
  show "same_outside R (RM_Objects r) (RM_Objects x)"
  proof (cases res1)
    case (Inl e)
    then show ?thesis using run x pr stays_inD [OF p pr] by (simp add: io_bind_def)
  next
    case (Inr y)
    obtain t2 res2 r2 where qr: "q y r1 = (t2, res2, r2)" by (metis prod_cases3)
    have e: "t = t1 @ t2" "r' = r2" using run pr qr Inr by (simp_all add: io_bind_def)
    have "same_outside R (RM_Objects r) (RM_Objects r1)" using stays_inD [OF p pr] by simp
    then show ?thesis using x e stays_inD [OF p pr, of x] stays_inD [OF q qr, of x] by (auto intro: same_outside_trans)
  qed
qed

lemma stays_in_read: "stays_in R (obj_read f)"
  by (auto simp: stays_in_def obj_read_def same_outside_def dest!: next_answer_objects split: prod.splits)

lemma stays_in_pure: "stays_in R (io_return x)" "stays_in R (io_fail e)" "stays_in R (io_check err)" "stays_in R (io_get f)" "stays_in R (obj_digest C b)"
  by (auto simp: stays_in_def io_return_def io_fail_def io_check_def io_get_def obj_digest_def Let_def same_outside_refl)

lemma stays_in_write:
  assumes "\<And>objs. same_outside R objs (f objs)"
  shows "stays_in R (obj_write f)"
  unfolding stays_in_def
proof (intro allI impI ballI)
  fix r t x r' and res :: "store_error + unit" assume run: "obj_write f r = (t, res, r')" and x: "x \<in> set (r' # t)"
  obtain a r1 where a: "next_answer r = (a, r1)" by fastforce
  show "same_outside R (RM_Objects r) (RM_Objects x)"
    using run a x assms [of "RM_Objects r"] next_answer_objects [OF a] same_outside_refl [of R "RM_Objects r"]
    by (cases a) (auto simp: obj_write_def Let_def)
qed

lemma stays_in_put: "R key \<Longrightarrow> stays_in R (obj_put key b m)"
  unfolding obj_put_def by (rule stays_in_write) (auto simp: same_outside_def)

lemma stays_in_each: "(\<And>x. x \<in> set xs \<Longrightarrow> stays_in R (f x)) \<Longrightarrow> stays_in R (io_each f xs)"
  by (induction xs) (auto intro: stays_in_pure stays_in_bind)

lemma stays_in_fold: "(\<And>a x. stays_in R (f a x)) \<Longrightarrow> stays_in R (io_fold f a xs)"
  by (induction xs arbitrary: a) (auto intro: stays_in_pure stays_in_bind)

lemma stays_in_delete: "list_all R ks \<Longrightarrow> stays_in R (obj_delete ks)"
  unfolding obj_delete_def by (rule stays_in_each, rule stays_in_write) (auto simp: same_outside_def list_all_iff)

lemma stays_in_try: "stays_in R p \<Longrightarrow> stays_in R (io_try p)"
  by (auto simp: stays_in_def io_try_def split: prod.splits)

text \<open>Deleting what was listed.\<close>

lemma stays_in_list_delete:
  assumes "\<And>k. has_prefix k pfx \<Longrightarrow> R k" and "list_all R extra"
  shows "stays_in R (io_bind (obj_list pfx) (\<lambda>ks. obj_delete (filter P ks @ extra)))"
  unfolding stays_in_def
proof (intro allI impI ballI)
  fix r t x r' and res :: "store_error + unit"
  assume run: "io_bind (obj_list pfx) (\<lambda>ks. obj_delete (filter P ks @ extra)) r = (t, res, r')" and x: "x \<in> set (r' # t)"
  let ?ks = "filter (\<lambda>k. has_prefix k pfx) (keys (RM_Objects r))"
  obtain a r1 where a: "next_answer r = (a, r1)" by fastforce
  have r1: "RM_Objects r1 = RM_Objects r" by (rule next_answer_objects [OF a])
  have del: "stays_in R (obj_delete (filter P ?ks @ extra))" by (rule stays_in_delete) (use assms in \<open>auto simp: list_all_iff\<close>)
  show "same_outside R (RM_Objects r) (RM_Objects x)"
  proof (cases "a = Done")
    case True
    then have "obj_delete (filter P ?ks @ extra) r1 = (t, res, r')" using run a r1 by (simp add: io_bind_def obj_list_def obj_read_def split: prod.splits)
    from stays_inD [OF del this x] show ?thesis using r1 by simp
  next
    case False
    then show ?thesis using run a r1 x by (auto simp: io_bind_def obj_list_def obj_read_def same_outside_refl)
  qed
qed

lemmas stays_in_rules = stays_in_bind stays_in_read stays_in_pure stays_in_put stays_in_fold stays_in_try

section \<open>The regions of the layouts\<close>

definition cas_region :: "string \<Rightarrow> string \<Rightarrow> string \<Rightarrow> bool" where
  "cas_region pfx bedID k \<longleftrightarrow> k = cas_indexKey pfx bedID \<or> has_prefix k (cas_chunkPrefix pfx bedID)"

definition pack_region :: "string \<Rightarrow> string \<Rightarrow> string \<Rightarrow> bool" where
  "pack_region pfx bedID k \<longleftrightarrow> has_prefix k (pack_bedPrefix pfx bedID)"

definition tar_region :: "string \<Rightarrow> string \<Rightarrow> string \<Rightarrow> bool" where
  "tar_region pfx bedID k \<longleftrightarrow> k = tar_snapshotKey pfx bedID"

lemma cas_in_region [simp]: "cas_region pfx bedID (cas_indexKey pfx bedID)" "cas_region pfx bedID (cas_chunkPrefix pfx bedID @ s)"
  by (auto simp: cas_region_def has_prefix_iff)

lemma pack_in_region [simp]:
  "pack_region pfx bedID (pack_headKey (pack_bedPrefix pfx bedID))" "pack_region pfx bedID (pack_packKey (pack_bedPrefix pfx bedID) p)"
  "pack_region pfx bedID (pack_snapshotKey (pack_bedPrefix pfx bedID) p)"
  by (auto simp: pack_region_def has_prefix_iff pack_headKey_def pack_packKey_def pack_snapshotKey_def)

lemma tar_in_region [simp]: "tar_region pfx bedID (tar_snapshotKey pfx bedID)"
  by (simp add: tar_region_def)

lemma cas_Delete_region: "stays_in (cas_region pfx bedID) (cas_Delete pfx bedID)"
  using stays_in_list_delete [of "cas_chunkPrefix pfx bedID" "cas_region pfx bedID" "[cas_indexKey pfx bedID]" "\<lambda>_. True"]
  by (simp add: cas_Delete_def cas_region_def)

lemma pack_Delete_region: "stays_in (pack_region pfx bedID) (pack_Delete pfx bedID)"
  using stays_in_list_delete [of "pack_bedPrefix pfx bedID" "pack_region pfx bedID" "[]" "\<lambda>_. True"]
  by (simp add: pack_Delete_def pack_region_def)

lemma tar_Delete_region: "stays_in (tar_region pfx bedID) (tar_Delete pfx bedID)"
  unfolding tar_Delete_def by (rule stays_in_delete) simp

lemma cas_gc_region: "stays_in (cas_region pfx bedID) (cas_gc (cas_chunkPrefix pfx bedID) ix)"
  using stays_in_try [OF stays_in_list_delete [of "cas_chunkPrefix pfx bedID" "cas_region pfx bedID" "[]"]]
  by (simp add: cas_gc_def cas_region_def)

lemma cas_worker_region: "stays_in (cas_region pfx bedID) (cas_worker C (cas_chunkPrefix pfx bedID) known c)"
  by (auto simp: cas_worker_def cas_HasChunk_def cas_StoreChunk_def obj_head_def intro!: stays_in_rules)

lemma cas_Persist_region: "stays_in (cas_region pfx bedID) (cas_Persist C pfx bedID volumeRoots g w)"
  unfolding cas_Persist_def cas_previous_def cas_commit_def cas_loadIndex_def obj_head_def obj_get_def
  by (auto intro!: stays_in_rules cas_worker_region cas_gc_region split: sum.split option.split body.split)

lemma pack_flush_region: "stays_in (pack_region pfx bedID) (pack_flushLocked C (pack_bedPrefix pfx bedID) pw)"
  by (auto simp: pack_flushLocked_def intro!: stays_in_rules)

lemma pack_worker_region: "stays_in (pack_region pfx bedID) (pack_worker C (pack_bedPrefix pfx bedID) pw c)"
  by (auto simp: pack_worker_def pack_StoreChunk_def Let_def intro!: stays_in_rules pack_flush_region)

lemma pack_Persist_region: "stays_in (pack_region pfx bedID) (pack_Persist C targetBytes pfx bedID volumeRoots g w)"
  unfolding pack_Persist_def pack_previous_def pack_commit_def pack_loadHead_def pack_loadManifest_def obj_head_def obj_get_def Let_def
  by (auto intro!: stays_in_rules pack_worker_region pack_flush_region split: sum.split option.split body.split)

lemma tar_Persist_region: "stays_in (tar_region pfx bedID) (tar_Persist pfx bedID volumeRoots g w)"
  unfolding tar_Persist_def obj_head_def by (auto intro!: stays_in_rules split: sum.split)

section \<open>Snapshots depend on their region only\<close>

definition disjoint_regions :: "(string \<Rightarrow> bool) \<Rightarrow> (string \<Rightarrow> bool) \<Rightarrow> bool" where
  "disjoint_regions R R' \<longleftrightarrow> (\<forall>k. \<not> (R k \<and> R' k))"

lemma same_outsideD: "same_outside R objs objs' \<Longrightarrow> disjoint_regions R R' \<Longrightarrow> R' k \<Longrightarrow> map_of objs' k = map_of objs k"
  by (auto simp: same_outside_def disjoint_regions_def)

lemma cas_snap_region:
  assumes "same_outside R objs objs'" and "disjoint_regions R (cas_region pfx bedID)"
  shows "cas_snap C pfx bedID objs' = cas_snap C pfx bedID objs" and "cas_ok C pfx bedID objs' = cas_ok C pfx bedID objs"
proof -
  have eq: "map_of objs' k = map_of objs k" if "cas_region pfx bedID k" for k using same_outsideD [OF assms that] .
  have chunk: "cas_chunk C (cas_chunkPrefix pfx bedID) objs' = cas_chunk C (cas_chunkPrefix pfx bedID) objs"
    unfolding cas_chunk_def eq [OF cas_in_region(2)] by (rule refl)
  show "cas_snap C pfx bedID objs' = cas_snap C pfx bedID objs" unfolding cas_snap_def chunk eq [OF cas_in_region(1)] by (rule refl)
  show "cas_ok C pfx bedID objs' = cas_ok C pfx bedID objs" by (simp add: cas_ok_def cas_good_def cas_indexed_def eq)
qed

lemma pack_snap_region:
  assumes "same_outside R objs objs'" and "disjoint_regions R (pack_region pfx bedID)"
  shows "pack_snap C (pack_bedPrefix pfx bedID) objs' = pack_snap C (pack_bedPrefix pfx bedID) objs"
    and "pack_ok C (pack_bedPrefix pfx bedID) objs' = pack_ok C (pack_bedPrefix pfx bedID) objs"
proof -
  have eq: "map_of objs' k = map_of objs k" if "pack_region pfx bedID k" for k using same_outsideD [OF assms that] .
  have chunk: "pack_chunk C (pack_bedPrefix pfx bedID) objs' = pack_chunk C (pack_bedPrefix pfx bedID) objs"
    unfolding pack_chunk_def eq [OF pack_in_region(2)] by (rule refl)
  show "pack_snap C (pack_bedPrefix pfx bedID) objs' = pack_snap C (pack_bedPrefix pfx bedID) objs"
    unfolding pack_snap_def chunk eq [OF pack_in_region(1)] eq [OF pack_in_region(3)] by (rule refl)
  show "pack_ok C (pack_bedPrefix pfx bedID) objs' = pack_ok C (pack_bedPrefix pfx bedID) objs"
    by (simp add: pack_ok_def pack_good_def pack_headed_def pack_manifest_def all_located_def located_def eq)
qed

lemma tar_snap_region:
  assumes "same_outside R objs objs'" and "disjoint_regions R (tar_region pfx bedID)"
  shows "tar_snap pfx bedID objs' = tar_snap pfx bedID objs" and "tar_ok pfx bedID objs' = tar_ok pfx bedID objs"
  using same_outsideD [OF assms tar_in_region] by (simp_all add: tar_ok_def tar_snap_def)

section \<open>Which regions are disjoint\<close>

text \<open>The first two components of a key under the common prefix \<open>K\<close> tell the layout and the Bed.\<close>

lemma plain_split:
  "slash \<notin> set a \<Longrightarrow> slash \<notin> set b \<Longrightarrow> a @ slash # x = b @ slash # y \<longleftrightarrow> a = b \<and> x = y"
proof (induction a arbitrary: b)
  case Nil
  then show ?case by (cases b) auto
next
  case (Cons c a)
  then show ?case by (cases b) auto
qed

definition store_root :: "string \<Rightarrow> string" where
  "store_root pfx = butlast (path_join [pfx, ''x''])"

lemma join_store_root: "plain_component c \<Longrightarrow> path_join [pfx, c] = store_root pfx @ c"
proof -
  assume c: "plain_component c"
  obtain K where K: "\<forall>c. plain_component c \<longrightarrow> path_join [pfx, c] = K @ c" using join_child by blast
  moreover have "plain_component ''x''" by (simp add: plain_component_def)
  ultimately have "store_root pfx = K" by (simp add: store_root_def butlast_append)
  then show ?thesis using K c by simp
qed

lemma region_keys:
  assumes "plain_component bedID"
  shows "cas_region pfx bedID k \<Longrightarrow> k = store_root pfx @ bedID @ slash # ''index.caibx'' \<or> (\<exists>x. k = store_root pfx @ bedID @ slash # ''chunks'' @ slash # x)"
    and "pack_region pfx bedID k \<Longrightarrow> \<exists>x. k = store_root pfx @ ''beds'' @ slash # bedID @ slash # x"
    and "tar_region pfx bedID k \<Longrightarrow> k = store_root pfx @ ''tar'' @ slash # bedID @ slash # ''snapshot.tar.gz''"
proof -
  have plain: "plain_component ''index.caibx''" "plain_component ''chunks''" "plain_component ''beds''" "plain_component ''tar''"
    by (simp_all add: plain_component_def)
  have "cas_indexKey pfx bedID = store_root pfx @ bedID @ slash # ''index.caibx''" "cas_chunkPrefix pfx bedID = store_root pfx @ bedID @ slash # ''chunks/''"
    using join_join [OF assms plain(1), of pfx] join_join [OF assms plain(2), of pfx] join_store_root [OF assms]
    by (simp_all add: cas_indexKey_def cas_chunkPrefix_def cas_bedPrefix_def)
  then show "cas_region pfx bedID k \<Longrightarrow> k = store_root pfx @ bedID @ slash # ''index.caibx'' \<or> (\<exists>x. k = store_root pfx @ bedID @ slash # ''chunks'' @ slash # x)"
    by (auto simp: cas_region_def has_prefix_iff)
  show "pack_region pfx bedID k \<Longrightarrow> \<exists>x. k = store_root pfx @ ''beds'' @ slash # bedID @ slash # x"
    using join_three [OF plain(3) assms, of pfx] join_store_root [OF plain(3)] by (auto simp: pack_region_def pack_bedPrefix_def has_prefix_iff)
  show "tar_region pfx bedID k \<Longrightarrow> k = store_root pfx @ ''tar'' @ slash # bedID @ slash # ''snapshot.tar.gz''"
    using join_three [OF plain(4) assms, of pfx] join_store_root [OF plain(4)] by (simp add: tar_region_def tar_snapshotKey_def)
qed

datatype storeLayout = LayoutCAS | LayoutPack | LayoutTar | LayoutRestic

fun layout_region :: "storeLayout \<Rightarrow> string \<Rightarrow> string \<Rightarrow> string \<Rightarrow> bool" where
  "layout_region LayoutCAS pfx bedID k = cas_region pfx bedID k"
| "layout_region LayoutPack pfx bedID k = pack_region pfx bedID k"
| "layout_region LayoutTar pfx bedID k = tar_region pfx bedID k"
| "layout_region LayoutRestic pfx bedID k = has_prefix k (path_join [pfx, ''restic'', bedID] @ ''/'')"

text \<open>The first component below the common prefix, and the rest.\<close>

fun layout_dir :: "storeLayout \<Rightarrow> string \<Rightarrow> string" where
  "layout_dir LayoutCAS bedID = bedID"
| "layout_dir LayoutPack bedID = ''beds''"
| "layout_dir LayoutTar bedID = ''tar''"
| "layout_dir LayoutRestic bedID = ''restic''"

lemma layout_region_dir:
  assumes b: "plain_component bedID" and k: "layout_region l pfx bedID k"
  shows "\<exists>x. k = store_root pfx @ layout_dir l bedID @ slash # x \<and> slash \<notin> set (layout_dir l bedID)
    \<and> (if l = LayoutCAS then x = ''index.caibx'' \<or> (\<exists>y. x = ''chunks'' @ slash # y) else \<exists>y. x = bedID @ slash # y)"
proof (cases l)
  case LayoutCAS
  then show ?thesis using region_keys(1) [OF b, of pfx k] k b by (auto simp: plain_component_def)
next
  case LayoutPack
  then show ?thesis using region_keys(2) [OF b, of pfx k] k by auto
next
  case LayoutTar
  then show ?thesis using region_keys(3) [OF b, of pfx k] k by auto
next
  case LayoutRestic
  have "plain_component ''restic''" by (simp add: plain_component_def)
  then show ?thesis using LayoutRestic k join_three [OF _ b, of "''restic''" pfx] join_store_root by (auto simp: has_prefix_iff)
qed

definition reserved_bed :: "string \<Rightarrow> bool" where
  "reserved_bed name \<longleftrightarrow> name \<in> {''beds'', ''tar'', ''restic''}"

text \<open>Two layouts of one Bed never share a key; two Beds share none unless one of them has the name of a layout's directory.\<close>

lemma regions_disjoint:
  assumes a: "plain_component a" and b: "plain_component b" and ab: "a = b \<and> l \<noteq> l' \<or> a \<noteq> b \<and> \<not> reserved_bed a \<and> \<not> reserved_bed b"
  shows "disjoint_regions (layout_region l pfx a) (layout_region l' pfx b)"
  unfolding disjoint_regions_def
proof (intro allI notI, elim conjE)
  fix k assume k: "layout_region l pfx a k" "layout_region l' pfx b k"
  obtain x where x: "k = store_root pfx @ layout_dir l a @ slash # x" "slash \<notin> set (layout_dir l a)"
    "if l = LayoutCAS then x = ''index.caibx'' \<or> (\<exists>y. x = ''chunks'' @ slash # y) else \<exists>y. x = a @ slash # y"
    using layout_region_dir [OF a k(1)] by blast
  obtain y where y: "k = store_root pfx @ layout_dir l' b @ slash # y" "slash \<notin> set (layout_dir l' b)"
    "if l' = LayoutCAS then y = ''index.caibx'' \<or> (\<exists>z. y = ''chunks'' @ slash # z) else \<exists>z. y = b @ slash # z"
    using layout_region_dir [OF b k(2)] by blast
  have eq: "layout_dir l a = layout_dir l' b" "x = y" using x(1,2) y(1,2) plain_split by auto
  have sa: "slash \<notin> set a" "slash \<notin> set b" using a b by (simp_all add: plain_component_def)
  show False
  proof (cases "l = l'")
    case True
    then have ne: "a \<noteq> b" using ab by simp
    then show False using True eq x(3) y(3) plain_split [OF sa] by (cases l) auto
  next
    case False
    then show False using eq x(3) y(3) ab sa plain_split [OF sa(1)] plain_split [OF sa(2)] plain_split [of "''chunks''"]
      by (cases l; cases l') (auto simp: reserved_bed_def)
  qed
qed

end
