(* ===== verification/Store_Restic.thy ===== *)
theory Store_Restic
  imports Store_Regions
begin

text \<open>
  The layout that keeps a Bed in a restic repository (\<open>src/internal/bed/store/sync/restic.go\<close>, \<open>restic_command.go\<close>, and the export of a tree in
  \<open>bed/filesystem/bedfs/transfer_tree.go\<close>). A persist copies what is durable into a private tree, lets the program back it up, and then writes a head object with the
  reference of the backup, which is the commit point. The program is the argument \<open>resticProgram\<close>; \<open>restic_program_ok\<close> says what its documentation promises:
  a backup only adds to its repository, what is in a repository stays readable, and restoring a reference gives back the tree that was backed up.
\<close>

section \<open>The program\<close>

record resticSummary =
  RS_MessageType :: string
  RS_SnapshotID :: string
  RS_Bytes :: int

record resticProgram =
  RP_version :: "string list option"                                              \<comment> \<open>the words that \<open>restic version\<close> prints\<close>
  RP_config :: "string \<Rightarrow> unit remote_io"                                       \<comment> \<open>\<open>restic cat config\<close>\<close>
  RP_init :: "string \<Rightarrow> unit remote_io"
  RP_backup :: "string \<Rightarrow> tree_entry list \<Rightarrow> string \<Rightarrow> resticSummary list remote_io"
  RP_restore :: "string \<Rightarrow> string \<Rightarrow> tree_entry list remote_io"
  RP_holds :: "string \<Rightarrow> string \<Rightarrow> objects \<Rightarrow> tree_entry list option"           \<comment> \<open>the tree that a reference stands for\<close>

definition resticVersion :: string where
  "resticVersion = ''0.19.1''"

definition restic_Available :: "resticProgram \<Rightarrow> bool" where
  "restic_Available P = (case RP_version P of None \<Rightarrow> False | Some printed \<Rightarrow> take 2 printed = [''restic'', resticVersion])"

definition restic_ensureRepository :: "resticProgram \<Rightarrow> string \<Rightarrow> unit remote_io" where
  "restic_ensureRepository P repo =
     io_bind (io_outcome (RP_config P repo)) (\<lambda>res.
       case res of
         Inr _ \<Rightarrow> io_return ()
       | Inl e \<Rightarrow> if e = ResticExit 10 then RP_init P repo else io_fail e)"

definition restic_upload :: "resticProgram \<Rightarrow> string \<Rightarrow> tree_entry list \<Rightarrow> string \<Rightarrow> resticSummary remote_io" where
  "restic_upload P repo tree parent =
     io_bind (restic_ensureRepository P repo) (\<lambda>_.
     io_bind (RP_backup P repo tree parent) (\<lambda>messages.
       case find (\<lambda>m. RS_MessageType m = ''summary'' \<and> hex_id (RS_SnapshotID m)) messages of
         None \<Rightarrow> io_fail ResticNoReference
       | Some summary \<Rightarrow> io_return summary))"

section \<open>The tree that is backed up\<close>

definition transfer_link :: "string \<Rightarrow> string \<Rightarrow> bool" where
  "transfer_link name target \<longleftrightarrow>
     (let resolved = path_join [path_dir name, target] in \<not> (path_is_abs target \<or> resolved = ''..'' \<or> has_prefix resolved ''../''))"

definition ExportTransferTree :: "string list \<Rightarrow> walk \<Rightarrow> (store_error, tree_entry list) result" where
  "ExportTransferTree roots w =
     res_bind (walk_kept transfer_link roots (fst w)) (\<lambda>es.
       if snd w then Inl WalkFailed else Inr (map (\<lambda>e. e\<lparr>TE_Mode := TE_Mode e mod 512\<rparr>) es))"

section \<open>Operations\<close>

definition restic_bedPrefix :: "string \<Rightarrow> string \<Rightarrow> string" where
  "restic_bedPrefix pfx bedID = path_join [pfx, ''restic'', bedID] @ ''/''"

definition restic_headKey :: "string \<Rightarrow> string \<Rightarrow> string" where
  "restic_headKey pfx bedID = restic_bedPrefix pfx bedID @ ''head.json''"

text \<open>The place of the repository in the bucket.\<close>

definition restic_repository :: "string \<Rightarrow> string \<Rightarrow> string" where
  "restic_repository pfx bedID = path_join [pfx, path_join [''restic'', bedID, ''repository'']]"

definition restic_Stat :: "string \<Rightarrow> string \<Rightarrow> SnapshotInfo option remote_io" where
  "restic_Stat pfx bedID =
     io_bind (obj_head (restic_headKey pfx bedID)) (\<lambda>ob. io_get (\<lambda>_.
       case ob of
         None \<Rightarrow> Inr None
       | Some ob \<Rightarrow>
           (case meta_int ob generationMetaKey of None \<Rightarrow> Inl (DecodeFailed bedID) | Some g \<Rightarrow> Inr (Some (snapshot_info ob)))))"

definition restic_readHead :: "string \<Rightarrow> string \<Rightarrow> resticHead remote_io" where
  "restic_readHead pfx bedID =
     io_bind (obj_get (restic_headKey pfx bedID)) (\<lambda>b. io_get (\<lambda>_.
       case b of ResticBody h \<Rightarrow> if hex_id (RH_Ref h) then Inr h else Inl (DecodeFailed bedID) | _ \<Rightarrow> Inl (DecodeFailed bedID)))"

definition restic_parent :: "string \<Rightarrow> string \<Rightarrow> SnapshotInfo option \<Rightarrow> string remote_io" where
  "restic_parent pfx bedID info =
     (case info of None \<Rightarrow> io_return [] | Some _ \<Rightarrow> io_bind (restic_readHead pfx bedID) (\<lambda>h. io_return (RH_Ref h)))"

definition restic_conflict :: "SnapshotInfo option \<Rightarrow> int \<Rightarrow> store_error option" where
  "restic_conflict info generation = (case info of None \<Rightarrow> None | Some i \<Rightarrow> if SI_Generation i \<ge> generation then Some ErrConflict else None)"

definition restic_available_check :: "resticProgram \<Rightarrow> store_error option" where
  "restic_available_check P = (if restic_Available P then None else Some ResticUnavailable)"

definition restic_Persist :: "resticProgram \<Rightarrow> string \<Rightarrow> string \<Rightarrow> string list option \<Rightarrow> int \<Rightarrow> walk \<Rightarrow> unit remote_io" where
  "restic_Persist P pfx bedID volumeRoots generation w =
     (case newSnapshotFilter volumeRoots of
        Inl e \<Rightarrow> io_fail e
      | Inr roots \<Rightarrow>
          io_bind (io_check (restic_available_check P)) (\<lambda>_.
          io_bind (restic_Stat pfx bedID) (\<lambda>info.
          io_bind (io_check (restic_conflict info generation)) (\<lambda>_.
          io_bind (restic_parent pfx bedID info) (\<lambda>parent.
          io_bind (io_get (\<lambda>_. ExportTransferTree roots w)) (\<lambda>tree.
          io_bind (restic_upload P (restic_repository pfx bedID) tree parent) (\<lambda>summary.
          obj_put (restic_headKey pfx bedID)
            (ResticBody \<lparr> RH_Ref = RS_SnapshotID summary, RH_Generation = generation, RH_Bytes = RS_Bytes summary \<rparr>)
            [(generationMetaKey, itoa generation), (''bytes'', itoa (RS_Bytes summary))])))))))"

definition restic_Restore :: "resticProgram \<Rightarrow> string \<Rightarrow> string \<Rightarrow> tree_entry list remote_io" where
  "restic_Restore P pfx bedID =
     io_bind (io_check (restic_available_check P)) (\<lambda>_.
     io_bind (restic_readHead pfx bedID) (\<lambda>h. RP_restore P (restic_repository pfx bedID) (RH_Ref h)))"

definition restic_Delete :: "string \<Rightarrow> string \<Rightarrow> unit remote_io" where
  "restic_Delete pfx bedID = io_bind (obj_list (restic_bedPrefix pfx bedID)) obj_delete"

section \<open>What the program promises\<close>

definition in_repository :: "string \<Rightarrow> string \<Rightarrow> bool" where
  "in_repository repo k \<longleftrightarrow> has_prefix k (repo @ ''/'')"

definition keeps_held :: "resticProgram \<Rightarrow> string \<Rightarrow> 'a remote_io \<Rightarrow> bool" where
  "keeps_held P repo p \<longleftrightarrow> (\<forall>r t res r'. p r = (t, res, r') \<longrightarrow> (\<forall>x \<in> set (r' # t). \<forall>ref d.
     RP_holds P repo ref (RM_Objects r) = Some d \<longrightarrow> RP_holds P repo ref (RM_Objects x) = Some d))"

definition restic_program_ok :: "resticProgram \<Rightarrow> bool" where
  "restic_program_ok P \<longleftrightarrow> (\<forall>repo.
     stays_in (in_repository repo) (RP_config P repo) \<and> keeps_held P repo (RP_config P repo)
     \<and> stays_in (in_repository repo) (RP_init P repo) \<and> keeps_held P repo (RP_init P repo)
     \<and> (\<forall>tree parent. stays_in (in_repository repo) (RP_backup P repo tree parent) \<and> keeps_held P repo (RP_backup P repo tree parent)
          \<and> (\<forall>r t out r'. RP_backup P repo tree parent r = (t, Inr out, r') \<longrightarrow>
               (\<forall>m \<in> set out. RS_MessageType m = ''summary'' \<longrightarrow> RP_holds P repo (RS_SnapshotID m) (RM_Objects r') = Some tree)))
     \<and> (\<forall>ref. stays_in (in_repository repo) (RP_restore P repo ref) \<and> keeps_held P repo (RP_restore P repo ref)
          \<and> (\<forall>r t out r' d. RP_restore P repo ref r = (t, out, r') \<longrightarrow> RP_holds P repo ref (RM_Objects r) = Some d \<longrightarrow>
               out = Inr d \<or> out = Inl RequestFailed \<and> RM_Answers r \<noteq> []))
     \<and> (\<forall>ref objs objs'. (\<forall>k. in_repository repo k \<longrightarrow> map_of objs' k = map_of objs k) \<longrightarrow> RP_holds P repo ref objs' = RP_holds P repo ref objs))"

lemma restic_program_okD:
  assumes "restic_program_ok P"
  shows "stays_in (in_repository repo) (RP_config P repo)" and "keeps_held P repo (RP_config P repo)" and "stays_in (in_repository repo) (RP_init P repo)" and "keeps_held P repo (RP_init P repo)"
    and "stays_in (in_repository repo) (RP_backup P repo tree parent)" and "keeps_held P repo (RP_backup P repo tree parent)"
    and "RP_backup P repo tree parent r = (t, Inr out, r') \<Longrightarrow> m \<in> set out \<Longrightarrow> RS_MessageType m = ''summary''
      \<Longrightarrow> RP_holds P repo (RS_SnapshotID m) (RM_Objects r') = Some tree"
    and "stays_in (in_repository repo) (RP_restore P repo ref)" and "keeps_held P repo (RP_restore P repo ref)"
    and "RP_restore P repo ref r = (t1, res, r') \<Longrightarrow> RP_holds P repo ref (RM_Objects r) = Some d \<Longrightarrow> res = Inr d \<or> res = Inl RequestFailed \<and> RM_Answers r \<noteq> []"
    and "\<forall>k. in_repository repo k \<longrightarrow> map_of objs' k = map_of objs k \<Longrightarrow> RP_holds P repo ref objs' = RP_holds P repo ref objs"
  using assms [unfolded restic_program_ok_def, rule_format, of repo] by blast+

section \<open>The snapshot that a bucket holds\<close>

definition restic_snap :: "resticProgram \<Rightarrow> string \<Rightarrow> string \<Rightarrow> objects \<Rightarrow> (int \<times> tree_entry list) option" where
  "restic_snap P pfx bedID objs =
     (case map_of objs (restic_headKey pfx bedID) of
        None \<Rightarrow> None
      | Some ob \<Rightarrow>
          (case (OB_Body ob, meta_int ob generationMetaKey) of
             (ResticBody h, Some g) \<Rightarrow>
               if hex_id (RH_Ref h) then map_option (Pair g) (RP_holds P (restic_repository pfx bedID) (RH_Ref h) objs) else None
           | _ \<Rightarrow> None))"

definition restic_ok :: "resticProgram \<Rightarrow> string \<Rightarrow> string \<Rightarrow> objects \<Rightarrow> bool" where
  "restic_ok P pfx bedID objs \<longleftrightarrow>
     map_of objs (restic_headKey pfx bedID) = None \<or> restic_Available P \<and> restic_snap P pfx bedID objs \<noteq> None"

definition restic_content :: "string list option \<Rightarrow> walk \<Rightarrow> tree_entry list" where
  "restic_content volumeRoots w =
     map (\<lambda>e. e\<lparr>TE_Mode := TE_Mode e mod 512\<rparr>) (filter (\<lambda>e. TE_Path e \<noteq> ''.'') (kept (filter_roots volumeRoots) (fst w)))"

definition restic_fits :: "walk \<Rightarrow> bool" where
  "restic_fits w \<longleftrightarrow> list_all (\<lambda>e. TE_Path e = ''.'' \<or> tidy (TE_Path e)) (fst w)"

lemma restic_snapD:
  assumes "restic_snap P pfx bedID objs = Some (g, d)"
  shows "\<exists>ob h. map_of objs (restic_headKey pfx bedID) = Some ob \<and> OB_Body ob = ResticBody h \<and> meta_int ob generationMetaKey = Some g
    \<and> hex_id (RH_Ref h) \<and> RP_holds P (restic_repository pfx bedID) (RH_Ref h) objs = Some d"
  using assms by (auto simp: restic_snap_def split: option.splits body.splits if_splits)

lemma restic_repository_key:
  assumes "plain_component bedID"
  shows "restic_repository pfx bedID = restic_bedPrefix pfx bedID @ ''repository''"
proof -
  have plain: "plain_component ''restic''" "plain_component ''repository''" by (simp_all add: plain_component_def)
  have ne: "bedID \<noteq> []" using assms by (simp add: plain_component_def)
  have one: "path_join [[], ''restic''] = ''restic''" using join_plain [OF plain(1)] by (simp add: render_path_def)
  have two: "path_join [''restic'', bedID] = ''restic/'' @ bedID" using join_join [OF plain(1) assms, of "[]"] one by simp
  have inner: "path_join [''restic'', bedID, ''repository''] = ''restic/'' @ bedID @ ''/repository''" using join_three [OF assms plain(2), of "''restic''"] two by simp
  show ?thesis
  proof (cases "pfx = []")
    case True
    have "path_join [[], ''restic/'' @ bedID @ ''/repository''] = path_join [''restic'', bedID, ''repository'']" using ne by (simp add: path_join_def)
    moreover have "path_join [[], ''restic'', bedID] = path_join [''restic'', bedID]" using ne by (simp add: path_join_def)
    ultimately show ?thesis using True inner two by (simp add: restic_repository_def restic_bedPrefix_def)
  next
    case False
    have "path_join [pfx, ''restic/'' @ bedID @ ''/repository''] = path_join [pfx @ ''/restic'', bedID, ''repository'']" using False ne by (simp add: path_join_def)
    moreover have "path_join [pfx, ''restic'', bedID] = path_join [pfx @ ''/restic'', bedID]" using False ne by (simp add: path_join_def)
    ultimately show ?thesis using join_three [OF assms plain(2), of "pfx @ ''/restic''"] inner by (simp add: restic_repository_def restic_bedPrefix_def)
  qed
qed

lemma head_not_in_repository: "plain_component bedID \<Longrightarrow> \<not> in_repository (restic_repository pfx bedID) (restic_headKey pfx bedID)"
  by (simp add: in_repository_def restic_headKey_def restic_repository_key has_prefix_iff)

section \<open>The layout\<close>

lemma restic_snap_kept:
  assumes bed: "plain_component bedID" and same: "same_outside (in_repository (restic_repository pfx bedID)) objs objs'"
    and held: "\<forall>ref d. RP_holds P (restic_repository pfx bedID) ref objs = Some d \<longrightarrow> RP_holds P (restic_repository pfx bedID) ref objs' = Some d"
    and ok: "restic_ok P pfx bedID objs"
  shows "restic_snap P pfx bedID objs' = restic_snap P pfx bedID objs \<and> restic_ok P pfx bedID objs'"
proof -
  have head: "map_of objs' (restic_headKey pfx bedID) = map_of objs (restic_headKey pfx bedID)"
    using same head_not_in_repository [OF bed] by (simp add: same_outside_def)
  show ?thesis
  proof (cases "map_of objs (restic_headKey pfx bedID)")
    case None
    then show ?thesis using head by (simp add: restic_snap_def restic_ok_def)
  next
    case (Some ob)
    then obtain g d where snap: "restic_snap P pfx bedID objs = Some (g, d)" and av: "restic_Available P" using ok by (auto simp: restic_ok_def)
    obtain h where h: "OB_Body ob = ResticBody h" "meta_int ob generationMetaKey = Some g" "hex_id (RH_Ref h)"
      "RP_holds P (restic_repository pfx bedID) (RH_Ref h) objs = Some d" using restic_snapD [OF snap] Some by auto
    then have "RP_holds P (restic_repository pfx bedID) (RH_Ref h) objs' = Some d" using held by blast
    then have "restic_snap P pfx bedID objs' = Some (g, d)" using head Some h by (simp add: restic_snap_def)
    then show ?thesis using snap av by (simp add: restic_ok_def)
  qed
qed

lemma keeps_heldD:
  "keeps_held P repo p \<Longrightarrow> p r = (t, res, r') \<Longrightarrow> x \<in> set (r' # t)
     \<Longrightarrow> \<forall>ref d. RP_holds P repo ref (RM_Objects r) = Some d \<longrightarrow> RP_holds P repo ref (RM_Objects x) = Some d"
  unfolding keeps_held_def by blast

text \<open>Whatever the program does in the repository, the snapshot of the Bed stays.\<close>

lemma repository_step:
  assumes bed: "plain_component bedID" and p: "stays_in (in_repository (restic_repository pfx bedID)) p" "keeps_held P (restic_repository pfx bedID) p"
    and ok: "restic_ok P pfx bedID (RM_Objects r)" and run: "p r = (t, res, r')" and x: "x \<in> set (r' # t)"
  shows "restic_snap P pfx bedID (RM_Objects x) = restic_snap P pfx bedID (RM_Objects r) \<and> restic_ok P pfx bedID (RM_Objects x)"
  by (rule restic_snap_kept [OF bed stays_inD [OF p(1) run x] keeps_heldD [OF p(2) run x] ok])

lemma repository_step_ok:
  assumes bed: "plain_component bedID" and p: "stays_in (in_repository (restic_repository pfx bedID)) p" "keeps_held P (restic_repository pfx bedID) p"
    and Q: "\<And>r t y r'. p r = (t, Inr y, r') \<Longrightarrow> Q y (RM_Objects r')"
  shows "obj_ok A (\<lambda>objs. restic_ok P pfx bedID objs \<and> restic_snap P pfx bedID objs \<in> T) (\<lambda>_. True) p Q"
  unfolding obj_ok_def
proof (intro allI impI)
  fix r t res r'
  assume I: "restic_ok P pfx bedID (RM_Objects r) \<and> restic_snap P pfx bedID (RM_Objects r) \<in> T" and run: "p r = (t, res, r')"
  have all: "restic_ok P pfx bedID (RM_Objects x) \<and> restic_snap P pfx bedID (RM_Objects x) \<in> T" if "x \<in> set (r' # t)" for x
    using repository_step [OF bed p _ run that] I by auto
  have "Q y (RM_Objects r')" if "res = Inr y" for y using Q run that by blast
  then show "(\<forall>x \<in> set t. restic_ok P pfx bedID (RM_Objects x) \<and> restic_snap P pfx bedID (RM_Objects x) \<in> T)
      \<and> (restic_ok P pfx bedID (RM_Objects r') \<and> restic_snap P pfx bedID (RM_Objects r') \<in> T) \<and> (\<forall>y. res = Inr y \<longrightarrow> Q y (RM_Objects r'))"
    using all by simp
qed

lemma obj_ok_outcome: "obj_ok A I P p (\<lambda>_ _. True) \<Longrightarrow> obj_ok A I P (io_outcome p) (\<lambda>_ _. True)"
proof -
  assume p: "obj_ok A I P p (\<lambda>_ _. True)"
  show ?thesis
    unfolding obj_ok_def
  proof (intro allI impI)
    fix r t res r' assume r: "I (RM_Objects r)" "P (RM_Objects r)" and run: "io_outcome p r = (t, res, r')" and A: "\<forall>x \<in> set t. A x"
    obtain res' where "p r = (t, res', r')" using run by (auto simp: io_outcome_def split: prod.splits)
    from obj_okD(1) [OF p r this A] show "(\<forall>x \<in> set t. I (RM_Objects x)) \<and> I (RM_Objects r') \<and> (\<forall>y. res = Inr y \<longrightarrow> True)" by simp
  qed
qed

lemma restic_upload_ok:
  assumes P: "restic_program_ok P" and bed: "plain_component bedID"
  shows "obj_ok A (\<lambda>objs. restic_ok P pfx bedID objs \<and> restic_snap P pfx bedID objs \<in> T) (\<lambda>_. True) (restic_upload P (restic_repository pfx bedID) tree parent)
    (\<lambda>m objs. hex_id (RS_SnapshotID m) \<and> RP_holds P (restic_repository pfx bedID) (RS_SnapshotID m) objs = Some tree)" (is "obj_ok A ?I _ _ ?Q")
proof -
  let ?repo = "restic_repository pfx bedID"
  note D = restic_program_okD [OF P, of ?repo]
  have config: "obj_ok A ?I (\<lambda>_. True) (io_outcome (RP_config P ?repo)) (\<lambda>_ _. True)" by (rule obj_ok_outcome [OF repository_step_ok [OF bed D(1,2)]]) simp
  have init: "obj_ok A ?I (\<lambda>_. True) (RP_init P ?repo) (\<lambda>_ _. True)" by (rule repository_step_ok [OF bed D(3,4)]) simp
  have ensure: "obj_ok A ?I (\<lambda>_. True) (restic_ensureRepository P ?repo) (\<lambda>_ _. True)"
    unfolding restic_ensureRepository_def
    by (rule obj_ok_bind [OF config]) (auto simp: obj_ok_return obj_ok_fail init split: sum.split)
  have backup: "obj_ok A ?I (\<lambda>_. True) (RP_backup P ?repo tree parent)
      (\<lambda>out objs. \<forall>m \<in> set out. RS_MessageType m = ''summary'' \<longrightarrow> RP_holds P ?repo (RS_SnapshotID m) objs = Some tree)"
    by (rule repository_step_ok [OF bed D(5,6)]) (use D(7) in blast)
  have pick: "obj_ok A ?I (\<lambda>objs. \<forall>m \<in> set out. RS_MessageType m = ''summary'' \<longrightarrow> RP_holds P ?repo (RS_SnapshotID m) objs = Some tree)
      (case find (\<lambda>m. RS_MessageType m = ''summary'' \<and> hex_id (RS_SnapshotID m)) out of None \<Rightarrow> io_fail ResticNoReference | Some summary \<Rightarrow> io_return summary) ?Q" for out
  proof (cases "find (\<lambda>m. RS_MessageType m = ''summary'' \<and> hex_id (RS_SnapshotID m)) out")
    case None
    then show ?thesis by (simp add: obj_ok_fail)
  next
    case (Some m)
    then have "m \<in> set out" "RS_MessageType m = ''summary''" "hex_id (RS_SnapshotID m)" by (auto simp: find_Some_iff)
    then show ?thesis using Some by (auto intro: obj_ok_return)
  qed
  show ?thesis unfolding restic_upload_def by (rule obj_ok_bind [OF ensure obj_ok_bind [OF backup pick]])
qed

lemma ExportTransferTree_content:
  assumes "restic_fits w" and "newSnapshotFilter volumeRoots = Inr roots" and "ExportTransferTree roots w = Inr tree"
  shows "tree = restic_content volumeRoots w"
proof -
  obtain es where es: "walk_kept transfer_link roots (fst w) = Inr es" "tree = map (\<lambda>e. e\<lparr>TE_Mode := TE_Mode e mod 512\<rparr>) es"
    using assms(3) by (cases "walk_kept transfer_link roots (fst w)") (auto simp: ExportTransferTree_def split: if_splits)
  have "es = filter (\<lambda>e. TE_Path e \<noteq> ''.'') (kept roots (fst w))" using walk_kept_filter [OF es(1)] assms(1) by (simp add: restic_fits_def)
  moreover have "filter_roots volumeRoots = roots" using assms(2) by (simp add: filter_roots_def)
  ultimately show ?thesis using es(2) by (simp add: restic_content_def)
qed

lemma restic_meta:
  "0 \<le> g \<Longrightarrow> g \<le> max_int64 \<Longrightarrow> meta_int \<lparr> OB_Body = b, OB_Meta = [(generationMetaKey, itoa g), (''bytes'', itoa n)] \<rparr> generationMetaKey = Some g"
  by (simp add: meta_int_def atoi_itoa)

lemma ExportTransferTree_whole: "ExportTransferTree roots w = Inr es \<Longrightarrow> walked_whole w"
  by (cases "walk_kept transfer_link roots (fst w)") (auto simp: ExportTransferTree_def split: if_splits)

lemma restic_Persist_ok:
  fixes volumeRoots :: "string list option" and S :: "(int \<times> tree_entry list) option"
  assumes P: "restic_program_ok P" and bed: "plain_component bedID" and g: "0 \<le> g" "g \<le> max_int64" and fits: "restic_fits w"
  defines "D \<equiv> if walked_whole w then Some (g, restic_content volumeRoots w) else S"
  shows "obj_ok A (\<lambda>objs. restic_ok P pfx bedID objs \<and> restic_snap P pfx bedID objs \<in> {S, D}) (\<lambda>_. True)
    (restic_Persist P pfx bedID volumeRoots g w) (\<lambda>_ objs. walked_whole w \<and> restic_snap P pfx bedID objs = D)"
proof (cases "\<exists>roots. newSnapshotFilter volumeRoots = Inr roots \<and> restic_Available P")
  case False
  then show ?thesis
    by (cases "newSnapshotFilter volumeRoots") (simp_all add: restic_Persist_def restic_available_check_def obj_ok_def io_bind_def io_check_def io_fail_def)
next
  case True
  then obtain roots where roots: "newSnapshotFilter volumeRoots = Inr roots" and av: "restic_Available P" by blast
  let ?repo = "restic_repository pfx bedID" let ?I = "\<lambda>objs. restic_ok P pfx bedID objs \<and> restic_snap P pfx bedID objs \<in> {S, D}"
  have check: "obj_ok A ?I (\<lambda>_. True) (io_check err) (\<lambda>_ _. True)" for err by (rule obj_ok_check)
  have get: "obj_ok A ?I (\<lambda>_. True) (io_get f) (\<lambda>_ _. True)" for f :: "Remote \<Rightarrow> (store_error, 'x) result" by (rule obj_ok_get) simp
  have stat: "obj_ok A ?I (\<lambda>_. True) (restic_Stat pfx bedID) (\<lambda>_ _. True)"
    unfolding restic_Stat_def obj_head_def by (rule obj_ok_bind [OF obj_ok_read obj_ok_get]) simp_all
  have parent: "obj_ok A ?I (\<lambda>_. True) (restic_parent pfx bedID info) (\<lambda>_ _. True)" for info
    unfolding restic_parent_def restic_readHead_def obj_get_def
    by (cases info) (auto intro!: obj_ok_return obj_ok_bind [where R = "\<lambda>_ _. True"] obj_ok_read obj_ok_get)
  have export: "obj_ok A ?I (\<lambda>_. True) (io_get (\<lambda>_. ExportTransferTree roots w)) (\<lambda>tree _. walked_whole w \<and> tree = restic_content volumeRoots w)"
    by (rule obj_ok_get) (use ExportTransferTree_content [OF fits roots] ExportTransferTree_whole in blast)
  have upload: "obj_ok A ?I (\<lambda>_. walked_whole w \<and> tree = restic_content volumeRoots w) (restic_upload P ?repo tree par)
      (\<lambda>m objs. walked_whole w \<and> hex_id (RS_SnapshotID m) \<and> RP_holds P ?repo (RS_SnapshotID m) objs = Some (restic_content volumeRoots w))" for tree par
    by (rule obj_ok_assume) (use restic_upload_ok [OF P bed, of A pfx "{S, D}" tree par] in simp)
  have put: "obj_ok A ?I (\<lambda>objs. walked_whole w \<and> hex_id (RS_SnapshotID m) \<and> RP_holds P ?repo (RS_SnapshotID m) objs = Some (restic_content volumeRoots w))
      (obj_put (restic_headKey pfx bedID) (ResticBody \<lparr> RH_Ref = RS_SnapshotID m, RH_Generation = g, RH_Bytes = RS_Bytes m \<rparr>)
        [(generationMetaKey, itoa g), (''bytes'', itoa (RS_Bytes m))]) (\<lambda>_ objs. walked_whole w \<and> restic_snap P pfx bedID objs = D)" for m
    unfolding obj_put_def
  proof (rule obj_ok_write)
    fix objs assume held: "walked_whole w \<and> hex_id (RS_SnapshotID m) \<and> RP_holds P ?repo (RS_SnapshotID m) objs = Some (restic_content volumeRoots w)"
    let ?objs = "al_put (restic_headKey pfx bedID) \<lparr> OB_Body = ResticBody \<lparr> RH_Ref = RS_SnapshotID m, RH_Generation = g, RH_Bytes = RS_Bytes m \<rparr>,
      OB_Meta = [(generationMetaKey, itoa g), (''bytes'', itoa (RS_Bytes m))] \<rparr> objs"
    have "RP_holds P ?repo (RS_SnapshotID m) ?objs = RP_holds P ?repo (RS_SnapshotID m) objs"
      by (rule restic_program_okD(11) [OF P]) (use head_not_in_repository [OF bed, of pfx] in auto)
    then have "restic_snap P pfx bedID ?objs = D" using held by (simp add: restic_snap_def restic_meta [OF g] D_def)
    then show "?I ?objs \<and> walked_whole w \<and> restic_snap P pfx bedID ?objs = D" using av held by (simp add: restic_ok_def D_def)
  qed
  show ?thesis
    unfolding restic_Persist_def roots sum.case
    by (rule obj_ok_bind [OF check obj_ok_bind [OF stat obj_ok_bind [OF check obj_ok_bind [OF parent obj_ok_bind [OF export obj_ok_bind [OF upload put]]]]]])
qed

lemma restic_Stat_reads:
  assumes "restic_ok P pfx bedID objs"
  shows "obj_reads objs (restic_Stat pfx bedID) (map_option snapshot_info (map_of objs (restic_headKey pfx bedID)))"
    and "map_option SI_Generation (map_option snapshot_info (map_of objs (restic_headKey pfx bedID))) = map_option fst (restic_snap P pfx bedID objs)"
proof -
  have some: "\<exists>g d. restic_snap P pfx bedID objs = Some (g, d) \<and> meta_int ob generationMetaKey = Some g" if ob: "map_of objs (restic_headKey pfx bedID) = Some ob" for ob
  proof -
    obtain g d where gd: "restic_snap P pfx bedID objs = Some (g, d)" using assms ob by (auto simp: restic_ok_def)
    then show ?thesis using restic_snapD [OF gd] ob by auto
  qed
  show "obj_reads objs (restic_Stat pfx bedID) (map_option snapshot_info (map_of objs (restic_headKey pfx bedID)))"
    unfolding restic_Stat_def obj_head_def
    by (rule obj_reads_bind [OF obj_reads_read [OF refl] obj_reads_get]) (use some in \<open>auto split: option.split\<close>)
  show "map_option SI_Generation (map_option snapshot_info (map_of objs (restic_headKey pfx bedID))) = map_option fst (restic_snap P pfx bedID objs)"
  proof (cases "map_of objs (restic_headKey pfx bedID)")
    case None
    then show ?thesis by (simp add: restic_snap_def)
  next
    case (Some ob)
    then show ?thesis using some [OF Some] by (auto simp: snapshot_info_def)
  qed
qed

lemma restic_Persist_fenced:
  assumes ok: "restic_ok P pfx bedID (RM_Objects r)" and snap: "restic_snap P pfx bedID (RM_Objects r) = Some (g', d')" and g: "g \<le> g'"
    and run: "restic_Persist P pfx bedID volumeRoots g w r = (t, res, r')"
  shows "t = [] \<and> RM_Objects r' = RM_Objects r \<and> (\<nexists>u. res = Inr u)"
proof (cases "\<exists>roots. newSnapshotFilter volumeRoots = Inr roots \<and> restic_Available P")
  case False
  then show ?thesis using run
    by (cases "newSnapshotFilter volumeRoots") (auto simp: restic_Persist_def io_fail_def restic_available_check_def io_bind_def io_check_def)
next
  case True
  then obtain roots where roots: "newSnapshotFilter volumeRoots = Inr roots" and av: "restic_available_check P = None" by (auto simp: restic_available_check_def)
  let ?info = "map_option snapshot_info (map_of (RM_Objects r) (restic_headKey pfx bedID))"
  have skip: "io_bind (io_check None) q = q ()" for q :: "unit \<Rightarrow> unit remote_io" by (simp add: io_bind_def io_check_def fun_eq_iff split: prod.split)
  have conflict: "restic_conflict ?info g = Some ErrConflict" using restic_Stat_reads(2) [OF ok] snap g by (auto simp: restic_conflict_def)
  show ?thesis
    using obj_reads_reject [OF restic_Stat_reads(1) [OF ok] conflict run [unfolded restic_Persist_def roots sum.case av skip]] .
qed

lemma restic_Restore_run:
  assumes P: "restic_program_ok P" and bed: "plain_component bedID" and ok: "restic_ok P pfx bedID (RM_Objects r)"
    and snap: "restic_snap P pfx bedID (RM_Objects r) = Some (g, d)" and run: "restic_Restore P pfx bedID r = (t, out, r')"
  shows "(\<forall>x \<in> set (r' # t). restic_ok P pfx bedID (RM_Objects x) \<and> restic_snap P pfx bedID (RM_Objects x) = Some (g, d))
    \<and> (out = Inr d \<or> out = Inl RequestFailed \<and> RM_Answers r \<noteq> [])"
proof -
  let ?repo = "restic_repository pfx bedID"
  obtain ob h where h: "map_of (RM_Objects r) (restic_headKey pfx bedID) = Some ob" "OB_Body ob = ResticBody h" "hex_id (RH_Ref h)"
    "RP_holds P ?repo (RH_Ref h) (RM_Objects r) = Some d" using restic_snapD [OF snap] by blast
  have "restic_Available P" using ok h(1) by (simp add: restic_ok_def)
  then have run': "io_bind (restic_readHead pfx bedID) (\<lambda>h. RP_restore P ?repo (RH_Ref h)) r = (t, out, r')"
    using run by (simp add: restic_Restore_def restic_available_check_def io_bind_def [of "io_check None"] io_check_def split: prod.splits)
  have reads: "obj_reads (RM_Objects r) (restic_readHead pfx bedID) h"
    unfolding restic_readHead_def obj_get_def
    by (rule obj_reads_bind [OF obj_reads_read [where x = "ResticBody h"] obj_reads_get]) (simp_all add: h)
  obtain t1 res1 r1 where head: "restic_readHead pfx bedID r = (t1, res1, r1)" by (rule prod_cases3)
  note H = obj_readsD [OF reads head]
  show ?thesis
  proof (cases "res1 = Inr h")
    case False
    then show ?thesis using H head run' ok snap by (auto simp: io_bind_def)
  next
    case True
    obtain t2 out2 r2 where rest: "RP_restore P ?repo (RH_Ref h) r1 = (t2, out2, r2)" by (rule prod_cases3)
    have e: "t = t2" "out = out2" "r' = r2" using H head True rest run' by (simp_all add: io_bind_def)
    have r1: "RM_Objects r1 = RM_Objects r" "RM_Answers r = [] \<longrightarrow> RM_Answers r1 = []" using H by simp_all
    note D = restic_program_okD [OF P, of ?repo]
    have "restic_snap P pfx bedID (RM_Objects x) = Some (g, d) \<and> restic_ok P pfx bedID (RM_Objects x)" if "x \<in> set (r' # t)" for x
      using repository_step [OF bed D(8,9) _ rest, of x] ok snap r1(1) that e by simp
    moreover have "out = Inr d \<or> out = Inl RequestFailed \<and> RM_Answers r1 \<noteq> []" using D(10) [OF rest] h(4) r1(1) e by simp
    ultimately show ?thesis using r1(2) by blast
  qed
qed

interpretation restic: snapshot_layout "\<lambda>objs. restic_program_ok P \<and> plain_component bedID \<and> restic_ok P pfx bedID objs" "restic_snap P pfx bedID"
  "restic_content volumeRoots" walked_whole restic_fits "\<lambda>_. True" "restic_Persist P pfx bedID volumeRoots" "restic_Restore P pfx bedID"
  for P pfx bedID volumeRoots
proof (unfold_locales, goal_cases)
  case (1 r g w t res r' x)
  then show ?case
    using obj_okD(1) [OF restic_Persist_ok [of P bedID g w "\<lambda>_. True" pfx "restic_snap P pfx bedID (RM_Objects r)" volumeRoots] _ _ 1(5)] by (cases "walked_whole w") auto
next
  case (2 r g w t u r')
  then show ?case
    using obj_okD(2) [OF restic_Persist_ok [of P bedID g w "\<lambda>_. True" pfx "restic_snap P pfx bedID (RM_Objects r)" volumeRoots] _ _ 2(5)] by auto
next
  case (3 r g' d' g w t res r')
  then show ?case using restic_Persist_fenced by blast
next
  case (4 r g d t out r')
  then show ?case using restic_Restore_run [of P bedID pfx r g d t out r'] by auto
qed

section \<open>The region of the layout\<close>

lemma restic_region_keys:
  assumes "plain_component bedID"
  shows "layout_region LayoutRestic pfx bedID (restic_headKey pfx bedID)"
    and "in_repository (restic_repository pfx bedID) k \<Longrightarrow> layout_region LayoutRestic pfx bedID k"
  using restic_repository_key [OF assms] by (auto simp: restic_headKey_def restic_bedPrefix_def in_repository_def has_prefix_iff)

lemma stays_in_mono: "stays_in R p \<Longrightarrow> (\<And>k. R k \<Longrightarrow> R' k) \<Longrightarrow> stays_in R' p"
  unfolding stays_in_def same_outside_def by meson

lemma stays_in_outcome: "stays_in R p \<Longrightarrow> stays_in R (io_outcome p)"
  by (auto simp: stays_in_def io_outcome_def split: prod.splits)

lemma restic_Persist_region:
  assumes P: "restic_program_ok P" and bed: "plain_component bedID"
  shows "stays_in (layout_region LayoutRestic pfx bedID) (restic_Persist P pfx bedID volumeRoots g w)"
proof -
  let ?R = "layout_region LayoutRestic pfx bedID" let ?repo = "restic_repository pfx bedID"
  have up: "stays_in ?R p" if "stays_in (in_repository ?repo) p" for p :: "'x remote_io" using stays_in_mono [OF that] restic_region_keys(2) [OF bed] by blast
  note D = restic_program_okD [OF P, of ?repo]
  have ensure: "stays_in ?R (restic_ensureRepository P ?repo)"
    unfolding restic_ensureRepository_def
    by (rule stays_in_bind [OF stays_in_outcome [OF stays_in_mono [OF D(1)]]])
      (auto intro: stays_in_pure restic_region_keys(2) [OF bed] stays_in_mono [OF D(3)] simp del: layout_region.simps split: sum.split)
  have backup: "stays_in ?R (RP_backup P ?repo tree parent)" for tree parent
    by (rule stays_in_mono [OF D(5)]) (rule restic_region_keys(2) [OF bed])
  have upload: "stays_in ?R (restic_upload P ?repo tree parent)" for tree parent
    unfolding restic_upload_def
    by (rule stays_in_bind [OF ensure stays_in_bind [OF backup]]) (auto intro: stays_in_pure split: option.split)
  show ?thesis
    unfolding restic_Persist_def restic_Stat_def restic_parent_def restic_readHead_def obj_head_def obj_get_def
    by (auto intro!: stays_in_rules upload restic_region_keys(1) [OF bed] simp del: layout_region.simps split: sum.split option.split)
qed

lemma restic_Delete_region: "stays_in (layout_region LayoutRestic pfx bedID) (restic_Delete pfx bedID)"
  using stays_in_list_delete [of "restic_bedPrefix pfx bedID" "layout_region LayoutRestic pfx bedID" "[]" "\<lambda>_. True"]
  by (simp add: restic_Delete_def restic_bedPrefix_def)

lemma restic_snap_region:
  assumes P: "restic_program_ok P" and bed: "plain_component bedID"
    and same: "same_outside R objs objs'" and dis: "disjoint_regions R (layout_region LayoutRestic pfx bedID)"
  shows "restic_snap P pfx bedID objs' = restic_snap P pfx bedID objs" and "restic_ok P pfx bedID objs' = restic_ok P pfx bedID objs"
proof -
  have eq: "map_of objs' k = map_of objs k" if "layout_region LayoutRestic pfx bedID k" for k using same_outsideD [OF same dis that] .
  have head: "map_of objs' (restic_headKey pfx bedID) = map_of objs (restic_headKey pfx bedID)" by (rule eq [OF restic_region_keys(1) [OF bed]])
  have held: "RP_holds P (restic_repository pfx bedID) ref objs' = RP_holds P (restic_repository pfx bedID) ref objs" for ref
    by (rule restic_program_okD(11) [OF P]) (use eq restic_region_keys(2) [OF bed] in blast)
  show snap: "restic_snap P pfx bedID objs' = restic_snap P pfx bedID objs" unfolding restic_snap_def head held by (rule refl)
  show "restic_ok P pfx bedID objs' = restic_ok P pfx bedID objs" by (simp add: restic_ok_def head snap)
qed

section \<open>An instance of the program\<close>

text \<open>A program that keeps the promises: it takes one backup for each repository and refuses other ones.\<close>

definition sample_ref :: string where
  "sample_ref = replicate 64 (CHR ''b'')"

definition sample_place :: "string \<Rightarrow> string" where
  "sample_place repo = repo @ ''/snapshots/'' @ sample_ref"

definition sample_held :: "string \<Rightarrow> string \<Rightarrow> objects \<Rightarrow> tree_entry list option" where
  "sample_held repo ref objs =
     (if ref = sample_ref
      then (case map_of objs (sample_place repo) of None \<Rightarrow> None | Some ob \<Rightarrow> (case OB_Body ob of ArchiveBody t \<Rightarrow> Some t | _ \<Rightarrow> None)) else None)"

definition sample_summary :: resticSummary where
  "sample_summary = \<lparr> RS_MessageType = ''summary'', RS_SnapshotID = sample_ref, RS_Bytes = 0 \<rparr>"

definition sample_backup :: "string \<Rightarrow> tree_entry list \<Rightarrow> resticSummary list remote_io" where
  "sample_backup repo tree =
     io_bind (obj_head (sample_place repo)) (\<lambda>ob.
       case ob of
         None \<Rightarrow> io_bind (obj_put (sample_place repo) (ArchiveBody tree) []) (\<lambda>_. io_return [sample_summary])
       | Some ob \<Rightarrow> if OB_Body ob = ArchiveBody tree then io_return [sample_summary] else io_fail (ResticExit 1))"

definition sample_restic :: resticProgram where
  "sample_restic =
     \<lparr> RP_version = Some [''restic'', ''0.19.1''], RP_config = \<lambda>_. io_return (), RP_init = \<lambda>_. io_return (), RP_backup = \<lambda>repo tree _. sample_backup repo tree,
       RP_restore = \<lambda>repo ref. obj_read (\<lambda>objs. case sample_held repo ref objs of None \<Rightarrow> Inl (NoSuchKey ref) | Some t \<Rightarrow> Inr t), RP_holds = sample_held \<rparr>"

lemma sample_backup_run:
  assumes "sample_backup repo tree r = (t, res, r')"
  shows "x \<in> set (r' # t) \<Longrightarrow> RM_Objects x = RM_Objects r \<or> map_of (RM_Objects r) (sample_place repo) = None
      \<and> RM_Objects x = al_put (sample_place repo) \<lparr> OB_Body = ArchiveBody tree, OB_Meta = [] \<rparr> (RM_Objects r)"
    and "res = Inr out \<Longrightarrow> out = [sample_summary] \<and> sample_held repo sample_ref (RM_Objects r') = Some tree"
proof -
  obtain a r1 where a: "next_answer r = (a, r1)" by fastforce
  obtain a2 r2 where a2: "next_answer r1 = (a2, r2)" by fastforce
  have r1: "RM_Objects r1 = RM_Objects r" by (rule next_answer_objects [OF a])
  have r2: "RM_Objects r2 = RM_Objects r" using next_answer_objects [OF a2] r1 by simp
  show "RM_Objects x = RM_Objects r \<or> map_of (RM_Objects r) (sample_place repo) = None
      \<and> RM_Objects x = al_put (sample_place repo) \<lparr> OB_Body = ArchiveBody tree, OB_Meta = [] \<rparr> (RM_Objects r)" if "x \<in> set (r' # t)"
    using assms that a a2 r1 r2
    by (cases a; cases a2) (auto simp: sample_backup_def io_defs obj_head_def obj_read_def obj_put_def obj_write_def Let_def split: option.splits if_splits)
  show "out = [sample_summary] \<and> sample_held repo sample_ref (RM_Objects r') = Some tree" if "res = Inr out"
    using assms that a a2 r1 r2
    by (cases a; cases a2) (auto simp: sample_backup_def io_defs obj_head_def obj_read_def obj_put_def obj_write_def Let_def sample_held_def split: option.splits if_splits)
qed

lemma sample_restic_ok: "restic_program_ok sample_restic"
proof -
  have pure: "stays_in R (io_return ())" "keeps_held P repo (io_return ())" for R P repo by (auto simp: stays_in_pure keeps_held_def io_return_def)
  have place: "in_repository repo (sample_place repo)" for repo by (simp add: in_repository_def sample_place_def has_prefix_iff)
  have region: "stays_in (in_repository repo) (sample_backup repo tree)" for repo tree
    unfolding stays_in_def
  proof (intro allI impI ballI)
    fix r t res r' x assume "sample_backup repo tree r = (t, res, r')" "x \<in> set (r' # t)"
    from sample_backup_run(1) [OF this] show "same_outside (in_repository repo) (RM_Objects r) (RM_Objects x)"
      using place [of repo] by (auto simp: same_outside_def)
  qed
  have keeps: "keeps_held sample_restic repo (sample_backup repo tree)" for repo tree
    unfolding keeps_held_def
  proof (intro allI impI ballI)
    fix r t res r' x ref d
    assume run: "sample_backup repo tree r = (t, res, r')" "x \<in> set (r' # t)" and held: "RP_holds sample_restic repo ref (RM_Objects r) = Some d"
    then have "map_of (RM_Objects r) (sample_place repo) \<noteq> None" by (auto simp: sample_restic_def sample_held_def split: if_splits option.splits)
    then show "RP_holds sample_restic repo ref (RM_Objects x) = Some d" using sample_backup_run(1) [OF run] held by auto
  qed
  have read: "stays_in R (obj_read f)" "keeps_held P repo (obj_read f)" for R P repo and f :: "objects \<Rightarrow> (store_error, tree_entry list) result"
    by (auto simp: stays_in_read keeps_held_def obj_read_def dest!: next_answer_objects split: prod.splits)
  have exact: "out = Inr d \<or> out = Inl RequestFailed \<and> RM_Answers r \<noteq> []"
    if "RP_restore sample_restic repo ref r = (t, out, r')" "sample_held repo ref (RM_Objects r) = Some d" for repo ref r t out r' d
    using that by (auto simp: sample_restic_def obj_read_def next_answer_def split: list.splits prod.splits if_splits)
  have depends: "sample_held repo ref objs' = sample_held repo ref objs"
    if "\<forall>k. in_repository repo k \<longrightarrow> map_of objs' k = map_of objs k" for repo ref objs objs'
    using that place [of repo] by (simp add: sample_held_def)
  show ?thesis
    unfolding restic_program_ok_def
  proof (intro allI conjI impI ballI)
    fix repo tree parent r t out r' m
    assume "RP_backup sample_restic repo tree parent r = (t, Inr out, r')" "m \<in> set out"
    then show "RP_holds sample_restic repo (RS_SnapshotID m) (RM_Objects r') = Some tree"
      using sample_backup_run(2) [of repo tree r t "Inr out" r' out] by (auto simp: sample_restic_def sample_summary_def)
  next
    show "stays_in (in_repository repo) (RP_config sample_restic repo)" "keeps_held sample_restic repo (RP_config sample_restic repo)"
      "stays_in (in_repository repo) (RP_init sample_restic repo)" "keeps_held sample_restic repo (RP_init sample_restic repo)" for repo
      by (simp_all add: sample_restic_def pure)
    show "stays_in (in_repository repo) (RP_backup sample_restic repo tree parent)" "keeps_held sample_restic repo (RP_backup sample_restic repo tree parent)" for repo tree parent
      using region keeps by (simp_all add: sample_restic_def)
    show "stays_in (in_repository repo) (RP_restore sample_restic repo ref)" "keeps_held sample_restic repo (RP_restore sample_restic repo ref)" for repo ref
      by (simp_all add: sample_restic_def read)
    show "out = Inr d \<or> out = Inl RequestFailed \<and> RM_Answers r \<noteq> []"
      if "RP_restore sample_restic repo ref r = (t, out, r')" "RP_holds sample_restic repo ref (RM_Objects r) = Some d" for repo ref r t out r' d
      using exact [OF that(1)] that(2) by (simp add: sample_restic_def)
    show "RP_holds sample_restic repo ref objs' = RP_holds sample_restic repo ref objs"
      if "\<forall>k. in_repository repo k \<longrightarrow> map_of objs' k = map_of objs k" for repo ref objs objs'
      using depends [OF that] by (simp add: sample_restic_def)
  qed
qed

end
