(* ===== verification/Store_Auto.thy ===== *)
theory Store_Auto
  imports Store_Restic Bed_Spec
begin

text \<open>
  The snapshot policy over all layouts (\<open>src/internal/bed/store/sync/auto.go\<close>): \<open>Auto\<close> finds the newest snapshot of a Bed in any layout, and writes
  with the layout that its kind selects. The program of the restic layout is the argument \<open>AU_restic\<close>.

  The layouts are asked concurrently and answer in any order; \<open>inspect\<close> takes the backends in that order, and its result does not depend on it.
\<close>

section \<open>Backends\<close>

record Backend =
  BE_layout :: storeLayout
  BE_Stat :: "string \<Rightarrow> SnapshotInfo option remote_io"
  BE_Restore :: "string \<Rightarrow> tree_entry list remote_io"
  BE_Persist :: "string \<Rightarrow> string list option \<Rightarrow> int \<Rightarrow> walk \<Rightarrow> unit remote_io"
  BE_Delete :: "string \<Rightarrow> unit remote_io"

record Auto =
  AU_kind :: SyncKind
  AU_codec :: Codec
  AU_prefix :: string
  AU_targetBytes :: int
  AU_packFileThreshold :: int
  AU_restic :: "resticProgram option"

definition cas_backend :: "Auto \<Rightarrow> Backend" where
  "cas_backend s = \<lparr> BE_layout = LayoutCAS, BE_Stat = cas_Stat (AU_prefix s), BE_Restore = cas_Restore (AU_codec s) (AU_prefix s),
     BE_Persist = cas_Persist (AU_codec s) (AU_prefix s), BE_Delete = cas_Delete (AU_prefix s) \<rparr>"

definition pack_backend :: "Auto \<Rightarrow> Backend" where
  "pack_backend s = \<lparr> BE_layout = LayoutPack, BE_Stat = pack_Stat (AU_prefix s), BE_Restore = pack_Restore (AU_codec s) (AU_prefix s),
     BE_Persist = pack_Persist (AU_codec s) (AU_targetBytes s) (AU_prefix s), BE_Delete = pack_Delete (AU_prefix s) \<rparr>"

definition tar_backend :: "Auto \<Rightarrow> Backend" where
  "tar_backend s = \<lparr> BE_layout = LayoutTar, BE_Stat = tar_Stat (AU_codec s) (AU_prefix s), BE_Restore = tar_Restore (AU_prefix s),
     BE_Persist = tar_Persist (AU_prefix s), BE_Delete = tar_Delete (AU_prefix s) \<rparr>"

definition restic_backend :: "Auto \<Rightarrow> resticProgram \<Rightarrow> Backend" where
  "restic_backend s P = \<lparr> BE_layout = LayoutRestic, BE_Stat = restic_Stat (AU_prefix s), BE_Restore = restic_Restore P (AU_prefix s),
     BE_Persist = restic_Persist P (AU_prefix s), BE_Delete = restic_Delete (AU_prefix s) \<rparr>"

definition WithKind :: "SyncKind \<Rightarrow> Auto \<Rightarrow> Auto" where
  "WithKind kind s = s\<lparr>AU_kind := kind\<rparr>"

definition backends :: "Auto \<Rightarrow> Backend list" where
  "backends s = [cas_backend s, pack_backend s, tar_backend s] @ (case AU_restic s of None \<Rightarrow> [] | Some P \<Rightarrow> [restic_backend s P])"

section \<open>Inspecting all layouts\<close>

text \<open>A call whose error becomes a value.\<close>

type_synonym inspected = "Backend \<times> (store_error, SnapshotInfo option) result"

record autoState =
  AS_selected :: "(Backend \<times> SnapshotInfo) option"
  AS_byLayout :: "(storeLayout \<times> SnapshotInfo) list"
  AS_errors :: "store_error list"

definition inspect_result :: "autoState \<Rightarrow> inspected \<Rightarrow> autoState" where
  "inspect_result st r =
     (case snd r of
        Inl e \<Rightarrow> st\<lparr>AS_errors := AS_errors st @ [e]\<rparr>
      | Inr None \<Rightarrow> st
      | Inr (Some info) \<Rightarrow>
          st\<lparr>AS_byLayout := al_put (BE_layout (fst r)) info (AS_byLayout st),
             AS_selected := (case AS_selected st of
                 None \<Rightarrow> Some (fst r, info)
               | Some (b, best) \<Rightarrow> if SI_Generation info > SI_Generation best then Some (fst r, info) else Some (b, best))\<rparr>)"

definition inspect_verdict :: "autoState \<Rightarrow> (store_error, (Backend \<times> SnapshotInfo) option) result" where
  "inspect_verdict st =
     (if AS_errors st \<noteq> [] then Inl InspectFailed
      else case AS_selected st of
          None \<Rightarrow> Inr None
        | Some (b, best) \<Rightarrow>
            if list_ex (\<lambda>(l, info). l \<noteq> BE_layout b \<and> SI_Generation info = SI_Generation best) (AS_byLayout st) then Inl ErrAmbiguous
            else Inr (Some (b, best)))"

definition inspect_results :: "inspected list \<Rightarrow> (store_error, (Backend \<times> SnapshotInfo) option) result" where
  "inspect_results rs = inspect_verdict (foldl inspect_result \<lparr> AS_selected = None, AS_byLayout = [], AS_errors = [] \<rparr> rs)"

definition inspect :: "Backend list \<Rightarrow> string \<Rightarrow> (Backend \<times> SnapshotInfo) option remote_io" where
  "inspect bs bedID =
     io_bind (io_map (\<lambda>b. io_bind (io_outcome (BE_Stat b bedID)) (\<lambda>r. io_return (b, r))) bs) (\<lambda>rs. io_get (\<lambda>_. inspect_results rs))"

section \<open>Operations\<close>

text \<open>\<open>bs\<close>: the backends in the order in which they answer.\<close>

definition auto_Stat :: "Backend list \<Rightarrow> string \<Rightarrow> SnapshotInfo option remote_io" where
  "auto_Stat bs bedID = io_bind (inspect bs bedID) (\<lambda>sel. io_return (map_option snd sel))"

definition auto_Restore :: "Backend list \<Rightarrow> string \<Rightarrow> tree_entry list remote_io" where
  "auto_Restore bs bedID =
     io_bind (inspect bs bedID) (\<lambda>sel. case sel of None \<Rightarrow> io_fail NoSnapshot | Some (b, _) \<Rightarrow> BE_Restore b bedID)"

function count_files :: "string list \<Rightarrow> int \<Rightarrow> int \<Rightarrow> tree_entry list \<Rightarrow> int option" where
  "count_files roots threshold n [] = Some n"
| "count_files roots threshold n (e # es) =
     (if TE_Path e = ''.'' then count_files roots threshold n es
      else if filter_excluded roots (TE_Path e)
      then count_files roots threshold n (if TE_Kind e = Folder then dropWhile (\<lambda>x. has_prefix (TE_Path x) (TE_Path e @ ''/'')) es else es)
      else if TE_Kind e = Folder then count_files roots threshold n es
      else if n + 1 > threshold then None
      else count_files roots threshold (n + 1) es)"
  by pat_completeness auto

termination
  by (relation "measure (\<lambda>(_, _, _, es). length es)") (auto simp: less_Suc_eq_le length_dropWhile_le)

definition exceedsSnapshotFileThreshold :: "string list \<Rightarrow> int \<Rightarrow> walk \<Rightarrow> (store_error, bool) result" where
  "exceedsSnapshotFileThreshold roots threshold w =
     (if threshold \<le> 0 then Inr False
      else case count_files roots threshold 0 (fst w) of None \<Rightarrow> Inr True | Some _ \<Rightarrow> if snd w then Inl WalkFailed else Inr False)"

text \<open>The layout that is written: \<open>None\<close> when it is the restic layout and there is none.\<close>

definition auto_target :: "Auto \<Rightarrow> string list \<Rightarrow> walk \<Rightarrow> (Backend \<times> SnapshotInfo) option \<Rightarrow> (store_error, Backend option) result" where
  "auto_target s roots w sel =
     res_bind
       (if AU_kind s = SyncAuto \<and> (case sel of None \<Rightarrow> False | Some (b, _) \<Rightarrow> BE_layout b = LayoutCAS)
        then exceedsSnapshotFileThreshold roots (AU_packFileThreshold s) w else Inr False)
       (\<lambda>usePack. Inr
         (case AU_kind s of
            SyncCAS \<Rightarrow> Some (cas_backend s)
          | SyncPack \<Rightarrow> Some (pack_backend s)
          | SyncRestic \<Rightarrow> map_option (restic_backend s) (AU_restic s)
          | SyncTar \<Rightarrow> Some (tar_backend s)
          | _ \<Rightarrow> if usePack then Some (pack_backend s) else (case sel of None \<Rightarrow> Some (pack_backend s) | Some (b, _) \<Rightarrow> Some b)))"

definition auto_conflict :: "(Backend \<times> SnapshotInfo) option \<Rightarrow> int \<Rightarrow> store_error option" where
  "auto_conflict sel generation =
     (case sel of None \<Rightarrow> None | Some (_, info) \<Rightarrow> if SI_Generation info \<ge> generation then Some ErrConflict else None)"

definition auto_Persist :: "Auto \<Rightarrow> Backend list \<Rightarrow> walk \<Rightarrow> string \<Rightarrow> string list option \<Rightarrow> int \<Rightarrow> walk \<Rightarrow> unit remote_io" where
  "auto_Persist s bs counted bedID volumeRoots generation w =
     (case newSnapshotFilter volumeRoots of
        Inl e \<Rightarrow> io_fail e
      | Inr roots \<Rightarrow>
          io_bind (inspect bs bedID) (\<lambda>sel.
          io_bind (io_check (auto_conflict sel generation)) (\<lambda>_.
          io_bind (io_get (\<lambda>_. auto_target s roots counted sel)) (\<lambda>target.
          case target of None \<Rightarrow> io_fail NilStore | Some b \<Rightarrow> BE_Persist b bedID volumeRoots generation w))))"

fun delete_all :: "Backend list \<Rightarrow> string \<Rightarrow> bool \<Rightarrow> unit remote_io" where
  "delete_all [] bedID failed = (if failed then io_fail DeleteFailed else io_return ())"
| "delete_all (b # bs) bedID failed =
     io_bind (io_outcome (BE_Delete b bedID)) (\<lambda>r. delete_all bs bedID (failed \<or> \<not> is_ok r))"

definition auto_Delete :: "Auto \<Rightarrow> string \<Rightarrow> unit remote_io" where
  "auto_Delete s bedID = delete_all (backends s) bedID False"

section \<open>The order of answers does not matter\<close>

lemma set_al_put_fresh: "k \<notin> fst ` set m \<Longrightarrow> set (al_put k v m) = insert (k, v) (set m)"
  by (induction m) auto

lemma ball_unfold_pairs: "(\<forall>(x, y) \<in> A. P x y) \<longleftrightarrow> (\<forall>x y. (x, y) \<in> A \<longrightarrow> P x y)"
  by auto

definition found_infos :: "inspected list \<Rightarrow> (Backend \<times> SnapshotInfo) list" where
  "found_infos rs = concat (map (\<lambda>(b, r). case r of Inr (Some info) \<Rightarrow> [(b, info)] | _ \<Rightarrow> []) rs)"

lemma set_found_infos: "(b, info) \<in> set (found_infos rs) \<longleftrightarrow> (b, Inr (Some info)) \<in> set rs"
  by (fastforce simp: found_infos_def split: sum.splits option.splits)

definition inspect_inv :: "inspected list \<Rightarrow> autoState \<Rightarrow> bool" where
  "inspect_inv rs st \<longleftrightarrow> (AS_errors st = [] \<longleftrightarrow> (\<forall>b e. (b, Inl e) \<notin> set rs))
    \<and> set (AS_byLayout st) = (\<lambda>(b, info). (BE_layout b, info)) ` set (found_infos rs)
    \<and> (case AS_selected st of
         None \<Rightarrow> found_infos rs = []
       | Some (b, best) \<Rightarrow> (b, best) \<in> set (found_infos rs) \<and> (\<forall>(c, info) \<in> set (found_infos rs). SI_Generation info \<le> SI_Generation best))"

lemma inspect_inv_step:
  assumes inv: "inspect_inv rs st" and new: "BE_layout b \<notin> (BE_layout \<circ> fst) ` set rs"
  shows "inspect_inv (rs @ [(b, x)]) (inspect_result st (b, x))"
proof -
  have app: "found_infos (rs @ [(b, x)]) = found_infos rs @ found_infos [(b, x)]" by (simp add: found_infos_def)
  consider e where "x = Inl e" | "x = Inr None" | info where "x = Inr (Some info)" by (metis option.exhaust sum.exhaust)
  then show ?thesis
  proof cases
    case 1
    then have f: "found_infos (rs @ [(b, x)]) = found_infos rs" using app by (simp add: found_infos_def)
    show ?thesis using inv 1 unfolding inspect_inv_def f by (auto simp: inspect_result_def)
  next
    case 2
    then have f: "found_infos (rs @ [(b, x)]) = found_infos rs" using app by (simp add: found_infos_def)
    show ?thesis using inv 2 unfolding inspect_inv_def f by (auto simp: inspect_result_def)
  next
    case 3
    have f: "found_infos (rs @ [(b, x)]) = found_infos rs @ [(b, info)]" using app 3 by (simp add: found_infos_def)
    have "BE_layout b \<notin> fst ` set (AS_byLayout st)"
    proof
      assume "BE_layout b \<in> fst ` set (AS_byLayout st)"
      moreover have "set (AS_byLayout st) = (\<lambda>(b, info). (BE_layout b, info)) ` set (found_infos rs)" using inv by (simp add: inspect_inv_def)
      ultimately obtain b' i' where "(b', i') \<in> set (found_infos rs)" "BE_layout b' = BE_layout b" by force
      then show False using new set_found_infos [of b' i' rs] by force
    qed
    then have "set (al_put (BE_layout b) info (AS_byLayout st)) = insert (BE_layout b, info) (set (AS_byLayout st))" by (rule set_al_put_fresh)
    then have by_layout: "set (AS_byLayout (inspect_result st (b, x))) = (\<lambda>(b, info). (BE_layout b, info)) ` set (found_infos rs @ [(b, info)])"
      using inv 3 by (simp add: inspect_inv_def inspect_result_def)
    have errors: "AS_errors (inspect_result st (b, x)) = [] \<longleftrightarrow> (\<forall>c e. (c, Inl e) \<notin> set (rs @ [(b, x)]))"
      using inv 3 by (auto simp: inspect_inv_def inspect_result_def)
    show ?thesis
    proof (cases "AS_selected st")
      case None
      then have "found_infos rs = []" "AS_selected (inspect_result st (b, x)) = Some (b, info)" using inv 3 by (simp_all add: inspect_inv_def inspect_result_def)
      then show ?thesis using by_layout errors unfolding inspect_inv_def f by simp
    next
      case (Some p)
      obtain c best where p: "p = (c, best)" by fastforce
      then have old: "(c, best) \<in> set (found_infos rs)" "\<And>d j. (d, j) \<in> set (found_infos rs) \<Longrightarrow> SI_Generation j \<le> SI_Generation best"
        using inv Some by (auto simp: inspect_inv_def)
      have "AS_selected (inspect_result st (b, x)) = (if SI_Generation info > SI_Generation best then Some (b, info) else Some (c, best))"
        using Some p 3 by (simp add: inspect_result_def)
      then show ?thesis using by_layout errors old(1) old(2) unfolding inspect_inv_def f by (auto dest: old(2))
    qed
  qed
qed

lemma inspect_fold:
  assumes "distinct (map (BE_layout \<circ> fst) rs)"
  shows "inspect_inv rs (foldl inspect_result \<lparr> AS_selected = None, AS_byLayout = [], AS_errors = [] \<rparr> rs)"
  using assms
proof (induction rs rule: rev_induct)
  case Nil
  then show ?case by (simp add: inspect_inv_def found_infos_def)
next
  case (snoc r rs)
  then show ?case using inspect_inv_step [of rs _ "fst r" "snd r"] by simp
qed

lemma inspect_results_Some:
  assumes "distinct (map (BE_layout \<circ> fst) rs)"
  shows "inspect_results rs = Inr (Some (b, best)) \<longleftrightarrow> (\<forall>c e. (c, Inl e) \<notin> set rs) \<and> (b, Inr (Some best)) \<in> set rs
    \<and> (\<forall>c info. (c, Inr (Some info)) \<in> set rs \<longrightarrow> BE_layout c \<noteq> BE_layout b \<longrightarrow> SI_Generation info < SI_Generation best)"
proof -
  let ?st = "foldl inspect_result \<lparr> AS_selected = None, AS_byLayout = [], AS_errors = [] \<rparr> rs"
  note F = inspect_fold [OF assms, unfolded inspect_inv_def]
  have inj: "c = c' \<and> i = i'" if "(c, Inr (Some i)) \<in> set rs" "(c', Inr (Some i')) \<in> set rs" "BE_layout c = BE_layout c'" for c i c' i'
    using inj_onD [OF conjunct2 [OF assms [unfolded distinct_map]], of "(c, Inr (Some i))" "(c', Inr (Some i'))"] that by simp
  have amb: "list_ex (\<lambda>(l, info). l \<noteq> BE_layout c \<and> SI_Generation info = SI_Generation i) (AS_byLayout ?st)
      \<longleftrightarrow> (\<exists>d j. (d, Inr (Some j)) \<in> set rs \<and> BE_layout d \<noteq> BE_layout c \<and> SI_Generation j = SI_Generation i)" for c i
  proof -
    have layouts: "set (AS_byLayout ?st) = (\<lambda>(b, info). (BE_layout b, info)) ` set (found_infos rs)" using F by blast
    show ?thesis
      unfolding list_ex_iff layouts bex_simps(7)
    proof
      assume "\<exists>x \<in> set (found_infos rs). case case x of (b, info) \<Rightarrow> (BE_layout b, info) of (l, info) \<Rightarrow> l \<noteq> BE_layout c \<and> SI_Generation info = SI_Generation i"
      then obtain d j where "(d, j) \<in> set (found_infos rs)" "BE_layout d \<noteq> BE_layout c" "SI_Generation j = SI_Generation i" by auto
      then show "\<exists>d j. (d, Inr (Some j)) \<in> set rs \<and> BE_layout d \<noteq> BE_layout c \<and> SI_Generation j = SI_Generation i" unfolding set_found_infos by blast
    next
      assume "\<exists>d j. (d, Inr (Some j)) \<in> set rs \<and> BE_layout d \<noteq> BE_layout c \<and> SI_Generation j = SI_Generation i"
      then obtain d j where "(d, j) \<in> set (found_infos rs)" "BE_layout d \<noteq> BE_layout c" "SI_Generation j = SI_Generation i" unfolding set_found_infos by blast
      then show "\<exists>x \<in> set (found_infos rs). case case x of (b, info) \<Rightarrow> (BE_layout b, info) of (l, info) \<Rightarrow> l \<noteq> BE_layout c \<and> SI_Generation info = SI_Generation i"
        by (intro bexI [of _ "(d, j)"]) simp_all
    qed
  qed
  have best: "(c, Inr (Some i)) \<in> set rs \<and> (\<forall>d j. (d, Inr (Some j)) \<in> set rs \<longrightarrow> SI_Generation j \<le> SI_Generation i)"
    if "AS_selected ?st = Some (c, i)" for c i
    using F that set_found_infos [of _ _ rs] by (simp add: ball_unfold_pairs)
  show ?thesis
  proof
    assume "inspect_results rs = Inr (Some (b, best))"
    then have "AS_errors ?st = []" and sel: "AS_selected ?st = Some (b, best)"
      and "\<not> list_ex (\<lambda>(l, info). l \<noteq> BE_layout b \<and> SI_Generation info = SI_Generation best) (AS_byLayout ?st)"
      by (auto simp: inspect_results_def inspect_verdict_def split: if_splits option.splits)
    then show "(\<forall>c e. (c, Inl e) \<notin> set rs) \<and> (b, Inr (Some best)) \<in> set rs
      \<and> (\<forall>c info. (c, Inr (Some info)) \<in> set rs \<longrightarrow> BE_layout c \<noteq> BE_layout b \<longrightarrow> SI_Generation info < SI_Generation best)"
      using F best [OF sel] amb [of b best] unfolding order_le_less by blast
  next
    assume R: "(\<forall>c e. (c, Inl e) \<notin> set rs) \<and> (b, Inr (Some best)) \<in> set rs
      \<and> (\<forall>c info. (c, Inr (Some info)) \<in> set rs \<longrightarrow> BE_layout c \<noteq> BE_layout b \<longrightarrow> SI_Generation info < SI_Generation best)"
    then have e: "AS_errors ?st = []" using F by simp
    have "AS_selected ?st \<noteq> None"
    proof
      assume "AS_selected ?st = None"
      then show False using F R set_found_infos [of b best rs] by simp
    qed
    then obtain c i where sel: "AS_selected ?st = Some (c, i)" by fastforce
    have "SI_Generation best \<le> SI_Generation i" "(c, Inr (Some i)) \<in> set rs" using best [OF sel] R by blast+
    then have "BE_layout c = BE_layout b" using R by fastforce
    then have "c = b" "i = best" using inj best [OF sel] R by blast+
    moreover have "\<not> list_ex (\<lambda>(l, info). l \<noteq> BE_layout b \<and> SI_Generation info = SI_Generation best) (AS_byLayout ?st)"
      unfolding amb using R by fastforce
    ultimately show "inspect_results rs = Inr (Some (b, best))" using e sel by (simp add: inspect_results_def inspect_verdict_def)
  qed
qed

lemma inspect_results_None:
  assumes "distinct (map (BE_layout \<circ> fst) rs)"
  shows "inspect_results rs = Inr None \<longleftrightarrow> (\<forall>c e. (c, Inl e) \<notin> set rs) \<and> (\<forall>c info. (c, Inr (Some info)) \<notin> set rs)"
    and "inspect_results rs = Inl InspectFailed \<longleftrightarrow> (\<exists>c e. (c, Inl e) \<in> set rs)"
proof -
  let ?st = "foldl inspect_result \<lparr> AS_selected = None, AS_byLayout = [], AS_errors = [] \<rparr> rs"
  note F = inspect_fold [OF assms, unfolded inspect_inv_def]
  have none: "AS_selected ?st = None \<longleftrightarrow> (\<forall>c info. (c, Inr (Some info)) \<notin> set rs)"
    using F set_found_infos [of _ _ rs] by (cases "AS_selected ?st") (auto simp: set_empty [symmetric] simp del: set_empty)
  show "inspect_results rs = Inr None \<longleftrightarrow> (\<forall>c e. (c, Inl e) \<notin> set rs) \<and> (\<forall>c info. (c, Inr (Some info)) \<notin> set rs)"
    using F none by (auto simp: inspect_results_def inspect_verdict_def split: option.splits)
  show "inspect_results rs = Inl InspectFailed \<longleftrightarrow> (\<exists>c e. (c, Inl e) \<in> set rs)"
    using F by (auto simp: inspect_results_def inspect_verdict_def split: option.splits)
qed

section \<open>The layouts\<close>

fun backend_of :: "Auto \<Rightarrow> storeLayout \<Rightarrow> Backend" where
  "backend_of s LayoutCAS = cas_backend s"
| "backend_of s LayoutPack = pack_backend s"
| "backend_of s LayoutTar = tar_backend s"
| "backend_of s LayoutRestic = (case AU_restic s of None \<Rightarrow> pack_backend s | Some P \<Rightarrow> restic_backend s P)"

definition has_layout :: "Auto \<Rightarrow> storeLayout \<Rightarrow> bool" where
  "has_layout s l \<longleftrightarrow> l \<noteq> LayoutRestic \<or> AU_restic s \<noteq> None"

fun layout_snap :: "Auto \<Rightarrow> storeLayout \<Rightarrow> string \<Rightarrow> objects \<Rightarrow> (int \<times> tree_entry list) option" where
  "layout_snap s LayoutCAS bedID objs = cas_snap (AU_codec s) (AU_prefix s) bedID objs"
| "layout_snap s LayoutPack bedID objs = pack_snap (AU_codec s) (pack_bedPrefix (AU_prefix s) bedID) objs"
| "layout_snap s LayoutTar bedID objs = tar_snap (AU_prefix s) bedID objs"
| "layout_snap s LayoutRestic bedID objs = (case AU_restic s of None \<Rightarrow> None | Some P \<Rightarrow> restic_snap P (AU_prefix s) bedID objs)"

fun layout_ok :: "Auto \<Rightarrow> storeLayout \<Rightarrow> string \<Rightarrow> objects \<Rightarrow> bool" where
  "layout_ok s LayoutCAS bedID objs \<longleftrightarrow> codec_ok (AU_codec s) \<and> cas_ok (AU_codec s) (AU_prefix s) bedID objs"
| "layout_ok s LayoutPack bedID objs \<longleftrightarrow> codec_ok (AU_codec s) \<and> pack_ok (AU_codec s) (pack_bedPrefix (AU_prefix s) bedID) objs"
| "layout_ok s LayoutTar bedID objs \<longleftrightarrow> tar_ok (AU_prefix s) bedID objs"
| "layout_ok s LayoutRestic bedID objs \<longleftrightarrow> (case AU_restic s of None \<Rightarrow> True | Some P \<Rightarrow> restic_program_ok P \<and> plain_component bedID \<and> restic_ok P (AU_prefix s) bedID objs)"

fun layout_content :: "storeLayout \<Rightarrow> string list option \<Rightarrow> walk \<Rightarrow> tree_entry list" where
  "layout_content LayoutCAS volumeRoots w = cas_content volumeRoots w"
| "layout_content LayoutPack volumeRoots w = pack_content volumeRoots w"
| "layout_content LayoutTar volumeRoots w = tar_content volumeRoots w"
| "layout_content LayoutRestic volumeRoots w = restic_content volumeRoots w"

fun layout_fits :: "Auto \<Rightarrow> storeLayout \<Rightarrow> string list option \<Rightarrow> walk \<Rightarrow> bool" where
  "layout_fits s LayoutCAS volumeRoots w = cas_fits (AU_codec s) volumeRoots w"
| "layout_fits s LayoutPack volumeRoots w = pack_fits (AU_codec s) (AU_targetBytes s) volumeRoots w"
| "layout_fits s LayoutTar volumeRoots w = tar_fits w"
| "layout_fits s LayoutRestic volumeRoots w = restic_fits w"

text \<open>Each of them keeps the contract, also for a client that assumes more of the digests.\<close>

lemma snapshot_layout_seen:
  assumes L: "snapshot_layout ok' snap content complete fits (\<lambda>_. True) persist restore"
  shows "snapshot_layout ok' snap content complete fits seen persist restore"
proof (unfold_locales, goal_cases)
  case (1 r g w t res r' x)
  then show ?case using snapshot_layout.persist_atomic [OF L 1(1-5) _ 1(7)] by simp
next
  case (2 r g w t u r')
  then show ?case using snapshot_layout.persist_commits [OF L 2(1-5)] by simp
next
  case (3 r g' d' g w t res r')
  then show ?case by (rule snapshot_layout.persist_fenced [OF L])
next
  case (4 r g d t out r')
  then show ?case by (rule snapshot_layout.restore_exact [OF L])
qed

lemma layout_contract:
  assumes "has_layout s l"
  shows "snapshot_layout (layout_ok s l bedID) (layout_snap s l bedID) (layout_content l volumeRoots) walked_whole (layout_fits s l volumeRoots)
    (digests_seen (AU_codec s)) (BE_Persist (backend_of s l) bedID volumeRoots) (BE_Restore (backend_of s l) bedID)"
proof (cases l)
  case LayoutCAS
  have e: "layout_ok s l bedID = (\<lambda>objs. codec_ok (AU_codec s) \<and> cas_ok (AU_codec s) (AU_prefix s) bedID objs)"
    "layout_snap s l bedID = cas_snap (AU_codec s) (AU_prefix s) bedID" "layout_content l volumeRoots = cas_content volumeRoots"
    "layout_fits s l volumeRoots = cas_fits (AU_codec s) volumeRoots" using LayoutCAS by (simp_all add: fun_eq_iff)
  show ?thesis unfolding e using LayoutCAS snapshot_layout_seen [OF cas.snapshot_layout_axioms] by (simp add: cas_backend_def)
next
  case LayoutPack
  have e: "layout_ok s l bedID = (\<lambda>objs. codec_ok (AU_codec s) \<and> pack_ok (AU_codec s) (pack_bedPrefix (AU_prefix s) bedID) objs)"
    "layout_snap s l bedID = pack_snap (AU_codec s) (pack_bedPrefix (AU_prefix s) bedID)" "layout_content l volumeRoots = pack_content volumeRoots"
    "layout_fits s l volumeRoots = pack_fits (AU_codec s) (AU_targetBytes s) volumeRoots" using LayoutPack by (simp_all add: fun_eq_iff)
  show ?thesis unfolding e using LayoutPack pack.snapshot_layout_axioms by (simp add: pack_backend_def)
next
  case LayoutTar
  have e: "layout_ok s l bedID = tar_ok (AU_prefix s) bedID"
    "layout_snap s l bedID = tar_snap (AU_prefix s) bedID" "layout_content l volumeRoots = tar_content volumeRoots"
    "layout_fits s l volumeRoots = tar_fits" using LayoutTar by (simp_all add: fun_eq_iff)
  show ?thesis unfolding e using LayoutTar snapshot_layout_seen [OF tar.snapshot_layout_axioms] by (simp add: tar_backend_def)
next
  case LayoutRestic
  then obtain P where P: "AU_restic s = Some P" using assms by (auto simp: has_layout_def)
  have e: "layout_ok s l bedID = (\<lambda>objs. restic_program_ok P \<and> plain_component bedID \<and> restic_ok P (AU_prefix s) bedID objs)"
    "layout_snap s l bedID = restic_snap P (AU_prefix s) bedID" "layout_content l volumeRoots = restic_content volumeRoots"
    "layout_fits s l volumeRoots = restic_fits" using LayoutRestic P by (simp_all add: fun_eq_iff)
  show ?thesis unfolding e using LayoutRestic P snapshot_layout_seen [OF restic.snapshot_layout_axioms] by (simp add: restic_backend_def)
qed

definition program_ok :: "Auto \<Rightarrow> bool" where
  "program_ok s = (case AU_restic s of None \<Rightarrow> True | Some P \<Rightarrow> restic_program_ok P)"

lemma layout_regions:
  "layout_region LayoutCAS pfx bedID = cas_region pfx bedID" "layout_region LayoutPack pfx bedID = pack_region pfx bedID"
  "layout_region LayoutTar pfx bedID = tar_region pfx bedID"
  by (simp_all add: fun_eq_iff)

lemma layout_Persist_region:
  assumes "has_layout s l" and "program_ok s" and "plain_component bedID"
  shows "stays_in (layout_region l (AU_prefix s) bedID) (BE_Persist (backend_of s l) bedID volumeRoots g w)"
proof (cases "l = LayoutRestic")
  case True
  then obtain P where "AU_restic s = Some P" using assms(1) by (auto simp: has_layout_def)
  then show ?thesis using True assms(2,3) restic_Persist_region by (simp add: program_ok_def restic_backend_def del: layout_region.simps)
next
  case False
  then show ?thesis
    by (cases l) (simp_all add: layout_regions cas_backend_def pack_backend_def tar_backend_def cas_Persist_region pack_Persist_region tar_Persist_region
      del: layout_region.simps)
qed

lemma layout_Delete_region: "has_layout s l \<Longrightarrow> stays_in (layout_region l (AU_prefix s) bedID) (BE_Delete (backend_of s l) bedID)"
proof (cases "l = LayoutRestic")
  case True
  assume "has_layout s l"
  then obtain P where "AU_restic s = Some P" using True by (auto simp: has_layout_def)
  then show ?thesis using True restic_Delete_region by (simp add: restic_backend_def del: layout_region.simps)
next
  case False
  then show ?thesis
    by (cases l) (simp_all add: layout_regions cas_backend_def pack_backend_def tar_backend_def cas_Delete_region pack_Delete_region tar_Delete_region
      del: layout_region.simps)
qed

lemma layout_snap_region:
  assumes P: "program_ok s" and bed: "plain_component bedID"
    and same: "same_outside R objs objs'" and dis: "disjoint_regions R (layout_region l (AU_prefix s) bedID)"
  shows "layout_snap s l bedID objs' = layout_snap s l bedID objs \<and> layout_ok s l bedID objs' = layout_ok s l bedID objs"
proof (cases l)
  case LayoutCAS
  then show ?thesis using cas_snap_region [OF same dis [unfolded LayoutCAS layout_regions]] by simp
next
  case LayoutPack
  then show ?thesis using pack_snap_region [OF same dis [unfolded LayoutPack layout_regions]] by simp
next
  case LayoutTar
  then show ?thesis using tar_snap_region [OF same dis [unfolded LayoutTar layout_regions]] by simp
next
  case LayoutRestic
  then show ?thesis using restic_snap_region [OF _ bed same dis [unfolded LayoutRestic]] P by (auto simp: program_ok_def split: option.split)
qed

text \<open>What \<open>Stat\<close> reports of a layout.\<close>

lemma layout_Stat_reads:
  assumes "layout_ok s l bedID objs" and "has_layout s l"
  shows "\<exists>info. obj_reads objs (BE_Stat (backend_of s l) bedID) info \<and> map_option SI_Generation info = map_option fst (layout_snap s l bedID objs)"
proof -
  have stat: "obj_reads objs (io_bind (obj_head key) (\<lambda>ob. io_return (f ob))) (f (map_of objs key))" for key and f :: "object option \<Rightarrow> SnapshotInfo option"
    unfolding obj_head_def by (rule obj_reads_bind [OF obj_reads_read obj_reads_return]) simp
  have gen: "SI_Generation (snapshot_info ob) = g" if "meta_int ob generationMetaKey = Some g" for ob g using that by (simp add: snapshot_info_def)
  show ?thesis
  proof (cases l)
    case LayoutCAS
    then have C: "codec_ok (AU_codec s)" and ok: "cas_ok (AU_codec s) (AU_prefix s) bedID objs" using assms by simp_all
    have "map_option SI_Generation (map_option snapshot_info (map_of objs (cas_indexKey (AU_prefix s) bedID))) = map_option fst (layout_snap s l bedID objs)"
    proof (cases "map_of objs (cas_indexKey (AU_prefix s) bedID)")
      case None
      then show ?thesis using LayoutCAS by (simp add: cas_snap_def)
    next
      case (Some ob)
      then obtain g cs t where ix: "cas_indexed (AU_codec s) (AU_prefix s) bedID objs g cs t" using ok by (auto simp: cas_ok_def)
      then have "meta_int ob generationMetaKey = Some g" using Some by (auto simp: cas_indexed_def)
      then show ?thesis using cas_snap_indexed [OF C _ ix] ok Some gen LayoutCAS by (simp add: cas_ok_def)
    qed
    then show ?thesis using stat [of "cas_indexKey (AU_prefix s) bedID" "map_option snapshot_info"] LayoutCAS by (auto simp: cas_backend_def cas_Stat_def)
  next
    case LayoutPack
    let ?bp = "pack_bedPrefix (AU_prefix s) bedID"
    have C: "codec_ok (AU_codec s)" and ok: "pack_ok (AU_codec s) ?bp objs" using assms LayoutPack by simp_all
    have "map_option SI_Generation (map_option snapshot_info (map_of objs (pack_headKey ?bp))) = map_option fst (layout_snap s l bedID objs)"
    proof (cases "map_of objs (pack_headKey ?bp)")
      case None
      then show ?thesis using LayoutPack by (simp add: pack_snap_def)
    next
      case (Some ob)
      then obtain g m cs t where h: "pack_headed (AU_codec s) ?bp objs g m cs t" using ok by (auto simp: pack_ok_def)
      then have "meta_int ob generationMetaKey = Some g" using Some by (auto simp: pack_headed_def)
      then show ?thesis using pack_snap_headed [OF C h] Some gen LayoutPack by simp
    qed
    then show ?thesis using stat [of "pack_headKey ?bp" "map_option snapshot_info"] LayoutPack by (auto simp: pack_backend_def pack_Stat_def)
  next
    case LayoutTar
    let ?f = "map_option (\<lambda>ob. \<lparr> SI_Generation = SI_Generation (snapshot_info ob), SI_Bytes = CD_size (AU_codec s) (OB_Body ob) \<rparr>)"
    have "map_option SI_Generation (?f (map_of objs (tar_snapshotKey (AU_prefix s) bedID))) = map_option fst (layout_snap s l bedID objs)"
    proof (cases "map_of objs (tar_snapshotKey (AU_prefix s) bedID)")
      case None
      then show ?thesis using LayoutTar by (simp add: tar_snap_def)
    next
      case (Some ob)
      then obtain g d where gd: "tar_snap (AU_prefix s) bedID objs = Some (g, d)" using assms LayoutTar by (auto simp: tar_ok_def)
      then have "meta_int ob generationMetaKey = Some g" using tar_snapD [OF gd] Some by auto
      then show ?thesis using gd Some gen LayoutTar by simp
    qed
    then show ?thesis using stat [of "tar_snapshotKey (AU_prefix s) bedID" ?f] LayoutTar by (auto simp: tar_backend_def tar_Stat_def)
  next
    case LayoutRestic
    then obtain P where P: "AU_restic s = Some P" using assms(2) by (auto simp: has_layout_def)
    then have "restic_ok P (AU_prefix s) bedID objs" using assms(1) LayoutRestic by simp
    from restic_Stat_reads [OF this] show ?thesis using LayoutRestic P by (auto simp: restic_backend_def)
  qed
qed

section \<open>What the policy sees and does\<close>

text \<open>The order in which the layouts answer.\<close>

definition all_layouts :: "Auto \<Rightarrow> storeLayout list \<Rightarrow> bool" where
  "all_layouts s ls \<longleftrightarrow> distinct ls \<and> set ls = {l. has_layout s l}"

definition auto_ok :: "Auto \<Rightarrow> string \<Rightarrow> objects \<Rightarrow> bool" where
  "auto_ok s bedID objs \<longleftrightarrow> (\<forall>l. layout_ok s l bedID objs)"

lemma auto_ok_program: "auto_ok s bedID objs \<Longrightarrow> program_ok s"
  unfolding auto_ok_def program_ok_def by (drule spec [of _ LayoutRestic]) (auto split: option.splits)

text \<open>The selection is the newest snapshot of all layouts.\<close>

definition newest :: "Auto \<Rightarrow> string \<Rightarrow> objects \<Rightarrow> (Backend \<times> SnapshotInfo) option \<Rightarrow> bool" where
  "newest s bedID objs sel \<longleftrightarrow>
     (case sel of
        None \<Rightarrow> \<forall>l. layout_snap s l bedID objs = None
      | Some (b, info) \<Rightarrow> \<exists>l d. has_layout s l \<and> b = backend_of s l \<and> layout_snap s l bedID objs = Some (SI_Generation info, d)
          \<and> (\<forall>l' g' d'. l' \<noteq> l \<longrightarrow> layout_snap s l' bedID objs = Some (g', d') \<longrightarrow> g' < SI_Generation info))"

lemma BE_layout_backend_of: "has_layout s l \<Longrightarrow> BE_layout (backend_of s l) = l"
  by (cases l) (auto simp: cas_backend_def pack_backend_def tar_backend_def restic_backend_def has_layout_def)

lemma snap_has_layout: "layout_snap s l bedID objs = Some x \<Longrightarrow> has_layout s l"
  by (cases l) (auto simp: has_layout_def split: option.splits)

definition stat_result :: "Auto \<Rightarrow> string \<Rightarrow> objects \<Rightarrow> storeLayout \<Rightarrow> inspected \<Rightarrow> bool" where
  "stat_result s bedID objs l x \<longleftrightarrow> fst x = backend_of s l
     \<and> (\<forall>info. snd x = Inr info \<longrightarrow> map_option SI_Generation info = map_option fst (layout_snap s l bedID objs))"

lemma results_layouts:
  assumes "all_layouts s ls" and "list_all2 (stat_result s bedID objs) ls rs"
  shows "map (BE_layout \<circ> fst) rs = ls"
proof -
  have "list_all2 (stat_result s bedID objs) ks xs \<Longrightarrow> \<forall>l \<in> set ks. has_layout s l \<Longrightarrow> map (BE_layout \<circ> fst) xs = ks" for ks xs
    by (induction rule: list_all2_induct) (auto simp: stat_result_def BE_layout_backend_of)
  then show ?thesis using assms by (auto simp: all_layouts_def)
qed

lemma result_of_layout:
  assumes "list_all2 P ls rs" and "l \<in> set ls"
  shows "\<exists>x \<in> set rs. P l x"
  using assms by (induction rule: list_all2_induct) auto

lemma layout_of_result:
  assumes "list_all2 P ls rs" and "x \<in> set rs"
  shows "\<exists>l \<in> set ls. P l x"
  using assms by (induction rule: list_all2_induct) auto

lemma results_newest:
  assumes ls: "all_layouts s ls" and rs: "list_all2 (stat_result s bedID objs) ls rs" and sel: "inspect_results rs = Inr sel"
  shows "newest s bedID objs sel"
proof -
  have dist: "distinct (map (BE_layout \<circ> fst) rs)" using results_layouts [OF ls rs] ls by (simp add: all_layouts_def)
  have no_err: "snd x \<noteq> Inl e" if "x \<in> set rs" for x e
  proof
    assume "snd x = Inl e"
    then have "inspect_results rs = Inl InspectFailed" using that inspect_results_None(2) [OF dist] by (metis prod.collapse)
    then show False using sel by simp
  qed
  have each: "\<exists>b info. (b, Inr info) \<in> set rs \<and> b = backend_of s l \<and> map_option SI_Generation info = map_option fst (layout_snap s l bedID objs)"
    if "has_layout s l" for l
  proof -
    have "l \<in> set ls" using that ls by (simp add: all_layouts_def)
    then obtain x where x: "x \<in> set rs" "stat_result s bedID objs l x" using result_of_layout [OF rs] by blast
    then obtain info where "snd x = Inr info" using no_err by (metis sum.exhaust)
    then show ?thesis using x by (cases x) (auto simp: stat_result_def)
  qed
  show ?thesis
  proof (cases sel)
    case None
    have none: "(c, Inr (Some info)) \<notin> set rs" for c info using inspect_results_None(1) [OF dist] sel None by simp
    have "layout_snap s l bedID objs = None" for l
    proof (cases "has_layout s l")
      case True
      then obtain b info where "(b, Inr info) \<in> set rs" "map_option SI_Generation info = map_option fst (layout_snap s l bedID objs)"
        using each by blast
      then show ?thesis using none [of b] by (cases info) auto
    next
      case False
      then show ?thesis using snap_has_layout by (cases "layout_snap s l bedID objs") auto
    qed
    then show ?thesis using None by (simp add: newest_def)
  next
    case (Some p)
    obtain b info where p: "p = (b, info)" by fastforce
    have R: "(b, Inr (Some info)) \<in> set rs"
      "\<And>c i. (c, Inr (Some i)) \<in> set rs \<Longrightarrow> BE_layout c \<noteq> BE_layout b \<Longrightarrow> SI_Generation i < SI_Generation info"
      using inspect_results_Some [OF dist, of b info] sel Some p by auto
    obtain l where l: "l \<in> set ls" "b = backend_of s l" "map_option SI_Generation (Some info) = map_option fst (layout_snap s l bedID objs)"
      using layout_of_result [OF rs R(1)] by (auto simp: stat_result_def)
    have l': "has_layout s l" using l(1) ls by (simp add: all_layouts_def)
    obtain d where "layout_snap s l bedID objs = Some (SI_Generation info, d)" using l(3) by (cases "layout_snap s l bedID objs") auto
    moreover have "g' < SI_Generation info" if kl: "k \<noteq> l" and snap: "layout_snap s k bedID objs = Some (g', d')" for k g' d'
    proof -
      have k: "has_layout s k" by (rule snap_has_layout [OF snap])
      obtain i where i: "(backend_of s k, Inr i) \<in> set rs" "map_option SI_Generation i = Some g'" using each [OF k] snap by auto
      then obtain j where "i = Some j" "SI_Generation j = g'" by (cases i) auto
      then show ?thesis using R(2) [of "backend_of s k" j] i(1) l(2) kl BE_layout_backend_of [OF k] BE_layout_backend_of [OF l'] by simp
    qed
    ultimately show ?thesis using Some p l(2) l' by (auto simp: newest_def)
  qed
qed

section \<open>Inspection of a bucket\<close>

lemma io_bindE:
  assumes "io_bind p q r = (t, res, r')"
  obtains (first) e where "p r = (t, Inl e, r')" "res = Inl e"
    | (both) t1 x r1 t2 where "p r = (t1, Inr x, r1)" "q x r1 = (t2, res, r')" "t = t1 @ t2"
  using assms by (auto simp: io_bind_def split: prod.splits sum.splits)

lemma stat_outcome:
  assumes ok: "layout_ok s l bedID (RM_Objects r)" and l: "has_layout s l"
    and run: "io_bind (io_outcome (BE_Stat (backend_of s l) bedID)) (\<lambda>x. io_return (backend_of s l, x)) r = (t, res, r')"
  shows "t = [] \<and> RM_Objects r' = RM_Objects r \<and> (RM_Answers r = [] \<longrightarrow> RM_Answers r' = [])
    \<and> (\<exists>x. res = Inr x \<and> stat_result s bedID (RM_Objects r) l x \<and> (RM_Answers r = [] \<longrightarrow> is_ok (snd x)))"
proof -
  obtain info where info: "obj_reads (RM_Objects r) (BE_Stat (backend_of s l) bedID) info"
    "map_option SI_Generation info = map_option fst (layout_snap s l bedID (RM_Objects r))" using layout_Stat_reads [OF ok l] by blast
  obtain t1 res1 r1 where st: "BE_Stat (backend_of s l) bedID r = (t1, res1, r1)" by (rule prod_cases3)
  have "t = t1" "r' = r1" "res = Inr (backend_of s l, res1)" using run st by (simp_all add: io_bind_def io_outcome_def io_return_def)
  then show ?thesis using obj_readsD [OF info(1) st] info(2) by (auto simp: stat_result_def)
qed

lemma inspect_map:
  assumes "auto_ok s bedID (RM_Objects r)" and "\<forall>l \<in> set ls. has_layout s l"
    and "io_map (\<lambda>b. io_bind (io_outcome (BE_Stat b bedID)) (\<lambda>x. io_return (b, x))) (map (backend_of s) ls) r = (t, res, r')"
  shows "t = [] \<and> RM_Objects r' = RM_Objects r \<and> (RM_Answers r = [] \<longrightarrow> RM_Answers r' = [])
    \<and> (\<exists>rs. res = Inr rs \<and> list_all2 (stat_result s bedID (RM_Objects r)) ls rs \<and> (RM_Answers r = [] \<longrightarrow> list_all (\<lambda>x. is_ok (snd x)) rs))"
  using assms
proof (induction ls arbitrary: r t res r')
  case Nil
  then show ?case by (simp add: io_return_def)
next
  case (Cons l ls)
  let ?f = "\<lambda>b. io_bind (io_outcome (BE_Stat b bedID)) (\<lambda>x. io_return (b, x))"
  obtain t1 res1 r1 where first: "?f (backend_of s l) r = (t1, res1, r1)" by (rule prod_cases3)
  have l: "layout_ok s l bedID (RM_Objects r)" "has_layout s l" using Cons.prems by (auto simp: auto_ok_def)
  note S = stat_outcome [OF l first]
  then obtain x where x: "res1 = Inr x" "stat_result s bedID (RM_Objects r) l x" "RM_Answers r = [] \<longrightarrow> is_ok (snd x)" by blast
  obtain t2 res2 r2 where rest: "io_map ?f (map (backend_of s) ls) r1 = (t2, res2, r2)" by (rule prod_cases3)
  have "auto_ok s bedID (RM_Objects r1)" "\<forall>l \<in> set ls. has_layout s l" using Cons.prems S by simp_all
  note IH = Cons.IH [OF this rest]
  then obtain rs where rs: "res2 = Inr rs" by blast
  have "io_bind (?f (backend_of s l)) (\<lambda>y. io_bind (io_map ?f (map (backend_of s) ls)) (\<lambda>ys. io_return (y # ys))) r = (t1 @ t2, Inr (x # rs), r2)"
    unfolding io_bind_def [of "?f (backend_of s l)"] first using x(1) rest rs by (simp add: io_bind_def [of "io_map _ _"] io_return_def)
  then have e: "t = t1 @ t2" "r' = r2" "res = Inr (x # rs)" using Cons.prems(3) by simp_all
  show ?case using S x IH rs e by simp
qed

lemma inspect_run:
  assumes ok: "auto_ok s bedID (RM_Objects r)" and ls: "all_layouts s ls" and run: "inspect (map (backend_of s) ls) bedID r = (t, res, r')"
  shows "t = [] \<and> RM_Objects r' = RM_Objects r \<and> (\<forall>sel. res = Inr sel \<longrightarrow> newest s bedID (RM_Objects r) sel)
    \<and> (RM_Answers r = [] \<longrightarrow> RM_Answers r' = [] \<and> (\<forall>l g d. layout_snap s l bedID (RM_Objects r) = Some (g, d)
         \<and> (\<forall>l' g' d'. l' \<noteq> l \<longrightarrow> layout_snap s l' bedID (RM_Objects r) = Some (g', d') \<longrightarrow> g' < g) \<longrightarrow>
         (\<exists>info. res = Inr (Some (backend_of s l, info)) \<and> SI_Generation info = g)))"
proof -
  obtain t1 res1 r1 where m: "io_map (\<lambda>b. io_bind (io_outcome (BE_Stat b bedID)) (\<lambda>x. io_return (b, x))) (map (backend_of s) ls) r = (t1, res1, r1)"
    by (rule prod_cases3)
  have "\<forall>l \<in> set ls. has_layout s l" using ls by (simp add: all_layouts_def)
  note M = inspect_map [OF ok this m]
  then obtain rs where rs: "res1 = Inr rs" "list_all2 (stat_result s bedID (RM_Objects r)) ls rs" "RM_Answers r = [] \<longrightarrow> list_all (\<lambda>x. is_ok (snd x)) rs"
    by blast
  have e: "t = t1" "r' = r1" "res = inspect_results rs" using run unfolding inspect_def io_bind_def [of "io_map _ _"] m rs(1) by (simp_all add: io_get_def)
  have dist: "distinct (map (BE_layout \<circ> fst) rs)" using results_layouts [OF ls rs(2)] ls by (simp add: all_layouts_def)
  have fin: "\<exists>info. res = Inr (Some (backend_of s l, info)) \<and> SI_Generation info = g"
    if quiet: "RM_Answers r = []" and snap: "layout_snap s l bedID (RM_Objects r) = Some (g, d)"
      and top: "\<And>l' g' d'. l' \<noteq> l \<Longrightarrow> layout_snap s l' bedID (RM_Objects r) = Some (g', d') \<Longrightarrow> g' < g" for l g d
  proof -
    have "l \<in> set ls" using ls snap_has_layout [OF snap] by (simp add: all_layouts_def)
    then obtain x where x: "x \<in> set rs" "stat_result s bedID (RM_Objects r) l x" using result_of_layout [OF rs(2)] by blast
    have okr: "is_ok (snd y)" if "y \<in> set rs" for y using rs(3) quiet that by (simp add: list_all_iff)
    obtain info where info: "snd x = Inr (Some info)" "SI_Generation info = g"
    proof -
      obtain o' where o': "snd x = Inr o'" using okr [OF x(1)] by (cases "snd x") auto
      then have "map_option SI_Generation o' = Some g" using x(2) snap by (simp add: stat_result_def)
      then show thesis using that o' by (cases o') auto
    qed
    have "(\<forall>c e. (c, Inl e) \<notin> set rs) \<and> (backend_of s l, Inr (Some info)) \<in> set rs
      \<and> (\<forall>c i. (c, Inr (Some i)) \<in> set rs \<longrightarrow> BE_layout c \<noteq> BE_layout (backend_of s l) \<longrightarrow> SI_Generation i < SI_Generation info)"
    proof (intro conjI allI impI)
      show "(c, Inl e) \<notin> set rs" for c e using okr [of "(c, Inl e)"] by auto
      have "x = (backend_of s l, Inr (Some info))" using x(2) info(1) by (simp add: stat_result_def prod_eq_iff)
      then show "(backend_of s l, Inr (Some info)) \<in> set rs" using x(1) by simp
      show "SI_Generation i < SI_Generation info" if ci: "(c, Inr (Some i)) \<in> set rs" "BE_layout c \<noteq> BE_layout (backend_of s l)" for c i
      proof -
        obtain k where k: "k \<in> set ls" "stat_result s bedID (RM_Objects r) k (c, Inr (Some i))" using layout_of_result [OF rs(2) ci(1)] by blast
        then have c: "c = backend_of s k" "map_option fst (layout_snap s k bedID (RM_Objects r)) = Some (SI_Generation i)" by (auto simp: stat_result_def)
        then obtain d' where "layout_snap s k bedID (RM_Objects r) = Some (SI_Generation i, d')" by (cases "layout_snap s k bedID (RM_Objects r)") auto
        moreover have "k \<noteq> l" using ci(2) c(1) by blast
        ultimately show ?thesis using top info(2) by blast
      qed
    qed
    then show ?thesis using inspect_results_Some [OF dist] e(3) info(2) by blast
  qed
  show ?thesis using M e results_newest [OF ls rs(2)] fin by (auto simp: is_ok.simps)
qed

section \<open>Writing\<close>

text \<open>One layout has the new snapshot, newer than all others, and the others are as they were.\<close>

definition committed :: "Auto \<Rightarrow> string \<Rightarrow> objects \<Rightarrow> objects \<Rightarrow> storeLayout \<Rightarrow> int \<Rightarrow> tree_entry list \<Rightarrow> bool" where
  "committed s bedID objs objs' l g d \<longleftrightarrow> layout_snap s l bedID objs' = Some (g, d)
     \<and> (\<forall>l'. l' \<noteq> l \<longrightarrow> layout_snap s l' bedID objs' = layout_snap s l' bedID objs)
     \<and> (\<forall>l' g' d'. layout_snap s l' bedID objs = Some (g', d') \<longrightarrow> g' < g)"

lemma auto_target_layout:
  assumes "newest s bedID objs sel" and "auto_target s roots w sel = Inr (Some b)"
  shows "\<exists>l. has_layout s l \<and> b = backend_of s l"
proof -
  have sel: "\<exists>l. has_layout s l \<and> c = backend_of s l" if "sel = Some (c, info)" for c info using assms(1) that by (auto simp: newest_def)
  obtain usePack where u: "(case AU_kind s of SyncCAS \<Rightarrow> Some (cas_backend s) | SyncPack \<Rightarrow> Some (pack_backend s) | SyncRestic \<Rightarrow> map_option (restic_backend s) (AU_restic s)
      | SyncTar \<Rightarrow> Some (tar_backend s) | _ \<Rightarrow> if usePack then Some (pack_backend s) else (case sel of None \<Rightarrow> Some (pack_backend s) | Some (b, _) \<Rightarrow> Some b)) = Some b"
    using assms(2) unfolding auto_target_def by (cases "if AU_kind s = SyncAuto \<and> (case sel of None \<Rightarrow> False | Some (b, _) \<Rightarrow> BE_layout b = LayoutCAS)
        then exceedsSnapshotFileThreshold roots (AU_packFileThreshold s) w else Inr False") auto
  have built: "\<exists>l. has_layout s l \<and> cas_backend s = backend_of s l" "\<exists>l. has_layout s l \<and> pack_backend s = backend_of s l"
    "\<exists>l. has_layout s l \<and> tar_backend s = backend_of s l"
    by (rule exI [of _ LayoutCAS] exI [of _ LayoutPack] exI [of _ LayoutTar], simp add: has_layout_def)+
  have restic: "\<exists>l. has_layout s l \<and> restic_backend s P = backend_of s l" if "AU_restic s = Some P" for P
    by (rule exI [of _ LayoutRestic]) (simp add: has_layout_def that)
  show ?thesis using u built sel restic by (cases "AU_kind s"; cases sel) (auto split: if_splits)
qed

lemma newest_bound:
  assumes "newest s bedID objs sel" and "auto_conflict sel g = None" and "layout_snap s l bedID objs = Some (g', d')"
  shows "g' < g"
proof (cases sel)
  case None
  then show ?thesis using assms(1,3) by (simp add: newest_def)
next
  case (Some p)
  obtain b info where p: "p = (b, info)" by fastforce
  then obtain k d where k: "layout_snap s k bedID objs = Some (SI_Generation info, d)"
    "\<And>l' g' d'. l' \<noteq> k \<Longrightarrow> layout_snap s l' bedID objs = Some (g', d') \<Longrightarrow> g' < SI_Generation info"
    using assms(1) Some by (auto simp: newest_def)
  have "SI_Generation info < g" using assms(2) Some p by (auto simp: auto_conflict_def split: if_splits)
  moreover have "g' \<le> SI_Generation info" using k(1) k(2) [OF _ assms(3)] assms(3) by (cases "l = k") auto
  ultimately show ?thesis by simp
qed

text \<open>The layout that a \<open>Persist\<close> writes: the one the policy picks from what the layouts answer.\<close>

definition writes_layout :: "Auto \<Rightarrow> storeLayout list \<Rightarrow> walk \<Rightarrow> string \<Rightarrow> string list option \<Rightarrow> Remote \<Rightarrow> storeLayout \<Rightarrow> bool" where
  "writes_layout s ls counted bedID volumeRoots r l \<longleftrightarrow> has_layout s l
     \<and> (\<exists>roots t1 sel r1. newSnapshotFilter volumeRoots = Inr roots \<and> inspect (map (backend_of s) ls) bedID r = (t1, Inr sel, r1)
          \<and> auto_target s roots counted sel = Inr (Some (backend_of s l)))"

lemma auto_Persist_cases:
  assumes ok: "auto_ok s bedID (RM_Objects r)" and ls: "all_layouts s ls"
    and run: "auto_Persist s (map (backend_of s) ls) counted bedID volumeRoots g w r = (t, res, r')"
  obtains (unchanged) "t = []" "RM_Objects r' = RM_Objects r" "\<nexists>u. res = Inr u"
    | (persisted) l ri where "writes_layout s ls counted bedID volumeRoots r l" "RM_Objects ri = RM_Objects r" "BE_Persist (backend_of s l) bedID volumeRoots g w ri = (t, res, r')"
      "\<forall>k g' d'. layout_snap s k bedID (RM_Objects r) = Some (g', d') \<longrightarrow> g' < g"
proof (cases "newSnapshotFilter volumeRoots")
  case (Inl e)
  then show ?thesis using run by (intro unchanged) (auto simp: auto_Persist_def io_fail_def)
next
  case (Inr roots)
  show ?thesis
    using run unfolding auto_Persist_def Inr sum.case
  proof (cases rule: io_bindE)
    case (first e)
    then show ?thesis using inspect_run [OF ok ls first(1)] by (intro unchanged) auto
  next
    case (both ti sel ri t2)
    note I = inspect_run [OF ok ls both(1)]
    have new: "newest s bedID (RM_Objects r) sel" and ri: "RM_Objects ri = RM_Objects r" and ti: "ti = []" using I by simp_all
    show ?thesis
      using both(2)
    proof (cases rule: io_bindE)
      case (first e)
      then show ?thesis using ri ti both(3) by (intro unchanged) (auto simp: io_check_def)
    next
      case inner: (both t3 u r3 t4)
      have nc: "auto_conflict sel g = None" "r3 = ri" "t3 = []" using inner(1) by (auto simp: io_check_def split: option.splits)
      show ?thesis
        using inner(2)
      proof (cases rule: io_bindE)
        case (first e)
        then show ?thesis using ri ti nc both(3) inner(3) by (intro unchanged) (auto simp: io_get_def)
      next
        case last: (both t5 target r5 t6)
        have tg: "auto_target s roots counted sel = Inr target" "r5 = r3" "t5 = []" using last(1) by (auto simp: io_get_def)
        show ?thesis
        proof (cases target)
          case None
          then show ?thesis using last(2,3) tg ri ti nc both(3) inner(3) by (intro unchanged) (auto simp: io_fail_def)
        next
          case (Some b)
          obtain l where l: "has_layout s l" "b = backend_of s l" using auto_target_layout [OF new] tg(1) Some by blast
          show ?thesis
          proof (rule persisted [OF _ ri])
            show "writes_layout s ls counted bedID volumeRoots r l"
              unfolding writes_layout_def using l Inr both(1) tg(1) Some by blast
            show "BE_Persist (backend_of s l) bedID volumeRoots g w ri = (t, res, r')"
              using last(2,3) Some l(2) tg nc ti both(3) inner(3) by simp
            show "\<forall>k g' d'. layout_snap s k bedID (RM_Objects r) = Some (g', d') \<longrightarrow> g' < g" using newest_bound [OF new nc(1)] by blast
          qed
        qed
      qed
    qed
  qed
qed

text \<open>A write of one layout leaves the other layouts of the Bed alone.\<close>

lemma layout_Persist_commits:
  assumes ok: "auto_ok s bedID (RM_Objects r)" and bed: "plain_component bedID" and l: "has_layout s l" and g: "0 \<le> g" "g \<le> max_int64"
    and fits: "layout_fits s l volumeRoots w" and seen: "\<forall>y \<in> set t. digests_seen (AU_codec s) y"
    and run: "BE_Persist (backend_of s l) bedID volumeRoots g w r = (t, res, r')"
    and older: "\<forall>k g' d'. layout_snap s k bedID (RM_Objects r) = Some (g', d') \<longrightarrow> g' < g"
  shows "x \<in> set (r' # t) \<Longrightarrow> auto_ok s bedID (RM_Objects x) \<and> ((\<forall>k. layout_snap s k bedID (RM_Objects x) = layout_snap s k bedID (RM_Objects r))
      \<or> walked_whole w \<and> committed s bedID (RM_Objects r) (RM_Objects x) l g (layout_content l volumeRoots w))"
    and "res = Inr u \<Longrightarrow> walked_whole w \<and> committed s bedID (RM_Objects r) (RM_Objects r') l g (layout_content l volumeRoots w)"
proof -
  note L = layout_contract [OF l, of bedID volumeRoots]
  have lok: "layout_ok s l bedID (RM_Objects r)" using ok by (simp add: auto_ok_def)
  have P: "program_ok s" by (rule auto_ok_program [OF ok])
  have others: "layout_snap s k bedID (RM_Objects y) = layout_snap s k bedID (RM_Objects r) \<and> layout_ok s k bedID (RM_Objects y)"
    if "y \<in> set (r' # t)" "k \<noteq> l" for y k
  proof -
    have so: "same_outside (layout_region l (AU_prefix s) bedID) (RM_Objects r) (RM_Objects y)"
      by (rule stays_inD [OF layout_Persist_region [OF l P bed] run that(1)])
    have "disjoint_regions (layout_region l (AU_prefix s) bedID) (layout_region k (AU_prefix s) bedID)"
      by (rule regions_disjoint [OF bed bed]) (use that(2) in simp)
    then show ?thesis using layout_snap_region [OF P bed so] ok by (simp add: auto_ok_def)
  qed
  have com: "committed s bedID (RM_Objects r) (RM_Objects y) l g (layout_content l volumeRoots w)"
    if "y \<in> set (r' # t)" "layout_snap s l bedID (RM_Objects y) = Some (g, layout_content l volumeRoots w)" for y
    unfolding committed_def using that(2) others [OF that(1)] older by blast
  show "auto_ok s bedID (RM_Objects x) \<and> ((\<forall>k. layout_snap s k bedID (RM_Objects x) = layout_snap s k bedID (RM_Objects r))
      \<or> walked_whole w \<and> committed s bedID (RM_Objects r) (RM_Objects x) l g (layout_content l volumeRoots w))" if x: "x \<in> set (r' # t)"
  proof -
    have "x \<in> set (r # r' # t)" using x by simp
    note a = snapshot_layout.persist_atomic [OF L lok g fits run seen this]
    have "layout_ok s k bedID (RM_Objects x)" for k using a others [OF x] by (cases "k = l") auto
    moreover have "\<forall>k. layout_snap s k bedID (RM_Objects x) = layout_snap s k bedID (RM_Objects r)"
      if "layout_snap s l bedID (RM_Objects x) = layout_snap s l bedID (RM_Objects r)"
      using that others [OF x] by metis
    ultimately show ?thesis using a com [OF x] by (auto simp: auto_ok_def)
  qed
  show "walked_whole w \<and> committed s bedID (RM_Objects r) (RM_Objects r') l g (layout_content l volumeRoots w)" if "res = Inr u"
    using snapshot_layout.persist_commits [OF L lok g fits _ seen] run that com [of r'] by simp
qed

lemma auto_Persist_run:
  assumes ok: "auto_ok s bedID (RM_Objects r)" and bed: "plain_component bedID" and ls: "all_layouts s ls"
    and g: "0 \<le> g" "g \<le> max_int64" and fits: "\<forall>l. writes_layout s ls counted bedID volumeRoots r l \<longrightarrow> layout_fits s l volumeRoots w"
    and run: "auto_Persist s (map (backend_of s) ls) counted bedID volumeRoots g w r = (t, res, r')" and seen: "\<forall>y \<in> set t. digests_seen (AU_codec s) y"
  shows "(\<forall>x \<in> set (r # r' # t). auto_ok s bedID (RM_Objects x)
        \<and> ((\<forall>l. layout_snap s l bedID (RM_Objects x) = layout_snap s l bedID (RM_Objects r))
           \<or> (\<exists>l. writes_layout s ls counted bedID volumeRoots r l \<and> walked_whole w \<and> committed s bedID (RM_Objects r) (RM_Objects x) l g (layout_content l volumeRoots w))))
    \<and> (\<forall>u. res = Inr u \<longrightarrow> (\<exists>l. writes_layout s ls counted bedID volumeRoots r l \<and> walked_whole w \<and> committed s bedID (RM_Objects r) (RM_Objects r') l g (layout_content l volumeRoots w)))"
  using ok ls run
proof (cases rule: auto_Persist_cases)
  case unchanged
  then show ?thesis using ok by auto
next
  case (persisted l ri)
  have ok': "auto_ok s bedID (RM_Objects ri)" using ok persisted(2) by simp
  have older: "\<forall>k g' d'. layout_snap s k bedID (RM_Objects ri) = Some (g', d') \<longrightarrow> g' < g" using persisted(4) by (simp add: persisted(2))
  have l: "has_layout s l" "layout_fits s l volumeRoots w" using persisted(1) fits by (auto simp: writes_layout_def)
  note C = layout_Persist_commits [OF ok' bed l(1) g l(2) seen persisted(3) older, unfolded persisted(2)]
  show ?thesis
  proof (intro conjI ballI allI impI)
    fix x assume x: "x \<in> set (r # r' # t)"
    then consider "x = r" | "x \<in> set (r' # t)" by auto
    then show "auto_ok s bedID (RM_Objects x)" "(\<forall>l. layout_snap s l bedID (RM_Objects x) = layout_snap s l bedID (RM_Objects r))
        \<or> (\<exists>l. writes_layout s ls counted bedID volumeRoots r l \<and> walked_whole w \<and> committed s bedID (RM_Objects r) (RM_Objects x) l g (layout_content l volumeRoots w))"
      by (cases; use ok C(1) persisted(1) in blast)+
  next
    show "\<exists>l. writes_layout s ls counted bedID volumeRoots r l \<and> walked_whole w \<and> committed s bedID (RM_Objects r) (RM_Objects r') l g (layout_content l volumeRoots w)" if "res = Inr u" for u
      using C(2) [OF that] persisted(1) by blast
  qed
qed

text \<open>Restoring gives the newest snapshot, in whichever order the layouts answer.\<close>

lemma auto_Restore_newest:
  assumes ok: "auto_ok s bedID (RM_Objects r)" and ls: "all_layouts s ls" and quiet: "RM_Answers r = []"
    and snap: "layout_snap s l bedID (RM_Objects r) = Some (g, d)"
    and top: "\<forall>l' g' d'. l' \<noteq> l \<longrightarrow> layout_snap s l' bedID (RM_Objects r) = Some (g', d') \<longrightarrow> g' < g"
  shows "fst (snd (auto_Restore (map (backend_of s) ls) bedID r)) = Inr d"
proof -
  obtain t res r' where ins: "inspect (map (backend_of s) ls) bedID r = (t, res, r')" by (rule prod_cases3)
  obtain info where I: "res = Inr (Some (backend_of s l, info))" "RM_Objects r' = RM_Objects r" "RM_Answers r' = []"
    using inspect_run [OF ok ls ins] quiet snap top by blast
  have l: "has_layout s l" by (rule snap_has_layout [OF snap])
  obtain t2 out r2 where rst: "BE_Restore (backend_of s l) bedID r' = (t2, out, r2)" by (rule prod_cases3)
  have "layout_ok s l bedID (RM_Objects r')" "layout_snap s l bedID (RM_Objects r') = Some (g, d)" using ok snap I(2) by (simp_all add: auto_ok_def)
  then have "out = Inr d" using snapshot_layout.restore_exact [OF layout_contract [OF l], OF _ _ rst] I(3) by blast
  then show ?thesis using ins I(1) rst by (simp add: auto_Restore_def io_bind_def)
qed

end
