(* ===== verification/Store_Purge.thy ===== *)
theory Store_Purge
  imports Store_Auto
begin

text \<open>
  Deleting a Bed's snapshots: what is gone afterwards, and what else is. All layouts are deleted, an error of one does not keep the others from being
  deleted, and the Bed has no snapshot left when no error is reported. The snapshots of other Beds stay, unless the Bed has the name of
  a layout's directory: the chunks of a Bed \<open>beds\<close> lie where the packs of a Bed \<open>chunks\<close> are.
\<close>

section \<open>Deletions\<close>

definition shrinks :: "objects \<Rightarrow> objects \<Rightarrow> bool" where
  "shrinks objs objs' \<longleftrightarrow> (\<forall>k. map_of objs' k = None \<or> map_of objs' k = map_of objs k)"

lemma shrinks_refl: "shrinks objs objs"
  by (simp add: shrinks_def)

lemma shrinks_trans: "shrinks a b \<Longrightarrow> shrinks b c \<Longrightarrow> shrinks a c"
  unfolding shrinks_def by metis

lemma shrinks_None: "shrinks objs objs' \<Longrightarrow> map_of objs k = None \<Longrightarrow> map_of objs' k = None"
  unfolding shrinks_def by metis

lemma obj_delete_run:
  assumes "obj_delete ks r = (t, res, r')"
  shows "shrinks (RM_Objects r) (RM_Objects r') \<and> (\<forall>u. res = Inr u \<longrightarrow> (\<forall>k \<in> set ks. map_of (RM_Objects r') k = None))"
proof -
  have "obj_ok (\<lambda>_. True) (shrinks (RM_Objects r)) (\<lambda>objs. \<forall>k \<in> set ys. map_of objs k = None) (obj_delete xs) (\<lambda>_ objs. \<forall>k \<in> set (ys @ xs). map_of objs k = None)"
    for xs ys
    unfolding obj_delete_def
  proof (induction xs arbitrary: ys)
    case Nil
    show ?case by (simp add: obj_ok_return)
  next
    case (Cons x xs)
    have del: "obj_ok (\<lambda>_. True) (shrinks (RM_Objects r)) (\<lambda>objs. \<forall>k \<in> set ys. map_of objs k = None) (obj_write (al_del x))
      (\<lambda>_ objs. \<forall>k \<in> set (ys @ [x]). map_of objs k = None)"
      by (rule obj_ok_write) (auto simp: shrinks_def)
    show ?case using obj_ok_bind [OF del Cons.IH] by simp
  qed
  from obj_okD [OF this [of "[]" ks] shrinks_refl _ assms] show ?thesis by simp
qed

lemma list_delete_run:
  assumes "io_bind (obj_list pfx) (\<lambda>ks. obj_delete (ks @ extra)) r = (t, res, r')"
  shows "shrinks (RM_Objects r) (RM_Objects r')
    \<and> (\<forall>u k. res = Inr u \<longrightarrow> has_prefix k pfx \<or> k \<in> set extra \<longrightarrow> map_of (RM_Objects r') k = None)"
  using assms
proof (cases rule: io_bindE)
  case (first e)
  then have "RM_Objects r' = RM_Objects r" by (auto simp: obj_list_def obj_read_def dest!: next_answer_objects split: prod.splits)
  then show ?thesis using first(2) shrinks_refl by simp
next
  case (both t1 ks r1 t2)
  have r1: "RM_Objects r1 = RM_Objects r" and ks: "ks = filter (\<lambda>k. has_prefix k pfx) (keys (RM_Objects r))"
    using both(1) by (auto simp: obj_list_def obj_read_def dest!: next_answer_objects split: prod.splits if_splits)
  note D = obj_delete_run [OF both(2), unfolded r1]
  have "map_of (RM_Objects r') k = None" if "res = Inr u" "has_prefix k pfx \<or> k \<in> set extra" for u k
  proof (cases "k \<in> set (ks @ extra)")
    case True
    then show ?thesis using D that(1) by blast
  next
    case False
    then have "map_of (RM_Objects r) k = None" using that(2) ks by (auto simp: map_of_eq_None_iff image_iff)
    then show ?thesis using D shrinks_None by blast
  qed
  then show ?thesis using D by blast
qed

text \<open>The commit point of a layout.\<close>

fun commit_key :: "storeLayout \<Rightarrow> string \<Rightarrow> string \<Rightarrow> string" where
  "commit_key LayoutCAS pfx bedID = cas_indexKey pfx bedID"
| "commit_key LayoutPack pfx bedID = pack_headKey (pack_bedPrefix pfx bedID)"
| "commit_key LayoutTar pfx bedID = tar_snapshotKey pfx bedID"
| "commit_key LayoutRestic pfx bedID = restic_headKey pfx bedID"

lemma no_commit_no_snapshot: "map_of objs (commit_key l (AU_prefix s) bedID) = None \<Longrightarrow> layout_snap s l bedID objs = None"
  by (cases l) (simp_all add: cas_snap_def pack_snap_def tar_snap_def restic_snap_def split: option.split)

lemma layout_Delete_run:
  assumes "has_layout s l" and "BE_Delete (backend_of s l) bedID r = (t, res, r')"
  shows "shrinks (RM_Objects r) (RM_Objects r') \<and> (\<forall>u. res = Inr u \<longrightarrow> map_of (RM_Objects r') (commit_key l (AU_prefix s) bedID) = None)"
proof (cases l)
  case LayoutCAS
  then have "io_bind (obj_list (cas_chunkPrefix (AU_prefix s) bedID)) (\<lambda>ks. obj_delete (ks @ [cas_indexKey (AU_prefix s) bedID])) r = (t, res, r')"
    using assms(2) by (simp add: cas_backend_def cas_Delete_def)
  from list_delete_run [OF this] show ?thesis using LayoutCAS by auto
next
  case LayoutPack
  then have "io_bind (obj_list (pack_bedPrefix (AU_prefix s) bedID)) (\<lambda>ks. obj_delete (ks @ [])) r = (t, res, r')"
    using assms(2) by (simp add: pack_backend_def pack_Delete_def)
  from list_delete_run [OF this] show ?thesis using LayoutPack by (auto simp: pack_headKey_def has_prefix_iff)
next
  case LayoutTar
  then have "obj_delete [tar_snapshotKey (AU_prefix s) bedID] r = (t, res, r')" using assms(2) by (simp add: tar_backend_def tar_Delete_def)
  from obj_delete_run [OF this] show ?thesis using LayoutTar by simp
next
  case LayoutRestic
  then have "io_bind (obj_list (restic_bedPrefix (AU_prefix s) bedID)) (\<lambda>ks. obj_delete (ks @ [])) r = (t, res, r')"
    using assms by (auto simp: restic_backend_def restic_Delete_def has_layout_def)
  from list_delete_run [OF this] show ?thesis using LayoutRestic by (auto simp: restic_headKey_def has_prefix_iff)
qed

lemma delete_all_run:
  assumes "delete_all (map (backend_of s) ls) bedID failed r = (t, res, r')" and "\<forall>l \<in> set ls. has_layout s l"
  shows "shrinks (RM_Objects r) (RM_Objects r')
    \<and> (\<forall>u. res = Inr u \<longrightarrow> \<not> failed \<and> (\<forall>l \<in> set ls. map_of (RM_Objects r') (commit_key l (AU_prefix s) bedID) = None))"
  using assms
proof (induction ls arbitrary: failed r t)
  case Nil
  then show ?case by (auto simp: io_return_def io_fail_def shrinks_refl split: if_splits)
next
  case (Cons l ls)
  obtain t1 res1 r1 where d: "BE_Delete (backend_of s l) bedID r = (t1, res1, r1)" by (rule prod_cases3)
  have l: "has_layout s l" "\<forall>l \<in> set ls. has_layout s l" using Cons.prems(2) by auto
  note D = layout_Delete_run [OF l(1) d]
  obtain t2 where rest: "delete_all (map (backend_of s) ls) bedID (failed \<or> \<not> is_ok res1) r1 = (t2, res, r')"
    using Cons.prems(1) d by (auto simp: io_bind_def io_outcome_def split: prod.splits)
  note IH = Cons.IH [OF rest l(2)]
  have "map_of (RM_Objects r') (commit_key l (AU_prefix s) bedID) = None" if "res = Inr u" for u
  proof -
    have "is_ok res1" using IH that by blast
    then have "map_of (RM_Objects r1) (commit_key l (AU_prefix s) bedID) = None" using D by (cases res1) auto
    then show ?thesis using IH shrinks_None by blast
  qed
  then show ?case using IH D shrinks_trans by auto
qed

lemma delete_all_region:
  assumes "\<forall>l \<in> set ls. has_layout s l" and "\<And>l k. l \<in> set ls \<Longrightarrow> layout_region l (AU_prefix s) bedID k \<Longrightarrow> R k"
  shows "stays_in R (delete_all (map (backend_of s) ls) bedID failed)"
  using assms
proof (induction ls arbitrary: failed)
  case Nil
  show ?case by (simp add: stays_in_pure)
next
  case (Cons l ls)
  have "stays_in (layout_region l (AU_prefix s) bedID) (BE_Delete (backend_of s l) bedID)" using layout_Delete_region Cons.prems(1) by auto
  then have "stays_in R (BE_Delete (backend_of s l) bedID)"
    using Cons.prems(2) [of l] unfolding stays_in_def same_outside_def by (meson list.set_intros(1))
  then have "stays_in R (io_outcome (BE_Delete (backend_of s l) bedID))" by (rule stays_in_outcome)
  then show ?case using Cons by (auto intro: stays_in_bind)
qed

definition layout_list :: "Auto \<Rightarrow> storeLayout list" where
  "layout_list s = [LayoutCAS, LayoutPack, LayoutTar] @ (if AU_restic s = None then [] else [LayoutRestic])"

lemma layout_list_all: "set (layout_list s) = {l. has_layout s l}"
proof -
  have "l \<in> set (layout_list s) \<longleftrightarrow> has_layout s l" for l by (cases l) (auto simp: layout_list_def has_layout_def)
  then show ?thesis by blast
qed

lemma auto_Delete_layouts: "auto_Delete s bedID = delete_all (map (backend_of s) (layout_list s)) bedID False"
  by (auto simp: auto_Delete_def backends_def layout_list_def)

text \<open>Without failing requests a deletion succeeds.\<close>

lemma obj_delete_quiet: "RM_Answers r = [] \<Longrightarrow> \<exists>t r'. obj_delete ks r = (t, Inr (), r') \<and> RM_Answers r' = []"
proof (induction ks arbitrary: r)
  case Nil
  then show ?case by (simp add: obj_delete_def io_return_def)
next
  case (Cons k ks)
  let ?r = "r\<lparr>RM_Objects := al_del k (RM_Objects r)\<rparr>"
  have w: "obj_write (al_del k) r = ([?r], Inr (), ?r)" using Cons.prems by (simp add: obj_write_def next_answer_def Let_def)
  obtain t r' where "obj_delete ks ?r = (t, Inr (), r')" "RM_Answers r' = []" using Cons.IH [of ?r] Cons.prems by auto
  then show ?case using w by (auto simp: obj_delete_def io_bind_def)
qed

lemma list_delete_quiet: "RM_Answers r = [] \<Longrightarrow> \<exists>t r'. io_bind (obj_list pfx) (\<lambda>ks. obj_delete (f ks)) r = (t, Inr (), r') \<and> RM_Answers r' = []"
proof -
  assume r: "RM_Answers r = []"
  obtain t r' where "obj_delete (f (filter (\<lambda>k. has_prefix k pfx) (keys (RM_Objects r)))) r = (t, Inr (), r')" "RM_Answers r' = []"
    using obj_delete_quiet [OF r] by blast
  then show ?thesis using r by (simp add: io_bind_def obj_list_def obj_read_def next_answer_def)
qed

lemma layout_Delete_quiet:
  assumes "RM_Answers r = []" and "has_layout s l"
  shows "\<exists>t r'. BE_Delete (backend_of s l) bedID r = (t, Inr (), r') \<and> RM_Answers r' = []"
proof (cases l)
  case LayoutPack
  then show ?thesis using list_delete_quiet [OF assms(1), of _ "\<lambda>ks. ks"] by (simp add: pack_backend_def pack_Delete_def)
next
  case LayoutRestic
  then show ?thesis using assms(2) list_delete_quiet [OF assms(1), of _ "\<lambda>ks. ks"] by (auto simp: restic_backend_def restic_Delete_def has_layout_def)
qed (use assms list_delete_quiet [OF assms(1)] obj_delete_quiet [OF assms(1)] in \<open>simp_all add: cas_backend_def cas_Delete_def tar_backend_def tar_Delete_def\<close>)

lemma delete_all_quiet:
  "RM_Answers r = [] \<Longrightarrow> \<forall>l \<in> set ls. has_layout s l \<Longrightarrow> \<exists>t r'. delete_all (map (backend_of s) ls) bedID False r = (t, Inr (), r')"
proof (induction ls arbitrary: r)
  case Nil
  then show ?case by (simp add: io_return_def)
next
  case (Cons l ls)
  obtain t1 r1 where d: "BE_Delete (backend_of s l) bedID r = (t1, Inr (), r1)" "RM_Answers r1 = []"
    using layout_Delete_quiet [OF Cons.prems(1), of s l bedID] Cons.prems(2) by auto
  obtain t2 r2 where "delete_all (map (backend_of s) ls) bedID False r1 = (t2, Inr (), r2)" using Cons.IH [OF d(2)] Cons.prems(2) by auto
  then show ?case using d(1) by (simp add: io_bind_def io_outcome_def)
qed

lemma auto_Delete_quiet: "RM_Answers r = [] \<Longrightarrow> \<exists>t r'. auto_Delete s bedID r = (t, Inr (), r')"
  using delete_all_quiet [of r "layout_list s" s bedID] by (simp add: auto_Delete_layouts layout_list_all)

end
