(* ===== verification/Store_Guarantees.thy ===== *)
theory Store_Guarantees
  imports Store_Purge
begin

text \<open>
  What the Store guarantees for the snapshots of Beds, across layouts, failing requests and crashes, with an example bucket for each statement.
\<close>

section \<open>An example\<close>

definition sample_tree :: "tree_entry list" where
  "sample_tree =
     [\<lparr> TE_Path = ''volumes'', TE_Kind = Folder, TE_Mode = 7 \<rparr>,
      \<lparr> TE_Path = ''volumes/workspace'', TE_Kind = Folder, TE_Mode = 7 \<rparr>,
      \<lparr> TE_Path = ''volumes/workspace/a'', TE_Kind = Regular ''x'', TE_Mode = 6 \<rparr>]"

definition sample_stream :: string where
  "sample_stream = concat (map enc_entry sample_tree)"

definition sample_manifest :: packManifest where
  "sample_manifest =
     \<lparr> PM_Index = Some \<lparr> IX_Chunks = [replicate 64 (CHR ''a'')], IX_Length = int (length sample_stream) \<rparr>,
       PM_Chunks = [\<lparr> CR_ID = replicate 64 (CHR ''a''), CR_Pack = replicate 64 (CHR ''1''), CR_Offset = 0,
         CR_Length = int (length sample_stream) + 1 \<rparr>] \<rparr>"

definition sample_store :: Codec where
  "sample_store = sample_codec {sample_stream} {Bytes (CHR ''z'' # sample_stream), ManifestBody sample_manifest}"

definition sample_auto :: "SyncKind \<Rightarrow> Auto" where
  "sample_auto kind = \<lparr> AU_kind = kind, AU_codec = sample_store, AU_prefix = ''p'', AU_targetBytes = 0, AU_packFileThreshold = 0, AU_restic = Some sample_restic \<rparr>"

definition empty_bucket :: Remote where
  "empty_bucket = \<lparr> RM_Objects = [], RM_Answers = [], RM_Digested = [] \<rparr>"

definition quiet_bucket :: "Remote \<Rightarrow> Remote" where
  "quiet_bucket r = r\<lparr>RM_Answers := [], RM_Digested := []\<rparr>"

lemma sample_store_ok: "codec_ok sample_store"
  unfolding sample_store_def by (rule sample_codec_ok) (auto simp: inj_on_def sample_codec_def)

lemma sample_roots: "filter_roots None = [''volumes/workspace'']"
  by code_simp

lemma sample_kept: "kept [''volumes/workspace''] sample_tree = sample_tree"
  by code_simp

lemma sample_chunks: "CD_chunks sample_store (CD_catar sample_store (kept (filter_roots None) sample_tree)) = [sample_stream]"
  by (simp add: sample_roots sample_kept) (simp add: sample_store_def sample_codec_def sample_stream_def)

lemma sample_store_simps:
  "CD_catar sample_store t = concat (map enc_entry t)" "CD_untar sample_store s = dec_tree (length s) s" "CD_chunks sample_store d = [d]"
  "CD_order sample_store cs = cs" "CD_probe sample_store" "CD_id sample_store c = replicate 64 (CHR ''a'')"
  "CD_storage sample_store c = CHR ''z'' # c" "CD_load sample_store (x # c) = Some c"
  "CD_digest sample_store (Bytes c) = replicate 64 (CHR ''1'')" "CD_digest sample_store (ManifestBody m) = replicate 64 (CHR ''2'')"
  by (simp_all add: sample_store_def sample_codec_def)

lemma sample_cas_keys: "cas_indexKey ''p'' ''b1'' = ''p/b1/index.caibx''" "cas_chunkPrefix ''p'' ''b1'' = ''p/b1/chunks/''"
  by code_simp+

lemma sample_restic_keys: "restic_headKey ''p'' ''b1'' = ''p/restic/b1/head.json''" "restic_bedPrefix ''p'' ''b1'' = ''p/restic/b1/''"
  by code_simp+

lemma sample_other_keys: "pack_headKey (pack_bedPrefix ''p'' ''b1'') = ''p/beds/b1/head.json''" "path_join [''p'', ''tar'', ''b1''] = ''p/tar/b1''"
  by code_simp+

lemma sample_filter: "newSnapshotFilter None = Inr [''volumes/workspace'']"
  by code_simp

lemma sample_cas_chunks: "cas_chunks sample_store [''volumes/workspace''] (sample_tree, b) = [sample_stream]"
  by (simp add: cas_chunks_def sample_kept sample_store_simps sample_stream_def)

lemma sample_cas_run: "\<exists>t r'. cas_Persist sample_store ''p'' ''b1'' None 1 (sample_tree, False) empty_bucket = (t, Inr (), r') \<and> length t = 2"
  by (simp add: cas_Persist_def sample_filter sample_cas_keys sample_cas_chunks sample_store_simps io_defs obj_head_def obj_read_def next_answer_def
    empty_bucket_def fence_def cas_previous_def cas_known_def cas_worker_def cas_HasChunk_def cas_StoreChunk_def obj_put_def obj_write_def Let_def
    cas_commit_def cas_gc_def obj_list_def obj_delete_def has_prefix_def stream_index_def path_base_def numeral_eq_Suc)

lemmas tar_path_simps = valid_utf8.simps decode_rune_def cleanTarPath_def path_clean_def clean_components_def path_is_abs_def has_prefix_def
  ValidPath_def plain_component_def

lemma sample_fits: "cas_fits sample_store None (sample_tree, False)" "pack_fits sample_store 0 None (sample_tree, False)" "tar_fits (sample_tree, False)"
proof -
  show "cas_fits sample_store None (sample_tree, False)"
    using sample_chunks by (simp add: cas_fits_def cas_chunks_def) (simp add: sample_store_def sample_codec_def)
  have "int (length sample_stream) \<le> 200" by code_simp
  then show "pack_fits sample_store 0 None (sample_tree, False)"
    using sample_chunks
    by (simp add: pack_fits_def pack_chunks_def sample_store_simps newPackWriter_def packTargetBytes_def max_int64_def) (simp add: sample_store_def sample_codec_def)
  show "tar_fits (sample_tree, False)"
    by (simp add: tar_fits_def sample_tree_def tar_path_simps)
qed

lemma sample_tidy: "restic_fits (sample_tree, False)"
  by (simp add: restic_fits_def sample_tree_def tidy_def)

lemma empty_auto_ok: "plain_component bedID \<Longrightarrow> auto_ok (sample_auto kind) bedID (RM_Objects empty_bucket)"
  unfolding auto_ok_def
proof
  fix l assume "plain_component bedID"
  then show "layout_ok (sample_auto kind) l bedID (RM_Objects empty_bucket)"
    by (cases l) (simp_all add: sample_auto_def sample_store_ok empty_bucket_def cas_ok_def cas_good_def pack_ok_def pack_good_def tar_ok_def restic_ok_def sample_restic_ok)
qed

lemmas sample_run_simps = sample_filter sample_store_simps io_defs obj_head_def obj_read_def next_answer_def empty_bucket_def fence_def obj_put_def obj_write_def Let_def

lemma sample_pack_chunks: "pack_chunks sample_store [''volumes/workspace''] (sample_tree, b) = [sample_stream]"
  by (simp add: pack_chunks_def sample_kept sample_store_simps sample_stream_def)

lemma sample_pack_key: "pack_bedPrefix ''p'' ''chunks'' = ''p/beds/chunks/''"
  by code_simp

lemma sample_pack_run:
  "\<exists>t r'. pack_Persist sample_store 0 ''p'' ''chunks'' None 1 (sample_tree, False) empty_bucket = (t, Inr (), r') \<and> length t = 5
     \<and> list_all (digests_seen sample_store) t \<and> RM_Answers r' = []"
proof -
  have len: "int (length sample_stream) < 200" by code_simp
  have manifest: "\<lparr> PM_Index = Some (stream_index sample_store [sample_stream]),
      PM_Chunks = [\<lparr> CR_ID = replicate 64 (CHR ''a''), CR_Pack = replicate 64 (CHR ''1''), CR_Offset = 0, CR_Length = int (length sample_stream) + 1 \<rparr>] \<rparr> = sample_manifest"
    by (simp add: sample_manifest_def stream_index_def sample_store_simps)
  have bodies: "CD_bodies sample_store = {Bytes (CHR ''z'' # sample_stream), ManifestBody sample_manifest}" by (simp add: sample_store_def sample_codec_def)
  have build: "buildPackManifest (stream_index sample_store [sample_stream]) [(replicate 64 (CHR ''a''),
      \<lparr> PL_pack = replicate 64 (CHR ''1''), PL_offset = 0, PL_length = 1 + int (length sample_stream) \<rparr>)] = Inr sample_manifest"
    using manifest by (simp add: buildPackManifest_def stream_index_def sample_store_simps add.commute)
  show ?thesis
    using len
    by (simp add: pack_Persist_def sample_pack_chunks sample_pack_key sample_run_simps pack_previous_def pack_known_def newPackWriter_def packTargetBytes_def
      pack_worker_def pack_HasChunk_def pack_StoreChunk_def pack_append_def pack_flushLocked_def obj_digest_def build pack_commit_def digests_seen_def bodies
      pack_headKey_def)
qed

section \<open>Crashes and failing requests\<close>

text \<open>C5: However many attempts to persist a Bed with the content-addressed layout were cut off, in whatever state, and whichever requests failed or only
  seemed to fail: the snapshot that the bucket shows is the old one or the complete content of one attempt whose walk was not broken off, and its generation
  never goes back. The garbage collection after a commit removes nothing that the snapshot needs.\<close>

theorem cas_persist_atomic:
  assumes "attempts (cas_Persist C pfx bedID volumeRoots) (cas_fits C volumeRoots) (\<lambda>_. True) objs ps objs'"
    and "codec_ok C" and "cas_ok C pfx bedID objs"
  shows "cas_ok C pfx bedID objs'
    \<and> (cas_snap C pfx bedID objs' = cas_snap C pfx bedID objs \<or> (\<exists>(g, w) \<in> set ps. walked_whole w \<and> cas_snap C pfx bedID objs' = Some (g, cas_content volumeRoots w)))
    \<and> (\<forall>g d. cas_snap C pfx bedID objs = Some (g, d) \<longrightarrow> (\<exists>g' d'. cas_snap C pfx bedID objs' = Some (g', d') \<and> g \<le> g'))"
  using cas.attempts_atomic [OF assms(1)] assms(2,3) by simp

theorem cas_persist_atomic_witness:
  "\<exists>t r'. cas_Persist sample_store ''p'' ''b1'' None 1 (sample_tree, False) empty_bucket = (t, Inr (), r') \<and> length t = 2
     \<and> cas_ok sample_store ''p'' ''b1'' (RM_Objects (hd t))
     \<and> cas_snap sample_store ''p'' ''b1'' (RM_Objects (hd t)) \<in> {None, Some (1, sample_tree)}"
proof -
  obtain t r' where run: "cas_Persist sample_store ''p'' ''b1'' None 1 (sample_tree, False) empty_bucket = (t, Inr (), r')" "length t = 2"
    using sample_cas_run by blast
  have "hd t \<in> set (empty_bucket # t)" using run(2) by (cases t) auto
  then have a: "attempts (cas_Persist sample_store ''p'' ''b1'' None) (cas_fits sample_store None) (\<lambda>_. True) (RM_Objects empty_bucket)
      [(1, (sample_tree, False))] (RM_Objects (hd t))"
    by (intro attempt [where r = empty_bucket and t = t and res = "Inr ()" and r' = r'])
      (simp_all add: run(1) no_attempt sample_fits(1) max_int64_def)
  have ok: "cas_ok sample_store ''p'' ''b1'' (RM_Objects empty_bucket)" by (simp add: empty_bucket_def cas_ok_def cas_good_def)
  have none: "cas_snap sample_store ''p'' ''b1'' (RM_Objects empty_bucket) = None" by (simp add: empty_bucket_def cas_snap_def)
  have content: "cas_content None (sample_tree, False) = sample_tree" by (simp add: cas_content_def sample_roots sample_kept)
  show ?thesis using cas_persist_atomic [OF a sample_store_ok ok] run none content by auto
qed

text \<open>C6: The same holds for the pack layout: packs and manifests are named by their digests and only added, so what a head names stays readable
  while a new snapshot is written, and the head switches to it in one step.\<close>

theorem pack_persist_atomic:
  assumes "attempts (pack_Persist C targetBytes pfx bedID volumeRoots) (pack_fits C targetBytes volumeRoots) (digests_seen C) objs ps objs'"
    and "codec_ok C" and "pack_ok C (pack_bedPrefix pfx bedID) objs"
  shows "pack_ok C (pack_bedPrefix pfx bedID) objs'
    \<and> (pack_snap C (pack_bedPrefix pfx bedID) objs' = pack_snap C (pack_bedPrefix pfx bedID) objs
       \<or> (\<exists>(g, w) \<in> set ps. walked_whole w \<and> pack_snap C (pack_bedPrefix pfx bedID) objs' = Some (g, pack_content volumeRoots w)))
    \<and> (\<forall>g d. pack_snap C (pack_bedPrefix pfx bedID) objs = Some (g, d) \<longrightarrow>
         (\<exists>g' d'. pack_snap C (pack_bedPrefix pfx bedID) objs' = Some (g', d') \<and> g \<le> g'))"
  using pack.attempts_atomic [OF assms(1)] assms(2,3) by simp

theorem pack_persist_atomic_witness:
  "\<exists>t r'. pack_Persist sample_store 0 ''p'' ''chunks'' None 1 (sample_tree, False) empty_bucket = (t, Inr (), r') \<and> length t = 5
     \<and> pack_ok sample_store (pack_bedPrefix ''p'' ''chunks'') (RM_Objects (t ! 3))
     \<and> pack_snap sample_store (pack_bedPrefix ''p'' ''chunks'') (RM_Objects (t ! 3)) \<in> {None, Some (1, sample_tree)}"
proof -
  obtain t r' where run: "pack_Persist sample_store 0 ''p'' ''chunks'' None 1 (sample_tree, False) empty_bucket = (t, Inr (), r')" "length t = 5"
    "list_all (digests_seen sample_store) t" using sample_pack_run by blast
  have "t ! 3 \<in> set (empty_bucket # t)" using run(2) by simp
  then have a: "attempts (pack_Persist sample_store 0 ''p'' ''chunks'' None) (pack_fits sample_store 0 None) (digests_seen sample_store) (RM_Objects empty_bucket)
      [(1, (sample_tree, False))] (RM_Objects (t ! 3))"
    by (intro attempt [where r = empty_bucket and t = t and res = "Inr ()" and r' = r'])
      (use run(3) in \<open>simp_all add: run(1) no_attempt sample_fits(2) max_int64_def list_all_iff\<close>)
  have ok: "pack_ok sample_store (pack_bedPrefix ''p'' ''chunks'') (RM_Objects empty_bucket)" by (simp add: empty_bucket_def pack_ok_def pack_good_def)
  have none: "pack_snap sample_store (pack_bedPrefix ''p'' ''chunks'') (RM_Objects empty_bucket) = None" by (simp add: empty_bucket_def pack_snap_def)
  have content: "pack_content None (sample_tree, False) = sample_tree" by (simp add: pack_content_def sample_roots sample_kept)
  show ?thesis using pack_persist_atomic [OF a sample_store_ok ok] run none content by auto
qed

section \<open>The policy over all layouts\<close>

text \<open>C39: The result of inspecting all layouts does not depend on the order in which they answer.\<close>

theorem inspect_order_irrelevant:
  assumes "distinct (map (BE_layout \<circ> fst) rs)" and "set rs' = set rs" and "distinct (map (BE_layout \<circ> fst) rs')"
  shows "inspect_results rs' = inspect_results rs"
proof -
  have some: "inspect_results rs = Inr (Some (b, i)) \<longleftrightarrow> inspect_results rs' = Inr (Some (b, i))" for b i
    unfolding inspect_results_Some [OF assms(1)] inspect_results_Some [OF assms(3)] assms(2) by (rule refl)
  have none: "inspect_results rs = Inr None \<longleftrightarrow> inspect_results rs' = Inr None"
    unfolding inspect_results_None [OF assms(1)] inspect_results_None [OF assms(3)] assms(2) by (rule refl)
  have failed: "inspect_results rs = Inl InspectFailed \<longleftrightarrow> inspect_results rs' = Inl InspectFailed"
    unfolding inspect_results_None [OF assms(1)] inspect_results_None [OF assms(3)] assms(2) by (rule refl)
  have shape: "inspect_results xs \<in> {Inl InspectFailed, Inl ErrAmbiguous, Inr None} \<or> (\<exists>b i. inspect_results xs = Inr (Some (b, i)))" for xs
    by (auto simp: inspect_results_def inspect_verdict_def split: if_splits option.splits)
  from shape [of rs] consider "inspect_results rs = Inl InspectFailed" | "inspect_results rs = Inl ErrAmbiguous" | "inspect_results rs = Inr None"
    | b i where "inspect_results rs = Inr (Some (b, i))" by blast
  then show ?thesis
  proof cases
    case 2
    then have "inspect_results rs' \<noteq> Inl InspectFailed" "inspect_results rs' \<noteq> Inr None" "\<nexists>b i. inspect_results rs' = Inr (Some (b, i))"
      using some none failed by auto
    then show ?thesis using 2 shape [of rs'] by auto
  next
    case (4 b i)
    then show ?thesis using some [of b i] by simp
  qed (use none failed in simp_all)
qed

theorem inspect_order_irrelevant_witness:
  "inspect_results [(tar_backend (sample_auto SyncAuto), Inr (Some \<lparr> SI_Generation = 3, SI_Bytes = 0 \<rparr>)), (cas_backend (sample_auto SyncAuto), Inr (Some \<lparr> SI_Generation = 5, SI_Bytes = 0 \<rparr>))]
   = Inr (Some (cas_backend (sample_auto SyncAuto), \<lparr> SI_Generation = 5, SI_Bytes = 0 \<rparr>))"
proof -
  let ?c = "(cas_backend (sample_auto SyncAuto), Inr (Some \<lparr> SI_Generation = 5, SI_Bytes = 0 \<rparr>)) :: inspected"
  let ?t = "(tar_backend (sample_auto SyncAuto), Inr (Some \<lparr> SI_Generation = 3, SI_Bytes = 0 \<rparr>)) :: inspected"
  have "distinct (map (BE_layout \<circ> fst) [?c, ?t])" "distinct (map (BE_layout \<circ> fst) [?t, ?c])" by (simp_all add: cas_backend_def tar_backend_def)
  from inspect_order_irrelevant [OF this(1) _ this(2)]
  have "inspect_results [?t, ?c] = inspect_results [?c, ?t]" by (simp add: insert_commute)
  moreover have "inspect_results [?c, ?t] = Inr (Some (cas_backend (sample_auto SyncAuto), \<lparr> SI_Generation = 5, SI_Bytes = 0 \<rparr>))"
    by (simp add: inspect_results_def inspect_result_def inspect_verdict_def cas_backend_def tar_backend_def)
  ultimately show ?thesis by simp
qed

text \<open>C4: A \<open>Persist\<close> under the policy, with any kind and any file-count routing, whichever requests fail: in every state that it passes, either no layout's snapshot has changed or
  exactly one has, the one the policy picked, to the complete new content of a walk that was not broken off, and then its generation is above those of all layouts before, so that it is the one
  selected from then on. When the call returns without an error this has happened. This holds for a bucket whose snapshots are readable, a valid name, a generation that is an \<open>int64\<close>, no colliding
  digests, and a tree that the layout which is written can give back: for archives its paths are distinct and clean, in UTF-8 and without backslashes, for restic without slashes at their ends, for
  packs no chunk overfills an \<open>int64\<close> buffer. The trees that archives cannot give back are those of \<open>tar_persists_unrestorable\<close>.\<close>

theorem auto_persist_atomic:
  assumes "auto_ok s bedID (RM_Objects r)" and "validBedID uni bedID" and "all_layouts s ls"
    and "0 \<le> g" and "g \<le> max_int64" and "\<forall>l. writes_layout s ls counted bedID volumeRoots r l \<longrightarrow> layout_fits s l volumeRoots w"
    and "auto_Persist s (map (backend_of s) ls) counted bedID volumeRoots g w r = (t, res, r')" and "\<forall>y \<in> set t. digests_seen (AU_codec s) y"
  shows "(\<forall>x \<in> set (r # r' # t). auto_ok s bedID (RM_Objects x)
        \<and> ((\<forall>l. layout_snap s l bedID (RM_Objects x) = layout_snap s l bedID (RM_Objects r))
           \<or> (\<exists>l. writes_layout s ls counted bedID volumeRoots r l \<and> walked_whole w \<and> committed s bedID (RM_Objects r) (RM_Objects x) l g (layout_content l volumeRoots w))))
    \<and> (\<forall>u. res = Inr u \<longrightarrow> (\<exists>l. writes_layout s ls counted bedID volumeRoots r l \<and> walked_whole w \<and> committed s bedID (RM_Objects r) (RM_Objects r') l g (layout_content l volumeRoots w)))"
  by (rule auto_Persist_run [OF assms(1) validBedID_plain [OF assms(2)] assms(3-8)])

text \<open>What was persisted without an error is what a later restore gives back, whichever layout was written and in whichever order the layouts answer
  then.\<close>

theorem auto_persist_restored:
  assumes "auto_ok s bedID (RM_Objects r)" and "validBedID uni bedID" and "all_layouts s ls" and "all_layouts s ls'"
    and "0 \<le> g" and "g \<le> max_int64" and "\<forall>l. writes_layout s ls counted bedID volumeRoots r l \<longrightarrow> layout_fits s l volumeRoots w"
    and "auto_Persist s (map (backend_of s) ls) counted bedID volumeRoots g w r = (t, Inr u, r')" and "\<forall>y \<in> set t. digests_seen (AU_codec s) y"
  shows "\<exists>l. writes_layout s ls counted bedID volumeRoots r l \<and> fst (snd (auto_Restore (map (backend_of s) ls') bedID (quiet_bucket r'))) = Inr (layout_content l volumeRoots w)"
proof -
  note P = auto_Persist_run [OF assms(1) validBedID_plain [OF assms(2)] assms(3,5-9)]
  then obtain l where l: "writes_layout s ls counted bedID volumeRoots r l" "committed s bedID (RM_Objects r) (RM_Objects r') l g (layout_content l volumeRoots w)" by blast
  have ok: "auto_ok s bedID (RM_Objects (quiet_bucket r'))" using P by (simp add: quiet_bucket_def)
  have snap: "layout_snap s l bedID (RM_Objects (quiet_bucket r')) = Some (g, layout_content l volumeRoots w)"
    using l(2) by (simp add: committed_def quiet_bucket_def)
  have top: "\<forall>l' g' d'. l' \<noteq> l \<longrightarrow> layout_snap s l' bedID (RM_Objects (quiet_bucket r')) = Some (g', d') \<longrightarrow> g' < g"
    using l(2) by (simp add: committed_def quiet_bucket_def)
  have "RM_Answers (quiet_bucket r') = []" by (simp add: quiet_bucket_def)
  from auto_Restore_newest [OF ok assms(4) this snap top] l(1) show ?thesis by blast
qed

lemma sample_bed: "validBedID uni ''b1''" "validBedID uni ''beds''" "validBedID uni ''chunks''"
  by (simp_all add: validBedID_def runes.simps decode_rune_def letter_or_number_def)


lemma sample_auto_simps [simp]: "AU_restic (sample_auto k) = Some sample_restic" "AU_codec (sample_auto k) = sample_store" "AU_prefix (sample_auto k) = ''p''"
  "AU_kind (sample_auto k) = k" "AU_targetBytes (sample_auto k) = 0" "AU_packFileThreshold (sample_auto k) = 0"
  by (simp_all add: sample_auto_def)

lemma sample_layouts: "all_layouts (sample_auto k) [LayoutTar, LayoutCAS, LayoutPack, LayoutRestic]"
  "all_layouts (sample_auto k) [LayoutRestic, LayoutCAS, LayoutPack, LayoutTar]"
proof -
  have "{l. has_layout (sample_auto k) l} = {LayoutTar, LayoutCAS, LayoutPack, LayoutRestic}"
    using storeLayout.exhaust by (auto simp: has_layout_def)
  then show "all_layouts (sample_auto k) [LayoutTar, LayoutCAS, LayoutPack, LayoutRestic]" "all_layouts (sample_auto k) [LayoutRestic, LayoutCAS, LayoutPack, LayoutTar]"
    by (auto simp: all_layouts_def)
qed

lemma sample_plain: "plain_component ''b1''" "plain_component ''chunks''"
  by (simp_all add: plain_component_def)

lemma sample_layout_fits: "\<forall>l. layout_fits (sample_auto k) l None (sample_tree, False)"
proof
  fix l show "layout_fits (sample_auto k) l None (sample_tree, False)" using sample_fits sample_tidy by (cases l) simp_all
qed

lemma sample_written_fits: "\<forall>l. writes_layout (sample_auto k) ls counted bedID None r l \<longrightarrow> layout_fits (sample_auto k) l None (sample_tree, False)"
  using sample_layout_fits by blast

definition sample_tar_objects :: objects where
  "sample_tar_objects = [(tar_snapshotKey ''p'' ''b1'', \<lparr> OB_Body = ArchiveBody sample_tree, OB_Meta = [(generationMetaKey, itoa 1)] \<rparr>)]"

lemma sample_write: "writeTarGzip [''volumes/workspace''] (sample_tree, False) = Inr sample_tree"
  by code_simp

lemma sample_auto_run:
  "auto_Persist (sample_auto SyncTar) (map (backend_of (sample_auto SyncTar)) [LayoutTar, LayoutCAS, LayoutPack, LayoutRestic]) ([], False) ''b1'' None 1 (sample_tree, False) empty_bucket
   = ([\<lparr> RM_Objects = sample_tar_objects, RM_Answers = [], RM_Digested = [] \<rparr>], Inr (), \<lparr> RM_Objects = sample_tar_objects, RM_Answers = [], RM_Digested = [] \<rparr>)"
  by (simp add: auto_Persist_def sample_run_simps inspect_def io_outcome_def tar_backend_def cas_backend_def pack_backend_def restic_backend_def tar_Stat_def cas_Stat_def pack_Stat_def restic_Stat_def
    inspect_results_def inspect_result_def inspect_verdict_def auto_conflict_def auto_target_def tar_Persist_def sample_write sample_tar_objects_def)

theorem auto_persist_atomic_witness:
  "auto_ok (sample_auto SyncTar) ''b1'' sample_tar_objects
   \<and> committed (sample_auto SyncTar) ''b1'' [] sample_tar_objects LayoutTar 1 (layout_content LayoutTar None (sample_tree, False))"
proof -
  have r: "RM_Objects empty_bucket = []" by (simp add: empty_bucket_def)
  have A: "auto_ok (sample_auto SyncTar) ''b1'' sample_tar_objects" "\<exists>l. committed (sample_auto SyncTar) ''b1'' [] sample_tar_objects l 1 (layout_content l None (sample_tree, False))"
    using auto_persist_atomic [OF empty_auto_ok [OF sample_plain(1)] sample_bed(1) sample_layouts(1) _ _ sample_written_fits sample_auto_run]
    by (auto simp: digests_seen_def max_int64_def r)
  obtain l where l: "committed (sample_auto SyncTar) ''b1'' [] sample_tar_objects l 1 (layout_content l None (sample_tree, False))" using A(2) by blast
  have "layout_snap (sample_auto SyncTar) l ''b1'' sample_tar_objects = None" if "l \<noteq> LayoutTar"
    using that by (cases l) (simp_all add: sample_tar_objects_def cas_snap_def pack_snap_def restic_snap_def sample_cas_keys tar_snapshotKey_def sample_other_keys sample_restic_keys)
  then have "l = LayoutTar" using l by (auto simp: committed_def)
  then show ?thesis using A(1) l by simp
qed

theorem auto_persist_restored_witness:
  "\<exists>l. writes_layout (sample_auto SyncTar) [LayoutTar, LayoutCAS, LayoutPack, LayoutRestic] ([], False) ''b1'' None empty_bucket l
     \<and> fst (snd (auto_Restore (map (backend_of (sample_auto SyncTar)) [LayoutRestic, LayoutCAS, LayoutPack, LayoutTar]) ''b1''
     \<lparr> RM_Objects = sample_tar_objects, RM_Answers = [], RM_Digested = [] \<rparr>)) = Inr (layout_content l None (sample_tree, False))"
  using auto_persist_restored [OF empty_auto_ok [OF sample_plain(1)] sample_bed(1) sample_layouts(1,2) _ _ sample_written_fits sample_auto_run]
  by (simp add: digests_seen_def max_int64_def quiet_bucket_def)

section \<open>Purging\<close>

text \<open>C35: When \<open>Delete\<close> reports no error, the Bed has no snapshot in any layout; the deletions that follow a failed one are still tried.\<close>

theorem purge_removes_all:
  assumes "auto_Delete s bedID r = (t, Inr u, r')"
  shows "layout_snap s l bedID (RM_Objects r') = None"
proof (cases "has_layout s l")
  case True
  have "delete_all (map (backend_of s) (layout_list s)) bedID False r = (t, Inr u, r')" using assms by (simp add: auto_Delete_layouts)
  from delete_all_run [OF this] have "map_of (RM_Objects r') (commit_key l (AU_prefix s) bedID) = None" using True by (simp add: layout_list_all)
  then show ?thesis by (rule no_commit_no_snapshot)
next
  case False
  then show ?thesis using snap_has_layout by (cases "layout_snap s l bedID (RM_Objects r')") auto
qed

definition two_beds :: Remote where
  "two_beds = \<lparr> RM_Objects = sample_tar_objects @ [(''p/beds/chunks/head.json'', \<lparr> OB_Body = Bytes [], OB_Meta = [] \<rparr>)], RM_Answers = [], RM_Digested = [] \<rparr>"

lemma sample_tar_key: "tar_snapshotKey ''p'' ''b1'' = ''p/tar/b1/snapshot.tar.gz''"
  by code_simp

lemma sample_purge:
  "auto_Delete (sample_auto SyncTar) ''b1'' two_beds =
     (let r = two_beds\<lparr>RM_Objects := [(''p/beds/chunks/head.json'', \<lparr> OB_Body = Bytes [], OB_Meta = [] \<rparr>)]\<rparr> in ([two_beds, r], Inr (), r))"
proof -
  have "pack_bedPrefix ''p'' ''b1'' = ''p/beds/b1/''" by code_simp
  then show ?thesis
    by (simp add: auto_Delete_def backends_def cas_backend_def pack_backend_def tar_backend_def restic_backend_def io_outcome_def sample_run_simps cas_Delete_def pack_Delete_def tar_Delete_def restic_Delete_def sample_restic_keys
      obj_list_def obj_delete_def two_beds_def sample_tar_objects_def sample_cas_keys sample_tar_key has_prefix_def al_del_def)
qed

theorem purge_removes_all_witness:
  "layout_snap (sample_auto SyncTar) LayoutTar ''b1'' (RM_Objects two_beds) \<noteq> None
   \<and> layout_snap (sample_auto SyncTar) LayoutTar ''b1'' (RM_Objects (snd (snd (auto_Delete (sample_auto SyncTar) ''b1'' two_beds)))) = None"
proof -
  obtain t r' where run: "auto_Delete (sample_auto SyncTar) ''b1'' two_beds = (t, Inr (), r')" using sample_purge by (simp add: Let_def)
  have "layout_snap (sample_auto SyncTar) LayoutTar ''b1'' (RM_Objects two_beds) \<noteq> None"
  proof -
    have "readTar [] sample_tree \<noteq> Inl e" for e
      using readTar_named [of sample_tree "[]"] sample_fits(3) by (simp add: tar_fits_def sample_tree_def tar_path_simps)
    then show ?thesis by (simp add: two_beds_def sample_tar_objects_def tar_snap_def meta_int_def atoi_itoa max_int64_def split: sum.split)
  qed
  then show ?thesis using purge_removes_all [of "sample_auto SyncTar" "''b1''" two_beds t "()" r' LayoutTar] run by simp
qed

text \<open>C36: Purging one Bed leaves the snapshots of every other Bed alone, in all layouts and at every point of the deletion, as long as neither
  Bed is named like a directory of a layout.\<close>

theorem purge_leaves_other_beds:
  assumes "program_ok s" and "validBedID uni a" and "validBedID uni b" and "a \<noteq> b" and "\<not> reserved_bed a" and "\<not> reserved_bed b"
    and "auto_Delete s a r = (t, res, r')" and "x \<in> set (r' # t)"
  shows "layout_snap s l b (RM_Objects x) = layout_snap s l b (RM_Objects r)"
proof -
  let ?R = "\<lambda>k. \<exists>l'. layout_region l' (AU_prefix s) a k"
  have run: "delete_all (map (backend_of s) (layout_list s)) a False r = (t, res, r')" using assms(7) by (simp add: auto_Delete_layouts)
  have "stays_in ?R (delete_all (map (backend_of s) (layout_list s)) a False)" by (rule delete_all_region) (auto simp: layout_list_all)
  note same = stays_inD [OF this run assms(8)]
  have "disjoint_regions ?R (layout_region l (AU_prefix s) b)"
    unfolding disjoint_regions_def
  proof (intro allI notI)
    fix k assume k: "?R k \<and> layout_region l (AU_prefix s) b k"
    then obtain l' where "layout_region l' (AU_prefix s) a k" by blast
    moreover have "disjoint_regions (layout_region l' (AU_prefix s) a) (layout_region l (AU_prefix s) b)"
      by (rule regions_disjoint [OF validBedID_plain [OF assms(2)] validBedID_plain [OF assms(3)]]) (use assms in simp)
    ultimately show False using k unfolding disjoint_regions_def by blast
  qed
  then show ?thesis using layout_snap_region [OF assms(1) validBedID_plain [OF assms(3)] same] by blast
qed

theorem purge_leaves_other_beds_witness:
  "layout_snap (sample_auto SyncTar) LayoutPack ''chunks'' (RM_Objects (snd (snd (auto_Delete (sample_auto SyncTar) ''b1'' two_beds))))
   = layout_snap (sample_auto SyncTar) LayoutPack ''chunks'' (RM_Objects two_beds)"
proof -
  obtain t r' where run: "auto_Delete (sample_auto SyncTar) ''b1'' two_beds = (t, Inr (), r')" using sample_purge by (simp add: Let_def)
  have "layout_snap (sample_auto SyncTar) LayoutPack ''chunks'' (RM_Objects r') = layout_snap (sample_auto SyncTar) LayoutPack ''chunks'' (RM_Objects two_beds)"
    by (rule purge_leaves_other_beds [where uni = "\<lambda>_. False", OF _ sample_bed(1) sample_bed(3) _ _ _ run]) (simp_all add: reserved_bed_def program_ok_def sample_restic_ok)
  then show ?thesis using run by simp
qed

text \<open>C37: The exception: \<open>beds\<close> and \<open>chunks\<close> are both valid names, and purging the Bed \<open>beds\<close> deletes the pack snapshot of the Bed \<open>chunks\<close>.\<close>

theorem purge_reaches_other_bed:
  assumes "auto_Delete s ''beds'' r = (t, Inr u, r')"
  shows "validBedID uni ''beds'' \<and> validBedID uni ''chunks'' \<and> layout_snap s LayoutPack ''chunks'' (RM_Objects r') = None"
proof -
  have plain: "plain_component ''beds''" "plain_component ''chunks''" by (simp_all add: plain_component_def)
  have keys: "cas_chunkPrefix (AU_prefix s) ''beds'' = pack_bedPrefix (AU_prefix s) ''chunks''"
    using join_join [OF plain] join_three [OF plain] by (simp add: cas_chunkPrefix_def cas_bedPrefix_def pack_bedPrefix_def)
  let ?ls = "[LayoutPack, LayoutTar] @ (if AU_restic s = None then [] else [LayoutRestic])"
  have ls: "layout_list s = LayoutCAS # ?ls" "\<forall>l \<in> set ?ls. has_layout s l" by (auto simp: layout_list_def has_layout_def)
  have run: "delete_all (map (backend_of s) (LayoutCAS # ?ls)) ''beds'' False r = (t, Inr u, r')" using assms ls(1) by (simp only: auto_Delete_layouts)
  obtain t1 res1 r1 where cas: "BE_Delete (cas_backend s) ''beds'' r = (t1, res1, r1)" by (rule prod_cases3)
  obtain t2 where rest: "delete_all (map (backend_of s) ?ls) ''beds'' (\<not> is_ok res1) r1 = (t2, Inr u, r')"
    using run cas by (auto simp: io_bind_def [of "io_outcome (BE_Delete (cas_backend s) _)"] io_outcome_def [of "BE_Delete (cas_backend s) _"] split: prod.splits)
  have R: "shrinks (RM_Objects r1) (RM_Objects r')" "is_ok res1" using delete_all_run [OF rest ls(2)] by auto
  then obtain v where "res1 = Inr v" by (cases res1) auto
  then have "map_of (RM_Objects r1) (pack_headKey (pack_bedPrefix (AU_prefix s) ''chunks'')) = None"
    using list_delete_run [of "cas_chunkPrefix (AU_prefix s) ''beds''" "[cas_indexKey (AU_prefix s) ''beds'']" r t1 res1 r1] cas keys
    by (auto simp: cas_backend_def cas_Delete_def pack_headKey_def has_prefix_iff)
  then have "map_of (RM_Objects r') (pack_headKey (pack_bedPrefix (AU_prefix s) ''chunks'')) = None" using R(1) shrinks_None by blast
  then have "layout_snap s LayoutPack ''chunks'' (RM_Objects r') = None" by (simp add: pack_snap_def)
  then show ?thesis using sample_bed by blast
qed

theorem purge_reaches_other_bed_witness:
  "\<exists>r. layout_snap (sample_auto SyncPack) LayoutPack ''chunks'' (RM_Objects r) = Some (1, sample_tree)
     \<and> layout_snap (sample_auto SyncPack) LayoutPack ''chunks'' (RM_Objects (snd (snd (auto_Delete (sample_auto SyncPack) ''beds'' r)))) = None"
proof -
  obtain t r where run: "pack_Persist sample_store 0 ''p'' ''chunks'' None 1 (sample_tree, False) empty_bucket = (t, Inr (), r)"
    "list_all (digests_seen sample_store) t" "RM_Answers r = []" using sample_pack_run by blast
  have ok: "codec_ok sample_store \<and> pack_ok sample_store (pack_bedPrefix ''p'' ''chunks'') (RM_Objects empty_bucket)"
    by (simp add: sample_store_ok empty_bucket_def pack_ok_def pack_good_def)
  have content: "pack_content None (sample_tree, False) = sample_tree" by (simp add: pack_content_def sample_roots sample_kept)
  have "pack_snap sample_store (pack_bedPrefix ''p'' ''chunks'') (RM_Objects r) = Some (1, sample_tree)"
    using pack.persist_commits [OF ok _ _ sample_fits(2) run(1)] run(2) content by (simp add: max_int64_def list_all_iff)
  moreover obtain t' r' where del: "auto_Delete (sample_auto SyncPack) ''beds'' r = (t', Inr (), r')"
    using auto_Delete_quiet [OF run(3)] by blast
  ultimately show ?thesis using purge_reaches_other_bed [of "sample_auto SyncPack" r t' "()" r' "\<lambda>_. False"] by auto
qed

section \<open>Archives that cannot be read back\<close>

text \<open>C38: The archive layout persists a file whose name has a backslash or is not UTF-8 without an error, but can never restore the snapshot:
  only the reader checks the names.\<close>

theorem tar_persists_unrestorable:
  assumes "newSnapshotFilter volumeRoots = Inr roots" and "writeTarGzip roots w = Inr hs" and "h \<in> set hs"
    and "backslash \<in> set (TE_Path h) \<or> \<not> valid_utf8 (path_clean (TE_Path h))" and "RM_Answers r = []" and "RM_Objects r = []"
  shows "\<exists>t r'. tar_Persist pfx bedID volumeRoots g w r = (t, Inr (), r') \<and> (\<nexists>d. fst (snd (tar_Restore pfx bedID r')) = Inr d)"
proof -
  obtain e where e: "readTar [] hs = Inl e" using readTar_bad_name [OF assms(3,4)] by blast
  let ?objs = "al_put (tar_snapshotKey pfx bedID) \<lparr> OB_Body = ArchiveBody hs, OB_Meta = [(generationMetaKey, itoa g)] \<rparr> []"
  have "tar_Persist pfx bedID volumeRoots g w r = ([r\<lparr>RM_Objects := ?objs\<rparr>], Inr (), r\<lparr>RM_Objects := ?objs\<rparr>)"
    using assms by (simp add: tar_Persist_def io_defs obj_head_def obj_read_def next_answer_def fence_def obj_put_def obj_write_def Let_def)
  moreover have "fst (snd (tar_Restore pfx bedID (r\<lparr>RM_Objects := ?objs\<rparr>))) = Inl e"
    using assms(5) e by (simp add: tar_Restore_def io_defs obj_get_def obj_read_def next_answer_def)
  ultimately show ?thesis by auto
qed

definition backslash_file :: tree_entry where
  "backslash_file = \<lparr> TE_Path = ''volumes/workspace/a'' @ [backslash] @ ''b'', TE_Kind = Regular ''x'', TE_Mode = 6 \<rparr>"

theorem tar_persists_unrestorable_witness:
  "\<exists>t r'. tar_Persist ''p'' ''b1'' None 1 (sample_tree @ [backslash_file], False) empty_bucket = (t, Inr (), r')
     \<and> (\<nexists>d. fst (snd (tar_Restore ''p'' ''b1'' r')) = Inr d)"
proof -
  have w: "writeTarGzip [''volumes/workspace''] (sample_tree @ [backslash_file], False) = Inr (sample_tree @ [backslash_file])" by code_simp
  show ?thesis
    by (rule tar_persists_unrestorable [OF sample_filter w, of backslash_file]) (simp_all add: backslash_file_def empty_bucket_def)
qed

end
