(* ===== verification/Store_Stage.thy ===== *)
theory Store_Stage
  imports Store_Guarantees
begin

text \<open>
  Preparing the local directory of a Bed (\<open>src/internal/bed/store/stage.go\<close>). The local copy
  (\<open>luggage\<close>) is used when it is at least as new as the snapshot; otherwise the snapshot is restored into a directory beside it and swapped in by
  renaming. \<open>Site\<close> has the bucket and the directories beside the Bed's; a directory is \<open>Torn\<close> while a restore or a removal is under way. Which calls of the file
  system fail is the argument \<open>stage_calls\<close>.
\<close>

section \<open>State\<close>

datatype local_dir = Whole "tree_entry list" | Torn

record Site =
  ST_remote :: Remote
  ST_dirs :: "string \<Rightarrow> local_dir option"

datatype stage_error = InspectSnapshotFailed store_error | CreateFreshFailed | CreateStagingFailed | RestoreFailed store_error | ValidateFailed
  | InspectLocalFailed | ReserveFailed | ReleaseFailed | MoveAsideFailed | PublishFailed

type_synonym 'a site_io = "(Site, stage_error, 'a) io"

text \<open>Which calls fail, what a restored tree must satisfy, and the names that \<open>MkdirTemp\<close> chooses.\<close>

record stage_calls =
  SC_mkdir :: bool
  SC_mktemp :: bool
  SC_cleanup :: bool
  SC_discard :: bool
  SC_stat :: bool
  SC_reserve :: bool
  SC_release :: bool
  SC_aside :: bool
  SC_publish :: bool
  SC_rollback :: bool
  SC_valid :: "tree_entry list \<Rightarrow> bool"
  SC_staging :: string
  SC_reserved :: string

datatype StageInSource = StageInFresh | StageInLuggage | StageInSnapshot

record StageInRequest =
  RQ_BedDir :: string
  RQ_LocalPresent :: bool
  RQ_LocalGeneration :: int

record StageInResult =
  SR_Source :: StageInSource
  SR_Snapshot :: "SnapshotInfo option"
  SR_Restored :: bool

section \<open>File system calls\<close>

definition on_remote :: "(store_error \<Rightarrow> stage_error) \<Rightarrow> 'a remote_io \<Rightarrow> 'a site_io" where
  "on_remote err p s =
     (case p (ST_remote s) of
        (t, res, r) \<Rightarrow> (map (\<lambda>x. s\<lparr>ST_remote := x\<rparr>) t, (case res of Inl e \<Rightarrow> Inl (err e) | Inr x \<Rightarrow> Inr x), s\<lparr>ST_remote := r\<rparr>))"

definition fails :: "bool \<Rightarrow> stage_error \<Rightarrow> unit site_io" where
  "fails b e = io_check (if b then Some e else None)"

definition set_dir :: "string \<Rightarrow> local_dir option \<Rightarrow> unit site_io" where
  "set_dir name d = io_do (\<lambda>s. s\<lparr>ST_dirs := (ST_dirs s)(name := d)\<rparr>)"

definition rename_dir :: "string \<Rightarrow> string \<Rightarrow> unit site_io" where
  "rename_dir from to = io_do (\<lambda>s. s\<lparr>ST_dirs := (ST_dirs s)(from := None, to := ST_dirs s from)\<rparr>)"

definition has_dir :: "string \<Rightarrow> bool site_io" where
  "has_dir name = io_get (\<lambda>s. Inr (ST_dirs s name \<noteq> None))"

text \<open>\<open>RemoveAll\<close> with its error ignored.\<close>

definition remove_all :: "bool \<Rightarrow> string \<Rightarrow> unit site_io" where
  "remove_all err name =
     io_bind (has_dir name) (\<lambda>present.
       if \<not> present then io_return ()
       else io_bind (set_dir name (Some Torn)) (\<lambda>_. if err then io_return () else set_dir name None))"

text \<open>A deferred call.\<close>

definition io_finally :: "('s, 'e, 'a) io \<Rightarrow> ('s, 'e, unit) io \<Rightarrow> ('s, 'e, 'a) io" where
  "io_finally p q s = (case p s of (t, res, s1) \<Rightarrow> (case q s1 of (t2, _, s2) \<Rightarrow> (t @ t2, res, s2)))"

section \<open>Staging\<close>

definition publishStagedBed :: "stage_calls \<Rightarrow> string \<Rightarrow> string \<Rightarrow> unit site_io" where
  "publishStagedBed c bedDir staging =
     io_bind (fails (SC_stat c) InspectLocalFailed) (\<lambda>_.
     io_bind (has_dir bedDir) (\<lambda>present.
     io_bind (if \<not> present then io_return ()
              else io_bind (fails (SC_reserve c) ReserveFailed) (\<lambda>_.
                   io_bind (set_dir (SC_reserved c) (Some (Whole []))) (\<lambda>_.
                   io_bind (fails (SC_release c) ReleaseFailed) (\<lambda>_.
                   io_bind (set_dir (SC_reserved c) None) (\<lambda>_.
                   io_bind (fails (SC_aside c) MoveAsideFailed) (\<lambda>_.
                   rename_dir bedDir (SC_reserved c))))))) (\<lambda>_.
       if SC_publish c
       then io_bind (if present \<and> \<not> SC_rollback c then rename_dir (SC_reserved c) bedDir else io_return ()) (\<lambda>_. io_fail PublishFailed)
       else io_bind (rename_dir staging bedDir) (\<lambda>_.
            if present then remove_all (SC_discard c) (SC_reserved c) else io_return ()))))"

definition restore_staged :: "stage_calls \<Rightarrow> tree_entry list remote_io \<Rightarrow> StageInRequest \<Rightarrow> unit site_io" where
  "restore_staged c restore rq =
     io_bind (set_dir (SC_staging c) (Some Torn)) (\<lambda>_.
     io_bind (on_remote RestoreFailed restore) (\<lambda>d.
     io_bind (set_dir (SC_staging c) (Some (Whole d))) (\<lambda>_.
     io_bind (fails (\<not> SC_valid c d) ValidateFailed) (\<lambda>_.
     publishStagedBed c (RQ_BedDir rq) (SC_staging c)))))"

definition stage_from :: "stage_calls \<Rightarrow> tree_entry list remote_io \<Rightarrow> StageInRequest \<Rightarrow> SnapshotInfo option \<Rightarrow> StageInResult site_io" where
  "stage_from c restore rq snapshot =
     (let result = \<lparr> SR_Source = StageInFresh, SR_Snapshot = snapshot, SR_Restored = False \<rparr> in
      case snapshot of
        None \<Rightarrow>
          if RQ_LocalPresent rq then io_return (result\<lparr>SR_Source := StageInLuggage\<rparr>)
          else io_bind (fails (SC_mkdir c) CreateFreshFailed) (\<lambda>_.
               io_bind (has_dir (RQ_BedDir rq)) (\<lambda>present.
               io_bind (if present then io_return () else set_dir (RQ_BedDir rq) (Some (Whole []))) (\<lambda>_. io_return result)))
      | Some info \<Rightarrow>
          if RQ_LocalPresent rq \<and> RQ_LocalGeneration rq \<ge> SI_Generation info then io_return (result\<lparr>SR_Source := StageInLuggage\<rparr>)
          else io_bind (fails (SC_mktemp c) CreateStagingFailed) (\<lambda>_.
               io_bind (set_dir (SC_staging c) (Some (Whole []))) (\<lambda>_.
               io_bind (io_finally (restore_staged c restore rq) (remove_all (SC_cleanup c) (SC_staging c))) (\<lambda>_.
               io_return (result\<lparr>SR_Source := StageInSnapshot, SR_Restored := True\<rparr>)))))"

definition StageInBedFS :: "stage_calls \<Rightarrow> SnapshotInfo option remote_io \<Rightarrow> tree_entry list remote_io \<Rightarrow> StageInRequest \<Rightarrow> StageInResult site_io" where
  "StageInBedFS c stat restore rq = io_bind (on_remote InspectSnapshotFailed stat) (stage_from c restore rq)"

section \<open>No half-written tree\<close>

text \<open>
  What the Bed's directory is at any moment, when it was \<open>old\<close>: still \<open>old\<close>; a complete tree that passed validation (or the empty one of a fresh Bed); or absent, with
  the old tree beside it.
\<close>

definition stage_safe :: "stage_calls \<Rightarrow> string \<Rightarrow> local_dir option \<Rightarrow> Site \<Rightarrow> bool" where
  "stage_safe c bedDir old s \<longleftrightarrow> ST_dirs s bedDir = old
     \<or> (\<exists>d. ST_dirs s bedDir = Some (Whole d) \<and> (SC_valid c d \<or> old = None \<and> d = []))
     \<or> ST_dirs s bedDir = None \<and> ST_dirs s (SC_reserved c) = old"

definition names_apart :: "stage_calls \<Rightarrow> string \<Rightarrow> bool" where
  "names_apart c bedDir \<longleftrightarrow> SC_staging c \<noteq> bedDir \<and> SC_reserved c \<noteq> bedDir \<and> SC_staging c \<noteq> SC_reserved c"

lemma io_ok_finally:
  assumes p: "io_ok I P p Q E" and q: "\<And>x. io_ok I (Q x) q (\<lambda>_. Q x) (Q x)" and q': "io_ok I E q (\<lambda>_. E) E"
  shows "io_ok I P (io_finally p q) Q E"
proof (rule io_okI)
  fix s t res s' assume s: "I s" "P s" and run: "io_finally p q s = (t, res, s')"
  obtain t1 res1 s1 where p1: "p s = (t1, res1, s1)" by (rule prod_cases3)
  obtain t2 res2 s2 where q1: "q s1 = (t2, res2, s2)" by (rule prod_cases3)
  have e: "t = t1 @ t2" "res = res1" "s' = s2" using run p1 q1 by (simp_all add: io_finally_def)
  note P1 = io_okD [OF p s p1]
  show "(\<forall>x \<in> set t. I x) \<and> I s' \<and> (case res of Inl e \<Rightarrow> E s' | Inr x \<Rightarrow> Q x s')"
  proof (cases res1)
    case (Inl e')
    note Q1 = io_okD [OF q' P1(2) P1(3) [OF Inl] q1]
    have "E s2" using Q1(3,4) by (cases res2) simp_all
    then show ?thesis using e P1 Q1 Inl by auto
  next
    case (Inr x)
    note Q1 = io_okD [OF q P1(2) P1(4) [OF Inr] q1]
    have "Q x s2" using Q1(3,4) by (cases res2) simp_all
    then show ?thesis using e P1 Q1 Inr by auto
  qed
qed

definition error_keeps_old :: "stage_calls \<Rightarrow> string \<Rightarrow> local_dir option \<Rightarrow> Site \<Rightarrow> bool" where
  "error_keeps_old c bedDir old s \<longleftrightarrow> ST_dirs s bedDir = old \<or> SC_rollback c \<and> ST_dirs s bedDir = None \<and> ST_dirs s (SC_reserved c) = old"

lemmas stage_call_defs = fails_def set_dir_def rename_dir_def has_dir_def remove_all_def io_defs

lemma publish_ok:
  assumes "names_apart c b"
  shows "io_ok (stage_safe c b old) (\<lambda>s. ST_dirs s b = old \<and> ST_dirs s (SC_staging c) = Some (Whole d) \<and> SC_valid c d) (publishStagedBed c b (SC_staging c))
    (\<lambda>_ s. ST_dirs s b = Some (Whole d)) (error_keeps_old c b old)"
  using assms unfolding io_ok_def publishStagedBed_def names_apart_def
  by (auto simp: stage_call_defs stage_safe_def error_keeps_old_def)

lemma restore_staged_ok:
  assumes "names_apart c (RQ_BedDir rq)"
  shows "io_ok (stage_safe c (RQ_BedDir rq) old) (\<lambda>s. ST_dirs s (RQ_BedDir rq) = old \<and> ST_remote s = r) (restore_staged c restore rq)
    (\<lambda>_ s. \<exists>d. ST_dirs s (RQ_BedDir rq) = Some (Whole d) \<and> SC_valid c d \<and> fst (snd (restore r)) = Inr d) (error_keeps_old c (RQ_BedDir rq) old)"
    (is "io_ok ?I _ _ ?Q ?E")
proof -
  let ?b = "RQ_BedDir rq" let ?R = "\<lambda>d s. ST_dirs s ?b = old \<and> fst (snd (restore r)) = Inr d"
  have apart: "SC_staging c \<noteq> ?b" using assms by (simp add: names_apart_def)
  have torn: "io_ok ?I (\<lambda>s. ST_dirs s ?b = old \<and> ST_remote s = r) (set_dir (SC_staging c) (Some Torn)) (\<lambda>_ s. ST_dirs s ?b = old \<and> ST_remote s = r) ?E"
    using apart unfolding set_dir_def by (intro io_ok_do) (auto simp: stage_safe_def)
  have copy: "io_ok ?I (\<lambda>s. ST_dirs s ?b = old \<and> ST_remote s = r) (on_remote RestoreFailed restore) ?R ?E"
    unfolding io_ok_def on_remote_def by (auto simp: stage_safe_def error_keeps_old_def split: prod.splits sum.splits)
  have whole: "io_ok ?I (?R d) (set_dir (SC_staging c) (Some (Whole d))) (\<lambda>_ s. ?R d s \<and> ST_dirs s (SC_staging c) = Some (Whole d)) ?E" for d
    using apart unfolding set_dir_def by (intro io_ok_do) (auto simp: stage_safe_def)
  have check: "io_ok ?I (\<lambda>s. ?R d s \<and> ST_dirs s (SC_staging c) = Some (Whole d)) (fails (\<not> SC_valid c d) ValidateFailed)
      (\<lambda>_ s. fst (snd (restore r)) = Inr d \<and> ST_dirs s ?b = old \<and> ST_dirs s (SC_staging c) = Some (Whole d) \<and> SC_valid c d) ?E" for d
    by (simp add: io_ok_def fails_def io_check_def error_keeps_old_def)
  have publish: "io_ok ?I (\<lambda>s. fst (snd (restore r)) = Inr d \<and> ST_dirs s ?b = old \<and> ST_dirs s (SC_staging c) = Some (Whole d) \<and> SC_valid c d)
      (publishStagedBed c ?b (SC_staging c)) ?Q ?E" for d
  proof (cases "fst (snd (restore r)) = Inr d \<and> SC_valid c d")
    case True
    then show ?thesis by (intro io_ok_weaken [OF io_ok_strengthen [OF publish_ok [OF assms, of old d]]]) auto
  next
    case False
    then show ?thesis by (auto simp: io_ok_def)
  qed
  show ?thesis unfolding restore_staged_def by (rule io_ok_bind [OF torn io_ok_bind [OF copy io_ok_bind [OF whole io_ok_bind [OF check publish]]]])
qed

lemma clear_staging_ok:
  assumes "names_apart c b" and "\<And>s s'. ST_dirs s' b = ST_dirs s b \<Longrightarrow> ST_dirs s' (SC_reserved c) = ST_dirs s (SC_reserved c) \<Longrightarrow> P s \<Longrightarrow> P s'"
  shows "io_ok (stage_safe c b old) P (remove_all err (SC_staging c)) (\<lambda>_. P) P"
proof -
  have P: "P (s\<lparr>ST_dirs := (ST_dirs s)(SC_staging c := d)\<rparr>)" if "P s" for s d
    using assms(1) by (intro assms(2) [OF _ _ that]) (auto simp: names_apart_def)
  have PP: "P (s\<lparr>ST_dirs := (ST_dirs s)(SC_staging c := None)\<rparr>)" "P (s\<lparr>ST_dirs := (ST_dirs s)(SC_staging c := Some Torn)\<rparr>)" if "P s" for s
    using P that by blast+
  have step: "io_ok (stage_safe c b old) P (set_dir (SC_staging c) d) (\<lambda>_. P) P" if "d = None \<or> d = Some Torn" for d
    using that PP assms(1) unfolding set_dir_def by (intro io_ok_do) (auto simp: stage_safe_def names_apart_def)
  have "io_ok (stage_safe c b old) P (if err then io_return () else set_dir (SC_staging c) None) (\<lambda>_. P) P"
    using step [of None] by (simp add: io_ok_return)
  from io_ok_bind [OF step [of "Some Torn"] this] have rm: "io_ok (stage_safe c b old) P (if \<not> x then io_return ()
      else io_bind (set_dir (SC_staging c) (Some Torn)) (\<lambda>_. if err then io_return () else set_dir (SC_staging c) None)) (\<lambda>_. P) P" for x
    by (simp add: io_ok_return)
  have "io_ok (stage_safe c b old) P (has_dir (SC_staging c)) (\<lambda>_. P) P" unfolding has_dir_def by (rule io_ok_get) simp
  from io_ok_bind [OF this rm] show ?thesis by (simp add: remove_all_def)
qed

text \<open>What \<open>StageInBedFS\<close> promises with its result, for the snapshot \<open>snap\<close> that \<open>Stat\<close> found and the tree that \<open>Restore\<close> gives.\<close>

definition stage_result :: "stage_calls \<Rightarrow> StageInRequest \<Rightarrow> local_dir option \<Rightarrow> SnapshotInfo option \<Rightarrow> (store_error, tree_entry list) result \<Rightarrow> StageInResult \<Rightarrow> Site \<Rightarrow> bool" where
  "stage_result c rq old snap tree res s \<longleftrightarrow> SR_Snapshot res = snap \<and> SR_Restored res = (SR_Source res = StageInSnapshot)
     \<and> (case SR_Source res of
          StageInFresh \<Rightarrow> snap = None \<and> \<not> RQ_LocalPresent rq \<and> ST_dirs s (RQ_BedDir rq) = Some (case old of None \<Rightarrow> Whole [] | Some d \<Rightarrow> d)
        | StageInLuggage \<Rightarrow> RQ_LocalPresent rq \<and> (\<forall>info. snap = Some info \<longrightarrow> SI_Generation info \<le> RQ_LocalGeneration rq) \<and> ST_dirs s (RQ_BedDir rq) = old
        | StageInSnapshot \<Rightarrow> \<exists>info d. snap = Some info \<and> (RQ_LocalPresent rq \<longrightarrow> RQ_LocalGeneration rq < SI_Generation info)
            \<and> tree = Inr d \<and> SC_valid c d \<and> ST_dirs s (RQ_BedDir rq) = Some (Whole d))"

lemma stage_stat_ok:
  "io_ok (stage_safe c b old) (\<lambda>s. ST_dirs s b = old \<and> ST_remote s = r) (on_remote InspectSnapshotFailed stat)
    (\<lambda>snap s. ST_dirs s b = old \<and> ST_remote s = snd (snd (stat r)) \<and> fst (snd (stat r)) = Inr snap) (error_keeps_old c b old)"
  unfolding io_ok_def on_remote_def by (auto simp: stage_safe_def error_keeps_old_def split: prod.splits sum.splits)

lemma stage_fresh_ok:
  assumes "\<not> RQ_LocalPresent rq"
  shows "io_ok (stage_safe c (RQ_BedDir rq) old) (\<lambda>s. ST_dirs s (RQ_BedDir rq) = old) (stage_from c restore rq None)
    (stage_result c rq old None tree) (error_keeps_old c (RQ_BedDir rq) old)"
  using assms unfolding io_ok_def by (auto simp: stage_from_def stage_call_defs stage_safe_def error_keeps_old_def stage_result_def)

lemma stage_luggage_ok:
  assumes "RQ_LocalPresent rq" and "\<forall>info. snap = Some info \<longrightarrow> SI_Generation info \<le> RQ_LocalGeneration rq"
  shows "io_ok (stage_safe c (RQ_BedDir rq) old) (\<lambda>s. ST_dirs s (RQ_BedDir rq) = old) (stage_from c restore rq snap)
    (stage_result c rq old snap tree) (error_keeps_old c (RQ_BedDir rq) old)"
  using assms by (cases snap) (auto simp: io_ok_def stage_from_def io_return_def stage_result_def)

lemma stage_copy_ok:
  assumes apart: "names_apart c (RQ_BedDir rq)" and newer: "RQ_LocalPresent rq \<longrightarrow> RQ_LocalGeneration rq < SI_Generation info"
  shows "io_ok (stage_safe c (RQ_BedDir rq) old) (\<lambda>s. ST_dirs s (RQ_BedDir rq) = old \<and> ST_remote s = r) (stage_from c restore rq (Some info))
    (stage_result c rq old (Some info) (fst (snd (restore r)))) (error_keeps_old c (RQ_BedDir rq) old)" (is "io_ok ?I ?P _ ?Q ?E")
proof -
  let ?R = "\<lambda>s. \<exists>d. ST_dirs s (RQ_BedDir rq) = Some (Whole d) \<and> SC_valid c d \<and> fst (snd (restore r)) = Inr d"
  have temp: "io_ok ?I ?P (fails (SC_mktemp c) CreateStagingFailed) (\<lambda>_. ?P) ?E" by (simp add: io_ok_def fails_def io_check_def error_keeps_old_def)
  have made: "io_ok ?I ?P (set_dir (SC_staging c) (Some (Whole []))) (\<lambda>_. ?P) ?E"
    using apart unfolding set_dir_def by (intro io_ok_do) (auto simp: stage_safe_def names_apart_def)
  have clear: "io_ok ?I ?R (remove_all (SC_cleanup c) (SC_staging c)) (\<lambda>_. ?R) ?R" "io_ok ?I ?E (remove_all (SC_cleanup c) (SC_staging c)) (\<lambda>_. ?E) ?E"
    by (rule clear_staging_ok [OF apart]; simp add: error_keeps_old_def)+
  have result: "io_ok ?I ?R (io_return \<lparr> SR_Source = StageInSnapshot, SR_Snapshot = Some info, SR_Restored = True \<rparr>) ?Q ?E"
    using newer by (intro io_ok_return) (auto simp: stage_result_def)
  have "stage_from c restore rq (Some info) = io_bind (fails (SC_mktemp c) CreateStagingFailed) (\<lambda>_. io_bind (set_dir (SC_staging c) (Some (Whole []))) (\<lambda>_.
       io_bind (io_finally (restore_staged c restore rq) (remove_all (SC_cleanup c) (SC_staging c))) (\<lambda>_.
         io_return \<lparr> SR_Source = StageInSnapshot, SR_Snapshot = Some info, SR_Restored = True \<rparr>)))"
    using newer by (auto simp: stage_from_def)
  then show ?thesis by (simp add: io_ok_bind [OF temp io_ok_bind [OF made io_ok_bind [OF io_ok_finally [OF restore_staged_ok [OF apart, of old r restore] clear] result]]])
qed

lemma stage_from_ok:
  assumes "names_apart c (RQ_BedDir rq)"
  shows "io_ok (stage_safe c (RQ_BedDir rq) old) (\<lambda>s. ST_dirs s (RQ_BedDir rq) = old \<and> ST_remote s = r) (stage_from c restore rq snap)
    (stage_result c rq old snap (fst (snd (restore r)))) (error_keeps_old c (RQ_BedDir rq) old)"
proof -
  consider "\<not> RQ_LocalPresent rq" "snap = None" | "RQ_LocalPresent rq" "\<forall>info. snap = Some info \<longrightarrow> SI_Generation info \<le> RQ_LocalGeneration rq"
    | info where "snap = Some info" "RQ_LocalPresent rq \<longrightarrow> RQ_LocalGeneration rq < SI_Generation info"
    by (cases snap) force+
  then show ?thesis
  proof cases
    case 1
    then show ?thesis by (auto intro: io_ok_strengthen [OF stage_fresh_ok])
  next
    case 2
    then show ?thesis by (auto intro: io_ok_strengthen [OF stage_luggage_ok])
  next
    case 3
    then show ?thesis using stage_copy_ok [OF assms 3(2)] by simp
  qed
qed

lemma stage_in_ok:
  assumes "names_apart c (RQ_BedDir rq)"
  shows "io_ok (stage_safe c (RQ_BedDir rq) old) (\<lambda>s. ST_dirs s (RQ_BedDir rq) = old \<and> ST_remote s = r) (StageInBedFS c stat restore rq)
    (\<lambda>res s. \<exists>snap. fst (snd (stat r)) = Inr snap \<and> stage_result c rq old snap (fst (snd (restore (snd (snd (stat r)))))) res s) (error_keeps_old c (RQ_BedDir rq) old)"
  unfolding StageInBedFS_def
proof (rule io_ok_bind [OF stage_stat_ok])
  fix snap
  show "io_ok (stage_safe c (RQ_BedDir rq) old) (\<lambda>s. ST_dirs s (RQ_BedDir rq) = old \<and> ST_remote s = snd (snd (stat r)) \<and> fst (snd (stat r)) = Inr snap)
    (stage_from c restore rq snap)
    (\<lambda>res s. \<exists>snap. fst (snd (stat r)) = Inr snap \<and> stage_result c rq old snap (fst (snd (restore (snd (snd (stat r)))))) res s) (error_keeps_old c (RQ_BedDir rq) old)"
  proof (cases "fst (snd (stat r)) = Inr snap")
    case True
    then show ?thesis by (intro io_ok_weaken [OF io_ok_strengthen [OF stage_from_ok [OF assms, of old "snd (snd (stat r))" restore snap]]]) auto
  next
    case False
    then show ?thesis by (auto simp: io_ok_def)
  qed
qed

text \<open>C8: Preparing a Bed's directory never leaves a half-written tree there: at every moment, whichever calls fail, the directory is what it was, or a completely restored
  and validated tree (an empty one for a fresh Bed), or it is missing and the old tree is complete beside it. An error leaves the old tree in place, unless the rename
  that puts it back fails too. A success is the luggage when it is not older than the snapshot, and otherwise exactly the tree that the snapshot has.\<close>

theorem stage_in_never_torn:
  assumes "names_apart c (RQ_BedDir rq)" and "StageInBedFS c stat restore rq s = (t, res, s')" and "old = ST_dirs s (RQ_BedDir rq)"
    and "stat (ST_remote s) = (t1, found, r1)" and "restore r1 = (t2, tree, r2)"
  shows "(\<forall>x \<in> set (s' # t). stage_safe c (RQ_BedDir rq) old x)
    \<and> (case res of Inl e \<Rightarrow> error_keeps_old c (RQ_BedDir rq) old s' | Inr result \<Rightarrow> \<exists>snap. found = Inr snap \<and> stage_result c rq old snap tree result s')"
proof -
  have "stage_safe c (RQ_BedDir rq) old s" using assms(3) by (simp add: stage_safe_def)
  note ok = io_okD [OF stage_in_ok [OF assms(1), of old "ST_remote s" stat restore] this _ assms(2)]
  show ?thesis using ok(1,2) ok(3,4) assms(3-5) by (cases res) auto
qed

section \<open>From one carrier to another\<close>







definition sample_calls :: stage_calls where
  "sample_calls =
     \<lparr> SC_mkdir = False, SC_mktemp = False, SC_cleanup = False, SC_discard = False, SC_stat = False, SC_reserve = False, SC_release = False, SC_aside = False,
       SC_publish = False, SC_rollback = False, SC_valid = \<lambda>_. True, SC_staging = ''.stage-in-b1-1'', SC_reserved = ''.replaced-bed-1'' \<rparr>"

definition sample_request :: StageInRequest where
  "sample_request = \<lparr> RQ_BedDir = ''b1'', RQ_LocalPresent = True, RQ_LocalGeneration = 0 \<rparr>"

definition sample_site :: Site where
  "sample_site = \<lparr> ST_remote = \<lparr> RM_Objects = sample_tar_objects, RM_Answers = [], RM_Digested = [] \<rparr>, ST_dirs = [''b1'' \<mapsto> Whole []] \<rparr>"

definition sample_stat :: "SnapshotInfo option remote_io" where
  "sample_stat = io_return (Some \<lparr> SI_Generation = 1, SI_Bytes = 10 \<rparr>)"

text \<open>The rename that publishes the restored tree fails, the one that puts the old tree back does not.\<close>

lemma sample_failed_publish:
  "\<exists>t s'. StageInBedFS (sample_calls\<lparr>SC_publish := True\<rparr>) sample_stat (io_return sample_tree) sample_request sample_site = (t, Inl PublishFailed, s') \<and> length t = 9"
  by (simp add: StageInBedFS_def stage_from_def restore_staged_def publishStagedBed_def stage_call_defs on_remote_def io_finally_def sample_stat_def sample_calls_def
    sample_request_def sample_site_def)

theorem stage_in_never_torn_witness:
  "\<exists>t s'. StageInBedFS (sample_calls\<lparr>SC_publish := True\<rparr>) sample_stat (io_return sample_tree) sample_request sample_site = (t, Inl PublishFailed, s')
    \<and> length t = 9 \<and> list_all (stage_safe (sample_calls\<lparr>SC_publish := True\<rparr>) ''b1'' (Some (Whole []))) t \<and> ST_dirs s' ''b1'' = Some (Whole [])"
proof -
  obtain t s' where run: "StageInBedFS (sample_calls\<lparr>SC_publish := True\<rparr>) sample_stat (io_return sample_tree) sample_request sample_site = (t, Inl PublishFailed, s')" "length t = 9"
    using sample_failed_publish by blast
  have c: "names_apart (sample_calls\<lparr>SC_publish := True\<rparr>) (RQ_BedDir sample_request)" "Some (Whole []) = ST_dirs sample_site (RQ_BedDir sample_request)"
    "RQ_BedDir sample_request = ''b1''" "\<not> SC_rollback sample_calls"
    by (simp_all add: names_apart_def sample_calls_def sample_request_def sample_site_def)
  show ?thesis
    using stage_in_never_torn [OF c(1) run(1) c(2), of "[]" "Inr (Some \<lparr> SI_Generation = 1, SI_Bytes = 10 \<rparr>)" "ST_remote sample_site" "[]" "Inr sample_tree" "ST_remote sample_site"]
      run c(3,4) by (simp add: sample_stat_def io_return_def list_all_iff error_keeps_old_def)
qed


end
