(* ===== verification/Store_Manager.thy ===== *)
theory Store_Manager
  imports Store_Stage
begin

text \<open>
  The persistence subsystem of the daemon (\<open>src/internal/bed/store/manager.go\<close>, \<open>sync.go\<close>, \<open>volumes.go\<close>): which store serves a kind of synchronization, the
  loop that decides when the Beds are synchronized, and the check of a restored tree. What the object client, the restic program, the file system and the JSON decoder answer are
  arguments.
\<close>

section \<open>Selection of stores\<close>

datatype select_error = UnknownKind string | BadThreshold | TransferUnavailable | ToolUnavailable | PersistenceUnavailable

text \<open>Of a store only its \<open>Name\<close> matters here.\<close>

record StoreManager =
  SM_defaultSync :: SyncKind
  SM_bucket :: string
  SM_threshold :: int
  SM_stores :: "(SyncKind \<times> SyncKind) list"
  SM_remote :: bool

definition sync_kind :: "string \<Rightarrow> SyncKind option" where
  "sync_kind s = map_of [(''noop'', SyncNoop), (''auto'', SyncAuto), (''cas'', SyncCAS), (''pack'', SyncPack), (''tar'', SyncTar), (''restic'', SyncRestic)] s"

definition NewManagerWithStores :: "SyncKind \<Rightarrow> SyncKind list \<Rightarrow> StoreManager" where
  "NewManagerWithStores defaultStore additional =
     \<lparr> SM_defaultSync = defaultStore, SM_bucket = [], SM_threshold = 0,
       SM_stores = foldl (\<lambda>m k. al_put k k m) [(SyncNoop, SyncNoop)] (defaultStore # additional), SM_remote = False \<rparr>"

definition remoteLocked :: "bool \<Rightarrow> StoreManager \<Rightarrow> (select_error, unit) result \<times> StoreManager" where
  "remoteLocked connects m =
     (if SM_remote m then (Inr (), m)
      else if SM_bucket m = [] \<or> \<not> connects then (Inl TransferUnavailable, m)
      else (Inr (), m\<lparr>SM_remote := True\<rparr>))"

definition stored :: "StoreManager \<Rightarrow> SyncKind \<Rightarrow> (select_error, SyncKind) result" where
  "stored m kind = (case map_of (SM_stores m) kind of None \<Rightarrow> Inl (UnknownKind []) | Some name \<Rightarrow> Inr name)"

definition add_durable :: "StoreManager \<Rightarrow> StoreManager" where
  "add_durable m = m\<lparr>SM_stores := foldl (\<lambda>s k. al_put k k s) (SM_stores m) [SyncAuto, SyncCAS, SyncPack, SyncTar, SyncRestic]\<rparr>"

definition forSync :: "bool \<Rightarrow> StoreManager \<Rightarrow> SyncKind \<Rightarrow> (select_error, SyncKind) result \<times> StoreManager" where
  "forSync connects m kind =
     (case map_of (SM_stores m) kind of
        Some name \<Rightarrow> (Inr name, m)
      | None \<Rightarrow>
          if kind \<in> {SyncNoop, SyncCopy} then (Inl (UnknownKind []), m)
          else if SM_bucket m = [] then (stored m SyncNoop, m)
          else if kind = SyncAuto \<and> SM_threshold m < 0 then (Inl BadThreshold, m)
          else (case remoteLocked connects m of
                  (Inl e, m1) \<Rightarrow> (Inl e, m1)
                | (Inr _, m1) \<Rightarrow> (stored (add_durable m1) kind, add_durable m1)))"

definition ResolveSync :: "bool \<Rightarrow> bool \<Rightarrow> StoreManager \<Rightarrow> string \<Rightarrow> (select_error, SyncKind) result \<times> StoreManager" where
  "ResolveSync available connects m requested =
     (if requested = [] then (Inr (SM_defaultSync m), m)
      else case sync_kind requested of
        None \<Rightarrow> (Inl (UnknownKind requested), m)
      | Some kind \<Rightarrow>
          if kind = SyncRestic \<and> SM_bucket m \<noteq> [] \<and> \<not> available then (Inl ToolUnavailable, m)
          else forSync connects m kind)"

definition ResolveDurable :: "bool \<Rightarrow> bool \<Rightarrow> StoreManager \<Rightarrow> (select_error, SyncKind) result \<times> StoreManager" where
  "ResolveDurable available connects m =
     (if SM_defaultSync m \<noteq> SyncNoop then (Inr (SM_defaultSync m), m)
      else case find (\<lambda>k. map_of (SM_stores m) k \<noteq> None) [SyncAuto, SyncCAS, SyncPack, SyncTar, SyncRestic] of
        Some kind \<Rightarrow> (Inr kind, m)
      | None \<Rightarrow>
          (case ResolveSync available connects m ''auto'' of
             (Inl e, m1) \<Rightarrow> (Inl e, m1)
           | (Inr kind, m1) \<Rightarrow> (if kind = SyncNoop then Inl PersistenceUnavailable else Inr kind, m1)))"

definition NewStoreManager :: "bool \<Rightarrow> bool \<Rightarrow> string \<Rightarrow> int \<Rightarrow> string \<Rightarrow> (select_error, StoreManager) result" where
  "NewStoreManager available connects bucket threshold sync =
     (case ResolveSync available connects ((NewManagerWithStores SyncNoop [])\<lparr>SM_bucket := bucket, SM_threshold := threshold\<rparr>) (if sync = [] then ''auto'' else sync) of
        (Inl e, _) \<Rightarrow> Inl e
      | (Inr kind, m) \<Rightarrow> Inr (m\<lparr>SM_defaultSync := kind\<rparr>))"

section \<open>The loop\<close>

definition storeSyncRetryMin :: int where
  "storeSyncRetryMin = 1000000000"

definition storeSyncRetryMax :: int where
  "storeSyncRetryMax = 30 * 1000000000"

text \<open>The timers \<open>time.NewTimer\<close> has made, by number: one that runs, with the delay it was made with; one that has expired and whose value waits in its channel; and one that is
  over, since its value was received or it was stopped and drained. \<open>retryTimer\<close> and the channel \<open>retry\<close> are two variables of the code, each of which names a timer or is nil.\<close>

datatype timer = Ticking int | Expired int | Over

record SyncLoop =
  SL_interval :: int
  SL_running :: bool                \<comment> \<open>\<open>runSync\<close> has not returned\<close>
  SL_requested :: bool              \<comment> \<open>the channel \<open>syncRequested\<close>, of capacity 1\<close>
  SL_timers :: "timer list"
  SL_retryTimer :: "nat option"
  SL_retry :: "nat option"
  SL_retryDelay :: int

definition RequestSync :: "SyncLoop \<Rightarrow> SyncLoop" where
  "RequestSync l = l\<lparr>SL_requested := True\<rparr>"

definition stopRetry :: "SyncLoop \<Rightarrow> SyncLoop" where
  "stopRetry l = l\<lparr>SL_timers := (case SL_retryTimer l of None \<Rightarrow> SL_timers l | Some i \<Rightarrow> (SL_timers l)[i := Over]),
     SL_retryTimer := None, SL_retry := None, SL_retryDelay := storeSyncRetryMin\<rparr>"

definition next_delay :: "int \<Rightarrow> int" where
  "next_delay d = (if d < storeSyncRetryMax then (if d * 2 > storeSyncRetryMax then storeSyncRetryMax else d * 2) else d)"

definition sync_run :: "bool \<Rightarrow> SyncLoop \<Rightarrow> SyncLoop" where
  "sync_run failed l =
     (if \<not> failed then stopRetry l
      else if SL_retryTimer l = None
      then l\<lparr>SL_timers := SL_timers l @ [Ticking (SL_retryDelay l)], SL_retryTimer := Some (length (SL_timers l)), SL_retry := Some (length (SL_timers l)),
             SL_retryDelay := next_delay (SL_retryDelay l)\<rparr>
      else l)"

text \<open>Receiving the value of timer \<open>i\<close> from the channel \<open>retry\<close>, before the pass it triggers.\<close>

definition receive_retry :: "nat \<Rightarrow> SyncLoop \<Rightarrow> SyncLoop" where
  "receive_retry i l = l\<lparr>SL_timers := (SL_timers l)[i := Over], SL_retryTimer := None, SL_retry := None\<rparr>"

datatype sync_trigger = Requested | Periodic | Retry

text \<open>The turns of \<open>runSync\<close>, with requests and the expiry of timers between them. The second component is the history of the passes, newest first: what triggered each and
  whether it failed for a Bed.\<close>

inductive sync_step :: "SyncLoop \<times> (sync_trigger \<times> bool) list \<Rightarrow> SyncLoop \<times> (sync_trigger \<times> bool) list \<Rightarrow> bool" where
  request: "sync_step (l, passes) (RequestSync l, passes)"
| expire: "i < length (SL_timers l) \<Longrightarrow> SL_timers l ! i = Ticking d \<Longrightarrow> sync_step (l, passes) (l\<lparr>SL_timers := (SL_timers l)[i := Expired d]\<rparr>, passes)"
| cancelled: "SL_running l \<Longrightarrow> sync_step (l, passes) ((stopRetry l)\<lparr>SL_running := False\<rparr>, passes)"
| requested: "SL_running l \<Longrightarrow> SL_requested l \<Longrightarrow>
    sync_step (l, passes) (sync_run failed (l\<lparr>SL_requested := False\<rparr>), (Requested, failed) # passes)"
| periodic: "SL_running l \<Longrightarrow> SL_interval l > 0 \<Longrightarrow> sync_step (l, passes) (sync_run failed l, (Periodic, failed) # passes)"
| retry: "SL_running l \<Longrightarrow> SL_retry l = Some i \<Longrightarrow> i < length (SL_timers l) \<Longrightarrow> SL_timers l ! i = Expired d \<Longrightarrow>
    sync_step (l, passes) (sync_run failed (receive_retry i l), (Retry, failed) # passes)"

definition sync_start :: "int \<Rightarrow> SyncLoop" where
  "sync_start interval = \<lparr> SL_interval = interval, SL_running = True, SL_requested = False, SL_timers = [], SL_retryTimer = None, SL_retry = None,
     SL_retryDelay = storeSyncRetryMin \<rparr>"

section \<open>Restored volumes\<close>

text \<open>\<open>read\<close> is the content of \<open>meta.json\<close> in a tree, \<open>decode\<close> its version and volumes, and \<open>lstat\<close> what a path of the tree names.\<close>

definition ReadVolumeContract ::
  "(string \<Rightarrow> (int \<times> VolumeSpec list option) option) \<Rightarrow> (tree_entry list \<Rightarrow> (unit, string option) result) \<Rightarrow> tree_entry list
     \<Rightarrow> (string, VolumeSpec list option) result" where
  "ReadVolumeContract decode read dir =
     (case read dir of
        Inl _ \<Rightarrow> Inl ''read''
      | Inr None \<Rightarrow> Inr None
      | Inr (Some data) \<Rightarrow>
          (case decode data of
             None \<Rightarrow> Inl ''decode''
           | Some (version, vols) \<Rightarrow>
               (case vols of
                  None \<Rightarrow> Inl ''manifest''
                | Some vs \<Rightarrow>
                    if version \<noteq> 2 then Inl ''manifest''
                    else (case NormalizeVolumes vs of
                            Inl _ \<Rightarrow> Inl ''volumes''
                          | Inr ws \<Rightarrow> if list_all is_persistent ws then Inr (Some ws) else Inl ''persistence''))))"

definition validateRestoredVolumes ::
  "(string \<Rightarrow> (int \<times> VolumeSpec list option) option) \<Rightarrow> (tree_entry list \<Rightarrow> (unit, string option) result) \<Rightarrow> (tree_entry list \<Rightarrow> string \<Rightarrow> entry_kind option)
     \<Rightarrow> VolumeSpec list option \<Rightarrow> tree_entry list \<Rightarrow> bool" where
  "validateRestoredVolumes decode read lstat requested dir =
     (case ReadVolumeContract decode read dir of
        Inl _ \<Rightarrow> False
      | Inr None \<Rightarrow> False
      | Inr (Some volumes) \<Rightarrow>
          (case requested of None \<Rightarrow> True | Some vs \<Rightarrow> PersistentVolumes vs = volumes)
          \<and> list_all (\<lambda>v. lstat dir (''volumes/'' @ VS_Name v) = Some Folder) volumes)"

text \<open>A Bed that was restored has the persistent volumes that were requested, each as a directory.\<close>

theorem restored_bed_has_volumes:
  assumes "names_apart c (RQ_BedDir rq)" and "SC_valid c = validateRestoredVolumes decode read lstat (Some vs)"
    and "StageInBedFS c stat restore rq s = (t, Inr result, s')" and "SR_Restored result"
  shows "\<exists>d. ST_dirs s' (RQ_BedDir rq) = Some (Whole d) \<and> ReadVolumeContract decode read d = Inr (Some (PersistentVolumes vs))
    \<and> list_all (\<lambda>v. lstat d (''volumes/'' @ VS_Name v) = Some Folder) (PersistentVolumes vs)"
proof -
  have "stage_safe c (RQ_BedDir rq) (ST_dirs s (RQ_BedDir rq)) s" by (simp add: stage_safe_def)
  from io_okD(4) [OF stage_in_ok [OF assms(1), of _ "ST_remote s" stat restore] this _ assms(3) refl]
  obtain snap tree where "stage_result c rq (ST_dirs s (RQ_BedDir rq)) snap tree result s'" by auto
  then obtain d where d: "ST_dirs s' (RQ_BedDir rq) = Some (Whole d)" "SC_valid c d" using assms(4) by (auto simp: stage_result_def)
  then show ?thesis using assms(2) by (auto simp: validateRestoredVolumes_def split: sum.splits option.splits)
qed

section \<open>A selected store stays\<close>

definition store_inv :: "StoreManager \<Rightarrow> bool" where
  "store_inv m \<longleftrightarrow> (\<forall>k n. map_of (SM_stores m) k = Some n \<longrightarrow> n = k) \<and> map_of (SM_stores m) SyncNoop = Some SyncNoop
     \<and> map_of (SM_stores m) (SM_defaultSync m) = Some (SM_defaultSync m)"

text \<open>What later calls keep.\<close>

definition store_grows :: "StoreManager \<Rightarrow> StoreManager \<Rightarrow> bool" where
  "store_grows m m' \<longleftrightarrow> store_inv m' \<and> SM_defaultSync m' = SM_defaultSync m
     \<and> (\<forall>k. map_of (SM_stores m) k = Some k \<longrightarrow> map_of (SM_stores m') k = Some k)"

lemma store_grows_refl: "store_inv m \<Longrightarrow> store_grows m m"
  by (simp add: store_grows_def)

lemma add_durable_stores:
  "map_of (SM_stores (add_durable m)) k = (if k \<in> {SyncAuto, SyncCAS, SyncPack, SyncTar, SyncRestic} then Some k else map_of (SM_stores m) k)"
  by (cases k) (simp_all add: add_durable_def)

lemma forSync_ok:
  assumes "store_inv m" and "forSync connects m kind = (res, m')"
  shows "store_grows m m' \<and> (\<forall>k. res = Inr k \<longrightarrow> map_of (SM_stores m') k = Some k)"
proof (cases "map_of (SM_stores m) kind")
  case (Some name)
  then show ?thesis using assms store_grows_refl by (auto simp: forSync_def store_inv_def)
next
  case None
  obtain x m1 where rl: "remoteLocked connects m = (x, m1)" by fastforce
  then have m1: "SM_stores m1 = SM_stores m" "SM_defaultSync m1 = SM_defaultSync m" by (auto simp: remoteLocked_def split: if_splits)
  have grown: "store_grows m (add_durable m1)"
    using assms(1) m1 by (auto simp: store_grows_def store_inv_def add_durable_stores) (auto simp: add_durable_def)
  have kept: "store_grows m m1" using assms(1) m1 by (simp add: store_grows_def store_inv_def)
  consider "kind \<in> {SyncNoop, SyncCopy}" | "kind \<notin> {SyncNoop, SyncCopy}" "SM_bucket m = []"
    | "kind \<notin> {SyncNoop, SyncCopy}" "SM_bucket m \<noteq> []" "kind = SyncAuto \<and> SM_threshold m < 0"
    | "kind \<notin> {SyncNoop, SyncCopy}" "SM_bucket m \<noteq> []" "\<not> (kind = SyncAuto \<and> SM_threshold m < 0)" by blast
  then show ?thesis
  proof cases
    case 4
    then have e: "forSync connects m kind = (case x of Inl e \<Rightarrow> (Inl e, m1) | Inr _ \<Rightarrow> (stored (add_durable m1) kind, add_durable m1))"
      using None rl by (auto simp: forSync_def split: sum.split)
    have "stored (add_durable m1) kind = Inr kind" "map_of (SM_stores (add_durable m1)) kind = Some kind"
      using 4(1) by (cases kind; simp add: stored_def add_durable_stores)+
    then show ?thesis using e assms(2) grown kept by (cases x) auto
  qed (use assms None store_grows_refl [OF assms(1)] in \<open>auto simp: forSync_def stored_def store_inv_def\<close>)
qed

lemma ResolveSync_ok:
  assumes "store_inv m" and "ResolveSync available connects m requested = (res, m')"
  shows "store_grows m m' \<and> (\<forall>k. res = Inr k \<longrightarrow> map_of (SM_stores m') k = Some k)"
proof -
  consider "m' = m" "\<forall>k. res = Inr k \<longrightarrow> k = SM_defaultSync m" | kind where "forSync connects m kind = (res, m')"
    using assms(2) by (auto simp: ResolveSync_def split: if_splits option.splits)
  then show ?thesis
  proof cases
    case 1
    then show ?thesis using assms(1) store_grows_refl [OF assms(1)] by (auto simp: store_inv_def)
  next
    case 2
    then show ?thesis by (rule forSync_ok [OF assms(1)])
  qed
qed

lemma ResolveDurable_ok:
  assumes "store_inv m" and "ResolveDurable available connects m = (res, m')"
  shows "store_grows m m' \<and> (\<forall>k. res = Inr k \<longrightarrow> map_of (SM_stores m') k = Some k \<and> k \<noteq> SyncNoop)"
proof -
  let ?find = "find (\<lambda>k. map_of (SM_stores m) k \<noteq> None) [SyncAuto, SyncCAS, SyncPack, SyncTar, SyncRestic]"
  consider "SM_defaultSync m \<noteq> SyncNoop" | kind where "SM_defaultSync m = SyncNoop" "?find = Some kind" | "SM_defaultSync m = SyncNoop" "?find = None" by fastforce
  then show ?thesis
  proof cases
    case 1
    then show ?thesis using assms store_grows_refl [OF assms(1)] by (auto simp: ResolveDurable_def store_inv_def)
  next
    case (2 kind)
    then have "map_of (SM_stores m) kind \<noteq> None" "kind \<noteq> SyncNoop" by (auto simp: find_Some_iff nth_Cons' split: if_splits)
    moreover have "res = Inr kind" "m' = m" using 2 assms(2) by (simp_all add: ResolveDurable_def)
    ultimately show ?thesis using assms(1) store_grows_refl [OF assms(1)] by (auto simp: store_inv_def)
  next
    case 3
    obtain x m1 where rs: "ResolveSync available connects m ''auto'' = (x, m1)" by fastforce
    note R = ResolveSync_ok [OF assms(1) rs]
    have "(res, m') = (case x of Inl e \<Rightarrow> (Inl e, m1) | Inr kind \<Rightarrow> (if kind = SyncNoop then Inl PersistenceUnavailable else Inr kind, m1))"
      using 3 assms(2) rs by (simp add: ResolveDurable_def split: sum.splits)
    then show ?thesis using R by (cases x) (auto split: if_splits)
  qed
qed

lemma NewStoreManager_inv:
  assumes "NewStoreManager available connects bucket threshold sync = Inr m"
  shows "store_inv m"
proof -
  let ?m = "(NewManagerWithStores SyncNoop [])\<lparr>SM_bucket := bucket, SM_threshold := threshold\<rparr>"
  obtain kind m1 where rs: "ResolveSync available connects ?m (if sync = [] then ''auto'' else sync) = (Inr kind, m1)" "m = m1\<lparr>SM_defaultSync := kind\<rparr>"
    using assms by (auto simp: NewStoreManager_def split: prod.splits sum.splits)
  have "store_inv ?m" by (simp add: store_inv_def NewManagerWithStores_def)
  from ResolveSync_ok [OF this rs(1)] show ?thesis using rs(2) by (simp add: store_grows_def store_inv_def)
qed

inductive store_call :: "StoreManager \<Rightarrow> StoreManager \<Rightarrow> bool" where
  used: "forSync connects m kind = (res, m') \<Longrightarrow> store_call m m'"
| resolved: "ResolveSync available connects m requested = (res, m') \<Longrightarrow> store_call m m'"
| resolved_durable: "ResolveDurable available connects m = (res, m') \<Longrightarrow> store_call m m'"

lemma store_call_grows: "store_inv m \<Longrightarrow> store_call m m' \<Longrightarrow> store_grows m m'"
  by (erule store_call.cases) (use forSync_ok ResolveSync_ok ResolveDurable_ok in blast)+

interpretation store_calls: state_machine "\<lambda>m. \<exists>a c b t y. NewStoreManager a c b t y = Inr m" store_call store_inv
  by unfold_locales (use NewStoreManager_inv store_call_grows store_grows_def in blast)+

lemma store_calls_keep:
  assumes "store_call\<^sup>*\<^sup>* m m'" and "store_inv m" and "map_of (SM_stores m) k = Some k"
  shows "map_of (SM_stores m') k = Some k"
  using assms
proof (induction rule: rtranclp_induct)
  case (step y z)
  then show ?case using store_call_grows [OF store_calls.inv_steps [OF step.hyps(1) step.prems(1)] step.hyps(2)] by (simp add: store_grows_def)
qed simp

text \<open>A kind that was resolved for a Bed can be used ever after: whatever calls follow, and although the object client may no longer be reachable, its store is found. A kind
  resolved for durable volumes is never the store that keeps nothing.\<close>

theorem resolved_kind_stays_usable:
  assumes "NewStoreManager a c bucket threshold sync = Inr m0" and "store_call\<^sup>*\<^sup>* m0 m"
    and "ResolveSync available connects m requested = (Inr k, m1) \<or> ResolveDurable available connects m = (Inr k, m1)" and "store_call\<^sup>*\<^sup>* m1 m2"
  shows "forSync connects' m2 k = (Inr k, m2) \<and> (ResolveDurable available connects m = (Inr k, m1) \<longrightarrow> k \<noteq> SyncNoop)"
proof -
  have inv: "store_inv m" using store_calls.inv_reachable [OF _ assms(2)] assms(1) by blast
  have k: "store_inv m1" "map_of (SM_stores m1) k = Some k" "ResolveDurable available connects m = (Inr k, m1) \<Longrightarrow> k \<noteq> SyncNoop"
    using assms(3) ResolveSync_ok [OF inv] ResolveDurable_ok [OF inv] by (auto simp: store_grows_def)
  then show ?thesis using store_calls_keep [OF assms(4) k(1,2)] by (simp add: forSync_def)
qed

section \<open>No failed pass is forgotten\<close>

text \<open>The delay after \<open>n\<close> retries that failed in a row, and how many those are in a history.\<close>

definition backoff :: "nat \<Rightarrow> int" where
  "backoff n = min (2 ^ n * storeSyncRetryMin) storeSyncRetryMax"

definition failing :: "(sync_trigger \<times> bool) list \<Rightarrow> bool" where
  "failing passes \<longleftrightarrow> passes \<noteq> [] \<and> snd (hd passes)"

definition failed_retries :: "(sync_trigger \<times> bool) list \<Rightarrow> nat" where
  "failed_retries passes = length (filter (\<lambda>p. fst p = Retry) (takeWhile snd passes))"

lemma failing_simps [simp]: "\<not> failing []" "failing ((t, f) # passes) = f"
  by (simp_all add: failing_def)

lemma failed_retries_simps [simp]: "failed_retries [] = 0" "failed_retries ((t, f) # passes) = (if f then (if t = Retry then 1 else 0) + failed_retries passes else 0)"
  by (simp_all add: failed_retries_def)

lemma failed_retries_none: "\<not> failing passes \<Longrightarrow> failed_retries passes = 0"
  by (cases passes) auto

lemma backoff_0: "backoff 0 = storeSyncRetryMin"
  by (simp add: backoff_def storeSyncRetryMin_def storeSyncRetryMax_def)

lemma next_delay_backoff: "next_delay (backoff n) = backoff (Suc n)"
  by (auto simp: backoff_def next_delay_def storeSyncRetryMin_def storeSyncRetryMax_def min_def)

text \<open>What holds between two turns: the timer that runs is the one the failures ask for, and no other timer runs.\<close>

definition armed :: "SyncLoop \<Rightarrow> int \<Rightarrow> bool" where
  "armed l d \<longleftrightarrow> (\<exists>i < length (SL_timers l). SL_retryTimer l = Some i \<and> SL_retry l = Some i \<and> SL_timers l ! i \<in> {Ticking d, Expired d})"

definition only_retry :: "SyncLoop \<Rightarrow> bool" where
  "only_retry l \<longleftrightarrow> (\<forall>j < length (SL_timers l). SL_retryTimer l \<noteq> Some j \<longrightarrow> SL_timers l ! j = Over)"

definition unarmed :: "SyncLoop \<Rightarrow> bool" where
  "unarmed l \<longleftrightarrow> SL_retryTimer l = None \<and> SL_retry l = None"

definition sync_inv :: "SyncLoop \<times> (sync_trigger \<times> bool) list \<Rightarrow> bool" where
  "sync_inv s \<longleftrightarrow> (let (l, passes) = s in only_retry l \<and>
     (if SL_running l \<and> failing passes then armed l (backoff (failed_retries passes)) \<and> SL_retryDelay l = backoff (Suc (failed_retries passes))
      else unarmed l \<and> SL_retryDelay l = storeSyncRetryMin))"

lemma sync_inv_requested [simp]: "sync_inv (l\<lparr>SL_requested := b\<rparr>, passes) = sync_inv (l, passes)"
  by (simp add: sync_inv_def only_retry_def unarmed_def armed_def)

lemma stopRetry_inv:
  assumes "only_retry l"
  shows "only_retry (stopRetry l) \<and> unarmed (stopRetry l) \<and> SL_retryDelay (stopRetry l) = storeSyncRetryMin"
proof -
  have "(SL_timers l)[i := Over] ! j = Over" if "SL_retryTimer l = Some i" "j < length (SL_timers l)" for i j
    using assms that by (cases "i = j") (auto simp: only_retry_def)
  then show ?thesis using assms by (auto simp: only_retry_def unarmed_def stopRetry_def split: option.split)
qed

lemma sync_run_arms:
  assumes "only_retry l" and "unarmed l" and "SL_retryDelay l = backoff n"
  shows "only_retry (sync_run True l) \<and> armed (sync_run True l) (backoff n) \<and> SL_retryDelay (sync_run True l) = backoff (Suc n)"
  using assms by (auto simp: only_retry_def unarmed_def armed_def sync_run_def nth_append next_delay_backoff)

text \<open>A pass that the timer did not trigger.\<close>

lemma sync_run_inv:
  assumes "sync_inv (l, passes)" and "SL_running l" and "t \<noteq> Retry"
  shows "sync_inv (sync_run failed l, (t, failed) # passes)"
proof (cases failed)
  case False
  then show ?thesis using assms(1) stopRetry_inv [of l] by (simp add: sync_inv_def sync_run_def)
next
  case failed: True
  have running: "SL_running (sync_run True l)" using assms(2) by (simp add: sync_run_def)
  show ?thesis
  proof (cases "failing passes")
    case True
    then have "sync_run True l = l" using assms(1,2) by (auto simp: sync_inv_def sync_run_def armed_def)
    then show ?thesis using True failed assms by (simp add: sync_inv_def)
  next
    case False
    then show ?thesis using failed running assms sync_run_arms [of l 0] failed_retries_none [OF False] by (simp add: sync_inv_def backoff_0)
  qed
qed

text \<open>A pass that the timer triggered.\<close>

lemma retry_inv:
  assumes "sync_inv (l, passes)" and "SL_running l" and "SL_retry l = Some i"
  shows "sync_inv (sync_run failed (receive_retry i l), (Retry, failed) # passes)"
proof -
  have f: "failing passes" using assms by (auto simp: sync_inv_def unarmed_def split: if_splits)
  let ?l = "receive_retry i l"
  have only: "only_retry ?l" "unarmed ?l" "SL_retryDelay ?l = backoff (Suc (failed_retries passes))" "SL_running ?l"
    using assms f by (auto simp: sync_inv_def only_retry_def unarmed_def armed_def receive_retry_def nth_list_update)
  show ?thesis
  proof (cases failed)
    case False
    then show ?thesis using stopRetry_inv [OF only(1)] by (simp add: sync_inv_def sync_run_def)
  next
    case True
    moreover have "SL_running (sync_run True ?l)" using only(4) by (simp add: sync_run_def)
    ultimately show ?thesis using sync_run_arms [OF only(1,2,3)] by (simp add: sync_inv_def)
  qed
qed

lemma expire_inv:
  assumes "sync_inv (l, passes)" and "i < length (SL_timers l)" and "SL_timers l ! i = Ticking d"
  shows "sync_inv (l\<lparr>SL_timers := (SL_timers l)[i := Expired d]\<rparr>, passes)"
proof -
  have i: "SL_retryTimer l = Some i" using assms by (auto simp: sync_inv_def only_retry_def)
  then show ?thesis using assms by (auto simp: sync_inv_def only_retry_def armed_def unarmed_def nth_list_update split: if_splits)
qed

interpretation sync_loop: state_machine "\<lambda>s. s = (sync_start interval, [])" sync_step sync_inv for interval
proof (unfold_locales, goal_cases)
  case (1 s)
  then show ?case by (simp add: sync_inv_def sync_start_def only_retry_def unarmed_def)
next
  case (2 s t)
  from 2(2,1) show ?case
  proof cases
    case (request l passes)
    then show ?thesis using 2(1) by (simp add: RequestSync_def)
  next
    case (expire i l d passes)
    then show ?thesis using 2(1) expire_inv by simp
  next
    case (cancelled l passes)
    then show ?thesis using 2(1) stopRetry_inv [of l] by (simp add: sync_inv_def only_retry_def unarmed_def)
  next
    case (requested l passes failed)
    show ?thesis unfolding requested
      by (rule sync_run_inv) (use 2(1) requested in simp_all)
  next
    case (periodic l passes failed)
    show ?thesis unfolding periodic by (rule sync_run_inv) (use 2(1) periodic in simp_all)
  next
    case (retry l i d passes failed)
    show ?thesis unfolding retry by (rule retry_inv) (use 2(1) retry in simp_all)
  qed
qed

text \<open>From a state with an armed timer the retry is at most the expiry of that timer away.\<close>

lemma armed_retries:
  assumes "armed l d" and "SL_running l"
  shows "\<exists>l'. sync_step\<^sup>*\<^sup>* (l, passes) (l', (Retry, failed) # passes)"
proof -
  obtain i where i: "i < length (SL_timers l)" "SL_retry l = Some i" "SL_timers l ! i \<in> {Ticking d, Expired d}" using assms(1) by (auto simp: armed_def)
  show ?thesis
  proof (cases "SL_timers l ! i = Expired d")
    case True
    then show ?thesis using sync_step.retry [OF assms(2) i(2,1) True] by blast
  next
    case False
    let ?l = "l\<lparr>SL_timers := (SL_timers l)[i := Expired d]\<rparr>"
    have "sync_step (l, passes) (?l, passes)" using i False by (intro sync_step.expire) auto
    moreover have "sync_step (?l, passes) (sync_run failed (receive_retry i ?l), (Retry, failed) # passes)"
      by (rule sync_step.retry [where d = d]) (use i assms(2) in simp_all)
    ultimately show ?thesis by (meson converse_rtranclp_into_rtranclp rtranclp.rtrancl_refl)
  qed
qed

text \<open>C40: The synchronization loop forgets no failure. After any sequence of requests, ticks, timer expiries and passes, as long as the loop runs: when the last pass failed for
  some Bed, there is one timer that still runs or whose value waits unreceived in the channel the loop selects on, made with a delay of one second doubled once for each retry
  that failed since the last successful pass, thirty seconds at most, and nothing but its expiry separates the loop from another retry; when the last pass succeeded or none was made,
  both variables are nil and the next failure starts again from one second. No timer other than that one runs.\<close>

theorem sync_retry_armed:
  assumes "sync_step\<^sup>*\<^sup>* (sync_start interval, []) (l, passes)" and "SL_running l"
  shows "(if failing passes
      then armed l (backoff (failed_retries passes)) \<and> (\<forall>failed. \<exists>l'. sync_step\<^sup>*\<^sup>* (l, passes) (l', (Retry, failed) # passes))
      else SL_retryTimer l = None \<and> SL_retry l = None \<and> SL_retryDelay l = storeSyncRetryMin)
    \<and> (\<forall>j. j < length (SL_timers l) \<longrightarrow> SL_timers l ! j \<noteq> Over \<longrightarrow> SL_retryTimer l = Some j)"
proof -
  have "sync_inv (l, passes)" using sync_loop.inv_reachable [OF refl assms(1)] .
  then show ?thesis using assms(2) armed_retries [of l "backoff (failed_retries passes)" passes]
    by (auto simp: sync_inv_def only_retry_def unarmed_def)
qed

text \<open>Two failed passes, the second of them the retry of the first: a timer of two seconds runs.\<close>

definition two_failures :: SyncLoop where
  "two_failures = \<lparr> SL_interval = 0, SL_running = True, SL_requested = False, SL_timers = [Over, Ticking 2000000000], SL_retryTimer = Some 1, SL_retry = Some 1,
     SL_retryDelay = 4000000000 \<rparr>"

theorem sync_retry_armed_witness:
  "sync_step\<^sup>*\<^sup>* (sync_start 0, []) (two_failures, [(Retry, True), (Requested, True)]) \<and> armed two_failures (backoff 1)
    \<and> (\<exists>l'. sync_step\<^sup>*\<^sup>* (two_failures, [(Retry, True), (Requested, True)]) (l', [(Retry, False), (Retry, True), (Requested, True)]))"
proof -
  let ?a = "sync_run True ((RequestSync (sync_start 0))\<lparr>SL_requested := False\<rparr>)"
  let ?b = "?a\<lparr>SL_timers := (SL_timers ?a)[0 := Expired 1000000000]\<rparr>"
  note defs = sync_run_def RequestSync_def sync_start_def receive_retry_def next_delay_def storeSyncRetryMin_def storeSyncRetryMax_def two_failures_def
  have "sync_step (sync_start 0, []) (RequestSync (sync_start 0), [])" by (rule sync_step.request)
  moreover have "sync_step (RequestSync (sync_start 0), []) (?a, [(Requested, True)])" by (rule sync_step.requested) (simp_all add: defs)
  moreover have "sync_step (?a, [(Requested, True)]) (?b, [(Requested, True)])" by (rule sync_step.expire) (simp_all add: defs)
  moreover have "sync_step (?b, [(Requested, True)]) (sync_run True (receive_retry 0 ?b), [(Retry, True), (Requested, True)])"
    by (rule sync_step.retry) (simp_all add: defs)
  moreover have "sync_run True (receive_retry 0 ?b) = two_failures" by (simp add: defs)
  ultimately have run: "sync_step\<^sup>*\<^sup>* (sync_start 0, []) (two_failures, [(Retry, True), (Requested, True)])"
    by (metis (no_types, lifting) converse_rtranclp_into_rtranclp rtranclp.rtrancl_refl)
  moreover have "SL_running two_failures" by (simp add: two_failures_def)
  ultimately show ?thesis using sync_retry_armed [of 0 two_failures "[(Retry, True), (Requested, True)]"] by simp
qed

end
