(* ===== verification/Spec2Isabelle.thy ===== *)
theory Spec2Isabelle
  imports Net_Dns Net_Ports Bed_Configuration Bed_Contracts Bed_Users Pillow_Ports Pillow_Groups Executions Shell_Sessions Bed_Inventory Bed_Network Net_Pool Net_Subnets Store_Manager
begin

text \<open>
  \<^bold>\<open>Hostel: a verified model of the core of the sandbox daemon\<close>

  Hostel (\<open>src/\<close>) is a daemon that runs Beds: persistent sandboxes with a home directory, processes
  ("pillows"), a Unix user, a network and published ports. Clients create, use, renew and delete
  Beds; the daemon evicts idle ones to a store and brings them back. The development models the Go code
  under \<open>src/internal/bed\<close> and \<open>src/internal/host\<close> that decides, and proves what it decides.

  \<^bold>\<open>The parts and how they interact\<close>

  A request names a Bed. The Bed Manager accepts it (initialization, capacity, purge fence), validates the declaration
  (volumes, mounts, pillows, configuration, network policy), prepares the subsystems (user, network, files, pillows) and publishes
  the Bed as resident. Operations and sessions hold the Bed; commands run as executions; pillows are supervised
  and publish ports through the port registry, which reserves them in the daemon's port allocator. Idle Beds
  are persisted and evicted, which runs the stop and release sequences over the subsystems. The host network
  pool gives each private Bed a namespace, whose policy control decides egress and DNS answers.

  \<^bold>\<open>Theories\<close>

  Foundations:

  \<^item> \<open>Hostel_Prelude\<close>: results, association lists, Go strings, time; the locales \<open>state_machine\<close> and
    \<open>incremental_check\<close> that the components interpret.
  \<^item> \<open>Go_Net\<close>, \<open>Go_Path\<close>: what the sources use of \<open>strconv\<close>, \<open>net\<close>, \<open>net/netip\<close> and \<open>path/filepath\<close>.
  \<^item> \<open>Crash_IO\<close>: computations over external state that may stop at any point, with a judgement about every state they pass.
  \<^item> \<open>Bed_Names\<close> (\<open>bed/manager/shell.go\<close>): UTF-8 and the names of Beds.

  Declarations (pure validation; accepted declarations are in normal form, normalizing again changes nothing):

  \<^item> \<open>Bed_Spec\<close> (\<open>bed/bed.go\<close>, \<open>volumes.go\<close>, \<open>pillows.go\<close>, \<open>paths.go\<close>): accepted mounts are clean, absolute and pairwise disjoint trees.
  \<^item> \<open>Pillow_Spec\<close> (\<open>bed/pillow/spec.go\<close>, \<open>probe_spec.go\<close>): what a normalized set of pillows guarantees, and idempotence.
  \<^item> \<open>Bed_Configuration\<close> (\<open>bed/configuration\<close>): the environment that \<open>Resolve\<close> computes is safe and has the documented precedence.
  \<^item> \<open>Net_Policy\<close> (\<open>host/network/policy.go\<close>): normalization, mutation and decision of egress policies.

  The Bed Manager (\<open>bed/manager\<close>):

  \<^item> \<open>Bed_State\<close>: the state \<open>Manager\<close> with heaps of Beds, initializations and identities, since the code compares pointers.
  \<^item> \<open>Bed_Operations\<close> (\<open>operation.go\<close>, \<open>session.go\<close>, \<open>renew.go\<close>, \<open>pillows.go\<close>), \<open>Bed_Persistence\<close> (\<open>manager.go\<close>, \<open>eviction.go\<close>,
    \<open>lifecycle_state.go\<close>, \<open>component_lifecycle.go\<close>), \<open>Bed_Initialization\<close> (\<open>initialization.go\<close>, \<open>resident.go\<close>,
    \<open>purge.go\<close>, \<open>volume_contract.go\<close>, \<open>local_identity.go\<close>): one definition per critical section, and their compositions.
  \<^item> \<open>Bed_Manager\<close>: the step relation that interleaves them; its invariant gives exact counters, exact in-flight counts, and that an eviction
    commits only when every activity of the Bed is in a finished snapshot.
  \<^item> \<open>Bed_Contracts\<close>: contracts of single requests, on every branch.
  \<^item> \<open>Executions\<close> (\<open>execution.go\<close>, \<open>execution_log.go\<close>): the lifetime of an execution and the registry. The bounded output
    history refines the full output; one terminal cause; what collection keeps.
  \<^item> \<open>Shell_Sessions\<close> (\<open>shell.go\<close>, \<open>session_settings.go\<close>): the framing of a session's commands is transparent, and a session's directory cannot
    inject shell syntax.
  \<^item> \<open>Local_Identity\<close> (\<open>local_identity.go\<close>): the identities of cold Beds and their cleanup, with every state that a crash can leave; what the next
    start recovers.
  \<^item> \<open>Bed_Inventory\<close> (\<open>luggage.go\<close>, \<open>inventory_status.go\<close>): cold data between its watermarks, the rows of the inventory and the status of the instance.
  \<^item> \<open>Lifecycle_Sequences\<close> (\<open>bed/lifecycle.go\<close>, \<open>component_lifecycle.go\<close>, \<open>bed/room.go\<close>): hooks with a retry cursor; stop before
    release over any number of failing attempts.

  Subsystems of a Bed:

  \<^item> \<open>Bed_Users\<close> (\<open>bed/privilege\<close>): the allocator of per-Bed users behind the locale \<open>user_allocator\<close>, its client the privilege
    manager, and the selection of the identity strategy.
  \<^item> \<open>Bed_Network\<close> (\<open>bed/network\<close>): preparation, policy updates and release over the locale \<open>policy_provider\<close>, which the host's policy
    control interprets; the published status is true.
  \<^item> \<open>Port_Mappings\<close> (\<open>bed/network/port_mappings.go\<close>): the registry of published ports over the locale \<open>port_provider\<close>, which the allocator interprets.
  \<^item> \<open>Pillow_Runtime\<close>, \<open>Pillow_Ports\<close> (\<open>bed/pillow\<close>): supervision, readiness, groups; and, composed with the registry and the
    allocator, that supervision gives every port back on every path.
  \<^item> \<open>Pillow_Groups\<close> (\<open>supervision.go\<close>, \<open>manager.go\<close> of \<open>bed/pillow\<close>): the same supervision as small steps with the executions that are alive, interleaved with the manager's requests;
    a ready pillow has exactly one process, which its supervisor watches.

  The Store (\<open>bed/store\<close>):

  \<^item> \<open>Store_Objects\<close> (\<open>sync/objects.go\<close>, \<open>store.go\<close>): a bucket of objects whose requests may fail, or only seem to; the content of a snapshot; the
    locale \<open>snapshot_layout\<close> of what a layout promises.
  \<^item> \<open>Store_Cas\<close>, \<open>Store_Pack\<close>, \<open>Store_Tar\<close>, \<open>Store_Restic\<close> (\<open>sync/cas.go\<close>, \<open>pack.go\<close>, \<open>tar.go\<close>, \<open>restic.go\<close>, \<open>restic_command.go\<close>): the layouts, each an interpretation: snapshots are
    committed in one step and restored exactly, across any number of interrupted attempts.
  \<^item> \<open>Store_Regions\<close>, \<open>Store_Auto\<close>, \<open>Store_Purge\<close> (\<open>sync/auto.go\<close>): which keys a layout touches; the policy that reads all layouts and writes one; purging.
  \<^item> \<open>Store_Guarantees\<close>: what the Store guarantees across layouts, failures and crashes.
  \<^item> \<open>Store_Stage\<close> (\<open>stage.go\<close>): the preparation of a local directory from luggage or a snapshot; with the policy, that a Bed moves between
    carriers without loss.
  \<^item> \<open>Store_Manager\<close> (\<open>manager.go\<close>, \<open>sync.go\<close>, \<open>volumes.go\<close>): a resolved store stays usable, the sync loop with its
    timers forgets no failure, restored Beds have their volumes.

  The host:

  \<^item> \<open>Net_Ports\<close> (\<open>host/network/ports.go\<close>): the TCP port allocator.
  \<^item> \<open>Net_Dns\<close> (\<open>host/network/policy_dns.go\<close>): DNS answers under a policy that may change during the exchange.
  \<^item> \<open>Net_Pool\<close> (\<open>host/network/pool.go\<close>): the pool of network allocations under every interleaving; who owns which endpoint.
  \<^item> \<open>Net_Subnets\<close> (\<open>host/network/backend_linux.go\<close>): the choice of a free /30 network.

  \<^bold>\<open>How the model corresponds to the code\<close>

  A struct is a record whose fields have the source's names behind a short prefix, an enumeration a datatype (or the source's
  string where other strings are possible), a Go map that is iterated or counted an association list with distinct keys.
  Where the code compares pointers, the objects live in a heap that is part of the state. A critical section under a lock is
  one definition; goroutines interleave as steps of an inductive relation, and invariants hold in every reachable state.
  Coarser than the locks are: \<open>persist_prepare\<close>, which joins the check for a purge, the write of the meta file and the reading of the watermark (only the last reads what other goroutines
  change and the commit depends on); \<open>persist_commit\<close>, which includes the meta file written after the lock; \<open>HoldPillow\<close> as a function of one request, while the step relation registers the hold
  as a step of its own; and \<open>PublishMapping\<close>, which confirms a port and opens its forwarder in one step. \<open>mappings_step\<close> has no shutdown of the allocator. When several layouts fail to answer, \<open>inspect_verdict\<close> keeps that
  they failed, not the text that joins their errors.
  An error return is \<open>Inl\<close> of an error type or string. Clock readings, random identifiers and the answers of the kernel, of processes
  and of other programs are arguments, so a theorem holds for all of them; a theorem that needs a promise of such code has it as
  an assumption of a locale or a premise of a step.

  Machine integers: IPv4 addresses, IPv6 groups and user-slot hashes are words; the \<open>int64\<close> cursor of \<open>Logs\<close> wraps
  around explicitly. Counters that count events or bytes that exist (\<open>activitySeq\<close>, output sequence numbers, sizes) are unbounded, as are
  times and durations in nanoseconds.

  Loops: structural recursion, or \<open>function\<close> with a termination proof. The substitution of port variables in a pillow's command (\<open>replace_at\<close>) has
  the length of the string as fuel, of which each turn consumes at least one character; the group loop of the IPv6 parser has eight, the number of groups. Functions that block (\<open>supervise\<close>, \<open>run\<close>)
  take a script of what their environment answers; \<open>None\<close> means that the script ended before the function returned. That
  the supervisor of a pillow makes no more passes than its restart budget allows is a theorem of its own; after them the code waits without a bound, and so does the model (\<open>Waiting\<close>). Loops that retry a cleanup take the list of the failing tries.

  \<^bold>\<open>Findings\<close>

  Theorems show six places where the code departs from its intent: IPv4-mapped deny prefixes never match (\<open>Net_Policy\<close>), a session
  is admitted during an eviction and a forgotten failed initialization is never dropped (\<open>Bed_Contracts\<close>), the largest log cursor
  returns everything (\<open>Executions\<close>), purging a Bed named \<open>beds\<close> deletes the pack snapshot of one named \<open>chunks\<close>, and the archive layout writes
  names that it refuses to read (\<open>Store_Guarantees\<close>).

  \<^bold>\<open>Not modelled\<close>

  Processes and pipes, and what a shell does with a command (\<open>bed/executor\<close>, \<open>host/process\<close>, \<open>host/cgroup\<close>); mount views and sandbox command lines
  (\<open>bed/filesystem\<close>, \<open>host/filesystem\<close>); the S3 client and explicit transfers of \<open>bed/store\<close>; resource accounting and admission
  (\<open>bed/resource\<close>, which computes with floating point); the commands that create namespaces and firewall rules; DNS and TCP forwarding of
  bytes; amenities (browser and MCP proxies); HTTP handlers, JSON encodings, configuration files, tracing. They do input and
  output, or call other programs; what the modelled parts need of them is an argument.
\<close>

end
